(* ===== verification/C_Prelude.thy ===== *)
theory C_Prelude
  imports Main "HOL-Library.Word"
begin

text \<open>
  What every component of the development shares.

  \<^item> C integers. A value of a C integer type is a mathematical \<open>int\<close>; every conversion or
    operation of the source that can leave the range of its type is written out with
    \<open>u32\<close>, \<open>s32\<close>, \<open>u64\<close> or \<open>s64\<close> (the LP64 model of the Linux targets: \<open>int\<close> has 32 bits,
    \<open>long\<close>, \<open>off_t\<close> and \<open>size_t\<close> have 64).
  \<^item> Bytes and buffers. A \<open>char\<close> is an \<open>8 word\<close>, an allocated buffer is a list of bytes,
    and the \<open>mem\<close> functions are \<open>memcpy\<close>, \<open>memmove\<close> and \<open>memset\<close> with an out of bounds
    access (undefined behaviour in C) as \<open>None\<close>.
  \<^item> Results. A run of C code ends normally (\<open>Inr\<close>) or halts the process (\<open>Inl\<close>): it calls
    \<open>exit\<close>, it faults, or it stays in a loop for ever.

  The collections \<open>wrap_simps\<close> (conversions that change nothing on values in range),
  \<open>mem_simps\<close> (buffers) and \<open>res_simps\<close> (results) carry the component proofs.
\<close>

unbundle bit_operations_syntax

named_theorems wrap_simps "conversions between C integer types on values in range"
named_theorems mem_simps "reads and writes of byte buffers"
named_theorems res_simps "sequencing of C code that may halt"

section \<open>C integers\<close>

definition u32 :: "int \<Rightarrow> int" where
  "u32 x = x mod 4294967296"

definition s32 :: "int \<Rightarrow> int" where
  "s32 x = (x + 2147483648) mod 4294967296 - 2147483648"

definition u64 :: "int \<Rightarrow> int" where
  "u64 x = x mod 18446744073709551616"

definition s64 :: "int \<Rightarrow> int" where
  "s64 x = (x + 9223372036854775808) mod 18446744073709551616 - 9223372036854775808"

lemma u32_id [wrap_simps]: "0 \<le> x \<Longrightarrow> x < 4294967296 \<Longrightarrow> u32 x = x"
  by (simp add: u32_def)

lemma s32_id [wrap_simps]: "-2147483648 \<le> x \<Longrightarrow> x < 2147483648 \<Longrightarrow> s32 x = x"
  by (simp add: s32_def)

lemma u64_id [wrap_simps]: "0 \<le> x \<Longrightarrow> x < 18446744073709551616 \<Longrightarrow> u64 x = x"
  by (simp add: u64_def)

lemma s64_id [wrap_simps]:
  "-9223372036854775808 \<le> x \<Longrightarrow> x < 9223372036854775808 \<Longrightarrow> s64 x = x"
  by (simp add: s64_def)

lemma u32_range [simp]: "0 \<le> u32 x" "u32 x < 4294967296"
  by (simp_all add: u32_def)

lemma s32_range [simp]: "-2147483648 \<le> s32 x" "s32 x < 2147483648"
proof -
  have "0 \<le> (x + 2147483648) mod 4294967296" "(x + 2147483648) mod 4294967296 < 4294967296"
    by simp_all
  then show "-2147483648 \<le> s32 x" "s32 x < 2147483648"
    unfolding s32_def by linarith+
qed

lemma u64_range [simp]: "0 \<le> u64 x" "u64 x < 18446744073709551616"
  by (simp_all add: u64_def)

lemma s32_u32 [simp]: "s32 (u32 x) = s32 x"
  by (simp add: s32_def u32_def mod_simps)

lemma u32_s32 [simp]: "u32 (s32 x) = u32 x"
  by (simp add: s32_def u32_def mod_simps)

text \<open>C's division and remainder truncate towards zero.\<close>

definition c_div :: "int \<Rightarrow> int \<Rightarrow> int" where
  "c_div a b = sgn a * sgn b * (\<bar>a\<bar> div \<bar>b\<bar>)"

definition c_rem :: "int \<Rightarrow> int \<Rightarrow> int" where
  "c_rem a b = a - b * c_div a b"

lemma c_div_nonneg [wrap_simps]: "0 \<le> a \<Longrightarrow> 0 < b \<Longrightarrow> c_div a b = a div b"
  by (cases "a = 0") (simp_all add: c_div_def)

lemma c_rem_nonneg [wrap_simps]: "0 \<le> a \<Longrightarrow> 0 < b \<Longrightarrow> c_rem a b = a mod b"
  by (simp add: c_rem_def c_div_nonneg minus_mult_div_eq_mod)

section \<open>Rounding to a boundary\<close>

text \<open>
  The tools round offsets down in two ways: \<open>x - x % b\<close>, for any \<open>b > 0\<close>, and
  \<open>x & ~(b - 1)\<close>, which is the same when \<open>b\<close> is a power of two.
\<close>

definition round_down :: "int \<Rightarrow> int \<Rightarrow> int" where
  "round_down x b = x - x mod b"

lemma round_down_le: "0 < b \<Longrightarrow> round_down x b \<le> x"
  by (simp add: round_down_def)

lemma round_down_nonneg: "0 < b \<Longrightarrow> 0 \<le> x \<Longrightarrow> 0 \<le> round_down x b"
  by (simp add: round_down_def zmod_le_nonneg_dividend)

lemma round_down_dvd: "b dvd round_down x b"
  by (simp add: round_down_def)

lemma round_down_gt: "0 < b \<Longrightarrow> x - b < round_down x b"
  using pos_mod_bound[of b x] by (simp add: round_down_def)

lemma round_down_1 [simp]: "round_down x 1 = x"
  by (simp add: round_down_def)

lemma round_down_id: "b dvd x \<Longrightarrow> round_down x b = x"
  by (simp add: round_down_def)

lemma and_not_mask_round_down: "(x::int) AND NOT (2 ^ k - 1) = round_down x (2 ^ k)"
proof -
  have "x AND NOT (mask k) = push_bit k (drop_bit k x)"
    by (rule bit_eqI) (auto simp: bit_simps)
  also have "\<dots> = round_down x (2 ^ k)"
    by (simp add: push_bit_eq_mult drop_bit_eq_div round_down_def minus_mod_eq_div_mult)
  finally show ?thesis
    by (simp add: mask_eq_exp_minus_1)
qed

text \<open>
  A boundary is a power of two where the code masks (\<open>page_size\<close>, \<open>st_blksize\<close>).
\<close>

definition pow2 :: "int \<Rightarrow> bool" where
  "pow2 b \<longleftrightarrow> (\<exists>k. b = 2 ^ k)"

lemma pow2_pos: "pow2 b \<Longrightarrow> 0 < b"
  by (auto simp: pow2_def)

lemma mask_down [wrap_simps]: "pow2 b \<Longrightarrow> x AND NOT (b - 1) = round_down x b"
  by (auto simp: pow2_def and_not_mask_round_down)

lemma mask_mod [wrap_simps]: "pow2 b \<Longrightarrow> x AND (b - 1) = x mod b" for x :: int
  by (auto simp: pow2_def simp flip: take_bit_eq_mod take_bit_eq_mask mask_eq_exp_minus_1)

lemma mod_step: "0 < m \<Longrightarrow> (x + 1) mod m = (if m \<le> x mod m + 1 then 0 else x mod m + 1)"
  for x m :: int
proof -
  assume m: "0 < m"
  then have "x mod m < m" and "0 \<le> x mod m" by simp_all
  moreover have "(x + 1) mod m = (x mod m + 1) mod m" by (simp add: mod_simps)
  ultimately show ?thesis by (cases "x mod m + 1 = m") simp_all
qed

section \<open>Byte buffers\<close>

type_synonym byte = "8 word"

definition mem_load :: "byte list \<Rightarrow> int \<Rightarrow> int \<Rightarrow> byte list option" where
  "mem_load b off n =
     (if 0 \<le> off \<and> 0 \<le> n \<and> off + n \<le> int (length b)
      then Some (take (nat n) (drop (nat off) b)) else None)"

definition mem_store :: "byte list \<Rightarrow> int \<Rightarrow> byte list \<Rightarrow> byte list option" where
  "mem_store b off bs =
     (if 0 \<le> off \<and> off + int (length bs) \<le> int (length b)
      then Some (take (nat off) b @ bs @ drop (nat off + length bs) b) else None)"

definition mem_set :: "byte list \<Rightarrow> int \<Rightarrow> byte \<Rightarrow> int \<Rightarrow> byte list option" where
  "mem_set b off v n = (if 0 \<le> n then mem_store b off (replicate (nat n) v) else None)"

text \<open>\<open>memmove\<close> within one buffer, and \<open>memcpy\<close>, which must not overlap.\<close>

definition mem_move :: "byte list \<Rightarrow> int \<Rightarrow> int \<Rightarrow> int \<Rightarrow> byte list option" where
  "mem_move b dst src n = Option.bind (mem_load b src n) (mem_store b dst)"

definition mem_copy :: "byte list \<Rightarrow> int \<Rightarrow> int \<Rightarrow> int \<Rightarrow> byte list option" where
  "mem_copy b dst src n =
     (if n = 0 \<or> dst + n \<le> src \<or> src + n \<le> dst then mem_move b dst src n else None)"

lemma mem_load_Some [mem_simps]:
  "0 \<le> off \<Longrightarrow> 0 \<le> n \<Longrightarrow> off + n \<le> int (length b) \<Longrightarrow>
   mem_load b off n = Some (take (nat n) (drop (nat off) b))"
  by (simp add: mem_load_def)

lemma mem_store_Some [mem_simps]:
  "0 \<le> off \<Longrightarrow> off + int (length bs) \<le> int (length b) \<Longrightarrow>
   mem_store b off bs = Some (take (nat off) b @ bs @ drop (nat off + length bs) b)"
  by (simp add: mem_store_def)

lemma mem_set_Some [mem_simps]:
  "0 \<le> off \<Longrightarrow> 0 \<le> n \<Longrightarrow> off + n \<le> int (length b) \<Longrightarrow>
   mem_set b off v n =
     Some (take (nat off) b @ replicate (nat n) v @ drop (nat off + nat n) b)"
  by (simp add: mem_set_def mem_store_def)

lemma mem_store_length: "mem_store b off bs = Some b' \<Longrightarrow> length b' = length b"
  by (auto simp: mem_store_def split: if_splits)

lemma mem_set_length: "mem_set b off v n = Some b' \<Longrightarrow> length b' = length b"
  by (auto simp: mem_set_def dest: mem_store_length split: if_splits)

lemma mem_move_length: "mem_move b d s n = Some b' \<Longrightarrow> length b' = length b"
  by (auto simp: mem_move_def dest: mem_store_length split: bind_splits)

lemma mem_copy_length: "mem_copy b d s n = Some b' \<Longrightarrow> length b' = length b"
  by (auto simp: mem_copy_def dest: mem_move_length split: if_splits)

lemma mem_load_length: "mem_load b off n = Some bs \<Longrightarrow> int (length bs) = n"
  by (auto simp: mem_load_def split: if_splits)

section \<open>Runs that may halt\<close>

text \<open>
  \<open>Exit n\<close>: the process called \<open>exit(n)\<close>; \<open>Abort\<close>: \<open>abort()\<close>; \<open>Fault\<close>: undefined behaviour (an access outside
  an object); \<open>Hang\<close>: a loop that is never left.
\<close>

datatype halt = Exit int | Abort | Fault | Hang

definition on_ok :: "'e + 'a \<Rightarrow> ('a \<Rightarrow> 'e + 'b) \<Rightarrow> 'e + 'b" where
  "on_ok r f = (case r of Inl e \<Rightarrow> Inl e | Inr x \<Rightarrow> f x)"

lemma on_ok_simps [simp]: "on_ok (Inr x) f = f x" "on_ok (Inl e) f = Inl e"
  by (simp_all add: on_ok_def)

lemma on_ok_Inr_iff [res_simps]: "on_ok r f = Inr y \<longleftrightarrow> (\<exists>x. r = Inr x \<and> f x = Inr y)"
  by (cases r) simp_all

lemma on_ok_Inl_iff [res_simps]:
  "on_ok r f = Inl e \<longleftrightarrow> r = Inl e \<or> (\<exists>x. r = Inr x \<and> f x = Inl e)"
  by (cases r) auto

lemma on_ok_cong [cong]: "r = r' \<Longrightarrow> (\<And>x. r' = Inr x \<Longrightarrow> f x = g x) \<Longrightarrow> on_ok r f = on_ok r' g"
  by (cases r') simp_all

text \<open>A run that ends normally in a state with a property, and the rule for sequences.\<close>

definition ok_run :: "('s \<Rightarrow> bool) \<Rightarrow> 'e + 's \<Rightarrow> bool" where
  "ok_run P r = (case r of Inl e \<Rightarrow> False | Inr s \<Rightarrow> P s)"

lemma ok_run_simps [simp]: "ok_run P (Inr s) = P s" "ok_run P (Inl e) = False"
  by (simp_all add: ok_run_def)

lemma ok_run_bind: "ok_run Q r \<Longrightarrow> (\<And>s. Q s \<Longrightarrow> ok_run P (f s)) \<Longrightarrow> ok_run P (on_ok r f)"
  by (cases r) simp_all

lemma ok_run_mono: "ok_run Q r \<Longrightarrow> (\<And>s. Q s \<Longrightarrow> P s) \<Longrightarrow> ok_run P r"
  by (cases r) simp_all

lemma ok_runD: "ok_run P r \<Longrightarrow> \<exists>s. r = Inr s \<and> P s"
  by (cases r) simp_all

definition or_fault :: "'s \<Rightarrow> 'a option \<Rightarrow> (halt \<times> 's) + 'a" where
  "or_fault s x = (case x of None \<Rightarrow> Inl (Fault, s) | Some y \<Rightarrow> Inr y)"

lemma or_fault_simps [simp]:
  "or_fault s (Some y) = Inr y" "or_fault s None = Inl (Fault, s)"
  by (simp_all add: or_fault_def)

lemma or_fault_Inr_iff [res_simps]: "or_fault s x = Inr y \<longleftrightarrow> x = Some y"
  by (cases x) simp_all

end
