(* ===== verification/Flat_File.thy ===== *)
theory Flat_File
  imports C_Prelude
begin

text \<open>
  The abstract file: a list of bytes and what each file operation does to it. It is the
  specification both sides of \<open>fsx\<close> are compared with: the kernel promises it for the file
  under test (theory \<open>Kernel_File\<close>), and the code of \<open>fsx\<close> computes it on \<open>good_buf\<close>
  (theory \<open>Fsx_Shadow\<close>). Offsets and lengths are \<open>nat\<close> here; the lemmas are the equations
  the two refinements share.
\<close>

named_theorems ff_simps "equations of the abstract file operations"

definition ff_read :: "nat \<Rightarrow> nat \<Rightarrow> byte list \<Rightarrow> byte list" where
  "ff_read off n c = take n (drop off c)"

definition ff_truncate :: "nat \<Rightarrow> byte list \<Rightarrow> byte list" where
  "ff_truncate n c = take n c @ replicate (n - length c) 0"

definition ff_pwrite :: "nat \<Rightarrow> byte list \<Rightarrow> byte list \<Rightarrow> byte list" where
  "ff_pwrite off bs c =
     take off c @ replicate (off - length c) 0 @ bs @ drop (off + length bs) c"

definition ff_zero :: "nat \<Rightarrow> nat \<Rightarrow> byte list \<Rightarrow> byte list" where
  "ff_zero off n c = ff_pwrite off (replicate n 0) c"

definition ff_punch :: "nat \<Rightarrow> nat \<Rightarrow> byte list \<Rightarrow> byte list" where
  "ff_punch off n c = ff_zero off (min n (length c - off)) c"

definition ff_collapse :: "nat \<Rightarrow> nat \<Rightarrow> byte list \<Rightarrow> byte list" where
  "ff_collapse off n c = take off c @ drop (off + n) c"

definition ff_insert :: "nat \<Rightarrow> nat \<Rightarrow> byte list \<Rightarrow> byte list" where
  "ff_insert off n c = take off c @ replicate n 0 @ drop off c"

definition ff_clone :: "nat \<Rightarrow> nat \<Rightarrow> nat \<Rightarrow> byte list \<Rightarrow> byte list" where
  "ff_clone src n dst c = ff_pwrite dst (ff_read src n c) c"

lemma length_ff_truncate [ff_simps]: "length (ff_truncate n c) = n"
  by (simp add: ff_truncate_def)

lemma length_ff_pwrite [ff_simps]:
  "length (ff_pwrite off bs c) = max (length c) (off + length bs)"
  by (auto simp: ff_pwrite_def)

lemma length_ff_read [ff_simps]: "length (ff_read off n c) = min n (length c - off)"
  by (simp add: ff_read_def)

lemma length_ff_zero [ff_simps]: "length (ff_zero off n c) = max (length c) (off + n)"
  by (simp add: ff_zero_def length_ff_pwrite)

lemma length_ff_punch [ff_simps]: "off \<le> length c \<Longrightarrow> length (ff_punch off n c) = length c"
  by (simp add: ff_punch_def length_ff_zero)

lemma length_ff_clone [ff_simps]:
  "src + n \<le> length c \<Longrightarrow> length (ff_clone src n dst c) = max (length c) (dst + n)"
  by (simp add: ff_clone_def length_ff_pwrite length_ff_read)

lemma length_ff_collapse [ff_simps]:
  "off + n \<le> length c \<Longrightarrow> length (ff_collapse off n c) = length c - n"
  by (simp add: ff_collapse_def)

lemma length_ff_insert [ff_simps]: "length (ff_insert off n c) = length c + n"
  by (simp add: ff_insert_def)

lemma nth_ff_pwrite:
  "i < max (length c) (off + length bs) \<Longrightarrow>
   ff_pwrite off bs c ! i =
     (if off \<le> i \<and> i < off + length bs then bs ! (i - off)
      else if i < length c then c ! i else 0)"
  by (auto simp: ff_pwrite_def nth_append min_def)

lemma ff_truncate_same [ff_simps]: "ff_truncate (length c) c = c"
  by (simp add: ff_truncate_def)

lemma ff_truncate_le: "n \<le> length c \<Longrightarrow> ff_truncate n c = take n c"
  by (simp add: ff_truncate_def)

lemma ff_truncate_ge: "length c \<le> n \<Longrightarrow> ff_truncate n c = c @ replicate (n - length c) 0"
  by (simp add: ff_truncate_def)

text \<open>Growing and shrinking back changes nothing: the probe \<open>check_trunc_hack\<close> makes.\<close>

lemma ff_truncate_truncate:
  "length c \<le> n \<Longrightarrow> ff_truncate (length c) (ff_truncate n c) = c"
  by (simp add: ff_truncate_def)

text \<open>What was written is read back, and a write leaves the rest of the file alone.\<close>

lemma ff_read_pwrite: "ff_read off (length bs) (ff_pwrite off bs c) = bs"
proof (cases "off \<le> length c")
  case True
  then show ?thesis by (simp add: ff_read_def ff_pwrite_def)
next
  case False
  then show ?thesis by (simp add: ff_read_def ff_pwrite_def)
qed

lemma ff_pwrite_append:
  "ff_pwrite (off + length xs) ys (ff_pwrite off xs c) = ff_pwrite off (xs @ ys) c"
  by (rule nth_equalityI) (auto simp: ff_simps nth_ff_pwrite nth_append less_max_iff_disj)

lemma ff_insert_collapse:
  "off \<le> length c \<Longrightarrow> ff_collapse off n (ff_insert off n c) = c"
  by (simp add: ff_collapse_def ff_insert_def)

text \<open>
  A copy made in two pieces is the copy made at once when the two ranges are disjoint: the
  law behind the loop around \<open>copy_file_range\<close>.
\<close>

lemma ff_clone_split:
  assumes "src + (m + n) \<le> length c" and "src + (m + n) \<le> dst \<or> dst + (m + n) \<le> src"
  shows "ff_clone (src + m) n (dst + m) (ff_clone src m dst c) = ff_clone src (m + n) dst c"
proof -
  have rd: "ff_read (src + m) n (ff_clone src m dst c) = ff_read (src + m) n c"
    using assms
    by (intro nth_equalityI) (auto simp: ff_clone_def ff_simps ff_read_def nth_ff_pwrite)
  have cat: "ff_read src (m + n) c = ff_read src m c @ ff_read (src + m) n c"
    by (simp add: ff_read_def take_add add.commute)
  have len: "length (ff_read src m c) = m"
    using assms by (simp add: ff_simps)
  show ?thesis
    unfolding ff_clone_def cat rd[unfolded ff_clone_def]
    using ff_pwrite_append[of dst "ff_read src m c" "ff_read (src + m) n c" c] len by simp
qed

end
