(* ===== verification/Kernel_File.thy ===== *)
theory Kernel_File
  imports Flat_File
begin

text \<open>
  The interface to the kernel. The kernel is not part of the repository, so it is a parameter
  of the model: a record of functions, one per system call the tools make on a file, over an
  arbitrary state type \<open>'k\<close> for the open file behind a descriptor. Each returns what the call
  returns (\<open>-1\<close> for an error) and the next state.

  \<open>posix_file\<close> is the documented behaviour of those calls on a regular file that nobody
  else writes and that never runs out of space. It is a named hypothesis of the theorems that
  need a well-behaved kernel; theorems about error paths do not use it.
\<close>

section \<open>System calls as functions\<close>

text \<open>The \<open>mode\<close> bits of \<open>fallocate(2)\<close>.\<close>

abbreviation (input) FALLOC_FL_KEEP_SIZE :: int where "FALLOC_FL_KEEP_SIZE \<equiv> 1"
abbreviation (input) FALLOC_FL_PUNCH_HOLE :: int where "FALLOC_FL_PUNCH_HOLE \<equiv> 2"
abbreviation (input) FALLOC_FL_COLLAPSE_RANGE :: int where "FALLOC_FL_COLLAPSE_RANGE \<equiv> 8"
abbreviation (input) FALLOC_FL_ZERO_RANGE :: int where "FALLOC_FL_ZERO_RANGE \<equiv> 16"
abbreviation (input) FALLOC_FL_INSERT_RANGE :: int where "FALLOC_FL_INSERT_RANGE \<equiv> 32"

record 'k kernel =
  k_seek :: "int \<Rightarrow> 'k \<Rightarrow> int \<times> 'k" \<comment> \<open>\<open>lseek(fd, off, SEEK_SET)\<close>\<close>
  k_seek_end :: "'k \<Rightarrow> int \<times> 'k" \<comment> \<open>\<open>lseek(fd, 0, SEEK_END)\<close>\<close>
  k_read :: "int \<Rightarrow> 'k \<Rightarrow> int \<times> byte list \<times> 'k" \<comment> \<open>count; result, bytes stored\<close>
  k_write :: "byte list \<Rightarrow> 'k \<Rightarrow> int \<times> 'k"
  k_aio_read :: "int \<Rightarrow> int \<Rightarrow> 'k \<Rightarrow> int \<times> int \<times> int \<times> byte list \<times> 'k"
    \<comment> \<open>count, offset; \<open>io_submit\<close>, \<open>io_getevents\<close>, \<open>event.res\<close> as a \<open>long\<close>, bytes stored\<close>
  k_aio_write :: "byte list \<Rightarrow> int \<Rightarrow> 'k \<Rightarrow> int \<times> int \<times> int \<times> 'k"
  k_fstat :: "'k \<Rightarrow> int \<times> int \<times> 'k" \<comment> \<open>result, \<open>st_size\<close>\<close>
  k_ftruncate :: "int \<Rightarrow> 'k \<Rightarrow> int \<times> 'k"
  k_fallocate :: "int \<Rightarrow> int \<Rightarrow> int \<Rightarrow> 'k \<Rightarrow> int \<times> 'k" \<comment> \<open>mode, offset, length\<close>
  k_fsync :: "'k \<Rightarrow> int \<times> 'k"
  k_mmap :: "int \<Rightarrow> int \<Rightarrow> 'k \<Rightarrow> int \<times> 'k" \<comment> \<open>length, file offset; address or \<open>-1\<close>\<close>
  k_pload :: "int \<Rightarrow> 'k \<Rightarrow> byte option" \<comment> \<open>load from a shared mapping, by file offset\<close>
  k_pstore :: "int \<Rightarrow> byte list \<Rightarrow> 'k \<Rightarrow> 'k option"
  k_msync :: "'k \<Rightarrow> int \<times> 'k"
  k_munmap :: "'k \<Rightarrow> int \<times> 'k"
  k_close :: "'k \<Rightarrow> int \<times> 'k"
  k_open :: "'k \<Rightarrow> int \<times> 'k" \<comment> \<open>open the same path again\<close>
  k_clone :: "int \<Rightarrow> int \<Rightarrow> int \<Rightarrow> 'k \<Rightarrow> int \<times> 'k" \<comment> \<open>\<open>FICLONERANGE\<close>: source, length, destination\<close>
  k_dedupe :: "int \<Rightarrow> int \<Rightarrow> int \<Rightarrow> 'k \<Rightarrow> int \<times> int \<times> 'k" \<comment> \<open>result, \<open>info[0].status\<close>\<close>
  k_copy :: "int \<Rightarrow> int \<Rightarrow> int \<Rightarrow> 'k \<Rightarrow> int \<times> bool \<times> 'k" \<comment> \<open>result, is \<open>errno\<close> \<open>EAGAIN\<close>\<close>
  k_mark :: "int \<Rightarrow> 'k \<Rightarrow> int \<times> 'k" \<comment> \<open>\<open>system("dmsetup message ...")\<close>\<close>
  k_creat :: "int \<Rightarrow> int \<times> 'k" \<comment> \<open>create the mark file of this number\<close>

text \<open>
  A shared mapping made by \<open>mmap\<close>: its address, the file offset it starts at and its length.
  Memory is mapped in whole pages, so an access is good up to the end of the last page.
\<close>

record mapping =
  m_addr :: int
  m_foff :: int
  m_len :: int

definition map_load :: "'k kernel \<Rightarrow> int \<Rightarrow> mapping \<Rightarrow> int \<Rightarrow> 'k \<Rightarrow> byte option" where
  "map_load K psize m a k =
     (let i = a - m_addr m in
      if 0 \<le> i \<and> i < round_down (m_len m + psize - 1) psize
      then k_pload K (m_foff m + i) k else None)"

fun map_load_n :: "'k kernel \<Rightarrow> int \<Rightarrow> mapping \<Rightarrow> int \<Rightarrow> nat \<Rightarrow> 'k \<Rightarrow> byte list option" where
  "map_load_n K psize m a 0 k = Some []"
| "map_load_n K psize m a (Suc n) k =
     (case map_load K psize m a k of
        None \<Rightarrow> None
      | Some b \<Rightarrow> map_option (Cons b) (map_load_n K psize m (a + 1) n k))"

definition map_store :: "'k kernel \<Rightarrow> int \<Rightarrow> mapping \<Rightarrow> int \<Rightarrow> byte list \<Rightarrow> 'k \<Rightarrow> 'k option" where
  "map_store K psize m a bs k =
     (let i = a - m_addr m in
      if 0 \<le> i \<and> i + int (length bs) \<le> round_down (m_len m + psize - 1) psize
      then k_pstore K (m_foff m + i) bs k else None)"

section \<open>The documented behaviour\<close>

text \<open>
  \<open>content k\<close> is what the file holds and \<open>pos k\<close> the file position; \<open>psize\<close> is the page size,
  \<open>bsize\<close> the block size \<open>stat\<close> reports and \<open>limit\<close> the largest file size. A read beyond the end
  of the file through a mapping sees zero up to the end of the page, as POSIX requires.
\<close>

locale posix_file =
  fixes K :: "'k kernel" and content :: "'k \<Rightarrow> byte list" and pos :: "'k \<Rightarrow> int"
    and live :: "'k \<Rightarrow> bool" and psize bsize limit :: int
  assumes psize: "pow2 psize" and bsize: "pow2 bsize"
    and seek: "live k \<Longrightarrow> 0 \<le> off \<Longrightarrow> off \<le> limit \<Longrightarrow>
      \<exists>k'. k_seek K off k = (off, k') \<and> live k' \<and> content k' = content k \<and> pos k' = off"
    and seek_end: "live k \<Longrightarrow>
      \<exists>k'. k_seek_end K k = (int (length (content k)), k') \<and> live k' \<and> content k' = content k"
    and read: "live k \<Longrightarrow> 0 \<le> n \<Longrightarrow> bs = ff_read (nat (pos k)) (nat n) (content k) \<Longrightarrow>
      \<exists>k'. k_read K n k = (int (length bs), bs, k') \<and> live k' \<and> content k' = content k
        \<and> pos k' = pos k + int (length bs)"
    and pwrite: "live k \<Longrightarrow> pos k + int (length bs) \<le> limit \<Longrightarrow>
      \<exists>k'. k_write K bs k = (int (length bs), k') \<and> live k'
        \<and> content k' = ff_pwrite (nat (pos k)) bs (content k)
        \<and> pos k' = pos k + int (length bs)"
    and aio_read: "live k \<Longrightarrow> 0 \<le> n \<Longrightarrow> 0 \<le> off \<Longrightarrow>
      bs = ff_read (nat off) (nat n) (content k) \<Longrightarrow>
      \<exists>k'. k_aio_read K n off k = (1, 1, int (length bs), bs, k') \<and> live k'
        \<and> content k' = content k"
    and aio_write: "live k \<Longrightarrow> 0 \<le> off \<Longrightarrow> off + int (length bs) \<le> limit \<Longrightarrow>
      \<exists>k'. k_aio_write K bs off k = (1, 1, int (length bs), k') \<and> live k'
        \<and> content k' = ff_pwrite (nat off) bs (content k)"
    and fstat: "live k \<Longrightarrow>
      \<exists>k'. k_fstat K k = (0, int (length (content k)), k') \<and> live k' \<and> content k' = content k
        \<and> pos k' = pos k"
    and ftruncate: "live k \<Longrightarrow> 0 \<le> n \<Longrightarrow> n \<le> limit \<Longrightarrow>
      \<exists>k'. k_ftruncate K n k = (0, k') \<and> live k' \<and> content k' = ff_truncate (nat n) (content k)
        \<and> pos k' = pos k"
    and alloc: "live k \<Longrightarrow> 0 \<le> off \<Longrightarrow> 0 < n \<Longrightarrow> off + n \<le> limit \<Longrightarrow>
      \<exists>k'. k_fallocate K 0 off n k = (0, k') \<and> live k'
        \<and> content k' = ff_truncate (max (nat (off + n)) (length (content k))) (content k)"
    and alloc_keep: "live k \<Longrightarrow> 0 \<le> off \<Longrightarrow> 0 < n \<Longrightarrow> off + n \<le> limit \<Longrightarrow>
      \<exists>k'. k_fallocate K FALLOC_FL_KEEP_SIZE off n k = (0, k') \<and> live k'
        \<and> content k' = content k"
    and punch: "live k \<Longrightarrow> 0 \<le> off \<Longrightarrow> 0 < n \<Longrightarrow> off + n \<le> limit \<Longrightarrow>
      \<exists>k'. k_fallocate K (FALLOC_FL_PUNCH_HOLE + FALLOC_FL_KEEP_SIZE) off n k = (0, k') \<and> live k'
        \<and> content k' = ff_punch (nat off) (nat n) (content k)"
    and zero: "live k \<Longrightarrow> 0 \<le> off \<Longrightarrow> 0 < n \<Longrightarrow> off + n \<le> limit \<Longrightarrow>
      \<exists>k'. k_fallocate K FALLOC_FL_ZERO_RANGE off n k = (0, k') \<and> live k'
        \<and> content k' = ff_zero (nat off) (nat n) (content k)"
    and collapse: "live k \<Longrightarrow> 0 \<le> off \<Longrightarrow> 0 < n \<Longrightarrow> bsize dvd off \<Longrightarrow> bsize dvd n \<Longrightarrow>
      off + n < int (length (content k)) \<Longrightarrow>
      \<exists>k'. k_fallocate K FALLOC_FL_COLLAPSE_RANGE off n k = (0, k') \<and> live k'
        \<and> content k' = ff_collapse (nat off) (nat n) (content k)"
    and insert: "live k \<Longrightarrow> 0 \<le> off \<Longrightarrow> 0 < n \<Longrightarrow> bsize dvd off \<Longrightarrow> bsize dvd n \<Longrightarrow>
      off < int (length (content k)) \<Longrightarrow> int (length (content k)) + n \<le> limit \<Longrightarrow>
      \<exists>k'. k_fallocate K FALLOC_FL_INSERT_RANGE off n k = (0, k') \<and> live k'
        \<and> content k' = ff_insert (nat off) (nat n) (content k)"
    and fsync: "live k \<Longrightarrow>
      \<exists>k'. k_fsync K k = (0, k') \<and> live k' \<and> content k' = content k \<and> pos k' = pos k"
    and mmap: "live k \<Longrightarrow> 0 < n \<Longrightarrow> n < 4294967296 \<Longrightarrow> 0 \<le> off \<Longrightarrow> psize dvd off \<Longrightarrow>
      \<exists>a k'. k_mmap K n off k = (a, k') \<and> 0 < a \<and> a + n < 18446744073709551616 \<and> psize dvd a
        \<and> live k' \<and> content k' = content k"
    and pload: "live k \<Longrightarrow> 0 \<le> off \<Longrightarrow>
      off < round_down (int (length (content k)) + psize - 1) psize \<Longrightarrow>
      k_pload K off k = Some (if off < int (length (content k)) then content k ! nat off else 0)"
    and pstore: "live k \<Longrightarrow> 0 \<le> off \<Longrightarrow> off + int (length bs) \<le> int (length (content k)) \<Longrightarrow>
      \<exists>k'. k_pstore K off bs k = Some k' \<and> live k'
        \<and> content k' = ff_pwrite (nat off) bs (content k)"
    and msync: "live k \<Longrightarrow> \<exists>k'. k_msync K k = (0, k') \<and> live k' \<and> content k' = content k"
    and munmap: "live k \<Longrightarrow> \<exists>k'. k_munmap K k = (0, k') \<and> live k' \<and> content k' = content k"
    and close_open: "live k \<Longrightarrow>
      \<exists>k1 d k2. k_close K k = (0, k1) \<and> k_open K k1 = (d, k2) \<and> 0 \<le> d \<and> live k2
        \<and> content k2 = content k"
    and clone: "live k \<Longrightarrow> 0 \<le> src \<Longrightarrow> 0 < n \<Longrightarrow> 0 \<le> dst \<Longrightarrow>
      bsize dvd src \<Longrightarrow> bsize dvd n \<Longrightarrow> bsize dvd dst \<Longrightarrow>
      src + n \<le> int (length (content k)) \<Longrightarrow> dst + n \<le> limit \<Longrightarrow>
      src + n \<le> dst \<or> dst + n \<le> src \<Longrightarrow>
      \<exists>k'. k_clone K src n dst k = (0, k') \<and> live k'
        \<and> content k' = ff_clone (nat src) (nat n) (nat dst) (content k)"
    and dedupe: "live k \<Longrightarrow> 0 \<le> src \<Longrightarrow> 0 < n \<Longrightarrow> 0 \<le> dst \<Longrightarrow>
      bsize dvd src \<Longrightarrow> bsize dvd n \<Longrightarrow> bsize dvd dst \<Longrightarrow>
      src + n \<le> int (length (content k)) \<Longrightarrow> dst + n \<le> int (length (content k)) \<Longrightarrow>
      \<exists>st k'. k_dedupe K src n dst k = (0, st, k') \<and> 0 \<le> st \<and> live k' \<and> content k' = content k"
    and copy: "live k \<Longrightarrow> 0 \<le> src \<Longrightarrow> 0 < n \<Longrightarrow> 0 \<le> dst \<Longrightarrow>
      src + n \<le> int (length (content k)) \<Longrightarrow> dst + n \<le> limit \<Longrightarrow>
      src + n \<le> dst \<or> dst + n \<le> src \<Longrightarrow>
      \<exists>nr again k'. k_copy K src dst n k = (nr, again, k') \<and> 0 < nr \<and> nr \<le> n \<and> live k'
        \<and> content k' = ff_clone (nat src) (nat nr) (nat dst) (content k)"
    and mark: "live k \<Longrightarrow>
      \<exists>k'. k_mark K i k = (0, k') \<and> live k' \<and> content k' = content k \<and> pos k' = pos k"
    and creat: "\<exists>d k'. k_creat K i = (d, k') \<and> 0 < d \<and> live k' \<and> content k' = [] \<and> pos k' = 0"
begin

lemma psize_pos: "0 < psize"
  using psize by (rule pow2_pos)

text \<open>Loads within the file and within the mapping return the bytes of the file.\<close>

lemma map_load_eq:
  assumes "live k" and "0 \<le> m_foff m" and "m_addr m \<le> a"
    and "a - m_addr m < round_down (m_len m + psize - 1) psize"
    and "m_foff m + (a - m_addr m) < round_down (int (length (content k)) + psize - 1) psize"
  shows "map_load K psize m a k =
    Some (if m_foff m + (a - m_addr m) < int (length (content k))
          then content k ! nat (m_foff m + (a - m_addr m)) else 0)"
  using assms by (simp add: map_load_def Let_def pload)

lemma map_load_n_eq:
  assumes "live k" and "0 \<le> m_foff m" and "m_addr m \<le> a"
    and "a - m_addr m + int n \<le> m_len m"
    and "m_foff m + (a - m_addr m) + int n \<le> int (length (content k))"
  shows "map_load_n K psize m a n k =
    Some (ff_read (nat (m_foff m + (a - m_addr m))) n (content k))"
  using assms
proof (induction n arbitrary: a)
  case 0
  then show ?case by (simp add: ff_read_def)
next
  case (Suc n)
  let ?o = "m_foff m + (a - m_addr m)"
  have up: "x \<le> round_down (x + psize - 1) psize" for x
    using round_down_gt[OF psize_pos, of "x + psize - 1"] by simp
  have one: "map_load K psize m a k = Some (content k ! nat ?o)"
    using Suc.prems up[of "m_len m"] up[of "int (length (content k))"]
    by (subst map_load_eq) auto
  have rest: "map_load_n K psize m (a + 1) n k = Some (ff_read (nat (?o + 1)) n (content k))"
    using Suc.prems Suc.IH[of "a + 1"] by (simp add: algebra_simps)
  have "nat ?o < length (content k)" and "nat (?o + 1) = Suc (nat ?o)"
    using Suc.prems by auto
  then show ?case
    by (simp add: one rest ff_read_def take_Suc_conv_app_nth Cons_nth_drop_Suc
        flip: take_Suc_Cons)
qed

lemma map_store_ok:
  assumes "live k" and "0 \<le> m_foff m" and "m_addr m \<le> a"
    and "a - m_addr m + int (length bs) \<le> m_len m"
    and "m_foff m + (a - m_addr m) + int (length bs) \<le> int (length (content k))"
  shows "\<exists>k'. map_store K psize m a bs k = Some k' \<and> live k'
    \<and> content k' = ff_pwrite (nat (m_foff m + (a - m_addr m))) bs (content k)"
proof -
  have "m_len m \<le> round_down (m_len m + psize - 1) psize"
    using round_down_gt[OF psize_pos, of "m_len m + psize - 1"] by simp
  then show ?thesis
    using assms pstore[of k "m_foff m + (a - m_addr m)" bs]
    by (simp add: map_store_def Let_def)
qed

end

end
