(* ===== verification/Fsx_State.thy ===== *)
theory Fsx_State
  imports Kernel_File
begin

text \<open>
  The data of \<open>fsx.c\<close>: the enumerations, the log entry, the command line configuration and
  the global variables that an operation can change. The globals are one record, in three
  layers so that the functions that only touch a part of them say so: \<open>shadow\<close> (the copy of
  the file \<open>fsx\<close> keeps in memory), \<open>logged\<close> (plus the operation log) and \<open>fsx\<close> (plus the rest,
  with the file under test as a kernel state). \<open>prt\<close>, \<open>prterr\<close> and \<open>warn\<close> only print, so the
  variables that only steer printing (\<open>quiet\<close>, \<open>progressinterval\<close>, \<open>monitorstart\<close>,
  \<open>monitorend\<close>) appear in the command line parser alone.
\<close>

section \<open>Operations and the log entry\<close>

datatype fop = Op_read | Op_write | Op_mapread | Op_mapwrite | Op_truncate | Op_fallocate
  | Op_punch_hole | Op_zero_range | Op_collapse_range | Op_insert_range | Op_clone_range
  | Op_dedupe_range | Op_copy_range | Op_fsync

fun fop_code :: "fop \<Rightarrow> int" where
  "fop_code Op_read = 0"
| "fop_code Op_write = 1"
| "fop_code Op_mapread = 2"
| "fop_code Op_mapwrite = 3"
| "fop_code Op_truncate = 4"
| "fop_code Op_fallocate = 5"
| "fop_code Op_punch_hole = 6"
| "fop_code Op_zero_range = 7"
| "fop_code Op_collapse_range = 8"
| "fop_code Op_insert_range = 9"
| "fop_code Op_clone_range = 10"
| "fop_code Op_dedupe_range = 11"
| "fop_code Op_copy_range = 12"
| "fop_code Op_fsync = 13"

abbreviation (input) OP_MAX_LITE :: int where "OP_MAX_LITE \<equiv> 4"
abbreviation (input) OP_MAX_FULL :: int where "OP_MAX_FULL \<equiv> 13"
abbreviation (input) OP_MAX_INTEGRITY :: int where "OP_MAX_INTEGRITY \<equiv> 14"

text \<open>The enumeration in order; a \<open>switch\<close> on a code looks its operation up.\<close>

definition fops :: "fop list" where
  "fops = [Op_read, Op_write, Op_mapread, Op_mapwrite, Op_truncate, Op_fallocate, Op_punch_hole,
     Op_zero_range, Op_collapse_range, Op_insert_range, Op_clone_range, Op_dedupe_range,
     Op_copy_range, Op_fsync]"

definition fop_of :: "int \<Rightarrow> fop option" where
  "fop_of i = (if 0 \<le> i \<and> i < int (length fops) then Some (fops ! nat i) else None)"

lemma fop_of_code [simp]: "fop_of (fop_code p) = Some p"
  by (cases p) (simp_all add: fop_of_def fops_def)

lemma fop_of_Some: "fop_of i = Some p \<Longrightarrow> i = fop_code p"
proof -
  assume a: "fop_of i = Some p"
  then have "nat i < 14" and "p = fops ! nat i" and "0 \<le> i"
    by (auto simp: fop_of_def fops_def split: if_splits)
  moreover have "\<forall>n < 14. fop_code (fops ! n) = int n"
    by (simp add: fops_def numeral_eq_Suc All_less_Suc)
  ultimately show ?thesis by auto
qed

text \<open>\<open>enum opflags\<close>: a set of three bits.\<close>

record opflags =
  fl_skipped :: bool
  fl_close_open :: bool
  fl_keep_size :: bool

definition FL_NONE :: opflags where
  "FL_NONE = \<lparr>fl_skipped = False, fl_close_open = False, fl_keep_size = False\<rparr>"

definition FL_SKIPPED :: opflags where
  "FL_SKIPPED = FL_NONE\<lparr>fl_skipped := True\<rparr>"

definition FL_KEEP_SIZE :: opflags where
  "FL_KEEP_SIZE = FL_NONE\<lparr>fl_keep_size := True\<rparr>"

definition keep_flag :: "bool \<Rightarrow> opflags" where
  "keep_flag keep_size = (if keep_size then FL_KEEP_SIZE else FL_NONE)"

text \<open>\<open>args\<close> is the array of four, always of length 4.\<close>

record log_entry =
  operation :: int
  nr_args :: int
  args :: "int list"
  flags :: opflags

definition zero_entry :: log_entry where
  "zero_entry = \<lparr>operation = 0, nr_args = 0, args = [0, 0, 0, 0], flags = FL_NONE\<rparr>"

abbreviation (input) LOGSIZE :: int where "LOGSIZE \<equiv> 10000"

section \<open>Global variables\<close>

record shadow =
  good_buf :: "byte list"
  file_size :: int

record logged = shadow +
  oplog :: "int \<Rightarrow> log_entry"
  logptr :: int
  logcount :: int
  closeopen :: bool
  badoff :: int

record 'k fsx = logged +
  original_buf :: "byte list"
  temp_buf :: "byte list"
  check_buf :: "byte list"
  biggest :: int
  testcalls :: int
  debug :: bool
  mark_nr :: int
  rpos :: nat \<comment> \<open>calls of \<open>random\<close> so far\<close>
  replayopsf :: "string option" \<comment> \<open>what is left to read of the replay file\<close>
  kern :: 'k \<comment> \<open>the file behind \<open>fd\<close>\<close>
  goodfile :: 'k \<comment> \<open>the file behind \<open>fsxgoodfd\<close>\<close>
  opsfile :: "string option" \<comment> \<open>what \<open>logdump\<close> wrote\<close>
  marks :: "(int \<times> 'k) list" \<comment> \<open>files \<open>dump_fsync_buffer\<close> wrote\<close>

text \<open>What the command line, \<open>stat\<close> and the probes of \<open>main\<close> settle before the first operation.\<close>

record config =
  simulatedopcount :: int
  closeprob :: int
  debugstart :: int
  filldata :: byte
  flush :: bool
  do_fsync :: bool
  maxfilelen :: int
  sizechecks :: bool
  maxoplen :: int
  readbdy :: int
  style :: int
  truncbdy :: int
  writebdy :: int
  lite :: bool
  randomoplen :: bool
  mapped_writes :: bool
  mapped_reads :: bool
  fallocate_calls :: bool
  keep_size_calls :: bool
  punch_hole_calls :: bool
  zero_range_calls :: bool
  collapse_range_calls :: bool
  insert_range_calls :: bool
  clone_range_calls :: bool
  dedupe_range_calls :: bool
  copy_range_calls :: bool
  check_file :: bool
  integrity :: bool
  o_direct :: bool
  aio :: bool
  block_size :: int
  page_size :: int

abbreviation page_mask :: "config \<Rightarrow> int" where
  "page_mask c \<equiv> page_size c - 1"

text \<open>The initial values of the globals (the defaults of the options).\<close>

definition default_config :: config where
  "default_config = \<lparr>simulatedopcount = 0, closeprob = 0, debugstart = 0, filldata = 0,
     flush = False, do_fsync = False, maxfilelen = 256 * 1024, sizechecks = True,
     maxoplen = 64 * 1024, readbdy = 1, style = 0, truncbdy = 1, writebdy = 1, lite = False,
     randomoplen = True, mapped_writes = True, mapped_reads = True, fallocate_calls = True,
     keep_size_calls = True, punch_hole_calls = True, zero_range_calls = True,
     collapse_range_calls = True, insert_range_calls = True, clone_range_calls = True,
     dedupe_range_calls = True, copy_range_calls = True, check_file = False, integrity = False,
     o_direct = False, aio = False, block_size = 0, page_size = 0\<rparr>"

text \<open>The range a command line can leave the configuration in (see \<open>Fsx_Options\<close>).\<close>

definition wf_config :: "config \<Rightarrow> bool" where
  "wf_config c \<longleftrightarrow>
     0 < readbdy c \<and> readbdy c < 2147483648 \<and> 0 < writebdy c \<and> writebdy c < 2147483648
     \<and> 0 < truncbdy c \<and> truncbdy c < 2147483648 \<and> 0 < maxoplen c \<and> maxoplen c < 2147483648
     \<and> 0 < maxfilelen c \<and> maxfilelen c < 2147483648 \<and> 0 \<le> simulatedopcount c
     \<and> pow2 (block_size c) \<and> pow2 (page_size c)
     \<and> block_size c < 2147483648 \<and> page_size c < 2147483648"

end
