(* ===== verification/C_Text.thy ===== *)
theory C_Text
  imports C_Prelude
begin

text \<open>
  The parts of \<open>stdio\<close>, \<open>string.h\<close> and \<open>stdlib.h\<close> the tools use on text: \<open>%x\<close> and \<open>%d\<close>
  output, \<open>strtoul\<close> and \<open>strtol\<close> with base 0, \<open>strtok\<close> and \<open>fgets\<close>. A C string is the list of
  its characters without the final NUL. The lemmas are the round trip of hexadecimal numbers
  and of words separated by single blanks.
\<close>

named_theorems text_simps "printing and scanning of text"

section \<open>Numbers\<close>

abbreviation NL :: char where "NL \<equiv> CHR 0x0A"
abbreviation TAB :: char where "TAB \<equiv> CHR 0x09"

definition digit_chr :: "nat \<Rightarrow> char" where
  "digit_chr d = (if d < 10 then char_of (48 + d) else char_of (87 + d))"

text \<open>The value of a digit in the largest base, 36; letters of both cases.\<close>

definition digit_val :: "char \<Rightarrow> nat option" where
  "digit_val c = (let n = of_char c :: nat in
     if 48 \<le> n \<and> n \<le> 57 then Some (n - 48)
     else if 97 \<le> n \<and> n \<le> 122 then Some (n - 87)
     else if 65 \<le> n \<and> n \<le> 90 then Some (n - 55)
     else None)"

fun to_base :: "nat \<Rightarrow> nat \<Rightarrow> string" where
  "to_base b n =
     (if b < 2 \<or> n < b then [digit_chr n] else to_base b (n div b) @ [digit_chr (n mod b)])"

declare to_base.simps [simp del]

text \<open>\<open>0x%x\<close> of an \<open>int\<close>: the bits as an unsigned number.\<close>

definition fmt_0x :: "int \<Rightarrow> string" where
  "fmt_0x x = ''0x'' @ to_base 16 (nat (u32 x))"

definition fmt_x :: "int \<Rightarrow> string" where
  "fmt_x x = to_base 16 (nat (u32 x))"

text \<open>\<open>%d\<close> and \<open>%3d\<close>.\<close>

definition fmt_d :: "int \<Rightarrow> string" where
  "fmt_d x = (if x < 0 then CHR ''-'' # to_base 10 (nat (- x)) else to_base 10 (nat x))"

definition fmt_3d :: "int \<Rightarrow> string" where
  "fmt_3d x = replicate (3 - length (fmt_d x)) (CHR '' '') @ fmt_d x"

definition is_digit :: "nat \<Rightarrow> char \<Rightarrow> bool" where
  "is_digit b c = (case digit_val c of None \<Rightarrow> False | Some d \<Rightarrow> d < b)"

fun scan_digits :: "nat \<Rightarrow> string \<Rightarrow> int \<Rightarrow> int \<times> string" where
  "scan_digits b [] acc = (acc, [])"
| "scan_digits b (c # cs) acc =
     (if is_digit b c then scan_digits b cs (acc * int b + int (the (digit_val c)))
      else (acc, c # cs))"

definition isspace :: "char \<Rightarrow> bool" where
  "isspace c \<longleftrightarrow> c \<in> {CHR '' '', TAB, NL, CHR 0x0B, CHR 0x0C, CHR 0x0D}"

text \<open>
  The subject sequence of \<open>strtol\<close> and \<open>strtoul\<close> with base 0: blanks, a sign, then a
  number whose prefix chooses the base. No digits: the value is 0 and nothing is consumed.
  The result is the sign, the magnitude and what \<open>endptr\<close> points at.
\<close>

definition scan_number :: "string \<Rightarrow> bool \<times> int \<times> string" where
  "scan_number s =
     (let t = dropWhile isspace s;
          neg = (t \<noteq> [] \<and> hd t = CHR ''-'');
          u = (if t \<noteq> [] \<and> (hd t = CHR ''-'' \<or> hd t = CHR ''+'') then tl t else t)
      in case u of
           c # x # d # r \<Rightarrow>
             if c = CHR ''0'' \<and> (x = CHR ''x'' \<or> x = CHR ''X'') \<and> is_digit 16 d
             then (neg, scan_digits 16 (d # r) 0)
             else if c = CHR ''0'' then (neg, scan_digits 8 u 0)
             else if is_digit 10 c then (neg, scan_digits 10 u 0)
             else (False, 0, s)
         | c # r \<Rightarrow>
             if c = CHR ''0'' then (neg, scan_digits 8 u 0)
             else if is_digit 10 c then (neg, scan_digits 10 u 0)
             else (False, 0, s)
         | [] \<Rightarrow> (False, 0, s))"

definition strtoul0 :: "string \<Rightarrow> int \<times> string" where
  "strtoul0 s = (case scan_number s of (neg, v, r) \<Rightarrow>
     (if 18446744073709551615 < v then 18446744073709551615
      else if neg then u64 (- v) else v, r))"

definition strtol0 :: "string \<Rightarrow> int \<times> string" where
  "strtol0 s = (case scan_number s of (neg, v, r) \<Rightarrow>
     (if neg then (if 9223372036854775808 < v then -9223372036854775808 else - v)
      else if 9223372036854775807 < v then 9223372036854775807 else v, r))"

text \<open>\<open>atoi\<close>: the \<open>int\<close> part of what \<open>strtol\<close> reads in base 10.\<close>

definition atoi :: "string \<Rightarrow> int" where
  "atoi s =
     (let t = dropWhile isspace s;
          neg = (t \<noteq> [] \<and> hd t = CHR ''-'');
          v = fst (scan_digits 10 (if t \<noteq> [] \<and> (hd t = CHR ''-'' \<or> hd t = CHR ''+'') then tl t else t) 0)
      in s32 (if neg then max (-9223372036854775808) (- v) else min 9223372036854775807 v))"

lemma is_digit_chr: "b \<le> 16 \<Longrightarrow> d < b \<Longrightarrow> is_digit b (digit_chr d) \<and> digit_val (digit_chr d) = Some d"
  by (auto simp: is_digit_def digit_val_def digit_chr_def Let_def)

lemma scan_digits_append:
  "list_all (is_digit b) ds \<Longrightarrow>
   scan_digits b (ds @ cs) acc =
     scan_digits b cs (foldl (\<lambda>a c. a * int b + int (the (digit_val c))) acc ds)"
  by (induction ds arbitrary: acc) simp_all

lemma to_base_digits:
  assumes "2 \<le> b" and "b \<le> 16"
  shows "list_all (is_digit b) (to_base b n)"
  using assms
proof (induction b n rule: to_base.induct)
  case (1 b n)
  have last: "is_digit b (digit_chr (n mod b))"
    using 1 is_digit_chr[of b "n mod b"] by simp
  show ?case
  proof (cases "n < b")
    case True
    with last 1 show ?thesis by (subst to_base.simps) simp
  next
    case False
    with last 1 show ?thesis by (subst to_base.simps) simp
  qed
qed

lemma to_base_value:
  assumes "2 \<le> b" and "b \<le> 16"
  shows "foldl (\<lambda>a c. a * int b + int (the (digit_val c))) 0 (to_base b n) = int n"
  using assms
proof (induction b n rule: to_base.induct)
  case (1 b n)
  have val: "digit_val (digit_chr (n mod b)) = Some (n mod b)"
    using 1 is_digit_chr[of b "n mod b"] by simp
  show ?case
  proof (cases "n < b")
    case True
    with val 1 show ?thesis by (subst to_base.simps) simp
  next
    case False
    have "int (n div b) * int b + int (n mod b) = int n"
      by (simp flip: of_nat_mult of_nat_add)
    with False val 1 show ?thesis by (subst to_base.simps) simp
  qed
qed

lemma to_base_Cons: "\<exists>c cs. to_base b n = c # cs"
  by (induction b n rule: to_base.induct) (subst to_base.simps, auto)

lemma scan_to_base:
  "2 \<le> b \<Longrightarrow> b \<le> 16 \<Longrightarrow> cs = [] \<or> \<not> is_digit b (hd cs) \<Longrightarrow>
   scan_digits b (to_base b n @ cs) 0 = (int n, cs)"
  using scan_digits_append[of b "to_base b n" cs 0]
  by (cases cs) (simp_all add: to_base_digits to_base_value)

text \<open>\<open>strtoul\<close> reads back what \<open>0x%x\<close> printed, and stops at its end.\<close>

lemma strtoul0_fmt_0x [text_simps]: "strtoul0 (fmt_0x x) = (u32 x, [])"
proof -
  obtain c cs where dg: "to_base 16 (nat (u32 x)) = c # cs"
    using to_base_Cons by blast
  have hex: "is_digit 16 c"
    using to_base_digits[of 16 "nat (u32 x)"] dg by simp
  have "scan_number (fmt_0x x) = (False, int (nat (u32 x)), [])"
    using hex scan_to_base[of 16 "[]" "nat (u32 x)"]
    by (simp add: scan_number_def fmt_0x_def isspace_def dg Let_def del: scan_digits.simps)
  moreover have "\<not> 18446744073709551615 < u32 x"
    using u32_range(2)[of x] by linarith
  ultimately show ?thesis
    by (simp add: strtoul0_def)
qed

section \<open>Words of a line\<close>

text \<open>\<open>strtok(line, " \t\n")\<close> and its successors: the maximal runs without a delimiter.\<close>

definition is_delim :: "char \<Rightarrow> bool" where
  "is_delim c \<longleftrightarrow> c \<in> {CHR '' '', TAB, NL}"

function strtoks :: "string \<Rightarrow> string list" where
  "strtoks s = (let t = dropWhile is_delim s in
     if t = [] then []
     else takeWhile (\<lambda>c. \<not> is_delim c) t # strtoks (dropWhile (\<lambda>c. \<not> is_delim c) t))"
  by pat_completeness auto
termination
proof (relation "measure length", goal_cases)
  case 1
  show ?case by simp
next
  case (2 s t)
  obtain c cs where "t = c # cs" and c: "\<not> is_delim c"
    using 2 by (metis hd_dropWhile neq_Nil_conv list.sel(1))
  then have "length (dropWhile (\<lambda>c. \<not> is_delim c) t) \<le> length cs"
    by (simp add: length_dropWhile_le)
  also have "length cs < length t" using \<open>t = c # cs\<close> by simp
  also have "length t \<le> length s" using 2(1) by (simp add: length_dropWhile_le)
  finally show ?case by simp
qed

declare strtoks.simps [simp del]

definition word :: "string \<Rightarrow> bool" where
  "word w \<longleftrightarrow> w \<noteq> [] \<and> list_all (\<lambda>c. \<not> is_delim c) w"

lemma strtoks_Nil [simp]: "strtoks [] = []"
  by (subst strtoks.simps) simp

lemma strtoks_delim [text_simps]: "is_delim c \<Longrightarrow> strtoks (c # s) = strtoks s"
  by (subst (1 2) strtoks.simps) simp

lemma strtoks_word:
  assumes "word w" and "s = [] \<or> is_delim (hd s)"
  shows "strtoks (w @ s) = w # strtoks s"
proof -
  obtain c cs where w: "w = c # cs" "\<not> is_delim c"
    using assms(1) by (cases w) (auto simp: word_def)
  have all: "\<forall>x \<in> set w. \<not> is_delim x"
    using assms(1) by (simp add: word_def list_all_iff)
  have "takeWhile (\<lambda>c. \<not> is_delim c) (w @ s) = w"
    using all assms(2) by (cases s) (simp_all add: takeWhile_append)
  moreover have "dropWhile (\<lambda>c. \<not> is_delim c) (w @ s) = s"
    using all assms(2) by (cases s) (simp_all add: dropWhile_append)
  moreover have "dropWhile is_delim (w @ s) = w @ s"
    using w by simp
  ultimately show ?thesis
    using w by (subst strtoks.simps) simp
qed

text \<open>A line of words, each after the first behind one blank, is read back as its words.\<close>

definition unwords :: "string \<Rightarrow> string list \<Rightarrow> string" where
  "unwords w ws = w @ concat (map (\<lambda>v. '' '' @ v) ws) @ [NL]"

lemma strtoks_unwords:
  "word w \<Longrightarrow> list_all word ws \<Longrightarrow> strtoks (unwords w ws) = w # ws"
proof (induction ws arbitrary: w)
  case Nil
  have "strtoks (w @ [NL]) = w # strtoks [NL]"
    using Nil by (intro strtoks_word) (simp_all add: is_delim_def)
  then show ?case by (simp add: unwords_def strtoks_delim is_delim_def)
next
  case (Cons v ws)
  have "strtoks (w @ '' '' @ unwords v ws) = w # strtoks ('' '' @ unwords v ws)"
    using Cons.prems by (intro strtoks_word) (simp_all add: is_delim_def)
  moreover have "unwords w (v # ws) = w @ '' '' @ unwords v ws"
    by (simp add: unwords_def)
  ultimately show ?case
    using Cons by (simp add: strtoks_delim is_delim_def)
qed

lemma digit_not_delim: "is_digit b c \<Longrightarrow> \<not> is_delim c"
  by (auto simp: is_digit_def is_delim_def digit_val_def)

lemma word_fmt_0x [text_simps]: "word (fmt_0x x)"
proof -
  have "list_all (\<lambda>c. \<not> is_delim c) (to_base 16 (nat (u32 x)))"
    using to_base_digits[of 16 "nat (u32 x)"] digit_not_delim
    by (auto simp: list_all_iff)
  then show ?thesis
    by (simp add: word_def fmt_0x_def is_delim_def)
qed

section \<open>Lines of a file\<close>

text \<open>
  \<open>fgets(line, n + 1, f)\<close> on the rest of a file: up to \<open>n\<close> characters, the newline included.
\<close>

fun fgets :: "nat \<Rightarrow> string \<Rightarrow> string \<times> string" where
  "fgets 0 cs = ([], cs)"
| "fgets (Suc n) [] = ([], [])"
| "fgets (Suc n) (c # cs) =
     (if c = NL then ([c], cs) else case fgets n cs of (l, r) \<Rightarrow> (c # l, r))"

lemma fgets_split: "fgets n cs = (l, r) \<Longrightarrow> cs = l @ r"
  by (induction n cs arbitrary: l r rule: fgets.induct) (auto split: if_splits prod.splits)

lemma fgets_line:
  "NL \<notin> set l \<Longrightarrow> length l < n \<Longrightarrow> fgets n (l @ NL # cs) = (l @ [NL], cs)"
proof (induction l arbitrary: n)
  case Nil
  then show ?case by (cases n) simp_all
next
  case (Cons c l)
  then show ?case by (cases n) auto
qed

lemma fgets_shorter: "fgets (Suc n) (c # cs) = (l, r) \<Longrightarrow> length r \<le> length cs"
  using fgets_split[of "Suc n" "c # cs" l r] by (cases l) (auto split: if_splits prod.splits)

lemma unwords_line:
  assumes "list_all word (w # ws)" and "length w + sum_list (map (\<lambda>v. Suc (length v)) ws) < n"
  shows "fgets n (unwords w ws @ cs) = (unwords w ws, cs)"
proof -
  let ?l = "w @ concat (map (\<lambda>v. '' '' @ v) ws)"
  have "NL \<notin> set ?l"
    using assms(1) by (auto simp: word_def list_all_iff is_delim_def)
  moreover have "length ?l < n"
    using assms(2) by (simp add: length_concat o_def)
  ultimately have "fgets n (?l @ NL # cs) = (?l @ [NL], cs)"
    by (rule fgets_line)
  then show ?thesis by (simp add: unwords_def)
qed

lemma length_to_base: "n < 16 ^ Suc k \<Longrightarrow> length (to_base 16 n) \<le> Suc k"
proof (induction k arbitrary: n)
  case 0
  then show ?case by (subst to_base.simps) simp
next
  case (Suc k)
  then have "n div 16 < 16 ^ Suc k" by (simp add: less_mult_imp_div_less)
  with Suc.IH have "length (to_base 16 (n div 16)) \<le> Suc k" .
  then show ?case by (subst to_base.simps) simp
qed

end
