(* ===== verification/Fsx_Options.thy ===== *)
theory Fsx_Options
  imports Fsx_State C_Text
begin

text \<open>
  The command line of \<open>fsx\<close>: \<open>getnum\<close> and the \<open>switch\<close> of \<open>main\<close> over the options that
  \<open>getopt_long\<close> (a library function) returns. An option is its character and its argument; a
  call of \<open>usage\<close> is \<open>exit(90)\<close>.
\<close>

section \<open>getnum\<close>

text \<open>
  \<open>int ret = strtol(...)\<close> truncates the \<open>long\<close>; the products of the suffixes are \<open>int\<close>
  products, taken to wrap around. The result: the number and what is left at \<open>*e\<close>.
\<close>

definition getnum :: "string \<Rightarrow> int \<times> string" where
  "getnum s =
     (case strtol0 s of (v, e) \<Rightarrow>
        let ret = s32 v in
        case e of
          [] \<Rightarrow> (ret, e)
        | x # r \<Rightarrow>
            if x = CHR ''b'' \<or> x = CHR ''B'' then (s32 (ret * 512), r)
            else if x = CHR ''k'' \<or> x = CHR ''K'' then (s32 (ret * 1024), r)
            else if x = CHR ''m'' \<or> x = CHR ''M'' then (s32 (ret * 1048576), r)
            else if x = CHR ''w'' \<or> x = CHR ''W'' then (s32 (ret * 4), r)
            else (ret, e))"

lemma getnum_range: "-2147483648 \<le> fst (getnum s)" "fst (getnum s) < 2147483648"
  by (auto simp: getnum_def Let_def split: prod.splits list.splits)

section \<open>Options\<close>

text \<open>What the options set: the configuration and what only \<open>main\<close> uses.\<close>

record options =
  o_config :: config
  o_quiet :: bool
  o_debug :: bool
  o_trunc :: bool \<comment> \<open>\<open>O_TRUNC\<close> in \<open>o_flags\<close>\<close>
  o_creat :: bool \<comment> \<open>\<open>O_CREAT\<close> in \<open>o_flags\<close>\<close>
  o_monitorstart :: int
  o_monitorend :: int
  o_progress :: int
  o_prealloc :: bool
  o_numops :: int
  o_seed :: int
  o_dname :: string
  o_opsfile :: string
  o_record :: bool
  o_replay :: "string option"
  o_logdev :: "string option"
  o_logid :: "string option"

definition initial_options :: options where
  "initial_options = \<lparr>o_config = default_config, o_quiet = False, o_debug = False, o_trunc = True,
     o_creat = True, o_monitorstart = -1, o_monitorend = -1, o_progress = 0, o_prealloc = False,
     o_numops = -1, o_seed = 1, o_dname = [], o_opsfile = [], o_record = False, o_replay = None,
     o_logdev = None, o_logid = None\<rparr>"

datatype opt = Short char | Record_ops | Replay_ops

abbreviation (input) usage :: "halt + 'a" where "usage \<equiv> Inl (Exit 90)"

definition set_config :: "(config \<Rightarrow> config) \<Rightarrow> options \<Rightarrow> options" where
  "set_config f p = p\<lparr>o_config := f (o_config p)\<rparr>"

text \<open>
  The options with a number. \<open>closeprob\<close>, \<open>maxoplen\<close>, the boundaries, \<open>numops\<close> and \<open>seed\<close> are
  signed; \<open>simulatedopcount\<close>, \<open>maxfilelen\<close>, \<open>debugstart\<close> and \<open>progressinterval\<close> are \<open>unsigned
  long\<close>, so the test for a number below the least one only finds 0. The argument of \<open>-s\<close> goes
  to a local variable of \<open>main\<close> that hides the global \<open>style\<close>. \<open>-m\<close> has no \<open>break\<close> and goes on
  with the code of \<open>-n\<close>.
\<close>

definition opt_number :: "int \<Rightarrow> char \<Rightarrow> string \<Rightarrow> options \<Rightarrow> halt + options" where
  "opt_number now ch arg p =
     (let n = fst (getnum arg); u = u64 n in
      if ch = CHR ''b'' then
        (if u = 0 then usage else Inr (set_config (\<lambda>c. c\<lparr>simulatedopcount := u - 1\<rparr>) p))
      else if ch = CHR ''c'' then
        (if n \<le> 0 then usage else Inr (set_config (\<lambda>c. c\<lparr>closeprob := n\<rparr>) p))
      else if ch = CHR ''l'' then
        (if u \<le> 0 then usage else Inr (set_config (\<lambda>c. c\<lparr>maxfilelen := u\<rparr>) p))
      else if ch = CHR ''m'' then
        (if n < 0 then usage
         else
           (case snd (getnum arg) of
              x # rest \<Rightarrow>
                if x \<noteq> CHR '':'' then usage
                else
                  (let e = fst (getnum rest) in
                   if e < 0 then usage
                   else Inr (set_config (\<lambda>c. c\<lparr>sizechecks := False\<rparr>)
                          (p\<lparr>o_monitorstart := n, o_monitorend := (if e = 0 then -1 else e),
                             o_debug := True\<rparr>)))
            | [] \<Rightarrow> usage))
      else if ch = CHR ''o'' then
        (if n \<le> 0 then usage else Inr (set_config (\<lambda>c. c\<lparr>maxoplen := n\<rparr>) p))
      else if ch = CHR ''p'' then
        (if u = 0 then usage else Inr (p\<lparr>o_progress := u\<rparr>))
      else if ch = CHR ''r'' then
        (if n \<le> 0 then usage else Inr (set_config (\<lambda>c. c\<lparr>readbdy := n\<rparr>) p))
      else if ch = CHR ''s'' then
        (if n < 0 \<or> 1 < n then usage else Inr p)
      else if ch = CHR ''t'' then
        (if n \<le> 0 then usage else Inr (set_config (\<lambda>c. c\<lparr>truncbdy := n\<rparr>) p))
      else if ch = CHR ''w'' then
        (if n \<le> 0 then usage else Inr (set_config (\<lambda>c. c\<lparr>writebdy := n\<rparr>) p))
      else if ch = CHR ''D'' then
        (if u < 1 then usage else Inr (set_config (\<lambda>c. c\<lparr>debugstart := u\<rparr>) p))
      else if ch = CHR ''N'' then
        (if n < 0 then usage else Inr (p\<lparr>o_numops := n\<rparr>))
      else if ch = CHR ''S'' then
        (let seed = (if n = 0 then now else n) in
         if seed < 0 then usage else Inr (p\<lparr>o_seed := seed\<rparr>))
      else usage)"

text \<open>
  The options that set a flag or a string. \<open>strncpy\<close> into \<open>dname[1024]\<close> does not terminate an
  argument of 1024 characters or more, and \<open>strcat\<close> needs room for the slash.
\<close>

definition opt_flag :: "char \<Rightarrow> string \<Rightarrow> options \<Rightarrow> halt + options" where
  "opt_flag ch arg p =
     (if ch = CHR ''d'' then Inr (p\<lparr>o_debug := True\<rparr>)
      else if ch = CHR ''f'' then Inr (set_config (\<lambda>c. c\<lparr>flush := True\<rparr>) p)
      else if ch = CHR ''g'' then
        Inr (set_config (\<lambda>c. c\<lparr>filldata := (if arg = [] then 0 else of_char (hd arg))\<rparr>) p)
      else if ch = CHR ''i'' then
        Inr (set_config (\<lambda>c. c\<lparr>integrity := True\<rparr>) (p\<lparr>o_logdev := Some arg\<rparr>))
      else if ch = CHR ''j'' then Inr (p\<lparr>o_logid := Some arg\<rparr>)
      else if ch = CHR ''k'' then Inr (p\<lparr>o_trunc := False\<rparr>)
      else if ch = CHR ''n'' then Inr (set_config (\<lambda>c. c\<lparr>sizechecks := False\<rparr>) p)
      else if ch = CHR ''q'' then Inr (p\<lparr>o_quiet := True\<rparr>)
      else if ch = CHR ''x'' then Inr (p\<lparr>o_prealloc := True\<rparr>)
      else if ch = CHR ''y'' then Inr (set_config (\<lambda>c. c\<lparr>do_fsync := True\<rparr>) p)
      else if ch = CHR ''A'' then Inr (set_config (\<lambda>c. c\<lparr>aio := True\<rparr>) p)
      else if ch = CHR ''F'' then Inr (set_config (\<lambda>c. c\<lparr>fallocate_calls := False\<rparr>) p)
      else if ch = CHR ''K'' then Inr (set_config (\<lambda>c. c\<lparr>keep_size_calls := False\<rparr>) p)
      else if ch = CHR ''H'' then Inr (set_config (\<lambda>c. c\<lparr>punch_hole_calls := False\<rparr>) p)
      else if ch = CHR ''z'' then Inr (set_config (\<lambda>c. c\<lparr>zero_range_calls := False\<rparr>) p)
      else if ch = CHR ''C'' then Inr (set_config (\<lambda>c. c\<lparr>collapse_range_calls := False\<rparr>) p)
      else if ch = CHR ''I'' then Inr (set_config (\<lambda>c. c\<lparr>insert_range_calls := False\<rparr>) p)
      else if ch = CHR ''J'' then Inr (set_config (\<lambda>c. c\<lparr>clone_range_calls := False\<rparr>) p)
      else if ch = CHR ''B'' then Inr (set_config (\<lambda>c. c\<lparr>dedupe_range_calls := False\<rparr>) p)
      else if ch = CHR ''E'' then Inr (set_config (\<lambda>c. c\<lparr>copy_range_calls := False\<rparr>) p)
      else if ch = CHR ''L'' then
        Inr (set_config (\<lambda>c. c\<lparr>lite := True\<rparr>) (p\<lparr>o_creat := False, o_trunc := False\<rparr>))
      else if ch = CHR ''O'' then Inr (set_config (\<lambda>c. c\<lparr>randomoplen := False\<rparr>) p)
      else if ch = CHR ''P'' then
        (if 1023 \<le> length arg then Inl Fault else Inr (p\<lparr>o_dname := arg @ ''/''\<rparr>))
      else if ch = CHR ''R'' then Inr (set_config (\<lambda>c. c\<lparr>mapped_reads := False\<rparr>) p)
      else if ch = CHR ''W'' then Inr (set_config (\<lambda>c. c\<lparr>mapped_writes := False\<rparr>) p)
      else if ch = CHR ''X'' then Inr (set_config (\<lambda>c. c\<lparr>check_file := True\<rparr>) p)
      else if ch = CHR ''Z'' then Inr (set_config (\<lambda>c. c\<lparr>o_direct := True\<rparr>) p)
      else usage)"

definition opt_step :: "int \<Rightarrow> opt \<times> string option \<Rightarrow> options \<Rightarrow> halt + options" where
  "opt_step now oa p =
     (case oa of
        (Record_ops, arg) \<Rightarrow>
          Inr (p\<lparr>o_opsfile := (case arg of None \<Rightarrow> o_opsfile p | Some a \<Rightarrow> a), o_record := True\<rparr>)
      | (Replay_ops, arg) \<Rightarrow> Inr (p\<lparr>o_replay := arg\<rparr>)
      | (Short ch, arg) \<Rightarrow>
          (let a = (case arg of None \<Rightarrow> [] | Some a \<Rightarrow> a) in
           if ch \<in> set ''bclmoprstwDNS'' then opt_number now ch a p else opt_flag ch a p))"

fun parse_options :: "int \<Rightarrow> (opt \<times> string option) list \<Rightarrow> options \<Rightarrow> halt + options" where
  "parse_options now [] p = Inr p"
| "parse_options now (oa # rest) p = on_ok (opt_step now oa p) (parse_options now rest)"

text \<open>The checks after the loop: one file name, and \<open>-i\<close> needs \<open>-P\<close>.\<close>

definition command_line :: "int \<Rightarrow> (opt \<times> string option) list \<Rightarrow> string list \<Rightarrow> halt + options" where
  "command_line now opts names =
     on_ok (parse_options now opts initial_options) (\<lambda>p.
       if length names \<noteq> 1 then usage
       else if integrity (o_config p) \<and> o_dname p = [] then usage
       else Inr p)"

section \<open>What every accepted command line guarantees\<close>

text \<open>
  \<open>wf_options\<close> is what the options keep; the lengths that were given as negative numbers are
  the exception, as they become huge \<open>unsigned long\<close> values.
\<close>

definition wf_options :: "options \<Rightarrow> bool" where
  "wf_options p \<longleftrightarrow> (let c = o_config p in
     0 < readbdy c \<and> readbdy c < 2147483648 \<and> 0 < writebdy c \<and> writebdy c < 2147483648
     \<and> 0 < truncbdy c \<and> truncbdy c < 2147483648 \<and> 0 < maxoplen c \<and> maxoplen c < 2147483648
     \<and> 0 < maxfilelen c \<and> (maxfilelen c < 2147483648 \<or> 18446744071562067968 \<le> maxfilelen c)
     \<and> 0 \<le> simulatedopcount c \<and> 0 \<le> closeprob c \<and> style c = 0 \<and> -1 \<le> o_numops p
     \<and> (integrity c \<longrightarrow> o_logdev p \<noteq> None) \<and> (lite c \<longrightarrow> \<not> o_trunc p))"

lemma u64_getnum:
  assumes "u64 (fst (getnum s)) \<noteq> 0"
  shows "0 < u64 (fst (getnum s))"
    and "u64 (fst (getnum s)) < 2147483648 \<or> 18446744071562067968 \<le> u64 (fst (getnum s))"
proof -
  let ?n = "fst (getnum s)"
  have r: "-2147483648 \<le> ?n" "?n < 2147483648" by (rule getnum_range)+
  show "0 < u64 ?n" using assms u64_range(1)[of ?n] by linarith
  show "u64 ?n < 2147483648 \<or> 18446744071562067968 \<le> u64 ?n"
  proof (cases "0 \<le> ?n")
    case True
    then have "u64 ?n = ?n" using r by (intro u64_id) linarith+
    then show ?thesis using r by linarith
  next
    case False
    have "u64 ?n = (?n + 18446744073709551616) mod 18446744073709551616" by (simp add: u64_def)
    also have "\<dots> = ?n + 18446744073709551616" using False r by (intro mod_pos_pos_trivial) linarith+
    finally show ?thesis using r by linarith
  qed
qed

text \<open>An option that is accepted leaves a property; the rules follow the \<open>if\<close>s of the code.\<close>

definition accepted :: "('s \<Rightarrow> bool) \<Rightarrow> 'e + 's \<Rightarrow> bool" where
  "accepted P r \<longleftrightarrow> (\<forall>q. r = Inr q \<longrightarrow> P q)"

lemma accepted_simps [simp]: "accepted P (Inl e)" "accepted P (Inr q) = P q"
  by (simp_all add: accepted_def)

lemma accepted_ch: "accepted P x \<Longrightarrow> accepted P y \<Longrightarrow> accepted P (if (c :: char) = d then x else y)"
  by simp

lemma accepted_usage: "(\<not> b \<Longrightarrow> accepted P y) \<Longrightarrow> accepted P (if b then usage else y)"
  by simp

lemma accepted_bind: "accepted Q r \<Longrightarrow> (\<And>s. Q s \<Longrightarrow> accepted P (f s)) \<Longrightarrow> accepted P (on_ok r f)"
  by (cases r) simp_all

lemma wf_options_numbers:
  assumes "wf_options p" and "0 < n" and "n < 2147483648"
  shows "wf_options (set_config (\<lambda>c. c\<lparr>closeprob := n\<rparr>) p)"
    "wf_options (set_config (\<lambda>c. c\<lparr>maxoplen := n\<rparr>) p)"
    "wf_options (set_config (\<lambda>c. c\<lparr>readbdy := n\<rparr>) p)"
    "wf_options (set_config (\<lambda>c. c\<lparr>truncbdy := n\<rparr>) p)"
    "wf_options (set_config (\<lambda>c. c\<lparr>writebdy := n\<rparr>) p)"
  using assms by (simp_all add: wf_options_def set_config_def Let_def)

lemma wf_options_lengths:
  assumes "wf_options p" and "0 < u"
  shows "wf_options (set_config (\<lambda>c. c\<lparr>simulatedopcount := u - 1\<rparr>) p)"
    "u < 2147483648 \<or> 18446744071562067968 \<le> u \<Longrightarrow> wf_options (set_config (\<lambda>c. c\<lparr>maxfilelen := u\<rparr>) p)"
    "wf_options (set_config (\<lambda>c. c\<lparr>debugstart := u\<rparr>) p)"
  using assms by (simp_all add: wf_options_def set_config_def Let_def)

lemma wf_options_flags:
  assumes "wf_options p"
  shows "wf_options (set_config (\<lambda>c. c\<lparr>sizechecks := b\<rparr>) p)"
    "wf_options (set_config (\<lambda>c. c\<lparr>flush := b\<rparr>) p)" "wf_options (set_config (\<lambda>c. c\<lparr>filldata := w\<rparr>) p)"
    "wf_options (set_config (\<lambda>c. c\<lparr>integrity := True\<rparr>) (p\<lparr>o_logdev := Some arg\<rparr>))"
    "wf_options (set_config (\<lambda>c. c\<lparr>do_fsync := b\<rparr>) p)" "wf_options (set_config (\<lambda>c. c\<lparr>aio := b\<rparr>) p)"
    "wf_options (set_config (\<lambda>c. c\<lparr>fallocate_calls := b\<rparr>) p)"
    "wf_options (set_config (\<lambda>c. c\<lparr>keep_size_calls := b\<rparr>) p)"
    "wf_options (set_config (\<lambda>c. c\<lparr>punch_hole_calls := b\<rparr>) p)"
    "wf_options (set_config (\<lambda>c. c\<lparr>zero_range_calls := b\<rparr>) p)"
    "wf_options (set_config (\<lambda>c. c\<lparr>collapse_range_calls := b\<rparr>) p)"
    "wf_options (set_config (\<lambda>c. c\<lparr>insert_range_calls := b\<rparr>) p)"
    "wf_options (set_config (\<lambda>c. c\<lparr>clone_range_calls := b\<rparr>) p)"
    "wf_options (set_config (\<lambda>c. c\<lparr>dedupe_range_calls := b\<rparr>) p)"
    "wf_options (set_config (\<lambda>c. c\<lparr>copy_range_calls := b\<rparr>) p)"
    "wf_options (set_config (\<lambda>c. c\<lparr>lite := True\<rparr>) (p\<lparr>o_creat := False, o_trunc := False\<rparr>))"
    "wf_options (set_config (\<lambda>c. c\<lparr>randomoplen := b\<rparr>) p)"
    "wf_options (set_config (\<lambda>c. c\<lparr>mapped_reads := b\<rparr>) p)"
    "wf_options (set_config (\<lambda>c. c\<lparr>mapped_writes := b\<rparr>) p)"
    "wf_options (set_config (\<lambda>c. c\<lparr>check_file := b\<rparr>) p)"
    "wf_options (set_config (\<lambda>c. c\<lparr>o_direct := b\<rparr>) p)" "wf_options (p\<lparr>o_trunc := False\<rparr>)"
  using assms by (simp_all add: wf_options_def set_config_def Let_def)

lemma wf_options_rest:
  assumes "wf_options p"
  shows "wf_options (p\<lparr>o_debug := b\<rparr>)" "wf_options (p\<lparr>o_logid := x\<rparr>)" "wf_options (p\<lparr>o_quiet := b\<rparr>)"
    "wf_options (p\<lparr>o_prealloc := b\<rparr>)" "wf_options (p\<lparr>o_dname := d\<rparr>)" "wf_options (p\<lparr>o_progress := n\<rparr>)"
    "wf_options (p\<lparr>o_seed := n\<rparr>)" "wf_options (p\<lparr>o_opsfile := d, o_record := b\<rparr>)"
    "wf_options (p\<lparr>o_replay := x\<rparr>)" "0 \<le> n \<Longrightarrow> wf_options (p\<lparr>o_numops := n\<rparr>)"
    "wf_options (p\<lparr>o_monitorstart := n, o_monitorend := e, o_debug := b\<rparr>)"
  using assms by (simp_all add: wf_options_def Let_def)

lemma wf_options_number: "wf_options p \<Longrightarrow> accepted wf_options (opt_number now ch arg p)"
proof -
  assume wf: "wf_options p"
  note g = getnum_range(2)[of arg] and u = u64_getnum[of arg]
  note N = wf_options_numbers[OF wf _ g] and L = wf_options_lengths[OF wf u(1)]
  show ?thesis
    unfolding opt_number_def Let_def
    by (intro accepted_ch accepted_usage)
       (use N L u wf in \<open>auto simp: not_le intro!: wf_options_flags wf_options_rest split: list.splits if_splits\<close>)
qed

lemma wf_options_flag: "wf_options p \<Longrightarrow> accepted wf_options (opt_flag ch arg p)"
  unfolding opt_flag_def
  by (intro accepted_ch)
     (auto intro!: wf_options_flags wf_options_rest)

lemma wf_options_step: "wf_options p \<Longrightarrow> accepted wf_options (opt_step now oa p)"
  by (cases oa; cases "fst oa")
     (auto simp: opt_step_def Let_def intro: wf_options_number wf_options_flag wf_options_rest)

lemma wf_options_initial: "wf_options initial_options"
  by (simp add: wf_options_def initial_options_def default_config_def)

lemma wf_options_parse: "wf_options p \<Longrightarrow> accepted wf_options (parse_options now opts p)"
proof (induction opts arbitrary: p)
  case (Cons oa opts)
  show ?case
    unfolding parse_options.simps
    by (rule accepted_bind[OF wf_options_step[OF Cons.prems]]) (rule Cons.IH)
qed simp

lemma command_line_wf_options:
  assumes "command_line now opts names = Inr p"
  shows "wf_options p"
  using assms wf_options_parse[OF wf_options_initial, of now opts]
  by (auto simp: command_line_def accepted_def on_ok_Inr_iff split: if_splits)

text \<open>
  C14 (type). Whatever the command line, if \<open>main\<close> accepts it then the boundaries and the
  operation length are positive \<open>int\<close>s, \<open>style\<close> is 0 (\<open>-s\<close> sets a local variable), the number of
  operations is at least -1, integrity runs have a log device, and the lengths are positive and
  below 2 GiB, or within 2 GiB of the top of \<open>unsigned long\<close> when a negative number was given.
\<close>

theorem command_line_wf:
  assumes "command_line now opts names = Inr p"
  shows "wf_options p"
  using assms by (rule command_line_wf_options)

theorem command_line_wf_witness:
  "command_line 0 [(Short CHR ''l'', Some ''1k''), (Short CHR ''w'', Some ''0x10''), (Short CHR ''X'', None)] [''f'']
     \<noteq> Inl (Exit 90) \<and>
   wf_options (initial_options\<lparr>o_config := default_config\<lparr>maxfilelen := 1024, writebdy := 16, check_file := True\<rparr>\<rparr>)"
proof -
  have eq: "command_line 0 [(Short CHR ''l'', Some ''1k''), (Short CHR ''w'', Some ''0x10''), (Short CHR ''X'', None)] [''f'']
    = Inr (initial_options\<lparr>o_config := default_config\<lparr>maxfilelen := 1024, writebdy := 16, check_file := True\<rparr>\<rparr>)"
    by code_simp
  from command_line_wf[OF this] show ?thesis unfolding eq by simp
qed

end
