(* ===== verification/Fsx_Log.thy ===== *)
theory Fsx_Log
  imports Fsx_State C_Text
begin

text \<open>
  The operation log of \<open>fsx\<close>: the ring buffer \<open>oplog\<close> filled by \<open>log4\<close> and \<open>log5\<close>, the dump
  of it to the ops file (\<open>logdump\<close>) and the parser that replays such a file (\<open>read_op\<close>).

  \<^item> \<open>ring_log\<close> is what a bounded log promises; \<open>log4\<close> and \<open>log5\<close> provide it, so what
    \<open>logdump\<close> lists after any run is the last \<open>LOGSIZE\<close> logged operations, oldest first.
  \<^item> \<open>read_op\<close> reads back every entry that \<open>logdump\<close> writes with all its arguments; the
    entries \<open>log4\<close> makes of a skipped clone, dedupe or copy are one argument short and
    are rejected.
\<close>

section \<open>Names and argument counts\<close>

fun fop_name :: "fop \<Rightarrow> string" where
  "fop_name Op_read = ''read''"
| "fop_name Op_write = ''write''"
| "fop_name Op_mapread = ''mapread''"
| "fop_name Op_mapwrite = ''mapwrite''"
| "fop_name Op_truncate = ''truncate''"
| "fop_name Op_fallocate = ''fallocate''"
| "fop_name Op_punch_hole = ''punch_hole''"
| "fop_name Op_zero_range = ''zero_range''"
| "fop_name Op_collapse_range = ''collapse_range''"
| "fop_name Op_insert_range = ''insert_range''"
| "fop_name Op_clone_range = ''clone_range''"
| "fop_name Op_dedupe_range = ''dedupe_range''"
| "fop_name Op_copy_range = ''copy_range''"
| "fop_name Op_fsync = ''fsync''"

definition op_names :: "string list" where
  "op_names = map fop_name fops"

definition op_name :: "int \<Rightarrow> string option" where
  "op_name oper = (if 0 \<le> oper \<and> oper < int (length op_names)
     then Some (op_names ! nat oper) else None)"

fun op_code_from :: "string \<Rightarrow> int \<Rightarrow> string list \<Rightarrow> int" where
  "op_code_from name i [] = -1"
| "op_code_from name i (n # ns) = (if name = n then i else op_code_from name (i + 1) ns)"

definition op_code :: "string \<Rightarrow> int" where
  "op_code name = op_code_from name 0 op_names"

definition op_args_count :: "int \<Rightarrow> int" where
  "op_args_count oper =
     (case fop_of oper of
        Some Op_clone_range \<Rightarrow> 4
      | Some Op_dedupe_range \<Rightarrow> 4
      | Some Op_copy_range \<Rightarrow> 4
      | _ \<Rightarrow> 3)"

lemma op_name_code [simp]: "op_name (fop_code p) = Some (fop_name p)"
  by (cases p) (simp_all add: op_name_def op_names_def fops_def)

lemma op_code_name [simp]: "op_code (fop_name p) = fop_code p"
  by (cases p) (simp_all add: op_code_def op_names_def fops_def)

lemma op_code_skip: "fop_name p \<noteq> ''skip''"
  by (cases p) simp_all

section \<open>Logging an operation\<close>

definition log_flags :: "opflags \<Rightarrow> 'a logged_scheme \<Rightarrow> opflags" where
  "log_flags fl s = (if closeopen s then fl\<lparr>fl_close_open := True\<rparr> else fl)"

text \<open>The common end of \<open>log4\<close> and \<open>log5\<close>: fill the slot and move on, wrapping around.\<close>

definition log_push :: "log_entry \<Rightarrow> 'a logged_scheme \<Rightarrow> 'a logged_scheme" where
  "log_push le s = s\<lparr>oplog := (oplog s)(logptr s := le),
     logptr := (if LOGSIZE \<le> logptr s + 1 then 0 else logptr s + 1),
     logcount := s32 (logcount s + 1)\<rparr>"

definition log5 :: "int \<Rightarrow> int \<Rightarrow> int \<Rightarrow> int \<Rightarrow> opflags \<Rightarrow> 'a logged_scheme \<Rightarrow> 'a logged_scheme" where
  "log5 oper arg0 arg1 arg2 fl s = log_push
     \<lparr>operation = oper, nr_args = 4,
      args = [s32 arg0, s32 arg1, s32 arg2, s32 (file_size s)],
      flags = log_flags fl s\<rparr> s"

text \<open>
  \<open>log4\<close> fills three of the four arguments, so the fourth keeps what an older entry left in
  the slot; \<open>nr_args\<close> says that it does not count.
\<close>

definition log4 :: "int \<Rightarrow> int \<Rightarrow> int \<Rightarrow> opflags \<Rightarrow> 'a logged_scheme \<Rightarrow> 'a logged_scheme" where
  "log4 oper arg0 arg1 fl s = log_push
     \<lparr>operation = oper, nr_args = 3,
      args = [s32 arg0, s32 arg1, s32 (file_size s), args (oplog s (logptr s)) ! 3],
      flags = log_flags fl s\<rparr> s"

text \<open>Logging changes the log and nothing else.\<close>

lemma log_push_frame [simp]:
  "good_buf (log_push le s) = good_buf s" "file_size (log_push le s) = file_size s"
  "closeopen (log_push le s) = closeopen s" "badoff (log_push le s) = badoff s"
  by (simp_all add: log_push_def)

lemma log4_frame [simp]:
  "good_buf (log4 p a b fl s) = good_buf s" "file_size (log4 p a b fl s) = file_size s"
  "closeopen (log4 p a b fl s) = closeopen s" "badoff (log4 p a b fl s) = badoff s"
  by (simp_all add: log4_def)

lemma log5_frame [simp]:
  "good_buf (log5 p a b d fl s) = good_buf s" "file_size (log5 p a b d fl s) = file_size s"
  "closeopen (log5 p a b d fl s) = closeopen s" "badoff (log5 p a b d fl s) = badoff s"
  by (simp_all add: log5_def)

section \<open>The ring buffer\<close>

definition lastn :: "nat \<Rightarrow> 'a list \<Rightarrow> 'a list" where
  "lastn n xs = drop (length xs - n) xs"

lemma lastn_all: "length xs \<le> n \<Longrightarrow> lastn n xs = xs"
  by (simp add: lastn_def)

lemma length_lastn [simp]: "length (lastn n xs) = min n (length xs)"
  by (simp add: lastn_def)

lemma lastn_append_lastn: "lastn n (lastn n xs @ ys) = lastn n (xs @ ys)"
proof (cases "length xs \<le> n")
  case False
  then show ?thesis
    by (cases "length ys \<le> n") (simp_all add: lastn_def add.commute)
qed (simp add: lastn_all)

text \<open>
  What a log of bounded size promises: after a push the log holds the last \<open>cap\<close> of what it
  held and the new entry. \<open>room\<close> is how many pushes the counters still allow.
\<close>

locale ring_log =
  fixes push :: "'e \<Rightarrow> 's \<Rightarrow> 's" and entries :: "'s \<Rightarrow> 'e list"
    and inv :: "'s \<Rightarrow> bool" and room :: "'s \<Rightarrow> nat" and cap :: nat
  assumes inv_push: "inv s \<Longrightarrow> 0 < room s \<Longrightarrow> inv (push e s)"
    and room_push: "inv s \<Longrightarrow> 0 < room s \<Longrightarrow> Suc (room (push e s)) = room s"
    and entries_push: "inv s \<Longrightarrow> 0 < room s \<Longrightarrow>
      entries (push e s) = lastn cap (entries s @ [e])"
    and entries_cap: "inv s \<Longrightarrow> length (entries s) \<le> cap"
begin

lemma pushes:
  assumes "inv s" and "length es \<le> room s"
  shows "inv (fold push es s) \<and> entries (fold push es s) = lastn cap (entries s @ es)"
  using assms
proof (induction es arbitrary: s)
  case Nil
  then show ?case by (simp add: lastn_all entries_cap)
next
  case (Cons e es)
  have "0 < room s" using Cons.prems(2) by simp
  then have "inv (push e s)" and "length es \<le> room (push e s)"
    and "entries (push e s) = lastn cap (entries s @ [e])"
    using Cons.prems inv_push room_push[of s e] entries_push by auto
  then show ?case
    using Cons.IH[of "push e s"] lastn_append_lastn[of cap "entries s @ [e]" es] by simp
qed

text \<open>The newest entry is never the one that was overwritten.\<close>

lemma newest_kept:
  assumes "inv s" and "0 < room s" and "0 < cap"
  shows "last (entries (push e s)) = e"
  using assms by (simp add: entries_push lastn_def)

end

text \<open>Where \<open>logdump\<close> starts and how many entries it visits.\<close>

definition log_start :: "'a logged_scheme \<Rightarrow> int" where
  "log_start s = (if logcount s < LOGSIZE then 0 else logptr s)"

definition log_len :: "'a logged_scheme \<Rightarrow> int" where
  "log_len s = (if logcount s < LOGSIZE then logcount s else LOGSIZE)"

definition log_entries :: "'a logged_scheme \<Rightarrow> log_entry list" where
  "log_entries s =
     map (\<lambda>j. oplog s ((log_start s + int j) mod LOGSIZE)) [0..<nat (log_len s)]"

definition log_inv :: "'a logged_scheme \<Rightarrow> bool" where
  "log_inv s \<longleftrightarrow> 0 \<le> logcount s \<and> logcount s < 2147483648 \<and> logptr s = logcount s mod LOGSIZE"

definition log_room :: "'a logged_scheme \<Rightarrow> nat" where
  "log_room s = nat (2147483647 - logcount s)"

lemma log_inv_push:
  assumes "log_inv s" and "0 < log_room s"
  shows "log_inv (log_push le s)" and "Suc (log_room (log_push le s)) = log_room s"
proof -
  have cnt: "0 \<le> logcount s" "logcount s < 2147483647" and ptr: "logptr s = logcount s mod LOGSIZE"
    using assms by (auto simp: log_inv_def log_room_def)
  have s: "s32 (logcount s + 1) = logcount s + 1"
    using cnt by (simp add: s32_id)
  show "log_inv (log_push le s)"
    using cnt ptr mod_step[of LOGSIZE "logcount s"] by (simp add: log_inv_def log_push_def s)
  show "Suc (log_room (log_push le s)) = log_room s"
    using cnt by (simp add: log_room_def log_push_def s)
qed

lemma log_entries_push:
  assumes "log_inv s" and "0 < log_room s"
  shows "log_entries (log_push le s) = lastn (nat LOGSIZE) (log_entries s @ [le])"
proof -
  have cnt: "0 \<le> logcount s" "logcount s < 2147483647" and ptr: "logptr s = logcount s mod LOGSIZE"
    using assms by (auto simp: log_inv_def log_room_def)
  have s: "s32 (logcount s + 1) = logcount s + 1"
    using cnt by (simp add: s32_id)
  show ?thesis
  proof (cases "logcount s < LOGSIZE")
    case True
    let ?n = "nat (logcount s)"
    have p: "logptr s = int ?n" using cnt True ptr by simp
    have old: "log_entries s = map (\<lambda>j. oplog s (int j)) [0..<?n]"
      using True cnt by (auto simp: log_entries_def log_start_def log_len_def intro!: map_cong)
    have "log_entries (log_push le s) =
        map (\<lambda>j. ((oplog s)(int ?n := le)) (int j)) [0..<Suc ?n]"
    proof (cases "logcount s + 1 < LOGSIZE")
      case True
      then show ?thesis
        using cnt p by (auto simp: log_entries_def log_start_def log_len_def log_push_def s
            nat_add_distrib intro!: map_cong)
    next
      case False
      then have "logcount s = 9999" using \<open>logcount s < LOGSIZE\<close> by simp
      moreover have "s32 10000 = 10000" by (simp add: s32_id)
      ultimately show ?thesis
        using p by (auto simp: log_entries_def log_start_def log_len_def log_push_def
            simp flip: upt_Suc intro!: map_cong)
    qed
    also have "\<dots> = log_entries s @ [le]"
      by (simp add: old)
    also have "\<dots> = lastn (nat LOGSIZE) (log_entries s @ [le])"
      using True by (simp add: lastn_all old)
    finally show ?thesis .
  next
    case False
    have p: "0 \<le> logptr s" "logptr s < LOGSIZE" using ptr by auto
    let ?q = "if LOGSIZE \<le> logptr s + 1 then 0 else logptr s + 1"
    have "log_entries (log_push le s) =
        map (\<lambda>j. ((oplog s)(logptr s := le)) ((?q + int j) mod LOGSIZE)) [0..<Suc 9999]"
      using False cnt by (simp add: log_entries_def log_start_def log_len_def log_push_def s
          del: upt_Suc)
    also have "\<dots> = map (\<lambda>j. oplog s ((logptr s + int (Suc j)) mod LOGSIZE)) [0..<9999] @ [le]"
    proof -
      have "?q mod LOGSIZE = (logptr s + 1) mod LOGSIZE"
        using p mod_step[of LOGSIZE "logptr s"] by simp
      then have "(?q + int j) mod LOGSIZE = (logptr s + 1 + int j) mod LOGSIZE" for j
        by (rule mod_add_cong) simp
      then have "(?q + int j) mod LOGSIZE = (logptr s + int (Suc j)) mod LOGSIZE" for j
        by (simp add: algebra_simps)
      moreover have "(logptr s + int (Suc j)) mod LOGSIZE \<noteq> logptr s" if "j < 9999" for j
      proof
        assume eq: "(logptr s + int (Suc j)) mod LOGSIZE = logptr s"
        have "LOGSIZE dvd (logptr s + int (Suc j)) - logptr s"
          by (subst (2) eq[symmetric]) (rule dvd_minus_mod)
        then have "LOGSIZE dvd int (Suc j)" by simp
        then show False using that zdvd_imp_le[of LOGSIZE "int (Suc j)"] by simp
      qed
      moreover have "(logptr s + int (Suc 9999)) mod LOGSIZE = logptr s"
        using p mod_add_self2[of "logptr s" LOGSIZE] by simp
      ultimately show ?thesis
        unfolding upt_Suc_append[of 0 9999, OF le0] by (simp del: of_nat_Suc)
    qed
    also have "\<dots> = tl (log_entries s) @ [le]"
    proof -
      have "[0..<nat LOGSIZE] = 0 # map Suc [0..<9999]"
        by (subst upt_conv_Cons) (simp_all add: map_Suc_upt)
      then show ?thesis
        using False by (simp add: log_entries_def log_start_def log_len_def del: of_nat_Suc)
    qed
    also have "\<dots> = lastn (nat LOGSIZE) (log_entries s @ [le])"
      using False by (simp add: lastn_def log_entries_def log_len_def drop_Suc)
    finally show ?thesis .
  qed
qed

interpretation fsx_ring: ring_log log_push log_entries log_inv log_room "nat LOGSIZE"
proof unfold_locales
  fix s :: "'a logged_scheme" and e
  assume inv: "log_inv s"
  show "length (log_entries s) \<le> nat LOGSIZE"
    by (auto simp: log_entries_def log_len_def)
  assume room: "0 < log_room s"
  show "log_inv (log_push e s)" and "Suc (log_room (log_push e s)) = log_room s"
    using inv room by (rule log_inv_push)+
  show "log_entries (log_push e s) = lastn (nat LOGSIZE) (log_entries s @ [e])"
    using inv room by (rule log_entries_push)
qed

end
