(* ===== verification/Fsx_Replay.thy ===== *)
theory Fsx_Replay
  imports Fsx_Log
begin

text \<open>
  The ops file of \<open>fsx\<close>: how \<open>logdump\<close> writes the operation log to it and how \<open>read_op\<close> reads
  it back for \<open>--replay-ops\<close>, and the log dump itself as text.
\<close>

section \<open>Writing: logdump\<close>

text \<open>Does the entry cover the bad offset (\<open>overlap\<close>, the \<open>*\<close> at the end of the line)?\<close>

definition dump_overlap :: "int \<Rightarrow> log_entry \<Rightarrow> bool" where
  "dump_overlap bad lp =
     (let a0 = args lp ! 0; a1 = args lp ! 1; a2 = args lp ! 2;
          overlap = (a0 \<le> bad \<and> bad < s32 (a0 + a1)) in
      if fl_skipped (flags lp) then overlap
      else case fop_of (operation lp) of
        Some Op_write \<Rightarrow> (a0 \<le> bad \<or> a2 \<le> bad) \<and> bad < s32 (a0 + a1)
      | Some Op_truncate \<Rightarrow>
          (let down = a1 < a2 in
           args lp ! (if down then 1 else 2) \<le> bad \<and> bad < args lp ! (if down then 2 else 1))
      | _ \<Rightarrow> overlap)"

definition dump_line :: "log_entry \<Rightarrow> bool \<Rightarrow> string" where
  "dump_line lp overlap =
     (if fl_skipped (flags lp) then ''skip '' else []) @
     (case op_name (operation lp) of Some n \<Rightarrow> n | None \<Rightarrow> ''(null)'') @
     concat (map (\<lambda>a. '' '' @ fmt_0x a) (take (nat (nr_args lp)) (args lp))) @
     (if fl_keep_size (flags lp) then '' keep_size'' else []) @
     (if fl_close_open (flags lp) then '' close_open'' else []) @
     (if overlap then '' *'' else []) @ [NL]"

text \<open>
  The loop of \<open>logdump\<close>: \<open>i\<close> is the slot, \<open>count\<close> how many are left. The \<open>default\<close> case of its
  \<open>switch\<close> leaves the iteration with \<open>continue\<close>, before \<open>i\<close> is advanced.
\<close>

fun logdump_loop :: "'a logged_scheme \<Rightarrow> int \<Rightarrow> nat \<Rightarrow> string" where
  "logdump_loop s i 0 = []"
| "logdump_loop s i (Suc count) =
     (let lp = oplog s i in
      if \<not> fl_skipped (flags lp) \<and> fop_of (operation lp) = None then logdump_loop s i count
      else dump_line lp (dump_overlap (badoff s) lp) @
           logdump_loop s (if i + 1 = LOGSIZE then 0 else i + 1) count)"

definition logdump_text :: "'a logged_scheme \<Rightarrow> string" where
  "logdump_text s = logdump_loop s (log_start s) (nat (log_len s))"

definition logdump :: "'k fsx \<Rightarrow> 'k fsx" where
  "logdump s = s\<lparr>opsfile := Some (logdump_text s)\<rparr>"

text \<open>The operation number printed for slot \<open>i\<close>.\<close>

definition opnum :: "'a logged_scheme \<Rightarrow> int \<Rightarrow> int" where
  "opnum s i = i + 1 + c_div (logcount s) LOGSIZE * LOGSIZE"

text \<open>
  What the same loop prints: a range of bytes, the marks of the entries that cover the bad
  offset, and the line of an entry. \<open>None\<close> is the \<open>default\<close> case, which prints its message
  and goes on with the next iteration.
\<close>

definition prt_range :: "string \<Rightarrow> int \<Rightarrow> int \<Rightarrow> string" where
  "prt_range name a0 a1 = name @ ''0x'' @ fmt_x a0 @ '' thru 0x'' @ fmt_x (s32 (a0 + a1 - 1)) @
     [TAB] @ ''(0x'' @ fmt_x a1 @ '' bytes)''"

definition prt_move :: "string \<Rightarrow> log_entry \<Rightarrow> int \<Rightarrow> char \<Rightarrow> string" where
  "prt_move name lp bad x =
     (let a0 = args lp ! 0; a1 = args lp ! 1; a2 = args lp ! 2;
          overlap = (a0 \<le> bad \<and> bad < s32 (a0 + a1));
          overlap2 = (a2 \<le> bad \<and> bad < s32 (a2 + a1));
          m = replicate 4 x; st = ''****''
      in prt_range name a0 a1 @ '' to 0x'' @ fmt_x a2 @ '' thru 0x'' @ fmt_x (s32 (a2 + a1 - 1)) @
         (if overlap \<and> overlap2 then [TAB] @ m @ ''**'' @ m
          else if overlap then [TAB] @ m @ ''**'' @ st
          else if overlap2 then [TAB] @ st @ ''**'' @ m else []))"

definition prt_entry :: "int \<Rightarrow> log_entry \<Rightarrow> string option" where
  "prt_entry bad lp =
     (let a0 = args lp ! 0; a1 = args lp ! 1; a2 = args lp ! 2;
          ov = (\<lambda>t. if dump_overlap bad lp then TAB # t else []) in
      if fl_skipped (flags lp) then Some ''SKIPPED (no operation)''
      else case fop_of (operation lp) of
        Some Op_mapread \<Rightarrow> Some (prt_range ''MAPREAD  '' a0 a1 @ ov ''***RRRR***'')
      | Some Op_mapwrite \<Rightarrow> Some (prt_range ''MAPWRITE '' a0 a1 @ ov ''******WWWW'')
      | Some Op_read \<Rightarrow> Some (prt_range ''READ     '' a0 a1 @ ov ''***RRRR***'')
      | Some Op_write \<Rightarrow> Some (prt_range ''WRITE    '' a0 a1 @
          (if a2 < a0 then '' HOLE'' else if a2 < s32 (a0 + a1) then '' EXTEND'' else []) @
          ov ''***WWWW'')
      | Some Op_truncate \<Rightarrow> Some (''TRUNCATE '' @ (if a1 < a2 then ''DOWN'' else ''UP'') @ [TAB] @
          ''from 0x'' @ fmt_x a2 @ '' to 0x'' @ fmt_x a1 @ ov ''******WWWW'')
      | Some Op_fallocate \<Rightarrow> Some (''FALLOC   0x'' @ fmt_x a0 @ '' thru 0x'' @ fmt_x (s32 (a0 + a1)) @
          [TAB] @ ''(0x'' @ fmt_x a1 @ '' bytes) '' @
          (if s32 (a0 + a1) \<le> a2 then ''INTERIOR''
           else if fl_keep_size (flags lp) then ''PAST_EOF'' else ''EXTENDING'') @ ov ''******FFFF'')
      | Some Op_punch_hole \<Rightarrow> Some (prt_range ''PUNCH    '' a0 a1 @ ov ''******PPPP'')
      | Some Op_zero_range \<Rightarrow> Some (prt_range ''ZERO     '' a0 a1 @ ov ''******ZZZZ'')
      | Some Op_collapse_range \<Rightarrow> Some (prt_range ''COLLAPSE '' a0 a1 @ ov ''******CCCC'')
      | Some Op_insert_range \<Rightarrow> Some (prt_range ''INSERT '' a0 a1 @ ov ''******IIII'')
      | Some Op_clone_range \<Rightarrow> Some (prt_move ''CLONE '' lp bad CHR ''J'')
      | Some Op_dedupe_range \<Rightarrow> Some (prt_move ''DEDUPE '' lp bad CHR ''B'')
      | Some Op_copy_range \<Rightarrow> Some (prt_move ''COPY '' lp bad CHR ''E'')
      | Some Op_fsync \<Rightarrow> Some ''FSYNC''
      | None \<Rightarrow> None)"

fun logdump_print :: "'a logged_scheme \<Rightarrow> int \<Rightarrow> nat \<Rightarrow> string" where
  "logdump_print s i 0 = []"
| "logdump_print s i (Suc count) =
     (let lp = oplog s i; n = opnum s i;
          head = fmt_d n @ ''('' @ fmt_3d (c_rem n 256) @ '' mod 256): '' in
      case prt_entry (badoff s) lp of
        None \<Rightarrow> head @ ''BOGUS LOG ENTRY (operation code = '' @ fmt_d (operation lp) @ '')!'' @
          logdump_print s i count
      | Some t \<Rightarrow> head @ t @
          (if fl_close_open (flags lp) then [NL, TAB, TAB] @ ''CLOSE/OPEN'' else []) @ [NL] @
          logdump_print s (if i + 1 = LOGSIZE then 0 else i + 1) count)"

section \<open>Reading: read_op\<close>

text \<open>The lines to skip: without a word, or starting with \<open>#\<close>. \<open>line\<close> holds 256 bytes.\<close>

lemma fgets_less: "(l, r) = fgets 255 f \<Longrightarrow> f \<noteq> [] \<Longrightarrow> length r < length f"
proof -
  assume a: "(l, r) = fgets 255 f" and "f \<noteq> []"
  then obtain c cs where f: "f = c # cs" by (cases f) auto
  have "fgets (Suc 254) (c # cs) = (l, r)" using a f by simp
  then have "length r \<le> length cs" by (rule fgets_shorter)
  then show ?thesis by (simp add: f)
qed

function next_tokens :: "string \<Rightarrow> (string list \<times> string) option" where
  "next_tokens f =
     (if f = [] then None
      else case fgets 255 f of (line, rest) \<Rightarrow>
        (case strtoks (takeWhile (\<lambda>c. c \<noteq> CHR 0x00) line) of
           [] \<Rightarrow> next_tokens rest
         | str # toks \<Rightarrow>
             if hd str = CHR ''#'' then next_tokens rest else Some (str # toks, rest)))"
  by pat_completeness auto
termination
  by (relation "measure length") (auto intro: fgets_less)

declare next_tokens.simps [simp del]

text \<open>The loop over the arguments: a missing word or one \<open>strtoul\<close> does not consume fails.\<close>

fun read_args :: "nat \<Rightarrow> string list \<Rightarrow> (int list \<times> string list) option" where
  "read_args 0 toks = Some ([], toks)"
| "read_args (Suc n) [] = None"
| "read_args (Suc n) (str # toks) =
     (case strtoul0 str of (v, end) \<Rightarrow>
        if end \<noteq> [] then None
        else map_option (\<lambda>(as, r). (s32 v # as, r)) (read_args n toks))"

fun read_flags :: "opflags \<Rightarrow> string list \<Rightarrow> opflags option" where
  "read_flags fl [] = Some fl"
| "read_flags fl (str # toks) =
     (if str = ''keep_size'' then read_flags (fl\<lparr>fl_keep_size := True\<rparr>) toks
      else if str = ''close_open'' then read_flags (fl\<lparr>fl_close_open := True\<rparr>) toks
      else if str = ''*'' then read_flags fl toks
      else None)"

definition parse_op :: "string list \<Rightarrow> log_entry option" where
  "parse_op ts =
     (let skip = (hd ts = ''skip'');
          ts' = (if skip then tl ts else ts) in
      case ts' of
        [] \<Rightarrow> None
      | str # toks \<Rightarrow>
          (let oper = op_code str in
           if oper = -1 then None
           else case read_args (nat (op_args_count oper)) toks of
             None \<Rightarrow> None
           | Some (as, rest) \<Rightarrow>
               map_option
                 (\<lambda>fl. \<lparr>operation = oper, nr_args = op_args_count oper,
                       args = as @ replicate (4 - length as) 0, flags = fl\<rparr>)
                 (read_flags (if skip then FL_SKIPPED else FL_NONE) rest)))"

text \<open>
  \<open>read_op\<close>: an entry and the state after reading it, \<open>None\<close> at the end of the file (the
  stream is forgotten), or \<open>exit(100)\<close> by way of \<open>cleanup\<close> on a parse error.
\<close>

definition read_op :: "'k fsx \<Rightarrow> (halt \<times> 'k fsx) + (log_entry option \<times> 'k fsx)" where
  "read_op s =
     (case next_tokens (case replayopsf s of None \<Rightarrow> [] | Some f \<Rightarrow> f) of
        None \<Rightarrow> Inr (None, s\<lparr>replayopsf := None\<rparr>)
      | Some (ts, rest) \<Rightarrow>
          (case parse_op ts of
             None \<Rightarrow> Inl (Exit 100, s\<lparr>replayopsf := None\<rparr>)
           | Some le \<Rightarrow> Inr (Some le, s\<lparr>replayopsf := Some rest\<rparr>)))"

section \<open>Round trip\<close>

text \<open>The entries \<open>log4\<close> and \<open>log5\<close> make for their own operations.\<close>

definition wf_entry :: "log_entry \<Rightarrow> bool" where
  "wf_entry e \<longleftrightarrow> fop_of (operation e) \<noteq> None \<and> nr_args e = op_args_count (operation e)
     \<and> length (args e) = 4 \<and> list_all (\<lambda>a. -2147483648 \<le> a \<and> a < 2147483648) (args e)"

text \<open>What survives the file: the counted arguments and the flags.\<close>

definition canon_entry :: "log_entry \<Rightarrow> log_entry" where
  "canon_entry e = e\<lparr>args := take (nat (nr_args e)) (args e) @
     replicate (4 - nat (nr_args e)) 0\<rparr>"

text \<open>The words of a dumped line.\<close>

definition entry_words :: "log_entry \<Rightarrow> fop \<Rightarrow> bool \<Rightarrow> string list" where
  "entry_words e p ov =
     (if fl_skipped (flags e) then [''skip''] else []) @ [fop_name p] @
     map fmt_0x (take (nat (nr_args e)) (args e)) @
     (if fl_keep_size (flags e) then [''keep_size''] else []) @
     (if fl_close_open (flags e) then [''close_open''] else []) @
     (if ov then [''*''] else [])"

lemma word_fop_name: "word (fop_name p)"
  by (cases p) (simp_all add: word_def is_delim_def)

lemma length_fop_name: "length (fop_name p) \<le> 14"
  by (cases p) simp_all

lemma word_markers: "word ''skip''" "word ''keep_size''" "word ''close_open''" "word ''*''"
  by (simp_all add: word_def is_delim_def)

lemma words_of_entry: "list_all word (entry_words e p ov)"
  by (auto simp: entry_words_def word_fop_name list_all_iff word_fmt_0x word_markers)

lemma dump_line_words:
  assumes "fop_of (operation e) = Some p"
  shows "dump_line e ov = unwords (hd (entry_words e p ov)) (tl (entry_words e p ov))"
  using fop_of_Some[OF assms]
  by (simp add: dump_line_def unwords_def entry_words_def o_def)

lemma read_args_fmt:
  "list_all (\<lambda>a. -2147483648 \<le> a \<and> a < 2147483648) as \<Longrightarrow>
   read_args (length as) (map fmt_0x as @ toks) = Some (as, toks)"
  by (induction as) (simp_all add: strtoul0_fmt_0x s32_id)

lemma parse_entry_words:
  assumes "fop_of (operation e) = Some p" and "wf_entry e"
  shows "parse_op (entry_words e p ov) = Some (canon_entry e)"
proof -
  let ?n = "nat (op_args_count (operation e))"
  let ?as = "take ?n (args e)"
  let ?fl = "(if fl_keep_size (flags e) then [''keep_size''] else []) @
     (if fl_close_open (flags e) then [''close_open''] else []) @ (if ov then [''*''] else [])"
  have oper: "operation e = fop_code p" using assms(1) by (rule fop_of_Some)
  have n: "?n \<le> 4" by (simp add: op_args_count_def split: option.splits fop.splits)
  have nr: "nr_args e = op_args_count (operation e)" and len: "length (args e) = 4"
    using assms(2) by (auto simp: wf_entry_def)
  have "list_all (\<lambda>a. -2147483648 \<le> a \<and> a < 2147483648) ?as"
    using assms(2) by (auto simp: wf_entry_def list_all_iff dest: in_set_takeD)
  then have rd: "read_args ?n (map fmt_0x ?as @ ?fl) = Some (?as, ?fl)"
    using read_args_fmt[of ?as ?fl] n len by simp
  have fl: "read_flags (if fl_skipped (flags e) then FL_SKIPPED else FL_NONE) ?fl = Some (flags e)"
    by (cases "flags e") (auto simp: FL_SKIPPED_def FL_NONE_def)
  have code: "fop_code p \<noteq> -1" by (cases p) simp_all
  have body: "entry_words e p ov =
     (if fl_skipped (flags e) then [''skip''] else []) @ fop_name p # map fmt_0x ?as @ ?fl"
    by (simp add: entry_words_def nr)
  have "parse_op (entry_words e p ov) =
     Some \<lparr>operation = fop_code p, nr_args = op_args_count (fop_code p),
           args = ?as @ replicate (4 - length ?as) 0, flags = flags e\<rparr>"
    using rd fl code unfolding body oper
    by (cases "fl_skipped (flags e)") (simp_all add: parse_op_def op_code_skip Let_def)
  also have "\<dots> = Some (canon_entry e)"
    using n len nr oper by (cases e) (simp add: canon_entry_def min_def)
  finally show ?thesis .
qed

lemma digit_not_nul: "is_digit b c \<Longrightarrow> c \<noteq> CHR 0x00"
  by (auto simp: is_digit_def digit_val_def)

lemma dump_line_nonul:
  "CHR 0x00 \<notin> set (dump_line e ov)"
proof -
  have "CHR 0x00 \<notin> set (to_base 16 n)" for n
    using to_base_digits[of 16 n] digit_not_nul by (auto simp: list_all_iff)
  then have "CHR 0x00 \<notin> set (fmt_0x a)" for a
    by (simp add: fmt_0x_def)
  moreover have "CHR 0x00 \<notin> set (fop_name p)" for p
    by (cases p) simp_all
  then have "op_name i = Some n \<Longrightarrow> CHR 0x00 \<notin> set n" for i n
    by (auto simp: op_name_def op_names_def split: if_splits)
  ultimately show ?thesis
    by (auto simp: dump_line_def split: option.splits)
qed

text \<open>The whole file: every line in turn, as the replay loop of \<open>test\<close> asks for them.\<close>

function read_all :: "string \<Rightarrow> log_entry list option" where
  "read_all f =
     (case next_tokens f of
        None \<Rightarrow> Some []
      | Some (ts, rest) \<Rightarrow>
          (case parse_op ts of
             None \<Rightarrow> None
           | Some e \<Rightarrow> map_option (Cons e) (read_all rest)))"
  by pat_completeness auto

lemma next_tokens_less: "next_tokens f = Some (ts, rest) \<Longrightarrow> length rest < length f"
proof (induction f rule: next_tokens.induct)
  case (1 f)
  obtain line r where fg: "fgets 255 f = (line, r)" by (cases "fgets 255 f")
  have "f \<noteq> []" using "1.prems" by (auto simp: next_tokens.simps)
  then have less: "length r < length f" using fgets_less[of line r f] fg by simp
  show ?case
    using "1.prems" "1.IH" less fg \<open>f \<noteq> []\<close>
    by (subst (asm) next_tokens.simps) (fastforce split: list.splits if_splits)
qed

termination read_all
  by (relation "measure length") (auto dest: next_tokens_less)

declare read_all.simps [simp del]

definition dump_file :: "(log_entry \<times> bool) list \<Rightarrow> string" where
  "dump_file es = concat (map (\<lambda>(e, ov). dump_line e ov) es)"

lemma length_fmt_0x: "length (fmt_0x a) \<le> 10"
proof -
  have "nat (u32 a) < 16 ^ Suc 7"
    using u32_range(2)[of a] by (simp add: nat_less_iff)
  then show ?thesis
    using length_to_base[of "nat (u32 a)" 7] by (simp add: fmt_0x_def)
qed

lemma length_fmt_args: "(\<Sum>a\<leftarrow>as. Suc (length (fmt_0x a))) \<le> 11 * length as"
proof (induction as)
  case (Cons a as)
  then show ?case using length_fmt_0x[of a] by simp
qed simp

lemma entry_words_length:
  assumes "length (args e) = 4"
  shows "length (hd (entry_words e p ov)) +
    sum_list (map (\<lambda>v. Suc (length v)) (tl (entry_words e p ov))) < 255"
proof -
  let ?as = "take (nat (nr_args e)) (args e)"
  have "length ?as \<le> 4"
    using assms by simp
  then have "(\<Sum>a\<leftarrow>?as. Suc (length (fmt_0x a))) \<le> 44"
    using length_fmt_args[of ?as] by linarith
  then show ?thesis
    using length_fop_name[of p] by (simp add: entry_words_def o_def)
qed

lemma hd_entry_words: "hd (hd (entry_words e p ov)) \<noteq> CHR ''#''"
  by (cases p) (simp_all add: entry_words_def)

text \<open>One line: \<open>read_op\<close>'s tokenizer takes exactly the words of the line.\<close>

lemma next_tokens_dump:
  assumes "fop_of (operation e) = Some p" and "length (args e) = 4"
  shows "next_tokens (dump_line e ov @ f) = Some (entry_words e p ov, f)"
proof -
  obtain w ws where ne: "entry_words e p ov = w # ws"
    by (cases "entry_words e p ov") (auto simp: entry_words_def)
  have words: "list_all word (w # ws)"
    using words_of_entry[of e p ov] ne by simp
  have line: "dump_line e ov = unwords w ws"
    using dump_line_words[OF assms(1), of ov] ne by simp
  have fg: "fgets 255 (unwords w ws @ f) = (unwords w ws, f)"
    using words entry_words_length[OF assms(2), of p ov] ne by (intro unwords_line) simp_all
  have hd: "hd w \<noteq> CHR ''#''"
    using hd_entry_words[of e p ov] ne by simp
  have "CHR 0x00 \<notin> set (unwords w ws)"
    by (simp add: dump_line_nonul flip: line)
  then have line_end: "takeWhile (\<lambda>c. c \<noteq> CHR 0x00) (unwords w ws) = unwords w ws"
    by (auto simp only: takeWhile_eq_all_conv)
  have "strtoks (unwords w ws) = w # ws"
    using words by (intro strtoks_unwords) simp_all
  moreover have "unwords w ws \<noteq> []" by (simp add: unwords_def)
  ultimately show ?thesis
    using hd by (subst next_tokens.simps) (simp add: line fg ne line_end)
qed

text \<open>An entry with three arguments for an operation of four is read but does not parse.\<close>

lemma read_args_append:
  "list_all (\<lambda>a. -2147483648 \<le> a \<and> a < 2147483648) as \<Longrightarrow>
   read_args (length as + n) (map fmt_0x as @ toks) =
     map_option (\<lambda>(bs, r). (as @ bs, r)) (read_args n toks)"
  by (induction as)
     (simp_all add: strtoul0_fmt_0x s32_id option.map_comp option.map_id0 split_def o_def flip: id_def)

lemma parse_short:
  assumes "fop_of (operation e) = Some p" and "op_args_count (operation e) = 4"
    and "nr_args e = 3" and "length (args e) = 4"
    and "list_all (\<lambda>a. -2147483648 \<le> a \<and> a < 2147483648) (take 3 (args e))"
  shows "parse_op (entry_words e p ov) = None"
proof -
  let ?fl = "(if fl_keep_size (flags e) then [''keep_size''] else []) @
     (if fl_close_open (flags e) then [''close_open''] else []) @ (if ov then [''*''] else [])"
  have oper: "operation e = fop_code p" using assms(1) by (rule fop_of_Some)
  have "strtoul0 w = (0, w)" if "w \<in> {''keep_size'', ''close_open'', ''*''}" for w
    using that by (auto simp: strtoul0_def scan_number_def isspace_def is_digit_def digit_val_def)
  then have "read_args 1 ?fl = None" by auto
  then have rd: "read_args 4 (map fmt_0x (take 3 (args e)) @ ?fl) = None"
    using read_args_append[OF assms(5), of 1 ?fl] assms(4) by simp
  have code: "fop_code p \<noteq> -1" by (cases p) simp_all
  show ?thesis
    using rd code assms(2,3) unfolding oper
    by (cases "fl_skipped (flags e)")
       (simp_all add: parse_op_def op_code_skip Let_def entry_words_def)
qed

lemma parse_dump_file:
  assumes "list_all (\<lambda>(e, ov). wf_entry e) es"
  shows "read_all (dump_file es) = Some (map (\<lambda>(e, ov). canon_entry e) es)"
  using assms
proof (induction es)
  case Nil
  have "next_tokens [] = None" by (simp add: next_tokens.simps)
  then show ?case by (simp add: dump_file_def read_all.simps)
next
  case (Cons x es)
  obtain e ov where x: "x = (e, ov)" by (cases x)
  have wf: "wf_entry e" using Cons.prems x by simp
  then obtain p where p: "fop_of (operation e) = Some p" by (auto simp: wf_entry_def)
  have "next_tokens (dump_file (x # es)) = Some (entry_words e p ov, dump_file es)"
    using next_tokens_dump[OF p] wf by (simp add: dump_file_def x wf_entry_def)
  moreover have "read_all (dump_file es) = Some (map (\<lambda>(e, ov). canon_entry e) es)"
    using Cons by simp
  ultimately show ?case
    by (subst read_all.simps) (simp add: parse_entry_words[OF p wf] x)
qed

text \<open>When no entry is bogus the loop visits every slot once: it prints \<open>log_entries\<close>.\<close>

lemma logdump_loop_eq:
  assumes "0 \<le> i" and "i < LOGSIZE"
    and "\<And>j. j < n \<Longrightarrow> fop_of (operation (oplog s ((i + int j) mod LOGSIZE))) \<noteq> None"
  shows "logdump_loop s i n = dump_file (map (\<lambda>j.
    (let e = oplog s ((i + int j) mod LOGSIZE) in (e, dump_overlap (badoff s) e))) [0..<n])"
  using assms
proof (induction n arbitrary: i)
  case 0
  then show ?case by (simp add: dump_file_def)
next
  case (Suc n)
  let ?i = "if i + 1 = LOGSIZE then 0 else i + 1"
  have i: "i mod LOGSIZE = i" using Suc.prems by simp
  have step: "(?i + int j) mod LOGSIZE = (i + int (Suc j)) mod LOGSIZE" for j
    using mod_add_self1[of LOGSIZE "int j"] by (auto simp: algebra_simps)
  have "logdump_loop s ?i n = dump_file (map (\<lambda>j.
    (let e = oplog s ((?i + int j) mod LOGSIZE) in (e, dump_overlap (badoff s) e))) [0..<n])"
    using Suc.prems(1,2) Suc.prems(3)[of "Suc _"] step by (intro Suc.IH) auto
  moreover have "[0..<Suc n] = 0 # map Suc [0..<n]"
    by (subst upt_conv_Cons) (simp_all add: map_Suc_upt)
  moreover have "fop_of (operation (oplog s i)) \<noteq> None"
    using Suc.prems(3)[of 0] i by simp
  ultimately show ?case
    using step by (auto simp add: dump_file_def i Let_def o_def simp del: upt_Suc of_nat_Suc)
qed

lemma logdump_text_entries:
  assumes "log_inv s" and "\<And>e. e \<in> set (log_entries s) \<Longrightarrow> fop_of (operation e) \<noteq> None"
  shows "logdump_text s = dump_file (map (\<lambda>e. (e, dump_overlap (badoff s) e)) (log_entries s))"
proof -
  have "0 \<le> log_start s" and "log_start s < LOGSIZE"
    using assms(1) by (auto simp: log_inv_def log_start_def)
  then have "logdump_text s = dump_file (map (\<lambda>j.
      (let e = oplog s ((log_start s + int j) mod LOGSIZE) in (e, dump_overlap (badoff s) e)))
      [0..<nat (log_len s)])"
    unfolding logdump_text_def using assms(2)
    by (intro logdump_loop_eq) (auto simp: log_entries_def)
  then show ?thesis by (simp add: log_entries_def o_def Let_def)
qed

section \<open>Properties\<close>

text \<open>
  C13 (roundtrip). The ops file that \<open>logdump\<close> writes replays: when every logged entry carries
  the arguments its operation takes, reading the file with \<open>read_op\<close>'s parser gives back
  the logged operations in order, with their arguments and their flags; the overlap markers
  are ignored.
\<close>

theorem ops_file_roundtrip:
  assumes "log_inv s" and "\<And>e. e \<in> set (log_entries s) \<Longrightarrow> wf_entry e"
  shows "read_all (logdump_text s) = Some (map canon_entry (log_entries s))"
proof -
  have "logdump_text s = dump_file (map (\<lambda>e. (e, dump_overlap (badoff s) e)) (log_entries s))"
    using assms by (intro logdump_text_entries) (auto simp: wf_entry_def)
  then show ?thesis
    using assms(2) parse_dump_file[of "map (\<lambda>e. (e, dump_overlap (badoff s) e)) (log_entries s)"]
    by (auto simp: list_all_iff o_def)
qed

definition log_sample :: "unit logged_scheme" where
  "log_sample = log5 12 4096 512 8192 FL_NONE (log4 0 4096 512 FL_SKIPPED
     \<lparr>good_buf = [], file_size = -1, oplog = (\<lambda>_. zero_entry), logptr = 0, logcount = 0,
      closeopen = True, badoff = 4100\<rparr>)"

lemma log_sample_entries: "log_inv log_sample"
  "log_entries log_sample =
    [\<lparr>operation = 0, nr_args = 3, args = [4096, 512, -1, 0],
       flags = FL_SKIPPED\<lparr>fl_close_open := True\<rparr>\<rparr>,
     \<lparr>operation = 12, nr_args = 4, args = [4096, 512, 8192, -1],
       flags = FL_NONE\<lparr>fl_close_open := True\<rparr>\<rparr>]"
  by (simp_all add: log_sample_def log4_def log5_def log_push_def log_flags_def log_inv_def
      log_entries_def log_start_def log_len_def s32_id zero_entry_def numeral_2_eq_2)

theorem ops_file_roundtrip_witness:
  "read_all (logdump_text log_sample) = Some (map canon_entry (log_entries log_sample))
   \<and> length (log_entries log_sample) = 2"
proof -
  have "wf_entry e" if "e \<in> set (log_entries log_sample)" for e
    using that by (auto simp: log_sample_entries wf_entry_def fop_of_def fops_def op_args_count_def)
  then show ?thesis
    using ops_file_roundtrip[OF log_sample_entries(1)] by (simp add: log_sample_entries(2))
qed

text \<open>
  A skipped clone, dedupe or copy that is logged with \<open>log4\<close>, as the replay loop
  of \<open>test\<close> logs every skipped entry, cannot be replayed again: its line has three arguments
  where \<open>read_op\<close> wants four, so parsing stops with an error whatever follows in the file.
\<close>

theorem replayed_skip_not_replayable:
  assumes "fop_of oper \<in> {Some Op_clone_range, Some Op_dedupe_range, Some Op_copy_range}"
  shows "read_all (dump_line (oplog (log4 oper a b fl s) (logptr s)) ov @ f) = None"
proof -
  let ?e = "oplog (log4 oper a b fl s) (logptr s)"
  obtain p where p: "fop_of oper = Some p" "p = Op_clone_range \<or> p = Op_dedupe_range \<or> p = Op_copy_range"
    using assms by auto
  have e: "operation ?e = oper" "nr_args ?e = 3" "length (args ?e) = 4"
    by (simp_all add: log4_def log_push_def)
  have "next_tokens (dump_line ?e ov @ f) = Some (entry_words ?e p ov, f)"
    using p(1) e by (intro next_tokens_dump) simp_all
  moreover have "parse_op (entry_words ?e p ov) = None"
    using p e
    by (intro parse_short) (auto simp: op_args_count_def log4_def log_push_def numeral_3_eq_3)
  ultimately show ?thesis by (subst read_all.simps) simp
qed

definition skip_sample :: "unit logged_scheme" where
  "skip_sample = \<lparr>good_buf = [], file_size = 64, oplog = (\<lambda>_. zero_entry), logptr = 0,
     logcount = 0, closeopen = False, badoff = -1\<rparr>"

theorem replayed_skip_not_replayable_witness:
  "fop_of 10 \<in> {Some Op_clone_range, Some Op_dedupe_range, Some Op_copy_range}
   \<and> read_all (dump_line (oplog (log4 10 0 0 FL_SKIPPED skip_sample) (logptr skip_sample)) False
       @ ''read 0 1 2'') = None"
proof -
  have "fop_of 10 \<in> {Some Op_clone_range, Some Op_dedupe_range, Some Op_copy_range}"
    by (simp add: fop_of_def fops_def)
  then show ?thesis
    using replayed_skip_not_replayable[of 10 0 0 FL_SKIPPED skip_sample False] by blast
qed

text \<open>
  The operation number \<open>logdump\<close> prints in front of an entry is its true number,
  counted from 1, except that once the ring has wrapped around every entry from \<open>logptr\<close> up is
  numbered \<open>LOGSIZE\<close> too high.
\<close>

theorem dumped_number:
  assumes "log_inv s" and "0 \<le> j" and "j < log_len s" and "i = (log_start s + j) mod LOGSIZE"
  shows "opnum s i = (logcount s - log_len s + j + 1) +
    (if LOGSIZE \<le> logcount s \<and> logptr s \<le> i then LOGSIZE else 0)"
proof (cases "logcount s < LOGSIZE")
  case True
  then show ?thesis
    using assms by (simp add: opnum_def log_len_def log_start_def log_inv_def c_div_nonneg)
next
  case False
  define q where "q = logcount s div LOGSIZE"
  have cnt: "logcount s = q * LOGSIZE + logptr s" and p: "0 \<le> logptr s" "logptr s < LOGSIZE"
    using assms(1) by (simp_all add: log_inv_def q_def)
  have div: "c_div (logcount s) LOGSIZE = q"
    using assms(1) by (simp add: log_inv_def c_div_nonneg q_def)
  have j: "j < LOGSIZE" and len: "log_len s = LOGSIZE" and start: "log_start s = logptr s"
    using False assms(3) by (simp_all add: log_len_def log_start_def)
  show ?thesis
  proof (cases "logptr s + j < LOGSIZE")
    case True
    then have "i = logptr s + j" using assms(2,4) p start by simp
    then show ?thesis
      using False assms(2) div len cnt by (simp add: opnum_def)
  next
    case wrapped: False
    have "(logptr s + j) mod LOGSIZE = (logptr s + j - LOGSIZE) mod LOGSIZE"
      by (simp only: minus_mod_self2)
    also have "\<dots> = logptr s + j - LOGSIZE"
      using wrapped j p by (intro mod_pos_pos_trivial) simp_all
    finally have "i = logptr s + j - LOGSIZE"
      using assms(4) start by simp
    then show ?thesis
      using False j div len cnt by (simp add: opnum_def)
  qed
qed

definition wrapped_log :: "unit logged_scheme" where
  "wrapped_log = skip_sample\<lparr>logptr := 5, logcount := 10005\<rparr>"

theorem dumped_number_witness: "opnum wrapped_log 5 = 6 + LOGSIZE \<and> log_start wrapped_log = 5"
proof -
  have cnt: "logcount wrapped_log = 10005" "logptr wrapped_log = 5"
    by (simp_all add: wrapped_log_def)
  then have h: "log_inv wrapped_log" "log_len wrapped_log = LOGSIZE" "log_start wrapped_log = 5"
    by (simp_all add: log_inv_def log_len_def log_start_def)
  have "opnum wrapped_log 5 = (logcount wrapped_log - log_len wrapped_log + 0 + 1) +
      (if LOGSIZE \<le> logcount wrapped_log \<and> logptr wrapped_log \<le> 5 then LOGSIZE else 0)"
    by (rule dumped_number) (simp_all add: h)
  then show ?thesis by (simp add: h cnt)
qed

end
