(* ===== verification/Fsx_Shadow.thy ===== *)
theory Fsx_Shadow
  imports Fsx_State
begin

text \<open>
  The copy of the file that \<open>fsx\<close> keeps: \<open>good_buf\<close> and \<open>file_size\<close>. Each definition is the
  part of an operation's code that updates them; a write outside \<open>good_buf\<close> is \<open>None\<close>. The
  lemmas say that each of them computes the abstract file operation of \<open>Flat_File\<close> on the
  content of the copy, as long as the operation stays within the buffer.
\<close>

definition shadow_content :: "'a shadow_scheme \<Rightarrow> byte list" where
  "shadow_content s = take (nat (file_size s)) (good_buf s)"

definition shadow_ok :: "'a shadow_scheme \<Rightarrow> bool" where
  "shadow_ok s \<longleftrightarrow> 0 \<le> file_size s \<and> file_size s \<le> int (length (good_buf s))
     \<and> length (good_buf s) < 4294967296"

section \<open>gendata and writing\<close>

text \<open>
  One byte of generated data: the fill character, or the operation number, to which odd
  offsets add the original data. \<open>unsigned\<close> offsets wrap around.
\<close>

fun gendata :: "byte \<Rightarrow> int \<Rightarrow> byte list \<Rightarrow> byte list \<Rightarrow> int \<Rightarrow> nat \<Rightarrow> byte list option" where
  "gendata fill tc orig good off 0 = Some good"
| "gendata fill tc orig good off (Suc n) =
     (if int (length good) \<le> off then None
      else if fill \<noteq> 0 then gendata fill tc orig (good[nat off := fill]) (u32 (off + 1)) n
      else if off mod 2 = 0
        then gendata fill tc orig (good[nat off := word_of_int (tc mod 256)]) (u32 (off + 1)) n
      else if int (length orig) \<le> off then None
      else gendata fill tc orig (good[nat off := word_of_int (tc mod 256) + orig ! nat off])
             (u32 (off + 1)) n)"

definition gen_byte :: "byte \<Rightarrow> int \<Rightarrow> byte list \<Rightarrow> int \<Rightarrow> byte" where
  "gen_byte fill tc orig i =
     (if fill \<noteq> 0 then fill
      else if i mod 2 = 0 then word_of_int (tc mod 256)
      else word_of_int (tc mod 256) + orig ! nat i)"

definition gen_bytes :: "byte \<Rightarrow> int \<Rightarrow> byte list \<Rightarrow> int \<Rightarrow> nat \<Rightarrow> byte list" where
  "gen_bytes fill tc orig off n = map (\<lambda>j. gen_byte fill tc orig (off + int j)) [0..<n]"

lemma length_gen_bytes [simp]: "length (gen_bytes fill tc orig off n) = n"
  by (simp add: gen_bytes_def)

lemma gen_bytes_Suc:
  "gen_bytes fill tc orig off (Suc n) =
     gen_byte fill tc orig off # gen_bytes fill tc orig (off + 1) n"
proof -
  have "[0..<Suc n] = 0 # map Suc [0..<n]"
    by (subst upt_conv_Cons) (simp_all add: map_Suc_upt)
  then show ?thesis by (simp add: gen_bytes_def o_def algebra_simps del: upt_Suc)
qed

text \<open>Within the buffers the loop stores the block of generated bytes.\<close>

lemma gendata_eq:
  assumes "0 \<le> off" and "off + int n \<le> int (length good)" and "length good < 4294967296"
    and "fill = 0 \<Longrightarrow> off + int n \<le> int (length orig)"
  shows "gendata fill tc orig good off n = mem_store good off (gen_bytes fill tc orig off n)"
  using assms
proof (induction n arbitrary: good off)
  case 0
  then show ?case by (simp add: mem_store_def gen_bytes_def)
next
  case (Suc n)
  let ?b = "gen_byte fill tc orig off"
  let ?g = "good[nat off := ?b]"
  have step: "gendata fill tc orig good off (Suc n) = gendata fill tc orig ?g (u32 (off + 1)) n"
    using Suc.prems by (auto simp: gen_byte_def)
  also have "\<dots> = gendata fill tc orig ?g (off + 1) n"
  proof (cases n)
    case (Suc m)
    then show ?thesis using Suc.prems by (simp add: u32_id)
  qed simp
  also have "\<dots> = mem_store ?g (off + 1) (gen_bytes fill tc orig (off + 1) n)"
    using Suc.prems by (intro Suc.IH) auto
  also have "\<dots> = mem_store good off (gen_bytes fill tc orig off (Suc n))"
    using Suc.prems
    by (simp add: mem_store_def gen_bytes_Suc nat_add_distrib take_Suc_conv_app_nth
        upd_conv_take_nth_drop) (simp add: add.commute)
  finally show ?case .
qed

text \<open>The tail of \<open>dowrite\<close> and \<open>domapwrite\<close>: a write past the end zeroes the gap and grows.\<close>

definition sh_extend :: "int \<Rightarrow> int \<Rightarrow> 'a shadow_scheme \<Rightarrow> 'a shadow_scheme option" where
  "sh_extend off sz s =
     (if file_size s < u32 (off + sz) then
        (if file_size s < off
         then map_option (\<lambda>g. s\<lparr>good_buf := g, file_size := u32 (off + sz)\<rparr>)
                (mem_set (good_buf s) (file_size s) 0 (off - file_size s))
         else Some (s\<lparr>file_size := u32 (off + sz)\<rparr>))
      else Some s)"

definition sh_write ::
  "byte \<Rightarrow> int \<Rightarrow> byte list \<Rightarrow> int \<Rightarrow> int \<Rightarrow> 'a shadow_scheme \<Rightarrow> 'a shadow_scheme option" where
  "sh_write fill tc orig off sz s =
     Option.bind (gendata fill tc orig (good_buf s) off (nat sz))
       (\<lambda>g. sh_extend off sz (s\<lparr>good_buf := g\<rparr>))"

section \<open>The other operations\<close>

definition sh_truncate :: "int \<Rightarrow> 'a shadow_scheme \<Rightarrow> 'a shadow_scheme option" where
  "sh_truncate sz s =
     (if file_size s < sz
      then map_option (\<lambda>g. s\<lparr>good_buf := g, file_size := sz\<rparr>)
             (mem_set (good_buf s) (file_size s) 0 (sz - file_size s))
      else Some (s\<lparr>file_size := sz\<rparr>))"

definition sh_punch_hole :: "int \<Rightarrow> int \<Rightarrow> 'a shadow_scheme \<Rightarrow> 'a shadow_scheme option" where
  "sh_punch_hole off len s =
     (let max_offset = s32 (if off < file_size s then off else file_size s);
          max_len = s32 (if u32 (max_offset + len) \<le> file_size s then len
                         else file_size s - max_offset) in
      map_option (\<lambda>g. s\<lparr>good_buf := g\<rparr>) (mem_set (good_buf s) max_offset 0 max_len))"

definition sh_zero_range :: "int \<Rightarrow> int \<Rightarrow> 'a shadow_scheme \<Rightarrow> 'a shadow_scheme option" where
  "sh_zero_range off len s =
     map_option (\<lambda>g. s\<lparr>good_buf := g\<rparr>) (mem_set (good_buf s) off 0 len)"

definition sh_collapse_range :: "int \<Rightarrow> int \<Rightarrow> 'a shadow_scheme \<Rightarrow> 'a shadow_scheme option" where
  "sh_collapse_range off len s =
     map_option (\<lambda>g. s\<lparr>good_buf := g, file_size := file_size s - len\<rparr>)
       (mem_move (good_buf s) off (u32 (off + len)) (file_size s - u32 (off + len)))"

definition sh_insert_range :: "int \<Rightarrow> int \<Rightarrow> 'a shadow_scheme \<Rightarrow> 'a shadow_scheme option" where
  "sh_insert_range off len s =
     Option.bind (mem_move (good_buf s) (u32 (off + len)) off (file_size s - off))
       (\<lambda>g. map_option (\<lambda>g'. s\<lparr>good_buf := g', file_size := file_size s + len\<rparr>)
              (mem_set g off 0 len))"

text \<open>The copy made by \<open>do_clone_range\<close> and \<open>do_copy_range\<close>: data first, then the gap.\<close>

definition sh_copy_range :: "int \<Rightarrow> int \<Rightarrow> int \<Rightarrow> 'a shadow_scheme \<Rightarrow> 'a shadow_scheme option" where
  "sh_copy_range off len dest s =
     Option.bind (mem_copy (good_buf s) dest off len) (\<lambda>g.
     Option.bind (if file_size s < dest then mem_set g (file_size s) 0 (dest - file_size s)
                  else Some g) (\<lambda>g'.
     Some (s\<lparr>good_buf := g',
             file_size := (if file_size s < u32 (dest + len) then u32 (dest + len)
                           else file_size s)\<rparr>)))"

definition sh_allocate :: "int \<Rightarrow> 'a shadow_scheme \<Rightarrow> 'a shadow_scheme option" where
  "sh_allocate end_offset s = (if file_size s < end_offset then sh_truncate end_offset s else Some s)"

section \<open>Refinement of the abstract file\<close>

text \<open>
  What each update is proved to be: it stays inside \<open>good_buf\<close>, its content is the abstract
  operation's, and it changes nothing but the two fields.
\<close>

definition sh_refines :: "'a shadow_scheme \<Rightarrow> 'a shadow_scheme option \<Rightarrow> byte list \<Rightarrow> bool" where
  "sh_refines s r c \<longleftrightarrow> (\<exists>s'. r = Some s' \<and> shadow_ok s' \<and> shadow_content s' = c
     \<and> length (good_buf s') = length (good_buf s)
     \<and> s' = s\<lparr>good_buf := good_buf s', file_size := file_size s'\<rparr>)"

lemma sh_refinesI:
  assumes "r = Some (s\<lparr>good_buf := g, file_size := z\<rparr>)" and "shadow_ok s"
    and "length g = length (good_buf s)" and "0 \<le> z" and "z \<le> int (length g)"
    and "take (nat z) g = c"
  shows "sh_refines s r c"
  using assms by (auto simp: sh_refines_def shadow_ok_def shadow_content_def)

lemma length_shadow_content:
  "shadow_ok s \<Longrightarrow> int (length (shadow_content s)) = file_size s"
  by (auto simp: shadow_ok_def shadow_content_def)

lemma sh_refines_size:
  "sh_refines s (Some s') c \<Longrightarrow> file_size s' = int (length c)"
  using length_shadow_content by (fastforce simp: sh_refines_def)

text \<open>The equations between a block store in the buffer and the abstract operation.\<close>

lemma content_pwrite:
  assumes "f \<le> length g" and "off + length bs \<le> length g" and "off \<le> f"
  shows "take (max f (off + length bs)) (take off g @ bs @ drop (off + length bs) g)
    = ff_pwrite off bs (take f g)"
proof -
  have "max f (off + length bs) - (off + length bs) = f - (off + length bs)" by simp
  then show ?thesis
    using assms by (simp add: ff_pwrite_def drop_take min_absorb1 min_absorb2)
qed

lemma content_pwrite_gap:
  assumes "f < off" and "off + length bs \<le> length g"
  shows "take (off + length bs)
      (let g' = take off g @ bs @ drop (off + length bs) g
       in take f g' @ replicate (off - f) 0 @ drop off g')
    = ff_pwrite off bs (take f g)"
  using assms by (simp add: ff_pwrite_def Let_def)

lemma content_truncate:
  assumes "f \<le> n" and "n \<le> length g"
  shows "take n (take f g @ replicate (n - f) 0 @ drop n g) = ff_truncate n (take f g)"
  using assms by (simp add: ff_truncate_def)

lemma int_natE:
  fixes x :: int
  assumes "0 \<le> x" obtains n where "x = int n"
  using assms nonneg_int_cases by blast

lemma sh_extend_refines:
  assumes "shadow_ok s" and "0 \<le> off" and "0 < sz"
    and "off + sz \<le> int (length (good_buf s))" and "int (length bs) = sz"
    and "good_buf t = take (nat off) (good_buf s) @ bs @ drop (nat off + length bs) (good_buf s)"
    and "t = s\<lparr>good_buf := good_buf t\<rparr>"
  shows "sh_refines s (sh_extend off sz t) (ff_pwrite (nat off) bs (shadow_content s))"
proof -
  obtain o' where o: "off = int o'" using assms(2) by (rule int_natE)
  have m: "sz = int (length bs)" using assms(5) by simp
  obtain f where f: "file_size s = int f"
    using assms(1) by (auto simp: shadow_ok_def elim: int_natE)
  have u: "u32 (off + sz) = off + sz"
    using assms(1-4) by (intro u32_id) (auto simp: shadow_ok_def)
  have fl: "f \<le> length (good_buf s)" and le: "o' + length bs \<le> length (good_buf s)"
    using assms(1,4) by (auto simp: shadow_ok_def f o m)
  let ?g = "take o' (good_buf s) @ bs @ drop (o' + length bs) (good_buf s)"
  have t: "t = s\<lparr>good_buf := ?g\<rparr>" using assms(6,7) by (simp add: o)
  have u': "u32 (int o' + int (length bs)) = int o' + int (length bs)"
    using u by (simp add: o m)
  show ?thesis
  proof (cases "f < o'")
    case True
    let ?g2 = "take f ?g @ replicate (o' - f) 0 @ drop o' ?g"
    have eq: "sh_extend off sz t = Some (s\<lparr>good_buf := ?g2, file_size := off + sz\<rparr>)"
      using True le by (simp add: sh_extend_def t u' o f m mem_simps nat_diff_distrib)
    have "take (o' + length bs) ?g2 = ff_pwrite o' bs (take f (good_buf s))"
      using content_pwrite_gap[of f o' bs "good_buf s"] True le by (simp add: Let_def)
    then show ?thesis
      using assms(1) True le
      by (intro sh_refinesI[OF eq]) (simp_all add: o m f shadow_content_def nat_int_add)
  next
    case False
    have eq: "sh_extend off sz t =
        Some (s\<lparr>good_buf := ?g, file_size := int (max f (o' + length bs))\<rparr>)"
    proof -
      have "s\<lparr>good_buf := ?g, file_size := int f\<rparr> = s\<lparr>good_buf := ?g\<rparr>"
        unfolding f[symmetric] by (cases s) simp
      then show ?thesis
        using False by (auto simp: sh_extend_def t u' o f m max_def)
    qed
    have "take (max f (o' + length bs)) ?g = ff_pwrite o' bs (take f (good_buf s))"
      using content_pwrite[OF fl le] False by simp
    then show ?thesis
      using assms(1) fl le
      by (intro sh_refinesI[OF eq]) (simp_all add: o f shadow_content_def)
  qed
qed

lemma sh_write_refines:
  assumes "shadow_ok s" and "0 \<le> off" and "0 < sz"
    and "off + sz \<le> int (length (good_buf s))"
    and "fill = 0 \<Longrightarrow> off + sz \<le> int (length orig)"
  shows "sh_refines s (sh_write fill tc orig off sz s)
    (ff_pwrite (nat off) (gen_bytes fill tc orig off (nat sz)) (shadow_content s))"
proof -
  let ?bs = "gen_bytes fill tc orig off (nat sz)"
  let ?g = "take (nat off) (good_buf s) @ ?bs @ drop (nat off + length ?bs) (good_buf s)"
  have "gendata fill tc orig (good_buf s) off (nat sz) = mem_store (good_buf s) off ?bs"
    using assms by (intro gendata_eq) (auto simp: shadow_ok_def)
  also have "\<dots> = Some ?g"
    using assms by (intro mem_store_Some) auto
  finally have "sh_write fill tc orig off sz s = sh_extend off sz (s\<lparr>good_buf := ?g\<rparr>)"
    by (simp add: sh_write_def)
  moreover have "sh_refines s (sh_extend off sz (s\<lparr>good_buf := ?g\<rparr>))
      (ff_pwrite (nat off) ?bs (shadow_content s))"
    by (rule sh_extend_refines) (use assms in simp_all)
  ultimately show ?thesis by simp
qed

lemma sh_truncate_refines:
  assumes "shadow_ok s" and "0 \<le> sz" and "sz \<le> int (length (good_buf s))"
  shows "sh_refines s (sh_truncate sz s) (ff_truncate (nat sz) (shadow_content s))"
proof -
  obtain n where n: "sz = int n" using assms(2) by (rule int_natE)
  obtain f where f: "file_size s = int f"
    using assms(1) by (auto simp: shadow_ok_def elim: int_natE)
  have fl: "f \<le> length (good_buf s)" and nl: "n \<le> length (good_buf s)"
    using assms by (auto simp: shadow_ok_def f n)
  show ?thesis
  proof (cases "f < n")
    case True
    let ?g = "take f (good_buf s) @ replicate (n - f) 0 @ drop n (good_buf s)"
    have eq: "sh_truncate sz s = Some (s\<lparr>good_buf := ?g, file_size := sz\<rparr>)"
      using True nl by (simp add: sh_truncate_def n f mem_simps nat_diff_distrib)
    show ?thesis
      using True nl assms content_truncate[of f n "good_buf s"]
      by (intro sh_refinesI[OF eq]) (simp_all add: n f shadow_content_def)
  next
    case False
    have eq: "sh_truncate sz s = Some (s\<lparr>good_buf := good_buf s, file_size := sz\<rparr>)"
      using False by (simp add: sh_truncate_def n f)
    show ?thesis
      using False nl fl assms
      by (intro sh_refinesI[OF eq]) (simp_all add: n f shadow_content_def ff_truncate_def min_absorb1)
  qed
qed

lemma sh_allocate_refines:
  assumes "shadow_ok s" and "0 \<le> e" and "e \<le> int (length (good_buf s))"
  shows "sh_refines s (sh_allocate e s)
    (ff_truncate (max (nat e) (length (shadow_content s))) (shadow_content s))"
proof (cases "file_size s < e")
  case True
  then have "max (nat e) (length (shadow_content s)) = nat e"
    using length_shadow_content[OF assms(1)] by simp
  then show ?thesis
    using True sh_truncate_refines[OF assms] by (simp add: sh_allocate_def)
next
  case False
  then have "max (nat e) (length (shadow_content s)) = length (shadow_content s)"
    using length_shadow_content[OF assms(1)] by simp
  then show ?thesis
    using False assms(1) by (simp add: sh_allocate_def sh_refines_def ff_simps)
qed

text \<open>Zeroing, moving and copying ranges inside the file.\<close>

lemma sh_zero_range_refines:
  assumes "shadow_ok s" and "0 \<le> off" and "0 \<le> len" and "off + len \<le> file_size s"
  shows "sh_refines s (sh_zero_range off len s)
    (ff_zero (nat off) (nat len) (shadow_content s))"
proof -
  obtain o' where o: "off = int o'" using assms(2) by (rule int_natE)
  obtain m where m: "len = int m" using assms(3) by (rule int_natE)
  obtain f where f: "file_size s = int f"
    using assms(1) by (auto simp: shadow_ok_def elim: int_natE)
  have fl: "f \<le> length (good_buf s)" and le: "o' + m \<le> f"
    using assms by (auto simp: shadow_ok_def f o m)
  let ?g = "take o' (good_buf s) @ replicate m 0 @ drop (o' + m) (good_buf s)"
  have eq: "sh_zero_range off len s = Some (s\<lparr>good_buf := ?g, file_size := int f\<rparr>)"
  proof -
    have "s\<lparr>good_buf := ?g, file_size := int f\<rparr> = s\<lparr>good_buf := ?g\<rparr>"
      unfolding f[symmetric] by (cases s) simp
    then show ?thesis using le fl by (simp add: sh_zero_range_def o m mem_simps)
  qed
  have "take f ?g = ff_zero o' m (take f (good_buf s))"
    using content_pwrite[of f "good_buf s" o' "replicate m 0"] fl le
    by (simp add: ff_zero_def max_absorb1)
  then show ?thesis
    using assms(1) fl le by (intro sh_refinesI[OF eq]) (simp_all add: o m f shadow_content_def)
qed

lemma sh_punch_hole_refines:
  assumes "shadow_ok s" and "0 \<le> off" and "0 < len" and "off < file_size s"
    and "off + len < 4294967296" and "file_size s < 2147483648" and "len < 2147483648"
  shows "sh_refines s (sh_punch_hole off len s)
    (ff_punch (nat off) (nat len) (shadow_content s))"
proof -
  let ?l = "if off + len \<le> file_size s then len else file_size s - off"
  have mo: "s32 off = off" and ul: "u32 (off + len) = off + len" and sl: "s32 ?l = ?l"
    using assms by (auto intro!: s32_id u32_id)
  have "sh_punch_hole off len s = sh_zero_range off ?l s"
    using assms(4) sl by (simp add: sh_punch_hole_def sh_zero_range_def Let_def mo ul)
  moreover have "sh_refines s (sh_zero_range off ?l s)
      (ff_zero (nat off) (nat ?l) (shadow_content s))"
    using assms by (intro sh_zero_range_refines) auto
  moreover have "nat ?l = min (nat len) (length (shadow_content s) - nat off)"
    using length_shadow_content[OF assms(1)] assms(2-4) by (auto simp: min_def)
  ultimately show ?thesis by (simp add: ff_punch_def)
qed

lemma sh_collapse_range_refines:
  assumes "shadow_ok s" and "0 \<le> off" and "0 < len" and "off + len < file_size s"
  shows "sh_refines s (sh_collapse_range off len s)
    (ff_collapse (nat off) (nat len) (shadow_content s))"
proof -
  obtain o' where o: "off = int o'" using assms(2) by (rule int_natE)
  obtain m where m: "len = int m" using assms(3) by (auto intro: int_natE[of len])
  obtain f where f: "file_size s = int f"
    using assms(1) by (auto simp: shadow_ok_def elim: int_natE)
  have fl: "f \<le> length (good_buf s)" and le: "o' + m < f" and lim: "length (good_buf s) < 4294967296"
    using assms by (auto simp: shadow_ok_def f o m)
  have u: "u32 (int o' + int m) = int (o' + m)"
    using fl le lim by (subst u32_id) auto
  let ?b = "take (f - (o' + m)) (drop (o' + m) (good_buf s))"
  let ?g = "take o' (good_buf s) @ ?b @ drop (o' + (f - (o' + m))) (good_buf s)"
  have "nat (int f - int (o' + m)) = f - (o' + m)" by simp
  then have eq: "sh_collapse_range off len s = Some (s\<lparr>good_buf := ?g, file_size := int (f - m)\<rparr>)"
    using fl le
    by (simp add: sh_collapse_range_def o m f u mem_move_def mem_load_Some mem_store_Some
        min_absorb2 del: nat_diff_distrib' of_nat_add)
  have "take (f - m) ?g = ff_collapse o' m (take f (good_buf s))"
    using fl le by (simp add: ff_collapse_def drop_take min_absorb2 min_absorb1)
      (simp add: add.commute)
  then show ?thesis
    using assms(1) fl le by (intro sh_refinesI[OF eq]) (simp_all add: o m f shadow_content_def del: of_nat_diff)
qed

lemma sh_insert_range_refines:
  assumes "shadow_ok s" and "0 \<le> off" and "0 < len" and "off < file_size s"
    and "file_size s + len \<le> int (length (good_buf s))"
  shows "sh_refines s (sh_insert_range off len s)
    (ff_insert (nat off) (nat len) (shadow_content s))"
proof -
  obtain o' where o: "off = int o'" using assms(2) by (rule int_natE)
  obtain m where m: "len = int m" using assms(3) by (auto intro: int_natE[of len])
  obtain f where f: "file_size s = int f"
    using assms(1) by (auto simp: shadow_ok_def elim: int_natE)
  have le: "o' < f" "f + m \<le> length (good_buf s)" and lim: "length (good_buf s) < 4294967296"
    using assms by (auto simp: shadow_ok_def f o m)
  have u: "u32 (int o' + int m) = int (o' + m)"
    using le lim by (subst u32_id) auto
  have n: "nat (int f - int o') = f - o'" by simp
  let ?b = "take (f - o') (drop o' (good_buf s))"
  let ?g1 = "take (o' + m) (good_buf s) @ ?b @ drop (o' + m + (f - o')) (good_buf s)"
  let ?g2 = "take o' (good_buf s) @ replicate m 0 @ ?b @ drop (o' + m + (f - o')) (good_buf s)"
  have "mem_move (good_buf s) (u32 (off + len)) off (file_size s - off) = Some ?g1"
    using le n by (simp add: o m f u mem_move_def mem_load_Some mem_store_Some min_absorb2
        nat_int_add)
  moreover have "mem_set ?g1 off 0 len = Some ?g2"
    using le by (simp add: o m mem_set_Some min_absorb1)
  ultimately have eq: "sh_insert_range off len s =
      Some (s\<lparr>good_buf := ?g2, file_size := int (f + m)\<rparr>)"
    by (simp add: sh_insert_range_def f m)
  have "take (f + m) ?g2 = ff_insert o' m (take f (good_buf s))"
    using le by (simp add: ff_insert_def drop_take min_absorb2 min_absorb1)
  then show ?thesis
    using assms(1) le by (intro sh_refinesI[OF eq]) (simp_all add: o m f shadow_content_def nat_int_add)
qed

lemma sh_copy_range_refines:
  assumes "shadow_ok s" and "0 \<le> off" and "0 < len" and "0 \<le> dest"
    and "off + len \<le> file_size s" and "dest + len \<le> int (length (good_buf s))"
    and "off + len \<le> dest \<or> dest + len \<le> off"
  shows "sh_refines s (sh_copy_range off len dest s)
    (ff_clone (nat off) (nat len) (nat dest) (shadow_content s))"
proof -
  obtain o' where o: "off = int o'" using assms(2) by (rule int_natE)
  obtain m where m: "len = int m" using assms(3) by (auto intro: int_natE[of len])
  obtain d where d: "dest = int d" using assms(4) by (rule int_natE)
  obtain f where f: "file_size s = int f"
    using assms(1) by (auto simp: shadow_ok_def elim: int_natE)
  have le: "o' + m \<le> f" "f \<le> length (good_buf s)" "d + m \<le> length (good_buf s)"
    using assms by (auto simp: shadow_ok_def f o m d)
  let ?b = "take m (drop o' (good_buf s))"
  let ?g = "take d (good_buf s) @ ?b @ drop (d + m) (good_buf s)"
  let ?t = "s\<lparr>good_buf := ?g\<rparr>"
  have copy: "mem_copy (good_buf s) dest off len = Some ?g"
    using le assms(7)
    by (auto simp: o m d mem_copy_def mem_move_def mem_load_Some mem_store_Some min_absorb2)
  have "sh_copy_range off len dest s = sh_extend dest len ?t"
  proof -
    have u: "u32 (int d + int m) = int d + int m"
      using le assms(1) by (intro u32_id) (auto simp: shadow_ok_def)
    have same: "s\<lparr>good_buf := ?g, file_size := int f\<rparr> = ?t"
      unfolding f[symmetric] by (cases s) simp
    show ?thesis
      using copy assms(3) same
      by (cases "mem_set ?g (int f) 0 (int d - int f)")
         (auto simp: sh_copy_range_def sh_extend_def o m d f u)
  qed
  moreover have "ff_read o' m (shadow_content s) = ?b"
    using le by (simp add: ff_read_def shadow_content_def f drop_take min_absorb1)
  moreover have "sh_refines s (sh_extend dest len ?t) (ff_pwrite (nat dest) ?b (shadow_content s))"
    using assms le by (intro sh_extend_refines) (simp_all add: o m d min_absorb2)
  ultimately show ?thesis
    by (simp add: ff_clone_def o m d)
qed

end
