(* ===== verification/Fsx_Ops.thy ===== *)
theory Fsx_Ops
  imports Fsx_Replay Fsx_Shadow
begin

text \<open>
  The operations of \<open>fsx\<close>, one definition per C function. An operation takes the
  configuration \<open>c\<close>, the kernel \<open>K\<close>, its arguments (already converted to \<open>unsigned\<close>) and the
  globals; it returns the globals (\<open>Inr\<close>) or the way the process ended (\<open>Inl\<close>), with the
  globals at that moment. \<open>prt\<close>, \<open>prterr\<close> and \<open>warn\<close> print and change nothing here.
\<close>

type_synonym 'k run = "(halt \<times> 'k fsx) + 'k fsx"

section \<open>Failing\<close>

text \<open>
  \<open>save_buffer\<close> writes the first \<open>len\<close> bytes of \<open>buffer\<close> to the file \<open>f\<close>; \<open>fd\<close> is open, so
  \<open>fd <= 0\<close> is false.
\<close>

definition save_buffer :: "config \<Rightarrow> 'k kernel \<Rightarrow> byte list \<Rightarrow> int \<Rightarrow> 'k \<Rightarrow> halt + 'k" where
  "save_buffer c K buffer len f =
     (if len = 0 then Inr f
      else if 9223372036854775807 < len then Inl (Exit 67)
      else
        (let (len', f1) =
           (if lite c then case k_seek_end K f of (size_by_seek, f1) \<Rightarrow>
              (if size_by_seek = -1 then len
               else if size_by_seek < len then size_by_seek else len, f1)
            else (len, f)) in
         case k_seek K 0 f1 of (ret, f2) \<Rightarrow>
           (case mem_load buffer 0 len' of
              None \<Rightarrow> Inl Fault
            | Some bs \<Rightarrow> (case k_write K bs f2 of (written, f3) \<Rightarrow> Inr f3))))"

definition report_failure :: "config \<Rightarrow> 'k kernel \<Rightarrow> int \<Rightarrow> 'k fsx \<Rightarrow> (halt \<times> 'k fsx) + 'a" where
  "report_failure c K status s =
     (let s1 = logdump s in
      case save_buffer c K (good_buf s1) (file_size s1) (goodfile s1) of
        Inl h \<Rightarrow> Inl (h, s1)
      | Inr g \<Rightarrow> Inl (Exit status, s1\<lparr>goodfile := g\<rparr>))"

text \<open>A system call on the file under test, and one whose bad results end the run.\<close>

definition kcall :: "('k \<Rightarrow> int \<times> 'k) \<Rightarrow> 'k fsx \<Rightarrow> int \<times> 'k fsx" where
  "kcall f s = (case f (kern s) of (r, k) \<Rightarrow> (r, s\<lparr>kern := k\<rparr>))"

definition kcheck ::
  "config \<Rightarrow> 'k kernel \<Rightarrow> ('k \<Rightarrow> int \<times> 'k) \<Rightarrow> (int \<Rightarrow> bool) \<Rightarrow> int \<Rightarrow> 'k fsx \<Rightarrow> 'k run" where
  "kcheck c K f bad status s =
     (case kcall f s of (r, s1) \<Rightarrow> if bad r then report_failure c K status s1 else Inr s1)"

section \<open>Checking\<close>

text \<open>\<open>badoff\<close> after the loop over the bytes: the last offset where the two differ.\<close>

fun scan_bad :: "int \<Rightarrow> byte list \<Rightarrow> byte list \<Rightarrow> int \<Rightarrow> int" where
  "scan_bad off (g # gs) (t # ts) bad =
     scan_bad (u32 (off + 1)) gs ts (if g \<noteq> t then s32 off else bad)"
| "scan_bad off _ _ bad = bad"

definition check_buffers ::
  "config \<Rightarrow> 'k kernel \<Rightarrow> byte list \<Rightarrow> int \<Rightarrow> int \<Rightarrow> 'k fsx \<Rightarrow> 'k run" where
  "check_buffers c K buf off sz s =
     on_ok (or_fault s (mem_load (good_buf s) off sz)) (\<lambda>good.
     on_ok (or_fault s (mem_load buf 0 sz)) (\<lambda>got.
       if good = got then Inr s
       else report_failure c K 110 (s\<lparr>badoff := scan_bad off good got (badoff s)\<rparr>)))"

definition check_size :: "config \<Rightarrow> 'k kernel \<Rightarrow> 'k fsx \<Rightarrow> 'k run" where
  "check_size c K s =
     (case k_fstat K (kern s) of (r, st, k1) \<Rightarrow>
        let st_size = (if r \<noteq> 0 then -1 else st) in
        case kcall (k_seek_end K) (s\<lparr>kern := k1\<rparr>) of (size_by_seek, s1) \<Rightarrow>
          if file_size s1 \<noteq> st_size \<or> file_size s1 \<noteq> size_by_seek
          then report_failure c K 120 s1 else Inr s1)"

definition check_trunc_hack :: "'k kernel \<Rightarrow> 'k fsx \<Rightarrow> 'k run" where
  "check_trunc_hack K s =
     (let offset = file_size s + 100000 in
      case kcall (k_ftruncate K (file_size s)) s of (r1, s1) \<Rightarrow>
      if r1 \<noteq> 0 then Inl (Exit 131, s1) else
      case kcall (k_ftruncate K offset) s1 of (r2, s2) \<Rightarrow>
      if r2 \<noteq> 0 then Inl (Exit 131, s2) else
      case k_fstat K (kern s2) of (r3, st_size, k3) \<Rightarrow>
      let s3 = s2\<lparr>kern := k3\<rparr> in
      if st_size \<noteq> offset then Inl (Exit 130, s3) else
      case kcall (k_ftruncate K (file_size s)) s3 of (r4, s4) \<Rightarrow>
      if r4 \<noteq> 0 then Inl (Exit 131, s4) else Inr s4)"

text \<open>Mapping a range of the file, with the exit status if \<open>mmap\<close> fails.\<close>

definition map_file ::
  "config \<Rightarrow> 'k kernel \<Rightarrow> int \<Rightarrow> int \<Rightarrow> int \<Rightarrow> 'k fsx \<Rightarrow> (halt \<times> 'k fsx) + (mapping \<times> 'k fsx)" where
  "map_file c K status len off s =
     (case kcall (k_mmap K len off) s of (p, s1) \<Rightarrow>
        if p = -1 then report_failure c K status s1
        else Inr (\<lparr>m_addr = p, m_foff = off, m_len = len\<rparr>, s1))"

definition doflush :: "config \<Rightarrow> 'k kernel \<Rightarrow> int \<Rightarrow> int \<Rightarrow> 'k fsx \<Rightarrow> 'k run" where
  "doflush c K off sz s =
     (if o_direct c then Inr s
      else
        (let pg_offset = off AND page_mask c; map_size = u32 (pg_offset + sz) in
         on_ok (map_file c K 202 map_size (off - pg_offset) s) (\<lambda>(m, s1).
         on_ok (kcheck c K (k_msync K) (\<lambda>r. r \<noteq> 0) 203 s1) (\<lambda>s2.
         kcheck c K (k_munmap K) (\<lambda>r. r \<noteq> 0) 204 s2))))"

text \<open>The scan of the last mapped page from the end of the file on, byte by byte.\<close>

fun eof_scan :: "config \<Rightarrow> 'k kernel \<Rightarrow> mapping \<Rightarrow> int \<Rightarrow> nat \<Rightarrow> 'k fsx \<Rightarrow> 'k run" where
  "eof_scan c K m a 0 s = Inr s"
| "eof_scan c K m a (Suc n) s =
     (case map_load K (page_size c) m a (kern s) of
        None \<Rightarrow> Inl (Fault, s)
      | Some b \<Rightarrow> if b \<noteq> 0 then report_failure c K 205 s else eof_scan c K m (a + 1) n s)"

definition check_eofpage ::
  "config \<Rightarrow> 'k kernel \<Rightarrow> int \<Rightarrow> mapping \<Rightarrow> int \<Rightarrow> 'k fsx \<Rightarrow> 'k run" where
  "check_eofpage c K off p sz s =
     (if u32 (off + sz) \<le> (file_size s AND NOT (page_mask c)) then Inr s
      else
        (let last_page = u64 (m_addr p + (off AND page_mask c) + sz) AND NOT (page_mask c);
             should_be_zero = last_page + (file_size s AND page_mask c) in
         eof_scan c K p should_be_zero (nat (last_page + page_size c - should_be_zero)) s))"

section \<open>Reading\<close>

text \<open>
  \<open>__aio_rw\<close> turns the three results of an asynchronous request into the result of a
  \<open>read\<close> or \<open>write\<close>: \<open>-1\<close> for an error, else the (truncated) byte count.
\<close>

definition aio_result :: "int \<Rightarrow> int \<Rightarrow> int \<Rightarrow> int \<Rightarrow> int" where
  "aio_result len submitted got res =
     (if submitted \<noteq> 1 then -1
      else if got \<noteq> 1 then -1
      else if len \<noteq> res \<and> res < 0 then -1
      else s32 res)"

definition fsxread :: "config \<Rightarrow> 'k kernel \<Rightarrow> int \<Rightarrow> int \<Rightarrow> 'k \<Rightarrow> int \<times> byte list \<times> 'k" where
  "fsxread c K len off k =
     (if aio c then case k_aio_read K len off k of (sub, got, res, bs, k1) \<Rightarrow>
        (aio_result len sub got res, bs, k1)
      else case k_read K len k of (r, bs, k1) \<Rightarrow> (s32 r, bs, k1))"

definition fsxwrite :: "config \<Rightarrow> 'k kernel \<Rightarrow> byte list \<Rightarrow> int \<Rightarrow> 'k \<Rightarrow> int \<times> 'k" where
  "fsxwrite c K bs off k =
     (if aio c then case k_aio_write K bs off k of (sub, got, res, k1) \<Rightarrow>
        (aio_result (int (length bs)) sub got res, k1)
      else case k_write K bs k of (r, k1) \<Rightarrow> (s32 r, k1))"

definition doread :: "config \<Rightarrow> 'k kernel \<Rightarrow> int \<Rightarrow> int \<Rightarrow> 'k fsx \<Rightarrow> 'k run" where
  "doread c K off0 sz0 s =
     (let off = off0 - off0 mod readbdy c;
          sz = (if o_direct c then sz0 - sz0 mod readbdy c else sz0) in
      if sz = 0 then Inr (log4 (fop_code Op_read) off sz FL_SKIPPED s)
      else if file_size s < u32 (sz + off) then Inr (log4 (fop_code Op_read) off sz FL_SKIPPED s)
      else
        (let s1 = log4 (fop_code Op_read) off sz FL_NONE s in
         if testcalls s1 \<le> simulatedopcount c then Inr s1
         else
           on_ok (kcheck c K (k_seek K off) (\<lambda>r. r = -1) 140 s1) (\<lambda>s2.
           case fsxread c K sz off (kern s2) of (ret, bs, k3) \<Rightarrow>
             on_ok (or_fault s2 (mem_store (temp_buf s2) 0 bs)) (\<lambda>tb.
             let s3 = s2\<lparr>kern := k3, temp_buf := tb\<rparr> in
             if u32 ret \<noteq> sz then report_failure c K 141 s3
             else check_buffers c K (temp_buf s3) off sz s3))))"

definition check_contents :: "config \<Rightarrow> 'k kernel \<Rightarrow> 'k fsx \<Rightarrow> 'k run" where
  "check_contents c K s0 =
     (let s = (if check_buf s0 = [] then s0\<lparr>check_buf := replicate (nat (maxfilelen c)) 0\<rparr> else s0);
          sz0 = u32 (file_size s);
          sz = (if o_direct c then sz0 - sz0 mod readbdy c else sz0) in
      if sz = 0 then Inr s
      else
        on_ok (kcheck c K (k_seek K 0) (\<lambda>r. r = -1) 140 s) (\<lambda>s1.
        case fsxread c K sz 0 (kern s1) of (ret, bs, k2) \<Rightarrow>
          on_ok (or_fault s1 (mem_store (check_buf s1) 0 bs)) (\<lambda>cb.
          let s2 = s1\<lparr>kern := k2, check_buf := cb\<rparr> in
          if u32 ret \<noteq> sz then report_failure c K 141 s2
          else
            on_ok (check_buffers c K (check_buf s2) 0 sz s2) (\<lambda>s3.
            let mo0 = sz - (sz AND page_mask c);
                map_offset = (if mo0 = sz then u32 (mo0 - page_size c) else mo0);
                map_size = u32 (sz - map_offset) in
            on_ok (map_file c K 190 map_size map_offset s3) (\<lambda>(p, s4).
            on_ok (check_eofpage c K map_offset p map_size s4) (\<lambda>s5.
            kcheck c K (k_munmap K) (\<lambda>r. r \<noteq> 0) 191 s5))))))"

definition domapread :: "config \<Rightarrow> 'k kernel \<Rightarrow> int \<Rightarrow> int \<Rightarrow> 'k fsx \<Rightarrow> 'k run" where
  "domapread c K off0 sz s =
     (let off = off0 - off0 mod readbdy c in
      if sz = 0 then Inr (log4 (fop_code Op_mapread) off sz FL_SKIPPED s)
      else if file_size s < u32 (sz + off) then Inr (log4 (fop_code Op_mapread) off sz FL_SKIPPED s)
      else
        (let s1 = log4 (fop_code Op_mapread) off sz FL_NONE s in
         if testcalls s1 \<le> simulatedopcount c then Inr s1
         else
           (let pg_offset = off AND page_mask c; map_size = u32 (pg_offset + sz) in
            on_ok (map_file c K 190 map_size (off - pg_offset) s1) (\<lambda>(p, s2).
            on_ok (or_fault s2 (map_load_n K (page_size c) p (m_addr p + pg_offset) (nat sz) (kern s2))) (\<lambda>bs.
            on_ok (or_fault s2 (mem_store (temp_buf s2) 0 bs)) (\<lambda>tb.
            on_ok (check_eofpage c K off p sz (s2\<lparr>temp_buf := tb\<rparr>)) (\<lambda>s3.
            on_ok (kcheck c K (k_munmap K) (\<lambda>r. r \<noteq> 0) 191 s3) (\<lambda>s4.
            check_buffers c K (temp_buf s4) off sz s4))))))))"

end
