(* ===== verification/Fsx_Mutators.thy ===== *)
theory Fsx_Mutators
  imports Fsx_Ops
begin

text \<open>
  The operations of \<open>fsx\<close> that change the file: each one updates \<open>good_buf\<close> and \<open>file_size\<close>
  (the \<open>sh_\<close> functions of \<open>Fsx_Shadow\<close>) and asks the kernel for the same change. The order
  differs: \<open>dowrite\<close>, \<open>domapwrite\<close>, \<open>dotruncate\<close> and \<open>do_preallocate\<close> update the copy before
  the test on \<open>simulatedopcount\<close>, the others only after the system call.
\<close>

definition simulated :: "config \<Rightarrow> 'k fsx \<Rightarrow> bool" where
  "simulated c s \<longleftrightarrow> testcalls s \<le> simulatedopcount c"

text \<open>Raise the high-water mark \<open>biggest\<close>, which is only printed.\<close>

definition raise_biggest :: "int \<Rightarrow> 'k fsx \<Rightarrow> 'k fsx" where
  "raise_biggest n s = (if biggest s < n then s\<lparr>biggest := n\<rparr> else s)"

section \<open>Writing and truncating\<close>

text \<open>
  The part \<open>dowrite\<close> and \<open>domapwrite\<close> share: the new data goes to \<open>good_buf\<close>, and growing the
  file in \<open>lite\<close> mode is a bug of \<open>fsx\<close> that ends the run.
\<close>

definition write_shadow :: "config \<Rightarrow> 'k kernel \<Rightarrow> int \<Rightarrow> int \<Rightarrow> int \<Rightarrow> 'k fsx \<Rightarrow> 'k run" where
  "write_shadow c K status off sz s =
     on_ok (or_fault s (sh_write (filldata c) (testcalls s) (original_buf s) off sz s)) (\<lambda>s1.
       if lite c \<and> file_size s < u32 (off + sz) then report_failure c K status s1 else Inr s1)"

definition dowrite :: "config \<Rightarrow> 'k kernel \<Rightarrow> int \<Rightarrow> int \<Rightarrow> 'k fsx \<Rightarrow> 'k run" where
  "dowrite c K off0 sz0 s =
     (let off = off0 - off0 mod writebdy c;
          sz = (if o_direct c then sz0 - sz0 mod writebdy c else sz0) in
      if sz = 0 then Inr (log4 (fop_code Op_write) off sz FL_SKIPPED s)
      else
        on_ok (write_shadow c K 149 off sz (log4 (fop_code Op_write) off sz FL_NONE s)) (\<lambda>s1.
        if simulated c s1 then Inr s1
        else
          on_ok (kcheck c K (k_seek K off) (\<lambda>r. r = -1) 150 s1) (\<lambda>s2.
          on_ok (or_fault s2 (mem_load (good_buf s2) off sz)) (\<lambda>bs.
          on_ok (kcheck c K (fsxwrite c K bs off) (\<lambda>r. u32 r \<noteq> sz) 151 s2) (\<lambda>s3.
          on_ok (if do_fsync c then kcheck c K (k_fsync K) (\<lambda>r. r \<noteq> 0) 152 s3 else Inr s3) (\<lambda>s4.
          if flush c then doflush c K off sz s4 else Inr s4))))))"

definition domapwrite :: "config \<Rightarrow> 'k kernel \<Rightarrow> int \<Rightarrow> int \<Rightarrow> 'k fsx \<Rightarrow> 'k run" where
  "domapwrite c K off0 sz s =
     (let off = off0 - off0 mod writebdy c in
      if sz = 0 then Inr (log4 (fop_code Op_mapwrite) off sz FL_SKIPPED s)
      else
        (let cur_filesize = file_size s in
         on_ok (write_shadow c K 200 off sz (log4 (fop_code Op_mapwrite) off sz FL_NONE s)) (\<lambda>s1.
         if simulated c s1 then Inr s1
         else
           on_ok (if cur_filesize < file_size s1
                  then (case kcall (k_ftruncate K (file_size s1)) s1 of (r, s2) \<Rightarrow>
                          if r = -1 then Inl (Exit 201, s2) else Inr s2)
                  else Inr s1) (\<lambda>s2.
           let pg_offset = off AND page_mask c; map_size = u32 (pg_offset + sz) in
           on_ok (map_file c K 202 map_size (off - pg_offset) s2) (\<lambda>(p, s3).
           on_ok (or_fault s3 (mem_load (good_buf s3) off sz)) (\<lambda>bs.
           on_ok (or_fault s3 (map_store K (page_size c) p (m_addr p + pg_offset) bs (kern s3))) (\<lambda>k4.
           on_ok (kcheck c K (k_msync K) (\<lambda>r. r \<noteq> 0) 203 (s3\<lparr>kern := k4\<rparr>)) (\<lambda>s5.
           on_ok (check_eofpage c K off p sz s5) (\<lambda>s6.
           kcheck c K (k_munmap K) (\<lambda>r. r \<noteq> 0) 204 s6)))))))))"

definition dotruncate :: "config \<Rightarrow> 'k kernel \<Rightarrow> int \<Rightarrow> 'k fsx \<Rightarrow> 'k run" where
  "dotruncate c K sz0 s =
     (let sz = sz0 - sz0 mod truncbdy c;
          s1 = log4 (fop_code Op_truncate) 0 sz FL_NONE (raise_biggest sz s) in
      on_ok (or_fault s1 (sh_truncate sz s1)) (\<lambda>s2.
      if simulated c s2 then Inr s2
      else kcheck c K (k_ftruncate K sz) (\<lambda>r. r = -1) 160 s2))"

section \<open>fallocate\<close>

definition do_punch_hole :: "config \<Rightarrow> 'k kernel \<Rightarrow> int \<Rightarrow> int \<Rightarrow> 'k fsx \<Rightarrow> 'k run" where
  "do_punch_hole c K off len s =
     (if len = 0 then Inr (log4 (fop_code Op_punch_hole) off len FL_SKIPPED s)
      else if file_size s \<le> off then Inr (log4 (fop_code Op_punch_hole) off len FL_SKIPPED s)
      else
        (let s1 = log4 (fop_code Op_punch_hole) off len FL_NONE s in
         if simulated c s1 then Inr s1
         else
           on_ok (kcheck c K (k_fallocate K (FALLOC_FL_PUNCH_HOLE + FALLOC_FL_KEEP_SIZE) off len)
                    (\<lambda>r. r = -1) 161 s1) (\<lambda>s2.
           or_fault s2 (sh_punch_hole off len s2))))"

definition do_zero_range :: "config \<Rightarrow> 'k kernel \<Rightarrow> int \<Rightarrow> int \<Rightarrow> bool \<Rightarrow> 'k fsx \<Rightarrow> 'k run" where
  "do_zero_range c K off len keep_size s =
     (if len = 0
      then Inr (log4 (fop_code Op_zero_range) off len ((keep_flag keep_size)\<lparr>fl_skipped := True\<rparr>) s)
      else
        (let end_offset = (if keep_size then 0 else u32 (off + len));
             s1 = log4 (fop_code Op_zero_range) off len (keep_flag keep_size)
                    (raise_biggest end_offset s) in
         if simulated c s1 then Inr s1
         else
           on_ok (kcheck c K (k_fallocate K FALLOC_FL_ZERO_RANGE off len) (\<lambda>r. r = -1) 161 s1) (\<lambda>s2.
           or_fault s2 (sh_zero_range off len s2))))"

definition do_collapse_range :: "config \<Rightarrow> 'k kernel \<Rightarrow> int \<Rightarrow> int \<Rightarrow> 'k fsx \<Rightarrow> 'k run" where
  "do_collapse_range c K off len s =
     (if len = 0 then Inr (log4 (fop_code Op_collapse_range) off len FL_SKIPPED s)
      else
        (let end_offset = u32 (off + len) in
         if file_size s \<le> end_offset
         then Inr (log4 (fop_code Op_collapse_range) off len FL_SKIPPED s)
         else
           (let s1 = log4 (fop_code Op_collapse_range) off len FL_NONE s in
            if simulated c s1 then Inr s1
            else
              on_ok (kcheck c K (k_fallocate K FALLOC_FL_COLLAPSE_RANGE off len)
                       (\<lambda>r. r = -1) 161 s1) (\<lambda>s2.
              or_fault s2 (sh_collapse_range off len s2)))))"

definition do_insert_range :: "config \<Rightarrow> 'k kernel \<Rightarrow> int \<Rightarrow> int \<Rightarrow> 'k fsx \<Rightarrow> 'k run" where
  "do_insert_range c K off len s =
     (if len = 0 then Inr (log4 (fop_code Op_insert_range) off len FL_SKIPPED s)
      else if file_size s \<le> off
      then Inr (log4 (fop_code Op_insert_range) off len FL_SKIPPED s)
      else
        (let s1 = log4 (fop_code Op_insert_range) off len FL_NONE s in
         if simulated c s1 then Inr s1
         else
           on_ok (kcheck c K (k_fallocate K FALLOC_FL_INSERT_RANGE off len)
                    (\<lambda>r. r = -1) 161 s1) (\<lambda>s2.
           or_fault s2 (sh_insert_range off len s2))))"

definition do_preallocate :: "config \<Rightarrow> 'k kernel \<Rightarrow> int \<Rightarrow> int \<Rightarrow> bool \<Rightarrow> 'k fsx \<Rightarrow> 'k run" where
  "do_preallocate c K off len keep_size s =
     (if len = 0
      then Inr (log4 (fop_code Op_fallocate) off len ((keep_flag keep_size)\<lparr>fl_skipped := True\<rparr>) s)
      else
        (let end_offset = (if keep_size then 0 else u32 (off + len));
             s1 = log4 (fop_code Op_fallocate) off len (keep_flag keep_size)
                    (raise_biggest end_offset s) in
         on_ok (or_fault s1 (sh_allocate end_offset s1)) (\<lambda>s2.
         if simulated c s2 then Inr s2
         else kcheck c K (k_fallocate K (if keep_size then FALLOC_FL_KEEP_SIZE else 0) off len)
                (\<lambda>r. r = -1) 161 s2)))"

section \<open>Cloning, deduplicating and copying\<close>

definition do_clone_range :: "config \<Rightarrow> 'k kernel \<Rightarrow> int \<Rightarrow> int \<Rightarrow> int \<Rightarrow> 'k fsx \<Rightarrow> 'k run" where
  "do_clone_range c K off len dest s =
     (if len = 0 then Inr (log5 (fop_code Op_clone_range) off len dest FL_SKIPPED s)
      else if file_size s \<le> off
      then Inr (log5 (fop_code Op_clone_range) off len dest FL_SKIPPED s)
      else
        (let s1 = log5 (fop_code Op_clone_range) off len dest FL_NONE
                    (raise_biggest (u32 (dest + len)) s) in
         if simulated c s1 then Inr s1
         else
           on_ok (kcheck c K (k_clone K off len dest) (\<lambda>r. r = -1) 161 s1) (\<lambda>s2.
           or_fault s2 (sh_copy_range off len dest s2))))"

definition do_dedupe_range :: "config \<Rightarrow> 'k kernel \<Rightarrow> int \<Rightarrow> int \<Rightarrow> int \<Rightarrow> 'k fsx \<Rightarrow> 'k run" where
  "do_dedupe_range c K off len dest s =
     (if len = 0 then Inr (log5 (fop_code Op_dedupe_range) off len dest FL_SKIPPED s)
      else if file_size s \<le> off
      then Inr (log5 (fop_code Op_dedupe_range) off len dest FL_SKIPPED s)
      else
        (let s1 = log5 (fop_code Op_dedupe_range) off len dest FL_NONE s in
         if simulated c s1 then Inr s1
         else
           (case k_dedupe K off len dest (kern s1) of (r, status, k2) \<Rightarrow>
              let s2 = s1\<lparr>kern := k2\<rparr> in
              if r = -1 then report_failure c K 161 s2
              else if status < 0 then report_failure c K 161 s2
              else Inr s2)))"

text \<open>
  The loop around \<open>copy_file_range\<close>. The kernel advances both offsets by what it copied; a
  result of 0 leaves everything as it was and the loop goes round again, so the loop may not
  end. The result: the last return value, whether it exceeded the request, and the file.
\<close>

partial_function (option) copy_loop ::
  "'k kernel \<Rightarrow> int \<Rightarrow> int \<Rightarrow> int \<Rightarrow> int \<Rightarrow> int \<Rightarrow> 'k \<Rightarrow> (int \<times> bool \<times> 'k) option" where
  "copy_loop K o1 o2 olen tries nr k =
     (if olen > 0 then
        (case k_copy K o1 o2 olen k of (nr', again, k') \<Rightarrow>
           if nr' < 0 then
             (if \<not> again then Some (nr', False, k')
              else if 300 \<le> tries then Some (nr', False, k')
              else copy_loop K o1 o2 olen (tries + 1) nr' k')
           else if olen < nr' then Some (nr', True, k')
           else copy_loop K (o1 + nr') (o2 + nr') (olen - nr') tries nr' k')
      else Some (nr, False, k))"

definition do_copy_range :: "config \<Rightarrow> 'k kernel \<Rightarrow> int \<Rightarrow> int \<Rightarrow> int \<Rightarrow> 'k fsx \<Rightarrow> 'k run" where
  "do_copy_range c K off len dest s =
     (if len = 0 then Inr (log5 (fop_code Op_copy_range) off len dest FL_SKIPPED s)
      else if file_size s \<le> off
      then Inr (log5 (fop_code Op_copy_range) off len dest FL_SKIPPED s)
      else
        (let s1 = log5 (fop_code Op_copy_range) off len dest FL_NONE
                    (raise_biggest (u32 (dest + len)) s) in
         if simulated c s1 then Inr s1
         else
           (case copy_loop K off dest len 0 0 (kern s1) of
              None \<Rightarrow> Inl (Hang, s1)
            | Some (nr, over, k2) \<Rightarrow>
                let s2 = s1\<lparr>kern := k2\<rparr> in
                if over then report_failure c K 161 s2
                else if nr < 0 then report_failure c K 161 s2
                else or_fault s2 (sh_copy_range off len dest s2))))"

section \<open>The whole file\<close>

definition writefileimage :: "config \<Rightarrow> 'k kernel \<Rightarrow> 'k fsx \<Rightarrow> 'k run" where
  "writefileimage c K s =
     on_ok (kcheck c K (k_seek K 0) (\<lambda>r. r = -1) 171 s) (\<lambda>s1.
     on_ok (or_fault s1 (mem_load (good_buf s1) 0 (file_size s1))) (\<lambda>bs.
     on_ok (kcheck c K (k_write K bs) (\<lambda>r. r \<noteq> file_size s1) 172 s1) (\<lambda>s2.
     if lite c then Inr s2
     else kcheck c K (k_ftruncate K (file_size s2)) (\<lambda>r. r = -1) 173 s2)))"

definition docloseopen :: "config \<Rightarrow> 'k kernel \<Rightarrow> 'k fsx \<Rightarrow> 'k run" where
  "docloseopen c K s =
     (if simulated c s then Inr s
      else
        on_ok (kcheck c K (k_close K) (\<lambda>r. r \<noteq> 0) 180 s) (\<lambda>s1.
        kcheck c K (k_open K) (\<lambda>r. r < 0) 181 s1))"

definition mark_log :: "'k kernel \<Rightarrow> 'k fsx \<Rightarrow> 'k run" where
  "mark_log K s = (case kcall (k_mark K (mark_nr s)) s of (r, s1) \<Rightarrow>
     if r \<noteq> 0 then Inl (Exit 211, s1) else Inr s1)"

definition dump_fsync_buffer :: "config \<Rightarrow> 'k kernel \<Rightarrow> 'k fsx \<Rightarrow> 'k run" where
  "dump_fsync_buffer c K s =
     (case k_creat K (mark_nr s) of (good_fd, f) \<Rightarrow>
        if good_fd < 0 then Inl (Exit 212, s)
        else if good_fd = 0 then Inr (s\<lparr>marks := marks s @ [(mark_nr s, f)]\<rparr>)
        else
          (case save_buffer c K (good_buf s) (file_size s) f of
             Inl h \<Rightarrow> Inl (h, s)
           | Inr f' \<Rightarrow> Inr (s\<lparr>marks := marks s @ [(mark_nr s, f')]\<rparr>)))"

definition dofsync :: "config \<Rightarrow> 'k kernel \<Rightarrow> 'k fsx \<Rightarrow> 'k run" where
  "dofsync c K s =
     (if simulated c s then Inr s
      else
        (let s1 = log4 (fop_code Op_fsync) 0 0 FL_NONE s in
         on_ok (kcheck c K (k_fsync K) (\<lambda>r. r < 0) 210 s1) (\<lambda>s2.
         on_ok (mark_log K s2) (\<lambda>s3.
         on_ok (dump_fsync_buffer c K s3) (\<lambda>s4.
         Inr (s4\<lparr>mark_nr := s32 (mark_nr s4 + 1)\<rparr>))))))"

end
