(* ===== verification/Fsx_Sync.thy ===== *)
theory Fsx_Sync
  imports Fsx_Mutators
begin

text \<open>
  The invariant of \<open>fsx\<close> and the building blocks of its preservation: on a kernel that keeps
  the contract \<open>posix_file\<close>, outside the simulated prefix of a run, the file under test holds
  exactly what \<open>good_buf\<close> says, and the checks of \<open>fsx\<close> find nothing.
\<close>

section \<open>The invariant\<close>

text \<open>
  \<open>synced\<close>: the file and the copy agree. It is due once the operations are no longer simulated
  (\<open>-b\<close>), and from the start when nothing is.
\<close>

definition sync_due :: "config \<Rightarrow> 'k fsx \<Rightarrow> bool" where
  "sync_due c s \<longleftrightarrow> \<not> simulated c s \<or> simulatedopcount c = 0"

definition fsx_inv :: "config \<Rightarrow> ('k \<Rightarrow> byte list) \<Rightarrow> ('k \<Rightarrow> bool) \<Rightarrow> 'k fsx \<Rightarrow> bool" where
  "fsx_inv c content live s \<longleftrightarrow>
     0 \<le> file_size s \<and> file_size s \<le> maxfilelen c
     \<and> maxfilelen c \<le> int (length (good_buf s)) \<and> length (good_buf s) < 4294967296
     \<and> maxfilelen c \<le> int (length (original_buf s))
     \<and> maxoplen c \<le> int (length (temp_buf s))
     \<and> (check_buf s = [] \<or> maxfilelen c \<le> int (length (check_buf s)))
     \<and> (lite c \<longrightarrow> file_size s = maxfilelen c
                  \<and> int (length (content (kern s))) = maxfilelen c)
     \<and> live (kern s)
     \<and> (sync_due c s \<longrightarrow> content (kern s) = shadow_content s)"

lemma fsx_inv_shadow_ok: "fsx_inv c content live s \<Longrightarrow> shadow_ok s"
  by (auto simp: fsx_inv_def shadow_ok_def)

text \<open>What no operation touches: the counters that decide which operation comes next.\<close>

definition stable :: "'k fsx \<Rightarrow> 'k fsx \<Rightarrow> bool" where
  "stable s s' \<longleftrightarrow> testcalls s' = testcalls s \<and> closeopen s' = closeopen s \<and> rpos s' = rpos s
     \<and> replayopsf s' = replayopsf s"

lemma stable_refl [simp]: "stable s s"
  by (simp add: stable_def)

lemma stable_trans: "stable s t \<Longrightarrow> stable t u \<Longrightarrow> stable s u"
  by (simp add: stable_def)

text \<open>
  The contract of an operation: it returns, keeps the invariant and the counters, and the
  content of the copy becomes \<open>cont\<close>.
\<close>

definition op_spec ::
  "config \<Rightarrow> ('k \<Rightarrow> byte list) \<Rightarrow> ('k \<Rightarrow> bool) \<Rightarrow> 'k fsx \<Rightarrow> byte list \<Rightarrow> 'k run \<Rightarrow> bool" where
  "op_spec c content live s cont r \<longleftrightarrow>
     ok_run (\<lambda>s'. fsx_inv c content live s' \<and> stable s s' \<and> shadow_content s' = cont) r"

section \<open>Frame lemmas\<close>

lemma log_push_fsx [simp]:
  fixes s :: "'k fsx"
  shows "original_buf (log_push le s) = original_buf s" "temp_buf (log_push le s) = temp_buf s"
    "check_buf (log_push le s) = check_buf s" "biggest (log_push le s) = biggest s"
    "testcalls (log_push le s) = testcalls s" "rpos (log_push le s) = rpos s"
    "replayopsf (log_push le s) = replayopsf s" "kern (log_push le s) = kern s"
    "goodfile (log_push le s) = goodfile s" "mark_nr (log_push le s) = mark_nr s"
    "marks (log_push le s) = marks s" "debug (log_push le s) = debug s"
  by (simp_all add: log_push_def)

lemma log4_fsx [simp]:
  fixes s :: "'k fsx"
  shows "original_buf (log4 p a b fl s) = original_buf s" "temp_buf (log4 p a b fl s) = temp_buf s"
    "check_buf (log4 p a b fl s) = check_buf s" "biggest (log4 p a b fl s) = biggest s"
    "testcalls (log4 p a b fl s) = testcalls s" "rpos (log4 p a b fl s) = rpos s"
    "replayopsf (log4 p a b fl s) = replayopsf s" "kern (log4 p a b fl s) = kern s"
    "goodfile (log4 p a b fl s) = goodfile s" "mark_nr (log4 p a b fl s) = mark_nr s"
    "marks (log4 p a b fl s) = marks s" "debug (log4 p a b fl s) = debug s"
  by (simp_all add: log4_def)

lemma log5_fsx [simp]:
  fixes s :: "'k fsx"
  shows "original_buf (log5 p a b d fl s) = original_buf s" "temp_buf (log5 p a b d fl s) = temp_buf s"
    "check_buf (log5 p a b d fl s) = check_buf s" "biggest (log5 p a b d fl s) = biggest s"
    "testcalls (log5 p a b d fl s) = testcalls s" "rpos (log5 p a b d fl s) = rpos s"
    "replayopsf (log5 p a b d fl s) = replayopsf s" "kern (log5 p a b d fl s) = kern s"
    "goodfile (log5 p a b d fl s) = goodfile s" "mark_nr (log5 p a b d fl s) = mark_nr s"
    "marks (log5 p a b d fl s) = marks s" "debug (log5 p a b d fl s) = debug s"
  by (simp_all add: log5_def)

text \<open>Two states with the same relevant fields are in the invariant together.\<close>

definition same_core :: "'k fsx \<Rightarrow> 'k fsx \<Rightarrow> bool" where
  "same_core s s' \<longleftrightarrow> good_buf s' = good_buf s \<and> file_size s' = file_size s
     \<and> original_buf s' = original_buf s \<and> length (temp_buf s') = length (temp_buf s)
     \<and> check_buf s' = check_buf s \<and> kern s' = kern s \<and> stable s s'"

lemma same_core_refl [simp]: "same_core s s"
  by (simp add: same_core_def)

lemma same_core_inv: "same_core s s' \<Longrightarrow> fsx_inv c content live s' = fsx_inv c content live s"
  by (simp add: same_core_def fsx_inv_def sync_due_def simulated_def shadow_content_def stable_def)

lemma same_core_log4 [simp]: "same_core s (log4 p a b fl s)"
  by (simp add: same_core_def stable_def)

lemma same_core_log5 [simp]: "same_core s (log5 p a b d fl s)"
  by (simp add: same_core_def stable_def)

lemma same_core_biggest [simp]: "same_core s (raise_biggest n s)"
  by (simp add: same_core_def stable_def raise_biggest_def)

lemma same_core_trans: "same_core s t \<Longrightarrow> same_core t u \<Longrightarrow> same_core s u"
  by (auto simp: same_core_def stable_def)

lemma same_coreD:
  assumes "same_core s s'"
  shows "good_buf s' = good_buf s" "file_size s' = file_size s" "kern s' = kern s"
    "original_buf s' = original_buf s" "testcalls s' = testcalls s" "stable s s'"
    "shadow_content s' = shadow_content s" "simulated c s' = simulated c s"
    "length (temp_buf s') = length (temp_buf s)" "check_buf s' = check_buf s"
  using assms by (simp_all add: same_core_def shadow_content_def simulated_def stable_def)

lemma op_spec_core:
  "same_core s s' \<Longrightarrow> fsx_inv c content live s \<Longrightarrow>
   op_spec c content live s (shadow_content s) (Inr s')"
  by (simp add: op_spec_def same_core_inv same_coreD)

text \<open>A contract relative to a state with the same core is a contract relative to the state.\<close>

lemma op_spec_from:
  "same_core s t \<Longrightarrow> op_spec c content live t cont r \<Longrightarrow> op_spec c content live s cont r"
  by (auto simp: op_spec_def elim!: ok_run_mono intro: stable_trans dest: same_coreD(6))

section \<open>System calls that succeed\<close>

lemma kcheck_ok:
  "f (kern s) = (r, k') \<Longrightarrow> \<not> bad r \<Longrightarrow> kcheck c K f bad status s = Inr (s\<lparr>kern := k'\<rparr>)"
  by (simp add: kcheck_def kcall_def)

lemma map_file_ok:
  "k_mmap K len off (kern s) = (a, k') \<Longrightarrow> 0 < a \<Longrightarrow>
   map_file c K status len off s = Inr (\<lparr>m_addr = a, m_foff = off, m_len = len\<rparr>, s\<lparr>kern := k'\<rparr>)"
  by (simp add: map_file_def kcall_def)

lemma shadow_content_kern [simp]:
  "shadow_content (s\<lparr>kern := k\<rparr>) = shadow_content (s :: 'k fsx)"
  "shadow_content (s\<lparr>temp_buf := tb\<rparr>) = shadow_content s"
  "shadow_content (s\<lparr>check_buf := cb\<rparr>) = shadow_content s"
  by (simp_all add: shadow_content_def)

lemma simulated_kern [simp]:
  "simulated c (s\<lparr>kern := k\<rparr>) = simulated c s"
  "simulated c (s\<lparr>temp_buf := tb\<rparr>) = simulated c s"
  by (simp_all add: simulated_def)

text \<open>
  A new state of the copy and the buffers: the counters and the shape of the buffers are kept,
  and the new file size is one the run allows.
\<close>

definition mem_step :: "config \<Rightarrow> 'k fsx \<Rightarrow> 'k fsx \<Rightarrow> bool" where
  "mem_step c s t \<longleftrightarrow> stable s t \<and> 0 \<le> file_size t \<and> file_size t \<le> maxfilelen c
     \<and> (lite c \<longrightarrow> file_size t = maxfilelen c)
     \<and> length (good_buf t) = length (good_buf s) \<and> original_buf t = original_buf s
     \<and> length (temp_buf t) = length (temp_buf s)
     \<and> (check_buf t = check_buf s \<or> maxfilelen c \<le> int (length (check_buf t)))"

lemma mem_step_core: "fsx_inv c content live s \<Longrightarrow> same_core s t \<Longrightarrow> mem_step c s t"
  by (auto simp: mem_step_def fsx_inv_def same_core_def)

lemma mem_step_kern [simp]: "mem_step c s (t\<lparr>kern := k\<rparr>) = mem_step c s t"
  by (simp add: mem_step_def stable_def)

lemma mem_step_temp:
  "mem_step c s t \<Longrightarrow> length tb = length (temp_buf s) \<Longrightarrow> mem_step c s (t\<lparr>temp_buf := tb\<rparr>)"
  by (simp add: mem_step_def stable_def)

lemma mem_step_inv:
  assumes "fsx_inv c content live s" and "mem_step c s t"
    and "live k" and "content k = shadow_content t"
  shows "fsx_inv c content live (t\<lparr>kern := k\<rparr>)"
proof -
  have "int (length (shadow_content t)) = file_size t"
    using assms(1,2) by (auto simp: mem_step_def fsx_inv_def shadow_content_def)
  then show ?thesis
    using assms by (auto simp: mem_step_def fsx_inv_def)
qed

lemma mem_step_simulated:
  assumes "fsx_inv c content live s" and "mem_step c s t" and "kern t = kern s"
    and "simulated c s" and "0 < testcalls s"
  shows "fsx_inv c content live t"
  using assms by (auto simp: mem_step_def fsx_inv_def sync_due_def simulated_def stable_def)

text \<open>The update of the copy, as \<open>Fsx_Shadow\<close> describes it, is such a step.\<close>

lemma sh_refines_step:
  assumes "sh_refines t r cont" and "mem_step c s t"
    and "int (length cont) \<le> maxfilelen c" and "lite c \<Longrightarrow> int (length cont) = maxfilelen c"
  obtains t' where "r = Some t'" and "shadow_content t' = cont" and "mem_step c s t'"
    and "kern t' = kern t" and "shadow_ok t'" and "file_size t' = int (length cont)"
    and "t' = t\<lparr>good_buf := good_buf t', file_size := file_size t'\<rparr>"
proof -
  obtain t' where t': "r = Some t'" "shadow_ok t'" "shadow_content t' = cont"
      "length (good_buf t') = length (good_buf t)"
      "t' = t\<lparr>good_buf := good_buf t', file_size := file_size t'\<rparr>"
    using assms(1) by (auto simp: sh_refines_def)
  have sz: "file_size t' = int (length cont)"
    using length_shadow_content[OF t'(2)] t'(3) by simp
  have "original_buf t' = original_buf t" "temp_buf t' = temp_buf t" "check_buf t' = check_buf t"
      "kern t' = kern t" "testcalls t' = testcalls t" "closeopen t' = closeopen t"
      "rpos t' = rpos t" "replayopsf t' = replayopsf t"
    by (subst t'(5), simp)+
  then have "mem_step c s t'" and "kern t' = kern t"
    using t'(4) assms(2-4) sz by (simp_all add: mem_step_def stable_def)
  then show thesis using that t' sz by blast
qed

text \<open>Replacing the kernel state by one with the same content keeps the invariant.\<close>

lemma fsx_inv_kern:
  assumes "fsx_inv c content live s" and "live k'" and "content k' = content (kern s)"
  shows "fsx_inv c content live (s\<lparr>kern := k'\<rparr>)"
  using assms by (simp add: fsx_inv_def sync_due_def)

lemma fsx_inv_temp:
  assumes "fsx_inv c content live s" and "length tb = length (temp_buf s)"
  shows "fsx_inv c content live (s\<lparr>temp_buf := tb\<rparr>)"
  using assms by (simp add: fsx_inv_def sync_due_def)

lemma stable_kern [simp]:
  "stable s (s\<lparr>kern := k'\<rparr>)" "stable s (s\<lparr>temp_buf := tb\<rparr>)" "stable s (s\<lparr>check_buf := cb\<rparr>)"
  by (simp_all add: stable_def)

section \<open>The checks find nothing on a synced file\<close>

lemma ff_read_shadow:
  assumes "0 \<le> off" and "0 \<le> sz" and "off + sz \<le> file_size s"
  shows "ff_read (nat off) (nat sz) (shadow_content s) = take (nat sz) (drop (nat off) (good_buf s))"
proof -
  have "nat off + nat sz \<le> nat (file_size s)" using assms by simp
  then show ?thesis by (simp add: ff_read_def shadow_content_def drop_take min_def)
qed

lemma check_buffers_ok:
  assumes "shadow_ok s" and "0 \<le> off" and "0 \<le> sz" and "off + sz \<le> file_size s"
    and "sz \<le> int (length buf)"
    and "take (nat sz) buf = ff_read (nat off) (nat sz) (shadow_content s)"
  shows "check_buffers c K buf off sz s = Inr s"
  using assms ff_read_shadow[OF assms(2-4)]
  by (simp add: check_buffers_def mem_load_Some shadow_ok_def)

lemma eof_scan_ok:
  "(\<And>i. i < n \<Longrightarrow> map_load K (page_size c) m (a + int i) (kern s) = Some 0) \<Longrightarrow>
   eof_scan c K m a n s = Inr s"
proof (induction n arbitrary: a)
  case (Suc n)
  have "map_load K (page_size c) m a (kern s) = Some 0"
    using Suc.prems[of 0] by simp
  moreover have "eof_scan c K m (a + 1) n s = Inr s"
    using Suc.prems[of "Suc _"] by (intro Suc.IH) (simp add: algebra_simps)
  ultimately show ?case by simp
qed simp

text \<open>Page arithmetic: an end of a range in the last page of the file.\<close>

lemma round_down_mult: "0 < b \<Longrightarrow> b dvd x \<Longrightarrow> round_down (x + y) b = x + round_down y b"
  by (auto simp: round_down_def)

lemma round_down_unique:
  assumes "0 < b" and "b dvd q" and "q \<le> x" and "x < q + b"
  shows "round_down x b = q"
proof -
  have "round_down (q + (x - q)) b = q + round_down (x - q) b"
    using assms by (intro round_down_mult)
  moreover have "round_down (x - q) b = 0"
    using assms by (simp add: round_down_def)
  ultimately show ?thesis by simp
qed

text \<open>
  The condition and the range of the scan, in file offsets: nothing is scanned when the read
  range ends before the last page of the file, else the scan is from the end of the file to the
  end of its page.
\<close>

lemma check_eofpage_scan:
  assumes pw: "pow2 psize" and ps: "page_size c = psize"
    and rng: "0 \<le> off" "0 < sz" "off + sz \<le> file_size s" "off + sz < 4294967296"
    and m: "m_foff m = off - off mod psize" "m_len m = off mod psize + sz"
      "0 < m_addr m" "psize dvd m_addr m" "m_addr m + m_len m < 18446744073709551616"
  shows "check_eofpage c K off m sz s =
    (if off + sz \<le> round_down (file_size s) psize then Inr s
     else eof_scan c K m (m_addr m + (file_size s - m_foff m))
            (nat (round_down (file_size s) psize + psize - file_size s)) s)"
    and "\<not> off + sz \<le> round_down (file_size s) psize \<Longrightarrow>
      round_down (m_len m + psize - 1) psize = round_down (file_size s) psize - m_foff m + psize"
proof -
  let ?q = "round_down (file_size s) psize"
  have P: "0 < psize" using pw by (rule pow2_pos)
  have om: "0 \<le> off mod psize" using P by simp
  have q: "psize dvd ?q" "?q \<le> file_size s" "file_size s < ?q + psize"
    using round_down_dvd[of psize "file_size s"] round_down_le[OF P, of "file_size s"]
      round_down_gt[OF P, of "file_size s"] by simp_all
  have foff: "psize dvd m_foff m" using m(1) by (simp add: minus_mod_eq_mult_div)
  have u: "u32 (off + sz) = off + sz" using rng by (simp add: u32_id)
  show "check_eofpage c K off m sz s =
    (if off + sz \<le> ?q then Inr s
     else eof_scan c K m (m_addr m + (file_size s - m_foff m)) (nat (?q + psize - file_size s)) s)"
  proof (cases "off + sz \<le> ?q")
    case True
    then show ?thesis using u by (simp add: check_eofpage_def ps mask_down[OF pw])
  next
    case False
    have end_in: "round_down (m_len m) psize = ?q - m_foff m"
      using False rng(3) q foff m(1,2) P by (intro round_down_unique) auto
    have last: "round_down (u64 (m_addr m + off mod psize + sz)) psize = m_addr m + (?q - m_foff m)"
    proof -
      have "u64 (m_addr m + off mod psize + sz) = m_addr m + m_len m"
        using m om rng(2) by (subst u64_id) auto
      then show ?thesis
        using end_in round_down_mult[OF P m(4), of "m_len m"] by simp
    qed
    have fmod: "file_size s mod psize = file_size s - ?q" by (simp add: round_down_def)
    have start: "m_addr m + (?q - m_foff m) + (file_size s - ?q) = m_addr m + (file_size s - m_foff m)"
      by simp
    have stop: "m_addr m + (?q - m_foff m) + psize - (m_addr m + (file_size s - m_foff m))
        = ?q + psize - file_size s"
      by simp
    show ?thesis
      using False u
      by (simp only: check_eofpage_def Let_def ps mask_down[OF pw] mask_mod[OF pw] last fmod start
          stop not_not bit.compl_zero if_False)
  qed
  assume "\<not> off + sz \<le> ?q"
  then show "round_down (m_len m + psize - 1) psize = ?q - m_foff m + psize"
    using rng(3) q foff m(1,2) P by (intro round_down_unique) auto
qed

context posix_file
begin

lemma check_eofpage_ok:
  assumes ps: "page_size c = psize"
    and syn: "live (kern s)" "content (kern s) = shadow_content s" "shadow_ok s"
    and rng: "0 \<le> off" "0 < sz" "off + sz \<le> file_size s" "off + sz < 4294967296"
    and m: "m_foff m = off - off mod psize" "m_len m = off mod psize + sz"
      "0 < m_addr m" "psize dvd m_addr m" "m_addr m + m_len m < 18446744073709551616"
  shows "check_eofpage c K off m sz s = Inr s"
proof (cases "off + sz \<le> round_down (file_size s) psize")
  case True
  then show ?thesis by (simp add: check_eofpage_scan(1)[OF psize ps rng m])
next
  case False
  let ?q = "round_down (file_size s) psize"
  have P: "0 < psize" by (rule psize_pos)
  have om: "0 \<le> off mod psize" using P by simp
  have len: "int (length (content (kern s))) = file_size s"
    using length_shadow_content[OF syn(3)] syn(2) by simp
  have q: "psize dvd ?q" "?q \<le> file_size s" "file_size s < ?q + psize"
    using round_down_dvd[of psize "file_size s"] round_down_le[OF P, of "file_size s"]
      round_down_gt[OF P, of "file_size s"] by simp_all
  note up_map = check_eofpage_scan(2)[OF psize ps rng m False]
  have up_file: "round_down (file_size s + psize - 1) psize = ?q + psize"
    using False rng(3) q P by (intro round_down_unique) auto
  have "eof_scan c K m (m_addr m + (file_size s - m_foff m)) (nat (?q + psize - file_size s)) s = Inr s"
  proof (rule eof_scan_ok)
    fix i assume i: "i < nat (?q + psize - file_size s)"
    have fo: "0 \<le> m_foff m" and "m_foff m \<le> off"
      using m(1) rng(1) P om by (simp_all add: zmod_le_nonneg_dividend)
    then have "map_load K psize m (m_addr m + (file_size s - m_foff m) + int i) (kern s) = Some 0"
      using i rng om up_map up_file len
      by (subst map_load_eq[OF syn(1)]) auto
    then show "map_load K (page_size c) m (m_addr m + (file_size s - m_foff m) + int i) (kern s) = Some 0"
      by (simp add: ps)
  qed
  then show ?thesis
    using False by (simp add: check_eofpage_scan(1)[OF psize ps rng m])
qed

end

end
