(* ===== verification/Fsx_Test.thy ===== *)
theory Fsx_Test
  imports Fsx_Sync
begin

text \<open>
  \<open>test\<close>, one step of \<open>fsx\<close>: choosing an operation and its arguments with \<open>random\<close> or from a
  replay file, trimming the arguments to the file, running the operation and the checks after
  it. \<open>random()\<close> is the parameter \<open>rand\<close>: the \<open>i\<close>-th call returns \<open>rand i\<close>, and the state counts
  the calls (\<open>rpos\<close>). The local variables of \<open>test\<close> are \<open>unsigned long\<close>.
\<close>

section \<open>Trimming\<close>

text \<open>The macros \<open>TRIM_OFF\<close>, \<open>TRIM_LEN\<close> and \<open>TRIM_OFF_LEN\<close>; a negative \<open>size\<close> wraps.\<close>

definition trim_off :: "int \<Rightarrow> int \<Rightarrow> int" where
  "trim_off off sz = (if sz \<noteq> 0 then off mod u64 sz else 0)"

definition trim_len :: "int \<Rightarrow> int \<Rightarrow> int \<Rightarrow> int" where
  "trim_len off len sz = (if u64 sz < u64 (off + len) then u64 (sz - off) else len)"

definition trim_off_len :: "int \<Rightarrow> int \<Rightarrow> int \<Rightarrow> int \<times> int" where
  "trim_off_len off len sz = (let off' = trim_off off sz in (off', trim_len off' len sz))"

section \<open>Choosing an operation\<close>

text \<open>What \<open>test\<close> has at the label \<open>have_op\<close>.\<close>

record op_req =
  rq_op :: int
  rq_off :: int
  rq_size :: int
  rq_off2 :: int
  rq_keep :: bool

definition random_call :: "(nat \<Rightarrow> int) \<Rightarrow> 'k fsx \<Rightarrow> int \<times> 'k fsx" where
  "random_call rand s = (u64 (rand (rpos s)), s\<lparr>rpos := Suc (rpos s)\<rparr>)"

lemma read_op_shorter:
  "read_op s = Inr (Some le, s1) \<Longrightarrow>
   length (case replayopsf s1 of None \<Rightarrow> [] | Some f \<Rightarrow> f)
     < length (case replayopsf s of None \<Rightarrow> [] | Some f \<Rightarrow> f)"
  by (auto simp: read_op_def split: option.splits dest!: next_tokens_less)

text \<open>The loop over the replay file: skipped entries are only logged.\<close>

function replay_next :: "'k fsx \<Rightarrow> (halt \<times> 'k fsx) + (op_req option \<times> 'k fsx)" where
  "replay_next s =
     (case read_op s of
        Inl e \<Rightarrow> Inl e
      | Inr (None, s1) \<Rightarrow> Inr (None, s1)
      | Inr (Some le, s1) \<Rightarrow>
          if fl_skipped (flags le)
          then replay_next (log4 (operation le) (args le ! 0) (args le ! 1) (flags le) s1)
          else Inr (Some \<lparr>rq_op = u64 (operation le), rq_off = u64 (args le ! 0),
                          rq_size = u64 (args le ! 1), rq_off2 = u64 (args le ! 2),
                          rq_keep = fl_keep_size (flags le)\<rparr>,
                    s1\<lparr>closeopen := fl_close_open (flags le)\<rparr>))"
  by pat_completeness auto
termination
  by (relation "measure (\<lambda>s. length (case replayopsf s of None \<Rightarrow> [] | Some f \<Rightarrow> f))")
     (auto dest: read_op_shorter)

text \<open>
  The loops that look for a destination. Those of \<open>OP_CLONE_RANGE\<close> and \<open>OP_COPY_RANGE\<close> go on
  until \<open>random\<close> gives a destination that fits; that of \<open>OP_DEDUPE_RANGE\<close> gives up after 30.
\<close>

definition dest_bad :: "int \<Rightarrow> int \<Rightarrow> int \<Rightarrow> int \<Rightarrow> bool" where
  "dest_bad bound off sz off2 \<longleftrightarrow>
     u64 \<bar>s64 (off2 - off)\<bar> < sz \<or> u64 bound < u64 (off2 + sz)"

partial_function (option) dest_loop ::
  "(nat \<Rightarrow> int) \<Rightarrow> (int \<Rightarrow> int) \<Rightarrow> int \<Rightarrow> int \<Rightarrow> int \<Rightarrow> nat \<Rightarrow> (int \<times> nat) option" where
  "dest_loop rand align bound off sz p =
     (let off2 = align (trim_off (u64 (rand p)) bound) in
      if dest_bad bound off sz off2 then dest_loop rand align bound off sz (Suc p)
      else Some (off2, Suc p))"

fun dedupe_dest ::
  "(nat \<Rightarrow> int) \<Rightarrow> (int \<Rightarrow> int) \<Rightarrow> int \<Rightarrow> int \<Rightarrow> int \<Rightarrow> nat \<Rightarrow> int \<Rightarrow> nat \<Rightarrow> int \<times> int \<times> nat" where
  "dedupe_dest rand align bound off sz 0 off2 p = (off2, 0, p)"
| "dedupe_dest rand align bound off sz (Suc n) _ p =
     (let off2 = align (trim_off (u64 (rand p)) bound) in
      if dest_bad bound off sz off2 then dedupe_dest rand align bound off sz n off2 (Suc p)
      else (off2, sz, Suc p))"

definition block_down :: "config \<Rightarrow> int \<Rightarrow> int" where
  "block_down c x = x AND NOT (block_size c - 1)"

text \<open>The \<open>switch\<close> that adds arguments to the chosen operation.\<close>

definition pick_args ::
  "config \<Rightarrow> (nat \<Rightarrow> int) \<Rightarrow> int \<Rightarrow> int \<Rightarrow> int \<Rightarrow> 'k fsx \<Rightarrow> (halt \<times> 'k fsx) + (op_req \<times> 'k fsx)" where
  "pick_args c rand oper off sz s =
     (let rq = \<lparr>rq_op = oper, rq_off = off, rq_size = sz, rq_off2 = 0, rq_keep = False\<rparr> in
      case fop_of oper of
        Some Op_truncate \<Rightarrow>
          (if style c = 0 then case random_call rand s of (r, s1) \<Rightarrow>
             Inr (rq\<lparr>rq_size := r mod maxfilelen c\<rparr>, s1)
           else Inr (rq, s))
      | Some Op_fallocate \<Rightarrow>
          (if fallocate_calls c \<and> sz \<noteq> 0 \<and> keep_size_calls c then case random_call rand s of (r, s1) \<Rightarrow>
             Inr (rq\<lparr>rq_keep := (r mod 2 \<noteq> 0)\<rparr>, s1)
           else Inr (rq, s))
      | Some Op_zero_range \<Rightarrow>
          (if zero_range_calls c \<and> sz \<noteq> 0 \<and> keep_size_calls c then case random_call rand s of (r, s1) \<Rightarrow>
             Inr (rq\<lparr>rq_keep := (r mod 2 \<noteq> 0)\<rparr>, s1)
           else Inr (rq, s))
      | Some Op_clone_range \<Rightarrow>
          (let (o1, z1) = trim_off_len off sz (file_size s); o1 = block_down c o1; z1 = block_down c z1 in
           case dest_loop rand (block_down c) (maxfilelen c) o1 z1 (rpos s) of
             None \<Rightarrow> Inl (Hang, s)
           | Some (o2, p) \<Rightarrow> Inr (rq\<lparr>rq_off := o1, rq_size := z1, rq_off2 := o2\<rparr>, s\<lparr>rpos := p\<rparr>))
      | Some Op_dedupe_range \<Rightarrow>
          (let (o1, z1) = trim_off_len off sz (file_size s); o1 = block_down c o1; z1 = block_down c z1 in
           case dedupe_dest rand (block_down c) (file_size s) o1 z1 30 0 (rpos s) of
             (o2, z2, p) \<Rightarrow> Inr (rq\<lparr>rq_off := o1, rq_size := z2, rq_off2 := o2\<rparr>, s\<lparr>rpos := p\<rparr>))
      | Some Op_copy_range \<Rightarrow>
          (let (o1, z1) = trim_off_len off sz (file_size s); o1 = o1 - o1 mod readbdy c;
               z1 = (if o_direct c then z1 - z1 mod readbdy c else z1) in
           case dest_loop rand (\<lambda>x. x - x mod writebdy c) (maxfilelen c) o1 z1 (rpos s) of
             None \<Rightarrow> Inl (Hang, s)
           | Some (o2, p) \<Rightarrow> Inr (rq\<lparr>rq_off := o1, rq_size := z1, rq_off2 := o2\<rparr>, s\<lparr>rpos := p\<rparr>))
      | _ \<Rightarrow> Inr (rq, s))"

definition pick_op :: "config \<Rightarrow> (nat \<Rightarrow> int) \<Rightarrow> 'k fsx \<Rightarrow> (halt \<times> 'k fsx) + (op_req \<times> 'k fsx)" where
  "pick_op c rand s =
     (case random_call rand s of (rv, s1) \<Rightarrow>
      let s2 = (if closeprob c \<noteq> 0
                then s1\<lparr>closeopen := rv div 8 < u64 (c_div 268435456 (closeprob c))\<rparr> else s1) in
      case random_call rand s2 of (off, s3) \<Rightarrow>
      (case (if randomoplen c
             then (case random_call rand s3 of (r, s4) \<Rightarrow> (u64 (c_rem r (s32 (maxoplen c + 1))), s4))
             else (u64 (maxoplen c), s3)) of (sz, s4) \<Rightarrow>
         let oper = (if lite c then rv mod OP_MAX_LITE
                     else if \<not> integrity c then rv mod OP_MAX_FULL
                     else rv mod OP_MAX_INTEGRITY) in
         pick_args c rand oper off sz s4))"

section \<open>Running it\<close>

text \<open>Operations the configuration turns into others, or off.\<close>

definition remap_op :: "config \<Rightarrow> int \<Rightarrow> int" where
  "remap_op c oper =
     (case fop_of oper of
        Some Op_mapread \<Rightarrow> if mapped_reads c then oper else fop_code Op_read
      | Some Op_mapwrite \<Rightarrow> if mapped_writes c then oper else fop_code Op_write
      | _ \<Rightarrow> oper)"

definition op_disabled :: "config \<Rightarrow> fop \<Rightarrow> bool" where
  "op_disabled c p =
     (case p of
        Op_fallocate \<Rightarrow> \<not> fallocate_calls c
      | Op_punch_hole \<Rightarrow> \<not> punch_hole_calls c
      | Op_zero_range \<Rightarrow> \<not> zero_range_calls c
      | Op_collapse_range \<Rightarrow> \<not> collapse_range_calls c
      | Op_insert_range \<Rightarrow> \<not> insert_range_calls c
      | Op_clone_range \<Rightarrow> \<not> clone_range_calls c
      | Op_dedupe_range \<Rightarrow> \<not> dedupe_range_calls c
      | Op_copy_range \<Rightarrow> \<not> copy_range_calls c
      | _ \<Rightarrow> False)"

definition log_skip :: "fop \<Rightarrow> int \<Rightarrow> int \<Rightarrow> int \<Rightarrow> 'k fsx \<Rightarrow> 'k fsx" where
  "log_skip p off sz off2 s =
     (if p \<in> {Op_clone_range, Op_dedupe_range, Op_copy_range}
      then log5 (fop_code p) off sz off2 FL_SKIPPED s
      else log4 (fop_code p) off sz FL_SKIPPED s)"

text \<open>
  The \<open>switch\<close> that runs the operation. \<open>True\<close> in the result: the code went straight to \<open>out\<close>.
\<close>

definition went_on :: "'k run \<Rightarrow> (halt \<times> 'k fsx) + (bool \<times> 'k fsx)" where
  "went_on r = on_ok r (\<lambda>s. Inr (False, s))"

definition dispatch ::
  "config \<Rightarrow> 'k kernel \<Rightarrow> fop \<Rightarrow> op_req \<Rightarrow> 'k fsx \<Rightarrow> (halt \<times> 'k fsx) + (bool \<times> 'k fsx)" where
  "dispatch c K p rq s =
     (let off = rq_off rq; sz = rq_size rq; off2 = rq_off2 rq;
          (fo, fz) = trim_off_len off sz (file_size s);
          (mo, mz) = trim_off_len off sz (maxfilelen c);
          out = Inr (True, log_skip p off sz off2 s) in
      case p of
        Op_read \<Rightarrow> went_on (doread c K (u32 fo) (u32 fz) s)
      | Op_write \<Rightarrow> went_on (dowrite c K (u32 mo) (u32 mz) s)
      | Op_mapread \<Rightarrow> went_on (domapread c K (u32 fo) (u32 fz) s)
      | Op_mapwrite \<Rightarrow> went_on (domapwrite c K (u32 mo) (u32 mz) s)
      | Op_truncate \<Rightarrow> went_on (dotruncate c K (u32 sz) s)
      | Op_fallocate \<Rightarrow> went_on (do_preallocate c K (u32 mo) (u32 mz) (rq_keep rq) s)
      | Op_punch_hole \<Rightarrow> went_on (do_punch_hole c K (u32 fo) (u32 fz) s)
      | Op_zero_range \<Rightarrow> went_on (do_zero_range c K (u32 fo) (u32 fz) (rq_keep rq) s)
      | Op_collapse_range \<Rightarrow>
          (let (o1, z1) = trim_off_len off sz (file_size s - 1);
               o1 = block_down c o1; z1 = block_down c z1 in
           if z1 = 0 then Inr (True, log_skip p o1 z1 0 s)
           else went_on (do_collapse_range c K (u32 o1) (u32 z1) s))
      | Op_insert_range \<Rightarrow>
          (let o1 = block_down c (trim_off off (file_size s));
               z1 = block_down c (trim_len (file_size s) sz (maxfilelen c)) in
           if z1 = 0 then Inr (True, log_skip p o1 z1 0 s)
           else if maxfilelen c < u64 (file_size s + z1) then Inr (True, log_skip p o1 z1 0 s)
           else went_on (do_insert_range c K (u32 o1) (u32 z1) s))
      | Op_clone_range \<Rightarrow>
          (if sz = 0 then out else if maxfilelen c < u64 (off2 + sz) then out
           else went_on (do_clone_range c K (u32 off) (u32 sz) (u32 off2) s))
      | Op_dedupe_range \<Rightarrow>
          (if sz = 0 then out else if maxfilelen c < u64 (off2 + sz) then out
           else went_on (do_dedupe_range c K (u32 off) (u32 sz) (u32 off2) s))
      | Op_copy_range \<Rightarrow>
          (if sz = 0 then out else if maxfilelen c < u64 (off2 + sz) then out
           else went_on (do_copy_range c K (u32 off) (u32 sz) (u32 off2) s))
      | Op_fsync \<Rightarrow> went_on (dofsync c K s))"

definition perform ::
  "config \<Rightarrow> 'k kernel \<Rightarrow> op_req \<Rightarrow> 'k fsx \<Rightarrow> (halt \<times> 'k fsx) + (bool \<times> 'k fsx)" where
  "perform c K rq s =
     (case fop_of (remap_op c (rq_op rq)) of
        None \<Rightarrow> report_failure c K 42 s
      | Some p \<Rightarrow>
          if op_disabled c p
          then Inr (True, log_skip p (rq_off rq) (rq_size rq) (rq_off2 rq) s)
          else dispatch c K p rq s)"

text \<open>The rest of a step: the checks and the close/open.\<close>

definition finish_step :: "config \<Rightarrow> 'k kernel \<Rightarrow> bool \<Rightarrow> 'k fsx \<Rightarrow> 'k run" where
  "finish_step c K out s =
     on_ok (if \<not> out \<and> check_file c \<and> \<not> simulated c s then check_contents c K s else Inr s) (\<lambda>s1.
     on_ok (if sizechecks c \<and> \<not> simulated c s1 then check_size c K s1 else Inr s1) (\<lambda>s2.
     if closeopen s2 then docloseopen c K s2 else Inr s2))"

definition begin_step :: "config \<Rightarrow> 'k kernel \<Rightarrow> 'k fsx \<Rightarrow> 'k run" where
  "begin_step c K s =
     on_ok (if 0 < simulatedopcount c \<and> testcalls s = simulatedopcount c
            then writefileimage c K s else Inr s) (\<lambda>s1.
     let s2 = s1\<lparr>testcalls := u64 (testcalls s1 + 1)\<rparr> in
     Inr (if 0 < debugstart c \<and> debugstart c \<le> testcalls s2 then s2\<lparr>debug := True\<rparr> else s2))"

text \<open>One step; \<open>False\<close> in the result: the replay file is used up and the run is over.\<close>

definition test ::
  "config \<Rightarrow> 'k kernel \<Rightarrow> (nat \<Rightarrow> int) \<Rightarrow> 'k fsx \<Rightarrow> (halt \<times> 'k fsx) + (bool \<times> 'k fsx)" where
  "test c K rand s =
     on_ok (begin_step c K s) (\<lambda>s1.
     on_ok (if replayopsf s1 \<noteq> None then replay_next s1
            else on_ok (pick_op c rand s1) (\<lambda>(rq, s2). Inr (Some rq, s2))) (\<lambda>(choice, s2).
     case choice of
       None \<Rightarrow> Inr (False, s2)
     | Some rq \<Rightarrow>
         on_ok (perform c K rq s2) (\<lambda>(out, s3).
         on_ok (finish_step c K out s3) (\<lambda>s4. Inr (True, s4)))))"

text \<open>The loop of \<open>main\<close>: \<open>numops = -1\<close> runs until the process is stopped.\<close>

partial_function (option) test_loop ::
  "config \<Rightarrow> 'k kernel \<Rightarrow> (nat \<Rightarrow> int) \<Rightarrow> int \<Rightarrow> 'k fsx \<Rightarrow> ((halt \<times> 'k fsx) + 'k fsx) option" where
  "test_loop c K rand numops s =
     (if numops = 0 then Some (Inr s)
      else
        (case test c K rand s of
           Inl e \<Rightarrow> Some (Inl e)
         | Inr (go, s1) \<Rightarrow>
             if go then test_loop c K rand (if numops = -1 then -1 else numops - 1) s1
             else Some (Inr s1)))"

end
