(* ===== verification/Fsx_Main.thy ===== *)
theory Fsx_Main
  imports Fsx_Options Fsx_Test
begin

text \<open>
  \<open>main\<close> of \<open>fsx\<close> between the command line and the loop of tests: the buffers, the content the
  file starts with, and the probes that switch off what the file system cannot do. The probes
  look at \<open>errno\<close>, so they have a kernel interface of their own, with the errors as numbers.
\<close>

section \<open>Buffers\<close>

definition round_ptr_up :: "int \<Rightarrow> int \<Rightarrow> int \<Rightarrow> int" where
  "round_ptr_up ptr align offset =
     u64 ((u64 (ptr + align - 1) AND u64 (NOT (align - 1))) + offset)"

definition fill_original :: "(nat \<Rightarrow> int) \<Rightarrow> int \<Rightarrow> byte list" where
  "fill_original rand n = map (\<lambda>i. word_of_int (rand i mod 256)) [0..<nat n]"

text \<open>
  The loop that reads an existing file into \<open>good_buf\<close>; a \<open>read\<close> that returns 0 leaves
  everything as it was, so it may not end.
\<close>

partial_function (option) read_initial ::
  "'k kernel \<Rightarrow> int \<Rightarrow> int \<Rightarrow> byte list \<Rightarrow> 'k \<Rightarrow> (halt + (byte list \<times> 'k)) option" where
  "read_initial K len off good k =
     (if 0 < len then
        (case k_read K len k of (ret, bs, k1) \<Rightarrow>
         case mem_store good off bs of
           None \<Rightarrow> Some (Inl Fault)
         | Some g \<Rightarrow>
             if ret = -1 then Some (Inl (Exit 98))
             else read_initial K (len - ret) (off + ret) g k1)
      else Some (Inr (good, k)))"

section \<open>Probes\<close>

abbreviation (input) EINVAL :: int where "EINVAL \<equiv> 22"
abbreviation (input) ENOTTY :: int where "ENOTTY \<equiv> 25"
abbreviation (input) ENOSYS :: int where "ENOSYS \<equiv> 38"
abbreviation (input) EOPNOTSUPP :: int where "EOPNOTSUPP \<equiv> 95"

text \<open>Each returns the result, \<open>errno\<close> (and for the deduplication the status of the range).\<close>

record 'k probes =
  p_fallocate :: "int \<Rightarrow> int \<Rightarrow> int \<Rightarrow> 'k \<Rightarrow> int \<times> int \<times> 'k"
  p_clone :: "'k \<Rightarrow> int \<times> int \<times> 'k" \<comment> \<open>the whole file onto itself\<close>
  p_dedupe :: "int \<Rightarrow> int \<Rightarrow> int \<Rightarrow> 'k \<Rightarrow> int \<times> int \<times> int \<times> 'k"
  p_copy :: "int \<Rightarrow> int \<Rightarrow> int \<Rightarrow> 'k \<Rightarrow> int \<times> int \<times> 'k" \<comment> \<open>from, to, length\<close>

type_synonym 'k probe = "(halt \<times> 'k fsx) + (bool \<times> 'k fsx)"

definition test_fallocate :: "config \<Rightarrow> 'k kernel \<Rightarrow> 'k probes \<Rightarrow> int \<Rightarrow> 'k fsx \<Rightarrow> 'k probe" where
  "test_fallocate c K P mode s =
     (if lite c then Inr (False, s)
      else
        (case p_fallocate P mode (file_size s) 1 (kern s) of (r, errno, k1) \<Rightarrow>
           let s1 = s\<lparr>kern := k1\<rparr> in
           if r \<noteq> 0 \<and> (errno = ENOSYS \<or> errno = EOPNOTSUPP) then Inr (False, s1)
           else
             (case kcall (k_ftruncate K (file_size s1)) s1 of (r2, s2) \<Rightarrow>
                if r2 \<noteq> 0 then Inl (Exit 132, s2) else Inr (True, s2))))"

definition test_clone_range :: "'k probes \<Rightarrow> 'k fsx \<Rightarrow> 'k probe" where
  "test_clone_range P s =
     (case p_clone P (kern s) of (r, errno, k1) \<Rightarrow>
        Inr (\<not> (r \<noteq> 0 \<and> (errno = EOPNOTSUPP \<or> errno = ENOTTY)), s\<lparr>kern := k1\<rparr>))"

definition test_dedupe_range :: "config \<Rightarrow> 'k kernel \<Rightarrow> 'k probes \<Rightarrow> 'k fsx \<Rightarrow> 'k probe" where
  "test_dedupe_range c K P s =
     (let new_len = block_size c * 2;
          resize = (\<lambda>n t. if file_size s < new_len
            then (case kcall (k_ftruncate K n) t of (r, t1) \<Rightarrow>
                    if r \<noteq> 0 then Inl (Exit 132, t1) else Inr t1)
            else Inr t) in
      on_ok (resize new_len s) (\<lambda>s1.
      case p_dedupe P 0 (block_size c) (block_size c) (kern s1) of (r, errno, status, k2) \<Rightarrow>
        let error = (if r \<noteq> 0 then errno else if status < 0 then - status else 0);
            ok = (error \<noteq> EOPNOTSUPP \<and> error \<noteq> ENOTTY \<and> error \<noteq> EINVAL) in
        on_ok (resize (file_size s) (s1\<lparr>kern := k2\<rparr>)) (\<lambda>s3. Inr (ok, s3))))"

definition test_copy_range :: "'k probes \<Rightarrow> 'k fsx \<Rightarrow> 'k probe" where
  "test_copy_range P s =
     (case p_copy P 0 1 1 (kern s) of (r, errno, k1) \<Rightarrow>
        Inr (\<not> (r = -1 \<and> (errno = ENOSYS \<or> errno = EOPNOTSUPP \<or> errno = ENOTTY)), s\<lparr>kern := k1\<rparr>))"

text \<open>\<open>if (x_calls) x_calls = test_x(...)\<close>\<close>

definition probe_if ::
  "bool \<Rightarrow> ('k fsx \<Rightarrow> 'k probe) \<Rightarrow> (bool \<Rightarrow> config) \<Rightarrow> config \<Rightarrow> 'k fsx
     \<Rightarrow> (halt \<times> 'k fsx) + (config \<times> 'k fsx)" where
  "probe_if wanted probe upd c s =
     (if wanted then on_ok (probe s) (\<lambda>(b, s1). Inr (upd b, s1)) else Inr (c, s))"

definition run_probes ::
  "config \<Rightarrow> 'k kernel \<Rightarrow> 'k probes \<Rightarrow> 'k fsx \<Rightarrow> (halt \<times> 'k fsx) + (config \<times> 'k fsx)" where
  "run_probes c0 K P s0 =
     on_ok (probe_if (fallocate_calls c0) (test_fallocate c0 K P 0)
              (\<lambda>b. c0\<lparr>fallocate_calls := b\<rparr>) c0 s0) (\<lambda>(c1, s1).
     on_ok (probe_if (keep_size_calls c1) (test_fallocate c1 K P FALLOC_FL_KEEP_SIZE)
              (\<lambda>b. c1\<lparr>keep_size_calls := b\<rparr>) c1 s1) (\<lambda>(c2, s2).
     on_ok (probe_if (punch_hole_calls c2)
              (test_fallocate c2 K P (FALLOC_FL_PUNCH_HOLE + FALLOC_FL_KEEP_SIZE))
              (\<lambda>b. c2\<lparr>punch_hole_calls := b\<rparr>) c2 s2) (\<lambda>(c3, s3).
     on_ok (probe_if (zero_range_calls c3) (test_fallocate c3 K P FALLOC_FL_ZERO_RANGE)
              (\<lambda>b. c3\<lparr>zero_range_calls := b\<rparr>) c3 s3) (\<lambda>(c4, s4).
     on_ok (probe_if (collapse_range_calls c4) (test_fallocate c4 K P FALLOC_FL_COLLAPSE_RANGE)
              (\<lambda>b. c4\<lparr>collapse_range_calls := b\<rparr>) c4 s4) (\<lambda>(c5, s5).
     on_ok (probe_if (insert_range_calls c5) (test_fallocate c5 K P FALLOC_FL_INSERT_RANGE)
              (\<lambda>b. c5\<lparr>insert_range_calls := b\<rparr>) c5 s5) (\<lambda>(c6, s6).
     on_ok (probe_if (clone_range_calls c6) (test_clone_range P)
              (\<lambda>b. c6\<lparr>clone_range_calls := b\<rparr>) c6 s6) (\<lambda>(c7, s7).
     on_ok (probe_if (dedupe_range_calls c7) (test_dedupe_range c7 K P)
              (\<lambda>b. c7\<lparr>dedupe_range_calls := b\<rparr>) c7 s7) (\<lambda>(c8, s8).
     probe_if (copy_range_calls c8) (test_copy_range P)
              (\<lambda>b. c8\<lparr>copy_range_calls := b\<rparr>) c8 s8))))))))"

section \<open>Start\<close>

text \<open>
  The state after the allocations, for a file of size \<open>n\<close>. The buffers are as long as what the
  code may use of them (\<open>good_buf\<close> and \<open>temp_buf\<close> are moved up within a longer block).
\<close>

definition start_state ::
  "config \<Rightarrow> options \<Rightarrow> (nat \<Rightarrow> int) \<Rightarrow> int \<Rightarrow> 'k \<Rightarrow> 'k \<Rightarrow> string option \<Rightarrow> 'k fsx" where
  "start_state c p rand n k g replay = \<lparr>good_buf = replicate (nat (maxfilelen c)) 0, file_size = n,
     oplog = (\<lambda>_. zero_entry), logptr = 0, logcount = 0, closeopen = False, badoff = -1,
     original_buf = fill_original rand (maxfilelen c), temp_buf = replicate (nat (maxoplen c)) 0,
     check_buf = [], biggest = n, testcalls = 0, debug = o_debug p, mark_nr = 0,
     rpos = nat (maxfilelen c), replayopsf = replay, kern = k, goodfile = g,
     opsfile = None, marks = []\<rparr>"

text \<open>
  \<open>bs\<close> is \<open>st_blksize\<close>, \<open>ps\<close> the page size, \<open>k\<close> the open file, \<open>g\<close> the \<open>.fsxgood\<close> file. Without
  \<open>O_TRUNC\<close> the size of the file is the size of the run.
\<close>

definition main_start ::
  "options \<Rightarrow> int \<Rightarrow> int \<Rightarrow> 'k kernel \<Rightarrow> 'k probes \<Rightarrow> (nat \<Rightarrow> int) \<Rightarrow> string option \<Rightarrow> 'k \<Rightarrow> 'k
     \<Rightarrow> (halt \<times> 'k fsx) + (config \<times> 'k fsx)" where
  "main_start p bs ps K P rand replay g k =
     (let c0 = (o_config p)\<lparr>block_size := bs, page_size := ps\<rparr> in
      case (if o_trunc p then (0, 0, k)
            else (case k_seek_end K k of (e, k1) \<Rightarrow> (case k_seek K 0 k1 of (z, k2) \<Rightarrow> (e, z, k2))))
      of (e, z, k2) \<Rightarrow>
        let c = (if o_trunc p then c0 else c0\<lparr>maxfilelen := e\<rparr>);
            s = start_state c p rand e k2 g replay in
        if e = -1 then Inl (Exit 94, s)
        else if z = -1 then Inl (Exit 95, s)
        else if lite c then
          (case kcall (k_write K (good_buf s)) s of (wrote, s1) \<Rightarrow>
             if wrote \<noteq> maxfilelen c then Inl (Exit 98, s1) else run_probes c K P s1)
        else
          (case read_initial K (file_size s) 0 (good_buf s) (kern s) of
             None \<Rightarrow> Inl (Hang, s)
           | Some (Inl h) \<Rightarrow> Inl (h, s)
           | Some (Inr (good, k3)) \<Rightarrow>
               on_ok (check_trunc_hack K (s\<lparr>good_buf := good, kern := k3\<rparr>)) (\<lambda>s2.
               run_probes c K P s2)))"

text \<open>The rest of \<open>main\<close>: the loop of tests, \<open>close\<close> and the final dump.\<close>

definition main_run ::
  "options \<Rightarrow> config \<Rightarrow> 'k kernel \<Rightarrow> (nat \<Rightarrow> int) \<Rightarrow> 'k fsx \<Rightarrow> (halt \<times> 'k fsx) option" where
  "main_run p c K rand s =
     (case test_loop c K rand (o_numops p) s of
        None \<Rightarrow> None
      | Some (Inl e) \<Rightarrow> Some e
      | Some (Inr s1) \<Rightarrow>
          (case kcheck c K (k_close K) (\<lambda>r. r \<noteq> 0) 99 s1 of
             Inl e \<Rightarrow> Some e
           | Inr s2 \<Rightarrow> Some (Exit 0, if o_record p then logdump s2 else s2)))"

section \<open>Rounding a pointer\<close>

lemma and_not_bounds:
  fixes x m :: int
  assumes "0 \<le> m"
  shows "x - m \<le> x AND NOT m" "x AND NOT m \<le> x"
proof -
  have e: "x AND NOT m = x - (x AND m)"
  proof -
    have "x - (x AND m) = x AND NOT (x AND m)"
      by (rule disjunctive_diff) (simp add: bit_simps)
    also have "\<dots> = x AND NOT m" by (rule bit_eqI) (auto simp: bit_simps)
    finally show ?thesis by simp
  qed
  show "x - m \<le> x AND NOT m" using assms AND_upper2[of m x] by (simp add: e and.commute)
  show "x AND NOT m \<le> x" using assms by (simp add: e)
qed

text \<open>
  For every alignment, a power of two or not, the rounded pointer lies between
  \<open>ptr\<close> and \<open>ptr + align - 1\<close>, so the \<open>malloc\<close>ed slack of \<open>align\<close> bytes is enough; for a power of
  two it is a multiple of it.
\<close>

theorem round_ptr_up_bounds:
  assumes "0 \<le> ptr" and "1 \<le> align" and "ptr + align < 18446744073709551616"
  shows "ptr \<le> round_ptr_up ptr align 0 \<and> round_ptr_up ptr align 0 \<le> ptr + align - 1
    \<and> (pow2 align \<longrightarrow> align dvd round_ptr_up ptr align 0)"
proof -
  let ?x = "ptr + align - 1" and ?m = "align - 1"
  have t: "u64 y = take_bit 64 y" for y by (simp add: u64_def take_bit_eq_mod)
  have r: "round_ptr_up ptr align 0 = u64 (?x AND NOT ?m)"
    by (simp add: round_ptr_up_def t flip: take_bit_and)
  have b: "ptr \<le> ?x AND NOT ?m" "?x AND NOT ?m \<le> ?x"
    using and_not_bounds[of ?m ?x] assms(2) by auto
  then have "round_ptr_up ptr align 0 = ?x AND NOT ?m"
    unfolding r using assms by (intro u64_id) linarith+
  then show ?thesis using b by (auto simp: mask_down round_down_dvd)
qed

theorem round_ptr_up_bounds_witness:
  "1001 \<le> round_ptr_up 1001 64 0 \<and> round_ptr_up 1001 64 0 \<le> 1001 + 64 - 1
    \<and> 64 dvd round_ptr_up 1001 64 0"
proof -
  have "pow2 64" unfolding pow2_def by (rule exI[of _ 6]) simp
  then show ?thesis using round_ptr_up_bounds[of 1001 64] by simp
qed

end
