(* ===== verification/Fsx_Checks_Ok.thy ===== *)
theory Fsx_Checks_Ok
  imports Fsx_Sync
begin

text \<open>
  On a kernel that keeps the contract \<open>posix_file\<close>, every operation of \<open>fsx\<close> that only
  looks at the file returns with the invariant, finds nothing wrong and leaves the content as
  it was: \<open>doread\<close>, \<open>domapread\<close>, \<open>check_contents\<close>, \<open>check_size\<close>, \<open>check_trunc_hack\<close>,
  \<open>doflush\<close>, \<open>docloseopen\<close> and \<open>dofsync\<close>. So does \<open>writefileimage\<close>, which makes the file and
  the copy agree.
\<close>

definition env_ok :: "config \<Rightarrow> int \<Rightarrow> int \<Rightarrow> int \<Rightarrow> bool" where
  "env_ok c psize bsize limit \<longleftrightarrow> wf_config c \<and> page_size c = psize \<and> block_size c = bsize
     \<and> maxfilelen c + 100000 \<le> limit"

lemma env_okD:
  assumes "env_ok c psize bsize limit"
  shows "wf_config c" "page_size c = psize" "block_size c = bsize"
    "maxfilelen c + 100000 \<le> limit" "0 < maxfilelen c" "maxfilelen c < 2147483648"
    "0 < readbdy c" "0 < writebdy c" "0 < truncbdy c"
  using assms by (auto simp: env_ok_def wf_config_def)

lemma fsx_invD:
  assumes "fsx_inv c content live s"
  shows "0 \<le> file_size s" "file_size s \<le> maxfilelen c"
    "maxfilelen c \<le> int (length (good_buf s))" "length (good_buf s) < 4294967296"
    "maxfilelen c \<le> int (length (original_buf s))" "maxoplen c \<le> int (length (temp_buf s))"
    "live (kern s)" "shadow_ok s"
    "\<not> simulated c s \<Longrightarrow> content (kern s) = shadow_content s"
    "\<not> simulated c s \<Longrightarrow> int (length (content (kern s))) = file_size s"
    "lite c \<Longrightarrow> file_size s = maxfilelen c"
proof -
  show ok: "shadow_ok s" using assms by (rule fsx_inv_shadow_ok)
  show syn: "\<not> simulated c s \<Longrightarrow> content (kern s) = shadow_content s"
    using assms by (simp add: fsx_inv_def sync_due_def)
  show "\<not> simulated c s \<Longrightarrow> int (length (content (kern s))) = file_size s"
    using syn length_shadow_content[OF ok] by simp
qed (use assms in \<open>auto simp: fsx_inv_def\<close>)

text \<open>What an operation that leaves the copy alone has to end in.\<close>

lemma op_spec_same:
  assumes "fsx_inv c content live s" and "same_core s t" and "live k"
    and "content k = content (kern s)"
  shows "op_spec c content live s (shadow_content s) (Inr (t\<lparr>kern := k\<rparr>))"
proof -
  have "fsx_inv c content live t" using assms(1,2) by (simp add: same_core_inv)
  then have "fsx_inv c content live (t\<lparr>kern := k\<rparr>)"
    using assms(2-4) by (intro fsx_inv_kern) (auto simp: same_core_def)
  moreover have "stable s (t\<lparr>kern := k\<rparr>)"
    using same_coreD(6)[OF assms(2)] by (simp add: stable_def)
  ultimately show ?thesis
    using same_coreD(7)[OF assms(2)] by (simp add: op_spec_def)
qed

lemma same_core_temp: "same_core s t \<Longrightarrow> length tb = length (temp_buf s) \<Longrightarrow>
    same_core s (t\<lparr>temp_buf := tb\<rparr>)"
  by (simp add: same_core_def stable_def)

lemma fsx_kern_temp [simp]:
  "t\<lparr>kern := k, temp_buf := tb\<rparr> = (t\<lparr>temp_buf := tb\<rparr>)\<lparr>kern := k\<rparr>" for t :: "'k fsx"
  by (cases t) simp

text \<open>And one that ends synced, whatever it did to the copy.\<close>

lemma op_spec_mem:
  assumes "fsx_inv c content live s" and "mem_step c s t" and "live k"
    and "content k = shadow_content t"
  shows "op_spec c content live s (shadow_content t) (Inr (t\<lparr>kern := k\<rparr>))"
  using mem_step_inv[where content = content and live = live, OF assms] assms(2)
  by (simp add: op_spec_def mem_step_def stable_def)

lemma op_spec_simulated:
  assumes "fsx_inv c content live s" and "mem_step c s t" and "kern t = kern s"
    and "simulated c s" and "0 < testcalls s"
  shows "op_spec c content live s (shadow_content t) (Inr t)"
  using mem_step_simulated[OF assms] assms(2) by (simp add: op_spec_def mem_step_def)

lemma same_core_marks: "same_core s t \<Longrightarrow> same_core s (t\<lparr>mark_nr := n\<rparr>)"
    "same_core s t \<Longrightarrow> same_core s (t\<lparr>marks := m\<rparr>)"
  by (simp_all add: same_core_def stable_def)

lemma round_down_sub: "0 < b \<Longrightarrow> 0 \<le> x \<Longrightarrow> 0 \<le> x - x mod b \<and> x - x mod b \<le> x" for x :: int
  by (simp add: zmod_le_nonneg_dividend)

context posix_file
begin

lemma fsxread_ok:
  assumes "live k" and "pos k = off" and "0 \<le> off" and "0 \<le> n" and "n < 2147483648"
    and "off + n \<le> int (length (content k))"
  shows "\<exists>k'. fsxread c K n off k = (n, ff_read (nat off) (nat n) (content k), k') \<and> live k'
    \<and> content k' = content k"
proof -
  let ?bs = "ff_read (nat off) (nat n) (content k)"
  have len: "int (length ?bs) = n"
    using assms by (simp add: ff_read_def)
  have s: "s32 n = n" using assms by (simp add: s32_id)
  show ?thesis
    using aio_read[OF assms(1,4,3) refl] read[OF assms(1,4) refl] len assms(2,4) s
    by (cases "aio c") (auto simp: fsxread_def aio_result_def)
qed

lemma fsxwrite_ok:
  assumes "live k" and "pos k = off" and "0 \<le> off" and "int (length bs) < 2147483648"
    and "off + int (length bs) \<le> limit"
  shows "\<exists>k'. fsxwrite c K bs off k = (int (length bs), k') \<and> live k'
    \<and> content k' = ff_pwrite (nat off) bs (content k)"
proof -
  have s: "s32 (int (length bs)) = int (length bs)" using assms by (simp add: s32_id)
  show ?thesis
    using aio_write[OF assms(1,3,5)] pwrite[of k bs] assms s
    by (cases "aio c") (auto simp: fsxwrite_def aio_result_def)
qed

lemma map_file_ex:
  assumes "live (kern s)" and "0 < n" and "n < 4294967296" and "0 \<le> off" and "psize dvd off"
  shows "\<exists>a k'. map_file c K status n off s
      = Inr (\<lparr>m_addr = a, m_foff = off, m_len = n\<rparr>, s\<lparr>kern := k'\<rparr>)
    \<and> 0 < a \<and> a + n < 18446744073709551616 \<and> psize dvd a \<and> live k'
    \<and> content k' = content (kern s)"
  using mmap[OF assms(1-5)] by (auto simp: map_file_ok)

lemma doread_ok:
  assumes env: "env_ok c psize bsize limit" and inv: "fsx_inv c content live s"
    and rng: "0 \<le> off" "0 \<le> sz" "off + sz \<le> file_size s" "sz \<le> maxoplen c"
  shows "op_spec c content live s (shadow_content s) (doread c K off sz s)"
proof -
  note I = fsx_invD[OF inv] and E = env_okD[OF env]
  define a where "a = off - off mod readbdy c"
  define n where "n = (if o_direct c then sz - sz mod readbdy c else sz)"
  have o: "0 \<le> a" "a \<le> off" and n: "0 \<le> n" "n \<le> sz"
    using round_down_sub[OF E(7) rng(1)] round_down_sub[OF E(7) rng(2)] rng(2)
    by (auto simp: a_def n_def)
  have fit: "a + n \<le> file_size s" "a + n < 2147483648" "a + n \<le> limit"
    using o n rng(3) I(2) E(4-6) by linarith+
  have u: "u32 (n + a) = n + a" using o n fit by (intro u32_id) linarith+
  define t where "t = log4 (fop_code Op_read) a n FL_NONE s"
  have t: "same_core s t" by (simp add: t_def)
  show ?thesis
  proof (cases "n = 0 \<or> simulated c s")
    case True
    have "doread c K off sz s = Inr (log4 (fop_code Op_read) a n FL_SKIPPED s)
        \<or> doread c K off sz s = Inr t"
      using True u fit by (auto simp: doread_def Let_def t_def simulated_def simp flip: a_def n_def)
    then show ?thesis using inv t by (auto intro!: op_spec_core)
  next
    case False
    have C: "content (kern s) = shadow_content s" and L: "int (length (content (kern s))) = file_size s"
      using I(9,10) False by simp_all
    obtain k1 where k1: "k_seek K a (kern s) = (a, k1)" "live k1" "content k1 = content (kern s)"
        "pos k1 = a"
      using seek[OF I(7) o(1)] o n fit by auto
    obtain k2 where k2: "fsxread c K n a k1
          = (n, ff_read (nat a) (nat n) (content k1), k2)" "live k2" "content k2 = content k1"
      using fsxread_ok[OF k1(2,4) o(1) n(1), where c = c] o n fit L k1(3) by auto
    let ?bs = "ff_read (nat a) (nat n) (shadow_content s)"
    have lbs: "int (length ?bs) = n"
      using L C o n fit by (auto simp: ff_read_def)
    let ?tb = "?bs @ drop (length ?bs) (temp_buf s)"
    have st: "mem_store (temp_buf s) 0 ?bs = Some ?tb" and ltb: "length ?tb = length (temp_buf s)"
      using lbs n(2) rng(4) I(6) by (auto simp: mem_store_Some)
    define v where "v = t\<lparr>kern := k2, temp_buf := ?tb\<rparr>"
    have tf: "kern t = kern s" "temp_buf t = temp_buf s" "file_size t = file_size s"
        "testcalls t = testcalls s" "good_buf t = good_buf s"
      by (simp_all add: t_def)
    have "check_buffers c K ?tb a n v = Inr v"
    proof (rule check_buffers_ok)
      show "shadow_ok v" using I(8) tf by (simp add: v_def shadow_ok_def)
      show "take (nat n) ?tb = ff_read (nat a) (nat n) (shadow_content v)"
        using lbs tf by (simp add: v_def shadow_content_def)
    qed (use o n fit lbs ltb tf in \<open>simp_all add: v_def\<close>)
    moreover have "doread c K off sz s = check_buffers c K ?tb a n v"
    proof -
      have "kcheck c K (k_seek K a) (\<lambda>r. r = -1) 140 t = Inr (t\<lparr>kern := k1\<rparr>)"
        using k1(1) o(1) by (intro kcheck_ok) (auto simp: tf)
      moreover have "u32 n = n" using o n fit by (intro u32_id) linarith+
      moreover have "\<not> file_size s < n + a" using fit by linarith
      ultimately show ?thesis
        using False k2(1) k1(3) C st u
        by (simp add: doread_def Let_def v_def t_def simulated_def flip: a_def n_def cong: if_cong)
    qed
    moreover have "op_spec c content live s (shadow_content s) (Inr v)"
      unfolding v_def fsx_kern_temp
      using inv t ltb k2 k1 by (intro op_spec_same same_core_temp) auto
    ultimately show ?thesis by simp
  qed
qed

text \<open>The page an offset is in, as the mapping operations split it.\<close>

lemma page_split:
  assumes "0 \<le> a" and "p = a mod psize"
  shows "0 \<le> p" "p \<le> a" "p < psize" "a AND (psize - 1) = p" "psize dvd a - p"
  using psize_pos assms
  by (auto simp: mask_mod[OF psize] zmod_le_nonneg_dividend minus_mod_eq_mult_div)

lemma domapread_ok:
  assumes env: "env_ok c psize bsize limit" and inv: "fsx_inv c content live s"
    and rng: "0 \<le> off" "0 \<le> sz" "off + sz \<le> file_size s" "sz \<le> maxoplen c"
  shows "op_spec c content live s (shadow_content s) (domapread c K off sz s)"
proof -
  note I = fsx_invD[OF inv] and E = env_okD[OF env]
  define a where "a = off - off mod readbdy c"
  have o: "0 \<le> a" "a \<le> off"
    using round_down_sub[OF E(7) rng(1)] by (auto simp: a_def)
  have fit: "a + sz \<le> file_size s" "a + sz < 2147483648" "a + sz \<le> limit"
    using o rng(2,3) I(2) E(4-6) by linarith+
  have u: "u32 (sz + a) = sz + a" using o rng(2) fit by (intro u32_id) linarith+
  define t where "t = log4 (fop_code Op_mapread) a sz FL_NONE s"
  have t: "same_core s t" by (simp add: t_def)
  show ?thesis
  proof (cases "sz = 0 \<or> simulated c s")
    case True
    have "domapread c K off sz s = Inr (log4 (fop_code Op_mapread) a sz FL_SKIPPED s)
        \<or> domapread c K off sz s = Inr t"
      using True u fit by (auto simp: domapread_def Let_def t_def simulated_def simp flip: a_def)
    then show ?thesis using inv t by (auto intro!: op_spec_core)
  next
    case False
    have C: "content (kern s) = shadow_content s" and L: "int (length (content (kern s))) = file_size s"
      using I(9,10) False by simp_all
    define p where "p = a mod psize"
    note p = page_split[OF o(1) p_def]
    have um: "u32 (p + sz) = p + sz" using p rng(2) fit by (intro u32_id) linarith+
    have tf: "kern t = kern s" "temp_buf t = temp_buf s" "file_size t = file_size s"
        "testcalls t = testcalls s" "good_buf t = good_buf s"
      by (simp_all add: t_def)
    obtain x k1 where k1: "map_file c K 190 (p + sz) (a - p) t
          = Inr (\<lparr>m_addr = x, m_foff = a - p, m_len = p + sz\<rparr>, t\<lparr>kern := k1\<rparr>)"
        "0 < x" "x + (p + sz) < 18446744073709551616" "psize dvd x" "live k1"
        "content k1 = content (kern s)"
    proof -
      have "0 < p + sz" "p + sz < 4294967296" "0 \<le> a - p"
        using p(1,2) rng(2) fit False by auto
      then show thesis
        using map_file_ex[where s = t] I(7) p(5) tf(1) that by metis
    qed
    let ?m = "\<lparr>m_addr = x, m_foff = a - p, m_len = p + sz\<rparr>"
    let ?bs = "ff_read (nat a) (nat sz) (shadow_content s)"
    have ld: "map_load_n K psize ?m (x + p) (nat sz) k1 = Some ?bs"
      using map_load_n_eq[OF k1(5), of ?m "x + p" "nat sz"] p rng(2) fit k1(6) C L by simp
    have lbs: "int (length ?bs) = sz"
      using L C o rng(2) fit by (auto simp: ff_read_def)
    let ?tb = "?bs @ drop (length ?bs) (temp_buf s)"
    have st: "mem_store (temp_buf s) 0 ?bs = Some ?tb" and ltb: "length ?tb = length (temp_buf s)"
      using lbs rng(4) I(6) by (auto simp: mem_store_Some)
    obtain k2 where k2: "k_munmap K k1 = (0, k2)" "live k2" "content k2 = content k1"
      using munmap[OF k1(5)] by auto
    let ?v1 = "t\<lparr>kern := k1, temp_buf := ?tb\<rparr>"
    have eof: "check_eofpage c K a ?m sz ?v1 = Inr ?v1"
      using False p(1) o rng(2) fit k1 C I(8) tf
      by (intro check_eofpage_ok[OF E(2)])
        (auto simp: shadow_ok_def shadow_content_def p_def[symmetric])
    define v where "v = t\<lparr>kern := k2, temp_buf := ?tb\<rparr>"
    have unm: "kcheck c K (k_munmap K) (\<lambda>r. r \<noteq> 0) 191 ?v1 = Inr v"
      using k2(1) by (subst kcheck_ok) (auto simp: v_def)
    have cb: "check_buffers c K ?tb a sz v = Inr v"
    proof (rule check_buffers_ok)
      show "shadow_ok v" using I(8) tf by (simp add: v_def shadow_ok_def)
      show "take (nat sz) ?tb = ff_read (nat a) (nat sz) (shadow_content v)"
        using lbs tf by (simp add: v_def shadow_content_def)
    qed (use o rng fit lbs ltb tf in \<open>simp_all add: v_def\<close>)
    have "\<not> file_size s < sz + a" using fit by linarith
    then have "domapread c K off sz s =
        on_ok (map_file c K 190 (p + sz) (a - p) t) (\<lambda>(p', s2).
            on_ok (or_fault s2 (map_load_n K (page_size c) p' (m_addr p' + p) (nat sz) (kern s2))) (\<lambda>bs.
            on_ok (or_fault s2 (mem_store (temp_buf s2) 0 bs)) (\<lambda>tb.
            on_ok (check_eofpage c K a p' sz (s2\<lparr>temp_buf := tb\<rparr>)) (\<lambda>s3.
            on_ok (kcheck c K (k_munmap K) (\<lambda>r. r \<noteq> 0) 191 s3) (\<lambda>s4.
            check_buffers c K (temp_buf s4) a sz s4)))))"
      using False u um p(4) E(2)
      by (simp add: domapread_def Let_def t_def simulated_def flip: a_def cong: if_cong)
    also have "\<dots> = Inr v"
      using k1(1) E(2) ld st eof unm cb tf by (simp add: v_def)
    finally show ?thesis
      unfolding v_def fsx_kern_temp
      using op_spec_same[where content = content and live = live, OF inv same_core_temp[OF t ltb] k2(2)]
        k2(3) k1(6) by simp
  qed
qed

lemma check_size_ok:
  assumes inv: "fsx_inv c content live s" and due: "\<not> simulated c s"
  shows "op_spec c content live s (shadow_content s) (check_size c K s)"
proof -
  note I = fsx_invD[OF inv]
  obtain k1 where k1: "k_fstat K (kern s) = (0, int (length (content (kern s))), k1)" "live k1"
      "content k1 = content (kern s)"
    using fstat[OF I(7)] by auto
  obtain k2 where k2: "k_seek_end K k1 = (int (length (content k1)), k2)" "live k2"
      "content k2 = content k1"
    using seek_end[OF k1(2)] by auto
  have "check_size c K s = Inr (s\<lparr>kern := k2\<rparr>)"
    using k1 k2 I(10)[OF due] by (simp add: check_size_def kcall_def Let_def)
  then show ?thesis
    using op_spec_same[where content = content and live = live, OF inv same_core_refl k2(2)] k2(3) k1(3)
    by simp
qed

lemma doflush_ok:
  assumes env: "env_ok c psize bsize limit" and inv: "fsx_inv c content live s"
    and rng: "0 \<le> off" "0 < sz" "off + sz \<le> maxfilelen c"
  shows "op_spec c content live s (shadow_content s) (doflush c K off sz s)"
proof (cases "o_direct c")
  case True
  then show ?thesis using inv by (simp add: doflush_def op_spec_def)
next
  case False
  note I = fsx_invD[OF inv] and E = env_okD[OF env]
  define p where "p = off mod psize"
  note p = page_split[OF rng(1) p_def]
  have n: "0 < p + sz" "p + sz < 4294967296" "0 \<le> off - p"
    using p(1,2) rng E(6) by linarith+
  then have u: "u32 (p + sz) = p + sz" by (intro u32_id) linarith+
  obtain x k1 where k1: "map_file c K 202 (p + sz) (off - p) s
        = Inr (\<lparr>m_addr = x, m_foff = off - p, m_len = p + sz\<rparr>, s\<lparr>kern := k1\<rparr>)"
      "live k1" "content k1 = content (kern s)"
    using map_file_ex[where s = s, OF I(7) n p(5)] by metis
  obtain k2 where k2: "k_msync K k1 = (0, k2)" "live k2" "content k2 = content k1"
    using msync[OF k1(2)] by auto
  obtain k3 where k3: "k_munmap K k2 = (0, k3)" "live k3" "content k3 = content k2"
    using munmap[OF k2(2)] by auto
  have "doflush c K off sz s = Inr (s\<lparr>kern := k3\<rparr>)"
    using False k1(1) k2(1) k3(1) u p(4) E(2)
    by (simp add: doflush_def Let_def kcheck_def kcall_def)
  then show ?thesis
    using op_spec_same[where content = content and live = live, OF inv same_core_refl k3(2)]
      k1(3) k2(3) k3(3)
    by simp
qed

lemma docloseopen_ok:
  assumes inv: "fsx_inv c content live s"
  shows "op_spec c content live s (shadow_content s) (docloseopen c K s)"
proof (cases "simulated c s")
  case True
  then show ?thesis using inv by (simp add: docloseopen_def op_spec_def)
next
  case False
  obtain k1 d k2 where k: "k_close K (kern s) = (0, k1)" "k_open K k1 = (d, k2)" "0 \<le> d" "live k2"
      "content k2 = content (kern s)"
    using close_open[OF fsx_invD(7)[OF inv]] by auto
  have "docloseopen c K s = Inr (s\<lparr>kern := k2\<rparr>)"
    using False k by (simp add: docloseopen_def kcheck_def kcall_def)
  then show ?thesis
    using op_spec_same[where content = content and live = live, OF inv same_core_refl k(4)] k(5) by simp
qed

lemma save_buffer_ok:
  assumes "live f" and "0 \<le> len" and "len \<le> int (length buf)"
    and "len < 9223372036854775808"
  shows "\<exists>f'. save_buffer c K buf len f = Inr f'"
proof -
  obtain f1 where f1: "k_seek_end K f = (int (length (content f)), f1)"
    using seek_end[OF assms(1)] by auto
  have "\<exists>f'. (case k_seek K 0 g of (ret, f2) \<Rightarrow>
           (case mem_load buf 0 n of None \<Rightarrow> Inl Fault
            | Some bs \<Rightarrow> (case k_write K bs f2 of (written, f3) \<Rightarrow> Inr f3))) = Inr f'"
    if "0 \<le> n" "n \<le> len" for n g
    using that assms by (auto simp: mem_load_Some split: prod.splits)
  then show ?thesis
    using assms(2,4) f1 by (auto simp: save_buffer_def)
qed

lemma dofsync_ok:
  assumes env: "env_ok c psize bsize limit" and inv: "fsx_inv c content live s"
  shows "op_spec c content live s (shadow_content s) (dofsync c K s)"
proof (cases "simulated c s")
  case True
  then show ?thesis using inv by (simp add: dofsync_def op_spec_def)
next
  case False
  note I = fsx_invD[OF inv] and E = env_okD[OF env]
  define t where "t = log4 (fop_code Op_fsync) 0 0 FL_NONE s"
  have t: "same_core s t" by (simp add: t_def)
  obtain k1 where k1: "k_fsync K (kern s) = (0, k1)" "live k1" "content k1 = content (kern s)"
    using fsync[OF I(7)] by auto
  obtain k2 where k2: "k_mark K (mark_nr s) k1 = (0, k2)" "live k2" "content k2 = content k1"
    using mark[OF k1(2)] by auto
  obtain d f where f: "k_creat K (mark_nr s) = (d, f)" "0 < d" "live f"
    using creat by metis
  obtain f' where f': "save_buffer c K (good_buf s) (file_size s) f = Inr f'"
    using save_buffer_ok[OF f(3) I(1), of "good_buf s" c] I(2,3) E(6) by auto
  have "dofsync c K s =
      Inr (t\<lparr>marks := marks t @ [(mark_nr s, f')], mark_nr := s32 (mark_nr s + 1)\<rparr>\<lparr>kern := k2\<rparr>)"
    using False k1(1) k2(1) f(1,2) f'
    by (simp add: dofsync_def kcheck_def kcall_def mark_log_def dump_fsync_buffer_def t_def)
  then show ?thesis
    using op_spec_same[where content = content and live = live, OF inv
        same_core_marks(1)[OF same_core_marks(2)[OF t]] k2(2)] k2(3) k1(3)
    by simp
qed

lemma writefileimage_ok:
  assumes env: "env_ok c psize bsize limit" and inv: "fsx_inv c content live s"
  shows "\<exists>k. writefileimage c K s = Inr (s\<lparr>kern := k\<rparr>) \<and> live k \<and> content k = shadow_content s"
proof -
  note I = fsx_invD[OF inv] and E = env_okD[OF env]
  let ?bs = "shadow_content s"
  have len: "int (length ?bs) = file_size s" by (rule length_shadow_content[OF I(8)])
  have ld: "mem_load (good_buf s) 0 (file_size s) = Some ?bs"
    using I by (simp add: mem_load_Some shadow_content_def)
  obtain k1 where k1: "k_seek K 0 (kern s) = (0, k1)" "live k1" "content k1 = content (kern s)"
      "pos k1 = 0"
    using seek[OF I(7), of 0] E by auto
  obtain k2 where k2: "k_write K ?bs k1 = (file_size s, k2)" "live k2"
      "content k2 = ff_pwrite 0 ?bs (content k1)"
    using pwrite[OF k1(2), of ?bs] k1(4) len I(2) E(4) by auto
  have wr: "content k2 = ?bs @ drop (length ?bs) (content (kern s))"
    using k2(3) k1(3) by (simp add: ff_pwrite_def)
  show ?thesis
  proof (cases "lite c")
    case True
    then have "int (length (content (kern s))) = file_size s"
      using inv by (auto simp: fsx_inv_def)
    then have "content k2 = ?bs" using wr len by simp
    then show ?thesis
      using True k1(1) k2(1,2) ld by (auto simp: writefileimage_def kcheck_def kcall_def)
  next
    case False
    obtain k3 where k3: "k_ftruncate K (file_size s) k2 = (0, k3)" "live k3"
        "content k3 = ff_truncate (nat (file_size s)) (content k2)"
      using ftruncate[OF k2(2) I(1)] I(2) E(4) by auto
    have "nat (file_size s) = length ?bs" using len by simp
    then have "content k3 = ?bs" using k3(3) wr by (simp add: ff_truncate_def)
    then show ?thesis
      using False k1(1) k2(1) k3(1,2) ld by (auto simp: writefileimage_def kcheck_def kcall_def)
  qed
qed

lemma check_trunc_hack_ok:
  assumes env: "env_ok c psize bsize limit" and inv: "fsx_inv c content live s"
    and syn: "content (kern s) = shadow_content s"
  shows "\<exists>k. check_trunc_hack K s = Inr (s\<lparr>kern := k\<rparr>) \<and> live k \<and> content k = shadow_content s"
proof -
  note I = fsx_invD[OF inv] and E = env_okD[OF env]
  let ?n = "file_size s" let ?m = "file_size s + 100000"
  have len: "int (length (shadow_content s)) = ?n" by (rule length_shadow_content[OF I(8)])
  have fit: "0 \<le> ?n" "?n \<le> limit" "0 \<le> ?m" "?m \<le> limit" using I(1,2) E(4) by linarith+
  obtain k1 where k1: "k_ftruncate K ?n (kern s) = (0, k1)" "live k1"
      "content k1 = ff_truncate (nat ?n) (content (kern s))"
    using ftruncate[OF I(7) fit(1,2)] by auto
  obtain k2 where k2: "k_ftruncate K ?m k1 = (0, k2)" "live k2"
      "content k2 = ff_truncate (nat ?m) (content k1)"
    using ftruncate[OF k1(2) fit(3,4)] by auto
  obtain k3 where k3: "k_fstat K k2 = (0, int (length (content k2)), k3)" "live k3"
      "content k3 = content k2"
    using fstat[OF k2(2)] by auto
  obtain k4 where k4: "k_ftruncate K ?n k3 = (0, k4)" "live k4"
      "content k4 = ff_truncate (nat ?n) (content k3)"
    using ftruncate[OF k3(2) fit(1,2)] by auto
  have "int (length (content k2)) = ?m" using k2(3) fit(3) by (simp add: ff_simps)
  then have "check_trunc_hack K s = Inr (s\<lparr>kern := k4\<rparr>)"
    using k1(1) k2(1) k3(1) k4(1) by (simp add: check_trunc_hack_def kcall_def Let_def)
  moreover have "content k4 = shadow_content s"
  proof -
    have "nat ?n = length (shadow_content s)" using len by simp
    then show ?thesis using k1(3) k2(3) k3(3) k4(3) syn by (simp add: ff_truncate_def)
  qed
  ultimately show ?thesis using k4(2) by auto
qed

text \<open>
  \<open>check_contents\<close> maps the last page of what it read; when that ends on a page boundary the
  mapping is the whole last page.
\<close>

lemma last_page:
  assumes "0 < n" and "n < 2147483648" and "psize < 2147483648"
    and "mo = (let mo0 = n - (n AND (psize - 1)) in if mo0 = n then u32 (mo0 - psize) else mo0)"
  shows "0 \<le> mo" "mo < n" "psize dvd mo" "mo mod psize = 0"
proof -
  have P: "0 < psize" by (rule psize_pos)
  have m: "n AND (psize - 1) = n mod psize" by (rule mask_mod[OF psize])
  have "0 \<le> mo \<and> mo < n \<and> psize dvd mo"
  proof (cases "n mod psize = 0")
    case True
    then have d: "psize dvd n" by auto
    then have le: "psize \<le> n" using assms(1) by (simp add: zdvd_imp_le)
    have "mo = u32 (n - psize)" using assms(4) True by (simp add: m)
    also have "\<dots> = n - psize" using le assms(2) P by (intro u32_id) linarith+
    finally show ?thesis using P le d by simp
  next
    case False
    have "mo = n - n mod psize" using assms(4) False by (auto simp: m Let_def)
    moreover have "0 < n mod psize" using P False by (simp add: order.strict_iff_order)
    ultimately show ?thesis
      using P False assms(1) round_down_dvd[of psize n] round_down_nonneg[OF P, of n]
      by (simp add: round_down_def)
  qed
  then show "0 \<le> mo" "mo < n" "psize dvd mo" "mo mod psize = 0" by auto
qed

lemma check_contents_ok:
  assumes env: "env_ok c psize bsize limit" and inv: "fsx_inv c content live s"
    and due: "\<not> simulated c s"
  shows "op_spec c content live s (shadow_content s) (check_contents c K s)"
proof -
  note I = fsx_invD[OF inv] and E = env_okD[OF env]
  have ps: "psize < 2147483648" using E(1,2) by (auto simp: wf_config_def)
  define t where "t = (if check_buf s = [] then s\<lparr>check_buf := replicate (nat (maxfilelen c)) 0\<rparr> else s)"
  define n where "n = (if o_direct c then u32 (file_size s) - u32 (file_size s) mod readbdy c
                       else u32 (file_size s))"
  have tf: "kern t = kern s" "file_size t = file_size s" "good_buf t = good_buf s"
      "maxfilelen c \<le> int (length (check_buf t))"
    using inv E(5) by (auto simp: t_def fsx_inv_def)
  have mt: "mem_step c s t"
    using mem_step_core[OF inv same_core_refl] E(5) by (simp add: t_def mem_step_def stable_def)
  have uf: "u32 (file_size s) = file_size s" using I(1,2) E(6) by (intro u32_id) linarith+
  have n: "0 \<le> n" "n \<le> file_size s" "n < 2147483648" "n \<le> maxfilelen c"
    using round_down_sub[OF E(7) I(1)] I(1,2) E(6) by (auto simp: n_def uf)
  have C: "content (kern s) = shadow_content s" "int (length (content (kern s))) = file_size s"
    using I(9,10) due by simp_all
  define mo where "mo = (let mo0 = n - (n AND (psize - 1)) in if mo0 = n then u32 (mo0 - psize) else mo0)"
  note unf = check_contents_def[of c K s, unfolded Let_def, folded t_def, unfolded tf(2) E(2),
      folded n_def, folded mo_def[unfolded Let_def]]
  show ?thesis
  proof (cases "n = 0")
    case True
    have "t = t\<lparr>kern := kern s\<rparr>" using tf(1) by (cases t) simp
    then have "check_contents c K s = Inr (t\<lparr>kern := kern s\<rparr>)"
      using True unf by simp
    moreover have "shadow_content t = shadow_content s" using tf by (simp add: shadow_content_def)
    ultimately show ?thesis
      using op_spec_mem[where content = content and live = live, OF inv mt I(7)] C(1) by simp
  next
    case False
    obtain k1 where k1: "k_seek K 0 (kern s) = (0, k1)" "live k1" "content k1 = content (kern s)"
        "pos k1 = 0"
      using seek[OF I(7), of 0] E by auto
    obtain k2 where k2: "fsxread c K n 0 k1 = (n, ff_read 0 (nat n) (content k1), k2)" "live k2"
        "content k2 = content k1"
      using fsxread_ok[OF k1(2,4) order_refl n(1,3), where c = c] n(2) C(2) k1(3) by auto
    let ?bs = "ff_read 0 (nat n) (shadow_content s)"
    have lbs: "int (length ?bs) = n" using C n by (auto simp: ff_read_def)
    let ?cb = "?bs @ drop (length ?bs) (check_buf t)"
    have st: "mem_store (check_buf t) 0 ?bs = Some ?cb" and lcb: "length ?cb = length (check_buf t)"
      using lbs n(4) tf(4) by (auto simp: mem_store_Some)
    define v where "v = t\<lparr>check_buf := ?cb\<rparr>"
    have vf: "shadow_content v = shadow_content s" "file_size v = file_size s"
        "good_buf v = good_buf s" "check_buf v = ?cb"
      using tf by (simp_all add: v_def shadow_content_def)
    have ok: "shadow_ok (v\<lparr>kern := k\<rparr>)" for k
      using I(8) vf by (simp add: shadow_ok_def)
    have cb: "check_buffers c K ?cb 0 n (v\<lparr>kern := k2\<rparr>) = Inr (v\<lparr>kern := k2\<rparr>)"
      using n lbs lcb tf(4) vf by (intro check_buffers_ok ok) auto
    note mo = last_page[OF _ n(3) ps mo_def]
    have mo': "0 \<le> mo" "0 < n - mo" "psize dvd mo" "mo mod psize = 0" "n - mo < 4294967296"
      using mo n False by auto
    have un: "u32 (n - mo) = n - mo" "u32 n = n" using mo' n by (auto intro!: u32_id)
    have s2: "live (kern (v\<lparr>kern := k2\<rparr>))" using k2(2) by simp
    obtain x k3 where k3: "map_file c K 190 (n - mo) mo (v\<lparr>kern := k2\<rparr>)
          = Inr (\<lparr>m_addr = x, m_foff = mo, m_len = n - mo\<rparr>, v\<lparr>kern := k3\<rparr>)"
        "0 < x" "x + (n - mo) < 18446744073709551616" "psize dvd x" "live k3"
        "content k3 = content k2"
      using map_file_ex[where s = "v\<lparr>kern := k2\<rparr>" and c = c and status = 190, OF s2 mo'(2,5,1,3)]
      by auto
    let ?m = "\<lparr>m_addr = x, m_foff = mo, m_len = n - mo\<rparr>"
    have eof: "check_eofpage c K mo ?m (n - mo) (v\<lparr>kern := k3\<rparr>) = Inr (v\<lparr>kern := k3\<rparr>)"
      using mo' n k3 k1(3) k2(3) C(1) vf(1,2) ok
      by (intro check_eofpage_ok[OF E(2)]) auto
    obtain k4 where k4: "k_munmap K k3 = (0, k4)" "live k4" "content k4 = content k3"
      using munmap[OF k3(5)] by auto
    have "check_contents c K s = Inr (v\<lparr>kern := k4\<rparr>)"
    proof -
      have "kcheck c K (k_seek K 0) (\<lambda>r. r = -1) 140 t = Inr (t\<lparr>kern := k1\<rparr>)"
        using k1(1) tf(1) by (intro kcheck_ok) auto
      moreover have "t\<lparr>kern := k1, kern := k2, check_buf := ?cb\<rparr> = v\<lparr>kern := k2\<rparr>"
        by (simp add: v_def)
      ultimately show ?thesis
        using False k2(1) k1(3) C(1) st cb k3(1) eof k4(1) un
        by (simp add: unf kcheck_ok)
    qed
    moreover have "mem_step c s v"
      using mt lcb tf(4) by (simp add: v_def mem_step_def stable_def)
    ultimately show ?thesis
      using op_spec_mem[where content = content and live = live, OF inv _ k4(2), of v] vf(1)
        k4(3) k3(6) k2(3) k1(3) C(1) by simp
  qed
qed

end

end
