(* ===== verification/Fsx_Writes_Ok.thy ===== *)
theory Fsx_Writes_Ok
  imports Fsx_Checks_Ok
begin

text \<open>
  The same for the operations that change the file: on a kernel that keeps \<open>posix_file\<close> they
  return with the invariant, and the content afterwards is that of the abstract operation. In
  the simulated part of a run (\<open>-b\<close>) only \<open>dowrite\<close>, \<open>domapwrite\<close>, \<open>dotruncate\<close> and
  \<open>do_preallocate\<close> change the copy.
\<close>

lemma gen_bytes_nonempty [simp]: "gen_bytes fill tc orig off n = [] \<longleftrightarrow> n = 0"
  by (simp add: gen_bytes_def)

lemma ff_pwrite_grown:
  assumes "length c \<le> off + length bs"
  shows "ff_pwrite off bs (ff_truncate (off + length bs) c) = ff_pwrite off bs c"
  using assms by (cases "length c \<le> off") (simp_all add: ff_pwrite_def ff_truncate_def min_absorb1)

lemma length_ff_pwrite_int:
  "int (length (ff_pwrite (nat off) bs c)) = max (int (length c)) (off + int (length bs))"
  if "0 \<le> off" "bs \<noteq> []"
  using that by (simp add: ff_pwrite_def)

text \<open>What \<open>dowrite\<close> and \<open>domapwrite\<close> write: the boundaries and the bytes.\<close>

definition written :: "config \<Rightarrow> int \<Rightarrow> int \<Rightarrow> 'k fsx \<Rightarrow> byte list" where
  "written c a n s = gen_bytes (filldata c) (testcalls s) (original_buf s) a (nat n)"

context posix_file
begin

lemma write_shadow_ok:
  assumes env: "env_ok c psize bsize limit" and inv: "fsx_inv c content live s"
    and core: "same_core s t" and rng: "0 \<le> a" "0 < n" "a + n \<le> maxfilelen c"
  obtains t' where "write_shadow c K status a n t = Inr t'"
    and "shadow_content t' = ff_pwrite (nat a) (written c a n s) (shadow_content s)"
    and "mem_step c s t'" and "kern t' = kern s" and "shadow_ok t'" and "simulated c t' = simulated c s"
    and "mem_load (good_buf t') a n = Some (written c a n s)"
    and "file_size t' = max (file_size s) (a + n)"
proof -
  note I = fsx_invD[OF inv] and E = env_okD[OF env] and T = same_coreD[OF core]
  let ?bs = "written c a n s"
  let ?c = "ff_pwrite (nat a) ?bs (shadow_content s)"
  have lbs: "int (length ?bs) = n" using rng by (simp add: written_def)
  have ne: "?bs \<noteq> []" using lbs rng by auto
  have lc: "int (length ?c) = max (file_size s) (a + n)"
    using length_ff_pwrite_int[OF rng(1) ne] lbs length_shadow_content[OF I(8)] by simp
  have "shadow_ok t" using I(8) T by (simp add: shadow_ok_def)
  then have "sh_refines t (sh_write (filldata c) (testcalls t) (original_buf t) a n t)
      (ff_pwrite (nat a) (gen_bytes (filldata c) (testcalls t) (original_buf t) a (nat n)) (shadow_content t))"
    using rng I(3,5) T by (intro sh_write_refines) auto
  then have ref: "sh_refines t (sh_write (filldata c) (testcalls t) (original_buf t) a n t) ?c"
    using T by (simp add: written_def)
  have small: "int (length ?c) \<le> maxfilelen c" and lite: "lite c \<Longrightarrow> int (length ?c) = maxfilelen c"
    using lc I(2,11) rng(3) by auto
  obtain t' where t': "sh_write (filldata c) (testcalls t) (original_buf t) a n t = Some t'"
      "shadow_content t' = ?c" "mem_step c s t'" "kern t' = kern s" "shadow_ok t'"
      "file_size t' = int (length ?c)"
    using sh_refines_step[OF ref mem_step_core[OF inv core] small lite] T(3) by metis
  have u: "u32 (a + n) = a + n" using rng E(6) by (intro u32_id) linarith+
  have "write_shadow c K status a n t = Inr t'"
    using t'(1) u I(11) rng(3) T(2) by (auto simp: write_shadow_def)
  moreover have "mem_load (good_buf t') a n = Some ?bs"
  proof -
    have fs: "a + n \<le> file_size t'" "file_size t' \<le> int (length (good_buf t'))"
      using t'(5,6) lc by (auto simp: shadow_ok_def)
    have "nat n = length ?bs" using lbs by simp
    then have "ff_read (nat a) (nat n) (shadow_content t') = ?bs"
      using t'(2) by (simp add: ff_read_pwrite)
    then show ?thesis
      using rng fs ff_read_shadow[OF rng(1) _ fs(1)] by (simp add: mem_load_Some)
  qed
  moreover have "simulated c t' = simulated c s"
    using t'(3) by (simp add: mem_step_def stable_def simulated_def)
  ultimately show thesis using that t' lc by metis
qed

lemma dowrite_ok:
  assumes env: "env_ok c psize bsize limit" and inv: "fsx_inv c content live s"
    and tc: "0 < testcalls s" and rng: "0 \<le> off" "0 \<le> sz" "off + sz \<le> maxfilelen c"
    and a: "a = off - off mod writebdy c"
    and n: "n = (if o_direct c then sz - sz mod writebdy c else sz)"
  shows "op_spec c content live s
    (if n = 0 then shadow_content s else ff_pwrite (nat a) (written c a n s) (shadow_content s))
    (dowrite c K off sz s)"
proof (cases "n = 0")
  case True
  then have "dowrite c K off sz s = Inr (log4 (fop_code Op_write) a n FL_SKIPPED s)"
    by (simp add: dowrite_def Let_def flip: a n)
  then show ?thesis using True inv by (auto intro!: op_spec_core)
next
  case False
  note I = fsx_invD[OF inv] and E = env_okD[OF env]
  have ar: "0 \<le> a" "a \<le> off" and nr: "0 < n" "n \<le> sz"
    using round_down_sub[OF E(8) rng(1)] round_down_sub[OF E(8) rng(2)] False rng(2)
    by (auto simp: a n split: if_splits)
  have fit: "a + n \<le> maxfilelen c" "a + n < 2147483648" "a + n \<le> limit"
    using ar nr rng(3) E(4,6) by linarith+
  let ?bs = "written c a n s"
  define t where "t = log4 (fop_code Op_write) a n FL_NONE s"
  have t: "same_core s t" by (simp add: t_def)
  obtain t' where t': "write_shadow c K 149 a n t = Inr t'"
      "shadow_content t' = ff_pwrite (nat a) ?bs (shadow_content s)"
      "mem_step c s t'" "kern t' = kern s" "shadow_ok t'" "simulated c t' = simulated c s"
      "mem_load (good_buf t') a n = Some ?bs" "file_size t' = max (file_size s) (a + n)"
    using write_shadow_ok[OF env inv t ar(1) nr(1) fit(1)] by metis
  note unf = dowrite_def[of c K off sz s, unfolded Let_def, folded a n, folded t_def]
  show ?thesis
  proof (cases "simulated c s")
    case True
    then have "dowrite c K off sz s = Inr t'"
      using False t'(1,6) by (simp add: unf)
    then show ?thesis
      using op_spec_simulated[where content = content and live = live, OF inv t'(3,4) True tc]
        False t'(2) by simp
  next
    case sim: False
    have lbs: "int (length ?bs) = n" using nr by (simp add: written_def)
    obtain k1 where k1: "k_seek K a (kern s) = (a, k1)" "live k1" "content k1 = content (kern s)"
        "pos k1 = a"
      using seek[OF I(7) ar(1)] nr fit by auto
    obtain k2 where k2: "fsxwrite c K ?bs a k1 = (n, k2)" "live k2"
        "content k2 = ff_pwrite (nat a) ?bs (content k1)"
      using fsxwrite_ok[OF k1(2,4) ar(1), of ?bs c] lbs fit nr ar by auto
    have un: "u32 n = n" using nr fit ar by (intro u32_id) linarith+
    have con: "content k2 = shadow_content t'" using k2(3) k1(3) t'(2) I(9)[OF sim] by simp
    obtain k3 where k3: "k_fsync K k2 = (0, k3)" "live k3" "content k3 = content k2"
      using fsync[OF k2(2)] by auto
    define k4 where "k4 = (if do_fsync c then k3 else k2)"
    define v where "v = t'\<lparr>kern := k4\<rparr>"
    have v: "live k4" "content k4 = shadow_content t'"
      using k3 k2(2) con by (simp_all add: k4_def)
    have inv': "fsx_inv c content live v"
      unfolding v_def using mem_step_inv[where content = content and live = live, OF inv t'(3) v] .
    have run: "dowrite c K off sz s = (if flush c then doflush c K a n v else Inr v)"
      using False sim t'(1,4,6,7) k1(1) ar(1) k2(1) k3(1) un
      by (simp add: unf kcheck_def kcall_def k4_def v_def)
    have sv: "shadow_content v = ff_pwrite (nat a) ?bs (shadow_content s)" using t'(2) by (simp add: v_def)
    have "op_spec c content live v (shadow_content v) (dowrite c K off sz s)"
      using run doflush_ok[OF env inv' ar(1) nr(1) fit(1)] inv' by (simp add: op_spec_def)
    moreover have "Fsx_Sync.stable s v" using t'(3) by (simp add: v_def mem_step_def stable_def)
    ultimately show ?thesis
      using False sv by (auto simp: op_spec_def elim!: ok_run_mono intro: stable_trans)
  qed
qed

lemma domapwrite_ok:
  assumes env: "env_ok c psize bsize limit" and inv: "fsx_inv c content live s"
    and tc: "0 < testcalls s" and rng: "0 \<le> off" "0 \<le> sz" "off + sz \<le> maxfilelen c"
    and a: "a = off - off mod writebdy c"
  shows "op_spec c content live s
    (if sz = 0 then shadow_content s else ff_pwrite (nat a) (written c a sz s) (shadow_content s))
    (domapwrite c K off sz s)"
proof (cases "sz = 0")
  case True
  then have "domapwrite c K off sz s = Inr (log4 (fop_code Op_mapwrite) a sz FL_SKIPPED s)"
    by (simp add: domapwrite_def Let_def flip: a)
  then show ?thesis using True inv by (auto intro!: op_spec_core)
next
  case False
  note I = fsx_invD[OF inv] and E = env_okD[OF env]
  have ar: "0 \<le> a" "a \<le> off" and nr: "0 < sz"
    using round_down_sub[OF E(8) rng(1)] False rng(2) by (auto simp: a)
  have fit: "a + sz \<le> maxfilelen c" "a + sz < 2147483648" "a + sz \<le> limit"
    using ar rng(3) E(4,6) by linarith+
  let ?bs = "written c a sz s" and ?c = "shadow_content s"
  have lbs: "int (length ?bs) = sz" using nr by (simp add: written_def)
  define t where "t = log4 (fop_code Op_mapwrite) a sz FL_NONE s"
  have t: "same_core s t" by (simp add: t_def)
  obtain t' where t': "write_shadow c K 200 a sz t = Inr t'"
      "shadow_content t' = ff_pwrite (nat a) ?bs ?c"
      "mem_step c s t'" "kern t' = kern s" "shadow_ok t'" "simulated c t' = simulated c s"
      "mem_load (good_buf t') a sz = Some ?bs" "file_size t' = max (file_size s) (a + sz)"
    using write_shadow_ok[OF env inv t ar(1) nr fit(1)] by metis
  note unf = domapwrite_def[of c K off sz s, unfolded Let_def, folded a, folded t_def]
  show ?thesis
  proof (cases "simulated c s")
    case True
    then have "domapwrite c K off sz s = Inr t'"
      using False t'(1,6) by (simp add: unf)
    then show ?thesis
      using op_spec_simulated[where content = content and live = live, OF inv t'(3,4) True tc]
        False t'(2) by simp
  next
    case sim: False
    let ?n = "file_size t'"
    have C: "content (kern s) = ?c" using I(9)[OF sim] .
    have lc: "int (length ?c) = file_size s" by (rule length_shadow_content[OF I(8)])
    have n: "0 \<le> ?n" "?n \<le> limit" "a + sz \<le> ?n" using t'(8) I(1,2) fit E(4) by auto
    obtain k1 where k1: "k_ftruncate K ?n (kern s) = (0, k1)" "live k1"
        "content k1 = ff_truncate (nat ?n) (content (kern s))"
      using ftruncate[OF I(7) n(1,2)] by auto
    define k2 where "k2 = (if file_size s < ?n then k1 else kern s)"
    have k2: "live k2" "int (length (content k2)) = ?n"
      "ff_pwrite (nat a) ?bs (content k2) = ff_pwrite (nat a) ?bs ?c"
    proof -
      show "live k2" using k1(2) I(7) by (simp add: k2_def)
      show "int (length (content k2)) = ?n"
        using k1(3) n(1) C lc t'(8) by (auto simp: k2_def ff_simps)
      have "nat ?n = nat a + length ?bs" if "file_size s < ?n"
        using that t'(8) lbs ar(1) by (auto simp: max_def split: if_splits)
      then show "ff_pwrite (nat a) ?bs (content k2) = ff_pwrite (nat a) ?bs ?c"
        using k1(3) C lc ff_pwrite_grown[of ?c "nat a" ?bs] by (auto simp: k2_def)
    qed
    have grow: "(if file_size s < ?n then (case kcall (k_ftruncate K ?n) t' of (r, s2) \<Rightarrow>
          if r = -1 then Inl (Exit 201, s2) else Inr s2) else Inr t') = Inr (t'\<lparr>kern := k2\<rparr>)"
      using k1(1) t'(4) by (cases t') (auto simp: kcall_def k2_def)
    define p where "p = a mod psize"
    note p = page_split[OF ar(1) p_def]
    have m: "0 < p + sz" "p + sz < 4294967296" "0 \<le> a - p"
      using p(1,2) nr fit(2) by linarith+
    then have u: "u32 (p + sz) = p + sz" by (intro u32_id) linarith+
    have l2: "live (kern (t'\<lparr>kern := k2\<rparr>))" using k2(1) by simp
    obtain x k3 where k3: "map_file c K 202 (p + sz) (a - p) (t'\<lparr>kern := k2\<rparr>)
          = Inr (\<lparr>m_addr = x, m_foff = a - p, m_len = p + sz\<rparr>, t'\<lparr>kern := k3\<rparr>)"
        "0 < x" "x + (p + sz) < 18446744073709551616" "psize dvd x" "live k3"
        "content k3 = content k2"
      using map_file_ex[where c = c and status = 202, OF l2 m p(5)] by auto
    let ?m = "\<lparr>m_addr = x, m_foff = a - p, m_len = p + sz\<rparr>"
    obtain k4 where k4: "map_store K psize ?m (x + p) ?bs k3 = Some k4" "live k4"
        "content k4 = ff_pwrite (nat a) ?bs (content k3)"
      using map_store_ok[OF k3(5), of ?m "x + p" ?bs] p m lbs k3(6) k2(2) n(3) by auto
    have C4: "content k4 = shadow_content t'" using k4(3) k3(6) k2(3) t'(2) by simp
    obtain k5 where k5: "k_msync K k4 = (0, k5)" "live k5" "content k5 = content k4"
      using msync[OF k4(2)] by auto
    have eof: "check_eofpage c K a ?m sz (t'\<lparr>kern := k5\<rparr>) = Inr (t'\<lparr>kern := k5\<rparr>)"
    proof (rule check_eofpage_ok[OF E(2)])
      show "shadow_ok (t'\<lparr>kern := k5\<rparr>)" using t'(5) by (simp add: shadow_ok_def)
    qed (use ar nr n fit k3 k5 C4 p in \<open>simp_all add: p_def[symmetric]\<close>)
    obtain k6 where k6: "k_munmap K k5 = (0, k6)" "live k6" "content k6 = content k5"
      using munmap[OF k5(2)] by auto
    have fsz: "file_size (log4 (fop_code Op_mapwrite) a sz FL_NONE s) = file_size s" by simp
    have "domapwrite c K off sz s = Inr (t'\<lparr>kern := k6\<rparr>)"
      using False sim t'(1,6,7) grow k3(1) k4(1) k5(1) eof k6(1) u p(4) E(2)
      by (simp add: unf kcheck_def kcall_def)
    then show ?thesis
      using op_spec_mem[where content = content and live = live, OF inv t'(3) k6(2)]
        k6(3) k5(3) C4 t'(2) False by simp
  qed
qed

lemma dotruncate_ok:
  assumes env: "env_ok c psize bsize limit" and inv: "fsx_inv c content live s"
    and tc: "0 < testcalls s" and rng: "0 \<le> sz" "sz \<le> maxfilelen c" and lite: "\<not> lite c"
    and n: "n = sz - sz mod truncbdy c"
  shows "op_spec c content live s (ff_truncate (nat n) (shadow_content s)) (dotruncate c K sz s)"
proof -
  note I = fsx_invD[OF inv] and E = env_okD[OF env]
  have nr: "0 \<le> n" "n \<le> maxfilelen c" "n \<le> limit"
    using round_down_sub[OF E(9) rng(1)] rng(2) E(4) by (auto simp: n)
  define t where "t = log4 (fop_code Op_truncate) 0 n FL_NONE (raise_biggest n s)"
  have t: "same_core s t"
    by (simp add: t_def same_core_trans[OF same_core_biggest same_core_log4])
  note T = same_coreD[OF t]
  let ?c = "ff_truncate (nat n) (shadow_content s)"
  have "shadow_ok t" using I(8) T by (simp add: shadow_ok_def)
  then have ref: "sh_refines t (sh_truncate n t) ?c"
    using sh_truncate_refines[of t n] nr I(3) T by auto
  have lc: "int (length ?c) \<le> maxfilelen c" using nr by (simp add: ff_simps)
  obtain t' where t': "sh_truncate n t = Some t'" "shadow_content t' = ?c" "mem_step c s t'"
      "kern t' = kern s"
    using sh_refines_step[OF ref mem_step_core[OF inv t] lc] lite T(3) by metis
  have sim: "simulated c t' = simulated c s"
    using t'(3) by (simp add: mem_step_def stable_def simulated_def)
  note unf = dotruncate_def[of c K sz s, unfolded Let_def, folded n, folded t_def]
  show ?thesis
  proof (cases "simulated c s")
    case True
    then have "dotruncate c K sz s = Inr t'" using t'(1) sim by (simp add: unf)
    then show ?thesis
      using op_spec_simulated[where content = content and live = live, OF inv t'(3,4) True tc]
        t'(2) by simp
  next
    case False
    obtain k1 where k1: "k_ftruncate K n (kern s) = (0, k1)" "live k1"
        "content k1 = ff_truncate (nat n) (content (kern s))"
      using ftruncate[OF I(7) nr(1,3)] by auto
    have "dotruncate c K sz s = Inr (t'\<lparr>kern := k1\<rparr>)"
      using False sim t'(1,4) k1(1) by (simp add: unf kcheck_def kcall_def)
    then show ?thesis
      using op_spec_mem[where content = content and live = live, OF inv t'(3) k1(2)]
        k1(3) t'(2) I(9)[OF False] by simp
  qed
qed

end

end
