(* ===== verification/Fsx_Falloc_Ok.thy ===== *)
theory Fsx_Falloc_Ok
  imports Fsx_Writes_Ok
begin

text \<open>
  The operations that first ask the kernel and then repeat the change on the copy: \<open>fallocate\<close>
  with its modes, \<open>FICLONERANGE\<close>, \<open>FIDEDUPERANGE\<close> and \<open>copy_file_range\<close>. Under the contract the
  loop around \<open>copy_file_range\<close> ends, however the kernel splits the copy.
\<close>

lemma shadow_ok_kern [simp]: "shadow_ok (s\<lparr>kern := k\<rparr>) = shadow_ok (s :: 'k fsx)"
  by (simp add: shadow_ok_def)

context posix_file
begin

text \<open>One kernel call that succeeds, then the change of the copy.\<close>

lemma then_shadow_ok:
  assumes inv: "fsx_inv c content live s" and t: "same_core s t"
    and k: "live k" "content k = cont"
    and ref: "sh_refines (t\<lparr>kern := k\<rparr>) (sh (t\<lparr>kern := k\<rparr>)) cont"
    and len: "int (length cont) \<le> maxfilelen c" "\<not> lite c"
  shows "op_spec c content live s cont (or_fault (t\<lparr>kern := k\<rparr>) (sh (t\<lparr>kern := k\<rparr>)))"
proof -
  have "mem_step c s (t\<lparr>kern := k\<rparr>)" using mem_step_core[OF inv t] by simp
  then obtain t' where t': "sh (t\<lparr>kern := k\<rparr>) = Some t'" "shadow_content t' = cont"
      "mem_step c s t'" "kern t' = k"
    using sh_refines_step[OF ref _ len(1)] len(2) by auto
  have "t' = t'\<lparr>kern := k\<rparr>" using t'(4) by (cases t') simp
  then show ?thesis
    using op_spec_mem[where content = content and live = live, OF inv t'(3) k(1)] t'(1,2) k(2)
    by simp
qed

lemma do_punch_hole_ok:
  assumes env: "env_ok c psize bsize limit" and inv: "fsx_inv c content live s" and lite: "\<not> lite c"
    and rng: "0 \<le> off" "0 \<le> len" "off + len \<le> file_size s"
  shows "op_spec c content live s
    (if len = 0 \<or> simulated c s then shadow_content s
     else ff_punch (nat off) (nat len) (shadow_content s)) (do_punch_hole c K off len s)"
proof -
  note I = fsx_invD[OF inv] and E = env_okD[OF env]
  define t where "t = log4 (fop_code Op_punch_hole) off len FL_NONE s"
  have t: "same_core s t" by (simp add: t_def)
  note T = same_coreD[OF t] and unf = do_punch_hole_def[of c K off len s, folded t_def, unfolded Let_def]
  show ?thesis
  proof (cases "len = 0 \<or> simulated c s")
    case True
    then have "do_punch_hole c K off len s = Inr (log4 (fop_code Op_punch_hole) off len FL_SKIPPED s)
        \<or> do_punch_hole c K off len s = Inr t"
      using T(8) by (auto simp: unf)
    then show ?thesis using True inv t by (auto intro!: op_spec_core)
  next
    case False
    then have fit: "0 < len" "off < file_size s" "off + len \<le> limit" "off + len < 4294967296"
        "file_size s < 2147483648" "len < 2147483648"
      using rng I(2) E(4-6) by auto
    obtain k1 where k1: "k_fallocate K (FALLOC_FL_PUNCH_HOLE + FALLOC_FL_KEEP_SIZE) off len (kern s)
          = (0, k1)" "live k1" "content k1 = ff_punch (nat off) (nat len) (content (kern s))"
      using punch[OF I(7) rng(1) fit(1,3)] by auto
    have C: "content k1 = ff_punch (nat off) (nat len) (shadow_content s)"
      using k1(3) I(9) False by simp
    have "op_spec c content live s (ff_punch (nat off) (nat len) (shadow_content s))
        (or_fault (t\<lparr>kern := k1\<rparr>) (sh_punch_hole off len (t\<lparr>kern := k1\<rparr>)))"
    proof (rule then_shadow_ok[OF inv t k1(2) C _ _ lite])
      show "sh_refines (t\<lparr>kern := k1\<rparr>) (sh_punch_hole off len (t\<lparr>kern := k1\<rparr>))
          (ff_punch (nat off) (nat len) (shadow_content s))"
        using sh_punch_hole_refines[of "t\<lparr>kern := k1\<rparr>" off len] I(8) T rng fit
        by (simp add: shadow_ok_def)
      show "int (length (ff_punch (nat off) (nat len) (shadow_content s))) \<le> maxfilelen c"
        using length_shadow_content[OF I(8)] I(2) rng by (subst length_ff_punch) auto
    qed
    then show ?thesis
      using False k1(1) T(2,3,8) fit(2) by (simp add: unf kcheck_def kcall_def)
  qed
qed

lemma do_zero_range_ok:
  assumes env: "env_ok c psize bsize limit" and inv: "fsx_inv c content live s" and lite: "\<not> lite c"
    and rng: "0 \<le> off" "0 \<le> len" "off + len \<le> file_size s"
  shows "op_spec c content live s
    (if len = 0 \<or> simulated c s then shadow_content s
     else ff_zero (nat off) (nat len) (shadow_content s)) (do_zero_range c K off len keep s)"
proof -
  note I = fsx_invD[OF inv] and E = env_okD[OF env]
  define e where "e = (if keep then 0 else u32 (off + len))"
  define t where "t = log4 (fop_code Op_zero_range) off len (keep_flag keep) (raise_biggest e s)"
  have t: "same_core s t" by (simp add: t_def same_core_trans[OF same_core_biggest same_core_log4])
  note T = same_coreD[OF t]
    and unf = do_zero_range_def[of c K off len keep s, unfolded Let_def, folded e_def, folded t_def]
  show ?thesis
  proof (cases "len = 0 \<or> simulated c s")
    case True
    then have "do_zero_range c K off len keep s
          = Inr (log4 (fop_code Op_zero_range) off len ((keep_flag keep)\<lparr>fl_skipped := True\<rparr>) s)
        \<or> do_zero_range c K off len keep s = Inr t"
      using T(8) by (auto simp: unf)
    then show ?thesis using True inv t by (auto intro!: op_spec_core)
  next
    case False
    then have fit: "0 < len" "off + len \<le> limit" using rng I(2) E(4) by auto
    obtain k1 where k1: "k_fallocate K FALLOC_FL_ZERO_RANGE off len (kern s) = (0, k1)" "live k1"
        "content k1 = ff_zero (nat off) (nat len) (content (kern s))"
      using zero[OF I(7) rng(1) fit] by auto
    have C: "content k1 = ff_zero (nat off) (nat len) (shadow_content s)"
      using k1(3) I(9) False by simp
    have "op_spec c content live s (ff_zero (nat off) (nat len) (shadow_content s))
        (or_fault (t\<lparr>kern := k1\<rparr>) (sh_zero_range off len (t\<lparr>kern := k1\<rparr>)))"
    proof (rule then_shadow_ok[OF inv t k1(2) C _ _ lite])
      show "sh_refines (t\<lparr>kern := k1\<rparr>) (sh_zero_range off len (t\<lparr>kern := k1\<rparr>))
          (ff_zero (nat off) (nat len) (shadow_content s))"
        using sh_zero_range_refines[of "t\<lparr>kern := k1\<rparr>" off len] I(8) T rng
        by (simp add: shadow_ok_def)
      show "int (length (ff_zero (nat off) (nat len) (shadow_content s))) \<le> maxfilelen c"
        using length_shadow_content[OF I(8)] I(2) rng by (simp add: length_ff_zero)
    qed
    then show ?thesis
      using False k1(1) T(3,8) by (simp add: unf kcheck_def kcall_def)
  qed
qed

lemma do_collapse_range_ok:
  assumes env: "env_ok c psize bsize limit" and inv: "fsx_inv c content live s" and lite: "\<not> lite c"
    and rng: "0 \<le> off" "0 \<le> len" "off + len < 4294967296" "bsize dvd off" "bsize dvd len"
  shows "op_spec c content live s
    (if len = 0 \<or> file_size s \<le> off + len \<or> simulated c s then shadow_content s
     else ff_collapse (nat off) (nat len) (shadow_content s)) (do_collapse_range c K off len s)"
proof -
  note I = fsx_invD[OF inv] and E = env_okD[OF env]
  have u: "u32 (off + len) = off + len" using rng by (intro u32_id) auto
  define t where "t = log4 (fop_code Op_collapse_range) off len FL_NONE s"
  have t: "same_core s t" by (simp add: t_def)
  note T = same_coreD[OF t]
    and unf = do_collapse_range_def[of c K off len s, unfolded Let_def u, folded t_def]
  show ?thesis
  proof (cases "len = 0 \<or> file_size s \<le> off + len \<or> simulated c s")
    case True
    then have "do_collapse_range c K off len s
          = Inr (log4 (fop_code Op_collapse_range) off len FL_SKIPPED s)
        \<or> do_collapse_range c K off len s = Inr t"
      using T(8) by (auto simp: unf)
    then show ?thesis using True inv t by (auto intro!: op_spec_core)
  next
    case False
    then have fit: "0 < len" "off + len < file_size s" using rng by auto
    have L: "off + len < int (length (content (kern s)))" using I(10) False fit(2) by simp
    obtain k1 where k1: "k_fallocate K FALLOC_FL_COLLAPSE_RANGE off len (kern s) = (0, k1)" "live k1"
        "content k1 = ff_collapse (nat off) (nat len) (content (kern s))"
      using collapse[OF I(7) rng(1) fit(1) rng(4,5) L] by auto
    have C: "content k1 = ff_collapse (nat off) (nat len) (shadow_content s)"
      using k1(3) I(9) False by simp
    have "op_spec c content live s (ff_collapse (nat off) (nat len) (shadow_content s))
        (or_fault (t\<lparr>kern := k1\<rparr>) (sh_collapse_range off len (t\<lparr>kern := k1\<rparr>)))"
    proof (rule then_shadow_ok[OF inv t k1(2) C _ _ lite])
      show "sh_refines (t\<lparr>kern := k1\<rparr>) (sh_collapse_range off len (t\<lparr>kern := k1\<rparr>))
          (ff_collapse (nat off) (nat len) (shadow_content s))"
        using sh_collapse_range_refines[of "t\<lparr>kern := k1\<rparr>" off len] I(8) T rng fit
        by (simp add: shadow_ok_def)
      show "int (length (ff_collapse (nat off) (nat len) (shadow_content s))) \<le> maxfilelen c"
        using length_shadow_content[OF I(8)] I(2) rng fit by (subst length_ff_collapse) auto
    qed
    then show ?thesis
      using False k1(1) T(2,3,8) by (simp add: unf kcheck_def kcall_def)
  qed
qed

lemma do_insert_range_ok:
  assumes env: "env_ok c psize bsize limit" and inv: "fsx_inv c content live s" and lite: "\<not> lite c"
    and rng: "0 \<le> off" "0 \<le> len" "file_size s + len \<le> maxfilelen c" "bsize dvd off" "bsize dvd len"
  shows "op_spec c content live s
    (if len = 0 \<or> file_size s \<le> off \<or> simulated c s then shadow_content s
     else ff_insert (nat off) (nat len) (shadow_content s)) (do_insert_range c K off len s)"
proof -
  note I = fsx_invD[OF inv] and E = env_okD[OF env]
  define t where "t = log4 (fop_code Op_insert_range) off len FL_NONE s"
  have t: "same_core s t" by (simp add: t_def)
  note T = same_coreD[OF t]
    and unf = do_insert_range_def[of c K off len s, unfolded Let_def, folded t_def]
  show ?thesis
  proof (cases "len = 0 \<or> file_size s \<le> off \<or> simulated c s")
    case True
    then have "do_insert_range c K off len s
          = Inr (log4 (fop_code Op_insert_range) off len FL_SKIPPED s)
        \<or> do_insert_range c K off len s = Inr t"
      using T(8) by (auto simp: unf)
    then show ?thesis using True inv t by (auto intro!: op_spec_core)
  next
    case False
    then have fit: "0 < len" "off < file_size s" using rng by auto
    have L: "off < int (length (content (kern s)))" "int (length (content (kern s))) + len \<le> limit"
      using I(10) False fit(2) rng(3) E(4) by auto
    obtain k1 where k1: "k_fallocate K FALLOC_FL_INSERT_RANGE off len (kern s) = (0, k1)" "live k1"
        "content k1 = ff_insert (nat off) (nat len) (content (kern s))"
      using insert[OF I(7) rng(1) fit(1) rng(4,5) L] by auto
    have C: "content k1 = ff_insert (nat off) (nat len) (shadow_content s)"
      using k1(3) I(9) False by simp
    have "op_spec c content live s (ff_insert (nat off) (nat len) (shadow_content s))
        (or_fault (t\<lparr>kern := k1\<rparr>) (sh_insert_range off len (t\<lparr>kern := k1\<rparr>)))"
    proof (rule then_shadow_ok[OF inv t k1(2) C _ _ lite])
      show "sh_refines (t\<lparr>kern := k1\<rparr>) (sh_insert_range off len (t\<lparr>kern := k1\<rparr>))
          (ff_insert (nat off) (nat len) (shadow_content s))"
        using sh_insert_range_refines[of "t\<lparr>kern := k1\<rparr>" off len] I(3,8) T rng fit
        by (simp add: shadow_ok_def)
      show "int (length (ff_insert (nat off) (nat len) (shadow_content s))) \<le> maxfilelen c"
        using length_shadow_content[OF I(8)] rng by (simp add: length_ff_insert)
    qed
    then show ?thesis
      using False k1(1) T(2,3,8) by (simp add: unf kcheck_def kcall_def)
  qed
qed

lemma do_preallocate_ok:
  assumes env: "env_ok c psize bsize limit" and inv: "fsx_inv c content live s" and lite: "\<not> lite c"
    and tc: "0 < testcalls s" and rng: "0 \<le> off" "0 \<le> len" "off + len \<le> maxfilelen c"
  shows "op_spec c content live s
    (if len = 0 \<or> keep then shadow_content s
     else ff_truncate (max (nat (off + len)) (length (shadow_content s))) (shadow_content s))
    (do_preallocate c K off len keep s)"
proof (cases "len = 0")
  case True
  then have "do_preallocate c K off len keep s
      = Inr (log4 (fop_code Op_fallocate) off len ((keep_flag keep)\<lparr>fl_skipped := True\<rparr>) s)"
    by (simp add: do_preallocate_def)
  then show ?thesis using True inv by (auto intro!: op_spec_core)
next
  case False
  note I = fsx_invD[OF inv] and E = env_okD[OF env]
  have fit: "0 < len" "off + len \<le> limit" "off + len < 4294967296" using False rng E(4,6) by auto
  then have u: "u32 (off + len) = off + len" using rng by (intro u32_id) auto
  define e where "e = (if keep then 0 else off + len)"
  define t where "t = log4 (fop_code Op_fallocate) off len (keep_flag keep) (raise_biggest e s)"
  have t: "same_core s t" by (simp add: t_def same_core_trans[OF same_core_biggest same_core_log4])
  note T = same_coreD[OF t]
    and unf = do_preallocate_def[of c K off len keep s, unfolded Let_def u, folded e_def, folded t_def]
  let ?c = "ff_truncate (max (nat e) (length (shadow_content s))) (shadow_content s)"
  have lc: "int (length (shadow_content s)) = file_size s" by (rule length_shadow_content[OF I(8)])
  have cont: "?c = (if len = 0 \<or> keep then shadow_content s
     else ff_truncate (max (nat (off + len)) (length (shadow_content s))) (shadow_content s))"
    using False by (simp add: e_def ff_truncate_same)
  have er: "0 \<le> e" "e \<le> maxfilelen c" using rng E(5) by (simp_all add: e_def)
  have "shadow_ok t" using I(8) T by (simp add: shadow_ok_def)
  then have ref: "sh_refines t (sh_allocate e t) ?c"
    using sh_allocate_refines[of t e] er I(3) T by simp
  have small: "int (length ?c) \<le> maxfilelen c" using er lc I(2) by (simp add: length_ff_truncate)
  obtain t' where t': "sh_allocate e t = Some t'" "shadow_content t' = ?c" "mem_step c s t'"
      "kern t' = kern s"
    using sh_refines_step[OF ref mem_step_core[OF inv t] small] lite T(3) by metis
  have sim: "simulated c t' = simulated c s"
    using t'(3) by (simp add: mem_step_def stable_def simulated_def)
  show ?thesis
  proof (cases "simulated c s")
    case True
    then have "do_preallocate c K off len keep s = Inr t'" using t'(1) sim False by (simp add: unf)
    then show ?thesis
      using op_spec_simulated[where content = content and live = live, OF inv t'(3,4) True tc]
        t'(2) cont by simp
  next
    case ns: False
    obtain k1 where k1: "k_fallocate K (if keep then FALLOC_FL_KEEP_SIZE else 0) off len (kern s) = (0, k1)"
        "live k1" "content k1 = ?c"
      using alloc[OF I(7) rng(1) fit(1,2)] alloc_keep[OF I(7) rng(1) fit(1,2)] I(9)[OF ns]
      by (cases keep) (auto simp: e_def ff_truncate_same)
    have "do_preallocate c K off len keep s = Inr (t'\<lparr>kern := k1\<rparr>)"
      using False ns sim t'(1,4) k1(1) by (simp add: unf kcheck_def kcall_def)
    then show ?thesis
      using op_spec_mem[where content = content and live = live, OF inv t'(3) k1(2)]
        k1(3) t'(2) cont by simp
  qed
qed

lemma do_clone_range_ok:
  assumes env: "env_ok c psize bsize limit" and inv: "fsx_inv c content live s" and lite: "\<not> lite c"
    and rng: "0 \<le> off" "0 \<le> len" "0 \<le> dst" "off + len \<le> file_size s" "dst + len \<le> maxfilelen c"
    and al: "bsize dvd off" "bsize dvd len" "bsize dvd dst"
    and dis: "off + len \<le> dst \<or> dst + len \<le> off"
  shows "op_spec c content live s
    (if len = 0 \<or> simulated c s then shadow_content s
     else ff_clone (nat off) (nat len) (nat dst) (shadow_content s)) (do_clone_range c K off len dst s)"
proof -
  note I = fsx_invD[OF inv] and E = env_okD[OF env]
  define t where "t = log5 (fop_code Op_clone_range) off len dst FL_NONE (raise_biggest (u32 (dst + len)) s)"
  have t: "same_core s t" by (simp add: t_def same_core_trans[OF same_core_biggest same_core_log5])
  note T = same_coreD[OF t]
    and unf = do_clone_range_def[of c K off len dst s, unfolded Let_def, folded t_def]
  show ?thesis
  proof (cases "len = 0 \<or> simulated c s")
    case True
    then have "do_clone_range c K off len dst s
          = Inr (log5 (fop_code Op_clone_range) off len dst FL_SKIPPED s)
        \<or> do_clone_range c K off len dst s = Inr t"
      using T(8) by (auto simp: unf)
    then show ?thesis using True inv t by (auto intro!: op_spec_core)
  next
    case False
    then have fit: "0 < len" "off < file_size s" "dst + len \<le> limit" using rng E(4) by auto
    have L: "off + len \<le> int (length (content (kern s)))" using I(10) False rng(4) by simp
    obtain k1 where k1: "k_clone K off len dst (kern s) = (0, k1)" "live k1"
        "content k1 = ff_clone (nat off) (nat len) (nat dst) (content (kern s))"
      using clone[OF I(7) rng(1) fit(1) rng(3) al L fit(3) dis] by auto
    have C: "content k1 = ff_clone (nat off) (nat len) (nat dst) (shadow_content s)"
      using k1(3) I(9) False by simp
    have "op_spec c content live s (ff_clone (nat off) (nat len) (nat dst) (shadow_content s))
        (or_fault (t\<lparr>kern := k1\<rparr>) (sh_copy_range off len dst (t\<lparr>kern := k1\<rparr>)))"
    proof (rule then_shadow_ok[OF inv t k1(2) C _ _ lite])
      show "sh_refines (t\<lparr>kern := k1\<rparr>) (sh_copy_range off len dst (t\<lparr>kern := k1\<rparr>))
          (ff_clone (nat off) (nat len) (nat dst) (shadow_content s))"
        using sh_copy_range_refines[of "t\<lparr>kern := k1\<rparr>" off len dst] I(3,8) T rng fit dis
        by (simp add: shadow_ok_def)
      show "int (length (ff_clone (nat off) (nat len) (nat dst) (shadow_content s))) \<le> maxfilelen c"
        using length_shadow_content[OF I(8)] I(2) rng by (subst length_ff_clone) auto
    qed
    then show ?thesis
      using False k1(1) T(3,8) fit(2) by (simp add: unf kcheck_def kcall_def)
  qed
qed

lemma do_dedupe_range_ok:
  assumes env: "env_ok c psize bsize limit" and inv: "fsx_inv c content live s"
    and rng: "0 \<le> off" "0 \<le> len" "0 \<le> dst" "off + len \<le> file_size s" "dst + len \<le> file_size s"
    and al: "bsize dvd off" "bsize dvd len" "bsize dvd dst"
  shows "op_spec c content live s (shadow_content s) (do_dedupe_range c K off len dst s)"
proof -
  note I = fsx_invD[OF inv]
  define t where "t = log5 (fop_code Op_dedupe_range) off len dst FL_NONE s"
  have t: "same_core s t" by (simp add: t_def)
  note T = same_coreD[OF t]
    and unf = do_dedupe_range_def[of c K off len dst s, unfolded Let_def, folded t_def]
  show ?thesis
  proof (cases "len = 0 \<or> simulated c s")
    case True
    then have "do_dedupe_range c K off len dst s
          = Inr (log5 (fop_code Op_dedupe_range) off len dst FL_SKIPPED s)
        \<or> do_dedupe_range c K off len dst s = Inr t"
      using T(8) by (auto simp: unf)
    then show ?thesis using inv t by (auto intro!: op_spec_core)
  next
    case False
    then have fit: "0 < len" "off < file_size s" using rng by auto
    have L: "off + len \<le> int (length (content (kern s)))" "dst + len \<le> int (length (content (kern s)))"
      using I(10) False rng(4,5) by simp_all
    obtain st k1 where k1: "k_dedupe K off len dst (kern s) = (0, st, k1)" "0 \<le> st" "live k1"
        "content k1 = content (kern s)"
      using dedupe[OF I(7) rng(1) fit(1) rng(3) al L] by auto
    have "do_dedupe_range c K off len dst s = Inr (t\<lparr>kern := k1\<rparr>)"
      using False k1(1,2) T(3,8) fit by (simp add: unf)
    then show ?thesis
      using op_spec_same[where content = content and live = live, OF inv t k1(3,4)] by simp
  qed
qed

text \<open>The loop ends with the whole range copied, whatever pieces the kernel chose.\<close>

lemma copy_loop_ok:
  assumes "live k" and "0 \<le> o1" and "0 < n" and "0 \<le> o2"
    and "o1 + n \<le> int (length (content k))" and "o2 + n \<le> limit"
    and "o1 + n \<le> o2 \<or> o2 + n \<le> o1"
  shows "\<exists>nr k'. copy_loop K o1 o2 n tries nr0 k = Some (nr, False, k') \<and> 0 < nr \<and> live k'
    \<and> content k' = ff_clone (nat o1) (nat n) (nat o2) (content k)"
  using assms
proof (induction "nat n" arbitrary: o1 o2 n nr0 k rule: less_induct)
  case less
  note P = less.prems
  obtain nr ag k1 where k1: "k_copy K o1 o2 n k = (nr, ag, k1)" "0 < nr" "nr \<le> n" "live k1"
      "content k1 = ff_clone (nat o1) (nat nr) (nat o2) (content k)"
    using copy[OF P] by auto
  have step: "copy_loop K o1 o2 n tries nr0 k = copy_loop K (o1 + nr) (o2 + nr) (n - nr) tries nr k1"
    using k1(1-3) P(3) by (subst copy_loop.simps) simp
  show ?case
  proof (cases "n = nr")
    case True
    then have "copy_loop K o1 o2 n tries nr0 k = Some (nr, False, k1)"
      using step by (simp add: copy_loop.simps)
    then show ?thesis using k1 True by auto
  next
    case False
    have len: "int (length (content k)) \<le> int (length (content k1))"
      using k1(5) P(5) k1(2,3) P(2) by (subst k1(5), subst length_ff_clone) auto
    have rec: "\<exists>nr' k'. copy_loop K (o1 + nr) (o2 + nr) (n - nr) tries nr k1 = Some (nr', False, k')
        \<and> 0 < nr' \<and> live k'
        \<and> content k' = ff_clone (nat (o1 + nr)) (nat (n - nr)) (nat (o2 + nr)) (content k1)"
      using False k1(2-4) P len by (intro less.hyps) auto
    have nats: "nat (o1 + nr) = nat o1 + nat nr" "nat (o2 + nr) = nat o2 + nat nr"
        "nat n = nat nr + nat (n - nr)"
      using P(2,4) k1(2,3) by auto
    have "nat o1 + (nat nr + nat (n - nr)) \<le> length (content k)"
        "nat o1 + (nat nr + nat (n - nr)) \<le> nat o2 \<or> nat o2 + (nat nr + nat (n - nr)) \<le> nat o1"
      using P(2-5,7) k1(2,3) by (auto simp: nat_le_iff simp flip: nat_add_distrib)
    from ff_clone_split[OF this]
    have "ff_clone (nat (o1 + nr)) (nat (n - nr)) (nat (o2 + nr)) (content k1)
        = ff_clone (nat o1) (nat n) (nat o2) (content k)"
      unfolding k1(5) nats by simp
    then show ?thesis using rec step by auto
  qed
qed

lemma do_copy_range_ok:
  assumes env: "env_ok c psize bsize limit" and inv: "fsx_inv c content live s" and lite: "\<not> lite c"
    and rng: "0 \<le> off" "0 \<le> len" "0 \<le> dst" "off + len \<le> file_size s" "dst + len \<le> maxfilelen c"
    and dis: "off + len \<le> dst \<or> dst + len \<le> off"
  shows "op_spec c content live s
    (if len = 0 \<or> simulated c s then shadow_content s
     else ff_clone (nat off) (nat len) (nat dst) (shadow_content s)) (do_copy_range c K off len dst s)"
proof -
  note I = fsx_invD[OF inv] and E = env_okD[OF env]
  define t where "t = log5 (fop_code Op_copy_range) off len dst FL_NONE (raise_biggest (u32 (dst + len)) s)"
  have t: "same_core s t" by (simp add: t_def same_core_trans[OF same_core_biggest same_core_log5])
  note T = same_coreD[OF t]
    and unf = do_copy_range_def[of c K off len dst s, unfolded Let_def, folded t_def]
  show ?thesis
  proof (cases "len = 0 \<or> simulated c s")
    case True
    then have "do_copy_range c K off len dst s
          = Inr (log5 (fop_code Op_copy_range) off len dst FL_SKIPPED s)
        \<or> do_copy_range c K off len dst s = Inr t"
      using T(8) by (auto simp: unf)
    then show ?thesis using True inv t by (auto intro!: op_spec_core)
  next
    case False
    then have fit: "0 < len" "off < file_size s" "dst + len \<le> limit" using rng E(4) by auto
    have L: "off + len \<le> int (length (content (kern s)))" using I(10) False rng(4) by simp
    obtain nr k1 where k1: "copy_loop K off dst len 0 0 (kern s) = Some (nr, False, k1)" "0 < nr"
        "live k1" "content k1 = ff_clone (nat off) (nat len) (nat dst) (content (kern s))"
      using copy_loop_ok[OF I(7) rng(1) fit(1) rng(3) L fit(3) dis] by blast
    have C: "content k1 = ff_clone (nat off) (nat len) (nat dst) (shadow_content s)"
      using k1(4) I(9) False by simp
    have "op_spec c content live s (ff_clone (nat off) (nat len) (nat dst) (shadow_content s))
        (or_fault (t\<lparr>kern := k1\<rparr>) (sh_copy_range off len dst (t\<lparr>kern := k1\<rparr>)))"
    proof (rule then_shadow_ok[OF inv t k1(3) C _ _ lite])
      show "sh_refines (t\<lparr>kern := k1\<rparr>) (sh_copy_range off len dst (t\<lparr>kern := k1\<rparr>))
          (ff_clone (nat off) (nat len) (nat dst) (shadow_content s))"
        using sh_copy_range_refines[of "t\<lparr>kern := k1\<rparr>" off len dst] I(3,8) T rng fit dis
        by (simp add: shadow_ok_def)
      show "int (length (ff_clone (nat off) (nat len) (nat dst) (shadow_content s))) \<le> maxfilelen c"
        using length_shadow_content[OF I(8)] I(2) rng by (subst length_ff_clone) auto
    qed
    then show ?thesis
      using False k1(1,2) T(3,8) fit(2) by (simp add: unf)
  qed
qed

end

end
