(* ===== verification/Fsx_Test_Ok.thy ===== *)
theory Fsx_Test_Ok
  imports Fsx_Test Fsx_Falloc_Ok
begin

text \<open>
  A step of \<open>fsx\<close> on a kernel that keeps \<open>posix_file\<close>: the arguments \<open>test\<close> chooses are in the
  ranges the operations need, so the step returns with the invariant, unless it stays in one of
  the loops that look for a destination.
\<close>

section \<open>The arguments\<close>

lemma trim_off_range:
  assumes "0 \<le> off" and "0 \<le> lim" and "lim < 2147483648"
  shows "0 \<le> trim_off off lim" "trim_off off lim \<le> lim" "trim_off off lim \<le> off"
    "0 < lim \<Longrightarrow> trim_off off lim < lim"
  using assms by (auto simp: trim_off_def u64_id zmod_le_nonneg_dividend order.strict_implies_order)

lemma trim_len_range:
  assumes "0 \<le> off" and "off \<le> lim" and "0 \<le> len" and "len < 2147483648" and "lim < 2147483648"
  shows "0 \<le> trim_len off len lim" "off + trim_len off len lim \<le> lim" "trim_len off len lim \<le> len"
  using assms by (auto simp: trim_len_def u64_id)

lemma trim_off_len_range:
  assumes "trim_off_len off len lim = (o', l')"
    and "0 \<le> off" and "0 \<le> len" and "len < 2147483648" and "0 \<le> lim" and "lim < 2147483648"
  shows "0 \<le> o'" "0 \<le> l'" "o' + l' \<le> lim" "l' \<le> len" "o' \<le> off"
  using assms(1) trim_off_range[OF assms(2,5,6)]
    trim_len_range[OF trim_off_range(1,2)[OF assms(2,5,6)] assms(3,4,6)]
  by (auto simp: trim_off_len_def Let_def)

lemma block_down_range:
  assumes "pow2 (block_size c)" and "0 \<le> x"
  shows "0 \<le> block_down c x" "block_down c x \<le> x" "block_size c dvd block_down c x"
  using assms round_down_nonneg[OF pow2_pos[OF assms(1)] assms(2)] round_down_le[OF pow2_pos[OF assms(1)]]
    round_down_dvd
  by (simp_all add: block_down_def mask_down)

text \<open>The destination loops return a destination that fits, when they return.\<close>

definition range_fits :: "int \<Rightarrow> int \<Rightarrow> int \<Rightarrow> int \<Rightarrow> bool" where
  "range_fits bound off sz off2 \<longleftrightarrow> 0 \<le> off2 \<and> off2 + sz \<le> bound \<and> (off + sz \<le> off2 \<or> off2 + sz \<le> off)"

lemma dest_bad_fits:
  assumes "0 \<le> off" and "off < 2147483648" and "0 \<le> sz" and "sz < 2147483648"
    and "0 \<le> off2" and "off2 < 2147483648" and "0 \<le> bound" and "bound < 2147483648"
  shows "dest_bad bound off sz off2 \<longleftrightarrow> \<not> range_fits bound off sz off2"
proof -
  have "s64 (off2 - off) = off2 - off" using assms by (intro s64_id) auto
  then show ?thesis
    using assms by (auto simp: dest_bad_def range_fits_def u64_id abs_if)
qed

definition dest_of :: "(nat \<Rightarrow> int) \<Rightarrow> (int \<Rightarrow> int) \<Rightarrow> int \<Rightarrow> nat \<Rightarrow> int" where
  "dest_of rand align bound r = align (trim_off (u64 (rand r)) bound)"

lemma dest_loop_good:
  assumes "dest_loop rand align bound off sz p = Some y"
  shows "\<exists>r. p \<le> r \<and> y = (dest_of rand align bound r, Suc r)
    \<and> \<not> dest_bad bound off sz (dest_of rand align bound r)"
proof -
  let ?P = "\<lambda>rand align bound off sz p y. \<exists>r. p \<le> r \<and> y = (dest_of rand align bound r, Suc r)
    \<and> \<not> dest_bad bound off sz (dest_of rand align bound r)"
  show ?thesis
  proof (rule dest_loop.raw_induct[of ?P, OF _ assms])
    fix f rand align bound off sz p y
    assume IH: "\<And>rand align bound off sz p y. f rand align bound off sz p = Some y \<Longrightarrow>
        ?P rand align bound off sz p y"
      and eq: "(let off2 = align (trim_off (u64 (rand p)) bound) in
        if dest_bad bound off sz off2 then f rand align bound off sz (Suc p) else Some (off2, Suc p))
        = Some y"
    show "?P rand align bound off sz p y"
    proof (cases "dest_bad bound off sz (dest_of rand align bound p)")
      case True
      then have "f rand align bound off sz (Suc p) = Some y" using eq by (simp add: dest_of_def)
      from IH[OF this] show ?thesis using Suc_leD by blast
    next
      case False
      then show ?thesis using eq by (auto simp: dest_of_def)
    qed
  qed
qed

lemma dest_loop_returns:
  assumes "\<not> dest_bad bound off sz (dest_of rand align bound r)" and "p \<le> r"
  shows "dest_loop rand align bound off sz p \<noteq> None"
  using assms(2)
proof (induction "r - p" arbitrary: p)
  case 0
  then show ?case using assms(1) by (simp add: dest_loop.simps dest_of_def Let_def)
next
  case (Suc n)
  then have "dest_loop rand align bound off sz (Suc p) \<noteq> None" by (intro Suc.hyps) auto
  then show ?case by (subst dest_loop.simps) (simp add: Let_def)
qed

lemma dest_loop_None_iff:
  "dest_loop rand align bound off sz p = None \<longleftrightarrow>
   (\<forall>r \<ge> p. dest_bad bound off sz (dest_of rand align bound r))"
  using dest_loop_good[of rand align bound off sz p] dest_loop_returns[of bound off sz rand align _ p]
  by (cases "dest_loop rand align bound off sz p") blast+

lemma dedupe_dest_range:
  assumes "dedupe_dest rand align bound off sz n o0 p = (o2, z2, q)"
  shows "(z2 = 0 \<and> (o2 = o0 \<or> (\<exists>r. o2 = dest_of rand align bound r)))
    \<or> (z2 = sz \<and> (\<exists>r. o2 = dest_of rand align bound r) \<and> \<not> dest_bad bound off sz o2)"
  using assms
proof (induction n arbitrary: o0 p)
  case (Suc n)
  let ?o = "dest_of rand align bound p"
  show ?case
  proof (cases "dest_bad bound off sz ?o")
    case True
    then have "dedupe_dest rand align bound off sz n ?o (Suc p) = (o2, z2, q)"
      using Suc.prems by (simp add: dest_of_def Let_def)
    from Suc.IH[OF this] show ?thesis by blast
  next
    case False
    then show ?thesis using Suc.prems by (auto simp: dest_of_def Let_def)
  qed
qed simp

text \<open>\<open>random()\<close> returns 31 bits.\<close>

definition rand_ok :: "(nat \<Rightarrow> int) \<Rightarrow> bool" where
  "rand_ok rand \<longleftrightarrow> (\<forall>i. 0 \<le> rand i \<and> rand i < 2147483648)"

lemma rand_u64:
  assumes "rand_ok rand"
  shows "u64 (rand i) = rand i"
proof -
  have "0 \<le> rand i" "rand i < 2147483648" using assms by (simp_all add: rand_ok_def)
  then show ?thesis by (intro u64_id) linarith+
qed

lemma dest_of_range:
  assumes "rand_ok rand" and "\<And>x. 0 \<le> x \<Longrightarrow> 0 \<le> align x \<and> align x \<le> x"
    and "0 \<le> bound" and "bound < 2147483648"
  shows "0 \<le> dest_of rand align bound r" "dest_of rand align bound r < 2147483648"
proof -
  have "0 \<le> rand r" using assms(1) by (simp add: rand_ok_def)
  then have t: "0 \<le> trim_off (rand r) bound" "trim_off (rand r) bound \<le> bound"
    using trim_off_range[OF _ assms(3,4)] by auto
  from assms(2)[OF t(1)] t(2) assms(4)
  show "0 \<le> dest_of rand align bound r" "dest_of rand align bound r < 2147483648"
    by (auto simp: dest_of_def rand_u64[OF assms(1)])
qed

text \<open>What a request looks like when \<open>pick_op\<close> has made it for a file of size \<open>n\<close>.\<close>

definition req_for :: "config \<Rightarrow> int \<Rightarrow> fop \<Rightarrow> op_req \<Rightarrow> bool" where
  "req_for c n p rq \<longleftrightarrow> 0 \<le> rq_off rq \<and> rq_off rq < 2147483648 \<and> 0 \<le> rq_size rq
     \<and> (lite c \<longrightarrow> p \<in> {Op_read, Op_write, Op_mapread, Op_mapwrite})
     \<and> (if p = Op_truncate then rq_size rq < maxfilelen c else rq_size rq \<le> maxoplen c)
     \<and> (p \<in> {Op_clone_range, Op_dedupe_range, Op_copy_range} \<longrightarrow>
          rq_off rq + rq_size rq \<le> n \<and> 0 \<le> rq_off2 rq \<and> rq_off2 rq < 2147483648
          \<and> (rq_size rq \<noteq> 0 \<longrightarrow> range_fits (if p = Op_dedupe_range then n else maxfilelen c)
               (rq_off rq) (rq_size rq) (rq_off2 rq)))
     \<and> (p \<in> {Op_clone_range, Op_dedupe_range} \<longrightarrow>
          block_size c dvd rq_off rq \<and> block_size c dvd rq_size rq
          \<and> (rq_size rq \<noteq> 0 \<longrightarrow> block_size c dvd rq_off2 rq))"

definition req_ok :: "config \<Rightarrow> int \<Rightarrow> op_req \<Rightarrow> bool" where
  "req_ok c n rq \<longleftrightarrow> (\<exists>p. rq_op rq = fop_code p \<and> req_for c n p rq)"

text \<open>Choosing an operation calls \<open>random\<close>, and changes nothing else but \<open>closeopen\<close>.\<close>

definition upto_rpos :: "'k fsx \<Rightarrow> 'k fsx \<Rightarrow> bool" where
  "upto_rpos s s' \<longleftrightarrow> s' = s\<lparr>rpos := rpos s'\<rparr>"

lemma upto_rposI [simp]: "upto_rpos s s" "upto_rpos s (s\<lparr>rpos := q\<rparr>)"
  by (simp_all add: upto_rpos_def)

lemma req_ok_rangeI:
  assumes "p \<in> {Op_clone_range, Op_copy_range}" and "\<not> lite c"
    and "0 \<le> a" "a < 2147483648" "0 \<le> z" "z \<le> maxoplen c" "a + z \<le> n"
    and "0 \<le> b" "b < 2147483648" "range_fits (maxfilelen c) a z b"
    and "p = Op_clone_range \<Longrightarrow> block_size c dvd a \<and> block_size c dvd z \<and> block_size c dvd b"
  shows "req_ok c n \<lparr>rq_op = fop_code p, rq_off = a, rq_size = z, rq_off2 = b, rq_keep = k\<rparr>"
  unfolding req_ok_def req_for_def op_req.simps
  by (intro conjI exI[of _ p]) (use assms in auto)

lemma req_ok_dedupeI:
  assumes "\<not> lite c" and "0 \<le> a" "a < 2147483648" "0 \<le> z" "z \<le> maxoplen c" "a + z \<le> n"
    and "0 \<le> b" "b < 2147483648" "z \<noteq> 0 \<Longrightarrow> range_fits n a z b"
    and "block_size c dvd a" "block_size c dvd z" "block_size c dvd b"
  shows "req_ok c n \<lparr>rq_op = fop_code Op_dedupe_range, rq_off = a, rq_size = z, rq_off2 = b, rq_keep = k\<rparr>"
  unfolding req_ok_def req_for_def op_req.simps
  by (intro conjI exI[of _ Op_dedupe_range]) (use assms in auto)

lemma dest_of_dvd: "(\<And>x. 0 \<le> x \<Longrightarrow> b dvd align x) \<Longrightarrow> rand_ok rand \<Longrightarrow> 0 \<le> bound \<Longrightarrow>
    bound < 2147483648 \<Longrightarrow> b dvd dest_of rand align bound r"
  using trim_off_range(1)[of "rand r" bound] by (simp add: dest_of_def rand_u64 rand_ok_def)

lemma block_down_c:
  assumes "wf_config c"
  shows "0 \<le> x \<Longrightarrow> 0 \<le> block_down c x \<and> block_down c x \<le> x"
    "0 \<le> x \<Longrightarrow> block_size c dvd block_down c x"
  using block_down_range[of c x] assms by (simp_all add: wf_config_def)

text \<open>What is known before one of the destination loops starts.\<close>

lemma pick_dest_ok:
  assumes wf: "wf_config c" and rand: "rand_ok rand"
    and rng: "0 \<le> o1" "0 \<le> z1" "o1 + z1 \<le> n" "n \<le> bound" "bound \<le> maxfilelen c"
    and al: "\<forall>x. 0 \<le> x \<longrightarrow> 0 \<le> align x \<and> align x \<le> x"
    and o2: "o2 = dest_of rand align bound r"
  shows "0 \<le> o2" "o2 < 2147483648" "\<not> dest_bad bound o1 z1 o2 \<Longrightarrow> range_fits bound o1 z1 o2"
proof -
  have m: "0 \<le> bound" "bound < 2147483648" using wf rng by (auto simp: wf_config_def)
  show o: "0 \<le> o2" "o2 < 2147483648"
    using dest_of_range[OF rand _ m, of align r] al by (auto simp: o2)
  assume "\<not> dest_bad bound o1 z1 o2"
  then show "range_fits bound o1 z1 o2"
    using o rng m by (subst (asm) dest_bad_fits) auto
qed

text \<open>
  A run that never leaves the search for a destination: for a range of the file that \<open>OP_CLONE_RANGE\<close> or
  \<open>OP_COPY_RANGE\<close> is to copy, none of the numbers that \<open>random\<close> gives from now on leads to a destination
  that ends below the maximal length and does not overlap the source.
\<close>

definition no_destination :: "config \<Rightarrow> (nat \<Rightarrow> int) \<Rightarrow> 'k fsx \<Rightarrow> bool" where
  "no_destination c rand s \<longleftrightarrow>
     (\<exists>off sz align. (align = block_down c \<or> align = (\<lambda>x. x - x mod writebdy c))
        \<and> 0 \<le> off \<and> 0 \<le> sz \<and> sz \<le> maxoplen c \<and> off + sz \<le> file_size s
        \<and> (\<forall>i \<ge> rpos s. \<not> range_fits (maxfilelen c) off sz (align (trim_off (rand i) (maxfilelen c)))))"

lemma no_destinationI:
  assumes "wf_config c" and rand: "rand_ok rand"
    and rng: "0 \<le> o1" "0 \<le> z1" "z1 \<le> maxoplen c" "o1 + z1 \<le> file_size s" "file_size s \<le> maxfilelen c"
    and al: "\<forall>x. 0 \<le> x \<longrightarrow> 0 \<le> align x \<and> align x \<le> x"
    and align: "align = block_down c \<or> align = (\<lambda>x. x - x mod writebdy c)"
    and none: "dest_loop rand align (maxfilelen c) o1 z1 (rpos s) = None"
  shows "no_destination c rand s"
proof -
  have m: "0 \<le> maxfilelen c" "maxfilelen c < 2147483648" using assms(1) by (auto simp: wf_config_def)
  have "\<not> range_fits (maxfilelen c) o1 z1 (align (trim_off (rand i) (maxfilelen c)))" if i: "rpos s \<le> i" for i
  proof -
    let ?d = "dest_of rand align (maxfilelen c) i"
    have "0 \<le> ?d" "?d < 2147483648" using dest_of_range[OF rand _ m, of align i] al by auto
    moreover have "dest_bad (maxfilelen c) o1 z1 ?d" using none i by (simp add: dest_loop_None_iff)
    ultimately have "\<not> range_fits (maxfilelen c) o1 z1 ?d"
      using rng m by (subst (asm) dest_bad_fits) auto
    then show ?thesis by (simp add: dest_of_def rand_u64[OF rand])
  qed
  then show ?thesis using rng align unfolding no_destination_def by blast
qed

lemma pick_args_ok:
  assumes env: "env_ok c psize bsize limit" and inv: "fsx_inv c content live s"
    and rand: "rand_ok rand" and st: "style c = 0"
    and rng: "0 \<le> off" "off < 2147483648" "0 \<le> sz" "sz \<le> maxoplen c"
    and p: "lite c \<longrightarrow> p \<in> {Op_read, Op_write, Op_mapread, Op_mapwrite}"
  shows "case pick_args c rand (fop_code p) off sz s of Inl e \<Rightarrow> e = (Hang, s) \<and> no_destination c rand s
    | Inr (rq, s') \<Rightarrow> req_ok c (file_size s) rq \<and> upto_rpos s s'"
proof -
  note E = env_okD[OF env] and I = fsx_invD[OF inv]
    and unf = pick_args_def[of c rand "fop_code p" off sz s, unfolded Let_def fop_of_code option.case]
  note bd = block_down_c[OF E(1)]
  have bda: "\<forall>x. 0 \<le> x \<longrightarrow> 0 \<le> block_down c x \<and> block_down c x \<le> x" using bd(1) by blast
  have m: "maxoplen c < 2147483648" using E(1) by (simp add: wf_config_def)
  have r: "0 \<le> rand i" for i using rand by (simp add: rand_ok_def)
  obtain o1 z1 where oz: "trim_off_len off sz (file_size s) = (o1, z1)"
    by (cases "trim_off_len off sz (file_size s)")
  have T: "0 \<le> o1" "0 \<le> z1" "o1 + z1 \<le> file_size s" "z1 \<le> sz" "o1 \<le> off"
    using trim_off_len_range[OF oz rng(1,3)] rng(4) I(1,2) E(6) m by auto
  let ?o = "block_down c o1" and ?z = "block_down c z1"
  have b: "0 \<le> ?o" "?o \<le> o1" "0 \<le> ?z" "?z \<le> z1"
    "block_size c dvd ?o" "block_size c dvd ?z"
    using bd[of o1] bd[of z1] T by auto
  have fit: "?o + ?z \<le> file_size s" using b T by linarith
  consider (clone) "p = Op_clone_range" | (dedupe) "p = Op_dedupe_range" | (copy) "p = Op_copy_range"
    | (other) "p \<notin> {Op_clone_range, Op_dedupe_range, Op_copy_range}" by blast
  then show ?thesis
  proof cases
    case clone
    show ?thesis
    proof (cases "dest_loop rand (block_down c) (maxfilelen c) ?o ?z (rpos s)")
      case None
      have "?z \<le> maxoplen c" using b T rng by simp
      from no_destinationI[OF E(1) rand b(1,3) this fit I(2) bda disjI1[OF refl] None]
      show ?thesis unfolding unf using clone oz None by simp
    next
      case (Some y)
      from dest_loop_good[OF Some] obtain i where i: "y = (dest_of rand (block_down c) (maxfilelen c) i, Suc i)"
          "\<not> dest_bad (maxfilelen c) ?o ?z (dest_of rand (block_down c) (maxfilelen c) i)" by auto
      note D = pick_dest_ok[OF E(1) rand b(1,3) fit I(2) order_refl bda refl, of i]
      have d: "block_size c dvd dest_of rand (block_down c) (maxfilelen c) i"
        using E(5,6) by (intro dest_of_dvd[OF bd(2) rand]) auto
      have eq: "pick_args c rand (fop_code p) off sz s = Inr (\<lparr>rq_op = fop_code Op_clone_range,
          rq_off = ?o, rq_size = ?z, rq_off2 = dest_of rand (block_down c) (maxfilelen c) i,
          rq_keep = False\<rparr>, s\<lparr>rpos := Suc i\<rparr>)"
        unfolding unf using clone oz Some i(1) by simp
      have x: "?z \<le> maxoplen c" "?o < 2147483648" "\<not> lite c" using b T rng p clone by auto
      have "req_ok c (file_size s) \<lparr>rq_op = fop_code Op_clone_range, rq_off = ?o, rq_size = ?z,
          rq_off2 = dest_of rand (block_down c) (maxfilelen c) i, rq_keep = False\<rparr>"
        by (rule req_ok_rangeI[OF _ x(3) b(1) x(2) b(3) x(1) fit D(1,2) D(3)[OF i(2)]])
          (use b(5,6) d in blast)+
      then show ?thesis unfolding eq by auto
    qed
  next
    case dedupe
    obtain o2 z2 q where d: "dedupe_dest rand (block_down c) (file_size s) ?o ?z 30 0 (rpos s) = (o2, z2, q)"
      by (metis prod.exhaust)
    from dedupe_dest_range[OF d]
    have dz: "z2 = 0 \<or> z2 = ?z \<and> \<not> dest_bad (file_size s) ?o ?z o2"
      and do2: "o2 = 0 \<or> (\<exists>r. o2 = dest_of rand (block_down c) (file_size s) r)" by auto
    have o2: "0 \<le> o2" "o2 < 2147483648" "block_size c dvd o2"
        "\<not> dest_bad (file_size s) ?o ?z o2 \<longrightarrow> range_fits (file_size s) ?o ?z o2"
    proof (atomize (full), cases "o2 = 0")
      case True
      have "?o < 2147483648" "?z < 2147483648" "file_size s < 2147483648"
        using b T rng(2,4) m I(2) E(6) by linarith+
      moreover have o: "0 \<le> o2" "o2 < 2147483648" "block_size c dvd o2" using True by simp_all
      ultimately show "(0 \<le> o2 \<and> o2 < 2147483648) \<and> block_size c dvd o2 \<and>
          (\<not> dest_bad (file_size s) ?o ?z o2 \<longrightarrow> range_fits (file_size s) ?o ?z o2)"
        using dest_bad_fits[of ?o ?z o2 "file_size s"] b(1,3) I(1) o by blast
    next
      case False
      then obtain i where i: "o2 = dest_of rand (block_down c) (file_size s) i" using do2 by auto
      note D = pick_dest_ok[OF E(1) rand b(1,3) fit order_refl I(2) bda i]
      have "block_size c dvd o2"
        unfolding i using I(1,2) E(6) by (intro dest_of_dvd[OF bd(2) rand]) auto
      then show "(0 \<le> o2 \<and> o2 < 2147483648) \<and> block_size c dvd o2 \<and>
          (\<not> dest_bad (file_size s) ?o ?z o2 \<longrightarrow> range_fits (file_size s) ?o ?z o2)"
        using D by blast
    qed
    have x: "0 \<le> z2" "z2 \<le> maxoplen c" "?o + z2 \<le> file_size s" "block_size c dvd z2"
        "?o < 2147483648" "\<not> lite c"
      using dz b fit T rng m p dedupe E(5) by auto
    have "req_ok c (file_size s) \<lparr>rq_op = fop_code Op_dedupe_range, rq_off = ?o, rq_size = z2,
          rq_off2 = o2, rq_keep = False\<rparr>"
      by (rule req_ok_dedupeI[OF x(6) b(1) x(5) x(1,2,3) o2(1,2) _ b(5) x(4) o2(3)])
        (use dz o2(4) in blast)
    then show ?thesis unfolding unf using dedupe oz d by auto
  next
    case copy
    let ?o = "o1 - o1 mod readbdy c" and ?z = "if o_direct c then z1 - z1 mod readbdy c else z1"
    let ?al = "\<lambda>x. x - x mod writebdy c"
    have b: "0 \<le> ?o" "?o \<le> o1" "0 \<le> ?z" "?z \<le> z1"
      using round_down_sub[OF E(7) T(1)] round_down_sub[OF E(7) T(2)] T(2) by auto
    have fit: "?o + ?z \<le> file_size s" using b T by linarith
    have al: "\<forall>x. 0 \<le> x \<longrightarrow> 0 \<le> ?al x \<and> ?al x \<le> x"
      using round_down_sub[OF E(8)] by blast
    show ?thesis
    proof (cases "dest_loop rand ?al (maxfilelen c) ?o ?z (rpos s)")
      case None
      have "?z \<le> maxoplen c" using b T rng by simp
      from no_destinationI[OF E(1) rand b(1,3) this fit I(2) al disjI2[OF refl] None]
      show ?thesis unfolding unf using copy oz None by simp
    next
      case (Some y)
      from dest_loop_good[OF Some] obtain i where i: "y = (dest_of rand ?al (maxfilelen c) i, Suc i)"
          "\<not> dest_bad (maxfilelen c) ?o ?z (dest_of rand ?al (maxfilelen c) i)" by auto
      note D = pick_dest_ok[OF E(1) rand b(1,3) fit I(2) order_refl al refl, of i]
      have eq: "pick_args c rand (fop_code p) off sz s = Inr (\<lparr>rq_op = fop_code Op_copy_range,
          rq_off = ?o, rq_size = ?z, rq_off2 = dest_of rand ?al (maxfilelen c) i, rq_keep = False\<rparr>,
          s\<lparr>rpos := Suc i\<rparr>)"
        unfolding unf using copy oz Some i(1) by simp
      have x: "?z \<le> maxoplen c" "?o < 2147483648" "\<not> lite c" using b T rng p copy by auto
      have "req_ok c (file_size s) \<lparr>rq_op = fop_code Op_copy_range, rq_off = ?o, rq_size = ?z,
          rq_off2 = dest_of rand ?al (maxfilelen c) i, rq_keep = False\<rparr>"
        by (rule req_ok_rangeI[OF _ x(3) b(1) x(2) b(3) x(1) fit D(1,2) D(3)[OF i(2)]]) simp_all
      then show ?thesis unfolding eq by auto
    qed
  next
    case other
    have def: "req_ok c (file_size s) \<lparr>rq_op = fop_code p, rq_off = off, rq_size = sz', rq_off2 = 0, rq_keep = k\<rparr>"
      if "if p = Op_truncate then sz' < maxfilelen c else sz' \<le> maxoplen c" "0 \<le> sz'" for sz' k
      unfolding req_ok_def req_for_def op_req.simps
      by (intro conjI exI[of _ p]) (use that rng p other in auto)
    have tr: "rand i mod maxfilelen c < maxfilelen c" "0 \<le> rand i mod maxfilelen c" for i
      using E(5) by simp_all
    have rc: "random_call rand s = (rand (rpos s), s\<lparr>rpos := Suc (rpos s)\<rparr>)"
      by (simp add: random_call_def rand_u64[OF rand])
    show ?thesis
      unfolding unf rc st
      using def[of sz] def[of "rand (rpos s) mod maxfilelen c"] rng(3,4) tr other
      by (cases p) simp_all
  qed
qed

text \<open>Fields no check looks at can change without leaving the invariant.\<close>

lemma fsx_inv_rpos: "fsx_inv c content live (s\<lparr>rpos := q\<rparr>) = fsx_inv c content live s"
  by (simp add: fsx_inv_def sync_due_def simulated_def shadow_content_def)

lemma fsx_inv_closeopen: "fsx_inv c content live (s\<lparr>closeopen := b\<rparr>) = fsx_inv c content live s"
  by (simp add: fsx_inv_def sync_due_def simulated_def shadow_content_def)

lemma upto_rposD:
  assumes "upto_rpos s s'"
  shows "fsx_inv c content live s' = fsx_inv c content live s" "file_size s' = file_size s"
    "testcalls s' = testcalls s" "replayopsf s' = replayopsf s"
proof -
  obtain q where q: "s' = s\<lparr>rpos := q\<rparr>" using assms by (auto simp: upto_rpos_def)
  show "fsx_inv c content live s' = fsx_inv c content live s" unfolding q by (rule fsx_inv_rpos)
  show "file_size s' = file_size s" "testcalls s' = testcalls s" "replayopsf s' = replayopsf s"
    by (simp_all add: q)
qed

text \<open>The choice of the operation number: every residue is an operation.\<close>

lemma picked_code:
  assumes "0 \<le> r"
  shows "\<exists>p. (if lite c then r mod OP_MAX_LITE else if \<not> integrity c then r mod OP_MAX_FULL
      else r mod OP_MAX_INTEGRITY) = fop_code p
    \<and> (lite c \<longrightarrow> p \<in> {Op_read, Op_write, Op_mapread, Op_mapwrite})"
proof -
  let ?o = "if lite c then r mod OP_MAX_LITE else if \<not> integrity c then r mod OP_MAX_FULL
      else r mod OP_MAX_INTEGRITY"
  have rng: "0 \<le> ?o" "?o < 14" by (auto intro: order.strict_trans2[OF pos_mod_bound])
  then have o: "?o = fop_code (fops ! nat ?o)"
  proof -
    have "length fops = 14" by (simp add: fops_def)
    then have "fop_of ?o = Some (fops ! nat ?o)" using rng by (simp only: fop_of_def) simp
    then show ?thesis by (rule fop_of_Some)
  qed
  moreover have "fops ! nat ?o \<in> {Op_read, Op_write, Op_mapread, Op_mapwrite}" if "lite c"
  proof -
    have "nat ?o < 4" using that by simp
    then have "nat ?o \<in> {0, 1, 2, 3}" by auto
    then show ?thesis by (elim insertE) (simp_all only: fops_def nth_Cons_0 nth_Cons_numeral nth_Cons', simp_all)
  qed
  ultimately show ?thesis by blast
qed

lemma pick_op_ok:
  assumes env: "env_ok c psize bsize limit" and inv: "fsx_inv c content live s"
    and rand: "rand_ok rand" and st: "style c = 0" and mo: "maxoplen c < 2147483647"
  shows "case pick_op c rand s of Inl (h, s') \<Rightarrow> h = Hang \<and> no_destination c rand s' \<and> fsx_inv c content live s'
    | Inr (rq, s') \<Rightarrow> req_ok c (file_size s) rq \<and> fsx_inv c content live s'
        \<and> file_size s' = file_size s \<and> testcalls s' = testcalls s \<and> replayopsf s' = replayopsf s"
proof -
  let ?rv = "rand (rpos s)"
  define s1 where "s1 = s\<lparr>rpos := Suc (rpos s)\<rparr>"
  define s2 where "s2 = (if closeprob c \<noteq> 0
    then s1\<lparr>closeopen := ?rv div 8 < u64 (c_div 268435456 (closeprob c))\<rparr> else s1)"
  define off where "off = rand (rpos s2)"
  define s3 where "s3 = s2\<lparr>rpos := Suc (rpos s2)\<rparr>"
  define z where "z = (if randomoplen c
    then (case random_call rand s3 of (r, s4) \<Rightarrow> (u64 (c_rem r (s32 (maxoplen c + 1))), s4))
    else (u64 (maxoplen c), s3))"
  obtain sz s4 where z4: "z = (sz, s4)" by (cases z)
  have r: "0 \<le> rand i" "rand i < 2147483648" for i using rand by (simp_all add: rand_ok_def)
  have m: "0 < maxoplen c" using env by (simp add: env_ok_def wf_config_def)
  have s32: "s32 (maxoplen c + 1) = maxoplen c + 1" using m mo by (intro s32_id) auto
  have md: "0 \<le> rand i mod (maxoplen c + 1)" "rand i mod (maxoplen c + 1) < maxoplen c + 1" for i
    using m pos_mod_bound[of "maxoplen c + 1"] pos_mod_sign[of "maxoplen c + 1"] by auto
  have sz: "0 \<le> sz" "sz \<le> maxoplen c"
    using z4 m mo s32 md[of "rpos s3"] r[of "rpos s3"]
    by (auto simp: z_def random_call_def rand_u64[OF rand] c_rem_nonneg u64_id split: if_splits)
  have inv4: "fsx_inv c content live s4" "file_size s4 = file_size s" "testcalls s4 = testcalls s"
      "replayopsf s4 = replayopsf s"
    using z4 inv
    by (auto simp: z_def random_call_def s3_def s2_def s1_def fsx_inv_rpos fsx_inv_closeopen
        split: if_splits)
  obtain p where p: "(if lite c then ?rv mod OP_MAX_LITE else if \<not> integrity c then ?rv mod OP_MAX_FULL
      else ?rv mod OP_MAX_INTEGRITY) = fop_code p"
      "lite c \<longrightarrow> p \<in> {Op_read, Op_write, Op_mapread, Op_mapwrite}"
    using picked_code[OF r(1)[of "rpos s"]] by blast
  have "pick_op c rand s = pick_args c rand (fop_code p) off sz s4"
    by (simp only: pick_op_def random_call_def rand_u64[OF rand] prod.case Let_def
        s1_def[symmetric] s2_def[symmetric] off_def[symmetric] s3_def[symmetric]
        z_def[unfolded random_call_def rand_u64[OF rand] prod.case, symmetric] z4 p(1))
  moreover have o: "0 \<le> off" "off < 2147483648" using r by (simp_all add: off_def)
  note A = pick_args_ok[OF env inv4(1) rand st o sz p(2)]
  ultimately show ?thesis
  proof (cases "pick_args c rand (fop_code p) off sz s4")
    case (Inl e)
    then show ?thesis
      using A inv4(1) \<open>pick_op c rand s = pick_args c rand (fop_code p) off sz s4\<close> by (cases e) simp
  next
    case (Inr y)
    obtain rq s' where y: "y = (rq, s')" by (cases y)
    from A Inr y have q: "req_ok c (file_size s4) rq" "upto_rpos s4 s'" by auto
    note U = upto_rposD[OF q(2)]
    show ?thesis
      using Inr y q(1) U inv4 \<open>pick_op c rand s = pick_args c rand (fop_code p) off sz s4\<close> by simp
  qed
qed

end
