(* ===== verification/Fsx_No_Alarm.thy ===== *)
theory Fsx_No_Alarm
  imports Fsx_Test_Ok
begin

text \<open>
  No false alarm: on a kernel that keeps the contract \<open>posix_file\<close>, a step of \<open>fsx\<close> with an
  operation of its own choice never reports a failure and never accesses memory it does not
  own; it returns with the invariant, or it is caught in one of the loops that look for a
  destination. The theorem is stated for any such kernel, and an instance is the one in
  \<open>Ram_File\<close>.
\<close>

definition keeps ::
  "config \<Rightarrow> ('k \<Rightarrow> byte list) \<Rightarrow> ('k \<Rightarrow> bool) \<Rightarrow> 'k fsx \<Rightarrow> (halt \<times> 'k fsx) + (bool \<times> 'k fsx) \<Rightarrow> bool" where
  "keeps c content live s r \<longleftrightarrow> ok_run (\<lambda>(b, s'). fsx_inv c content live s' \<and> stable s s') r"

lemma went_on_keeps: "op_spec c content live s cont r \<Longrightarrow> keeps c content live s (went_on r)"
  by (cases r) (auto simp: op_spec_def keeps_def went_on_def)

lemma same_core_skip [simp]: "same_core s (log_skip p off sz off2 s)"
  by (simp add: log_skip_def)

lemma out_keeps: "fsx_inv c content live s \<Longrightarrow> keeps c content live s (Inr (b, log_skip p off sz off2 s))"
  by (simp add: keeps_def same_core_inv[OF same_core_skip] same_coreD(6))

lemma req_ok_for:
  assumes "req_ok c n rq"
  obtains p where "fop_of (remap_op c (rq_op rq)) = Some p" and "req_for c n p rq"
proof -
  obtain p where p: "rq_op rq = fop_code p" "req_for c n p rq"
    using assms unfolding req_ok_def by blast
  consider "p = Op_mapread" "\<not> mapped_reads c" | "p = Op_mapwrite" "\<not> mapped_writes c"
    | "remap_op c (rq_op rq) = fop_code p"
    by (cases p; cases "mapped_reads c"; cases "mapped_writes c")
       (auto simp: remap_op_def p(1) simp del: fop_code.simps)
  then show thesis
  proof cases
    case 1
    then have "remap_op c (rq_op rq) = fop_code Op_read"
      by (simp add: remap_op_def p(1) del: fop_code.simps)
    moreover have "req_for c n Op_read rq" using p(2) 1 by (simp add: req_for_def)
    ultimately show thesis using that by (metis fop_of_code)
  next
    case 2
    then have "remap_op c (rq_op rq) = fop_code Op_write"
      by (simp add: remap_op_def p(1) del: fop_code.simps)
    moreover have "req_for c n Op_write rq" using p(2) 2 by (simp add: req_for_def)
    ultimately show thesis using that by (metis fop_of_code)
  next
    case 3
    then show thesis using that p(2) by (metis fop_of_code)
  qed
qed

lemma req_forD:
  assumes "req_for c n p rq"
  shows "0 \<le> rq_off rq" "rq_off rq < 2147483648" "0 \<le> rq_size rq"
    "p \<noteq> Op_truncate \<Longrightarrow> rq_size rq \<le> maxoplen c"
    "p = Op_truncate \<Longrightarrow> rq_size rq < maxfilelen c"
    "p \<notin> {Op_read, Op_write, Op_mapread, Op_mapwrite} \<Longrightarrow> \<not> lite c"
  using assms unfolding req_for_def by (blast, blast, blast, metis, metis, blast)

context posix_file
begin

text \<open>The operations that are trimmed to the file or to the maximal length.\<close>

lemma dispatch_trimmed_ok:
  assumes env: "env_ok c psize bsize limit" and inv: "fsx_inv c content live s"
    and tc: "0 < testcalls s" and rq: "req_for c (file_size s) p rq"
    and p: "p \<in> {Op_read, Op_write, Op_mapread, Op_mapwrite, Op_truncate, Op_fallocate,
                 Op_punch_hole, Op_zero_range, Op_fsync}"
  shows "keeps c content live s (dispatch c K p rq s)"
proof -
  note I = fsx_invD[OF inv] and E = env_okD[OF env]
  have m: "maxoplen c < 2147483648" using E(1) by (simp add: wf_config_def)
  obtain fo fz where f: "trim_off_len (rq_off rq) (rq_size rq) (file_size s) = (fo, fz)"
    by (metis prod.exhaust)
  obtain mo mz where g: "trim_off_len (rq_off rq) (rq_size rq) (maxfilelen c) = (mo, mz)"
    by (metis prod.exhaust)
  have r: "0 \<le> rq_off rq" "0 \<le> rq_size rq" "p \<noteq> Op_truncate \<longrightarrow> rq_size rq \<le> maxoplen c"
      "p = Op_truncate \<longrightarrow> rq_size rq < maxfilelen c"
      "lite c \<longrightarrow> p \<in> {Op_read, Op_write, Op_mapread, Op_mapwrite}"
    using req_forD[OF rq] by blast+
  then have s: "rq_size rq < 2147483648" using m E(6) by (cases "p = Op_truncate") auto
  have "file_size s < 2147483648" using I(2) E(6) by linarith
  note F = trim_off_len_range[OF f r(1,2) s I(1) this]
  have "0 \<le> maxfilelen c" using E(5) by simp
  note G = trim_off_len_range[OF g r(1,2) s this E(6)]
  have u: "u32 fo = fo" "u32 fz = fz" "u32 mo = mo" "u32 mz = mz" "u32 (rq_size rq) = rq_size rq"
    using F G r s I(2) E(6) by (auto intro!: u32_id)
  note unf = dispatch_def[of c K p rq s, unfolded Let_def f g prod.case]
  note ops = doread_ok[OF env inv F(1,2,3)] domapread_ok[OF env inv F(1,2,3)]
    dowrite_ok[OF env inv tc G(1,2,3) refl refl] domapwrite_ok[OF env inv tc G(1,2,3) refl]
    do_preallocate_ok[OF env inv _ tc G(1,2,3)] do_punch_hole_ok[OF env inv _ F(1,2,3)]
    do_zero_range_ok[OF env inv _ F(1,2,3)] dofsync_ok[OF env inv]
  have z: "p \<noteq> Op_truncate \<Longrightarrow> fz \<le> maxoplen c" using F(4) r(3) by simp
  have n: "p \<notin> {Op_read, Op_write, Op_mapread, Op_mapwrite} \<Longrightarrow> \<not> lite c" using r(5) by blast
  have t: "p = Op_truncate \<Longrightarrow> rq_size rq \<le> maxfilelen c" using r(4) by simp
  note trunc = dotruncate_ok[OF env inv tc r(2) _ _ refl]
  from p show ?thesis
    unfolding unf u
    by (elim insertE emptyE; simp only: fop.case)
      (rule went_on_keeps, rule ops trunc; (rule z n t; simp)?)+
qed

text \<open>The operations on whole blocks, and the copies.\<close>

lemma dispatch_blocks_ok:
  assumes env: "env_ok c psize bsize limit" and inv: "fsx_inv c content live s"
    and rq: "req_for c (file_size s) p rq" and p: "p \<in> {Op_collapse_range, Op_insert_range}"
  shows "keeps c content live s (dispatch c K p rq s)"
proof -
  note I = fsx_invD[OF inv] and E = env_okD[OF env]
  note bd = block_down_c[OF E(1), unfolded E(3)]
  have r: "0 \<le> rq_off rq" "0 \<le> rq_size rq" "rq_size rq \<le> maxoplen c" "rq_off rq < 2147483648"
      "\<not> lite c"
    using req_forD(1-4,6)[OF rq] p by auto
  have s: "rq_size rq < 2147483648" "file_size s < 2147483648" "file_size s - 1 < 2147483648"
  proof -
    have "maxoplen c < 2147483648" using E(1) by (simp add: wf_config_def)
    then show "rq_size rq < 2147483648" "file_size s < 2147483648" "file_size s - 1 < 2147483648"
      using r(3) E(6) I(2) by linarith+
  qed
  show ?thesis
  proof (cases "p = Op_collapse_range")
    case True
    obtain o1 z1 where f: "trim_off_len (rq_off rq) (rq_size rq) (file_size s - 1) = (o1, z1)"
      by (metis prod.exhaust)
    have oz: "0 \<le> o1" "o1 \<le> rq_off rq" "0 \<le> z1" "z1 \<le> rq_size rq"
    proof (atomize (full), cases "file_size s = 0")
      case True
      have "u64 (-1) = 18446744073709551615" by (simp add: u64_def)
      then show "(0 \<le> o1 \<and> o1 \<le> rq_off rq) \<and> 0 \<le> z1 \<and> z1 \<le> rq_size rq"
        using f True r s
        by (auto simp: trim_off_len_def trim_off_def trim_len_def u64_id)
    next
      case False
      then have "0 \<le> file_size s - 1" using I(1) by linarith
      from trim_off_len_range[OF f r(1,2) s(1) this s(3)]
      show "(0 \<le> o1 \<and> o1 \<le> rq_off rq) \<and> 0 \<le> z1 \<and> z1 \<le> rq_size rq" by auto
    qed
    let ?o = "block_down c o1" and ?z = "block_down c z1"
    have b: "0 \<le> ?o" "?o \<le> o1" "0 \<le> ?z" "?z \<le> z1" "bsize dvd ?o" "bsize dvd ?z"
      using bd(1)[OF oz(1)] bd(1)[OF oz(3)] bd(2)[OF oz(1)] bd(2)[OF oz(3)] by auto
    have u: "u32 ?o = ?o" "u32 ?z = ?z" "?o + ?z < 4294967296"
      using b oz r s by (auto intro!: u32_id)
    have "dispatch c K p rq s = (if ?z = 0 then Inr (True, log_skip Op_collapse_range ?o ?z 0 s)
        else went_on (do_collapse_range c K ?o ?z s))"
      using True f u by (auto simp: dispatch_def Let_def split: prod.splits)
    then show ?thesis
      using out_keeps[OF inv] went_on_keeps[OF do_collapse_range_ok[OF env inv r(5) b(1,3) u(3) b(5,6)]]
      by simp
  next
    case False
    let ?o1 = "trim_off (rq_off rq) (file_size s)" and ?z1 = "trim_len (file_size s) (rq_size rq) (maxfilelen c)"
    let ?o = "block_down c ?o1" and ?z = "block_down c ?z1"
    have o: "0 \<le> ?o1" "?o1 \<le> rq_off rq" using trim_off_range[OF r(1) I(1) s(2)] by auto
    have z: "0 \<le> ?z1" "file_size s + ?z1 \<le> maxfilelen c"
      using trim_len_range[OF I(1,2) r(2) s(1) E(6)] by auto
    have b: "0 \<le> ?o" "?o \<le> ?o1" "0 \<le> ?z" "?z \<le> ?z1" "bsize dvd ?o" "bsize dvd ?z"
      using bd(1)[OF o(1)] bd(1)[OF z(1)] bd(2)[OF o(1)] bd(2)[OF z(1)] by auto
    have fit: "file_size s + ?z \<le> maxfilelen c" using b z by linarith
    have u: "u32 ?o = ?o" "u32 ?z = ?z" "u64 (file_size s + ?z) = file_size s + ?z"
      using b o z r s fit E(6) I(1) by (auto intro!: u32_id u64_id)
    have nb: "\<not> maxfilelen c < u64 (file_size s + ?z)" using u(3) fit by simp
    have "p = Op_insert_range" using p False by simp
    then have "dispatch c K p rq s = (if ?z = 0 then Inr (True, log_skip Op_insert_range ?o ?z 0 s)
        else went_on (do_insert_range c K ?o ?z s))"
      using u(1,2) nb by (auto simp: dispatch_def Let_def split: prod.splits)
    then show ?thesis
      using out_keeps[OF inv] went_on_keeps[OF do_insert_range_ok[OF env inv r(5) b(1,3) fit b(5,6)]]
      by simp
  qed
qed

lemma dispatch_copies_ok:
  assumes env: "env_ok c psize bsize limit" and inv: "fsx_inv c content live s"
    and rq: "req_for c (file_size s) p rq"
    and p: "p \<in> {Op_clone_range, Op_dedupe_range, Op_copy_range}"
  shows "keeps c content live s (dispatch c K p rq s)"
proof -
  note I = fsx_invD[OF inv] and E = env_okD[OF env]
  let ?o = "rq_off rq" and ?z = "rq_size rq" and ?d = "rq_off2 rq"
  have r: "0 \<le> ?o" "0 \<le> ?z" "?o + ?z \<le> file_size s" "0 \<le> ?d" "?d < 2147483648" "\<not> lite c"
      "?o < 2147483648"
    using rq p unfolding req_for_def by (blast, blast, blast, blast, blast, auto)
  show ?thesis
  proof (cases "?z = 0")
    case True
    then show ?thesis using p out_keeps[OF inv] by (auto simp: dispatch_def Let_def split: prod.splits)
  next
    case False
    let ?b = "if p = Op_dedupe_range then file_size s else maxfilelen c"
    have fit: "range_fits ?b ?o ?z ?d" using rq p False unfolding req_for_def by blast
    then have d: "?d + ?z \<le> ?b" "?o + ?z \<le> ?d \<or> ?d + ?z \<le> ?o" by (auto simp: range_fits_def)
    have dm: "?d + ?z \<le> maxfilelen c" using d(1) I(2) by (auto split: if_splits)
    have al: "p \<noteq> Op_copy_range \<longrightarrow> bsize dvd ?o \<and> bsize dvd ?z \<and> bsize dvd ?d"
      using rq p False E(3) unfolding req_for_def by blast
    have u: "u32 ?o = ?o" "u32 ?z = ?z" "u32 ?d = ?d" "u64 (?d + ?z) = ?d + ?z"
      using r dm E(6) by (auto intro!: u32_id u64_id)
    have run: "dispatch c K p rq s = went_on
        (if p = Op_clone_range then do_clone_range c K ?o ?z ?d s
         else if p = Op_dedupe_range then do_dedupe_range c K ?o ?z ?d s
         else do_copy_range c K ?o ?z ?d s)"
      using p False u dm by (auto simp: dispatch_def Let_def split: prod.splits)
    consider "p = Op_clone_range" | "p = Op_dedupe_range" | "p = Op_copy_range" using p by blast
    then show ?thesis
    proof cases
      case 1
      then show ?thesis
        unfolding run using do_clone_range_ok[OF env inv r(6,1,2,4,3) dm _ _ _ d(2)] al
        by (auto intro: went_on_keeps)
    next
      case 2
      then show ?thesis
        unfolding run using do_dedupe_range_ok[OF env inv r(1,2,4,3)] d(1) al
        by (auto intro: went_on_keeps)
    next
      case 3
      then show ?thesis
        unfolding run using do_copy_range_ok[OF env inv r(6,1,2,4,3) dm d(2)]
        by (auto intro: went_on_keeps)
    qed
  qed
qed

lemma perform_ok:
  assumes env: "env_ok c psize bsize limit" and inv: "fsx_inv c content live s"
    and tc: "0 < testcalls s" and rq: "req_ok c (file_size s) rq"
  shows "keeps c content live s (perform c K rq s)"
proof -
  obtain p where p: "fop_of (remap_op c (rq_op rq)) = Some p" "req_for c (file_size s) p rq"
    using req_ok_for[OF rq] by blast
  have "keeps c content live s (dispatch c K p rq s)"
    using dispatch_trimmed_ok[OF env inv tc p(2)] dispatch_blocks_ok[OF env inv p(2)]
      dispatch_copies_ok[OF env inv p(2)] by (cases p) auto
  then show ?thesis using p(1) out_keeps[OF inv] by (simp add: perform_def)
qed

lemma finish_step_ok:
  assumes env: "env_ok c psize bsize limit" and inv: "fsx_inv c content live s"
  shows "ok_run (\<lambda>s'. fsx_inv c content live s' \<and> stable s s') (finish_step c K out s)"
  unfolding finish_step_def
proof (rule ok_run_bind[where Q = "\<lambda>s'. fsx_inv c content live s' \<and> stable s s'"])
  show "ok_run (\<lambda>s'. fsx_inv c content live s' \<and> stable s s')
      (if \<not> out \<and> check_file c \<and> \<not> simulated c s then check_contents c K s else Inr s)"
    using check_contents_ok[OF env inv] inv by (auto simp: op_spec_def elim: ok_run_mono)
next
  fix s1 assume s1: "fsx_inv c content live s1 \<and> stable s s1"
  show "ok_run (\<lambda>s'. fsx_inv c content live s' \<and> stable s s')
      (on_ok (if sizechecks c \<and> \<not> simulated c s1 then check_size c K s1 else Inr s1)
        (\<lambda>s2. if closeopen s2 then docloseopen c K s2 else Inr s2))"
  proof (rule ok_run_bind[where Q = "\<lambda>s'. fsx_inv c content live s' \<and> stable s s'"])
    show "ok_run (\<lambda>s'. fsx_inv c content live s' \<and> stable s s')
        (if sizechecks c \<and> \<not> simulated c s1 then check_size c K s1 else Inr s1)"
      using check_size_ok[of c s1] s1 by (auto simp: op_spec_def elim!: ok_run_mono intro: stable_trans)
  next
    fix s2 assume s2: "fsx_inv c content live s2 \<and> stable s s2"
    then show "ok_run (\<lambda>s'. fsx_inv c content live s' \<and> stable s s')
        (if closeopen s2 then docloseopen c K s2 else Inr s2)"
      using docloseopen_ok[of c s2] by (auto simp: op_spec_def elim!: ok_run_mono intro: stable_trans)
  qed
qed

text \<open>
  The start of a step: when the simulated operations are over, the file is written out, so the
  invariant is due from then on.
\<close>

lemma begin_step_ok:
  assumes env: "env_ok c psize bsize limit" and inv: "fsx_inv c content live s"
    and tc: "0 \<le> testcalls s" "testcalls s + 1 < 18446744073709551616"
  shows "ok_run (\<lambda>s'. fsx_inv c content live s' \<and> testcalls s' = testcalls s + 1
    \<and> replayopsf s' = replayopsf s \<and> file_size s' = file_size s) (begin_step c K s)"
proof -
  have u: "u64 (testcalls s + 1) = testcalls s + 1" using tc by (intro u64_id) auto
  obtain k where k: "writefileimage c K s = Inr (s\<lparr>kern := k\<rparr>)" "live k" "content k = shadow_content s"
    using writefileimage_ok[OF env inv] by blast
  define s1 where "s1 = (if 0 < simulatedopcount c \<and> testcalls s = simulatedopcount c
    then s\<lparr>kern := k\<rparr> else s)"
  have fs: "int (length (shadow_content s)) = file_size s"
    by (rule length_shadow_content[OF fsx_inv_shadow_ok[OF inv]])
  have sc: "0 \<le> simulatedopcount c" using env by (simp add: env_ok_def wf_config_def)
  have nxt: "fsx_inv c content live (s1\<lparr>testcalls := testcalls s + 1\<rparr>)"
    using inv k(2,3) fs sc
    by (auto simp: fsx_inv_def sync_due_def simulated_def s1_def shadow_content_def)
  have dbg: "fsx_inv c content live (t\<lparr>debug := True\<rparr>) = fsx_inv c content live t" for t
    by (simp add: fsx_inv_def sync_due_def simulated_def shadow_content_def)
  have run: "(if 0 < simulatedopcount c \<and> testcalls s = simulatedopcount c
      then writefileimage c K s else Inr s) = Inr s1"
    using k(1) by (simp add: s1_def)
  have f: "testcalls s1 = testcalls s" "replayopsf s1 = replayopsf s" "file_size s1 = file_size s"
    by (simp_all add: s1_def)
  show ?thesis
    unfolding begin_step_def run using nxt u f dbg by (simp add: Let_def)
qed

theorem test_ok:
  assumes env: "env_ok c psize bsize limit" and inv: "fsx_inv c content live s"
    and rand: "rand_ok rand" and st: "style c = 0" and mo: "maxoplen c < 2147483647"
    and tc: "0 \<le> testcalls s" "testcalls s + 1 < 18446744073709551616"
    and nr: "replayopsf s = None"
  shows "case test c K rand s of Inl (h, s') \<Rightarrow> h = Hang \<and> no_destination c rand s' \<and> fsx_inv c content live s'
    | Inr (go, s') \<Rightarrow> go \<and> fsx_inv c content live s' \<and> testcalls s' = testcalls s + 1
        \<and> replayopsf s' = None"
proof -
  obtain s1 where s1: "begin_step c K s = Inr s1" "fsx_inv c content live s1"
      "testcalls s1 = testcalls s + 1" "replayopsf s1 = None"
    using ok_runD[OF begin_step_ok[OF env inv tc]] nr by auto
  note P = pick_op_ok[OF env s1(2) rand st mo]
  show ?thesis
  proof (cases "pick_op c rand s1")
    case (Inl e)
    then show ?thesis using P s1(1,4) by (cases e) (simp add: test_def)
  next
    case (Inr y)
    obtain rq s2 where y: "y = (rq, s2)" by (cases y)
    have s2: "req_ok c (file_size s2) rq" "fsx_inv c content live s2" "testcalls s2 = testcalls s + 1"
        "replayopsf s2 = None"
      using P Inr y s1(3,4) by simp_all
    have "0 < testcalls s2" using s2(3) tc by simp
    from perform_ok[OF env s2(2) this s2(1)]
    obtain out s3 where s3: "perform c K rq s2 = Inr (out, s3)" "fsx_inv c content live s3" "stable s2 s3"
      by (auto simp: keeps_def dest: ok_runD)
    obtain s4 where s4: "finish_step c K out s3 = Inr s4" "fsx_inv c content live s4" "stable s3 s4"
      using ok_runD[OF finish_step_ok[OF env s3(2)]] by blast
    then show ?thesis
      using Inr y s1(1,4) s2(3,4) s3 by (simp add: test_def stable_def)
  qed
qed

end

end
