(* ===== verification/Ram_File.thy ===== *)
theory Ram_File
  imports Kernel_File
begin

text \<open>
  A kernel file kept in memory: the bytes and the file position. It implements every system
  call of the interface, so it discharges the contract \<open>posix_file\<close> and is the concrete
  function the witnesses put in the place of the kernel. Nothing in the repository is
  modelled here.
\<close>

type_synonym ram = "byte list \<times> int"

definition ram_fallocate :: "int \<Rightarrow> int \<Rightarrow> int \<Rightarrow> ram \<Rightarrow> int \<times> ram" where
  "ram_fallocate mode off n = (\<lambda>(c, p).
     if mode = 0 then (0, (ff_truncate (max (nat (off + n)) (length c)) c, p))
     else if mode = FALLOC_FL_KEEP_SIZE then (0, (c, p))
     else if mode = FALLOC_FL_PUNCH_HOLE + FALLOC_FL_KEEP_SIZE then (0, (ff_punch (nat off) (nat n) c, p))
     else if mode = FALLOC_FL_ZERO_RANGE then (0, (ff_zero (nat off) (nat n) c, p))
     else if mode = FALLOC_FL_COLLAPSE_RANGE then (0, (ff_collapse (nat off) (nat n) c, p))
     else if mode = FALLOC_FL_INSERT_RANGE then (0, (ff_insert (nat off) (nat n) c, p))
     else (-1, (c, p)))"

definition ram_kernel :: "int \<Rightarrow> ram kernel" where
  "ram_kernel psize = \<lparr>
     k_seek = (\<lambda>off (c, p). if 0 \<le> off then (off, (c, off)) else (-1, (c, p))),
     k_seek_end = (\<lambda>(c, p). (int (length c), (c, int (length c)))),
     k_read = (\<lambda>n (c, p). let bs = ff_read (nat p) (nat n) c
                in (int (length bs), bs, (c, p + int (length bs)))),
     k_write = (\<lambda>bs (c, p). (int (length bs), (ff_pwrite (nat p) bs c, p + int (length bs)))),
     k_aio_read = (\<lambda>n off (c, p). let bs = ff_read (nat off) (nat n) c
                in (1, 1, int (length bs), bs, (c, p))),
     k_aio_write = (\<lambda>bs off (c, p). (1, 1, int (length bs), (ff_pwrite (nat off) bs c, p))),
     k_fstat = (\<lambda>(c, p). (0, int (length c), (c, p))),
     k_ftruncate = (\<lambda>n (c, p). if 0 \<le> n then (0, (ff_truncate (nat n) c, p)) else (-1, (c, p))),
     k_fallocate = ram_fallocate,
     k_fsync = (\<lambda>k. (0, k)),
     k_mmap = (\<lambda>n off k. (psize, k)),
     k_pload = (\<lambda>off (c, p).
        if 0 \<le> off \<and> off < round_down (int (length c) + psize - 1) psize
        then Some (if off < int (length c) then c ! nat off else 0) else None),
     k_pstore = (\<lambda>off bs (c, p).
        if 0 \<le> off \<and> off + int (length bs) \<le> int (length c)
        then Some (ff_pwrite (nat off) bs c, p) else None),
     k_msync = (\<lambda>k. (0, k)),
     k_munmap = (\<lambda>k. (0, k)),
     k_close = (\<lambda>k. (0, k)),
     k_open = (\<lambda>(c, p). (3, (c, 0))),
     k_clone = (\<lambda>src n dst (c, p). (0, (ff_clone (nat src) (nat n) (nat dst) c, p))),
     k_dedupe = (\<lambda>src n dst k. (0, 0, k)),
     k_copy = (\<lambda>src dst n (c, p). (n, False, (ff_clone (nat src) (nat n) (nat dst) c, p))),
     k_mark = (\<lambda>i k. (0, k)),
     k_creat = (\<lambda>i. (4, ([], 0))) \<rparr>"

lemma ram_posix:
  assumes "pow2 ps" and "pow2 bs" and "ps < 4294967296"
  shows "posix_file (ram_kernel ps) fst snd (\<lambda>k. 0 \<le> snd k) ps bs lim"
  using assms pow2_pos[OF assms(1)]
  by unfold_locales
     (auto simp: ram_kernel_def ram_fallocate_def ff_simps Let_def split: prod.splits)

interpretation ram_file: posix_file "ram_kernel 4096" fst snd "\<lambda>k. 0 \<le> snd k" 4096 4096
    9223372036854775807
proof (rule ram_posix)
  show "pow2 4096"
    unfolding pow2_def by (rule exI[of _ 12]) simp
  then show "pow2 4096" .
  show "(4096::int) < 4294967296" by simp
qed

end
