(* ===== verification/Fsx_Claims.thy ===== *)
theory Fsx_Claims
  imports Fsx_No_Alarm Ram_File
begin

text \<open>
  The properties of \<open>fsx\<close> as a whole, outside the contract's locale: the contract
  \<open>posix_file\<close> is a hypothesis, and the witnesses put the kernel of \<open>Ram_File\<close> in its place.
  Also what holds on any kernel: a wrong read, a wrong size and a dirty page end are reported.
\<close>

section \<open>A small run\<close>

definition sample_config :: config where
  "sample_config = default_config\<lparr>maxfilelen := 64, maxoplen := 16, block_size := 16,
     page_size := 16, check_file := True\<rparr>"

definition sample_state :: "byte list \<Rightarrow> ram fsx" where
  "sample_state f = \<lparr>good_buf = f @ replicate (64 - length f) 0, file_size = int (length f),
     oplog = (\<lambda>_. zero_entry), logptr = 0, logcount = 0, closeopen = False, badoff = -1,
     original_buf = replicate 64 7, temp_buf = replicate 16 0, check_buf = [], biggest = 0,
     testcalls = 0, debug = False, mark_nr = 0, rpos = 0, replayopsf = None, kern = (f, 0),
     goodfile = ([], 0), opsfile = None, marks = []\<rparr>"

lemma pow2_16: "pow2 16"
  unfolding pow2_def by (rule exI[of _ 4]) simp

lemma sample_env: "env_ok sample_config 16 16 1000000"
  by (simp add: env_ok_def wf_config_def sample_config_def default_config_def pow2_16)

lemma sample_posix: "posix_file (ram_kernel 16) fst snd (\<lambda>k. 0 \<le> snd k) 16 16 1000000"
  by (rule ram_posix) (simp_all add: pow2_16)

lemma sample_inv:
  assumes "length f \<le> 64"
  shows "fsx_inv sample_config fst (\<lambda>k. 0 \<le> snd k) (sample_state f)"
  using assms
  by (simp add: fsx_inv_def sample_state_def sample_config_def default_config_def sync_due_def
      simulated_def shadow_content_def)

section \<open>No false alarm\<close>

context posix_file
begin

lemma test_loop_ok:
  assumes env: "env_ok c psize bsize limit" and inv: "fsx_inv c content live s"
    and rand: "rand_ok rand" and st: "style c = 0" and mo: "maxoplen c < 2147483647"
    and tc: "0 \<le> testcalls s" "testcalls s + int n < 18446744073709551616"
    and nr: "replayopsf s = None"
  shows "case test_loop c K rand (int n) s of None \<Rightarrow> False
    | Some (Inl (h, s')) \<Rightarrow> h = Hang \<and> no_destination c rand s' \<and> fsx_inv c content live s'
    | Some (Inr s') \<Rightarrow> fsx_inv c content live s' \<and> testcalls s' = testcalls s + int n"
  using inv tc nr
proof (induction n arbitrary: s)
  case 0
  then show ?case by (simp add: test_loop.simps)
next
  case (Suc n)
  have u: "testcalls s + 1 < 18446744073709551616" using Suc.prems(3) by simp
  note T = test_ok[OF env Suc.prems(1) rand st mo Suc.prems(2) u Suc.prems(4)]
  have ne: "int (Suc n) \<noteq> 0" "int (Suc n) \<noteq> -1" "int (Suc n) - 1 = int n" by simp_all
  show ?case
  proof (cases "test c K rand s")
    case (Inl e)
    then show ?thesis
      using T by (cases e) (subst test_loop.simps, simp)
  next
    case (Inr y)
    obtain go s1 where y: "y = (go, s1)" by (cases y)
    have s1: "go" "fsx_inv c content live s1" "testcalls s1 = testcalls s + 1" "replayopsf s1 = None"
      using T Inr y by simp_all
    have step: "test_loop c K rand (int (Suc n)) s = test_loop c K rand (int n) s1"
      using Inr y s1(1) by (subst test_loop.simps) (simp add: ne del: of_nat_Suc)
    have "case test_loop c K rand (int n) s1 of None \<Rightarrow> False
      | Some (Inl (h, s')) \<Rightarrow> h = Hang \<and> no_destination c rand s' \<and> fsx_inv c content live s'
      | Some (Inr s') \<Rightarrow> fsx_inv c content live s' \<and> testcalls s' = testcalls s1 + int n"
      using Suc.prems(2,3) s1 by (intro Suc.IH) simp_all
    moreover have "testcalls s + 1 + int n = testcalls s + int (Suc n)" by simp
    ultimately show ?thesis unfolding step s1(3) by metis
  qed
qed

end

text \<open>
  C1 (safety). A run of any number of steps of \<open>fsx\<close> with operations chosen at random (none replayed from a
  file, \<open>style\<close> being 0 whatever \<open>-s\<close> says, and operations of less than 2147483647 bytes), on any kernel file
  that keeps the documented behaviour of the calls, ends neither with a report of a failure (\<open>exit\<close>) nor with
  an access outside a buffer: it makes all its steps and the file is what \<open>good_buf\<close> says, or it comes to
  a clone or a copy for which no number that \<open>random\<close> gives from then on leads to a destination, and searches for
  one for ever; the file is then also what \<open>good_buf\<close> says.
\<close>

theorem no_false_alarm:
  assumes "posix_file K content pos live psize bsize limit" and "env_ok c psize bsize limit"
    and "fsx_inv c content live s" and "rand_ok rand" and "style c = 0"
    and "maxoplen c < 2147483647" and "0 \<le> testcalls s"
    and "testcalls s + int n < 18446744073709551616" and "replayopsf s = None"
  shows "case test_loop c K rand (int n) s of None \<Rightarrow> False
    | Some (Inl (h, s')) \<Rightarrow> h = Hang \<and> no_destination c rand s' \<and> fsx_inv c content live s'
    | Some (Inr s') \<Rightarrow> fsx_inv c content live s' \<and> testcalls s' = testcalls s + int n"
  using assms by (rule posix_file.test_loop_ok)

theorem no_false_alarm_witness:
  "case test_loop sample_config (ram_kernel 16) (\<lambda>i. 8 * int i mod 100) (int 5) (sample_state [1, 2, 3]) of
     None \<Rightarrow> False
   | Some (Inl (h, s')) \<Rightarrow> h = Hang \<and> no_destination sample_config (\<lambda>i. 8 * int i mod 100) s'
       \<and> fsx_inv sample_config fst (\<lambda>k. 0 \<le> snd k) s'
   | Some (Inr s') \<Rightarrow> fsx_inv sample_config fst (\<lambda>k. 0 \<le> snd k) s'
       \<and> testcalls s' = testcalls (sample_state [1, 2, 3]) + int 5"
proof (rule no_false_alarm[OF sample_posix sample_env])
  show "fsx_inv sample_config fst (\<lambda>k. 0 \<le> snd k) (sample_state [1, 2, 3])"
    by (rule sample_inv) simp
  show "rand_ok (\<lambda>i. 8 * int i mod 100)"
    by (auto simp: rand_ok_def intro: order.strict_trans[OF pos_mod_bound])
qed (simp_all add: sample_config_def default_config_def sample_state_def)

section \<open>Detection\<close>

text \<open>The last offset at which two buffers differ, which \<open>check_buffers\<close> leaves in \<open>badoff\<close>.\<close>

lemma scan_bad_eq:
  assumes "length gs = length ts" and "0 \<le> off" and "off + int (length gs) < 2147483648"
  shows "gs = ts \<and> scan_bad off gs ts bad = bad \<or>
    (\<exists>i < length gs. scan_bad off gs ts bad = off + int i \<and> gs ! i \<noteq> ts ! i
       \<and> drop (Suc i) gs = drop (Suc i) ts)"
  using assms
proof (induction gs ts arbitrary: off bad rule: list_induct2)
  case (Cons g gs t ts)
  have u: "u32 (off + 1) = off + 1" "s32 off = off"
    using Cons.prems by (auto intro!: u32_id s32_id)
  let ?b = "if g \<noteq> t then off else bad"
  have "gs = ts \<and> scan_bad (off + 1) gs ts ?b = ?b \<or>
    (\<exists>i < length gs. scan_bad (off + 1) gs ts ?b = off + 1 + int i \<and> gs ! i \<noteq> ts ! i
       \<and> drop (Suc i) gs = drop (Suc i) ts)"
    using Cons.prems by (intro Cons.IH) auto
  then show ?case
  proof (elim disjE exE conjE)
    assume "gs = ts" "scan_bad (off + 1) gs ts ?b = ?b"
    then show ?thesis using u by (cases "g = t") (auto intro: exI[of _ 0])
  next
    fix i assume "i < length gs" "scan_bad (off + 1) gs ts ?b = off + 1 + int i" "gs ! i \<noteq> ts ! i"
      "drop (Suc i) gs = drop (Suc i) ts"
    then show ?thesis using u by (cases "g = t") (auto intro!: exI[of _ "Suc i"])
  qed
qed simp

lemma logdump_same:
  "good_buf (logdump s) = good_buf s" "file_size (logdump s) = file_size s"
  "badoff (logdump s) = badoff s" "goodfile (logdump s) = goodfile s" "kern (logdump s) = kern s"
  by (simp_all add: logdump_def)

lemma save_buffer_full:
  assumes "\<not> lite c" and "0 \<le> len" and "len \<le> int (length buf)" and "len < 9223372036854775808"
  shows "\<exists>f'. save_buffer c K buf len f = Inr f'"
  using assms by (auto simp: save_buffer_def mem_load_Some split: prod.splits)

lemma report_failure_exits:
  assumes "\<not> lite c" and "shadow_ok s"
  shows "\<exists>s'. report_failure c K status s = Inl (Exit status, s') \<and> badoff s' = badoff s
    \<and> good_buf s' = good_buf s \<and> file_size s' = file_size s \<and> kern s' = kern s"
proof -
  have "file_size s < 9223372036854775808" using assms(2) by (auto simp: shadow_ok_def)
  then show ?thesis
    using save_buffer_full[OF assms(1), of "file_size s" "good_buf s" K "goodfile s"] assms(2)
    by (auto simp: report_failure_def Let_def logdump_same shadow_ok_def)
qed

text \<open>
  C6 (error). Whatever the kernel does, a \<open>read\<close> outside the simulated part of a run that
  returns the count it was asked for and other bytes than \<open>good_buf\<close> holds ends the run with
  status 110, and \<open>badoff\<close> is then the last offset of the range at which the two differ.
\<close>

theorem bad_read_reported:
  assumes "\<not> lite c" and "shadow_ok s" and "\<not> simulated c s" and "file_size s < 2147483648"
    and "0 \<le> off" and "0 < sz" and "off + sz \<le> file_size s" and "off mod readbdy c = 0"
    and "\<not> o_direct c" and "sz \<le> int (length (temp_buf s))"
    and "k_seek K off (kern s) = (pos, ka)" and "pos \<noteq> -1"
    and "fsxread c K sz off ka = (sz, bs, kb)" and "int (length bs) = sz"
    and "bs \<noteq> take (nat sz) (drop (nat off) (good_buf s))"
  shows "\<exists>s' i. doread c K off sz s = Inl (Exit 110, s') \<and> i < nat sz \<and> badoff s' = off + int i
    \<and> good_buf s ! nat (off + int i) \<noteq> bs ! i
    \<and> drop (Suc i) bs = drop (Suc i) (take (nat sz) (drop (nat off) (good_buf s)))"
proof -
  let ?good = "take (nat sz) (drop (nat off) (good_buf s))"
  have ok: "file_size s \<le> int (length (good_buf s))" using assms(2) by (simp add: shadow_ok_def)
  have u: "u32 (sz + off) = sz + off" "u32 sz = sz" using assms(4-7) by (auto intro!: u32_id)
  define t where "t = log4 (fop_code Op_read) off sz FL_NONE s"
  define v where "v = t\<lparr>kern := kb, temp_buf := bs @ drop (length bs) (temp_buf s)\<rparr>"
  have st: "mem_store (temp_buf s) 0 bs = Some (bs @ drop (length bs) (temp_buf s))"
    using assms(10,14) by (simp add: mem_store_Some)
  have ld: "mem_load (good_buf s) off sz = Some ?good"
    using assms(5-7) ok by (simp add: mem_load_Some)
  have lt: "mem_load (temp_buf v) 0 sz = Some bs"
    using assms(6,10,14) by (simp add: mem_load_Some v_def)
  have "off mod readbdy c = 0 \<Longrightarrow> off - off mod readbdy c = off" by simp
  note unf = doread_def[of c K off sz s, unfolded Let_def this[OF assms(8)], folded t_def]
  let ?w = "v\<lparr>badoff := scan_bad off ?good bs (badoff v)\<rparr>"
  have run: "doread c K off sz s = report_failure c K 110 ?w"
  proof -
    have "kcheck c K (k_seek K off) (\<lambda>r. r = -1) 140 t = Inr (t\<lparr>kern := ka\<rparr>)"
      using assms(11,12) by (simp add: kcheck_def kcall_def t_def)
    moreover have "\<not> file_size s < sz + off" using assms(7) by simp
    moreover have "good_buf v = good_buf s" "badoff v = badoff s" by (simp_all add: v_def t_def)
    moreover have "t\<lparr>kern := ka, kern := kb, temp_buf := bs @ drop (length bs) (temp_buf s)\<rparr> = v"
      by (simp add: v_def)
    moreover have "temp_buf t = temp_buf s" "testcalls t = testcalls s" by (simp_all add: t_def)
    moreover have "temp_buf v = bs @ drop (length bs) (temp_buf s)" by (simp add: v_def)
    ultimately show ?thesis
      using assms(3,6,9,13,15) u st ld lt
      by (simp add: unf simulated_def check_buffers_def t_def)
  qed
  have "length ?good = length bs" using assms(5-7,14) ok by auto
  moreover from this have "off + int (length ?good) < 2147483648" using assms(4,7,14) by simp
  ultimately obtain i where i: "i < length bs" "scan_bad off ?good bs (badoff v) = off + int i"
      "?good ! i \<noteq> bs ! i" "drop (Suc i) ?good = drop (Suc i) bs"
    using scan_bad_eq[of ?good bs off "badoff v"] assms(5,15) by metis
  have "nat (off + int i) = nat off + i" using assms(5) by simp
  moreover have "i < nat sz" using i(1) assms(14) by simp
  ultimately have "good_buf s ! nat (off + int i) \<noteq> bs ! i" using i(3) assms(5-7) ok by simp
  moreover obtain s' where "doread c K off sz s = Inl (Exit 110, s')" "badoff s' = badoff ?w"
    unfolding run using report_failure_exits[OF assms(1), of ?w K 110] assms(2)
    by (auto simp: shadow_ok_def v_def t_def)
  ultimately show ?thesis
    using i(2,4) \<open>i < nat sz\<close> by (intro exI[of _ s'] exI[of _ i]) simp
qed

theorem bad_read_reported_witness:
  "\<exists>s' i. doread sample_config (ram_kernel 16\<lparr>k_read := (\<lambda>n k. (2, [9, 5], k))\<rparr>) 0 2
      (sample_state [4, 5, 6]\<lparr>testcalls := 1\<rparr>) = Inl (Exit 110, s') \<and> i < nat 2 \<and> badoff s' = 0 + int i
    \<and> good_buf (sample_state [4, 5, 6]\<lparr>testcalls := 1\<rparr>) ! nat (0 + int i) \<noteq> [9, 5 :: byte] ! i
    \<and> drop (Suc i) [9, 5 :: byte]
        = drop (Suc i) (take (nat 2) (drop (nat 0) (good_buf (sample_state [4, 5, 6]\<lparr>testcalls := 1\<rparr>))))"
  by (rule bad_read_reported[where pos = 0 and ka = "([4, 5, 6], 0)" and kb = "([4, 5, 6], 0)"])
     (simp_all add: sample_config_def sample_state_def default_config_def shadow_ok_def simulated_def
        ram_kernel_def fsxread_def s32_def)

text \<open>
  C8 (error). \<open>check_size\<close> accepts the file exactly when \<open>fstat\<close> succeeds and both it and the
  end found by \<open>lseek\<close> are \<open>file_size\<close>; otherwise it ends the run with status 120.
\<close>

theorem check_size_verdict:
  assumes "\<not> lite c" and "shadow_ok s" and "k_fstat K (kern s) = (r, st, ka)"
    and "k_seek_end K ka = (e, kb)"
  shows "if r = 0 \<and> st = file_size s \<and> e = file_size s then check_size c K s = Inr (s\<lparr>kern := kb\<rparr>)
    else \<exists>s'. check_size c K s = Inl (Exit 120, s')"
proof -
  have "shadow_ok (s\<lparr>kern := kb\<rparr>)" using assms(2) by simp
  note R = report_failure_exits[OF assms(1) this, of K 120]
  have nn: "0 \<le> file_size s" using assms(2) by (simp add: shadow_ok_def)
  show ?thesis
    using R assms(3,4) nn by (auto simp: check_size_def kcall_def Let_def)
qed

theorem check_size_verdict_witness:
  "if (0::int) = 0 \<and> 4 = file_size (sample_state [1, 2, 3]) \<and> 3 = file_size (sample_state [1, 2, 3])
   then check_size sample_config (ram_kernel 16\<lparr>k_fstat := (\<lambda>k. (0, 4, k))\<rparr>) (sample_state [1, 2, 3])
     = Inr (sample_state [1, 2, 3]\<lparr>kern := ([1, 2, 3], 3)\<rparr>)
   else \<exists>s'. check_size sample_config (ram_kernel 16\<lparr>k_fstat := (\<lambda>k. (0, 4, k))\<rparr>) (sample_state [1, 2, 3])
     = Inl (Exit 120, s')"
  by (rule check_size_verdict[where ka = "([1, 2, 3], 0)"])
     (simp_all add: sample_config_def sample_state_def default_config_def shadow_ok_def ram_kernel_def)

text \<open>The scan of \<open>check_eofpage\<close> stops at the first byte that is not zero.\<close>

lemma eof_scan_dirty:
  assumes "\<not> lite c" and "shadow_ok s" and "i < n"
    and "\<And>j. j < n \<Longrightarrow> map_load K (page_size c) m (a + int j) (kern s) \<noteq> None"
    and "map_load K (page_size c) m (a + int i) (kern s) \<noteq> Some 0"
  shows "\<exists>s'. eof_scan c K m a n s = Inl (Exit 205, s')"
  using assms(3-5)
proof (induction n arbitrary: a i)
  case (Suc n)
  obtain b where b: "map_load K (page_size c) m a (kern s) = Some b"
    using Suc.prems(2)[of 0] by auto
  show ?case
  proof (cases "b = 0")
    case False
    then show ?thesis
      using b report_failure_exits[OF assms(1,2), of K 205] by auto
  next
    case True
    then have "i \<noteq> 0" using Suc.prems(3) b by (cases i) auto
    then obtain j where j: "i = Suc j" by (cases i) auto
    have "\<exists>s'. eof_scan c K m (a + 1) n s = Inl (Exit 205, s')"
      using Suc.prems(1,3) Suc.prems(2)[of "Suc _"] j
      by (intro Suc.IH[of j]) (simp_all add: add.assoc)
    then show ?thesis using b True by simp
  qed
qed simp

text \<open>
  C9 (safety). If the mapped page that holds the end of the file has a byte other than zero
  between the end of the file and the end of the page, a mapped access whose range reaches into
  that page ends the run with status 205: the check looks at every one of these bytes, and only
  at bytes of the mapping.
\<close>

theorem dirty_page_end_reported:
  assumes "pow2 (page_size c)" and "\<not> lite c" and "shadow_ok s"
    and "0 \<le> off" and "0 < sz" and "off + sz \<le> file_size s" and "off + sz < 4294967296"
    and "m_foff m = off - off mod page_size c" and "m_len m = off mod page_size c + sz"
    and "0 < m_addr m" and "page_size c dvd m_addr m"
    and "m_addr m + m_len m < 18446744073709551616"
    and "round_down (file_size s) (page_size c) < off + sz"
    and "\<And>i. file_size s \<le> i \<Longrightarrow> i < round_down (file_size s) (page_size c) + page_size c \<Longrightarrow>
           k_pload K i (kern s) \<noteq> None"
    and "file_size s \<le> d" and "d < round_down (file_size s) (page_size c) + page_size c"
    and "k_pload K d (kern s) = Some b" and "b \<noteq> 0"
  shows "\<exists>s'. check_eofpage c K off m sz s = Inl (Exit 205, s')"
proof -
  let ?P = "page_size c"
  let ?q = "round_down (file_size s) ?P"
  have nd: "\<not> off + sz \<le> ?q" using assms(13) by simp
  note S = check_eofpage_scan[OF assms(1) refl assms(4-12)]
  have P: "0 < ?P" using assms(1) by (rule pow2_pos)
  have fo: "m_foff m \<le> file_size s"
  proof -
    have "0 \<le> off mod ?P" using P by simp
    then show ?thesis using assms(5,6,8) by linarith
  qed
  let ?a = "m_addr m + (file_size s - m_foff m)" and ?n = "nat (?q + ?P - file_size s)"
  have ld: "map_load K ?P m (?a + int i) (kern s) = k_pload K (file_size s + int i) (kern s)"
    if "i < ?n" for i
  proof -
    have "file_size s + int i < ?q + ?P" using that by linarith
    then show ?thesis using fo S(2)[OF nd] by (simp add: map_load_def Let_def)
  qed
  define i where "i = nat (d - file_size s)"
  have i: "i < ?n" "file_size s + int i = d" using assms(15,16) by (simp_all add: i_def)
  have "\<exists>s'. eof_scan c K m ?a ?n s = Inl (Exit 205, s')"
  proof (rule eof_scan_dirty[OF assms(2,3) i(1)])
    show "map_load K ?P m (?a + int j) (kern s) \<noteq> None" if "j < ?n" for j
      unfolding ld[OF that] using that by (intro assms(14)) auto
    show "map_load K ?P m (?a + int i) (kern s) \<noteq> Some 0"
      unfolding ld[OF i(1)] i(2) using assms(17,18) by simp
  qed
  then show ?thesis using S(1) nd by simp
qed

theorem dirty_page_end_reported_witness:
  "\<exists>s'. check_eofpage sample_config (ram_kernel 16\<lparr>k_pload := (\<lambda>i k. Some (if i = 7 then 1 else 0))\<rparr>)
      0 \<lparr>m_addr = 16, m_foff = 0, m_len = 3\<rparr> 3 (sample_state [1, 2, 3]) = Inl (Exit 205, s')"
  by (rule dirty_page_end_reported[where d = 7 and b = 1])
     (simp_all add: sample_config_def sample_state_def default_config_def shadow_ok_def round_down_def
       pow2_16)

section \<open>The operations as operations on the file\<close>

lemma op_spec_synced:
  assumes "op_spec c content live s cont r" and "\<not> simulated c s"
  shows "\<exists>s'. r = Inr s' \<and> content (kern s') = cont \<and> shadow_content s' = cont"
proof -
  obtain s' where s': "r = Inr s'" "fsx_inv c content live s'" "stable s s'" "shadow_content s' = cont"
    using assms(1) by (auto simp: op_spec_def dest: ok_runD)
  then have "\<not> simulated c s'" using assms(2) by (simp add: simulated_def stable_def)
  then show ?thesis using s' fsx_invD(9)[OF s'(2)] by auto
qed

text \<open>
  C7 (refinement). On a kernel file that keeps its contract, \<open>dowrite\<close> is the abstract
  \<open>pwrite\<close> of the generated bytes at the rounded offset, on the file and on \<open>good_buf\<close> alike,
  whether it goes by \<open>write\<close> or by asynchronous I/O, and with or without \<open>fsync\<close> and the
  flush.
\<close>

theorem dowrite_refines_pwrite:
  assumes "posix_file K content pos live psize bsize limit" and "env_ok c psize bsize limit"
    and "fsx_inv c content live s" and "0 < testcalls s" and "\<not> simulated c s"
    and "0 \<le> off" and "0 < sz" and "off + sz \<le> maxfilelen c" and "\<not> o_direct c"
  shows "\<exists>s'. dowrite c K off sz s = Inr s'
    \<and> content (kern s') = ff_pwrite (nat (off - off mod writebdy c))
        (gen_bytes (filldata c) (testcalls s) (original_buf s) (off - off mod writebdy c) (nat sz))
        (content (kern s))
    \<and> shadow_content s' = content (kern s')"
proof -
  have "op_spec c content live s (if sz = 0 then shadow_content s
      else ff_pwrite (nat (off - off mod writebdy c)) (written c (off - off mod writebdy c) sz s)
        (shadow_content s)) (dowrite c K off sz s)"
    by (rule posix_file.dowrite_ok[OF assms(1-4,6) _ assms(8) refl]) (use assms(7,9) in auto)
  from op_spec_synced[OF this assms(5)] show ?thesis
    using assms(7) fsx_invD(9)[OF assms(3,5)] by (auto simp: written_def)
qed

theorem dowrite_refines_pwrite_witness:
  "\<exists>s'. dowrite sample_config (ram_kernel 16) 5 2 (sample_state [1, 2, 3]\<lparr>testcalls := 9\<rparr>) = Inr s'
    \<and> fst (kern s') = ff_pwrite (nat (5 - 5 mod writebdy sample_config))
        (gen_bytes (filldata sample_config) (testcalls (sample_state [1, 2, 3]\<lparr>testcalls := 9\<rparr>))
          (original_buf (sample_state [1, 2, 3]\<lparr>testcalls := 9\<rparr>)) (5 - 5 mod writebdy sample_config) (nat 2))
        (fst (kern (sample_state [1, 2, 3]\<lparr>testcalls := 9\<rparr>)))
    \<and> shadow_content s' = fst (kern s')"
proof (rule dowrite_refines_pwrite[OF sample_posix sample_env])
  show "fsx_inv sample_config fst (\<lambda>k. 0 \<le> snd k) (sample_state [1, 2, 3]\<lparr>testcalls := 9\<rparr>)"
    by (simp add: fsx_inv_def sample_state_def sample_config_def default_config_def sync_due_def
        simulated_def shadow_content_def)
qed (simp_all add: sample_state_def sample_config_def default_config_def simulated_def)

text \<open>
  C10 (termination). On a kernel file that keeps its contract the loop around
  \<open>copy_file_range\<close> ends, in whatever pieces the kernel copies, and \<open>do_copy_range\<close> leaves the
  file and \<open>good_buf\<close> with the whole range copied.
\<close>

theorem do_copy_range_copies:
  assumes "posix_file K content pos live psize bsize limit" and "env_ok c psize bsize limit"
    and "fsx_inv c content live s" and "\<not> lite c" and "\<not> simulated c s"
    and "0 \<le> off" and "0 < len" and "0 \<le> dst" and "off + len \<le> file_size s"
    and "dst + len \<le> maxfilelen c" and "off + len \<le> dst \<or> dst + len \<le> off"
  shows "\<exists>s'. do_copy_range c K off len dst s = Inr s'
    \<and> content (kern s') = ff_clone (nat off) (nat len) (nat dst) (content (kern s))
    \<and> shadow_content s' = content (kern s')"
  using op_spec_synced[OF posix_file.do_copy_range_ok[OF assms(1-4,6) _ assms(8-11)] assms(5)]
    assms(5,7) fsx_invD(9)[OF assms(3,5)] by auto

theorem do_copy_range_copies_witness:
  "\<exists>s'. do_copy_range sample_config (ram_kernel 16) 0 3 4 (sample_state [1, 2, 3]\<lparr>testcalls := 1\<rparr>) = Inr s'
    \<and> fst (kern s') = ff_clone (nat 0) (nat 3) (nat 4)
        (fst (kern (sample_state [1, 2, 3]\<lparr>testcalls := 1\<rparr>)))
    \<and> shadow_content s' = fst (kern s')"
proof (rule do_copy_range_copies[OF sample_posix sample_env])
  show "fsx_inv sample_config fst (\<lambda>k. 0 \<le> snd k) (sample_state [1, 2, 3]\<lparr>testcalls := 1\<rparr>)"
    by (simp add: fsx_inv_def sample_state_def sample_config_def default_config_def sync_due_def
        simulated_def shadow_content_def)
qed (simp_all add: sample_state_def sample_config_def default_config_def simulated_def)

section \<open>Loops that may not end\<close>

lemma copy_loop_stuck:
  assumes "copy_loop K a b olen tries nr k = Some y"
    and "\<And>x z n k. 0 < n \<Longrightarrow> k_copy K x z n k = (0, ag, k)"
  shows "\<not> 0 < olen"
  using assms(1)
proof (rule copy_loop.raw_induct[rotated 1,
      of K a b olen tries nr k y "\<lambda>K' a b olen tries nr k y. K' = K \<longrightarrow> \<not> 0 < olen", THEN mp, OF _ _ refl])
  fix f K' o1 o2 olen tries nr k y
  assume IH: "\<And>K' a b olen tries nr k y. f K' a b olen tries nr k = Some y \<Longrightarrow> K' = K \<longrightarrow> \<not> 0 < olen"
    and eq: "(if 0 < olen then
        (case k_copy K' o1 o2 olen k of (nr', again, k') \<Rightarrow>
           if nr' < 0 then
             (if \<not> again then Some (nr', False, k')
              else if 300 \<le> tries then Some (nr', False, k')
              else f K' o1 o2 olen (tries + 1) nr' k')
           else if olen < nr' then Some (nr', True, k')
           else f K' (o1 + nr') (o2 + nr') (olen - nr') tries nr' k')
      else Some (nr, False, k)) = Some y"
  show "K' = K \<longrightarrow> \<not> 0 < olen"
  proof (intro impI notI)
    assume K: "K' = K" and pos: "0 < olen"
    have "f K o1 o2 olen tries 0 k = Some y" using eq K pos assms(2)[OF pos] by simp
    then show False using IH pos by blast
  qed
qed

text \<open>
  C11 (liveness). A kernel whose \<open>copy_file_range\<close> returns 0 (as it does at the end of the
  source file) and moves nothing keeps \<open>do_copy_range\<close> in its loop for ever: only errors count
  as tries, so the limit of 300 does not help.
\<close>

theorem zero_copy_hangs:
  assumes "\<And>x z n k. 0 < n \<Longrightarrow> k_copy K x z n k = (0, ag, k)"
    and "0 < len" and "off < file_size s" and "\<not> simulated c s"
  shows "\<exists>s'. do_copy_range c K off len dst s = Inl (Hang, s')"
proof -
  have none: "copy_loop K off dst len 0 0 k = None" for k
    using copy_loop_stuck[OF _ assms(1)] assms(2) by (cases "copy_loop K off dst len 0 0 k") auto
  have "simulated c (log5 p off len dst fl (raise_biggest n s)) = simulated c s" for p fl n
    by (simp add: simulated_def raise_biggest_def)
  then show ?thesis
    using assms(2-4) by (simp add: do_copy_range_def Let_def none not_le)
qed

theorem zero_copy_hangs_witness:
  "\<exists>s'. do_copy_range sample_config (ram_kernel 16\<lparr>k_copy := (\<lambda>x z n k. (0, False, k))\<rparr>) 0 3 4
      (sample_state [1, 2, 3]\<lparr>testcalls := 1\<rparr>) = Inl (Hang, s')"
  by (rule zero_copy_hangs[where ag = False])
     (simp_all add: sample_config_def sample_state_def default_config_def simulated_def)

text \<open>
  C12 (liveness). When the source range is longer than what is before it and the space up to
  the maximal length does not hold it twice, no destination fits, and the choice of a
  destination for \<open>OP_CLONE_RANGE\<close> never ends, whatever \<open>random\<close> returns. (The loop of
  \<open>OP_DEDUPE_RANGE\<close> has a limit of 30; those of \<open>OP_CLONE_RANGE\<close> and \<open>OP_COPY_RANGE\<close> have none.)
\<close>

theorem clone_choice_hangs:
  assumes "env_ok c psize bsize limit" and "fsx_inv c content live s" and "rand_ok rand"
    and "0 \<le> off" and "0 \<le> sz" and "sz < 2147483648"
    and "trim_off_len off sz (file_size s) = (oa, za)"
    and "block_down c oa < block_down c za"
    and "maxfilelen c < block_down c oa + 2 * block_down c za"
  shows "pick_args c rand (fop_code Op_clone_range) off sz s = Inl (Hang, s)"
proof -
  note E = env_okD[OF assms(1)] and I = fsx_invD[OF assms(2)]
  have fs: "file_size s < 2147483648" using I(2) E(6) by linarith
  note T = trim_off_len_range[OF assms(7,4,5,6) I(1) fs]
  let ?o = "block_down c oa" and ?z = "block_down c za"
  have b: "0 \<le> ?o" "?o \<le> oa" "0 \<le> ?z" "?z \<le> za"
    using block_down_c(1)[OF E(1) T(1)] block_down_c(1)[OF E(1) T(2)] by auto
  have "dest_bad (maxfilelen c) ?o ?z (dest_of rand (block_down c) (maxfilelen c) r)" for r
  proof -
    let ?d = "dest_of rand (block_down c) (maxfilelen c) r"
    have d: "0 \<le> ?d" "?d < 2147483648"
      using dest_of_range[OF assms(3) block_down_c(1)[OF E(1)], of "maxfilelen c" r] E(5,6) by auto
    have "\<not> range_fits (maxfilelen c) ?o ?z ?d"
      using assms(8,9) d(1) by (auto simp: range_fits_def)
    moreover have "?o < 2147483648" "?z < 2147483648" using b T(3) T(1,2) fs by linarith+
    ultimately show ?thesis
      using dest_bad_fits[of ?o ?z ?d "maxfilelen c"] b d E(5,6) by simp
  qed
  then have "dest_loop rand (block_down c) (maxfilelen c) ?o ?z (rpos s) = None"
    by (simp add: dest_loop_None_iff)
  then show ?thesis
    unfolding pick_args_def fop_of_code Let_def by (simp add: assms(7))
qed

theorem clone_choice_hangs_witness:
  "pick_args (sample_config\<lparr>maxoplen := 64\<rparr>) (\<lambda>i. 5) (fop_code Op_clone_range) 0 64 (sample_state (replicate 64 1)\<lparr>temp_buf := replicate 64 0\<rparr>)
     = Inl (Hang, sample_state (replicate 64 1)\<lparr>temp_buf := replicate 64 0\<rparr>)"
proof (rule clone_choice_hangs[where psize = 16 and bsize = 16 and limit = 1000000
      and content = fst and live = "\<lambda>k. 0 \<le> snd k" and oa = 0 and za = 64])
  show "env_ok (sample_config\<lparr>maxoplen := 64\<rparr>) 16 16 1000000"
    using sample_env by (simp add: env_ok_def wf_config_def pow2_16)
  show "fsx_inv (sample_config\<lparr>maxoplen := 64\<rparr>) fst (\<lambda>k. 0 \<le> snd k)
      (sample_state (replicate 64 1)\<lparr>temp_buf := replicate 64 0\<rparr>)"
    by (simp add: fsx_inv_def sample_state_def sample_config_def default_config_def sync_due_def
        simulated_def shadow_content_def)
qed (simp_all add: rand_ok_def sample_state_def sample_config_def default_config_def trim_off_len_def
    trim_off_def trim_len_def u64_def block_down_def mask_down[OF pow2_16, simplified] round_down_def)

end
