(* ===== verification/Fsx_Start.thy ===== *)
theory Fsx_Start
  imports Fsx_Main Fsx_Claims
begin

text \<open>
  From the command line to the first test. \<open>posix_probes\<close> extends the contract of the kernel
  file by what the probes of \<open>main\<close> may do to it. On a new (truncated) file the start
  establishes the invariant that the tests keep; on an existing file (\<open>-k\<close>) the probe for
  \<open>copy_file_range\<close> changes the file behind the back of \<open>good_buf\<close>.
\<close>

text \<open>
  \<open>fallocate\<close> of one byte at the end of the file keeps what is before it, in every mode;
  cloning the file onto itself and deduplicating change nothing; \<open>copy_file_range\<close> copies the
  first byte to the second, if there is one and the call is supported.
\<close>

locale posix_probes = posix_file +
  fixes P :: "'a probes"
  assumes probe_falloc: "live k \<Longrightarrow> int (length (content k)) < limit \<Longrightarrow>
      \<exists>r e k'. p_fallocate P m (int (length (content k))) 1 k = (r, e, k') \<and> live k'
        \<and> take (length (content k)) (content k') = content k \<and> (r \<noteq> 0 \<longrightarrow> content k' = content k)"
    and probe_clone: "live k \<Longrightarrow> \<exists>r e k'. p_clone P k = (r, e, k') \<and> live k' \<and> content k' = content k"
    and probe_dedupe: "live k \<Longrightarrow> 0 \<le> src \<Longrightarrow> 0 < n \<Longrightarrow> src + n \<le> int (length (content k)) \<Longrightarrow>
      \<exists>r e st k'. p_dedupe P src n n k = (r, e, st, k') \<and> live k' \<and> content k' = content k"
    and probe_copy: "live k \<Longrightarrow> 1 < limit \<Longrightarrow>
      \<exists>r e k'. p_copy P 0 1 1 k = (r, e, k') \<and> live k'
        \<and> (content k' = content k
           \<or> r = 1 \<and> content k \<noteq> [] \<and> content k' = ff_clone 0 1 1 (content k))"
begin

text \<open>A probe that leaves the file and everything else as it was.\<close>

definition quiet_probe :: "('a fsx \<Rightarrow> 'a probe) \<Rightarrow> 'a fsx \<Rightarrow> bool" where
  "quiet_probe f s \<longleftrightarrow> (\<exists>b k. f s = Inr (b, s\<lparr>kern := k\<rparr>) \<and> live k \<and> content k = content (kern s))"

lemma test_fallocate_quiet:
  assumes "live (kern s)" and "int (length (content (kern s))) = file_size s" and "file_size s < limit"
  shows "quiet_probe (test_fallocate c K P m) s"
proof (cases "lite c")
  case True
  have "test_fallocate c K P m s = Inr (False, s\<lparr>kern := kern s\<rparr>)"
    using True by (simp add: test_fallocate_def)
  then show ?thesis using assms(1) unfolding quiet_probe_def by blast
next
  case full: False
  let ?n = "length (content (kern s))"
  obtain r e ka where ka: "p_fallocate P m (file_size s) 1 (kern s) = (r, e, ka)" "live ka"
      "take ?n (content ka) = content (kern s)" "r \<noteq> 0 \<longrightarrow> content ka = content (kern s)"
    using probe_falloc[OF assms(1), of m] assms(2,3) by auto
  have ge: "?n \<le> length (content ka)" using ka(3) by (metis length_take min.cobounded1)
  show ?thesis
  proof (cases "r \<noteq> 0 \<and> (e = ENOSYS \<or> e = EOPNOTSUPP)")
    case True
    have "test_fallocate c K P m s = Inr (False, s\<lparr>kern := ka\<rparr>)"
      using True full ka(1) by (simp add: test_fallocate_def)
    then show ?thesis using ka(2,4) True unfolding quiet_probe_def by blast
  next
    case sup: False
    have "0 \<le> file_size s" using assms(2) by linarith
    then obtain kb where kb: "k_ftruncate K (file_size s) ka = (0, kb)" "live kb"
        "content kb = ff_truncate (nat (file_size s)) (content ka)"
      using ftruncate[OF ka(2), of "file_size s"] assms(3) by auto
    have "nat (file_size s) = ?n" using assms(2) by linarith
    then have c: "content kb = content (kern s)" using kb(3) ka(3) ge by (simp add: ff_truncate_le)
    have "test_fallocate c K P m s = Inr (True, s\<lparr>kern := kb\<rparr>)"
      using full sup ka(1) kb(1) by (simp add: test_fallocate_def kcall_def Let_def)
    then show ?thesis using kb(2) c unfolding quiet_probe_def by blast
  qed
qed

lemma test_clone_range_quiet: "live (kern s) \<Longrightarrow> quiet_probe (test_clone_range P) s"
  using probe_clone[of "kern s"] by (auto simp: quiet_probe_def test_clone_range_def)

lemma test_dedupe_range_quiet:
  assumes "live (kern s)" and "int (length (content (kern s))) = file_size s"
    and "file_size s \<le> limit" and "0 < block_size c" and "2 * block_size c \<le> limit"
  shows "quiet_probe (test_dedupe_range c K P) s"
proof -
  let ?b = "block_size c"
  let ?n = "length (content (kern s))"
  obtain k1 where k1: "k_ftruncate K (?b * 2) (kern s) = (0, k1)" "live k1"
      "content k1 = ff_truncate (nat (?b * 2)) (content (kern s))"
    using ftruncate[OF assms(1), of "?b * 2"] assms(4,5) by auto
  define ka where "ka = (if file_size s < ?b * 2 then k1 else kern s)"
  have ka: "live ka" "?b + ?b \<le> int (length (content ka))" "?n \<le> length (content ka)"
      "take ?n (content ka) = content (kern s)"
    using k1(2,3) assms(1,2,4) by (auto simp: ka_def ff_truncate_def)
  obtain r e st k2 where k2: "p_dedupe P 0 ?b ?b ka = (r, e, st, k2)" "live k2" "content k2 = content ka"
    using probe_dedupe[OF ka(1), of 0 ?b] ka(2) assms(4) by auto
  obtain k3 where k3: "k_ftruncate K (file_size s) k2 = (0, k3)" "live k3"
      "content k3 = ff_truncate (nat (file_size s)) (content k2)"
    using ftruncate[OF k2(2), of "file_size s"] assms(2,3) by auto
  have "nat (file_size s) = ?n" using assms(2) by linarith
  then have c3: "content k3 = content (kern s)" using k3(3) k2(3) ka(3,4) by (simp add: ff_truncate_le)
  have run: "\<exists>b. test_dedupe_range c K P s
      = Inr (b, s\<lparr>kern := (if file_size s < ?b * 2 then k3 else k2)\<rparr>)"
    using k1(1) k2(1) k3(1)
    by (cases "file_size s < ?b * 2") (simp_all add: test_dedupe_range_def ka_def kcall_def Let_def)
  have "live (if file_size s < ?b * 2 then k3 else k2)"
      "content (if file_size s < ?b * 2 then k3 else k2) = content (kern s)"
    using k2(2,3) k3(2) c3 by (auto simp: ka_def)
  then show ?thesis using run unfolding quiet_probe_def by blast
qed

lemma test_copy_range_quiet:
  assumes "live (kern s)" and "1 < limit" and "content (kern s) = []"
  shows "quiet_probe (test_copy_range P) s"
  using probe_copy[OF assms(1,2)] assms(3) by (auto simp: quiet_probe_def test_copy_range_def)

text \<open>What holds between the probes of a run that starts with an empty file.\<close>

definition started :: "config \<Rightarrow> 'a fsx \<Rightarrow> bool" where
  "started c s \<longleftrightarrow> env_ok c psize bsize limit \<and> fsx_inv c content live s \<and> \<not> lite c \<and> style c = 0
     \<and> content (kern s) = [] \<and> file_size s = 0 \<and> testcalls s = 0 \<and> replayopsf s = None"

lemma env_ok_calls:
  shows "env_ok (c\<lparr>fallocate_calls := b\<rparr>) psize bsize limit = env_ok c psize bsize limit"
    "env_ok (c\<lparr>keep_size_calls := b\<rparr>) psize bsize limit = env_ok c psize bsize limit"
    "env_ok (c\<lparr>punch_hole_calls := b\<rparr>) psize bsize limit = env_ok c psize bsize limit"
    "env_ok (c\<lparr>zero_range_calls := b\<rparr>) psize bsize limit = env_ok c psize bsize limit"
    "env_ok (c\<lparr>collapse_range_calls := b\<rparr>) psize bsize limit = env_ok c psize bsize limit"
    "env_ok (c\<lparr>insert_range_calls := b\<rparr>) psize bsize limit = env_ok c psize bsize limit"
    "env_ok (c\<lparr>clone_range_calls := b\<rparr>) psize bsize limit = env_ok c psize bsize limit"
    "env_ok (c\<lparr>dedupe_range_calls := b\<rparr>) psize bsize limit = env_ok c psize bsize limit"
    "env_ok (c\<lparr>copy_range_calls := b\<rparr>) psize bsize limit = env_ok c psize bsize limit"
  by (simp_all add: env_ok_def wf_config_def)

lemma fsx_inv_calls:
  shows "fsx_inv (c\<lparr>fallocate_calls := b\<rparr>) content live s = fsx_inv c content live s"
    "fsx_inv (c\<lparr>keep_size_calls := b\<rparr>) content live s = fsx_inv c content live s"
    "fsx_inv (c\<lparr>punch_hole_calls := b\<rparr>) content live s = fsx_inv c content live s"
    "fsx_inv (c\<lparr>zero_range_calls := b\<rparr>) content live s = fsx_inv c content live s"
    "fsx_inv (c\<lparr>collapse_range_calls := b\<rparr>) content live s = fsx_inv c content live s"
    "fsx_inv (c\<lparr>insert_range_calls := b\<rparr>) content live s = fsx_inv c content live s"
    "fsx_inv (c\<lparr>clone_range_calls := b\<rparr>) content live s = fsx_inv c content live s"
    "fsx_inv (c\<lparr>dedupe_range_calls := b\<rparr>) content live s = fsx_inv c content live s"
    "fsx_inv (c\<lparr>copy_range_calls := b\<rparr>) content live s = fsx_inv c content live s"
  by (simp_all add: fsx_inv_def sync_due_def simulated_def)

lemma started_calls:
  shows "started (c\<lparr>fallocate_calls := b\<rparr>) s = started c s"
    "started (c\<lparr>keep_size_calls := b\<rparr>) s = started c s"
    "started (c\<lparr>punch_hole_calls := b\<rparr>) s = started c s"
    "started (c\<lparr>zero_range_calls := b\<rparr>) s = started c s"
    "started (c\<lparr>collapse_range_calls := b\<rparr>) s = started c s"
    "started (c\<lparr>insert_range_calls := b\<rparr>) s = started c s"
    "started (c\<lparr>clone_range_calls := b\<rparr>) s = started c s"
    "started (c\<lparr>dedupe_range_calls := b\<rparr>) s = started c s"
    "started (c\<lparr>copy_range_calls := b\<rparr>) s = started c s"
  by (simp_all add: started_def env_ok_calls fsx_inv_calls)

lemma started_kern:
  assumes "started c s" and "live k" and "content k = content (kern s)"
  shows "started c (s\<lparr>kern := k\<rparr>)"
  using assms fsx_inv_kern[of c content live s k] by (simp add: started_def)

lemma probe_if_started:
  assumes "started c s" and "\<And>s. started c s \<Longrightarrow> quiet_probe f s"
    and "\<And>b s. started c s \<Longrightarrow> started (upd b) s" and "\<And>b. maxoplen (upd b) = maxoplen c"
  shows "ok_run (\<lambda>(c', s'). started c' s' \<and> maxoplen c' = maxoplen c) (probe_if w f upd c s)"
  using assms(1) assms(2)[OF assms(1)] assms(3)[OF started_kern[OF assms(1)]] assms(4)
  by (auto simp: probe_if_def quiet_probe_def)

lemma started_quiet:
  assumes "started c s" and "2 * bsize \<le> limit"
  shows "quiet_probe (test_fallocate c K P m) s" "quiet_probe (test_clone_range P) s"
    "quiet_probe (test_dedupe_range c K P) s" "quiet_probe (test_copy_range P) s"
proof -
  have I: "live (kern s)" "content (kern s) = []" "file_size s = 0" "1 < limit" "0 < block_size c"
      "block_size c = bsize" "0 < limit"
    using assms(1) bsize by (auto simp: started_def fsx_inv_def env_ok_def wf_config_def dest: pow2_pos)
  show "quiet_probe (test_fallocate c K P m) s" using I by (intro test_fallocate_quiet) auto
  show "quiet_probe (test_clone_range P) s" using I by (intro test_clone_range_quiet)
  show "quiet_probe (test_dedupe_range c K P) s"
    using I assms(2) by (intro test_dedupe_range_quiet) auto
  show "quiet_probe (test_copy_range P) s" using I by (intro test_copy_range_quiet) auto
qed

lemma probe_then:
  assumes "started c s" and "maxoplen c = M" and "\<And>s. started c s \<Longrightarrow> quiet_probe f s"
    and "\<And>b s. started (upd b) s = started c s" and "\<And>b. maxoplen (upd b) = maxoplen c"
    and "\<And>c' s'. started c' s' \<Longrightarrow> maxoplen c' = M \<Longrightarrow> ok_run R (g c' s')"
  shows "ok_run R (on_ok (probe_if w f upd c s) (\<lambda>(c', s'). g c' s'))"
  by (rule ok_run_bind[OF probe_if_started[OF assms(1,3)]]) (use assms(2,4,5,6) in auto)

lemma run_probes_started:
  assumes "started c s" and "2 * bsize \<le> limit"
  shows "ok_run (\<lambda>(c', s'). started c' s' \<and> maxoplen c' = maxoplen c) (run_probes c K P s)"
proof -
  note quiet = started_quiet[OF _ assms(2)]
  have last: "ok_run (\<lambda>(c', s'). started c' s' \<and> maxoplen c' = maxoplen c)
      (probe_if w (test_copy_range P) (\<lambda>b. ca\<lparr>copy_range_calls := b\<rparr>) ca sa)"
    if "started ca sa" "maxoplen ca = maxoplen c" for w ca sa
    using probe_if_started[OF that(1), of "test_copy_range P" "\<lambda>b. ca\<lparr>copy_range_calls := b\<rparr>" w]
      quiet(4) that(2) by (simp add: started_calls)
  show ?thesis
    unfolding run_probes_def
    by (intro probe_then[where M = "maxoplen c"] last)
       (simp_all add: assms(1) started_calls quiet)
qed

section \<open>The start on an empty file\<close>

lemma main_start_ok:
  assumes trunc: "o_trunc p" and c: "c = (o_config p)\<lparr>block_size := bsize, page_size := psize\<rparr>"
    and env: "env_ok c psize bsize limit" and conf: "\<not> lite c" "style c = 0"
    and fit: "2 * bsize \<le> limit" and k: "live k" "content k = []"
  shows "ok_run (\<lambda>(c', s'). started c' s' \<and> maxoplen c' = maxoplen c)
    (main_start p bsize psize K P rand None g k)"
proof -
  let ?s = "start_state c p rand 0 k g None"
  have inv: "fsx_inv c content live ?s"
    using env conf(1) k env_okD(6)[OF env]
    by (simp add: env_ok_def wf_config_def fsx_inv_def start_state_def fill_original_def
        shadow_content_def nat_less_iff)
  then have st: "started c ?s" using env conf k by (simp add: started_def start_state_def)
  have rd: "read_initial K 0 0 b k = Some (Inr (b, k))" for b
    by (subst read_initial.simps) simp
  have syn: "content (kern ?s) = shadow_content ?s"
    using k by (simp add: start_state_def shadow_content_def)
  have tr: "ok_run (\<lambda>s. started c s) (check_trunc_hack K ?s)"
    using check_trunc_hack_ok[OF env inv syn] started_kern[OF st] syn by auto
  have "main_start p bsize psize K P rand None g k
      = on_ok (check_trunc_hack K ?s) (\<lambda>s2. run_probes c K P s2)"
    using trunc conf(1) rd by (simp add: main_start_def Let_def flip: c) (simp add: start_state_def)
  then show ?thesis using ok_run_bind[OF tr run_probes_started[OF _ fit]] by simp
qed

lemma main_run_ok:
  assumes "started c s" and "rand_ok rand" and "maxoplen c < 2147483647"
    and "o_numops p = int n" and "int n < 18446744073709551616"
  shows "case main_run p c K rand s of None \<Rightarrow> False
    | Some (h, s') \<Rightarrow> h = Hang \<and> no_destination c rand s' \<or> h = Exit 0 \<and> testcalls s' = int n"
proof -
  have env: "env_ok c psize bsize limit" and inv: "fsx_inv c content live s" and st: "style c = 0"
    and tc: "0 \<le> testcalls s" "testcalls s + int n < 18446744073709551616" and nr: "replayopsf s = None"
    using assms(1,5) by (auto simp: started_def)
  note L = test_loop_ok[OF env inv assms(2) st assms(3) tc nr]
  show ?thesis
  proof (cases "test_loop c K rand (int n) s")
    case None
    then show ?thesis using L by simp
  next
    case (Some y)
    show ?thesis
    proof (cases y)
      case (Inl e)
      then show ?thesis using Some L assms(4) by (cases e) (simp add: main_run_def)
    next
      case (Inr s1)
      have s1: "live (kern s1)" "testcalls s1 = int n"
        using L Some Inr assms(1) by (auto simp: fsx_inv_def started_def)
      obtain ka where ka: "k_close K (kern s1) = (0, ka)" using close_open[OF s1(1)] by auto
      then have "kcheck c K (k_close K) (\<lambda>r. r \<noteq> 0) 99 s1 = Inr (s1\<lparr>kern := ka\<rparr>)"
        by (simp add: kcheck_def kcall_def)
      then show ?thesis using Some Inr assms(4) s1(2) by (simp add: main_run_def logdump_def)
    qed
  qed
qed

end

section \<open>The probes of a file in memory\<close>

definition ram_probes :: "ram probes" where
  "ram_probes = \<lparr>
     p_fallocate = (\<lambda>m off n k.
        if m = FALLOC_FL_COLLAPSE_RANGE \<or> m = FALLOC_FL_INSERT_RANGE then (-1, EINVAL, k)
        else (case ram_fallocate m off n k of (r, k1) \<Rightarrow> (r, if r = 0 then 0 else EOPNOTSUPP, k1))),
     p_clone = (\<lambda>k. (0, 0, k)),
     p_dedupe = (\<lambda>src dst n k. (0, 0, 0, k)),
     p_copy = (\<lambda>src dst n (f, p).
        if f = [] then (0, 0, (f, p)) else (1, 0, (ff_clone (nat src) (nat n) (nat dst) f, p)))\<rparr>"

lemma ram_probe_laws:
  assumes "posix_file (ram_kernel ps) fst snd (\<lambda>k. 0 \<le> snd k) ps bs lim"
  shows "posix_probes (ram_kernel ps) fst snd (\<lambda>k. 0 \<le> snd k) ps bs lim ram_probes"
proof (rule posix_probes.intro[OF assms])
  show "posix_probes_axioms fst (\<lambda>k. 0 \<le> snd k) lim ram_probes"
    by unfold_locales
       (auto simp: ram_probes_def ram_fallocate_def ff_simps ff_zero_def ff_punch_def ff_truncate_def ff_pwrite_def
          split: prod.splits)
qed

interpretation ram_start: posix_probes "ram_kernel 4096" fst snd "\<lambda>k. 0 \<le> snd k" 4096 4096
    9223372036854775807 ram_probes
  by (rule ram_probe_laws) (rule ram_file.posix_file_axioms)

section \<open>The whole program\<close>

text \<open>
  C2 (safety). From the command line to \<open>exit\<close>: whatever options \<open>main\<close> accepts, on a new file
  whose kernel keeps the documented behaviour, with a number of operations given, without a replay
  (\<open>--replay-ops\<close>), with lengths of files (\<open>-l\<close>) below 2 GiB and of operations (\<open>-o\<close>) below 2147483647, which
  the file system has room for, the start and the probes succeed and the run makes all its operations and exits
  with 0, or comes to a clone or copy for which no number that \<open>random\<close> gives from then on leads to a
  destination, and searches for one for ever. No failure is reported.
\<close>

theorem whole_run_passes:
  assumes "posix_probes K content pos live psize bsize limit P"
    and "command_line now opts names = Inr p" and "o_trunc p" and "o_numops p = int n"
    and "int n < 18446744073709551616"
    and "maxfilelen (o_config p) < 2147483648" and "maxoplen (o_config p) < 2147483647"
    and "psize < 2147483648" and "bsize < 2147483648"
    and "maxfilelen (o_config p) + 100000 \<le> limit" and "2 * bsize \<le> limit"
    and "live k" and "content k = []" and "rand_ok rand" and "o_replay p = None"
  shows "\<exists>c s. main_start p bsize psize K P rand None g k = Inr (c, s)
    \<and> (case main_run p c K rand s of None \<Rightarrow> False
       | Some (h, s') \<Rightarrow> h = Hang \<and> no_destination c rand s' \<or> h = Exit 0 \<and> testcalls s' = int n)"
proof -
  let ?c = "(o_config p)\<lparr>block_size := bsize, page_size := psize\<rparr>"
  have posix: "posix_file K content pos live psize bsize limit"
    using assms(1) by (rule posix_probes.axioms(1))
  have two: "pow2 psize" "pow2 bsize"
    using posix by (auto dest: posix_file.psize posix_file.bsize)
  note W = command_line_wf_options[OF assms(2)]
  have env: "env_ok ?c psize bsize limit" and lt: "\<not> lite ?c" "style ?c = 0"
    using W assms(3,6,8,9,10) two by (auto simp: env_ok_def wf_config_def wf_options_def Let_def)
  obtain c s where run: "main_start p bsize psize K P rand None g k = Inr (c, s)"
      "posix_probes.started content live psize bsize limit c s" "maxoplen c = maxoplen ?c"
    using ok_runD[OF posix_probes.main_start_ok[OF assms(1,3) refl env lt assms(11,12,13)]] by fastforce
  show ?thesis
    using run(1) posix_probes.main_run_ok[OF assms(1) run(2) assms(14) _ assms(4,5)] run(3) assms(7,15)
    by auto
qed

theorem whole_run_passes_witness:
  "\<exists>c s. main_start (initial_options\<lparr>o_numops := 3\<rparr>) 4096 4096 (ram_kernel 4096) ram_probes
      (\<lambda>i. 8 * int i mod 100) None ([], 0) ([], 0) = Inr (c, s)
    \<and> (case main_run (initial_options\<lparr>o_numops := 3\<rparr>) c (ram_kernel 4096) (\<lambda>i. 8 * int i mod 100) s of
         None \<Rightarrow> False
       | Some (h, s') \<Rightarrow> h = Hang \<and> no_destination c (\<lambda>i. 8 * int i mod 100) s' \<or> h = Exit 0 \<and> testcalls s' = int 3)"
proof (rule whole_run_passes[OF ram_start.posix_probes_axioms, where now = 0])
  show "command_line 0 [(Short CHR ''N'', Some ''3'')] [''f''] = Inr (initial_options\<lparr>o_numops := 3\<rparr>)"
    by code_simp
  show "rand_ok (\<lambda>i. 8 * int i mod 100)"
    by (auto simp: rand_ok_def intro: order.strict_trans[OF pos_mod_bound])
qed (simp_all add: initial_options_def default_config_def)

end
