(* ===== verification/Aio_Ring.thy ===== *)
theory Aio_Ring
  imports C_Prelude
begin

text \<open>
  The lists of operations of \<open>aio-stress\<close>: circular and doubly linked through the \<open>next\<close> and
  \<open>prev\<close> fields of the operations themselves, with a pointer to the first element. The heap maps
  the address of an operation to the operation. The pointer code is shown to work on lists: a
  heap that \<open>represents\<close> a list of addresses represents, after \<open>oper_list_add\<close> and
  \<open>oper_list_del\<close>, the list with the element appended or removed, and other lists are untouched.
\<close>

record node =
  next_oper :: nat
  prev_oper :: nat

type_synonym 'a heap = "nat \<Rightarrow> 'a node_scheme"

definition set_next :: "nat \<Rightarrow> nat \<Rightarrow> 'a heap \<Rightarrow> 'a heap" where
  "set_next x y h = h(x := (h x)\<lparr>next_oper := y\<rparr>)"

definition set_prev :: "nat \<Rightarrow> nat \<Rightarrow> 'a heap \<Rightarrow> 'a heap" where
  "set_prev x y h = h(x := (h x)\<lparr>prev_oper := y\<rparr>)"

lemma link_simps [simp]:
  "next_oper (set_next x y h u) = (if u = x then y else next_oper (h u))"
  "prev_oper (set_next x y h u) = prev_oper (h u)"
  "next_oper (set_prev x y h u) = next_oper (h u)"
  "prev_oper (set_prev x y h u) = (if u = x then y else prev_oper (h u))"
  by (simp_all add: set_next_def set_prev_def)

section \<open>The code\<close>

definition oper_list_add :: "nat \<Rightarrow> 'a heap \<times> nat option \<Rightarrow> 'a heap \<times> nat option" where
  "oper_list_add oper = (\<lambda>(h, lst). case lst of
       None \<Rightarrow> (set_prev oper oper (set_next oper oper h), Some oper)
     | Some l \<Rightarrow>
         (let h1 = set_prev oper (prev_oper (h l)) h;
              h2 = set_next oper l h1;
              h3 = set_next (prev_oper (h2 l)) oper h2;
              h4 = set_prev l oper h3
          in (h4, Some l)))"

text \<open>\<open>None\<close>: the list is empty, so \<open>*list\<close> is a null pointer.\<close>

definition oper_list_del :: "nat \<Rightarrow> 'a heap \<times> nat option \<Rightarrow> ('a heap \<times> nat option) option" where
  "oper_list_del oper = (\<lambda>(h, lst). case lst of
       None \<Rightarrow> None
     | Some l \<Rightarrow>
         (if next_oper (h l) = prev_oper (h l) \<and> l = next_oper (h l) then Some (h, None)
          else
            (let h1 = set_next (prev_oper (h oper)) (next_oper (h oper)) h;
                 h2 = set_prev (next_oper (h1 oper)) (prev_oper (h1 oper)) h1
             in Some (h2, Some (if l = oper then next_oper (h2 oper) else l)))))"

section \<open>Chains and rings\<close>

definition link :: "'a heap \<Rightarrow> nat \<Rightarrow> nat \<Rightarrow> bool" where
  "link h u v \<longleftrightarrow> next_oper (h u) = v \<and> prev_oper (h v) = u"

definition ring :: "'a heap \<Rightarrow> nat list \<Rightarrow> bool" where
  "ring h xs \<longleftrightarrow> distinct xs \<and> (xs = [] \<or> successively (link h) xs \<and> link h (last xs) (hd xs))"

definition represents :: "'a heap \<Rightarrow> nat option \<Rightarrow> nat list \<Rightarrow> bool" where
  "represents h lst xs \<longleftrightarrow> ring h xs \<and> lst = (if xs = [] then None else Some (hd xs))"

lemmas chain_simps = successively_append_iff successively_Cons

text \<open>A ring has no preferred first element.\<close>

lemma ring_rotate: "ring h (us @ vs) \<longleftrightarrow> ring h (vs @ us)"
  by (cases "us = []"; cases "vs = []") (auto simp: ring_def chain_simps)

lemma ring_next:
  assumes "ring h (us @ x # vs)"
  shows "next_oper (h x) = hd (vs @ us @ [x])"
proof -
  have "ring h ((x # vs) @ us)" using assms ring_rotate[of h us "x # vs"] by simp
  then show ?thesis by (cases vs; cases us) (auto simp: ring_def chain_simps link_def)
qed

lemma ring_prev_hd: "ring h (a # r) \<Longrightarrow> prev_oper (h a) = last (a # r)"
  by (simp add: ring_def link_def)

lemma chain_frame:
  assumes "successively (link h) xs"
    and "\<And>u v. u \<in> set xs \<Longrightarrow> v \<in> set xs \<Longrightarrow> u \<noteq> last xs \<Longrightarrow> v \<noteq> hd xs \<Longrightarrow> link h u v \<Longrightarrow> link h' u v"
    and "distinct xs"
  shows "successively (link h') xs"
  using assms
proof (induction xs rule: induct_list012)
  case (3 u v r)
  have "successively (link h') (v # r)"
    using "3.prems" by (intro "3.IH") (auto)
  moreover have "last (v # r) \<in> set (v # r)" by (rule last_in_set) simp
  then have "link h' u v"
    using "3.prems"(1,3) by (intro "3.prems"(2)) (auto simp del: last.simps simp: last_ConsR)
  ultimately show ?case by simp
qed simp_all

lemma ring_frame:
  assumes "ring h xs"
    and "\<And>u. u \<in> set xs \<Longrightarrow> next_oper (h' u) = next_oper (h u) \<and> prev_oper (h' u) = prev_oper (h u)"
  shows "ring h' xs"
  using assms chain_frame[of h xs h'] by (auto simp: ring_def link_def)

section \<open>The code works on lists\<close>

lemma add_heap:
  assumes "ring h (a # r)" and "x \<notin> set (a # r)" and "oper_list_add x (h, Some a) = (h', lst')"
  shows "h' = set_prev a x (set_next (last (a # r)) x (set_next x a (set_prev x (last (a # r)) h)))"
    and "lst' = Some a"
  using assms ring_prev_hd[OF assms(1)] by (auto simp: oper_list_add_def Let_def)

lemma add_represents:
  assumes "represents h lst xs" and "x \<notin> set xs" and "oper_list_add x (h, lst) = (h', lst')"
  shows "represents h' lst' (xs @ [x])"
proof (cases xs)
  case Nil
  then show ?thesis using assms by (auto simp: represents_def ring_def oper_list_add_def link_def)
next
  case (Cons a r)
  have R: "ring h (a # r)" "lst = Some a" using assms(1) Cons by (auto simp: represents_def)
  note H = add_heap[OF R(1) assms(2)[unfolded Cons] assms(3)[unfolded R(2)]]
  have "successively (link h') (a # r)"
  proof (rule chain_frame[of h])
    fix u v assume "u \<in> set (a # r)" "v \<in> set (a # r)" "u \<noteq> last (a # r)" "v \<noteq> hd (a # r)" "link h u v"
    then show "link h' u v" using assms(2) Cons unfolding H(1) link_def by auto
  qed (use R(1) in \<open>auto simp: ring_def\<close>)
  moreover have "link h' (last (a # r)) x" "link h' x a"
    using assms(2) Cons last_in_set[of "a # r"] unfolding H(1) link_def by auto
  ultimately have "successively (link h') ((a # r) @ [x])" "link h' (last ((a # r) @ [x])) a"
    unfolding successively_append_iff by simp_all
  then show ?thesis
    using R(1) assms(2) Cons H(2) by (simp add: represents_def ring_def)
qed

lemma add_frame:
  assumes "oper_list_add x (h, lst) = (h', lst')" and "represents h lst xs" and "represents h q ys"
    and "x \<notin> set xs" and "x \<notin> set ys" and "set xs \<inter> set ys = {}"
  shows "represents h' q ys"
proof (cases xs)
  case Nil
  then have "h' = set_prev x x (set_next x x h)"
    using assms(1,2) by (simp add: represents_def oper_list_add_def)
  then have "next_oper (h' u) = next_oper (h u) \<and> prev_oper (h' u) = prev_oper (h u)" if "u \<in> set ys" for u
    using that assms(5) by auto
  then show ?thesis using assms(3) ring_frame[of h ys h'] by (auto simp: represents_def)
next
  case (Cons a r)
  have R: "ring h (a # r)" "lst = Some a" using assms(2) Cons by (auto simp: represents_def)
  note H = add_heap[OF R(1) assms(4)[unfolded Cons] assms(1)[unfolded R(2)]]
  have "last (a # r) \<in> set xs" using Cons by (metis last_in_set list.distinct(1))
  then have "next_oper (h' u) = next_oper (h u) \<and> prev_oper (h' u) = prev_oper (h u)" if "u \<in> set ys" for u
    using that assms(5,6) Cons unfolding H(1) by (auto simp del: last.simps)
  then show ?thesis using assms(3) ring_frame[of h ys h'] by (auto simp: represents_def)
qed

text \<open>The test of \<open>oper_list_del\<close> finds exactly the lists with one element.\<close>

lemma single_test:
  assumes "ring h (a # r)"
  shows "next_oper (h a) = prev_oper (h a) \<and> a = next_oper (h a) \<longleftrightarrow> r = []"
  using assms by (cases r) (auto simp: ring_def link_def)

lemma del_heap:
  assumes "ring h (x # ws)" and "ws \<noteq> []"
  shows "next_oper (h x) = hd ws" "prev_oper (h x) = last ws"
    "ring (set_prev (hd ws) (last ws) (set_next (last ws) (hd ws) h)) ws"
proof -
  show n: "next_oper (h x) = hd ws" "prev_oper (h x) = last ws"
    using assms by (auto simp: ring_def chain_simps link_def)
  let ?h = "set_prev (hd ws) (last ws) (set_next (last ws) (hd ws) h)"
  have "successively (link ?h) ws"
  proof (rule chain_frame[of h])
    fix u v assume "u \<in> set ws" "v \<in> set ws" "u \<noteq> last ws" "v \<noteq> hd ws" "link h u v"
    then show "link ?h u v" by (auto simp: link_def)
  qed (use assms in \<open>auto simp: ring_def chain_simps\<close>)
  then show "ring ?h ws" using assms by (auto simp: ring_def link_def)
qed

lemma del_code:
  assumes "represents h lst xs" and "xs = us @ x # vs"
  obtains h' lst' where "oper_list_del x (h, lst) = Some (h', lst')" "represents h' lst' (us @ vs)"
    "\<And>u. u \<notin> set xs \<Longrightarrow> next_oper (h' u) = next_oper (h u) \<and> prev_oper (h' u) = prev_oper (h u)"
proof (cases "us @ vs = []")
  case True
  then have "oper_list_del x (h, lst) = Some (h, None)"
    using assms single_test[of h x "[]"] by (auto simp: represents_def oper_list_del_def)
  then show thesis using that[of h None] True by (simp add: represents_def ring_def)
next
  case False
  define ws where "ws = vs @ us"
  have ne: "ws \<noteq> []" using False by (auto simp: ws_def)
  have R: "ring h (x # ws)" and L: "lst = Some (hd xs)" and d: "distinct xs"
    using assms ring_rotate[of h us "x # vs"] by (auto simp: represents_def ws_def ring_def)
  note D = del_heap[OF R ne]
  let ?h = "set_prev (hd ws) (last ws) (set_next (last ws) (hd ws) h)"
  let ?l = "if us = [] then hd vs else hd us"
  have x: "x \<notin> set ws" using R by (simp add: ring_def)
  then have nx: "x \<noteq> hd ws" "x \<noteq> last ws" using ne hd_in_set last_in_set by metis+
  have one: "\<not> (next_oper (h (hd xs)) = prev_oper (h (hd xs)) \<and> hd xs = next_oper (h (hd xs)))"
    using single_test[of h "hd xs" "tl xs"] assms False by (cases us) (auto simp: represents_def)
  have "hd xs = x \<longleftrightarrow> us = []" using assms(2) d by (cases us) auto
  then have run: "oper_list_del x (h, lst) = Some (?h, Some ?l)"
    using one nx assms(2) by (auto simp: oper_list_del_def L Let_def D(1,2) ws_def)
  have "ring ?h (us @ vs)" using D(3) ring_rotate[of ?h us vs] by (simp add: ws_def)
  then have rep: "represents ?h (Some ?l) (us @ vs)" using False by (auto simp: represents_def)
  have "hd ws \<in> set xs" "last ws \<in> set xs"
    using ne assms(2) hd_in_set[OF ne] last_in_set[OF ne] by (auto simp: ws_def)
  then have "next_oper (?h u) = next_oper (h u) \<and> prev_oper (?h u) = prev_oper (h u)" if "u \<notin> set xs" for u
    using that by auto
  then show thesis by (rule that[OF run rep])
qed

lemma del_represents:
  assumes "represents h lst xs" and "x \<in> set xs"
  obtains h' lst' where "oper_list_del x (h, lst) = Some (h', lst')"
    "represents h' lst' (remove1 x xs)"
    "\<And>q ys. represents h q ys \<Longrightarrow> set xs \<inter> set ys = {} \<Longrightarrow> represents h' q ys"
proof -
  obtain us vs where xs: "xs = us @ x # vs" "x \<notin> set us" using split_list_first[OF assms(2)] by auto
  obtain h' lst' where D: "oper_list_del x (h, lst) = Some (h', lst')" "represents h' lst' (us @ vs)"
      "\<And>u. u \<notin> set xs \<Longrightarrow> next_oper (h' u) = next_oper (h u) \<and> prev_oper (h' u) = prev_oper (h u)"
    using del_code[OF assms(1) xs(1)] by blast
  show thesis
  proof (rule that[OF D(1)])
    show "represents h' lst' (remove1 x xs)" using D(2) xs by (simp add: remove1_append)
    fix q ys assume "represents h q ys" "set xs \<inter> set ys = {}"
    then show "represents h' q ys"
      using D(3) ring_frame[of h ys h'] by (auto simp: represents_def disjoint_iff)
  qed
qed

section \<open>The interface\<close>

text \<open>
  What the scheduler relies on: adding appends, deleting removes, the successor of an element
  is the next one of the list or, from the last, the first; and a list does not notice what
  happens to another.
\<close>

locale oper_lists =
  fixes ins :: "'x \<Rightarrow> 'h \<times> 'p \<Rightarrow> 'h \<times> 'p" and del :: "'x \<Rightarrow> 'h \<times> 'p \<Rightarrow> ('h \<times> 'p) option"
    and succ :: "'h \<Rightarrow> 'x \<Rightarrow> 'x" and rep :: "'h \<Rightarrow> 'p \<Rightarrow> 'x list \<Rightarrow> bool"
  assumes rep_distinct: "rep h p xs \<Longrightarrow> distinct xs"
    and rep_ins: "rep h p xs \<Longrightarrow> x \<notin> set xs \<Longrightarrow> ins x (h, p) = (h', p') \<Longrightarrow> rep h' p' (xs @ [x])"
    and ins_frame: "rep h p xs \<Longrightarrow> rep h q ys \<Longrightarrow> x \<notin> set xs \<Longrightarrow> x \<notin> set ys \<Longrightarrow>
      set xs \<inter> set ys = {} \<Longrightarrow> ins x (h, p) = (h', p') \<Longrightarrow> rep h' q ys"
    and rep_del: "rep h p xs \<Longrightarrow> x \<in> set xs \<Longrightarrow>
      \<exists>h' p'. del x (h, p) = Some (h', p') \<and> rep h' p' (remove1 x xs)
        \<and> (\<forall>q ys. rep h q ys \<longrightarrow> set xs \<inter> set ys = {} \<longrightarrow> rep h' q ys)"
    and rep_succ: "rep h p (us @ x # vs) \<Longrightarrow> succ h x = hd (vs @ us @ [x])"
begin

text \<open>Moving an element from one list to the end of another.\<close>

definition move :: "'x \<Rightarrow> 'h \<Rightarrow> 'p \<Rightarrow> 'p \<Rightarrow> ('h \<times> 'p \<times> 'p) option" where
  "move x h p q = (case del x (h, p) of None \<Rightarrow> None
     | Some (ha, pa) \<Rightarrow> (case ins x (ha, q) of (hb, qb) \<Rightarrow> Some (hb, pa, qb)))"

lemma move_ok:
  assumes p: "rep h p xs" and q: "rep h q ys" and x: "x \<in> set xs" and pq: "set xs \<inter> set ys = {}"
  obtains h' p' q' where "move x h p q = Some (h', p', q')"
    "rep h' p' (remove1 x xs)" "rep h' q' (ys @ [x])"
    "\<And>r zs. rep h r zs \<Longrightarrow> set xs \<inter> set zs = {} \<Longrightarrow> set ys \<inter> set zs = {} \<Longrightarrow> rep h' r zs"
proof -
  obtain ha pa where D: "del x (h, p) = Some (ha, pa)" "rep ha pa (remove1 x xs)"
      "\<And>q ys. rep h q ys \<Longrightarrow> set xs \<inter> set ys = {} \<Longrightarrow> rep ha q ys"
    using rep_del[OF p x] by blast
  obtain hb qb where I: "ins x (ha, q) = (hb, qb)" by (cases "ins x (ha, q)")
  have y: "x \<notin> set ys" "x \<notin> set (remove1 x xs)" using x pq rep_distinct[OF p] by auto
  have ya: "rep ha q ys" by (rule D(3)[OF q pq])
  have sub: "set (remove1 x xs) \<subseteq> set xs" by (rule set_remove1_subset)
  show thesis
  proof (rule that)
    show "move x h p q = Some (hb, pa, qb)" using D(1) I by (simp add: move_def)
    show "rep hb pa (remove1 x xs)"
      using ins_frame[OF ya D(2) y _ I] pq sub by blast
    show "rep hb qb (ys @ [x])" by (rule rep_ins[OF ya y(1) I])
    fix r zs assume "rep h r zs" "set xs \<inter> set zs = {}" "set ys \<inter> set zs = {}"
    moreover from this(2) x have "x \<notin> set zs" by blast
    ultimately show "rep hb r zs" using ins_frame[OF ya D(3) y(1) _ _ I] by blast
  qed
qed

end

interpretation opers: oper_lists oper_list_add oper_list_del "\<lambda>h x. next_oper (h x)" represents
proof
  fix h :: "'a heap" and p xs x
  show "represents h p xs \<Longrightarrow> distinct xs" by (simp add: represents_def ring_def)
  show "represents h p xs \<Longrightarrow> x \<notin> set xs \<Longrightarrow> oper_list_add x (h, p) = (h', p') \<Longrightarrow> represents h' p' (xs @ [x])"
    for h' p' by (rule add_represents)
  show "represents h p xs \<Longrightarrow> represents h q ys \<Longrightarrow> x \<notin> set xs \<Longrightarrow> x \<notin> set ys \<Longrightarrow>
      set xs \<inter> set ys = {} \<Longrightarrow> oper_list_add x (h, p) = (h', p') \<Longrightarrow> represents h' q ys"
    for q ys h' p' by (rule add_frame)
  show "\<exists>h' p'. oper_list_del x (h, p) = Some (h', p') \<and> represents h' p' (remove1 x xs)
      \<and> (\<forall>q ys. represents h q ys \<longrightarrow> set xs \<inter> set ys = {} \<longrightarrow> represents h' q ys)"
    if "represents h p xs" "x \<in> set xs"
    by (rule del_represents[OF that]) blast
  show "represents h p (us @ x # vs) \<Longrightarrow> next_oper (h x) = hd (vs @ us @ [x])" for us vs
    by (rule ring_next) (simp add: represents_def)
qed

end
