(* ===== verification/Aio_State.thy ===== *)
theory Aio_State
  imports Complex_Main Aio_Ring
begin

text \<open>
  The data of \<open>aio-stress\<close>: operations (a file and a range of it), I/O units (one request with
  its buffer), the state of a thread, and the latency statistics. A C pointer to an operation is
  an address in the heap \<open>opers\<close>, a pointer to a unit is its index in the array \<open>ios\<close>.
  A \<open>double\<close> is a rational number: the rounding of the statistics is not modelled.

  The kernel (\<open>libaio\<close>, the clock, \<open>fstat\<close>, \<open>rand\<close>) is a record of functions over an arbitrary
  state \<open>'k\<close>. An event carries the unit, the result and what the kernel left in its buffer.
\<close>

section \<open>Time and latencies\<close>

record timeval =
  tv_sec :: int
  tv_usec :: int

definition time_since :: "timeval \<Rightarrow> timeval \<Rightarrow> rat" where
  "time_since start_tv stop_tv =
     (let sec = tv_sec stop_tv - tv_sec start_tv;
          usec = tv_usec stop_tv - tv_usec start_tv;
          borrow = (0 < sec \<and> usec < 0);
          sec1 = (if borrow then sec - 1 else sec);
          usec1 = (if borrow then usec + 1000000 else usec);
          ret = of_int sec1 + of_int usec1 / 1000000
      in if ret < 0 then 0 else ret)"

definition deviations :: "rat list" where
  "deviations = [100, 250, 500, 1000, 5000, 10000]"

record io_latency =
  lat_max :: rat
  lat_min :: rat
  total_io :: nat
  total_lat :: rat
  lat_deviations :: "nat list"

definition no_latency :: io_latency where
  "no_latency = \<lparr>lat_max = 0, lat_min = 0, total_io = 0, total_lat = 0,
     lat_deviations = replicate 6 0\<rparr>"

text \<open>The loop over the granularities: the first one above the latency is counted.\<close>

fun count_deviation :: "rat \<Rightarrow> rat list \<Rightarrow> nat list \<Rightarrow> nat list" where
  "count_deviation delta (d # ds) (n # ns) =
     (if delta < d then Suc n # ns else n # count_deviation delta ds ns)"
| "count_deviation delta _ ns = ns"

definition calc_latency :: "timeval \<Rightarrow> timeval \<Rightarrow> io_latency \<Rightarrow> io_latency" where
  "calc_latency start_tv stop_tv lat =
     (let delta = time_since start_tv stop_tv * 1000 in
      \<lparr>lat_max = (if lat_max lat < delta then delta else lat_max lat),
       lat_min = (if lat_min lat = 0 \<or> delta < lat_min lat then delta else lat_min lat),
       total_io = total_io lat + 1,
       total_lat = total_lat lat + delta,
       lat_deviations = count_deviation delta deviations (lat_deviations lat)\<rparr>)"

text \<open>
  What \<open>print_lat\<close> prints (minimum, average, maximum, the counters, and the rest if any), after
  which the statistics are cleared.
\<close>

definition print_lat :: "io_latency \<Rightarrow> (rat \<times> rat \<times> rat \<times> nat list \<times> nat option) \<times> io_latency" where
  "print_lat lat =
     (let total_counted = sum_list (lat_deviations lat) in
      ((lat_min lat, total_lat lat / of_nat (total_io lat), lat_max lat, lat_deviations lat,
        if total_counted \<noteq> 0 \<and> total_io lat - total_counted \<noteq> 0
        then Some (total_io lat - total_counted) else None), no_latency))"

section \<open>Operations, units, threads\<close>

abbreviation (input) WRITE :: int where "WRITE \<equiv> 0"
abbreviation (input) READ :: int where "READ \<equiv> 1"
abbreviation (input) RWRITE :: int where "RWRITE \<equiv> 2"
abbreviation (input) RREAD :: int where "RREAD \<equiv> 3"
abbreviation (input) LAST_STAGE :: int where "LAST_STAGE \<equiv> 4"

abbreviation (input) RUN_FOREVER :: int where "RUN_FOREVER \<equiv> -1"
abbreviation (input) EAGAIN :: int where "EAGAIN \<equiv> 11"

record io_oper = node +
  fd :: int
  start :: int
  end_off :: int
  reclen :: int
  num_pending :: int
  last_err :: int
  num_err :: int
  rw :: int
  total_ios :: int
  started_ios :: int
  last_offset :: int
  stonewalled :: bool
  start_time :: timeval
  file_name :: string

record iocb =
  aio_fd :: int
  aio_read :: bool \<comment> \<open>\<open>io_prep_pread\<close> or \<open>io_prep_pwrite\<close>\<close>
  aio_len :: int
  aio_offset :: int

record io_unit =
  iocb_of :: iocb
  unit_oper :: nat
  buf :: "byte list"
  buf_size :: int
  busy :: bool \<comment> \<open>\<open>IO_PENDING\<close>\<close>
  res :: int
  io_start_time :: timeval

text \<open>What the program prints and a reader of its output relies on.\<close>

datatype report =
    Io_error int int int int \<comment> \<open>result, \<open>rw\<close>, offset, size\<close>
  | Verify_error string int \<comment> \<open>file, offset\<close>
  | Throughput string int rat rat \<comment> \<open>file, \<open>rw\<close>, megabytes, seconds\<close>
  | Stage_total int rat \<comment> \<open>\<open>rw\<close>, megabytes\<close>
  | Latency string "rat \<times> rat \<times> rat \<times> nat list \<times> nat option"

record 'k thread =
  io_ctx :: 'k
  ios :: "io_unit list"
  free_ious :: "nat list" \<comment> \<open>the list through the \<open>next\<close> fields of the units\<close>
  num_global_pending :: int
  num_global_events :: int
  io_submit_latency :: io_latency
  io_completion_latency :: io_latency
  opers :: "nat \<Rightarrow> io_oper"
  active_opers :: "nat option"
  finished_opers :: "nat option"
  num_files :: int
  stage_mb_trans :: rat
  reports :: "report list"

text \<open>The globals, read only once the threads run.\<close>

record aio_config =
  stages :: int
  page_size_mask :: int
  io_iter :: int
  iterations :: int
  max_io_submit :: int
  rec_len :: int
  num_threads :: int
  num_contexts :: int
  context_offset :: int
  fsync_stages :: bool
  stonewall :: bool
  verify :: bool
  latency_stats :: bool
  completion_latency_stats :: bool
  verify_buf :: "byte list"

type_synonym event = "nat \<times> int \<times> byte list"

record 'k aio_kernel =
  a_submit :: "(nat \<times> iocb) list \<Rightarrow> 'k \<Rightarrow> int \<times> 'k"
  a_getevents :: "int \<Rightarrow> int \<Rightarrow> 'k \<Rightarrow> int \<times> event list \<times> 'k" \<comment> \<open>least and greatest number\<close>
  a_now :: "'k \<Rightarrow> timeval \<times> 'k"
  a_stat :: "int \<Rightarrow> 'k \<Rightarrow> int \<times> bool \<times> int" \<comment> \<open>result, \<open>S_ISREG\<close>, \<open>st_size\<close>\<close>
  a_rand :: "'k \<Rightarrow> int \<times> 'k"
  a_fsync :: "int \<Rightarrow> 'k \<Rightarrow> 'k"
  a_lock :: "'k \<Rightarrow> 'k option" \<comment> \<open>\<open>stage_mutex\<close>; \<open>None\<close>: it never gets it\<close>
  a_unlock :: "'k \<Rightarrow> 'k"
  a_wait :: "'k \<Rightarrow> 'k option" \<comment> \<open>\<open>stage_cond\<close>; \<open>None\<close>: no one wakes the thread\<close>
  a_broadcast :: "'k \<Rightarrow> 'k"
  a_counts :: "'k \<Rightarrow> (int \<times> int) \<times> 'k" \<comment> \<open>what it reads in \<open>threads_starting\<close>, \<open>threads_ending\<close>\<close>
  a_set_counts :: "int \<times> int \<Rightarrow> 'k \<Rightarrow> 'k"

type_synonym ('k, 'a) act = "(halt \<times> 'k thread) + ('a \<times> 'k thread)"

definition set_oper :: "nat \<Rightarrow> (io_oper \<Rightarrow> io_oper) \<Rightarrow> 'k thread \<Rightarrow> 'k thread" where
  "set_oper x f t = t\<lparr>opers := (opers t)(x := f (opers t x))\<rparr>"

definition set_unit :: "nat \<Rightarrow> (io_unit \<Rightarrow> io_unit) \<Rightarrow> 'k thread \<Rightarrow> 'k thread" where
  "set_unit u f t = t\<lparr>ios := (ios t)[u := f (ios t ! u)]\<rparr>"

definition say :: "report \<Rightarrow> 'k thread \<Rightarrow> 'k thread" where
  "say r t = t\<lparr>reports := reports t @ [r]\<rparr>"

section \<open>The statistics are consistent\<close>

lemma time_since_eq:
  "time_since a b = max 0 (of_int (tv_sec b - tv_sec a) + of_int (tv_usec b - tv_usec a) / 1000000)"
  by (auto simp: time_since_def Let_def field_simps)

text \<open>The statistics after a sequence of measurements.\<close>

definition latency_after :: "(timeval \<times> timeval) list \<Rightarrow> io_latency" where
  "latency_after ms = fold (\<lambda>(a, b). calc_latency a b) ms no_latency"

text \<open>A measurement in milliseconds; a clock that was set back counts as 0.\<close>

definition delta_ms :: "timeval \<times> timeval \<Rightarrow> rat" where
  "delta_ms m = max 0 (of_int (tv_sec (snd m) - tv_sec (fst m)) * 1000 + of_int (tv_usec (snd m) - tv_usec (fst m)) / 1000)"

lemma time_since_delta: "time_since (fst m) (snd m) * 1000 = delta_ms m"
  unfolding time_since_eq delta_ms_def by (simp add: max_def field_simps)

lemma delta_ms_nonneg [simp]: "0 \<le> delta_ms m"
  by (simp add: delta_ms_def)

lemma latency_after_snoc:
  "latency_after (ms @ [m]) = calc_latency (fst m) (snd m) (latency_after ms)"
  by (cases m) (simp add: latency_after_def)

lemma latency_totals:
  "total_io (latency_after ms) = length ms \<and> total_lat (latency_after ms) = sum_list (map delta_ms ms)"
  by (induction ms rule: rev_induct)
    (simp_all add: latency_after_snoc calc_latency_def Let_def time_since_delta, simp_all add: latency_after_def no_latency_def)

text \<open>How many measurements are in a range.\<close>

definition in_bucket :: "rat \<Rightarrow> rat \<Rightarrow> (timeval \<times> timeval) list \<Rightarrow> nat" where
  "in_bucket lo hi ms = length (filter (\<lambda>m. lo \<le> delta_ms m \<and> delta_ms m < hi) ms)"

lemma in_bucket_snoc:
  "in_bucket lo hi (ms @ [m]) = (if lo \<le> delta_ms m \<and> delta_ms m < hi then Suc (in_bucket lo hi ms) else in_bucket lo hi ms)"
  by (simp add: in_bucket_def)

lemma latency_buckets:
  "lat_deviations (latency_after ms) = [in_bucket 0 100 ms, in_bucket 100 250 ms, in_bucket 250 500 ms,
     in_bucket 500 1000 ms, in_bucket 1000 5000 ms, in_bucket 5000 10000 ms]"
proof (induction ms rule: rev_induct)
  case Nil
  then show ?case by (simp add: latency_after_def no_latency_def in_bucket_def numeral_eq_Suc)
next
  case (snoc m ms)
  have "lat_deviations (latency_after (ms @ [m])) = count_deviation (delta_ms m) deviations (lat_deviations (latency_after ms))"
    by (simp add: latency_after_snoc calc_latency_def Let_def time_since_delta)
  then show ?case unfolding snoc in_bucket_snoc by (simp add: deviations_def)
qed

lemma all_in_buckets:
  "in_bucket 0 100 ms + in_bucket 100 250 ms + in_bucket 250 500 ms + in_bucket 500 1000 ms + in_bucket 1000 5000 ms
     + in_bucket 5000 10000 ms + length (filter (\<lambda>m. 10000 \<le> delta_ms m) ms) = length ms"
proof (induction ms)
  case (Cons m ms)
  have "0 \<le> delta_ms m" by simp
  then show ?case using Cons by (auto simp: in_bucket_def)
qed (simp add: in_bucket_def)

lemma latency_max:
  "lat_max (latency_after ms) = (if ms = [] then 0 else Max (delta_ms ` set ms))"
proof (induction ms rule: rev_induct)
  case Nil
  then show ?case by (simp add: latency_after_def no_latency_def)
next
  case (snoc m ms)
  have "lat_max (latency_after (ms @ [m])) = max (delta_ms m) (lat_max (latency_after ms))"
    by (simp add: latency_after_snoc calc_latency_def Let_def time_since_delta max_def)
  then show ?case using snoc delta_ms_nonneg[of m] by (cases "ms = []") (simp_all add: max_absorb1)
qed

text \<open>
  C26 (invariant). After any sequence of measurements the statistics are those of the measurements: their
  number, their total and the greatest of them, each in milliseconds, and each counter of the histogram is
  the number of measurements in its range, from 0 to 100, to 250, to 500, to 1000, to 5000 and to 10000
  milliseconds. What \<open>print_lat\<close> shows as the rest is the number of those that took longer.
\<close>

theorem latency_statistics:
  "total_io (latency_after ms) = length ms
   \<and> total_lat (latency_after ms) = sum_list (map delta_ms ms)
   \<and> lat_max (latency_after ms) = (if ms = [] then 0 else Max (delta_ms ` set ms))
   \<and> lat_deviations (latency_after ms) =
       map (\<lambda>(lo, hi). length (filter (\<lambda>m. lo \<le> delta_ms m \<and> delta_ms m < hi) ms))
         [(0, 100), (100, 250), (250, 500), (500, 1000), (1000, 5000), (5000, 10000)]
   \<and> total_io (latency_after ms) - sum_list (lat_deviations (latency_after ms))
       = length (filter (\<lambda>m. 10000 \<le> delta_ms m) ms)"
  using latency_totals[of ms] latency_buckets[of ms] latency_max[of ms] all_in_buckets[of ms]
  by (simp add: in_bucket_def)

text \<open>
  The minimum is not the least latency: a latency of 0 stands for ``none yet'', so
  after one the next latency, however long, is taken as the minimum.
\<close>

theorem latency_minimum_lost:
  assumes "delta_ms z = 0" and "0 < delta_ms m"
  shows "lat_min (latency_after (ms @ [z, m])) = delta_ms m
    \<and> delta_ms z < lat_min (latency_after (ms @ [z, m]))"
proof -
  have "latency_after (ms @ [z, m])
      = calc_latency (fst m) (snd m) (calc_latency (fst z) (snd z) (latency_after ms))"
    using latency_after_snoc[of "ms @ [z]" m] latency_after_snoc[of ms z] by simp
  moreover have "0 \<le> lat_min (latency_after ms)"
  proof (induction ms rule: rev_induct)
    case (snoc x xs)
    then show ?case
      by (auto simp: latency_after_snoc calc_latency_def Let_def time_since_delta)
  qed (simp add: latency_after_def no_latency_def)
  ultimately show ?thesis
    using assms by (auto simp: calc_latency_def Let_def time_since_delta)
qed

theorem latency_minimum_lost_witness:
  "lat_min (latency_after [(\<lparr>tv_sec = 1, tv_usec = 0\<rparr>, \<lparr>tv_sec = 1, tv_usec = 0\<rparr>),
      (\<lparr>tv_sec = 1, tv_usec = 0\<rparr>, \<lparr>tv_sec = 3, tv_usec = 0\<rparr>)]) = 2000"
proof -
  let ?t = "\<lparr>tv_sec = 1, tv_usec = 0\<rparr>" and ?u = "\<lparr>tv_sec = 3, tv_usec = 0\<rparr>"
  have "delta_ms (?t, ?t) = 0" "delta_ms (?t, ?u) = 2000" by (simp_all add: delta_ms_def time_since_def)
  then show ?thesis using latency_minimum_lost[of "(?t, ?t)" "(?t, ?u)" "[]"] by simp
qed

end
