(* ===== verification/Aio_Io.thy ===== *)
theory Aio_Io
  imports Aio_State
begin

text \<open>
  Single requests in \<open>aio-stress\<close>: completing them (\<open>finish_io\<close>, \<open>read_some_events\<close>), preparing
  them (\<open>find_iou\<close>, \<open>build_iocb\<close>, \<open>build_oper\<close>) and submitting them (\<open>run_built\<close>). The array
  \<open>iocbs\<close> of prepared requests is the list of their units.
\<close>

section \<open>Completion\<close>

text \<open>
  A short read is an error if the file is long enough; the data of a sequential read is compared
  with the pattern when \<open>verify\<close> is set, which only prints.
\<close>

definition check_finished_io :: "aio_config \<Rightarrow> 'k aio_kernel \<Rightarrow> nat \<Rightarrow> 'k thread \<Rightarrow> int \<times> 'k thread" where
  "check_finished_io c K u t =
     (let io = ios t ! u; x = unit_oper io; oper = opers t x; off = aio_offset (iocb_of io);
          st_size = snd (snd (a_stat K (fd oper) (io_ctx t))) in
      if res io \<noteq> buf_size io \<and> (rw oper = READ \<or> rw oper = RREAD) \<and> off + res io < st_size then
        (-1, say (Io_error (res io) (rw oper) off (buf_size io))
               (set_oper x (\<lambda>p. p\<lparr>last_err := s32 (res io), num_err := num_err p + 1\<rparr>) t))
      else if verify c \<and> rw oper = READ
              \<and> take (nat (reclen oper)) (buf io) \<noteq> take (nat (reclen oper)) (verify_buf c) then
        (0, say (Verify_error (file_name oper) off) t)
      else (0, t))"

definition grab_iou :: "nat \<Rightarrow> nat \<Rightarrow> 'k thread \<Rightarrow> int \<times> 'k thread" where
  "grab_iou u x t =
     (if busy (ios t ! u) then (-1, t)
      else (0, set_unit u (\<lambda>io. io\<lparr>busy := True, res := 0, unit_oper := x\<rparr>) t))"

definition oper_mb_trans :: "io_oper \<Rightarrow> rat" where
  "oper_mb_trans oper = of_int (started_ios oper) * of_int (reclen oper) / (1024 * 1024)"

definition now :: "'k aio_kernel \<Rightarrow> 'k thread \<Rightarrow> timeval \<times> 'k thread" where
  "now K t = (case a_now K (io_ctx t) of (tv, k) \<Rightarrow> (tv, t\<lparr>io_ctx := k\<rparr>))"

definition print_time :: "'k aio_kernel \<Rightarrow> nat \<Rightarrow> 'k thread \<Rightarrow> 'k thread" where
  "print_time K x t =
     (case now K t of (tv, t1) \<Rightarrow>
        let oper = opers t x in
        say (Throughput (file_name oper) (rw oper) (oper_mb_trans oper) (time_since (start_time oper) tv)) t1)"

definition finish_io ::
  "aio_config \<Rightarrow> 'k aio_kernel \<Rightarrow> nat \<Rightarrow> int \<Rightarrow> byte list \<Rightarrow> timeval \<Rightarrow> 'k thread \<Rightarrow> 'k thread" where
  "finish_io c K u result data tv_now t =
     (let x = unit_oper (ios t ! u);
          t1 = t\<lparr>io_completion_latency :=
                   calc_latency (io_start_time (ios t ! u)) tv_now (io_completion_latency t)\<rparr>;
          t2 = set_unit u (\<lambda>io. io\<lparr>buf := data, res := result, busy := False\<rparr>) t1;
          t3 = t2\<lparr>free_ious := u # free_ious t2\<rparr>;
          t4 = set_oper x (\<lambda>p. p\<lparr>num_pending := num_pending p - 1\<rparr>) t3;
          t5 = t4\<lparr>num_global_pending := num_global_pending t4 - 1\<rparr>;
          t6 = snd (check_finished_io c K u t5);
          oper = opers t6 x
      in if num_pending oper = 0 \<and> (started_ios oper = total_ios oper \<or> stonewalled oper)
         then print_time K x t6 else t6)"

definition read_some_events :: "aio_config \<Rightarrow> 'k aio_kernel \<Rightarrow> 'k thread \<Rightarrow> int \<times> 'k thread" where
  "read_some_events c K t =
     (let min_nr = (if num_global_pending t < io_iter c then num_global_pending t else io_iter c) in
      case a_getevents K min_nr (num_global_events t) (io_ctx t) of (nr, evs, k) \<Rightarrow>
        let t1 = t\<lparr>io_ctx := k\<rparr> in
        if nr \<le> 0 then (nr, t1)
        else
          (case now K t1 of (stop_time, t2) \<Rightarrow>
             (nr, fold (\<lambda>(u, r, data). finish_io c K u r data stop_time) (take (nat nr) evs) t2)))"

section \<open>Preparation\<close>

text \<open>\<open>None\<close> as the result is a null pointer.\<close>

partial_function (option) find_iou_loop ::
  "aio_config \<Rightarrow> 'k aio_kernel \<Rightarrow> nat \<Rightarrow> 'k thread \<Rightarrow> ('k, nat option) act option" where
  "find_iou_loop c K x t =
     (case free_ious t of
        u # us \<Rightarrow>
          (case grab_iou u x (t\<lparr>free_ious := us\<rparr>) of (r, t1) \<Rightarrow>
             Some (if r \<noteq> 0 then Inl (Abort, t1) else Inr (Some u, t1)))
      | [] \<Rightarrow>
          (case read_some_events c K t of (nr, t1) \<Rightarrow>
             if 0 < nr then find_iou_loop c K x t1 else Some (Inr (None, t1))))"

definition or_hang :: "'s \<Rightarrow> ((halt \<times> 's) + 'a) option \<Rightarrow> (halt \<times> 's) + 'a" where
  "or_hang s r = (case r of None \<Rightarrow> Inl (Hang, s) | Some y \<Rightarrow> y)"

definition find_iou :: "aio_config \<Rightarrow> 'k aio_kernel \<Rightarrow> nat \<Rightarrow> 'k thread \<Rightarrow> ('k, nat option) act" where
  "find_iou c K x t = or_hang t (find_iou_loop c K x t)"

text \<open>
  \<open>(int)((double) range * rand() / (RAND_MAX + 1.0))\<close>. The product of the doubles is exact while
  it is below \<open>2^53\<close>, which it is for ranges below \<open>2^22\<close> (files below 4 TiB).
\<close>

definition scaled_rand :: "int \<Rightarrow> int \<Rightarrow> int" where
  "scaled_rand mbs r = mbs * r div 2147483648"

definition page_align :: "int \<Rightarrow> int \<Rightarrow> int" where
  "page_align pmask n = s64 (u64 (n + pmask) AND u64 (NOT pmask))"

definition random_byte_offset :: "int \<Rightarrow> io_oper \<Rightarrow> int \<Rightarrow> int \<Rightarrow> int" where
  "random_byte_offset pmask oper r1 r2 =
     (let mbs0 = c_div (end_off oper - start oper) (1024 * 1024);
          offset = (if 1024 * 1024 < u64 (pmask + 1) then u64 (pmask + 1) div (1024 * 1024) else 1);
          mbs = (if mbs0 < offset then 0 else mbs0 - offset);
          rand_byte = start oper + (1 + scaled_rand mbs r1) * 1024 * 1024;
          num = page_align pmask (1 + scaled_rand (1024 * 1024) r2);
          rand_byte1 = rand_byte + num
      in if end_off oper < rand_byte1 + reclen oper then rand_byte1 - reclen oper else rand_byte1)"

definition random_offset :: "aio_config \<Rightarrow> 'k aio_kernel \<Rightarrow> nat \<Rightarrow> 'k thread \<Rightarrow> int \<times> 'k thread" where
  "random_offset c K x t =
     (case a_rand K (io_ctx t) of (r1, k1) \<Rightarrow> case a_rand K k1 of (r2, k2) \<Rightarrow>
        (random_byte_offset (page_size_mask c) (opers t x) r1 r2, t\<lparr>io_ctx := k2\<rparr>))"

definition prep_iocb :: "nat \<Rightarrow> bool \<Rightarrow> int \<Rightarrow> nat \<Rightarrow> 'k thread \<Rightarrow> 'k thread" where
  "prep_iocb u rd off x t =
     set_unit u (\<lambda>io. io\<lparr>iocb_of := \<lparr>aio_fd = fd (opers t x), aio_read = rd,
       aio_len = reclen (opers t x), aio_offset = off\<rparr>\<rparr>) t"

definition build_iocb :: "aio_config \<Rightarrow> 'k aio_kernel \<Rightarrow> nat \<Rightarrow> 'k thread \<Rightarrow> ('k, nat option) act" where
  "build_iocb c K x t =
     on_ok (find_iou c K x t) (\<lambda>(r, t1).
       case r of None \<Rightarrow> Inr (None, t1)
       | Some u \<Rightarrow>
           (let oper = opers t1 x in
            if rw oper = WRITE \<or> rw oper = READ then
              Inr (Some u, set_oper x (\<lambda>p. p\<lparr>last_offset := last_offset p + reclen p\<rparr>)
                             (prep_iocb u (rw oper = READ) (last_offset oper) x t1))
            else if rw oper = RREAD \<or> rw oper = RWRITE then
              (case random_offset c K x t1 of (off, t2) \<Rightarrow>
                 Inr (Some u, prep_iocb u (rw oper = RREAD) off x
                                (set_oper x (\<lambda>p. p\<lparr>last_offset := off\<rparr>) t2)))
            else Inr (Some u, t1)))"

text \<open>
  The loop of \<open>build_oper\<close>: \<open>built\<close> is the part of \<open>iocbs\<close> that is filled. Writing behind its
  \<open>max_io_submit\<close> elements is an access outside the array.
\<close>

fun build_loop ::
  "aio_config \<Rightarrow> 'k aio_kernel \<Rightarrow> nat \<Rightarrow> nat \<Rightarrow> nat list \<Rightarrow> 'k thread \<Rightarrow> ('k, bool \<times> nat list) act" where
  "build_loop c K x 0 built t = Inr ((True, built), t)"
| "build_loop c K x (Suc n) built t =
     on_ok (build_iocb c K x t) (\<lambda>(r, t1).
       case r of None \<Rightarrow> Inr ((False, built), t1)
       | Some u \<Rightarrow>
           if int (length built) < max_io_submit c then build_loop c K x n (built @ [u]) t1
           else Inl (Fault, t1))"

text \<open>
  The number of requests, or -1. After a failure the requests of this operation are not counted;
  the units they hold stay busy.
\<close>

definition build_oper ::
  "aio_config \<Rightarrow> 'k aio_kernel \<Rightarrow> nat \<Rightarrow> int \<Rightarrow> nat list \<Rightarrow> 'k thread \<Rightarrow> ('k, int \<times> nat list) act" where
  "build_oper c K x num_ios built t =
     (let t1 = (if started_ios (opers t x) = 0
                then (case now K t of (tv, s) \<Rightarrow> set_oper x (\<lambda>p. p\<lparr>start_time := tv\<rparr>) s) else t);
          oper = opers t1 x;
          n1 = (if num_ios = 0 then total_ios oper else num_ios);
          n2 = (if total_ios oper < started_ios oper + n1 then total_ios oper - started_ios oper else n1)
      in on_ok (build_loop c K x (nat n2) built t1) (\<lambda>((fine, built1), t2).
           Inr ((if fine then n2 else -1, if fine then built1 else built), t2)))"

section \<open>Submission\<close>

definition update_iou_counters :: "nat list \<Rightarrow> timeval \<Rightarrow> 'k thread \<Rightarrow> 'k thread" where
  "update_iou_counters us tv_now t =
     fold (\<lambda>u t. set_unit u (\<lambda>io. io\<lparr>io_start_time := tv_now\<rparr>)
             (set_oper (unit_oper (ios t ! u))
               (\<lambda>p. p\<lparr>num_pending := num_pending p + 1, started_ios := started_ios p + 1\<rparr>) t)) us t"

partial_function (option) run_built_loop ::
  "aio_config \<Rightarrow> 'k aio_kernel \<Rightarrow> nat list \<Rightarrow> 'k thread \<Rightarrow> ('k, int) act option" where
  "run_built_loop c K us t0 =
     (case now K t0 of (start_tv, t1) \<Rightarrow>
      case a_submit K (map (\<lambda>u. (u, iocb_of (ios t1 ! u))) us) (io_ctx t1) of (ret, k) \<Rightarrow>
      case now K (t1\<lparr>io_ctx := k\<rparr>) of (stop_tv, t2) \<Rightarrow>
        let t3 = t2\<lparr>io_submit_latency := calc_latency start_tv stop_tv (io_submit_latency t2)\<rparr> in
        if ret \<noteq> int (length us) then
          (let (us1, t4) =
             (if 0 < ret
              then (drop (nat ret) us,
                    (update_iou_counters (take (nat ret) us) stop_tv t3)
                      \<lparr>num_global_pending := num_global_pending t3 + ret\<rparr>)
              else (us, t3)) in
           if 0 < ret \<or> ret = -EAGAIN then
             (case read_some_events c K t4 of (nr, t5) \<Rightarrow>
                if 0 < nr then run_built_loop c K us1 t5 else Some (Inl (Abort, t5)))
           else Some (Inr (-1, t4)))
        else
          Some (Inr (0, (update_iou_counters us stop_tv t3)
                          \<lparr>num_global_pending := num_global_pending t3 + ret\<rparr>)))"

definition run_built :: "aio_config \<Rightarrow> 'k aio_kernel \<Rightarrow> nat list \<Rightarrow> 'k thread \<Rightarrow> ('k, int) act" where
  "run_built c K us t = or_hang t (run_built_loop c K us t)"

end
