(* ===== verification/Aio_Worker.thy ===== *)
theory Aio_Worker
  imports Aio_Io
begin

text \<open>
  The state machine of \<open>aio-stress\<close>: an operation runs through its stages (\<open>restart_oper\<close>), a
  thread starts a chunk of requests on each active operation (\<open>run_active_list\<close>) until all are
  finished, waits for them, restarts those with a stage left and begins again (\<open>worker\<close>). With
  several threads a thread meets the others before and after each stage (\<open>stage_starts\<close> and
  \<open>stage_ends\<close>): what the others do while it waits for the mutex or the condition, or reads one of
  the counters they share, is part of the kernel. All threads together are the subject of
  \<open>Aio_Barrier\<close>.
\<close>

section \<open>Stages\<close>

definition has_stage :: "aio_config \<Rightarrow> int \<Rightarrow> bool" where
  "has_stage c st \<longleftrightarrow> bit (stages c) (nat st)"

text \<open>The \<open>switch\<close> falls through, so every later stage is tried in its order.\<close>

definition next_stage :: "aio_config \<Rightarrow> int \<Rightarrow> int" where
  "next_stage c rw0 =
     (let n1 = (if rw0 = WRITE \<and> has_stage c READ then READ else 0);
          n2 = (if (rw0 = WRITE \<or> rw0 = READ) \<and> n1 = 0 \<and> has_stage c RWRITE then RWRITE else n1);
          n3 = (if (rw0 = WRITE \<or> rw0 = READ \<or> rw0 = RWRITE) \<and> n2 = 0 \<and> has_stage c RREAD
                then RREAD else n2)
      in n3)"

definition restart_oper :: "aio_config \<Rightarrow> 'k aio_kernel \<Rightarrow> nat \<Rightarrow> 'k thread \<Rightarrow> bool \<times> 'k thread" where
  "restart_oper c K x t =
     (if last_err (opers t x) \<noteq> 0 then (False, t)
      else
        (let new_rw = next_stage c (rw (opers t x)) in
         if new_rw = 0 then (False, t)
         else
           (let t1 = set_oper x (\<lambda>p. p\<lparr>started_ios := 0, last_offset := start p, stonewalled := False\<rparr>) t;
                t2 = (if num_pending (opers t1 x) \<noteq> 0 then print_time K x t1 else t1)
            in (True, set_oper x (\<lambda>p. p\<lparr>rw := new_rw\<rparr>) t2))))"

definition oper_runnable :: "'k aio_kernel \<Rightarrow> nat \<Rightarrow> 'k thread \<Rightarrow> ('k, bool) act" where
  "oper_runnable K x t =
     (let oper = opers t x in
      if started_ios oper \<noteq> 0 \<or> start oper = 0 then Inr (True, t)
      else if RWRITE \<le> rw oper then Inr (True, t)
      else
        (case a_stat K (fd oper) (io_ctx t) of (ret, isreg, st_size) \<Rightarrow>
           if ret < 0 then Inl (Exit 1, t)
           else Inr (\<not> (isreg \<and> st_size < start oper), t)))"

section \<open>One round over the active operations\<close>

definition add_to ::
  "nat \<Rightarrow> nat option \<Rightarrow> 'k thread \<Rightarrow> nat option \<times> 'k thread" where
  "add_to x lst t = (case oper_list_add x (opers t, lst) of (h, l) \<Rightarrow> (l, t\<lparr>opers := h\<rparr>))"

definition del_from ::
  "nat \<Rightarrow> nat option \<Rightarrow> 'k thread \<Rightarrow> ('k, nat option) act" where
  "del_from x lst t = (case oper_list_del x (opers t, lst) of
     None \<Rightarrow> Inl (Fault, t) | Some (h, l) \<Rightarrow> Inr (l, t\<lparr>opers := h\<rparr>))"

text \<open>
  The first loop: \<open>built\<close> and \<open>bl\<close> are the prepared requests and the list of the operations they
  belong to.
\<close>

partial_function (option) build_active ::
  "aio_config \<Rightarrow> 'k aio_kernel \<Rightarrow> int \<Rightarrow> nat option \<Rightarrow> nat list \<Rightarrow> nat option \<Rightarrow> 'k thread
     \<Rightarrow> ('k, nat list \<times> nat option) act option" where
  "build_active c K iter oper built bl t =
     (case oper of
        None \<Rightarrow> Some (Inr ((built, bl), t))
      | Some x \<Rightarrow>
          (case oper_runnable K x t of
             Inl e \<Rightarrow> Some (Inl e)
           | Inr (runnable, t1) \<Rightarrow>
               if \<not> runnable then
                 (let nx = next_oper (opers t1 x) in
                  if Some nx = active_opers t1 then Some (Inr ((built, bl), t1))
                  else build_active c K iter (Some nx) built bl t1)
               else
                 (case build_oper c K x iter built t1 of
                    Inl e \<Rightarrow> Some (Inl e)
                  | Inr ((ret, built1), t2) \<Rightarrow>
                      if 0 \<le> ret then
                        (case del_from x (active_opers t2) t2 of
                           Inl e \<Rightarrow> Some (Inl e)
                         | Inr (al, t3) \<Rightarrow>
                             (case add_to x bl t3 of (bl1, t4) \<Rightarrow>
                                let t5 = t4\<lparr>active_opers := al\<rparr> in
                                if max_io_submit c < int (length built1) + iter
                                then Some (Inr ((built1, bl1), t5))
                                else build_active c K iter al built1 bl1 t5))
                      else Some (Inr ((built1, bl), t2)))))"

text \<open>The second loop: back to the active list, or to the finished one.\<close>

partial_function (option) put_back :: "nat option \<Rightarrow> 'k thread \<Rightarrow> ('k, unit) act option" where
  "put_back bl t =
     (case bl of
        None \<Rightarrow> Some (Inr ((), t))
      | Some x \<Rightarrow>
          (case del_from x bl t of
             Inl e \<Rightarrow> Some (Inl e)
           | Inr (bl1, t1) \<Rightarrow>
               (case add_to x (active_opers t1) t1 of (al, t2) \<Rightarrow>
                  if started_ios (opers t2 x) = total_ios (opers t2 x) then
                    (case del_from x al t2 of
                       Inl e \<Rightarrow> Some (Inl e)
                     | Inr (al1, t3) \<Rightarrow>
                         (case add_to x (finished_opers t3) t3 of (fl, t4) \<Rightarrow>
                            put_back bl1 (t4\<lparr>active_opers := al1, finished_opers := fl\<rparr>)))
                  else put_back bl1 (t2\<lparr>active_opers := al\<rparr>))))"

definition run_active_list :: "aio_config \<Rightarrow> 'k aio_kernel \<Rightarrow> 'k thread \<Rightarrow> ('k, unit) act" where
  "run_active_list c K t =
     on_ok (or_hang t (build_active c K (io_iter c) (active_opers t) [] None t)) (\<lambda>((built, bl), t1).
       if built = [] then Inr ((), t1)
       else
         on_ok (run_built c K built t1) (\<lambda>(ret, t2).
           if ret < 0 then Inl (Exit 1, t2) else or_hang t2 (put_back bl t2)))"

section \<open>The worker\<close>

partial_function (option) wait_loop ::
  "aio_config \<Rightarrow> 'k aio_kernel \<Rightarrow> nat \<Rightarrow> 'k thread \<Rightarrow> ('k, unit) act option" where
  "wait_loop c K x t =
     (case a_getevents K 1 1 (io_ctx t) of (nr, evs, k) \<Rightarrow>
        let t1 = t\<lparr>io_ctx := k\<rparr> in
        if 0 < nr then
          (case evs of
             [] \<Rightarrow> Some (Inl (Fault, t1))
           | (u, r, data) # _ \<Rightarrow>
               (case now K t1 of (tv_now, t2) \<Rightarrow>
                  let t3 = finish_io c K u r data tv_now t2 in
                  if num_pending (opers t3 x) = 0 then Some (Inr ((), t3)) else wait_loop c K x t3))
        else Some (Inr ((), t1)))"

definition io_oper_wait :: "aio_config \<Rightarrow> 'k aio_kernel \<Rightarrow> nat \<Rightarrow> 'k thread \<Rightarrow> ('k, unit) act" where
  "io_oper_wait c K x t =
     (if num_pending (opers t x) = 0 then Inr ((), t) else or_hang t (wait_loop c K x t))"

text \<open>\<open>stonewall && threads_ending\<close>, read anew in each round.\<close>

definition ending_seen :: "aio_config \<Rightarrow> 'k aio_kernel \<Rightarrow> 'k thread \<Rightarrow> bool \<times> 'k thread" where
  "ending_seen c K t =
     (if stonewall c then (case a_counts K (io_ctx t) of ((_, ending), k) \<Rightarrow> (ending \<noteq> 0, t\<lparr>io_ctx := k\<rparr>))
      else (False, t))"

text \<open>The loop that sends everything; \<open>cnt\<close> is compared with \<open>iterations\<close>.\<close>

partial_function (option) send_loop ::
  "aio_config \<Rightarrow> 'k aio_kernel \<Rightarrow> int \<Rightarrow> 'k thread \<Rightarrow> ('k, int) act option" where
  "send_loop c K cnt t =
     (case active_opers t of
        None \<Rightarrow> Some (Inr (cnt, t))
      | Some x \<Rightarrow>
          if cnt < iterations c \<or> iterations c = RUN_FOREVER then
            (case ending_seen c K t of (ended, t0) \<Rightarrow>
             if ended then
               (let t1 = set_oper x (\<lambda>p. p\<lparr>stonewalled := True\<rparr>) t0 in
                case del_from x (active_opers t1) t1 of
                  Inl e \<Rightarrow> Some (Inl e)
                | Inr (al, t2) \<Rightarrow>
                    (case add_to x (finished_opers t2) t2 of (fl, t3) \<Rightarrow>
                       send_loop c K (cnt + 1) (t3\<lparr>active_opers := al, finished_opers := fl\<rparr>)))
             else
               (case run_active_list c K t0 of
                  Inl e \<Rightarrow> Some (Inl e)
                | Inr (_, t1) \<Rightarrow> send_loop c K (cnt + 1) t1))
          else Some (Inr (cnt, t)))"

partial_function (option) wait_all ::
  "aio_config \<Rightarrow> 'k aio_kernel \<Rightarrow> nat \<Rightarrow> 'k thread \<Rightarrow> ('k, unit) act option" where
  "wait_all c K x t =
     (case io_oper_wait c K x t of
        Inl e \<Rightarrow> Some (Inl e)
      | Inr (_, t1) \<Rightarrow>
          (let nx = next_oper (opers t1 x) in
           if Some nx = finished_opers t1 then Some (Inr ((), t1)) else wait_all c K nx t1))"

text \<open>The loop that restarts: after a restart it begins again at the head of the list.\<close>

partial_function (option) restart_loop ::
  "aio_config \<Rightarrow> 'k aio_kernel \<Rightarrow> nat option \<Rightarrow> 'k thread \<Rightarrow> ('k, unit) act option" where
  "restart_loop c K oper t =
     (case oper of
        None \<Rightarrow> Some (Inr ((), t))
      | Some x \<Rightarrow>
          (let t1 = (if fsync_stages c then t\<lparr>io_ctx := a_fsync K (fd (opers t x)) (io_ctx t)\<rparr> else t);
               t2 = t1\<lparr>stage_mb_trans := stage_mb_trans t1 + oper_mb_trans (opers t1 x)\<rparr>
           in case restart_oper c K x t2 of (again, t3) \<Rightarrow>
                if again then
                  (case del_from x (finished_opers t3) t3 of
                     Inl e \<Rightarrow> Some (Inl e)
                   | Inr (fl, t4) \<Rightarrow>
                       (case add_to x (active_opers t4) t4 of (al, t5) \<Rightarrow>
                          restart_loop c K fl (t5\<lparr>active_opers := al, finished_opers := fl\<rparr>)))
                else
                  (let nx = next_oper (opers t3 x) in
                   if Some nx = finished_opers t3 then Some (Inr ((), t3))
                   else restart_loop c K (Some nx) t3)))"

definition print_latency :: "'k thread \<Rightarrow> 'k thread" where
  "print_latency t =
     (case print_lat (io_submit_latency t) of (shown, lat) \<Rightarrow>
        say (Latency ''latency'' shown) (t\<lparr>io_submit_latency := lat\<rparr>))"

definition print_completion_latency :: "'k thread \<Rightarrow> 'k thread" where
  "print_completion_latency t =
     (case print_lat (io_completion_latency t) of (shown, lat) \<Rightarrow>
        say (Latency ''completion latency'' shown) (t\<lparr>io_completion_latency := lat\<rparr>))"

definition print_latencies :: "aio_config \<Rightarrow> 'k thread \<Rightarrow> 'k thread" where
  "print_latencies c t =
     (let t1 = (if latency_stats c then print_latency t else t)
      in if completion_latency_stats c then print_completion_latency t1 else t1)"

text \<open>
  The meetings of the threads. A thread counts itself under the mutex; the last one resets the other
  counter and wakes the rest, which look at their counter whenever they are woken. The totals of all
  threads that the last one prints at the end of a stage are left out.
\<close>

partial_function (option) await ::
  "'k aio_kernel \<Rightarrow> (int \<times> int \<Rightarrow> int) \<Rightarrow> int \<Rightarrow> 'k thread \<Rightarrow> ('k, unit) act option" where
  "await K counter n t =
     (case a_counts K (io_ctx t) of (cs, k) \<Rightarrow>
        if counter cs = n then Some (Inr ((), t\<lparr>io_ctx := k\<rparr>))
        else
          (case a_wait K k of
             None \<Rightarrow> Some (Inl (Hang, t))
           | Some k1 \<Rightarrow> await K counter n (t\<lparr>io_ctx := k1\<rparr>)))"

definition leave_meeting :: "'k aio_kernel \<Rightarrow> 'k thread \<Rightarrow> ('k, unit) act" where
  "leave_meeting K t = Inr ((), t\<lparr>io_ctx := a_unlock K (io_ctx t)\<rparr>)"

definition stage_starts :: "aio_config \<Rightarrow> 'k aio_kernel \<Rightarrow> 'k thread \<Rightarrow> ('k, unit) act" where
  "stage_starts c K t =
     (if num_threads c \<le> 1 then Inr ((), t)
      else
        (case a_lock K (io_ctx t) of
           None \<Rightarrow> Inl (Hang, t)
         | Some k0 \<Rightarrow>
             (case a_counts K k0 of ((starting, ending), k1) \<Rightarrow>
                let s = s32 (starting + 1);
                    k2 = (if s = num_threads c
                          then a_broadcast K (snd (a_now K (a_set_counts K (s, 0) k1)))
                          else a_set_counts K (s, ending) k1)
                in on_ok (or_hang t (await K fst (num_threads c) (t\<lparr>io_ctx := k2\<rparr>)))
                     (\<lambda>(_, t1). leave_meeting K t1))))"

definition stage_ends :: "aio_config \<Rightarrow> 'k aio_kernel \<Rightarrow> 'k thread \<Rightarrow> ('k, unit) act" where
  "stage_ends c K t =
     (if num_threads c \<le> 1 then Inr ((), t)
      else
        (case a_lock K (io_ctx t) of
           None \<Rightarrow> Inl (Hang, t)
         | Some k0 \<Rightarrow>
             (case a_counts K k0 of ((starting, ending), k1) \<Rightarrow>
                let e = s32 (ending + 1);
                    k2 = (if e = num_threads c then a_broadcast K (a_set_counts K (0, e) k1)
                          else a_set_counts K (starting, e) k1)
                in on_ok (or_hang t (await K snd (num_threads c) (t\<lparr>io_ctx := k2\<rparr>)))
                     (\<lambda>(_, t1). leave_meeting K t1))))"

text \<open>One stage of a thread, from \<open>restart:\<close> to the test for a restart.\<close>

definition stage_work :: "aio_config \<Rightarrow> 'k aio_kernel \<Rightarrow> 'k thread \<Rightarrow> ('k, int) act" where
  "stage_work c K t =
     (let (this_stage, t1) =
        (case active_opers t of
           None \<Rightarrow> (-1, t)
         | Some x \<Rightarrow> (rw (opers t x), (snd (now K t))\<lparr>stage_mb_trans := 0\<rparr>))
      in on_ok (or_hang t1 (send_loop c K 0 t1)) (\<lambda>(cnt, ts).
         let t2 = print_latencies c ts in
         on_ok (case finished_opers t2 of None \<Rightarrow> Inr ((), t2) | Some x \<Rightarrow> or_hang t2 (wait_all c K x t2)) (\<lambda>(_, t3).
         on_ok (or_hang t3 (restart_loop c K (finished_opers t3) t3)) (\<lambda>(_, t4).
         Inr (cnt, if stage_mb_trans t4 \<noteq> 0 \<and> 0 < num_files t4
                   then say (Stage_total this_stage (stage_mb_trans t4)) (snd (now K t4)) else t4)))))"

definition run_stage :: "aio_config \<Rightarrow> 'k aio_kernel \<Rightarrow> 'k thread \<Rightarrow> ('k, int) act" where
  "run_stage c K t =
     on_ok (stage_starts c K t) (\<lambda>(_, t1).
     on_ok (stage_work c K t1) (\<lambda>(cnt, t2).
     on_ok (stage_ends c K t2) (\<lambda>(_, t3). Inr (cnt, t3))))"

text \<open>Freeing the operations; the status is the one of the operation that is freed last.\<close>

partial_function (option) free_loop ::
  "aio_config \<Rightarrow> 'k aio_kernel \<Rightarrow> int \<Rightarrow> 'k thread \<Rightarrow> ('k, int) act option" where
  "free_loop c K status t =
     (case finished_opers t of
        None \<Rightarrow> Some (Inr (status, t))
      | Some x \<Rightarrow>
          (case del_from x (finished_opers t) t of
             Inl e \<Rightarrow> Some (Inl e)
           | Inr (fl, t1) \<Rightarrow>
               (case io_oper_wait c K x (t1\<lparr>finished_opers := fl\<rparr>) of
                  Inl e \<Rightarrow> Some (Inl e)
                | Inr (_, t2) \<Rightarrow> free_loop c K (last_err (opers t2 x)) t2)))"

partial_function (option) worker_loop ::
  "aio_config \<Rightarrow> 'k aio_kernel \<Rightarrow> 'k thread \<Rightarrow> ('k, unit) act option" where
  "worker_loop c K t =
     (case run_stage c K t of
        Inl e \<Rightarrow> Some (Inl e)
      | Inr (cnt, t1) \<Rightarrow>
          if active_opers t1 \<noteq> None \<and> (cnt < iterations c \<or> iterations c = RUN_FOREVER)
          then worker_loop c K t1 else Some (Inr ((), t1)))"

definition worker :: "aio_config \<Rightarrow> 'k aio_kernel \<Rightarrow> 'k thread \<Rightarrow> ('k, int) act" where
  "worker c K t =
     on_ok (or_hang t (worker_loop c K t)) (\<lambda>(_, t1). or_hang t1 (free_loop c K 0 t1))"

section \<open>What the other threads do\<close>

text \<open>No thread ends the stage of another one: with \<open>stonewall\<close> the counter \<open>threads_ending\<close> stays 0.\<close>

definition unstopped :: "aio_config \<Rightarrow> 'k aio_kernel \<Rightarrow> bool" where
  "unstopped c K \<longleftrightarrow> (stonewall c \<longrightarrow> (\<forall>k. snd (fst (a_counts K k)) = 0))"

text \<open>Every meeting of the threads comes about; a thread alone has none.\<close>

definition all_meet :: "aio_config \<Rightarrow> 'k aio_kernel \<Rightarrow> bool" where
  "all_meet c K \<longleftrightarrow> (\<forall>t. (\<exists>t'. stage_starts c K t = Inr ((), t')) \<and> (\<exists>t'. stage_ends c K t = Inr ((), t')))"

lemma alone_meets: "num_threads c \<le> 1 \<Longrightarrow> all_meet c K"
  by (simp add: all_meet_def stage_starts_def stage_ends_def)

end
