(* ===== verification/Aio_Io_Ok.thy ===== *)
theory Aio_Io_Ok
  imports Aio_Io
begin

text \<open>
  The accounting of the requests. \<open>unit_inv P built t\<close>: every unit is free, prepared (\<open>built\<close>) or
  in flight (\<open>P\<close>), in exactly one of these; the busy flags and the counters of the thread and of
  every operation say so. On a kernel that keeps the contract \<open>aio_context\<close> every function of
  \<open>Aio_Io\<close> preserves it, a unit is found as long as one is free or in flight, and \<open>run_built\<close>
  ends with every request submitted exactly once.
\<close>

section \<open>The contract of the kernel\<close>

text \<open>
  \<open>inflight k\<close> is the set of units whose requests the kernel has accepted and not yet returned.
  The calls of the other threads' meetings do not touch them, as each thread has a context of its own.
  \<open>io_submit\<close> accepts a part of what it is given, at least one request unless some are in flight;
  \<open>io_getevents\<close> returns requests in flight, each once, as many as the least number asked for.
\<close>

locale aio_context =
  fixes K :: "'k aio_kernel" and inflight :: "'k \<Rightarrow> nat set"
  assumes fin: "finite (inflight k)"
    and now_inflight: "a_now K k = (tv, k') \<Longrightarrow> inflight k' = inflight k"
    and rand_inflight: "a_rand K k = (r, k') \<Longrightarrow> inflight k' = inflight k"
    and fsync_inflight: "inflight (a_fsync K f k) = inflight k"
    and counts_inflight: "a_counts K k = (cs, k') \<Longrightarrow> inflight k' = inflight k"
    and lock_inflight: "a_lock K k = Some k' \<Longrightarrow> inflight k' = inflight k"
    and wait_inflight: "a_wait K k = Some k' \<Longrightarrow> inflight k' = inflight k"
    and meeting_inflight: "inflight (a_set_counts K cs k) = inflight k" "inflight (a_broadcast K k) = inflight k"
      "inflight (a_unlock K k) = inflight k"
    and stat_ok: "0 \<le> fst (a_stat K f k)"
    and submit: "rs \<noteq> [] \<Longrightarrow> distinct (map fst rs) \<Longrightarrow> set (map fst rs) \<inter> inflight k = {} \<Longrightarrow>
      \<exists>r k'. a_submit K rs k = (r, k') \<and>
        (r = -EAGAIN \<and> inflight k \<noteq> {} \<and> inflight k' = inflight k
         \<or> 0 < r \<and> r \<le> int (length rs) \<and> inflight k' = inflight k \<union> set (take (nat r) (map fst rs)))"
    and getevents: "0 \<le> lo \<Longrightarrow> lo \<le> hi \<Longrightarrow> lo \<le> int (card (inflight k)) \<Longrightarrow>
      \<exists>evs k'. a_getevents K lo hi k = (int (length evs), evs, k') \<and> lo \<le> int (length evs)
        \<and> int (length evs) \<le> hi \<and> distinct (map fst evs) \<and> set (map fst evs) \<subseteq> inflight k
        \<and> inflight k' = inflight k - set (map fst evs)"

section \<open>What the requests do not touch\<close>

text \<open>The fields of an operation that only the scheduler changes, and the rest of the thread.\<close>

definition static :: "io_oper \<Rightarrow> io_oper" where
  "static p = p\<lparr>num_pending := 0, last_err := 0, num_err := 0, started_ios := 0, last_offset := 0,
     start_time := \<lparr>tv_sec = 0, tv_usec = 0\<rparr>\<rparr>"

definition steady :: "'k thread \<Rightarrow> 'k thread \<Rightarrow> bool" where
  "steady t t' \<longleftrightarrow> (\<forall>x. static (opers t' x) = static (opers t x)) \<and> length (ios t') = length (ios t)
     \<and> active_opers t' = active_opers t \<and> finished_opers t' = finished_opers t
     \<and> num_global_events t' = num_global_events t \<and> num_files t' = num_files t"

lemma steady_refl [simp]: "steady t t"
  by (simp add: steady_def)

lemma steady_trans: "steady t u \<Longrightarrow> steady u v \<Longrightarrow> steady t v"
  by (simp add: steady_def)

lemma staticD:
  assumes "static p = static q"
  shows "next_oper p = next_oper q" "prev_oper p = prev_oper q" "rw p = rw q" "start p = start q"
    "total_ios p = total_ios q" "reclen p = reclen q" "end_off p = end_off q" "fd p = fd q"
    "file_name p = file_name q" "stonewalled p = stonewalled q"
  using assms by (cases p; cases q; simp add: static_def)+

lemma static_upd [simp]:
  "static (p\<lparr>num_pending := a\<rparr>) = static p" "static (p\<lparr>last_err := a\<rparr>) = static p"
  "static (p\<lparr>num_err := a\<rparr>) = static p" "static (p\<lparr>started_ios := a\<rparr>) = static p"
  "static (p\<lparr>last_offset := a\<rparr>) = static p" "static (p\<lparr>start_time := tv\<rparr>) = static p"
  by (cases p; simp add: static_def)+

section \<open>The invariant\<close>

definition unit_inv :: "nat set \<Rightarrow> nat list \<Rightarrow> 'k thread \<Rightarrow> bool" where
  "unit_inv P built t \<longleftrightarrow>
     distinct (free_ious t @ built) \<and> finite P \<and> set (free_ious t @ built) \<inter> P = {}
     \<and> set (free_ious t @ built) \<union> P = {..<length (ios t)}
     \<and> (\<forall>u < length (ios t). busy (ios t ! u) \<longleftrightarrow> u \<notin> set (free_ious t))
     \<and> num_global_pending t = int (card P) \<and> num_global_events t = int (length (ios t))
     \<and> (\<forall>x. num_pending (opers t x) = int (card {u \<in> P. unit_oper (ios t ! u) = x}))"

text \<open>Nothing but the accounts matters, and of the units only the flag and the owner.\<close>

lemma unit_inv_cong:
  assumes "unit_inv P built t" and "length (ios t') = length (ios t)"
    and "\<And>u. u < length (ios t) \<Longrightarrow> busy (ios t' ! u) = busy (ios t ! u)
      \<and> unit_oper (ios t' ! u) = unit_oper (ios t ! u)"
    and "free_ious t' = free_ious t" and "num_global_pending t' = num_global_pending t"
    and "num_global_events t' = num_global_events t"
    and "\<And>x. num_pending (opers t' x) = num_pending (opers t x)"
  shows "unit_inv P built t'"
proof -
  have "P \<subseteq> {..<length (ios t)}" using assms(1) by (auto simp: unit_inv_def)
  then have "{u \<in> P. unit_oper (ios t' ! u) = x} = {u \<in> P. unit_oper (ios t ! u) = x}" for x
    using assms(3) by auto
  then show ?thesis using assms by (simp add: unit_inv_def)
qed

lemma unit_inv_size:
  assumes "unit_inv P built t"
  shows "length (free_ious t) + length built + card P = length (ios t)"
proof -
  have "card (set (free_ious t @ built) \<union> P) = length (ios t)" using assms by (simp add: unit_inv_def)
  moreover have "card (set (free_ious t @ built) \<union> P) = card (set (free_ious t @ built)) + card P"
    using assms unfolding unit_inv_def by (intro card_Un_disjoint) auto
  moreover have "card (set (free_ious t @ built)) = length (free_ious t @ built)"
    using assms unfolding unit_inv_def by (intro distinct_card) auto
  ultimately show ?thesis by simp
qed

lemma idle_iff:
  assumes "unit_inv P built t"
  shows "num_pending (opers t y) = 0 \<longleftrightarrow> (\<forall>u \<in> P. unit_oper (ios t ! u) \<noteq> y)"
proof -
  have "finite {u \<in> P. unit_oper (ios t ! u) = y}" using assms by (simp add: unit_inv_def)
  moreover have "num_pending (opers t y) = int (card {u \<in> P. unit_oper (ios t ! u) = y})"
    using assms by (simp add: unit_inv_def)
  ultimately show ?thesis by auto
qed

text \<open>Operations without requests in flight stay so.\<close>

definition quiet :: "'k thread \<Rightarrow> 'k thread \<Rightarrow> bool" where
  "quiet t t' \<longleftrightarrow> (\<forall>y. num_pending (opers t y) = 0 \<longrightarrow> num_pending (opers t' y) = 0)"

lemma quiet_refl [simp]: "quiet t t"
  by (simp add: quiet_def)

lemma quiet_trans: "quiet t u \<Longrightarrow> quiet u v \<Longrightarrow> quiet t v"
  by (simp add: quiet_def)

section \<open>Completion\<close>

lemma check_finished_io_same:
  assumes "check_finished_io c K u t = (r, t')"
  shows "ios t' = ios t" "free_ious t' = free_ious t" "num_global_pending t' = num_global_pending t"
    "io_ctx t' = io_ctx t" "steady t t'"
    "\<And>x. num_pending (opers t' x) = num_pending (opers t x) \<and> started_ios (opers t' x) = started_ios (opers t x)"
  using assms
  by (auto simp: check_finished_io_def Let_def say_def set_oper_def steady_def split: if_splits)

section \<open>Counting submissions\<close>

text \<open>How many of the units belong to an operation.\<close>

definition owned :: "'k thread \<Rightarrow> nat list \<Rightarrow> nat \<Rightarrow> int" where
  "owned t us y = int (length (filter (\<lambda>u. unit_oper (ios t ! u) = y) us))"

lemma owned_Cons: "owned t (u # us) y = (if unit_oper (ios t ! u) = y then 1 else 0) + owned t us y"
  by (simp add: owned_def)

lemma owned_append: "owned t (us @ vs) y = owned t us y + owned t vs y"
  by (simp add: owned_def)

lemma update_same:
  "steady t (update_iou_counters us tv t) \<and> io_ctx (update_iou_counters us tv t) = io_ctx t
    \<and> free_ious (update_iou_counters us tv t) = free_ious t
    \<and> num_global_pending (update_iou_counters us tv t) = num_global_pending t
    \<and> (\<forall>v. busy (ios (update_iou_counters us tv t) ! v) = busy (ios t ! v)
         \<and> unit_oper (ios (update_iou_counters us tv t) ! v) = unit_oper (ios t ! v))
    \<and> (\<forall>y. num_pending (opers (update_iou_counters us tv t) y) = num_pending (opers t y) + owned t us y
         \<and> started_ios (opers (update_iou_counters us tv t) y) = started_ios (opers t y) + owned t us y)"
proof (induction us arbitrary: t)
  case Nil
  then show ?case by (simp add: update_iou_counters_def owned_def)
next
  case (Cons u us)
  define ta where "ta = set_unit u (\<lambda>io. io\<lparr>io_start_time := tv\<rparr>)
     (set_oper (unit_oper (ios t ! u))
       (\<lambda>p. p\<lparr>num_pending := num_pending p + 1, started_ios := started_ios p + 1\<rparr>) t)"
  have step: "update_iou_counters (u # us) tv t = update_iou_counters us tv ta"
    by (simp add: update_iou_counters_def ta_def)
  have un: "busy (ios ta ! v) = busy (ios t ! v) \<and> unit_oper (ios ta ! v) = unit_oper (ios t ! v)" for v
    by (cases "u < length (ios t)"; cases "v = u")
      (simp_all add: ta_def set_unit_def set_oper_def list_update_beyond)
  have ow: "owned ta us y = owned t us y" for y
    by (simp add: owned_def un)
  have st: "steady t ta" by (simp add: steady_def ta_def set_unit_def set_oper_def)
  have op: "num_pending (opers ta y) = num_pending (opers t y) + (if unit_oper (ios t ! u) = y then 1 else 0)
      \<and> started_ios (opers ta y) = started_ios (opers t y) + (if unit_oper (ios t ! u) = y then 1 else 0)" for y
    by (simp add: ta_def set_unit_def set_oper_def)
  have same: "io_ctx ta = io_ctx t" "free_ious ta = free_ious t" "num_global_pending ta = num_global_pending t"
    by (simp_all add: ta_def set_unit_def set_oper_def)
  show ?case
    unfolding step owned_Cons
    using Cons.IH[of ta] steady_trans[OF st] by (simp add: un ow op same algebra_simps)
qed

text \<open>Submitting the first of the prepared units puts them in flight.\<close>

lemma update_inv:
  assumes inv: "unit_inv P (us @ rest) t" and g: "g = num_global_pending t + int (length us)"
  shows "unit_inv (P \<union> set us) rest ((update_iou_counters us tv t)\<lparr>num_global_pending := g\<rparr>)"
proof -
  let ?t = "update_iou_counters us tv t"
  note U = update_same[of t us tv]
  have d: "distinct us" "set us \<inter> P = {}" "finite P" using inv by (auto simp: unit_inv_def)
  have card: "card {u \<in> P \<union> set us. unit_oper (ios t ! u) = y}
      = card {u \<in> P. unit_oper (ios t ! u) = y} + length (filter (\<lambda>u. unit_oper (ios t ! u) = y) us)" for y
  proof -
    have "{u \<in> P \<union> set us. unit_oper (ios t ! u) = y}
        = {u \<in> P. unit_oper (ios t ! u) = y} \<union> set (filter (\<lambda>u. unit_oper (ios t ! u) = y) us)" by auto
    moreover have "card (set (filter (\<lambda>u. unit_oper (ios t ! u) = y) us))
        = length (filter (\<lambda>u. unit_oper (ios t ! u) = y) us)"
      using d(1) by (intro distinct_card) simp
    moreover have "{u \<in> P. unit_oper (ios t ! u) = y} \<inter> set (filter (\<lambda>u. unit_oper (ios t ! u) = y) us) = {}"
      using d(2) by auto
    ultimately show ?thesis using d(3) by (simp add: card_Un_disjoint)
  qed
  have cardP: "card (P \<union> set us) = card P + length us"
    using d by (subst card_Un_disjoint) (auto simp: distinct_card)
  have len: "length (ios ?t) = length (ios t)" "num_global_events ?t = num_global_events t"
    using U by (auto simp: steady_def)
  show ?thesis
    unfolding unit_inv_def
  proof (intro conjI allI impI)
    show "distinct (free_ious (?t\<lparr>num_global_pending := g\<rparr>) @ rest)" "finite (P \<union> set us)"
      "set (free_ious (?t\<lparr>num_global_pending := g\<rparr>) @ rest) \<inter> (P \<union> set us) = {}"
      using inv U by (auto simp: unit_inv_def)
    have "set (free_ious t @ rest) \<union> (P \<union> set us) = {..<length (ios t)}"
      using inv by (auto simp: unit_inv_def)
    then show "set (free_ious (?t\<lparr>num_global_pending := g\<rparr>) @ rest) \<union> (P \<union> set us)
        = {..<length (ios (?t\<lparr>num_global_pending := g\<rparr>))}" using U len by simp
    show "busy (ios (?t\<lparr>num_global_pending := g\<rparr>) ! u) \<longleftrightarrow> u \<notin> set (free_ious (?t\<lparr>num_global_pending := g\<rparr>))"
      if "u < length (ios (?t\<lparr>num_global_pending := g\<rparr>))" for u
      using that inv U len by (simp add: unit_inv_def)
    show "num_global_pending (?t\<lparr>num_global_pending := g\<rparr>) = int (card (P \<union> set us))"
      using inv g cardP by (simp add: unit_inv_def)
    show "num_global_events (?t\<lparr>num_global_pending := g\<rparr>) = int (length (ios (?t\<lparr>num_global_pending := g\<rparr>)))"
      using inv len by (simp add: unit_inv_def)
    show "num_pending (opers (?t\<lparr>num_global_pending := g\<rparr>) y)
        = int (card {u \<in> P \<union> set us. unit_oper (ios (?t\<lparr>num_global_pending := g\<rparr>) ! u) = y})" for y
      using inv U card[of y] by (simp add: unit_inv_def owned_def)
  qed
qed

section \<open>Completion on the kernel of the contract\<close>

context aio_context
begin

lemma now_same:
  assumes "now K t = (tv, t')"
  shows "\<exists>k. t' = t\<lparr>io_ctx := k\<rparr> \<and> inflight k = inflight (io_ctx t)"
  using assms now_inflight by (auto simp: now_def split: prod.splits)

lemma finish_io_ok:
  assumes inv: "unit_inv P built t" and u: "u \<in> P"
  shows "unit_inv (P - {u}) built (finish_io c K u r data tv t)"
    and "steady t (finish_io c K u r data tv t)"
    and "inflight (io_ctx (finish_io c K u r data tv t)) = inflight (io_ctx t)"
    and "\<And>x. started_ios (opers (finish_io c K u r data tv t) x) = started_ios (opers t x)"
    and "\<And>v. unit_oper (ios (finish_io c K u r data tv t) ! v) = unit_oper (ios t ! v)"
    and "free_ious (finish_io c K u r data tv t) = u # free_ious t"
proof -
  define x where "x = unit_oper (ios t ! u)"
  define t1 where "t1 = t\<lparr>io_completion_latency :=
     calc_latency (io_start_time (ios t ! u)) tv (io_completion_latency t)\<rparr>"
  define t5 where "t5 = (set_oper x (\<lambda>p. p\<lparr>num_pending := num_pending p - 1\<rparr>)
     ((set_unit u (\<lambda>io. io\<lparr>buf := data, res := r, busy := False\<rparr>) t1)
       \<lparr>free_ious := u # free_ious t\<rparr>))\<lparr>num_global_pending := num_global_pending t - 1\<rparr>"
  obtain e t6 where t6: "check_finished_io c K u t5 = (e, t6)" by fastforce
  let ?t = "finish_io c K u r data tv t"
  have run: "?t = (if num_pending (opers t6 x) = 0
      \<and> (started_ios (opers t6 x) = total_ios (opers t6 x) \<or> stonewalled (opers t6 x))
      then print_time K x t6 else t6)"
    using t6
    by (auto simp: finish_io_def Let_def t5_def t1_def x_def set_unit_def set_oper_def)
  note C = check_finished_io_same[OF t6]
  have pt: "\<exists>k rs. ?t = t6\<lparr>io_ctx := k, reports := rs\<rparr> \<and> inflight k = inflight (io_ctx t6)"
  proof -
    obtain s tq where n: "now K t6 = (s, tq)" by fastforce
    obtain k where k: "tq = t6\<lparr>io_ctx := k\<rparr>" "inflight k = inflight (io_ctx t6)"
      using now_same[OF n] by blast
    show ?thesis
    proof (cases "num_pending (opers t6 x) = 0
        \<and> (started_ios (opers t6 x) = total_ios (opers t6 x) \<or> stonewalled (opers t6 x))")
      case True
      then have "?t = t6\<lparr>io_ctx := k, reports := reports t6 @ [Throughput (file_name (opers t6 x))
          (rw (opers t6 x)) (oper_mb_trans (opers t6 x)) (time_since (start_time (opers t6 x)) s)]\<rparr>"
        using n k unfolding run by (simp add: print_time_def Let_def say_def)
      then show ?thesis using k(2) by blast
    next
      case False
      then have "?t = t6\<lparr>io_ctx := io_ctx t6, reports := reports t6\<rparr>" unfolding run by auto
      then show ?thesis by blast
    qed
  qed
  then obtain k rs where R: "?t = t6\<lparr>io_ctx := k, reports := rs\<rparr>" "inflight k = inflight (io_ctx t6)"
    by blast
  have lt: "u < length (ios t)" using inv u by (auto simp: unit_inv_def)
  have io: "ios ?t = (ios t)[u := (ios t ! u)\<lparr>buf := data, res := r, busy := False\<rparr>]"
    by (simp add: R(1) C(1)) (simp add: t5_def t1_def set_unit_def set_oper_def)
  show fr: "free_ious ?t = u # free_ious t" by (simp add: R(1) C(2)) (simp add: t5_def set_oper_def)
  have gp: "num_global_pending ?t = num_global_pending t - 1" by (simp add: R(1) C(3)) (simp add: t5_def)
  show "inflight (io_ctx ?t) = inflight (io_ctx t)"
    using R(2) by (simp add: R(1) C(4)) (simp add: t5_def t1_def set_unit_def set_oper_def)
  have op: "num_pending (opers ?t y) = num_pending (opers t y) - (if y = x then 1 else 0)
      \<and> started_ios (opers ?t y) = started_ios (opers t y)" for y
    by (simp add: R(1) C(6)) (simp add: t5_def t1_def set_unit_def set_oper_def)
  then show "started_ios (opers ?t y) = started_ios (opers t y)" for y by blast
  have ow: "unit_oper (ios ?t ! v) = unit_oper (ios t ! v)" for v
    using lt by (cases "v = u") (simp_all add: io)
  then show "unit_oper (ios ?t ! v) = unit_oper (ios t ! v)" for v .
  have "steady t t5" by (simp add: steady_def t5_def t1_def set_unit_def set_oper_def)
  then have "steady t t6" using C(5) by (rule steady_trans)
  then show st: "steady t ?t" by (simp add: R(1) steady_def)
  have cardP: "int (card (P - {u})) = int (card P) - 1"
    using inv u by (simp add: unit_inv_def card_Diff_singleton of_nat_diff Suc_leI card_gt_0_iff)
      (metis card_gt_0_iff empty_iff of_nat_diff One_nat_def Suc_leI of_nat_1)
  have cnt: "int (card {v \<in> P - {u}. unit_oper (ios t ! v) = y})
      = int (card {v \<in> P. unit_oper (ios t ! v) = y}) - (if y = x then 1 else 0)" for y
  proof (cases "y = x")
    case True
    let ?A = "{v \<in> P. unit_oper (ios t ! v) = y}"
    have A: "finite ?A" "u \<in> ?A" using inv u True by (auto simp: unit_inv_def x_def)
    have "{v \<in> P - {u}. unit_oper (ios t ! v) = y} = ?A - {u}" by auto
    moreover have "card ?A \<noteq> 0" using A by auto
    ultimately show ?thesis using A True by (simp add: card_Diff_singleton of_nat_diff)
  next
    case False
    then have "{v \<in> P - {u}. unit_oper (ios t ! v) = y} = {v \<in> P. unit_oper (ios t ! v) = y}"
      by (auto simp: x_def)
    then show ?thesis using False by simp
  qed
  have bs: "busy (ios ?t ! v) \<longleftrightarrow> v \<notin> set (u # free_ious t)" if "v < length (ios t)" for v
    using that inv lt by (cases "v = u") (simp_all add: io unit_inv_def)
  show "unit_inv (P - {u}) built ?t"
    unfolding unit_inv_def
  proof (intro conjI allI impI)
    show "distinct (free_ious ?t @ built)" "finite (P - {u})"
      "set (free_ious ?t @ built) \<inter> (P - {u}) = {}"
      using inv u by (auto simp: fr unit_inv_def)
    show "set (free_ious ?t @ built) \<union> (P - {u}) = {..<length (ios ?t)}"
    proof -
      have "set (free_ious ?t @ built) \<union> (P - {u}) = set (free_ious t @ built) \<union> P" using u fr by auto
      then show ?thesis using inv by (simp add: unit_inv_def io)
    qed
    show "num_global_pending ?t = int (card (P - {u}))" using inv cardP gp by (simp add: unit_inv_def)
    show "num_global_events ?t = int (length (ios ?t))"
      using inv st by (simp add: unit_inv_def steady_def)
    show "busy (ios ?t ! v) \<longleftrightarrow> v \<notin> set (free_ious ?t)" if "v < length (ios ?t)" for v
      using bs that by (simp add: fr io)
    show "num_pending (opers ?t y) = int (card {v \<in> P - {u}. unit_oper (ios ?t ! v) = y})" for y
      using inv cnt[of y] op[of y] by (simp add: ow unit_inv_def)
  qed
qed

lemma finish_fold_ok:
  assumes "unit_inv P built t" and "distinct (map fst evs)" and "set (map fst evs) \<subseteq> P"
    and "t' = fold (\<lambda>(u, r, data). finish_io c K u r data tv) evs t"
  shows "unit_inv (P - set (map fst evs)) built t' \<and> steady t t' \<and> inflight (io_ctx t') = inflight (io_ctx t)
    \<and> (\<forall>x. started_ios (opers t' x) = started_ios (opers t x))
    \<and> (\<forall>v. unit_oper (ios t' ! v) = unit_oper (ios t ! v))
    \<and> length (free_ious t') = length (free_ious t) + length evs"
  using assms(1-3) unfolding assms(4)
proof (induction evs arbitrary: P t)
  case (Cons e evs)
  obtain u r data where e: "e = (u, r, data)" by (cases e)
  let ?t = "finish_io c K u r data tv t"
  have u: "u \<in> P" using Cons.prems(3) e by simp
  note F = finish_io_ok[OF Cons.prems(1) u, of c r data tv]
  have "P - {u} - set (map fst evs) = P - set (map fst (e # evs))" using e by auto
  moreover have "set (map fst evs) \<subseteq> P - {u}" using Cons.prems(2,3) e by auto
  ultimately show ?case
    using Cons.IH[OF F(1)] Cons.prems(2) F(2-6) e steady_trans[OF F(2)] by auto
qed simp

text \<open>What a call of the kernel and the processing of its events leave as it was.\<close>

definition same_requests :: "'k thread \<Rightarrow> 'k thread \<Rightarrow> bool" where
  "same_requests t t' \<longleftrightarrow> steady t t' \<and> inflight (io_ctx t') \<subseteq> inflight (io_ctx t)
     \<and> (\<forall>x. started_ios (opers t' x) = started_ios (opers t x))
     \<and> (\<forall>v. unit_oper (ios t' ! v) = unit_oper (ios t ! v))"

lemma read_some_events_ok:
  assumes inv: "unit_inv (inflight (io_ctx t)) built t" and iter: "0 < io_iter c"
    and ne: "inflight (io_ctx t) \<noteq> {}"
  obtains nr t' where "read_some_events c K t = (nr, t')" "0 < nr"
    "unit_inv (inflight (io_ctx t')) built t'" "same_requests t t'"
    "free_ious t' \<noteq> []" "card (inflight (io_ctx t')) < card (inflight (io_ctx t))"
proof -
  let ?P = "inflight (io_ctx t)"
  let ?lo = "if num_global_pending t < io_iter c then num_global_pending t else io_iter c"
  have P: "finite ?P" "num_global_pending t = int (card ?P)"
      "num_global_events t = int (length (ios t))"
    using inv by (simp_all add: unit_inv_def)
  have "0 < card ?P" using ne P(1) by (simp add: card_gt_0_iff)
  moreover have "card ?P \<le> length (ios t)" using unit_inv_size[OF inv] by simp
  ultimately have lo: "0 < ?lo" "0 \<le> ?lo" "?lo \<le> num_global_events t" "?lo \<le> int (card ?P)"
    using P iter by auto
  obtain evs k where g: "a_getevents K ?lo (num_global_events t) (io_ctx t) = (int (length evs), evs, k)"
      "?lo \<le> int (length evs)" "distinct (map fst evs)" "set (map fst evs) \<subseteq> ?P"
      "inflight k = ?P - set (map fst evs)"
    using getevents[OF lo(2,3,4)] by blast
  have n0: "0 < length evs" using g(2) lo(1) by linarith
  obtain tv t2 where n: "now K (t\<lparr>io_ctx := k\<rparr>) = (tv, t2)" by fastforce
  obtain k2 where k2: "t2 = t\<lparr>io_ctx := k2\<rparr>" "inflight k2 = inflight k"
    using now_same[OF n] by auto
  let ?t = "fold (\<lambda>(u, r, data). finish_io c K u r data tv) evs t2"
  have run: "read_some_events c K t = (int (length evs), ?t)"
    using g(1) n n0 by (simp add: read_some_events_def Let_def)
  have inv2: "unit_inv ?P built t2" using inv by (rule unit_inv_cong) (simp_all add: k2(1))
  note F = finish_fold_ok[OF inv2 g(3,4) refl, of c tv]
  have in': "inflight (io_ctx ?t) = ?P - set (map fst evs)" using F k2 g(5) by simp
  have fr: "length (free_ious ?t) = length (free_ious t) + length evs" using F k2(1) by simp
  have "hd (map fst evs) \<in> set (map fst evs)" using n0 by (intro hd_in_set) simp
  then have "inflight (io_ctx ?t) \<subset> ?P" using g(4) unfolding in' by blast
  then have less: "card (inflight (io_ctx ?t)) < card ?P" by (rule psubset_card_mono[OF P(1)])
  have "inflight (io_ctx ?t) \<subseteq> ?P" unfolding in' by blast
  then have sr: "same_requests t ?t"
    using F by (simp add: same_requests_def k2(1) steady_def)
  have ui: "unit_inv (inflight (io_ctx ?t)) built ?t" using F unfolding in' by blast
  have "free_ious ?t \<noteq> []" using fr n0 by auto
  then show thesis using that[OF run _ ui sr _ less] n0 by simp
qed

section \<open>Preparation\<close>

lemma find_iou_free:
  assumes inv: "unit_inv P built t" and fr: "free_ious t = u # us"
  obtains t' where "find_iou c K x t = Inr (Some u, t')" "unit_inv P (built @ [u]) t'"
    "io_ctx t' = io_ctx t" "steady t t'" "opers t' = opers t" "unit_oper (ios t' ! u) = x"
    "\<And>v. v \<noteq> u \<Longrightarrow> unit_oper (ios t' ! v) = unit_oper (ios t ! v)"
proof -
  let ?t = "set_unit u (\<lambda>io. io\<lparr>busy := True, res := 0, unit_oper := x\<rparr>) (t\<lparr>free_ious := us\<rparr>)"
  have u: "u \<in> {..<length (ios t)}" "\<not> busy (ios t ! u)" "u \<notin> P"
    using inv fr by (auto simp: unit_inv_def)
  have run: "find_iou c K x t = Inr (Some u, ?t)"
    unfolding find_iou_def using fr u(2)
    by (subst find_iou_loop.simps) (simp add: or_hang_def grab_iou_def)
  show thesis
  proof (rule that[OF run])
    show "unit_inv P (built @ [u]) ?t"
      unfolding unit_inv_def
    proof (intro conjI allI impI)
      show "distinct (free_ious ?t @ built @ [u])" "finite P" "set (free_ious ?t @ built @ [u]) \<inter> P = {}"
        "set (free_ious ?t @ built @ [u]) \<union> P = {..<length (ios ?t)}"
        using inv u fr by (auto simp: unit_inv_def set_unit_def)
      show "num_global_pending ?t = int (card P)" "num_global_events ?t = int (length (ios ?t))"
        using inv by (simp_all add: unit_inv_def set_unit_def)
      show "busy (ios ?t ! v) \<longleftrightarrow> v \<notin> set (free_ious ?t)" if "v < length (ios ?t)" for v
        using that inv fr u(1) by (cases "v = u") (auto simp: set_unit_def unit_inv_def)
      have "{v \<in> P. unit_oper (ios ?t ! v) = y} = {v \<in> P. unit_oper (ios t ! v) = y}" for y
      proof (rule Collect_cong)
        fix v show "v \<in> P \<and> unit_oper (ios ?t ! v) = y \<longleftrightarrow> v \<in> P \<and> unit_oper (ios t ! v) = y"
          using u(3) by (cases "v = u") (auto simp: set_unit_def)
      qed
      then show "num_pending (opers ?t y) = int (card {v \<in> P. unit_oper (ios ?t ! v) = y})" for y
        using inv by (simp add: unit_inv_def set_unit_def)
    qed
    show "unit_oper (ios ?t ! u) = x" using u(1) by (simp add: set_unit_def)
    show "unit_oper (ios ?t ! v) = unit_oper (ios t ! v)" if "v \<noteq> u" for v
      using that by (simp add: set_unit_def)
  qed (simp_all add: set_unit_def steady_def)
qed

text \<open>The result of a preparation: one more unit, of the given operation; nothing else is lost.\<close>

definition grabbed :: "nat \<Rightarrow> nat list \<Rightarrow> nat list \<Rightarrow> 'k thread \<Rightarrow> 'k thread \<Rightarrow> bool" where
  "grabbed x built us t t' \<longleftrightarrow> unit_inv (inflight (io_ctx t')) (built @ us) t' \<and> steady t t'
     \<and> inflight (io_ctx t') \<subseteq> inflight (io_ctx t)
     \<and> (\<forall>y. started_ios (opers t' y) = started_ios (opers t y))
     \<and> (\<forall>u \<in> set us. unit_oper (ios t' ! u) = x)
     \<and> (\<forall>v. v \<notin> set us \<longrightarrow> unit_oper (ios t' ! v) = unit_oper (ios t ! v))"

lemma grabbed_trans:
  assumes a: "grabbed x built us t t'" and b: "grabbed x (built @ us) vs t' t''"
  shows "grabbed x built (us @ vs) t t''"
  unfolding grabbed_def
proof (intro conjI allI ballI impI)
  have inv: "unit_inv (inflight (io_ctx t'')) (built @ us @ vs) t''" using b by (simp add: grabbed_def)
  then show "unit_inv (inflight (io_ctx t'')) (built @ us @ vs) t''" .
  show "steady t t''" using a b steady_trans by (auto simp: grabbed_def)
  show "inflight (io_ctx t'') \<subseteq> inflight (io_ctx t)" using a b by (auto simp: grabbed_def)
  show "started_ios (opers t'' y) = started_ios (opers t y)" for y using a b by (simp add: grabbed_def)
  have disj: "u \<notin> set vs" if "u \<in> set us" for u using inv that by (auto simp: unit_inv_def)
  show "unit_oper (ios t'' ! u) = x" if "u \<in> set (us @ vs)" for u
  proof (cases "u \<in> set vs")
    case True
    then show ?thesis using b by (simp add: grabbed_def)
  next
    case False
    then show ?thesis using that a b by (simp add: grabbed_def)
  qed
  show "unit_oper (ios t'' ! v) = unit_oper (ios t ! v)" if "v \<notin> set (us @ vs)" for v
    using that a b by (simp add: grabbed_def)
qed

lemma find_iou_ok:
  assumes inv: "unit_inv (inflight (io_ctx t)) built t" and iter: "0 < io_iter c"
    and room: "length built < length (ios t)"
  obtains u t' where "find_iou c K x t = Inr (Some u, t')" "grabbed x built [u] t t'"
proof (cases "free_ious t")
  case (Cons u us)
  show thesis
    by (rule find_iou_free[OF inv Cons, of c x]) (rule that, auto simp: grabbed_def)
next
  case Nil
  then have "card (inflight (io_ctx t)) \<noteq> 0" using unit_inv_size[OF inv] room by simp
  then have ne: "inflight (io_ctx t) \<noteq> {}" by auto
  obtain nr ta where r: "read_some_events c K t = (nr, ta)" "0 < nr"
      "unit_inv (inflight (io_ctx ta)) built ta" "same_requests t ta" "free_ious ta \<noteq> []"
    by (rule read_some_events_ok[OF inv iter ne])
  then obtain u us where fa: "free_ious ta = u # us" by (cases "free_ious ta") auto
  obtain t' where F: "find_iou c K x ta = Inr (Some u, t')" "unit_inv (inflight (io_ctx ta)) (built @ [u]) t'"
    "io_ctx t' = io_ctx ta" "steady ta t'" "opers t' = opers ta" "unit_oper (ios t' ! u) = x"
    "\<And>v. v \<noteq> u \<Longrightarrow> unit_oper (ios t' ! v) = unit_oper (ios ta ! v)"
    by (rule find_iou_free[OF r(3) fa, of c x]) blast
  have "find_iou_loop c K x t = find_iou_loop c K x ta"
    using Nil r(1,2) by (subst find_iou_loop.simps) simp
  then have run: "find_iou c K x t = Inr (Some u, t')"
    using F(1) by (auto simp: find_iou_def or_hang_def split: option.splits)
  have "grabbed x built [u] t t'"
    using F r(4) steady_trans by (auto simp: grabbed_def same_requests_def)
  then show thesis by (rule that[OF run])
qed

lemma random_offset_same:
  assumes "random_offset c K x t = (off, t')"
  shows "\<exists>k. t' = t\<lparr>io_ctx := k\<rparr> \<and> inflight k = inflight (io_ctx t)"
  using assms rand_inflight by (auto simp: random_offset_def split: prod.splits)

lemma build_iocb_ok:
  assumes inv: "unit_inv (inflight (io_ctx t)) built t" and iter: "0 < io_iter c"
    and room: "length built < length (ios t)"
  obtains u t' where "build_iocb c K x t = Inr (Some u, t')" "grabbed x built [u] t t'"
proof -
  obtain u ta where f: "find_iou c K x t = Inr (Some u, ta)" "grabbed x built [u] t ta"
    by (rule find_iou_ok[OF assms])
  have u: "u < length (ios ta)" using f(2) by (auto simp: grabbed_def unit_inv_def)
  have keep: "grabbed x built [u] t t'"
    if "inflight (io_ctx t') = inflight (io_ctx ta)" and st: "steady ta t'"
      and io: "ios t' = (ios ta)[u := (ios ta ! u)\<lparr>iocb_of := b\<rparr>]"
      and fr: "free_ious t' = free_ious ta" "num_global_pending t' = num_global_pending ta"
      and np: "\<And>y. num_pending (opers t' y) = num_pending (opers ta y)
         \<and> started_ios (opers t' y) = started_ios (opers ta y)" for t' b
  proof -
    have bu: "busy (ios t' ! v) = busy (ios ta ! v) \<and> unit_oper (ios t' ! v) = unit_oper (ios ta ! v)" for v
      using u by (cases "v = u") (simp_all add: io)
    have "unit_inv (inflight (io_ctx t')) (built @ [u]) t'"
    proof (rule unit_inv_cong[of _ _ ta])
      show "unit_inv (inflight (io_ctx t')) (built @ [u]) ta" using that(1) f(2) by (simp add: grabbed_def)
      show "num_global_events t' = num_global_events ta" using st by (simp add: steady_def)
    qed (use bu fr np in \<open>simp_all add: io\<close>)
    then show ?thesis
      using f(2) bu np steady_trans[OF _ st] that(1) by (simp add: grabbed_def)
  qed
  let ?b = "\<lambda>rd off. \<lparr>aio_fd = fd (opers ta x), aio_read = rd, aio_len = reclen (opers ta x), aio_offset = off\<rparr>"
  consider "rw (opers ta x) = WRITE \<or> rw (opers ta x) = READ"
    | "rw (opers ta x) = RREAD \<or> rw (opers ta x) = RWRITE"
    | "rw (opers ta x) \<notin> {WRITE, READ, RREAD, RWRITE}" by auto
  then show thesis
  proof cases
    case 1
    let ?t = "set_oper x (\<lambda>p. p\<lparr>last_offset := last_offset p + reclen p\<rparr>)
      (prep_iocb u (rw (opers ta x) = READ) (last_offset (opers ta x)) x ta)"
    have "build_iocb c K x t = Inr (Some u, ?t)"
      using f(1) 1 by (simp add: build_iocb_def Let_def)
    moreover have "grabbed x built [u] t ?t"
      by (rule keep[of _ "?b (rw (opers ta x) = READ) (last_offset (opers ta x))"])
        (simp_all add: set_oper_def prep_iocb_def set_unit_def steady_def)
    ultimately show thesis by (rule that)
  next
    case 2
    obtain off tb where r: "random_offset c K x ta = (off, tb)" by fastforce
    obtain k where k: "tb = ta\<lparr>io_ctx := k\<rparr>" "inflight k = inflight (io_ctx ta)"
      using random_offset_same[OF r] by blast
    let ?t = "prep_iocb u (rw (opers ta x) = RREAD) off x (set_oper x (\<lambda>p. p\<lparr>last_offset := off\<rparr>) tb)"
    have "rw (opers ta x) \<noteq> WRITE \<and> rw (opers ta x) \<noteq> READ" using 2 by auto
    then have "build_iocb c K x t = Inr (Some u, ?t)"
      using f(1) 2 r by (simp add: build_iocb_def Let_def)
    moreover have "grabbed x built [u] t ?t"
      by (rule keep[of _ "?b (rw (opers ta x) = RREAD) off"])
        (simp_all add: set_oper_def prep_iocb_def set_unit_def steady_def k)
    ultimately show thesis by (rule that)
  next
    case 3
    then have "build_iocb c K x t = Inr (Some u, ta)"
      using f(1) by (simp add: build_iocb_def Let_def)
    then show thesis using f(2) by (rule that)
  qed
qed

lemma build_loop_ok:
  assumes "unit_inv (inflight (io_ctx t)) built t" and "0 < io_iter c"
    and "length built + n \<le> length (ios t)" and "int (length built + n) \<le> max_io_submit c"
  shows "\<exists>us t'. build_loop c K x n built t = Inr ((True, built @ us), t') \<and> length us = n
    \<and> grabbed x built us t t'"
  using assms
proof (induction n arbitrary: built t)
  case 0
  then show ?case by (auto simp: grabbed_def)
next
  case (Suc n)
  have "length built < length (ios t)" using Suc.prems(3) by simp
  then obtain u ta where b: "build_iocb c K x t = Inr (Some u, ta)" "grabbed x built [u] t ta"
    by (rule build_iocb_ok[OF Suc.prems(1,2)])
  have ga: "unit_inv (inflight (io_ctx ta)) (built @ [u]) ta" "length (ios ta) = length (ios t)"
    using b(2) by (simp_all add: grabbed_def steady_def)
  have cap: "int (length built) < max_io_submit c" using Suc.prems(4) by simp
  have "length (built @ [u]) + n \<le> length (ios ta)" "int (length (built @ [u]) + n) \<le> max_io_submit c"
    using Suc.prems(3,4) ga(2) by simp_all
  from Suc.IH[OF ga(1) Suc.prems(2) this] obtain us t' where
    r: "build_loop c K x n (built @ [u]) ta = Inr ((True, (built @ [u]) @ us), t')" "length us = n"
      "grabbed x (built @ [u]) us ta t'" by blast
  have "build_loop c K x (Suc n) built t = Inr ((True, built @ u # us), t')"
    using b(1) cap r(1) by simp
  moreover have "grabbed x built (u # us) t t'" using grabbed_trans[OF b(2) r(3)] by simp
  ultimately show ?case using r(2) by (intro exI[of _ "u # us"] exI[of _ t']) simp
qed

lemma build_oper_ok:
  assumes inv: "unit_inv (inflight (io_ctx t)) built t" and iter: "0 < io_iter c"
    and st: "started_ios (opers t x) \<le> total_ios (opers t x)"
    and n: "n = min (io_iter c) (total_ios (opers t x) - started_ios (opers t x))"
    and room: "int (length built) + n \<le> int (length (ios t))" "int (length built) + n \<le> max_io_submit c"
  obtains us t' where "build_oper c K x (io_iter c) built t = Inr ((n, built @ us), t')"
    "int (length us) = n" "grabbed x built us t t'"
proof -
  define ta where "ta = (if started_ios (opers t x) = 0
    then (case now K t of (tv, s) \<Rightarrow> set_oper x (\<lambda>p. p\<lparr>start_time := tv\<rparr>) s) else t)"
  have ta: "grabbed x built [] t ta" "ios ta = ios t"
    "started_ios (opers ta x) = started_ios (opers t x)" "total_ios (opers ta x) = total_ios (opers t x)"
  proof -
    obtain tv s where ns: "now K t = (tv, s)" by fastforce
    obtain k where k: "s = t\<lparr>io_ctx := k\<rparr>" "inflight k = inflight (io_ctx t)"
      using now_same[OF ns] by blast
    define tk where "tk = t\<lparr>io_ctx := k, opers := (opers t)(x := (opers t x)\<lparr>start_time := tv\<rparr>)\<rparr>"
    have "unit_inv (inflight (io_ctx tk)) built tk"
      unfolding tk_def using inv by (simp add: k(2)) (rule unit_inv_cong, auto)
    then have "grabbed x built [] t tk" by (simp add: grabbed_def steady_def tk_def k(2))
    moreover have "grabbed x built [] t t" using inv by (simp add: grabbed_def)
    moreover have "ta = t \<or> ta = tk" by (simp add: ta_def ns k(1) set_oper_def tk_def)
    ultimately show "grabbed x built [] t ta" by blast
    show "ios ta = ios t"
      "started_ios (opers ta x) = started_ios (opers t x)" "total_ios (opers ta x) = total_ios (opers t x)"
      using \<open>ta = t \<or> ta = tk\<close> by (auto simp: tk_def)
  qed
  have n0: "0 \<le> n" using st iter n by simp
  have "unit_inv (inflight (io_ctx ta)) built ta" using ta(1) by (simp add: grabbed_def)
  moreover have "int (length built + nat n) \<le> int (length (ios ta))" "int (length built + nat n) \<le> max_io_submit c"
    using room n0 ta(2) by simp_all
  ultimately obtain us t' where
    r: "build_loop c K x (nat n) built ta = Inr ((True, built @ us), t')" "length us = nat n"
      "grabbed x built us ta t'"
    using build_loop_ok[of ta built c "nat n" x] iter unfolding of_nat_le_iff by blast
  have n2: "(if total_ios (opers ta x) < started_ios (opers ta x) + io_iter c
      then total_ios (opers ta x) - started_ios (opers ta x) else io_iter c) = n"
    using n ta(3,4) by auto
  have "build_oper c K x (io_iter c) built t = Inr ((n, built @ us), t')"
    using r(1) iter n2 by (simp add: build_oper_def Let_def flip: ta_def)
  moreover have "grabbed x built us t t'" using grabbed_trans[of x built "[]" t ta us t'] ta(1) r(3) by simp
  ultimately show thesis using r(2) n0 by (intro that) simp_all
qed

lemma grabbed_quiet:
  assumes g: "grabbed x built us t t'" and inv: "unit_inv (inflight (io_ctx t)) built t"
  shows "quiet t t'"
proof -
  have i: "unit_inv (inflight (io_ctx t')) (built @ us) t'" using g by (simp add: grabbed_def)
  have "num_pending (opers t' y) = 0" if "num_pending (opers t y) = 0" for y
    unfolding idle_iff[OF i]
  proof
    fix u assume u: "u \<in> inflight (io_ctx t')"
    then have "u \<notin> set us" using i by (auto simp: unit_inv_def)
    then show "unit_oper (ios t' ! u) \<noteq> y"
      using g u that[unfolded idle_iff[OF inv]] by (auto simp: grabbed_def)
  qed
  then show ?thesis by (simp add: quiet_def)
qed

section \<open>Submission\<close>

definition submitted :: "nat list \<Rightarrow> 'k thread \<Rightarrow> 'k thread \<Rightarrow> bool" where
  "submitted us t t' \<longleftrightarrow> unit_inv (inflight (io_ctx t')) [] t' \<and> steady t t'
     \<and> inflight (io_ctx t') \<subseteq> inflight (io_ctx t) \<union> set us
     \<and> (\<forall>y. started_ios (opers t' y) = started_ios (opers t y) + owned t us y)
     \<and> (\<forall>v. unit_oper (ios t' ! v) = unit_oper (ios t ! v))"

lemma submitted_idle:
  assumes s: "submitted us t t'" and inv: "unit_inv (inflight (io_ctx t)) us t"
    and y: "num_pending (opers t y) = 0" "owned t us y = 0"
  shows "num_pending (opers t' y) = 0"
proof -
  have i: "unit_inv (inflight (io_ctx t')) [] t'" using s by (simp add: submitted_def)
  have "unit_oper (ios t ! u) \<noteq> y" if "u \<in> set us" for u
    using that y(2) by (auto simp: owned_def filter_empty_conv)
  then show ?thesis
    using s y(1)[unfolded idle_iff[OF inv]] unfolding idle_iff[OF i] by (auto simp: submitted_def)
qed

lemma run_built_ok:
  assumes "unit_inv (inflight (io_ctx t)) us t" and "us \<noteq> []" and "0 < io_iter c"
  shows "\<exists>t'. run_built_loop c K us t = Some (Inr (0, t')) \<and> submitted us t t'"
  using assms
proof (induction "2 * length us + card (inflight (io_ctx t))" arbitrary: us t rule: less_induct)
  case less
  let ?P = "inflight (io_ctx t)"
  obtain tv ta where n1: "now K t = (tv, ta)" by fastforce
  obtain ka where ka: "ta = t\<lparr>io_ctx := ka\<rparr>" "inflight ka = ?P" using now_same[OF n1] by blast
  have ctx: "io_ctx ta = ka" by (simp add: ka(1))
  let ?rs = "map (\<lambda>u. (u, iocb_of (ios ta ! u))) us"
  have fst: "map fst ?rs = us" by (simp add: comp_def)
  have d: "distinct us" "set us \<inter> ?P = {}" using less.prems(1) by (auto simp: unit_inv_def)
  obtain r kb where sb: "a_submit K ?rs ka = (r, kb)"
      "r = -EAGAIN \<and> ?P \<noteq> {} \<and> inflight kb = ?P
       \<or> 0 < r \<and> r \<le> int (length us) \<and> inflight kb = ?P \<union> set (take (nat r) us)"
    using submit[of ?rs ka] less.prems(2) d ka(2) unfolding fst by (auto simp del: map_map)
  obtain tw tb where n2: "now K (ta\<lparr>io_ctx := kb\<rparr>) = (tw, tb)" by fastforce
  obtain kc where kc: "tb = ta\<lparr>io_ctx := kc\<rparr>" "inflight kc = inflight kb" using now_same[OF n2] by auto
  define tc where "tc = tb\<lparr>io_submit_latency := calc_latency tv tw (io_submit_latency tb)\<rparr>"
  have invc: "unit_inv ?P us tc"
    using less.prems(1) by (rule unit_inv_cong) (simp_all add: tc_def kc(1) ka(1))
  have tc: "steady t tc" "opers tc = opers t" "ios tc = ios t" "inflight (io_ctx tc) = inflight kb"
      "num_global_pending tc = num_global_pending t"
    by (simp_all add: tc_def kc ka(1) steady_def)
  define upd where "upd n = (update_iou_counters (take n us) tw tc)
     \<lparr>num_global_pending := num_global_pending tc + int n\<rparr>" for n
  have U: "unit_inv (?P \<union> set (take n us)) (drop n us) (upd n)" if "n \<le> length us" for n
    unfolding upd_def using invc that by (intro update_inv) simp_all
  have U2: "steady t (upd n) \<and> io_ctx (upd n) = io_ctx tc
      \<and> (\<forall>v. unit_oper (ios (upd n) ! v) = unit_oper (ios t ! v))
      \<and> (\<forall>y. started_ios (opers (upd n) y) = started_ios (opers t y) + owned t (take n us) y)" for n
    using update_same[of tc "take n us" tw] steady_trans[OF tc(1)] tc(2,3)
    by (auto simp: upd_def steady_def owned_def)
  consider (all) "r = int (length us)" | (part) "0 < r" "r < int (length us)"
    | (again) "r = -EAGAIN" "?P \<noteq> {}" "inflight kb = ?P" using sb(2) by linarith
  then show ?case
  proof cases
    case all
    have "run_built_loop c K us t = Some (Inr (0, upd (length us)))"
      using n1 sb(1) n2 all by (subst run_built_loop.simps) (simp add: upd_def tc_def Let_def ctx)
    moreover have "inflight (io_ctx (upd (length us))) = ?P \<union> set us"
      using U2[of "length us"] tc(4) sb(2) all less.prems(2) by auto
    then have "submitted us t (upd (length us))"
      using U[of "length us"] U2[of "length us"] by (simp add: submitted_def)
    ultimately show ?thesis by blast
  next
    case part
    define n where "n = nat r"
    have n: "0 < n" "n < length us" "r = int n" using part by (auto simp: n_def)
    have in': "inflight (io_ctx (upd n)) = ?P \<union> set (take n us)"
      using U2[of n] tc(4) sb(2) n by auto
    have inv': "unit_inv (inflight (io_ctx (upd n))) (drop n us) (upd n)" using U[of n] in' n(2) by simp
    have ne: "inflight (io_ctx (upd n)) \<noteq> {}" using in' n less.prems(2) by (cases us) auto
    obtain nr td where rd: "read_some_events c K (upd n) = (nr, td)" "0 < nr"
      "unit_inv (inflight (io_ctx td)) (drop n us) td" "same_requests (upd n) td"
      "card (inflight (io_ctx td)) < card (inflight (io_ctx (upd n)))"
      by (rule read_some_events_ok[OF inv' less.prems(3) ne])
    have "card (?P \<union> set (take n us)) \<le> card ?P + n"
      using card_Un_le[of ?P "set (take n us)"] card_length[of "take n us"] n by simp
    then have "2 * length (drop n us) + card (inflight (io_ctx td)) < 2 * length us + card ?P"
      using rd(5) n unfolding in' by simp
    from less.hyps[OF this rd(3) _ less.prems(3)] obtain te where
      te: "run_built_loop c K (drop n us) td = Some (Inr (0, te))" "submitted (drop n us) td te"
      using n(2) by auto
    have run: "run_built_loop c K us t = Some (Inr (0, te))"
      using n1 sb(1) n2 n rd(1,2) te(1)
      by (subst run_built_loop.simps) (simp add: upd_def tc_def Let_def ctx)
    have "owned td (drop n us) y + owned t (take n us) y = owned t us y" for y
    proof -
      have "owned td (drop n us) y = owned t (drop n us) y"
        using rd(4) U2[of n] by (simp add: owned_def same_requests_def)
      moreover have "owned t us y = owned t (take n us) y + owned t (drop n us) y"
        by (simp flip: owned_append)
      ultimately show ?thesis by simp
    qed
    then have ow: "owned t us y = owned t (take n us) y + owned td (drop n us) y" for y
      by (simp add: add.commute)
    have "inflight (io_ctx te) \<subseteq> ?P \<union> set (take n us) \<union> set (drop n us)"
      using te(2) rd(4) in' unfolding submitted_def same_requests_def by blast
    then have sub: "inflight (io_ctx te) \<subseteq> ?P \<union> set us"
      using set_take_subset[of n us] set_drop_subset[of n us] by blast
    have "steady t te"
      using te(2) rd(4) U2[of n] steady_trans unfolding submitted_def same_requests_def by metis
    with sub have "submitted us t te"
      using te(2) rd(4) U2[of n] by (simp add: submitted_def same_requests_def ow)
    then show ?thesis using run by blast
  next
    case again
    have inv': "unit_inv (inflight (io_ctx tc)) us tc" using invc tc(4) again(3) by simp
    have ne: "inflight (io_ctx tc) \<noteq> {}" using tc(4) again by simp
    obtain nr td where rd: "read_some_events c K tc = (nr, td)" "0 < nr"
      "unit_inv (inflight (io_ctx td)) us td" "same_requests tc td"
      "card (inflight (io_ctx td)) < card (inflight (io_ctx tc))"
      by (rule read_some_events_ok[OF inv' less.prems(3) ne])
    have "2 * length us + card (inflight (io_ctx td)) < 2 * length us + card ?P"
      using rd(5) tc(4) again(3) by simp
    from less.hyps[OF this rd(3) less.prems(2,3)] obtain te where
      te: "run_built_loop c K us td = Some (Inr (0, te))" "submitted us td te" by blast
    have "r \<noteq> int (length us)" using again(1) by simp
    then have run: "run_built_loop c K us t = Some (Inr (0, te))"
      using n1 sb(1) n2 again(1) rd(1,2) te(1)
      by (subst run_built_loop.simps) (simp add: tc_def Let_def ctx)
    have "owned td us y = owned t us y" for y
      using rd(4) tc(3) by (simp add: owned_def same_requests_def)
    moreover have "steady t te"
      using te(2) rd(4) tc(1) steady_trans unfolding submitted_def same_requests_def by metis
    moreover have "inflight (io_ctx te) \<subseteq> ?P \<union> set us"
      using te(2) rd(4) tc(4) again(3) unfolding submitted_def same_requests_def by blast
    ultimately have "submitted us t te"
      using te(2) rd(4) tc(2,3) by (simp add: submitted_def same_requests_def)
    then show ?thesis using run by blast
  qed
qed

end

end
