(* ===== verification/Aio_Worker_Ok.thy ===== *)
theory Aio_Worker_Ok
  imports Aio_Worker Aio_Io_Ok
begin

text \<open>
  The scheduler of \<open>aio-stress\<close> on the contract \<open>aio_context\<close>. \<open>scheduled t xs fs bl bs\<close>: the
  lists of the thread are the active operations \<open>xs\<close>, the finished ones \<open>fs\<close> and those \<open>bs\<close> that
  have requests prepared, and no operation is on two of them. A round starts a quota of requests of
  the operations it reaches and loses none of them; rounds are repeated until all are finished.
\<close>

section \<open>Moving an operation between two lists\<close>

definition unlinked :: "'a node_scheme \<Rightarrow> 'a node_scheme" where
  "unlinked p = p\<lparr>next_oper := 0, prev_oper := 0\<rparr>"

lemma unlinked_set [simp]:
  "unlinked (set_next a b h y) = unlinked (h y)" "unlinked (set_prev a b h y) = unlinked (h y)"
  by (simp_all add: unlinked_def set_next_def set_prev_def)

lemma add_unlinked: "oper_list_add x (h, l) = (h', l') \<Longrightarrow> unlinked (h' y) = unlinked (h y)"
  by (auto simp: oper_list_add_def Let_def split: option.splits)

lemma del_unlinked: "oper_list_del x (h, l) = Some (h', l') \<Longrightarrow> unlinked (h' y) = unlinked (h y)"
  by (auto simp: oper_list_del_def Let_def split: option.splits if_splits)

lemma unlinkedD:
  assumes "unlinked p = unlinked q"
  shows "num_pending p = num_pending q" "started_ios p = started_ios q" "total_ios p = total_ios q"
    "rw p = rw q" "start p = start q" "last_err p = last_err q" "reclen p = reclen q" "fd p = fd q"
    "stonewalled p = stonewalled q"
  using assms by (cases p; cases q; simp add: unlinked_def)+

text \<open>What no part of a stage changes.\<close>

definition data :: "io_oper \<Rightarrow> io_oper" where
  "data p = static (unlinked p)"

lemma dataD:
  assumes "data p = data q"
  shows "total_ios p = total_ios q" "rw p = rw q" "start p = start q" "reclen p = reclen q"
    "stonewalled p = stonewalled q"
  using assms by (cases p; cases q; simp add: data_def static_def unlinked_def)+

lemma data_unlinked: "unlinked p = unlinked q \<Longrightarrow> data p = data q"
  by (simp add: data_def)

lemma data_eq: "data p = unlinked (static p)"
  by (simp add: data_def static_def unlinked_def)

lemma data_static: "static p = static q \<Longrightarrow> data p = data q"
  by (simp add: data_eq)

definition same_data :: "'k thread \<Rightarrow> 'k thread \<Rightarrow> bool" where
  "same_data t t' \<longleftrightarrow> (\<forall>x. data (opers t' x) = data (opers t x)) \<and> length (ios t') = length (ios t)
     \<and> num_files t' = num_files t"

lemma same_data_refl [simp]: "same_data t t"
  by (simp add: same_data_def)

lemma same_data_trans: "same_data t u \<Longrightarrow> same_data u v \<Longrightarrow> same_data t v"
  by (simp add: same_data_def)

lemma steady_same_data: "steady t t' \<Longrightarrow> same_data t t'"
  unfolding steady_def same_data_def using data_static by blast

lemma represents_steady:
  assumes "represents (opers t) l xs" and "steady t t'"
  shows "represents (opers t') l xs"
proof -
  have "next_oper (opers t' u) = next_oper (opers t u) \<and> prev_oper (opers t' u) = prev_oper (opers t u)" for u
    using assms(2) staticD(1,2)[of "opers t' u" "opers t u"] by (simp add: steady_def)
  then show ?thesis using assms(1) ring_frame[of "opers t" xs "opers t'"] by (simp add: represents_def)
qed

lemma shift_ok:
  fixes t :: "'k thread"
  assumes p: "represents (opers t) p xs" and q: "represents (opers t) q ys" and x: "x \<in> set xs"
    and pq: "set xs \<inter> set ys = {}"
  obtains ha h p' q' where "del_from x p t = Inr (p', t\<lparr>opers := ha\<rparr>)"
    "\<forall>u :: 'k thread. opers u = ha \<longrightarrow> add_to x q u = (q', u\<lparr>opers := h\<rparr>)"
    "represents h p' (remove1 x xs)" "represents h q' (ys @ [x])"
    "\<forall>r zs. represents (opers t) r zs \<longrightarrow> set xs \<inter> set zs = {} \<longrightarrow> set ys \<inter> set zs = {} \<longrightarrow> represents h r zs"
    "\<forall>y. unlinked (h y) = unlinked (opers t y)" "\<forall>y. unlinked (ha y) = unlinked (opers t y)"
proof -
  obtain h p' q' where m: "opers.move x (opers t) p q = Some (h, p', q')"
    "represents h p' (remove1 x xs)" "represents h q' (ys @ [x])"
    "\<And>r zs. represents (opers t) r zs \<Longrightarrow> set xs \<inter> set zs = {} \<Longrightarrow> set ys \<inter> set zs = {} \<Longrightarrow> represents h r zs"
    using opers.move_ok[OF p q x pq] by blast
  obtain ha pa where d: "oper_list_del x (opers t, p) = Some (ha, pa)"
    and a: "oper_list_add x (ha, q) = (h, q')" and e: "pa = p'"
    using m(1) by (auto simp: opers.move_def split: option.splits prod.splits)
  have f: "\<forall>r zs. represents (opers t) r zs \<longrightarrow> set xs \<inter> set zs = {} \<longrightarrow> set ys \<inter> set zs = {} \<longrightarrow> represents h r zs"
    using m(4) by blast
  have u: "\<forall>y. unlinked (ha y) = unlinked (opers t y)" using del_unlinked[OF d] by blast
  then have v: "\<forall>y. unlinked (h y) = unlinked (opers t y)" using add_unlinked[OF a] by simp
  have dl: "del_from x p t = Inr (p', t\<lparr>opers := ha\<rparr>)" using d e by (simp add: del_from_def)
  have ad: "\<forall>u :: 'k thread. opers u = ha \<longrightarrow> add_to x q u = (q', u\<lparr>opers := h\<rparr>)" using a by (simp add: add_to_def)
  show thesis by (rule that[OF dl ad m(2,3) f v u])
qed

definition scheduled ::
  "'k thread \<Rightarrow> nat list \<Rightarrow> nat list \<Rightarrow> nat option \<Rightarrow> nat list \<Rightarrow> bool" where
  "scheduled t xs fs bl bs \<longleftrightarrow> represents (opers t) (active_opers t) xs
     \<and> represents (opers t) (finished_opers t) fs \<and> represents (opers t) bl bs
     \<and> set xs \<inter> set fs = {} \<and> set xs \<inter> set bs = {} \<and> set fs \<inter> set bs = {}"

lemma scheduled_distinct: "scheduled t xs fs bl bs \<Longrightarrow> distinct xs \<and> distinct fs \<and> distinct bs"
  by (simp add: scheduled_def represents_def ring_def)

lemma scheduled_steady: "scheduled t xs fs bl bs \<Longrightarrow> steady t t' \<Longrightarrow> scheduled t' xs fs bl bs"
  using represents_steady[of t _ _ t'] by (simp add: scheduled_def steady_def)

lemma filter_neq: "x \<notin> set us \<Longrightarrow> filter (\<lambda>y. y \<noteq> x) us = us"
  by (induction us) auto

section \<open>One round\<close>

definition quota :: "aio_config \<Rightarrow> 'k thread \<Rightarrow> nat \<Rightarrow> int" where
  "quota c t x = min (io_iter c) (total_ios (opers t x) - started_ios (opers t x))"

text \<open>The same operations and units, with the same numbers of requests started.\<close>

definition kept :: "'k thread \<Rightarrow> 'k thread \<Rightarrow> bool" where
  "kept t t' \<longleftrightarrow> same_data t t' \<and> (\<forall>y. started_ios (opers t' y) = started_ios (opers t y))
     \<and> quiet t t'"

lemma kept_refl [simp]: "kept t t"
  by (simp add: kept_def)

lemma kept_trans: "kept t u \<Longrightarrow> kept u v \<Longrightarrow> kept t v"
  unfolding kept_def by (metis same_data_trans quiet_trans)

lemma kept_quota:
  assumes "kept t t'"
  shows "quota c t' y = quota c t y"
proof -
  have "data (opers t' y) = data (opers t y)" "started_ios (opers t' y) = started_ios (opers t y)"
    using assms by (simp_all add: kept_def same_data_def)
  then show ?thesis using dataD(1)[of "opers t' y" "opers t y"] by (simp add: quota_def)
qed

lemma unit_inv_opers:
  assumes "unit_inv P built t" and "\<And>y. unlinked (h y) = unlinked (opers t y)"
  shows "unit_inv P built (t\<lparr>opers := h, active_opers := al, finished_opers := fl\<rparr>)"
  using assms(1) by (rule unit_inv_cong) (use unlinkedD(1)[OF assms(2)] in simp_all)

text \<open>Only links and list heads differ.\<close>

definition relinked :: "'k thread \<Rightarrow> 'k thread \<Rightarrow> bool" where
  "relinked t t' \<longleftrightarrow> (\<exists>h al fl. t' = t\<lparr>opers := h, active_opers := al, finished_opers := fl\<rparr>
     \<and> (\<forall>y. unlinked (h y) = unlinked (opers t y)))"

lemma relinkedI:
  "(\<And>y. unlinked (h y) = unlinked (opers t y)) \<Longrightarrow>
   relinked t (t\<lparr>opers := h, active_opers := al, finished_opers := fl\<rparr>)"
  by (auto simp: relinked_def)

lemma relinked_refl [simp]: "relinked t t"
  unfolding relinked_def
  by (rule exI[of _ "opers t"], rule exI[of _ "active_opers t"], rule exI[of _ "finished_opers t"]) simp

lemma relinked_trans: "relinked t u \<Longrightarrow> relinked u v \<Longrightarrow> relinked t v"
  unfolding relinked_def by fastforce

lemma relinked_inv: "relinked t t' \<Longrightarrow> unit_inv P built t \<Longrightarrow> unit_inv P built t'"
  using unit_inv_opers by (fastforce simp: relinked_def)

lemma relinkedD:
  assumes "relinked t t'"
  shows "io_ctx t' = io_ctx t" "ios t' = ios t" "unlinked (opers t' y) = unlinked (opers t y)" "kept t t'"
proof -
  obtain h al fl where t': "t' = t\<lparr>opers := h, active_opers := al, finished_opers := fl\<rparr>"
    and u: "\<And>y. unlinked (h y) = unlinked (opers t y)" using assms by (auto simp: relinked_def)
  show "io_ctx t' = io_ctx t" "ios t' = ios t" "unlinked (opers t' y) = unlinked (opers t y)"
    by (simp_all add: t' u)
  show "kept t t'"
    using u unlinkedD(1,2)[OF u] data_unlinked[OF u] by (simp add: kept_def same_data_def quiet_def t')
qed

lemma put_back_ok:
  assumes "scheduled t xs fs bl bs"
  shows "\<exists>t'. put_back bl t = Some (Inr ((), t')) \<and> relinked t t'
    \<and> scheduled t' (xs @ filter (\<lambda>y. started_ios (opers t y) \<noteq> total_ios (opers t y)) bs)
        (fs @ filter (\<lambda>y. started_ios (opers t y) = total_ios (opers t y)) bs) None []"
  using assms
proof (induction bs arbitrary: t xs fs bl)
  case Nil
  then have "bl = None" by (simp add: scheduled_def represents_def)
  then show ?case using Nil by (intro exI[of _ t]) (subst put_back.simps, simp)
next
  case (Cons x bs)
  note sch = Cons.prems
  have reps: "represents (opers t) (active_opers t) xs" "represents (opers t) (finished_opers t) fs"
    "represents (opers t) bl (x # bs)" "set xs \<inter> set fs = {}" "set (x # bs) \<inter> set xs = {}"
    "set fs \<inter> set (x # bs) = {}" "distinct (x # bs)"
    using sch scheduled_distinct[OF sch] by (auto simp: scheduled_def)
  have bl: "bl = Some x" using reps(3) by (simp add: represents_def)
  have x: "x \<in> set (x # bs)" "x \<notin> set xs" "x \<notin> set fs" "x \<notin> set bs" using reps(5-7) by auto
  obtain ha h bl1 al where sh: "del_from x bl t = Inr (bl1, t\<lparr>opers := ha\<rparr>)"
    "\<forall>u :: 'a thread. opers u = ha \<longrightarrow> add_to x (active_opers t) u = (al, u\<lparr>opers := h\<rparr>)"
    "represents h bl1 (remove1 x (x # bs))" "represents h al (xs @ [x])"
    "\<forall>r zs. represents (opers t) r zs \<longrightarrow> set (x # bs) \<inter> set zs = {} \<longrightarrow> set xs \<inter> set zs = {} \<longrightarrow> represents h r zs"
    "\<forall>y. unlinked (h y) = unlinked (opers t y)" "\<forall>y. unlinked (ha y) = unlinked (opers t y)"
    by (rule shift_ok[OF reps(3,1) x(1) reps(5)])
  have ad: "add_to x (active_opers t) (t\<lparr>opers := ha\<rparr>) = (al, t\<lparr>opers := h\<rparr>)" using sh(2) by simp
  have fr: "represents h (finished_opers t) fs" using sh(5) reps(2,4,6) by blast
  have un: "unlinked (h y) = unlinked (opers t y)" for y using sh(6) by blast
  have eq: "started_ios (h y) = started_ios (opers t y)" "total_ios (h y) = total_ios (opers t y)" for y
    using unlinkedD(2,3)[OF un] by blast+
  show ?case
  proof (cases "started_ios (opers t x) = total_ios (opers t x)")
    case False
    let ?t = "t\<lparr>opers := h, active_opers := al, finished_opers := finished_opers t\<rparr>"
    have "scheduled ?t (xs @ [x]) fs bl1 bs"
      using sh(3,4) fr reps(4-7) x by (auto simp: scheduled_def)
    from Cons.IH[OF this] obtain t' where r: "put_back bl1 ?t = Some (Inr ((), t'))" "relinked ?t t'"
      "scheduled t' ((xs @ [x]) @ filter (\<lambda>y. started_ios (opers t y) \<noteq> total_ios (opers t y)) bs)
        (fs @ filter (\<lambda>y. started_ios (opers t y) = total_ios (opers t y)) bs) None []"
      by (auto simp: eq)
    have "put_back bl t = put_back bl1 ?t"
      using sh(1) ad False eq[of x] bl by (subst put_back.simps) simp
    moreover have "relinked t t'" using relinked_trans[OF relinkedI[OF un] r(2)] .
    ultimately show ?thesis using r(1,3) False by (intro exI[of _ t']) simp
  next
    case True
    let ?u = "t\<lparr>opers := h\<rparr>"
    have reps2: "represents (opers ?u) al (xs @ [x])" "represents (opers ?u) (finished_opers t) fs"
      "set (xs @ [x]) \<inter> set fs = {}" "x \<in> set (xs @ [x])" "represents (opers ?u) bl1 bs"
      "set (xs @ [x]) \<inter> set bs = {}" "set fs \<inter> set bs = {}"
      using sh(3,4) fr reps(4-7) x by auto
    obtain hb hc al1 fl where sh2: "del_from x al ?u = Inr (al1, ?u\<lparr>opers := hb\<rparr>)"
      "\<forall>u :: 'a thread. opers u = hb \<longrightarrow> add_to x (finished_opers t) u = (fl, u\<lparr>opers := hc\<rparr>)"
      "represents hc al1 (remove1 x (xs @ [x]))" "represents hc fl (fs @ [x])"
      "\<forall>r zs. represents (opers ?u) r zs \<longrightarrow> set (xs @ [x]) \<inter> set zs = {} \<longrightarrow> set fs \<inter> set zs = {} \<longrightarrow> represents hc r zs"
      "\<forall>y. unlinked (hc y) = unlinked (opers ?u y)" "\<forall>y. unlinked (hb y) = unlinked (opers ?u y)"
      by (rule shift_ok[OF reps2(1,2,4,3)])
    have ad2: "add_to x (finished_opers t) (?u\<lparr>opers := hb\<rparr>) = (fl, ?u\<lparr>opers := hc\<rparr>)" using sh2(2) by simp
    let ?t = "t\<lparr>opers := hc, active_opers := al1, finished_opers := fl\<rparr>"
    have un2: "unlinked (hc y) = unlinked (opers t y)" for y using sh2(6) un by simp
    have eq2: "started_ios (hc y) = started_ios (opers t y)" "total_ios (hc y) = total_ios (opers t y)" for y
      using unlinkedD(2,3)[OF un2] by blast+
    have "represents hc bl1 bs" using sh2(5) reps2(5-7) by blast
    then have "scheduled ?t xs (fs @ [x]) bl1 bs"
      using sh2(3,4) reps(4-7) x by (auto simp: scheduled_def remove1_append)
    from Cons.IH[OF this] obtain t' where r: "put_back bl1 ?t = Some (Inr ((), t'))" "relinked ?t t'"
      "scheduled t' (xs @ filter (\<lambda>y. started_ios (opers t y) \<noteq> total_ios (opers t y)) bs)
        ((fs @ [x]) @ filter (\<lambda>y. started_ios (opers t y) = total_ios (opers t y)) bs) None []"
      by (auto simp: eq2)
    have "put_back bl t = put_back bl1 ?t"
      using sh(1) ad True eq[of x] bl sh2(1) ad2 by (subst put_back.simps) simp
    moreover have "relinked t t'" using relinked_trans[OF relinkedI[OF un2] r(2)] .
    ultimately show ?thesis using r(1,3) True by (intro exI[of _ t']) simp
  qed
qed

context aio_context
begin

lemma runnable_dec: "\<exists>b. oper_runnable K x t = Inr (b, t)"
  using stat_ok[of "fd (opers t x)" "io_ctx t"]
  by (auto simp: oper_runnable_def Let_def split: prod.splits)

lemma build_active_ok:
  assumes "unit_inv (inflight (io_ctx t)) built t" and "scheduled t xs fs bl bs" and "xs = us @ x # vs"
    and "\<forall>y \<in> set xs. started_ios (opers t y) < total_ios (opers t y)"
    and "0 < io_iter c" and "int (length built) + io_iter c \<le> max_io_submit c"
    and "int (length built) + int (length xs) * io_iter c \<le> int (length (ios t))"
    and "\<And>y. owned t built y = (if y \<in> set bs then quota c t y else 0)"
  shows "\<exists>built' bl' t' zs. build_active c K (io_iter c) (Some x) built bl t = Some (Inr ((built', bl'), t'))
    \<and> unit_inv (inflight (io_ctx t')) built' t' \<and> set zs \<subseteq> set xs
    \<and> scheduled t' (filter (\<lambda>y. y \<notin> set zs) xs) fs bl' (bs @ zs) \<and> kept t t'
    \<and> (\<forall>y. owned t' built' y = (if y \<in> set (bs @ zs) then quota c t y else 0))
    \<and> (oper_runnable K x t = Inr (True, t) \<longrightarrow> zs \<noteq> [])"
  using assms
proof (induction "length xs * length xs + length vs" arbitrary: us x vs xs built bl bs t rule: less_induct)
  case less
  note inv = less.prems(1) and sch = less.prems(2) and xs = less.prems(3)
  have x: "x \<in> set xs" using xs by simp
  have dist: "distinct xs" using scheduled_distinct[OF sch] by blast
  obtain b where run: "oper_runnable K x t = Inr (b, t)" using runnable_dec by blast
  show ?case
  proof (cases b)
    case False
    have nx: "next_oper (opers t x) = hd (vs @ us @ [x])"
      using opers.rep_succ[of "opers t" "active_opers t" us x vs] sch xs by (simp add: scheduled_def)
    have act: "active_opers t = Some (hd xs)" using sch xs by (simp add: scheduled_def represents_def)
    show ?thesis
    proof (cases vs)
      case Nil
      then have "Some (next_oper (opers t x)) = active_opers t" using nx act xs by (cases us) simp_all
      then have "build_active c K (io_iter c) (Some x) built bl t = Some (Inr ((built, bl), t))"
        using run False by (subst build_active.simps) simp
      then show ?thesis using inv sch run False less.prems(8)
        by (intro exI[of _ built] exI[of _ bl] exI[of _ t] exI[of _ "[]"]) simp
    next
      case (Cons v ws)
      have "v \<noteq> hd xs" using dist xs Cons by (cases us) auto
      then have step: "build_active c K (io_iter c) (Some x) built bl t
          = build_active c K (io_iter c) (Some v) built bl t"
        using run False nx act Cons by (subst build_active.simps) simp
      have "length xs * length xs + length ws < length xs * length xs + length vs" using Cons by simp
      have "xs = (us @ [x]) @ v # ws" using xs Cons by simp
      from less.hyps[OF \<open>length xs * length xs + length ws < _\<close> inv sch this less.prems(4-8)]
      obtain built' bl' t' zs where r:
        "build_active c K (io_iter c) (Some v) built bl t = Some (Inr ((built', bl'), t'))"
        "unit_inv (inflight (io_ctx t')) built' t'" "set zs \<subseteq> set xs"
        "scheduled t' (filter (\<lambda>y. y \<notin> set zs) xs) fs bl' (bs @ zs)" "kept t t'"
        "\<forall>y. owned t' built' y = (if y \<in> set (bs @ zs) then quota c t y else 0)" by blast
      have "oper_runnable K x t \<noteq> Inr (True, t)" using run False by simp
      then show ?thesis unfolding step using r by blast
    qed
  next
    case True
    let ?n = "quota c t x"
    have lt: "started_ios (opers t x) < total_ios (opers t x)" using less.prems(4) x by blast
    have n1: "0 < ?n" "?n \<le> io_iter c" using lt less.prems(5) by (simp_all add: quota_def)
    have one: "io_iter c \<le> int (length xs) * io_iter c"
      using xs less.prems(5) by (simp add: algebra_simps)
    have room: "int (length built) + ?n \<le> int (length (ios t))" "int (length built) + ?n \<le> max_io_submit c"
      using less.prems(6,7) n1(2) one by linarith+
    obtain ns ta where bo: "build_oper c K x (io_iter c) built t = Inr ((?n, built @ ns), ta)"
      "int (length ns) = ?n" "grabbed x built ns t ta"
      using build_oper_ok[OF inv less.prems(5) less_imp_le[OF lt] quota_def room] by blast
    have st: "steady t ta" and inva: "unit_inv (inflight (io_ctx ta)) (built @ ns) ta"
      and starta: "\<And>y. started_ios (opers ta y) = started_ios (opers t y)"
      using bo(3) by (auto simp: grabbed_def)
    have scha: "scheduled ta xs fs bl bs" using scheduled_steady[OF sch st] .
    have reps: "represents (opers ta) (active_opers ta) xs" "represents (opers ta) bl bs"
      "represents (opers ta) (finished_opers ta) fs" "set xs \<inter> set bs = {}" "set xs \<inter> set fs = {}"
      "set bs \<inter> set fs = {}"
      using scha by (auto simp: scheduled_def)
    obtain ha h al bl' where sh: "del_from x (active_opers ta) ta = Inr (al, ta\<lparr>opers := ha\<rparr>)"
      "\<forall>u :: 'k thread. opers u = ha \<longrightarrow> add_to x bl u = (bl', u\<lparr>opers := h\<rparr>)"
      "represents h al (remove1 x xs)" "represents h bl' (bs @ [x])"
      "\<forall>r zs. represents (opers ta) r zs \<longrightarrow> set xs \<inter> set zs = {} \<longrightarrow> set bs \<inter> set zs = {} \<longrightarrow> represents h r zs"
      "\<forall>y. unlinked (h y) = unlinked (opers ta y)" "\<forall>y. unlinked (ha y) = unlinked (opers ta y)"
      by (rule shift_ok[OF reps(1,2) x reps(4)])
    have un: "unlinked (h y) = unlinked (opers ta y)" for y using sh(6) by blast
    have fr: "represents h (finished_opers ta) fs" using sh(5) reps(3,5,6) by blast
    define tb where "tb = ta\<lparr>opers := h, active_opers := al\<rparr>"
    have tb': "tb = ta\<lparr>opers := h, active_opers := al, finished_opers := finished_opers ta\<rparr>"
      by (simp add: tb_def)
    have ks: "kept t tb"
      using steady_same_data[OF st] unlinkedD(1,2)[OF un] data_unlinked[OF un] starta
        grabbed_quiet[OF bo(3) inv]
      by (simp add: kept_def same_data_def tb_def quiet_def)
    have invb: "unit_inv (inflight (io_ctx tb)) (built @ ns) tb"
      using unit_inv_opers[OF inva un, of "finished_opers ta" al] by (simp add: tb')
    have rem: "remove1 x xs = us @ vs" "x \<notin> set us" using xs dist by (auto simp: remove1_append)
    have schb: "scheduled tb (us @ vs) fs bl' (bs @ [x])"
      using sh(3,4) fr reps(4-6) rem dist xs unfolding scheduled_def tb_def
      by auto
    have own: "owned tb (built @ ns) y = (if y \<in> set (bs @ [x]) then quota c t y else 0)" for y
    proof -
      have dj: "set built \<inter> set ns = {}" using inva by (auto simp: unit_inv_def)
      have "owned tb built y = owned t built y"
        unfolding owned_def
        using bo(3) dj by (intro arg_cong[of _ _ "\<lambda>l. int (length l)"] filter_cong)
          (auto simp: tb_def grabbed_def)
      moreover have "owned tb ns y = (if y = x then ?n else 0)"
        using bo(2,3) by (auto simp: owned_def tb_def grabbed_def filter_True filter_False
            cong: filter_cong)
      moreover have "x \<notin> set bs" using reps(4) x by auto
      ultimately show ?thesis using less.prems(8)[of y] by (auto simp: owned_append)
    qed
    have step: "build_active c K (io_iter c) (Some x) built bl t =
        (if max_io_submit c < int (length (built @ ns)) + io_iter c
         then Some (Inr ((built @ ns, bl'), tb))
         else build_active c K (io_iter c) al (built @ ns) bl' tb)"
      using run True bo(1) sh(1) n1(1) sh(2)[rule_format, of "ta\<lparr>opers := ha\<rparr>"]
      by (subst build_active.simps) (simp add: tb_def Let_def)
    have fil: "filter (\<lambda>y. y \<notin> {x}) xs = us @ vs" using xs dist filter_neq[of x us] filter_neq[of x vs] by simp
    have stop: ?thesis if s: "build_active c K (io_iter c) (Some x) built bl t = Some (Inr ((built @ ns, bl'), tb))"
      using s invb schb ks own x fil
      by (intro exI[of _ "built @ ns"] exI[of _ bl'] exI[of _ tb] exI[of _ "[x]"]) simp
    show ?thesis
    proof (cases "max_io_submit c < int (length (built @ ns)) + io_iter c \<or> us @ vs = []")
      case True
      moreover have "al = None" if "us @ vs = []" using that schb by (simp add: scheduled_def represents_def tb_def)
      moreover have "build_active c K (io_iter c) None (built @ ns) bl' tb = Some (Inr ((built @ ns, bl'), tb))"
        by (subst build_active.simps) simp
      ultimately show ?thesis using step by (intro stop) (auto split: if_splits)
    next
      case False
      then obtain w ws where uv: "us @ vs = w # ws" by (cases "us @ vs") auto
      have al: "al = Some w" using schb uv by (simp add: scheduled_def represents_def tb_def)
      have len: "length xs = Suc (length (us @ vs))" using xs by simp
      have small: "length (us @ vs) * length (us @ vs) + length ws < length xs * length xs + length vs"
        using uv len by simp
      have act: "\<forall>y \<in> set (us @ vs). started_ios (opers tb y) < total_ios (opers tb y)"
        using less.prems(4) xs ks dataD(1) unfolding kept_def same_data_def by (metis (no_types, lifting) Un_iff set_append insert_iff list.set(2))
      have cap: "int (length (built @ ns)) + io_iter c \<le> max_io_submit c" using False by simp
      have fit: "int (length (built @ ns)) + int (length (us @ vs)) * io_iter c \<le> int (length (ios tb))"
      proof -
        have "int (length xs) * io_iter c = int (length (us @ vs)) * io_iter c + io_iter c"
          by (simp add: len algebra_simps)
        moreover have "length (ios tb) = length (ios t)" using ks by (simp add: kept_def same_data_def)
        ultimately show ?thesis using less.prems(7) bo(2) n1(2) by simp
      qed
      have own': "owned tb (built @ ns) y = (if y \<in> set (bs @ [x]) then quota c tb y else 0)" for y
        using own[of y] kept_quota[OF ks] by simp
      from less.hyps[OF small invb schb _ act less.prems(5) cap fit own', of "[]" w] uv
      obtain built' bl2 t' zs where r:
        "build_active c K (io_iter c) (Some w) (built @ ns) bl' tb = Some (Inr ((built', bl2), t'))"
        "unit_inv (inflight (io_ctx t')) built' t'" "set zs \<subseteq> set (us @ vs)"
        "scheduled t' (filter (\<lambda>y. y \<notin> set zs) (us @ vs)) fs bl2 ((bs @ [x]) @ zs)" "kept tb t'"
        "\<forall>y. owned t' built' y = (if y \<in> set ((bs @ [x]) @ zs) then quota c tb y else 0)"
        by auto
      have "filter (\<lambda>y. y \<notin> set (x # zs)) xs = filter (\<lambda>y. y \<notin> set zs) (filter (\<lambda>y. y \<notin> {x}) xs)"
        by (simp add: conj_commute)
      then have "filter (\<lambda>y. y \<notin> set (x # zs)) xs = filter (\<lambda>y. y \<notin> set zs) (us @ vs)"
        unfolding fil .
      then have "scheduled t' (filter (\<lambda>y. y \<notin> set (x # zs)) xs) fs bl2 (bs @ x # zs)"
        using r(4) by simp
      moreover have "set (x # zs) \<subseteq> set xs" using r(3) xs by auto
      moreover have "build_active c K (io_iter c) (Some x) built bl t = Some (Inr ((built', bl2), t'))"
        using step False r(1) al by simp
      moreover have "owned t' built' y = (if y \<in> set (bs @ x # zs) then quota c t y else 0)" for y
        using r(6) kept_quota[OF ks] by simp
      ultimately show ?thesis
        using r(2) kept_trans[OF ks r(5)]
        by (intro exI[of _ built'] exI[of _ bl2] exI[of _ t'] exI[of _ "x # zs"]) simp
    qed
  qed
qed

text \<open>
  What a round does: the operations \<open>zs\<close> that it reached have started their quota; those with
  requests left are at the end of the active list, the others at the end of the finished one.
\<close>

definition round_done ::
  "aio_config \<Rightarrow> nat list \<Rightarrow> nat list \<Rightarrow> nat list \<Rightarrow> 'k thread \<Rightarrow> 'k thread \<Rightarrow> bool" where
  "round_done c xs fs zs t t' \<longleftrightarrow> unit_inv (inflight (io_ctx t')) [] t' \<and> same_data t t'
     \<and> set zs \<subseteq> set xs \<and> distinct zs
     \<and> (\<forall>y. y \<notin> set zs \<longrightarrow> num_pending (opers t y) = 0 \<longrightarrow> num_pending (opers t' y) = 0)
     \<and> (\<forall>y. started_ios (opers t' y) = started_ios (opers t y) + (if y \<in> set zs then quota c t y else 0))
     \<and> scheduled t' (filter (\<lambda>y. y \<notin> set zs) xs
           @ filter (\<lambda>y. started_ios (opers t' y) < total_ios (opers t' y)) zs)
         (fs @ filter (\<lambda>y. started_ios (opers t' y) = total_ios (opers t' y)) zs) None []"

lemma run_active_list_ok:
  assumes inv: "unit_inv (inflight (io_ctx t)) [] t" and sch: "scheduled t (x # xs) fs None []"
    and act: "\<forall>y \<in> set (x # xs). started_ios (opers t y) < total_ios (opers t y)"
    and iter: "0 < io_iter c" and cap: "io_iter c \<le> max_io_submit c"
    and room: "int (length (x # xs)) * io_iter c \<le> int (length (ios t))"
  shows "\<exists>zs t'. run_active_list c K t = Inr ((), t') \<and> round_done c (x # xs) fs zs t t'
    \<and> (oper_runnable K x t = Inr (True, t) \<longrightarrow> zs \<noteq> [])"
proof -
  have al: "active_opers t = Some x" using sch by (simp add: scheduled_def represents_def)
  have own0: "owned t [] y = (if y \<in> set [] then quota c t y else 0)" for y by (simp add: owned_def)
  obtain built bl ta zs where b:
    "build_active c K (io_iter c) (Some x) [] None t = Some (Inr ((built, bl), ta))"
    "unit_inv (inflight (io_ctx ta)) built ta" "set zs \<subseteq> set (x # xs)"
    "scheduled ta (filter (\<lambda>y. y \<notin> set zs) (x # xs)) fs bl zs" "kept t ta"
    "\<forall>y. owned ta built y = (if y \<in> set zs then quota c t y else 0)"
    "oper_runnable K x t = Inr (True, t) \<longrightarrow> zs \<noteq> []"
    using build_active_ok[OF inv sch _ act iter _ _ own0, of "[]" x xs] cap room by auto
  have dz: "distinct zs" using scheduled_distinct[OF b(4)] by blast
  have bt: "or_hang t (build_active c K (io_iter c) (active_opers t) [] None t) = Inr ((built, bl), ta)"
    using b(1) al by (simp add: or_hang_def)
  have pos: "0 < quota c t y" if "y \<in> set zs" for y
    using that b(3) act iter by (auto simp: quota_def)
  show ?thesis
  proof (cases built)
    case Nil
    have "zs = []"
    proof (rule ccontr)
      assume "zs \<noteq> []"
      then have "hd zs \<in> set zs" by simp
      then have "owned ta built (hd zs) \<noteq> 0" using b(6) pos[of "hd zs"] by simp
      then show False using Nil by (simp add: owned_def)
    qed
    then have "round_done c (x # xs) fs [] t ta"
      using b Nil \<open>zs = []\<close> by (simp add: round_done_def kept_def scheduled_def represents_def quiet_def)
    then show ?thesis using bt Nil b(7) \<open>zs = []\<close> by (intro exI[of _ "[]"] exI[of _ ta]) (simp add: run_active_list_def)
  next
    case (Cons u us)
    obtain tb where rb: "run_built_loop c K built ta = Some (Inr (0, tb))" "submitted built ta tb"
      using run_built_ok[OF b(2) _ iter] Cons by auto
    have sb: "unit_inv (inflight (io_ctx tb)) [] tb" "steady ta tb"
      and st: "\<And>y. started_ios (opers tb y) = started_ios (opers t y) + (if y \<in> set zs then quota c t y else 0)"
      using rb(2) b(5,6) by (auto simp: submitted_def kept_def)
    have schb: "scheduled tb (filter (\<lambda>y. y \<notin> set zs) (x # xs)) fs bl zs"
      by (rule scheduled_steady[OF b(4) sb(2)])
    obtain t' where pb: "put_back bl tb = Some (Inr ((), t'))" "relinked tb t'"
      "scheduled t' (filter (\<lambda>y. y \<notin> set zs) (x # xs)
           @ filter (\<lambda>y. started_ios (opers tb y) \<noteq> total_ios (opers tb y)) zs)
         (fs @ filter (\<lambda>y. started_ios (opers tb y) = total_ios (opers tb y)) zs) None []"
      using put_back_ok[OF schb] by blast
    note R = relinkedD[OF pb(2)]
    have sd: "same_data t t'"
      using b(5) steady_same_data[OF sb(2)] R(4) same_data_trans unfolding kept_def by blast
    have tot: "total_ios (opers tb y) = total_ios (opers t y)" for y
      using b(5) steady_same_data[OF sb(2)] dataD(1)[of "opers tb y" "opers t y"]
      by (simp add: kept_def same_data_def)
    have t': "started_ios (opers t' y) = started_ios (opers tb y)"
      "total_ios (opers t' y) = total_ios (opers tb y)" for y
      using unlinkedD(2,3)[OF R(3)] by blast+
    have le: "started_ios (opers tb y) \<noteq> total_ios (opers tb y) \<longleftrightarrow>
        started_ios (opers tb y) < total_ios (opers tb y)" if "y \<in> set zs" for y
      using that st[of y] tot[of y] by (auto simp: quota_def)
    have fil: "filter (\<lambda>y. started_ios (opers tb y) \<noteq> total_ios (opers tb y)) zs
        = filter (\<lambda>y. started_ios (opers tb y) < total_ios (opers tb y)) zs"
      by (rule filter_cong[OF refl le])
    have idle: "num_pending (opers t' y) = 0" if "y \<notin> set zs" "num_pending (opers t y) = 0" for y
    proof -
      have "num_pending (opers ta y) = 0" using b(5) that(2) by (simp add: kept_def quiet_def)
      then have "num_pending (opers tb y) = 0"
        using submitted_idle[OF rb(2) b(2)] b(6) that(1) by simp
      then show ?thesis using unlinkedD(1)[OF R(3), of y] by simp
    qed
    have "round_done c (x # xs) fs zs t t'"
      using relinked_inv[OF pb(2) sb(1)] R(1) sd b(3) dz st pb(3) idle
      unfolding round_done_def t' fil by simp
    moreover have "run_active_list c K t = Inr ((), t')"
      using bt rb(1) pb(1) Cons by (simp add: run_active_list_def run_built_def or_hang_def)
    ultimately show ?thesis using b(7) by blast
  qed
qed

end

end
