(* ===== verification/Aio_Stages.thy ===== *)
theory Aio_Stages
  imports Aio_Worker_Ok
begin

text \<open>
  A whole run of a thread on the contract \<open>aio_context\<close>: the loop that sends (\<open>send_loop\<close>), the
  waits, the restarts and the repetition of stages all end, and at the end every operation without
  an error has done its last stage completely and no request is left in the kernel. The operations
  start at offset 0 (one context per file), so that all are runnable.
\<close>

section \<open>Sending\<close>

text \<open>The number of requests still to send; every round makes it smaller.\<close>

definition to_send :: "'k thread \<Rightarrow> nat list \<Rightarrow> nat" where
  "to_send t xs = (\<Sum>y \<in> set xs. nat (total_ios (opers t y) - started_ios (opers t y)))"

lemma same_data_total:
  assumes "same_data t t'"
  shows "total_ios (opers t' y) = total_ios (opers t y)" "start (opers t' y) = start (opers t y)"
    "rw (opers t' y) = rw (opers t y)"
proof -
  have "data (opers t' y) = data (opers t y)" using assms by (simp add: same_data_def)
  from dataD(1)[OF this] dataD(3)[OF this] dataD(2)[OF this]
  show "total_ios (opers t' y) = total_ios (opers t y)"
    "start (opers t' y) = start (opers t y)" "rw (opers t' y) = rw (opers t y)" .
qed

context aio_context
begin

lemma ending_not_seen:
  assumes "unstopped c K"
  shows "\<exists>k. ending_seen c K t = (False, t\<lparr>io_ctx := k\<rparr>) \<and> inflight k = inflight (io_ctx t)"
proof (cases "stonewall c")
  case True
  obtain s e k where k: "a_counts K (io_ctx t) = ((s, e), k)" by (metis prod.exhaust)
  have "e = 0" using assms True k by (auto simp: unstopped_def dest: spec[of _ "io_ctx t"])
  then show ?thesis using True k counts_inflight[OF k] by (auto simp: ending_seen_def)
next
  case False
  then show ?thesis by (intro exI[of _ "io_ctx t"]) (simp add: ending_seen_def)
qed

lemma round_progress:
  assumes r: "round_done c xs fs zs t t'" and act: "\<forall>y \<in> set xs. started_ios (opers t y) < total_ios (opers t y)"
    and iter: "0 < io_iter c" and dist: "distinct xs"
  defines "xs' \<equiv> filter (\<lambda>y. y \<notin> set zs) xs @ filter (\<lambda>y. started_ios (opers t' y) < total_ios (opers t' y)) zs"
  shows "set xs' \<subseteq> set xs" and "length xs' \<le> length xs"
    and "\<forall>y \<in> set xs'. started_ios (opers t' y) < total_ios (opers t' y)"
    and "zs \<noteq> [] \<Longrightarrow> to_send t' xs' < to_send t xs"
    and "set (filter (\<lambda>y. started_ios (opers t' y) = total_ios (opers t' y)) zs) \<union> set xs' = set xs"
proof -
  have zs: "set zs \<subseteq> set xs" "distinct zs" and sd: "same_data t t'"
    and st: "\<And>y. started_ios (opers t' y) = started_ios (opers t y) + (if y \<in> set zs then quota c t y else 0)"
    using r by (simp_all add: round_done_def)
  note tot = same_data_total(1)[OF sd]
  show sub: "set xs' \<subseteq> set xs" using zs(1) by (auto simp: xs'_def)
  have "distinct xs'" using dist zs(2) by (auto simp: xs'_def)
  then show "length xs' \<le> length xs"
    using sub dist by (metis card_mono distinct_card finite_set)
  have q: "0 < quota c t y" "quota c t y \<le> total_ios (opers t y) - started_ios (opers t y)"
    if "y \<in> set xs" for y using that act iter by (auto simp: quota_def)
  show act': "\<forall>y \<in> set xs'. started_ios (opers t' y) < total_ios (opers t' y)"
    using act st tot by (auto simp: xs'_def)
  have le: "nat (total_ios (opers t' y) - started_ios (opers t' y))
      \<le> nat (total_ios (opers t y) - started_ios (opers t y))" if "y \<in> set xs" for y
    using st[of y] tot[of y] q[OF that] by auto
  show "to_send t' xs' < to_send t xs" if "zs \<noteq> []"
  proof -
    have "hd zs \<in> set xs" using zs(1) that by auto
    then have "to_send t' xs < to_send t xs"
      unfolding to_send_def
      using le st[of "hd zs"] tot[of "hd zs"] q that act
      by (intro sum_strict_mono_ex1) (auto intro!: bexI[of _ "hd zs"])
    moreover have "to_send t' xs' \<le> to_send t' xs"
      unfolding to_send_def by (rule sum_mono2) (use sub in auto)
    ultimately show ?thesis by simp
  qed
  have "started_ios (opers t' y) \<le> total_ios (opers t' y)" if "y \<in> set xs" for y
    using st[of y] tot[of y] q[OF that] act that by auto
  then show "set (filter (\<lambda>y. started_ios (opers t' y) = total_ios (opers t' y)) zs) \<union> set xs' = set xs"
    using zs(1) by (fastforce simp: xs'_def)
qed

text \<open>What the loop of rounds has done.\<close>

definition all_sent :: "nat list \<Rightarrow> nat list \<Rightarrow> 'k thread \<Rightarrow> 'k thread \<Rightarrow> bool" where
  "all_sent xs fs t t' \<longleftrightarrow> unit_inv (inflight (io_ctx t')) [] t' \<and> same_data t t'
     \<and> (\<exists>ys. scheduled t' [] (fs @ ys) None [] \<and> set ys = set xs)
     \<and> (\<forall>y \<in> set xs. started_ios (opers t' y) = total_ios (opers t y))
     \<and> (\<forall>y. y \<notin> set xs \<longrightarrow> started_ios (opers t' y) = started_ios (opers t y)
          \<and> (num_pending (opers t y) = 0 \<longrightarrow> num_pending (opers t' y) = 0))"

lemma send_loop_ok:
  assumes "unit_inv (inflight (io_ctx t)) [] t" and "scheduled t xs fs None []"
    and "\<forall>y \<in> set xs. started_ios (opers t y) < total_ios (opers t y) \<and> start (opers t y) = 0"
    and "0 < io_iter c" and "io_iter c \<le> max_io_submit c" and "iterations c = RUN_FOREVER"
    and "int (length xs) * io_iter c \<le> int (length (ios t))" and "unstopped c K"
  shows "\<exists>cnt' t'. send_loop c K cnt t = Some (Inr (cnt', t')) \<and> all_sent xs fs t t'"
  using assms
proof (induction "to_send t xs" arbitrary: xs fs t cnt rule: less_induct)
  case less
  note inv = less.prems(1) and sch = less.prems(2)
  show ?case
  proof (cases xs)
    case Nil
    then have "active_opers t = None" using sch by (simp add: scheduled_def represents_def)
    then have "send_loop c K cnt t = Some (Inr (cnt, t))" by (subst send_loop.simps) simp
    moreover have "all_sent xs fs t t"
      using inv sch Nil by (auto simp: all_sent_def intro!: exI[of _ "[]"])
    ultimately show ?thesis by blast
  next
    case (Cons x r)
    have al: "active_opers t = Some x" using sch Cons by (simp add: scheduled_def represents_def)
    have act: "\<forall>y \<in> set xs. started_ios (opers t y) < total_ios (opers t y)" using less.prems(3) by blast
    obtain k where k: "ending_seen c K t = (False, t\<lparr>io_ctx := k\<rparr>)" "inflight k = inflight (io_ctx t)"
      using ending_not_seen[OF less.prems(8)] by blast
    let ?t = "t\<lparr>io_ctx := k\<rparr>"
    have "start (opers t x) = 0" using less.prems(3) Cons by simp
    then have run: "oper_runnable K x ?t = Inr (True, ?t)" by (simp add: oper_runnable_def Let_def)
    have inv0: "unit_inv (inflight (io_ctx ?t)) [] ?t"
      using unit_inv_cong[OF inv, of ?t] k(2) by simp
    have sch0: "scheduled ?t xs fs None []" using sch by (simp add: scheduled_def)
    have ready0: "\<forall>y \<in> set xs. started_ios (opers ?t y) < total_ios (opers ?t y)"
      "int (length xs) * io_iter c \<le> int (length (ios ?t))" using act less.prems(7) by simp_all
    obtain zs ta where ra0: "run_active_list c K ?t = Inr ((), ta)" "round_done c xs fs zs ?t ta" "zs \<noteq> []"
      using run_active_list_ok[OF inv0 sch0[unfolded Cons] ready0(1)[unfolded Cons] less.prems(4,5)
        ready0(2)[unfolded Cons]] run Cons by blast
    have "quota c ?t y = quota c t y" "same_data ?t ta = same_data t ta" "opers ?t = opers t" for y
      by (simp_all add: quota_def same_data_def)
    note unchanged = this
    have "round_done c xs fs zs t ta" using ra0(2) unfolding round_done_def unchanged .
    note ra = ra0(1) this ra0(3)
    define xs' where "xs' = filter (\<lambda>y. y \<notin> set zs) xs
      @ filter (\<lambda>y. started_ios (opers ta y) < total_ios (opers ta y)) zs"
    define ns where "ns = filter (\<lambda>y. started_ios (opers ta y) = total_ios (opers ta y)) zs"
    note P = round_progress[OF ra(2) act less.prems(4) scheduled_distinct[OF sch, THEN conjunct1],
      folded xs'_def ns_def]
    have R: "unit_inv (inflight (io_ctx ta)) [] ta" "same_data t ta" "scheduled ta xs' (fs @ ns) None []"
      "set zs \<subseteq> set xs"
      and st: "\<And>y. started_ios (opers ta y) = started_ios (opers t y) + (if y \<in> set zs then quota c t y else 0)"
      and idle: "\<And>y. y \<notin> set zs \<Longrightarrow> num_pending (opers t y) = 0 \<Longrightarrow> num_pending (opers ta y) = 0"
      using ra(2) unfolding round_done_def xs'_def ns_def by blast+
    note T = same_data_total[OF R(2)]
    have ready: "\<forall>y \<in> set xs'. started_ios (opers ta y) < total_ios (opers ta y) \<and> start (opers ta y) = 0"
      using P(1,3) less.prems(3) T(2) by auto
    have room: "int (length xs') * io_iter c \<le> int (length (ios ta))"
    proof -
      have "int (length xs') * io_iter c \<le> int (length xs) * io_iter c"
        using P(2) less.prems(4) by (intro mult_right_mono) simp_all
      then show ?thesis using less.prems(7) R(2) by (simp add: same_data_def)
    qed
    obtain cnt' t' where s: "send_loop c K (cnt + 1) ta = Some (Inr (cnt', t'))"
      "all_sent xs' (fs @ ns) ta t'"
      using less.hyps[OF P(4)[OF ra(3)] R(1,3) ready less.prems(4-6) room less.prems(8)] by blast
    have step: "send_loop c K cnt t = Some (Inr (cnt', t'))"
      using al ra(1) s(1) k(1) less.prems(6) by (subst send_loop.simps) simp
    obtain ys where ys: "scheduled t' [] ((fs @ ns) @ ys) None []" "set ys = set xs'"
      using s(2) by (auto simp: all_sent_def)
    have fin: "started_ios (opers t' y) = total_ios (opers t y)" if "y \<in> set xs" for y
    proof (cases "y \<in> set xs'")
      case True
      then show ?thesis using s(2) T(1) by (simp add: all_sent_def)
    next
      case False
      then have "y \<in> set ns" using P(5) that by auto
      then show ?thesis using s(2) False T(1)[of y] by (simp add: all_sent_def ns_def)
    qed
    have out: "started_ios (opers t' y) = started_ios (opers t y)
        \<and> (num_pending (opers t y) = 0 \<longrightarrow> num_pending (opers t' y) = 0)" if "y \<notin> set xs" for y
    proof -
      have "y \<notin> set xs'" "y \<notin> set zs" using that P(1) R(4) by auto
      then show ?thesis using s(2) st[of y] idle[of y] by (simp add: all_sent_def)
    qed
    have "scheduled t' [] (fs @ ns @ ys) None []" "set (ns @ ys) = set xs" using ys P(5) by auto
    then have "all_sent xs fs t t'"
      using s(2) same_data_trans[OF R(2)] fin out by (auto simp: all_sent_def)
    then show ?thesis using step by blast
  qed
qed

section \<open>Waiting\<close>

text \<open>What a wait leaves as it was.\<close>

definition waited :: "'k thread \<Rightarrow> 'k thread \<Rightarrow> bool" where
  "waited t t' \<longleftrightarrow> unit_inv (inflight (io_ctx t')) [] t' \<and> steady t t' \<and> quiet t t'
     \<and> (\<forall>y. started_ios (opers t' y) = started_ios (opers t y))"

lemma waited_trans: "waited t u \<Longrightarrow> waited u v \<Longrightarrow> waited t v"
  unfolding waited_def using steady_trans quiet_trans by metis

lemma wait_loop_ok:
  assumes "unit_inv (inflight (io_ctx t)) [] t" and "num_pending (opers t x) \<noteq> 0"
  shows "\<exists>t'. wait_loop c K x t = Some (Inr ((), t')) \<and> waited t t' \<and> num_pending (opers t' x) = 0"
  using assms
proof (induction "card (inflight (io_ctx t))" arbitrary: t rule: less_induct)
  case less
  let ?P = "inflight (io_ctx t)"
  have "?P \<noteq> {}" using less.prems idle_iff[OF less.prems(1), of x] by blast
  then have c1: "1 \<le> int (card ?P)" using fin[of "io_ctx t"] by (simp add: Suc_le_eq card_gt_0_iff)
  obtain evs k where g: "a_getevents K 1 1 (io_ctx t) = (int (length evs), evs, k)"
    "1 \<le> int (length evs)" "int (length evs) \<le> 1" "set (map fst evs) \<subseteq> ?P"
    "inflight k = ?P - set (map fst evs)"
    using getevents[of 1 1 "io_ctx t"] c1 by auto
  have "length evs = 1" using g(2,3) by simp
  then obtain e where e: "evs = [e]" by (cases evs) auto
  obtain u r data where eu: "e = (u, r, data)" by (cases e)
  have u: "u \<in> ?P" using g(4) e eu by simp
  obtain tv t2 where n: "now K (t\<lparr>io_ctx := k\<rparr>) = (tv, t2)" by fastforce
  obtain k2 where k2: "t2 = t\<lparr>io_ctx := k2\<rparr>" "inflight k2 = inflight k" using now_same[OF n] by auto
  have inv2: "unit_inv ?P [] t2" using less.prems(1) by (rule unit_inv_cong) (simp_all add: k2(1))
  let ?t = "finish_io c K u r data tv t2"
  note F = finish_io_ok[OF inv2 u, of c r data tv]
  have in': "inflight (io_ctx ?t) = ?P - {u}" using F(3) k2 g(5) e eu by simp
  have w: "waited t ?t"
  proof -
    have "steady t ?t" using F(2) by (simp add: steady_def k2(1))
    moreover have "unit_inv (inflight (io_ctx ?t)) [] ?t" using F(1) in' by simp
    moreover from this have "num_pending (opers ?t y) = 0" if "num_pending (opers t y) = 0" for y
      using that F(5) in' k2(1) unfolding idle_iff[OF less.prems(1)] by (simp add: idle_iff)
    ultimately show ?thesis using F(4) by (simp add: waited_def quiet_def k2(1))
  qed
  have step: "wait_loop c K x t = (if num_pending (opers ?t x) = 0 then Some (Inr ((), ?t)) else wait_loop c K x ?t)"
    using g(1) e eu n by (subst wait_loop.simps) simp
  show ?case
  proof (cases "num_pending (opers ?t x) = 0")
    case True
    then show ?thesis using step w by auto
  next
    case False
    have "card (inflight (io_ctx ?t)) < card ?P" unfolding in' using u fin by (intro card_Diff1_less)
    from less.hyps[OF this _ False] w obtain t' where
      "wait_loop c K x ?t = Some (Inr ((), t'))" "waited ?t t'" "num_pending (opers t' x) = 0"
      by (auto simp: waited_def)
    then show ?thesis using step False waited_trans[OF w] by auto
  qed
qed

lemma io_oper_wait_ok:
  assumes "unit_inv (inflight (io_ctx t)) [] t"
  shows "\<exists>t'. io_oper_wait c K x t = Inr ((), t') \<and> waited t t' \<and> num_pending (opers t' x) = 0"
  using wait_loop_ok[OF assms, of x c] assms
  by (cases "num_pending (opers t x) = 0") (auto simp: io_oper_wait_def or_hang_def waited_def)

lemma wait_all_ok:
  assumes "unit_inv (inflight (io_ctx t)) [] t" and "scheduled t xs fs bl bs" and "fs = us @ x # vs"
  shows "\<exists>t'. wait_all c K x t = Some (Inr ((), t')) \<and> waited t t'
    \<and> (\<forall>y \<in> set (x # vs). num_pending (opers t' y) = 0)"
  using assms
proof (induction vs arbitrary: t us x)
  case Nil
  obtain ta where w: "io_oper_wait c K x t = Inr ((), ta)" "waited t ta" "num_pending (opers ta x) = 0"
    using io_oper_wait_ok[OF Nil.prems(1)] by blast
  have sch: "scheduled ta xs fs bl bs" using scheduled_steady[OF Nil.prems(2)] w(2) by (simp add: waited_def)
  have "next_oper (opers ta x) = hd ([] @ us @ [x])"
    by (rule opers.rep_succ[of _ "finished_opers ta"]) (use sch Nil.prems(3) in \<open>simp add: scheduled_def\<close>)
  moreover have "finished_opers ta = Some (hd fs)" using sch Nil.prems(3) by (simp add: scheduled_def represents_def)
  ultimately have "wait_all c K x t = Some (Inr ((), ta))"
    using w(1) Nil.prems(3) by (subst wait_all.simps) simp
  then show ?case using w by auto
next
  case (Cons v vs)
  obtain ta where w: "io_oper_wait c K x t = Inr ((), ta)" "waited t ta" "num_pending (opers ta x) = 0"
    using io_oper_wait_ok[OF Cons.prems(1)] by blast
  have sch: "scheduled ta xs fs bl bs" using scheduled_steady[OF Cons.prems(2)] w(2) by (simp add: waited_def)
  have "next_oper (opers ta x) = hd ((v # vs) @ us @ [x])"
    by (rule opers.rep_succ[of _ "finished_opers ta"]) (use sch Cons.prems(3) in \<open>simp add: scheduled_def\<close>)
  moreover have "finished_opers ta = Some (hd fs)" using sch Cons.prems(3) by (simp add: scheduled_def represents_def)
  moreover have "v \<noteq> hd fs"
    using scheduled_distinct[OF sch] Cons.prems(3) by (cases us) auto
  ultimately have step: "wait_all c K x t = wait_all c K v ta"
    using w(1) by (subst wait_all.simps) simp
  have inv: "unit_inv (inflight (io_ctx ta)) [] ta" using w(2) by (simp add: waited_def)
  have "fs = (us @ [x]) @ v # vs" using Cons.prems(3) by simp
  from Cons.IH[OF inv sch this] obtain t' where r: "wait_all c K v ta = Some (Inr ((), t'))" "waited ta t'"
    "\<forall>y \<in> set (v # vs). num_pending (opers t' y) = 0" by blast
  have "num_pending (opers t' x) = 0" using r(2) w(3) by (simp add: waited_def quiet_def)
  then show ?case using step r waited_trans[OF w(2)] by auto
qed

end

end
