(* ===== verification/Aio_Setup.thy ===== *)
theory Aio_Setup
  imports Aio_Worker C_Text
begin

text \<open>
  \<open>main\<close> of \<open>aio-stress\<close> up to the start of the threads: the options, the limits made
  consistent, the operations handed out to the threads, and the buffers.
\<close>

section \<open>Options\<close>

text \<open>
  The last character is dropped when it is above \<open>9\<close> as a signed \<open>char\<close>. \<open>None\<close>: the argument is
  empty and the code reads before its first character.
\<close>

definition parse_size :: "string \<Rightarrow> int \<Rightarrow> int option" where
  "parse_size arg mult =
     (if arg = [] then None
      else
        (let c = last arg;
             code = (of_char c :: nat);
             digits = (if 57 < code \<and> code < 128 then butlast arg else arg);
             num = atoi digits;
             m = (if c = CHR ''g'' \<or> c = CHR ''G'' then 1024 * 1024 * 1024
                  else if c = CHR ''m'' \<or> c = CHR ''M'' then 1024 * 1024
                  else if c = CHR ''k'' \<or> c = CHR ''K'' then 1024
                  else if c = CHR ''b'' \<or> c = CHR ''B'' then 1
                  else mult)
         in Some (s64 (m * num))))"

record main_opts =
  m_config :: aio_config
  m_depth :: int
  m_file_size :: int
  m_first_stage :: int
  m_unlink :: bool
  m_direct :: bool
  m_sync :: bool
  m_shm :: int

definition main_defaults :: "int \<Rightarrow> main_opts" where
  "main_defaults pagesize = \<lparr>m_config = \<lparr>stages = 0, page_size_mask = pagesize - 1, io_iter = 8,
       iterations = RUN_FOREVER, max_io_submit = 0, rec_len = 64 * 1024, num_threads = 1,
       num_contexts = 1, context_offset = 2 * 1024 * 1024, fsync_stages = True, stonewall = True,
       verify = False, latency_stats = False,
       completion_latency_stats = False, verify_buf = []\<rparr>,
     m_depth = 64, m_file_size = 1024 * 1024 * 1024, m_first_stage = WRITE, m_unlink = False, m_direct = False, m_sync = False, m_shm = 0\<rparr>"

definition conf :: "(aio_config \<Rightarrow> aio_config) \<Rightarrow> main_opts \<Rightarrow> main_opts" where
  "conf f p = p\<lparr>m_config := f (m_config p)\<rparr>"

definition sized :: "string \<Rightarrow> int \<Rightarrow> (int \<Rightarrow> main_opts) \<Rightarrow> halt + main_opts" where
  "sized arg mult f = (case parse_size arg mult of None \<Rightarrow> Inl Fault | Some v \<Rightarrow> Inr (f v))"

text \<open>
  One option. \<open>-C\<close> falls through to \<open>-b\<close>; \<open>-o\<close> shifts by its argument.
\<close>

definition aio_opt :: "char \<Rightarrow> string \<Rightarrow> main_opts \<Rightarrow> halt + main_opts" where
  "aio_opt ch arg p =
     (if ch = CHR ''a'' then sized arg 1024 (\<lambda>v. conf (\<lambda>c. c\<lparr>page_size_mask := u64 (u64 v - 1)\<rparr>) p)
      else if ch = CHR ''c'' then Inr (conf (\<lambda>c. c\<lparr>num_contexts := atoi arg\<rparr>) p)
      else if ch = CHR ''C'' then
        sized arg (1024 * 1024) (\<lambda>v. conf (\<lambda>c. c\<lparr>context_offset := v, max_io_submit := atoi arg\<rparr>) p)
      else if ch = CHR ''b'' then Inr (conf (\<lambda>c. c\<lparr>max_io_submit := atoi arg\<rparr>) p)
      else if ch = CHR ''s'' then sized arg (1024 * 1024) (\<lambda>v. p\<lparr>m_file_size := v\<rparr>)
      else if ch = CHR ''d'' then Inr (p\<lparr>m_depth := atoi arg\<rparr>)
      else if ch = CHR ''r'' then sized arg 1024 (\<lambda>v. conf (\<lambda>c. c\<lparr>rec_len := v\<rparr>) p)
      else if ch = CHR ''i'' then Inr (conf (\<lambda>c. c\<lparr>io_iter := atoi arg\<rparr>) p)
      else if ch = CHR ''I'' then Inr (conf (\<lambda>c. c\<lparr>iterations := atoi arg\<rparr>) p)
      else if ch = CHR ''n'' then Inr (conf (\<lambda>c. c\<lparr>fsync_stages := False\<rparr>) p)
      else if ch = CHR ''l'' then Inr (conf (\<lambda>c. c\<lparr>latency_stats := True\<rparr>) p)
      else if ch = CHR ''L'' then Inr (conf (\<lambda>c. c\<lparr>completion_latency_stats := True\<rparr>) p)
      else if ch = CHR ''m'' then
        Inr (if arg = ''shm'' then p\<lparr>m_shm := 1\<rparr> else if arg = ''shmfs'' then p\<lparr>m_shm := 2\<rparr> else p)
      else if ch = CHR ''o'' then
        (let i = atoi arg in
         if 0 \<le> i \<and> i < 31 then Inr (conf (\<lambda>c. c\<lparr>stages := stages c OR 2 ^ nat i\<rparr>) p) else Inl Fault)
      else if ch = CHR ''O'' then Inr (p\<lparr>m_direct := True\<rparr>)
      else if ch = CHR ''S'' then Inr (p\<lparr>m_sync := True\<rparr>)
      else if ch = CHR ''t'' then Inr (conf (\<lambda>c. c\<lparr>num_threads := atoi arg\<rparr>) p)
      else if ch = CHR ''x'' then Inr (conf (\<lambda>c. c\<lparr>stonewall := False\<rparr>) p)
      else if ch = CHR ''u'' then Inr (p\<lparr>m_unlink := True\<rparr>)
      else if ch = CHR ''v'' then Inr (conf (\<lambda>c. c\<lparr>verify := True\<rparr>) p)
      else Inl (Exit 1))"

fun aio_opts :: "(char \<times> string) list \<Rightarrow> main_opts \<Rightarrow> halt + main_opts" where
  "aio_opts [] p = Inr p"
| "aio_opts ((ch, arg) # r) p = on_ok (aio_opt ch arg p) (aio_opts r)"

section \<open>Limits\<close>

text \<open>The adjustments after the options; \<open>n\<close> is the number of files named.\<close>

definition first_of :: "aio_config \<Rightarrow> int option" where
  "first_of c = List.find (\<lambda>i. has_stage c i) [0, 1, 2, 3]"

definition settle :: "int \<Rightarrow> main_opts \<Rightarrow> halt + main_opts" where
  "settle n p =
     (let c0 = m_config p;
          c1 = (if m_depth p < io_iter c0 then c0\<lparr>io_iter := m_depth p\<rparr> else c0) in
      if n \<le> 0 then Inl (Exit 1)
      else
        (let c2 = (if s32 (n * num_contexts c1) < num_threads c1
                   then c1\<lparr>num_threads := s32 (n * num_contexts c1)\<rparr> else c1) in
         if num_threads c2 < 0 then Inl (Exit 1)
         else
           (let c3 = (if max_io_submit c2 = 0
                      then c2\<lparr>max_io_submit := s32 (n * io_iter c2 * num_contexts c2)\<rparr> else c2);
                c4 = (if max_io_submit c3 < io_iter c3 then c3\<lparr>io_iter := max_io_submit c3\<rparr> else c3);
                c5 = (if stages c4 = 0 then c4\<lparr>stages := 15\<rparr> else c4);
                fs = (if stages c4 = 0 then m_first_stage p
                      else (case first_of c4 of None \<Rightarrow> m_first_stage p | Some i \<Rightarrow> i)) in
            if m_file_size p < s64 (num_contexts c5 * context_offset c5) then Inl (Exit 1)
            else Inr (p\<lparr>m_config := c5, m_first_stage := fs\<rparr>))))"

section \<open>Operations and units\<close>

definition create_oper :: "int \<Rightarrow> int \<Rightarrow> int \<Rightarrow> int \<Rightarrow> int \<Rightarrow> string \<Rightarrow> io_oper option" where
  "create_oper fdv rwv sta en rl name =
     (if rl = 0 then None
      else Some \<lparr>next_oper = 0, prev_oper = 0, fd = fdv, start = sta, end_off = en, reclen = rl,
        num_pending = 0, last_err = 0, num_err = 0, rw = rwv, total_ios = s32 (c_div (en - sta) rl),
        started_ios = 0, last_offset = sta, stonewalled = False,
        start_time = \<lparr>tv_sec = 0, tv_usec = 0\<rparr>, file_name = name\<rparr>)"

definition blank_oper :: io_oper where
  "blank_oper = \<lparr>next_oper = 0, prev_oper = 0, fd = 0, start = 0, end_off = 0, reclen = 0,
     num_pending = 0, last_err = 0, num_err = 0, rw = 0, total_ios = 0, started_ios = 0,
     last_offset = 0, stonewalled = False, start_time = \<lparr>tv_sec = 0, tv_usec = 0\<rparr>, file_name = []\<rparr>"

definition empty_thread :: "'k \<Rightarrow> 'k thread" where
  "empty_thread k = \<lparr>io_ctx = k, ios = [], free_ious = [], num_global_pending = 0,
     num_global_events = 0, io_submit_latency = no_latency, io_completion_latency = no_latency,
     opers = (\<lambda>_. blank_oper), active_opers = None, finished_opers = None, num_files = 0,
     stage_mb_trans = 0, reports = []\<rparr>"

text \<open>
  The loop over files and contexts: operation number \<open>i\<close> goes to thread \<open>i % num_threads\<close>.
  \<open>fds i\<close> is what its \<open>open\<close> returns.
\<close>

fun open_loop ::
  "main_opts \<Rightarrow> (nat \<Rightarrow> int) \<Rightarrow> nat \<Rightarrow> (string \<times> int) list \<Rightarrow> 'k thread list \<Rightarrow> halt + 'k thread list" where
  "open_loop p fds i [] ts = Inr ts"
| "open_loop p fds i ((name, j) # r) ts =
     (let c = m_config p in
      if num_threads c = 0 then Inl Fault
      else if fds i = -1 then Inl Abort
      else
        (let ti = nat (int i mod num_threads c) in
         case create_oper (fds i) (m_first_stage p) (s64 (j * context_offset c))
                (s64 (m_file_size p - j * context_offset c)) (s32 (rec_len c)) name of
           None \<Rightarrow> Inl Fault
         | Some oper \<Rightarrow>
             (case add_to i (active_opers (ts ! ti)) (set_oper i (\<lambda>_. oper) (ts ! ti)) of (al, t) \<Rightarrow>
                open_loop p fds (Suc i) r
                  (ts[ti := t\<lparr>active_opers := al, num_files := num_files t + 1\<rparr>]))))"

definition file_contexts :: "aio_config \<Rightarrow> string list \<Rightarrow> (string \<times> int) list" where
  "file_contexts c files = concat (map (\<lambda>f. map (\<lambda>j. (f, j)) [0..num_contexts c - 1]) files)"

text \<open>\<open>padded_reclen\<close>, the size of the block all buffers are cut from, and its first address.\<close>

definition padded_reclen :: "aio_config \<Rightarrow> int" where
  "padded_reclen c =
     (let pages = s32 (u64 (s32 (rec_len c) + page_size_mask c) div u64 (page_size_mask c + 1))
      in s32 (u64 (pages * u64 (page_size_mask c + 1))))"

definition total_ram :: "aio_config \<Rightarrow> int \<Rightarrow> int \<Rightarrow> int" where
  "total_ram c nfiles depth =
     (let n = s32 (nfiles * depth * padded_reclen c + num_threads c)
      in u64 (n + (if verify c then padded_reclen c else 0)))"

definition align_buffer :: "aio_config \<Rightarrow> int \<Rightarrow> int" where
  "align_buffer c p = u64 (p + page_size_mask c) AND u64 (NOT (page_size_mask c))"

text \<open>The units of one thread: its buffers from \<open>aligned_buffer\<close> on, and where the next thread's begin.\<close>

definition buffer_addresses :: "aio_config \<Rightarrow> nat \<Rightarrow> int \<Rightarrow> int list \<times> int" where
  "buffer_addresses c n aligned =
     (map (\<lambda>i. aligned + int i * padded_reclen c) [0..<n], aligned + int n * padded_reclen c)"

fun all_buffers :: "aio_config \<Rightarrow> nat \<Rightarrow> nat list \<Rightarrow> int \<Rightarrow> int list \<times> int" where
  "all_buffers c depth [] aligned = ([], aligned)"
| "all_buffers c depth (nf # r) aligned =
     (case buffer_addresses c (depth * nf) aligned of (bs, a1) \<Rightarrow>
        case all_buffers c depth r a1 of (cs, a2) \<Rightarrow> (bs @ cs, a2))"

definition setup_ious :: "aio_config \<Rightarrow> nat \<Rightarrow> 'k thread \<Rightarrow> 'k thread" where
  "setup_ious c depth t =
     (let n = depth * nat (num_files t); rl = s32 (rec_len c);
          io = \<lparr>iocb_of = \<lparr>aio_fd = 0, aio_read = True, aio_len = 0, aio_offset = 0\<rparr>, unit_oper = 0,
                buf = replicate (nat rl) (if verify c then 0x62 else 0), buf_size = rl, busy = False,
                res = 0, io_start_time = \<lparr>tv_sec = 0, tv_usec = 0\<rparr>\<rparr>
      in t\<lparr>ios := replicate n io, free_ious := rev [0..<n] @ free_ious t,
           num_global_events := int n\<rparr>)"

definition setup_verify :: "aio_config \<Rightarrow> aio_config" where
  "setup_verify c =
     (if verify c then c\<lparr>verify_buf := replicate (nat (s32 (rec_len c))) 0x62\<rparr> else c)"

definition main_threads ::
  "main_opts \<Rightarrow> (nat \<Rightarrow> int) \<Rightarrow> (nat \<Rightarrow> 'k) \<Rightarrow> string list \<Rightarrow> halt + (aio_config \<times> 'k thread list)" where
  "main_threads p0 fds ks files =
     on_ok (settle (int (length files)) p0) (\<lambda>p.
     on_ok (open_loop p fds 0 (file_contexts (m_config p) files)
              (map (\<lambda>i. empty_thread (ks i)) [0..<nat (num_threads (m_config p))])) (\<lambda>ts.
       Inr (setup_verify (m_config p), map (setup_ious (m_config p) (nat (m_depth p))) ts)))"

end
