(* ===== verification/Aio_Worker_Ends.thy ===== *)
theory Aio_Worker_Ends
  imports Aio_Stages Aio_Setup
begin

text \<open>
  Restarting the operations, one whole stage, and the repetition of stages until no operation has
  one left. The stages of an operation only go up, which is the measure of \<open>worker_loop\<close>.
\<close>

section \<open>Restarting\<close>

lemma next_stage_up:
  assumes "0 \<le> r" and "next_stage c r \<noteq> 0"
  shows "r < next_stage c r" and "next_stage c r < LAST_STAGE"
  using assms by (auto simp: next_stage_def Let_def split: if_splits)

definition again :: "aio_config \<Rightarrow> 'k thread \<Rightarrow> nat \<Rightarrow> bool" where
  "again c t y \<longleftrightarrow> last_err (opers t y) = 0 \<and> next_stage c (rw (opers t y)) \<noteq> 0"

text \<open>The operation after its restart, up to the links.\<close>

definition restarted :: "aio_config \<Rightarrow> io_oper \<Rightarrow> io_oper" where
  "restarted c p = p\<lparr>started_ios := 0, last_offset := start p, stonewalled := False,
     rw := next_stage c (rw p)\<rparr>"

lemma restart_oper_cases:
  assumes "num_pending (opers t x) = 0"
  shows "restart_oper c K x t
    = (if again c t x then (True, set_oper x (restarted c) t) else (False, t))"
proof -
  have "(opers t x)\<lparr>started_ios := 0, last_offset := start (opers t x), stonewalled := False,
      rw := next_stage c (rw (opers t x))\<rparr> = restarted c (opers t x)"
    by (simp add: restarted_def)
  then show ?thesis
    using assms by (simp add: restart_oper_def again_def Let_def set_oper_def)
qed

text \<open>The loop has restarted the operations \<open>zs\<close> and no others.\<close>

definition restarts :: "aio_config \<Rightarrow> nat set \<Rightarrow> 'k thread \<Rightarrow> 'k thread \<Rightarrow> bool" where
  "restarts c Z t t' \<longleftrightarrow> (\<forall>y. unlinked (opers t' y)
       = unlinked (if y \<in> Z then restarted c (opers t y) else opers t y))
     \<and> length (ios t') = length (ios t) \<and> num_files t' = num_files t"

lemma restarts_refl [simp]: "restarts c {} t t"
  by (simp add: restarts_def)

lemma unlinked_restarted: "unlinked p = unlinked q \<Longrightarrow> unlinked (restarted c p) = unlinked (restarted c q)"
  by (cases p; cases q) (simp add: unlinked_def restarted_def)

lemma restarts_trans:
  assumes "restarts c Z t u" and "restarts c Y u v" and "Z \<inter> Y = {}"
  shows "restarts c (Z \<union> Y) t v"
proof -
  have "unlinked (opers v y) = unlinked (if y \<in> Z \<union> Y then restarted c (opers t y) else opers t y)" for y
  proof -
    have a: "unlinked (opers u y) = unlinked (if y \<in> Z then restarted c (opers t y) else opers t y)"
      using assms(1) unfolding restarts_def by blast
    have b: "unlinked (opers v y) = unlinked (if y \<in> Y then restarted c (opers u y) else opers u y)"
      using assms(2) unfolding restarts_def by blast
    show ?thesis
    proof (cases "y \<in> Y")
      case True
      then have "y \<notin> Z" using assms(3) by blast
      then show ?thesis using True unlinked_restarted[OF a, of c] b by simp
    next
      case False
      then show ?thesis using a b by simp
    qed
  qed
  moreover have "length (ios v) = length (ios t)" "num_files v = num_files t"
    using assms(1,2) unfolding restarts_def by simp_all
  ultimately show ?thesis unfolding restarts_def by blast
qed

lemma restarts_again:
  assumes "restarts c Z t t'" and "y \<notin> Z"
  shows "again c t' y = again c t y" "num_pending (opers t' y) = num_pending (opers t y)"
proof -
  have u: "unlinked (opers t' y) = unlinked (opers t y)" using assms by (simp add: restarts_def)
  show "again c t' y = again c t y" using unlinkedD(4,6)[OF u] by (simp add: again_def)
  show "num_pending (opers t' y) = num_pending (opers t y)" by (rule unlinkedD(1)[OF u])
qed

lemma represents_set_oper:
  assumes "represents (opers t) l xs"
  shows "represents (opers (set_oper x (restarted c) t)) l xs"
  using assms ring_frame[of "opers t" xs "opers (set_oper x (restarted c) t)"]
  by (simp add: represents_def set_oper_def restarted_def)

context aio_context
begin

lemma restart_loop_ok:
  assumes "unit_inv (inflight (io_ctx t)) [] t" and "scheduled t xs fs None []" and "fs = us @ x # vs"
    and "\<forall>y \<in> set us. \<not> again c t y" and "\<forall>y \<in> set fs. num_pending (opers t y) = 0"
  shows "\<exists>t'. restart_loop c K (Some x) t = Some (Inr ((), t')) \<and> unit_inv (inflight (io_ctx t')) [] t'
    \<and> inflight (io_ctx t') = inflight (io_ctx t) \<and> restarts c {y \<in> set fs. again c t y} t t'
    \<and> scheduled t' (xs @ filter (again c t) fs) (filter (\<lambda>y. \<not> again c t y) fs) None []"
  using assms
proof (induction "length fs * length fs + length vs" arbitrary: us x vs xs fs t rule: less_induct)
  case less
  note sch = less.prems(2) and fs = less.prems(3)
  have dist: "distinct fs" using scheduled_distinct[OF sch] by blast
  have x: "x \<in> set fs" "x \<notin> set us" "x \<notin> set vs" using fs dist by auto
  define ta where "ta = (if fsync_stages c then t\<lparr>io_ctx := a_fsync K (fd (opers t x)) (io_ctx t)\<rparr> else t)"
  define tb where "tb = ta\<lparr>stage_mb_trans := stage_mb_trans ta + oper_mb_trans (opers ta x)\<rparr>"
  have same: "opers tb = opers t" "active_opers tb = active_opers t" "finished_opers tb = finished_opers t"
    "ios tb = ios t" "inflight (io_ctx tb) = inflight (io_ctx t)" "num_files tb = num_files t"
    by (simp_all add: tb_def ta_def fsync_inflight)
  have invb: "unit_inv (inflight (io_ctx tb)) [] tb"
    unfolding same(5) using less.prems(1) by (rule unit_inv_cong) (simp_all add: tb_def ta_def)
  have ag: "again c tb y = again c t y" for y by (simp add: again_def same)
  have ro: "restart_oper c K x tb = (if again c t x then (True, set_oper x (restarted c) tb) else (False, tb))"
    using restart_oper_cases[of tb x c] less.prems(5) x(1) ag same(1) by simp
  have schb: "scheduled tb xs fs None []" using sch by (simp add: scheduled_def same)
  show ?case
  proof (cases "again c t x")
    case False
    have step: "restart_loop c K (Some x) t
        = (let nx = next_oper (opers tb x) in
           if Some nx = finished_opers tb then Some (Inr ((), tb)) else restart_loop c K (Some nx) tb)"
      using ro False by (subst restart_loop.simps) (simp add: tb_def ta_def Let_def)
    have nx: "next_oper (opers tb x) = hd (vs @ us @ [x])"
      by (rule opers.rep_succ[of _ "finished_opers tb"]) (use schb fs in \<open>simp add: scheduled_def\<close>)
    have hf: "finished_opers tb = Some (hd fs)" using schb fs by (simp add: scheduled_def represents_def)
    show ?thesis
    proof (cases vs)
      case Nil
      have none: "\<forall>y \<in> set fs. \<not> again c t y" using less.prems(4) False fs Nil by auto
      then have "filter (again c t) fs = []" "filter (\<lambda>y. \<not> again c t y) fs = fs" "{y \<in> set fs. again c t y} = {}"
        by (auto simp: filter_empty_conv filter_id_conv)
      moreover from this(3) have "restarts c {y \<in> set fs. again c t y} t tb"
        using none by (auto simp: restarts_def same)
      moreover have "Some (next_oper (opers tb x)) = finished_opers tb" using nx hf fs Nil by (cases us) simp_all
      ultimately show ?thesis using step invb schb same(5) by (intro exI[of _ tb]) (simp add: Let_def)
    next
      case (Cons v ws)
      have "v \<noteq> hd fs" using dist fs Cons by (cases us) auto
      then have go: "restart_loop c K (Some x) t = restart_loop c K (Some v) tb"
        using step nx hf Cons by (simp add: Let_def)
      have small: "length fs * length fs + length ws < length fs * length fs + length vs" using Cons by simp
      have eq: "fs = (us @ [x]) @ v # ws" using fs Cons by simp
      have no: "\<forall>y \<in> set (us @ [x]). \<not> again c tb y" using less.prems(4) False ag by auto
      have pend: "\<forall>y \<in> set fs. num_pending (opers tb y) = 0" using less.prems(5) same(1) by simp
      from less.hyps[OF small invb schb eq no pend] obtain t' where r:
        "restart_loop c K (Some v) tb = Some (Inr ((), t'))" "unit_inv (inflight (io_ctx t')) [] t'"
        "inflight (io_ctx t') = inflight (io_ctx tb)" "restarts c {y \<in> set fs. again c tb y} tb t'"
        "scheduled t' (xs @ filter (again c tb) fs) (filter (\<lambda>y. \<not> again c tb y) fs) None []" by blast
      have agf: "again c tb = again c t" using ag by blast
      have "restarts c {y \<in> set fs. again c t y} t t'"
        using r(4) by (simp add: restarts_def same agf)
      then show ?thesis using go r same(5) by (simp add: agf)
    qed
  next
    case True
    let ?u = "set_oper x (restarted c) tb"
    have reps: "represents (opers ?u) (finished_opers ?u) fs" "represents (opers ?u) (active_opers ?u) xs"
      "set fs \<inter> set xs = {}"
      using represents_set_oper schb by (auto simp: scheduled_def set_oper_def)
    obtain ha h fl al where sh: "del_from x (finished_opers ?u) ?u = Inr (fl, ?u\<lparr>opers := ha\<rparr>)"
      "\<forall>u :: 'k thread. opers u = ha \<longrightarrow> add_to x (active_opers ?u) u = (al, u\<lparr>opers := h\<rparr>)"
      "represents h fl (remove1 x fs)" "represents h al (xs @ [x])"
      "\<forall>r zs. represents (opers ?u) r zs \<longrightarrow> set fs \<inter> set zs = {} \<longrightarrow> set xs \<inter> set zs = {} \<longrightarrow> represents h r zs"
      "\<forall>y. unlinked (h y) = unlinked (opers ?u y)" "\<forall>y. unlinked (ha y) = unlinked (opers ?u y)"
      by (rule shift_ok[OF reps(1,2) x(1) reps(3)])
    have ad: "add_to x (active_opers ?u) (?u\<lparr>opers := ha\<rparr>) = (al, ?u\<lparr>opers := h\<rparr>)" using sh(2) by simp
    define tc where "tc = ?u\<lparr>opers := h, active_opers := al, finished_opers := fl\<rparr>"
    have go: "restart_loop c K (Some x) t = restart_loop c K fl tc"
      using ro True sh(1) ad
      by (subst restart_loop.simps) (simp add: tc_def set_oper_def Let_def flip: ta_def tb_def)
    have un: "unlinked (opers tc y) = unlinked (if y \<in> {x} then restarted c (opers t y) else opers t y)" for y
      using sh(6) by (simp add: tc_def set_oper_def same)
    then have R: "restarts c {x} t tc" by (simp add: restarts_def tc_def set_oper_def same)
    have np: "num_pending (opers tc y) = num_pending (opers tb y)" for y
      using unlinkedD(1)[OF un[of y]] by (simp add: same restarted_def split: if_splits)
    have invc: "unit_inv (inflight (io_ctx tc)) [] tc"
    proof -
      have "inflight (io_ctx tc) = inflight (io_ctx tb)" by (simp add: tc_def set_oper_def)
      moreover have "unit_inv (inflight (io_ctx tb)) [] tc"
      proof (rule unit_inv_cong[OF invb])
        show "num_pending (opers tc y) = num_pending (opers tb y)" for y by (rule np)
      qed (simp_all add: tc_def set_oper_def)
      ultimately show ?thesis by simp
    qed
    have rem: "remove1 x fs = us @ vs" using fs x by (simp add: remove1_append)
    have disj: "set xs \<inter> set fs = {}" using sch by (simp add: scheduled_def)
    have schc: "scheduled tc (xs @ [x]) (us @ vs) None []"
      using sh(3,4) rem disj fs x by (auto simp: scheduled_def tc_def represents_def ring_def)
    have agc: "again c tc y = again c t y" if "y \<in> set (us @ vs)" for y
      by (rule restarts_again[OF R]) (use that x in auto)
    have pend: "\<forall>y \<in> set (us @ vs). num_pending (opers tc y) = 0"
      using less.prems(5) fs np same(1) by simp
    have filt: "filter (again c t) fs = filter (again c t) us @ x # filter (again c t) vs"
      "filter (\<lambda>y. \<not> again c t y) fs = filter (\<lambda>y. \<not> again c t y) (us @ vs)" using fs True by simp_all
    have us0: "filter (again c t) us = []" using less.prems(4) by (simp add: filter_empty_conv)
    have set0: "{y \<in> set fs. again c t y} = {x} \<union> {y \<in> set (us @ vs). again c t y}" using fs True by auto
    have cong: "filter (again c tc) (us @ vs) = filter (again c t) (us @ vs)"
      "filter (\<lambda>y. \<not> again c tc y) (us @ vs) = filter (\<lambda>y. \<not> again c t y) (us @ vs)"
      "{y \<in> set (us @ vs). again c tc y} = {y \<in> set (us @ vs). again c t y}"
      using agc by (auto intro!: filter_cong simp del: set_append filter_append)
    show ?thesis
    proof (cases "us @ vs")
      case Nil
      then have "fl = None" using schc by (simp add: scheduled_def represents_def tc_def)
      then have "restart_loop c K (Some x) t = Some (Inr ((), tc))"
        unfolding go by (subst restart_loop.simps) simp
      moreover have "restarts c {y \<in> set fs. again c t y} t tc" using R Nil unfolding set0 by simp
      moreover have "scheduled tc (xs @ filter (again c t) fs) (filter (\<lambda>y. \<not> again c t y) fs) None []"
        using schc Nil filt by simp
      ultimately show ?thesis using invc same(5) by (intro exI[of _ tc]) (simp add: tc_def set_oper_def)
    next
      case (Cons w ws)
      have fl: "fl = Some w" using schc Cons by (simp add: scheduled_def represents_def tc_def)
      have small: "length (us @ vs) * length (us @ vs) + length ws < length fs * length fs + length vs"
      proof -
        have "length fs = Suc (length (us @ vs))" using fs by simp
        then show ?thesis using Cons by simp
      qed
      from less.hyps[OF small invc schc _ _ pend, of "[]" w] Cons obtain t' where r:
        "restart_loop c K (Some w) tc = Some (Inr ((), t'))" "unit_inv (inflight (io_ctx t')) [] t'"
        "inflight (io_ctx t') = inflight (io_ctx tc)"
        "restarts c {y \<in> set (us @ vs). again c tc y} tc t'"
        "scheduled t' ((xs @ [x]) @ filter (again c tc) (us @ vs)) (filter (\<lambda>y. \<not> again c tc y) (us @ vs)) None []"
        by auto
      have "restarts c {y \<in> set fs. again c t y} t t'"
        unfolding set0 using restarts_trans[OF R r(4)[unfolded cong]] x by simp
      moreover have "scheduled t' (xs @ filter (again c t) fs) (filter (\<lambda>y. \<not> again c t y) fs) None []"
        using r(5) unfolding cong filt(2) by (simp add: filt(1) us0)
      ultimately show ?thesis
        using go fl r(1-3) same(5) by (intro exI[of _ t']) (simp add: tc_def set_oper_def)
    qed
  qed
qed

section \<open>One stage\<close>

definition stage_ready :: "aio_config \<Rightarrow> 'k thread \<Rightarrow> nat list \<Rightarrow> nat list \<Rightarrow> bool" where
  "stage_ready c t xs fs \<longleftrightarrow> unit_inv (inflight (io_ctx t)) [] t \<and> scheduled t xs fs None []
     \<and> (\<forall>y \<in> set xs \<union> set fs. start (opers t y) = 0 \<and> 0 < total_ios (opers t y) \<and> 0 \<le> rw (opers t y))
     \<and> (\<forall>y \<in> set xs. started_ios (opers t y) = 0)
     \<and> (\<forall>y \<in> set fs. started_ios (opers t y) = total_ios (opers t y))
     \<and> (\<forall>y. num_pending (opers t y) = 0)
     \<and> int (length xs + length fs) * io_iter c \<le> int (length (ios t))"

lemma stage_ready_cong:
  assumes "stage_ready c t xs fs" and "inflight k = inflight (io_ctx t)"
  shows "stage_ready c (t\<lparr>io_ctx := k, stage_mb_trans := m, reports := r\<rparr>) xs fs"
proof -
  have "unit_inv (inflight (io_ctx t)) [] (t\<lparr>io_ctx := k, stage_mb_trans := m, reports := r\<rparr>)"
    by (rule unit_inv_cong[of _ _ t]) (use assms(1) in \<open>simp_all add: stage_ready_def\<close>)
  then show ?thesis using assms by (simp add: stage_ready_def scheduled_def)
qed

lemma waited_data:
  assumes "waited t t'"
  shows "start (opers t' y) = start (opers t y)" "total_ios (opers t' y) = total_ios (opers t y)"
    "rw (opers t' y) = rw (opers t y)" "started_ios (opers t' y) = started_ios (opers t y)"
    "length (ios t') = length (ios t)" "num_pending (opers t y) = 0 \<Longrightarrow> num_pending (opers t' y) = 0"
proof -
  have s: "static (opers t' y) = static (opers t y)" using assms by (simp add: waited_def steady_def)
  show "start (opers t' y) = start (opers t y)" "total_ios (opers t' y) = total_ios (opers t y)"
    "rw (opers t' y) = rw (opers t y)" using staticD(3-5)[OF s] by blast+
  have w: "steady t t'" "quiet t t'" "\<forall>y. started_ios (opers t' y) = started_ios (opers t y)"
    using assms by (simp_all add: waited_def)
  show "started_ios (opers t' y) = started_ios (opers t y)" using w(3) by blast
  show "length (ios t') = length (ios t)" using w(1) by (simp add: steady_def)
  show "num_pending (opers t y) = 0 \<Longrightarrow> num_pending (opers t' y) = 0" using w(2) by (simp add: quiet_def)
qed

lemma print_latencies_same:
  "opers (print_latencies c t) = opers t" "ios (print_latencies c t) = ios t"
  "io_ctx (print_latencies c t) = io_ctx t" "active_opers (print_latencies c t) = active_opers t"
  "finished_opers (print_latencies c t) = finished_opers t" "free_ious (print_latencies c t) = free_ious t"
  "num_global_pending (print_latencies c t) = num_global_pending t"
  "num_global_events (print_latencies c t) = num_global_events t" "num_files (print_latencies c t) = num_files t"
  by (simp_all add: print_latencies_def print_latency_def print_completion_latency_def print_lat_def
      say_def Let_def)

lemma all_sent_print:
  assumes "all_sent xs fs t t'"
  shows "all_sent xs fs t (print_latencies c t')"
proof -
  have "unit_inv (inflight (io_ctx t')) [] (print_latencies c t')"
    by (rule unit_inv_cong[of _ _ t']) (use assms in \<open>simp_all add: all_sent_def print_latencies_same\<close>)
  then show ?thesis
    using assms by (simp add: all_sent_def same_data_def scheduled_def print_latencies_same)
qed

lemma stage_core:
  assumes rd: "stage_ready c t xs fs" and ne: "xs \<noteq> []"
    and iter: "0 < io_iter c" "io_iter c \<le> max_io_submit c" and fv: "iterations c = RUN_FOREVER"
    and un: "unstopped c K"
  shows "\<exists>cnt s ta tb tc xs' fs' y. send_loop c K 0 t = Some (Inr (cnt, s)) \<and> ta = print_latencies c s
    \<and> finished_opers ta = Some y \<and> wait_all c K y ta = Some (Inr ((), tb))
    \<and> restart_loop c K (finished_opers tb) tb = Some (Inr ((), tc))
    \<and> stage_ready c tc xs' fs' \<and> set xs' \<union> set fs' = set xs \<union> set fs
    \<and> (\<forall>y \<in> set xs'. rw (opers t y) < rw (opers tc y)) \<and> (\<forall>y \<in> set xs'. rw (opers tc y) < LAST_STAGE)
    \<and> (\<forall>y \<in> set fs'. rw (opers tc y) = rw (opers t y)
         \<and> (last_err (opers tc y) = 0 \<longrightarrow> next_stage c (rw (opers tc y)) = 0))"
proof -
  have R: "unit_inv (inflight (io_ctx t)) [] t" "scheduled t xs fs None []"
    "\<And>y. y \<in> set xs \<union> set fs \<Longrightarrow> start (opers t y) = 0 \<and> 0 < total_ios (opers t y) \<and> 0 \<le> rw (opers t y)"
    "\<And>y. y \<in> set xs \<Longrightarrow> started_ios (opers t y) = 0"
    "\<And>y. y \<in> set fs \<Longrightarrow> started_ios (opers t y) = total_ios (opers t y)"
    "\<And>y. num_pending (opers t y) = 0" "int (length xs + length fs) * io_iter c \<le> int (length (ios t))"
    using rd by (auto simp: stage_ready_def)
  have act: "\<forall>y \<in> set xs. started_ios (opers t y) < total_ios (opers t y) \<and> start (opers t y) = 0"
    using R(3,4) by auto
  have "int (length xs) * io_iter c \<le> int (length xs + length fs) * io_iter c"
    using iter(1) by (intro mult_right_mono) simp_all
  then have room: "int (length xs) * io_iter c \<le> int (length (ios t))" using R(7) by linarith
  obtain cnt s where s: "send_loop c K 0 t = Some (Inr (cnt, s))" "all_sent xs fs t s"
    using send_loop_ok[OF R(1,2) act iter fv room un] by blast
  define ta where "ta = print_latencies c s"
  have sl: "all_sent xs fs t ta" unfolding ta_def by (rule all_sent_print[OF s(2)])
  obtain ys where ys: "scheduled ta [] (fs @ ys) None []" "set ys = set xs"
    and A: "unit_inv (inflight (io_ctx ta)) [] ta" "same_data t ta"
      "\<And>y. y \<in> set xs \<Longrightarrow> started_ios (opers ta y) = total_ios (opers t y)"
      "\<And>y. y \<notin> set xs \<Longrightarrow> started_ios (opers ta y) = started_ios (opers t y) \<and> num_pending (opers ta y) = 0"
    using sl R(6) by (auto simp: all_sent_def)
  note TA = same_data_total[OF A(2)]
  let ?fs = "fs @ ys"
  have "?fs \<noteq> []" using ys(2) ne by auto
  then obtain y vs where yv: "?fs = [] @ y # vs" by (cases ?fs) auto
  have fy: "finished_opers ta = Some y" using ys(1) yv by (simp add: scheduled_def represents_def)
  obtain tb where wb: "wait_all c K y ta = Some (Inr ((), tb))" "waited ta tb"
    "\<forall>z \<in> set (y # vs). num_pending (opers tb z) = 0"
    using wait_all_ok[OF A(1) ys(1) yv] by blast
  note W = waited_data[OF wb(2)]
  have schb: "scheduled tb [] ?fs None []" using scheduled_steady[OF ys(1)] wb(2) by (simp add: waited_def)
  have invb: "unit_inv (inflight (io_ctx tb)) [] tb" using wb(2) by (simp add: waited_def)
  have pend: "num_pending (opers tb z) = 0" for z
  proof (cases "z \<in> set ?fs")
    case True
    then show ?thesis using wb(3) unfolding yv by auto
  next
    case False
    then show ?thesis using A(4)[of z] W(6)[of z] ys(2) by simp
  qed
  have fyb: "finished_opers tb = Some y" using fy wb(2) by (simp add: waited_def steady_def)
  have no_us: "\<forall>z \<in> set []. \<not> again c tb z" and all_idle: "\<forall>z \<in> set ?fs. num_pending (opers tb z) = 0"
    using pend by simp_all
  obtain tc where rc: "restart_loop c K (Some y) tb = Some (Inr ((), tc))"
    "unit_inv (inflight (io_ctx tc)) [] tc" "restarts c {z \<in> set ?fs. again c tb z} tb tc"
    "scheduled tc ([] @ filter (again c tb) ?fs) (filter (\<lambda>z. \<not> again c tb z) ?fs) None []"
    using restart_loop_ok[OF invb schb yv no_us all_idle] by blast
  let ?xs = "filter (again c tb) ?fs" and ?fs' = "filter (\<lambda>z. \<not> again c tb z) ?fs"
  have un: "unlinked (opers tc z) = unlinked (if z \<in> set ?xs then restarted c (opers tb z) else opers tb z)" for z
    using rc(3) unfolding restarts_def set_filter by blast
  have un1: "unlinked (opers tc z) = unlinked (restarted c (opers tb z))" if "z \<in> set ?xs" for z
    using un[of z] that by presburger
  have un2: "unlinked (opers tc z) = unlinked (opers tb z)" if "z \<notin> set ?xs" for z
    using un[of z] that by presburger
  have new: "rw (opers tc z) = next_stage c (rw (opers tb z))" "started_ios (opers tc z) = 0"
    if "z \<in> set ?xs" for z
    using unlinkedD(2,4)[OF un1[OF that]] by (simp_all add: restarted_def)
  have old: "rw (opers tc z) = rw (opers tb z)" "started_ios (opers tc z) = started_ios (opers tb z)"
      "last_err (opers tc z) = last_err (opers tb z)" if "z \<notin> set ?xs" for z
    using unlinkedD(2)[OF un2[OF that]] unlinkedD(4)[OF un2[OF that]] unlinkedD(6)[OF un2[OF that]]
    by blast+
  have both: "start (opers tc z) = start (opers tb z) \<and> total_ios (opers tc z) = total_ios (opers tb z)
      \<and> num_pending (opers tc z) = num_pending (opers tb z)" for z
  proof (cases "z \<in> set ?xs")
    case True
    show ?thesis using unlinkedD(1,3,5)[OF un1[OF True]] by (simp add: restarted_def)
  next
    case False
    show ?thesis using unlinkedD(1,3,5)[OF un2[OF False]] by simp
  qed
  have rwb: "rw (opers tb z) = rw (opers t z)" for z using W(3) TA(3) by simp
  have tot: "total_ios (opers tb z) = total_ios (opers t z)" for z using W(2) TA(1) by simp
  have up: "rw (opers t z) < rw (opers tc z) \<and> rw (opers tc z) < LAST_STAGE" if z: "z \<in> set ?xs" for z
  proof -
    have "0 \<le> rw (opers t z)" "next_stage c (rw (opers t z)) \<noteq> 0"
      using R(3)[of z] z ys(2) rwb by (auto simp: again_def)
    from next_stage_up[OF this] show ?thesis using new(1)[OF z] rwb by simp
  qed
  have stay: "rw (opers tc z) = rw (opers t z)
      \<and> (last_err (opers tc z) = 0 \<longrightarrow> next_stage c (rw (opers tc z)) = 0)" if z: "z \<in> set ?fs'" for z
    using z old[of z] rwb by (auto simp: again_def)
  have all: "set ?xs \<union> set ?fs' = set xs \<union> set fs" using ys(2) by auto
  have full: "started_ios (opers tb z) = total_ios (opers t z)" if "z \<in> set ?fs" for z
    using that A(3,4)[of z] R(5)[of z] W(4)[of z] ys(2) by (cases "z \<in> set xs") auto
  have len: "length ?xs + length ?fs' \<le> length xs + length fs"
  proof -
    have "length ?xs + length ?fs' = length ?fs" by (rule sum_length_filter_compl)
    moreover have "length ys \<le> length xs"
    proof -
      have "distinct ys" using scheduled_distinct[OF ys(1)] by simp
      then have "length ys = card (set xs)" using ys(2) by (metis distinct_card)
      then show ?thesis by (simp add: card_length)
    qed
    ultimately show ?thesis by simp
  qed
  have "stage_ready c tc ?xs ?fs'"
    unfolding stage_ready_def
  proof (intro conjI ballI allI)
    show "unit_inv (inflight (io_ctx tc)) [] tc" by (rule rc(2))
    show "scheduled tc ?xs ?fs' None []" using rc(4) by simp
    fix z
    show "num_pending (opers tc z) = 0" by (simp add: both pend)
    show "started_ios (opers tc z) = 0" if "z \<in> set ?xs" using new(2)[OF that] .
    show "started_ios (opers tc z) = total_ios (opers tc z)" if "z \<in> set ?fs'"
    proof -
      have "z \<notin> set ?xs" "z \<in> set ?fs" using that by auto
      then show ?thesis using old(2) full both[of z] tot by simp
    qed
    assume z: "z \<in> set ?xs \<union> set ?fs'"
    then have z': "z \<in> set xs \<union> set fs" unfolding all .
    show "start (opers tc z) = 0" using R(3)[OF z'] both[of z] W(1) TA(2) by simp
    show "0 < total_ios (opers tc z)" using R(3)[OF z'] both[of z] tot by simp
    show "0 \<le> rw (opers tc z)" using z up[of z] stay[of z] R(3)[OF z'] by auto
  next
    have "int (length ?xs + length ?fs') * io_iter c \<le> int (length xs + length fs) * io_iter c"
      using len iter(1) by (intro mult_right_mono) simp_all
    moreover have "length (ios tc) = length (ios t)"
      using rc(3) W(5) A(2) by (simp add: restarts_def same_data_def)
    ultimately show "int (length ?xs + length ?fs') * io_iter c \<le> int (length (ios tc))" using R(7) by linarith
  qed
  then show ?thesis using s(1) ta_def fy wb(1) rc(1) fyb all up stay by metis
qed

lemma stage_work_ok:
  assumes rd: "stage_ready c t xs fs" and ne: "xs \<noteq> []"
    and iter: "0 < io_iter c" "io_iter c \<le> max_io_submit c" and fv: "iterations c = RUN_FOREVER"
    and un: "unstopped c K"
  shows "\<exists>cnt t' xs' fs'. stage_work c K t = Inr (cnt, t') \<and> stage_ready c t' xs' fs'
    \<and> set xs' \<union> set fs' = set xs \<union> set fs
    \<and> (\<forall>y \<in> set xs'. rw (opers t y) < rw (opers t' y)) \<and> (\<forall>y \<in> set xs'. rw (opers t' y) < LAST_STAGE)
    \<and> (\<forall>y \<in> set fs'. rw (opers t' y) = rw (opers t y)
         \<and> (last_err (opers t' y) = 0 \<longrightarrow> next_stage c (rw (opers t' y)) = 0))"
proof -
  obtain x r where x: "xs = x # r" using ne by (cases xs) auto
  have al: "active_opers t = Some x" using rd x by (simp add: stage_ready_def scheduled_def represents_def)
  obtain tv s where n: "now K t = (tv, s)" by fastforce
  obtain k where k: "s = t\<lparr>io_ctx := k\<rparr>" "inflight k = inflight (io_ctx t)" using now_same[OF n] by blast
  define ta where "ta = s\<lparr>stage_mb_trans := 0\<rparr>"
  have ta: "stage_ready c ta xs fs"
    using stage_ready_cong[OF rd k(2), where m = 0 and r = "reports t"] by (simp add: ta_def k(1))
  have op: "opers ta = opers t" by (simp add: ta_def k(1))
  obtain cnt ts tb tc td xs' fs' y where S: "send_loop c K 0 ta = Some (Inr (cnt, ts))"
    "tb = print_latencies c ts" "finished_opers tb = Some y" "wait_all c K y tb = Some (Inr ((), tc))"
    "restart_loop c K (finished_opers tc) tc = Some (Inr ((), td))"
    "stage_ready c td xs' fs'" "set xs' \<union> set fs' = set xs \<union> set fs"
    "\<forall>y \<in> set xs'. rw (opers ta y) < rw (opers td y)" "\<forall>y \<in> set xs'. rw (opers td y) < LAST_STAGE"
    "\<forall>y \<in> set fs'. rw (opers td y) = rw (opers ta y)
         \<and> (last_err (opers td y) = 0 \<longrightarrow> next_stage c (rw (opers td y)) = 0)"
    using stage_core[OF ta ne iter fv un] by blast
  obtain tw u where m: "now K td = (tw, u)" by fastforce
  obtain kd where kd: "u = td\<lparr>io_ctx := kd\<rparr>" "inflight kd = inflight (io_ctx td)" using now_same[OF m] by blast
  define te where "te = (if stage_mb_trans td \<noteq> 0 \<and> 0 < num_files td
    then say (Stage_total (rw (opers t x)) (stage_mb_trans td)) u else td)"
  have te: "stage_ready c te xs' fs'" "opers te = opers td"
    using stage_ready_cong[OF S(6) kd(2), where m = "stage_mb_trans td"
      and r = "reports td @ [Stage_total (rw (opers t x)) (stage_mb_trans td)]"] S(6)
    by (simp_all add: te_def say_def kd(1))
  have "stage_work c K t = Inr (cnt, te)"
    using al n S(1-5) m by (simp add: stage_work_def Let_def or_hang_def te_def flip: ta_def)
  then show ?thesis using te S(7-10) unfolding op te(2)[symmetric] by blast
qed

text \<open>The meetings: every one comes about, or the thread is alone.\<close>

lemma await_ends:
  assumes "await K w n t = Some (Inr (x, t'))"
  shows "\<exists>k. t' = t\<lparr>io_ctx := k\<rparr> \<and> inflight k = inflight (io_ctx t)"
proof -
  have "K' = K \<longrightarrow> y = Inr (x, t') \<longrightarrow> (\<exists>k. t' = t\<lparr>io_ctx := k\<rparr> \<and> inflight k = inflight (io_ctx t))"
    if "await K' w n t = Some y" for K' y
    using that
  proof (rule await.raw_induct[rotated 1])
    fix f K' w n t y
    assume IH: "\<And>K' w n t y. f K' w n t = Some y \<Longrightarrow> K' = K \<longrightarrow> y = Inr (x, t') \<longrightarrow>
        (\<exists>k. t' = t\<lparr>io_ctx := k\<rparr> \<and> inflight k = inflight (io_ctx t))"
      and eq: "(case a_counts K' (io_ctx t) of (cs, k) \<Rightarrow>
          if w cs = n then Some (Inr ((), t\<lparr>io_ctx := k\<rparr>))
          else (case a_wait K' k of None \<Rightarrow> Some (Inl (Hang, t)) | Some k1 \<Rightarrow> f K' w n (t\<lparr>io_ctx := k1\<rparr>))) = Some y"
    show "K' = K \<longrightarrow> y = Inr (x, t') \<longrightarrow> (\<exists>k. t' = t\<lparr>io_ctx := k\<rparr> \<and> inflight k = inflight (io_ctx t))"
    proof (intro impI)
      assume K: "K' = K" "y = Inr (x, t')"
      obtain cs k where k: "a_counts K (io_ctx t) = (cs, k)" by (metis prod.exhaust)
      note same = counts_inflight[OF k]
      show "\<exists>k. t' = t\<lparr>io_ctx := k\<rparr> \<and> inflight k = inflight (io_ctx t)"
      proof (cases "w cs = n")
        case True
        then show ?thesis using eq K k same by auto
      next
        case False
        then obtain k1 where k1: "a_wait K k = Some k1" "f K w n (t\<lparr>io_ctx := k1\<rparr>) = Some (Inr (x, t'))"
          using eq K k by (auto split: option.splits)
        then show ?thesis using IH[OF k1(2)] wait_inflight[OF k1(1)] same by auto
      qed
    qed
  qed
  from this[OF assms] show ?thesis by simp
qed

lemma meeting_same:
  assumes "on_ok (or_hang s (await K w n (t\<lparr>io_ctx := k\<rparr>))) (\<lambda>(_, t1). leave_meeting K t1) = Inr ((), t')"
    and "inflight k = inflight (io_ctx t)"
  shows "\<exists>k. t' = t\<lparr>io_ctx := k\<rparr> \<and> inflight k = inflight (io_ctx t)"
proof -
  obtain x u where u: "await K w n (t\<lparr>io_ctx := k\<rparr>) = Some (Inr (x, u))" "leave_meeting K u = Inr ((), t')"
    using assms(1) by (auto simp: on_ok_Inr_iff or_hang_def split: option.splits)
  from await_ends[OF u(1)] assms(2) u(2) show ?thesis
    by (auto simp: leave_meeting_def meeting_inflight)
qed

lemma stage_starts_same:
  assumes "stage_starts c K t = Inr ((), t')"
  shows "\<exists>k. t' = t\<lparr>io_ctx := k\<rparr> \<and> inflight k = inflight (io_ctx t)"
proof (cases "num_threads c \<le> 1")
  case True
  then show ?thesis using assms by (intro exI[of _ "io_ctx t"]) (simp add: stage_starts_def)
next
  case False
  then obtain k0 where k0: "a_lock K (io_ctx t) = Some k0" using assms by (auto simp: stage_starts_def split: option.splits)
  obtain a b k1 where k1: "a_counts K k0 = ((a, b), k1)" by (metis prod.exhaust)
  have same: "inflight k1 = inflight (io_ctx t)" using lock_inflight[OF k0] counts_inflight[OF k1] by simp
  obtain tv kn where kn: "a_now K (a_set_counts K (s32 (a + 1), 0) k1) = (tv, kn)" by (metis prod.exhaust)
  have now: "inflight kn = inflight k1" using now_inflight[OF kn] by (simp add: meeting_inflight)
  define k2 where "k2 = (if s32 (a + 1) = num_threads c then a_broadcast K kn else a_set_counts K (s32 (a + 1), b) k1)"
  have "inflight k2 = inflight (io_ctx t)" using now same by (simp add: k2_def meeting_inflight)
  moreover have "on_ok (or_hang t (await K fst (num_threads c) (t\<lparr>io_ctx := k2\<rparr>))) (\<lambda>(_, t1). leave_meeting K t1) = Inr ((), t')"
    using assms False k0 k1 kn by (cases "s32 (a + 1) = num_threads c") (simp_all add: stage_starts_def Let_def k2_def)
  ultimately show ?thesis by (rule meeting_same[rotated])
qed

lemma stage_ends_same:
  assumes "stage_ends c K t = Inr ((), t')"
  shows "\<exists>k. t' = t\<lparr>io_ctx := k\<rparr> \<and> inflight k = inflight (io_ctx t)"
proof (cases "num_threads c \<le> 1")
  case True
  then show ?thesis using assms by (intro exI[of _ "io_ctx t"]) (simp add: stage_ends_def)
next
  case False
  then obtain k0 where k0: "a_lock K (io_ctx t) = Some k0" using assms by (auto simp: stage_ends_def split: option.splits)
  obtain a b k1 where k1: "a_counts K k0 = ((a, b), k1)" by (metis prod.exhaust)
  have same: "inflight k1 = inflight (io_ctx t)" using lock_inflight[OF k0] counts_inflight[OF k1] by simp
  define k2 where "k2 = (if s32 (b + 1) = num_threads c then a_broadcast K (a_set_counts K (0, s32 (b + 1)) k1)
    else a_set_counts K (a, s32 (b + 1)) k1)"
  have "inflight k2 = inflight (io_ctx t)" using same by (simp add: k2_def meeting_inflight)
  moreover have "on_ok (or_hang t (await K snd (num_threads c) (t\<lparr>io_ctx := k2\<rparr>))) (\<lambda>(_, t1). leave_meeting K t1) = Inr ((), t')"
    using assms False k0 k1 by (simp add: stage_ends_def Let_def k2_def)
  ultimately show ?thesis by (rule meeting_same[rotated])
qed

lemma stage_ready_ctx:
  assumes "stage_ready c t xs fs" and "inflight k = inflight (io_ctx t)"
  shows "stage_ready c (t\<lparr>io_ctx := k\<rparr>) xs fs"
  using stage_ready_cong[OF assms, where m = "stage_mb_trans t" and r = "reports t"] by simp

lemma run_stage_ok:
  assumes rd: "stage_ready c t xs fs" and ne: "xs \<noteq> []"
    and iter: "0 < io_iter c" "io_iter c \<le> max_io_submit c" and fv: "iterations c = RUN_FOREVER"
    and un: "unstopped c K" "all_meet c K"
  shows "\<exists>cnt t' xs' fs'. run_stage c K t = Inr (cnt, t') \<and> stage_ready c t' xs' fs'
    \<and> set xs' \<union> set fs' = set xs \<union> set fs
    \<and> (\<forall>y \<in> set xs'. rw (opers t y) < rw (opers t' y)) \<and> (\<forall>y \<in> set xs'. rw (opers t' y) < LAST_STAGE)
    \<and> (\<forall>y \<in> set fs'. rw (opers t' y) = rw (opers t y)
         \<and> (last_err (opers t' y) = 0 \<longrightarrow> next_stage c (rw (opers t' y)) = 0))"
proof -
  obtain ta where a: "stage_starts c K t = Inr ((), ta)" using un(2) by (auto simp: all_meet_def)
  then obtain k where k: "ta = t\<lparr>io_ctx := k\<rparr>" "inflight k = inflight (io_ctx t)" using stage_starts_same by blast
  have "stage_ready c ta xs fs" unfolding k(1) by (rule stage_ready_ctx[OF rd k(2)])
  from stage_work_ok[OF this ne iter fv un(1)] obtain cnt tb xs' fs' where b: "stage_work c K ta = Inr (cnt, tb)"
    "stage_ready c tb xs' fs'" "set xs' \<union> set fs' = set xs \<union> set fs"
    "\<forall>y \<in> set xs'. rw (opers ta y) < rw (opers tb y)" "\<forall>y \<in> set xs'. rw (opers tb y) < LAST_STAGE"
    "\<forall>y \<in> set fs'. rw (opers tb y) = rw (opers ta y)
         \<and> (last_err (opers tb y) = 0 \<longrightarrow> next_stage c (rw (opers tb y)) = 0)" by blast
  obtain tc where e: "stage_ends c K tb = Inr ((), tc)" using un(2) by (auto simp: all_meet_def)
  then obtain k' where k': "tc = tb\<lparr>io_ctx := k'\<rparr>" "inflight k' = inflight (io_ctx tb)" using stage_ends_same by blast
  have "stage_ready c tc xs' fs'" unfolding k'(1) by (rule stage_ready_ctx[OF b(2) k'(2)])
  moreover have "run_stage c K t = Inr (cnt, tc)" using a b(1) e by (simp add: run_stage_def)
  moreover have "opers tc = opers tb" "opers ta = opers t" using k(1) k'(1) by simp_all
  ultimately show ?thesis using b(3-6) by (intro exI conjI) (assumption | force)+
qed

section \<open>All stages\<close>

definition ranks :: "'k thread \<Rightarrow> nat set \<Rightarrow> nat" where
  "ranks t D = (\<Sum>y \<in> D. nat (LAST_STAGE - rw (opers t y)))"

lemma worker_loop_ok:
  assumes "stage_ready c t xs fs" and "xs \<noteq> []"
    and "0 < io_iter c" and "io_iter c \<le> max_io_submit c" and "iterations c = RUN_FOREVER"
    and "unstopped c K" and "all_meet c K"
  shows "\<exists>t' fs'. worker_loop c K t = Some (Inr ((), t')) \<and> stage_ready c t' [] fs'
    \<and> set fs' = set xs \<union> set fs
    \<and> (\<forall>y \<in> set fs'. last_err (opers t' y) = 0 \<longrightarrow> next_stage c (rw (opers t' y)) = 0)"
  using assms
proof (induction "ranks t (set xs \<union> set fs)" arbitrary: t xs fs rule: less_induct)
  case less
  obtain cnt ta xs' fs' where R: "run_stage c K t = Inr (cnt, ta)" "stage_ready c ta xs' fs'"
    "set xs' \<union> set fs' = set xs \<union> set fs"
    "\<forall>y \<in> set xs'. rw (opers t y) < rw (opers ta y)" "\<forall>y \<in> set xs'. rw (opers ta y) < LAST_STAGE"
    "\<forall>y \<in> set fs'. rw (opers ta y) = rw (opers t y)
         \<and> (last_err (opers ta y) = 0 \<longrightarrow> next_stage c (rw (opers ta y)) = 0)"
    using run_stage_ok[OF less.prems] by blast
  show ?case
  proof (cases xs')
    case Nil
    then have "active_opers ta = None" using R(2) by (simp add: stage_ready_def scheduled_def represents_def)
    then have "worker_loop c K t = Some (Inr ((), ta))" using R(1) by (subst worker_loop.simps) simp
    moreover have "\<forall>y \<in> set fs'. last_err (opers ta y) = 0 \<longrightarrow> next_stage c (rw (opers ta y)) = 0"
      using R(6) by blast
    ultimately show ?thesis using R(2,3) Nil by (intro exI[of _ ta] exI[of _ fs']) simp
  next
    case (Cons x r)
    then have "active_opers ta = Some x" using R(2) by (simp add: stage_ready_def scheduled_def represents_def)
    then have step: "worker_loop c K t = worker_loop c K ta"
      using R(1) less.prems(5) by (subst worker_loop.simps) simp
    have le: "nat (LAST_STAGE - rw (opers ta y)) \<le> nat (LAST_STAGE - rw (opers t y))"
      if "y \<in> set xs \<union> set fs" for y
      using that R(4-6) unfolding R(3)[symmetric] by auto
    have "ranks ta (set xs' \<union> set fs') < ranks t (set xs \<union> set fs)"
      unfolding ranks_def R(3)
    proof (rule sum_strict_mono_ex1)
      show "\<exists>y \<in> set xs \<union> set fs. nat (LAST_STAGE - rw (opers ta y)) < nat (LAST_STAGE - rw (opers t y))"
        using Cons R(3,4,5) by (intro bexI[of _ x]) auto
    qed (use le in auto)
    from less.hyps[OF this R(2) _ less.prems(3-7)] Cons show ?thesis
      unfolding step R(3) by simp
  qed
qed

lemma free_loop_ok:
  assumes "scheduled t [] fs None []" and "\<forall>y. num_pending (opers t y) = 0"
  shows "\<exists>t'. free_loop c K status t = Some (Inr (if fs = [] then status else last_err (opers t (last fs)), t'))
    \<and> relinked t t' \<and> active_opers t' = None \<and> finished_opers t' = None"
  using assms
proof (induction fs arbitrary: t status)
  case Nil
  then have "finished_opers t = None" "active_opers t = None" by (simp_all add: scheduled_def represents_def)
  then show ?case by (intro exI[of _ t]) (subst free_loop.simps, simp)
next
  case (Cons x fs)
  have reps: "represents (opers t) (finished_opers t) (x # fs)" "active_opers t = None"
    using Cons.prems(1) by (simp_all add: scheduled_def represents_def)
  obtain h p where d: "oper_list_del x (opers t, finished_opers t) = Some (h, p)" "represents h p fs"
    using opers.rep_del[OF reps(1), of x] by auto
  let ?t = "t\<lparr>opers := h, active_opers := None, finished_opers := p\<rparr>"
  have un: "unlinked (h y) = unlinked (opers t y)" for y by (rule del_unlinked[OF d(1)])
  have eq: "num_pending (h y) = num_pending (opers t y)" "last_err (h y) = last_err (opers t y)" for y
    using unlinkedD(1,6)[OF un] by blast+
  have "scheduled ?t [] fs None []" using d(2) by (simp add: scheduled_def represents_def ring_def)
  moreover have "\<forall>y. num_pending (opers ?t y) = 0" using Cons.prems(2) eq(1) by simp
  ultimately obtain t' where r:
    "free_loop c K (last_err (opers t x)) ?t
       = Some (Inr (if fs = [] then last_err (opers t x) else last_err (opers ?t (last fs)), t'))"
    "relinked ?t t'" "active_opers t' = None" "finished_opers t' = None"
    using Cons.IH by blast
  have "t\<lparr>opers := h, finished_opers := p\<rparr> = ?t" using reps(2) by simp
  then have "free_loop c K status t = free_loop c K (last_err (opers t x)) ?t"
    using reps(1) d(1) Cons.prems(2) eq
    by (subst free_loop.simps) (simp add: represents_def del_from_def io_oper_wait_def)
  moreover have "relinked t t'" using relinked_trans[OF relinkedI[OF un] r(2)] .
  ultimately show ?case using r eq(2) by (intro exI[of _ t']) (simp split: if_splits)
qed

text \<open>The end of a run: nothing is in flight, every unit is free again, every operation is done.\<close>

lemma worker_ok:
  assumes rd: "stage_ready c t xs []" and ne: "xs \<noteq> []"
    and iter: "0 < io_iter c" "io_iter c \<le> max_io_submit c" and fv: "iterations c = RUN_FOREVER"
    and un: "unstopped c K" "all_meet c K"
  shows "\<exists>status t'. worker c K t = Inr (status, t') \<and> inflight (io_ctx t') = {}
    \<and> set (free_ious t') = {..<length (ios t')} \<and> active_opers t' = None \<and> finished_opers t' = None
    \<and> (\<forall>y \<in> set xs. started_ios (opers t' y) = total_ios (opers t' y)
         \<and> (last_err (opers t' y) = 0 \<longrightarrow> next_stage c (rw (opers t' y)) = 0))
    \<and> (\<exists>y \<in> set xs. status = last_err (opers t' y))"
proof -
  obtain ta fs where W: "worker_loop c K t = Some (Inr ((), ta))" "stage_ready c ta [] fs" "set fs = set xs"
    "\<forall>y \<in> set fs. last_err (opers ta y) = 0 \<longrightarrow> next_stage c (rw (opers ta y)) = 0"
    using worker_loop_ok[OF rd ne iter fv un] by auto
  have A: "unit_inv (inflight (io_ctx ta)) [] ta" "scheduled ta [] fs None []"
    "\<forall>y. num_pending (opers ta y) = 0" "\<forall>y \<in> set fs. started_ios (opers ta y) = total_ios (opers ta y)"
    using W(2) by (simp_all add: stage_ready_def)
  have fs: "fs \<noteq> []" using W(3) ne by auto
  obtain tb where F: "free_loop c K 0 ta = Some (Inr (last_err (opers ta (last fs)), tb))"
    "relinked ta tb" "active_opers tb = None" "finished_opers tb = None"
    using free_loop_ok[OF A(2,3), of c 0] fs by auto
  note R = relinkedD(1-3)[OF F(2)]
  have inv: "unit_inv (inflight (io_ctx tb)) [] tb" using relinked_inv[OF F(2) A(1)] R(1) by simp
  have u: "started_ios (opers tb y) = started_ios (opers ta y)" "total_ios (opers tb y) = total_ios (opers ta y)"
    "last_err (opers tb y) = last_err (opers ta y)" "rw (opers tb y) = rw (opers ta y)"
    "num_pending (opers tb y) = num_pending (opers ta y)" for y
    using unlinkedD(2)[OF R(3)] unlinkedD(3)[OF R(3)] unlinkedD(6)[OF R(3)] unlinkedD(4)[OF R(3)]
      unlinkedD(1)[OF R(3)] by blast+
  have empty: "inflight (io_ctx tb) = {}"
  proof -
    have "num_pending (opers tb (unit_oper (ios tb ! v))) = 0" for v using A(3) u(5) by simp
    then show ?thesis using idle_iff[OF inv] by blast
  qed
  then have "set (free_ious tb) = {..<length (ios tb)}" using inv by (simp add: unit_inv_def)
  moreover have "last fs \<in> set xs" using fs W(3) last_in_set by blast
  moreover have "worker c K t = Inr (last_err (opers ta (last fs)), tb)"
    using W(1) F(1) by (simp add: worker_def or_hang_def)
  ultimately show ?thesis
    using empty F(3,4) A(4) W(3,4) u by auto
qed

end

end
