(* ===== verification/Aio_Claims.thy ===== *)
theory Aio_Claims
  imports Aio_Worker_Ends
begin

text \<open>
  The properties of \<open>aio-stress\<close>, outside the locales: the contract of the kernel is a hypothesis,
  and \<open>sim_aio\<close>, a context that completes what it is given, takes its place in the witnesses.
\<close>

section \<open>A context in memory\<close>

definition sim_aio :: "nat list aio_kernel" where
  "sim_aio = \<lparr>
     a_submit = (\<lambda>rs k. (int (length rs), k @ map fst rs)),
     a_getevents = (\<lambda>lo hi k.
        let us = take (nat hi) (remdups k)
        in (int (length us), map (\<lambda>u. (u, 0, [])) us, filter (\<lambda>u. u \<notin> set us) k)),
     a_now = (\<lambda>k. (\<lparr>tv_sec = 0, tv_usec = 0\<rparr>, k)),
     a_stat = (\<lambda>f k. (0, True, 0)),
     a_rand = (\<lambda>k. (0, k)),
     a_fsync = (\<lambda>f k. k),
     a_lock = Some, a_unlock = (\<lambda>k. k), a_wait = (\<lambda>k. None), a_broadcast = (\<lambda>k. k),
     a_counts = (\<lambda>k. ((0, 0), k)), a_set_counts = (\<lambda>cs k. k)\<rparr>"

interpretation sim: aio_context sim_aio set
proof
  fix lo hi :: int and k :: "nat list"
  assume lo: "0 \<le> lo" "lo \<le> hi" "lo \<le> int (card (set k))"
  let ?us = "take (nat hi) (remdups k)"
  have "int (length ?us) = min hi (int (card (set k)))" using lo by (simp add: length_remdups_card_conv)
  then show "\<exists>evs k'. a_getevents sim_aio lo hi k = (int (length evs), evs, k') \<and> lo \<le> int (length evs)
      \<and> int (length evs) \<le> hi \<and> distinct (map fst evs) \<and> set (map fst evs) \<subseteq> set k
      \<and> set k' = set k - set (map fst evs)"
    using lo set_take_subset[of "nat hi" "remdups k"]
    by (intro exI[of _ "map (\<lambda>u. (u, 0, [])) ?us"] exI[of _ "filter (\<lambda>u. u \<notin> set ?us) k"])
      (auto simp: sim_aio_def Let_def comp_def)
qed (auto simp: sim_aio_def)

text \<open>
  The same context in a process of several threads, where the others are as far as this thread
  whenever it waits; the state has the two counters.
\<close>

definition crowd_aio :: "int \<Rightarrow> (nat list \<times> int \<times> int) aio_kernel" where
  "crowd_aio n = \<lparr>
     a_submit = (\<lambda>rs (k, cs). case a_submit sim_aio rs k of (r, k') \<Rightarrow> (r, (k', cs))),
     a_getevents = (\<lambda>lo hi (k, cs). case a_getevents sim_aio lo hi k of (r, evs, k') \<Rightarrow> (r, evs, (k', cs))),
     a_now = (\<lambda>k. (\<lparr>tv_sec = 0, tv_usec = 0\<rparr>, k)), a_stat = (\<lambda>f k. (0, True, 0)),
     a_rand = (\<lambda>k. (0, k)), a_fsync = (\<lambda>f k. k),
     a_lock = Some, a_unlock = (\<lambda>k. k), a_wait = (\<lambda>(k, cs). Some (k, (n, n))), a_broadcast = (\<lambda>k. k),
     a_counts = (\<lambda>k. (snd k, k)), a_set_counts = (\<lambda>cs k. (fst k, cs))\<rparr>"

interpretation crowd: aio_context "crowd_aio n" "\<lambda>k. set (fst k)" for n
proof
  fix rs :: "(nat \<times> iocb) list" and k :: "nat list \<times> int \<times> int"
  assume "rs \<noteq> []" "distinct (map fst rs)" "set (map fst rs) \<inter> set (fst k) = {}"
  from sim.submit[OF this] show "\<exists>r k'. a_submit (crowd_aio n) rs k = (r, k') \<and>
      (r = -EAGAIN \<and> set (fst k) \<noteq> {} \<and> set (fst k') = set (fst k)
       \<or> 0 < r \<and> r \<le> int (length rs) \<and> set (fst k') = set (fst k) \<union> set (take (nat r) (map fst rs)))"
    by (cases k) (auto simp: crowd_aio_def)
next
  fix lo hi :: int and k :: "nat list \<times> int \<times> int"
  assume "0 \<le> lo" "lo \<le> hi" "lo \<le> int (card (set (fst k)))"
  from sim.getevents[OF this] obtain evs k' where "a_getevents sim_aio lo hi (fst k) = (int (length evs), evs, k')"
    "lo \<le> int (length evs)" "int (length evs) \<le> hi" "distinct (map fst evs)" "set (map fst evs) \<subseteq> set (fst k)"
    "set k' = set (fst k) - set (map fst evs)" by blast
  then show "\<exists>evs k'. a_getevents (crowd_aio n) lo hi k = (int (length evs), evs, k') \<and> lo \<le> int (length evs)
      \<and> int (length evs) \<le> hi \<and> distinct (map fst evs) \<and> set (map fst evs) \<subseteq> set (fst k)
      \<and> set (fst k') = set (fst k) - set (map fst evs)"
    by (cases k) (simp add: crowd_aio_def)
qed (auto simp: crowd_aio_def)

lemma crowd_await:
  assumes "w = fst \<or> w = snd"
  shows "\<exists>k. await (crowd_aio n) w n t = Some (Inr ((), t\<lparr>io_ctx := k\<rparr>))"
proof (cases "w (snd (io_ctx t)) = n")
  case True
  then show ?thesis by (intro exI[of _ "io_ctx t"]) (subst await.simps, simp add: crowd_aio_def)
next
  case False
  then show ?thesis using assms
    by (subst await.simps, subst await.simps) (auto simp: crowd_aio_def split: prod.splits)
qed

lemma crowd_meets: "num_threads c = n \<Longrightarrow> all_meet c (crowd_aio n)"
proof -
  assume n: "num_threads c = n"
  have go: "\<exists>t'. on_ok (or_hang t (await (crowd_aio n) w n s)) (\<lambda>(_, t1). leave_meeting (crowd_aio n) t1) = Inr ((), t')"
    if "w = fst \<or> w = snd" for w t s
    using crowd_await[OF that, of n s] by (auto simp: or_hang_def leave_meeting_def)
  have lock: "a_lock (crowd_aio n) k = Some k" "a_counts (crowd_aio n) k = ((fst (snd k), snd (snd k)), k)" for k
    by (simp_all add: crowd_aio_def)
  show ?thesis
    unfolding all_meet_def stage_starts_def stage_ends_def lock Let_def
    using go[of fst] go[of snd] n by (simp only: option.case prod.case) auto
qed

section \<open>From the command line to the threads\<close>

definition fresh_oper :: "io_oper \<Rightarrow> bool" where
  "fresh_oper p \<longleftrightarrow> start p = 0 \<and> started_ios p = 0 \<and> 0 < total_ios p \<and> 0 \<le> rw p"

lemma fresh_unlinked: "unlinked p = unlinked q \<Longrightarrow> fresh_oper p \<longleftrightarrow> fresh_oper q"
  using unlinkedD(2-5) by (metis fresh_oper_def)

definition fresh_thread :: "(nat \<Rightarrow> 'k) \<Rightarrow> nat \<Rightarrow> 'k thread \<Rightarrow> nat list \<Rightarrow> bool" where
  "fresh_thread ks i t xs \<longleftrightarrow> represents (opers t) (active_opers t) xs \<and> finished_opers t = None
     \<and> (\<forall>x \<in> set xs. x < i \<and> fresh_oper (opers t x)) \<and> num_files t = int (length xs)
     \<and> free_ious t = [] \<and> num_global_pending t = 0
     \<and> (\<forall>y. num_pending (opers t y) = 0) \<and> io_ctx t \<in> range ks"

lemma fresh_thread_add:
  assumes f: "fresh_thread ks i t xs" and p: "fresh_oper p" "num_pending p = 0"
    and a: "add_to i (active_opers t) (set_oper i (\<lambda>_. p) t) = (al, t')"
  shows "fresh_thread ks (Suc i) (t'\<lparr>active_opers := al, num_files := num_files t' + 1\<rparr>) (xs @ [i])"
proof -
  let ?h = "(opers t)(i := p)"
  have xs: "i \<notin> set xs" using f by (auto simp: fresh_thread_def)
  have "next_oper (?h u) = next_oper (opers t u) \<and> prev_oper (?h u) = prev_oper (opers t u)" if "u \<in> set xs" for u
    using that xs by auto
  then have rep: "represents ?h (active_opers t) xs"
    using f ring_frame[of "opers t" xs ?h] by (simp add: fresh_thread_def represents_def)
  obtain h' where h': "oper_list_add i (?h, active_opers t) = (h', al)" "t' = t\<lparr>opers := h'\<rparr>"
    using a by (auto simp: add_to_def set_oper_def split: prod.splits)
  have un: "unlinked (h' y) = unlinked (?h y)" for y by (rule add_unlinked[OF h'(1)])
  have fr: "fresh_oper (h' y) \<longleftrightarrow> fresh_oper (?h y)" "num_pending (h' y) = num_pending (?h y)" for y
    using fresh_unlinked[OF un] unlinkedD(1)[OF un] by blast+
  show ?thesis
    using f p xs opers.rep_ins[OF rep xs h'(1)] unfolding h'(2)
    by (auto simp: fresh_thread_def fr less_Suc_eq)
qed

lemma open_loop_fresh:
  assumes "open_loop p fds i fcs ts = Inr ts'"
    and "\<forall>t \<in> set ts. \<exists>xs. fresh_thread ks i t xs"
    and "\<forall>fc \<in> set fcs. snd fc = 0" and "length ts = nat (num_threads (m_config p))"
    and "0 < num_threads (m_config p)" and "0 \<le> m_first_stage p"
    and "0 < s32 (rec_len (m_config p))" and "s32 (rec_len (m_config p)) \<le> m_file_size p"
    and "m_file_size p < 9223372036854775808"
    and "m_file_size p div s32 (rec_len (m_config p)) < 2147483648"
  shows "\<forall>t \<in> set ts'. \<exists>xs i. fresh_thread ks i t xs"
  using assms(1,2,3,4)
proof (induction fcs arbitrary: i ts)
  case Nil
  then show ?case by simp blast
next
  case (Cons fc fcs)
  obtain name j where fc: "fc = (name, j)" by (cases fc)
  let ?c = "m_config p" and ?rl = "s32 (rec_len (m_config p))"
  let ?ti = "nat (int i mod num_threads ?c)"
  have j: "j = 0" using Cons.prems(3) fc by simp
  have "int i mod num_threads ?c < num_threads ?c" using assms(5) by (rule pos_mod_bound)
  then have ti: "?ti < length ts" using Cons.prems(4) assms(5) by (simp add: nat_less_eq_zless)
  obtain oper where o: "create_oper (fds i) (m_first_stage p) (s64 (j * context_offset ?c))
      (s64 (m_file_size p - j * context_offset ?c)) ?rl name = Some oper"
    using assms(7) by (auto simp: create_oper_def)
  have q: "0 < m_file_size p div ?rl" using assms(7,8) by (simp add: pos_imp_zdiv_pos_iff)
  have s: "s64 (m_file_size p) = m_file_size p" "s64 0 = 0"
    using assms(7,8,9) by (auto intro!: s64_id)
  have "s32 (c_div (m_file_size p) ?rl) = m_file_size p div ?rl"
    using assms(7,8,10) q by (subst c_div_nonneg) (auto intro!: s32_id)
  then have fo: "fresh_oper oper" "num_pending oper = 0"
    using o assms(6) q s j by (auto simp: create_oper_def fresh_oper_def split: if_splits)
  obtain al t where a: "add_to i (active_opers (ts ! ?ti)) (set_oper i (\<lambda>_. oper) (ts ! ?ti)) = (al, t)"
    by fastforce
  let ?t = "t\<lparr>active_opers := al, num_files := num_files t + 1\<rparr>"
  have "fds i \<noteq> -1" using Cons.prems(1) fc assms(5) by (auto simp: Let_def split: if_splits)
  then have run: "open_loop p fds (Suc i) fcs (ts[?ti := ?t]) = Inr ts'"
    using Cons.prems(1) fc assms(5) o a by (simp add: Let_def)
  have "\<forall>u \<in> set (ts[?ti := ?t]). \<exists>xs. fresh_thread ks (Suc i) u xs"
  proof
    fix u assume "u \<in> set (ts[?ti := ?t])"
    then have "u \<in> set ts \<or> u = ?t" using set_update_subset_insert by fastforce
    then show "\<exists>xs. fresh_thread ks (Suc i) u xs"
    proof
      assume "u \<in> set ts"
      then obtain xs where "fresh_thread ks i u xs" using Cons.prems(2) by blast
      then have "fresh_thread ks (Suc i) u xs" by (auto simp: fresh_thread_def less_Suc_eq)
      then show ?thesis ..
    next
      assume u: "u = ?t"
      obtain xs where "fresh_thread ks i (ts ! ?ti) xs" using Cons.prems(2) ti by (meson nth_mem)
      from fresh_thread_add[OF this fo a] show ?thesis unfolding u by blast
    qed
  qed
  from Cons.IH[OF run this] Cons.prems(3,4) show ?case by simp
qed

lemma setup_ready:
  assumes K: "aio_context K inflight" and f: "fresh_thread ks i t xs" and e: "\<forall>i. inflight (ks i) = {}"
    and d: "io_iter c \<le> int depth" "0 < io_iter c"
  shows "aio_context.stage_ready inflight c (setup_ious c' depth t) xs []"
proof -
  let ?t = "setup_ious c' depth t"
  have fr: "represents (opers t) (active_opers t) xs" "finished_opers t = None"
    "\<forall>x \<in> set xs. fresh_oper (opers t x)" "num_files t = int (length xs)" "free_ious t = []"
    "num_global_pending t = 0" "\<forall>y. num_pending (opers t y) = 0" "inflight (io_ctx t) = {}"
    using f e by (auto simp: fresh_thread_def)
  have same: "opers ?t = opers t" "active_opers ?t = active_opers t" "finished_opers ?t = None"
    "io_ctx ?t = io_ctx t" "free_ious ?t = rev [0..<depth * length xs]"
    "length (ios ?t) = depth * length xs" "num_global_pending ?t = 0"
    "num_global_events ?t = int (length (ios ?t))" "\<forall>u < length (ios ?t). \<not> busy (ios ?t ! u)"
    using fr by (simp_all add: setup_ious_def Let_def)
  have "unit_inv {} [] ?t" using same fr(7) by (auto simp: unit_inv_def)
  moreover have "scheduled ?t xs [] None []"
    using fr(1) same by (simp add: scheduled_def represents_def ring_def)
  moreover have "int (length xs) * io_iter c \<le> int depth * int (length xs)"
    using mult_right_mono[of "io_iter c" "int depth" "int (length xs)"] d by (simp add: mult.commute)
  ultimately show ?thesis
    using fr same unfolding aio_context.stage_ready_def[OF K] fresh_oper_def by simp
qed

lemma first_of_nonneg: "first_of c = Some i \<Longrightarrow> 0 \<le> i"
  by (auto simp: first_of_def split: if_splits)

lemma settle_limits:
  assumes "settle n p0 = Inr p"
  shows "io_iter (m_config p) \<le> m_depth p" and "io_iter (m_config p) \<le> max_io_submit (m_config p)"
    and "m_depth p = m_depth p0" and "m_file_size p = m_file_size p0" and "0 \<le> num_threads (m_config p)"
    and "rec_len (m_config p) = rec_len (m_config p0)" and "iterations (m_config p) = iterations (m_config p0)"
    and "num_contexts (m_config p) = num_contexts (m_config p0)"
    and "0 \<le> m_first_stage p0 \<Longrightarrow> 0 \<le> m_first_stage p"
proof -
  define c1 where "c1 = (if m_depth p0 < io_iter (m_config p0)
    then (m_config p0)\<lparr>io_iter := m_depth p0\<rparr> else m_config p0)"
  define c2 where "c2 = (if s32 (n * num_contexts c1) < num_threads c1
    then c1\<lparr>num_threads := s32 (n * num_contexts c1)\<rparr> else c1)"
  define c3 where "c3 = (if max_io_submit c2 = 0
    then c2\<lparr>max_io_submit := s32 (n * io_iter c2 * num_contexts c2)\<rparr> else c2)"
  define c4 where "c4 = (if max_io_submit c3 < io_iter c3 then c3\<lparr>io_iter := max_io_submit c3\<rparr> else c3)"
  define c5 where "c5 = (if stages c4 = 0 then c4\<lparr>stages := 15\<rparr> else c4)"
  define fs where "fs = (if stages c4 = 0 then m_first_stage p0
    else (case first_of c4 of None \<Rightarrow> m_first_stage p0 | Some i \<Rightarrow> i))"
  have "settle n p0 = (if n \<le> 0 then Inl (Exit 1) else if num_threads c2 < 0 then Inl (Exit 1)
     else if m_file_size p0 < s64 (num_contexts c5 * context_offset c5) then Inl (Exit 1)
     else Inr (p0\<lparr>m_config := c5, m_first_stage := fs\<rparr>))"
    unfolding settle_def Let_def c1_def[symmetric] c2_def[symmetric] c3_def[symmetric]
      c4_def[symmetric] c5_def[symmetric] fs_def[symmetric] by (rule refl)
  then have p: "p = p0\<lparr>m_config := c5, m_first_stage := fs\<rparr>" "0 \<le> num_threads c2"
    using assms by (auto split: if_splits)
  have c5: "io_iter c5 = io_iter c4" "max_io_submit c5 = max_io_submit c4" "num_threads c5 = num_threads c4"
    "rec_len c5 = rec_len c4" "iterations c5 = iterations c4" "num_contexts c5 = num_contexts c4"
    by (simp_all add: c5_def)
  have c4: "io_iter c4 \<le> io_iter c3" "io_iter c4 \<le> max_io_submit c4" "num_threads c4 = num_threads c3"
    "rec_len c4 = rec_len c3" "iterations c4 = iterations c3" "num_contexts c4 = num_contexts c3"
    by (simp_all add: c4_def)
  have c3: "io_iter c3 = io_iter c2" "num_threads c3 = num_threads c2"
    "rec_len c3 = rec_len c2" "iterations c3 = iterations c2" "num_contexts c3 = num_contexts c2"
    by (simp_all add: c3_def)
  have c2: "io_iter c2 = io_iter c1" "rec_len c2 = rec_len c1" "iterations c2 = iterations c1"
    "num_contexts c2 = num_contexts c1" by (simp_all add: c2_def)
  have c1: "io_iter c1 \<le> m_depth p0" "rec_len c1 = rec_len (m_config p0)"
    "iterations c1 = iterations (m_config p0)" "num_contexts c1 = num_contexts (m_config p0)"
    by (simp_all add: c1_def)
  show "io_iter (m_config p) \<le> m_depth p" using p(1) c5(1) c4(1) c3(1) c2(1) c1(1) by simp
  show "io_iter (m_config p) \<le> max_io_submit (m_config p)" using p(1) c5(1,2) c4(2) by simp
  show "m_depth p = m_depth p0" "m_file_size p = m_file_size p0" by (simp_all add: p(1))
  show "0 \<le> num_threads (m_config p)" using p c5(3) c4(3) c3(2) by simp
  show "rec_len (m_config p) = rec_len (m_config p0)" "iterations (m_config p) = iterations (m_config p0)"
    "num_contexts (m_config p) = num_contexts (m_config p0)"
    using p(1) c5 c4 c3 c2 c1 by simp_all
  show "0 \<le> m_first_stage p" if "0 \<le> m_first_stage p0"
    using that first_of_nonneg by (simp add: p(1) fs_def split: option.splits)
qed

lemma main_threads_ready:
  assumes K: "aio_context K inflight" and run: "main_threads p0 fds ks files = Inr (c, ts)" and t: "t \<in> set ts"
    and one: "num_contexts (m_config p0) = 1" and fs: "0 \<le> m_first_stage p0"
    and iter: "0 < io_iter c"
    and rl: "0 < s32 (rec_len (m_config p0))" "s32 (rec_len (m_config p0)) \<le> m_file_size p0"
    and size: "m_file_size p0 < 9223372036854775808"
      "m_file_size p0 div s32 (rec_len (m_config p0)) < 2147483648"
    and e: "\<forall>i. inflight (ks i) = {}"
  shows "io_iter c \<le> max_io_submit c" and "iterations c = iterations (m_config p0)"
    and "\<exists>xs. aio_context.stage_ready inflight c t xs [] \<and> num_files t = int (length xs)"
proof -
  obtain p ts' where s: "settle (int (length files)) p0 = Inr p"
    and o: "open_loop p fds 0 (file_contexts (m_config p) files)
      (map (\<lambda>i. empty_thread (ks i)) [0..<nat (num_threads (m_config p))]) = Inr ts'"
    and c: "c = setup_verify (m_config p)"
    and ts: "ts = map (setup_ious (m_config p) (nat (m_depth p))) ts'"
    using run by (auto simp: main_threads_def on_ok_Inr_iff)
  note L = settle_limits[OF s]
  have ci: "io_iter c = io_iter (m_config p)" "max_io_submit c = max_io_submit (m_config p)"
    "iterations c = iterations (m_config p)" by (simp_all add: c setup_verify_def)
  show "io_iter c \<le> max_io_submit c" "iterations c = iterations (m_config p0)" using L(2,7) ci by simp_all
  obtain u where u: "u \<in> set ts'" "t = setup_ious (m_config p) (nat (m_depth p)) u" using t ts by auto
  have ne: "0 < num_threads (m_config p)"
  proof (rule ccontr)
    assume "\<not> 0 < num_threads (m_config p)"
    then have "num_threads (m_config p) = 0" using L(5) by simp
    then have "ts' = []" using o by (cases "file_contexts (m_config p) files") (auto simp: Let_def split: prod.splits)
    then show False using u(1) by simp
  qed
  have empty: "\<forall>t \<in> set (map (\<lambda>i. empty_thread (ks i)) [0..<nat (num_threads (m_config p))]).
      \<exists>xs. fresh_thread ks 0 t xs"
    by (auto simp: fresh_thread_def empty_thread_def represents_def ring_def blank_oper_def
        intro!: exI[of _ "[]"])
  have fc: "\<forall>fc \<in> set (file_contexts (m_config p) files). snd fc = 0"
    using L(8) one by (auto simp: file_contexts_def)
  obtain xs i where f: "fresh_thread ks i u xs"
    using open_loop_fresh[OF o empty fc] u(1) ne L fs rl size by auto
  have "aio_context.stage_ready inflight c t xs []"
    unfolding u(2) using L(1) iter ci(1) by (intro setup_ready[OF K f e]) auto
  moreover have "num_files t = int (length xs)"
    using f by (simp add: u(2) setup_ious_def Let_def fresh_thread_def)
  ultimately show "\<exists>xs. aio_context.stage_ready inflight c t xs [] \<and> num_files t = int (length xs)" by blast
qed

section \<open>The properties\<close>

text \<open>
  C15 (liveness). With the operations of one context per file, a chunk of at least one request and
  no limit on the iterations, a thread that \<open>main\<close> sets up runs through all its stages on any
  kernel that keeps the contract, when it runs alone, or with other threads that reach every meeting
  and, \<open>stonewall\<close> being off (\<open>-S\<close>), do not cut its operations off: \<open>worker\<close> returns, no request is in flight
  and every buffer is free, both lists are empty, each operation has started all its requests in its
  last stage, and one that saw no error has no stage left.
\<close>

theorem thread_completes:
  assumes "aio_context K inflight" and "main_threads p0 fds ks files = Inr (c, ts)" and "t \<in> set ts"
    and "active_opers t \<noteq> None"
    and "num_contexts (m_config p0) = 1" and "0 \<le> m_first_stage p0" and "0 < io_iter c"
    and "iterations (m_config p0) = RUN_FOREVER"
    and "0 < s32 (rec_len (m_config p0))" and "s32 (rec_len (m_config p0)) \<le> m_file_size p0"
    and "m_file_size p0 < 9223372036854775808"
    and "m_file_size p0 div s32 (rec_len (m_config p0)) < 2147483648"
    and "\<forall>i. inflight (ks i) = {}" and "unstopped c K" and "all_meet c K"
  shows "\<exists>xs status t'. represents (opers t) (active_opers t) xs \<and> num_files t = int (length xs)
    \<and> worker c K t = Inr (status, t') \<and> inflight (io_ctx t') = {}
    \<and> set (free_ious t') = {..<length (ios t')} \<and> active_opers t' = None \<and> finished_opers t' = None
    \<and> (\<forall>y \<in> set xs. started_ios (opers t' y) = total_ios (opers t' y)
         \<and> (last_err (opers t' y) = 0 \<longrightarrow> next_stage c (rw (opers t' y)) = 0))
    \<and> (\<exists>y \<in> set xs. status = last_err (opers t' y))"
proof -
  note R = main_threads_ready[OF assms(1-3,5-7,9-13)]
  obtain xs where xs: "aio_context.stage_ready inflight c t xs []" "num_files t = int (length xs)"
    using R(3) by blast
  have rep: "represents (opers t) (active_opers t) xs"
    using xs(1) by (simp add: aio_context.stage_ready_def[OF assms(1)] scheduled_def)
  then have "xs \<noteq> []" using assms(4) by (auto simp: represents_def)
  moreover have "iterations c = RUN_FOREVER" using R(2) assms(8) by simp
  ultimately show ?thesis
    using aio_context.worker_ok[OF assms(1) xs(1) _ assms(7) R(1) _ assms(14,15)] rep xs(2) by metis
qed

text \<open>The defaults, on one file, and two threads without \<open>stonewall\<close>, on two.\<close>

definition two_threads :: main_opts where
  "two_threads = (main_defaults 4096)\<lparr>m_config := (m_config (main_defaults 4096))\<lparr>num_threads := 2, stonewall := False\<rparr>\<rparr>"

definition sample_run :: "halt + (aio_config \<times> nat list thread list)" where
  "sample_run = main_threads (main_defaults 4096) (\<lambda>i. 3) (\<lambda>i. []) [''f'']"

definition crowd_run :: "halt + (aio_config \<times> (nat list \<times> int \<times> int) thread list)" where
  "crowd_run = main_threads two_threads (\<lambda>i. 3) (\<lambda>i. ([], 0, 0)) [''f'', ''g'']"

lemma sample_run:
  "\<exists>c t. sample_run = Inr (c, [t]) \<and> active_opers t = Some 0 \<and> io_iter c = 8 \<and> num_threads c = 1"
  by (simp add: sample_run_def main_threads_def main_defaults_def settle_def first_of_def has_stage_def
      Let_def file_contexts_def create_oper_def add_to_def oper_list_add_def empty_thread_def set_oper_def
      setup_verify_def setup_ious_def wrap_simps)

lemma crowd_run:
  "\<exists>c t u. crowd_run = Inr (c, [t, u]) \<and> active_opers u = Some 1 \<and> io_iter c = 8 \<and> num_threads c = 2 \<and> \<not> stonewall c"
  by (simp add: crowd_run_def two_threads_def main_threads_def main_defaults_def settle_def first_of_def has_stage_def
      Let_def file_contexts_def create_oper_def add_to_def oper_list_add_def empty_thread_def set_oper_def
      setup_verify_def setup_ious_def wrap_simps upt_rec[of 0] numeral_2_eq_2)

theorem thread_completes_witness:
  "(\<exists>c t status t'. sample_run = Inr (c, [t]) \<and> worker c sim_aio t = Inr (status, t') \<and> io_ctx t' = [])
   \<and> (\<exists>c t u status u'. crowd_run = Inr (c, [t, u]) \<and> worker c (crowd_aio 2) u = Inr (status, u') \<and> fst (io_ctx u') = [])"
proof
  obtain c t where m: "sample_run = Inr (c, [t])" and t: "active_opers t = Some 0" "io_iter c = 8" "num_threads c = 1"
    using sample_run by blast
  have un: "unstopped c sim_aio" "all_meet c sim_aio" using t(3) by (simp_all add: unstopped_def sim_aio_def alone_meets)
  have "\<exists>xs status t'. represents (opers t) (active_opers t) xs \<and> num_files t = int (length xs)
    \<and> worker c sim_aio t = Inr (status, t') \<and> set (io_ctx t') = {}
    \<and> set (free_ious t') = {..<length (ios t')} \<and> active_opers t' = None \<and> finished_opers t' = None
    \<and> (\<forall>y \<in> set xs. started_ios (opers t' y) = total_ios (opers t' y)
         \<and> (last_err (opers t' y) = 0 \<longrightarrow> next_stage c (rw (opers t' y)) = 0))
    \<and> (\<exists>y \<in> set xs. status = last_err (opers t' y))"
    by (rule thread_completes[OF sim.aio_context_axioms m[unfolded sample_run_def]])
      (use t un in \<open>simp_all add: main_defaults_def wrap_simps\<close>)
  then show "\<exists>c t status t'. sample_run = Inr (c, [t]) \<and> worker c sim_aio t = Inr (status, t') \<and> io_ctx t' = []"
    using m by auto
next
  obtain c t u where m: "crowd_run = Inr (c, [t, u])" and u: "active_opers u = Some 1" "io_iter c = 8"
    and n: "num_threads c = 2" "\<not> stonewall c"
    using crowd_run by blast
  have un: "unstopped c (crowd_aio 2)" "all_meet c (crowd_aio 2)"
    using n crowd_meets[OF n(1)] by (simp_all add: unstopped_def)
  have "\<exists>xs status u'. represents (opers u) (active_opers u) xs \<and> num_files u = int (length xs)
    \<and> worker c (crowd_aio 2) u = Inr (status, u') \<and> set (fst (io_ctx u')) = {}
    \<and> set (free_ious u') = {..<length (ios u')} \<and> active_opers u' = None \<and> finished_opers u' = None
    \<and> (\<forall>y \<in> set xs. started_ios (opers u' y) = total_ios (opers u' y)
         \<and> (last_err (opers u' y) = 0 \<longrightarrow> next_stage c (rw (opers u' y)) = 0))
    \<and> (\<exists>y \<in> set xs. status = last_err (opers u' y))"
    by (rule thread_completes[OF crowd.aio_context_axioms m[unfolded crowd_run_def]])
      (use u un in \<open>simp_all add: two_threads_def main_defaults_def wrap_simps\<close>)
  then show "\<exists>c t u status u'. crowd_run = Inr (c, [t, u]) \<and> worker c (crowd_aio 2) u = Inr (status, u') \<and> fst (io_ctx u') = []"
    using m by auto
qed

text \<open>
  C20 (refinement). The circular lists through the operations implement lists: on a heap that
  represents a list \<open>oper_list_add\<close> appends, \<open>oper_list_del\<close> removes, the \<open>next\<close> field of an
  element is the element after it or, of the last, the first; and a list that shares no operation
  with it is represented as before.
\<close>

theorem oper_lists_refine_lists:
  assumes "represents h lst xs" and "x \<notin> set xs" and "y \<in> set xs"
    and "represents h other zs" and "set xs \<inter> set zs = {}" and "x \<notin> set zs"
  shows "\<exists>ha la hd' ld. oper_list_add x (h, lst) = (ha, la) \<and> represents ha la (xs @ [x])
      \<and> represents ha other zs
      \<and> oper_list_del y (h, lst) = Some (hd', ld) \<and> represents hd' ld (remove1 y xs)
      \<and> represents hd' other zs
      \<and> next_oper (h y) = hd (tl (dropWhile (\<lambda>z. z \<noteq> y) xs) @ xs)"
proof -
  obtain ha la where a: "oper_list_add x (h, lst) = (ha, la)" by fastforce
  obtain us vs where s: "xs = us @ y # vs" "y \<notin> set us" using split_list_first[OF assms(3)] by auto
  have d: "dropWhile (\<lambda>z. z \<noteq> y) xs = y # vs" using s by (simp add: dropWhile_append)
  have n: "next_oper (h y) = hd (vs @ us @ [y])" using opers.rep_succ[of h lst us y vs] assms(1) s(1) by simp
  have "hd (vs @ us @ [y]) = hd (vs @ xs)" using s(1) by (cases vs; cases us) auto
  then have "next_oper (h y) = hd (tl (dropWhile (\<lambda>z. z \<noteq> y) xs) @ xs)" using d n by simp
  moreover have "represents ha la (xs @ [x])" by (rule opers.rep_ins[OF assms(1,2) a])
  moreover have "represents ha other zs" by (rule opers.ins_frame[OF assms(1,4,2,6,5) a])
  ultimately show ?thesis using a opers.rep_del[OF assms(1,3)] assms(4,5) by blast
qed

theorem oper_lists_refine_lists_witness:
  "\<exists>ha la. oper_list_add 1 (\<lambda>_. blank_oper, Some 0) = (ha, la) \<and> represents ha la [0, 1]"
  using oper_lists_refine_lists[of "\<lambda>_. blank_oper" "Some 0" "[0]" 1 0 None "[]"]
  by (auto simp: represents_def ring_def link_def blank_oper_def)

text \<open>
  C18 (invariant). Submitting prepared requests, in as many calls of \<open>io_submit\<close> as the kernel
  needs, ends with each of them accepted once: every unit is again free or in flight, the counters
  agree, and each operation has started as many more requests as it had prepared.
\<close>

theorem run_built_submits_all:
  assumes "aio_context K inflight" and "unit_inv (inflight (io_ctx t)) us t" and "us \<noteq> []"
    and "0 < io_iter c"
  shows "\<exists>t'. run_built c K us t = Inr (0, t') \<and> unit_inv (inflight (io_ctx t')) [] t'
    \<and> (\<forall>y. started_ios (opers t' y)
         = started_ios (opers t y) + int (length (filter (\<lambda>u. unit_oper (ios t ! u) = y) us)))"
  using aio_context.run_built_ok[OF assms]
  by (auto simp: run_built_def or_hang_def owned_def aio_context.submitted_def[OF assms(1)])

definition one_request :: "nat list thread" where
  "one_request = (empty_thread [])\<lparr>ios := [\<lparr>iocb_of = \<lparr>aio_fd = 3, aio_read = False, aio_len = 512,
     aio_offset = 0\<rparr>, unit_oper = 7, buf = [], buf_size = 512, busy = True, res = 0,
     io_start_time = \<lparr>tv_sec = 0, tv_usec = 0\<rparr>\<rparr>], num_global_events := 1\<rparr>"

theorem run_built_submits_all_witness:
  "\<exists>t'. run_built (m_config (main_defaults 4096)) sim_aio [0] one_request = Inr (0, t')
     \<and> started_ios (opers t' 7) = 1"
proof -
  have "unit_inv (set (io_ctx one_request)) [0] one_request"
    by (auto simp: unit_inv_def one_request_def empty_thread_def blank_oper_def)
  from run_built_submits_all[OF sim.aio_context_axioms this, of "m_config (main_defaults 4096)"]
  show ?thesis by (auto simp: main_defaults_def one_request_def empty_thread_def blank_oper_def)
qed

text \<open>
  C19 (functional). One pass over the active list: some of the operations have started their
  quota of requests (\<open>io_iter\<close>, or what is left), in the order of the list; those with requests
  left follow the ones not reached, those without join the finished ones; if the first is runnable
  at least one was reached.
\<close>

theorem run_active_list_round:
  assumes "aio_context K inflight" and "unit_inv (inflight (io_ctx t)) [] t"
    and "scheduled t (x # xs) fs None []"
    and "\<forall>y \<in> set (x # xs). started_ios (opers t y) < total_ios (opers t y)"
    and "0 < io_iter c" and "io_iter c \<le> max_io_submit c"
    and "int (length (x # xs)) * io_iter c \<le> int (length (ios t))"
  shows "\<exists>zs t'. run_active_list c K t = Inr ((), t') \<and> set zs \<subseteq> set (x # xs) \<and> distinct zs
    \<and> unit_inv (inflight (io_ctx t')) [] t'
    \<and> (\<forall>y. started_ios (opers t' y) = started_ios (opers t y) +
         (if y \<in> set zs then min (io_iter c) (total_ios (opers t y) - started_ios (opers t y)) else 0))
    \<and> scheduled t' (filter (\<lambda>y. y \<notin> set zs) (x # xs)
           @ filter (\<lambda>y. started_ios (opers t' y) < total_ios (opers t' y)) zs)
         (fs @ filter (\<lambda>y. started_ios (opers t' y) = total_ios (opers t' y)) zs) None []
    \<and> (oper_runnable K x t = Inr (True, t) \<longrightarrow> zs \<noteq> [])"
  using aio_context.run_active_list_ok[OF assms]
  unfolding aio_context.round_done_def[OF assms(1)] quota_def by blast

theorem run_active_list_round_witness:
  "\<exists>c t t'. sample_run = Inr (c, [t]) \<and> run_active_list c sim_aio t = Inr ((), t')
     \<and> unit_inv (set (io_ctx t')) [] t'"
proof -
  obtain c t where m: "sample_run = Inr (c, [t])" and t: "active_opers t = Some 0" "io_iter c = 8"
    using sample_run by blast
  have R: "io_iter c \<le> max_io_submit c" "\<exists>xs. sim.stage_ready c t xs [] \<and> num_files t = int (length xs)"
    by (rule main_threads_ready[OF sim.aio_context_axioms m[unfolded sample_run_def]];
        use t in \<open>simp add: main_defaults_def wrap_simps\<close>)+
  then obtain xs where xs: "sim.stage_ready c t xs []" by blast
  then obtain r where r: "xs = 0 # r"
    using t(1) by (cases xs) (auto simp: sim.stage_ready_def scheduled_def represents_def)
  have "\<exists>zs t'. run_active_list c sim_aio t = Inr ((), t') \<and> set zs \<subseteq> set (0 # r) \<and> distinct zs
    \<and> unit_inv (set (io_ctx t')) [] t'
    \<and> (\<forall>y. started_ios (opers t' y) = started_ios (opers t y) +
         (if y \<in> set zs then min (io_iter c) (total_ios (opers t y) - started_ios (opers t y)) else 0))
    \<and> scheduled t' (filter (\<lambda>y. y \<notin> set zs) (0 # r)
           @ filter (\<lambda>y. started_ios (opers t' y) < total_ios (opers t' y)) zs)
         ([] @ filter (\<lambda>y. started_ios (opers t' y) = total_ios (opers t' y)) zs) None []
    \<and> (oper_runnable sim_aio 0 t = Inr (True, t) \<longrightarrow> zs \<noteq> [])"
    by (rule run_active_list_round[OF sim.aio_context_axioms])
      (use xs R(1) t(2) in \<open>simp_all add: r sim.stage_ready_def\<close>)
  then show ?thesis using m by blast
qed

end
