(* ===== verification/Aio_Limits.thy ===== *)
theory Aio_Limits
  imports Aio_Setup
begin

text \<open>
  Single functions of \<open>aio-stress\<close>: where random requests go, in which order the stages come, what
  counts as an error, how sizes are read, how the buffers are laid out, and what happens to a
  context that begins behind the end of its range.
\<close>

section \<open>Random offsets\<close>

lemma scaled_rand_bounds:
  assumes "0 \<le> m" and "0 \<le> r" and "r < 2147483648"
  shows "0 \<le> scaled_rand m r" and "0 < m \<Longrightarrow> scaled_rand m r < m"
proof -
  show "0 \<le> scaled_rand m r" using assms by (simp add: scaled_rand_def pos_imp_zdiv_nonneg_iff)
  assume "0 < m"
  then have "m * r < m * 2147483648" using assms by simp
  then show "scaled_rand m r < m" by (simp add: scaled_rand_def div_less_iff_less_mult mult.commute)
qed

lemma page_align_round:
  assumes p: "pow2 p" and n: "0 < n" "n \<le> 1048576" and d: "p \<le> 1048576"
  shows "page_align (p - 1) n = round_down (n + (p - 1)) p"
proof -
  obtain k where k: "p = 2 ^ k" using p by (auto simp: pow2_def)
  have "k \<le> 20" using d power_increasing_iff[of "2 :: int" k 20] by (simp add: k)
  let ?x = "n + (p - 1)"
  have p0: "0 < p" by (rule pow2_pos[OF p])
  have x: "0 \<le> ?x" "?x < 18446744073709551616" "?x < 2 ^ 64" using n d p0 by auto
  have "u64 (NOT (p - 1)) = take_bit 64 (NOT (p - 1))" by (simp add: u64_def take_bit_eq_mod)
  then have "u64 ?x AND u64 (NOT (p - 1)) = take_bit 64 (?x AND NOT (p - 1))"
    using x by (simp add: take_bit_and take_bit_int_eq_self u64_id)
  also have "?x AND NOT (p - 1) = round_down ?x p" by (rule mask_down[OF p])
  also have "take_bit 64 (round_down ?x p) = round_down ?x p"
    using round_down_nonneg[OF p0 x(1)] round_down_le[OF p0, of ?x] x(3) by (simp add: take_bit_int_eq_self)
  finally have "u64 ?x AND u64 (NOT (p - 1)) = round_down ?x p" .
  then show ?thesis
    using round_down_nonneg[OF p0 x(1)] round_down_le[OF p0, of ?x] n d
    by (simp add: page_align_def s64_id)
qed

lemma page_align_bounds:
  assumes p: "pow2 p" and n: "0 < n" "n \<le> 1048576" and d: "p \<le> 1048576"
  shows "n \<le> page_align (p - 1) n \<and> page_align (p - 1) n \<le> 1048576 \<and> p dvd page_align (p - 1) n"
proof -
  note e = page_align_round[OF assms]
  have p0: "0 < p" by (rule pow2_pos[OF p])
  obtain k where k: "p = 2 ^ k" using p by (auto simp: pow2_def)
  have "k \<le> 20" using d power_increasing_iff[of "2 :: int" k 20] by (simp add: k)
  then have dv: "p dvd 1048576" using le_imp_power_dvd[of k 20 "2 :: int"] by (simp add: k)
  have "n + (p - 1) - p < round_down (n + (p - 1)) p" by (rule round_down_gt[OF p0])
  moreover have "round_down (n + (p - 1)) p \<le> 1048576"
  proof -
    obtain q where q: "1048576 = q * p" using dv by (auto simp: dvd_def mult.commute)
    have "n + (p - 1) < (q + 1) * p" using n(2) unfolding q by (simp add: algebra_simps)
    then have "(n + (p - 1)) div p * p < (q + 1) * p" using round_down_le[OF p0, of "n + (p - 1)"]
      by (simp add: round_down_def minus_mod_eq_div_mult)
    then have "(n + (p - 1)) div p \<le> q" using p0 by simp
    then have "(n + (p - 1)) div p * p \<le> q * p" using p0 by (intro mult_right_mono) auto
    then show ?thesis using q by (simp add: round_down_def minus_mod_eq_div_mult)
  qed
  ultimately show ?thesis using e round_down_dvd[of p "n + (p - 1)"] by simp
qed

text \<open>
  C22 (bounds). In a range of at least two megabytes and at least two records a random request
  lies inside the range, and is aligned to the page when the range and the record are.
\<close>

theorem random_request_in_range:
  assumes "pow2 p" and "p \<le> 1048576" and "0 \<le> r1" and "r1 < 2147483648" and "0 \<le> r2" and "r2 < 2147483648"
    and "2097152 \<le> end_off oper - start oper" and "0 < reclen oper"
    and "2 * reclen oper \<le> end_off oper - start oper"
  shows "start oper \<le> random_byte_offset (p - 1) oper r1 r2
    \<and> random_byte_offset (p - 1) oper r1 r2 + reclen oper \<le> end_off oper
    \<and> (p dvd start oper \<longrightarrow> p dvd reclen oper \<longrightarrow> p dvd random_byte_offset (p - 1) oper r1 r2)"
proof -
  let ?R = "(end_off oper - start oper) div 1048576"
  let ?m = "scaled_rand (?R - 1) r1" and ?n = "page_align (p - 1) (1 + scaled_rand 1048576 r2)"
  let ?b = "start oper + (1 + ?m) * 1048576 + ?n"
  have p0: "0 < p" by (rule pow2_pos[OF assms(1)])
  have R: "2 \<le> ?R" "?R * 1048576 \<le> end_off oper - start oper" using assms(7) by linarith+
  have m: "0 \<le> ?m" "?m < ?R - 1" using scaled_rand_bounds[of "?R - 1" r1] R assms(3,4) by auto
  have s: "0 \<le> scaled_rand 1048576 r2" "scaled_rand 1048576 r2 < 1048576"
    using scaled_rand_bounds[of 1048576 r2] assms(5,6) by auto
  have n: "0 < ?n" "?n \<le> 1048576" "p dvd ?n"
    using page_align_bounds[OF assms(1) _ _ assms(2), of "1 + scaled_rand 1048576 r2"] s by auto
  have o: "random_byte_offset (p - 1) oper r1 r2
      = (if end_off oper < ?b + reclen oper then ?b - reclen oper else ?b)"
    using R(1) p0 assms(2,7) by (simp add: random_byte_offset_def Let_def c_div_nonneg u64_id mult.assoc)
  have "(1 + ?m) * 1048576 \<le> (?R - 1) * 1048576" using m by (intro mult_right_mono) auto
  then have b: "?b \<le> end_off oper" using n(2) R(2) by (simp add: left_diff_distrib)
  have lo: "start oper < ?b" using m(1) n(1) by (simp add: add_pos_pos)
  obtain k where k: "p = 2 ^ k" using assms(1) by (auto simp: pow2_def)
  have "k \<le> 20" using assms(2) power_increasing_iff[of "2 :: int" k 20] by (simp add: k)
  then have "p dvd 1048576" using le_imp_power_dvd[of k 20 "2 :: int"] by (simp add: k)
  then have "p dvd start oper \<Longrightarrow> p dvd ?b" using n(3) by auto
  then show ?thesis using b lo assms(8,9) unfolding o by auto
qed

theorem random_request_in_range_witness:
  "0 \<le> random_byte_offset 4095 (blank_oper\<lparr>end_off := 4194304, reclen := 65536\<rparr>) 2000000000 7
   \<and> random_byte_offset 4095 (blank_oper\<lparr>end_off := 4194304, reclen := 65536\<rparr>) 2000000000 7 \<le> 4128768"
proof -
  have "pow2 4096" unfolding pow2_def by (rule exI[of _ 12]) simp
  from random_request_in_range[OF this, of 2000000000 7 "blank_oper\<lparr>end_off := 4194304, reclen := 65536\<rparr>"]
  show ?thesis by (simp add: blank_oper_def)
qed

text \<open>
  C23 (error). In a range of at most one megabyte every random request ends behind the range,
  whatever \<open>rand\<close> returns: a random write makes the file grow, a random read is short.
\<close>

theorem random_request_past_end:
  assumes "pow2 p" and "p \<le> 1048576" and "0 \<le> r1" and "r1 < 2147483648" and "0 \<le> r2" and "r2 < 2147483648"
    and "0 \<le> end_off oper - start oper" and "end_off oper - start oper \<le> 1048576" and "0 < reclen oper"
  shows "end_off oper < random_byte_offset (p - 1) oper r1 r2 + reclen oper"
proof -
  let ?n = "page_align (p - 1) (1 + scaled_rand 1048576 r2)"
  have p0: "0 < p" by (rule pow2_pos[OF assms(1)])
  have s: "0 \<le> scaled_rand 1048576 r2" "scaled_rand 1048576 r2 < 1048576"
    using scaled_rand_bounds[of 1048576 r2] assms(5,6) by auto
  have n: "0 < ?n" using page_align_bounds[OF assms(1) _ _ assms(2), of "1 + scaled_rand 1048576 r2"] s by auto
  have "0 \<le> (end_off oper - start oper) div 1048576" "(end_off oper - start oper) div 1048576 \<le> 1"
    using assms(7,8) by linarith+
  then have "(if (end_off oper - start oper) div 1048576 < 1 then 0
      else (end_off oper - start oper) div 1048576 - 1) = 0" by simp
  then show ?thesis
    using p0 assms(2,7-9) n
    by (simp add: random_byte_offset_def Let_def c_div_nonneg u64_id scaled_rand_def)
qed

theorem random_request_past_end_witness:
  "65536 < random_byte_offset 4095 (blank_oper\<lparr>end_off := 65536, reclen := 4096\<rparr>) 5 7 + 4096"
proof -
  have "pow2 4096" unfolding pow2_def by (rule exI[of _ 12]) simp
  from random_request_past_end[OF this, of 5 7 "blank_oper\<lparr>end_off := 65536, reclen := 4096\<rparr>"]
  show ?thesis by (simp add: blank_oper_def)
qed

section \<open>Stages\<close>

text \<open>
  C27 (equivalence). The fall-through \<open>switch\<close> of \<open>restart_oper\<close> finds the first selected stage
  after the current one in the order write, read, random write, random read, and 0 if none is left.
\<close>

theorem next_stage_is_next_selected:
  assumes "0 \<le> st"
  shows "next_stage c st = (case List.find (has_stage c) [st + 1..RREAD] of None \<Rightarrow> 0 | Some n \<Rightarrow> n)"
proof -
  consider "st = 0" | "st = 1" | "st = 2" | "3 \<le> st" using assms by linarith
  then show ?thesis by cases (auto simp: next_stage_def Let_def upto.simps)
qed

theorem next_stage_is_next_selected_witness:
  "next_stage ((m_config (main_defaults 4096))\<lparr>stages := 9\<rparr>) 0 = 3"
proof -
  have "\<not> has_stage ((m_config (main_defaults 4096))\<lparr>stages := 9\<rparr>) 1"
    "\<not> has_stage ((m_config (main_defaults 4096))\<lparr>stages := 9\<rparr>) 2"
    "has_stage ((m_config (main_defaults 4096))\<lparr>stages := 9\<rparr>) 3"
    by (simp_all add: has_stage_def bit_iff_odd)
  then show ?thesis
    using next_stage_is_next_selected[of 0 "(m_config (main_defaults 4096))\<lparr>stages := 9\<rparr>"]
    by (simp add: upto.simps)
qed

section \<open>Sizes\<close>

lemma atoi_decimal:
  assumes "int n < 2147483648" and "cs = [] \<or> \<not> is_digit 10 (hd cs)"
  shows "atoi (to_base 10 n @ cs) = int n"
proof -
  obtain d ds where d: "to_base 10 n = d # ds" using to_base_Cons by blast
  have "is_digit 10 d" using to_base_digits[of 10 n] d by simp
  then have "\<not> isspace d" "d \<noteq> CHR ''-''" "d \<noteq> CHR ''+''"
    by (auto simp: isspace_def is_digit_def digit_val_def)
  moreover have "scan_digits 10 (to_base 10 n @ cs) 0 = (int n, cs)" using assms(2) by (simp add: scan_to_base)
  ultimately show ?thesis using assms(1) by (simp add: atoi_def d Let_def s32_id)
qed

text \<open>
  C28 (roundtrip). \<open>parse_size\<close> reads a decimal number followed by one of its suffixes as the number
  times the suffix, and a bare number as a multiple of the unit of the option.
\<close>

theorem parse_size_reads_sizes:
  assumes "int n < 2147483648"
  shows "parse_size (to_base 10 n @ ''k'') mult = Some (1024 * int n)
    \<and> parse_size (to_base 10 n @ ''m'') mult = Some (1048576 * int n)
    \<and> parse_size (to_base 10 n @ ''g'') mult = Some (1073741824 * int n)
    \<and> parse_size (to_base 10 n @ ''b'') mult = Some (int n)
    \<and> parse_size (to_base 10 n) mult = Some (s64 (mult * int n))"
proof -
  have a: "atoi (to_base 10 n) = int n" using atoi_decimal[OF assms, of "[]"] by simp
  have ne: "to_base 10 n \<noteq> []" using to_base_Cons[of 10 n] by auto
  then have "is_digit 10 (last (to_base 10 n))"
    using to_base_digits[of 10 n] by (simp add: list_all_iff)
  then have l: "(of_char (last (to_base 10 n)) :: nat) \<in> {48..57}"
    by (auto simp: is_digit_def digit_val_def Let_def split: if_splits option.splits)
  then have "last (to_base 10 n) \<notin> {CHR ''g'', CHR ''G'', CHR ''m'', CHR ''M'', CHR ''k'', CHR ''K'', CHR ''b'', CHR ''B''}"
    by auto
  then have "parse_size (to_base 10 n) mult = Some (s64 (mult * int n))"
    using l a ne by (auto simp: parse_size_def Let_def)
  then show ?thesis using assms a by (simp add: parse_size_def s64_id)
qed

theorem parse_size_reads_sizes_witness: "parse_size (to_base 10 64 @ ''k'') 1 = Some 65536"
  using parse_size_reads_sizes[of 64 1] by simp

text \<open>
  The case of \<open>-C\<close> has no \<open>break\<close>: an offset between contexts also sets the number
  of requests per \<open>io_submit\<close>, to the bare number of the argument.
\<close>

theorem context_offset_sets_batch:
  assumes "int n < 2147483648"
  shows "aio_opt (CHR ''C'') (to_base 10 n @ ''m'') p
    = Inr (p\<lparr>m_config := (m_config p)\<lparr>context_offset := 1048576 * int n, max_io_submit := int n\<rparr>\<rparr>)"
proof -
  have "parse_size (to_base 10 n @ ''m'') (1024 * 1024) = Some (1048576 * int n)"
    using atoi_decimal[OF assms, of "[]"] assms by (simp add: parse_size_def s64_id)
  moreover have "atoi (to_base 10 n @ ''m'') = int n"
    by (rule atoi_decimal[OF assms]) (simp add: is_digit_def digit_val_def)
  ultimately show ?thesis by (simp add: aio_opt_def sized_def conf_def)
qed

theorem context_offset_sets_batch_witness:
  "aio_opt (CHR ''C'') (to_base 10 4 @ ''m'') (main_defaults 4096)
    = Inr (conf (\<lambda>c. c\<lparr>context_offset := 4194304, max_io_submit := 4\<rparr>) (main_defaults 4096))"
  using context_offset_sets_batch[of 4 "main_defaults 4096"] by (simp add: conf_def)

section \<open>Errors\<close>

text \<open>
  C25 (error). What the completion of a request leaves in the error field of its operation: the
  result of a read that got less than the file has there, and nothing else; a write that fails or
  is short leaves no error, so its operation is restarted as if all were written.
\<close>

theorem completion_errors:
  assumes "u < length (ios t)"
  shows "last_err (opers (finish_io c K u r data tv t) y) =
    (let io = ios t ! u; p = opers t (unit_oper io) in
     if y = unit_oper io \<and> r \<noteq> buf_size io \<and> (rw p = READ \<or> rw p = RREAD)
        \<and> aio_offset (iocb_of io) + r < snd (snd (a_stat K (fd p) (io_ctx t)))
     then s32 r else last_err (opers t y))"
proof -
  let ?io = "ios t ! u"
  let ?x = "unit_oper ?io"
  let ?p = "opers t ?x"
  define t1 where "t1 = t\<lparr>io_completion_latency := calc_latency (io_start_time ?io) tv (io_completion_latency t)\<rparr>"
  define t2 where "t2 = set_unit u (\<lambda>io. io\<lparr>buf := data, res := r, busy := False\<rparr>) t1"
  define t3 where "t3 = t2\<lparr>free_ious := u # free_ious t2\<rparr>"
  define t4 where "t4 = set_oper ?x (\<lambda>p. p\<lparr>num_pending := num_pending p - 1\<rparr>) t3"
  define s where "s = t4\<lparr>num_global_pending := num_global_pending t4 - 1\<rparr>"
  have s: "ios s ! u = ?io\<lparr>buf := data, res := r, busy := False\<rparr>" "io_ctx s = io_ctx t"
    "opers s y = (if y = ?x then ?p\<lparr>num_pending := num_pending ?p - 1\<rparr> else opers t y)" for y
    using assms by (simp_all add: s_def t4_def t3_def t2_def t1_def set_oper_def set_unit_def)
  have p: "opers (print_time K z w) y = opers w y" for z w y
    by (simp add: print_time_def now_def say_def Let_def split: prod.splits)
  have f: "finish_io c K u r data tv t = (let t6 = snd (check_finished_io c K u s); oper = opers t6 ?x
      in if num_pending oper = 0 \<and> (started_ios oper = total_ios oper \<or> stonewalled oper)
         then print_time K ?x t6 else t6)"
    unfolding finish_io_def Let_def s_def t4_def t3_def t2_def t1_def by (rule refl)
  have "opers (finish_io c K u r data tv t) y = opers (snd (check_finished_io c K u s)) y"
    unfolding f Let_def by (simp add: p)
  then show ?thesis using s by (auto simp: check_finished_io_def Let_def set_oper_def say_def)
qed

theorem completion_errors_witness:
  "last_err (opers (finish_io (m_config (main_defaults 4096))
      \<lparr>a_submit = (\<lambda>_ k. (0, k)), a_getevents = (\<lambda>_ _ k. (0, [], k)),
        a_now = (\<lambda>k. (\<lparr>tv_sec = 0, tv_usec = 0\<rparr>, k)), a_stat = (\<lambda>_ _. (0, True, 0)),
        a_rand = (\<lambda>k. (0, k)), a_fsync = (\<lambda>_ k. k), a_lock = Some, a_unlock = id, a_wait = (\<lambda>_. None),
        a_broadcast = id, a_counts = (\<lambda>k. ((0, 0), k)), a_set_counts = (\<lambda>_ k. k)\<rparr> 0 (-28) [] \<lparr>tv_sec = 0, tv_usec = 0\<rparr>
      ((empty_thread ())\<lparr>ios := [\<lparr>iocb_of = \<lparr>aio_fd = 3, aio_read = False, aio_len = 512,
         aio_offset = 0\<rparr>, unit_oper = 7, buf = [], buf_size = 512, busy = True, res = 0,
         io_start_time = \<lparr>tv_sec = 0, tv_usec = 0\<rparr>\<rparr>]\<rparr>)) 7) = 0"
  by (subst completion_errors) (simp_all add: empty_thread_def blank_oper_def Let_def)

section \<open>Buffers\<close>

lemma padded_reclen_bounds:
  assumes "page_size_mask c = p - 1" and "0 < p" and "0 < rec_len c" and "rec_len c + p \<le> 2147483648"
  shows "rec_len c \<le> padded_reclen c" and "padded_reclen c < 2147483648" and "p dvd padded_reclen c"
proof -
  let ?n = "rec_len c" and ?q = "(rec_len c + (p - 1)) div p"
  have r: "s32 ?n = ?n" using assms(2-4) by (intro s32_id) auto
  have q: "0 \<le> ?q" "?q * p \<le> ?n + (p - 1)" "?n + (p - 1) < (?q + 1) * p"
    using assms(2,3) round_down_le[OF assms(2), of "?n + (p - 1)"] round_down_gt[OF assms(2), of "?n + (p - 1)"]
    by (simp_all add: pos_imp_zdiv_nonneg_iff round_down_def minus_mod_eq_div_mult distrib_right)
  have ql: "?q \<le> ?q * p" using q(1) assms(2) mult_left_mono[of 1 p ?q] by simp
  have qb: "?q * p < 2147483648" using q(2) assms(4) by linarith
  have "padded_reclen c = ?q * p"
    using q(1) ql qb assms(1-4) by (simp add: padded_reclen_def Let_def r u64_id s32_id)
  then show "?n \<le> padded_reclen c" "padded_reclen c < 2147483648" "p dvd padded_reclen c"
    using q qb by (simp_all add: algebra_simps)
qed

lemma all_buffers_eq:
  "all_buffers c depth nfs a =
     (map (\<lambda>i. a + int i * padded_reclen c) [0..<depth * sum_list nfs],
      a + int (depth * sum_list nfs) * padded_reclen c)"
proof (induction nfs arbitrary: a)
  case (Cons nf nfs)
  have "map (\<lambda>i. a + int i * padded_reclen c) [0..<depth * nf + m]
      = map (\<lambda>i. a + int i * padded_reclen c) [0..<depth * nf]
        @ map (\<lambda>i. a + int (depth * nf) * padded_reclen c + int i * padded_reclen c) [0..<m]" for m
    by (induction m) (simp_all add: algebra_simps)
  from this[of "depth * sum_list nfs"] show ?case
    using Cons by (simp only: all_buffers.simps buffer_addresses_def prod.case sum_list.Cons distrib_left)
      (simp add: algebra_simps)
qed simp

lemma align_buffer_bounds:
  assumes p: "pow2 p" and m: "page_size_mask c = p - 1" and a: "0 \<le> a" "a + p \<le> 2 ^ 63" and l: "p < 2 ^ 63"
  shows "a \<le> align_buffer c a \<and> align_buffer c a \<le> a + (p - 1) \<and> p dvd align_buffer c a"
proof -
  have p0: "0 < p" by (rule pow2_pos[OF p])
  let ?x = "a + (p - 1)"
  have x: "0 \<le> ?x" "?x < 2 ^ 64" using a p0 by auto
  have "u64 (NOT (p - 1)) = take_bit 64 (NOT (p - 1))" by (simp add: u64_def take_bit_eq_mod)
  then have "align_buffer c a = take_bit 64 (?x AND NOT (p - 1))"
    using x by (simp add: align_buffer_def m take_bit_and take_bit_int_eq_self u64_id)
  also have "?x AND NOT (p - 1) = round_down ?x p" by (rule mask_down[OF p])
  also have "take_bit 64 (round_down ?x p) = round_down ?x p"
    using round_down_nonneg[OF p0 x(1)] round_down_le[OF p0, of ?x] x(2) by (simp add: take_bit_int_eq_self)
  finally show ?thesis
    using round_down_le[OF p0, of ?x] round_down_gt[OF p0, of ?x] round_down_dvd[of p ?x] by simp
qed

text \<open>
  C24 (bounds). The buffers of all threads, and the one for the pattern, lie inside the block that
  was allocated, do not overlap and are aligned, as long as the size of the block fits an \<open>int\<close>.
\<close>

theorem buffers_fit:
  assumes "pow2 p" and "page_size_mask c = p - 1" and "0 < rec_len c" and "rec_len c + p \<le> 2147483648"
    and "0 \<le> num_threads c" and "0 \<le> a" and "a + p \<le> 2 ^ 63"
    and "int (depth * sum_list nfs) * padded_reclen c + num_threads c < 2147483648"
    and "all_buffers c depth nfs (align_buffer c a) = (bs, pattern)"
  shows "length bs = depth * sum_list nfs
    \<and> (\<forall>i < length bs. a \<le> bs ! i \<and> p dvd bs ! i
          \<and> bs ! i + rec_len c \<le> (if Suc i < length bs then bs ! Suc i else pattern))
    \<and> pattern + (if verify c then rec_len c else 0)
        \<le> a + total_ram c (int (sum_list nfs)) (int depth) + page_size_mask c"
proof -
  let ?N = "depth * sum_list nfs" and ?P = "padded_reclen c" and ?A = "align_buffer c a"
  have p0: "0 < p" by (rule pow2_pos[OF assms(1)])
  note P = padded_reclen_bounds[OF assms(2) p0 assms(3,4)]
  have "p < 2 ^ 63" using assms(3,4) by simp
  note A = align_buffer_bounds[OF assms(1,2,6,7) this]
  have b: "bs = map (\<lambda>i. ?A + int i * ?P) [0..<?N]" "pattern = ?A + int ?N * ?P"
    using assms(9) by (simp_all add: all_buffers_eq)
  have NP: "0 \<le> int ?N * ?P" using P(1) assms(3) by simp
  have "int (sum_list nfs) * int depth * ?P = int ?N * ?P" by simp
  then have "s32 (int (sum_list nfs) * int depth * ?P + num_threads c) = int ?N * ?P + num_threads c"
    using assms(5,8) NP by (simp only:) (intro s32_id; linarith)
  then have ram: "total_ram c (int (sum_list nfs)) (int depth)
      = int ?N * ?P + num_threads c + (if verify c then ?P else 0)"
    using assms(3,5,8) NP P(1,2) by (simp add: total_ram_def Let_def u64_id)
  have "a \<le> bs ! i \<and> p dvd bs ! i \<and> bs ! i + rec_len c \<le> (if Suc i < length bs then bs ! Suc i else pattern)"
    if i: "i < length bs" for i
  proof -
    have e: "bs ! i = ?A + int i * ?P" using i b(1) by simp
    have "0 \<le> int i * ?P" using P(1) assms(3) by simp
    moreover have "(if Suc i < length bs then bs ! Suc i else pattern) = ?A + int (Suc i) * ?P"
      using i b by (cases "Suc i < length bs") (simp_all add: le_antisym not_less flip: of_nat_mult)
    ultimately show ?thesis using A P(1,3) e by (simp add: algebra_simps dvd_add)
  qed
  then show ?thesis using b A P(1) assms(2,5) ram by simp
qed

theorem buffers_fit_witness:
  "snd (all_buffers (m_config (main_defaults 4096)) 64 [1] (align_buffer (m_config (main_defaults 4096)) 100))
    \<le> 100 + total_ram (m_config (main_defaults 4096)) 1 64 + 4095"
proof -
  let ?c = "m_config (main_defaults 4096)"
  have p: "pow2 4096" unfolding pow2_def by (rule exI[of _ 12]) simp
  have pr: "padded_reclen ?c = 65536" by (simp add: padded_reclen_def main_defaults_def Let_def wrap_simps)
  obtain bs pat where b: "all_buffers ?c 64 [1] (align_buffer ?c 100) = (bs, pat)" by fastforce
  have "length bs = 64 * sum_list [1]
    \<and> (\<forall>i < length bs. 100 \<le> bs ! i \<and> 4096 dvd bs ! i
          \<and> bs ! i + rec_len ?c \<le> (if Suc i < length bs then bs ! Suc i else pat))
    \<and> pat + (if verify ?c then rec_len ?c else 0)
        \<le> 100 + total_ram ?c (int (sum_list [1])) (int 64) + page_size_mask ?c"
    by (rule buffers_fit[OF p _ _ _ _ _ _ _ b]) (simp_all add: pr, simp_all add: main_defaults_def)
  then show ?thesis using b by (simp add: main_defaults_def)
qed

text \<open>
  The size of the block is an \<open>int\<close>: with the default depth and record size, 1024
  files need four gigabytes of buffers and get a block of one byte.
\<close>

theorem buffer_size_wraps:
  "total_ram (m_config (main_defaults 4096)) 1024 (m_depth (main_defaults 4096)) = 1
   \<and> snd (all_buffers (m_config (main_defaults 4096)) 64 [1024] 0) = 4294967296"
  by (simp add: all_buffers_eq total_ram_def padded_reclen_def main_defaults_def Let_def wrap_simps)
    (simp add: s32_def u64_def)

section \<open>Ranges without requests\<close>

text \<open>
  Context number \<open>j\<close> of a file goes from \<open>j\<close> times the offset to the size less that: with enough
  contexts the range is empty, or less than that.
\<close>

lemma build_oper_nothing:
  assumes "started_ios (opers t x) = 0" and "total_ios (opers t x) \<le> 0"
  shows "\<exists>n t'. build_oper c K x num_ios built t = Inr ((n, built), t') \<and> n \<le> 0
    \<and> (total_ios (opers t x) < 0 \<longrightarrow> n < 0) \<and> (total_ios (opers t x) = 0 \<longrightarrow> 0 \<le> num_ios \<longrightarrow> n = 0)
    \<and> active_opers t' = active_opers t \<and> finished_opers t' = finished_opers t
    \<and> next_oper (opers t' x) = next_oper (opers t x) \<and> prev_oper (opers t' x) = prev_oper (opers t x)
    \<and> total_ios (opers t' x) = total_ios (opers t x) \<and> started_ios (opers t' x) = 0"
  using assms
  by (auto simp: build_oper_def Let_def now_def set_oper_def split: prod.splits)

lemma round_nothing:
  assumes "active_opers t = Some x" and "next_oper (opers t x) = x"
    and "started_ios (opers t x) = 0" and "total_ios (opers t x) < 0"
    and "\<forall>f k. 0 \<le> fst (a_stat K f k)"
  shows "\<exists>t'. run_active_list c K t = Inr ((), t') \<and> active_opers t' = Some x
    \<and> next_oper (opers t' x) = x \<and> started_ios (opers t' x) = 0 \<and> total_ios (opers t' x) < 0"
proof -
  have "oper_runnable K x t = Inr (True, t) \<or> oper_runnable K x t = Inr (False, t)"
    using assms(5)[rule_format, of "fd (opers t x)" "io_ctx t"]
    by (cases "a_stat K (fd (opers t x)) (io_ctx t)") (auto simp: oper_runnable_def Let_def)
  then obtain b where b: "oper_runnable K x t = Inr (b, t)" by blast
  obtain n t' where B: "build_oper c K x (io_iter c) [] t = Inr ((n, []), t')" "n < 0"
    "active_opers t' = Some x" "next_oper (opers t' x) = x" "total_ios (opers t' x) < 0"
    "started_ios (opers t' x) = 0"
    using build_oper_nothing[OF assms(3), of c K "io_iter c" "[]"] assms by auto
  have "build_active c K (io_iter c) (Some x) [] None t = Some (Inr (([], None), if b then t' else t))"
    using b B assms by (subst build_active.simps) (simp add: Let_def)
  then show ?thesis
    using assms B by (intro exI[of _ "if b then t' else t"]) (simp add: run_active_list_def or_hang_def)
qed

definition stuck :: "nat \<Rightarrow> 'k thread \<Rightarrow> bool" where
  "stuck x t \<longleftrightarrow> active_opers t = Some x \<and> next_oper (opers t x) = x
     \<and> started_ios (opers t x) = 0 \<and> total_ios (opers t x) < 0"

lemma unstopped_unseen: "unstopped c K \<Longrightarrow> \<exists>k. ending_seen c K t = (False, t\<lparr>io_ctx := k\<rparr>)"
proof (cases "stonewall c")
  case True
  obtain a e k where k: "a_counts K (io_ctx t) = ((a, e), k)" by (metis prod.exhaust)
  assume "unstopped c K"
  then have "e = 0" using True k by (auto simp: unstopped_def dest: spec[of _ "io_ctx t"])
  then show ?thesis using True k by (auto simp: ending_seen_def)
qed (auto simp: ending_seen_def intro: exI[of _ "io_ctx t"])

lemma send_loop_stuck:
  assumes "send_loop c K cnt t = Some y"
    and fv: "iterations c = RUN_FOREVER" and st: "\<forall>f k. 0 \<le> fst (a_stat K f k)" and un: "unstopped c K"
  shows "\<not> stuck x t"
  using assms(1)
proof (rule send_loop.raw_induct[rotated 1, of c K cnt t y
      "\<lambda>c' K' cnt t y. c' = c \<longrightarrow> K' = K \<longrightarrow> \<not> stuck x t", THEN mp, THEN mp, OF _ _ refl refl])
  fix f c' K' cnt t y
  assume IH: "\<And>c' K' cnt t y. f c' K' cnt t = Some y \<Longrightarrow> c' = c \<longrightarrow> K' = K \<longrightarrow> \<not> stuck x t"
    and eq: "(case active_opers t of
        None \<Rightarrow> Some (Inr (cnt, t))
      | Some x \<Rightarrow>
          if cnt < iterations c' \<or> iterations c' = RUN_FOREVER then
            (case ending_seen c' K' t of (ended, t0) \<Rightarrow>
             if ended then
               (let t1 = set_oper x (\<lambda>p. p\<lparr>stonewalled := True\<rparr>) t0 in
                case del_from x (active_opers t1) t1 of
                  Inl e \<Rightarrow> Some (Inl e)
                | Inr (al, t2) \<Rightarrow>
                    (case add_to x (finished_opers t2) t2 of (fl, t3) \<Rightarrow>
                       f c' K' (cnt + 1) (t3\<lparr>active_opers := al, finished_opers := fl\<rparr>)))
             else
               (case run_active_list c' K' t0 of
                  Inl e \<Rightarrow> Some (Inl e)
                | Inr (_, t1) \<Rightarrow> f c' K' (cnt + 1) t1))
          else Some (Inr (cnt, t))) = Some y"
  show "c' = c \<longrightarrow> K' = K \<longrightarrow> \<not> stuck x t"
  proof (intro impI notI)
    assume c: "c' = c" "K' = K" and s: "stuck x t"
    obtain t0 where t0: "ending_seen c K t = (False, t0)" "stuck x t0"
      using unstopped_unseen[OF un, of t] s by (auto simp: stuck_def)
    obtain t' where r: "run_active_list c K t0 = Inr ((), t')" "stuck x t'"
      using round_nothing[of t0 x K c] t0(2) st unfolding stuck_def by blast
    have "f c K (cnt + 1) t' = Some y"
      using eq s r(1) t0(1) fv unfolding c by (simp add: stuck_def)
    then show False using IH r(2) by blast
  qed
qed

text \<open>
  C21 (liveness). A thread with one active operation, whose range has a negative length, never gets past
  the stage while no other thread ends it, there is no limit on the iterations and the sizes of the files
  can be read: no request is built, the operation stays active, and the loop that sends does not
  end. \<open>main\<close> makes such an operation for the third context of a file of three times the offset.
\<close>

theorem negative_range_hangs:
  assumes "active_opers t = Some x" and "next_oper (opers t x) = x"
    and "started_ios (opers t x) = 0" and "total_ios (opers t x) < 0"
    and "\<forall>f k. 0 \<le> fst (a_stat K f k)" and "iterations c = RUN_FOREVER" and "unstopped c K"
  shows "send_loop c K cnt t = None"
  using send_loop_stuck[of c K cnt t _ x] assms
  by (cases "send_loop c K cnt t") (auto simp: stuck_def)

definition third_context :: "io_oper option" where
  "third_context = create_oper 3 WRITE (2 * 2097152) (6291456 - 2 * 2097152) 65536 ''f''"

theorem negative_range_hangs_witness:
  "\<exists>p. third_context = Some p \<and> send_loop (m_config (main_defaults 4096))
      \<lparr>a_submit = (\<lambda>_ k. (0, k)), a_getevents = (\<lambda>_ _ k. (0, [], k)),
        a_now = (\<lambda>k. (\<lparr>tv_sec = 0, tv_usec = 0\<rparr>, k)), a_stat = (\<lambda>_ _. (0, True, 0)),
        a_rand = (\<lambda>k. (0, k)), a_fsync = (\<lambda>_ k. k), a_lock = Some, a_unlock = id, a_wait = (\<lambda>_. None),
        a_broadcast = id, a_counts = (\<lambda>k. ((0, 0), k)), a_set_counts = (\<lambda>_ k. k)\<rparr>
      0 ((empty_thread ())\<lparr>opers := (\<lambda>_. p), active_opers := Some 0\<rparr>) = None"
  by (simp add: third_context_def create_oper_def c_div_def s32_def)
    (rule negative_range_hangs[where x = 0]; simp add: main_defaults_def unstopped_def)

end
