(* ===== verification/Aio_Barrier.thy ===== *)
theory Aio_Barrier
  imports Aio_Worker
begin

text \<open>
  How the threads of \<open>aio-stress\<close> meet before and after each stage: the counters
  \<open>threads_starting\<close> and \<open>threads_ending\<close> under \<open>stage_mutex\<close>, with \<open>stage_cond\<close> to wait for the
  last thread. A step is what one thread does while it holds the mutex; a waiting thread may look at
  its condition at any time, as POSIX allows. \<open>rounds\<close> counts the stages a thread has entered and
  is not in the code.
\<close>

datatype phase =
    Entering \<comment> \<open>at \<open>restart:\<close>, before the mutex\<close>
  | Starting \<comment> \<open>waits for \<open>threads_starting = num_threads\<close>\<close>
  | Running \<comment> \<open>in the stage\<close>
  | Ending \<comment> \<open>waits for \<open>threads_ending = num_threads\<close>\<close>
  | Deciding \<comment> \<open>before the test for a restart\<close>
  | Gone \<comment> \<open>past it\<close>

record barrier =
  threads_starting :: nat
  threads_ending :: nat
  phases :: "nat \<Rightarrow> phase"
  rounds :: "nat \<Rightarrow> nat"

definition in_phase :: "nat \<Rightarrow> phase \<Rightarrow> barrier \<Rightarrow> barrier" where
  "in_phase i p b = b\<lparr>phases := (phases b)(i := p)\<rparr>"

definition arrive_start :: "nat \<Rightarrow> nat \<Rightarrow> barrier \<Rightarrow> barrier" where
  "arrive_start n i b =
     (let b1 = b\<lparr>threads_starting := threads_starting b + 1, rounds := (rounds b)(i := rounds b i + 1)\<rparr>
      in if threads_starting b1 = n then in_phase i Running (b1\<lparr>threads_ending := 0\<rparr>)
         else in_phase i Starting b1)"

definition arrive_end :: "nat \<Rightarrow> nat \<Rightarrow> barrier \<Rightarrow> barrier" where
  "arrive_end n i b =
     (let b1 = b\<lparr>threads_ending := threads_ending b + 1\<rparr>
      in if threads_ending b1 = n then in_phase i Deciding (b1\<lparr>threads_starting := 0\<rparr>)
         else in_phase i Ending b1)"

inductive bstep :: "nat \<Rightarrow> barrier \<Rightarrow> barrier \<Rightarrow> bool" for n where
  start: "i < n \<Longrightarrow> phases b i = Entering \<Longrightarrow> bstep n b (arrive_start n i b)"
| wake_start: "i < n \<Longrightarrow> phases b i = Starting \<Longrightarrow> threads_starting b = n \<Longrightarrow>
    bstep n b (in_phase i Running b)"
| finish: "i < n \<Longrightarrow> phases b i = Running \<Longrightarrow> bstep n b (arrive_end n i b)"
| wake_end: "i < n \<Longrightarrow> phases b i = Ending \<Longrightarrow> threads_ending b = n \<Longrightarrow>
    bstep n b (in_phase i Deciding b)"
| again: "i < n \<Longrightarrow> phases b i = Deciding \<Longrightarrow> bstep n b (in_phase i Entering b)"
| leave: "i < n \<Longrightarrow> phases b i = Deciding \<Longrightarrow> bstep n b (in_phase i Gone b)"

definition begun :: barrier where
  "begun = \<lparr>threads_starting = 0, threads_ending = 0, phases = (\<lambda>_. Entering), rounds = (\<lambda>_. 0)\<rparr>"

abbreviation reaches :: "nat \<Rightarrow> barrier \<Rightarrow> barrier \<Rightarrow> bool" where
  "reaches n \<equiv> (bstep n)\<^sup>*\<^sup>*"

section \<open>Counting phases\<close>

definition number :: "nat \<Rightarrow> phase \<Rightarrow> (nat \<Rightarrow> phase) \<Rightarrow> nat" where
  "number n p f = card {i. i < n \<and> f i = p}"

lemma number_enter:
  assumes "i < n" and "f i \<noteq> p"
  shows "number n p (f(i := p)) = number n p f + 1"
proof -
  have "{j. j < n \<and> (f(i := p)) j = p} = insert i {j. j < n \<and> f j = p}" using assms by auto
  then show ?thesis using assms by (simp add: number_def)
qed

lemma number_leave:
  assumes "i < n" and "f i = p" and "q \<noteq> p"
  shows "number n p f = number n p (f(i := q)) + 1"
  using number_enter[of i n "f(i := q)" p] assms by (simp add: fun_upd_idem)

lemma number_other: "f i \<noteq> p \<Longrightarrow> q \<noteq> p \<Longrightarrow> number n p (f(i := q)) = number n p f"
  unfolding number_def by (rule arg_cong[of _ _ card]) auto

lemma number_le: "number n p f \<le> n"
proof -
  have "card {i. i < n \<and> f i = p} \<le> card {..<n}" by (rule card_mono) auto
  then show ?thesis by (simp add: number_def)
qed

text \<open>All threads but one are in a phase when their number says so.\<close>

lemma number_all_but:
  assumes "number n p f + 1 = n" and "i < n" and "f i \<noteq> p" and "j < n" and "j \<noteq> i"
  shows "f j = p"
proof (rule ccontr)
  assume "f j \<noteq> p"
  then have "{k. k < n \<and> f k = p} \<subseteq> {..<n} - {i, j}" using assms by auto
  then have "card {k. k < n \<and> f k = p} \<le> card ({..<n} - {i, j})" by (intro card_mono) auto
  also have "card ({..<n} - {i, j}) = n - 2" using assms by (simp add: card_Diff_subset)
  finally show False using assms by (simp add: number_def)
qed

section \<open>The invariant\<close>

text \<open>Between two stages (after \<open>r\<close> of them), and in stage \<open>r\<close>.\<close>

definition gathering :: "nat \<Rightarrow> nat \<Rightarrow> barrier \<Rightarrow> bool" where
  "gathering n r b \<longleftrightarrow> threads_starting b < n \<and> threads_starting b = number n Starting (phases b)
     \<and> (\<forall>i < n. phases b i \<noteq> Running \<and> (phases b i = Ending \<longrightarrow> threads_ending b = n)
          \<and> rounds b i = (if phases b i = Starting then r + 1 else r))"

definition in_stage :: "nat \<Rightarrow> nat \<Rightarrow> barrier \<Rightarrow> bool" where
  "in_stage n r b \<longleftrightarrow> threads_starting b = n \<and> threads_ending b < n
     \<and> threads_ending b = number n Ending (phases b)
     \<and> (\<forall>i < n. phases b i \<in> {Starting, Running, Ending} \<and> rounds b i = r)"

definition barrier_inv :: "nat \<Rightarrow> barrier \<Rightarrow> bool" where
  "barrier_inv n b \<longleftrightarrow> (\<exists>r. gathering n r b \<or> in_stage n r b)"

lemma arrive_start_inv:
  assumes "barrier_inv n b" and "i < n" and "phases b i = Entering"
  shows "barrier_inv n (arrive_start n i b)"
proof -
  obtain r where g: "gathering n r b"
    using assms by (auto simp: barrier_inv_def in_stage_def)
  have c: "number n Starting ((phases b)(i := Starting)) = threads_starting b + 1"
    using number_enter[of i n "phases b" Starting] g assms by (simp add: gathering_def)
  show ?thesis
  proof (cases "threads_starting b + 1 = n")
    case False
    then have "gathering n r (arrive_start n i b)"
      using g c assms by (auto simp: gathering_def arrive_start_def in_phase_def)
    then show ?thesis by (auto simp: barrier_inv_def)
  next
    case True
    then have o: "phases b j = Starting" if "j < n" "j \<noteq> i" for j
      using number_all_but[of n Starting "phases b" i j] g assms that by (simp add: gathering_def)
    have "{j. j < n \<and> ((phases b)(i := Running)) j = Ending} = {}" using o by auto
    then have "number n Ending ((phases b)(i := Running)) = 0" by (simp add: number_def)
    then have "in_stage n (r + 1) (arrive_start n i b)"
      using g True o assms by (auto simp: gathering_def in_stage_def arrive_start_def in_phase_def)
    then show ?thesis by (auto simp: barrier_inv_def)
  qed
qed

lemma arrive_end_inv:
  assumes "barrier_inv n b" and "i < n" and "phases b i = Running"
  shows "barrier_inv n (arrive_end n i b)"
proof -
  obtain r where s: "in_stage n r b"
    using assms by (auto simp: barrier_inv_def gathering_def)
  have c: "number n Ending ((phases b)(i := Ending)) = threads_ending b + 1"
    using number_enter[of i n "phases b" Ending] s assms by (simp add: in_stage_def)
  show ?thesis
  proof (cases "threads_ending b + 1 = n")
    case False
    then have "in_stage n r (arrive_end n i b)"
      using s c assms by (auto simp: in_stage_def arrive_end_def in_phase_def)
    then show ?thesis by (auto simp: barrier_inv_def)
  next
    case True
    then have o: "phases b j = Ending" if "j < n" "j \<noteq> i" for j
      using number_all_but[of n Ending "phases b" i j] s assms that by (simp add: in_stage_def)
    have "{j. j < n \<and> ((phases b)(i := Deciding)) j = Starting} = {}" using o by auto
    then have "number n Starting ((phases b)(i := Deciding)) = 0" by (simp add: number_def)
    then have "gathering n r (arrive_end n i b)"
      using s True o assms by (auto simp: gathering_def in_stage_def arrive_end_def in_phase_def)
    then show ?thesis by (auto simp: barrier_inv_def)
  qed
qed

lemma bstep_inv: "bstep n b b' \<Longrightarrow> barrier_inv n b \<Longrightarrow> barrier_inv n b'"
proof (induction rule: bstep.induct)
  case (start i b)
  then show ?case by (simp add: arrive_start_inv)
next
  case (finish i b)
  then show ?case by (simp add: arrive_end_inv)
next
  case (wake_start i b)
  then obtain r where "in_stage n r b" by (auto simp: barrier_inv_def gathering_def)
  then have "in_stage n r (in_phase i Running b)"
    using wake_start by (auto simp: in_stage_def in_phase_def number_other)
  then show ?case by (auto simp: barrier_inv_def)
next
  case (wake_end i b)
  then obtain r where "gathering n r b" by (auto simp: barrier_inv_def in_stage_def)
  then have "gathering n r (in_phase i Deciding b)"
    using wake_end by (auto simp: gathering_def in_phase_def number_other)
  then show ?case by (auto simp: barrier_inv_def)
next
  case (again i b)
  then obtain r where "gathering n r b" by (auto simp: barrier_inv_def in_stage_def)
  then have "gathering n r (in_phase i Entering b)"
    using again by (auto simp: gathering_def in_phase_def number_other)
  then show ?case by (auto simp: barrier_inv_def)
next
  case (leave i b)
  then obtain r where "gathering n r b" by (auto simp: barrier_inv_def in_stage_def)
  then have "gathering n r (in_phase i Gone b)"
    using leave by (auto simp: gathering_def in_phase_def number_other)
  then show ?case by (auto simp: barrier_inv_def)
qed

lemma reaches_inv: "reaches n b b' \<Longrightarrow> barrier_inv n b \<Longrightarrow> barrier_inv n b'"
  by (induction rule: rtranclp_induct) (auto intro: bstep_inv)

lemma begun_inv: "0 < n \<Longrightarrow> barrier_inv n begun"
  by (auto simp: barrier_inv_def gathering_def begun_def number_def)

section \<open>The properties\<close>

text \<open>
  C16 (safety). The threads run in step: while one is in a stage, every other has entered the same
  number of stages and is in this stage too, on its way in, or waiting at its end; and
  \<open>threads_ending\<close>, which tells the others to stop, is the number of threads that wait there.
\<close>

theorem stages_in_step:
  assumes "reaches n begun b" and "i < n" and "phases b i = Running" and "j < n"
  shows "rounds b j = rounds b i \<and> phases b j \<in> {Starting, Running, Ending}
    \<and> threads_ending b = card {k. k < n \<and> phases b k = Ending}"
proof -
  have "barrier_inv n b" using reaches_inv[OF assms(1)] begun_inv[of n] assms(2) by simp
  then show ?thesis using assms(2-4) by (auto simp: barrier_inv_def gathering_def in_stage_def number_def)
qed

lemma one_thread_runs: "reaches 1 begun (arrive_start 1 0 begun)"
  by (intro r_into_rtranclp bstep.start) (simp_all add: begun_def)

theorem stages_in_step_witness: "threads_ending (arrive_start 1 0 begun) = 0"
proof -
  have "phases (arrive_start 1 0 begun) 0 = Running" by (simp add: arrive_start_def in_phase_def begun_def)
  from stages_in_step[OF one_thread_runs _ this, of 0]
  have "threads_ending (arrive_start 1 0 begun) = card {k. k < 1 \<and> phases (arrive_start 1 0 begun) k = Ending}"
    by simp
  also have "{k. k < 1 \<and> phases (arrive_start 1 0 begun) k = Ending} = {}"
    by (auto simp: arrive_start_def in_phase_def begun_def)
  finally show ?thesis by simp
qed

lemma gone_stays: "bstep n b b' \<Longrightarrow> phases b i = Gone \<Longrightarrow> phases b' i = Gone"
  by (induction rule: bstep.induct) (auto simp: arrive_start_def arrive_end_def in_phase_def Let_def)

text \<open>
  C17 (error). A thread that has no stage left does not take part in the next meeting, but
  \<open>num_threads\<close> still counts it: from then on no thread ever runs a stage again, and one that waits
  at the start of the next stage waits for ever.
\<close>

theorem left_behind:
  assumes "reaches n begun b" and "i < n" and "phases b i = Gone" and "reaches n b b'" and "j < n"
  shows "phases b' j \<noteq> Running \<and> (phases b j = Starting \<longrightarrow> phases b' j = Starting)"
proof -
  have inv: "barrier_inv n b" using reaches_inv[OF assms(1)] begun_inv[of n] assms(2) by simp
  show ?thesis
    using assms(4)
  proof (induction rule: rtranclp_induct)
    case base
    then show ?case using inv assms(2,3,5) by (auto simp: barrier_inv_def gathering_def in_stage_def)
  next
    case (step c d)
    have "reaches n b d" using step(1,2) by (rule rtranclp.rtrancl_into_rtrancl)
    then have inv': "barrier_inv n c" "barrier_inv n d" using reaches_inv inv step(1) by blast+
    have "phases c i = Gone"
      using step(1) assms(3) by (induction rule: rtranclp_induct) (auto intro: gone_stays)
    then have g: "phases c i = Gone" "phases d i = Gone" using gone_stays[OF step(2)] by blast+
    obtain r where gc: "gathering n r c" using inv'(1) g(1) assms(2) by (auto simp: barrier_inv_def in_stage_def)
    have "phases d j \<noteq> Running"
      using inv'(2) g(2) assms(2,5) by (auto simp: barrier_inv_def gathering_def in_stage_def)
    moreover have "phases d j = Starting" if "phases c j = Starting"
      using step(2) that gc
      by (cases rule: bstep.cases) (auto simp: arrive_start_def arrive_end_def in_phase_def gathering_def Let_def)
    ultimately show ?case using step.IH by blast
  qed
qed

text \<open>Two threads; the first has a stage left, the second does not.\<close>

definition one_gone :: barrier where
  "one_gone = arrive_start 2 0 (in_phase 0 Entering (in_phase 1 Gone (in_phase 0 Deciding
     (arrive_end 2 1 (arrive_end 2 0 (in_phase 0 Running (arrive_start 2 1 (arrive_start 2 0 begun))))))))"

lemmas one_gone_simps = one_gone_def arrive_start_def arrive_end_def in_phase_def begun_def

lemma reach_by:
  "reaches n a b \<Longrightarrow> i < n \<Longrightarrow> phases b i = Entering \<Longrightarrow> reaches n a (arrive_start n i b)"
  "reaches n a b \<Longrightarrow> i < n \<Longrightarrow> phases b i = Starting \<Longrightarrow> threads_starting b = n \<Longrightarrow>
     reaches n a (in_phase i Running b)"
  "reaches n a b \<Longrightarrow> i < n \<Longrightarrow> phases b i = Running \<Longrightarrow> reaches n a (arrive_end n i b)"
  "reaches n a b \<Longrightarrow> i < n \<Longrightarrow> phases b i = Ending \<Longrightarrow> threads_ending b = n \<Longrightarrow>
     reaches n a (in_phase i Deciding b)"
  "reaches n a b \<Longrightarrow> i < n \<Longrightarrow> phases b i = Deciding \<Longrightarrow> reaches n a (in_phase i Entering b)"
  "reaches n a b \<Longrightarrow> i < n \<Longrightarrow> phases b i = Deciding \<Longrightarrow> reaches n a (in_phase i Gone b)"
  by (erule rtranclp.rtrancl_into_rtrancl, rule bstep.intros, assumption+)+

lemma one_gone_reached: "reaches 2 begun one_gone"
  unfolding one_gone_def
  by (rule reach_by(1),
      rule reach_by(5),
      rule reach_by(6),
      rule reach_by(4),
      rule reach_by(3),
      rule reach_by(3),
      rule reach_by(2),
      rule reach_by(1),
      rule reach_by(1),
      rule rtranclp.rtrancl_refl) (simp_all add: one_gone_simps)

theorem left_behind_witness: "phases one_gone 0 = Starting"
proof -
  have p: "phases one_gone 1 = Gone" "phases one_gone 0 = Starting" by (simp_all add: one_gone_simps)
  show ?thesis using left_behind[OF one_gone_reached _ p(1), of one_gone 0] p(2) by simp
qed

end
