(* ===== verification/Fss_Table.thy ===== *)
theory Fss_Table
  imports C_Text
begin

text \<open>
  What \<open>fsstress\<close> knows of the files it has made: five lists of entries, one for each type, with
  the number of a file, the number of its directory (-1 for the top) and a count of extended
  attributes; and \<open>dcache\<close>, which remembers the slot of a directory. The array behind a list is the
  list of the entries in use with the number of slots allocated; a read of a slot that is not in use
  is a fault.
\<close>

section \<open>The tables\<close>

datatype ftype = FT_DIR | FT_REG | FT_SYM | FT_DEV | FT_RTF

fun ft_index :: "ftype \<Rightarrow> nat" where
  "ft_index FT_DIR = 0"
| "ft_index FT_REG = 1"
| "ft_index FT_SYM = 2"
| "ft_index FT_DEV = 3"
| "ft_index FT_RTF = 4"

definition all_ftypes :: "ftype list" where
  "all_ftypes = [FT_DIR, FT_REG, FT_SYM, FT_DEV, FT_RTF]"

fun ft_tag :: "ftype \<Rightarrow> char" where
  "ft_tag FT_DIR = CHR ''d''"
| "ft_tag FT_REG = CHR ''f''"
| "ft_tag FT_SYM = CHR ''l''"
| "ft_tag FT_DEV = CHR ''c''"
| "ft_tag FT_RTF = CHR ''r''"

text \<open>A set of types is a mask.\<close>

definition in_mask :: "ftype \<Rightarrow> nat \<Rightarrow> bool" where
  "in_mask ft which \<longleftrightarrow> bit which (ft_index ft)"

definition FT_DIRm :: nat where "FT_DIRm = 1"
definition FT_REGm :: nat where "FT_REGm = 2"
definition FT_DEVm :: nat where "FT_DEVm = 8"
definition FT_ANYm :: nat where "FT_ANYm = 31"
definition FT_REGFILE :: nat where "FT_REGFILE = 18"
definition FT_NOTDIR :: nat where "FT_NOTDIR = 30"

record fent =
  fid :: int
  parent :: int
  xattr_counter :: int

record flist =
  fents :: "fent list"
  nslots :: nat

record 'k fss =
  flists :: "ftype \<Rightarrow> flist"
  dcache :: "int list"
  nameseq :: int
  namerand :: int
  ilist :: "int list"
  verbose :: bool
  rtpct :: int
  kern :: 'k

type_synonym ('k, 'a) fss_run = "(halt \<times> 'k fss) + ('a \<times> 'k fss)"

abbreviation (input) NDCACHE :: nat where "NDCACHE \<equiv> 64"
abbreviation (input) FLIST_SLOT_INCR :: nat where "FLIST_SLOT_INCR \<equiv> 16"

definition files :: "'k fss \<Rightarrow> ftype \<Rightarrow> fent list" where
  "files st ft = fents (flists st ft)"

definition set_files :: "ftype \<Rightarrow> (fent list \<Rightarrow> fent list) \<Rightarrow> 'k fss \<Rightarrow> 'k fss" where
  "set_files ft f st = st\<lparr>flists := (flists st)(ft := (flists st ft)\<lparr>fents := f (files st ft)\<rparr>)\<rparr>"

definition add_to_flist :: "ftype \<Rightarrow> int \<Rightarrow> int \<Rightarrow> int \<Rightarrow> 'k fss \<Rightarrow> 'k fss" where
  "add_to_flist ft i par xc st =
     (let ftp = flists st ft;
          ftp1 = (if length (fents ftp) = nslots ftp
                  then ftp\<lparr>nslots := nslots ftp + FLIST_SLOT_INCR\<rparr> else ftp);
          ftp2 = ftp1\<lparr>fents := fents ftp1 @ [\<lparr>fid = i, parent = par, xattr_counter = xc\<rparr>]\<rparr>
      in st\<lparr>flists := (flists st)(ft := ftp2)\<rparr>)"

definition cleanup_flist :: "'k fss \<Rightarrow> 'k fss" where
  "cleanup_flist st = st\<lparr>flists := (\<lambda>_. \<lparr>fents = [], nslots = 0\<rparr>)\<rparr>"

section \<open>The cache of directories\<close>

definition dcache_slot :: "int \<Rightarrow> nat" where
  "dcache_slot dirid = nat (dirid mod 64)"

definition dcache_enter :: "int \<Rightarrow> nat \<Rightarrow> 'k fss \<Rightarrow> 'k fss" where
  "dcache_enter dirid slot st = st\<lparr>dcache := (dcache st)[dcache_slot dirid := int slot]\<rparr>"

definition dcache_init :: "'k fss \<Rightarrow> 'k fss" where
  "dcache_init st = st\<lparr>dcache := replicate NDCACHE (-1)\<rparr>"

definition fent_at :: "ftype \<Rightarrow> nat \<Rightarrow> 'k fss \<Rightarrow> ('k, fent) fss_run" where
  "fent_at ft slot st =
     (if slot < length (files st ft) then Inr (files st ft ! slot, st) else Inl (Fault, st))"

definition dcache_lookup :: "int \<Rightarrow> 'k fss \<Rightarrow> ('k, nat option) fss_run" where
  "dcache_lookup dirid st =
     (let i = dcache st ! dcache_slot dirid in
      if 0 \<le> i then
        on_ok (fent_at FT_DIR (nat i) st) (\<lambda>(fep, _).
          Inr (if fid fep = dirid then Some (nat i) else None, st))
      else Inr (None, st))"

definition dcache_purge :: "int \<Rightarrow> 'k fss \<Rightarrow> ('k, unit) fss_run" where
  "dcache_purge dirid st =
     (let i = dcache st ! dcache_slot dirid in
      if 0 \<le> i then
        on_ok (fent_at FT_DIR (nat i) st) (\<lambda>(fep, _).
          Inr ((), if fid fep = dirid then st\<lparr>dcache := (dcache st)[dcache_slot dirid := -1]\<rparr> else st))
      else Inr ((), st))"

definition del_from_flist :: "ftype \<Rightarrow> nat \<Rightarrow> 'k fss \<Rightarrow> ('k, unit) fss_run" where
  "del_from_flist ft slot st =
     on_ok (fent_at ft slot st) (\<lambda>(fep, _).
     on_ok (if ft = FT_DIR then dcache_purge (fid fep) st else Inr ((), st)) (\<lambda>(_, st1).
       if slot \<noteq> length (files st1 ft) - 1 then
         on_ok (if ft = FT_DIR then dcache_purge (fid (last (files st1 ft))) st1 else Inr ((), st1)) (\<lambda>(_, st2).
           Inr ((), set_files ft (\<lambda>es. butlast (es[slot := last es])) st2))
       else Inr ((), set_files ft butlast st1)))"

text \<open>The slot of the first directory with a number.\<close>

fun find_slot :: "int \<Rightarrow> nat \<Rightarrow> fent list \<Rightarrow> nat option" where
  "find_slot dirid n [] = None"
| "find_slot dirid n (e # es) = (if fid e = dirid then Some n else find_slot dirid (n + 1) es)"

definition dirid_to_fent :: "int \<Rightarrow> 'k fss \<Rightarrow> ('k, nat option) fss_run" where
  "dirid_to_fent dirid st =
     on_ok (dcache_lookup dirid st) (\<lambda>(hit, _).
       case hit of
         Some i \<Rightarrow> Inr (Some i, st)
       | None \<Rightarrow>
           (case find_slot dirid 0 (files st FT_DIR) of
              None \<Rightarrow> Inr (None, st)
            | Some i \<Rightarrow> Inr (Some i, dcache_enter dirid i st)))"

definition fix_parent :: "int \<Rightarrow> int \<Rightarrow> bool \<Rightarrow> 'k fss \<Rightarrow> 'k fss" where
  "fix_parent oldid newid swap st =
     st\<lparr>flists := (\<lambda>ft. (flists st ft)\<lparr>fents := map (\<lambda>e.
        if parent e = oldid then e\<lparr>parent := newid\<rparr>
        else if swap \<and> parent e = newid then e\<lparr>parent := oldid\<rparr> else e) (files st ft)\<rparr>)\<rparr>"

section \<open>Names\<close>

abbreviation (input) NAME_MAX :: nat where "NAME_MAX \<equiv> 255"

definition buckets :: "int list" where
  "buckets = [2, 4, 8, 16, 32, 64, 128, 255]"

text \<open>How many \<open>X\<close> are appended to a name of \<open>i\<close> characters.\<close>

definition namerandpad :: "int \<Rightarrow> int \<Rightarrow> nat \<Rightarrow> nat" where
  "namerandpad nr i len =
     (if nr = 0 then 0
      else
        (let bucket = nat ((i XOR nr) mod 8);
             padmod = buckets ! bucket + 1 - int len
         in if padmod \<le> 0 then 0 else nat ((i XOR nr) mod padmod)))"

definition fent_name :: "int \<Rightarrow> ftype \<Rightarrow> int \<Rightarrow> string" where
  "fent_name nr ft i =
     (let buf = ft_tag ft # fmt_x i in buf @ replicate (namerandpad nr i (length buf)) (CHR ''X''))"

text \<open>
  The path of an entry, from the top. \<open>None\<close> as the result is the return value 0: a directory on
  the way is not in the table.
\<close>

partial_function (option) fent_path ::
  "ftype \<Rightarrow> fent \<Rightarrow> 'k fss \<Rightarrow> ('k, string option) fss_run option" where
  "fent_path ft fep st =
     (if parent fep \<noteq> -1 then
        (case dirid_to_fent (parent fep) st of
           Inl e \<Rightarrow> Some (Inl e)
         | Inr (slot, st1) \<Rightarrow>
             if slot = None then Some (Inr (None, st1))
             else
               Option.bind (fent_path FT_DIR (files st1 FT_DIR ! the slot) st1) (\<lambda>r.
                 Some (on_ok r (\<lambda>(up, st2).
                   Inr (map_option (\<lambda>p. p @ ''/'' @ fent_name (namerand st2) ft (fid fep)) up, st2)))))
      else Some (Inr (Some (fent_name (namerand st) ft (fid fep)), st)))"

definition fent_to_name :: "ftype \<Rightarrow> fent \<Rightarrow> 'k fss \<Rightarrow> ('k, string option) fss_run" where
  "fent_to_name ft fep st = (case fent_path ft fep st of None \<Rightarrow> Inl (Hang, st) | Some r \<Rightarrow> r)"

text \<open>Is the directory with number \<open>d\<close> above the entry?\<close>

partial_function (option) fents_ancestor_check :: "fent \<Rightarrow> int \<Rightarrow> 'k fss \<Rightarrow> ('k, bool) fss_run option" where
  "fents_ancestor_check fep d st =
     (if parent fep \<noteq> -1 then
        (if parent fep = d then Some (Inr (True, st))
         else
           (case dirid_to_fent (parent fep) st of
              Inl e \<Rightarrow> Some (Inl e)
            | Inr (slot, st1) \<Rightarrow>
                if slot = None then Some (Inl (Fault, st1))
                else fents_ancestor_check (files st1 FT_DIR ! the slot) d st1))
      else Some (Inr (False, st)))"

declare fent_path.simps [code] fents_ancestor_check.simps [code]

section \<open>Choosing files\<close>

definition listed :: "'k fss \<Rightarrow> int \<Rightarrow> bool" where
  "listed st i \<longleftrightarrow> verbose st \<or> i \<in> set (ilist st)"

text \<open>The entry number \<open>x\<close> of those of the chosen types.\<close>

fun pick_entry :: "'k fss \<Rightarrow> nat \<Rightarrow> ftype list \<Rightarrow> nat \<Rightarrow> (ftype \<times> nat) option" where
  "pick_entry st which [] x = None"
| "pick_entry st which (ft # fts) x =
     (if in_mask ft which then
        (if x < length (files st ft) then Some (ft, x)
         else pick_entry st which fts (x - length (files st ft)))
      else pick_entry st which fts x)"

definition totalsum :: "'k fss \<Rightarrow> nat \<Rightarrow> nat" where
  "totalsum st which =
     sum_list (map (\<lambda>ft. if in_mask ft which then length (files st ft) else 0) all_ftypes)"

text \<open>
  The result: the entry chosen, its path if one was asked for (\<open>None\<close> is the return value 0), and
  whether operations on it are reported.
\<close>

definition get_fname ::
  "nat \<Rightarrow> int \<Rightarrow> bool \<Rightarrow> 'k fss \<Rightarrow> ('k, (ftype \<times> nat) option \<times> string option \<times> bool) fss_run" where
  "get_fname which r want st =
     (let total = totalsum st which in
      if total = 0 then Inr ((None, None, verbose st), st)
      else
        (case pick_entry st which all_ftypes (nat (r mod int total)) of
           None \<Rightarrow> Inr ((None, None, verbose st), st)
         | Some (ft, slot) \<Rightarrow>
             let fep = files st ft ! slot in
             on_ok (if want then fent_to_name ft fep st else Inr (Some [], st)) (\<lambda>(name, st1).
               Inr ((Some (ft, slot), name, listed st (fid fep)), st1))))"

text \<open>A new name in a directory (or at the top): its path and number.\<close>

definition generate_fname ::
  "nat option \<Rightarrow> ftype \<Rightarrow> 'k fss \<Rightarrow> ('k, string option \<times> int \<times> bool) fss_run" where
  "generate_fname dir ft st =
     (let i = nameseq st;
          st1 = st\<lparr>nameseq := i + 1\<rparr>;
          buf = fent_name (namerand st) ft i
      in case dir of
           None \<Rightarrow> Inr ((Some buf, i, listed st i), st1)
         | Some slot \<Rightarrow>
             on_ok (fent_at FT_DIR slot st1) (\<lambda>(fep, _).
             on_ok (fent_to_name FT_DIR fep st1) (\<lambda>(up, st2).
               Inr ((map_option (\<lambda>p. p @ ''/'' @ buf) up, i, listed st i), st2))))"

end
