(* ===== verification/Fss_Forest.thy ===== *)
theory Fss_Forest
  imports Fss_Table "HOL-Library.Sublist"
begin

text \<open>
  The tables of \<open>fsstress\<close> as a forest: a map from the number of a file to its type and the number
  of its directory. \<open>walk M i xs\<close>: from the top one gets to \<open>i\<close> by the nodes \<open>xs\<close>. What adding,
  deleting, renaming and exchanging entries does to the set of these paths; and \<open>mirrors\<close>: a
  directory tree has the names on the paths, and no others.
\<close>

type_synonym forest = "int \<rightharpoonup> ftype \<times> int"
type_synonym node = "ftype \<times> int"

inductive walk :: "forest \<Rightarrow> int \<Rightarrow> node list \<Rightarrow> bool" for M where
  top: "M i = Some (ft, -1) \<Longrightarrow> walk M i [(ft, i)]"
| below: "M i = Some (ft, p) \<Longrightarrow> p \<noteq> -1 \<Longrightarrow> M p = Some (FT_DIR, pp) \<Longrightarrow> walk M p xs \<Longrightarrow>
    walk M i (xs @ [(ft, i)])"

inductive_cases walkE: "walk M i xs"

definition paths :: "forest \<Rightarrow> node list set" where
  "paths M = {xs. \<exists>i. walk M i xs}"

definition planted :: "forest \<Rightarrow> bool" where
  "planted M \<longleftrightarrow> -1 \<notin> dom M \<and> (\<forall>i \<in> dom M. \<exists>xs. walk M i xs)"

lemma walk_last: "walk M i xs \<Longrightarrow> xs \<noteq> [] \<and> (\<exists>p. M i = Some (fst (last xs), p)) \<and> snd (last xs) = i"
  by (induction rule: walk.induct) auto

lemma walk_unique: "walk M i xs \<Longrightarrow> walk M i ys \<Longrightarrow> ys = xs"
proof (induction arbitrary: ys rule: walk.induct)
  case (top i ft)
  from top.prems show ?case by (cases rule: walkE) (use top.hyps in auto)
next
  case (below i ft p pp xs)
  from below.prems show ?case
  proof (rule walkE)
    fix ft' p' pp' ys'
    assume y: "ys = ys' @ [(ft', i)]" "M i = Some (ft', p')" "walk M p' ys'"
    then have "walk M p ys'" "ft' = ft" using below.hyps(1) by simp_all
    then show "ys = xs @ [(ft, i)]" using below.IH[of ys'] y(1) by simp
  qed (use below.hyps in simp)
qed

lemma walk_head: "walk M i xs \<Longrightarrow> xs = us @ (ft, j) # vs \<Longrightarrow> walk M j (us @ [(ft, j)])"
proof (induction arbitrary: vs rule: walk.induct)
  case (top i ft')
  then show ?case by (cases us) (auto intro: walk.top)
next
  case (below i ft' p pp xs)
  show ?case
  proof (cases vs rule: rev_cases)
    case Nil
    then show ?thesis using below.prems below.hyps by (auto intro: walk.below)
  next
    case (snoc ws w)
    then show ?thesis using below.prems below.IH by simp
  qed
qed

lemma walk_node:
  assumes "walk M i xs" and "(ft, j) \<in> set xs"
  shows "\<exists>p. M j = Some (ft, p)"
proof -
  obtain us vs where "xs = us @ (ft, j) # vs" using split_list[OF assms(2)] by blast
  from walk_last[OF walk_head[OF assms(1) this]] show ?thesis by simp
qed

lemma walk_parent: "planted M \<Longrightarrow> M j = Some (ft, p) \<Longrightarrow> p \<noteq> -1 \<Longrightarrow> \<exists>pp. M p = Some (FT_DIR, pp)"
  unfolding planted_def by (auto elim: walkE dest!: bspec[of _ _ j])

lemma planted_path: "planted M \<Longrightarrow> M i = Some v \<Longrightarrow> \<exists>xs. walk M i xs"
  by (auto simp: planted_def)

lemma paths_eq: "xs \<in> paths M \<longleftrightarrow> (\<exists>i. walk M i xs)"
  by (simp add: paths_def)

section \<open>Adding and deleting\<close>

lemma walk_agree:
  assumes "walk M i xs" and "\<And>j. j \<in> snd ` set xs \<Longrightarrow> M' j = M j"
  shows "walk M' i xs"
  using assms
proof (induction rule: walk.induct)
  case (top i ft)
  then show ?case by (auto intro: walk.top)
next
  case (below i ft p pp xs)
  have "p \<in> snd ` set xs" using walk_last[OF below.hyps(4)] last_in_set by fastforce
  then show ?case using below by (intro walk.below[of _ _ _ p pp]) auto
qed

definition under :: "forest \<Rightarrow> int \<Rightarrow> node list \<Rightarrow> bool" where
  "under M par pp \<longleftrightarrow> (if par = -1 then pp = [] else (\<exists>q. M par = Some (FT_DIR, q)) \<and> walk M par pp)"

lemma under_walk: "under M par pp \<Longrightarrow> M i = Some (ft, par) \<Longrightarrow> walk M i (pp @ [(ft, i)])"
  by (auto simp: under_def intro: walk.intros split: if_splits)

lemma paths_add:
  assumes M: "planted M" and i: "M i = None" "i \<noteq> -1" and par: "under M par pp"
  shows "planted (M(i \<mapsto> (ft, par)))" and "paths (M(i \<mapsto> (ft, par))) = insert (pp @ [(ft, i)]) (paths M)"
proof -
  let ?M = "M(i \<mapsto> (ft, par))"
  have up: "walk ?M j xs" if "walk M j xs" for j xs
    using that by (rule walk_agree) (use walk_node[OF that] i(1) in fastforce)
  have "under ?M par pp" using par up i by (auto simp: under_def split: if_splits)
  then have new: "walk ?M i (pp @ [(ft, i)])" by (rule under_walk) simp
  show "planted ?M"
    unfolding planted_def
  proof (intro conjI ballI)
    show "-1 \<notin> dom ?M" using M i(2) by (auto simp: planted_def)
    fix j assume "j \<in> dom ?M"
    then have "j = i \<or> j \<in> dom M" by auto
    then show "\<exists>xs. walk ?M j xs" using new up M unfolding planted_def by blast
  qed
  have down: "xs \<in> insert (pp @ [(ft, i)]) (paths M)" if w: "walk ?M j xs" for j xs
  proof (cases "j = i")
    case True
    then show ?thesis using walk_unique[OF new] w by auto
  next
    case False
    then obtain v where "M j = Some v" using walk_last[OF w] by (auto split: if_splits)
    then obtain ys where "walk M j ys" using planted_path[OF M] by blast
    then show ?thesis using walk_unique[OF w] up by (auto simp: paths_def)
  qed
  show "paths ?M = insert (pp @ [(ft, i)]) (paths M)"
  proof (intro equalityI subsetI)
    fix xs assume "xs \<in> paths ?M"
    then show "xs \<in> insert (pp @ [(ft, i)]) (paths M)" using down paths_eq by metis
  next
    fix xs assume "xs \<in> insert (pp @ [(ft, i)]) (paths M)"
    then show "xs \<in> paths ?M" using up new paths_eq by (metis insert_iff)
  qed
qed

lemma paths_delete:
  assumes M: "planted M" and leaf: "\<And>j ft. M j \<noteq> Some (ft, i)" and x: "walk M i x"
  shows "planted (M(i := None))" and "paths (M(i := None)) = paths M - {x}"
proof -
  let ?M = "M(i := None)"
  have keep: "walk ?M j xs" if "walk M j xs" "j \<noteq> i" for j xs
    using that
  proof (induction rule: walk.induct)
    case (top j ft)
    then show ?case by (auto intro: walk.top)
  next
    case (below j ft p pp xs)
    then show ?case using leaf by (intro walk.below[of _ _ _ p pp]) auto
  qed
  show "planted ?M"
    unfolding planted_def
  proof (intro conjI ballI)
    show "-1 \<notin> dom ?M" using M by (auto simp: planted_def)
    fix j assume "j \<in> dom ?M"
    then have "j \<noteq> i" "j \<in> dom M" by (auto split: if_splits)
    then show "\<exists>xs. walk ?M j xs" using keep M unfolding planted_def by blast
  qed
  have "walk M j xs \<and> j \<noteq> i" if w: "walk ?M j xs" for j xs
  proof -
    have j: "j \<noteq> i" using walk_last[OF w] by auto
    then obtain v where "M j = Some v" using walk_last[OF w] by auto
    then obtain ys where "walk M j ys" using planted_path[OF M] by blast
    then show ?thesis using walk_unique[OF w keep] j by blast
  qed
  moreover have "xs \<noteq> x" if "walk M j xs" "j \<noteq> i" for j xs
    using walk_last[OF that(1)] walk_last[OF x] that(2) by auto
  moreover have "j \<noteq> i" if "walk M j xs" "xs \<noteq> x" for j xs
    using walk_unique[OF x] that by blast
  ultimately show "paths ?M = paths M - {x}" using keep unfolding paths_def by blast
qed

section \<open>Renaming\<close>

definition reparent :: "int \<Rightarrow> int \<Rightarrow> bool \<Rightarrow> forest \<Rightarrow> forest" where
  "reparent old new swap M =
     (\<lambda>i. map_option (\<lambda>(ft, p). (ft, if p = old then new else if swap \<and> p = new then old else p)) (M i))"

definition moved :: "'a list \<Rightarrow> 'a list \<Rightarrow> 'a list \<Rightarrow> 'a list" where
  "moved p q xs = (if prefix p xs then q @ drop (length p) xs else xs)"

lemma moved_snoc: "p \<noteq> xs @ [x] \<Longrightarrow> moved p q (xs @ [x]) = moved p q xs @ [x]"
  using prefix_length_le[of p xs] by (auto simp: moved_def)

lemma paths_move:
  assumes M: "planted M" and old: "M old = Some (ft, op)" "walk M old p"
    and new: "M new = None" "new \<noteq> -1" and par: "under M par pp" and out: "old \<notin> snd ` set pp"
  defines "M' \<equiv> ((reparent old new False M)(old := None))(new \<mapsto> (ft, par))"
  shows "planted M'" and "paths M' = moved p (pp @ [(ft, new)]) ` paths M"
proof -
  let ?q = "pp @ [(ft, new)]"
  have o: "old \<noteq> -1" "new \<noteq> old" using M old new by (auto simp: planted_def)
  have pl: "snd (last p) = old" "p \<noteq> []" using walk_last[OF old(2)] by auto
  have same: "M' j = M j" if "M j = Some (g, d)" "j \<noteq> old" "d \<noteq> old" for j g d
    using that new(1) by (auto simp: M'_def reparent_def)
  have child: "M' j = Some (g, new)" if "M j = Some (g, old)" "j \<noteq> old" for j g
    using that new(1) by (auto simp: M'_def reparent_def)
  have kind: "\<exists>e. M' j = Some (g, e)" if "M j = Some (g, d)" "j \<noteq> old" for j g d
    using that new(1) by (cases "j = new") (auto simp: M'_def reparent_def)
  have avoid: "walk M' j xs" if "walk M j xs" "old \<notin> snd ` set xs" for j xs
    using that
  proof (induction rule: walk.induct)
    case (top j g)
    then have "M' j = Some (g, -1)" using same[of j g "-1"] o by auto
    then show ?case by (rule walk.top)
  next
    case (below j g d dd xs)
    have d: "d \<noteq> old" using walk_last[OF below.hyps(4)] below.prems last_in_set[of xs] by (auto simp: image_iff)
    have "M' j = Some (g, d)" using below.hyps(1) below.prems d same[of j g d] by auto
    moreover obtain dd' where "M' d = Some (FT_DIR, dd')" using kind[OF below.hyps(3) d] by blast
    moreover have "walk M' d xs" using below by auto
    ultimately show ?case using below.hyps(2) by (intro walk.below)
  qed
  have "under M' par pp"
  proof (cases "par = -1")
    case False
    then obtain d where d: "M par = Some (FT_DIR, d)" and w: "walk M par pp" using par by (auto simp: under_def)
    have "par \<noteq> old" using walk_last[OF w] out last_in_set[of pp] by (auto simp: image_iff)
    then have "\<exists>q. M' par = Some (FT_DIR, q)" using kind[OF d] by blast
    then show ?thesis using False avoid[OF w out] by (simp add: under_def)
  qed (use par in \<open>simp add: under_def\<close>)
  then have q: "walk M' new ?q" by (rule under_walk) (simp add: M'_def)
  have tr: "walk M' j (moved p ?q xs)" if "walk M j xs" "j \<noteq> old" for j xs
    using that
  proof (induction rule: walk.induct)
    case (top j g)
    have "\<not> prefix p [(g, j)]" using pl top by (cases p) auto
    moreover have "M' j = Some (g, -1)" using same[of j g "-1"] top o by auto
    ultimately show ?case by (auto simp: moved_def intro: walk.top)
  next
    case (below j g d dd xs)
    have np: "p \<noteq> xs @ [(g, j)]" using pl below.prems by auto
    show ?case
    proof (cases "d = old")
      case True
      then have xs: "xs = p" using walk_unique[OF old(2)] below.hyps(4) by blast
      have dir: "ft = FT_DIR" using old(1) below.hyps(3) True by simp
      have "M' j = Some (g, new)" using child[of j g] below.hyps(1) below.prems True by simp
      moreover have "M' new = Some (FT_DIR, par)" by (simp add: M'_def dir)
      ultimately have "walk M' j (?q @ [(g, j)])" using q new(2) by (intro walk.below)
      then show ?thesis by (simp add: xs moved_def)
    next
      case False
      have "M' j = Some (g, d)" using same[of j g d] below.hyps(1) below.prems False by auto
      moreover obtain dd' where "M' d = Some (FT_DIR, dd')" using kind[OF below.hyps(3) False] by blast
      ultimately show ?thesis
        unfolding moved_snoc[OF np] using below.IH[OF False] below.hyps(2) by (intro walk.below)
    qed
  qed
  have mp: "moved p ?q p = ?q" by (simp add: moved_def)
  show P: "planted M'"
    unfolding planted_def
  proof (intro conjI ballI)
    show "-1 \<notin> dom M'" using M new(2) by (auto simp: planted_def M'_def reparent_def)
    fix j assume j: "j \<in> dom M'"
    show "\<exists>xs. walk M' j xs"
    proof (cases "j = new")
      case False
      then have "j \<noteq> old" "j \<in> dom M" using j o by (auto simp: M'_def reparent_def split: if_splits)
      then show ?thesis using M tr unfolding planted_def by blast
    qed (use q in blast)
  qed
  show "paths M' = moved p ?q ` paths M"
  proof (intro equalityI subsetI)
    fix xs assume "xs \<in> paths M'"
    then obtain j where w: "walk M' j xs" by (auto simp: paths_def)
    show "xs \<in> moved p ?q ` paths M"
    proof (cases "j = new")
      case True
      then have "xs = moved p ?q p" using walk_unique[OF q] w mp by auto
      then show ?thesis using old(2) by (auto simp: paths_def)
    next
      case False
      then have "j \<noteq> old" "j \<in> dom M"
        using walk_last[OF w] o by (auto simp: M'_def reparent_def split: if_splits)
      then obtain ys where "walk M j ys" using M unfolding planted_def by blast
      then show ?thesis using walk_unique[OF tr w] \<open>j \<noteq> old\<close> by (auto simp: paths_def)
    qed
  next
    fix xs assume "xs \<in> moved p ?q ` paths M"
    then obtain ys j where y: "walk M j ys" "xs = moved p ?q ys" by (auto simp: paths_def)
    show "xs \<in> paths M'"
    proof (cases "j = old")
      case True
      then have "xs = ?q" using walk_unique[OF old(2)] y mp by auto
      then show ?thesis using q by (auto simp: paths_def)
    qed (use tr y in \<open>auto simp: paths_def\<close>)
  qed
qed

section \<open>Exchanging directories\<close>

definition swapped :: "'a list \<Rightarrow> 'a list \<Rightarrow> 'a list \<Rightarrow> 'a list" where
  "swapped p q xs =
     (if strict_prefix p xs then q @ drop (length p) xs
      else if strict_prefix q xs then p @ drop (length q) xs else xs)"

lemma paths_swap:
  assumes M: "planted M" and a: "M a = Some (FT_DIR, ap)" "walk M a p" and b: "M b = Some (FT_DIR, bp)" "walk M b q"
    and ne: "a \<noteq> b" and out: "a \<notin> snd ` set q" "b \<notin> snd ` set p"
  defines "M' \<equiv> reparent a b True M"
  shows "planted M'" and "paths M' = swapped p q ` paths M"
proof -
  have o: "a \<noteq> -1" "b \<noteq> -1" using M a b by (auto simp: planted_def)
  have same: "M' j = Some (g, d)" if "M j = Some (g, d)" "d \<noteq> a" "d \<noteq> b" for j g d
    using that by (auto simp: M'_def reparent_def)
  have kind: "\<exists>d'. M' j = Some (g, d')" if "M j = Some (g, d)" for j g d
    using that by (auto simp: M'_def reparent_def)
  have dm: "dom M' = dom M" by (auto simp: M'_def reparent_def)
  have avoid: "walk M' j xs" if "walk M j xs" "a \<notin> snd ` set (butlast xs)" "b \<notin> snd ` set (butlast xs)" for j xs
    using that
  proof (induction rule: walk.induct)
    case (top j g)
    then show ?case using same[of j g "-1"] o by (auto intro: walk.top)
  next
    case (below j g d dd xs)
    have d: "d \<in> snd ` set xs" using walk_last[OF below.hyps(4)] last_in_set[of xs] by (auto simp: image_iff)
    then have "d \<noteq> a" "d \<noteq> b" using below.prems by auto
    moreover have "set (butlast xs) \<subseteq> set xs" by (auto dest: in_set_butlastD)
    ultimately have "walk M' d xs" "M' j = Some (g, d)" "\<exists>dd'. M' d = Some (FT_DIR, dd')"
      using below same[of j g d] kind[of d FT_DIR dd] by auto
    then show ?case using below.hyps(2) by (auto intro: walk.below)
  qed
  have alone: "k \<notin> snd ` set (butlast xs)" if w: "walk M k xs" for k xs
  proof
    assume "k \<in> snd ` set (butlast xs)"
    then obtain g where g: "(g, k) \<in> set (butlast xs)" by auto
    then obtain us vs where uv: "butlast xs = us @ (g, k) # vs" by (auto dest: split_list)
    have "xs \<noteq> []" using walk_last[OF w] by simp
    then have "xs = us @ (g, k) # (vs @ [last xs])" using uv append_butlast_last_id[of xs] by simp
    from walk_unique[OF w walk_head[OF w this]] have "us @ [(g, k)] = xs" .
    from arg_cong[OF this, of length] have "length xs = length us + 1" by simp
    moreover have "length xs = length us + length vs + 2"
      using arg_cong[OF uv, of length] \<open>xs \<noteq> []\<close> by simp
    ultimately show False by simp
  qed
  have sub: "set (butlast xs) \<subseteq> set xs" for xs :: "node list" by (auto dest: in_set_butlastD)
  have wa: "walk M' a p" using a(2) by (rule avoid) (use alone[OF a(2)] out sub[of p] in auto)
  have wb: "walk M' b q" using b(2) by (rule avoid) (use alone[OF b(2)] out sub[of q] in auto)
  have ends: "snd (last p) = a" "snd (last q) = b" "p \<noteq> []" "q \<noteq> []"
    using walk_last[OF a(2)] walk_last[OF b(2)] by auto
  have snoc: "swapped p q (xs @ [x]) = swapped p q xs @ [x]" if "xs \<noteq> p" "xs \<noteq> q" for xs x
    using that prefix_length_le[of p xs] prefix_length_le[of q xs]
    by (auto simp: swapped_def strict_prefix_def)
  have tr: "walk M' j (swapped p q xs)" if "walk M j xs" for j xs
    using that
  proof (induction rule: walk.induct)
    case (top j g)
    have "\<not> strict_prefix p [(g, j)]" "\<not> strict_prefix q [(g, j)]"
      using ends by (auto simp: strict_prefix_def prefix_Cons)
    then show ?case using top same[of j g "-1"] o by (auto simp: swapped_def intro: walk.top)
  next
    case (below j g d dd xs)
    consider "d = a" | "d = b" | "d \<noteq> a" "d \<noteq> b" by blast
    then show ?case
    proof cases
      case 1
      then have xs: "xs = p" using walk_unique[OF a(2)] below.hyps(4) by blast
      have "M' j = Some (g, b)" using below.hyps(1) 1 by (simp add: M'_def reparent_def)
      then have "walk M' j (q @ [(g, j)])" using wb kind[OF b(1)] o by (auto intro: walk.below)
      then show ?thesis by (simp add: xs swapped_def strict_prefix_def)
    next
      case 2
      then have xs: "xs = q" using walk_unique[OF b(2)] below.hyps(4) by blast
      have "M' j = Some (g, a)" using below.hyps(1) 2 ne by (auto simp: M'_def reparent_def)
      then have w: "walk M' j (p @ [(g, j)])" using wa kind[OF a(1)] o by (auto intro: walk.below)
      have "\<not> strict_prefix p (q @ [(g, j)])"
      proof
        assume "strict_prefix p (q @ [(g, j)])"
        then have "set p \<subseteq> set q" by (auto simp: strict_prefix_def dest: set_mono_prefix)
        then have "last p \<in> set q" using last_in_set[OF ends(3)] by blast
        then show False using ends(1) out(1) by blast
      qed
      moreover have "strict_prefix q (q @ [(g, j)])" by (simp add: strict_prefix_def)
      ultimately have "swapped p q (q @ [(g, j)]) = p @ [(g, j)]" by (simp add: swapped_def)
      then show ?thesis using w by (simp add: xs)
    next
      case 3
      then have "xs \<noteq> p" "xs \<noteq> q" using walk_last[OF below.hyps(4)] ends by auto
      moreover have "M' j = Some (g, d)" using same below.hyps(1) 3 by blast
      ultimately show ?thesis using below.IH below.hyps(2) kind[OF below.hyps(3)] snoc by (auto intro: walk.below)
    qed
  qed
  show "planted M'"
    using M tr unfolding planted_def dm by blast
  show "paths M' = swapped p q ` paths M"
  proof (intro equalityI subsetI)
    fix xs assume "xs \<in> paths M'"
    then obtain j where w: "walk M' j xs" by (auto simp: paths_def)
    then have "j \<in> dom M" using walk_last[OF w] dm by auto
    then obtain ys where "walk M j ys" using M unfolding planted_def by blast
    then show "xs \<in> swapped p q ` paths M" using walk_unique[OF tr w] by (auto simp: paths_def)
  qed (use tr in \<open>auto simp: paths_def\<close>)
qed

end
