(* ===== verification/Fss_Table_Ok.thy ===== *)
theory Fss_Table_Ok
  imports Fss_Forest "HOL-Library.Multiset"
begin

text \<open>
  The tables of \<open>fsstress\<close> are a forest (\<open>tab\<close>) with every number once, and the cache of directories
  never changes what a lookup finds (\<open>dcache_ok\<close>). Names of different files differ.
\<close>

section \<open>The forest of a table\<close>

definition uniq :: "'k fss \<Rightarrow> bool" where
  "uniq st \<longleftrightarrow> (\<forall>ft. distinct (map fid (files st ft)))
     \<and> (\<forall>ft g. ft \<noteq> g \<longrightarrow> fid ` set (files st ft) \<inter> fid ` set (files st g) = {})"

definition in_table :: "'k fss \<Rightarrow> int \<Rightarrow> ftype \<Rightarrow> int \<Rightarrow> bool" where
  "in_table st i ft p \<longleftrightarrow> (\<exists>e \<in> set (files st ft). fid e = i \<and> parent e = p)"

fun tab_in :: "'k fss \<Rightarrow> ftype list \<Rightarrow> forest" where
  "tab_in st [] i = None"
| "tab_in st (ft # fts) i =
     (case find (\<lambda>e. fid e = i) (files st ft) of
        Some e \<Rightarrow> Some (ft, parent e) | None \<Rightarrow> tab_in st fts i)"

definition tab :: "'k fss \<Rightarrow> forest" where
  "tab st = tab_in st all_ftypes"

lemma set_all_ftypes: "set all_ftypes = UNIV"
proof -
  have "ft \<in> set all_ftypes" for ft by (cases ft) (simp_all add: all_ftypes_def)
  then show ?thesis by blast
qed

lemma find_fid: "find (\<lambda>e. fid e = i) es = Some e \<Longrightarrow> e \<in> set es \<and> fid e = i"
  by (auto simp: find_Some_iff)

lemma uniq_type:
  assumes "uniq st" and "d \<in> set (files st ft)" and "e \<in> set (files st g)" and "fid d = fid e"
  shows "ft = g"
proof (rule ccontr)
  assume "ft \<noteq> g"
  then have "fid ` set (files st ft) \<inter> fid ` set (files st g) = {}" using assms(1) by (simp add: uniq_def)
  moreover have "fid d \<in> fid ` set (files st ft)" "fid d \<in> fid ` set (files st g)"
    using assms(2-4) by (metis imageI)+
  ultimately show False by blast
qed

lemma tab_in_Some:
  assumes "uniq st"
  shows "tab_in st fts i = Some (ft, p) \<longleftrightarrow> ft \<in> set fts \<and> in_table st i ft p"
proof (induction fts)
  case (Cons g fts)
  show ?case
  proof (cases "find (\<lambda>e. fid e = i) (files st g)")
    case None
    then have "\<not> in_table st i g q" for q by (auto simp: find_None_iff in_table_def)
    then show ?thesis using None Cons by auto
  next
    case (Some e)
    then have e: "e \<in> set (files st g)" "fid e = i" by (auto dest: find_fid)
    have "in_table st i ft p \<longleftrightarrow> ft = g \<and> p = parent e"
    proof
      assume "in_table st i ft p"
      then obtain d where d: "d \<in> set (files st ft)" "fid d = i" "parent d = p" by (auto simp: in_table_def)
      have "ft = g" using uniq_type[OF assms d(1) e(1)] d(2) e(2) by simp
      moreover have "inj_on fid (set (files st g))" using assms by (simp add: uniq_def distinct_map)
      ultimately have "d = e" using d e by (auto dest: inj_onD)
      then show "ft = g \<and> p = parent e" using d \<open>ft = g\<close> by simp
    qed (use e in \<open>auto simp: in_table_def\<close>)
    then show ?thesis using Some by auto
  qed
qed simp

lemma tab_Some: "uniq st \<Longrightarrow> tab st i = Some (ft, p) \<longleftrightarrow> in_table st i ft p"
  by (simp add: tab_def tab_in_Some set_all_ftypes)

lemma tab_eqI:
  assumes "uniq st" and "\<And>i ft p. in_table st i ft p \<longleftrightarrow> M i = Some (ft, p)"
  shows "tab st = M"
proof
  fix i show "tab st i = M i"
    using tab_Some[OF assms(1), of i] assms(2)[of i] by (cases "tab st i"; cases "M i") auto
qed

lemma tab_None: "uniq st \<Longrightarrow> tab st i = None \<longleftrightarrow> (\<forall>ft. i \<notin> fid ` set (files st ft))"
proof -
  assume u: "uniq st"
  have "tab st i \<noteq> None \<longleftrightarrow> (\<exists>ft p. in_table st i ft p)"
    using tab_Some[OF u, of i] by (metis not_None_eq surj_pair)
  moreover have "(\<exists>ft p. in_table st i ft p) \<longleftrightarrow> (\<exists>ft. i \<in> fid ` set (files st ft))"
    unfolding in_table_def image_iff by metis
  ultimately show "tab st i = None \<longleftrightarrow> (\<forall>ft. i \<notin> fid ` set (files st ft))" by blast
qed

section \<open>The operations on the lists\<close>

lemma files_add:
  "files (add_to_flist ft i par xc st) g
     = (if g = ft then files st ft @ [\<lparr>fid = i, parent = par, xattr_counter = xc\<rparr>] else files st g)"
  by (simp add: add_to_flist_def files_def Let_def)

lemma files_set: "files (set_files ft f st) g = (if g = ft then f (files st ft) else files st g)"
  by (simp add: set_files_def files_def)

lemma files_fix:
  "files (fix_parent a b sw st) g = map (\<lambda>e. if parent e = a then e\<lparr>parent := b\<rparr>
     else if sw \<and> parent e = b then e\<lparr>parent := a\<rparr> else e) (files st g)"
  by (simp add: fix_parent_def files_def)

lemma uniq_add: "uniq st \<Longrightarrow> tab st i = None \<Longrightarrow> uniq (add_to_flist ft i par xc st)"
  unfolding uniq_def by (auto simp: files_add tab_None[unfolded uniq_def])

lemma tab_add:
  assumes "uniq st" and "tab st i = None"
  shows "tab (add_to_flist ft i par xc st) = (tab st)(i \<mapsto> (ft, par))"
proof (rule tab_eqI)
  show "uniq (add_to_flist ft i par xc st)" by (rule uniq_add[OF assms])
  fix j g p
  have "\<not> in_table st i g p" using assms(2) tab_Some[OF assms(1), of i g p] by simp
  then show "in_table (add_to_flist ft i par xc st) j g p \<longleftrightarrow> ((tab st)(i \<mapsto> (ft, par))) j = Some (g, p)"
    using tab_Some[OF assms(1), of j g p] by (auto simp: in_table_def files_add)
qed

lemma fix_fid: "map fid (files (fix_parent a b sw st) g) = map fid (files st g)"
  by (auto simp: files_fix)

lemma uniq_fix: "uniq st \<Longrightarrow> uniq (fix_parent a b sw st)"
  unfolding uniq_def set_map[symmetric] fix_fid .

lemma tab_fix:
  assumes "uniq st"
  shows "tab (fix_parent a b sw st) = reparent a b sw (tab st)"
proof (rule tab_eqI[OF uniq_fix[OF assms]])
  fix j g p
  define f where "f q = (if q = a then b else if sw \<and> q = b then a else q)" for q
  have "reparent a b sw (tab st) j = map_option (\<lambda>(ft, q). (ft, f q)) (tab st j)"
    by (simp add: reparent_def f_def)
  then have "reparent a b sw (tab st) j = Some (g, p) \<longleftrightarrow> (\<exists>q. tab st j = Some (g, q) \<and> p = f q)"
    by (cases "tab st j") auto
  also have "\<dots> \<longleftrightarrow> (\<exists>q. in_table st j g q \<and> p = f q)" unfolding tab_Some[OF assms] by (rule refl)
  also have "\<dots> \<longleftrightarrow> in_table (fix_parent a b sw st) j g p"
  proof -
    have "files (fix_parent a b sw st) g = map (\<lambda>e. e\<lparr>parent := f (parent e)\<rparr>) (files st g)"
      by (simp add: files_fix f_def)
    then show ?thesis by (auto simp: in_table_def)
  qed
  finally show "in_table (fix_parent a b sw st) j g p \<longleftrightarrow> reparent a b sw (tab st) j = Some (g, p)" by simp
qed

text \<open>Deleting by moving the last entry into the gap.\<close>

lemma mset_butlast: "xs \<noteq> [] \<Longrightarrow> add_mset (last xs) (mset (butlast xs)) = mset xs"
  by (cases xs rule: rev_cases) simp_all

lemma mset_gap:
  assumes "slot < length es"
  shows "add_mset (es ! slot) (mset (butlast (es[slot := last es]))) = mset es"
proof -
  have ne: "es \<noteq> []" "es[slot := last es] \<noteq> []" using assms by auto
  have "last (es[slot := last es]) = last es" by (simp add: last_list_update ne)
  then have "add_mset (last es) (mset (butlast (es[slot := last es]))) = mset (es[slot := last es])"
    using mset_butlast[OF ne(2)] by simp
  also have "\<dots> = add_mset (last es) (mset es - {#es ! slot#})" using assms by (simp add: mset_update)
  finally have "mset (butlast (es[slot := last es])) = mset es - {#es ! slot#}" by simp
  then show ?thesis using assms by (simp add: insert_DiffM)
qed

definition dropped :: "nat \<Rightarrow> fent list \<Rightarrow> fent list" where
  "dropped slot es = (if slot \<noteq> length es - 1 then butlast (es[slot := last es]) else butlast es)"

lemma mset_dropped:
  assumes "slot < length es"
  shows "add_mset (es ! slot) (mset (dropped slot es)) = mset es"
proof (cases "slot = length es - 1")
  case True
  have "es \<noteq> []" using assms by auto
  then show ?thesis using mset_butlast[of es] True by (simp add: dropped_def last_conv_nth)
qed (simp add: dropped_def mset_gap[OF assms])

lemma set_dropped:
  assumes "slot < length es" and "distinct (map fid es)"
  shows "distinct (map fid (dropped slot es))" and "set (dropped slot es) = set es - {es ! slot}"
    and "fid (es ! slot) \<notin> fid ` set (dropped slot es)"
proof -
  have m: "mset (map fid es) = add_mset (fid (es ! slot)) (mset (map fid (dropped slot es)))"
    using arg_cong[OF mset_dropped[OF assms(1)], of "image_mset fid"] by simp
  have "distinct (fid (es ! slot) # map fid (dropped slot es))"
    using assms(2) m by (metis mset.simps(2) mset_eq_imp_distinct_iff)
  then show d: "distinct (map fid (dropped slot es))" "fid (es ! slot) \<notin> fid ` set (dropped slot es)"
    by simp_all
  have "set es = insert (es ! slot) (set (dropped slot es))"
    using arg_cong[OF mset_dropped[OF assms(1)], of set_mset] by simp
  then show "set (dropped slot es) = set es - {es ! slot}" using d(2) by auto
qed

lemma uniq_drop:
  assumes "uniq st" and "slot < length (files st ft)"
  shows "uniq (set_files ft (dropped slot) st)"
  unfolding uniq_def
proof (intro conjI allI impI)
  fix g
  show "distinct (map fid (files (set_files ft (dropped slot) st) g))"
    using assms set_dropped(1)[OF assms(2)] by (auto simp: files_set uniq_def)
next
  fix g g' :: ftype assume g: "g \<noteq> g'"
  have sub: "set (files (set_files ft (dropped slot) st) h) \<subseteq> set (files st h)" for h
    using assms set_dropped(2)[OF assms(2)] by (auto simp: files_set uniq_def)
  show "fid ` set (files (set_files ft (dropped slot) st) g)
      \<inter> fid ` set (files (set_files ft (dropped slot) st) g') = {}"
    using sub[of g] sub[of g'] assms(1) g unfolding uniq_def by blast
qed

lemma tab_drop:
  assumes u: "uniq st" and s: "slot < length (files st ft)"
  shows "tab (set_files ft (dropped slot) st) = (tab st)(fid (files st ft ! slot) := None)"
proof (rule tab_eqI[OF uniq_drop[OF assms]])
  fix j g p
  let ?e = "files st ft ! slot"
  have d: "distinct (map fid (files st ft))" using u by (simp add: uniq_def)
  have e: "?e \<in> set (files st ft)" using s by simp
  have "in_table (set_files ft (dropped slot) st) j g p \<longleftrightarrow> in_table st j g p \<and> j \<noteq> fid ?e"
  proof (cases "g = ft")
    case True
    have "fid e \<noteq> fid ?e" if "e \<in> set (dropped slot (files st ft))" for e
      using that set_dropped(3)[OF s d] by (metis imageI)
    then show ?thesis using True set_dropped(2)[OF s d] by (auto simp: in_table_def files_set)
  next
    case False
    have "fid ?e \<notin> fid ` set (files st g)"
      using u e False unfolding uniq_def by (metis disjoint_iff imageI)
    then have "fid e \<noteq> fid ?e" if "e \<in> set (files st g)" for e using that by (metis imageI)
    then show ?thesis using False by (auto simp: in_table_def files_set)
  qed
  then show "in_table (set_files ft (dropped slot) st) j g p
      \<longleftrightarrow> ((tab st)(fid ?e := None)) j = Some (g, p)"
    using tab_Some[OF u, of j g p] by auto
qed

section \<open>The cache\<close>

text \<open>Every slot in the cache is in use by a directory whose number belongs at that place.\<close>

definition dcache_ok :: "'k fss \<Rightarrow> bool" where
  "dcache_ok st \<longleftrightarrow> length (dcache st) = NDCACHE
     \<and> (\<forall>h < NDCACHE. 0 \<le> dcache st ! h \<longrightarrow> nat (dcache st ! h) < length (files st FT_DIR)
          \<and> dcache_slot (fid (files st FT_DIR ! nat (dcache st ! h))) = h)"

lemma dcache_slot_less [simp]: "dcache_slot i < NDCACHE"
  by (simp add: dcache_slot_def nat_less_iff)

lemma dcache_okD:
  assumes "dcache_ok st" and "0 \<le> dcache st ! dcache_slot d"
  shows "nat (dcache st ! dcache_slot d) < length (files st FT_DIR)"
  using assms by (simp add: dcache_ok_def)

lemma find_slot_Some:
  "find_slot d n es = Some s \<longleftrightarrow> (\<exists>k < length es. s = n + k \<and> fid (es ! k) = d \<and> (\<forall>j < k. fid (es ! j) \<noteq> d))"
proof (induction es arbitrary: n)
  case (Cons e es)
  show ?case
  proof (cases "fid e = d")
    case True
    then show ?thesis by (auto simp: nth_Cons' intro: exI[of _ 0])
  next
    case False
    have "(\<exists>k < length (e # es). s = n + k \<and> fid ((e # es) ! k) = d \<and> (\<forall>j < k. fid ((e # es) ! j) \<noteq> d))
      \<longleftrightarrow> (\<exists>k < length es. s = n + 1 + k \<and> fid (es ! k) = d \<and> (\<forall>j < k. fid (es ! j) \<noteq> d))"
      (is "?L \<longleftrightarrow> ?R")
    proof
      assume ?L
      then obtain k where k: "k < length (e # es)" "s = n + k" "fid ((e # es) ! k) = d"
        "\<forall>j < k. fid ((e # es) ! j) \<noteq> d" by blast
      then obtain m where "k = Suc m" using False by (cases k) auto
      then show ?R using k by (intro exI[of _ m]) fastforce
    next
      assume ?R
      then obtain k where k: "k < length es" "s = n + 1 + k" "fid (es ! k) = d"
        "\<forall>j < k. fid (es ! j) \<noteq> d" by blast
      then show ?L using False by (intro exI[of _ "Suc k"]) (auto simp: nth_Cons')
    qed
    then show ?thesis using False Cons by simp
  qed
qed simp

lemma find_slot_unique:
  assumes "distinct (map fid es)" and "k < length es" and "fid (es ! k) = d"
  shows "find_slot d 0 es = Some k"
proof -
  have "fid (es ! j) \<noteq> d" if "j < k" for j
    using assms that nth_eq_iff_index_eq[OF assms(1), of j k] by auto
  then show ?thesis using assms(2,3) by (auto simp: find_slot_Some)
qed

lemma find_slot_None: "find_slot d n es = None \<longleftrightarrow> d \<notin> fid ` set es"
  by (induction es arbitrary: n) auto

text \<open>A lookup finds what a search of the list finds; only the cache may change.\<close>

lemma dirid_to_fent_ok:
  assumes u: "uniq st" and c: "dcache_ok st"
  shows "\<exists>dc. dirid_to_fent d st = Inr (find_slot d 0 (files st FT_DIR), st\<lparr>dcache := dc\<rparr>)
    \<and> dcache_ok (st\<lparr>dcache := dc\<rparr>)"
proof -
  let ?i = "dcache st ! dcache_slot d" and ?es = "files st FT_DIR"
  have dist: "distinct (map fid ?es)" using u by (simp add: uniq_def)
  have same: "st\<lparr>dcache := dcache st\<rparr> = st" by simp
  have search: "\<exists>dc. (case find_slot d 0 ?es of None \<Rightarrow> Inr (None, st)
        | Some i \<Rightarrow> Inr (Some i, dcache_enter d i st)) = Inr (find_slot d 0 ?es, st\<lparr>dcache := dc\<rparr>)
      \<and> dcache_ok (st\<lparr>dcache := dc\<rparr>)"
  proof (cases "find_slot d 0 ?es")
    case None
    then show ?thesis using c same by (intro exI[of _ "dcache st"]) simp
  next
    case (Some i)
    then have i: "i < length ?es" "fid (?es ! i) = d" by (auto simp: find_slot_Some)
    have "dcache_ok (dcache_enter d i st)"
      using c i by (auto simp: dcache_ok_def dcache_enter_def files_def nth_list_update)
    then show ?thesis using Some by (intro exI[of _ "(dcache st)[dcache_slot d := int i]"]) (simp add: dcache_enter_def)
  qed
  show ?thesis
  proof (cases "0 \<le> ?i \<and> fid (?es ! nat ?i) = d")
    case True
    then have "nat ?i < length ?es" using dcache_okD[OF c] by blast
    then have "find_slot d 0 ?es = Some (nat ?i)" "dirid_to_fent d st = Inr (Some (nat ?i), st)"
      using find_slot_unique[OF dist] True
      by (simp_all add: dirid_to_fent_def dcache_lookup_def fent_at_def Let_def)
    then show ?thesis using c same by (intro exI[of _ "dcache st"]) simp
  next
    case False
    then have "dirid_to_fent d st = (case find_slot d 0 ?es of None \<Rightarrow> Inr (None, st)
        | Some i \<Rightarrow> Inr (Some i, dcache_enter d i st))"
      using dcache_okD[OF c, of d] by (auto simp: dirid_to_fent_def dcache_lookup_def fent_at_def Let_def)
    then show ?thesis using search by simp
  qed
qed

end
