(* ===== verification/Fss_Paths.thy ===== *)
theory Fss_Paths
  imports C_Text
begin

text \<open>
  The system calls on names, and the functions \<open>*_path\<close> of \<open>fsstress\<close> that make a call on a path
  of any length: when the kernel refuses the path as too long, they change to its first directory,
  make the call on the rest, and come back. The kernel is a parameter; a call returns its result,
  \<open>errno\<close> and the next state.
\<close>

abbreviation (input) ENOENT :: int where "ENOENT \<equiv> 2"
abbreviation (input) EFAULT :: int where "EFAULT \<equiv> 14"
abbreviation (input) EINVAL :: int where "EINVAL \<equiv> 22"
abbreviation (input) ENAMETOOLONG :: int where "ENAMETOOLONG \<equiv> 36"

type_synonym 'k call = "'k \<Rightarrow> int \<times> int \<times> 'k"

record 'k name_calls =
  c_chdir :: "string \<Rightarrow> 'k call"
  c_creat :: "int \<Rightarrow> string \<Rightarrow> 'k call"
  c_mkdir :: "int \<Rightarrow> string \<Rightarrow> 'k call"
  c_mknod :: "int \<Rightarrow> int \<Rightarrow> string \<Rightarrow> 'k call"
  c_symlink :: "string \<Rightarrow> string \<Rightarrow> 'k call"
  c_unlink :: "string \<Rightarrow> 'k call"
  c_rmdir :: "string \<Rightarrow> 'k call"
  c_link :: "string \<Rightarrow> string \<Rightarrow> 'k call"
  c_rename :: "string \<Rightarrow> string \<Rightarrow> 'k call"
  c_renameat2 :: "int \<Rightarrow> string \<Rightarrow> string \<Rightarrow> 'k call"
  c_lchown :: "int \<Rightarrow> int \<Rightarrow> string \<Rightarrow> 'k call"
  c_truncate :: "int \<Rightarrow> string \<Rightarrow> 'k call"
  c_open :: "int \<Rightarrow> string \<Rightarrow> 'k call"
  c_opendir :: "string \<Rightarrow> 'k call"
  c_stat :: "string \<Rightarrow> 'k call"
  c_lstat :: "string \<Rightarrow> 'k call"
  c_readlink :: "int \<Rightarrow> string \<Rightarrow> 'k call"
  c_attr_list :: "string \<Rightarrow> 'k call"
  c_attr_remove :: "string \<Rightarrow> string \<Rightarrow> 'k call"
  c_attr_set :: "string \<Rightarrow> string \<Rightarrow> string \<Rightarrow> 'k call"
  c_setxattr :: "int \<Rightarrow> string \<Rightarrow> string \<Rightarrow> string \<Rightarrow> 'k call"
  c_getxattr :: "int \<Rightarrow> string \<Rightarrow> string \<Rightarrow> 'k call"
  c_removexattr :: "string \<Rightarrow> string \<Rightarrow> 'k call"
  c_random :: "'k \<Rightarrow> int \<times> 'k"

type_synonym ('k, 'a) kres = "halt + ('a \<times> 'k)"

section \<open>Paths\<close>

text \<open>
  The part before the first slash and, if there is one, the part after it. Without a slash the
  first part is empty and the second is a null pointer.
\<close>

fun split_slash :: "string \<Rightarrow> (string \<times> string) option" where
  "split_slash [] = None"
| "split_slash (c # cs) =
     (if c = CHR ''/'' then Some ([], cs)
      else map_option (\<lambda>(a, b). (c # a, b)) (split_slash cs))"

lemma split_slash_append: "CHR ''/'' \<notin> set a \<Longrightarrow> split_slash (a @ CHR ''/'' # b) = Some (a, b)"
  by (induction a) auto

lemma split_slash_cut: "split_slash s = Some (a, b) \<Longrightarrow> s = a @ CHR ''/'' # b \<and> CHR ''/'' \<notin> set a"
proof (induction s arbitrary: a)
  case (Cons c s)
  then show ?case by (cases "c = CHR ''/''") auto
qed simp

lemma split_slash_Some:
  "split_slash s = Some (a, b) \<longleftrightarrow> s = a @ CHR ''/'' # b \<and> CHR ''/'' \<notin> set a"
  using split_slash_append split_slash_cut by metis

lemma split_slash_shorter: "split_slash s = Some (a, b) \<Longrightarrow> length b < length s"
  by (simp add: split_slash_Some)

definition separate_pathname :: "string \<Rightarrow> string \<times> string option" where
  "separate_pathname name = (case split_slash name of None \<Rightarrow> ([], None) | Some (a, b) \<Rightarrow> (a, Some b))"

lemma separate_shorter: "separate_pathname s = (a, Some b) \<Longrightarrow> length b < length s"
  using split_slash_shorter by (auto simp: separate_pathname_def split: option.splits)

section \<open>Calls on one path\<close>

text \<open>Back to where the function was called; the \<open>assert\<close> ends the process if that fails.\<close>

definition back_up :: "'k name_calls \<Rightarrow> int \<times> int \<Rightarrow> 'k \<Rightarrow> ('k, int \<times> int) kres" where
  "back_up K re k = (case c_chdir K ''..'' k of (r, _, k1) \<Rightarrow> if r = 0 then Inr (re, k1) else Inl Abort)"

function long_path ::
  "'k name_calls \<Rightarrow> (string \<Rightarrow> 'k call) \<Rightarrow> string \<Rightarrow> 'k \<Rightarrow> ('k, int \<times> int) kres" where
  "long_path K call name k =
     (case call name k of (r, e, k1) \<Rightarrow>
        if 0 \<le> r \<or> e \<noteq> ENAMETOOLONG then Inr ((r, e), k1)
        else
          (case separate_pathname name of (buf, rest) \<Rightarrow>
             (case c_chdir K buf k1 of (rc, ec, k2) \<Rightarrow>
                if rc = 0 then
                  on_ok (case rest of None \<Rightarrow> Inr ((-1, EFAULT), k2) | Some p \<Rightarrow> long_path K call p k2)
                    (\<lambda>(re, k3). back_up K re k3)
                else Inr ((r, ec), k2))))"
  by pat_completeness auto

termination by (relation "measure (\<lambda>(K, call, name, k). length name)") (auto dest: separate_shorter[OF sym])

declare long_path.simps [simp del]

definition creat_path :: "'k name_calls \<Rightarrow> string \<Rightarrow> int \<Rightarrow> 'k \<Rightarrow> ('k, int \<times> int) kres" where
  "creat_path K name m = long_path K (c_creat K m) name"

definition mkdir_path :: "'k name_calls \<Rightarrow> string \<Rightarrow> int \<Rightarrow> 'k \<Rightarrow> ('k, int \<times> int) kres" where
  "mkdir_path K name m = long_path K (c_mkdir K m) name"

definition mknod_path :: "'k name_calls \<Rightarrow> string \<Rightarrow> int \<Rightarrow> int \<Rightarrow> 'k \<Rightarrow> ('k, int \<times> int) kres" where
  "mknod_path K name m dev = long_path K (c_mknod K m dev) name"

definition unlink_path :: "'k name_calls \<Rightarrow> string \<Rightarrow> 'k \<Rightarrow> ('k, int \<times> int) kres" where
  "unlink_path K name = long_path K (c_unlink K) name"

definition rmdir_path :: "'k name_calls \<Rightarrow> string \<Rightarrow> 'k \<Rightarrow> ('k, int \<times> int) kres" where
  "rmdir_path K name = long_path K (c_rmdir K) name"

definition lchown_path :: "'k name_calls \<Rightarrow> string \<Rightarrow> int \<Rightarrow> int \<Rightarrow> 'k \<Rightarrow> ('k, int \<times> int) kres" where
  "lchown_path K name uid gid = long_path K (c_lchown K uid gid) name"

definition truncate64_path :: "'k name_calls \<Rightarrow> string \<Rightarrow> int \<Rightarrow> 'k \<Rightarrow> ('k, int \<times> int) kres" where
  "truncate64_path K name len = long_path K (c_truncate K len) name"

definition open_path :: "'k name_calls \<Rightarrow> string \<Rightarrow> int \<Rightarrow> 'k \<Rightarrow> ('k, int \<times> int) kres" where
  "open_path K name fl = long_path K (c_open K fl) name"

definition opendir_path :: "'k name_calls \<Rightarrow> string \<Rightarrow> 'k \<Rightarrow> ('k, int \<times> int) kres" where
  "opendir_path K name = long_path K (c_opendir K) name"

definition stat64_path :: "'k name_calls \<Rightarrow> string \<Rightarrow> 'k \<Rightarrow> ('k, int \<times> int) kres" where
  "stat64_path K name = long_path K (c_stat K) name"

definition lstat64_path :: "'k name_calls \<Rightarrow> string \<Rightarrow> 'k \<Rightarrow> ('k, int \<times> int) kres" where
  "lstat64_path K name = long_path K (c_lstat K) name"

definition readlink_path :: "'k name_calls \<Rightarrow> string \<Rightarrow> int \<Rightarrow> 'k \<Rightarrow> ('k, int \<times> int) kres" where
  "readlink_path K name n = long_path K (c_readlink K n) name"

definition attr_list_path :: "'k name_calls \<Rightarrow> string \<Rightarrow> int \<Rightarrow> 'k \<Rightarrow> ('k, int \<times> int) kres" where
  "attr_list_path K name fl k =
     (if fl \<noteq> 1 then Inr ((-1, EINVAL), k) else long_path K (c_attr_list K) name k)"

definition attr_remove_path :: "'k name_calls \<Rightarrow> string \<Rightarrow> string \<Rightarrow> 'k \<Rightarrow> ('k, int \<times> int) kres" where
  "attr_remove_path K name attr = long_path K (\<lambda>p. c_attr_remove K p attr) name"

definition attr_set_path :: "'k name_calls \<Rightarrow> string \<Rightarrow> string \<Rightarrow> string \<Rightarrow> 'k \<Rightarrow> ('k, int \<times> int) kres" where
  "attr_set_path K name attr v = long_path K (\<lambda>p. c_attr_set K p attr v) name"

text \<open>
  \<open>symlink_path\<close> compares the value of the link with the path before each call, and takes equality
  for success.
\<close>

definition symlink_path :: "'k name_calls \<Rightarrow> string \<Rightarrow> string \<Rightarrow> 'k \<Rightarrow> ('k, int \<times> int) kres" where
  "symlink_path K val name =
     long_path K (\<lambda>p k. if val = p then (0, 0, k) else c_symlink K val p k) name"

text \<open>A directory cannot be opened for writing: a second try.\<close>

definition open_file_or_dir ::
  "'k name_calls \<Rightarrow> int \<Rightarrow> int \<Rightarrow> int \<Rightarrow> string \<Rightarrow> int \<Rightarrow> 'k \<Rightarrow> ('k, int \<times> int) kres" where
  "open_file_or_dir K O_WRONLY O_DIRECT O_DIRECTORY name fl k =
     on_ok (open_path K name fl k) (\<lambda>((fd, e), k1).
       if fd \<noteq> -1 then Inr ((fd, e), k1)
       else if e \<noteq> 21 then Inr ((fd, e), k1)
       else open_path K name ((fl AND NOT (O_WRONLY OR O_DIRECT)) OR O_DIRECTORY) k1)"

section \<open>Calls on two paths\<close>

text \<open>
  The two first directories differ: go down the path after which the longer of the two is the
  shorter, and name the other from there. A path that begins with \<open>..\<close> is gone down at last.
\<close>

definition go_down_first :: "string \<Rightarrow> string \<Rightarrow> string \<Rightarrow> string \<Rightarrow> string option \<Rightarrow> string option \<Rightarrow> bool" where
  "go_down_first name1 name2 buf1 buf2 new1 new2 =
     (if buf1 = ''..'' then False
      else if buf2 = ''..'' then True
      else if buf1 = [] then False
      else if buf2 = [] then True
      else
        (let len = (\<lambda>p. case p of None \<Rightarrow> 0 | Some s \<Rightarrow> length s) in
         max (len new1) (3 + length name2) \<le> max (3 + length name1) (len new2)))"

text \<open>Components other than \<open>..\<close>, and slashes.\<close>

definition components :: "string \<Rightarrow> string list" where
  "components s = foldr (\<lambda>c r. if c = CHR ''/'' then [] # r else (c # hd r) # tl r) s [[]]"

definition steps_left :: "string \<Rightarrow> nat" where
  "steps_left s = length (filter (\<lambda>c. c \<noteq> ''..'') (components s))"

lemma components_Cons [simp]:
  "components [] = [[]]"
  "components (c # s) = (if c = CHR ''/'' then [] # components s
     else (c # hd (components s)) # tl (components s))"
  by (simp_all add: components_def)

lemma components_ne [simp]: "components s \<noteq> []"
  by (induction s) auto

lemma components_append: "CHR ''/'' \<notin> set a \<Longrightarrow> components (a @ CHR ''/'' # b) = a # components b"
  by (induction a) auto

lemma components_single: "CHR ''/'' \<notin> set a \<Longrightarrow> components a = [a]"
  by (induction a) auto

lemma separate_components:
  assumes "separate_pathname s = (a, Some b)"
  shows "components s = a # components b" and "s = a @ CHR ''/'' # b" and "CHR ''/'' \<notin> set a"
  using assms components_append[of a b]
  by (auto simp: separate_pathname_def split_slash_Some split: option.splits prod.splits)

lemma components_up: "components (''../'' @ s) = ''..'' # components s"
  using components_append[of "''..''" s] by simp

lemma steps_left_separate:
  assumes "separate_pathname s = (a, Some b)"
  shows "steps_left s = (if a = ''..'' then 0 else 1) + steps_left b"
  using separate_components(1)[OF assms] by (simp add: steps_left_def)

lemma separate_less:
  "separate_pathname s = (a, Some b) \<Longrightarrow> steps_left b \<le> steps_left s \<and> length b < length s"
  using steps_left_separate separate_shorter by simp

lemma steps_left_up: "steps_left (''../'' @ s) = steps_left s"
  by (simp only: steps_left_def components_up) simp

lemma down_first_ok: "go_down_first n1 n2 b1 b2 w1 w2 \<Longrightarrow> b1 \<noteq> ''..''"
  by (auto simp: go_down_first_def split: if_splits)

lemma down_second_ok:
  "\<not> go_down_first n1 n2 b1 b2 w1 w2 \<Longrightarrow> b1 \<noteq> b2 \<Longrightarrow> b2 \<noteq> ''..''"
  by (auto simp: go_down_first_def split: if_splits)

text \<open>
  Each step takes a component other than \<open>..\<close> off one path, or a \<open>..\<close> off both; the \<open>..\<close> put in
  front does not count.
\<close>

function long_paths ::
  "'k name_calls \<Rightarrow> (string \<Rightarrow> string \<Rightarrow> 'k call) \<Rightarrow> string \<Rightarrow> string \<Rightarrow> 'k \<Rightarrow> ('k, int \<times> int) kres" where
  "long_paths K call name1 name2 k =
     (case call name1 name2 k of (r, e, k1) \<Rightarrow>
        if 0 \<le> r \<or> e \<noteq> ENAMETOOLONG then Inr ((r, e), k1)
        else
          (case separate_pathname name1 of (buf1, new1) \<Rightarrow>
           case separate_pathname name2 of (buf2, new2) \<Rightarrow>
             (if buf1 = buf2 then
                (case c_chdir K buf1 k1 of (rc, ec, k2) \<Rightarrow>
                   if rc = 0 then
                     on_ok (case (new1, new2) of
                         (Some p1, Some p2) \<Rightarrow> long_paths K call p1 p2 k2
                       | _ \<Rightarrow> Inr ((-1, EFAULT), k2)) (\<lambda>(re, k3). back_up K re k3)
                   else Inr ((r, ec), k2))
              else if go_down_first name1 name2 buf1 buf2 new1 new2 then
                (case c_chdir K buf1 k1 of (rc, ec, k2) \<Rightarrow>
                   if rc = 0 then
                     on_ok (case new1 of
                         Some p1 \<Rightarrow> long_paths K call p1 (''../'' @ name2) k2
                       | None \<Rightarrow> Inr ((-1, EFAULT), k2)) (\<lambda>(re, k3). back_up K re k3)
                   else Inr ((r, ec), k2))
              else
                (case c_chdir K buf2 k1 of (rc, ec, k2) \<Rightarrow>
                   if rc = 0 then
                     on_ok (case new2 of
                         Some p2 \<Rightarrow> long_paths K call (''../'' @ name1) p2 k2
                       | None \<Rightarrow> Inr ((-1, EFAULT), k2)) (\<lambda>(re, k3). back_up K re k3)
                   else Inr ((r, ec), k2)))))"
  by pat_completeness auto

termination
proof (relation "measures [\<lambda>(K, call, n1, n2, k). steps_left n1 + steps_left n2,
    \<lambda>(K, call, n1, n2, k). length n1]", goal_cases)
  case 1
  then show ?case by simp
next
  case (2 K call name1 name2 k)
  then show ?case
    by (auto dest!: separate_less[OF sym])
next
  case (3 K call name1 name2 k)
  then show ?case
    by (auto dest!: steps_left_separate[OF sym] down_first_ok simp: steps_left_up simp del: append_Cons append_Nil)
next
  case (4 K call name1 name2 k)
  then show ?case
    by (auto dest!: steps_left_separate[OF sym] down_second_ok simp: steps_left_up simp del: append_Cons append_Nil)
qed

declare long_paths.simps [simp del]

definition link_path :: "'k name_calls \<Rightarrow> string \<Rightarrow> string \<Rightarrow> 'k \<Rightarrow> ('k, int \<times> int) kres" where
  "link_path K = long_paths K (c_link K)"

definition rename_path :: "'k name_calls \<Rightarrow> string \<Rightarrow> string \<Rightarrow> int \<Rightarrow> 'k \<Rightarrow> ('k, int \<times> int) kres" where
  "rename_path K name1 name2 m =
     long_paths K (if m = 0 then c_rename K else c_renameat2 K m) name1 name2"

end
