(* ===== verification/Fss_Lookup_Ok.thy ===== *)
theory Fss_Lookup_Ok
  imports Fss_Table_Ok Fss_Paths
begin

text \<open>
  On tables that are a forest, with a good cache: names are distinct, short and without slashes,
  \<open>fent_to_name\<close> gives the names on the path from the top, \<open>fents_ancestor_check\<close> finds the
  ancestors, \<open>get_fname\<close> chooses an entry of the right type, and deleting keeps the cache good.
\<close>

section \<open>Names\<close>

definition node_name :: "int \<Rightarrow> node \<Rightarrow> string" where
  "node_name nr = (\<lambda>(ft, i). fent_name nr ft i)"

lemma namerandpad_bound:
  assumes "0 \<le> nr" and "0 \<le> i"
  shows "len + namerandpad nr i len \<le> max len NAME_MAX"
proof -
  let ?b = "buckets ! nat ((i XOR nr) mod 8)"
  have "nat ((i XOR nr) mod 8) < 8" by (simp add: nat_less_iff)
  then have b: "?b \<le> 255" by (auto simp: buckets_def less_Suc_eq numeral_eq_Suc)
  define m where "m = (i XOR nr) mod (?b + 1 - int len)"
  have e: "namerandpad nr i len = (if nr = 0 \<or> ?b + 1 - int len \<le> 0 then 0 else nat m)"
    by (simp add: namerandpad_def Let_def m_def)
  have "m \<le> ?b - int len" if "0 < ?b + 1 - int len"
    using pos_mod_bound[OF that, of "i XOR nr"] by (simp add: m_def)
  then show ?thesis using b unfolding e by (auto simp: not_le)
qed

lemma fent_name_short:
  assumes "0 \<le> nr" and "0 \<le> i"
  shows "length (fent_name nr ft i) \<le> NAME_MAX"
proof -
  have "nat (u32 i) < nat 4294967296" using u32_range(2)[of i] by (subst nat_less_eq_zless) simp_all
  then have "nat (u32 i) < 16 ^ Suc 7" by simp
  then have "length (fmt_x i) \<le> 8" using length_to_base[of "nat (u32 i)" 7] by (simp add: fmt_x_def)
  then have "length (ft_tag ft # fmt_x i) \<le> 9" by simp
  moreover have "length (fent_name nr ft i)
      \<le> max (length (ft_tag ft # fmt_x i)) NAME_MAX"
    using namerandpad_bound[OF assms, of "length (ft_tag ft # fmt_x i)"] by (simp add: fent_name_def Let_def)
  ultimately show ?thesis by simp
qed

lemma scan_name:
  assumes "0 \<le> i" and "i < 4294967296"
  shows "scan_digits 16 (tl (fent_name nr ft i)) 0 = (i, replicate (namerandpad nr i (length (ft_tag ft # fmt_x i))) (CHR ''X''))"
proof -
  let ?p = "replicate (namerandpad nr i (length (ft_tag ft # fmt_x i))) (CHR ''X'')"
  have "?p = [] \<or> \<not> is_digit 16 (hd ?p)" by (cases "namerandpad nr i (length (ft_tag ft # fmt_x i))") (simp_all add: is_digit_def digit_val_def)
  then show ?thesis
    using scan_to_base[of 16 ?p "nat (u32 i)"] assms by (simp add: fent_name_def fmt_x_def Let_def u32_id)
qed

lemma ft_tag_inj: "ft_tag ft = ft_tag g \<Longrightarrow> ft = g"
  by (cases ft; cases g) simp_all

definition numbered :: "node set" where
  "numbered = {(ft, i). 0 \<le> i \<and> i < 4294967296}"

lemma node_name_inj: "inj_on (node_name nr) numbered"
proof (rule inj_onI, clarsimp simp: numbered_def node_name_def)
  fix ft g i j assume r: "0 \<le> i" "i < 4294967296" "0 \<le> j" "j < 4294967296"
    and e: "fent_name nr ft i = fent_name nr g j"
  have "ft_tag ft = ft_tag g" using arg_cong[OF e, of hd] by (simp add: fent_name_def Let_def)
  moreover have "i = j"
    using arg_cong[OF e, of "\<lambda>s. fst (scan_digits 16 (tl s) 0)"] r by (simp add: scan_name)
  ultimately show "ft = g \<and> i = j" using ft_tag_inj by blast
qed

text \<open>A name that a path can be made of.\<close>

definition plain :: "string \<Rightarrow> bool" where
  "plain s \<longleftrightarrow> s \<noteq> [] \<and> s \<noteq> ''.'' \<and> s \<noteq> ''..'' \<and> CHR ''/'' \<notin> set s"

lemma plain_name: "plain (node_name nr nd)"
proof -
  obtain ft i where nd: "nd = (ft, i)" by (cases nd)
  have "list_all (is_digit 16) (fmt_x i)" unfolding fmt_x_def by (rule to_base_digits) simp_all
  then have "CHR ''/'' \<notin> set (fmt_x i)" by (auto simp: list_all_iff is_digit_def digit_val_def)
  moreover have "ft_tag ft \<noteq> CHR ''/''" "ft_tag ft \<noteq> CHR ''.''" by (cases ft; simp)+
  ultimately show ?thesis by (auto simp: nd node_name_def plain_def fent_name_def Let_def)
qed

section \<open>Paths as strings\<close>

fun joined :: "string list \<Rightarrow> string" where
  "joined [] = []"
| "joined [x] = x"
| "joined (x # y # r) = x @ CHR ''/'' # joined (y # r)"

lemma joined_snoc: "xs \<noteq> [] \<Longrightarrow> joined (xs @ [x]) = joined xs @ ''/'' @ x"
  by (induction xs rule: joined.induct) auto

lemma components_joined: "xs \<noteq> [] \<Longrightarrow> \<forall>x \<in> set xs. plain x \<Longrightarrow> components (joined xs) = xs"
  by (induction xs rule: joined.induct) (auto simp: plain_def components_single components_append)

section \<open>Paths of entries\<close>

lemma files_dcache [simp]: "files (st\<lparr>dcache := dc\<rparr>) = files st"
  by (simp add: files_def[abs_def])

lemma uniq_dcache [simp]: "uniq (st\<lparr>dcache := dc\<rparr>) = uniq st"
  by (simp add: uniq_def)

lemma tab_in_dcache: "tab_in (st\<lparr>dcache := dc\<rparr>) fts i = tab_in st fts i"
  by (induction fts) (simp_all split: option.split)

lemma tab_dcache [simp]: "tab (st\<lparr>dcache := dc\<rparr>) = tab st"
  by (simp add: tab_def tab_in_dcache fun_eq_iff)

text \<open>The entry of a node.\<close>

lemma tab_entry:
  assumes "uniq st" and "e \<in> set (files st ft)"
  shows "tab st (fid e) = Some (ft, parent e)"
  using tab_Some[OF assms(1)] assms(2) by (auto simp: in_table_def)

lemma dir_slot:
  assumes "uniq st" and "tab st d = Some (FT_DIR, p)"
  obtains k where "find_slot d 0 (files st FT_DIR) = Some k" "k < length (files st FT_DIR)"
    "fid (files st FT_DIR ! k) = d"
proof -
  have "d \<in> fid ` set (files st FT_DIR)"
    using tab_Some[OF assms(1), of d FT_DIR p] assms(2) by (auto simp: in_table_def)
  then obtain k where "find_slot d 0 (files st FT_DIR) = Some k"
    using find_slot_None[of d 0] by (metis not_None_eq)
  then show thesis using that by (auto simp: find_slot_Some)
qed

lemma fent_path_ok:
  assumes "walk M i xs" and "tab st = M" and "uniq st" and "dcache_ok st"
    and "e \<in> set (files st ft)" and "fid e = i"
  shows "\<exists>dc. fent_path ft e st = Some (Inr (Some (joined (map (node_name (namerand st)) xs)), st\<lparr>dcache := dc\<rparr>))
    \<and> dcache_ok (st\<lparr>dcache := dc\<rparr>)"
  using assms
proof (induction arbitrary: st e ft rule: walk.induct)
  case (top i g)
  then have "g = ft" "parent e = -1" using tab_entry[of st e ft] by auto
  then have "fent_path ft e st = Some (Inr (Some (fent_name (namerand st) ft (fid e)), st))"
    by (subst fent_path.simps) simp
  then show ?case
    using top.prems \<open>g = ft\<close> by (intro exI[of _ "dcache st"]) (simp add: node_name_def)
next
  case (below i g p pp xs)
  then have e: "g = ft" "parent e = p" using tab_entry[of st e ft] by auto
  obtain k where k: "find_slot p 0 (files st FT_DIR) = Some k" "k < length (files st FT_DIR)"
    "fid (files st FT_DIR ! k) = p"
    using dir_slot[of st p pp] below.hyps(3) below.prems by auto
  obtain d1 where d1: "dirid_to_fent p st = Inr (Some k, st\<lparr>dcache := d1\<rparr>)" "dcache_ok (st\<lparr>dcache := d1\<rparr>)"
    using dirid_to_fent_ok[of st p] below.prems k(1) by auto
  obtain d2 where d2: "fent_path FT_DIR (files st FT_DIR ! k) (st\<lparr>dcache := d1\<rparr>)
      = Some (Inr (Some (joined (map (node_name (namerand st)) xs)), st\<lparr>dcache := d2\<rparr>))"
      "dcache_ok (st\<lparr>dcache := d2\<rparr>)"
    using below.IH[of "st\<lparr>dcache := d1\<rparr>" "files st FT_DIR ! k" FT_DIR] below.prems d1(2) k(2,3) by auto
  have "fent_path ft e st = Some (Inr (Some (joined (map (node_name (namerand st)) xs)
      @ ''/'' @ fent_name (namerand st) ft (fid e)), st\<lparr>dcache := d2\<rparr>))"
    using below.hyps(2) e(2) d1(1) d2(1) by (subst fent_path.simps) simp
  moreover have "xs \<noteq> []" using walk_last[OF below.hyps(4)] by simp
  ultimately show ?case
    using below.prems e(1) d2(2) by (intro exI[of _ d2]) (simp add: joined_snoc node_name_def)
qed

lemma fent_to_name_ok:
  assumes "planted (tab st)" and "uniq st" and "dcache_ok st" and "e \<in> set (files st ft)"
  obtains xs dc where "walk (tab st) (fid e) xs"
    "fent_to_name ft e st = Inr (Some (joined (map (node_name (namerand st)) xs)), st\<lparr>dcache := dc\<rparr>)"
    "dcache_ok (st\<lparr>dcache := dc\<rparr>)"
proof -
  obtain xs where w: "walk (tab st) (fid e) xs"
    using planted_path[OF assms(1) tab_entry[OF assms(2,4)]] by blast
  from fent_path_ok[OF w refl assms(2-4) refl] show thesis using that[OF w] by (auto simp: fent_to_name_def)
qed

lemma ancestor_check_ok:
  assumes "walk M i xs" and "tab st = M" and "uniq st" and "dcache_ok st"
    and "e \<in> set (files st ft)" and "fid e = i"
  shows "\<exists>dc. fents_ancestor_check e d st = Some (Inr (d \<in> snd ` set (butlast xs), st\<lparr>dcache := dc\<rparr>))
    \<and> dcache_ok (st\<lparr>dcache := dc\<rparr>)"
  using assms
proof (induction arbitrary: st e ft rule: walk.induct)
  case (top i g)
  then have "parent e = -1" using tab_entry[of st e ft] by auto
  then have "fents_ancestor_check e d st = Some (Inr (False, st))"
    by (subst fents_ancestor_check.simps) simp
  then show ?case using top.prems by (intro exI[of _ "dcache st"]) simp
next
  case (below i g p pp xs)
  then have e: "parent e = p" using tab_entry[of st e ft] by auto
  have ne: "xs \<noteq> []" "snd (last xs) = p" using walk_last[OF below.hyps(4)] by auto
  have last: "set xs = insert (last xs) (set (butlast xs))"
    using append_butlast_last_id[OF ne(1)] by (metis Un_insert_right list.simps(15) set_append sup_bot_right empty_set)
  show ?case
  proof (cases "p = d")
    case True
    have "fents_ancestor_check e d st = Some (Inr (True, st))"
      using True e below.hyps(2) by (subst fents_ancestor_check.simps) simp
    moreover have "d \<in> snd ` set xs" using ne last True by auto
    ultimately show ?thesis using below.prems by (intro exI[of _ "dcache st"]) simp
  next
    case False
    obtain k where k: "find_slot p 0 (files st FT_DIR) = Some k" "k < length (files st FT_DIR)"
      "fid (files st FT_DIR ! k) = p"
      using dir_slot[of st p pp] below.hyps(3) below.prems by auto
    obtain d1 where d1: "dirid_to_fent p st = Inr (Some k, st\<lparr>dcache := d1\<rparr>)" "dcache_ok (st\<lparr>dcache := d1\<rparr>)"
      using dirid_to_fent_ok[of st p] below.prems k(1) by auto
    have "fents_ancestor_check e d st = fents_ancestor_check (files st FT_DIR ! k) d (st\<lparr>dcache := d1\<rparr>)"
      using e False below.hyps(2) d1(1) by (subst fents_ancestor_check.simps) simp
    moreover have "d \<in> snd ` set xs \<longleftrightarrow> d \<in> snd ` set (butlast xs)" using last ne(2) False by auto
    ultimately show ?thesis
      using below.IH[of "st\<lparr>dcache := d1\<rparr>" "files st FT_DIR ! k" FT_DIR] below.prems d1(2) k(2,3) by auto
  qed
qed

section \<open>Choosing\<close>

lemma pick_entry_ok:
  assumes "x < sum_list (map (\<lambda>ft. if in_mask ft which then length (files st ft) else 0) fts)"
  shows "\<exists>ft slot. pick_entry st which fts x = Some (ft, slot) \<and> in_mask ft which \<and> slot < length (files st ft)"
  using assms by (induction fts arbitrary: x) auto

lemma get_fname_ok:
  assumes "planted (tab st)" and "uniq st" and "dcache_ok st"
  shows "\<exists>name dc v pos. get_fname which r want st = Inr ((pos, name, v), st\<lparr>dcache := dc\<rparr>)
    \<and> dcache_ok (st\<lparr>dcache := dc\<rparr>)
    \<and> (case pos of None \<Rightarrow> name = None \<and> totalsum st which = 0
       | Some (ft, slot) \<Rightarrow> in_mask ft which \<and> slot < length (files st ft)
           \<and> (want \<longrightarrow> (\<exists>xs. walk (tab st) (fid (files st ft ! slot)) xs
                \<and> name = Some (joined (map (node_name (namerand st)) xs)))))"
proof (cases "totalsum st which = 0")
  case True
  then show ?thesis using assms(3)
    by (intro exI[of _ None] exI[of _ "dcache st"] exI[of _ "verbose st"]) (simp add: get_fname_def)
next
  case False
  have "nat (r mod int (totalsum st which)) < totalsum st which" using False by (simp add: nat_less_iff)
  then obtain ft slot where p: "pick_entry st which all_ftypes (nat (r mod int (totalsum st which))) = Some (ft, slot)"
    "in_mask ft which" "slot < length (files st ft)"
    using pick_entry_ok[where st = st and which = which and fts = all_ftypes] unfolding totalsum_def by blast
  have m: "files st ft ! slot \<in> set (files st ft)" using p(3) by simp
  obtain xs dc where n: "walk (tab st) (fid (files st ft ! slot)) xs"
    "fent_to_name ft (files st ft ! slot) st = Inr (Some (joined (map (node_name (namerand st)) xs)), st\<lparr>dcache := dc\<rparr>)"
    "dcache_ok (st\<lparr>dcache := dc\<rparr>)"
    using fent_to_name_ok[OF assms m] by blast
  show ?thesis
  proof (cases want)
    case True
    have "get_fname which r want st = Inr ((Some (ft, slot), Some (joined (map (node_name (namerand st)) xs)),
        listed (st\<lparr>dcache := dc\<rparr>) (fid (files st ft ! slot))), st\<lparr>dcache := dc\<rparr>)"
      using False p(1) n(2) True by (simp add: get_fname_def Let_def listed_def)
    then show ?thesis using p n True
      by (intro exI[of _ "Some (joined (map (node_name (namerand st)) xs))"] exI[of _ dc]
          exI[of _ "listed (st\<lparr>dcache := dc\<rparr>) (fid (files st ft ! slot))"] exI[of _ "Some (ft, slot)"]) auto
  next
    case no: False
    have "get_fname which r want st = Inr ((Some (ft, slot), Some [], listed st (fid (files st ft ! slot))),
        st\<lparr>dcache := dcache st\<rparr>)"
      using False p(1) no by (simp add: get_fname_def Let_def)
    then show ?thesis using p no assms(3)
      by (intro exI[of _ "Some []"] exI[of _ "dcache st"] exI[of _ "listed st (fid (files st ft ! slot))"]
          exI[of _ "Some (ft, slot)"]) simp
  qed
qed

section \<open>Deleting\<close>

lemma dcache_purge_ok:
  assumes "dcache_ok st"
  shows "\<exists>dc. dcache_purge d st = Inr ((), st\<lparr>dcache := dc\<rparr>) \<and> dcache_ok (st\<lparr>dcache := dc\<rparr>)
    \<and> (\<forall>h < NDCACHE. dc ! h = dcache st ! h \<or> dc ! h = -1)
    \<and> (\<forall>h < NDCACHE. 0 \<le> dc ! h \<longrightarrow> fid (files st FT_DIR ! nat (dc ! h)) \<noteq> d)"
proof -
  let ?i = "dcache st ! dcache_slot d" and ?es = "files st FT_DIR"
  have here: "h = dcache_slot d" if "h < NDCACHE" "0 \<le> dcache st ! h" "fid (?es ! nat (dcache st ! h)) = d" for h
    using assms that by (auto simp: dcache_ok_def)
  show ?thesis
  proof (cases "0 \<le> ?i \<and> fid (?es ! nat ?i) = d")
    case True
    then have "dcache_purge d st = Inr ((), st\<lparr>dcache := (dcache st)[dcache_slot d := -1]\<rparr>)"
      using dcache_okD[OF assms] by (simp add: dcache_purge_def fent_at_def Let_def)
    moreover have "length (dcache st) = NDCACHE" using assms by (simp add: dcache_ok_def)
    ultimately show ?thesis
      using assms here
      by (intro exI[of _ "(dcache st)[dcache_slot d := -1]"]) (auto simp: dcache_ok_def nth_list_update)
  next
    case False
    then have "dcache_purge d st = Inr ((), st\<lparr>dcache := dcache st\<rparr>)"
      using dcache_okD[OF assms, of d] by (auto simp: dcache_purge_def fent_at_def Let_def)
    then show ?thesis using assms here False by (intro exI[of _ "dcache st"]) auto
  qed
qed

lemma dcache_ok_other: "ft \<noteq> FT_DIR \<Longrightarrow> dcache_ok (set_files ft f st) = dcache_ok st"
  by (simp add: dcache_ok_def files_set) (simp add: set_files_def)

lemma del_from_flist_ok:
  assumes c: "dcache_ok st" and s: "slot < length (files st ft)"
  shows "\<exists>dc. del_from_flist ft slot st = Inr ((), set_files ft (dropped slot) (st\<lparr>dcache := dc\<rparr>))
    \<and> dcache_ok (set_files ft (dropped slot) (st\<lparr>dcache := dc\<rparr>))"
proof (cases "ft = FT_DIR")
  case False
  then have "del_from_flist ft slot st = Inr ((), set_files ft (dropped slot) (st\<lparr>dcache := dcache st\<rparr>))"
    using s by (simp add: del_from_flist_def fent_at_def set_files_def dropped_def)
  then show ?thesis using c False by (intro exI[of _ "dcache st"]) (simp add: dcache_ok_other)
next
  case True
  let ?es = "files st FT_DIR"
  have s: "slot < length ?es" using s True by simp
  obtain d1 where d1: "dcache_purge (fid (?es ! slot)) st = Inr ((), st\<lparr>dcache := d1\<rparr>)"
    "dcache_ok (st\<lparr>dcache := d1\<rparr>)" "\<forall>h < NDCACHE. 0 \<le> d1 ! h \<longrightarrow> fid (?es ! nat (d1 ! h)) \<noteq> fid (?es ! slot)"
    using dcache_purge_ok[OF c] by blast
  have good: "dcache_ok (set_files FT_DIR (dropped slot) (st\<lparr>dcache := dc\<rparr>))"
    if dc: "dcache_ok (st\<lparr>dcache := dc\<rparr>)" "\<forall>h < NDCACHE. 0 \<le> dc ! h \<longrightarrow> nat (dc ! h) \<noteq> slot \<and> nat (dc ! h) \<noteq> length ?es - 1" for dc
  proof -
    have "nat (dc ! h) < length (dropped slot ?es) \<and> dropped slot ?es ! nat (dc ! h) = ?es ! nat (dc ! h)"
      if "h < NDCACHE" "0 \<le> dc ! h" for h
    proof -
      have "nat (dc ! h) < length ?es" using dc(1) that by (simp add: dcache_ok_def)
      moreover have "nat (dc ! h) \<noteq> slot" "nat (dc ! h) \<noteq> length ?es - 1" using dc(2) that by blast+
      ultimately show ?thesis by (auto simp: dropped_def nth_butlast)
    qed
    moreover have "dcache (set_files FT_DIR (dropped slot) (st\<lparr>dcache := dc\<rparr>)) = dc" by (simp add: set_files_def)
    ultimately show ?thesis using dc(1) by (simp add: dcache_ok_def files_set)
  qed
  show ?thesis
  proof (cases "slot = length ?es - 1")
    case last: True
    have "del_from_flist ft slot st = Inr ((), set_files ft (dropped slot) (st\<lparr>dcache := d1\<rparr>))"
      using s d1(1) True last by (simp add: del_from_flist_def fent_at_def set_files_def dropped_def)
    moreover have "\<forall>h < NDCACHE. 0 \<le> d1 ! h \<longrightarrow> nat (d1 ! h) \<noteq> slot \<and> nat (d1 ! h) \<noteq> length ?es - 1"
      using d1(3) last by auto
    ultimately show ?thesis using good[OF d1(2)] True by auto
  next
    case other: False
    obtain d2 where d2: "dcache_purge (fid (last ?es)) (st\<lparr>dcache := d1\<rparr>) = Inr ((), st\<lparr>dcache := d2\<rparr>)"
      "dcache_ok (st\<lparr>dcache := d2\<rparr>)" "\<forall>h < NDCACHE. d2 ! h = d1 ! h \<or> d2 ! h = -1"
      "\<forall>h < NDCACHE. 0 \<le> d2 ! h \<longrightarrow> fid (?es ! nat (d2 ! h)) \<noteq> fid (last ?es)"
      using dcache_purge_ok[OF d1(2), of "fid (last ?es)"] by auto
    have "last ?es = ?es ! (length ?es - 1)" using s by (intro last_conv_nth) auto
    have "\<forall>h < NDCACHE. 0 \<le> d2 ! h \<longrightarrow> nat (d2 ! h) \<noteq> slot \<and> nat (d2 ! h) \<noteq> length ?es - 1"
    proof (intro allI impI)
      fix h assume h: "h < NDCACHE" "0 \<le> d2 ! h"
      then have "d2 ! h = d1 ! h" using d2(3) by force
      then have "fid (?es ! nat (d2 ! h)) \<noteq> fid (?es ! slot)" using d1(3) h by auto
      moreover have "fid (?es ! nat (d2 ! h)) \<noteq> fid (?es ! (length ?es - 1))"
        using d2(4) h \<open>last ?es = _\<close> by simp
      ultimately show "nat (d2 ! h) \<noteq> slot \<and> nat (d2 ! h) \<noteq> length ?es - 1" by metis
    qed
    moreover have "del_from_flist ft slot st = Inr ((), set_files ft (dropped slot) (st\<lparr>dcache := d2\<rparr>))"
      using s d1(1) d2(1) True other by (simp add: del_from_flist_def fent_at_def set_files_def dropped_def)
    ultimately show ?thesis using good[OF d2(2)] True by auto
  qed
qed

lemma tab_del:
  assumes "uniq st" and "slot < length (files st ft)"
  shows "tab (set_files ft (dropped slot) (st\<lparr>dcache := dc\<rparr>)) = (tab st)(fid (files st ft ! slot) := None)"
  using tab_drop[of "st\<lparr>dcache := dc\<rparr>" slot ft] assms by simp

end
