(* ===== verification/Fss_Ops.thy ===== *)
theory Fss_Ops
  imports Fss_Table Fss_Paths
begin

text \<open>
  The operations of \<open>fsstress\<close> that make, remove and rename files, and those on extended
  attributes. \<open>r\<close> is the random number the operation is called with. Messages are left out; so is
  \<open>check_cwd\<close>, which is empty without \<open>DEBUG\<close>.
\<close>

section \<open>Calls\<close>

definition on_kern :: "('k \<Rightarrow> ('k, 'a) kres) \<Rightarrow> 'k fss \<Rightarrow> ('k, 'a) fss_run" where
  "on_kern f st = (case f (kern st) of
     Inl h \<Rightarrow> Inl (h, st)
   | Inr (x, k) \<Rightarrow> Inr (x, st\<lparr>kern := k\<rparr>))"

definition rnd :: "'k name_calls \<Rightarrow> 'k fss \<Rightarrow> int \<times> 'k fss" where
  "rnd K st = (case c_random K (kern st) of (r, k) \<Rightarrow> (r, st\<lparr>kern := k\<rparr>))"

text \<open>\<open>e = call < 0 ? errno : 0\<close>\<close>

definition err_of :: "int \<times> int \<Rightarrow> int" where
  "err_of = (\<lambda>(r, e). if r < 0 then e else 0)"

section \<open>New files\<close>

text \<open>The directory for a new file, if there is one, and its number or -1.\<close>

definition pick_parent :: "int \<Rightarrow> 'k fss \<Rightarrow> ('k, nat option \<times> int) fss_run" where
  "pick_parent r st =
     on_ok (get_fname FT_DIRm r False st) (\<lambda>((pos, _, _), st1).
       case pos of
         None \<Rightarrow> Inr ((None, -1), st1)
       | Some (ft, slot) \<Rightarrow> Inr ((Some slot, fid (files st1 ft ! slot)), st1))"

text \<open>
  When \<open>generate_fname\<close> fails it has not set its last argument, and the operation reads it: a fault.
\<close>

definition new_name :: "nat option \<Rightarrow> ftype \<Rightarrow> 'k fss \<Rightarrow> ('k, string \<times> int) fss_run" where
  "new_name dir ft st =
     on_ok (generate_fname dir ft st) (\<lambda>((name, i, _), st1).
       case name of None \<Rightarrow> Inl (Fault, st1) | Some p \<Rightarrow> Inr ((p, i), st1))"

text \<open>
  In an operation that has chosen a file before, the argument is set from there; after the failure it
  ends.
\<close>

definition new_path :: "nat option \<Rightarrow> ftype \<Rightarrow> 'k fss \<Rightarrow> ('k, (string \<times> int) option) fss_run" where
  "new_path dir ft st =
     on_ok (generate_fname dir ft st) (\<lambda>((name, i, _), st1). Inr (map_option (\<lambda>p. (p, i)) name, st1))"

definition creat_f :: "'k name_calls \<Rightarrow> int \<Rightarrow> 'k fss \<Rightarrow> ('k, unit) fss_run" where
  "creat_f K r st =
     on_ok (pick_parent r st) (\<lambda>((dir, parid), st1).
       (case rnd K st1 of (x, st2) \<Rightarrow>
          let e1 = x mod 100;
              ft = (if rtpct st2 \<noteq> 0 then if rtpct st2 < e1 then FT_REG else FT_RTF else FT_REG)
          in on_ok (new_name dir ft st2) (\<lambda>((p, i), st3).
             on_ok (on_kern (creat_path K p 0x1B6) st3) (\<lambda>(fd, st4).
               Inr ((), if 0 \<le> fst fd then add_to_flist ft i parid 0 st4 else st4)))))"

definition mkdir_f :: "'k name_calls \<Rightarrow> int \<Rightarrow> 'k fss \<Rightarrow> ('k, unit) fss_run" where
  "mkdir_f K r st =
     on_ok (pick_parent r st) (\<lambda>((dir, parid), st1).
     on_ok (new_name dir FT_DIR st1) (\<lambda>((p, i), st2).
     on_ok (on_kern (mkdir_path K p 0x1FF) st2) (\<lambda>(re, st3).
       Inr ((), if err_of re = 0 then add_to_flist FT_DIR i parid 0 st3 else st3))))"

abbreviation (input) CHR_0444 :: int where "CHR_0444 \<equiv> 0x2124"

definition mknod_f :: "'k name_calls \<Rightarrow> int \<Rightarrow> 'k fss \<Rightarrow> ('k, unit) fss_run" where
  "mknod_f K r st =
     on_ok (pick_parent r st) (\<lambda>((dir, parid), st1).
     on_ok (new_name dir FT_DEV st1) (\<lambda>((p, i), st2).
     on_ok (on_kern (mknod_path K p CHR_0444 0) st2) (\<lambda>(re, st3).
       Inr ((), if err_of re = 0 then add_to_flist FT_DEV i parid 0 st3 else st3))))"

text \<open>The value of a link: \<open>x\<close> with a slash at 10, 20 and so on, but not as the last character.\<close>

definition link_value :: "nat \<Rightarrow> string" where
  "link_value len = map (\<lambda>i. if 10 \<le> i \<and> i mod 10 = 0 \<and> i + 1 < len then CHR ''/'' else CHR ''x'') [0..<len]"

definition symlink_f :: "'k name_calls \<Rightarrow> int \<Rightarrow> 'k fss \<Rightarrow> ('k, unit) fss_run" where
  "symlink_f K r st =
     on_ok (pick_parent r st) (\<lambda>((dir, parid), st1).
     on_ok (new_name dir FT_SYM st1) (\<lambda>((p, i), st2).
       (case rnd K st2 of (x, st3) \<Rightarrow>
          on_ok (on_kern (symlink_path K (link_value (nat (x mod 4096))) p) st3) (\<lambda>(re, st4).
            Inr ((), if err_of re = 0 then add_to_flist FT_SYM i parid 0 st4 else st4)))))"

text \<open>The file chosen from those of some types, with its path; the operation ends if there is none.\<close>

definition with_file ::
  "nat \<Rightarrow> int \<Rightarrow> 'k fss \<Rightarrow> (ftype \<Rightarrow> nat \<Rightarrow> string \<Rightarrow> 'k fss \<Rightarrow> ('k, unit) fss_run) \<Rightarrow> ('k, unit) fss_run" where
  "with_file which r st f =
     on_ok (get_fname which r True st) (\<lambda>((pos, name, _), st1).
       case (pos, name) of
         (Some (ft, slot), Some p) \<Rightarrow> f ft slot p st1
       | _ \<Rightarrow> Inr ((), st1))"

definition link_f :: "'k name_calls \<Rightarrow> int \<Rightarrow> 'k fss \<Rightarrow> ('k, unit) fss_run" where
  "link_f K r st =
     with_file FT_NOTDIR r st (\<lambda>ft slot f st1.
       (case rnd K st1 of (r2, st2) \<Rightarrow>
          on_ok (pick_parent r2 st2) (\<lambda>((dir, parid), st3).
          on_ok (new_path dir ft st3) (\<lambda>(new, st4).
            case new of
              None \<Rightarrow> Inr ((), st4)
            | Some (l, i) \<Rightarrow>
                on_ok (on_kern (link_path K f l) st4) (\<lambda>(re, st5).
                  Inr ((), if err_of re = 0
                    then add_to_flist ft i parid (xattr_counter (files st5 ft ! slot)) st5 else st5))))))"

section \<open>Removing\<close>

definition rmdir_f :: "'k name_calls \<Rightarrow> int \<Rightarrow> 'k fss \<Rightarrow> ('k, unit) fss_run" where
  "rmdir_f K r st =
     with_file FT_DIRm r st (\<lambda>_ slot p st1.
       on_ok (on_kern (rmdir_path K p) st1) (\<lambda>(re, st2).
         if err_of re = 0 then del_from_flist FT_DIR slot st2 else Inr ((), st2)))"

definition unlink_f :: "'k name_calls \<Rightarrow> int \<Rightarrow> 'k fss \<Rightarrow> ('k, unit) fss_run" where
  "unlink_f K r st =
     with_file FT_NOTDIR r st (\<lambda>ft slot p st1.
       on_ok (on_kern (unlink_path K p) st1) (\<lambda>(re, st2).
         if err_of re = 0 then del_from_flist ft slot st2 else Inr ((), st2)))"

section \<open>Renaming\<close>

abbreviation (input) RENAME_NOREPLACE :: int where "RENAME_NOREPLACE \<equiv> 1"
abbreviation (input) RENAME_EXCHANGE :: int where "RENAME_EXCHANGE \<equiv> 2"
abbreviation (input) RENAME_WHITEOUT :: int where "RENAME_WHITEOUT \<equiv> 4"

definition ancestor_check :: "fent \<Rightarrow> int \<Rightarrow> 'k fss \<Rightarrow> ('k, bool) fss_run" where
  "ancestor_check fep d st =
     (case fents_ancestor_check fep d st of None \<Rightarrow> Inl (Hang, st) | Some r \<Rightarrow> r)"

definition set_counter :: "ftype \<Rightarrow> nat \<Rightarrow> int \<Rightarrow> 'k fss \<Rightarrow> 'k fss" where
  "set_counter ft slot n = set_files ft (\<lambda>es. es[slot := (es ! slot)\<lparr>xattr_counter := n\<rparr>])"

text \<open>
  What is renamed to: for an exchange, a file of the same type that is not above or below the first
  (\<open>Some slot\<close>); otherwise a new name. \<open>None\<close>: the operation ends.
\<close>

definition rename_target ::
  "'k name_calls \<Rightarrow> int \<Rightarrow> ftype \<Rightarrow> nat \<Rightarrow> 'k fss \<Rightarrow> ('k, (nat option \<times> string \<times> int \<times> int) option) fss_run" where
  "rename_target K mode ft slot st =
     (if mode = RENAME_EXCHANGE then
        (case rnd K st of (r2, st1) \<Rightarrow>
           on_ok (get_fname (2 ^ ft_index ft) r2 True st1) (\<lambda>((pos, name, _), st2).
             case (pos, name) of
               (Some (_, dslot), Some newf) \<Rightarrow>
                 (let fep = files st2 ft ! slot; dfep = files st2 ft ! dslot in
                  on_ok (if ft = FT_DIR then
                           on_ok (ancestor_check fep (fid dfep) st2) (\<lambda>(b, st3).
                             if b then Inr (True, st3) else ancestor_check dfep (fid fep) st3)
                         else Inr (False, st2)) (\<lambda>(related, st4).
                    Inr (if related then None else Some (Some dslot, newf, fid dfep, parent dfep), st4)))
             | _ \<Rightarrow> Inr (None, st2)))
      else
        (case rnd K st of (r2, st1) \<Rightarrow>
           on_ok (pick_parent r2 st1) (\<lambda>((dir, parid), st2).
           on_ok (new_path dir ft st2) (\<lambda>(new, st3).
             Inr (map_option (\<lambda>(newf, i). (None, newf, i, parid)) new, st3)))))"

text \<open>The tables after a rename that succeeded.\<close>

definition renamed ::
  "int \<Rightarrow> ftype \<Rightarrow> nat \<Rightarrow> nat option \<Rightarrow> int \<Rightarrow> int \<Rightarrow> 'k fss \<Rightarrow> ('k, unit) fss_run" where
  "renamed mode ft slot dslot i parid st =
     (let fep = files st ft ! slot;
          xc = xattr_counter fep;
          st1 = (if ft = FT_DIR then fix_parent (fid fep) i (mode = RENAME_EXCHANGE) st else st)
      in if mode = RENAME_WHITEOUT then
           Inr ((), add_to_flist ft i parid xc (set_counter ft slot 0 st1))
         else if mode = RENAME_EXCHANGE then
           (case dslot of
              None \<Rightarrow> Inl (Fault, st1)
            | Some d \<Rightarrow> Inr ((), set_counter ft d xc
                (set_counter ft slot (xattr_counter (files st1 ft ! d)) st1)))
         else
           on_ok (del_from_flist ft slot st1) (\<lambda>(_, st2). Inr ((), add_to_flist ft i parid xc st2)))"

definition do_renameat2 :: "'k name_calls \<Rightarrow> int \<Rightarrow> int \<Rightarrow> 'k fss \<Rightarrow> ('k, unit) fss_run" where
  "do_renameat2 K r mode st =
     with_file (if mode = RENAME_WHITEOUT then FT_DEVm else FT_ANYm) r st (\<lambda>ft slot f st1.
       on_ok (rename_target K mode ft slot st1) (\<lambda>(target, st2).
         case target of
           None \<Rightarrow> Inr ((), st2)
         | Some (dslot, newf, i, parid) \<Rightarrow>
             on_ok (on_kern (rename_path K f newf mode) st2) (\<lambda>(re, st3).
               if err_of re = 0 then renamed mode ft slot dslot i parid st3 else Inr ((), st3))))"

definition rename_f :: "'k name_calls \<Rightarrow> int \<Rightarrow> 'k fss \<Rightarrow> ('k, unit) fss_run" where
  "rename_f K r = do_renameat2 K r 0"

definition rnoreplace_f :: "'k name_calls \<Rightarrow> int \<Rightarrow> 'k fss \<Rightarrow> ('k, unit) fss_run" where
  "rnoreplace_f K r = do_renameat2 K r RENAME_NOREPLACE"

definition rexchange_f :: "'k name_calls \<Rightarrow> int \<Rightarrow> 'k fss \<Rightarrow> ('k, unit) fss_run" where
  "rexchange_f K r = do_renameat2 K r RENAME_EXCHANGE"

definition rwhiteout_f :: "'k name_calls \<Rightarrow> int \<Rightarrow> 'k fss \<Rightarrow> ('k, unit) fss_run" where
  "rwhiteout_f K r = do_renameat2 K r RENAME_WHITEOUT"

end
