(* ===== verification/Fss_Attrs.thy ===== *)
theory Fss_Attrs
  imports Fss_Ops
begin

text \<open>
  The operations on the extended attributes of a file, whose number is counted in its entry, and
  those that make one call on a path.
\<close>

abbreviation (input) XATTR_CREATE :: int where "XATTR_CREATE \<equiv> 1"
abbreviation (input) XATTR_REPLACE :: int where "XATTR_REPLACE \<equiv> 2"
abbreviation (input) XATTR_NAME_BUF_SIZE :: nat where "XATTR_NAME_BUF_SIZE \<equiv> 18"

text \<open>\<open>None\<close>: the name does not fit.\<close>

definition generate_xattr_name :: "int \<Rightarrow> nat \<Rightarrow> string option" where
  "generate_xattr_name xattr_num buflen =
     (let s = ''user.x'' @ fmt_d xattr_num in if length s < buflen then Some s else None)"

text \<open>The size of the array of characters counts the zero byte at its end.\<close>

definition charset :: string where
  "charset = ''0123456789'' @ ''abcdefghijklmnopqrstuvwxyz'' @ ''ABCDEFGHIJKLMNOPQRSTUVWXYZ'' @ [CHR 0x00]"

primrec gen_random_string :: "'k name_calls \<Rightarrow> nat \<Rightarrow> 'k fss \<Rightarrow> string \<times> 'k fss" where
  "gen_random_string K 0 st = ([], st)"
| "gen_random_string K (Suc n) st =
     (case rnd K st of (x, st1) \<Rightarrow>
      case gen_random_string K n st1 of (s, st2) \<Rightarrow>
        (charset ! nat (x mod int (length charset)) # s, st2))"

text \<open>The number of an attribute that should be there, or 0 for one that is not.\<close>

definition pick_xattr :: "'k name_calls \<Rightarrow> ftype \<Rightarrow> nat \<Rightarrow> 'k fss \<Rightarrow> int \<times> 'k fss" where
  "pick_xattr K ft slot st =
     (let n = xattr_counter (files st ft ! slot) in
      if 0 < n then (case rnd K st of (x, st1) \<Rightarrow> (x mod n + 1, st1)) else (0, st))"

text \<open>The number and the flag for an attribute to set.\<close>

definition pick_new_xattr :: "'k name_calls \<Rightarrow> ftype \<Rightarrow> nat \<Rightarrow> 'k fss \<Rightarrow> int \<times> int \<times> 'k fss" where
  "pick_new_xattr K ft slot st =
     (let n = xattr_counter (files st ft ! slot);
          (old, st1) = (if 0 < n then (case rnd K st of (x, s) \<Rightarrow> (x mod 2 \<noteq> 0, s)) else (False, st))
      in if old then
           (case rnd K st1 of (x, st2) \<Rightarrow>
            case rnd K st2 of (y, st3) \<Rightarrow> (x mod n + 1, if y mod 2 \<noteq> 0 then XATTR_REPLACE else 0, st3))
         else
           (case rnd K st1 of (y, st2) \<Rightarrow> (n + 1, if y mod 2 \<noteq> 0 then XATTR_CREATE else 0, st2)))"

definition setfattr_f :: "'k name_calls \<Rightarrow> int \<Rightarrow> 'k fss \<Rightarrow> ('k, unit) fss_run" where
  "setfattr_f K r st =
     with_file (FT_REGFILE OR FT_DIRm) r st (\<lambda>ft slot p st1.
       (case pick_new_xattr K ft slot st1 of (xattr_num, flag, st2) \<Rightarrow>
        case rnd K st2 of (x, st3) \<Rightarrow>
        case gen_random_string K (nat (x mod 101)) st3 of (v, st4) \<Rightarrow>
          (case generate_xattr_name xattr_num XATTR_NAME_BUF_SIZE of
             None \<Rightarrow> Inr ((), st4)
           | Some name \<Rightarrow>
               on_ok (on_kern (\<lambda>k. case c_setxattr K flag p name v k of (a, e, k1) \<Rightarrow> Inr ((a, e), k1)) st4) (\<lambda>(re, st5).
                 Inr ((), if err_of re = 0
                   then set_counter ft slot (xattr_counter (files st5 ft ! slot) + 1) st5 else st5)))))"

definition getfattr_f :: "'k name_calls \<Rightarrow> int \<Rightarrow> 'k fss \<Rightarrow> ('k, unit) fss_run" where
  "getfattr_f K r st =
     with_file (FT_REGFILE OR FT_DIRm) r st (\<lambda>ft slot p st1.
       (case pick_xattr K ft slot st1 of (xattr_num, st2) \<Rightarrow>
          (case generate_xattr_name xattr_num XATTR_NAME_BUF_SIZE of
             None \<Rightarrow> Inr ((), st2)
           | Some name \<Rightarrow>
               (case c_getxattr K 0 p name (kern st2) of (len, _, k1) \<Rightarrow>
                  if len \<le> 0 then Inr ((), st2\<lparr>kern := k1\<rparr>)
                  else (case c_getxattr K len p name k1 of (_, _, k2) \<Rightarrow> Inr ((), st2\<lparr>kern := k2\<rparr>))))))"

definition removefattr_f :: "'k name_calls \<Rightarrow> int \<Rightarrow> 'k fss \<Rightarrow> ('k, unit) fss_run" where
  "removefattr_f K r st =
     with_file (FT_REGFILE OR FT_DIRm) r st (\<lambda>ft slot p st1.
       (case pick_xattr K ft slot st1 of (xattr_num, st2) \<Rightarrow>
          (case generate_xattr_name xattr_num XATTR_NAME_BUF_SIZE of
             None \<Rightarrow> Inr ((), st2)
           | Some name \<Rightarrow>
               (case c_removexattr K p name (kern st2) of (_, _, k1) \<Rightarrow> Inr ((), st2\<lparr>kern := k1\<rparr>)))))"

section \<open>One call on a path\<close>

definition readlink_f :: "'k name_calls \<Rightarrow> int \<Rightarrow> 'k fss \<Rightarrow> ('k, unit) fss_run" where
  "readlink_f K r st =
     with_file 4 r st (\<lambda>_ _ p st1.
       on_ok (on_kern (readlink_path K p 4096) st1) (\<lambda>(_, st2). Inr ((), st2)))"

definition stat_f :: "'k name_calls \<Rightarrow> int \<Rightarrow> 'k fss \<Rightarrow> ('k, unit) fss_run" where
  "stat_f K r st =
     with_file FT_ANYm r st (\<lambda>_ _ p st1.
       on_ok (on_kern (lstat64_path K p) st1) (\<lambda>(_, st2). Inr ((), st2)))"

text \<open>The path of the file chosen, or \<open>.\<close> if there is none.\<close>

definition file_or_here :: "nat \<Rightarrow> int \<Rightarrow> 'k fss \<Rightarrow> ('k, string) fss_run" where
  "file_or_here which r st =
     on_ok (get_fname which r True st) (\<lambda>((_, name, _), st1).
       Inr (case name of None \<Rightarrow> ''.'' | Some p \<Rightarrow> p, st1))"

text \<open>The owner and group are cut to a random number of bits; a modulus of 0 traps.\<close>

definition chown_f :: "int \<Rightarrow> 'k name_calls \<Rightarrow> int \<Rightarrow> 'k fss \<Rightarrow> ('k, unit) fss_run" where
  "chown_f idmodulo K r st =
     on_ok (file_or_here FT_ANYm r st) (\<lambda>(p, st1).
       (case rnd K st1 of (u, st2) \<Rightarrow>
        case rnd K st2 of (g, st3) \<Rightarrow>
        case rnd K st3 of (x, st4) \<Rightarrow>
          if idmodulo = 0 then Inl (Fault, st4)
          else
            let nbits = nat (x mod idmodulo)
            in on_ok (on_kern (lchown_path K p (u32 u mod 2 ^ nbits) (u32 g mod 2 ^ nbits)) st4)
                 (\<lambda>(_, st5). Inr ((), st5))))"

end
