(* ===== verification/Fss_Tree.thy ===== *)
theory Fss_Tree
  imports Fss_Lookup_Ok Fss_Attrs
begin

text \<open>
  A directory tree: a map from the lists of names that lead from the root to a file to the kind of
  the file. \<open>namespace\<close> is the documented behaviour of the calls on names when nobody else changes
  that tree and no symbolic link leads anywhere, as those that \<open>fsstress\<close> makes: a path then
  resolves name by name. On it the functions \<open>*_path\<close> act as the call on the whole path would, and
  leave the working directory as it was.
\<close>

datatype kind = Dir | Reg | Sym | Dev

fun ft_kind :: "ftype \<Rightarrow> kind" where
  "ft_kind FT_DIR = Dir"
| "ft_kind FT_REG = Reg"
| "ft_kind FT_SYM = Sym"
| "ft_kind FT_DEV = Dev"
| "ft_kind FT_RTF = Reg"

type_synonym tree = "string list \<rightharpoonup> kind"

definition enter_dir :: "string list \<Rightarrow> string \<Rightarrow> string list" where
  "enter_dir w c = (if c = ''..'' then butlast w else if c = ''.'' \<or> c = [] then w else w @ [c])"

definition resolve :: "string list \<Rightarrow> string \<Rightarrow> string list" where
  "resolve w p = foldl enter_dir w (components p)"

lemma enter_plain: "plain c \<Longrightarrow> enter_dir w c = w @ [c]"
  by (simp add: plain_def enter_dir_def)

lemma foldl_plain: "\<forall>x \<in> set xs. plain x \<Longrightarrow> foldl enter_dir w xs = w @ xs"
  by (induction xs arbitrary: w) (simp_all add: enter_plain)

lemma resolve_joined: "xs \<noteq> [] \<Longrightarrow> \<forall>x \<in> set xs. plain x \<Longrightarrow> resolve w (joined xs) = w @ xs"
  by (simp add: resolve_def components_joined foldl_plain)

section \<open>Parts of paths\<close>

lemma resolve_split: "CHR ''/'' \<notin> set a \<Longrightarrow> resolve w (a @ CHR ''/'' # b) = resolve (enter_dir w a) b"
  by (simp add: resolve_def components_append)

lemma separate_None: "separate_pathname s = (buf, None) \<Longrightarrow> buf = []"
  by (auto simp: separate_pathname_def split: option.splits)

lemma separate_resolve:
  "separate_pathname s = (buf, Some p) \<Longrightarrow> plain buf \<Longrightarrow> resolve (w @ [buf]) p = resolve w s"
  using separate_components(2,3)[of s buf p] by (simp add: resolve_split enter_plain)

text \<open>A path on the way down: some \<open>..\<close>, and then names.\<close>

definition climbs :: "nat \<Rightarrow> string \<Rightarrow> bool" where
  "climbs m name \<longleftrightarrow> (\<exists>c. components name = replicate m ''..'' @ c \<and> (\<forall>x \<in> set c. plain x))"

lemma climbs_up: "climbs m name \<Longrightarrow> climbs (Suc m) (''../'' @ name)"
  unfolding climbs_def components_up by simp

lemma resolve_up: "resolve (w @ [buf]) (''../'' @ name) = resolve w name"
  using resolve_split[of "''..''" "w @ [buf]" name] by (simp add: enter_dir_def)

lemma climbs_buf:
  assumes "climbs m name" and "separate_pathname name = (buf, rest)"
  shows "buf = [] \<or> m = 0 \<and> plain buf \<or> 0 < m \<and> buf = ''..''"
    and "m = 0 \<Longrightarrow> rest = Some p \<Longrightarrow> climbs 0 p"
proof -
  obtain c where c: "components name = replicate m ''..'' @ c" "\<forall>x \<in> set c. plain x"
    using assms(1) by (auto simp: climbs_def)
  show "buf = [] \<or> m = 0 \<and> plain buf \<or> 0 < m \<and> buf = ''..''"
  proof (cases rest)
    case None
    then show ?thesis using assms(2) separate_None by simp
  next
    case (Some p)
    then show ?thesis using separate_components(1)[of name buf p] assms(2) c by (cases m) (auto simp: Cons_eq_append_conv)
  qed
  show "climbs 0 p" if "m = 0" "rest = Some p"
    using separate_components(1)[of name buf p] assms(2) c that by (auto simp: climbs_def)
qed

section \<open>The effects of the calls\<close>

definition move_tree :: "string list \<Rightarrow> string list \<Rightarrow> tree \<Rightarrow> tree" where
  "move_tree a b t = (\<lambda>x. if prefix b x then t (a @ drop (length b) x) else if prefix a x then None else t x)"

definition swap_tree :: "string list \<Rightarrow> string list \<Rightarrow> tree \<Rightarrow> tree" where
  "swap_tree a b t = (\<lambda>x. if prefix a x then t (b @ drop (length a) x)
     else if prefix b x then t (a @ drop (length b) x) else t x)"

text \<open>A successful call on one path or two changes the tree by a relation, a failed one not at all.\<close>

definition acts ::
  "('k \<Rightarrow> string list) \<Rightarrow> ('k \<Rightarrow> tree) \<Rightarrow> (string \<Rightarrow> 'k call) \<Rightarrow> (string list \<Rightarrow> tree \<Rightarrow> tree \<Rightarrow> bool) \<Rightarrow> bool" where
  "acts cwd tree call E \<longleftrightarrow> (\<forall>p k r e k'. call p k = (r, e, k') \<longrightarrow> cwd k' = cwd k
     \<and> (if 0 \<le> r then E (resolve (cwd k) p) (tree k) (tree k') else tree k' = tree k \<and> e \<noteq> 0))"

definition acts2 ::
  "('k \<Rightarrow> string list) \<Rightarrow> ('k \<Rightarrow> tree) \<Rightarrow> (string \<Rightarrow> string \<Rightarrow> 'k call)
     \<Rightarrow> (string list \<Rightarrow> string list \<Rightarrow> tree \<Rightarrow> tree \<Rightarrow> bool) \<Rightarrow> bool" where
  "acts2 cwd tree call E \<longleftrightarrow> (\<forall>p q k r e k'. call p q k = (r, e, k') \<longrightarrow> cwd k' = cwd k
     \<and> (if 0 \<le> r then E (resolve (cwd k) p) (resolve (cwd k) q) (tree k) (tree k')
        else tree k' = tree k \<and> e \<noteq> 0))"

definition makes :: "kind \<Rightarrow> string list \<Rightarrow> tree \<Rightarrow> tree \<Rightarrow> bool" where
  "makes kd a t t' \<longleftrightarrow> t a = None \<and> t' = t(a \<mapsto> kd)"

definition creates :: "string list \<Rightarrow> tree \<Rightarrow> tree \<Rightarrow> bool" where
  "creates a t t' \<longleftrightarrow> (t a = None \<longrightarrow> t' = t(a \<mapsto> Reg))"

definition unlinks :: "string list \<Rightarrow> tree \<Rightarrow> tree \<Rightarrow> bool" where
  "unlinks a t t' \<longleftrightarrow> t' = t(a := None)"

definition removes_dir :: "string list \<Rightarrow> tree \<Rightarrow> tree \<Rightarrow> bool" where
  "removes_dir a t t' \<longleftrightarrow> (\<forall>y. strict_prefix a y \<longrightarrow> t y = None) \<and> t' = t(a := None)"

definition links :: "string list \<Rightarrow> string list \<Rightarrow> tree \<Rightarrow> tree \<Rightarrow> bool" where
  "links a b t t' \<longleftrightarrow> t b = None \<and> t' = t(b := t a)"

definition renames :: "string list \<Rightarrow> string list \<Rightarrow> tree \<Rightarrow> tree \<Rightarrow> bool" where
  "renames a b t t' \<longleftrightarrow> (t b = None \<longrightarrow> \<not> prefix a b \<and> t' = move_tree a b t)"

definition exchanges :: "string list \<Rightarrow> string list \<Rightarrow> tree \<Rightarrow> tree \<Rightarrow> bool" where
  "exchanges a b t t' \<longleftrightarrow> \<not> strict_prefix a b \<and> \<not> strict_prefix b a \<and> t' = swap_tree a b t"

definition whites_out :: "string list \<Rightarrow> string list \<Rightarrow> tree \<Rightarrow> tree \<Rightarrow> bool" where
  "whites_out a b t t' \<longleftrightarrow> (t b = None \<longrightarrow> \<not> prefix a b \<and> t' = (move_tree a b t)(a \<mapsto> Dev))"

definition leaves :: "string list \<Rightarrow> tree \<Rightarrow> tree \<Rightarrow> bool" where
  "leaves a t t' \<longleftrightarrow> t' = t"

locale namespace =
  fixes K :: "'k name_calls" and cwd :: "'k \<Rightarrow> string list" and tree :: "'k \<Rightarrow> tree"
  assumes chdir: "c_chdir K p k = (r, e, k') \<Longrightarrow> r \<le> 0 \<and> tree k' = tree k
      \<and> (if r = 0 then p \<noteq> [] \<and> cwd k' = resolve (cwd k) p else cwd k' = cwd k \<and> e \<noteq> 0)"
    and chdir_up: "cwd k \<noteq> [] \<Longrightarrow> fst (c_chdir K ''..'' k) = 0"
    and random: "c_random K k = (r, k') \<Longrightarrow> 0 \<le> r \<and> cwd k' = cwd k \<and> tree k' = tree k"
    and creat: "acts cwd tree (c_creat K m) creates"
    and mkdir: "acts cwd tree (c_mkdir K m) (makes Dir)"
    and mknod: "acts cwd tree (c_mknod K CHR_0444 0) (makes Dev)"
    and symlink: "acts cwd tree (c_symlink K val) (makes Sym)"
    and unlink: "acts cwd tree (c_unlink K) unlinks"
    and rmdir: "acts cwd tree (c_rmdir K) removes_dir"
    and link: "acts2 cwd tree (c_link K) links"
    and rename: "acts2 cwd tree (c_rename K) renames"
    and noreplace: "acts2 cwd tree (c_renameat2 K RENAME_NOREPLACE) renames"
    and exchange: "acts2 cwd tree (c_renameat2 K RENAME_EXCHANGE) exchanges"
    and whiteout: "acts2 cwd tree (c_renameat2 K RENAME_WHITEOUT) whites_out"
    and lchown: "acts cwd tree (c_lchown K u g) leaves"
    and stat: "acts cwd tree (c_stat K) leaves"
    and lstat: "acts cwd tree (c_lstat K) leaves"
    and readlink: "acts cwd tree (c_readlink K n) leaves"
    and setxattr: "acts cwd tree (\<lambda>p. c_setxattr K fl p name v) leaves"
    and getxattr: "acts cwd tree (\<lambda>p. c_getxattr K n p name) leaves"
    and removexattr: "acts cwd tree (\<lambda>p. c_removexattr K p name) leaves"
begin

section \<open>Calls on one long path\<close>

text \<open>The outcome of a call on the whole path from the working directory.\<close>

definition outcome :: "('k \<Rightarrow> 'k \<Rightarrow> bool) \<Rightarrow> 'k \<Rightarrow> ('k, int \<times> int) kres \<Rightarrow> bool" where
  "outcome E k res \<longleftrightarrow> (\<exists>r e k'. res = Inr ((r, e), k') \<and> cwd k' = cwd k
     \<and> (if 0 \<le> r then E k k' else tree k' = tree k \<and> e \<noteq> 0))"

lemma back_up_ok:
  assumes "cwd k = w @ [c]"
  shows "\<exists>k'. back_up K re k = Inr (re, k') \<and> cwd k' = w \<and> tree k' = tree k"
proof -
  obtain r e k' where c: "c_chdir K ''..'' k = (r, e, k')" by (cases "c_chdir K ''..'' k")
  have "r = 0" using chdir_up[of k] c assms by simp
  then show ?thesis
    using chdir[OF c] assms c by (simp add: back_up_def resolve_def enter_dir_def)
qed

text \<open>
  A call on a long path: a step down, the rest of the call there, and back. Without a slash the
  step is to the empty name, and fails.
\<close>

lemma step_down:
  assumes c: "c_chdir K buf k1 = (rc, ec, k2)" and buf: "buf = [] \<or> plain buf" and r: "r < 0"
    and k1: "cwd k1 = cwd k" "tree k1 = tree k"
    and inner: "\<lbrakk>rc = 0; plain buf; cwd k2 = cwd k @ [buf]; tree k2 = tree k\<rbrakk> \<Longrightarrow>
      outcome (\<lambda>a b. Q (tree a) (tree b)) k2 res"
  shows "outcome (\<lambda>a b. Q (tree a) (tree b)) k
    (if rc = 0 then on_ok res (\<lambda>(re, k3). back_up K re k3) else Inr ((r, ec), k2))"
proof (cases "rc = 0")
  case False
  then show ?thesis using chdir[OF c] r k1 by (simp add: outcome_def)
next
  case True
  have p: "plain buf" using chdir[OF c] True buf by auto
  have k2: "tree k2 = tree k" "cwd k2 = cwd k @ [buf]"
    using chdir[OF c] True p components_single[of buf] k1 by (auto simp: resolve_def enter_plain plain_def)
  obtain r' e' k3 where o: "res = Inr ((r', e'), k3)" "cwd k3 = cwd k2"
    "if 0 \<le> r' then Q (tree k2) (tree k3) else tree k3 = tree k2 \<and> e' \<noteq> 0"
    using inner[OF True p k2(2,1)] by (auto simp: outcome_def)
  have "cwd k3 = cwd k @ [buf]" using o(2) k2(2) by simp
  then obtain k4 where "back_up K (r', e') k3 = Inr ((r', e'), k4)" "cwd k4 = cwd k" "tree k4 = tree k3"
    using back_up_ok by blast
  then show ?thesis using o k2 True by (auto simp: outcome_def)
qed

lemma long_path_ok:
  assumes "acts cwd tree call E" and "\<forall>c \<in> set (butlast (components name)). plain c"
  shows "outcome (\<lambda>a b. E (resolve (cwd k) name) (tree a) (tree b)) k (long_path K call name k)"
  using assms(2)
proof (induction "length name" arbitrary: name k rule: less_induct)
  case less
  obtain r e k1 where c: "call name k = (r, e, k1)" by (cases "call name k")
  have a: "cwd k1 = cwd k" "if 0 \<le> r then E (resolve (cwd k) name) (tree k) (tree k1) else tree k1 = tree k \<and> e \<noteq> 0"
    using assms(1) c by (auto simp: acts_def)
  show ?case
  proof (cases "0 \<le> r \<or> e \<noteq> ENAMETOOLONG")
    case True
    then show ?thesis using a c by (subst long_path.simps) (auto simp: outcome_def)
  next
    case False
    then have r: "r < 0" "tree k1 = tree k" using a by auto
    obtain buf rest where s: "separate_pathname name = (buf, rest)" by (cases "separate_pathname name")
    obtain rc ec k2 where d: "c_chdir K buf k1 = (rc, ec, k2)" by (cases "c_chdir K buf k1")
    have buf: "buf = [] \<or> plain buf"
      using s less.prems separate_None separate_components(1) by (cases rest) auto
    have "long_path K call name k = (if rc = 0
       then on_ok (case rest of None \<Rightarrow> Inr ((-1, EFAULT), k2) | Some p \<Rightarrow> long_path K call p k2)
         (\<lambda>(re, k3). back_up K re k3) else Inr ((r, ec), k2))"
      using False by (subst long_path.simps) (simp add: c s d)
    also have "outcome (\<lambda>a b. E (resolve (cwd k) name) (tree a) (tree b)) k \<dots>"
    proof (rule step_down[OF d buf r(1) a(1) r(2)])
      assume p: "plain buf" "cwd k2 = cwd k @ [buf]"
      then obtain p where rest: "rest = Some p" using s separate_None by (cases rest) (auto simp: plain_def)
      have "\<forall>c \<in> set (butlast (components p)). plain c" using s rest less.prems separate_components(1) by simp
      from less.hyps[OF _ this, of k2] show
        "outcome (\<lambda>a b. E (resolve (cwd k) name) (tree a) (tree b)) k2
           (case rest of None \<Rightarrow> Inr ((-1, EFAULT), k2) | Some p \<Rightarrow> long_path K call p k2)"
        using s rest p separate_shorter separate_resolve by simp
    qed
    finally show ?thesis .
  qed
qed

section \<open>Calls on two long paths\<close>

lemma long_paths_ok:
  assumes "acts2 cwd tree call E" and "climbs m name1" and "climbs n name2" and "m = 0 \<or> n = 0"
  shows "outcome (\<lambda>a b. E (resolve (cwd k) name1) (resolve (cwd k) name2) (tree a) (tree b)) k
    (long_paths K call name1 name2 k)"
proof -
  have "\<forall>m n. J = K \<longrightarrow> acts2 cwd tree call E \<longrightarrow> climbs m name1 \<longrightarrow> climbs n name2 \<longrightarrow> m = 0 \<or> n = 0 \<longrightarrow>
    outcome (\<lambda>a b. E (resolve (cwd k) name1) (resolve (cwd k) name2) (tree a) (tree b)) k
      (long_paths J call name1 name2 k)" for J
  proof (induction J call name1 name2 k rule: long_paths.induct)
    case (1 J call name1 name2 k)
    let ?Q = "\<lambda>a b. E (resolve (cwd k) name1) (resolve (cwd k) name2) (tree a) (tree b)"
    show ?case
    proof (intro allI impI)
      fix m n assume J: "J = K" and act: "acts2 cwd tree call E"
        and m: "climbs m name1" and n: "climbs n name2" and mn: "m = 0 \<or> n = 0"
      obtain r e k1 where c: "call name1 name2 k = (r, e, k1)" by (cases "call name1 name2 k")
      have a: "cwd k1 = cwd k"
        "if 0 \<le> r then E (resolve (cwd k) name1) (resolve (cwd k) name2) (tree k) (tree k1)
         else tree k1 = tree k \<and> e \<noteq> 0"
        using act c by (auto simp: acts2_def)
      show "outcome ?Q k (long_paths J call name1 name2 k)"
      proof (cases "0 \<le> r \<or> e \<noteq> ENAMETOOLONG")
        case True
        then show ?thesis using a c by (subst long_paths.simps) (auto simp: outcome_def)
      next
        case False
        then have r: "r < 0" "tree k1 = tree k" using a by auto
        obtain b1 w1 where s1: "separate_pathname name1 = (b1, w1)" by (cases "separate_pathname name1")
        obtain b2 w2 where s2: "separate_pathname name2 = (b2, w2)" by (cases "separate_pathname name2")
        note IH = "1.IH"[OF c[symmetric] refl False s1[symmetric] s2[symmetric]]
        have none: "w1 = None \<Longrightarrow> b1 = []" "w2 = None \<Longrightarrow> b2 = []"
          using s1 s2 separate_None by auto
        note buf = climbs_buf[OF m s1] climbs_buf[OF n s2]
        note res = separate_resolve[of name1 b1] separate_resolve[of name2 b2]
        consider "b1 = b2" | "b1 \<noteq> b2" "go_down_first name1 name2 b1 b2 w1 w2"
          | "b1 \<noteq> b2" "\<not> go_down_first name1 name2 b1 b2 w1 w2" by blast
        then show ?thesis
        proof cases
          case 1
          obtain rc ec k2 where d: "c_chdir K b1 k1 = (rc, ec, k2)" by (cases "c_chdir K b1 k1")
          have "long_paths J call name1 name2 k = (if rc = 0
             then on_ok (case (w1, w2) of (Some p1, Some p2) \<Rightarrow> long_paths J call p1 p2 k2
               | _ \<Rightarrow> Inr ((-1, EFAULT), k2)) (\<lambda>(re, k3). back_up K re k3) else Inr ((r, ec), k2))"
            using False 1 d J by (subst long_paths.simps) (simp add: c s1 s2)
          also have "outcome ?Q k \<dots>"
          proof (rule step_down[OF d _ r(1) a(1) r(2)])
            show "b1 = [] \<or> plain b1" using buf(1,3) 1 mn by auto
            assume p: "rc = 0" "plain b1" "cwd k2 = cwd k @ [b1]"
            then have b: "b1 \<noteq> []" "b1 \<noteq> ''..''" by (auto simp: plain_def)
            obtain p1 p2 where w: "w1 = Some p1" "w2 = Some p2" using none b 1 by (cases w1; cases w2) auto
            have mn: "m = 0" "n = 0" using buf(1,3) b 1 by auto
            then have "climbs 0 p1" "climbs 0 p2" using buf(2,4) w by auto
            then show "outcome ?Q k2 (case (w1, w2) of (Some p1, Some p2) \<Rightarrow> long_paths J call p1 p2 k2
               | _ \<Rightarrow> Inr ((-1, EFAULT), k2))"
              using IH(1)[OF 1 d[folded J, symmetric] refl p(1) refl w] J act res s1 s2 w p 1 by auto
          qed
          finally show ?thesis .
        next
          case 2
          obtain rc ec k2 where d: "c_chdir K b1 k1 = (rc, ec, k2)" by (cases "c_chdir K b1 k1")
          have "long_paths J call name1 name2 k = (if rc = 0
             then on_ok (case w1 of Some p1 \<Rightarrow> long_paths J call p1 (''../'' @ name2) k2
               | None \<Rightarrow> Inr ((-1, EFAULT), k2)) (\<lambda>(re, k3). back_up K re k3) else Inr ((r, ec), k2))"
            using False 2 d J by (subst long_paths.simps) (simp add: c s1 s2)
          also have "outcome ?Q k \<dots>"
          proof (rule step_down[OF d _ r(1) a(1) r(2)])
            show "b1 = [] \<or> plain b1" using buf(1) down_first_ok[OF 2(2)] by auto
            assume p: "rc = 0" "plain b1" "cwd k2 = cwd k @ [b1]"
            then have b: "b1 \<noteq> []" "b1 \<noteq> ''..''" by (auto simp: plain_def)
            obtain p1 where w: "w1 = Some p1" using none b by (cases w1) auto
            have "m = 0" using buf(1) b by auto
            then have "climbs 0 p1" using buf(2) w by auto
            then show "outcome ?Q k2 (case w1 of Some p1 \<Rightarrow> long_paths J call p1 (''../'' @ name2) k2
               | None \<Rightarrow> Inr ((-1, EFAULT), k2))"
              using IH(2)[OF 2(1,2) d[folded J, symmetric] refl p(1) w] J act res(1) s1 w p climbs_up[OF n] resolve_up
              by auto
          qed
          finally show ?thesis .
        next
          case 3
          obtain rc ec k2 where d: "c_chdir K b2 k1 = (rc, ec, k2)" by (cases "c_chdir K b2 k1")
          have "long_paths J call name1 name2 k = (if rc = 0
             then on_ok (case w2 of Some p2 \<Rightarrow> long_paths J call (''../'' @ name1) p2 k2
               | None \<Rightarrow> Inr ((-1, EFAULT), k2)) (\<lambda>(re, k3). back_up K re k3) else Inr ((r, ec), k2))"
            using False 3 d J by (subst long_paths.simps) (simp add: c s1 s2)
          also have "outcome ?Q k \<dots>"
          proof (rule step_down[OF d _ r(1) a(1) r(2)])
            show "b2 = [] \<or> plain b2" using buf(3) down_second_ok[OF 3(2,1)] by auto
            assume p: "rc = 0" "plain b2" "cwd k2 = cwd k @ [b2]"
            then have b: "b2 \<noteq> []" "b2 \<noteq> ''..''" by (auto simp: plain_def)
            obtain p2 where w: "w2 = Some p2" using none b by (cases w2) auto
            have "n = 0" using buf(3) b by auto
            then have "climbs 0 p2" using buf(4) w by auto
            then show "outcome ?Q k2 (case w2 of Some p2 \<Rightarrow> long_paths J call (''../'' @ name1) p2 k2
               | None \<Rightarrow> Inr ((-1, EFAULT), k2))"
              using IH(3)[OF 3(1,2) d[folded J, symmetric] refl p(1) w] J act res(2) s2 w p climbs_up[OF m] resolve_up
              by auto
          qed
          finally show ?thesis .
        qed
      qed
    qed
  qed
  then show ?thesis using assms by blast
qed

end

end
