(* ===== verification/Fss_Mirror.thy ===== *)
theory Fss_Mirror
  imports Fss_Tree
begin

text \<open>
  A set of paths of entries and a directory tree that is its mirror: the tree has a file at the
  names on each path, of the kind its entry says, and no other file. What the calls do to the tree
  is what the operations on the tables do to the set.
\<close>

text \<open>The files below a directory, by their names from there.\<close>

definition below :: "string list \<Rightarrow> tree \<Rightarrow> tree" where
  "below home t = (\<lambda>x. if x = [] then None else t (home @ x))"

lemma below_upd: "x \<noteq> [] \<Longrightarrow> below home (t(home @ x := v)) = (below home t)(x := v)"
  by (auto simp: below_def)

lemma below_move:
  "a \<noteq> [] \<Longrightarrow> b \<noteq> [] \<Longrightarrow> below home (move_tree (home @ a) (home @ b) t) = move_tree a b (below home t)"
  by (rule ext) (simp add: below_def move_tree_def)

lemma below_swap:
  "a \<noteq> [] \<Longrightarrow> b \<noteq> [] \<Longrightarrow> below home (swap_tree (home @ a) (home @ b) t) = swap_tree a b (below home t)"
  by (rule ext) (simp add: below_def swap_tree_def)

section \<open>The names on paths\<close>

abbreviation names :: "int \<Rightarrow> node list \<Rightarrow> string list" where
  "names nr \<equiv> map (node_name nr)"

lemma names_inj: "xs \<in> lists numbered \<Longrightarrow> ys \<in> lists numbered \<Longrightarrow> names nr xs = names nr ys \<longleftrightarrow> xs = ys"
  using inj_on_eq_iff[OF inj_on_map_lists[OF node_name_inj]] by blast

lemma names_append:
  assumes "xs \<in> lists numbered" and "ys \<in> lists numbered" and "names nr ys = names nr xs @ z"
  obtains zs where "ys = xs @ zs" "z = names nr zs" "zs \<in> lists numbered"
proof -
  obtain us zs where u: "ys = us @ zs" "names nr xs = names nr us" "z = names nr zs"
    using assms(3) by (auto simp: map_eq_append_conv)
  then have "us = xs" using names_inj[of us xs nr] assms(1,2) by auto
  then show thesis using that u assms(2) by auto
qed

lemma names_prefix:
  assumes "xs \<in> lists numbered" and "ys \<in> lists numbered"
  shows "prefix (names nr xs) (names nr ys) \<longleftrightarrow> prefix xs ys"
proof
  assume "prefix (names nr xs) (names nr ys)"
  then obtain z where "names nr ys = names nr xs @ z" by (auto simp: prefix_def)
  then show "prefix xs ys" using names_append[OF assms] by (metis prefixI)
qed (auto simp: prefix_def)

section \<open>Mirrors\<close>

abbreviation kind_of :: "node list \<Rightarrow> kind" where
  "kind_of xs \<equiv> ft_kind (fst (last xs))"

definition mirrors :: "int \<Rightarrow> node list set \<Rightarrow> tree \<Rightarrow> bool" where
  "mirrors nr P t \<longleftrightarrow> dom t = names nr ` P \<and> (\<forall>xs \<in> P. t (names nr xs) = Some (kind_of xs))"

lemma mirrorsD: "mirrors nr P t \<Longrightarrow> xs \<in> P \<Longrightarrow> t (names nr xs) = Some (kind_of xs)"
  by (simp add: mirrors_def)

lemma mirrorsE:
  assumes "mirrors nr P t" and "t x = Some kd"
  obtains xs where "xs \<in> P" "x = names nr xs" "kd = kind_of xs"
proof -
  have "x \<in> names nr ` P" using assms by (auto simp: mirrors_def)
  then show thesis using that mirrorsD[OF assms(1)] assms(2) by auto
qed

lemma mirrorsI:
  assumes "\<And>xs. xs \<in> P \<Longrightarrow> t (names nr xs) = Some (kind_of xs)"
    and "\<And>x kd. t x = Some kd \<Longrightarrow> x \<in> names nr ` P"
  shows "mirrors nr P t"
  unfolding mirrors_def using assms by fastforce

lemma mirrors_absent:
  assumes "mirrors nr P t" and "P \<subseteq> lists numbered" and "q \<in> lists numbered" and "q \<notin> P"
  shows "t (names nr q) = None"
proof (rule ccontr)
  assume "t (names nr q) \<noteq> None"
  then obtain xs where "xs \<in> P" "names nr q = names nr xs" using mirrorsE[OF assms(1)] by blast
  then show False using names_inj[of q xs nr] assms by auto
qed

lemma mirrors_add:
  assumes "mirrors nr P t" and "P \<subseteq> lists numbered" and "q \<in> lists numbered"
  shows "mirrors nr (insert q P) (t(names nr q \<mapsto> kind_of q))"
proof -
  have "xs = q" if "xs \<in> P" "names nr xs = names nr q" for xs
    using that names_inj[of xs q nr] assms(2,3) by auto
  then show ?thesis using assms(1) by (auto simp: mirrors_def)
qed

lemma mirrors_delete:
  assumes m: "mirrors nr P t" and n: "P \<subseteq> lists numbered" and x: "x \<in> P"
  shows "mirrors nr (P - {x}) (t(names nr x := None))"
proof (rule mirrorsI)
  fix xs assume "xs \<in> P - {x}"
  then show "(t(names nr x := None)) (names nr xs) = Some (kind_of xs)"
    using mirrorsD[OF m] names_inj[of xs x nr] n x by auto
next
  fix z kd assume "(t(names nr x := None)) z = Some kd"
  then have "z \<noteq> names nr x" "t z = Some kd" by (auto split: if_splits)
  then show "z \<in> names nr ` (P - {x})" using mirrorsE[OF m, of z kd] by blast
qed

lemma moved_in: "xs \<in> lists A \<Longrightarrow> q \<in> lists A \<Longrightarrow> moved p q xs \<in> lists A"
  by (auto simp: moved_def dest: in_set_dropD)

lemma kind_append: "kind_of p = kind_of q \<Longrightarrow> kind_of (q @ zs) = kind_of (p @ zs)"
  by (simp add: last_append)

lemma mirrors_move:
  assumes m: "mirrors nr P t" and n: "P \<subseteq> lists numbered" and p: "p \<in> P" and q: "q \<in> lists numbered"
    and fresh: "\<And>xs. xs \<in> P \<Longrightarrow> \<not> prefix q xs" and kd: "kind_of p = kind_of q"
  shows "mirrors nr (moved p q ` P) (move_tree (names nr p) (names nr q) t)"
proof (rule mirrorsI)
  fix xs assume "xs \<in> moved p q ` P"
  then obtain ys where y: "ys \<in> P" "xs = moved p q ys" by blast
  have ny: "ys \<in> lists numbered" "p \<in> lists numbered" using y n p by auto
  show "move_tree (names nr p) (names nr q) t (names nr xs) = Some (kind_of xs)"
  proof (cases "prefix p ys")
    case True
    then obtain zs where ys: "ys = p @ zs" by (auto simp: prefix_def)
    then have xs: "xs = q @ zs" using y by (simp add: moved_def)
    have "move_tree (names nr p) (names nr q) t (names nr xs) = t (names nr ys)"
      by (simp add: move_tree_def xs ys)
    then show ?thesis using mirrorsD[OF m y(1)] kind_append[OF kd, of zs] xs ys by simp
  next
    case False
    then have "xs = ys" using y by (simp add: moved_def)
    then show ?thesis using mirrorsD[OF m y(1)] fresh[OF y(1)] False names_prefix ny q
      by (simp add: move_tree_def)
  qed
next
  fix x kd assume x: "move_tree (names nr p) (names nr q) t x = Some kd"
  show "x \<in> names nr ` moved p q ` P"
  proof (cases "prefix (names nr q) x")
    case True
    then obtain z where z: "x = names nr q @ z" by (auto simp: prefix_def)
    then have "t (names nr p @ z) = Some kd" using x by (simp add: move_tree_def)
    then obtain ys where y: "ys \<in> P" "names nr ys = names nr p @ z" by (metis mirrorsE[OF m])
    then obtain zs where "ys = p @ zs" "z = names nr zs" using names_append[of p ys nr z] n p by auto
    then have "x = names nr (moved p q ys)" by (simp add: z moved_def)
    then show ?thesis using y(1) by blast
  next
    case False
    then have o: "\<not> prefix (names nr p) x" "t x = Some kd" using x by (auto simp: move_tree_def split: if_splits)
    then obtain ys where y: "ys \<in> P" "x = names nr ys" by (metis mirrorsE[OF m])
    then have "moved p q ys = ys" using o names_prefix[of p ys nr] n p by (auto simp: moved_def)
    then show ?thesis using y by force
  qed
qed

text \<open>Exchanging two paths, neither of which is above the other.\<close>

lemma swapped_simps:
  assumes "\<not> prefix p q" and "\<not> prefix q p"
  shows "swapped p q (p @ zs) = (if zs = [] then p else q @ zs)"
    and "swapped p q (q @ zs) = (if zs = [] then q else p @ zs)"
    and "\<not> prefix p xs \<Longrightarrow> \<not> prefix q xs \<Longrightarrow> swapped p q xs = xs"
  using assms prefix_same_cases[of p "q @ zs" q] by (auto simp: swapped_def strict_prefix_def)

lemma swap_tree_simps:
  assumes "\<not> prefix a b" and "\<not> prefix b a"
  shows "swap_tree a b t (a @ z) = t (b @ z)" and "swap_tree a b t (b @ z) = t (a @ z)"
    and "\<not> prefix a x \<Longrightarrow> \<not> prefix b x \<Longrightarrow> swap_tree a b t x = t x"
  using assms prefix_same_cases[of a "b @ z" b] by (auto simp: swap_tree_def)

lemma swap_flip:
  assumes "\<not> prefix p q" and "\<not> prefix q p"
  shows "swapped p q = swapped q p"
proof
  fix xs
  consider zs where "xs = p @ zs" | zs where "xs = q @ zs" | "\<not> prefix p xs" "\<not> prefix q xs"
    by (metis prefixE)
  then show "swapped p q xs = swapped q p xs"
    by cases (simp_all add: swapped_simps[OF assms] swapped_simps[OF assms(2,1)])
qed

lemma swap_one:
  assumes p: "p \<in> P" and apart: "\<not> prefix p q" "\<not> prefix q p" and y: "q @ zs \<in> P"
  shows "names nr p @ names nr zs \<in> names nr ` swapped p q ` P"
proof -
  have "p = swapped p q p" using swapped_simps(1)[OF apart, of "[]"] by simp
  moreover have "p @ zs = swapped p q (q @ zs)" if "zs \<noteq> []" using that swapped_simps(2)[OF apart] by simp
  ultimately have "p @ zs \<in> swapped p q ` P" using p y by (cases "zs = []") auto
  then show ?thesis by (metis imageI map_append)
qed

lemma mirrors_swap_apart:
  assumes m: "mirrors nr P t" and n: "P \<subseteq> lists numbered" and p: "p \<in> P" and q: "q \<in> P"
    and kd: "kind_of p = kind_of q" and apart: "\<not> prefix p q" "\<not> prefix q p"
  shows "mirrors nr (swapped p q ` P) (swap_tree (names nr p) (names nr q) t)"
proof (rule mirrorsI)
  have np: "p \<in> lists numbered" "q \<in> lists numbered" using n p q by auto
  note ap = apart[folded names_prefix[of p q nr, OF np] names_prefix[of q p nr, OF np(2,1)]]
  note one = swap_one[OF p apart] swap_one[OF q apart(2,1)]
  note flip = swap_flip[OF apart]
  {
    fix xs assume "xs \<in> swapped p q ` P"
    then obtain ys where y: "ys \<in> P" "xs = swapped p q ys" by blast
    consider zs where "ys = p @ zs" | zs where "ys = q @ zs" | "\<not> prefix p ys" "\<not> prefix q ys"
      by (metis prefixE)
    then show "swap_tree (names nr p) (names nr q) t (names nr xs) = Some (kind_of xs)"
    proof cases
      case 1
      show ?thesis using mirrorsD[OF m y(1)] mirrorsD[OF m q] 1 y(2) kd kind_append[OF kd, of zs]
        by (auto simp: swapped_simps[OF apart] swap_tree_simps[OF ap] swap_tree_simps(1)[OF ap, of t "[]", simplified])
    next
      case 2
      show ?thesis using mirrorsD[OF m y(1)] mirrorsD[OF m p] 2 y(2) kd kind_append[OF kd, of zs]
        by (auto simp: swapped_simps[OF apart] swap_tree_simps[OF ap] swap_tree_simps(2)[OF ap, of t "[]", simplified])
    next
      case 3
      have "ys \<in> lists numbered" using y n by auto
      then show ?thesis using mirrorsD[OF m y(1)] 3 names_prefix np y(2)
        by (simp add: swapped_simps[OF apart] swap_tree_simps[OF ap])
    qed
  next
    fix x kd' assume x: "swap_tree (names nr p) (names nr q) t x = Some kd'"
    consider z where "x = names nr p @ z" | z where "x = names nr q @ z"
      | "\<not> prefix (names nr p) x" "\<not> prefix (names nr q) x"
      by (metis prefixE)
    then show "x \<in> names nr ` swapped p q ` P"
    proof cases
      case 1
      then have "t (names nr q @ z) = Some kd'" using x by (simp add: swap_tree_simps[OF ap])
      then obtain ys where y: "ys \<in> P" "names nr ys = names nr q @ z" by (metis mirrorsE[OF m])
      then obtain zs where zs: "ys = q @ zs" "z = names nr zs" using names_append[of q ys nr z] np n by auto
      from y(1)[unfolded zs(1)] have "names nr p @ names nr zs \<in> names nr ` swapped p q ` P" by (rule one(1))
      then show ?thesis by (simp only: 1 zs(2))
    next
      case 2
      then have "t (names nr p @ z) = Some kd'" using x by (simp add: swap_tree_simps[OF ap])
      then obtain ys where y: "ys \<in> P" "names nr ys = names nr p @ z" by (metis mirrorsE[OF m])
      then obtain zs where zs: "ys = p @ zs" "z = names nr zs" using names_append[of p ys nr z] np n by auto
      from y(1)[unfolded zs(1)] have "names nr q @ names nr zs \<in> names nr ` swapped q p ` P" by (rule one(2))
      then show ?thesis by (simp only: 2 zs(2) flip)
    next
      case 3
      then have "t x = Some kd'" using x by (simp add: swap_tree_simps[OF ap])
      then obtain ys where y: "ys \<in> P" "x = names nr ys" by (metis mirrorsE[OF m])
      then have "ys \<in> lists numbered" using n by auto
      then have "swapped p q ys = ys"
        using 3 y(2) names_prefix[of p ys nr] names_prefix[of q ys nr] np by (simp add: swapped_simps(3)[OF apart])
      then show ?thesis using y by (metis imageI)
    qed
  }
qed

lemma mirrors_swap:
  assumes m: "mirrors nr P t" and n: "P \<subseteq> lists numbered" and p: "p \<in> P" and q: "q \<in> P"
    and kd: "kind_of p = kind_of q" and apart: "\<not> strict_prefix p q" "\<not> strict_prefix q p"
  shows "mirrors nr (swapped p q ` P) (swap_tree (names nr p) (names nr q) t)"
proof (cases "p = q")
  case True
  have "swapped p p xs = xs" for xs by (auto simp: swapped_def strict_prefix_def prefix_def)
  moreover have "swap_tree a a t = t" for a by (rule ext) (auto simp: swap_tree_def prefix_def)
  ultimately show ?thesis using m True by simp
next
  case False
  then show ?thesis using mirrors_swap_apart[OF m n p q kd] apart by (auto simp: strict_prefix_def)
qed

end
