(* ===== verification/Fss_Ops_Ok.thy ===== *)
theory Fss_Ops_Ok
  imports Fss_Mirror
begin

text \<open>
  The tables describe the directory tree. In a settled state they are a forest with entries of
  different numbers, the directories in \<open>dcache\<close> are where it says, the process is in its home
  directory, and the tree below it is the mirror of the tables. Every operation, on every branch,
  ends in a settled state.
\<close>

definition forest_ok :: "'k fss \<Rightarrow> bool" where
  "forest_ok st \<longleftrightarrow> uniq st \<and> dcache_ok st \<and> planted (tab st)
     \<and> (\<forall>i \<in> dom (tab st). 0 \<le> i \<and> i < nameseq st) \<and> 0 \<le> nameseq st"

definition settled :: "('k \<Rightarrow> string list) \<Rightarrow> ('k \<Rightarrow> tree) \<Rightarrow> string list \<Rightarrow> 'k fss \<Rightarrow> bool" where
  "settled cwd tree home st \<longleftrightarrow> forest_ok st \<and> cwd (kern st) = home
     \<and> mirrors (namerand st) (paths (tab st)) (below home (tree (kern st)))"

text \<open>The numbers fit 32 bits: as many files have been named, no more.\<close>

abbreviation (input) NUMBERS :: int where "NUMBERS \<equiv> 4294967296"

lemma tab_in_cong: "flists st' = flists st \<Longrightarrow> tab_in st' fts i = tab_in st fts i"
  by (induction fts) (simp_all add: files_def split: option.split)

lemma flists_cong:
  assumes "flists st' = flists st"
  shows "files st' = files st" "tab st' = tab st" "uniq st' = uniq st"
  using assms by (simp_all add: files_def[abs_def] tab_def fun_eq_iff tab_in_cong uniq_def)

lemma paths_numbered:
  assumes "forest_ok st" and "nameseq st \<le> NUMBERS"
  shows "paths (tab st) \<subseteq> lists numbered"
proof -
  have "nd \<in> numbered" if w: "walk (tab st) i xs" "nd \<in> set xs" for i xs nd
  proof (cases nd)
    case (Pair ft j)
    then obtain p where "tab st j = Some (ft, p)" using walk_node[OF w(1)] w(2) by blast
    then have "0 \<le> j \<and> j < nameseq st" using assms(1) unfolding forest_ok_def by blast
    then show ?thesis using assms(2) Pair by (auto simp: numbered_def)
  qed
  then show ?thesis by (auto simp: paths_def)
qed

text \<open>Steps that change neither the lists nor the tree.\<close>

definition quiet_step :: "('k \<Rightarrow> string list) \<Rightarrow> ('k \<Rightarrow> tree) \<Rightarrow> 'k fss \<Rightarrow> 'k fss \<Rightarrow> bool" where
  "quiet_step cwd tree st st' \<longleftrightarrow> flists st' = flists st \<and> (dcache_ok st \<longrightarrow> dcache_ok st')
     \<and> nameseq st \<le> nameseq st' \<and> namerand st' = namerand st
     \<and> cwd (kern st') = cwd (kern st) \<and> tree (kern st') = tree (kern st)"

lemma quiet_step_refl: "quiet_step cwd tree st st"
  by (simp add: quiet_step_def)

lemma quiet_step_trans: "quiet_step cwd tree a b \<Longrightarrow> quiet_step cwd tree b c \<Longrightarrow> quiet_step cwd tree a c"
  by (auto simp: quiet_step_def)

lemma quiet_step_kern:
  "cwd k = cwd (kern st) \<Longrightarrow> tree k = tree (kern st) \<Longrightarrow> quiet_step cwd tree st (st\<lparr>kern := k\<rparr>)"
  by (simp add: quiet_step_def) (simp add: dcache_ok_def files_def)

lemma quiet_step_dcache: "dcache_ok (st\<lparr>dcache := dc\<rparr>) \<Longrightarrow> quiet_step cwd tree st (st\<lparr>dcache := dc\<rparr>)"
  by (simp add: quiet_step_def)

lemma quiet_step_files:
  assumes "quiet_step cwd tree st st'"
  shows "files st' = files st" "tab st' = tab st" "uniq st' = uniq st" "namerand st' = namerand st"
    "nameseq st \<le> nameseq st'" "dcache_ok st \<Longrightarrow> dcache_ok st'"
    "cwd (kern st') = cwd (kern st)" "tree (kern st') = tree (kern st)"
proof -
  have f: "flists st' = flists st" using assms by (simp add: quiet_step_def)
  show "files st' = files st" "tab st' = tab st" "uniq st' = uniq st" using flists_cong[OF f] by blast+
qed (use assms in \<open>auto simp: quiet_step_def\<close>)

lemma quiet_step_forest:
  assumes "quiet_step cwd tree st st'" and "forest_ok st"
  shows "forest_ok st'"
proof -
  note q = quiet_step_files[OF assms(1)]
  have "0 \<le> i \<and> i < nameseq st'" if "i \<in> dom (tab st)" for i
    using that assms(2) q(5) unfolding forest_ok_def by (metis order_less_le_trans)
  then show ?thesis
    unfolding forest_ok_def q(2,3) using assms(2) q(5,6) unfolding forest_ok_def by auto
qed

lemma quiet_step_settled:
  assumes "quiet_step cwd tree st st'" and "settled cwd tree home st"
  shows "settled cwd tree home st'"
  using quiet_step_forest[OF assms(1)] assms(2) unfolding settled_def quiet_step_files[OF assms(1)] by blast

section \<open>Choosing files and names\<close>

lemma fids_dir:
  assumes "forest_ok st" and "slot < length (files st FT_DIR)"
  obtains pp where "under (tab st) (fid (files st FT_DIR ! slot)) pp" "walk (tab st) (fid (files st FT_DIR ! slot)) pp"
proof -
  let ?e = "files st FT_DIR ! slot"
  have t: "tab st (fid ?e) = Some (FT_DIR, parent ?e)" using assms by (simp add: forest_ok_def tab_entry)
  then obtain pp where "walk (tab st) (fid ?e) pp" using assms(1) planted_path by (metis forest_ok_def)
  moreover have "fid ?e \<noteq> -1" using t assms(1) by (auto simp: forest_ok_def planted_def)
  ultimately show thesis using that t by (simp add: under_def)
qed

definition parent_at :: "'k fss \<Rightarrow> nat option \<Rightarrow> int \<Rightarrow> node list \<Rightarrow> bool" where
  "parent_at st dir par pp \<longleftrightarrow> under (tab st) par pp \<and> (case dir of
     None \<Rightarrow> par = -1
   | Some slot \<Rightarrow> slot < length (files st FT_DIR) \<and> par = fid (files st FT_DIR ! slot)
       \<and> walk (tab st) par pp)"

lemma in_mask_FT_DIRm: "in_mask ft FT_DIRm \<Longrightarrow> ft = FT_DIR"
  by (cases ft) (simp_all add: in_mask_def FT_DIRm_def bit_Suc numeral_eq_Suc)

lemma pick_parent_ok:
  assumes "forest_ok st"
  obtains dir par pp st1 where "pick_parent r st = Inr ((dir, par), st1)" "quiet_step cwd tree st st1"
    "nameseq st1 = nameseq st" "parent_at st dir par pp"
proof -
  obtain name dc v pos where g: "get_fname FT_DIRm r False st = Inr ((pos, name, v), st\<lparr>dcache := dc\<rparr>)"
    and d: "dcache_ok (st\<lparr>dcache := dc\<rparr>)"
    and pos: "case pos of None \<Rightarrow> True | Some (ft, slot) \<Rightarrow> in_mask ft FT_DIRm \<and> slot < length (files st ft)"
    using get_fname_ok[of st FT_DIRm r False] assms unfolding forest_ok_def
    by (fastforce split: option.splits)
  show thesis
  proof (cases pos)
    case None
    show thesis
      by (rule that[of None "-1" "st\<lparr>dcache := dc\<rparr>" "[]"])
        (use g None quiet_step_dcache[OF d] in \<open>simp_all add: pick_parent_def parent_at_def under_def\<close>)
  next
    case (Some fs)
    then obtain slot where p: "pos = Some (FT_DIR, slot)" "slot < length (files st FT_DIR)"
      using pos in_mask_FT_DIRm by (cases fs) auto
    obtain pp where "under (tab st) (fid (files st FT_DIR ! slot)) pp" "walk (tab st) (fid (files st FT_DIR ! slot)) pp"
      using fids_dir[OF assms p(2)] .
    then show thesis
      using that[of "Some slot" "fid (files st FT_DIR ! slot)" "st\<lparr>dcache := dc\<rparr>" pp]
        g p quiet_step_dcache[OF d] by (simp add: pick_parent_def parent_at_def)
  qed
qed

lemma new_path_name: "new_name dir ft st = Inr (r, st1) \<Longrightarrow> new_path dir ft st = Inr (Some r, st1)"
  by (auto simp: new_name_def new_path_def on_ok_Inr_iff split: option.splits)

lemma new_name_ok:
  assumes "forest_ok st" and "parent_at st dir par pp"
  obtains st1 where "new_name dir ft st = Inr ((joined (names (namerand st) (pp @ [(ft, nameseq st)])), nameseq st), st1)"
    "quiet_step cwd tree st st1" "nameseq st1 = nameseq st + 1"
proof -
  let ?i = "nameseq st" and ?st = "st\<lparr>nameseq := nameseq st + 1\<rparr>"
  have q: "quiet_step cwd tree st ?st" by (simp add: quiet_step_def) (simp add: dcache_ok_def files_def)
  have f: "files ?st = files st" "tab ?st = tab st" using quiet_step_files[OF q] by auto
  have ok: "forest_ok ?st" using quiet_step_forest[OF q assms(1)] .
  show thesis
  proof (cases dir)
    case None
    then have "pp = []" using assms(2) by (auto simp: parent_at_def under_def)
    then show thesis
      using that[of ?st] q None by (simp add: new_name_def generate_fname_def Let_def node_name_def)
  next
    case (Some slot)
    let ?e = "files st FT_DIR ! slot"
    have s: "slot < length (files st FT_DIR)" "par = fid ?e" "walk (tab st) (fid ?e) pp"
      using assms(2) Some by (auto simp: parent_at_def)
    obtain xs dc where w: "walk (tab ?st) (fid ?e) xs"
      and e: "fent_to_name FT_DIR ?e ?st = Inr (Some (joined (names (namerand st) xs)), ?st\<lparr>dcache := dc\<rparr>)"
      and dc: "dcache_ok (?st\<lparr>dcache := dc\<rparr>)"
    proof (rule fent_to_name_ok[of ?st ?e FT_DIR])
      show "planted (tab ?st)" "uniq ?st" "dcache_ok ?st" using ok by (simp_all add: forest_ok_def)
      show "?e \<in> set (files ?st FT_DIR)" using s(1) f(1) by simp
    qed (use that in simp)
    have xs: "xs = pp" using walk_unique[OF s(3)] w f by simp
    have ne: "pp \<noteq> []" using walk_last[OF s(3)] by simp
    have "new_name dir ft st = Inr ((joined (names (namerand st) (pp @ [(ft, ?i)])), ?i), ?st\<lparr>dcache := dc\<rparr>)"
      using Some s(1) e ne xs f(1)
      by (simp add: new_name_def generate_fname_def Let_def fent_at_def joined_snoc node_name_def)
    then show thesis
      using that quiet_step_trans[OF q quiet_step_dcache[OF dc]] by simp
  qed
qed

section \<open>Calls in a settled state\<close>

text \<open>The run of an operation ends in a settled state, with one more name at most.\<close>

definition goes_on ::
  "('k \<Rightarrow> string list) \<Rightarrow> ('k \<Rightarrow> tree) \<Rightarrow> string list \<Rightarrow> 'k fss \<Rightarrow> ('k, unit) fss_run \<Rightarrow> bool" where
  "goes_on cwd tree home st res \<longleftrightarrow> (\<exists>st'. res = Inr ((), st') \<and> settled cwd tree home st'
     \<and> nameseq st \<le> nameseq st' \<and> nameseq st' \<le> nameseq st + 1 \<and> namerand st' = namerand st)"

lemma goes_on_quiet:
  assumes "settled cwd tree home st" and "quiet_step cwd tree st st'" and "nameseq st' \<le> nameseq st + 1"
  shows "goes_on cwd tree home st (Inr ((), st'))"
  using quiet_step_settled[OF assms(2,1)] assms(3) quiet_step_files[OF assms(2)] by (simp add: goes_on_def)

lemma settled_forest: "settled cwd tree home st \<Longrightarrow> forest_ok st"
  by (simp add: settled_def)

lemma get_file_ok:
  assumes st: "forest_ok st"
  obtains (none) v st1 where "get_fname which r True st = Inr ((None, None, v), st1)"
      "quiet_step cwd tree st st1" "nameseq st1 = nameseq st"
  | (some) ft slot xs v st1 where
      "get_fname which r True st = Inr ((Some (ft, slot), Some (joined (names (namerand st) xs)), v), st1)"
      "quiet_step cwd tree st st1" "nameseq st1 = nameseq st" "in_mask ft which"
      "slot < length (files st ft)" "walk (tab st) (fid (files st ft ! slot)) xs"
proof -
  have "planted (tab st)" "uniq st" "dcache_ok st" using st by (simp_all add: forest_ok_def)
  from get_fname_ok[OF this, of which r True] obtain name dc v pos where
    g: "get_fname which r True st = Inr ((pos, name, v), st\<lparr>dcache := dc\<rparr>)"
    and d: "dcache_ok (st\<lparr>dcache := dc\<rparr>)"
    and pos: "case pos of None \<Rightarrow> name = None \<and> totalsum st which = 0
       | Some (ft, slot) \<Rightarrow> in_mask ft which \<and> slot < length (files st ft)
           \<and> (True \<longrightarrow> (\<exists>xs. walk (tab st) (fid (files st ft ! slot)) xs
                \<and> name = Some (joined (names (namerand st) xs))))"
    by blast
  have q: "quiet_step cwd tree st (st\<lparr>dcache := dc\<rparr>)" using quiet_step_dcache[OF d] .
  show thesis
  proof (cases pos)
    case None
    then show thesis using none[OF _ q] g pos by simp
  next
    case (Some p)
    then obtain ft slot xs where "pos = Some (ft, slot)" "in_mask ft which" "slot < length (files st ft)"
      "walk (tab st) (fid (files st ft ! slot)) xs" "name = Some (joined (names (namerand st) xs))"
      using pos by (cases p) auto
    then show thesis using some[OF _ q] g by simp
  qed
qed

lemma with_file_ok:
  assumes st: "forest_ok st"
    and none: "\<And>st1. quiet_step cwd tree st st1 \<Longrightarrow> nameseq st1 = nameseq st \<Longrightarrow> Q (Inr ((), st1))"
    and some: "\<And>ft slot xs st1. \<lbrakk>quiet_step cwd tree st st1; nameseq st1 = nameseq st; in_mask ft which;
      slot < length (files st ft); walk (tab st) (fid (files st ft ! slot)) xs\<rbrakk> \<Longrightarrow>
      Q (f ft slot (joined (names (namerand st) xs)) st1)"
  shows "Q (with_file which r st f)"
  using st
proof (cases rule: get_file_ok[of st which r cwd tree])
  case (none v st1)
  then show ?thesis using assms(2) by (simp add: with_file_def)
next
  case (some ft slot xs v st1)
  then show ?thesis using assms(3) by (simp add: with_file_def)
qed

lemma dcache_ok_add:
  assumes "dcache_ok st"
  shows "dcache_ok (add_to_flist ft i par xc st)"
proof -
  have f: "files (add_to_flist ft i par xc st) FT_DIR ! n = files st FT_DIR ! n
      \<and> n < length (files (add_to_flist ft i par xc st) FT_DIR)" if "n < length (files st FT_DIR)" for n
    using that by (auto simp: files_add nth_append)
  have "dcache (add_to_flist ft i par xc st) = dcache st" by (simp add: add_to_flist_def Let_def)
  then show ?thesis using assms f unfolding dcache_ok_def by simp
qed

lemma add_fields [simp]:
  "kern (add_to_flist ft i par xc st) = kern st" "nameseq (add_to_flist ft i par xc st) = nameseq st"
  "namerand (add_to_flist ft i par xc st) = namerand st"
  by (simp_all add: add_to_flist_def Let_def)

lemma forest_add:
  assumes "forest_ok st" and "tab st i = None" and "0 \<le> i" "i < nameseq st" and "under (tab st) par pp"
  shows "forest_ok (add_to_flist ft i par xc st)"
    and "paths (tab (add_to_flist ft i par xc st)) = insert (pp @ [(ft, i)]) (paths (tab st))"
proof -
  have t: "tab (add_to_flist ft i par xc st) = (tab st)(i \<mapsto> (ft, par))"
    using tab_add[OF _ assms(2)] assms(1) unfolding forest_ok_def by blast
  have "planted (tab st)" using assms(1) by (simp add: forest_ok_def)
  from paths_add[OF this assms(2) _ assms(5), of ft] assms(3)
  have p: "planted ((tab st)(i \<mapsto> (ft, par)))" "paths ((tab st)(i \<mapsto> (ft, par))) = insert (pp @ [(ft, i)]) (paths (tab st))"
    by auto
  show "paths (tab (add_to_flist ft i par xc st)) = insert (pp @ [(ft, i)]) (paths (tab st))"
    using p(2) t by simp
  show "forest_ok (add_to_flist ft i par xc st)"
    using assms p(1) uniq_add dcache_ok_add unfolding forest_ok_def t by auto
qed

lemma under_walk_set: "under M par pp \<Longrightarrow> (ft, j) \<in> set pp \<Longrightarrow> \<exists>p. M j = Some (ft, p)"
  using walk_node by (auto simp: under_def split: if_splits)

lemma new_path_numbered:
  assumes "forest_ok st" and "nameseq st \<le> NUMBERS" and "under (tab st) par pp" and "0 \<le> i" "i < nameseq st"
  shows "pp @ [(ft, i)] \<in> lists numbered"
proof -
  have "nd \<in> numbered" if nd: "nd \<in> set pp" for nd
  proof (cases nd)
    case (Pair g j)
    then obtain p where "tab st j = Some (g, p)" using under_walk_set[OF assms(3)] nd by blast
    then have "0 \<le> j \<and> j < nameseq st" using assms(1) unfolding forest_ok_def by blast
    then show ?thesis using assms(2) Pair by (auto simp: numbered_def)
  qed
  then show ?thesis using assms(2,4,5) by (auto simp: numbered_def)
qed

text \<open>Nothing is below the new name.\<close>

lemma new_path_fresh:
  assumes "tab st i = None" and "xs \<in> paths (tab st)"
  shows "\<not> prefix (pp @ [(ft, i)]) xs"
proof
  assume "prefix (pp @ [(ft, i)]) xs"
  then have "(ft, i) \<in> set xs" by (auto simp: prefix_def)
  then show False using assms walk_node by (fastforce simp: paths_def)
qed

text \<open>A file has been made at a new name, and is entered.\<close>

lemma settled_add:
  assumes st: "settled cwd tree home st" and n: "nameseq st \<le> NUMBERS"
    and i: "tab st i = None" "0 \<le> i" "i < nameseq st" and u: "under (tab st) par pp"
    and k: "cwd k = home" "tree k = (tree (kern st))(home @ names (namerand st) (pp @ [(ft, i)]) \<mapsto> ft_kind ft)"
  shows "settled cwd tree home (add_to_flist ft i par xc (st\<lparr>kern := k\<rparr>))"
proof -
  let ?st = "st\<lparr>kern := k\<rparr>" and ?q = "pp @ [(ft, i)]"
  have f: "files ?st = files st" "tab ?st = tab st" "uniq ?st = uniq st"
    using flists_cong[of ?st st] by simp_all
  have "dcache_ok ?st = dcache_ok st" by (simp add: dcache_ok_def f)
  then have ok: "forest_ok ?st" using settled_forest[OF st] unfolding forest_ok_def f by simp
  have fa: "forest_ok (add_to_flist ft i par xc ?st)"
    "paths (tab (add_to_flist ft i par xc ?st)) = insert ?q (paths (tab st))"
    using forest_add[OF ok, of i par pp ft xc] i u unfolding f by simp_all
  have m: "mirrors (namerand st) (paths (tab st)) (below home (tree (kern st)))" using st by (simp add: settled_def)
  have "mirrors (namerand st) (insert ?q (paths (tab st))) ((below home (tree (kern st)))(names (namerand st) ?q \<mapsto> kind_of ?q))"
    using mirrors_add[OF m paths_numbered[OF settled_forest[OF st] n] new_path_numbered[OF settled_forest[OF st] n u i(2,3)]] .
  then show ?thesis using fa k below_upd[of "names (namerand st) ?q"] by (simp add: settled_def)
qed

context namespace
begin

lemma rnd_quiet:
  assumes "rnd K st = (x, st1)"
  shows "quiet_step cwd tree st st1" "nameseq st1 = nameseq st" "0 \<le> x"
proof -
  obtain k where k: "c_random K (kern st) = (x, k)" "st1 = st\<lparr>kern := k\<rparr>"
    using assms by (auto simp: rnd_def split: prod.splits)
  then show "quiet_step cwd tree st st1" "nameseq st1 = nameseq st" "0 \<le> x"
    using random[OF k(1)] quiet_step_kern[of cwd k st tree] by simp_all
qed

text \<open>A call, by its outcome.\<close>

lemma on_kern_outcome:
  assumes "outcome E (kern st) (f (kern st))"
  obtains r e k where "on_kern f st = Inr ((r, e), st\<lparr>kern := k\<rparr>)" "cwd k = cwd (kern st)"
    "0 \<le> r \<Longrightarrow> E (kern st) k" "r < 0 \<Longrightarrow> tree k = tree (kern st) \<and> e \<noteq> 0"
proof -
  obtain r e k where "f (kern st) = Inr ((r, e), k)" "cwd k = cwd (kern st)"
    "if 0 \<le> r then E (kern st) k else tree k = tree (kern st) \<and> e \<noteq> 0"
    using assms unfolding outcome_def by blast
  then show thesis using that[of r e k] by (simp add: on_kern_def split: if_splits)
qed

lemma err_of_zero: "(r < 0 \<Longrightarrow> e \<noteq> 0) \<Longrightarrow> err_of (r, e) = 0 \<longleftrightarrow> 0 \<le> r"
  by (auto simp: err_of_def)

lemma made_ok:
  assumes st: "settled cwd tree home st" and n: "nameseq st \<le> NUMBERS"
    and i: "tab st i = None" "0 \<le> i" "i < nameseq st" and u: "under (tab st) par pp"
    and out: "outcome (\<lambda>a b. Q (tree a) (tree b)) (kern st) (f (kern st))"
    and Q: "\<And>t'. Q (tree (kern st)) t' \<Longrightarrow> tree (kern st) (home @ names (namerand st) (pp @ [(ft, i)])) = None \<Longrightarrow>
      t' = (tree (kern st))(home @ names (namerand st) (pp @ [(ft, i)]) \<mapsto> ft_kind ft)"
    and c: "\<And>r e. (r < 0 \<Longrightarrow> e \<noteq> 0) \<Longrightarrow> c (r, e) \<longleftrightarrow> 0 \<le> r"
  shows "\<exists>st'. on_ok (on_kern f st) (\<lambda>(re, st1).
      Inr ((), if c re then add_to_flist ft i par (xc st1) st1 else st1)) = Inr ((), st')
    \<and> settled cwd tree home st' \<and> nameseq st' = nameseq st \<and> namerand st' = namerand st"
proof -
  let ?q = "pp @ [(ft, i)]"
  obtain r e k where o: "on_kern f st = Inr ((r, e), st\<lparr>kern := k\<rparr>)" "cwd k = cwd (kern st)"
    "0 \<le> r \<Longrightarrow> Q (tree (kern st)) (tree k)" "r < 0 \<Longrightarrow> tree k = tree (kern st) \<and> e \<noteq> 0"
    using on_kern_outcome[of "\<lambda>a b. Q (tree a) (tree b)" st f, OF out] by blast
  have c': "c (r, e) \<longleftrightarrow> 0 \<le> r" using o(4) by (intro c) simp
  show ?thesis
  proof (cases "0 \<le> r")
    case True
    have "below home (tree (kern st)) (names (namerand st) ?q) = None"
    proof (rule mirrors_absent)
      show "mirrors (namerand st) (paths (tab st)) (below home (tree (kern st)))" using st by (simp add: settled_def)
      show "paths (tab st) \<subseteq> lists numbered" using paths_numbered settled_forest st n by blast
      show "?q \<in> lists numbered" using new_path_numbered[OF settled_forest[OF st] n u i(2,3)] .
      show "?q \<notin> paths (tab st)" using new_path_fresh[OF i(1), of ?q pp ft] by auto
    qed
    then have "tree k = (tree (kern st))(home @ names (namerand st) ?q \<mapsto> ft_kind ft)"
      using Q[OF o(3)[OF True]] by (simp add: below_def)
    then have "settled cwd tree home (add_to_flist ft i par (xc (st\<lparr>kern := k\<rparr>)) (st\<lparr>kern := k\<rparr>))"
      using settled_add[OF st n i u] o(2) st by (simp add: settled_def)
    then show ?thesis using True o(1) c' by simp
  next
    case False
    then have "quiet_step cwd tree st (st\<lparr>kern := k\<rparr>)" using o(2,4) quiet_step_kern[of cwd k st tree] by simp
    then have "settled cwd tree home (st\<lparr>kern := k\<rparr>)" using quiet_step_settled st by blast
    then show ?thesis using False o(1) c' by simp
  qed
qed

end

end
