(* ===== verification/Fss_Dir_Ok.thy ===== *)
theory Fss_Dir_Ok
  imports Fss_Ops_Ok
begin

text \<open>
  Each operation on the directory tree goes on from a settled state to a settled state: what it
  enters in the tables, or takes out, is what its call did to the tree.
\<close>

lemma plain_names: "\<forall>x \<in> set (names nr q). plain x"
  using plain_name by auto

lemma components_names: "q \<noteq> [] \<Longrightarrow> components (joined (names nr q)) = names nr q"
  using components_joined[of "names nr q"] plain_names[of nr q] by simp

lemma names_ok: "\<forall>c \<in> set (butlast (components (joined (names nr xs)))). plain c"
proof (cases "xs = []")
  case False
  then show ?thesis using plain_names[of nr xs] in_set_butlastD unfolding components_names[OF False] by fast
qed simp

lemma climbs_names: "q \<noteq> [] \<Longrightarrow> climbs 0 (joined (names nr q))"
  using components_names[of q nr] plain_names[of nr q] by (simp add: climbs_def)

lemma parent_at_quiet: "parent_at st dir par pp \<Longrightarrow> quiet_step cwd tree st st1 \<Longrightarrow> parent_at st1 dir par pp"
  by (frule quiet_step_files(1), frule quiet_step_files(2)) (cases dir; auto simp: parent_at_def)

lemma goes_on_from:
  assumes "goes_on cwd tree home st1 res" and "quiet_step cwd tree st st1" and "nameseq st1 = nameseq st"
  shows "goes_on cwd tree home st res"
  using assms quiet_step_files(4)[OF assms(2)] by (auto simp: goes_on_def)

lemma parent_ok:
  assumes st: "settled cwd tree home st"
    and g: "\<And>dir par pp st1. \<lbrakk>settled cwd tree home st1; nameseq st1 = nameseq st; parent_at st1 dir par pp;
      quiet_step cwd tree st st1\<rbrakk> \<Longrightarrow> goes_on cwd tree home st1 (g dir par st1)"
  shows "goes_on cwd tree home st (on_ok (pick_parent r st) (\<lambda>((dir, par), st1). g dir par st1))"
proof -
  obtain dir par pp st1 where p: "pick_parent r st = Inr ((dir, par), st1)" and q: "quiet_step cwd tree st st1"
    and n: "nameseq st1 = nameseq st" and a: "parent_at st dir par pp"
    by (rule pick_parent_ok[OF settled_forest[OF st], where cwd = cwd and tree = tree and r = r])
  have "goes_on cwd tree home st1 (g dir par st1)"
    using g[OF quiet_step_settled[OF q st] n parent_at_quiet[OF a q] q] .
  then show ?thesis using goes_on_from[OF _ q n] p by simp
qed

text \<open>A state with a number that no file has yet, for a new file in a directory.\<close>

definition new_number ::
  "('k \<Rightarrow> string list) \<Rightarrow> ('k \<Rightarrow> tree) \<Rightarrow> string list \<Rightarrow> 'k fss \<Rightarrow> int \<Rightarrow> int \<Rightarrow> node list \<Rightarrow> bool" where
  "new_number cwd tree home st i par pp \<longleftrightarrow> settled cwd tree home st \<and> nameseq st \<le> NUMBERS
     \<and> tab st i = None \<and> 0 \<le> i \<and> i < nameseq st \<and> under (tab st) par pp"

lemma new_number_quiet:
  assumes "new_number cwd tree home st i par pp" and q: "quiet_step cwd tree st st1" and n: "nameseq st1 = nameseq st"
  shows "new_number cwd tree home st1 i par pp"
  using assms(1) quiet_step_settled[OF q] unfolding new_number_def quiet_step_files[OF q] n by blast

definition settles ::
  "('k \<Rightarrow> string list) \<Rightarrow> ('k \<Rightarrow> tree) \<Rightarrow> string list \<Rightarrow> 'k fss \<Rightarrow> ('k, unit) fss_run \<Rightarrow> bool" where
  "settles cwd tree home st res \<longleftrightarrow> (\<exists>st'. res = Inr ((), st') \<and> settled cwd tree home st'
     \<and> nameseq st' = nameseq st \<and> namerand st' = namerand st)"

lemma settles_from:
  assumes "settles cwd tree home st1 res" and "quiet_step cwd tree st st1" and "nameseq st1 = nameseq st"
  shows "settles cwd tree home st res"
  using assms quiet_step_files(4)[OF assms(2)] by (auto simp: settles_def)

lemma settles_goes_on: "settles cwd tree home st res \<Longrightarrow> goes_on cwd tree home st res"
  by (auto simp: settles_def goes_on_def)

lemma new_file_ok:
  assumes st: "settled cwd tree home st" and n: "nameseq st < NUMBERS" and a: "parent_at st dir par pp"
    and g: "\<And>i p st1. \<lbrakk>new_number cwd tree home st1 i par pp; quiet_step cwd tree st st1;
      p = joined (names (namerand st1) (pp @ [(ft, i)]))\<rbrakk> \<Longrightarrow> settles cwd tree home st1 (g p i st1)"
  shows "goes_on cwd tree home st (on_ok (new_name dir ft st) (\<lambda>((p, i), st1). g p i st1))"
    and "goes_on cwd tree home st (on_ok (new_path dir ft st) (\<lambda>(new, st1).
      case new of None \<Rightarrow> Inr ((), st1) | Some (p, i) \<Rightarrow> g p i st1))"
proof -
  let ?i = "nameseq st"
  obtain st1 where p: "new_name dir ft st = Inr ((joined (names (namerand st) (pp @ [(ft, ?i)])), ?i), st1)"
    and q: "quiet_step cwd tree st st1" and n1: "nameseq st1 = nameseq st + 1"
    by (rule new_name_ok[OF settled_forest[OF st] a, where cwd = cwd and tree = tree and ft = ft])
  have "tab st ?i = None" "0 \<le> ?i" using settled_forest[OF st] unfolding forest_ok_def domIff by blast+
  then have "new_number cwd tree home st1 ?i par pp"
    using quiet_step_settled[OF q st] n n1 a unfolding new_number_def quiet_step_files[OF q]
    by (simp add: parent_at_def)
  then have "settles cwd tree home st1 (g (joined (names (namerand st) (pp @ [(ft, ?i)]))) ?i st1)"
    using g[OF _ q] quiet_step_files(4)[OF q] by simp
  then have "goes_on cwd tree home st (g (joined (names (namerand st) (pp @ [(ft, ?i)]))) ?i st1)"
    using n1 quiet_step_files(4)[OF q] by (auto simp: goes_on_def settles_def)
  then show "goes_on cwd tree home st (on_ok (new_name dir ft st) (\<lambda>((p, i), st1). g p i st1))"
    and "goes_on cwd tree home st (on_ok (new_path dir ft st) (\<lambda>(new, st1).
      case new of None \<Rightarrow> Inr ((), st1) | Some (p, i) \<Rightarrow> g p i st1))"
    using p new_path_name[OF p] by simp_all
qed

context namespace
begin

lemma path_outcome:
  assumes "acts cwd tree call E" and "q \<noteq> []" and "cwd k = home"
  shows "outcome (\<lambda>a b. E (home @ names nr q) (tree a) (tree b)) k (long_path K call (joined (names nr q)) k)"
  using long_path_ok[OF assms(1) names_ok, of k nr q] plain_names[of nr q]
    resolve_joined[of "names nr q" home] assms(2,3) by simp

lemma paths_outcome:
  assumes "acts2 cwd tree call E" and "p \<noteq> []" and "q \<noteq> []" and "cwd k = home"
  shows "outcome (\<lambda>a b. E (home @ names nr p) (home @ names nr q) (tree a) (tree b)) k
    (long_paths K call (joined (names nr p)) (joined (names nr q)) k)"
  using long_paths_ok[OF assms(1) climbs_names[OF assms(2)] climbs_names[OF assms(3)], of k nr nr]
    resolve_joined[of "names nr p" home] resolve_joined[of "names nr q" home] plain_names[of nr] assms by simp

section \<open>Making files\<close>

lemma make_ok:
  assumes n: "new_number cwd tree home st i par pp" and p: "p = joined (names (namerand st) (pp @ [(ft, i)]))"
    and call: "acts cwd tree call E" "f (kern st) = long_path K call p (kern st)"
    and E: "\<And>a t t'. E a t t' \<Longrightarrow> t a = None \<Longrightarrow> t' = t(a \<mapsto> ft_kind ft)"
    and c: "\<And>r e. (r < 0 \<Longrightarrow> e \<noteq> 0) \<Longrightarrow> c (r, e) \<longleftrightarrow> 0 \<le> r"
  shows "settles cwd tree home st (on_ok (on_kern f st) (\<lambda>(re, st1).
      Inr ((), if c re then add_to_flist ft i par (xc st1) st1 else st1)))"
proof -
  have "settled cwd tree home st" "nameseq st \<le> NUMBERS" "tab st i = None" "0 \<le> i" "i < nameseq st"
    "under (tab st) par pp" using n by (simp_all add: new_number_def)
  moreover have "cwd (kern st) = home" using n by (simp add: new_number_def settled_def)
  then have "outcome (\<lambda>a b. E (home @ names (namerand st) (pp @ [(ft, i)])) (tree a) (tree b)) (kern st) (f (kern st))"
    unfolding call(2) p by (rule path_outcome[OF call(1), rotated]) simp
  ultimately show ?thesis
    unfolding settles_def by (rule made_ok) (use E c in blast)+
qed

lemma make_in_dir_ok:
  assumes "settled cwd tree home st" and "nameseq st < NUMBERS"
    and "acts cwd tree call E" and "\<And>a t t'. E a t t' \<Longrightarrow> t a = None \<Longrightarrow> t' = t(a \<mapsto> ft_kind ft)"
    and "\<And>r e. (r < 0 \<Longrightarrow> e \<noteq> 0) \<Longrightarrow> c (r, e) \<longleftrightarrow> 0 \<le> r" and "parent_at st dir par pp"
  shows "goes_on cwd tree home st (on_ok (new_name dir ft st) (\<lambda>((p, i), st1).
    on_ok (on_kern (long_path K call p) st1) (\<lambda>(re, st2).
      Inr ((), if c re then add_to_flist ft i par 0 st2 else st2))))"
proof (rule new_file_ok(1)[OF assms(1,2,6)])
  fix i p st1 assume "new_number cwd tree home st1 i par pp" "p = joined (names (namerand st1) (pp @ [(ft, i)]))"
  then show "settles cwd tree home st1 (on_ok (on_kern (long_path K call p) st1) (\<lambda>(re, st2).
      Inr ((), if c re then add_to_flist ft i par 0 st2 else st2)))"
    using assms(3) refl assms(4,5) by (rule make_ok)
qed

lemma mkdir_f_ok:
  assumes "settled cwd tree home st" and "nameseq st < NUMBERS"
  shows "goes_on cwd tree home st (mkdir_f K r st)"
  unfolding mkdir_f_def mkdir_path_def
  by (rule parent_ok[OF assms(1)], rule make_in_dir_ok[OF _ _ mkdir])
    (use assms(2) err_of_zero in \<open>auto simp: makes_def\<close>)

lemma mknod_f_ok:
  assumes "settled cwd tree home st" and "nameseq st < NUMBERS"
  shows "goes_on cwd tree home st (mknod_f K r st)"
  unfolding mknod_f_def mknod_path_def
  by (rule parent_ok[OF assms(1)], rule make_in_dir_ok[OF _ _ mknod])
    (use assms(2) err_of_zero in \<open>auto simp: makes_def\<close>)

lemma creat_f_ok:
  assumes "settled cwd tree home st" and n: "nameseq st < NUMBERS"
  shows "goes_on cwd tree home st (creat_f K r st)"
  unfolding creat_f_def creat_path_def
proof (rule parent_ok[OF assms(1)])
  fix dir par pp st1 assume st1: "settled cwd tree home st1" "nameseq st1 = nameseq st" "parent_at st1 dir par pp"
  obtain x st2 where r: "rnd K st1 = (x, st2)" by (cases "rnd K st1")
  note q = rnd_quiet(1,2)[OF r]
  let ?c = "\<lambda>re :: int \<times> int. 0 \<le> fst re"
  have "goes_on cwd tree home st2 (on_ok (new_name dir ft st2) (\<lambda>((p, i), st3).
      on_ok (on_kern (long_path K (c_creat K 0x1B6) p) st3) (\<lambda>(fd, st4).
        Inr ((), if 0 \<le> fst fd then add_to_flist ft i par 0 st4 else st4))))" if "ft_kind ft = Reg" for ft
    by (rule make_in_dir_ok[OF quiet_step_settled[OF q(1) st1(1)] _ creat _ _ parent_at_quiet[OF st1(3) q(1)]])
      (use n st1(2) q(2) that in \<open>auto simp: creates_def\<close>)
  from goes_on_from[OF this q] show "goes_on cwd tree home st1 (case rnd K st1 of (x, st2) \<Rightarrow>
      let e1 = x mod 100; ft = if rtpct st2 \<noteq> 0 then if rtpct st2 < e1 then FT_REG else FT_RTF else FT_REG
      in on_ok (new_name dir ft st2) (\<lambda>((p, i), st3).
        on_ok (on_kern (long_path K (c_creat K 0x1B6) p) st3) (\<lambda>(fd, st4).
          Inr ((), if 0 \<le> fst fd then add_to_flist ft i par 0 st4 else st4))))"
    by (simp add: r Let_def)
qed

end

text \<open>A name does not begin like the value of a link, so the test in \<open>symlink_path\<close> never holds.\<close>

lemma symlink_guard:
  assumes "\<forall>c \<in> set (components name). c \<noteq> [] \<and> hd c \<noteq> CHR ''x''" and "val = [] \<or> hd val = CHR ''x''"
  shows "symlink_path K val name k = long_path K (c_symlink K val) name k"
  using assms(1)
proof (induction "length name" arbitrary: name k rule: less_induct)
  case less
  have "val \<noteq> name"
  proof (cases name)
    case (Cons ch s)
    then show ?thesis using less.prems assms(2) by (auto split: if_splits)
  qed (use less.prems in simp)
  moreover have "symlink_path K val p k' = long_path K (c_symlink K val) p k'"
    if "separate_pathname name = (buf, Some p)" for buf p k'
    using less.hyps[OF separate_shorter[OF that]] separate_components(1)[OF that] less.prems by simp
  ultimately show ?case
    unfolding symlink_path_def
    by (subst (1 2) long_path.simps) (auto simp: symlink_path_def split: prod.split option.split)
qed

lemma link_value_hd: "link_value n = [] \<or> hd (link_value n) = CHR ''x''"
  by (cases n) (auto simp: link_value_def upt_conv_Cons simp del: upt_Suc)

lemma node_name_hd: "node_name nr nd \<noteq> [] \<and> hd (node_name nr nd) \<noteq> CHR ''x''"
proof -
  obtain ft i where "nd = (ft, i)" by (cases nd)
  then show ?thesis by (cases ft) (simp_all add: node_name_def fent_name_def Let_def)
qed

context namespace
begin

lemma symlink_f_ok:
  assumes "settled cwd tree home st" and "nameseq st < NUMBERS"
  shows "goes_on cwd tree home st (symlink_f K r st)"
  unfolding symlink_f_def
proof (rule parent_ok[OF assms(1)], rule new_file_ok)
  fix dir par pp st1 i p st2
  assume st2: "new_number cwd tree home st2 i par pp" and p: "p = joined (names (namerand st2) (pp @ [(FT_SYM, i)]))"
  obtain x st3 where r: "rnd K st2 = (x, st3)" by (cases "rnd K st2")
  note q = rnd_quiet(1,2)[OF r]
  let ?v = "link_value (nat (x mod 4096))"
  have "\<forall>c \<in> set (components p). c \<noteq> [] \<and> hd c \<noteq> CHR ''x''"
    using node_name_hd by (auto simp: p components_names simp del: map_append)
  then have "symlink_path K ?v p k = long_path K (c_symlink K ?v) p k" for k
    using link_value_hd by (rule symlink_guard)
  then have "settles cwd tree home st3 (on_ok (on_kern (symlink_path K ?v p) st3) (\<lambda>(re, st4).
      Inr ((), if err_of re = 0 then add_to_flist FT_SYM i par 0 st4 else st4)))"
    by (intro make_ok[OF new_number_quiet[OF st2 q] _ symlink])
      (use p quiet_step_files(4)[OF q(1)] err_of_zero in \<open>auto simp: makes_def\<close>)
  then show "settles cwd tree home st2 (case rnd K st2 of (x, st3) \<Rightarrow>
      on_ok (on_kern (symlink_path K (link_value (nat (x mod 4096))) p) st3) (\<lambda>(re, st4).
        Inr ((), if err_of re = 0 then add_to_flist FT_SYM i par 0 st4 else st4)))"
    using settles_from[OF _ q] by (simp add: r)
qed (use assms in auto)

end

end
