(* ===== verification/Fss_Link_Ok.thy ===== *)
theory Fss_Link_Ok
  imports Fss_Dir_Ok
begin

text \<open>Links, and the removal of files and directories.\<close>

lemma settled_mirrors:
  "settled cwd tree home st \<Longrightarrow> mirrors (namerand st) (paths (tab st)) (below home (tree (kern st)))"
  by (simp add: settled_def)

lemma tree_at:
  assumes "settled cwd tree home st" and "walk (tab st) i xs"
  shows "tree (kern st) (home @ names (namerand st) xs) = Some (kind_of xs)"
proof -
  have "xs \<in> paths (tab st)" "xs \<noteq> []" using assms(2) walk_last[OF assms(2)] by (auto simp: paths_def)
  then show ?thesis using mirrorsD[OF settled_mirrors[OF assms(1)]] by (fastforce simp: below_def)
qed

lemma kind_of_entry:
  assumes "forest_ok st" and "slot < length (files st ft)" and "walk (tab st) (fid (files st ft ! slot)) xs"
  shows "fst (last xs) = ft" "snd (last xs) = fid (files st ft ! slot)" "xs \<noteq> []"
    "tab st (fid (files st ft ! slot)) = Some (ft, parent (files st ft ! slot))"
proof -
  show t: "tab st (fid (files st ft ! slot)) = Some (ft, parent (files st ft ! slot))"
    using assms(1,2) by (simp add: forest_ok_def tab_entry)
  show "fst (last xs) = ft" "snd (last xs) = fid (files st ft ! slot)" "xs \<noteq> []"
    using walk_last[OF assms(3)] t by auto
qed

context namespace
begin

lemma link_f_ok:
  assumes st: "settled cwd tree home st" and n: "nameseq st < NUMBERS"
  shows "goes_on cwd tree home st (link_f K r st)"
  unfolding link_f_def
proof (rule with_file_ok[OF settled_forest[OF st], where cwd = cwd and tree = tree and Q = "goes_on cwd tree home st"])
  fix ft slot xs st1 assume q1: "quiet_step cwd tree st st1" "nameseq st1 = nameseq st"
    and s: "slot < length (files st ft)" "walk (tab st) (fid (files st ft ! slot)) xs"
  let ?f = "joined (names (namerand st) xs)"
  obtain r2 st2 where r: "rnd K st1 = (r2, st2)" by (cases "rnd K st1")
  have q2: "quiet_step cwd tree st st2" "nameseq st2 = nameseq st"
    using quiet_step_trans[OF q1(1) rnd_quiet(1)[OF r]] rnd_quiet(2)[OF r] q1(2) by simp_all
  have "goes_on cwd tree home st2 (on_ok (pick_parent r2 st2) (\<lambda>((dir, parid), st3).
      on_ok (new_path dir ft st3) (\<lambda>(new, st4). case new of None \<Rightarrow> Inr ((), st4) | Some (l, i) \<Rightarrow>
        on_ok (on_kern (link_path K ?f l) st4) (\<lambda>(re, st5).
          Inr ((), if err_of re = 0
            then add_to_flist ft i parid (xattr_counter (files st5 ft ! slot)) st5 else st5)))))"
  proof (rule parent_ok[OF quiet_step_settled[OF q2(1) st]], rule new_file_ok(2))
    fix dir par pp st3 i p st4
    assume "quiet_step cwd tree st2 st3" "quiet_step cwd tree st3 st4"
      and st4: "new_number cwd tree home st4 i par pp" and p: "p = joined (names (namerand st4) (pp @ [(ft, i)]))"
    then have q: "quiet_step cwd tree st st4" using q2(1) quiet_step_trans by blast
    note f = quiet_step_files[OF q] and e = kind_of_entry[OF settled_forest[OF st] s]
    have h: "cwd (kern st4) = home" using st4 by (simp add: new_number_def settled_def)
    have t: "tree (kern st4) (home @ names (namerand st) xs) = Some (ft_kind ft)"
      using tree_at[OF st s(2)] e(1) f(8) by simp
    have "outcome (\<lambda>a b. links (home @ names (namerand st) xs) (home @ names (namerand st) (pp @ [(ft, i)])) (tree a) (tree b))
        (kern st4) (link_path K ?f p (kern st4))"
      unfolding link_path_def p f(4) by (rule paths_outcome[OF link e(3) _ h]) simp
    then show "settles cwd tree home st4 (on_ok (on_kern (link_path K ?f p) st4) (\<lambda>(re, st5).
        Inr ((), if err_of re = 0
          then add_to_flist ft i par (xattr_counter (files st5 ft ! slot)) st5 else st5)))"
      using st4 unfolding settles_def new_number_def
      by (intro made_ok[where Q = "links (home @ names (namerand st) xs) (home @ names (namerand st) (pp @ [(ft, i)]))"])
        (use t f(4) err_of_zero in \<open>auto simp: links_def\<close>)
  qed (use n q2(2) in auto)
  then show "goes_on cwd tree home st (case rnd K st1 of (r2, st2) \<Rightarrow>
      on_ok (pick_parent r2 st2) (\<lambda>((dir, parid), st3).
        on_ok (new_path dir ft st3) (\<lambda>(new, st4). case new of None \<Rightarrow> Inr ((), st4) | Some (l, i) \<Rightarrow>
          on_ok (on_kern (link_path K ?f l) st4) (\<lambda>(re, st5).
            Inr ((), if err_of re = 0
              then add_to_flist ft i parid (xattr_counter (files st5 ft ! slot)) st5 else st5)))))"
    using goes_on_from[OF _ q2] by (simp add: r)
qed (use goes_on_quiet[OF st] in simp)

end

section \<open>Removing\<close>

text \<open>An entry without entries below it is deleted.\<close>

lemma forest_del:
  assumes st: "forest_ok st" and s: "slot < length (files st ft)" and leaf: "\<And>j g. tab st j \<noteq> Some (g, fid (files st ft ! slot))"
    and w: "walk (tab st) (fid (files st ft ! slot)) xs"
  obtains st1 where "del_from_flist ft slot st = Inr ((), st1)" "forest_ok st1" "paths (tab st1) = paths (tab st) - {xs}"
    "tab st1 = (tab st)(fid (files st ft ! slot) := None)"
    "kern st1 = kern st" "nameseq st1 = nameseq st" "namerand st1 = namerand st"
proof -
  obtain dc where d: "del_from_flist ft slot st = Inr ((), set_files ft (dropped slot) (st\<lparr>dcache := dc\<rparr>))"
    "dcache_ok (set_files ft (dropped slot) (st\<lparr>dcache := dc\<rparr>))"
    using del_from_flist_ok[OF _ s] st unfolding forest_ok_def by blast
  let ?st = "set_files ft (dropped slot) (st\<lparr>dcache := dc\<rparr>)"
  have u: "uniq st" "planted (tab st)" using st by (simp_all add: forest_ok_def)
  have t: "tab ?st = (tab st)(fid (files st ft ! slot) := None)" using tab_del[OF u(1) s] .
  note del = paths_delete[OF u(2) leaf w]
  have "uniq ?st" using uniq_drop[of "st\<lparr>dcache := dc\<rparr>" slot ft] u(1) s by simp
  moreover have "nameseq ?st = nameseq st" "kern ?st = kern st" "namerand ?st = namerand st"
    by (simp_all add: set_files_def)
  ultimately show thesis
    using that[OF d(1) _ _ t] d(2) del st unfolding forest_ok_def t by auto
qed

text \<open>Only a directory has entries below it.\<close>

lemma not_dir_leaf:
  assumes "forest_ok st" and "tab st i = Some (ft, p)" and "ft \<noteq> FT_DIR"
  shows "tab st j \<noteq> Some (g, i)"
proof
  assume j: "tab st j = Some (g, i)"
  have "planted (tab st)" "i \<noteq> -1" using assms(1,2) by (auto simp: forest_ok_def planted_def)
  then show False using walk_parent[of "tab st" j g i] j assms(2,3) by auto
qed

lemma settled_del:
  assumes st: "settled cwd tree home st" and n: "nameseq st \<le> NUMBERS"
    and s: "slot < length (files st ft)" "walk (tab st) (fid (files st ft ! slot)) xs"
    and k: "tree k = (tree (kern st))(home @ names (namerand st) xs := None)" "cwd k = home"
    and leaf: "\<And>j g. tab st j \<noteq> Some (g, fid (files st ft ! slot))"
  shows "settles cwd tree home st (del_from_flist ft slot (st\<lparr>kern := k\<rparr>))"
proof -
  let ?st = "st\<lparr>kern := k\<rparr>"
  have f: "files ?st = files st" "tab ?st = tab st" "uniq ?st = uniq st" using flists_cong[of ?st st] by simp_all
  have "dcache_ok ?st = dcache_ok st" by (simp add: dcache_ok_def f)
  then have ok: "forest_ok ?st" using settled_forest[OF st] unfolding forest_ok_def f by simp
  obtain st1 where st1: "del_from_flist ft slot ?st = Inr ((), st1)" "forest_ok st1" "paths (tab st1) = paths (tab st) - {xs}"
    "kern st1 = k" "nameseq st1 = nameseq st" "namerand st1 = namerand st"
    by (rule forest_del[OF ok, of slot ft xs]) (use s leaf in \<open>simp_all add: f\<close>)
  have x: "xs \<in> paths (tab st)" "xs \<noteq> []" using s(2) walk_last[OF s(2)] by (auto simp: paths_def)
  have "mirrors (namerand st) (paths (tab st) - {xs}) ((below home (tree (kern st)))(names (namerand st) xs := None))"
    using mirrors_delete[OF settled_mirrors[OF st] paths_numbered[OF settled_forest[OF st] n] x(1)] .
  then show ?thesis
    using st1 k below_upd[of "names (namerand st) xs" home "tree (kern st)" None] x(2)
    by (simp add: settles_def settled_def)
qed

context namespace
begin

lemma remove_ok:
  assumes st: "settled cwd tree home st" and n: "nameseq st \<le> NUMBERS"
    and s: "slot < length (files st ft)" "walk (tab st) (fid (files st ft ! slot)) xs"
    and call: "acts cwd tree call E"
    and E: "\<And>a t t'. E a t t' \<Longrightarrow> t' = t(a := None) \<and> (ft = FT_DIR \<longrightarrow> (\<forall>y. strict_prefix a y \<longrightarrow> t y = None))"
  shows "settles cwd tree home st (on_ok (on_kern (long_path K call (joined (names (namerand st) xs))) st)
    (\<lambda>(re, st1). if err_of re = 0 then del_from_flist ft slot st1 else Inr ((), st1)))"
proof -
  note e = kind_of_entry[OF settled_forest[OF st] s]
  let ?a = "home @ names (namerand st) xs"
  have h: "cwd (kern st) = home" using st by (simp add: settled_def)
  obtain r e k where o: "on_kern (long_path K call (joined (names (namerand st) xs))) st = Inr ((r, e), st\<lparr>kern := k\<rparr>)"
    "cwd k = cwd (kern st)" "0 \<le> r \<Longrightarrow> E ?a (tree (kern st)) (tree k)" "r < 0 \<Longrightarrow> tree k = tree (kern st) \<and> e \<noteq> 0"
    by (rule on_kern_outcome[where E = "\<lambda>a b. E ?a (tree a) (tree b)" and st = st
        and f = "long_path K call (joined (names (namerand st) xs))"]) (use path_outcome[OF call e(3) h] in blast)+
  show ?thesis
  proof (cases "0 \<le> r")
    case True
    note E' = E[OF o(3)[OF True]]
    have leaf: "tab st j \<noteq> Some (g, fid (files st ft ! slot))" for j g
    proof (cases "ft = FT_DIR")
      case True
      show ?thesis
      proof
        assume j: "tab st j = Some (g, fid (files st ft ! slot))"
        have "fid (files st ft ! slot) \<noteq> -1" using e(4) settled_forest[OF st] by (auto simp: forest_ok_def planted_def)
        then have w: "walk (tab st) j (xs @ [(g, j)])" using walk.below[OF j _ _ s(2)] e(4) True by blast
        have "strict_prefix ?a (home @ names (namerand st) (xs @ [(g, j)]))" by (simp add: strict_prefix_def)
        then show False using tree_at[OF st w] E' True by fastforce
      qed
    qed (use not_dir_leaf[OF settled_forest[OF st] e(4)] in blast)
    have "settles cwd tree home st (del_from_flist ft slot (st\<lparr>kern := k\<rparr>))"
      using settled_del[OF st n s _ _ leaf] E' o(2) h by simp
    then show ?thesis using o(1) True by (simp add: err_of_def)
  next
    case False
    then have q: "quiet_step cwd tree st (st\<lparr>kern := k\<rparr>)" using o(2,4) quiet_step_kern[of cwd k st tree] by simp
    then show ?thesis using o False quiet_step_settled[OF q st] by (simp add: err_of_def settles_def)
  qed
qed

lemma remove_file_ok:
  assumes st: "settled cwd tree home st" and n: "nameseq st \<le> NUMBERS" and call: "acts cwd tree call E"
    and E: "\<And>ft a t t'. in_mask ft which \<Longrightarrow> E a t t' \<Longrightarrow>
      t' = t(a := None) \<and> (ft = FT_DIR \<longrightarrow> (\<forall>y. strict_prefix a y \<longrightarrow> t y = None))"
    and g: "\<And>ft. in_mask ft which \<Longrightarrow> g ft = ft"
  shows "goes_on cwd tree home st (with_file which r st (\<lambda>ft slot p st1.
    on_ok (on_kern (long_path K call p) st1) (\<lambda>(re, st2).
      if err_of re = 0 then del_from_flist (g ft) slot st2 else Inr ((), st2))))"
proof (rule with_file_ok[OF settled_forest[OF st], where cwd = cwd and tree = tree and Q = "goes_on cwd tree home st"])
  fix ft slot xs st1 assume q: "quiet_step cwd tree st st1" "nameseq st1 = nameseq st" and m: "in_mask ft which"
    and s: "slot < length (files st ft)" "walk (tab st) (fid (files st ft ! slot)) xs"
  note f = quiet_step_files[OF q(1)]
  have rm: "settles cwd tree home st1 (on_ok (on_kern (long_path K call (joined (names (namerand st1) xs))) st1)
      (\<lambda>(re, st2). if err_of re = 0 then del_from_flist ft slot st2 else Inr ((), st2)))"
    by (rule remove_ok[OF quiet_step_settled[OF q(1) st] _ _ _ call E[OF m]]) (use n q(2) s f in simp_all)
  show "goes_on cwd tree home st (on_ok (on_kern (long_path K call (joined (names (namerand st) xs))) st1)
      (\<lambda>(re, st2). if err_of re = 0 then del_from_flist (g ft) slot st2 else Inr ((), st2)))"
    using goes_on_from[OF settles_goes_on[OF rm] q] unfolding f(4) g[OF m] .
qed (use goes_on_quiet[OF st] in simp)

lemma unlink_f_ok:
  assumes "settled cwd tree home st" and "nameseq st \<le> NUMBERS"
  shows "goes_on cwd tree home st (unlink_f K r st)"
proof -
  have "\<not> in_mask FT_DIR FT_NOTDIR" by (simp add: in_mask_def FT_NOTDIR_def)
  then show ?thesis
    unfolding unlink_f_def unlink_path_def by (intro remove_file_ok[OF assms unlink]) (auto simp: unlinks_def)
qed

lemma rmdir_f_ok:
  assumes "settled cwd tree home st" and "nameseq st \<le> NUMBERS"
  shows "goes_on cwd tree home st (rmdir_f K r st)"
  unfolding rmdir_f_def rmdir_path_def
  by (rule remove_file_ok[OF assms rmdir]) (auto simp: removes_dir_def dest: in_mask_FT_DIRm)

end

end
