(* ===== verification/Fss_Rename_Ok.thy ===== *)
theory Fss_Rename_Ok
  imports Fss_Link_Ok
begin

text \<open>The four operations that rename: the tables after them, and the tree.\<close>

section \<open>Changes that keep numbers and parents\<close>

definition same_entries :: "'k fss \<Rightarrow> 'k fss \<Rightarrow> bool" where
  "same_entries st st' \<longleftrightarrow> (\<forall>ft. map (\<lambda>e. (fid e, parent e)) (files st' ft) = map (\<lambda>e. (fid e, parent e)) (files st ft))
     \<and> dcache st' = dcache st \<and> kern st' = kern st \<and> nameseq st' = nameseq st \<and> namerand st' = namerand st"

lemma same_entriesD:
  assumes "same_entries st st'"
  shows "length (files st' ft) = length (files st ft)" and "map fid (files st' ft) = map fid (files st ft)"
    and "in_table st' i ft p = in_table st i ft p" and "uniq st' = uniq st"
proof -
  have m: "map (\<lambda>e. (fid e, parent e)) (files st' g) = map (\<lambda>e. (fid e, parent e)) (files st g)" for g
    using assms by (simp add: same_entries_def)
  show "length (files st' ft) = length (files st ft)" using arg_cong[OF m, of length ft] by simp
  have fids: "map fid (files st' g) = map fid (files st g)" for g
    using arg_cong[OF m, of "map fst" g] by (simp add: comp_def)
  then show "map fid (files st' ft) = map fid (files st ft)" .
  have "(i, p) \<in> set (map (\<lambda>e. (fid e, parent e)) (files st' ft)) \<longleftrightarrow> (i, p) \<in> set (map (\<lambda>e. (fid e, parent e)) (files st ft))"
    using m by simp
  then show "in_table st' i ft p = in_table st i ft p" unfolding in_table_def set_map image_iff by auto
  show "uniq st' = uniq st" unfolding uniq_def set_map[symmetric] fids ..
qed

lemma same_entries_tab:
  assumes "same_entries st st'" and "uniq st"
  shows "tab st' = tab st"
  by (rule tab_eqI) (use same_entriesD[OF assms(1)] tab_Some[OF assms(2)] assms(2) in auto)

lemma same_entries_fid: "same_entries st st' \<Longrightarrow> n < length (files st ft) \<Longrightarrow> fid (files st' ft ! n) = fid (files st ft ! n)"
  using same_entriesD(1,2)[of st st' ft] nth_map[of n "files st' ft" fid] nth_map[of n "files st ft" fid] by simp

lemma same_entries_dcache: "same_entries st st' \<Longrightarrow> dcache_ok st \<Longrightarrow> dcache_ok st'"
  using same_entriesD(1)[of st st' FT_DIR] same_entries_fid[of st st' _ FT_DIR]
  by (auto simp: dcache_ok_def same_entries_def)

lemma same_entries_forest: "same_entries st st' \<Longrightarrow> forest_ok st \<Longrightarrow> forest_ok st'"
  using same_entries_dcache[of st st'] same_entriesD(4)[of st st'] same_entries_tab[of st st']
  by (auto simp: forest_ok_def same_entries_def)

lemma same_entries_trans: "same_entries a b \<Longrightarrow> same_entries b c \<Longrightarrow> same_entries a c"
  by (simp add: same_entries_def)

lemma set_counter_same: "same_entries st (set_counter ft slot n st)"
proof -
  have "map (\<lambda>e. (fid e, parent e)) (es[slot := (es ! slot)\<lparr>xattr_counter := n\<rparr>]) = map (\<lambda>e. (fid e, parent e)) es" for es
    by (cases "slot < length es") (simp_all add: map_update list_update_same_conv list_update_beyond)
  then show ?thesis
    by (simp add: same_entries_def set_counter_def files_set) (simp add: set_files_def)
qed

section \<open>New parents\<close>

lemma fix_fields [simp]:
  "kern (fix_parent a b s st) = kern st" "nameseq (fix_parent a b s st) = nameseq st"
  "namerand (fix_parent a b s st) = namerand st" "dcache (fix_parent a b s st) = dcache st"
  by (simp_all add: fix_parent_def)

lemma fix_length: "length (files (fix_parent a b s st) ft) = length (files st ft)"
  by (simp add: files_fix)

lemma fix_entry_fid: "n < length (files st ft) \<Longrightarrow> fid (files (fix_parent a b s st) ft ! n) = fid (files st ft ! n)"
  by (simp add: files_fix)

lemma fix_dcache: "dcache_ok st \<Longrightarrow> dcache_ok (fix_parent a b s st)"
  by (auto simp: dcache_ok_def fix_length fix_entry_fid)

lemma reparent_leaf: "(\<And>j g. M j \<noteq> Some (g, old)) \<Longrightarrow> reparent old new False M = M"
  by (rule ext) (auto simp: reparent_def map_option_case split: option.split)

lemma reparent_same: "reparent a a s M = M"
  by (rule ext) (auto simp: reparent_def map_option_case split: option.split)

section \<open>Paths through an entry\<close>

lemma walk_through:
  assumes "walk M i xs" and "j \<in> snd ` set xs" and "walk M j p"
  shows "prefix p xs"
proof -
  obtain g where "(g, j) \<in> set xs" using assms(2) by auto
  then obtain us vs where x: "xs = us @ (g, j) # vs" by (auto dest: split_list)
  have "us @ [(g, j)] = p" using walk_unique[OF assms(3) walk_head[OF assms(1) x]] .
  then show ?thesis using x by (auto simp: prefix_def)
qed

lemma walk_inner: "walk M i xs \<Longrightarrow> xs = us @ (ft, j) # vs \<Longrightarrow> vs \<noteq> [] \<Longrightarrow> ft = FT_DIR"
proof (induction arbitrary: vs rule: walk.induct)
  case (top i ft')
  then show ?case by (cases us) auto
next
  case (below i ft' p pp xs)
  then obtain ws where vs: "vs = ws @ [(ft', i)]" "xs = us @ (ft, j) # ws"
    by (cases vs rule: rev_cases) auto
  show ?case
  proof (cases "ws = []")
    case True
    then have "last xs = (ft, j)" using vs by simp
    then show ?thesis using walk_last[OF below.hyps(4)] below.hyps(3) by auto
  qed (use below.IH vs in blast)
qed

lemma walk_not_dir:
  assumes "walk M a p" and "fst (last p) \<noteq> FT_DIR" and "walk M i xs"
  shows "\<not> strict_prefix p xs"
proof
  assume "strict_prefix p xs"
  then obtain z zs where x: "xs = p @ z # zs" by (rule strict_prefixE')
  have "p \<noteq> []" using walk_last[OF assms(1)] by simp
  then have "p = butlast p @ [last p]" by simp
  then have "xs = butlast p @ (fst (last p), snd (last p)) # z # zs" using x by (metis append.assoc append_Cons append_Nil prod.collapse)
  from walk_inner[OF assms(3) this] assms(2) show False by simp
qed

section \<open>The tables after a rename\<close>

lemma renamed_move:
  assumes st: "forest_ok st" and s: "slot < length (files st ft)" and p: "walk (tab st) (fid (files st ft ! slot)) p"
    and i: "tab st i = None" "0 \<le> i" "i < nameseq st" and par: "under (tab st) par pp"
    and out: "fid (files st ft ! slot) \<notin> snd ` set pp" and mode: "mode \<noteq> RENAME_EXCHANGE" "mode \<noteq> RENAME_WHITEOUT"
  obtains st' where "renamed mode ft slot dslot i par st = Inr ((), st')" "forest_ok st'"
    "paths (tab st') = moved p (pp @ [(ft, i)]) ` paths (tab st)"
    "kern st' = kern st" "nameseq st' = nameseq st" "namerand st' = namerand st"
proof -
  let ?old = "fid (files st ft ! slot)" and ?xc = "xattr_counter (files st ft ! slot)"
  define st1 where "st1 = (if ft = FT_DIR then fix_parent ?old i (mode = RENAME_EXCHANGE) st else st)"
  have u: "uniq st" "dcache_ok st" "planted (tab st)" using st by (simp_all add: forest_ok_def)
  have e: "tab st ?old = Some (ft, parent (files st ft ! slot))" using kind_of_entry[OF st s p] by simp
  have t1: "tab st1 = reparent ?old i False (tab st)"
    using tab_fix[OF u(1)] reparent_leaf[of "tab st" ?old i] not_dir_leaf[OF st e] mode(1) by (auto simp: st1_def)
  have st1: "uniq st1" "dcache_ok st1" "slot < length (files st1 ft)" "fid (files st1 ft ! slot) = ?old"
    "kern st1 = kern st" "nameseq st1 = nameseq st" "namerand st1 = namerand st"
    using uniq_fix[OF u(1)] fix_dcache[OF u(2)] u s by (cases "ft = FT_DIR"; simp add: st1_def fix_length fix_entry_fid)+
  obtain dc where d: "del_from_flist ft slot st1 = Inr ((), set_files ft (dropped slot) (st1\<lparr>dcache := dc\<rparr>))"
    "dcache_ok (set_files ft (dropped slot) (st1\<lparr>dcache := dc\<rparr>))"
    using del_from_flist_ok[OF st1(2,3)] by blast
  define st2 where "st2 = set_files ft (dropped slot) (st1\<lparr>dcache := dc\<rparr>)"
  have t2: "tab st2 = (tab st1)(?old := None)" using tab_del[OF st1(1,3)] st1(4) by (simp add: st2_def)
  have st2: "uniq st2" "dcache_ok st2" "kern st2 = kern st" "nameseq st2 = nameseq st" "namerand st2 = namerand st"
    using uniq_drop[of "st1\<lparr>dcache := dc\<rparr>" slot ft] st1 d(2) by (simp_all add: st2_def) (simp_all add: set_files_def)
  have free: "tab st2 i = None" using i(1) by (simp add: t2 t1 reparent_def)
  let ?st' = "add_to_flist ft i par ?xc st2"
  have t': "tab ?st' = ((reparent ?old i False (tab st))(?old := None))(i \<mapsto> (ft, par))"
    using tab_add[OF st2(1) free] t2 t1 by simp
  have pm: "planted (tab ?st')" "paths (tab ?st') = moved p (pp @ [(ft, i)]) ` paths (tab st)"
    using paths_move[OF u(3) e p i(1) _ par out] i(2) unfolding t' by auto
  have "0 \<le> j \<and> j < nameseq st" if "j \<in> dom (tab ?st')" for j
  proof (cases "j = i")
    case False
    then have "j \<in> dom (tab st)" using that by (auto simp: t' reparent_def split: if_splits)
    then show ?thesis using st unfolding forest_ok_def by blast
  qed (use i in simp)
  then have "forest_ok ?st'"
    using pm(1) uniq_add[OF st2(1) free] dcache_ok_add[OF st2(2)] st2(4) st unfolding forest_ok_def by simp
  moreover have "renamed mode ft slot dslot i par st = Inr ((), ?st')"
    using mode d(1) unfolding renamed_def Let_def st1_def[symmetric] st2_def by simp
  ultimately show thesis using that pm(2) st2 by simp
qed

lemma renamed_whiteout:
  assumes st: "forest_ok st" and ft: "ft \<noteq> FT_DIR"
    and i: "tab st i = None" "0 \<le> i" "i < nameseq st" and par: "under (tab st) par pp"
  obtains st' where "renamed RENAME_WHITEOUT ft slot dslot i par st = Inr ((), st')" "forest_ok st'"
    "paths (tab st') = insert (pp @ [(ft, i)]) (paths (tab st))"
    "kern st' = kern st" "nameseq st' = nameseq st" "namerand st' = namerand st"
proof -
  let ?s = "set_counter ft slot 0 st" and ?xc = "xattr_counter (files st ft ! slot)"
  have u: "uniq st" using st by (simp add: forest_ok_def)
  have same: "same_entries st ?s" using set_counter_same .
  have t: "tab ?s = tab st" using same_entries_tab[OF same u] .
  have f: "kern ?s = kern st" "nameseq ?s = nameseq st" "namerand ?s = namerand st"
    using same by (simp_all add: same_entries_def)
  have "forest_ok (add_to_flist ft i par ?xc ?s)"
    "paths (tab (add_to_flist ft i par ?xc ?s)) = insert (pp @ [(ft, i)]) (paths (tab st))"
    using forest_add[OF same_entries_forest[OF same st], of i par pp ft ?xc] i par t f by simp_all
  then show thesis
    using that[of "add_to_flist ft i par ?xc ?s"] ft f by (simp add: renamed_def Let_def)
qed

lemma renamed_exchange:
  assumes st: "forest_ok st" and s: "slot < length (files st ft)" "d < length (files st ft)"
    and p: "walk (tab st) (fid (files st ft ! slot)) p" and q: "walk (tab st) (fid (files st ft ! d)) q"
    and apart: "\<not> strict_prefix p q" "\<not> strict_prefix q p"
  obtains st' where "renamed RENAME_EXCHANGE ft slot (Some d) (fid (files st ft ! d)) par st = Inr ((), st')"
    "forest_ok st'" "paths (tab st') = swapped p q ` paths (tab st)"
    "kern st' = kern st" "nameseq st' = nameseq st" "namerand st' = namerand st"
proof -
  let ?a = "fid (files st ft ! slot)" and ?b = "fid (files st ft ! d)" and ?xc = "xattr_counter (files st ft ! slot)"
  define st1 where "st1 = (if ft = FT_DIR then fix_parent ?a ?b True st else st)"
  have u: "uniq st" "dcache_ok st" "planted (tab st)" using st by (simp_all add: forest_ok_def)
  note ea = kind_of_entry[OF st s(1) p] and eb = kind_of_entry[OF st s(2) q]
  have st1: "uniq st1" "dcache_ok st1" "kern st1 = kern st" "nameseq st1 = nameseq st" "namerand st1 = namerand st"
    using uniq_fix[OF u(1)] fix_dcache[OF u(2)] u by (simp_all add: st1_def)
  have id: "swapped p q xs = xs" if c: "p = q \<or> ft \<noteq> FT_DIR" and xs: "xs \<in> paths (tab st)" for xs
  proof (cases "p = q")
    case True
    then show ?thesis by (auto simp: swapped_def strict_prefix_def prefix_def)
  next
    case False
    obtain j where "walk (tab st) j xs" using xs by (auto simp: paths_def)
    then show ?thesis
      using walk_not_dir[OF p] walk_not_dir[OF q] ea(1) eb(1) c False by (auto simp: swapped_def)
  qed
  have pt: "planted (tab st1) \<and> paths (tab st1) = swapped p q ` paths (tab st) \<and> dom (tab st1) = dom (tab st)"
  proof (cases "ft = FT_DIR \<and> ?a \<noteq> ?b")
    case True
    have t: "tab st1 = reparent ?a ?b True (tab st)" using tab_fix[OF u(1)] True by (simp add: st1_def)
    have ab: "?a \<notin> snd ` set q" "?b \<notin> snd ` set p"
      using walk_through[OF q _ p] walk_through[OF p _ q] apart True ea(2) eb(2)
      by (auto simp: strict_prefix_def)
    show ?thesis using paths_swap[OF u(3)] ea(4) eb(4) p q ab True unfolding t
      by (auto simp: reparent_def)
  next
    case False
    then have "p = q \<or> ft \<noteq> FT_DIR" using walk_unique[OF p] q by auto
    then have "swapped p q ` paths (tab st) = paths (tab st)" using id by force
    moreover have "tab st1 = tab st" using False tab_fix[OF u(1)] reparent_same by (auto simp: st1_def)
    ultimately show ?thesis using u(3) by simp
  qed
  then have st1_ok: "forest_ok st1" using st1 st unfolding forest_ok_def by simp
  let ?st' = "set_counter ft d ?xc (set_counter ft slot (xattr_counter (files st1 ft ! d)) st1)"
  have same: "same_entries st1 ?st'" using set_counter_same same_entries_trans by blast
  then have "forest_ok ?st'" "tab ?st' = tab st1" "kern ?st' = kern st" "nameseq ?st' = nameseq st" "namerand ?st' = namerand st"
    using same_entries_forest[OF same st1_ok] same_entries_tab[OF same st1(1)] st1 by (simp_all add: same_entries_def)
  moreover have "renamed RENAME_EXCHANGE ft slot (Some d) ?b par st = Inr ((), ?st')"
    by (simp add: renamed_def Let_def st1_def)
  ultimately show thesis using that pt by simp
qed

section \<open>The operation\<close>

text \<open>What the call has to do to the tree, for each kind of rename.\<close>

definition rename_effect :: "int \<Rightarrow> string list \<Rightarrow> string list \<Rightarrow> tree \<Rightarrow> tree \<Rightarrow> bool" where
  "rename_effect mode = (if mode = RENAME_EXCHANGE then exchanges
     else if mode = RENAME_WHITEOUT then whites_out else renames)"

lemma out_of_itself:
  assumes st: "forest_ok st" and s: "slot < length (files st ft)" and p: "walk (tab st) (fid (files st ft ! slot)) p"
    and par: "under (tab st) par pp" and np: "\<not> prefix p (pp @ [nd])"
  shows "fid (files st ft ! slot) \<notin> snd ` set pp"
proof
  assume i: "fid (files st ft ! slot) \<in> snd ` set pp"
  then have "walk (tab st) par pp" using par by (auto simp: under_def split: if_splits)
  from prefix_prefix[OF walk_through[OF this i p]] np show False by blast
qed

lemma settled_renamed_new:
  assumes st: "settled cwd tree home st" and n: "nameseq st \<le> NUMBERS"
    and s: "slot < length (files st ft)" and p: "walk (tab st) (fid (files st ft ! slot)) p"
    and i: "tab st i = None" "0 \<le> i" "i < nameseq st" and par: "under (tab st) par pp"
    and mode: "mode \<noteq> RENAME_EXCHANGE" "mode = RENAME_WHITEOUT \<Longrightarrow> ft = FT_DEV"
    and k: "cwd k = home" and eff: "rename_effect mode (home @ names (namerand st) p)
      (home @ names (namerand st) (pp @ [(ft, i)])) (tree (kern st)) (tree k)"
  shows "settles cwd tree home st (renamed mode ft slot dslot i par (st\<lparr>kern := k\<rparr>))"
proof -
  let ?st = "st\<lparr>kern := k\<rparr>" and ?q = "pp @ [(ft, i)]" and ?nr = "namerand st" and ?P = "paths (tab st)"
  let ?t = "below home (tree (kern st))"
  have f: "files ?st = files st" "tab ?st = tab st" "uniq ?st = uniq st" using flists_cong[of ?st st] by simp_all
  have "dcache_ok ?st = dcache_ok st" by (simp add: dcache_ok_def f)
  then have ok: "forest_ok ?st" using settled_forest[OF st] unfolding forest_ok_def f by simp
  note m = settled_mirrors[OF st] and num = paths_numbered[OF settled_forest[OF st] n]
  note q = new_path_numbered[OF settled_forest[OF st] n par i(2,3), of ft]
  note fresh = new_path_fresh[OF i(1), of _ pp ft]
  have pP: "p \<in> ?P" using p by (auto simp: paths_def)
  have e: "fst (last p) = ft" "p \<noteq> []" "tab st (fid (files st ft ! slot)) = Some (ft, parent (files st ft ! slot))"
    using kind_of_entry[OF settled_forest[OF st] s p] by simp_all
  have none: "tree (kern st) (home @ names ?nr ?q) = None"
    using mirrors_absent[OF m num q] fresh[of ?q] by (auto simp: below_def)
  have np: "\<not> prefix p ?q" and t: "tree k = (if mode = RENAME_WHITEOUT
      then (move_tree (home @ names ?nr p) (home @ names ?nr ?q) (tree (kern st)))(home @ names ?nr p \<mapsto> Dev)
      else move_tree (home @ names ?nr p) (home @ names ?nr ?q) (tree (kern st)))"
    using eff none mode(1) names_prefix[of p ?q ?nr] num pP q
    by (auto simp: rename_effect_def renames_def whites_out_def split: if_splits)
  have mv: "mirrors ?nr (moved p ?q ` ?P) (move_tree (names ?nr p) (names ?nr ?q) ?t)"
    using mirrors_move[OF m num pP q] fresh e(1) by simp
  have bm: "below home (move_tree (home @ names ?nr p) (home @ names ?nr ?q) (tree (kern st)))
      = move_tree (names ?nr p) (names ?nr ?q) ?t"
    using below_move e(2) by simp
  show ?thesis
  proof (cases "mode = RENAME_WHITEOUT")
    case False
    obtain st' where st': "renamed mode ft slot dslot i par ?st = Inr ((), st')" "forest_ok st'"
      "paths (tab st') = moved p ?q ` ?P" "kern st' = k" "nameseq st' = nameseq st" "namerand st' = namerand st"
      by (rule renamed_move[OF ok, of slot ft p i par pp mode dslot])
        (use s p i par out_of_itself[OF settled_forest[OF st] s p par np] mode(1) False in \<open>simp_all add: f\<close>)
    then show ?thesis using mv bm t False k by (simp add: settles_def settled_def)
  next
    case True
    then have dev: "ft = FT_DEV" using mode(2) by simp
    obtain st' where st': "renamed mode ft slot dslot i par ?st = Inr ((), st')" "forest_ok st'"
      "paths (tab st') = insert ?q ?P" "kern st' = k" "nameseq st' = nameseq st" "namerand st' = namerand st"
      unfolding True by (rule renamed_whiteout[OF ok, of ft i par pp slot dslot]) (use i par dev in \<open>simp_all add: f\<close>)
    have "moved p ?q xs = (if xs = p then ?q else xs)" if xs: "xs \<in> ?P" for xs
    proof -
      obtain j where "walk (tab st) j xs" using xs by (auto simp: paths_def)
      then have "\<not> strict_prefix p xs" using walk_not_dir[OF p] e(1) dev by simp
      then show ?thesis by (auto simp: moved_def strict_prefix_def)
    qed
    then have "insert p (moved p ?q ` ?P) = insert ?q ?P" using pP by (auto simp: image_iff)
    moreover have "mirrors ?nr (insert p (moved p ?q ` ?P))
        ((move_tree (names ?nr p) (names ?nr ?q) ?t)(names ?nr p \<mapsto> kind_of p))"
      using mirrors_add[OF mv, of p] moved_in[of _ numbered ?q p] num pP q by blast
    moreover have "below home (tree k) = (move_tree (names ?nr p) (names ?nr ?q) ?t)(names ?nr p \<mapsto> kind_of p)"
      using t True below_upd[of "names ?nr p" home] bm e(1,2) dev by simp
    ultimately show ?thesis using st' k by (simp add: settles_def settled_def)
  qed
qed

lemma settled_renamed_exchange:
  assumes st: "settled cwd tree home st" and n: "nameseq st \<le> NUMBERS"
    and s: "slot < length (files st ft)" "d < length (files st ft)"
    and p: "walk (tab st) (fid (files st ft ! slot)) p" and q: "walk (tab st) (fid (files st ft ! d)) q"
    and k: "cwd k = home" and eff: "exchanges (home @ names (namerand st) p) (home @ names (namerand st) q)
      (tree (kern st)) (tree k)"
  shows "settles cwd tree home st (renamed RENAME_EXCHANGE ft slot (Some d) (fid (files st ft ! d)) par (st\<lparr>kern := k\<rparr>))"
proof -
  let ?st = "st\<lparr>kern := k\<rparr>" and ?nr = "namerand st" and ?P = "paths (tab st)"
  let ?t = "below home (tree (kern st))"
  have f: "files ?st = files st" "tab ?st = tab st" "uniq ?st = uniq st" using flists_cong[of ?st st] by simp_all
  have "dcache_ok ?st = dcache_ok st" by (simp add: dcache_ok_def f)
  then have ok: "forest_ok ?st" using settled_forest[OF st] unfolding forest_ok_def f by simp
  have P: "p \<in> ?P" "q \<in> ?P" using p q by (auto simp: paths_def)
  note ea = kind_of_entry[OF settled_forest[OF st] s(1) p] and eb = kind_of_entry[OF settled_forest[OF st] s(2) q]
  note num = paths_numbered[OF settled_forest[OF st] n]
  have np: "p \<in> lists numbered" "q \<in> lists numbered" using P num by auto
  have apart: "\<not> strict_prefix p q" "\<not> strict_prefix q p"
    using eff names_prefix[of p q ?nr] names_prefix[of q p ?nr] np names_inj[of p q ?nr]
    by (auto simp: exchanges_def strict_prefix_def)
  obtain st' where st': "renamed RENAME_EXCHANGE ft slot (Some d) (fid (files st ft ! d)) par ?st = Inr ((), st')"
    "forest_ok st'" "paths (tab st') = swapped p q ` ?P"
    "kern st' = k" "nameseq st' = nameseq st" "namerand st' = namerand st"
    by (rule renamed_exchange[OF ok, of slot ft d p q par]) (use s p q apart in \<open>simp_all add: f\<close>)
  have "mirrors ?nr (swapped p q ` ?P) (swap_tree (names ?nr p) (names ?nr q) ?t)"
    using mirrors_swap[OF settled_mirrors[OF st] num P _ apart] ea(1) eb(1) by simp
  moreover have "below home (tree k) = swap_tree (names ?nr p) (names ?nr q) ?t"
    using eff below_swap ea(3) eb(3) by (simp add: exchanges_def)
  ultimately show ?thesis using st' k by (simp add: settles_def settled_def)
qed

lemma mask_of_type: "in_mask g (2 ^ ft_index ft) \<Longrightarrow> g = ft"
  by (cases g; cases ft) (simp_all add: in_mask_def bit_exp_iff)

lemma ancestor_check_runs:
  assumes st: "forest_ok st" and s: "slot < length (files st ft)"
  obtains b st1 where "ancestor_check (files st ft ! slot) d st = Inr (b, st1)" "quiet_step cwd tree st st1"
    "nameseq st1 = nameseq st"
proof -
  have u: "uniq st" "dcache_ok st" "planted (tab st)" using st by (simp_all add: forest_ok_def)
  have m: "files st ft ! slot \<in> set (files st ft)" using s by simp
  obtain xs where "walk (tab st) (fid (files st ft ! slot)) xs" using planted_path[OF u(3) tab_entry[OF u(1) m]] by blast
  from ancestor_check_ok[OF this refl u(1,2) m refl, of d] obtain dc where
    a: "fents_ancestor_check (files st ft ! slot) d st = Some (Inr (d \<in> snd ` set (butlast xs), st\<lparr>dcache := dc\<rparr>))"
    and dc: "dcache_ok (st\<lparr>dcache := dc\<rparr>)" by blast
  show thesis by (rule that[OF _ quiet_step_dcache[OF dc]]) (simp_all add: ancestor_check_def a)
qed

context namespace
begin

lemma rename_target_ok:
  assumes st: "settled cwd tree home st" and n: "nameseq st < NUMBERS" and s: "slot < length (files st ft)"
  obtains (stop) st1 where "rename_target K mode ft slot st = Inr (None, st1)" "quiet_step cwd tree st st1"
      "nameseq st1 = nameseq st"
  | (exchange) d q st1 where "mode = RENAME_EXCHANGE"
      "rename_target K mode ft slot st
        = Inr (Some (Some d, joined (names (namerand st) q), fid (files st ft ! d), parent (files st ft ! d)), st1)"
      "quiet_step cwd tree st st1" "nameseq st1 = nameseq st"
      "d < length (files st ft)" "walk (tab st) (fid (files st ft ! d)) q"
  | (fresh) i par pp st1 where "mode \<noteq> RENAME_EXCHANGE"
      "rename_target K mode ft slot st = Inr (Some (None, joined (names (namerand st) (pp @ [(ft, i)])), i, par), st1)"
      "quiet_step cwd tree st st1" "nameseq st1 = nameseq st + 1" "new_number cwd tree home st1 i par pp"
proof -
  obtain r2 st1 where r: "rnd K st = (r2, st1)" by (cases "rnd K st")
  note q1 = rnd_quiet(1,2)[OF r]
  note f1 = quiet_step_files[OF q1(1)] and ok1 = quiet_step_forest[OF q1(1) settled_forest[OF st]]
  show thesis
  proof (cases "mode = RENAME_EXCHANGE")
    case True
    show thesis
      using ok1
    proof (cases rule: get_file_ok[of st1 "2 ^ ft_index ft" r2 cwd tree])
      case (none v st2)
      then show thesis using stop[of st2] True r quiet_step_trans[OF q1(1)] q1(2) by (simp add: rename_target_def)
    next
      case (some g d q v st2)
      then have g: "g = ft" using mask_of_type by simp
      note f2 = quiet_step_files[OF some(2)] and ok2 = quiet_step_forest[OF some(2) ok1]
      have q2: "quiet_step cwd tree st st2" "nameseq st2 = nameseq st"
        using quiet_step_trans[OF q1(1) some(2)] q1(2) some(3) by simp_all
      have len: "slot < length (files st2 ft)" "d < length (files st2 ft)" using s some(5) g f1(1) f2(1) by simp_all
      obtain b st4 where c: "(if ft = FT_DIR then
            on_ok (ancestor_check (files st2 ft ! slot) (fid (files st2 ft ! d)) st2) (\<lambda>(b, st3).
              if b then Inr (True, st3) else ancestor_check (files st2 ft ! d) (fid (files st2 ft ! slot)) st3)
          else Inr (False, st2)) = Inr (b, st4)" "quiet_step cwd tree st2 st4" "nameseq st4 = nameseq st2"
      proof -
        obtain b3 st3 where c3: "ancestor_check (files st2 ft ! slot) (fid (files st2 ft ! d)) st2 = Inr (b3, st3)"
          "quiet_step cwd tree st2 st3" "nameseq st3 = nameseq st2"
          by (rule ancestor_check_runs[OF ok2 len(1)])
        have len3: "d < length (files st3 ft)" using len(2) quiet_step_files(1)[OF c3(2)] by simp
        obtain b4 st4 where "ancestor_check (files st3 ft ! d) (fid (files st2 ft ! slot)) st3 = Inr (b4, st4)"
          "quiet_step cwd tree st3 st4" "nameseq st4 = nameseq st3"
          by (rule ancestor_check_runs[OF quiet_step_forest[OF c3(2) ok2] len3])
        then show thesis
          using that c3 quiet_step_files(1)[OF c3(2)] quiet_step_trans[OF c3(2)] quiet_step_refl[of cwd tree st2]
          by (cases "ft = FT_DIR"; cases b3) auto
      qed
      have q4: "quiet_step cwd tree st st4" "nameseq st4 = nameseq st" using quiet_step_trans[OF q2(1) c(2)] c(3) q2(2) by simp_all
      have res: "rename_target K mode ft slot st = Inr (if b then None
          else Some (Some d, joined (names (namerand st) q), fid (files st ft ! d), parent (files st ft ! d)), st4)"
        using True r some(1) g c(1) f1 f2 by (simp add: rename_target_def Let_def)
      show thesis
      proof (cases b)
        case True
        then show thesis using stop[of st4] res q4 by simp
      next
        case False
        then show thesis using exchange[of d q st4] \<open>mode = RENAME_EXCHANGE\<close> res q4 some(5,6) g f1 by simp
      qed
    qed
  next
    case False
    obtain dir par pp st2 where p: "pick_parent r2 st1 = Inr ((dir, par), st2)" and q2: "quiet_step cwd tree st1 st2"
      and n2: "nameseq st2 = nameseq st1" and a: "parent_at st1 dir par pp"
      by (rule pick_parent_ok[OF ok1, where cwd = cwd and tree = tree and r = r2])
    have st2: "settled cwd tree home st2" "parent_at st2 dir par pp"
      using quiet_step_settled[OF q2 quiet_step_settled[OF q1(1) st]] parent_at_quiet[OF a q2] .
    let ?i = "nameseq st2"
    obtain st3 where m: "new_name dir ft st2 = Inr ((joined (names (namerand st2) (pp @ [(ft, ?i)])), ?i), st3)"
      and q3: "quiet_step cwd tree st2 st3" and n3: "nameseq st3 = nameseq st2 + 1"
      by (rule new_name_ok[OF settled_forest[OF st2(1)] st2(2), where cwd = cwd and tree = tree and ft = ft])
    have "tab st2 ?i = None" "0 \<le> ?i" using settled_forest[OF st2(1)] unfolding forest_ok_def domIff by blast+
    then have "new_number cwd tree home st3 ?i par pp"
      using quiet_step_settled[OF q3 st2(1)] n q1(2) n2 n3 st2(2) unfolding new_number_def quiet_step_files[OF q3]
      by (simp add: parent_at_def)
    moreover have "rename_target K mode ft slot st = Inr (Some (None, joined (names (namerand st) (pp @ [(ft, ?i)])), ?i, par), st3)"
      using False r p new_path_name[OF m] quiet_step_files(4)[OF q2] f1(4) by (simp add: rename_target_def)
    ultimately show thesis
      using fresh[OF False] quiet_step_trans[OF quiet_step_trans[OF q1(1) q2] q3] n3 n2 q1(2) by simp
  qed
qed

lemma rename_call_ok:
  assumes "p \<noteq> []" and "q \<noteq> []" and "cwd k = home" and "mode \<in> {0, RENAME_NOREPLACE, RENAME_EXCHANGE, RENAME_WHITEOUT}"
  shows "outcome (\<lambda>a b. rename_effect mode (home @ names nr p) (home @ names nr q) (tree a) (tree b)) k
    (rename_path K (joined (names nr p)) (joined (names nr q)) mode k)"
proof -
  have "acts2 cwd tree (if mode = 0 then c_rename K else c_renameat2 K mode) (rename_effect mode)"
    using assms(4) rename noreplace exchange whiteout by (auto simp: rename_effect_def)
  from paths_outcome[OF this assms(1-3)] show ?thesis by (simp add: rename_path_def)
qed

lemma failed_call_settles:
  assumes "settled cwd tree home st" and "cwd k = cwd (kern st)" and "tree k = tree (kern st)"
  shows "settles cwd tree home st (Inr ((), st\<lparr>kern := k\<rparr>))"
  using quiet_step_settled[OF quiet_step_kern[OF assms(2,3)] assms(1)] by (simp add: settles_def)

lemma rename_settles:
  assumes st: "settled cwd tree home st" and pq: "p \<noteq> []" "q \<noteq> []"
    and mode: "mode \<in> {0, RENAME_NOREPLACE, RENAME_EXCHANGE, RENAME_WHITEOUT}"
    and fin: "\<And>k. \<lbrakk>cwd k = home; rename_effect mode (home @ names (namerand st) p) (home @ names (namerand st) q)
      (tree (kern st)) (tree k)\<rbrakk> \<Longrightarrow> settles cwd tree home st (renamed mode ft slot dslot i par (st\<lparr>kern := k\<rparr>))"
  shows "settles cwd tree home st (on_ok (on_kern (rename_path K (joined (names (namerand st) p)) (joined (names (namerand st) q)) mode) st)
    (\<lambda>(re, st1). if err_of re = 0 then renamed mode ft slot dslot i par st1 else Inr ((), st1)))"
proof -
  let ?E = "\<lambda>a b. rename_effect mode (home @ names (namerand st) p) (home @ names (namerand st) q) (tree a) (tree b)"
  let ?f = "rename_path K (joined (names (namerand st) p)) (joined (names (namerand st) q)) mode"
  have h: "cwd (kern st) = home" using st by (simp add: settled_def)
  obtain r e k where o: "on_kern ?f st = Inr ((r, e), st\<lparr>kern := k\<rparr>)" "cwd k = cwd (kern st)"
    "0 \<le> r \<Longrightarrow> ?E (kern st) k" "r < 0 \<Longrightarrow> tree k = tree (kern st) \<and> e \<noteq> 0"
    by (rule on_kern_outcome[where E = ?E and st = st and f = ?f]) (use rename_call_ok[OF pq h mode] in blast)+
  show ?thesis
  proof (cases "0 \<le> r")
    case True
    then show ?thesis using fin[of k] o h by (simp add: err_of_def)
  next
    case False
    then show ?thesis using failed_call_settles[OF st o(2)] o by (simp add: err_of_def)
  qed
qed

lemma do_renameat2_ok:
  assumes st: "settled cwd tree home st" and n: "nameseq st < NUMBERS"
    and mode: "mode \<in> {0, RENAME_NOREPLACE, RENAME_EXCHANGE, RENAME_WHITEOUT}"
  shows "goes_on cwd tree home st (do_renameat2 K r mode st)"
  unfolding do_renameat2_def
proof (rule with_file_ok[OF settled_forest[OF st], where cwd = cwd and tree = tree and Q = "goes_on cwd tree home st"])
  fix ft slot p st1 assume q1: "quiet_step cwd tree st st1" "nameseq st1 = nameseq st"
    and m: "in_mask ft (if mode = RENAME_WHITEOUT then FT_DEVm else FT_ANYm)"
    and s: "slot < length (files st ft)" "walk (tab st) (fid (files st ft ! slot)) p"
  note f1 = quiet_step_files[OF q1(1)] and st1 = quiet_step_settled[OF q1(1) st]
  have s1: "slot < length (files st1 ft)" using s f1(1) by simp
  have pe: "p \<noteq> []" using walk_last[OF s(2)] by simp
  have dev: "mode = RENAME_WHITEOUT \<Longrightarrow> ft = FT_DEV"
    using m by (cases ft) (simp_all add: in_mask_def FT_DEVm_def)
  let ?go = "\<lambda>(target, st2). case target of None \<Rightarrow> Inr ((), st2)
    | Some (dslot, newf, i, parid) \<Rightarrow> on_ok (on_kern (rename_path K (joined (names (namerand st) p)) newf mode) st2) (\<lambda>(re, st3).
        if err_of re = 0 then renamed mode ft slot dslot i parid st3 else Inr ((), st3))"
  have n1: "nameseq st1 < NUMBERS" using n q1(2) by simp
  show "goes_on cwd tree home st (on_ok (rename_target K mode ft slot st1) ?go)"
    using st1 n1 s1
  proof (cases rule: rename_target_ok[of home st1 slot ft mode])
    case (stop st2)
    then show ?thesis
      using goes_on_quiet[OF st quiet_step_trans[OF q1(1) stop(2)]] q1(2) by simp
  next
    case (exchange d q st2)
    note st2 = quiet_step_settled[OF exchange(3) st1]
    have q2: "quiet_step cwd tree st st2" "nameseq st2 = nameseq st"
      using quiet_step_trans[OF q1(1) exchange(3)] exchange(4) q1(2) by simp_all
    note f = quiet_step_files[OF q2(1)]
    have qe: "q \<noteq> []" using walk_last[OF exchange(6)] by simp
    have h: "cwd (kern st2) = home" using st2 by (simp add: settled_def)
    have "settles cwd tree home st2 (renamed mode ft slot (Some d) (fid (files st ft ! d)) (parent (files st ft ! d)) (st2\<lparr>kern := k\<rparr>))"
      if "cwd k = home" "rename_effect mode (home @ names (namerand st2) p) (home @ names (namerand st2) q) (tree (kern st2)) (tree k)" for k
      using settled_renamed_exchange[OF st2, of slot ft d p q k "parent (files st ft ! d)"] n q2(2) s exchange(1,5,6) f f1 that
      by (simp add: rename_effect_def)
    then have "settles cwd tree home st2 (?go (Some (Some d, joined (names (namerand st) q), fid (files st ft ! d), parent (files st ft ! d)), st2))"
      using rename_settles[OF st2 pe qe mode, of ft slot "Some d"] f(4) by simp
    then show ?thesis using goes_on_from[OF settles_goes_on q2] exchange(2) f1 by simp
  next
    case (fresh i par pp st2)
    have q2: "quiet_step cwd tree st st2" "nameseq st2 = nameseq st + 1"
      using quiet_step_trans[OF q1(1) fresh(3)] fresh(4) q1(2) by simp_all
    note f = quiet_step_files[OF q2(1)]
    have new: "settled cwd tree home st2" "nameseq st2 \<le> NUMBERS" "tab st2 i = None" "0 \<le> i" "i < nameseq st2" "under (tab st2) par pp"
      using fresh(5) by (simp_all add: new_number_def)
    have "settles cwd tree home st2 (renamed mode ft slot None i par (st2\<lparr>kern := k\<rparr>))"
      if "cwd k = home" "rename_effect mode (home @ names (namerand st2) p) (home @ names (namerand st2) (pp @ [(ft, i)])) (tree (kern st2)) (tree k)" for k
      using settled_renamed_new[OF new(1,2) _ _ new(3-6) fresh(1) dev that, of slot None] s f by simp
    then have "settles cwd tree home st2 (?go (Some (None, joined (names (namerand st) (pp @ [(ft, i)])), i, par), st2))"
      using rename_settles[OF new(1) pe _ mode, of "pp @ [(ft, i)]" ft slot None i par] f(4) by simp
    then show ?thesis
      using fresh(2) f1(4) f(4) q2(2) by (auto simp: settles_def goes_on_def)
  qed
qed (use goes_on_quiet[OF st] in simp)

end

end
