(* ===== verification/Fss_Attrs_Ok.thy ===== *)
theory Fss_Attrs_Ok
  imports Fss_Rename_Ok
begin

text \<open>The operations on extended attributes and those of one call leave the tree as it is.\<close>

text \<open>A step that keeps the numbers: the last state is as settled as the first.\<close>

abbreviation calm :: "('k \<Rightarrow> string list) \<Rightarrow> ('k \<Rightarrow> tree) \<Rightarrow> 'k fss \<Rightarrow> 'k fss \<Rightarrow> bool" where
  "calm cwd tree st st' \<equiv> quiet_step cwd tree st st' \<and> nameseq st' = nameseq st"

lemma calm_trans: "calm cwd tree a b \<Longrightarrow> calm cwd tree b c \<Longrightarrow> calm cwd tree a c"
  using quiet_step_trans by fastforce

lemma calm_goes_on: "settled cwd tree home st \<Longrightarrow> calm cwd tree st st' \<Longrightarrow> goes_on cwd tree home st (Inr ((), st'))"
  using goes_on_quiet by fastforce

lemma same_entries_settled:
  assumes "settled cwd tree home st" and "same_entries st st'"
  shows "settled cwd tree home st'"
proof -
  have "uniq st" using settled_forest[OF assms(1)] by (simp add: forest_ok_def)
  then have "tab st' = tab st" using same_entries_tab assms(2) by blast
  moreover have "kern st' = kern st" "namerand st' = namerand st" using assms(2) by (simp_all add: same_entries_def)
  ultimately show ?thesis
    using same_entries_forest[OF assms(2) settled_forest[OF assms(1)]] assms(1) unfolding settled_def by simp
qed

lemma set_counter_settled: "settled cwd tree home st \<Longrightarrow> settled cwd tree home (set_counter ft slot n st)"
  using same_entries_settled set_counter_same by blast

lemma set_counter_fields [simp]:
  "nameseq (set_counter ft slot n st) = nameseq st" "namerand (set_counter ft slot n st) = namerand st"
  by (simp_all add: set_counter_def set_files_def)

context namespace
begin

lemma leaves_calm:
  assumes "acts cwd tree call leaves" and "call p (kern st) = (r, e, k)"
  shows "calm cwd tree st (st\<lparr>kern := k\<rparr>)"
proof -
  have "cwd k = cwd (kern st)" "tree k = tree (kern st)"
    using assms(1)[unfolded acts_def leaves_def, rule_format, OF assms(2)] by (auto split: if_splits)
  then show ?thesis using quiet_step_kern[of cwd k st tree] by simp
qed

lemma rnd_calm: "rnd K st = (x, st1) \<Longrightarrow> calm cwd tree st st1"
  using rnd_quiet by blast

lemma gen_random_string_calm: "gen_random_string K n st = (s, st1) \<Longrightarrow> calm cwd tree st st1"
proof (induction n arbitrary: st s)
  case 0
  then show ?case using quiet_step_refl by auto
next
  case (Suc n)
  obtain x st2 where r: "rnd K st = (x, st2)" by (cases "rnd K st")
  obtain s' st3 where g: "gen_random_string K n st2 = (s', st3)" by (cases "gen_random_string K n st2")
  have "st1 = st3" using Suc.prems r g by simp
  then show ?case using calm_trans[OF rnd_calm[OF r] Suc.IH[of st2 s']] g by simp
qed

lemma pick_xattr_calm: "pick_xattr K ft slot st = (i, st1) \<Longrightarrow> calm cwd tree st st1"
  using rnd_calm quiet_step_refl
  by (fastforce simp: pick_xattr_def Let_def split: if_splits prod.splits)

lemma pick_new_xattr_calm:
  assumes "pick_new_xattr K ft slot st = (i, flag, st1)"
  shows "calm cwd tree st st1"
proof -
  let ?n = "xattr_counter (files st ft ! slot)"
  obtain old st2 where o: "(if 0 < ?n then (case rnd K st of (x, s) \<Rightarrow> (x mod 2 \<noteq> 0, s)) else (False, st)) = (old, st2)"
    by (meson surj_pair)
  have q: "calm cwd tree st st2"
    using o rnd_calm quiet_step_refl by (fastforce split: if_splits prod.splits)
  obtain x st3 where r: "rnd K st2 = (x, st3)" by (cases "rnd K st2")
  obtain y st4 where r2: "rnd K st3 = (y, st4)" by (cases "rnd K st3")
  have "st1 = st3 \<or> st1 = st4"
    using assms o r r2 by (auto simp: pick_new_xattr_def Let_def split: if_splits)
  then show ?thesis
    using calm_trans[OF q rnd_calm[OF r]] calm_trans[OF calm_trans[OF q rnd_calm[OF r]] rnd_calm[OF r2]] by blast
qed

lemma with_file_settled:
  assumes st: "settled cwd tree home st"
    and some: "\<And>ft slot xs st1. settled cwd tree home st1 \<Longrightarrow> nameseq st1 = nameseq st \<Longrightarrow>
      goes_on cwd tree home st1 (f ft slot (joined (names (namerand st) xs)) st1)"
  shows "goes_on cwd tree home st (with_file which r st f)"
proof (rule with_file_ok[OF settled_forest[OF st], where cwd = cwd and tree = tree and Q = "goes_on cwd tree home st"])
  fix ft slot xs st1 assume q: "quiet_step cwd tree st st1" "nameseq st1 = nameseq st"
  show "goes_on cwd tree home st (f ft slot (joined (names (namerand st) xs)) st1)"
    using goes_on_from[OF some[OF quiet_step_settled[OF q(1) st] q(2)] q] .
qed (use goes_on_quiet[OF st] in simp)

lemma setfattr_f_ok:
  assumes "settled cwd tree home st"
  shows "goes_on cwd tree home st (setfattr_f K r st)"
  unfolding setfattr_f_def
proof (rule with_file_settled[OF assms])
  fix ft slot xs st1 assume st1: "settled cwd tree home st1"
  let ?p = "joined (names (namerand st) xs)"
  obtain i flag st2 where p: "pick_new_xattr K ft slot st1 = (i, flag, st2)" by (cases "pick_new_xattr K ft slot st1")
  obtain x st3 where r: "rnd K st2 = (x, st3)" by (cases "rnd K st2")
  obtain v st4 where g: "gen_random_string K (nat (x mod 101)) st3 = (v, st4)"
    by (cases "gen_random_string K (nat (x mod 101)) st3")
  note c = calm_trans[OF calm_trans[OF pick_new_xattr_calm[OF p] rnd_calm[OF r]] gen_random_string_calm[OF g]]
  show "goes_on cwd tree home st1 (case pick_new_xattr K ft slot st1 of (xattr_num, flag, st2) \<Rightarrow>
        case rnd K st2 of (x, st3) \<Rightarrow>
        case gen_random_string K (nat (x mod 101)) st3 of (v, st4) \<Rightarrow>
          (case generate_xattr_name xattr_num XATTR_NAME_BUF_SIZE of
             None \<Rightarrow> Inr ((), st4)
           | Some name \<Rightarrow>
               on_ok (on_kern (\<lambda>k. case c_setxattr K flag ?p name v k of (a, e, k1) \<Rightarrow> Inr ((a, e), k1)) st4) (\<lambda>(re, st5).
                 Inr ((), if err_of re = 0
                   then set_counter ft slot (xattr_counter (files st5 ft ! slot) + 1) st5 else st5))))"
  proof (cases "generate_xattr_name i XATTR_NAME_BUF_SIZE")
    case None
    then show ?thesis using calm_goes_on[OF st1 c] by (simp add: p r g)
  next
    case (Some name)
    obtain a e k where s: "c_setxattr K flag ?p name v (kern st4) = (a, e, k)"
      by (cases "c_setxattr K flag ?p name v (kern st4)")
    have c5: "calm cwd tree st1 (st4\<lparr>kern := k\<rparr>)"
      using calm_trans[OF c leaves_calm[of "\<lambda>p. c_setxattr K flag p name v", OF setxattr s]] .
    have st5: "settled cwd tree home (st4\<lparr>kern := k\<rparr>)" using quiet_step_settled c5 st1 by blast
    have "namerand st4 = namerand st1" using quiet_step_files(4)[OF conjunct1[OF c]] .
    then show ?thesis
      using c5 st5 set_counter_settled[OF st5] Some s by (simp add: p r g on_kern_def goes_on_def)
  qed
qed

lemma getfattr_f_ok:
  assumes "settled cwd tree home st"
  shows "goes_on cwd tree home st (getfattr_f K r st)"
  unfolding getfattr_f_def
proof (rule with_file_settled[OF assms])
  fix ft slot xs st1 assume st1: "settled cwd tree home st1"
  let ?p = "joined (names (namerand st) xs)"
  obtain i st2 where p: "pick_xattr K ft slot st1 = (i, st2)" by (cases "pick_xattr K ft slot st1")
  note c = pick_xattr_calm[OF p]
  show "goes_on cwd tree home st1 (case pick_xattr K ft slot st1 of (xattr_num, st2) \<Rightarrow>
          (case generate_xattr_name xattr_num XATTR_NAME_BUF_SIZE of
             None \<Rightarrow> Inr ((), st2)
           | Some name \<Rightarrow>
               (case c_getxattr K 0 ?p name (kern st2) of (len, _, k1) \<Rightarrow>
                  if len \<le> 0 then Inr ((), st2\<lparr>kern := k1\<rparr>)
                  else (case c_getxattr K len ?p name k1 of (_, _, k2) \<Rightarrow> Inr ((), st2\<lparr>kern := k2\<rparr>)))))"
  proof (cases "generate_xattr_name i XATTR_NAME_BUF_SIZE")
    case None
    then show ?thesis using calm_goes_on[OF st1 c] by (simp add: p)
  next
    case (Some name)
    obtain len e k1 where g: "c_getxattr K 0 ?p name (kern st2) = (len, e, k1)" by (cases "c_getxattr K 0 ?p name (kern st2)")
    obtain a e2 k2 where g2: "c_getxattr K len ?p name k1 = (a, e2, k2)" by (cases "c_getxattr K len ?p name k1")
    have c3: "calm cwd tree st1 (st2\<lparr>kern := k1\<rparr>)"
      using calm_trans[OF c leaves_calm[of "\<lambda>p. c_getxattr K 0 p name", OF getxattr g]] .
    have "calm cwd tree st1 (st2\<lparr>kern := k2\<rparr>)"
      using calm_trans[OF c3 leaves_calm[of "\<lambda>p. c_getxattr K len p name" ?p "st2\<lparr>kern := k1\<rparr>", OF getxattr]] g2 by simp
    then show ?thesis using calm_goes_on[OF st1 c3] calm_goes_on[OF st1] Some g g2 by (simp add: p)
  qed
qed

lemma removefattr_f_ok:
  assumes "settled cwd tree home st"
  shows "goes_on cwd tree home st (removefattr_f K r st)"
  unfolding removefattr_f_def
proof (rule with_file_settled[OF assms])
  fix ft slot xs st1 assume st1: "settled cwd tree home st1"
  let ?p = "joined (names (namerand st) xs)"
  obtain i st2 where p: "pick_xattr K ft slot st1 = (i, st2)" by (cases "pick_xattr K ft slot st1")
  note c = pick_xattr_calm[OF p]
  show "goes_on cwd tree home st1 (case pick_xattr K ft slot st1 of (xattr_num, st2) \<Rightarrow>
          (case generate_xattr_name xattr_num XATTR_NAME_BUF_SIZE of
             None \<Rightarrow> Inr ((), st2)
           | Some name \<Rightarrow> (case c_removexattr K ?p name (kern st2) of (_, _, k1) \<Rightarrow> Inr ((), st2\<lparr>kern := k1\<rparr>))))"
  proof (cases "generate_xattr_name i XATTR_NAME_BUF_SIZE")
    case None
    then show ?thesis using calm_goes_on[OF st1 c] by (simp add: p)
  next
    case (Some name)
    obtain a e k1 where g: "c_removexattr K ?p name (kern st2) = (a, e, k1)" by (cases "c_removexattr K ?p name (kern st2)")
    have "calm cwd tree st1 (st2\<lparr>kern := k1\<rparr>)"
      using calm_trans[OF c leaves_calm[of "\<lambda>p. c_removexattr K p name", OF removexattr g]] .
    then show ?thesis using calm_goes_on[OF st1] Some g by (simp add: p)
  qed
qed

section \<open>One call on a path\<close>

lemma one_call_ok:
  assumes st: "settled cwd tree home st" and call: "acts cwd tree call leaves"
    and p: "\<forall>c \<in> set (butlast (components p)). plain c"
  shows "goes_on cwd tree home st (on_ok (on_kern (long_path K call p) st) (\<lambda>(_, st1). Inr ((), st1)))"
proof -
  let ?E = "\<lambda>a b. leaves (resolve (cwd (kern st)) p) (tree a) (tree b)"
  obtain r e k where o: "on_kern (long_path K call p) st = Inr ((r, e), st\<lparr>kern := k\<rparr>)" "cwd k = cwd (kern st)"
    "0 \<le> r \<Longrightarrow> ?E (kern st) k" "r < 0 \<Longrightarrow> tree k = tree (kern st) \<and> e \<noteq> 0"
    by (rule on_kern_outcome[where E = ?E and st = st and f = "long_path K call p"]) (use long_path_ok[OF call p] in blast)+
  have "tree k = tree (kern st)" using o(3,4) by (cases "0 \<le> r") (auto simp: leaves_def)
  from quiet_step_kern[OF o(2) this] show ?thesis using goes_on_quiet[OF st] o(1) by simp
qed

lemma readlink_f_ok:
  assumes "settled cwd tree home st"
  shows "goes_on cwd tree home st (readlink_f K r st)"
  unfolding readlink_f_def readlink_path_def
  by (rule with_file_settled[OF assms]) (rule one_call_ok[OF _ readlink names_ok])

lemma stat_f_ok:
  assumes "settled cwd tree home st"
  shows "goes_on cwd tree home st (stat_f K r st)"
  unfolding stat_f_def lstat64_path_def
  by (rule with_file_settled[OF assms]) (rule one_call_ok[OF _ lstat names_ok])

lemma file_or_here_ok:
  assumes "forest_ok st"
  obtains p st1 where "file_or_here which r st = Inr (p, st1)" "calm cwd tree st st1"
    "\<forall>c \<in> set (butlast (components p)). plain c"
  using assms
proof (cases rule: get_file_ok[of st which r cwd tree])
  case (none v st1)
  then show thesis using that[of "''.''" st1] by (simp add: file_or_here_def)
next
  case (some ft slot xs v st1)
  then show thesis using that[of _ st1] names_ok[of "namerand st" xs] by (simp add: file_or_here_def)
qed

lemma chown_f_ok:
  assumes st: "settled cwd tree home st" and "idmodulo \<noteq> 0"
  shows "goes_on cwd tree home st (chown_f idmodulo K r st)"
proof -
  obtain p st1 where p: "file_or_here FT_ANYm r st = Inr (p, st1)" "calm cwd tree st st1"
    "\<forall>c \<in> set (butlast (components p)). plain c"
    by (rule file_or_here_ok[OF settled_forest[OF st]])
  obtain u st2 where u: "rnd K st1 = (u, st2)" by (cases "rnd K st1")
  obtain g st3 where g: "rnd K st2 = (g, st3)" by (cases "rnd K st2")
  obtain x st4 where x: "rnd K st3 = (x, st4)" by (cases "rnd K st3")
  have c: "calm cwd tree st st4"
    using calm_trans[OF calm_trans[OF calm_trans[OF p(2) rnd_calm[OF u]] rnd_calm[OF g]] rnd_calm[OF x]] .
  then have st4: "settled cwd tree home st4" using quiet_step_settled st by blast
  let ?m = "2 ^ nat (x mod idmodulo) :: int"
  have "goes_on cwd tree home st4 (on_ok (on_kern (lchown_path K p (u32 u mod ?m) (u32 g mod ?m)) st4) (\<lambda>(_, st5). Inr ((), st5)))"
    unfolding lchown_path_def by (rule one_call_ok[OF st4 lchown p(3)])
  from goes_on_from[OF this] c show ?thesis using assms(2) by (simp add: chown_f_def p(1) u g x Let_def)
qed

end

end
