(* ===== verification/Fss_Ranges.thy ===== *)
theory Fss_Ranges
  imports C_Prelude
begin

text \<open>
  The offsets and lengths \<open>fsstress\<close> draws for its requests on the contents of files: functions of
  the random numbers and of what the kernel says of the file. \<open>random\<close> returns 31 bits, so
  \<open>long_random\<close> fits a signed 64-bit integer, and nothing here is negative.
\<close>

section \<open>The choices\<close>

abbreviation (input) FILELEN_MAX :: int where "FILELEN_MAX \<equiv> 131072"
abbreviation (input) MAXFSIZE :: int where "MAXFSIZE \<equiv> 9223372036854775807"
abbreviation (input) MAXFSIZE32 :: int where "MAXFSIZE32 \<equiv> 1099511627775"
abbreviation (input) IOV_MAX :: int where "IOV_MAX \<equiv> 1024"

definition long_random :: "int \<Rightarrow> int \<Rightarrow> int" where
  "long_random a b = a * 4294967296 + b"

text \<open>Up to a megabyte behind the end of the file.\<close>

definition write_off :: "int \<Rightarrow> int \<Rightarrow> int \<Rightarrow> int" where
  "write_off maxfsize sz lr = lr mod min (sz + 1048576) MAXFSIZE mod maxfsize"

definition some_len :: "int \<Rightarrow> int" where
  "some_len x = x mod FILELEN_MAX + 1"

text \<open>The parts of a vector for \<open>readv\<close> and \<open>writev\<close>, all of one length.\<close>

definition iov_parts :: "int \<Rightarrow> int \<Rightarrow> int list" where
  "iov_parts len x = (let iovcnt = x mod min len IOV_MAX + 1 in replicate (nat iovcnt) (len div iovcnt))"

text \<open>Direct requests are aligned: an offset, and a length that is not 0 and at most \<open>maxio\<close>.\<close>

definition dio_off :: "int \<Rightarrow> int \<Rightarrow> int \<Rightarrow> int" where
  "dio_off align bound lr = (let off = lr mod bound in off - off mod align)"

definition dio_write_off :: "int \<Rightarrow> int \<Rightarrow> int \<Rightarrow> int \<Rightarrow> int" where
  "dio_write_off maxfsize align sz lr = dio_off align (min (sz + 1048576) MAXFSIZE) lr mod maxfsize"

definition dio_len :: "int \<Rightarrow> int \<Rightarrow> int \<Rightarrow> int" where
  "dio_len align maxio x =
     (let len0 = some_len x; len = len0 - len0 mod align in
      if len \<le> 0 then align else if maxio < len then maxio else len)"

text \<open>Every other collapse or insertion is of whole blocks.\<close>

abbreviation (input) FALLOC_FL_COLLAPSE_RANGE :: int where "FALLOC_FL_COLLAPSE_RANGE \<equiv> 8"
abbreviation (input) FALLOC_FL_INSERT_RANGE :: int where "FALLOC_FL_INSERT_RANGE \<equiv> 32"

definition falloc_range :: "int \<Rightarrow> int \<Rightarrow> int \<Rightarrow> int \<Rightarrow> int \<Rightarrow> int \<times> int" where
  "falloc_range blksize mode opno off len =
     (if mode AND (FALLOC_FL_COLLAPSE_RANGE OR FALLOC_FL_INSERT_RANGE) \<noteq> 0 \<and> opno mod 2 \<noteq> 0
      then ((off + blksize - 1) AND NOT (blksize - 1), (len + blksize - 1) AND NOT (blksize - 1))
      else (off, len))"

text \<open>A part of the file to map, from a page on.\<close>

definition map_range :: "int \<Rightarrow> int \<Rightarrow> int \<Rightarrow> int \<Rightarrow> int \<times> int" where
  "map_range page sz lr x =
     (let off = (lr mod sz) AND NOT (page - 1) in (off, x mod min (sz - off) FILELEN_MAX + 1))"

text \<open>The range of a file that is cloned, copied, spliced or deduplicated, and where it goes.\<close>

definition clone_len :: "int \<Rightarrow> int \<Rightarrow> int \<Rightarrow> int" where
  "clone_len blksize sz x =
     (let len0 = some_len x AND NOT (blksize - 1); len = (if len0 = 0 then blksize else len0) in
      if sz < len then sz else len)"

definition copy_len :: "int \<Rightarrow> int \<Rightarrow> int \<Rightarrow> int" where
  "copy_len blksize sz x =
     (let len0 = some_len x; len = (if len0 = 0 then blksize else len0) in if sz < len then sz else len)"

definition dedupe_len :: "int \<Rightarrow> int \<Rightarrow> int \<Rightarrow> int" where
  "dedupe_len blksize sz x =
     (let len0 = some_len x AND NOT (blksize - 1); len = (if len0 = 0 then blksize div 2 else len0) in
      if sz div 2 < len then sz div 2 else len)"

definition source_off :: "int \<Rightarrow> int \<Rightarrow> int \<Rightarrow> int \<Rightarrow> int" where
  "source_off maxfsize sz len lr = (if sz = len then 0 else lr mod min (sz - len) MAXFSIZE) mod maxfsize"

definition block_source_off :: "int \<Rightarrow> int \<Rightarrow> int \<Rightarrow> int \<Rightarrow> int \<Rightarrow> int" where
  "block_source_off maxfsize blksize sz len lr = source_off maxfsize sz len lr AND NOT (blksize - 1)"

definition dest_bound :: "int \<Rightarrow> int \<Rightarrow> int" where
  "dest_bound blksize sz = min (sz + 1024 * blksize) MAXFSIZE"

definition dest_off :: "int \<Rightarrow> int \<Rightarrow> int \<Rightarrow> int" where
  "dest_off maxfsize bound lr = lr mod bound mod maxfsize"

definition dedupe_dest :: "int \<Rightarrow> int \<Rightarrow> int \<Rightarrow> int \<Rightarrow> int \<Rightarrow> int" where
  "dedupe_dest maxfsize blksize sz len lr =
     ((if sz \<le> len then 0 else lr mod min (sz - len) MAXFSIZE) mod maxfsize) AND NOT (blksize - 1)"

definition too_near :: "int \<Rightarrow> int \<Rightarrow> int \<Rightarrow> bool" where
  "too_near off1 off2 len \<longleftrightarrow> \<bar>off2 - off1\<bar> < len"

end
