(* ===== verification/Fss_Io.thy ===== *)
theory Fss_Io
  imports Fss_Attrs Fss_Ranges
begin

text \<open>
  The operations of \<open>fsstress\<close> on the contents and flags of files. They choose a file, open it, ask
  the kernel for its size, and make one request or a few; the tables stay as they are. The calls on
  descriptors are a parameter. Messages are left out, and with them \<open>errno\<close>; so is memory that
  cannot be allocated.
\<close>

section \<open>Requests\<close>

abbreviation (input) O_RDONLY :: int where "O_RDONLY \<equiv> 0"
abbreviation (input) O_WRONLY :: int where "O_WRONLY \<equiv> 1"
abbreviation (input) O_RDWR :: int where "O_RDWR \<equiv> 2"
abbreviation (input) O_CREAT :: int where "O_CREAT \<equiv> 0x40"
abbreviation (input) O_DIRECT :: int where "O_DIRECT \<equiv> 0x4000"
abbreviation (input) O_DIRECTORY :: int where "O_DIRECTORY \<equiv> 0x10000"

record fd_stat =
  st_size :: int
  st_blksize :: int
  st_ino :: int

datatype space_cmd = ALLOCSP64 | FREESP64 | RESVSP64 | UNRESVSP64

text \<open>Requests on a descriptor of which only success matters; the data of a write is one byte, repeated.\<close>

datatype fd_req =
    R_seek int
  | R_read int
  | R_write int int
  | R_readv "int list"
  | R_writev int "int list"
  | R_fsync
  | R_fdatasync
  | R_fallocate int int int
  | R_space space_cmd int int
  | R_fiemap int int int int
  | R_clone int int int int
  | R_dedupe int int "(int \<times> int) list"
  | R_getflags
  | R_setflags int
  | R_get_fsxattr
  | R_set_fsxattr int
  | R_bulkstat_single int
  | R_close

datatype aio_req = A_fsync | A_pread int int | A_pwrite int int int

record 'k io_calls =
  io_req :: "fd_req \<Rightarrow> int \<Rightarrow> 'k \<Rightarrow> int \<times> 'k"
  io_fstat :: "int \<Rightarrow> 'k \<Rightarrow> (int \<times> fd_stat) \<times> 'k"
  io_dioinfo :: "int \<Rightarrow> 'k \<Rightarrow> (int \<times> int \<times> int) \<times> 'k" \<comment> \<open>result, \<open>d_miniosz\<close>, \<open>d_maxiosz\<close>\<close>
  io_submit :: "aio_req \<Rightarrow> int \<Rightarrow> 'k \<Rightarrow> int \<times> 'k"
  io_getevents :: "'k \<Rightarrow> int \<times> 'k"
  io_mmap :: "int \<Rightarrow> int \<Rightarrow> bool \<Rightarrow> bool \<Rightarrow> int \<Rightarrow> 'k \<Rightarrow> bool \<times> 'k" \<comment> \<open>length, offset, to write, shared, descriptor; mapped\<close>
  io_load :: "int \<Rightarrow> 'k \<Rightarrow> bool \<times> 'k" \<comment> \<open>length; without \<open>SIGBUS\<close>\<close>
  io_store :: "int \<Rightarrow> int \<Rightarrow> 'k \<Rightarrow> bool \<times> 'k"
  io_munmap :: "'k \<Rightarrow> int \<times> 'k"
  io_copy :: "int \<Rightarrow> int \<Rightarrow> int \<Rightarrow> int \<Rightarrow> int \<Rightarrow> 'k \<Rightarrow> (int \<times> int \<times> int) \<times> 'k" \<comment> \<open>result and the next offsets\<close>
  io_pipe :: "'k \<Rightarrow> int \<times> 'k"
  io_to_pipe :: "int \<Rightarrow> int \<Rightarrow> int \<Rightarrow> 'k \<Rightarrow> (int \<times> int) \<times> 'k"
  io_from_pipe :: "int \<Rightarrow> int \<Rightarrow> int \<Rightarrow> 'k \<Rightarrow> (int \<times> int) \<times> 'k"
  io_close_pipe :: "'k \<Rightarrow> int \<times> 'k"
  io_readdir :: "int \<Rightarrow> 'k \<Rightarrow> bool \<times> 'k" \<comment> \<open>one more entry\<close>
  io_closedir :: "int \<Rightarrow> 'k \<Rightarrow> int \<times> 'k"
  io_bulkstat :: "int \<Rightarrow> int \<Rightarrow> 'k \<Rightarrow> (int \<times> int) \<times> 'k" \<comment> \<open>result, count\<close>
  io_sync :: "'k \<Rightarrow> int \<times> 'k"
  io_listxattr :: "string \<Rightarrow> int \<Rightarrow> 'k \<Rightarrow> int \<times> 'k"
  io_statbuf :: "'k \<Rightarrow> fd_stat" \<comment> \<open>what the last \<open>stat64\<close> of a path found\<close>
  io_cursor :: "'k \<Rightarrow> int \<times> 'k" \<comment> \<open>clear the cursor of \<open>attr_list\<close>\<close>
  io_attrs :: "'k \<Rightarrow> string list \<times> bool" \<comment> \<open>the names the last \<open>attr_list\<close> found; more to come\<close>

text \<open>The options and limits the operations use; \<open>dio_env\<close> is the number in \<open>XFS_DIO_MIN\<close>.\<close>

record io_env =
  idmodulo :: int
  attr_mask :: int
  maxfsize :: int
  page_size :: int
  dio_env :: "int option"

section \<open>Building blocks\<close>

definition ask :: "('k \<Rightarrow> 'a \<times> 'k) \<Rightarrow> 'k fss \<Rightarrow> 'a \<times> 'k fss" where
  "ask call st = (case call (kern st) of (x, k) \<Rightarrow> (x, st\<lparr>kern := k\<rparr>))"

definition request :: "'k io_calls \<Rightarrow> fd_req \<Rightarrow> int \<Rightarrow> 'k fss \<Rightarrow> 'k fss" where
  "request I q fd st = snd (ask (io_req I q fd) st)"

definition close_fd :: "'k io_calls \<Rightarrow> int \<Rightarrow> 'k fss \<Rightarrow> ('k, unit) fss_run" where
  "close_fd I fd st = Inr ((), request I R_close fd st)"

text \<open>\<open>((int64_t)random() << 32) + random()\<close>, the calls from left to right.\<close>

definition rnd_long :: "'k name_calls \<Rightarrow> 'k fss \<Rightarrow> int \<times> 'k fss" where
  "rnd_long K st = (case rnd K st of (a, st1) \<Rightarrow> case rnd K st1 of (b, st2) \<Rightarrow> (long_random a b, st2))"

text \<open>\<open>memset(buf, nameseq & 0xff, len)\<close>\<close>

definition fill_byte :: "'k fss \<Rightarrow> int" where
  "fill_byte st = nameseq st AND 255"

text \<open>
  A loop: \<open>step\<close> ends it with a result (\<open>Inl\<close>) or goes on (\<open>Inr\<close>). \<open>None\<close> is a loop that never ends.
\<close>

partial_function (option) spin ::
  "('a \<Rightarrow> 'k fss \<Rightarrow> ('k, 'b + 'a) fss_run) \<Rightarrow> 'a \<Rightarrow> 'k fss \<Rightarrow> ('k, 'b) fss_run option" where
  "spin step x st =
     (case step x st of
        Inl e \<Rightarrow> Some (Inl e)
      | Inr (y, st1) \<Rightarrow> (case y of Inl z \<Rightarrow> Some (Inr (z, st1)) | Inr x1 \<Rightarrow> spin step x1 st1))"

declare spin.simps [code]

definition repeating :: "('a \<Rightarrow> 'k fss \<Rightarrow> ('k, 'b + 'a) fss_run) \<Rightarrow> 'a \<Rightarrow> 'k fss \<Rightarrow> ('k, 'b) fss_run" where
  "repeating step x st = (case spin step x st of None \<Rightarrow> Inl (Hang, st) | Some r \<Rightarrow> r)"

text \<open>A file of some types, opened; the operation ends if there is none or it cannot be opened.\<close>

definition with_open ::
  "'k name_calls \<Rightarrow> nat \<Rightarrow> int \<Rightarrow> int \<Rightarrow> 'k fss \<Rightarrow> (int \<Rightarrow> 'k fss \<Rightarrow> ('k, unit) fss_run) \<Rightarrow> ('k, unit) fss_run" where
  "with_open K which fl r st f =
     with_file which r st (\<lambda>_ _ p st1.
       on_ok (on_kern (open_path K p fl) st1) (\<lambda>((fd, _), st2).
         if fd < 0 then Inr ((), st2) else f fd st2))"

text \<open>And with what \<open>fstat64\<close> says of it.\<close>

definition with_stat ::
  "'k name_calls \<Rightarrow> 'k io_calls \<Rightarrow> nat \<Rightarrow> int \<Rightarrow> int \<Rightarrow> 'k fss
     \<Rightarrow> (int \<Rightarrow> fd_stat \<Rightarrow> 'k fss \<Rightarrow> ('k, unit) fss_run) \<Rightarrow> ('k, unit) fss_run" where
  "with_stat K I which fl r st f =
     with_open K which fl r st (\<lambda>fd st1.
       case ask (io_fstat I fd) st1 of ((e, stb), st2) \<Rightarrow>
         if e < 0 then close_fd I fd st2 else f fd stb st2)"

section \<open>Reading and writing\<close>

definition read_f :: "'k name_calls \<Rightarrow> 'k io_calls \<Rightarrow> int \<Rightarrow> 'k fss \<Rightarrow> ('k, unit) fss_run" where
  "read_f K I r st =
     with_stat K I FT_REGFILE O_RDONLY r st (\<lambda>fd stb st1.
       if st_size stb = 0 then close_fd I fd st1
       else
         (case rnd_long K st1 of (lr, st2) \<Rightarrow>
          case rnd K (request I (R_seek (lr mod st_size stb)) fd st2) of (x, st3) \<Rightarrow>
            close_fd I fd (request I (R_read (some_len x)) fd st3)))"

definition readv_f :: "'k name_calls \<Rightarrow> 'k io_calls \<Rightarrow> int \<Rightarrow> 'k fss \<Rightarrow> ('k, unit) fss_run" where
  "readv_f K I r st =
     with_stat K I FT_REGFILE O_RDONLY r st (\<lambda>fd stb st1.
       if st_size stb = 0 then close_fd I fd st1
       else
         (case rnd_long K st1 of (lr, st2) \<Rightarrow>
          case rnd K (request I (R_seek (lr mod st_size stb)) fd st2) of (x, st3) \<Rightarrow>
          case rnd K st3 of (y, st4) \<Rightarrow>
            close_fd I fd (request I (R_readv (iov_parts (some_len x) y)) fd st4)))"

definition write_f :: "'k name_calls \<Rightarrow> 'k io_calls \<Rightarrow> io_env \<Rightarrow> int \<Rightarrow> 'k fss \<Rightarrow> ('k, unit) fss_run" where
  "write_f K I env r st =
     with_stat K I FT_REGm O_WRONLY r st (\<lambda>fd stb st1.
       case rnd_long K st1 of (lr, st2) \<Rightarrow>
       case rnd K (request I (R_seek (write_off (maxfsize env) (st_size stb) lr)) fd st2) of (x, st3) \<Rightarrow>
         close_fd I fd (request I (R_write (fill_byte st3) (some_len x)) fd st3))"

definition writev_f :: "'k name_calls \<Rightarrow> 'k io_calls \<Rightarrow> io_env \<Rightarrow> int \<Rightarrow> 'k fss \<Rightarrow> ('k, unit) fss_run" where
  "writev_f K I env r st =
     with_stat K I FT_REGm O_WRONLY r st (\<lambda>fd stb st1.
       case rnd_long K st1 of (lr, st2) \<Rightarrow>
       case rnd K (request I (R_seek (write_off (maxfsize env) (st_size stb) lr)) fd st2) of (x, st3) \<Rightarrow>
       case rnd K st3 of (y, st4) \<Rightarrow>
         close_fd I fd (request I (R_writev (fill_byte st4) (iov_parts (some_len x) y)) fd st4))"

text \<open>
  The alignment and the largest size of direct requests: from \<open>XFS_IOC_DIOINFO\<close> or, when that fails,
  the block size; \<open>XFS_DIO_MIN\<close> overrides the alignment. An alignment of 0 traps.
\<close>

definition dio_limits :: "'k io_calls \<Rightarrow> io_env \<Rightarrow> int \<Rightarrow> fd_stat \<Rightarrow> 'k fss \<Rightarrow> ('k, int \<times> int) fss_run" where
  "dio_limits I env fd stb st =
     (case ask (io_dioinfo I fd) st of ((e, mini, maxi), st1) \<Rightarrow>
        let (mini1, maxi1) = (if e < 0 then (u32 (st_blksize stb), 2147483647 AND NOT (u32 (st_blksize stb) - 1))
                              else (mini, maxi));
            align = (case dio_env env of None \<Rightarrow> mini1 | Some n \<Rightarrow> u32 n)
        in if align = 0 then Inl (Fault, st1) else Inr ((align, maxi1), st1))"

definition dread_f :: "'k name_calls \<Rightarrow> 'k io_calls \<Rightarrow> io_env \<Rightarrow> int \<Rightarrow> 'k fss \<Rightarrow> ('k, unit) fss_run" where
  "dread_f K I env r st =
     with_stat K I FT_REGFILE (O_RDONLY OR O_DIRECT) r st (\<lambda>fd stb st1.
       if st_size stb = 0 then close_fd I fd st1
       else
         on_ok (dio_limits I env fd stb st1) (\<lambda>((align, maxio), st2).
           case rnd_long K st2 of (lr, st3) \<Rightarrow>
           case rnd K (request I (R_seek (dio_off align (st_size stb) lr)) fd st3) of (x, st4) \<Rightarrow>
             close_fd I fd (request I (R_read (dio_len align maxio x)) fd st4)))"

definition dwrite_f :: "'k name_calls \<Rightarrow> 'k io_calls \<Rightarrow> io_env \<Rightarrow> int \<Rightarrow> 'k fss \<Rightarrow> ('k, unit) fss_run" where
  "dwrite_f K I env r st =
     with_stat K I FT_REGFILE (O_WRONLY OR O_DIRECT) r st (\<lambda>fd stb st1.
       on_ok (dio_limits I env fd stb st1) (\<lambda>((align, maxio), st2).
         case rnd_long K st2 of (lr, st3) \<Rightarrow>
         case rnd K (request I (R_seek (dio_off align (min (st_size stb + 1048576) MAXFSIZE) lr)) fd st3) of (x, st4) \<Rightarrow>
         let st5 = request I (R_seek (dio_write_off (maxfsize env) align (st_size stb) lr)) fd st4
         in close_fd I fd (request I (R_write (fill_byte st5) (dio_len align maxio x)) fd st5)))"

text \<open>One asynchronous request and its completion, then \<open>close\<close> in every case.\<close>

definition aio_once :: "'k io_calls \<Rightarrow> aio_req \<Rightarrow> int \<Rightarrow> 'k fss \<Rightarrow> ('k, unit) fss_run" where
  "aio_once I q fd st =
     (case ask (io_submit I q fd) st of (e, st1) \<Rightarrow>
        if e \<noteq> 1 then close_fd I fd st1
        else (case ask (io_getevents I) st1 of (_, st2) \<Rightarrow> close_fd I fd st2))"

definition do_aio_rw :: "'k name_calls \<Rightarrow> 'k io_calls \<Rightarrow> io_env \<Rightarrow> int \<Rightarrow> int \<Rightarrow> 'k fss \<Rightarrow> ('k, unit) fss_run" where
  "do_aio_rw K I env fl r st =
     (let iswrite = (fl AND (O_WRONLY OR O_RDWR) \<noteq> 0) in
      with_stat K I FT_REGFILE (fl OR O_DIRECT) r st (\<lambda>fd stb st1.
        if \<not> iswrite \<and> st_size stb = 0 then close_fd I fd st1
        else
          on_ok (dio_limits I env fd stb st1) (\<lambda>((align, maxio), st2).
            case rnd_long K st2 of (lr, st3) \<Rightarrow>
            case rnd K st3 of (x, st4) \<Rightarrow>
              let len = dio_len align maxio x in
              aio_once I
                (if iswrite then A_pwrite (fill_byte st4) len (dio_write_off (maxfsize env) align (st_size stb) lr)
                 else A_pread len (dio_off align (st_size stb) lr)) fd st4)))"

definition aread_f :: "'k name_calls \<Rightarrow> 'k io_calls \<Rightarrow> io_env \<Rightarrow> int \<Rightarrow> 'k fss \<Rightarrow> ('k, unit) fss_run" where
  "aread_f K I env = do_aio_rw K I env O_RDONLY"

definition awrite_f :: "'k name_calls \<Rightarrow> 'k io_calls \<Rightarrow> io_env \<Rightarrow> int \<Rightarrow> 'k fss \<Rightarrow> ('k, unit) fss_run" where
  "awrite_f K I env = do_aio_rw K I env O_WRONLY"

text \<open>
  The mapped pages are read or filled. A store that raises \<open>SIGBUS\<close> comes back through
  \<open>siglongjmp\<close>; a load that does so aborts the process.
\<close>

definition do_mmap :: "'k name_calls \<Rightarrow> 'k io_calls \<Rightarrow> io_env \<Rightarrow> bool \<Rightarrow> int \<Rightarrow> 'k fss \<Rightarrow> ('k, unit) fss_run" where
  "do_mmap K I env wr r st =
     with_stat K I FT_REGFILE O_RDWR r st (\<lambda>fd stb st1.
       if st_size stb = 0 then close_fd I fd st1
       else
         (case rnd_long K st1 of (lr, st2) \<Rightarrow>
          case rnd K st2 of (x, st3) \<Rightarrow>
          case rnd K st3 of (y, st4) \<Rightarrow>
            let (off, len) = map_range (page_size env) (st_size stb) lr x in
            case ask (io_mmap I len off wr (y mod 2 \<noteq> 0) fd) st4 of (ok, st5) \<Rightarrow>
              if \<not> ok then close_fd I fd st5
              else if wr then
                (case ask (io_store I (fill_byte st5) len) st5 of (_, st6) \<Rightarrow>
                 case ask (io_munmap I) st6 of (_, st7) \<Rightarrow> close_fd I fd st7)
              else
                (case ask (io_load I len) st5 of (fine, st6) \<Rightarrow>
                   if \<not> fine then Inl (Abort, st6)
                   else (case ask (io_munmap I) st6 of (_, st7) \<Rightarrow> close_fd I fd st7))))"

definition mread_f :: "'k name_calls \<Rightarrow> 'k io_calls \<Rightarrow> io_env \<Rightarrow> int \<Rightarrow> 'k fss \<Rightarrow> ('k, unit) fss_run" where
  "mread_f K I env = do_mmap K I env False"

definition mwrite_f :: "'k name_calls \<Rightarrow> 'k io_calls \<Rightarrow> io_env \<Rightarrow> int \<Rightarrow> 'k fss \<Rightarrow> ('k, unit) fss_run" where
  "mwrite_f K I env = do_mmap K I env True"

end
