(* ===== verification/Fss_Space.thy ===== *)
theory Fss_Space
  imports Fss_Io
begin

text \<open>
  The operations of \<open>fsstress\<close> on the space, the state on disk, the flags and the attribute lists of
  files, and those that read directories and inodes.
\<close>

section \<open>Space\<close>

definition space_f ::
  "space_cmd \<Rightarrow> bool \<Rightarrow> 'k name_calls \<Rightarrow> 'k io_calls \<Rightarrow> io_env \<Rightarrow> int \<Rightarrow> 'k fss \<Rightarrow> ('k, unit) fss_run" where
  "space_f cmd with_len K I env r st =
     with_stat K I FT_REGFILE O_RDWR r st (\<lambda>fd stb st1.
       case rnd_long K st1 of (lr, st2) \<Rightarrow>
         let off = write_off (maxfsize env) (st_size stb) lr in
         case (if with_len then (case rnd K st2 of (x, s) \<Rightarrow> (x mod 1048576, s)) else (0, st2)) of (len, st3) \<Rightarrow>
           close_fd I fd (request I (R_space cmd off len) fd st3))"

definition allocsp_f :: "'k name_calls \<Rightarrow> 'k io_calls \<Rightarrow> io_env \<Rightarrow> int \<Rightarrow> 'k fss \<Rightarrow> ('k, unit) fss_run" where
  "allocsp_f = space_f ALLOCSP64 False"

definition freesp_f :: "'k name_calls \<Rightarrow> 'k io_calls \<Rightarrow> io_env \<Rightarrow> int \<Rightarrow> 'k fss \<Rightarrow> ('k, unit) fss_run" where
  "freesp_f = space_f FREESP64 False"

definition resvsp_f :: "'k name_calls \<Rightarrow> 'k io_calls \<Rightarrow> io_env \<Rightarrow> int \<Rightarrow> 'k fss \<Rightarrow> ('k, unit) fss_run" where
  "resvsp_f = space_f RESVSP64 True"

definition unresvsp_f :: "'k name_calls \<Rightarrow> 'k io_calls \<Rightarrow> io_env \<Rightarrow> int \<Rightarrow> 'k fss \<Rightarrow> ('k, unit) fss_run" where
  "unresvsp_f = space_f UNRESVSP64 True"

text \<open>\<open>mode |= FALLOC_FL_KEEP_SIZE & random()\<close>; \<open>opno\<close> is the number of the operation.\<close>

definition do_fallocate ::
  "'k name_calls \<Rightarrow> 'k io_calls \<Rightarrow> io_env \<Rightarrow> int \<Rightarrow> int \<Rightarrow> int \<Rightarrow> 'k fss \<Rightarrow> ('k, unit) fss_run" where
  "do_fallocate K I env opno mode r st =
     with_stat K I FT_REGFILE O_RDWR r st (\<lambda>fd stb st1.
       case rnd_long K st1 of (lr, st2) \<Rightarrow>
       case rnd K st2 of (x, st3) \<Rightarrow>
       case rnd K st3 of (y, st4) \<Rightarrow>
         let (off, len) = falloc_range (st_blksize stb) mode opno
               (write_off (maxfsize env) (st_size stb) lr) (x mod 1048576)
         in close_fd I fd (request I (R_fallocate (mode OR (1 AND y)) off len) fd st4))"

definition fallocate_f :: "'k name_calls \<Rightarrow> 'k io_calls \<Rightarrow> io_env \<Rightarrow> int \<Rightarrow> int \<Rightarrow> 'k fss \<Rightarrow> ('k, unit) fss_run" where
  "fallocate_f K I env opno = do_fallocate K I env opno 0"

definition punch_f :: "'k name_calls \<Rightarrow> 'k io_calls \<Rightarrow> io_env \<Rightarrow> int \<Rightarrow> int \<Rightarrow> 'k fss \<Rightarrow> ('k, unit) fss_run" where
  "punch_f K I env opno = do_fallocate K I env opno 2"

definition zero_f :: "'k name_calls \<Rightarrow> 'k io_calls \<Rightarrow> io_env \<Rightarrow> int \<Rightarrow> int \<Rightarrow> 'k fss \<Rightarrow> ('k, unit) fss_run" where
  "zero_f K I env opno = do_fallocate K I env opno 16"

definition collapse_f :: "'k name_calls \<Rightarrow> 'k io_calls \<Rightarrow> io_env \<Rightarrow> int \<Rightarrow> int \<Rightarrow> 'k fss \<Rightarrow> ('k, unit) fss_run" where
  "collapse_f K I env opno = do_fallocate K I env opno FALLOC_FL_COLLAPSE_RANGE"

definition insert_f :: "'k name_calls \<Rightarrow> 'k io_calls \<Rightarrow> io_env \<Rightarrow> int \<Rightarrow> int \<Rightarrow> 'k fss \<Rightarrow> ('k, unit) fss_run" where
  "insert_f K I env opno = do_fallocate K I env opno FALLOC_FL_INSERT_RANGE"

text \<open>\<open>FIEMAP_FLAGS_COMPAT\<close> is 3. The number of extents the kernel is told are mapped is drawn as well.\<close>

definition fiemap_f :: "'k name_calls \<Rightarrow> 'k io_calls \<Rightarrow> io_env \<Rightarrow> int \<Rightarrow> 'k fss \<Rightarrow> ('k, unit) fss_run" where
  "fiemap_f K I env r st =
     with_stat K I FT_REGFILE O_RDWR r st (\<lambda>fd stb st1.
       case rnd K st1 of (blocks, st2) \<Rightarrow>
       case rnd_long K st2 of (lr, st3) \<Rightarrow>
       case rnd K st3 of (fl, st4) \<Rightarrow>
       case rnd K st4 of (_, st5) \<Rightarrow>
       case rnd_long K st5 of (len, st6) \<Rightarrow>
         close_fd I fd (request I (R_fiemap (fl AND (3 OR 0x10000)) (blocks AND 0xFFFF)
           (write_off (maxfsize env) (st_size stb) lr) len) fd st6))"

definition truncate_f :: "'k name_calls \<Rightarrow> 'k io_calls \<Rightarrow> io_env \<Rightarrow> int \<Rightarrow> 'k fss \<Rightarrow> ('k, unit) fss_run" where
  "truncate_f K I env r st =
     with_file FT_REGFILE r st (\<lambda>_ _ p st1.
       on_ok (on_kern (stat64_path K p) st1) (\<lambda>(re, st2).
         if 0 < err_of re then Inr ((), st2)
         else
           (case rnd_long K st2 of (lr, st3) \<Rightarrow>
              on_ok (on_kern (truncate64_path K p
                  (write_off (maxfsize env) (st_size (io_statbuf I (kern st2))) lr)) st3)
                (\<lambda>(_, st4). Inr ((), st4)))))"

section \<open>To the disk\<close>

definition fsync_f :: "'k name_calls \<Rightarrow> 'k io_calls \<Rightarrow> int \<Rightarrow> 'k fss \<Rightarrow> ('k, unit) fss_run" where
  "fsync_f K I r st =
     with_file (FT_REGFILE OR FT_DIRm) r st (\<lambda>_ _ p st1.
       on_ok (on_kern (open_file_or_dir K O_WRONLY O_DIRECT O_DIRECTORY p O_WRONLY) st1) (\<lambda>((fd, _), st2).
         if fd < 0 then Inr ((), st2) else close_fd I fd (request I R_fsync fd st2)))"

definition fdatasync_f :: "'k name_calls \<Rightarrow> 'k io_calls \<Rightarrow> int \<Rightarrow> 'k fss \<Rightarrow> ('k, unit) fss_run" where
  "fdatasync_f K I r st =
     with_open K FT_REGFILE O_WRONLY r st (\<lambda>fd st1. close_fd I fd (request I R_fdatasync fd st1))"

definition afsync_f :: "'k name_calls \<Rightarrow> 'k io_calls \<Rightarrow> int \<Rightarrow> 'k fss \<Rightarrow> ('k, unit) fss_run" where
  "afsync_f K I r st =
     with_file (FT_REGFILE OR FT_DIRm) r st (\<lambda>_ _ p st1.
       on_ok (on_kern (open_file_or_dir K O_WRONLY O_DIRECT O_DIRECTORY p (O_WRONLY OR O_DIRECT)) st1) (\<lambda>((fd, _), st2).
         if fd < 0 then Inr ((), st2) else aio_once I A_fsync fd st2))"

definition sync_f :: "'k io_calls \<Rightarrow> 'k fss \<Rightarrow> ('k, unit) fss_run" where
  "sync_f I st = Inr ((), snd (ask (io_sync I) st))"

section \<open>Flags\<close>

text \<open>
  The file is opened and the request made on what \<open>open\<close> returned, -1 included, which is closed, too.
\<close>

definition open_here ::
  "'k name_calls \<Rightarrow> int \<Rightarrow> int \<Rightarrow> 'k fss \<Rightarrow> (int \<Rightarrow> 'k fss \<Rightarrow> ('k, unit) fss_run) \<Rightarrow> ('k, unit) fss_run" where
  "open_here K fl r st f =
     on_ok (file_or_here FT_ANYm r st) (\<lambda>(p, st1).
       on_ok (on_kern (open_path K p fl) st1) (\<lambda>((fd, _), st2). f fd st2))"

definition getattr_f :: "'k name_calls \<Rightarrow> 'k io_calls \<Rightarrow> int \<Rightarrow> 'k fss \<Rightarrow> ('k, unit) fss_run" where
  "getattr_f K I r st = open_here K O_RDWR r st (\<lambda>fd st1. close_fd I fd (request I R_getflags fd st1))"

definition setattr_f :: "'k name_calls \<Rightarrow> 'k io_calls \<Rightarrow> io_env \<Rightarrow> int \<Rightarrow> 'k fss \<Rightarrow> ('k, unit) fss_run" where
  "setattr_f K I env r st =
     open_here K O_RDWR r st (\<lambda>fd st1.
       case rnd K st1 of (x, st2) \<Rightarrow> close_fd I fd (request I (R_setflags (attr_mask env AND u32 x)) fd st2))"

abbreviation (input) XFS_PROJIDMODULO_MAX :: int where "XFS_PROJIDMODULO_MAX \<equiv> 16"

definition setxattr_f :: "'k name_calls \<Rightarrow> 'k io_calls \<Rightarrow> io_env \<Rightarrow> int \<Rightarrow> 'k fss \<Rightarrow> ('k, unit) fss_run" where
  "setxattr_f K I env r st =
     open_here K O_RDWR r st (\<lambda>fd st1.
       case rnd K st1 of (p, st2) \<Rightarrow>
       case rnd K st2 of (x, st3) \<Rightarrow>
         let e = min (idmodulo env) XFS_PROJIDMODULO_MAX in
         if e = 0 then Inl (Fault, st3)
         else
           (case ask (io_req I R_get_fsxattr fd) st3 of (g, st4) \<Rightarrow>
              close_fd I fd
                (if g = 0 then request I (R_set_fsxattr (u32 p mod 2 ^ nat (x mod e))) fd st4 else st4)))"

section \<open>Attributes\<close>

text \<open>The first loop counts the attributes, the second finds the one with a number.\<close>

definition count_attrs :: "'k name_calls \<Rightarrow> 'k io_calls \<Rightarrow> string \<Rightarrow> int \<Rightarrow> 'k fss \<Rightarrow> ('k, int + int) fss_run" where
  "count_attrs K I p sofar st =
     on_ok (on_kern (attr_list_path K p 1) st) (\<lambda>((e, _), st1).
       if e \<noteq> 0 then Inr (Inl sofar, st1)
       else
         (case io_attrs I (kern st1) of (names, others) \<Rightarrow>
            let sofar1 = sofar + int (length names)
            in Inr (if others then Inr sofar1 else Inl sofar1, st1)))"

definition find_attr ::
  "'k name_calls \<Rightarrow> 'k io_calls \<Rightarrow> string \<Rightarrow> int \<Rightarrow> int \<Rightarrow> 'k fss \<Rightarrow> ('k, string option + int) fss_run" where
  "find_attr K I p which ent st =
     on_ok (on_kern (attr_list_path K p 1) st) (\<lambda>((e, _), st1).
       if e \<noteq> 0 then Inr (Inl None, st1)
       else
         (case io_attrs I (kern st1) of (names, others) \<Rightarrow>
            if which < ent + int (length names) then Inr (Inl (Some (names ! nat (which - ent))), st1)
            else Inr (if others then Inr (ent + int (length names)) else Inl None, st1)))"

definition attr_remove_f :: "'k name_calls \<Rightarrow> 'k io_calls \<Rightarrow> int \<Rightarrow> 'k fss \<Rightarrow> ('k, unit) fss_run" where
  "attr_remove_f K I r st =
     on_ok (file_or_here FT_ANYm r st) (\<lambda>(p, st1).
     on_ok (repeating (count_attrs K I p) 0 (snd (ask (io_cursor I) st1))) (\<lambda>(sofar, st2).
       if sofar = 0 then Inr ((), st2)
       else
         (case rnd K st2 of (x, st3) \<Rightarrow>
            on_ok (repeating (find_attr K I p (x mod sofar)) 0 (snd (ask (io_cursor I) st3))) (\<lambda>(aname, st4).
              case aname of
                None \<Rightarrow> Inr ((), st4)
              | Some a \<Rightarrow> on_ok (on_kern (attr_remove_path K p a) st4) (\<lambda>(_, st5). Inr ((), st5))))))"

text \<open>The attribute takes a number from \<open>nameseq\<close>, as files do.\<close>

definition attr_lengths :: "int list" where
  "attr_lengths = [10, 100, 1000, 10000]"

definition attr_set_f :: "'k name_calls \<Rightarrow> int \<Rightarrow> 'k fss \<Rightarrow> ('k, unit) fss_run" where
  "attr_set_f K r st =
     on_ok (file_or_here FT_ANYm r st) (\<lambda>(p, st1).
       let aname = CHR ''a'' # fmt_x (nameseq st1); st2 = st1\<lparr>nameseq := nameseq st1 + 1\<rparr> in
       case rnd K st2 of (x, st3) \<Rightarrow>
       case rnd K st3 of (y, st4) \<Rightarrow>
         let len0 = y mod (attr_lengths ! nat (x mod 4)); len = (if len0 = 0 then 1 else len0)
         in on_ok (on_kern (attr_set_path K p aname (replicate (nat len) (char_of (nat (fill_byte st4))))) st4)
              (\<lambda>(_, st5). Inr ((), st5)))"

definition listfattr_f :: "'k io_calls \<Rightarrow> int \<Rightarrow> 'k fss \<Rightarrow> ('k, unit) fss_run" where
  "listfattr_f I r st =
     with_file (FT_REGFILE OR FT_DIRm) r st (\<lambda>_ _ p st1.
       case ask (io_listxattr I p 0) st1 of (e, st2) \<Rightarrow>
         if e \<le> 0 then Inr ((), st2) else Inr ((), snd (ask (io_listxattr I p e) st2)))"

section \<open>Directories and inodes\<close>

definition getdents_f :: "'k name_calls \<Rightarrow> 'k io_calls \<Rightarrow> int \<Rightarrow> 'k fss \<Rightarrow> ('k, unit) fss_run" where
  "getdents_f K I r st =
     on_ok (file_or_here FT_DIRm r st) (\<lambda>(p, st1).
     on_ok (on_kern (opendir_path K p) st1) (\<lambda>((dir, _), st2).
       if dir < 0 then Inr ((), st2)
       else
         on_ok (repeating (\<lambda>_ s. case ask (io_readdir I dir) s of (others, s1) \<Rightarrow>
                   Inr (if others then Inr () else Inl (), s1)) () st2) (\<lambda>(_, st3).
           Inr ((), snd (ask (io_closedir I dir) st3)))))"

definition bulkstat_f :: "'k name_calls \<Rightarrow> 'k io_calls \<Rightarrow> int \<Rightarrow> 'k fss \<Rightarrow> ('k, unit) fss_run" where
  "bulkstat_f K I r st =
     (let nent = r mod 999 + 2 in
      on_ok (on_kern (\<lambda>k. case c_open K O_RDONLY ''.'' k of (fd, e, k1) \<Rightarrow> Inr ((fd, e), k1)) st) (\<lambda>((fd, _), st1).
      on_ok (repeating (\<lambda>sofar s. case ask (io_bulkstat I nent fd) s of ((e, count), s1) \<Rightarrow>
                Inr (if e = 0 \<and> 0 < count then Inr (sofar + count) else Inl sofar, s1)) 0 st1) (\<lambda>(_, st2).
        close_fd I fd st2)))"

definition bulkstat1_f :: "'k name_calls \<Rightarrow> 'k io_calls \<Rightarrow> int \<Rightarrow> 'k fss \<Rightarrow> ('k, unit) fss_run" where
  "bulkstat1_f K I r st =
     (case rnd K st of (x, st1) \<Rightarrow>
        on_ok (if x AND 1 \<noteq> 0 then
                 on_ok (file_or_here FT_ANYm r st1) (\<lambda>(p, st2).
                 on_ok (on_kern (stat64_path K p) st2) (\<lambda>((e, _), st3).
                   Inr (if e < 0 then r else st_ino (io_statbuf I (kern st3)), st3)))
               else Inr (r, st1)) (\<lambda>(ino, st4).
        on_ok (on_kern (\<lambda>k. case c_open K O_RDONLY ''.'' k of (fd, e, k1) \<Rightarrow> Inr ((fd, e), k1)) st4) (\<lambda>((fd, _), st5).
          close_fd I fd (request I (R_bulkstat_single ino) fd st5))))"

end
