(* ===== verification/Fss_Io_Ok.thy ===== *)
theory Fss_Io_Ok
  imports Fss_Attrs_Ok Fss_Space
begin

text \<open>
  The operations on contents leave the tables and the directory tree as they are. \<open>keeps\<close> is the frame
  of a part of an operation, with one rule for each way the operations are put together; the loops
  that the kernel or the random numbers decide about may not end.
\<close>

section \<open>The frame\<close>

definition still :: "('k \<Rightarrow> string list) \<Rightarrow> ('k \<Rightarrow> tree) \<Rightarrow> ('k \<Rightarrow> 'a \<times> 'k) \<Rightarrow> bool" where
  "still cwd tree call \<longleftrightarrow> (\<forall>k x k'. call k = (x, k') \<longrightarrow> cwd k' = cwd k \<and> tree k' = tree k)"

definition stays :: "('k \<Rightarrow> string list) \<Rightarrow> ('k \<Rightarrow> tree) \<Rightarrow> 'k fss \<Rightarrow> 'k fss \<Rightarrow> bool" where
  "stays cwd tree st st' \<longleftrightarrow> calm cwd tree st st'"

text \<open>\<open>b\<close>: a loop in it may go on for ever.\<close>

definition keeps :: "bool \<Rightarrow> ('k \<Rightarrow> string list) \<Rightarrow> ('k \<Rightarrow> tree) \<Rightarrow> 'k fss \<Rightarrow> ('k, 'a) fss_run \<Rightarrow> bool" where
  "keeps b cwd tree st res \<longleftrightarrow> (forest_ok st \<longrightarrow>
     (case res of Inl (h, _) \<Rightarrow> b \<and> h = Hang | Inr (_, st') \<Rightarrow> stays cwd tree st st'))"

named_theorems keeps_intros

lemma stays_refl [keeps_intros]: "stays cwd tree st st"
  using quiet_step_refl by (simp add: stays_def)

lemma stays_trans: "stays cwd tree a b \<Longrightarrow> stays cwd tree b c \<Longrightarrow> stays cwd tree a c"
  using calm_trans unfolding stays_def by blast

lemma stays_forest: "stays cwd tree st st' \<Longrightarrow> forest_ok st \<Longrightarrow> forest_ok st'"
  using quiet_step_forest by (auto simp: stays_def)

lemma keeps_Inr [keeps_intros]: "stays cwd tree st s \<Longrightarrow> keeps b cwd tree st (Inr (x, s))"
  by (simp add: keeps_def)

lemma keeps_from:
  assumes "stays cwd tree st s" and "keeps b cwd tree s res"
  shows "keeps b cwd tree st res"
  using assms stays_forest[OF assms(1)] stays_trans[OF assms(1)]
  by (auto simp: keeps_def split: sum.splits prod.splits)

lemma keeps_on_ok [keeps_intros]:
  assumes "keeps b cwd tree st r" and "\<And>x s. forest_ok st \<Longrightarrow> r = Inr (x, s) \<Longrightarrow> keeps b cwd tree s (f x s)"
  shows "keeps b cwd tree st (on_ok r (\<lambda>(x, s). f x s))"
proof (cases r)
  case (Inl e)
  then show ?thesis using assms(1) by (cases e) (simp add: keeps_def)
next
  case (Inr y)
  then obtain x s where y: "r = Inr (x, s)" by (cases y) simp
  have "keeps b cwd tree st (f x s)" if "forest_ok st"
    using keeps_from[OF _ assms(2)[OF that y]] assms(1) that by (simp add: keeps_def y)
  then show ?thesis by (simp add: y keeps_def)
qed

lemma keeps_if [keeps_intros]:
  "(c \<Longrightarrow> keeps b cwd tree st x) \<Longrightarrow> (\<not> c \<Longrightarrow> keeps b cwd tree st y) \<Longrightarrow> keeps b cwd tree st (if c then x else y)"
  by simp

lemma keeps_option [keeps_intros]:
  "(x = None \<Longrightarrow> keeps b cwd tree st y) \<Longrightarrow> (\<And>a. x = Some a \<Longrightarrow> keeps b cwd tree st (f a)) \<Longrightarrow>
     keeps b cwd tree st (case x of None \<Rightarrow> y | Some a \<Rightarrow> f a)"
  by (cases x) simp_all

lemma keeps_Let [keeps_intros]: "(\<And>x. x = a \<Longrightarrow> keeps b cwd tree st (f x)) \<Longrightarrow> keeps b cwd tree st (let x = a in f x)"
  by (simp add: Let_def)

text \<open>Loops, by an invariant.\<close>

lemma spin_rule:
  assumes "spin step x st = Some r" and "P x st"
    and inv: "\<And>x s. P x s \<Longrightarrow> (case step x s of Inl e \<Rightarrow> Q (Inl e)
      | Inr (y, s') \<Rightarrow> (case y of Inl z \<Rightarrow> Q (Inr (z, s')) | Inr x' \<Rightarrow> P x' s'))"
  shows "Q r"
proof -
  have "stp = step \<longrightarrow> P x st \<longrightarrow> Q r" if "spin stp x st = Some r" for stp x st r
    using that
  proof (rule spin.raw_induct[rotated 1, of "((stp, x), st)" r "\<lambda>stp x st r. stp = step \<longrightarrow> P x st \<longrightarrow> Q r", unfolded prod.case], intro impI)
    fix sp stp x st r
    assume IH: "\<And>stp x st r. sp stp x st = Some r \<Longrightarrow> stp = step \<longrightarrow> P x st \<longrightarrow> Q r"
      and eq: "(case stp x st of Inl e \<Rightarrow> Some (Inl e)
        | Inr (y, st1) \<Rightarrow> (case y of Inl z \<Rightarrow> Some (Inr (z, st1)) | Inr x1 \<Rightarrow> sp stp x1 st1)) = Some r"
      and stp: "stp = step" and "P x st"
    from inv[OF this(4)] show "Q r"
      using eq IH unfolding stp by (fastforce split: sum.splits prod.splits)
  qed
  then show ?thesis using assms(1,2) by blast
qed

lemma keeps_repeating [keeps_intros]:
  assumes step: "\<And>x s. keeps True cwd tree s (step x s)"
  shows "keeps True cwd tree st (repeating step x st)"
proof (cases "spin step x st")
  case None
  then show ?thesis by (simp add: repeating_def keeps_def)
next
  case (Some r)
  have "forest_ok st \<Longrightarrow> keeps True cwd tree st r"
  proof (rule spin_rule[OF Some, where P = "\<lambda>_ s. stays cwd tree st s"])
    fix x s assume st: "forest_ok st" "stays cwd tree st s"
    have "keeps True cwd tree st (step x s)" by (rule keeps_from[OF st(2) step])
    then show "case step x s of Inl e \<Rightarrow> keeps True cwd tree st (Inl e)
        | Inr (y, s') \<Rightarrow> (case y of Inl z \<Rightarrow> keeps True cwd tree st (Inr (z, s')) | Inr x' \<Rightarrow> stays cwd tree st s')"
      using st(1) by (auto simp: keeps_def split: sum.splits prod.splits)
  qed (rule stays_refl)
  then show ?thesis using Some by (simp add: repeating_def keeps_def)
qed

lemma keeps_repeating_from:
  "stays cwd tree st s \<Longrightarrow> (\<And>x s. keeps True cwd tree s (step x s)) \<Longrightarrow> keeps True cwd tree st (repeating step x s)"
  by (rule keeps_from[OF _ keeps_repeating])

section \<open>The contract\<close>

text \<open>The alignment of direct requests in \<open>XFS_DIO_MIN\<close> is not 0.\<close>

definition dio_env_ok :: "io_env \<Rightarrow> bool" where
  "dio_env_ok env \<longleftrightarrow> (\<forall>n. dio_env env = Some n \<longrightarrow> u32 n \<noteq> 0)"


definition io_still :: "('k \<Rightarrow> string list) \<Rightarrow> ('k \<Rightarrow> tree) \<Rightarrow> 'k io_calls \<Rightarrow> bool" where
  "io_still cwd tree I \<longleftrightarrow> (\<forall>q fd. still cwd tree (io_req I q fd)) \<and> (\<forall>fd. still cwd tree (io_fstat I fd))
     \<and> (\<forall>fd. still cwd tree (io_dioinfo I fd)) \<and> (\<forall>q fd. still cwd tree (io_submit I q fd))
     \<and> still cwd tree (io_getevents I) \<and> (\<forall>len off wr sh fd. still cwd tree (io_mmap I len off wr sh fd))
     \<and> (\<forall>len. still cwd tree (io_load I len)) \<and> (\<forall>c len. still cwd tree (io_store I c len))
     \<and> still cwd tree (io_munmap I) \<and> (\<forall>a b c d n. still cwd tree (io_copy I a b c d n))
     \<and> still cwd tree (io_pipe I) \<and> (\<forall>fd off n. still cwd tree (io_to_pipe I fd off n))
     \<and> (\<forall>fd off n. still cwd tree (io_from_pipe I fd off n)) \<and> still cwd tree (io_close_pipe I)
     \<and> (\<forall>d. still cwd tree (io_readdir I d)) \<and> (\<forall>d. still cwd tree (io_closedir I d))
     \<and> (\<forall>n fd. still cwd tree (io_bulkstat I n fd)) \<and> still cwd tree (io_sync I)
     \<and> (\<forall>p n. still cwd tree (io_listxattr I p n)) \<and> still cwd tree (io_cursor I)"

definition no_creat :: "int \<Rightarrow> bool" where
  "no_creat fl \<longleftrightarrow> fl AND O_CREAT = 0"

text \<open>
  A file is made only when \<open>open\<close> is told to. The calls on descriptors do not touch names; \<open>fstat\<close> and \<open>XFS_IOC_DIOINFO\<close> give block sizes that
  are not 0.
\<close>

locale file_io = namespace K cwd tree for K :: "'k name_calls" and cwd :: "'k \<Rightarrow> string list" and tree :: "'k \<Rightarrow> tree" +
  fixes I :: "'k io_calls"
  assumes opens: "no_creat fl \<Longrightarrow> acts cwd tree (c_open K fl) leaves"
    and opendirs: "acts cwd tree (c_opendir K) leaves"
    and truncates: "acts cwd tree (c_truncate K n) leaves"
    and attr_lists: "acts cwd tree (c_attr_list K) leaves"
    and attr_removes: "acts cwd tree (\<lambda>p. c_attr_remove K p a) leaves"
    and attr_sets: "acts cwd tree (\<lambda>p. c_attr_set K p a v) leaves"
    and io: "io_still cwd tree I"
    and fstat_sane: "io_fstat I fd k = ((e, stb), k') \<Longrightarrow> 0 \<le> e \<Longrightarrow> 0 < st_blksize stb \<and> st_blksize stb < 4294967296"
    and dioinfo_sane: "io_dioinfo I fd k = ((e, mini, maxi), k') \<Longrightarrow> 0 \<le> e \<Longrightarrow> mini \<noteq> 0"
begin

abbreviation holds :: "bool \<Rightarrow> 'k fss \<Rightarrow> ('k, 'a) fss_run \<Rightarrow> bool" where
  "holds b \<equiv> keeps b cwd tree"

lemmas io_stills [keeps_intros] = io[unfolded io_still_def, THEN conjunct1, rule_format]
lemmas io_rest = io[unfolded io_still_def, THEN conjunct2]

lemma stills [keeps_intros]:
  "still cwd tree (io_fstat I fd)" "still cwd tree (io_dioinfo I fd)" "still cwd tree (io_submit I aq fd)"
  "still cwd tree (io_getevents I)" "still cwd tree (io_mmap I len off wr sh fd)" "still cwd tree (io_load I len)"
  "still cwd tree (io_store I c len)" "still cwd tree (io_munmap I)" "still cwd tree (io_copy I a b e d n)"
  "still cwd tree (io_pipe I)" "still cwd tree (io_to_pipe I fd off n)" "still cwd tree (io_from_pipe I fd off n)"
  "still cwd tree (io_close_pipe I)" "still cwd tree (io_readdir I fd)" "still cwd tree (io_closedir I fd)"
  "still cwd tree (io_bulkstat I n fd)" "still cwd tree (io_sync I)" "still cwd tree (io_listxattr I p n)"
  "still cwd tree (io_cursor I)"
  using io_rest by simp_all

lemma stays_kern: "cwd k = cwd (kern st) \<Longrightarrow> tree k = tree (kern st) \<Longrightarrow> stays cwd tree st (st\<lparr>kern := k\<rparr>)"
  using quiet_step_kern[of cwd k st tree] by (simp add: stays_def)

lemma ask_stays: "still cwd tree call \<Longrightarrow> ask call st = (x, s) \<Longrightarrow> stays cwd tree st s"
  using stays_kern[of _ st] by (auto simp: ask_def still_def split: prod.splits)

lemma stays_ask [keeps_intros]:
  assumes "still cwd tree call" and "stays cwd tree st s"
  shows "stays cwd tree st (snd (ask call s))"
  using stays_trans[OF assms(2) ask_stays[OF assms(1), of s "fst (ask call s)"]] by simp

lemma stays_request [keeps_intros]: "stays cwd tree st s \<Longrightarrow> stays cwd tree st (request I q fd s)"
  unfolding request_def by (rule stays_ask[OF io_stills])

lemma keeps_ask [keeps_intros]:
  assumes "still cwd tree call" and "stays cwd tree st s" and "\<And>x s1. ask call s = (x, s1) \<Longrightarrow> holds b s1 (f x s1)"
  shows "holds b st (case ask call s of (x, s1) \<Rightarrow> f x s1)"
proof (cases "ask call s")
  case (Pair x s1)
  show ?thesis
    using keeps_from[OF stays_trans[OF assms(2) ask_stays[OF assms(1) Pair]] assms(3)[OF Pair]] by (simp add: Pair)
qed

lemma keeps_ask_pair [keeps_intros]:
  assumes "still cwd tree call" and "stays cwd tree st s" and "\<And>x y s1. ask call s = ((x, y), s1) \<Longrightarrow> holds b s1 (f x y s1)"
  shows "holds b st (case ask call s of ((x, y), s1) \<Rightarrow> f x y s1)"
  using keeps_ask[OF assms(1,2), where f = "\<lambda>(x, y). f x y"] assms(3) by (auto split: prod.split)

lemma keeps_ask_triple [keeps_intros]:
  assumes "still cwd tree call" and "stays cwd tree st s" and "\<And>x y z s1. ask call s = ((x, y, z), s1) \<Longrightarrow> holds b s1 (f x y z s1)"
  shows "holds b st (case ask call s of ((x, y, z), s1) \<Rightarrow> f x y z s1)"
  using keeps_ask[OF assms(1,2), where f = "\<lambda>(x, y, z). f x y z"] assms(3) by (auto split: prod.split)

lemma keeps_rnd [keeps_intros]:
  assumes "stays cwd tree st s" and "\<And>x s1. holds b s1 (f x s1)"
  shows "holds b st (case rnd K s of (x, s1) \<Rightarrow> f x s1)"
proof (cases "rnd K s")
  case (Pair x s1)
  have "stays cwd tree s s1" using rnd_calm[OF Pair] by (simp add: stays_def)
  then show ?thesis using keeps_from[OF stays_trans[OF assms(1)] assms(2)] by (simp add: Pair)
qed

lemma keeps_rnd_long [keeps_intros]:
  assumes "stays cwd tree st s" and "\<And>x s1. holds b s1 (f x s1)"
  shows "holds b st (case rnd_long K s of (x, s1) \<Rightarrow> f x s1)"
proof -
  have "(case rnd_long K s of (x, s1) \<Rightarrow> f x s1)
    = (case rnd K s of (a, s1) \<Rightarrow> case rnd K s1 of (c, s2) \<Rightarrow> f (long_random a c) s2)"
    by (simp add: rnd_long_def split: prod.split)
  then show ?thesis using assms by (simp only:) (intro keeps_intros; assumption?)
qed

lemma keeps_close [keeps_intros]: "stays cwd tree st s \<Longrightarrow> holds b st (close_fd I fd s)"
  unfolding close_fd_def by (intro keeps_intros)

section \<open>Paths\<close>

abbreviation reachable :: "string \<Rightarrow> bool" where
  "reachable p \<equiv> \<forall>c \<in> set (butlast (components p)). plain c"

lemma path_leaves:
  assumes "reachable p" and "acts cwd tree call leaves"
  obtains r e k' where "long_path K call p k = Inr ((r, e), k')" "cwd k' = cwd k" "tree k' = tree k"
proof -
  have "outcome (\<lambda>a b. leaves (resolve (cwd k) p) (tree a) (tree b)) k (long_path K call p k)"
    by (rule long_path_ok[OF assms(2,1)])
  then show thesis using that unfolding outcome_def leaves_def by (auto split: if_splits)
qed

lemma keeps_path [keeps_intros]:
  assumes "reachable p" and "acts cwd tree call leaves"
  shows "holds b st (on_kern (long_path K call p) st)"
proof -
  obtain r e k where "long_path K call p (kern st) = Inr ((r, e), k)" "cwd k = cwd (kern st)" "tree k = tree (kern st)"
    by (rule path_leaves[OF assms])
  then show ?thesis using keeps_Inr[OF stays_kern] by (simp add: on_kern_def)
qed

lemma keeps_open [keeps_intros]: "no_creat fl \<Longrightarrow> reachable p \<Longrightarrow> holds b st (on_kern (open_path K p fl) st)"
  unfolding open_path_def by (rule keeps_path[OF _ opens])

lemma keeps_open_file_or_dir [keeps_intros]:
  assumes fl: "no_creat fl" "no_creat ((fl AND NOT (ow OR od)) OR oo)" and "reachable p"
  shows "holds b st (on_kern (open_file_or_dir K ow od oo p fl) st)"
proof -
  let ?fl = "(fl AND NOT (ow OR od)) OR oo"
  obtain fd e k where o: "open_path K p fl (kern st) = Inr ((fd, e), k)" "cwd k = cwd (kern st)" "tree k = tree (kern st)"
    unfolding open_path_def by (rule path_leaves[OF assms(3) opens[OF fl(1)]])
  obtain fd' e' k' where o': "open_path K p ?fl k = Inr ((fd', e'), k')" "cwd k' = cwd k" "tree k' = tree k"
    unfolding open_path_def by (rule path_leaves[OF assms(3) opens[OF fl(2)]])
  show ?thesis
    using o o' by (auto simp: on_kern_def open_file_or_dir_def intro!: keeps_Inr stays_kern)
qed

lemma keeps_dot [keeps_intros]:
  assumes "no_creat fl"
  shows "holds b st (on_kern (\<lambda>k. case c_open K fl ''.'' k of (fd, e, k1) \<Rightarrow> Inr ((fd, e), k1)) st)"
proof -
  obtain fd e k where o: "c_open K fl ''.'' (kern st) = (fd, e, k)" by (cases "c_open K fl ''.'' (kern st)")
  have "stays cwd tree st (st\<lparr>kern := k\<rparr>)" using leaves_calm[OF opens[OF assms] o] by (simp add: stays_def)
  then show ?thesis by (simp add: on_kern_def o keeps_Inr)
qed

lemma keeps_with_file [keeps_intros]:
  assumes "\<And>ft slot p s. reachable p \<Longrightarrow> holds b s (f ft slot p s)"
  shows "holds b st (with_file which r st f)"
proof -
  have "keeps b cwd tree st (with_file which r st f)" if "forest_ok st"
    by (rule with_file_ok[OF that, where cwd = cwd and tree = tree and Q = "keeps b cwd tree st"])
      (auto simp: stays_def intro!: keeps_Inr keeps_from[OF _ assms] names_ok)
  then show ?thesis by (simp add: keeps_def)
qed

lemma keeps_get_fname [keeps_intros]:
  assumes "\<And>pos v s. holds b s (f pos None v s)" and "\<And>pos p v s. reachable p \<Longrightarrow> holds b s (f pos (Some p) v s)"
  shows "holds b st (on_ok (get_fname which r True st) (\<lambda>((pos, name, v), s). f pos name v s))"
proof -
  let ?res = "on_ok (get_fname which r True st) (\<lambda>((pos, name, v), s). f pos name v s)"
  have "keeps b cwd tree st ?res" if st: "forest_ok st"
    using st
  proof (cases rule: get_file_ok[of st which r cwd tree])
    case (none v st1)
    then show ?thesis using keeps_from[OF _ assms(1)] by (simp add: stays_def)
  next
    case (some ft slot xs v st1)
    then show ?thesis using keeps_from[OF _ assms(2)[OF names_ok]] by (simp add: stays_def)
  qed
  then show ?thesis by (simp add: keeps_def)
qed

lemma keeps_file_or_here [keeps_intros]:
  assumes "\<And>p s. reachable p \<Longrightarrow> holds b s (f p s)"
  shows "holds b st (on_ok (file_or_here which r st) (\<lambda>(p, s). f p s))"
proof -
  have "keeps b cwd tree st (on_ok (file_or_here which r st) (\<lambda>(p, s). f p s))" if fo: "forest_ok st"
  proof -
    obtain p s where "file_or_here which r st = Inr (p, s)" "calm cwd tree st s" "reachable p"
      by (rule file_or_here_ok[OF fo, where which = which and r = r])
    then show ?thesis using keeps_from[OF _ assms] by (simp add: stays_def)
  qed
  then show ?thesis by (simp add: keeps_def)
qed

lemma keeps_open_pair [keeps_intros]:
  assumes "holds b st r" and "\<And>fd e s. holds b s (f fd s)"
  shows "holds b st (on_ok r (\<lambda>((fd, e), s). f fd s))"
  using keeps_on_ok[OF assms(1), where f = "\<lambda>x s. f (fst x) s"] assms(2) by (simp add: split_beta')

lemma keeps_pair [keeps_intros]:
  assumes "holds b st r" and "\<And>x y s. holds b s (f x y s)"
  shows "holds b st (on_ok r (\<lambda>((x, y), s). f x y s))"
  using keeps_on_ok[OF assms(1), where f = "\<lambda>(x, y) s. f x y s"] assms(2) by (auto split: prod.split)

lemma keeps_with_open [keeps_intros]:
  assumes "no_creat fl" and "\<And>fd s. holds b s (f fd s)"
  shows "holds b st (with_open K which fl r st f)"
  unfolding with_open_def by (intro keeps_with_file keeps_open_pair keeps_open keeps_if keeps_Inr stays_refl assms)

lemma keeps_with_stat [keeps_intros]:
  assumes "no_creat fl" and "\<And>fd stb s. 0 < st_blksize stb \<Longrightarrow> st_blksize stb < 4294967296 \<Longrightarrow> holds b s (f fd stb s)"
  shows "holds b st (with_stat K I which fl r st f)"
  unfolding with_stat_def
proof (intro keeps_with_open assms(1) keeps_ask_pair keeps_if stills stays_refl)
  fix fd s e stb s1 assume a: "ask (io_fstat I fd) s = ((e, stb), s1)"
  show "holds b s1 (close_fd I fd s1)" by (intro keeps_intros)
  assume "\<not> e < 0"
  moreover obtain k where "io_fstat I fd (kern s) = ((e, stb), k)" using a by (auto simp: ask_def split: prod.splits)
  ultimately show "holds b s1 (f fd stb s1)" using fstat_sane assms(2) by simp
qed

section \<open>The operations\<close>

lemma no_creats: "no_creat 0" "no_creat 1" "no_creat 2" "no_creat (0 OR O_DIRECT)" "no_creat (1 OR O_DIRECT)"
  "no_creat ((1 AND NOT (1 OR O_DIRECT)) OR O_DIRECTORY)" "no_creat (((1 OR O_DIRECT) AND NOT (1 OR O_DIRECT)) OR O_DIRECTORY)"
  by (simp_all add: no_creat_def)

lemmas op_frames = keeps_with_file keeps_with_stat keeps_with_open keeps_get_fname keeps_file_or_here keeps_open_pair keeps_pair
  keeps_ask_triple keeps_ask_pair keeps_ask keeps_rnd keeps_rnd_long keeps_close keeps_repeating_from keeps_path keeps_open
  keeps_open_file_or_dir keeps_dot keeps_on_ok keeps_if keeps_option keeps_Let keeps_Inr
  stills io_stills stays_request stays_ask stays_refl no_creats

lemma read_f_keeps: "holds b st (read_f K I r st)"
  unfolding read_f_def by (intro op_frames)

lemma readv_f_keeps: "holds b st (readv_f K I r st)"
  unfolding readv_f_def by (intro op_frames)

lemma write_f_keeps: "holds b st (write_f K I env r st)"
  unfolding write_f_def by (intro op_frames)

lemma writev_f_keeps: "holds b st (writev_f K I env r st)"
  unfolding writev_f_def by (intro op_frames)

lemma keeps_maybe_rnd:
  assumes "\<And>n s. holds b s (f n s)"
  shows "holds b st (case (if c then (case rnd K st of (x, s) \<Rightarrow> (g x, s)) else (d, st)) of (n, s) \<Rightarrow> f n s)"
  using keeps_rnd[OF stays_refl, of b "\<lambda>x. f (g x)" st] assms by (cases c) (simp_all add: split_beta)

lemma space_f_keeps: "holds b st (space_f cmd with_len K I env r st)"
  unfolding space_f_def by (intro op_frames keeps_maybe_rnd)

lemma keeps_case: "(\<And>x y. p = (x, y) \<Longrightarrow> holds b st (f x y)) \<Longrightarrow> holds b st (case p of (x, y) \<Rightarrow> f x y)"
  by (cases p) simp

lemma do_fallocate_keeps: "holds b st (do_fallocate K I env opno mode r st)"
  unfolding do_fallocate_def by (intro op_frames; rule keeps_case; intro op_frames)

lemma fiemap_f_keeps: "holds b st (fiemap_f K I env r st)"
  unfolding fiemap_f_def by (intro op_frames)

lemma truncate_f_keeps: "holds b st (truncate_f K I env r st)"
  unfolding truncate_f_def truncate64_path_def stat64_path_def by (intro op_frames stat truncates)

lemma fsync_f_keeps: "holds b st (fsync_f K I r st)"
  unfolding fsync_f_def by (intro op_frames)

lemma fdatasync_f_keeps: "holds b st (fdatasync_f K I r st)"
  unfolding fdatasync_f_def by (intro op_frames)

lemma aio_once_keeps: "holds b st (aio_once I q fd st)"
  unfolding aio_once_def by (intro op_frames)

lemma afsync_f_keeps: "holds b st (afsync_f K I r st)"
  unfolding afsync_f_def by (intro op_frames aio_once_keeps)

lemma sync_f_keeps: "holds b st (sync_f I st)"
  unfolding sync_f_def by (intro op_frames)

lemma getattr_f_keeps: "holds b st (getattr_f K I r st)"
  unfolding getattr_f_def open_here_def by (intro op_frames)

lemma setattr_f_keeps: "holds b st (setattr_f K I env r st)"
  unfolding setattr_f_def open_here_def by (intro op_frames)

lemma listfattr_f_keeps: "holds b st (listfattr_f I r st)"
  unfolding listfattr_f_def by (intro op_frames)

lemma getdents_f_keeps: "holds True st (getdents_f K I r st)"
  unfolding getdents_f_def opendir_path_def by (intro op_frames opendirs)

lemma bulkstat_f_keeps: "holds True st (bulkstat_f K I r st)"
  unfolding bulkstat_f_def by (intro op_frames)

lemma bulkstat1_f_keeps: "holds b st (bulkstat1_f K I r st)"
  unfolding bulkstat1_f_def stat64_path_def by (intro op_frames stat)

lemma dio_limits_keeps:
  assumes "dio_env_ok env" and "0 < st_blksize stb" and "st_blksize stb < 4294967296"
  shows "holds b st (dio_limits I env fd stb st)"
proof -
  obtain e mini maxi st1 where a: "ask (io_dioinfo I fd) st = ((e, mini, maxi), st1)" by (metis prod.exhaust)
  obtain k where "io_dioinfo I fd (kern st) = ((e, mini, maxi), k)" using a by (auto simp: ask_def split: prod.splits)
  then have "\<not> e < 0 \<Longrightarrow> mini \<noteq> 0" using dioinfo_sane by simp
  moreover have "u32 (st_blksize stb) \<noteq> 0" using assms(2,3) by (simp add: u32_def)
  moreover have "stays cwd tree st st1" using ask_stays[OF stills(2) a] .
  ultimately show ?thesis
    using assms(1) by (auto simp: dio_limits_def a Let_def dio_env_ok_def intro!: keeps_Inr split: option.split)
qed

lemma dread_f_keeps: "dio_env_ok env \<Longrightarrow> holds b st (dread_f K I env r st)"
  unfolding dread_f_def by (intro op_frames dio_limits_keeps)

lemma dwrite_f_keeps: "dio_env_ok env \<Longrightarrow> holds b st (dwrite_f K I env r st)"
  unfolding dwrite_f_def Let_def by (intro op_frames dio_limits_keeps)

lemma do_aio_rw_keeps: "dio_env_ok env \<Longrightarrow> no_creat (fl OR O_DIRECT) \<Longrightarrow> holds b st (do_aio_rw K I env fl r st)"
  unfolding do_aio_rw_def by (intro op_frames dio_limits_keeps aio_once_keeps)

lemma do_mmap_keeps:
  assumes "wr \<or> (\<forall>len k. fst (io_load I len k))"
  shows "holds b st (do_mmap K I env wr r st)"
proof -
  have l: "holds b s (case ask (io_load I len) s of (fine, s1) \<Rightarrow>
      if \<not> fine then Inl (Abort, s1) else (case ask (io_munmap I) s1 of (_, s2) \<Rightarrow> close_fd I fd s2))"
    if nw: "\<not> wr" for len fd s
  proof (rule keeps_ask[OF stills(6) stays_refl])
    fix fine s1 assume a: "ask (io_load I len) s = (fine, s1)"
    then obtain k where "io_load I len (kern s) = (fine, k)" by (auto simp: ask_def split: prod.splits)
    moreover have "fst (io_load I len (kern s))" using nw assms by blast
    ultimately have "fine" by simp
    then show "holds b s1 (if \<not> fine then Inl (Abort, s1) else (case ask (io_munmap I) s1 of (_, s2) \<Rightarrow> close_fd I fd s2))"
      by simp (intro op_frames)
  qed
  show ?thesis
  proof (cases wr)
    case True
    show ?thesis unfolding do_mmap_def by (intro op_frames; rule keeps_case; simp only: True if_True; intro op_frames)
  next
    case False
    show ?thesis
      unfolding do_mmap_def by (intro op_frames; rule keeps_case; simp only: False if_False; intro l[OF False] op_frames)
  qed
qed

lemma setxattr_f_keeps: "idmodulo env \<noteq> 0 \<Longrightarrow> holds b st (setxattr_f K I env r st)"
  unfolding setxattr_f_def open_here_def
  by (intro op_frames) (auto simp: min_def split: if_splits intro!: op_frames)

section \<open>Attributes\<close>

lemma count_attrs_keeps: "reachable p \<Longrightarrow> holds b st (count_attrs K I p n st)"
  unfolding count_attrs_def attr_list_path_def by simp (intro op_frames attr_lists; (rule keeps_case, intro op_frames)?)

lemma find_attr_keeps: "reachable p \<Longrightarrow> holds b st (find_attr K I p which n st)"
  unfolding find_attr_def attr_list_path_def by simp (intro op_frames attr_lists; (rule keeps_case, intro op_frames)?)

lemma attr_remove_f_keeps: "holds True st (attr_remove_f K I r st)"
  unfolding attr_remove_f_def attr_remove_path_def
  by (intro op_frames count_attrs_keeps find_attr_keeps attr_removes)

end

end
