(* ===== verification/Fss_Clone.thy ===== *)
theory Fss_Clone
  imports Fss_Io
begin

text \<open>
  The operations of \<open>fsstress\<close> on two files or more: clone, copy, splice and deduplicate a range.
\<close>

section \<open>Two files\<close>

text \<open>
  A file to read and one to write, which may be the same, opened and with what \<open>fstat64\<close> says of
  them; \<open>v\<close> says whether the operation is reported. What is open is closed at the end.
\<close>

definition with_two ::
  "'k name_calls \<Rightarrow> 'k io_calls \<Rightarrow> int \<Rightarrow> 'k fss
     \<Rightarrow> (bool \<Rightarrow> int \<Rightarrow> fd_stat \<Rightarrow> int \<Rightarrow> fd_stat \<Rightarrow> 'k fss \<Rightarrow> ('k, unit) fss_run) \<Rightarrow> ('k, unit) fss_run" where
  "with_two K I r st f =
     on_ok (get_fname FT_REGm r True st) (\<lambda>((_, name1, v1), st1).
       case name1 of
         None \<Rightarrow> Inr ((), st1)
       | Some p1 \<Rightarrow>
           (case rnd K st1 of (r2, st2) \<Rightarrow>
              on_ok (get_fname FT_REGm r2 True st2) (\<lambda>((_, name2, v2), st3).
                case name2 of
                  None \<Rightarrow> Inr ((), st3)
                | Some p2 \<Rightarrow>
                    on_ok (on_kern (open_path K p1 O_RDONLY) st3) (\<lambda>((fd1, _), st4).
                      if fd1 < 0 then Inr ((), st4)
                      else
                        on_ok (on_kern (open_path K p2 O_WRONLY) st4) (\<lambda>((fd2, _), st5).
                          if fd2 < 0 then close_fd I fd1 st5
                          else
                            on_ok (case ask (io_fstat I fd1) st5 of ((e1, stat1), st6) \<Rightarrow>
                                if e1 < 0 then Inr ((), st6)
                                else (case ask (io_fstat I fd2) st6 of ((e2, stat2), st7) \<Rightarrow>
                                  if e2 < 0 then Inr ((), st7) else f (v1 \<or> v2) fd1 stat1 fd2 stat2 st7))
                              (\<lambda>(_, st8). close_fd I fd1 (request I R_close fd2 st8)))))))"

text \<open>
  A destination: random ones until one is found that is not near the source when the files are
  the same one.
\<close>

definition seek_dest ::
  "'k name_calls \<Rightarrow> (int \<Rightarrow> int) \<Rightarrow> bool \<Rightarrow> int \<Rightarrow> int \<Rightarrow> 'k fss \<Rightarrow> ('k, int) fss_run" where
  "seek_dest K place same off1 len st =
     repeating (\<lambda>_ s. case rnd_long K s of (lr, s1) \<Rightarrow>
       let off2 = place lr in Inr (if same \<and> too_near off1 off2 len then Inr () else Inl off2, s1)) () st"

definition clonerange_f :: "'k name_calls \<Rightarrow> 'k io_calls \<Rightarrow> io_env \<Rightarrow> int \<Rightarrow> 'k fss \<Rightarrow> ('k, unit) fss_run" where
  "clonerange_f K I env r st =
     with_two K I r st (\<lambda>_ fd1 stat1 fd2 stat2 st1.
       case rnd K st1 of (x, st2) \<Rightarrow>
         let len = clone_len (st_blksize stat1) (st_size stat1) x in
         case rnd_long K st2 of (lr, st3) \<Rightarrow>
           let off1 = block_source_off (maxfsize env) (st_blksize stat1) (st_size stat1) len lr;
               max_off2 = dest_bound (st_blksize stat2) (st_size stat2);
               place = (\<lambda>lr. dest_off (maxfsize env) max_off2 lr AND NOT (st_blksize stat2 - 1))
           in on_ok (seek_dest K place (st_ino stat1 = st_ino stat2) off1 len st3) (\<lambda>(off2, st4).
                Inr ((), request I (R_clone fd1 off1 len off2) fd2 st4)))"

text \<open>
  The result of \<open>copy_file_range\<close> is kept in a \<open>size_t\<close>, so an error is a number above every length
  and ends the loop; the test for \<open>EAGAIN\<close> is never reached.
\<close>

function copy_loop :: "'k io_calls \<Rightarrow> int \<Rightarrow> int \<Rightarrow> int \<Rightarrow> int \<Rightarrow> int \<Rightarrow> 'k fss \<Rightarrow> int \<times> 'k fss" where
  "copy_loop I fd1 off1 fd2 off2 len st =
     (if len \<le> 0 then (len, st)
      else
        (case ask (io_copy I fd1 off1 fd2 off2 len) st of ((res, off1', off2'), st1) \<Rightarrow>
           let ret = u64 res in
           if len < ret \<or> ret = 0 then (len, st1)
           else copy_loop I fd1 off1' fd2 off2' (len - ret) st1))"
  by pat_completeness auto

termination
proof (relation "measure (\<lambda>(I, fd1, off1, fd2, off2, len, st). nat len)", goal_cases)
  case (2 I fd1 off1 fd2 off2 len st a st1 res b off1' off2' ret)
  then have "ret \<noteq> 0" by simp
  moreover have "0 \<le> ret" using 2 u64_range(1) by simp
  ultimately have "0 < ret" by linarith
  then show ?case using 2 by simp
qed simp

declare copy_loop.simps [simp del]

definition copyrange_f :: "'k name_calls \<Rightarrow> 'k io_calls \<Rightarrow> io_env \<Rightarrow> int \<Rightarrow> 'k fss \<Rightarrow> ('k, unit) fss_run" where
  "copyrange_f K I env r st =
     with_two K I r st (\<lambda>_ fd1 stat1 fd2 stat2 st1.
       case rnd K st1 of (x, st2) \<Rightarrow>
         let len = copy_len (st_blksize stat1) (st_size stat1) x in
         case rnd_long K st2 of (lr, st3) \<Rightarrow>
           let off1 = source_off (maxfsize env) (st_size stat1) len lr;
               max_off2 = dest_bound (st_blksize stat2) (st_size stat2)
           in on_ok (seek_dest K (dest_off (maxfsize env) max_off2) (st_ino stat1 = st_ino stat2) off1 len st3)
                (\<lambda>(off2, st4). Inr ((), snd (copy_loop I fd1 off1 fd2 off2 len st4))))"

text \<open>
  What came into the pipe goes out of it; \<open>bytes\<close> is unsigned. The inner loop ends with the last result.
\<close>

definition drain_pipe :: "'k io_calls \<Rightarrow> int \<Rightarrow> int \<times> int \<times> int \<Rightarrow> 'k fss \<Rightarrow> ('k, (int \<times> int) + (int \<times> int \<times> int)) fss_run" where
  "drain_pipe I fd2 = (\<lambda>(bytes, off2, ret2) st.
     if bytes = 0 then Inr (Inl (off2, ret2), st)
     else
       (case ask (io_from_pipe I fd2 off2 bytes) st of ((ret, off2'), st1) \<Rightarrow>
          Inr (if ret < 0 then Inl (off2', ret) else Inr (u64 (bytes - ret), off2', ret), st1)))"

definition splice_step ::
  "'k io_calls \<Rightarrow> int \<Rightarrow> int \<Rightarrow> int \<times> int \<times> int \<times> int \<Rightarrow> 'k fss
     \<Rightarrow> ('k, unit + (int \<times> int \<times> int \<times> int)) fss_run" where
  "splice_step I fd1 fd2 = (\<lambda>(len, off1, off2, ret2) st.
     if len = 0 then Inr (Inl (), st)
     else
       (case ask (io_to_pipe I fd1 off1 len) st of ((ret1, off1'), st1) \<Rightarrow>
          if ret1 \<le> 0 then Inr (Inl (), st1)
          else
            on_ok (repeating (drain_pipe I fd2) (ret1, off2, ret2) st1) (\<lambda>((off2', ret2'), st2).
              Inr (if ret2' < 0 then Inl () else Inr (u64 (len - ret1), off1', off2', ret2'), st2))))"

text \<open>
  When there is no pipe the operation ends only if it is reported; otherwise it goes on with descriptors
  that have not been set.
\<close>

definition splice_f :: "'k name_calls \<Rightarrow> 'k io_calls \<Rightarrow> io_env \<Rightarrow> int \<Rightarrow> 'k fss \<Rightarrow> ('k, unit) fss_run" where
  "splice_f K I env r st =
     with_two K I r st (\<lambda>v fd1 stat1 fd2 stat2 st1.
       case rnd K st1 of (x, st2) \<Rightarrow>
         let len = copy_len (st_blksize stat1) (st_size stat1) x in
         case rnd_long K st2 of (lr, st3) \<Rightarrow>
           let off1 = source_off (maxfsize env) (st_size stat1) len lr in
           case rnd_long K st3 of (lr2, st4) \<Rightarrow>
             let off2 = lr2 mod dest_bound (st_blksize stat2) (st_size stat2) in
             case ask (io_pipe I) st4 of (e, st5) \<Rightarrow>
               if e < 0 then (if v then Inr ((), st5) else Inl (Fault, st5))
               else
                 on_ok (repeating (splice_step I fd1 fd2) (len, off1, off2, 0) st5) (\<lambda>(_, st6).
                   Inr ((), snd (ask (io_close_pipe I) st6))))"

section \<open>Many files\<close>

text \<open>\<open>n\<close> more paths; \<open>None\<close> if one cannot be found.\<close>

fun more_paths :: "'k name_calls \<Rightarrow> nat \<Rightarrow> 'k fss \<Rightarrow> ('k, string list option) fss_run" where
  "more_paths K 0 st = Inr (Some [], st)"
| "more_paths K (Suc n) st =
     (case rnd K st of (r, st1) \<Rightarrow>
        on_ok (get_fname FT_REGm r True st1) (\<lambda>((_, name, _), st2).
          case name of
            None \<Rightarrow> Inr (None, st2)
          | Some p \<Rightarrow> on_ok (more_paths K n st2) (\<lambda>(ps, st3). Inr (map_option ((#) p) ps, st3))))"

text \<open>Those opened for writing, in order, and whether all could be.\<close>

fun open_all :: "'k name_calls \<Rightarrow> string list \<Rightarrow> 'k fss \<Rightarrow> ('k, int list \<times> bool) fss_run" where
  "open_all K [] st = Inr (([], True), st)"
| "open_all K (p # ps) st =
     on_ok (on_kern (open_path K p O_WRONLY) st) (\<lambda>((fd, _), st1).
       if fd < 0 then Inr (([], False), st1)
       else on_ok (open_all K ps st1) (\<lambda>((fds, ok), st2). Inr ((fd # fds, ok), st2)))"

fun stat_all :: "'k io_calls \<Rightarrow> int list \<Rightarrow> 'k fss \<Rightarrow> fd_stat list option \<times> 'k fss" where
  "stat_all I [] st = (Some [], st)"
| "stat_all I (fd # fds) st =
     (case ask (io_fstat I fd) st of ((e, stb), st1) \<Rightarrow>
        if e < 0 then (None, st1)
        else (case stat_all I fds st1 of (sts, st2) \<Rightarrow> (map_option ((#) stb) sts, st2)))"

definition close_all :: "'k io_calls \<Rightarrow> int list \<Rightarrow> 'k fss \<Rightarrow> 'k fss" where
  "close_all I fds st = fold (request I R_close) fds st"

text \<open>A destination in one file: after ten tries it may be near the source.\<close>

fun try_dest :: "'k name_calls \<Rightarrow> (int \<Rightarrow> int) \<Rightarrow> bool \<Rightarrow> int \<Rightarrow> int \<Rightarrow> nat \<Rightarrow> 'k fss \<Rightarrow> int \<times> 'k fss" where
  "try_dest K place same off1 len tries st =
     (case rnd_long K st of (lr, st1) \<Rightarrow>
        let off2 = place lr in
        if same \<and> too_near off1 off2 len \<and> tries \<noteq> 0
        then try_dest K place same off1 len (tries - 1) st1 else (off2, st1))"

declare try_dest.simps [simp del]

fun dests ::
  "'k name_calls \<Rightarrow> io_env \<Rightarrow> fd_stat \<Rightarrow> int \<Rightarrow> int \<Rightarrow> fd_stat list \<Rightarrow> 'k fss \<Rightarrow> int list \<times> 'k fss" where
  "dests K env stat0 off1 len [] st = ([], st)"
| "dests K env stat0 off1 len (stb # sts) st =
     (case try_dest K (dedupe_dest (maxfsize env) (st_blksize stb) (st_size stb) len)
             (st_ino stat0 = st_ino stb) off1 len 10 st of (off2, st1) \<Rightarrow>
      case dests K env stat0 off1 len sts st1 of (offs, st2) \<Rightarrow> (off2 # offs, st2))"

definition dedupe_ranges ::
  "'k name_calls \<Rightarrow> 'k io_calls \<Rightarrow> io_env \<Rightarrow> int \<Rightarrow> int list \<Rightarrow> fd_stat \<Rightarrow> fd_stat list \<Rightarrow> 'k fss \<Rightarrow> 'k fss" where
  "dedupe_ranges K I env fd0 fds stat0 sts st =
     (case rnd K st of (x, st1) \<Rightarrow>
      case rnd_long K st1 of (lr, st2) \<Rightarrow>
        let len = dedupe_len (st_blksize stat0) (st_size stat0) x;
            off0 = block_source_off (maxfsize env) (st_blksize stat0) (st_size stat0) len lr
        in case dests K env stat0 off0 len sts st2 of (offs, st3) \<Rightarrow>
             request I (R_dedupe off0 len (zip fds offs)) fd0 st3)"

definition dedupe_files ::
  "'k name_calls \<Rightarrow> 'k io_calls \<Rightarrow> io_env \<Rightarrow> string \<Rightarrow> string list \<Rightarrow> 'k fss \<Rightarrow> ('k, unit) fss_run" where
  "dedupe_files K I env p0 ps st =
     on_ok (on_kern (open_path K p0 O_RDONLY) st) (\<lambda>((fd0, _), st1).
       if fd0 < 0 then Inr ((), st1)
       else
         on_ok (open_all K ps st1) (\<lambda>((fds, ok), st2).
           if \<not> ok then Inr ((), close_all I (fd0 # fds) st2)
           else
             (case stat_all I (fd0 # fds) st2 of
                (Some (stat0 # sts), st3) \<Rightarrow>
                  Inr ((), close_all I (fd0 # fds) (dedupe_ranges K I env fd0 fds stat0 sts st3))
              | (_, st3) \<Rightarrow> Inr ((), close_all I (fd0 # fds) st3))))"

definition deduperange_f :: "'k name_calls \<Rightarrow> 'k io_calls \<Rightarrow> io_env \<Rightarrow> int \<Rightarrow> 'k fss \<Rightarrow> ('k, unit) fss_run" where
  "deduperange_f K I env r st =
     (let nfiles = length (files st FT_REG) in
      if nfiles < 2 then Inr ((), st)
      else
        on_ok (repeating (\<lambda>_ s. case rnd K s of (x, s1) \<Rightarrow>
                  let nr = x mod (int nfiles + 1) in
                  Inr (if nr < 2 \<or> 128 < nr then Inr () else Inl (nat nr), s1)) () st) (\<lambda>(nr, st1).
        on_ok (get_fname FT_REGm r True st1) (\<lambda>((_, name, _), st2).
          case name of
            None \<Rightarrow> Inr ((), st2)
          | Some p0 \<Rightarrow>
              on_ok (more_paths K (nr - 1) st2) (\<lambda>(paths, st3).
                case paths of None \<Rightarrow> Inr ((), st3) | Some ps \<Rightarrow> dedupe_files K I env p0 ps st3))))"

end
