(* ===== verification/Fss_Clone_Ok.thy ===== *)
theory Fss_Clone_Ok
  imports Fss_Io_Ok Fss_Clone
begin

text \<open>
  The operations on two files or more leave the tables and the tree as they are, too.
\<close>

context file_io
begin

section \<open>Two files\<close>

lemma keeps_two_stats:
  assumes "\<And>stat1 stat2 s. holds b s (f stat1 stat2 s)"
  shows "holds b st (on_ok (case ask (io_fstat I fd1) st of ((e1, stat1), st6) \<Rightarrow>
      if e1 < 0 then Inr ((), st6)
      else (case ask (io_fstat I fd2) st6 of ((e2, stat2), st7) \<Rightarrow>
        if e2 < 0 then Inr ((), st7) else f stat1 stat2 st7))
    (\<lambda>(_, st8). close_fd I fd1 (request I R_close fd2 st8)))"
  by (rule keeps_on_ok; intro keeps_ask_pair stills keeps_if keeps_Inr stays_refl assms keeps_close stays_request)

lemma keeps_with_two:
  assumes f: "\<And>v fd1 stat1 fd2 stat2 s. holds b s (f v fd1 stat1 fd2 stat2 s)"
  shows "holds b st (with_two K I r st f)"
  unfolding with_two_def
proof (rule keeps_get_fname, goal_cases)
  case (2 pos p1 v1 st1)
  show ?case
    unfolding option.case
  proof (intro keeps_rnd stays_refl keeps_get_fname, goal_cases)
    case (2 r2 st2 pos2 p2 v2 st3)
    show ?case
      unfolding option.case
      by (intro keeps_open_pair keeps_open no_creats \<open>reachable p1\<close> \<open>reachable p2\<close> keeps_if keeps_Inr stays_refl
          keeps_close keeps_two_stats f)
  qed (simp add: keeps_Inr stays_refl)
qed (simp add: keeps_Inr stays_refl)

lemma seek_dest_keeps: "holds True st (seek_dest K place same off1 len st)"
  unfolding seek_dest_def Let_def by (intro keeps_repeating keeps_rnd_long keeps_Inr stays_refl)

lemma clonerange_f_keeps: "holds True st (clonerange_f K I env r st)"
  unfolding clonerange_f_def Let_def
  by (intro keeps_with_two keeps_rnd keeps_rnd_long keeps_on_ok seek_dest_keeps keeps_Inr stays_request stays_refl)

lemma copy_loop_stays:
  assumes "\<And>a b c d n. still cwd tree (io_copy J a b c d n)"
  shows "stays cwd tree st (snd (copy_loop J fd1 off1 fd2 off2 len st))"
  using assms
proof (induction J fd1 off1 fd2 off2 len st rule: copy_loop.induct)
  case (1 J fd1 off1 fd2 off2 len st)
  obtain res off1' off2' st1 where a: "ask (io_copy J fd1 off1 fd2 off2 len) st = ((res, off1', off2'), st1)"
    by (metis prod.exhaust)
  have s: "stays cwd tree st st1" by (rule ask_stays[OF 1(2) a])
  show ?case
    using 1(1)[OF _ a[symmetric] refl refl refl _ 1(2)] stays_trans[OF s] s
    by (subst copy_loop.simps) (auto simp: a Let_def stays_refl)
qed

lemma copyrange_f_keeps: "holds True st (copyrange_f K I env r st)"
  unfolding copyrange_f_def Let_def
  by (intro keeps_with_two keeps_rnd keeps_rnd_long keeps_on_ok seek_dest_keeps keeps_Inr copy_loop_stays stills stays_refl)

lemma drain_pipe_keeps: "holds b st (drain_pipe I fd2 x st)"
  unfolding drain_pipe_def split_beta' by (intro op_frames)

lemma splice_step_keeps: "holds True st (splice_step I fd1 fd2 x st)"
proof (cases x)
  case (fields len off1 off2 ret2)
  show ?thesis unfolding fields splice_step_def prod.case by (intro op_frames drain_pipe_keeps)
qed

lemma splice_f_keeps:
  assumes "\<And>k. 0 \<le> fst (io_pipe I k)"
  shows "holds True st (splice_f K I env r st)"
  unfolding splice_f_def Let_def
proof (intro keeps_with_two keeps_rnd keeps_rnd_long stays_refl keeps_ask stills, goal_cases)
  case (1 v fd1 stat1 fd2 stat2 s x s1 lr s2 lr2 s3 e s4)
  then have "fst (io_pipe I (kern s3)) = e" by (auto simp: ask_def split: prod.splits)
  then have "\<not> e < 0" using assms[of "kern s3"] by simp
  then show ?case by simp (intro keeps_on_ok keeps_repeating splice_step_keeps keeps_Inr stays_ask stills stays_refl)
qed

section \<open>Many files\<close>

lemma more_paths_keeps:
  assumes "\<And>ps s. \<forall>p \<in> set ps. reachable p \<Longrightarrow> holds b s (f (Some ps) s)" and "\<And>s. holds b s (f None s)"
  shows "holds b st (on_ok (more_paths K n st) (\<lambda>(ps, s). f ps s))"
  using assms
proof (induction n arbitrary: st f)
  case 0
  then show ?case by simp
next
  case (Suc n)
  have "on_ok (more_paths K (Suc n) st) (\<lambda>(ps, s). f ps s)
    = (case rnd K st of (r, st1) \<Rightarrow> on_ok (get_fname FT_REGm r True st1) (\<lambda>((pos, name, v), st2).
        case name of
          None \<Rightarrow> f None st2
        | Some p \<Rightarrow> on_ok (more_paths K n st2) (\<lambda>(ps, s). f (map_option ((#) p) ps) s)))"
    by (auto simp: on_ok_def split: prod.splits sum.splits option.splits)
  also have "holds b st \<dots>"
  proof (intro keeps_rnd stays_refl keeps_get_fname, goal_cases)
    case (2 r st1 pos p v st2)
    show ?case unfolding option.case by (rule Suc.IH) (use Suc.prems 2 in auto)
  qed (simp add: Suc.prems)
  finally show ?case .
qed

lemma open_all_keeps: "\<forall>p \<in> set ps. reachable p \<Longrightarrow> holds b st (open_all K ps st)"
proof (induction ps arbitrary: st)
  case (Cons p ps)
  then have "reachable p" "\<And>st. holds b st (open_all K ps st)" by auto
  then show ?case
    unfolding open_all.simps by (intro keeps_open_pair keeps_open no_creats keeps_if keeps_Inr stays_refl keeps_pair)
qed (simp add: keeps_Inr stays_refl)

lemma stat_all_stays: "stays cwd tree st (snd (stat_all I fds st))"
proof (induction fds arbitrary: st)
  case (Cons fd fds)
  obtain e stb st1 where a: "ask (io_fstat I fd) st = ((e, stb), st1)" by (metis prod.exhaust)
  then show ?case using stays_trans[OF ask_stays[OF stills(1) a] Cons] ask_stays[OF stills(1) a]
    by (auto simp: split_beta)
qed (simp add: stays_refl)

lemma close_all_stays: "stays cwd tree st s \<Longrightarrow> stays cwd tree st (close_all I fds s)"
  unfolding close_all_def by (induction fds arbitrary: s) (simp_all add: stays_request)

lemma rnd_long_stays: "rnd_long K st = (x, s) \<Longrightarrow> stays cwd tree st s"
  using calm_trans[OF rnd_calm rnd_calm] by (auto simp: rnd_long_def stays_def split: prod.splits)

lemma try_dest_stays: "stays cwd tree st (snd (try_dest K place same off1 len tries st))"
proof (induction tries arbitrary: st)
  case 0
  then show ?case
    using rnd_long_stays[of st "fst (rnd_long K st)"] by (subst try_dest.simps) (simp add: split_beta Let_def)
next
  case (Suc n)
  obtain lr s where r: "rnd_long K st = (lr, s)" by (cases "rnd_long K st")
  then show ?case
    using rnd_long_stays[OF r] stays_trans[OF rnd_long_stays[OF r] Suc] by (subst try_dest.simps) (auto simp: Let_def)
qed

lemma dests_stays: "stays cwd tree st (snd (dests K env stat0 off1 len sts st))"
proof (induction sts arbitrary: st)
  case (Cons stb sts)
  then show ?case
    using stays_trans[OF try_dest_stays Cons] by (simp add: split_beta)
qed (simp add: stays_refl)

lemma dedupe_ranges_stays: "stays cwd tree st (dedupe_ranges K I env fd0 fds stat0 sts st)"
proof -
  obtain x s1 where x: "rnd K st = (x, s1)" by (cases "rnd K st")
  obtain lr s2 where lr: "rnd_long K s1 = (lr, s2)" by (cases "rnd_long K s1")
  have "stays cwd tree st s1" using rnd_calm[OF x] by (simp add: stays_def)
  note s = stays_trans[OF stays_trans[OF this rnd_long_stays[OF lr]] dests_stays]
  show ?thesis unfolding dedupe_ranges_def x prod.case lr Let_def by (simp add: split_beta stays_request s)
qed

lemma dedupe_files_keeps: "reachable p0 \<Longrightarrow> \<forall>p \<in> set ps. reachable p \<Longrightarrow> holds b st (dedupe_files K I env p0 ps st)"
  unfolding dedupe_files_def
proof (rule keeps_open_pair, intro keeps_open no_creats, assumption, rule keeps_if, intro keeps_Inr stays_refl,
    rule keeps_pair, intro open_all_keeps, assumption, rule keeps_if, intro keeps_Inr close_all_stays stays_refl)
  fix fd0 s1 fds ok s2
  obtain sts s3 where a: "stat_all I (fd0 # fds) s2 = (sts, s3)" by (cases "stat_all I (fd0 # fds) s2")
  have "stays cwd tree s2 s3" using stat_all_stays[of s2 "fd0 # fds"] by (simp add: a del: stat_all.simps)
  then show "holds b s2 (case stat_all I (fd0 # fds) s2 of
      (Some (stat0 # sts), st3) \<Rightarrow> Inr ((), close_all I (fd0 # fds) (dedupe_ranges K I env fd0 fds stat0 sts st3))
    | (_, st3) \<Rightarrow> Inr ((), close_all I (fd0 # fds) st3))"
    unfolding a
    by (auto split: option.split list.split simp del: fold_simps intro!: keeps_Inr close_all_stays stays_trans[OF _ dedupe_ranges_stays])
qed

lemma deduperange_f_keeps: "holds True st (deduperange_f K I env r st)"
  unfolding deduperange_f_def Let_def
proof (intro keeps_if keeps_Inr stays_refl keeps_on_ok[OF keeps_repeating] keeps_rnd, goal_cases)
  case (1 nr s1)
  show ?case
  proof (rule keeps_get_fname, goal_cases)
    case (2 pos p0 v s2)
    then show ?case unfolding option.case
      by (intro more_paths_keeps) (simp_all add: dedupe_files_keeps keeps_Inr stays_refl)
  qed (simp add: keeps_Inr stays_refl)
qed

section \<open>All of them\<close>

lemma keeps_goes_on:
  assumes "settled cwd tree home st" and "holds False st res"
  shows "goes_on cwd tree home st res"
proof -
  have "forest_ok st" using assms(1) by (simp add: settled_def)
  then obtain s where s: "res = Inr ((), s)" "calm cwd tree st s"
    using assms(2) by (auto simp: keeps_def stays_def split: sum.splits prod.splits)
  then show ?thesis using goes_on_quiet[OF assms(1)] by simp
qed

lemma attr_set_f_ok:
  assumes "settled cwd tree home st"
  shows "goes_on cwd tree home st (attr_set_f K r st)"
proof -
  have "forest_ok st" using assms by (simp add: settled_def)
  then obtain p st1 where p: "file_or_here FT_ANYm r st = Inr (p, st1)" "calm cwd tree st st1" "reachable p"
    by (rule file_or_here_ok)
  let ?a = "CHR ''a'' # fmt_x (nameseq st1)" and ?st2 = "st1\<lparr>nameseq := nameseq st1 + 1\<rparr>"
  have q: "quiet_step cwd tree st ?st2"
    using p(2) by (auto simp: quiet_step_def dcache_ok_def files_def)
  then have st2: "settled cwd tree home ?st2" using quiet_step_settled assms by blast
  let ?rest = "\<lambda>st2. case rnd K st2 of (x, st3) \<Rightarrow> case rnd K st3 of (y, st4) \<Rightarrow>
         on_ok (on_kern (attr_set_path K p ?a (replicate (nat (if y mod (attr_lengths ! nat (x mod 4)) = 0 then 1
              else y mod (attr_lengths ! nat (x mod 4)))) (char_of (nat (fill_byte st4))))) st4)
              (\<lambda>(_, st5). Inr ((), st5))"
  have "holds False ?st2 (?rest ?st2)"
    unfolding attr_set_path_def
    by (intro keeps_rnd stays_refl keeps_on_ok keeps_path p(3) attr_sets keeps_Inr)
  moreover have "attr_set_f K r st = ?rest ?st2" by (simp add: attr_set_f_def p(1) Let_def)
  moreover have "forest_ok ?st2" using st2 by (simp add: settled_def)
  ultimately obtain s where s: "attr_set_f K r st = Inr ((), s)" "calm cwd tree ?st2 s"
    by (auto simp: keeps_def stays_def split: sum.splits prod.splits)
  then show ?thesis using goes_on_quiet[OF assms quiet_step_trans[OF q]] p(2) by simp
qed

end

end
