(* ===== verification/Fss_Process.thy ===== *)
theory Fss_Process
  imports Fss_Space Fss_Clone
begin

text \<open>
  A process of \<open>fsstress\<close>: the table of the operations with their frequencies, the options that
  change it, the table of choices made from it, and \<open>doproc\<close>, which runs operations chosen at random
  in a directory of its own.
\<close>

section \<open>The operations\<close>

datatype (plugins only: code) opty =
    OP_AFSYNC | OP_ALLOCSP | OP_AREAD | OP_ATTR_REMOVE | OP_ATTR_SET | OP_AWRITE | OP_BULKSTAT |
    OP_BULKSTAT1 | OP_CHOWN | OP_CLONERANGE | OP_COPYRANGE | OP_CREAT | OP_DEDUPERANGE |
    OP_DREAD | OP_DWRITE | OP_FALLOCATE | OP_FDATASYNC | OP_FIEMAP | OP_FREESP | OP_FSYNC |
    OP_GETATTR | OP_GETDENTS | OP_GETFATTR | OP_LINK | OP_LISTFATTR | OP_MKDIR | OP_MKNOD |
    OP_MREAD | OP_MWRITE | OP_PUNCH | OP_ZERO | OP_COLLAPSE | OP_INSERT | OP_READ | OP_READLINK |
    OP_READV | OP_REMOVEFATTR | OP_RENAME | OP_RNOREPLACE | OP_REXCHANGE | OP_RWHITEOUT |
    OP_RESVSP | OP_RMDIR | OP_SETATTR | OP_SETFATTR | OP_SETXATTR | OP_SPLICE | OP_STAT |
    OP_SYMLINK | OP_SYNC | OP_TRUNCATE | OP_UNLINK | OP_UNRESVSP | OP_WRITE | OP_WRITEV

record opdesc =
  op_of :: opty
  op_name :: string
  freq :: int
  iswrite :: bool

definition ops_rows :: "(opty \<times> string \<times> int \<times> bool) list" where
  "ops_rows =
    [(OP_AFSYNC, ''afsync'', 0, True), (OP_ALLOCSP, ''allocsp'', 1, True),
     (OP_AREAD, ''aread'', 1, False), (OP_ATTR_REMOVE, ''attr_remove'', 0, True),
     (OP_ATTR_SET, ''attr_set'', 0, True), (OP_AWRITE, ''awrite'', 1, True),
     (OP_BULKSTAT, ''bulkstat'', 1, False), (OP_BULKSTAT1, ''bulkstat1'', 1, False),
     (OP_CHOWN, ''chown'', 3, True), (OP_CLONERANGE, ''clonerange'', 4, True),
     (OP_COPYRANGE, ''copyrange'', 4, True), (OP_CREAT, ''creat'', 4, True),
     (OP_DEDUPERANGE, ''deduperange'', 4, True), (OP_DREAD, ''dread'', 4, False),
     (OP_DWRITE, ''dwrite'', 4, True), (OP_FALLOCATE, ''fallocate'', 1, True),
     (OP_FDATASYNC, ''fdatasync'', 1, True), (OP_FIEMAP, ''fiemap'', 1, True),
     (OP_FREESP, ''freesp'', 1, True), (OP_FSYNC, ''fsync'', 1, True),
     (OP_GETATTR, ''getattr'', 1, False), (OP_GETDENTS, ''getdents'', 1, False),
     (OP_GETFATTR, ''getfattr'', 1, False), (OP_LINK, ''link'', 1, True),
     (OP_LISTFATTR, ''listfattr'', 1, False), (OP_MKDIR, ''mkdir'', 2, True),
     (OP_MKNOD, ''mknod'', 2, True), (OP_MREAD, ''mread'', 2, False),
     (OP_MWRITE, ''mwrite'', 2, True), (OP_PUNCH, ''punch'', 1, True),
     (OP_ZERO, ''zero'', 1, True), (OP_COLLAPSE, ''collapse'', 1, True),
     (OP_INSERT, ''insert'', 1, True), (OP_READ, ''read'', 1, False),
     (OP_READLINK, ''readlink'', 1, False), (OP_READV, ''readv'', 1, False),
     (OP_REMOVEFATTR, ''removefattr'', 1, True), (OP_RENAME, ''rename'', 2, True),
     (OP_RNOREPLACE, ''rnoreplace'', 2, True), (OP_REXCHANGE, ''rexchange'', 2, True),
     (OP_RWHITEOUT, ''rwhiteout'', 2, True), (OP_RESVSP, ''resvsp'', 1, True),
     (OP_RMDIR, ''rmdir'', 1, True), (OP_SETATTR, ''setattr'', 0, True),
     (OP_SETFATTR, ''setfattr'', 2, True), (OP_SETXATTR, ''setxattr'', 1, True),
     (OP_SPLICE, ''splice'', 1, True), (OP_STAT, ''stat'', 1, False),
     (OP_SYMLINK, ''symlink'', 2, True), (OP_SYNC, ''sync'', 1, True),
     (OP_TRUNCATE, ''truncate'', 2, True), (OP_UNLINK, ''unlink'', 1, True),
     (OP_UNRESVSP, ''unresvsp'', 1, True), (OP_WRITE, ''write'', 4, True),
     (OP_WRITEV, ''writev'', 4, True)]"

definition ops :: "opdesc list" where
  "ops = map (\<lambda>(p, s, n, w). \<lparr>op_of = p, op_name = s, freq = n, iswrite = w\<rparr>) ops_rows"

definition zero_freq :: "opdesc list \<Rightarrow> opdesc list" where
  "zero_freq = map (\<lambda>p. p\<lparr>freq := 0\<rparr>)"

definition write_freq :: "opdesc list \<Rightarrow> opdesc list" where
  "write_freq = map (\<lambda>p. if iswrite p then p else p\<lparr>freq := 0\<rparr>)"

text \<open>\<open>-f name=number\<close>: the first operation with that name.\<close>

fun set_freq :: "string \<Rightarrow> int \<Rightarrow> opdesc list \<Rightarrow> opdesc list option" where
  "set_freq name n [] = None"
| "set_freq name n (p # ps) =
     (if op_name p = name then Some (p\<lparr>freq := n\<rparr> # ps) else map_option ((#) p) (set_freq name n ps))"

definition process_freq :: "string \<Rightarrow> opdesc list \<Rightarrow> halt + opdesc list" where
  "process_freq arg tbl =
     (if CHR ''='' \<notin> set arg then Inl (Exit 1)
      else
        (case set_freq (takeWhile (\<lambda>c. c \<noteq> CHR ''='') arg)
                (atoi (tl (dropWhile (\<lambda>c. c \<noteq> CHR ''='') arg))) tbl of
           None \<Rightarrow> Inl (Exit 1)
         | Some tbl1 \<Rightarrow> Inr tbl1))"

text \<open>
  The table of choices has as many slots as the frequencies add up to; a write past them is a fault,
  as is any write when the allocation was of no size or a negative one.
\<close>

fun fill_freq_table :: "nat \<Rightarrow> opdesc list \<Rightarrow> opty list \<Rightarrow> halt + opty list" where
  "fill_freq_table slots [] acc = Inr acc"
| "fill_freq_table slots (p # ps) acc =
     (let acc1 = acc @ replicate (nat (freq p)) (op_of p) in
      if slots < length acc1 then Inl Fault else fill_freq_table slots ps acc1)"

definition make_freq_table :: "opdesc list \<Rightarrow> halt + opty list" where
  "make_freq_table tbl = fill_freq_table (nat (s32 (sum_list (map freq tbl)))) tbl []"

section \<open>A process\<close>

record proc_cfg =
  operations :: int
  procid :: int
  execute_cmd :: bool
  execute_freq :: int
  errtag :: int
  cleanup :: bool

text \<open>
  After how many operations the command of \<open>-x\<close> is executed. Both sums are sums of \<open>int\<close>s and wrap; a
  division by 0, or of the least \<open>int\<close> by -1, traps.
\<close>

definition exec_dividend :: "proc_cfg \<Rightarrow> int option" where
  "exec_dividend c =
     (let dividend = s32 (operations c + execute_freq c); divisor = s32 (execute_freq c + 1) in
      if divisor = 0 \<or> divisor = -1 \<and> dividend = -2147483648 then None else Some (c_div dividend divisor))"

abbreviation (input) EIO :: int where "EIO \<equiv> 5"

text \<open>
  The loop over the operations from number \<open>opno\<close> on, \<open>n\<close> of them: \<open>sys\<close> is the command, \<open>f\<close> the
  functions of the operations, \<open>tbl\<close> the table of choices. The result says when the command was
  executed.
\<close>

fun op_loop ::
  "'k name_calls \<Rightarrow> ('k \<Rightarrow> 'k) \<Rightarrow> (opty \<Rightarrow> int \<Rightarrow> int \<Rightarrow> 'k fss \<Rightarrow> ('k, unit) fss_run) \<Rightarrow> proc_cfg \<Rightarrow> int
     \<Rightarrow> opty list \<Rightarrow> nat \<Rightarrow> int \<Rightarrow> 'k fss \<Rightarrow> ('k, int list) fss_run" where
  "op_loop K sys f c dividend tbl 0 opno st = Inr ([], st)"
| "op_loop K sys f c dividend tbl (Suc n) opno st =
     (if execute_cmd c \<and> opno \<noteq> 0 \<and> dividend = 0 then Inl (Fault, st)
      else
        (let due = execute_cmd c \<and> opno \<noteq> 0 \<and> opno mod dividend = 0;
             st1 = (if due then st\<lparr>kern := sys (kern st)\<rparr> else st)
         in case rnd K st1 of (x, st2) \<Rightarrow>
            case rnd K st2 of (r, st3) \<Rightarrow>
            if tbl = [] then Inl (Fault, st2)
            else
              on_ok (f (tbl ! nat (x mod int (length tbl))) opno r st3) (\<lambda>(_, st4).
                (if errtag c \<noteq> 0 \<and> opno mod 100 = 0 then
                   (case c_stat K ''.'' (kern st4) of (rval, _, k) \<Rightarrow>
                      if rval = EIO then Inr (if due then [opno] else [], st4\<lparr>kern := k\<rparr>)
                      else on_ok (op_loop K sys f c dividend tbl n (opno + 1) (st4\<lparr>kern := k\<rparr>))
                             (\<lambda>(ran, st5). Inr (if due then opno # ran else ran, st5)))
                 else on_ok (op_loop K sys f c dividend tbl n (opno + 1) st4)
                        (\<lambda>(ran, st5). Inr (if due then opno # ran else ran, st5))))))"

definition proc_dir :: "proc_cfg \<Rightarrow> string" where
  "proc_dir c = CHR ''p'' # fmt_x (procid c)"

text \<open>To the end of the loop.\<close>

definition doproc_run ::
  "'k name_calls \<Rightarrow> ('k \<Rightarrow> 'k) \<Rightarrow> (opty \<Rightarrow> int \<Rightarrow> int \<Rightarrow> 'k fss \<Rightarrow> ('k, unit) fss_run) \<Rightarrow> proc_cfg
     \<Rightarrow> opty list \<Rightarrow> 'k fss \<Rightarrow> ('k, int list) fss_run" where
  "doproc_run K sys f c tbl st =
     (case exec_dividend c of
        None \<Rightarrow> Inl (Fault, st)
      | Some dividend \<Rightarrow>
          case c_mkdir K 0x1FF (proc_dir c) (kern st) of (_, _, k1) \<Rightarrow>
          case c_chdir K (proc_dir c) k1 of (r2, _, k2) \<Rightarrow>
          if r2 < 0 then Inl (Exit 1, st\<lparr>kern := k2\<rparr>)
          else case c_stat K ''.'' k2 of (r3, _, k3) \<Rightarrow>
          if r3 < 0 then Inl (Exit 1, st\<lparr>kern := k3\<rparr>)
          else
            let st1 = st\<lparr>kern := k3\<rparr>;
                st2 = (if namerand st1 \<noteq> 0 then (case rnd K st1 of (x, s) \<Rightarrow> s\<lparr>namerand := x\<rparr>) else st1)
            in op_loop K sys f c dividend tbl (nat (operations c)) 0 st2)"

definition doproc ::
  "'k name_calls \<Rightarrow> ('k \<Rightarrow> 'k) \<Rightarrow> (string \<Rightarrow> 'k \<Rightarrow> 'k) \<Rightarrow> (opty \<Rightarrow> int \<Rightarrow> int \<Rightarrow> 'k fss \<Rightarrow> ('k, unit) fss_run)
     \<Rightarrow> proc_cfg \<Rightarrow> opty list \<Rightarrow> 'k fss \<Rightarrow> ('k, int list) fss_run" where
  "doproc K sys rm_rf f c tbl st =
     on_ok (doproc_run K sys f c tbl st) (\<lambda>(ran, st1).
       case c_chdir K ''..'' (kern st1) of (r, _, k) \<Rightarrow>
       if r = 0 then
         Inr (ran, if cleanup c then cleanup_flist (st1\<lparr>kern := rm_rf (proc_dir c) k\<rparr>) else st1\<lparr>kern := k\<rparr>)
       else Inl (Abort, st1))"

text \<open>The functions of the operations; \<open>opno\<close> is the number of the operation, \<open>r\<close> the random number.\<close>

definition op_func ::
  "'k name_calls \<Rightarrow> 'k io_calls \<Rightarrow> io_env \<Rightarrow> opty \<Rightarrow> int \<Rightarrow> int \<Rightarrow> 'k fss \<Rightarrow> ('k, unit) fss_run" where
  "op_func K I env p opno r st =
     (case p of
        OP_AFSYNC \<Rightarrow> afsync_f K I r st
      | OP_ALLOCSP \<Rightarrow> allocsp_f K I env r st
      | OP_AREAD \<Rightarrow> aread_f K I env r st
      | OP_ATTR_REMOVE \<Rightarrow> attr_remove_f K I r st
      | OP_ATTR_SET \<Rightarrow> attr_set_f K r st
      | OP_AWRITE \<Rightarrow> awrite_f K I env r st
      | OP_BULKSTAT \<Rightarrow> bulkstat_f K I r st
      | OP_BULKSTAT1 \<Rightarrow> bulkstat1_f K I r st
      | OP_CHOWN \<Rightarrow> chown_f (idmodulo env) K r st
      | OP_CLONERANGE \<Rightarrow> clonerange_f K I env r st
      | OP_COPYRANGE \<Rightarrow> copyrange_f K I env r st
      | OP_CREAT \<Rightarrow> creat_f K r st
      | OP_DEDUPERANGE \<Rightarrow> deduperange_f K I env r st
      | OP_DREAD \<Rightarrow> dread_f K I env r st
      | OP_DWRITE \<Rightarrow> dwrite_f K I env r st
      | OP_FALLOCATE \<Rightarrow> fallocate_f K I env opno r st
      | OP_FDATASYNC \<Rightarrow> fdatasync_f K I r st
      | OP_FIEMAP \<Rightarrow> fiemap_f K I env r st
      | OP_FREESP \<Rightarrow> freesp_f K I env r st
      | OP_FSYNC \<Rightarrow> fsync_f K I r st
      | OP_GETATTR \<Rightarrow> getattr_f K I r st
      | OP_GETDENTS \<Rightarrow> getdents_f K I r st
      | OP_GETFATTR \<Rightarrow> getfattr_f K r st
      | OP_LINK \<Rightarrow> link_f K r st
      | OP_LISTFATTR \<Rightarrow> listfattr_f I r st
      | OP_MKDIR \<Rightarrow> mkdir_f K r st
      | OP_MKNOD \<Rightarrow> mknod_f K r st
      | OP_MREAD \<Rightarrow> mread_f K I env r st
      | OP_MWRITE \<Rightarrow> mwrite_f K I env r st
      | OP_PUNCH \<Rightarrow> punch_f K I env opno r st
      | OP_ZERO \<Rightarrow> zero_f K I env opno r st
      | OP_COLLAPSE \<Rightarrow> collapse_f K I env opno r st
      | OP_INSERT \<Rightarrow> insert_f K I env opno r st
      | OP_READ \<Rightarrow> read_f K I r st
      | OP_READLINK \<Rightarrow> readlink_f K r st
      | OP_READV \<Rightarrow> readv_f K I r st
      | OP_REMOVEFATTR \<Rightarrow> removefattr_f K r st
      | OP_RENAME \<Rightarrow> rename_f K r st
      | OP_RNOREPLACE \<Rightarrow> rnoreplace_f K r st
      | OP_REXCHANGE \<Rightarrow> rexchange_f K r st
      | OP_RWHITEOUT \<Rightarrow> rwhiteout_f K r st
      | OP_RESVSP \<Rightarrow> resvsp_f K I env r st
      | OP_RMDIR \<Rightarrow> rmdir_f K r st
      | OP_SETATTR \<Rightarrow> setattr_f K I env r st
      | OP_SETFATTR \<Rightarrow> setfattr_f K r st
      | OP_SETXATTR \<Rightarrow> setxattr_f K I env r st
      | OP_SPLICE \<Rightarrow> splice_f K I env r st
      | OP_STAT \<Rightarrow> stat_f K r st
      | OP_SYMLINK \<Rightarrow> symlink_f K r st
      | OP_SYNC \<Rightarrow> sync_f I st
      | OP_TRUNCATE \<Rightarrow> truncate_f K I env r st
      | OP_UNLINK \<Rightarrow> unlink_f K r st
      | OP_UNRESVSP \<Rightarrow> unresvsp_f K I env r st
      | OP_WRITE \<Rightarrow> write_f K I env r st
      | OP_WRITEV \<Rightarrow> writev_f K I env r st)"

text \<open>The operations in which the kernel or the random numbers decide how long a loop runs.\<close>

definition looping :: "opty set" where
  "looping = {OP_ATTR_REMOVE, OP_BULKSTAT, OP_CLONERANGE, OP_COPYRANGE, OP_DEDUPERANGE, OP_GETDENTS, OP_SPLICE}"

end
