(* ===== verification/Fss_Process_Ok.thy ===== *)
theory Fss_Process_Ok
  imports Fss_Clone_Ok Fss_Process
begin

text \<open>
  The loop of a process keeps the tables the mirror of the tree; how often it executes the command
  of \<open>-x\<close>; what is in the table of choices.
\<close>

text \<open>An operation ends with everything settled, or does not end and may not.\<close>

definition carries_on ::
  "('k \<Rightarrow> string list) \<Rightarrow> ('k \<Rightarrow> tree) \<Rightarrow> string list \<Rightarrow> bool \<Rightarrow> 'k fss \<Rightarrow> ('k, unit) fss_run \<Rightarrow> bool" where
  "carries_on cwd tree home may_hang st res \<longleftrightarrow>
     goes_on cwd tree home st res \<or> may_hang \<and> (\<exists>st'. res = Inl (Hang, st'))"

text \<open>
  What is left to the environment: \<open>idmodulo\<close> and \<open>XFS_DIO_MIN\<close> are not 0, a pipe can be made where
  there is a splice, and a page that is read lies in the file.
\<close>

definition no_traps :: "'k io_calls \<Rightarrow> io_env \<Rightarrow> opty set \<Rightarrow> bool" where
  "no_traps I env P \<longleftrightarrow> idmodulo env \<noteq> 0 \<and> dio_env_ok env
     \<and> (OP_SPLICE \<in> P \<longrightarrow> (\<forall>k. 0 \<le> fst (io_pipe I k)))
     \<and> (OP_MREAD \<in> P \<longrightarrow> (\<forall>len k. fst (io_load I len k)))"

context namespace
begin

lemma name_op_ok:
  assumes "p \<in> {OP_CHOWN, OP_CREAT, OP_GETFATTR, OP_LINK, OP_MKDIR, OP_MKNOD, OP_READLINK, OP_REMOVEFATTR,
     OP_RENAME, OP_RNOREPLACE, OP_REXCHANGE, OP_RWHITEOUT, OP_RMDIR, OP_SETFATTR, OP_STAT, OP_SYMLINK, OP_UNLINK}"
    and st: "settled cwd tree home st" and n: "nameseq st < NUMBERS" and "idmodulo env \<noteq> 0"
  shows "goes_on cwd tree home st (op_func K I env p opno r st)"
proof -
  have n': "nameseq st \<le> NUMBERS" using n by simp
  note runs = chown_f_ok[OF st assms(4)] creat_f_ok[OF st n] getfattr_f_ok[OF st] link_f_ok[OF st n] mkdir_f_ok[OF st n]
    mknod_f_ok[OF st n] readlink_f_ok[OF st] removefattr_f_ok[OF st] rmdir_f_ok[OF st n'] setfattr_f_ok[OF st]
    stat_f_ok[OF st] symlink_f_ok[OF st n] unlink_f_ok[OF st n'] do_renameat2_ok[OF st n]
  have ren: "goes_on cwd tree home st (rename_f K r st)" "goes_on cwd tree home st (rnoreplace_f K r st)"
    "goes_on cwd tree home st (rexchange_f K r st)" "goes_on cwd tree home st (rwhiteout_f K r st)"
    unfolding rename_f_def rnoreplace_f_def rexchange_f_def rwhiteout_f_def
    by (rule do_renameat2_ok[OF st n]; simp)+
  show ?thesis using assms(1) runs ren by (auto simp: op_func_def)
qed

end

context file_io
begin

lemma io_op_keeps:
  assumes "p \<notin> {OP_CHOWN, OP_CREAT, OP_GETFATTR, OP_LINK, OP_MKDIR, OP_MKNOD, OP_READLINK, OP_REMOVEFATTR,
     OP_RENAME, OP_RNOREPLACE, OP_REXCHANGE, OP_RWHITEOUT, OP_RMDIR, OP_SETFATTR, OP_STAT, OP_SYMLINK, OP_UNLINK}"
    and "p \<noteq> OP_ATTR_SET" and "no_traps I env {p}"
  shows "holds (p \<in> looping) st (op_func K I env p opno r st)"
proof -
  have e: "idmodulo env \<noteq> 0" "dio_env_ok env" "p = OP_SPLICE \<Longrightarrow> 0 \<le> fst (io_pipe I k)"
    "p = OP_MREAD \<Longrightarrow> \<forall>len k. fst (io_load I len k)" for k
    using assms(3) by (auto simp: no_traps_def)
  note ops = read_f_keeps readv_f_keeps write_f_keeps writev_f_keeps space_f_keeps do_fallocate_keeps fiemap_f_keeps
    truncate_f_keeps fsync_f_keeps fdatasync_f_keeps afsync_f_keeps sync_f_keeps getattr_f_keeps setattr_f_keeps
    listfattr_f_keeps getdents_f_keeps bulkstat_f_keeps bulkstat1_f_keeps attr_remove_f_keeps
    dread_f_keeps[OF e(2)] dwrite_f_keeps[OF e(2)] do_aio_rw_keeps[OF e(2)] setxattr_f_keeps[OF e(1)]
    clonerange_f_keeps copyrange_f_keeps deduperange_f_keeps
  show ?thesis
    using assms(1,2) ops splice_f_keeps[OF e(3)] do_mmap_keeps[of True] do_mmap_keeps[of False, OF disjI2, OF e(4)] no_creats
    by (cases p) (simp_all add: op_func_def looping_def allocsp_f_def freesp_f_def resvsp_f_def unresvsp_f_def
        fallocate_f_def punch_f_def zero_f_def collapse_f_def insert_f_def aread_f_def awrite_f_def mread_f_def mwrite_f_def)
qed

lemma op_func_ok:
  assumes "settled cwd tree home st" and "nameseq st < NUMBERS" and "no_traps I env {p}"
  shows "carries_on cwd tree home (p \<in> looping) st (op_func K I env p opno r st)"
proof (cases "p = OP_ATTR_SET")
  case True
  then show ?thesis using attr_set_f_ok[OF assms(1)] by (simp add: carries_on_def op_func_def)
next
  case False
  have i: "idmodulo env \<noteq> 0" using assms(3) by (simp add: no_traps_def)
  have "forest_ok st" using assms(1) by (simp add: settled_def)
  then have "carries_on cwd tree home (p \<in> looping) st (op_func K I env p opno r st)"
    if "holds (p \<in> looping) st (op_func K I env p opno r st)"
    using that keeps_goes_on[OF assms(1)]
    by (auto simp: carries_on_def keeps_def split: sum.splits)
  then show ?thesis
    using name_op_ok[OF _ assms(1,2) i, of p I opno r] io_op_keeps[OF _ False assms(3)]
    by (auto simp: carries_on_def)
qed

end

text \<open>The loop, by the state it leaves.\<close>

definition loops ::
  "('k \<Rightarrow> string list) \<Rightarrow> ('k \<Rightarrow> tree) \<Rightarrow> string list \<Rightarrow> bool \<Rightarrow> ('k, int list) fss_run \<Rightarrow> bool" where
  "loops cwd tree home may_hang res \<longleftrightarrow>
     (\<exists>ran st. res = Inr (ran, st) \<and> settled cwd tree home st) \<or> may_hang \<and> (\<exists>st. res = Inl (Hang, st))"

context file_io
begin

lemma op_loop_ok:
  assumes "settled cwd tree home st" and "nameseq st + int n \<le> NUMBERS" and "no_traps I env (set tbl)" and "tbl \<noteq> []"
    and "execute_cmd c \<longrightarrow> dividend \<noteq> 0"
    and sys: "\<And>k. execute_cmd c \<Longrightarrow> cwd (sys k) = cwd k \<and> tree (sys k) = tree k"
  shows "loops cwd tree home (\<exists>p \<in> set tbl. p \<in> looping) (op_loop K sys (op_func K I env) c dividend tbl n opno st)"
  using assms(1,2)
proof (induction n arbitrary: opno st)
  case 0
  then show ?case by (simp add: loops_def)
next
  case (Suc n)
  let ?due = "execute_cmd c \<and> opno \<noteq> 0 \<and> opno mod dividend = 0"
  define st1 where "st1 = (if ?due then st\<lparr>kern := sys (kern st)\<rparr> else st)"
  have c1: "calm cwd tree st st1"
    using sys quiet_step_kern[of cwd "sys (kern st)" st tree] quiet_step_refl[of cwd tree st] by (simp add: st1_def)
  obtain x st2 where x: "rnd K st1 = (x, st2)" by (cases "rnd K st1")
  obtain r st3 where r: "rnd K st2 = (r, st3)" by (cases "rnd K st2")
  have c3: "calm cwd tree st st3" using calm_trans[OF calm_trans[OF c1 rnd_calm[OF x]] rnd_calm[OF r]] .
  let ?p = "tbl ! nat (x mod int (length tbl))"
  have "nat (x mod int (length tbl)) < length tbl" using assms(4) by (simp add: nat_less_iff)
  then have p: "?p \<in> set tbl" by simp
  then have nt: "no_traps I env {?p}" using assms(3) by (auto simp: no_traps_def)
  have st3: "settled cwd tree home st3" "nameseq st3 < NUMBERS"
    using c3 quiet_step_settled Suc.prems by fastforce+
  note run = op_func_ok[OF st3 nt, of opno r]
  show ?case
  proof (cases "\<exists>s. op_func K I env ?p opno r st3 = Inl (Hang, s)")
    case True
    then have "?p \<in> looping" using run by (auto simp: carries_on_def goes_on_def)
    then show ?thesis
      using True p assms(4,5) x r by (auto simp: loops_def st1_def[symmetric] Let_def)
  next
    case False
  then obtain st4 where
    o: "op_func K I env ?p opno r st3 = Inr ((), st4)" "settled cwd tree home st4" "nameseq st4 \<le> nameseq st3 + 1"
    using run unfolding carries_on_def goes_on_def by blast
  obtain rval e k where s: "c_stat K ''.'' (kern st4) = (rval, e, k)" by (cases "c_stat K ''.'' (kern st4)")
  have c5: "calm cwd tree st4 (st4\<lparr>kern := k\<rparr>)" using leaves_calm[OF stat s] .
  have st5: "settled cwd tree home (st4\<lparr>kern := k\<rparr>)" using quiet_step_settled c5 o(2) by blast
  have n4: "nameseq st4 + int n \<le> NUMBERS" using o(3) c3 Suc.prems(2) by simp
  have "loops cwd tree home (\<exists>p \<in> set tbl. p \<in> looping) (op_loop K sys (op_func K I env) c dividend tbl n (opno + 1) st4)"
    "loops cwd tree home (\<exists>p \<in> set tbl. p \<in> looping) (op_loop K sys (op_func K I env) c dividend tbl n (opno + 1) (st4\<lparr>kern := k\<rparr>))"
    using Suc.IH[OF o(2) n4] Suc.IH[OF st5] n4 by simp_all
  then show ?thesis
    using st5 assms(4,5) x r o(1) s by (auto simp: loops_def st1_def[symmetric] Let_def)
  qed
qed

end

section \<open>The start of a process\<close>

definition empty_tables :: "'k fss \<Rightarrow> bool" where
  "empty_tables st \<longleftrightarrow> (\<forall>ft. files st ft = []) \<and> dcache st = replicate NDCACHE (-1) \<and> nameseq st = 0"

lemma settled_start:
  assumes e: "empty_tables st" and "cwd (kern st) = home" and "below home (tree (kern st)) = Map.empty"
  shows "settled cwd tree home st"
proof -
  have u: "uniq st" using e by (simp add: uniq_def empty_tables_def)
  have "tab st = Map.empty"
    by (rule tab_eqI[OF u]) (use e in \<open>simp add: in_table_def empty_tables_def\<close>)
  moreover have "dcache_ok st" using e by (simp add: dcache_ok_def empty_tables_def)
  moreover have "paths Map.empty = {}" by (auto simp: paths_def elim: walkE)
  ultimately show ?thesis
    using u assms by (simp add: settled_def forest_ok_def planted_def mirrors_def empty_tables_def)
qed

lemma proc_dir_plain: "plain (proc_dir c)"
proof -
  have "list_all (is_digit 16) (fmt_x (procid c))" unfolding fmt_x_def by (rule to_base_digits) simp_all
  then have "CHR ''/'' \<notin> set (fmt_x (procid c))" by (auto simp: list_all_iff is_digit_def digit_val_def)
  then show ?thesis by (simp add: plain_def proc_dir_def)
qed

context file_io
begin

text \<open>
  A new process, with no files below the directory it makes: it ends at once because it cannot go
  there, or runs all its operations.
\<close>

lemma doproc_run_ok:
  assumes e: "empty_tables st" and below: "\<And>x. x \<noteq> [] \<Longrightarrow> tree (kern st) (cwd (kern st) @ proc_dir c # x) = None"
    and n: "operations c \<le> NUMBERS" and tbl: "no_traps I env (set tbl)" "tbl \<noteq> []"
    and d: "exec_dividend c = Some dividend" "execute_cmd c \<longrightarrow> dividend \<noteq> 0"
    and sys: "\<And>k. execute_cmd c \<Longrightarrow> cwd (sys k) = cwd k \<and> tree (sys k) = tree k"
  shows "(\<exists>st'. doproc_run K sys (op_func K I env) c tbl st = Inl (Exit 1, st'))
    \<or> loops cwd tree (cwd (kern st) @ [proc_dir c]) (\<exists>p \<in> set tbl. p \<in> looping) (doproc_run K sys (op_func K I env) c tbl st)"
proof -
  let ?h = "cwd (kern st) @ [proc_dir c]"
  have res: "resolve w (proc_dir c) = w @ [proc_dir c]" for w
    using resolve_joined[of "[proc_dir c]" w] proc_dir_plain by simp
  obtain r1 e1 k1 where k1: "c_mkdir K 0x1FF (proc_dir c) (kern st) = (r1, e1, k1)"
    by (cases "c_mkdir K 0x1FF (proc_dir c) (kern st)")
  obtain r2 e2 k2 where k2: "c_chdir K (proc_dir c) k1 = (r2, e2, k2)" by (cases "c_chdir K (proc_dir c) k1")
  obtain r3 e3 k3 where k3: "c_stat K ''.'' k2 = (r3, e3, k3)" by (cases "c_stat K ''.'' k2")
  have m: "cwd k1 = cwd (kern st)" "tree k1 = tree (kern st) \<or> tree k1 = (tree (kern st))(?h \<mapsto> Dir)"
    using mkdir[unfolded acts_def makes_def, rule_format, OF k1] res by (auto split: if_splits)
  have s: "cwd k3 = cwd k2" "tree k3 = tree k2"
    using stat[unfolded acts_def leaves_def, rule_format, OF k3] by (auto split: if_splits)
  show ?thesis
  proof (cases "r2 < 0 \<or> r3 < 0")
    case True
    then show ?thesis by (auto simp: doproc_run_def d(1) k1 k2 k3)
  next
    case False
    then have ok: "\<not> r2 < 0" "\<not> r3 < 0" by auto
    then have "cwd k3 = ?h" "tree k3 = tree k1" using chdir[OF k2] s m(1) res by auto
    define st1 where "st1 = st\<lparr>kern := k3\<rparr>"
    define st2 where "st2 = (if namerand st1 \<noteq> 0 then (case rnd K st1 of (x, s) \<Rightarrow> s\<lparr>namerand := x\<rparr>) else st1)"
    have run: "doproc_run K sys (op_func K I env) c tbl st
        = op_loop K sys (op_func K I env) c dividend tbl (nat (operations c)) 0 st2"
      using ok by (simp add: doproc_run_def d(1) k1 k2 k3 st1_def st2_def Let_def)
    obtain x s where x: "rnd K st1 = (x, s)" by (cases "rnd K st1")
    note q = rnd_quiet(1)[OF x]
    have st2: "kern st2 = kern s \<or> kern st2 = k3" "flists st2 = flists st" "dcache st2 = dcache st" "nameseq st2 = nameseq st"
      using x by (auto simp: st2_def st1_def rnd_def split: prod.splits)
    have "cwd (kern st2) = ?h" "tree (kern st2) = tree k1"
      using st2(1) quiet_step_files(7,8)[OF q] \<open>cwd k3 = ?h\<close> \<open>tree k3 = tree k1\<close> by (auto simp: st1_def)
    moreover have e2: "empty_tables st2" using e st2 by (simp add: empty_tables_def files_def)
    moreover have "below ?h (tree k1) = Map.empty"
      using below m(2) by (auto simp: below_def fun_eq_iff)
    ultimately have "settled cwd tree ?h st2" by (intro settled_start) simp_all
    moreover have "nameseq st2 = 0" using e2 by (simp add: empty_tables_def)
    ultimately show ?thesis
      unfolding run using op_loop_ok[OF _ _ tbl d(2) sys] n by simp
  qed
qed

end

section \<open>The command of \<open>-x\<close>\<close>

definition due :: "proc_cfg \<Rightarrow> int \<Rightarrow> int \<Rightarrow> bool" where
  "due c dividend opno \<longleftrightarrow> execute_cmd c \<and> opno \<noteq> 0 \<and> opno mod dividend = 0"

lemma op_loop_ran:
  assumes "op_loop K sys f c dividend tbl n opno st = Inr (xs, st')" and "errtag c = 0"
  shows "xs = filter (due c dividend) [opno..opno + int n - 1]"
  using assms(1)
proof (induction n arbitrary: opno st xs st')
  case (Suc n)
  let ?st1 = "if due c dividend opno then st\<lparr>kern := sys (kern st)\<rparr> else st"
  obtain x st2 where x: "rnd K ?st1 = (x, st2)" by (cases "rnd K ?st1")
  obtain r st3 where r: "rnd K st2 = (r, st3)" by (cases "rnd K st2")
  obtain st4 ys st5 where l: "op_loop K sys f c dividend tbl n (opno + 1) st4 = Inr (ys, st5)"
    and xs: "xs = (if due c dividend opno then opno # ys else ys)"
    using Suc.prems x r assms(2)
    by (auto simp: due_def[symmetric] Let_def on_ok_Inr_iff split: if_splits prod.splits)
  have "[opno..opno + int (Suc n) - 1] = opno # [opno + 1..opno + 1 + int n - 1]"
    by (subst upto.simps) simp
  then show ?case using Suc.IH[OF l] xs by simp
qed simp

lemma upto_multiples:
  fixes d :: int assumes "0 < d"
  shows "length (filter (\<lambda>i. i mod d = 0) [1..int n]) = nat (int n div d)"
proof (induction n)
  case (Suc n)
  have "[1..int (Suc n)] = [1..int n] @ [int n + 1]" by (simp add: upto_rec2 add.commute)
  moreover have "(int n + 1) div d = int n div d + (if (int n + 1) mod d = 0 then 1 else 0)"
  proof (cases "int n mod d + 1 = d")
    case True
    have "int n + 1 = d * (int n div d) + (int n mod d + 1)" using mult_div_mod_eq[of d "int n"] by linarith
    also have "\<dots> = d * (int n div d + 1)" unfolding True by (simp add: distrib_left)
    finally have "int n + 1 = d * (int n div d + 1)" .
    then show ?thesis using assms by simp
  next
    case False
    have "int n + 1 = d * (int n div d) + (int n mod d + 1)" using mult_div_mod_eq[of d "int n"] by simp
    moreover have "0 \<le> int n mod d + 1" "int n mod d + 1 < d"
      using assms False pos_mod_sign[OF assms, of "int n"] pos_mod_bound[OF assms, of "int n"] by simp_all
    ultimately have "(int n + 1) div d = int n div d" "(int n + 1) mod d = int n mod d + 1"
      using int_div_pos_eq int_mod_pos_eq by blast+
    then show ?thesis using pos_mod_sign[OF assms, of "int n"] by simp
  qed
  moreover have "0 \<le> int n div d" using assms by (simp add: pos_imp_zdiv_nonneg_iff)
  ultimately show ?case using Suc by (simp add: add.commute nat_add_distrib)
qed simp

section \<open>The table of choices\<close>

lemma fill_ok:
  assumes "length acc + sum_list (map (\<lambda>p. nat (freq p)) ps) \<le> n"
  shows "fill_freq_table n ps acc = Inr (acc @ concat (map (\<lambda>p. replicate (nat (freq p)) (op_of p)) ps))"
  using assms by (induction ps arbitrary: acc) (simp_all add: Let_def)

lemma fill_overflow:
  assumes "n < length acc + sum_list (map (\<lambda>p. nat (freq p)) ps)" and "length acc \<le> n"
  shows "fill_freq_table n ps acc = Inl Fault"
  using assms by (induction ps arbitrary: acc) (auto simp: Let_def)

lemma sum_nat_freq: "\<forall>p \<in> set tbl. 0 \<le> freq p \<Longrightarrow> int (sum_list (map (\<lambda>p. nat (freq p)) tbl)) = sum_list (map freq tbl)"
  by (induction tbl) simp_all

lemma sum_nat_freq_le: "sum_list (map freq tbl) \<le> int (sum_list (map (\<lambda>p. nat (freq p)) tbl))"
  by (induction tbl) simp_all

lemma sum_nat_freq_less:
  "p \<in> set tbl \<Longrightarrow> freq p < 0 \<Longrightarrow> sum_list (map freq tbl) < int (sum_list (map (\<lambda>p. nat (freq p)) tbl))"
proof (induction tbl)
  case (Cons q tbl)
  then show ?case using sum_nat_freq_le[of tbl] by (cases "p = q") auto
qed simp

lemma count_replicate: "count_list (replicate n y) x = (if y = x then n else 0)"
  by (induction n) (auto split: if_splits)

lemma count_choices:
  "count_list (concat (map (\<lambda>p. replicate (nat (freq p)) (op_of p)) tbl)) x
     = sum_list (map (\<lambda>p. if op_of p = x then nat (freq p) else 0) tbl)"
  by (induction tbl) (simp_all add: count_replicate)

end
