(* ===== verification/Mem_Tree.thy ===== *)
theory Mem_Tree
  imports Fss_Process_Ok
begin

text \<open>
  A directory tree in memory that behaves as \<open>namespace\<close> documents: a list of the files by their
  names from the root, a working directory, and a generator of random numbers. A path of \<open>lim\<close>
  characters or more is too long for it.
\<close>

record mem =
  m_cwd :: "string list"
  m_files :: "(string list \<times> kind) list"
  m_seed :: int

definition m_tree :: "mem \<Rightarrow> tree" where
  "m_tree m = map_of (m_files m)"

definition is_dir :: "mem \<Rightarrow> string list \<Rightarrow> bool" where
  "is_dir m a \<longleftrightarrow> a = [] \<or> m_tree m a = Some Dir"

text \<open>A call on one path: its action on the name the path stands for, or an error.\<close>

definition on_path :: "nat \<Rightarrow> (string list \<Rightarrow> mem \<Rightarrow> int + (string list \<times> kind) list) \<Rightarrow> string \<Rightarrow> mem call" where
  "on_path lim act p m =
     (if lim \<le> length p then (-1, ENAMETOOLONG, m)
      else
        (case act (resolve (m_cwd m) p) m of
           Inl e \<Rightarrow> (-1, max 1 e, m)
         | Inr fs \<Rightarrow> (0, 0, m\<lparr>m_files := fs\<rparr>)))"

definition m_make :: "kind \<Rightarrow> string list \<Rightarrow> mem \<Rightarrow> int + (string list \<times> kind) list" where
  "m_make kd a m =
     (if m_tree m a \<noteq> None then Inl 17
      else if a = [] \<or> \<not> is_dir m (butlast a) then Inl 2
      else Inr ((a, kd) # m_files m))"

definition m_creat :: "string list \<Rightarrow> mem \<Rightarrow> int + (string list \<times> kind) list" where
  "m_creat a m = (if m_tree m a = None then m_make Reg a m else if m_tree m a = Some Reg then Inr (m_files m) else Inl 21)"

definition m_drop :: "string list \<Rightarrow> mem \<Rightarrow> (string list \<times> kind) list" where
  "m_drop a m = filter (\<lambda>(x, _). x \<noteq> a) (m_files m)"

definition m_unlink :: "string list \<Rightarrow> mem \<Rightarrow> int + (string list \<times> kind) list" where
  "m_unlink a m =
     (if m_tree m a = None then Inl 2 else if m_tree m a = Some Dir then Inl 21 else Inr (m_drop a m))"

definition m_rmdir :: "string list \<Rightarrow> mem \<Rightarrow> int + (string list \<times> kind) list" where
  "m_rmdir a m =
     (if m_tree m a \<noteq> Some Dir then Inl 20
      else if list_ex (\<lambda>(x, _). strict_prefix a x) (m_files m) then Inl 39
      else Inr (m_drop a m))"

definition m_look :: "string list \<Rightarrow> mem \<Rightarrow> int + (string list \<times> kind) list" where
  "m_look a m = (if m_tree m a = None \<and> a \<noteq> [] then Inl 2 else Inr (m_files m))"

definition on_paths ::
  "nat \<Rightarrow> (string list \<Rightarrow> string list \<Rightarrow> mem \<Rightarrow> int + (string list \<times> kind) list) \<Rightarrow> string \<Rightarrow> string \<Rightarrow> mem call" where
  "on_paths lim act p q m =
     (if lim \<le> length p \<or> lim \<le> length q then (-1, ENAMETOOLONG, m)
      else
        (case act (resolve (m_cwd m) p) (resolve (m_cwd m) q) m of
           Inl e \<Rightarrow> (-1, max 1 e, m)
         | Inr fs \<Rightarrow> (0, 0, m\<lparr>m_files := fs\<rparr>)))"

definition m_link :: "string list \<Rightarrow> string list \<Rightarrow> mem \<Rightarrow> int + (string list \<times> kind) list" where
  "m_link a b m =
     (case m_tree m a of None \<Rightarrow> Inl 2 | Some kd \<Rightarrow> if kd = Dir then Inl 1 else m_make kd b m)"

text \<open>The names \<open>a\<close> and \<open>b\<close> exchanged, with what is below them.\<close>

definition swap_name :: "string list \<Rightarrow> string list \<Rightarrow> string list \<Rightarrow> string list" where
  "swap_name a b x = (if prefix a x then b @ drop (length a) x
     else if prefix b x then a @ drop (length b) x else x)"

definition m_rename :: "string list \<Rightarrow> string list \<Rightarrow> mem \<Rightarrow> int + (string list \<times> kind) list" where
  "m_rename a b m =
     (if m_tree m a = None then Inl 2
      else if m_tree m b \<noteq> None then Inl 17
      else if prefix a b \<or> prefix b a then Inl 22
      else if \<not> is_dir m (butlast b) then Inl 2
      else Inr (map (\<lambda>(x, kd). (swap_name a b x, kd)) (filter (\<lambda>(x, _). \<not> prefix b x) (m_files m))))"

definition m_whiteout :: "string list \<Rightarrow> string list \<Rightarrow> mem \<Rightarrow> int + (string list \<times> kind) list" where
  "m_whiteout a b m = (case m_rename a b m of Inl e \<Rightarrow> Inl e | Inr fs \<Rightarrow> Inr ((a, Dev) # fs))"

definition m_exchange :: "string list \<Rightarrow> string list \<Rightarrow> mem \<Rightarrow> int + (string list \<times> kind) list" where
  "m_exchange a b m =
     (if m_tree m a = None \<or> m_tree m b = None then Inl 2
      else if strict_prefix a b \<or> strict_prefix b a then Inl 22
      else Inr (map (\<lambda>(x, kd). (swap_name a b x, kd)) (m_files m)))"

definition m_chdir :: "nat \<Rightarrow> string \<Rightarrow> mem call" where
  "m_chdir lim p m =
     (if p = [] then (-1, 2, m)
      else if lim \<le> length p then (-1, ENAMETOOLONG, m)
      else if p = ''..'' \<or> is_dir m (resolve (m_cwd m) p) then (0, 0, m\<lparr>m_cwd := resolve (m_cwd m) p\<rparr>)
      else (-1, 2, m))"

definition m_random :: "mem \<Rightarrow> int \<times> mem" where
  "m_random m = (let x = (m_seed m * 13 + 7) mod 256 in (x, m\<lparr>m_seed := x\<rparr>))"

definition mem_calls :: "nat \<Rightarrow> mem name_calls" where
  "mem_calls lim = \<lparr>
     c_chdir = m_chdir lim,
     c_creat = \<lambda>_. on_path lim m_creat,
     c_mkdir = \<lambda>_. on_path lim (m_make Dir),
     c_mknod = \<lambda>_ _. on_path lim (m_make Dev),
     c_symlink = \<lambda>_. on_path lim (m_make Sym),
     c_unlink = on_path lim m_unlink,
     c_rmdir = on_path lim m_rmdir,
     c_link = on_paths lim m_link,
     c_rename = on_paths lim m_rename,
     c_renameat2 = \<lambda>m. on_paths lim (if m = RENAME_EXCHANGE then m_exchange
       else if m = RENAME_WHITEOUT then m_whiteout else m_rename),
     c_lchown = \<lambda>_ _. on_path lim m_look,
     c_truncate = \<lambda>_. on_path lim m_look,
     c_open = \<lambda>_. on_path lim m_look,
     c_opendir = on_path lim m_look,
     c_stat = on_path lim m_look,
     c_lstat = on_path lim m_look,
     c_readlink = \<lambda>_. on_path lim m_look,
     c_attr_list = on_path lim m_look,
     c_attr_remove = \<lambda>p _. on_path lim m_look p,
     c_attr_set = \<lambda>p _ _. on_path lim m_look p,
     c_setxattr = \<lambda>_ p _ _. on_path lim m_look p,
     c_getxattr = \<lambda>_ p _. on_path lim m_look p,
     c_removexattr = \<lambda>p _. on_path lim m_look p,
     c_random = m_random\<rparr>"

section \<open>It is a name space\<close>

lemma on_path_acts:
  assumes "\<And>a m fs. act a m = Inr fs \<Longrightarrow> E a (m_tree m) (map_of fs)"
  shows "acts m_cwd m_tree (on_path lim act) E"
  using assms by (auto simp: acts_def on_path_def m_tree_def split: if_splits sum.splits)

lemma on_paths_acts:
  assumes "\<And>a b m fs. act a b m = Inr fs \<Longrightarrow> E a b (m_tree m) (map_of fs)"
  shows "acts2 m_cwd m_tree (on_paths lim act) E"
  using assms by (auto simp: acts2_def on_paths_def m_tree_def split: if_splits sum.splits)

lemma map_of_filter: "map_of (filter (\<lambda>(x, _). P x) fs) x = (if P x then map_of fs x else None)"
  by (induction fs) auto

lemma map_of_map_key:
  assumes "\<And>x. g x = y \<longleftrightarrow> x = h y"
  shows "map_of (map (\<lambda>(x, kd). (g x, kd)) fs) y = map_of fs (h y)"
proof (induction fs)
  case (Cons f fs)
  then show ?case using assms[of "fst f"] by (cases f) auto
qed simp

lemma swap_name_swap:
  assumes "\<not> strict_prefix a b" and "\<not> strict_prefix b a"
  shows "swap_name a b (swap_name a b x) = x"
proof (cases "a = b")
  case True
  then show ?thesis by (auto simp: swap_name_def prefix_def)
next
  case False
  then have ab: "\<not> prefix a b" "\<not> prefix b a" using assms by (auto simp: strict_prefix_def)
  have "\<not> prefix a (b @ z)" for z using ab prefix_same_cases[of a "b @ z" b] by auto
  then show ?thesis by (auto simp: swap_name_def prefix_def)
qed

lemma map_of_swap_name:
  assumes "\<not> strict_prefix a b" and "\<not> strict_prefix b a"
  shows "map_of (map (\<lambda>(x, kd). (swap_name a b x, kd)) fs) y = map_of fs (swap_name a b y)"
  using swap_name_swap[OF assms] by (intro map_of_map_key) metis

lemma swap_tree_name: "swap_tree a b t x = t (swap_name a b x)"
  by (simp add: swap_tree_def swap_name_def)

lemma m_make_acts: "m_make kd a m = Inr fs \<Longrightarrow> makes kd a (m_tree m) (map_of fs)"
  by (auto simp: m_make_def makes_def m_tree_def split: if_splits)

lemma m_drop_tree: "map_of (m_drop a m) = (m_tree m)(a := None)"
  by (rule ext) (auto simp: m_drop_def m_tree_def map_of_filter)

lemma m_rmdir_acts: "m_rmdir a m = Inr fs \<Longrightarrow> removes_dir a (m_tree m) (map_of fs)"
proof -
  assume r: "m_rmdir a m = Inr fs"
  then have "m_tree m y = None" if "strict_prefix a y" for y
    using that map_of_SomeD[of "m_files m" y] by (cases "m_tree m y") (auto simp: m_rmdir_def list_ex_iff m_tree_def split: if_splits)
  then show ?thesis using r m_drop_tree by (auto simp: m_rmdir_def removes_dir_def split: if_splits)
qed

lemma m_rename_acts:
  assumes "m_rename a b m = Inr fs"
  shows "\<not> prefix a b \<and> map_of fs = move_tree a b (m_tree m)"
proof -
  have ab: "\<not> prefix a b" "\<not> prefix b a" and
    fs: "fs = map (\<lambda>(x, kd). (swap_name a b x, kd)) (filter (\<lambda>(x, _). \<not> prefix b x) (m_files m))"
    using assms by (auto simp: m_rename_def split: if_splits)
  have s: "\<not> strict_prefix a b" "\<not> strict_prefix b a" using ab by (auto simp: strict_prefix_def)
  have par: "\<not> prefix b (a @ z)" "\<not> prefix a (b @ z)" for z
    using ab prefix_same_cases[of b "a @ z" a] prefix_same_cases[of a "b @ z" b] by auto
  have "map_of fs x = move_tree a b (m_tree m) x" for x
    unfolding fs map_of_swap_name[OF s] map_of_filter
    using par by (auto simp: move_tree_def swap_name_def m_tree_def prefix_def)
  then show ?thesis using ab by auto
qed

lemma m_exchange_acts: "m_exchange a b m = Inr fs \<Longrightarrow> exchanges a b (m_tree m) (map_of fs)"
  by (auto simp: m_exchange_def exchanges_def m_tree_def map_of_swap_name swap_tree_name fun_eq_iff split: if_splits)

lemma m_look_acts: "m_look a m = Inr fs \<Longrightarrow> leaves a (m_tree m) (map_of fs)"
  by (auto simp: m_look_def leaves_def m_tree_def split: if_splits)

lemma m_look_path: "acts m_cwd m_tree (on_path lim m_look) leaves"
  by (rule on_path_acts) (rule m_look_acts)

lemma mem_namespace:
  assumes "2 < lim"
  shows "namespace (mem_calls lim) m_cwd m_tree"
proof
  fix p k r e k' assume "c_chdir (mem_calls lim) p k = (r, e, k')"
  then show "r \<le> 0 \<and> m_tree k' = m_tree k \<and> (if r = 0 then p \<noteq> [] \<and> m_cwd k' = resolve (m_cwd k) p else m_cwd k' = m_cwd k \<and> e \<noteq> 0)"
    by (auto simp: mem_calls_def m_chdir_def m_tree_def split: if_splits)
next
  fix k show "fst (c_chdir (mem_calls lim) ''..'' k) = 0"
    using assms by (simp add: mem_calls_def m_chdir_def)
next
  fix k r k' assume "c_random (mem_calls lim) k = (r, k')"
  then show "0 \<le> r \<and> m_cwd k' = m_cwd k \<and> m_tree k' = m_tree k"
    by (auto simp: mem_calls_def m_random_def m_tree_def Let_def)
next
  fix m val show "acts m_cwd m_tree (c_creat (mem_calls lim) m) creates"
    "acts m_cwd m_tree (c_mkdir (mem_calls lim) m) (makes Dir)"
    "acts m_cwd m_tree (c_mknod (mem_calls lim) CHR_0444 0) (makes Dev)"
    "acts m_cwd m_tree (c_symlink (mem_calls lim) val) (makes Sym)"
    unfolding mem_calls_def using m_make_acts
    by (auto intro!: on_path_acts simp: m_creat_def creates_def makes_def split: if_splits)
next
  show "acts m_cwd m_tree (c_unlink (mem_calls lim)) unlinks"
    unfolding mem_calls_def using m_drop_tree
    by (auto intro!: on_path_acts simp: m_unlink_def unlinks_def split: if_splits)
  show "acts m_cwd m_tree (c_rmdir (mem_calls lim)) removes_dir"
    unfolding mem_calls_def using m_rmdir_acts by (auto intro!: on_path_acts)
  show "acts2 m_cwd m_tree (c_link (mem_calls lim)) links"
    unfolding mem_calls_def using m_make_acts
    by (auto intro!: on_paths_acts simp: m_link_def links_def makes_def split: if_splits option.splits)
  show "acts2 m_cwd m_tree (c_rename (mem_calls lim)) renames"
    "acts2 m_cwd m_tree (c_renameat2 (mem_calls lim) RENAME_NOREPLACE) renames"
    unfolding mem_calls_def using m_rename_acts by (auto intro!: on_paths_acts simp: renames_def)
  show "acts2 m_cwd m_tree (c_renameat2 (mem_calls lim) RENAME_EXCHANGE) exchanges"
    unfolding mem_calls_def using m_exchange_acts by (auto intro!: on_paths_acts)
  show "acts2 m_cwd m_tree (c_renameat2 (mem_calls lim) RENAME_WHITEOUT) whites_out"
    unfolding mem_calls_def using m_rename_acts
    by (auto intro!: on_paths_acts simp: whites_out_def m_whiteout_def split: sum.splits)
qed (use m_look_path in \<open>simp_all add: mem_calls_def\<close>)

section \<open>Its files\<close>

text \<open>
  Every file has 100000 bytes in blocks of 4096 that nothing changes, and every request on it is
  carried out in full; \<open>XFS_IOC_DIOINFO\<close> is not known.
\<close>

definition mem_stat :: fd_stat where
  "mem_stat = \<lparr>st_size = 100000, st_blksize = 4096, st_ino = 7\<rparr>"

definition mem_io :: "mem io_calls" where
  "mem_io = \<lparr>
     io_req = \<lambda>_ _ m. (0, m),
     io_fstat = \<lambda>_ m. ((0, mem_stat), m),
     io_dioinfo = \<lambda>_ m. ((-1, 0, 0), m),
     io_submit = \<lambda>_ _ m. (1, m),
     io_getevents = \<lambda>m. (1, m),
     io_mmap = \<lambda>_ _ _ _ _ m. (True, m),
     io_load = \<lambda>_ m. (True, m),
     io_store = \<lambda>_ _ m. (True, m),
     io_munmap = \<lambda>m. (0, m),
     io_copy = \<lambda>_ off1 _ off2 n m. ((n, off1 + n, off2 + n), m),
     io_pipe = \<lambda>m. (0, m),
     io_to_pipe = \<lambda>_ off n m. ((n, off + n), m),
     io_from_pipe = \<lambda>_ off n m. ((n, off + n), m),
     io_close_pipe = \<lambda>m. (0, m),
     io_readdir = \<lambda>_ m. (False, m),
     io_closedir = \<lambda>_ m. (0, m),
     io_bulkstat = \<lambda>_ _ m. ((0, 0), m),
     io_sync = \<lambda>m. (0, m),
     io_listxattr = \<lambda>_ _ m. (0, m),
     io_statbuf = \<lambda>_. mem_stat,
     io_cursor = \<lambda>m. (0, m),
     io_attrs = \<lambda>_. ([], False)\<rparr>"

definition mem_env :: io_env where
  "mem_env = \<lparr>idmodulo = 31, attr_mask = 4294967295, maxfsize = 9223372036854775807, page_size = 4096, dio_env = None\<rparr>"

lemma mem_file_io:
  assumes "2 < lim"
  shows "file_io (mem_calls lim) m_cwd m_tree mem_io"
  unfolding file_io_def file_io_axioms_def
  using mem_namespace[OF assms]
  by (simp add: mem_calls_def m_look_path mem_io_def io_still_def still_def mem_stat_def)

lemma mem_no_traps: "no_traps mem_io mem_env P"
  by (simp add: no_traps_def mem_io_def mem_env_def dio_env_ok_def)

text \<open>An empty directory and empty tables.\<close>

definition sample_fss :: "mem fss" where
  "sample_fss = \<lparr>flists = (\<lambda>_. \<lparr>fents = [], nslots = 0\<rparr>), dcache = replicate NDCACHE (-1), nameseq = 0,
     namerand = 0, ilist = [], verbose = False, rtpct = 0,
     kern = \<lparr>m_cwd = [], m_files = [], m_seed = 31\<rparr>\<rparr>"

text \<open>A path of 16 characters is too long.\<close>

interpretation mem_tree: namespace "mem_calls 16" m_cwd m_tree
  by (rule mem_namespace) simp

interpretation mem_files: file_io "mem_calls 16" m_cwd m_tree mem_io
  by (rule mem_file_io) simp

end
