(* ===== verification/Fss_Claims.thy ===== *)
theory Fss_Claims
  imports Mem_Tree
begin

text \<open>
  The properties of \<open>fsstress\<close>, each with a run in the tree in memory or a value that it is applied
  to.
\<close>

section \<open>The tables and the directory tree\<close>

definition sample_cfg :: proc_cfg where
  "sample_cfg = \<lparr>operations = 2, procid = 0, execute_cmd = False, execute_freq = 1, errtag = 0, cleanup = False\<rparr>"

definition sample_tbl :: "opty list" where
  "sample_tbl = [OP_MKDIR, OP_CREAT, OP_MKDIR, OP_RENAME, OP_LINK, OP_UNLINK, OP_CREAT, OP_RMDIR,
     OP_REXCHANGE, OP_RWHITEOUT, OP_MKNOD]"

abbreviation sample_run :: "(mem, int list) fss_run" where
  "sample_run \<equiv> doproc_run (mem_calls 16) id (op_func (mem_calls 16) mem_io mem_env)
     sample_cfg sample_tbl sample_fss"

text \<open>
  C3 (refinement). A process of \<open>fsstress\<close> never loses track of its files, whatever operations of its table it
  runs and however many, and whichever calls on names and descriptors fail. It starts with empty tables in a
  directory in which its own one does not exist yet. The laws of \<open>file_io\<close> and \<open>no_traps\<close> exclude the failures
  that end the program: \<open>chdir("..")\<close> below the root does not fail, \<open>fstat64\<close> and \<open>XFS_IOC_DIOINFO\<close> report
  block sizes that are not 0, neither the modulus of the user ids (\<open>-m\<close>) nor \<open>XFS_DIO_MIN\<close> is 0, and, if the
  table has the operations, \<open>pipe\<close> succeeds for \<open>splice\<close> and the pages that \<open>mread\<close> has mapped can be read.
  The interval between two executions of the command of \<open>-x\<close> is not 0, and the command does not touch the
  files. Then the process ends with status 1 because it cannot enter its directory, or
  waits for ever in one of the operations whose loops the kernel or the random numbers decide about, or
  comes to the end of its operations without a fault, a failed assertion or another search that does
  not end, in the directory it made, and there the tables and the directory tree agree: every entry leads, by the
  names of its parents, to a file of its type, every file in the directory is that of an entry, no
  number is used twice, and the cache of directories points to what it says.
\<close>

theorem process_mirrors_tree:
  assumes "file_io K cwd tree I" and "empty_tables st"
    and "\<And>x. x \<noteq> [] \<Longrightarrow> tree (kern st) (cwd (kern st) @ proc_dir c # x) = None"
    and "operations c \<le> 2147483647" and "no_traps I env (set tbl)" and "tbl \<noteq> []"
    and "exec_dividend c = Some dividend" and "execute_cmd c \<longrightarrow> dividend \<noteq> 0"
    and "\<And>k. execute_cmd c \<Longrightarrow> cwd (sys k) = cwd k \<and> tree (sys k) = tree k"
  shows "case doproc_run K sys (op_func K I env) c tbl st of
      Inl (h, _) \<Rightarrow> h = Exit 1 \<or> h = Hang \<and> (\<exists>p \<in> set tbl. p \<in> looping)
    | Inr (_, st1) \<Rightarrow> settled cwd tree (cwd (kern st) @ [proc_dir c]) st1"
  using file_io.doproc_run_ok[OF assms(1,2,3) _ assms(5-9)] assms(4)
  by (auto simp: loops_def)

theorem process_mirrors_tree_witness:
  "\<exists>xs st. sample_run = Inr (xs, st) \<and> settled m_cwd m_tree [''p0''] st
     \<and> map (\<lambda>ft. map (\<lambda>e. (fid e, parent e)) (files st ft)) all_ftypes
         = [[(0, -1)], [(1, 0)], [], [], []]"
proof -
  have "case sample_run of Inl (h, _) \<Rightarrow> h = Exit 1 \<or> h = Hang \<and> (\<exists>p \<in> set sample_tbl. p \<in> looping)
      | Inr (_, st1) \<Rightarrow> settled m_cwd m_tree (m_cwd (kern sample_fss) @ [proc_dir sample_cfg]) st1"
  proof (rule process_mirrors_tree[OF mem_file_io])
    show "empty_tables sample_fss" by (simp add: empty_tables_def sample_fss_def files_def)
    show "m_tree (kern sample_fss) (m_cwd (kern sample_fss) @ proc_dir sample_cfg # x) = None" for x
      by (simp add: m_tree_def sample_fss_def)
    show "exec_dividend sample_cfg = Some 1" by code_simp
  qed (simp_all add: sample_cfg_def sample_tbl_def mem_no_traps)
  moreover have "case sample_run of Inl _ \<Rightarrow> False | Inr (_, st) \<Rightarrow>
      map (\<lambda>ft. map (\<lambda>e. (fid e, parent e)) (files st ft)) all_ftypes
         = [[(0, -1)], [(1, 0)], [], [], []]"
    by code_simp
  moreover have "m_cwd (kern sample_fss) @ [proc_dir sample_cfg] = [''p0'']" by code_simp
  ultimately show ?thesis by (simp split: sum.splits prod.splits)
qed

text \<open>
  C29 (functional). \<open>rename_path\<close> on two paths of names of any length has the effect of the rename the kernel
  would make on the whole paths, for each of the four modes, or no effect and an error number; and the
  working directory is that of before, however far it went down one path or the other on the way.
\<close>

theorem rename_path_acts:
  assumes "namespace K cwd tree" and "p \<noteq> []" and "q \<noteq> []"
    and "mode \<in> {0, RENAME_NOREPLACE, RENAME_EXCHANGE, RENAME_WHITEOUT}"
  shows "\<exists>r e k1. rename_path K (joined (names nr p)) (joined (names nr q)) mode k = Inr ((r, e), k1)
    \<and> cwd k1 = cwd k
    \<and> (if 0 \<le> r then rename_effect mode (cwd k @ names nr p) (cwd k @ names nr q) (tree k) (tree k1)
       else tree k1 = tree k \<and> e \<noteq> 0)"
  using namespace.rename_call_ok[OF assms(1-3) refl assms(4), of k nr]
  unfolding namespace.outcome_def[OF assms(1)] by blast

definition deep_dirs :: "node list" where
  "deep_dirs = [(FT_DIR, 1), (FT_DIR, 2)]"

definition deep_mem :: mem where
  "deep_mem = \<lparr>m_cwd = [''p0''], m_files = [([''p0''], Dir), ([''p0'', ''d1''], Dir),
     ([''p0'', ''d1'', ''d2''], Dir), ([''p0'', ''d1'', ''d2'', ''f3''], Reg)], m_seed = 1\<rparr>"

text \<open>Paths of 8 characters are too long here, and these have 8: the call is made in \<open>d1\<close>.\<close>

theorem rename_path_acts_witness:
  "\<exists>k1. rename_path (mem_calls 8) ''d1/d2/f3'' ''d1/d2/f4'' 0 deep_mem = Inr ((0, 0), k1)
     \<and> c_rename (mem_calls 8) ''d1/d2/f3'' ''d1/d2/f4'' deep_mem = (-1, ENAMETOOLONG, deep_mem)
     \<and> m_cwd k1 = [''p0''] \<and> renames [''p0'', ''d1'', ''d2'', ''f3''] [''p0'', ''d1'', ''d2'', ''f4''] (m_tree deep_mem) (m_tree k1)"
proof -
  let ?p = "deep_dirs @ [(FT_REG, 3)]" and ?q = "deep_dirs @ [(FT_REG, 4)]"
  let ?run = "rename_path (mem_calls 8) ''d1/d2/f3'' ''d1/d2/f4'' 0 deep_mem"
  have n: "names 0 ?p = [''d1'', ''d2'', ''f3'']" "names 0 ?q = [''d1'', ''d2'', ''f4'']"
    "joined (names 0 ?p) = ''d1/d2/f3''" "joined (names 0 ?q) = ''d1/d2/f4''" "m_cwd deep_mem = [''p0'']"
    by code_simp+
  obtain r e k1 where o: "?run = Inr ((r, e), k1)" "m_cwd k1 = [''p0'']"
    "if 0 \<le> r then rename_effect 0 ([''p0''] @ [''d1'', ''d2'', ''f3'']) ([''p0''] @ [''d1'', ''d2'', ''f4''])
        (m_tree deep_mem) (m_tree k1)
     else m_tree k1 = m_tree deep_mem \<and> e \<noteq> 0"
    using rename_path_acts[OF mem_namespace, of 8 ?p ?q 0 0 deep_mem] unfolding n by auto
  have "case ?run of Inl _ \<Rightarrow> False | Inr ((r, e), k1) \<Rightarrow> r = 0 \<and> e = 0" by code_simp
  moreover have "c_rename (mem_calls 8) ''d1/d2/f3'' ''d1/d2/f4'' deep_mem = (-1, ENAMETOOLONG, deep_mem)"
    by (simp add: mem_calls_def on_paths_def)
  ultimately show ?thesis using o by (auto simp: rename_effect_def)
qed

section \<open>Names and numbers\<close>

text \<open>
  The name of a file fits the buffer of \<open>NAME_MAX\<close> characters, with the random padding and
  without it, and files with different types or numbers have different names.
\<close>

theorem names_distinct_and_short:
  assumes "0 \<le> nr" and "0 \<le> i" and "i \<le> 2147483647" and "0 \<le> j" and "j \<le> 2147483647"
  shows "length (fent_name nr ft i) \<le> 255 \<and> (fent_name nr ft i = fent_name nr g j \<longleftrightarrow> ft = g \<and> i = j)"
  using fent_name_short[OF assms(1,2), of ft] inj_onD[OF node_name_inj[of nr], of "(ft, i)" "(g, j)"] assms
  by (auto simp: node_name_def numbered_def)

theorem names_distinct_and_short_witness:
  "length (fent_name 12345 FT_REG 7) \<le> 255 \<and> (fent_name 12345 FT_REG 7 = fent_name 12345 FT_SYM 7 \<longleftrightarrow> False)
     \<and> 1 < length (fent_name 12345 FT_REG 7)"
proof -
  have "1 < length (fent_name 12345 FT_REG 7)" by code_simp
  then show ?thesis using names_distinct_and_short[of 12345 7 7 FT_REG FT_SYM] by simp
qed

text \<open>
  C30 (equivalence). When the numbers in the tables are unique and the cache holds slots that are in use,
  \<open>dirid_to_fent\<close> finds the slot a search through the list of directories finds, whatever the cache
  holds, and keeps the cache so.
\<close>

theorem dirid_to_fent_searches:
  assumes "uniq st" and "dcache_ok st"
  shows "\<exists>dc. dirid_to_fent d st = Inr (find_slot d 0 (files st FT_DIR), st\<lparr>dcache := dc\<rparr>)
    \<and> dcache_ok (st\<lparr>dcache := dc\<rparr>)"
  using assms by (rule dirid_to_fent_ok)

definition two_dirs :: "mem fss" where
  "two_dirs = dcache_enter 64 1 (add_to_flist FT_DIR 64 (-1) 0 (add_to_flist FT_DIR 3 (-1) 0 sample_fss))"

lemma two_dirs_files: "files two_dirs ft = (if ft = FT_DIR then
    [\<lparr>fid = 3, parent = -1, xattr_counter = 0\<rparr>, \<lparr>fid = 64, parent = -1, xattr_counter = 0\<rparr>] else [])"
  by (simp add: two_dirs_def dcache_enter_def add_to_flist_def sample_fss_def files_def Let_def)

lemma two_dirs_cache: "dcache two_dirs = (replicate NDCACHE (-1))[0 := 1]"
  by (simp add: two_dirs_def dcache_enter_def add_to_flist_def sample_fss_def Let_def dcache_slot_def)

lemma two_dirs_ok: "uniq two_dirs" "dcache_ok two_dirs"
proof -
  show "uniq two_dirs" by (auto simp: uniq_def two_dirs_files)
  show "dcache_ok two_dirs"
    unfolding dcache_ok_def two_dirs_cache
    by (auto simp: two_dirs_files nth_list_update dcache_slot_def)
qed

theorem dirid_to_fent_searches_witness:
  "\<exists>dc. dirid_to_fent 64 two_dirs = Inr (Some 1, two_dirs\<lparr>dcache := dc\<rparr>)"
  using dirid_to_fent_searches[OF two_dirs_ok, of 64] by (auto simp: two_dirs_files)

section \<open>Errors of \<open>fsstress\<close>\<close>

text \<open>
  C31 (error). With \<open>-c\<close> the tables are freed at the end of \<open>doproc\<close>, but not the cache of directories. In
  the next loop (\<open>-l\<close>) a file in the first directory made is looked up through the slot that an old directory with
  the same remainder had: if it was not slot 0, \<open>get_fname\<close> reads a slot that is not in use.
\<close>

theorem next_loop_reads_freed_slot:
  assumes "doproc K sys rm_rf f c tbl st = Inr (xs, st1)" and "cleanup c"
    and "1 \<le> dcache st1 ! dcache_slot d" and "d \<noteq> -1"
  shows "\<exists>st2. get_fname FT_REGm r True (add_to_flist FT_REG i d 0 (add_to_flist FT_DIR d (-1) 0 st1))
    = Inl (Fault, st2)"
proof -
  let ?e = "\<lparr>fid = d, parent = -1, xattr_counter = 0\<rparr>" and ?f = "\<lparr>fid = i, parent = d, xattr_counter = 0\<rparr>"
  let ?st = "add_to_flist FT_REG i d 0 (add_to_flist FT_DIR d (-1) 0 st1)"
  have e: "files st1 ft = []" for ft
    using assms(1,2) unfolding doproc_def on_ok_Inr_iff
    by (auto simp: split_beta files_def cleanup_flist_def split: if_splits)
  have f: "files ?st ft = (if ft = FT_REG then [?f] else if ft = FT_DIR then [?e] else [])" for ft
    by (simp add: files_add e)
  have c: "dcache ?st = dcache st1" by (simp add: add_to_flist_def Let_def)
  have m: "in_mask ft FT_REGm = (ft = FT_REG)" for ft
    by (cases ft) (simp_all add: in_mask_def FT_REGm_def bit_iff_odd)
  have "dcache_lookup d ?st = Inl (Fault, ?st)"
    using assms(3) by (simp add: dcache_lookup_def fent_at_def f c Let_def)
  then have p: "fent_path FT_REG ?f ?st = Some (Inl (Fault, ?st))"
    using assms(4) by (subst fent_path.simps) (simp add: dirid_to_fent_def)
  have "pick_entry ?st FT_REGm all_ftypes 0 = Some (FT_REG, 0)" by (simp add: all_ftypes_def m f)
  moreover have "totalsum ?st FT_REGm = 1" by (simp add: totalsum_def all_ftypes_def m f)
  ultimately show ?thesis using p f[of FT_REG] by (simp add: get_fname_def fent_to_name_def Let_def)
qed

definition cleaned_run :: "(mem, int list) fss_run" where
  "cleaned_run = doproc (mem_calls 16) id (\<lambda>p k. k\<lparr>m_files := []\<rparr>)
     (op_func (mem_calls 16) mem_io mem_env) (sample_cfg\<lparr>operations := 1, cleanup := True\<rparr>) [OP_MKDIR] two_dirs"

text \<open>A loop that starts with two directories known, the second in the cache, and makes one more.\<close>

theorem next_loop_reads_freed_slot_witness:
  "\<exists>xs st1 st2. cleaned_run = Inr (xs, st1)
     \<and> get_fname FT_REGm 0 True (add_to_flist FT_REG 129 128 0 (add_to_flist FT_DIR 128 (-1) 0 st1)) = Inl (Fault, st2)"
proof -
  have "case cleaned_run of Inl _ \<Rightarrow> False | Inr (_, st1) \<Rightarrow> 1 \<le> dcache st1 ! dcache_slot 128" by code_simp
  then obtain xs st1 where run: "cleaned_run = Inr (xs, st1)" and d: "1 \<le> dcache st1 ! dcache_slot 128"
    by (auto split: sum.splits prod.splits)
  show ?thesis
    using next_loop_reads_freed_slot[OF run[unfolded cleaned_run_def] _ d, of 0 129] run by auto
qed

text \<open>
  C32 (functional). When no frequency is negative and their sum fits an int, the table \<open>doproc\<close> chooses from
  has as many slots as the frequencies add up to, and each operation has as many of them as its
  frequency says.
\<close>

theorem choices_match_frequencies:
  assumes "\<forall>p \<in> set tbl. 0 \<le> freq p" and "sum_list (map freq tbl) \<le> 2147483647"
  shows "\<exists>t. make_freq_table tbl = Inr t \<and> int (length t) = sum_list (map freq tbl)
    \<and> (\<forall>x. int (count_list t x) = sum_list (map (\<lambda>p. if op_of p = x then freq p else 0) tbl))"
proof -
  let ?t = "concat (map (\<lambda>p. replicate (nat (freq p)) (op_of p)) tbl)"
  have nn: "0 \<le> sum_list (map freq tbl)" using assms(1) by (intro sum_list_nonneg) auto
  then have "s32 (sum_list (map freq tbl)) = sum_list (map freq tbl)" using assms(2) by (intro s32_id) simp_all
  then have "make_freq_table tbl = Inr ?t"
    using fill_ok[of "[]" tbl "nat (sum_list (map freq tbl))"] sum_nat_freq[OF assms(1)] by (simp add: make_freq_table_def)
  moreover have "int (length ?t) = sum_list (map freq tbl)"
    using sum_nat_freq[OF assms(1)] by (simp add: length_concat comp_def)
  moreover have "int (count_list ?t x) = sum_list (map (\<lambda>p. if op_of p = x then freq p else 0) tbl)" for x
    using assms(1) unfolding count_choices by (induction tbl) auto
  ultimately show ?thesis by blast
qed

theorem choices_match_frequencies_witness:
  "\<exists>t. make_freq_table (write_freq ops) = Inr t \<and> int (length t) = 71 \<and> int (count_list t OP_STAT) = 0
    \<and> int (count_list t OP_RENAME) = 2"
proof -
  have s: "\<forall>p \<in> set (write_freq ops). 0 \<le> freq p" "sum_list (map freq (write_freq ops)) = 71"
    "sum_list (map (\<lambda>p. if op_of p = OP_STAT then freq p else 0) (write_freq ops)) = 0"
    "sum_list (map (\<lambda>p. if op_of p = OP_RENAME then freq p else 0) (write_freq ops)) = 2"
    by (simp_all add: write_freq_def ops_def ops_rows_def)
  then obtain t where t: "make_freq_table (write_freq ops) = Inr t" "int (length t) = 71"
    "\<forall>x. int (count_list t x) = sum_list (map (\<lambda>p. if op_of p = x then freq p else 0) (write_freq ops))"
    using choices_match_frequencies[of "write_freq ops"] by auto
  then show ?thesis using s by (intro exI[of _ t]) simp
qed

text \<open>
  C33 (error). With a negative frequency for one operation (\<open>-f creat=-1\<close>) and a positive one for another,
  \<open>make_freq_table\<close> writes past the end of the table it has allocated.
\<close>

theorem negative_frequency_overruns:
  assumes "p \<in> set tbl" and "freq p < 0" and "q \<in> set tbl" and "0 < freq q"
    and "-2147483648 \<le> sum_list (map freq tbl)" and "sum_list (map freq tbl) \<le> 2147483647"
  shows "make_freq_table tbl = Inl Fault"
proof -
  let ?n = "nat (sum_list (map freq tbl))" and ?w = "sum_list (map (\<lambda>p. nat (freq p)) tbl)"
  have "nat (freq q) \<le> ?w" using assms(3) by (intro member_le_sum_list) auto
  then have "0 < ?w" using assms(4) by simp
  moreover have "sum_list (map freq tbl) < int ?w" by (rule sum_nat_freq_less[OF assms(1,2)])
  ultimately have "?n < ?w" by linarith
  moreover have "s32 (sum_list (map freq tbl)) = sum_list (map freq tbl)" using assms(5,6) by (intro s32_id) simp_all
  ultimately show ?thesis by (simp add: make_freq_table_def fill_overflow)
qed

definition creat_minus_1 :: "opdesc list" where
  "creat_minus_1 = (case process_freq ''creat=-1'' ops of Inl _ \<Rightarrow> [] | Inr tbl \<Rightarrow> tbl)"

theorem negative_frequency_overruns_witness:
  "process_freq ''creat=-1'' ops = Inr creat_minus_1 \<and> make_freq_table creat_minus_1 = Inl Fault"
proof -
  let ?p = "\<lparr>op_of = OP_CREAT, op_name = ''creat'', freq = -1, iswrite = True\<rparr>"
  let ?q = "\<lparr>op_of = OP_WRITE, op_name = ''write'', freq = 4, iswrite = True\<rparr>"
  have "case process_freq ''creat=-1'' ops of Inl _ \<Rightarrow> False | Inr tbl \<Rightarrow> True" by code_simp
  then have "process_freq ''creat=-1'' ops = Inr creat_minus_1" by (auto simp: creat_minus_1_def split: sum.splits)
  moreover have "?p \<in> set creat_minus_1" "?q \<in> set creat_minus_1" by code_simp+
  moreover have "sum_list (map freq creat_minus_1) = 83" by code_simp
  ultimately show ?thesis using negative_frequency_overruns[of ?p creat_minus_1 ?q] by simp
qed

text \<open>
  C34 (bounds). When the number of operations (\<open>-n\<close>) and that of executions (\<open>-X\<close>) have a sum in \<open>int\<close>, a process
  that runs to the end of its operations, without \<open>-e\<close>, has executed the command of \<open>-x\<close> before the operations
  whose number is a multiple of \<open>dividend\<close>, the first excepted: at most as many times as \<open>-X\<close> asks for.
\<close>

theorem command_runs_at_most:
  assumes "op_loop K sys f c dividend tbl (nat (operations c)) 0 st = Inr (xs, st1)" and "errtag c = 0"
    and "execute_cmd c" and "0 \<le> execute_freq c" and "1 \<le> operations c" and "exec_dividend c = Some dividend"
    and "operations c + execute_freq c \<le> 2147483647"
  shows "xs = filter (\<lambda>i. i mod dividend = 0) [1..operations c - 1]
    \<and> int (length xs) = (operations c - 1) div dividend \<and> int (length xs) \<le> execute_freq c"
proof -
  let ?n = "operations c" and ?f = "execute_freq c"
  have d: "dividend = (?n + ?f) div (?f + 1)"
    using assms(4-7) by (simp add: exec_dividend_def Let_def s32_id c_div_nonneg split: if_splits)
  have "?n + ?f = dividend * (?f + 1) + (?n + ?f) mod (?f + 1)" unfolding d by (rule div_mult_mod_eq[symmetric])
  moreover have "(?n + ?f) mod (?f + 1) < ?f + 1" using assms(4) by (intro pos_mod_bound) simp
  ultimately have n: "?n - 1 < dividend * (?f + 1)" by linarith
  have d0: "0 < dividend"
  proof (rule ccontr)
    assume "\<not> 0 < dividend"
    then have "dividend * (?f + 1) \<le> 0" using assms(4) by (simp add: mult_nonpos_nonneg)
    then show False using n assms(5) by simp
  qed
  have "[0..?n - 1] = 0 # [1..?n - 1]" using assms(5) by (subst upto.simps) simp
  moreover have "filter (due c dividend) [1..?n - 1] = filter (\<lambda>i. i mod dividend = 0) [1..?n - 1]"
    using assms(3) by (intro filter_cong) (auto simp: due_def)
  ultimately have xs: "xs = filter (\<lambda>i. i mod dividend = 0) [1..?n - 1]"
    using op_loop_ran[OF assms(1,2)] assms(5) by (simp add: due_def)
  moreover have len: "int (length xs) = (?n - 1) div dividend"
    using upto_multiples[OF d0, of "nat (?n - 1)"] assms(5) d0 unfolding xs by (simp add: pos_imp_zdiv_nonneg_iff)
  moreover have "(?n - 1) div dividend < ?f + 1"
  proof (rule ccontr)
    assume "\<not> (?n - 1) div dividend < ?f + 1"
    then have "dividend * (?f + 1) \<le> dividend * ((?n - 1) div dividend)" using d0 by (intro mult_left_mono) simp_all
    moreover have "dividend * ((?n - 1) div dividend) \<le> ?n - 1"
      using d0 pos_mod_sign[of dividend "?n - 1"] mult_div_mod_eq[of dividend "?n - 1"] by linarith
    ultimately show False using n by linarith
  qed
  ultimately show ?thesis by linarith
qed

definition exec_cfg :: proc_cfg where
  "exec_cfg = \<lparr>operations = 10, procid = 0, execute_cmd = True, execute_freq = 3, errtag = 0, cleanup = False\<rparr>"

text \<open>Ten operations and three executions asked for: they are after the operations 3, 6 and 9.\<close>

theorem command_runs_at_most_witness:
  "\<exists>xs st1. op_loop (mem_calls 16) id (op_func (mem_calls 16) mem_io mem_env) exec_cfg 3 [OP_STAT] 10 0 sample_fss
      = Inr (xs, st1) \<and> xs = [3, 6, 9] \<and> int (length xs) \<le> 3"
proof -
  let ?run = "op_loop (mem_calls 16) id (op_func (mem_calls 16) mem_io mem_env) exec_cfg 3 [OP_STAT] 10 0 sample_fss"
  have "case ?run of Inl _ \<Rightarrow> False | Inr _ \<Rightarrow> True" by code_simp
  then obtain xs st1 where run: "?run = Inr (xs, st1)" by (auto split: sum.splits prod.splits)
  have "exec_dividend exec_cfg = Some 3" by code_simp
  moreover have "filter (\<lambda>i. i mod 3 = 0) [1..(9::int)] = [3, 6, 9]" by code_simp
  ultimately show ?thesis
    using command_runs_at_most[of "mem_calls 16" id _ exec_cfg 3 "[OP_STAT]" sample_fss xs st1] run
    by (auto simp: exec_cfg_def)
qed

text \<open>
  Where the sums wrap: with \<open>-n 10 -X 2147483647\<close> the interval is 0, and the process traps before its second
  operation; with \<open>-n 2147483647 -X 1000\<close> it is negative, and the command is executed once more than
  asked for.
\<close>

lemma dividend_wraps:
  "exec_dividend (exec_cfg\<lparr>execute_freq := 2147483647\<rparr>) = Some 0"
  "exec_dividend (exec_cfg\<lparr>operations := 2147483647, execute_freq := 1000\<rparr>) = Some (-2145337)"
  "(2147483647 - 1) div 2145337 = (1001 :: int)"
  by code_simp+

lemma zero_dividend_traps:
  "execute_cmd c \<Longrightarrow> opno \<noteq> 0 \<Longrightarrow> op_loop K sys f c 0 tbl (Suc n) opno st = Inl (Fault, st)"
  by simp

end
