(* ===== verification/Fss_Ranges_Ok.thy ===== *)
theory Fss_Ranges_Ok
  imports Fss_Ranges
begin

text \<open>
  Where the ranges lie that \<open>fsstress\<close> draws, for random numbers that are not negative and block sizes
  that are powers of two.
\<close>

section \<open>Mapped ranges\<close>

lemma map_range_ok:
  assumes "pow2 page" and "0 < sz" and "0 \<le> lr" and "0 \<le> x" and "map_range page sz lr x = (off, len)"
  shows "page dvd off" "0 \<le> off" "0 < len" "off + len \<le> sz" "len \<le> FILELEN_MAX"
proof -
  note p = pow2_pos[OF assms(1)]
  have off: "off = round_down (lr mod sz) page" and len: "len = x mod min (sz - off) FILELEN_MAX + 1"
    using assms(5) by (auto simp: map_range_def mask_down[OF assms(1)] Let_def)
  have "0 \<le> lr mod sz" "lr mod sz < sz" using assms(2) by simp_all
  then have o: "0 \<le> off" "off < sz" "page dvd off"
    unfolding off using round_down_le[OF p] round_down_nonneg[OF p] round_down_dvd[of page] by (force intro: le_less_trans)+
  then have "0 < min (sz - off) FILELEN_MAX" by simp
  from pos_mod_bound[OF this, of x] pos_mod_sign[OF this, of x] o
  show "page dvd off" "0 \<le> off" "0 < len" "off + len \<le> sz" "len \<le> FILELEN_MAX" by (simp_all add: len)
qed

section \<open>Direct requests\<close>

lemma round_by_mod: "0 < a \<Longrightarrow> off - off mod a = round_down off a" for off :: int
  by (simp add: round_down_def minus_mod_eq_mult_div)

lemma dio_off_ok:
  assumes "0 < align" and "0 < bound"
  shows "align dvd dio_off align bound lr" "0 \<le> dio_off align bound lr" "dio_off align bound lr < bound"
  using round_down_dvd[of align "lr mod bound"] round_down_nonneg[OF assms(1), of "lr mod bound"]
    round_down_le[OF assms(1), of "lr mod bound"] pos_mod_bound[OF assms(2), of lr] pos_mod_sign[OF assms(2), of lr]
  by (simp_all add: dio_off_def Let_def minus_mod_eq_mult_div mult.commute round_down_def)

lemma dio_len_ok:
  assumes "0 < align" and "align dvd maxio" and "0 < maxio"
  shows "align dvd dio_len align maxio x" "0 < dio_len align maxio x" "dio_len align maxio x \<le> maxio"
proof -
  have "align \<le> maxio" using assms by (simp add: zdvd_imp_le)
  moreover have "align dvd some_len x - some_len x mod align" by (simp add: minus_mod_eq_mult_div)
  ultimately show "align dvd dio_len align maxio x" "0 < dio_len align maxio x" "dio_len align maxio x \<le> maxio"
    using assms by (auto simp: dio_len_def Let_def)
qed

lemma dio_write_off_ok:
  assumes "0 < align" and "0 \<le> sz" and "sz + 1048576 \<le> maxfsize"
  shows "dio_write_off maxfsize align sz lr = dio_off align (min (sz + 1048576) MAXFSIZE) lr"
proof -
  have "0 < min (sz + 1048576) MAXFSIZE" using assms(2) by simp
  from dio_off_ok[OF assms(1) this, of lr] assms(3) show ?thesis by (simp add: dio_write_off_def)
qed

section \<open>Ranges to clone\<close>

lemma clone_len_ok:
  assumes "pow2 blksize" and "0 \<le> sz" and "0 \<le> x"
  shows "0 \<le> clone_len blksize sz x" "clone_len blksize sz x \<le> sz" "0 < sz \<longrightarrow> 0 < clone_len blksize sz x"
    "clone_len blksize sz x < sz \<Longrightarrow> blksize dvd clone_len blksize sz x"
proof -
  note p = pow2_pos[OF assms(1)]
  have "0 \<le> round_down (some_len x) blksize" using round_down_nonneg[OF p] by (simp add: some_len_def)
  then show "0 \<le> clone_len blksize sz x" "clone_len blksize sz x \<le> sz" "0 < sz \<longrightarrow> 0 < clone_len blksize sz x"
    "clone_len blksize sz x < sz \<Longrightarrow> blksize dvd clone_len blksize sz x"
    using assms(2) p round_down_dvd[of blksize "some_len x"] by (auto simp: clone_len_def mask_down[OF assms(1)] Let_def)
qed

lemma source_off_ok:
  assumes "0 \<le> len" and "len \<le> sz" and "0 < maxfsize" and "0 \<le> lr"
  shows "0 \<le> source_off maxfsize sz len lr" "source_off maxfsize sz len lr + len \<le> sz"
proof -
  let ?a = "if sz = len then 0 else lr mod min (sz - len) MAXFSIZE"
  have a: "0 \<le> ?a \<and> ?a + len \<le> sz"
  proof (cases "sz = len")
    case False
    then have "0 < min (sz - len) MAXFSIZE" using assms(2) by simp
    from pos_mod_bound[OF this, of lr] pos_mod_sign[OF this, of lr] show ?thesis using False by auto
  qed simp
  moreover have "?a mod maxfsize \<le> ?a" using a by (intro zmod_le_nonneg_dividend) simp
  ultimately show "0 \<le> source_off maxfsize sz len lr" "source_off maxfsize sz len lr + len \<le> sz"
    using assms(3) unfolding source_off_def by (simp_all only: pos_mod_sign) linarith+
qed

lemma block_source_off_ok:
  assumes "pow2 blksize" and "0 \<le> len" and "len \<le> sz" and "0 < maxfsize" and "0 \<le> lr"
  shows "blksize dvd block_source_off maxfsize blksize sz len lr" "0 \<le> block_source_off maxfsize blksize sz len lr"
    "block_source_off maxfsize blksize sz len lr + len \<le> sz"
  using source_off_ok[OF assms(2-5)] pow2_pos[OF assms(1)] round_down_dvd[of blksize "source_off maxfsize sz len lr"]
    round_down_nonneg[of blksize "source_off maxfsize sz len lr"] round_down_le[of blksize "source_off maxfsize sz len lr"]
  by (simp_all add: block_source_off_def mask_down[OF assms(1)])

lemma dest_place_ok:
  assumes "pow2 blksize" and "0 < limit"
  shows "blksize dvd dest_off limit bound lr AND NOT (blksize - 1)" "0 \<le> dest_off limit bound lr AND NOT (blksize - 1)"
    "dest_off limit bound lr AND NOT (blksize - 1) < limit"
proof -
  note p = pow2_pos[OF assms(1)]
  have "0 \<le> dest_off limit bound lr" "dest_off limit bound lr < limit" using assms(2) by (simp_all add: dest_off_def)
  then show "blksize dvd dest_off limit bound lr AND NOT (blksize - 1)" "0 \<le> dest_off limit bound lr AND NOT (blksize - 1)"
    "dest_off limit bound lr AND NOT (blksize - 1) < limit"
    using round_down_le[OF p] round_down_nonneg[OF p] round_down_dvd[of blksize]
    by (simp_all add: mask_down[OF assms(1)]) (force intro: le_less_trans)
qed

text \<open>The block after the source is one of the destinations.\<close>

lemma far_dest:
  assumes "pow2 blksize" and "0 \<le> off1" and "0 \<le> len" and "off1 + len \<le> sz" and "sz + 1024 * blksize \<le> maxfsize"
    and "maxfsize \<le> MAXFSIZE"
  obtains lr where "0 \<le> lr" "\<not> too_near off1 (dest_off maxfsize (dest_bound blksize sz) lr AND NOT (blksize - 1)) len"
proof
  note p = pow2_pos[OF assms(1)]
  let ?lr = "off1 + len + blksize - 1"
  show "0 \<le> ?lr" using assms p by simp
  have "dest_off maxfsize (dest_bound blksize sz) ?lr = ?lr" using assms p by (simp add: dest_off_def dest_bound_def min_def)
  moreover have "off1 + len \<le> round_down ?lr blksize" using round_down_gt[OF p, of ?lr] by simp
  ultimately show "\<not> too_near off1 (dest_off maxfsize (dest_bound blksize sz) ?lr AND NOT (blksize - 1)) len"
    by (simp add: too_near_def mask_down[OF assms(1)])
qed

end
