(* ===== verification/Fss_Io_Claims.thy ===== *)
theory Fss_Io_Claims
  imports Mem_Tree Fss_Ranges_Ok
begin

text \<open>
  The properties of the operations of \<open>fsstress\<close> on contents: what they ask of the kernel, and when
  the copying ends.
\<close>

section \<open>Which requests are made\<close>

text \<open>
  A kernel that does something else, \<open>g\<close>, when a request is not among the \<open>fine\<close> ones. If it makes no
  difference to an operation, whatever \<open>g\<close> is, the operation makes no other requests.
\<close>

definition fence ::
  "(fd_req \<Rightarrow> int \<Rightarrow> bool) \<Rightarrow> (fd_req \<Rightarrow> int \<Rightarrow> 'k \<Rightarrow> int \<times> 'k) \<Rightarrow> 'k io_calls \<Rightarrow> 'k io_calls" where
  "fence fine g I = I\<lparr>io_req := \<lambda>q fd. if fine q fd then io_req I q fd else g q fd\<rparr>"

definition fence_mmap ::
  "(int \<Rightarrow> int \<Rightarrow> int \<Rightarrow> bool) \<Rightarrow> (int \<Rightarrow> int \<Rightarrow> bool \<Rightarrow> bool \<Rightarrow> int \<Rightarrow> 'k \<Rightarrow> bool \<times> 'k) \<Rightarrow> 'k io_calls \<Rightarrow> 'k io_calls" where
  "fence_mmap fine g I = I\<lparr>io_mmap := \<lambda>len off wr sh fd.
     if fine len off fd then io_mmap I len off wr sh fd else g len off wr sh fd\<rparr>"

lemma fence_simps [simp]:
  "io_fstat (fence fine g I) = io_fstat I" "dio_limits (fence fine g I) = dio_limits I"
  "io_req (fence fine g I) q fd = (if fine q fd then io_req I q fd else g q fd)"
  by (simp_all add: fence_def dio_limits_def fun_eq_iff)

lemma fence_request [simp]: "fine q fd \<Longrightarrow> request (fence fine g I) q fd s = request I q fd s"
  by (simp add: request_def)

text \<open>What \<open>fstat64\<close> can say of a descriptor.\<close>

definition reports :: "'k io_calls \<Rightarrow> int \<Rightarrow> fd_stat \<Rightarrow> bool" where
  "reports I fd stb \<longleftrightarrow> (\<exists>k e k'. io_fstat I fd k = ((e, stb), k') \<and> 0 \<le> e)"

lemma ask_reports: "ask (io_fstat I fd) st = ((e, stb), st') \<Longrightarrow> \<not> e < 0 \<Longrightarrow> reports I fd stb"
  unfolding reports_def
  by (rule exI[of _ "kern st"], rule exI[of _ e], rule exI[of _ "snd (io_fstat I fd (kern st))"])
    (auto simp: ask_def split: prod.splits)

lemma rnd_nonneg:
  assumes "\<And>k. 0 \<le> fst (c_random K k)"
  shows "rnd K st = (x, s) \<Longrightarrow> 0 \<le> x" "rnd_long K st = (x, s) \<Longrightarrow> 0 \<le> x"
proof -
  have r: "0 \<le> x" if "c_random K k = (x, k')" for x k k' using assms[of k] that by simp
  show "rnd K st = (x, s) \<Longrightarrow> 0 \<le> x" "rnd_long K st = (x, s) \<Longrightarrow> 0 \<le> x"
    using r by (auto simp: rnd_def rnd_long_def long_random_def split: prod.splits)
qed

lemma with_stat_cong:
  assumes "\<And>fd stb s. reports I fd stb \<Longrightarrow> f fd stb s = g fd stb s"
    and "io_fstat J = io_fstat I" and "\<And>fd. io_req J R_close fd = io_req I R_close fd"
  shows "with_stat K J which fl r st f = with_stat K I which fl r st g"
proof -
  have c: "close_fd J fd s = close_fd I fd s" for fd s by (simp add: close_fd_def request_def assms(3))
  have "(case ask (io_fstat J fd) st1 of ((e, stb), st2) \<Rightarrow> if e < 0 then close_fd J fd st2 else f fd stb st2)
    = (case ask (io_fstat I fd) st1 of ((e, stb), st2) \<Rightarrow> if e < 0 then close_fd I fd st2 else g fd stb st2)" for fd st1
    using assms(1)[OF ask_reports] by (auto simp: assms(2) c split: prod.split)
  then show ?thesis by (simp add: with_stat_def)
qed

lemma with_two_cong:
  assumes "\<And>v fd1 stat1 fd2 stat2 s. reports I fd1 stat1 \<Longrightarrow> reports I fd2 stat2 \<Longrightarrow> f v fd1 stat1 fd2 stat2 s = g v fd1 stat1 fd2 stat2 s"
    and "io_fstat J = io_fstat I" and c: "\<And>fd. io_req J R_close fd = io_req I R_close fd"
  shows "with_two K J r st f = with_two K I r st g"
proof -
  have cl: "close_fd J fd s = close_fd I fd s" "request J R_close fd s = request I R_close fd s" for fd s
    by (simp_all add: close_fd_def request_def c)
  have "(case ask (io_fstat J fd1) s of ((e1, stat1), s1) \<Rightarrow>
      if e1 < 0 then Inr ((), s1)
      else (case ask (io_fstat J fd2) s1 of ((e2, stat2), s2) \<Rightarrow>
        if e2 < 0 then Inr ((), s2) else f v fd1 stat1 fd2 stat2 s2))
    = (case ask (io_fstat I fd1) s of ((e1, stat1), s1) \<Rightarrow>
      if e1 < 0 then Inr ((), s1)
      else (case ask (io_fstat I fd2) s1 of ((e2, stat2), s2) \<Rightarrow>
        if e2 < 0 then Inr ((), s2) else g v fd1 stat1 fd2 stat2 s2))" for v fd1 fd2 s
    using assms(1)[OF ask_reports ask_reports] by (auto simp: assms(2) split: prod.split)
  then show ?thesis unfolding with_two_def by (simp only: cl)
qed

text \<open>
  A directory with two files, and a kernel that notes the last mapping, read or clone in place of its
  random numbers.
\<close>

definition two_files :: "mem fss" where
  "two_files = (add_to_flist FT_REG 1 (-1) 0 (add_to_flist FT_REG 0 (-1) 0 sample_fss))
     \<lparr>kern := \<lparr>m_cwd = [''p0''], m_files = [([''p0''], Dir), ([''p0'', ''f0''], Reg), ([''p0'', ''f1''], Reg)], m_seed = 31\<rparr>\<rparr>"

definition noting_io :: "mem io_calls" where
  "noting_io = mem_io\<lparr>
     io_mmap := \<lambda>len off _ _ _ m. (True, m\<lparr>m_seed := off * 1000000 + len\<rparr>),
     io_req := \<lambda>q _ m. (0, case q of R_read len \<Rightarrow> m\<lparr>m_seed := len\<rparr>
       | R_clone _ off1 len off2 \<Rightarrow> m\<lparr>m_seed := (off1 * 1000000 + len) * 1000000000 + off2\<rparr> | _ \<Rightarrow> m)\<rparr>"

lemma noting_reports: "reports noting_io fd stb \<longleftrightarrow> stb = mem_stat"
  by (auto simp: reports_def noting_io_def mem_io_def)

lemma mem_random_nonneg: "0 \<le> fst (c_random (mem_calls 16) k)"
  by (simp add: mem_calls_def m_random_def Let_def)

text \<open>
  C37 (bounds). \<open>mread_f\<close> and \<open>mwrite_f\<close> only map ranges that begin at a page, are not empty and lie in the
  file, as far as \<open>fstat64\<close> knows.
\<close>

theorem mapped_ranges_in_file:
  assumes "pow2 (page_size env)" and "\<And>k. 0 \<le> fst (c_random K k)"
    and "\<And>fd stb. reports I fd stb \<Longrightarrow> 0 \<le> st_size stb"
  shows "do_mmap K (fence_mmap (\<lambda>len off fd. \<exists>stb. reports I fd stb \<and> page_size env dvd off \<and> 0 \<le> off \<and> 0 < len
      \<and> off + len \<le> st_size stb) g I) env wr r st = do_mmap K I env wr r st"
proof -
  let ?J = "fence_mmap (\<lambda>len off fd. \<exists>stb. reports I fd stb \<and> page_size env dvd off \<and> 0 \<le> off \<and> 0 < len
      \<and> off + len \<le> st_size stb) g I"
  have J: "io_req ?J = io_req I" "io_fstat ?J = io_fstat I" "io_store ?J = io_store I" "io_load ?J = io_load I"
    "io_munmap ?J = io_munmap I" "close_fd ?J = close_fd I"
    by (simp_all add: fence_mmap_def close_fd_def request_def fun_eq_iff)
  have m: "io_mmap ?J len off wr sh fd = io_mmap I len off wr sh fd"
    if fd: "reports I fd stb" "st_size stb \<noteq> 0" and r: "map_range (page_size env) (st_size stb) lr x = (off, len)"
      and "rnd_long K s1 = (lr, s2)" and "rnd K s2 = (x, s3)" for fd stb lr x off len sh s1 s2 s3
  proof -
    have "0 < st_size stb" "0 \<le> lr" "0 \<le> x"
      using assms(3)[OF fd(1)] fd(2) rnd_nonneg(2)[OF assms(2) that(4)] rnd_nonneg(1)[OF assms(2) that(5)] by simp_all
    note ok = map_range_ok[OF assms(1) this r]
    show ?thesis
      unfolding fence_mmap_def by simp (metis fd(1) ok(1-4))
  qed
  show ?thesis
    unfolding do_mmap_def
  proof (rule with_stat_cong, goal_cases)
    case (1 fd stb s)
    obtain lr s1 where lr: "rnd_long K s = (lr, s1)" by (cases "rnd_long K s")
    obtain x s2 where x: "rnd K s1 = (x, s2)" by (cases "rnd K s1")
    obtain off len where r: "map_range (page_size env) (st_size stb) lr x = (off, len)"
      by (cases "map_range (page_size env) (st_size stb) lr x")
    show ?case using m[OF 1 _ r lr x] by (simp add: lr x r J split: prod.split)
  qed (simp_all add: J)
qed

theorem mapped_ranges_in_file_witness:
  "\<exists>s. do_mmap (mem_calls 16) (fence_mmap (\<lambda>len off fd. \<exists>stb. reports noting_io fd stb \<and> 4096 dvd off \<and> 0 \<le> off \<and> 0 < len
      \<and> off + len \<le> st_size stb) (\<lambda>_ _ _ _ _ m. (False, m)) noting_io) mem_env False 0 two_files = Inr ((), s)
    \<and> m_seed (kern s) = 61440 * 1000000 + 13"
proof -
  have "case do_mmap (mem_calls 16) noting_io mem_env False 0 two_files of Inl _ \<Rightarrow> False
      | Inr (_, s) \<Rightarrow> m_seed (kern s) = 61440 * 1000000 + 13"
    by code_simp
  then obtain s where s: "do_mmap (mem_calls 16) noting_io mem_env False 0 two_files = Inr ((), s)"
    "m_seed (kern s) = 61440 * 1000000 + 13"
    by (auto split: sum.splits)
  have "pow2 (page_size mem_env)" unfolding pow2_def by (rule exI[of _ 12]) (simp add: mem_env_def)
  note fenced = mapped_ranges_in_file[OF this mem_random_nonneg, where I = noting_io and r = 0 and wr = False and st = two_files
      and g = "\<lambda>_ _ _ _ _ m. (False, m)"]
  show ?thesis using fenced s by (auto simp: noting_reports mem_stat_def mem_env_def)
qed

definition direct_fits :: "'k io_calls \<Rightarrow> io_env \<Rightarrow> int \<Rightarrow> fd_req \<Rightarrow> int \<Rightarrow> bool" where
  "direct_fits I env behind q fd \<longleftrightarrow>
     (\<exists>stb s s' align maxio. reports I fd stb \<and> dio_limits I env fd stb s = Inr ((align, maxio), s')
       \<and> (case q of
            R_seek off \<Rightarrow> align dvd off \<and> 0 \<le> off \<and> off < st_size stb + behind
          | R_read len \<Rightarrow> align dvd len \<and> 0 < len \<and> len \<le> maxio
          | R_write _ len \<Rightarrow> align dvd len \<and> 0 < len \<and> len \<le> maxio
          | _ \<Rightarrow> False))
     \<or> q = R_close"

lemma direct_fits_close [simp]: "direct_fits I env behind R_close fd"
  by (simp add: direct_fits_def)

text \<open>
  The direct reads and writes of \<open>dread_f\<close> and \<open>dwrite_f\<close> are aligned: every \<open>lseek\<close> goes to a
  multiple of the alignment the kernel or \<open>XFS_DIO_MIN\<close> asks for, within the file or a megabyte behind it, and every length is a
  multiple of it, not 0 and at most the largest the kernel allows. For writes the file is a megabyte
  smaller than \<open>maxfsize\<close>.
\<close>

theorem direct_requests_aligned:
  assumes limits: "\<And>fd stb s align maxio s'. reports I fd stb \<Longrightarrow> dio_limits I env fd stb s = Inr ((align, maxio), s')
      \<Longrightarrow> 0 < align \<and> align dvd maxio \<and> 0 < maxio"
    and sizes: "\<And>fd stb. reports I fd stb \<Longrightarrow> 0 \<le> st_size stb \<and> st_size stb + 1048576 \<le> maxfsize env"
  shows "dread_f K (fence (direct_fits I env 0) g I) env r st = dread_f K I env r st
    \<and> dwrite_f K (fence (direct_fits I env 1048576) g I) env r st = dwrite_f K I env r st"
proof
  have fits: "direct_fits I env behind q fd"
    if "reports I fd stb" and "dio_limits I env fd stb s = Inr ((align, maxio), s')"
      and "case q of R_seek off \<Rightarrow> align dvd off \<and> 0 \<le> off \<and> off < st_size stb + behind
          | R_read len \<Rightarrow> align dvd len \<and> 0 < len \<and> len \<le> maxio
          | R_write _ len \<Rightarrow> align dvd len \<and> 0 < len \<and> len \<le> maxio | _ \<Rightarrow> False"
    for fd stb s align maxio s' behind q
    using that unfolding direct_fits_def by blast
  show "dread_f K (fence (direct_fits I env 0) g I) env r st = dread_f K I env r st"
    unfolding dread_f_def
  proof (rule with_stat_cong, goal_cases)
    case (1 fd stb s)
    have "0 < st_size stb" if "st_size stb \<noteq> 0" using sizes[OF 1] that by simp
    then have "direct_fits I env 0 (R_seek (dio_off align (st_size stb) lr)) fd"
      "direct_fits I env 0 (R_read (dio_len align maxio x)) fd"
      if "dio_limits I env fd stb s = Inr ((align, maxio), s')" "st_size stb \<noteq> 0" for align maxio s' lr x
      using that(2) limits[OF 1 that(1)] by (auto intro!: fits[OF 1 that(1)] simp: dio_off_ok dio_len_ok)
    then show ?case by (auto simp: close_fd_def split: prod.split intro!: on_ok_cong)
  qed simp_all
  show "dwrite_f K (fence (direct_fits I env 1048576) g I) env r st = dwrite_f K I env r st"
    unfolding dwrite_f_def
  proof (rule with_stat_cong, goal_cases)
    case (1 fd stb s)
    let ?b = "min (st_size stb + 1048576) MAXFSIZE"
    have b: "0 < ?b" "?b \<le> st_size stb + 1048576" using sizes[OF 1] by simp_all
    have "direct_fits I env 1048576 (R_seek (dio_off align ?b lr)) fd"
      "direct_fits I env 1048576 (R_seek (dio_write_off (maxfsize env) align (st_size stb) lr)) fd"
      "direct_fits I env 1048576 (R_write c (dio_len align maxio x)) fd"
      if "dio_limits I env fd stb s = Inr ((align, maxio), s')" for align maxio s' lr x c
      using limits[OF 1 that] sizes[OF 1] dio_off_ok[OF _ b(1), of align lr] b(2)
      by (auto intro!: fits[OF 1 that] simp: dio_len_ok dio_write_off_ok)
    then show ?case by (auto simp: close_fd_def Let_def split: prod.split intro!: on_ok_cong)
  qed simp_all
qed

theorem direct_requests_aligned_witness:
  "(\<exists>s. dread_f (mem_calls 16) (fence (direct_fits noting_io mem_env 0) (\<lambda>_ _ m. (-1, m\<lparr>m_seed := 0\<rparr>)) noting_io) mem_env 0 two_files
      = Inr ((), s) \<and> m_seed (kern s) = 4096)
    \<and> dwrite_f (mem_calls 16) (fence (direct_fits noting_io mem_env 1048576) (\<lambda>_ _ m. (-1, m\<lparr>m_seed := 0\<rparr>)) noting_io) mem_env 0 two_files
      = dwrite_f (mem_calls 16) noting_io mem_env 0 two_files"
proof -
  let ?g = "\<lambda>_ _ m. (-1, m\<lparr>m_seed := 0\<rparr>)"
  have l: "dio_limits noting_io mem_env fd mem_stat s = Inr ((4096, 2147479552), s)" for fd s
    by (simp add: dio_limits_def ask_def noting_io_def mem_io_def mem_env_def mem_stat_def u32_def)
  have "dread_f (mem_calls 16) (fence (direct_fits noting_io mem_env 0) ?g noting_io) mem_env 0 two_files
      = dread_f (mem_calls 16) noting_io mem_env 0 two_files
    \<and> dwrite_f (mem_calls 16) (fence (direct_fits noting_io mem_env 1048576) ?g noting_io) mem_env 0 two_files
      = dwrite_f (mem_calls 16) noting_io mem_env 0 two_files"
    by (rule direct_requests_aligned) (auto simp: noting_reports l, simp_all add: mem_stat_def mem_env_def)
  moreover have "case dread_f (mem_calls 16) noting_io mem_env 0 two_files of Inl _ \<Rightarrow> False
      | Inr (_, s) \<Rightarrow> m_seed (kern s) = 4096"
    by code_simp
  ultimately show ?thesis by (auto split: sum.splits)
qed

section \<open>Ranges of two files\<close>

lemma seek_dest_far:
  fixes K :: "'k name_calls"
  assumes "seek_dest K place same off1 len st = Inr (off2, st')"
  shows "same \<longrightarrow> \<not> too_near off1 off2 len" "\<exists>s lr s'. rnd_long K s = (lr, s') \<and> off2 = place lr"
proof -
  let ?step = "\<lambda>_ s. case rnd_long K s of (lr, s1) \<Rightarrow>
       let off2 = place lr in Inr (if same \<and> too_near off1 off2 len then Inr () else Inl off2, s1)"
  let ?Q = "\<lambda>res :: ('k, int) fss_run. \<forall>y s. res = Inr (y, s) \<longrightarrow> (same \<longrightarrow> \<not> too_near off1 y len) \<and> (\<exists>s lr s'. rnd_long K s = (lr, s') \<and> y = place lr)"
  have sp: "spin ?step () st = Some (Inr (off2, st'))"
    using assms by (auto simp: seek_dest_def repeating_def split: option.splits)
  have "?Q (Inr (off2, st'))"
  proof (rule spin_rule[OF sp, where P = "\<lambda>_ _. True" and Q = ?Q])
    fix x s assume True
    obtain lr s1 where "rnd_long K s = (lr, s1)" by (cases "rnd_long K s")
    then show "case ?step x s of Inl e \<Rightarrow> ?Q (Inl e)
      | Inr (y, s') \<Rightarrow> (case y of Inl z \<Rightarrow> ?Q (Inr (z, s')) | Inr x' \<Rightarrow> True)"
      by (auto simp: Let_def)
  qed simp
  then show "same \<longrightarrow> \<not> too_near off1 off2 len" "\<exists>s lr s'. rnd_long K s = (lr, s') \<and> off2 = place lr" by blast+
qed

definition clone_fits :: "'k io_calls \<Rightarrow> int \<Rightarrow> fd_req \<Rightarrow> int \<Rightarrow> bool" where
  "clone_fits I limit q fd2 \<longleftrightarrow>
     (case q of
        R_clone fd1 off1 len off2 \<Rightarrow>
          (\<exists>stat1 stat2. reports I fd1 stat1 \<and> reports I fd2 stat2
             \<and> st_blksize stat1 dvd off1 \<and> 0 \<le> off1 \<and> off1 + len \<le> st_size stat1
             \<and> (0 < st_size stat1 \<longrightarrow> 0 < len)
             \<and> (st_blksize stat1 dvd len \<or> off1 + len = st_size stat1)
             \<and> st_blksize stat2 dvd off2 \<and> 0 \<le> off2 \<and> off2 < limit
             \<and> (st_ino stat1 = st_ino stat2 \<longrightarrow> off1 + len \<le> off2 \<or> off2 + len \<le> off1))
      | _ \<Rightarrow> q = R_close)"

text \<open>
  C35 (safety). \<open>clonerange_f\<close> only asks for ranges the kernel can share: both begin at a block, the source
  lies in the file and is not empty unless the file is, it ends at a block or with the file, the
  destination begins below \<open>maxfsize\<close>, and in one file the two do not overlap.
\<close>

theorem clone_ranges_fit:
  assumes "\<And>k. 0 \<le> fst (c_random K k)" and "0 < maxfsize env"
    and stats: "\<And>fd stb. reports I fd stb \<Longrightarrow> pow2 (st_blksize stb) \<and> 0 \<le> st_size stb"
  shows "clonerange_f K (fence (clone_fits I (maxfsize env)) g I) env r st = clonerange_f K I env r st"
  unfolding clonerange_f_def
proof (rule with_two_cong, goal_cases)
  case (1 v fd1 stat1 fd2 stat2 s)
  then have b: "pow2 (st_blksize stat1)" "0 \<le> st_size stat1" "pow2 (st_blksize stat2)" using stats by blast+
  obtain x s1 where x: "rnd K s = (x, s1)" by (cases "rnd K s")
  obtain lr s2 where lr: "rnd_long K s1 = (lr, s2)" by (cases "rnd_long K s1")
  note nn = rnd_nonneg(1)[OF assms(1) x] rnd_nonneg(2)[OF assms(1) lr]
  let ?len = "clone_len (st_blksize stat1) (st_size stat1) x"
  let ?off1 = "block_source_off (maxfsize env) (st_blksize stat1) (st_size stat1) ?len lr"
  let ?place = "\<lambda>lr. dest_off (maxfsize env) (dest_bound (st_blksize stat2) (st_size stat2)) lr AND NOT (st_blksize stat2 - 1)"
  note len = clone_len_ok[OF b(1,2) nn(1)]
  note off = block_source_off_ok[OF b(1) len(1,2) assms(2) nn(2)]
  have "clone_fits I (maxfsize env) (R_clone fd1 ?off1 ?len off2) fd2"
    if seek: "seek_dest K ?place (st_ino stat1 = st_ino stat2) ?off1 ?len s2 = Inr (off2, s3)" for off2 s3
  proof -
    note far = seek_dest_far[OF seek]
    obtain lr2 where "off2 = ?place lr2" using far(2) by blast
    then have o2: "st_blksize stat2 dvd off2" "0 \<le> off2" "off2 < maxfsize env"
      using dest_place_ok[OF b(3) assms(2)] by blast+
    have "off1 + len \<le> off2 \<or> off2 + len \<le> off1" if "\<not> too_near off1 off2 len" for off1 len
      using that by (auto simp: too_near_def)
    then have "st_ino stat1 = st_ino stat2 \<longrightarrow> ?off1 + ?len \<le> off2 \<or> off2 + ?len \<le> ?off1" using far(1) by blast
    moreover have "st_blksize stat1 dvd ?len \<or> ?off1 + ?len = st_size stat1"
      using len(2,4) off(2,3) by (cases "?len < st_size stat1") auto
    ultimately show ?thesis
      unfolding clone_fits_def fd_req.case
      by (intro exI[of _ stat1] exI[of _ stat2] conjI 1 off len(3) o2)
  qed
  then show ?case by (auto simp: x lr Let_def split: prod.split intro!: on_ok_cong)
qed (simp_all add: clone_fits_def)

text \<open>Both files are the same inode here; the 4096 bytes at 28672 are cloned to 204800.\<close>

theorem clone_ranges_fit_witness:
  "\<exists>s. clonerange_f (mem_calls 16) (fence (clone_fits noting_io 9223372036854775807) (\<lambda>_ _ m. (-1, m\<lparr>m_seed := 0\<rparr>)) noting_io)
      mem_env 0 two_files = Inr ((), s)
    \<and> m_seed (kern s) = (28672 * 1000000 + 4096) * 1000000000 + 204800"
proof -
  have "pow2 4096" unfolding pow2_def by (rule exI[of _ 12]) simp
  then have "clonerange_f (mem_calls 16) (fence (clone_fits noting_io (maxfsize mem_env)) (\<lambda>_ _ m. (-1, m\<lparr>m_seed := 0\<rparr>)) noting_io)
      mem_env 0 two_files = clonerange_f (mem_calls 16) noting_io mem_env 0 two_files"
    by (intro clone_ranges_fit mem_random_nonneg) (simp_all add: noting_reports mem_stat_def mem_env_def)
  moreover have "case clonerange_f (mem_calls 16) noting_io mem_env 0 two_files of Inl _ \<Rightarrow> False
      | Inr (_, s) \<Rightarrow> m_seed (kern s) = (28672 * 1000000 + 4096) * 1000000000 + 204800"
    by code_simp
  ultimately show ?thesis by (auto simp: mem_env_def split: sum.splits)
qed

section \<open>Copying\<close>

text \<open>
  C36 (termination). The loop of \<open>copyrange_f\<close> ends whatever \<open>copy_file_range\<close> returns, after at most
  as many calls as there are bytes to copy; and an error ends it at once, \<open>EAGAIN\<close> with the others.
\<close>

theorem copy_loop_ends:
  fixes calls :: "'k \<Rightarrow> nat"
  assumes "\<And>a b c d n k x k'. io_copy I a b c d n k = (x, k') \<Longrightarrow> calls k' = calls k + 1"
  shows "calls (kern (snd (copy_loop I fd1 off1 fd2 off2 len st))) \<le> calls (kern st) + nat len
    \<and> (0 < len \<longrightarrow> len < 9223372036854775808 \<longrightarrow> io_copy I fd1 off1 fd2 off2 len (kern st) = ((res, off1', off2'), k)
        \<longrightarrow> - 4095 \<le> res \<longrightarrow> res < 0 \<longrightarrow> copy_loop I fd1 off1 fd2 off2 len st = (len, st\<lparr>kern := k\<rparr>))"
proof
  show "calls (kern (snd (copy_loop I fd1 off1 fd2 off2 len st))) \<le> calls (kern st) + nat len"
    using assms
  proof (induction I fd1 off1 fd2 off2 len st rule: copy_loop.induct)
    case (1 I fd1 off1 fd2 off2 len st)
    obtain res off1' off2' st1 where a: "ask (io_copy I fd1 off1 fd2 off2 len) st = ((res, off1', off2'), st1)"
      by (metis prod.exhaust)
    have c: "calls (kern st1) = calls (kern st) + 1"
      using a 1(2) by (auto simp: ask_def split: prod.splits)
    show ?case
    proof (cases "len \<le> 0 \<or> len < u64 res \<or> u64 res = 0")
      case True
      then show ?thesis using c by (subst copy_loop.simps) (auto simp: a Let_def)
    next
      case False
      then have l: "0 < len" "u64 res \<le> len" "u64 res \<noteq> 0" by auto
      then have "calls (kern (snd (copy_loop I fd1 off1' fd2 off2' (len - u64 res) st1))) \<le> calls (kern st1) + nat (len - u64 res)"
        using 1(1)[OF _ a[symmetric] refl refl refl _ 1(2)] by auto
      moreover have "nat (len - u64 res) + 1 \<le> nat len" using l u64_range(1)[of res] by linarith
      ultimately show ?thesis using l c by (subst copy_loop.simps) (auto simp: a Let_def)
    qed
  qed
  show "0 < len \<longrightarrow> len < 9223372036854775808 \<longrightarrow> io_copy I fd1 off1 fd2 off2 len (kern st) = ((res, off1', off2'), k)
        \<longrightarrow> - 4095 \<le> res \<longrightarrow> res < 0 \<longrightarrow> copy_loop I fd1 off1 fd2 off2 len st = (len, st\<lparr>kern := k\<rparr>)"
  proof (intro impI)
    assume len: "0 < len" "len < 9223372036854775808" and "io_copy I fd1 off1 fd2 off2 len (kern st) = ((res, off1', off2'), k)"
      and res: "- 4095 \<le> res" "res < 0"
    then have "ask (io_copy I fd1 off1 fd2 off2 len) st = ((res, off1', off2'), st\<lparr>kern := k\<rparr>)" by (simp add: ask_def)
    moreover have "u64 res = res + 18446744073709551616"
      using res mod_add_self2[of res "18446744073709551616"] by (simp add: u64_def del: mod_add_self2)
    ultimately show "copy_loop I fd1 off1 fd2 off2 len st = (len, st\<lparr>kern := k\<rparr>)"
      using len res by (subst copy_loop.simps) (simp add: Let_def)
  qed
qed

text \<open>A kernel that copies a thousand bytes at a time, twice, and notes each call; then \<open>EAGAIN\<close>.\<close>

definition slow_io :: "mem io_calls" where
  "slow_io = mem_io\<lparr>io_copy := \<lambda>_ off1 _ off2 n m.
     let res = (if length (m_cwd m) < 2 then min n 1000 else -11)
     in ((res, off1 + max 0 res, off2 + max 0 res), m\<lparr>m_cwd := ''c'' # m_cwd m\<rparr>)\<rparr>"

theorem copy_loop_ends_witness:
  "length (m_cwd (kern (snd (copy_loop slow_io 3 0 4 0 2500 sample_fss)))) \<le> 2500
    \<and> fst (copy_loop slow_io 3 0 4 0 2500 sample_fss) = 500
    \<and> fst (copy_loop slow_io 3 2000 4 2000 500 (sample_fss\<lparr>kern := (kern sample_fss)\<lparr>m_cwd := [''c'', ''c'']\<rparr>\<rparr>)) = 500"
proof -
  let ?st = "sample_fss\<lparr>kern := (kern sample_fss)\<lparr>m_cwd := [''c'', ''c'']\<rparr>\<rparr>"
  have c: "length (m_cwd k') = length (m_cwd k) + 1" if "io_copy slow_io a b c d n k = (x, k')" for a b c d n k x k'
    using that by (auto simp: slow_io_def Let_def)
  have "io_copy slow_io 3 2000 4 2000 500 (kern ?st) = ((-11, 2000, 2000), (kern ?st)\<lparr>m_cwd := ''c'' # m_cwd (kern ?st)\<rparr>)"
    by (simp add: slow_io_def Let_def)
  then have "fst (copy_loop slow_io 3 2000 4 2000 500 ?st) = 500"
    using copy_loop_ends[of slow_io "\<lambda>m. length (m_cwd m)" 3 2000 4 2000 500 ?st, OF c] by simp
  moreover have "fst (copy_loop slow_io 3 0 4 0 2500 sample_fss) = 500" by code_simp
  ultimately show ?thesis
    using copy_loop_ends[of slow_io "\<lambda>m. length (m_cwd m)" 3 0 4 0 2500 sample_fss, OF c] by (simp add: sample_fss_def)
qed

end
