(* ===== verification/Io_Req.thy ===== *)
theory Io_Req
  imports C_Prelude
begin

text \<open>
  The requests that \<open>iogen\<close> writes into a pipe and \<open>doio\<close> reads from it (\<open>doio.h\<close>). The members of
  the union are alike in what the two programs use of them, so a request is one record.
\<close>

section \<open>Requests\<close>

datatype (plugins only: code) rtype =
    READ | WRITE | READA | WRITEA | SSREAD | SSWRITE | LISTIO |
    LREAD | LREADA | LWRITE | LWRITEA | LSREAD | LSREADA | LSWRITE | LSWRITEA | LEREAD | LEREADA | LEWRITE | LEWRITEA |
    PREAD | PWRITE | READV | WRITEV | AREAD | AWRITE | LLREAD | LLAREAD | LLWRITE | LLAWRITE |
    MMAPR | MMAPW | RESVSP | UNRESVSP | FSYNC2 | FDATASYNC | OTHER_TYPE int

abbreviation (input) DOIO_MAGIC :: int where "DOIO_MAGIC \<equiv> 1875329"
abbreviation (input) F_WORD_ALIGNED :: int where "F_WORD_ALIGNED \<equiv> 1"
abbreviation (input) MAX_FNAME_LENGTH :: nat where "MAX_FNAME_LENGTH \<equiv> 128"

abbreviation (input) O_RDONLY :: int where "O_RDONLY \<equiv> 0"
abbreviation (input) O_WRONLY :: int where "O_WRONLY \<equiv> 1"
abbreviation (input) O_RDWR :: int where "O_RDWR \<equiv> 2"
abbreviation (input) O_CREAT :: int where "O_CREAT \<equiv> 0x40"
abbreviation (input) O_SYNC :: int where "O_SYNC \<equiv> 0x101000"
abbreviation (input) O_DIRECT :: int where "O_DIRECT \<equiv> 0x4000"

record io_req =
  r_type :: rtype
  r_magic :: int
  r_file :: string
  r_oflags :: int
  r_offset :: int
  r_nbytes :: int
  r_pattern :: int
  r_uflags :: int
  r_aio_strat :: int
  r_nstrides :: int
  r_nent :: int

definition no_req :: io_req where
  "no_req = \<lparr>r_type = OTHER_TYPE 0, r_magic = 0, r_file = [], r_oflags = 0, r_offset = 0, r_nbytes = 0,
     r_pattern = 0, r_uflags = 0, r_aio_strat = 0, r_nstrides = 0, r_nent = 0\<rparr>"

section \<open>Random numbers\<close>

text \<open>
  \<open>random_range(min, max, mult, &err)\<close>: a multiple of \<open>mult\<close> from \<open>min\<close> to \<open>max\<close>, both included, or an
  error message if there is none.
\<close>

type_synonym 'k random_range = "int \<Rightarrow> int \<Rightarrow> int \<Rightarrow> 'k \<Rightarrow> (int \<times> bool) \<times> 'k"

end
