(* ===== verification/Iog_Request.thy ===== *)
theory Iog_Request
  imports Io_Req C_Text
begin

text \<open>
  How \<open>iogen\<close> forms a request: it chooses a system call, a file and flags, and then an offset and a
  length that are multiples of the unit of the file, one after the other, backwards or at random.
\<close>

section \<open>Tables and files\<close>

record 'v strmap =
  m_string :: string
  m_value :: 'v
  m_flags :: int

datatype ftype = S_IFREG | S_IFBLK | S_IFCHR | S_OTHER

record file_info =
  f_path :: string
  f_length :: int
  f_iou :: int
  f_riou :: int
  f_type :: ftype
  f_lastoffset :: int
  f_lastlength :: int

datatype offset_mode = M_RANDOM | M_SEQUENTIAL | M_REVERSE

abbreviation (input) SY_ASYNC :: int where "SY_ASYNC \<equiv> 1"
abbreviation (input) SY_WRITE :: int where "SY_WRITE \<equiv> 2"
abbreviation (input) SY_NENT :: int where "SY_NENT \<equiv> 64"
abbreviation (input) FLG_RAW :: int where "FLG_RAW \<equiv> 1"
abbreviation (input) BSIZE :: int where "BSIZE \<equiv> 512"

definition entry :: "string \<Rightarrow> 'v \<Rightarrow> int \<Rightarrow> 'v strmap" where
  "entry s v fl = \<lparr>m_string = s, m_value = v, m_flags = fl\<rparr>"

definition Syscall_Map :: "rtype strmap list" where
  "Syscall_Map =
    [entry ''read'' READ 0, entry ''write'' WRITE SY_WRITE, entry ''pread'' PREAD 0,
     entry ''pwrite'' PWRITE SY_WRITE, entry ''resvsp'' RESVSP SY_WRITE, entry ''unresvsp'' UNRESVSP SY_WRITE,
     entry ''reserve'' RESVSP SY_WRITE, entry ''unreserve'' UNRESVSP SY_WRITE, entry ''readv'' READV 0,
     entry ''writev'' WRITEV SY_WRITE, entry ''mmread'' MMAPR 0, entry ''mmwrite'' MMAPW SY_WRITE,
     entry ''fsync2'' FSYNC2 SY_WRITE, entry ''fdatasync'' FDATASYNC SY_WRITE]"

definition Flag_Map :: "int strmap list" where
  "Flag_Map = [entry ''buffered'' 0 0, entry ''sync'' O_SYNC 0, entry ''direct'' O_DIRECT FLG_RAW]"

definition Omode_Map :: "offset_mode strmap list" where
  "Omode_Map = [entry ''random'' M_RANDOM 0, entry ''sequential'' M_SEQUENTIAL 0, entry ''reverse'' M_REVERSE 0]"

definition Aio_Strat_Map :: "int strmap list" where
  "Aio_Strat_Map = [entry ''none'' 0 0]"

definition Byte_Patterns :: "int list" where
  "Byte_Patterns = [65..90]"

text \<open>The entry with a name, and the entries from it on.\<close>

fun str_lookup :: "'v strmap list \<Rightarrow> string \<Rightarrow> 'v strmap list option" where
  "str_lookup [] s = None"
| "str_lookup (e # es) s = (if m_string e = s then Some (e # es) else str_lookup es s)"

section \<open>A request\<close>

record iogen_cfg =
  Syscall_List :: "rtype strmap list"
  Flag_List :: "int strmap list"
  Aio_Strat_List :: "int strmap list"
  Offset_Mode :: offset_mode
  Mintrans :: int
  Maxtrans :: int
  Minstrides :: int
  Maxstrides :: int
  overlap :: bool

text \<open>\<open>xs[random_range(0, n - 1, 1, NULL)]\<close>\<close>

definition pick :: "'k random_range \<Rightarrow> 'a list \<Rightarrow> 'k \<Rightarrow> halt + ('a \<times> nat) \<times> 'k" where
  "pick rr xs k =
     (case rr 0 (int (length xs) - 1) 1 k of ((n, _), k1) \<Rightarrow>
        if 0 \<le> n \<and> n < int (length xs) then Inr ((xs ! nat n, nat n), k1) else Inl Fault)"

text \<open>
  The offset and the length, \<open>None\<close> when \<open>random_range\<close> reports an error. A unit of 0 faults where the
  code takes a remainder. All of it is arithmetic on \<open>int\<close>, which wraps: in random mode with \<open>-o\<close> the sum of
  the end of the last request and the length does so for files within \<open>-T\<close> bytes of 2 GiB.
\<close>

definition last_end :: "file_info \<Rightarrow> int" where
  "last_end f = s32 (s32 (f_lastoffset f + f_lastlength f) - 1)"

definition choose_sequential ::
  "'k random_range \<Rightarrow> iogen_cfg \<Rightarrow> file_info \<Rightarrow> int \<Rightarrow> 'k \<Rightarrow> halt + (int \<times> int) option \<times> 'k" where
  "choose_sequential rr c f mult k =
     (let laststart = f_lastoffset f; lastend = last_end f; minlength = max (Mintrans c) mult in
      case (if overlap c \<and> lastend > laststart
            then (case rr laststart lastend 1 k of ((n, _), k1) \<Rightarrow> (n, k1))
            else (s32 (lastend + 1), k)) of (offset0, k1) \<Rightarrow>
        if offset0 \<noteq> 0 \<and> mult = 0 then Inl Fault
        else
          (let offset1 = (if offset0 \<noteq> 0 \<and> c_rem offset0 mult \<noteq> 0 then s32 (offset0 + s32 (mult - c_rem offset0 mult))
                          else offset0);
               offset = (if minlength > s32 (f_length f - offset1) then 0 else offset1);
               maxlength = min (s32 (f_length f - offset)) (Maxtrans c)
           in case rr minlength maxlength mult k1 of ((len, err), k2) \<Rightarrow>
                Inr (if err then None else Some (offset, len), k2)))"

definition choose_reverse ::
  "'k random_range \<Rightarrow> iogen_cfg \<Rightarrow> file_info \<Rightarrow> int \<Rightarrow> 'k \<Rightarrow> halt + (int \<times> int) option \<times> 'k" where
  "choose_reverse rr c f mult k =
     (let minlength = max (Mintrans c) mult;
          max0 = min (f_lastoffset f) (Maxtrans c);
          again = minlength > max0;
          laststart = (if again then f_length f else f_lastoffset f);
          lastend = (if again then f_length f else last_end f);
          maxlength = (if again then Maxtrans c else max0)
      in case rr minlength maxlength mult k of ((len, err), k1) \<Rightarrow>
           if err then Inr (None, k1)
           else
             (case (if overlap c \<and> lastend > laststart
                    then (case rr 1 (s32 (lastend - laststart)) 1 k1 of ((n, _), k2) \<Rightarrow> (s32 (s32 (laststart - len) + n), k2))
                    else (s32 (laststart - len), k1)) of (offset0, k2) \<Rightarrow>
                if offset0 \<noteq> 0 \<and> mult = 0 then Inl Fault
                else Inr (Some (if offset0 \<noteq> 0 \<and> c_rem offset0 mult \<noteq> 0 then s32 (offset0 - c_rem offset0 mult) else offset0, len), k2)))"

definition choose_random ::
  "'k random_range \<Rightarrow> iogen_cfg \<Rightarrow> file_info \<Rightarrow> int \<Rightarrow> 'k \<Rightarrow> halt + (int \<times> int) option \<times> 'k" where
  "choose_random rr c f mult k =
     (let laststart = f_lastoffset f; lastend = last_end f in
      case rr (Mintrans c) (Maxtrans c) mult k of ((len, _), k1) \<Rightarrow>
        let near = overlap c \<and> lastend > laststart;
            minoffset = (if near then s32 (s32 (laststart - len) + 1) else 0);
            maxoffset = (if near \<and> \<not> s32 (lastend + len) > f_length f then lastend else s32 (f_length f - len))
        in case rr (max 0 minoffset) maxoffset mult k1 of ((offset, err), k2) \<Rightarrow>
             Inr (if err then None else Some (offset, len), k2))"

definition choose_range ::
  "'k random_range \<Rightarrow> iogen_cfg \<Rightarrow> file_info \<Rightarrow> int \<Rightarrow> 'k \<Rightarrow> halt + (int \<times> int) option \<times> 'k" where
  "choose_range rr c f mult k =
     (case Offset_Mode c of
        M_SEQUENTIAL \<Rightarrow> choose_sequential rr c f mult k
      | M_REVERSE \<Rightarrow> choose_reverse rr c f mult k
      | M_RANDOM \<Rightarrow> choose_random rr c f mult k)"

text \<open>The unit that offsets and lengths are multiples of.\<close>

definition unit_of :: "file_info \<Rightarrow> int strmap \<Rightarrow> int" where
  "unit_of f flags = (if f_type f = S_IFREG \<and> m_flags flags AND FLG_RAW \<noteq> 0 then f_riou f else f_iou f)"

text \<open>Requests of several strides: their length and number, from the whole length.\<close>

definition strides ::
  "'k random_range \<Rightarrow> iogen_cfg \<Rightarrow> int \<Rightarrow> int \<Rightarrow> 'k \<Rightarrow> halt + (int \<times> int) option \<times> 'k" where
  "strides rr c len mult k =
     (if mult = 0 then Inl Fault else
      let maxstride = min (c_div len mult) (Maxstrides c);
          minstride = (if Minstrides c = 0 then 1 else Minstrides c) in
      case rr minstride maxstride 1 k of ((n, err), k1) \<Rightarrow>
        if err then Inr (None, k1)
        else if n = 0 then Inl Fault
        else
          (let slen0 = c_div len n in
           if c_rem slen0 mult = 0 then Inr (Some (slen0, n), k1)
           else
             (let slen = (if mult > slen0 then mult else slen0 - c_rem slen0 mult)
              in Inr (Some (slen, min (c_div len slen) (Maxstrides c)), k1))))"

definition multi_stride :: "rtype \<Rightarrow> bool" where
  "multi_stride t \<longleftrightarrow> t = LSREAD \<or> t = LSREADA \<or> t = LEREAD \<or> t = LEREADA
     \<or> t = LSWRITE \<or> t = LSWRITEA \<or> t = LEWRITE \<or> t = LEWRITEA"

text \<open>The access mode a request of a type opens its file with.\<close>

definition access_mode :: "rtype strmap \<Rightarrow> int" where
  "access_mode sc =
     (if m_value sc = READ \<or> m_value sc = READA then O_RDONLY
      else if m_value sc = WRITE \<or> m_value sc = WRITEA then O_WRONLY
      else if m_value sc = MMAPR \<or> m_value sc = MMAPW
        then (if m_flags sc AND SY_WRITE \<noteq> 0 then O_RDWR else O_RDONLY)
      else (if m_flags sc AND SY_WRITE \<noteq> 0 then O_WRONLY else O_RDONLY))"

text \<open>The types of which the data of the request are filled in.\<close>

definition plain_type :: "rtype \<Rightarrow> bool" where
  "plain_type t \<longleftrightarrow> t \<in> {READ, READA, WRITE, WRITEA, READV, AREAD, PREAD, WRITEV, AWRITE, PWRITE, LREAD, LREADA, LWRITE,
     LWRITEA, RESVSP, UNRESVSP, FSYNC2, FDATASYNC, MMAPR, MMAPW}"

definition filled_req ::
  "file_info \<Rightarrow> rtype strmap \<Rightarrow> int strmap \<Rightarrow> int strmap option \<Rightarrow> int \<Rightarrow> int \<Rightarrow> int \<Rightarrow> io_req" where
  "filled_req f sc flags strat pattern offset len =
     \<lparr>r_type = m_value sc, r_magic = 0, r_file = f_path f, r_oflags = access_mode sc OR m_value flags,
      r_offset = offset, r_nbytes = len, r_pattern = (if m_value sc = READ \<or> m_value sc = READA then 0 else pattern),
      r_uflags = (if m_flags flags AND FLG_RAW \<noteq> 0 then F_WORD_ALIGNED else 0),
      r_aio_strat = (case strat of None \<Rightarrow> 0 | Some e \<Rightarrow> m_value e), r_nstrides = 1, r_nent = 1\<rparr>"

text \<open>
  \<open>None\<close> when \<open>form_iorequest\<close> returns -1. A path that fills the buffer of the request overruns it.
\<close>

definition form_iorequest ::
  "'k random_range \<Rightarrow> iogen_cfg \<Rightarrow> file_info list \<Rightarrow> 'k \<Rightarrow> halt + io_req option \<times> file_info list \<times> 'k" where
  "form_iorequest rr c fl k =
     on_ok (pick rr (Syscall_List c) k) (\<lambda>((sc, _), k1).
     on_ok (if m_flags sc AND SY_WRITE \<noteq> 0 then on_ok (pick rr Byte_Patterns k1) (\<lambda>((p, _), k2). Inr (p, k2))
            else Inr (0, k1)) (\<lambda>(pattern, k2).
     on_ok (pick rr fl k2) (\<lambda>((f, i), k3).
     on_ok (pick rr (Flag_List c) k3) (\<lambda>((flags, _), k4).
       let mult = unit_of f flags in
       on_ok (choose_range rr c f mult k4) (\<lambda>(chosen, k5).
          case chosen of
            None \<Rightarrow> Inr (None, fl, k5)
          | Some (offset, len) \<Rightarrow>
              let fl1 = fl[i := f\<lparr>f_lastoffset := offset, f_lastlength := len\<rparr>] in
              on_ok (if m_flags sc AND SY_ASYNC \<noteq> 0
                     then on_ok (pick rr (Aio_Strat_List c) k5) (\<lambda>((s, _), k6). Inr (Some s, k6))
                     else Inr (None, k5)) (\<lambda>(strat, k6).
                if \<not> plain_type (m_value sc) \<and> \<not> multi_stride (m_value sc)
                then Inr (Some (no_req\<lparr>r_type := m_value sc\<rparr>), fl1, k6)
                else if MAX_FNAME_LENGTH \<le> length (f_path f) then Inl Fault
                else
                  (let req = filled_req f sc flags strat pattern offset len in
                   if multi_stride (m_value sc) then
                     on_ok (strides rr c len mult k6) (\<lambda>(sn, k7).
                       case sn of
                         None \<Rightarrow> Inr (None, fl1, k7)
                       | Some (slen, n) \<Rightarrow>
                           Inr (Some (if m_flags sc AND SY_NENT \<noteq> 0 then req\<lparr>r_nbytes := slen, r_nent := n\<rparr>
                                      else req\<lparr>r_nbytes := slen, r_nstrides := n\<rparr>), fl1, k7))
                   else Inr (Some req, fl1, k6))))))))"

text \<open>
  The loop of \<open>main\<close> over \<open>n\<close> iterations: what is written to the pipe. An iteration whose request cannot be
  formed writes nothing.
\<close>

fun iogen_loop ::
  "'k random_range \<Rightarrow> iogen_cfg \<Rightarrow> nat \<Rightarrow> file_info list \<Rightarrow> 'k \<Rightarrow> halt + io_req list \<times> file_info list \<times> 'k" where
  "iogen_loop rr c 0 fl k = Inr ([], fl, k)"
| "iogen_loop rr c (Suc n) fl k =
     on_ok (form_iorequest rr c fl k) (\<lambda>(r, fl1, k1).
     on_ok (iogen_loop rr c n fl1 k1) (\<lambda>(rs, fl2, k2).
       Inr ((case r of None \<Rightarrow> rs | Some req \<Rightarrow> req\<lparr>r_magic := DOIO_MAGIC\<rparr> # rs), fl2, k2)))"

end
