(* ===== verification/Iog_Request_Ok.thy ===== *)
theory Iog_Request_Ok
  imports Iog_Request
begin

text \<open>
  The requests of \<open>iogen\<close> lie in their files and are multiples of the unit, whatever the mode, and the
  place it remembers of the last request stays in the file.
\<close>

section \<open>The generator of random numbers\<close>

locale random_ranges =
  fixes rr :: "'k random_range"
  assumes in_range: "rr lo hi m k = ((n, err), k') \<Longrightarrow> 0 < m \<Longrightarrow> lo \<le> hi \<Longrightarrow>
      if \<exists>q. lo \<le> q * m \<and> q * m \<le> hi then \<not> err \<and> lo \<le> n \<and> n \<le> hi \<and> m dvd n else err"
begin

lemma one_in_range: "rr lo hi 1 k = ((n, err), k') \<Longrightarrow> lo \<le> hi \<Longrightarrow> lo \<le> n \<and> n \<le> hi"
  using in_range[of lo hi 1 k n err k'] by (auto split: if_splits)

lemma found: "rr lo hi m k = ((n, err), k') \<Longrightarrow> 0 < m \<Longrightarrow> lo \<le> hi \<Longrightarrow> \<not> err \<Longrightarrow> lo \<le> n \<and> n \<le> hi \<and> m dvd n"
  using in_range[of lo hi m k n err k'] by (auto split: if_splits)

lemma exists_found:
  "rr lo hi m k = ((n, err), k') \<Longrightarrow> 0 < m \<Longrightarrow> lo \<le> q * m \<Longrightarrow> q * m \<le> hi \<Longrightarrow> \<not> err \<and> lo \<le> n \<and> n \<le> hi \<and> m dvd n"
  using in_range[of lo hi m k n err k'] by (auto split: if_splits)

lemma pick_ok:
  assumes "xs \<noteq> []"
  obtains i k1 where "pick rr xs k = Inr ((xs ! i, i), k1)" "i < length xs"
proof -
  obtain n err k1 where r: "rr 0 (int (length xs) - 1) 1 k = ((n, err), k1)" by (metis prod.exhaust)
  have "0 \<le> n" "n < int (length xs)" using one_in_range[OF r] assms by (cases xs; simp)+
  then show thesis using r by (intro that[of "nat n" k1]) (auto simp: pick_def)
qed

end

section \<open>What a file keeps\<close>

definition units_ok :: "iogen_cfg \<Rightarrow> int \<Rightarrow> bool" where
  "units_ok c m \<longleftrightarrow> 0 < m \<and> m \<le> Maxtrans c \<and> Mintrans c \<le> round_down (Maxtrans c) m"

text \<open>In random mode with \<open>-o\<close> the end of the last request and the longest length have a sum in \<open>int\<close>.\<close>

definition sum_fits :: "iogen_cfg \<Rightarrow> file_info \<Rightarrow> bool" where
  "sum_fits c f \<longleftrightarrow> (Offset_Mode c = M_RANDOM \<and> overlap c \<longrightarrow> f_length f + Maxtrans c \<le> 2147483648)"

definition file_ok :: "iogen_cfg \<Rightarrow> file_info \<Rightarrow> bool" where
  "file_ok c f \<longleftrightarrow> 0 \<le> f_lastoffset f \<and> 0 \<le> f_lastlength f \<and> f_lastoffset f + f_lastlength f \<le> f_length f
     \<and> Maxtrans c \<le> f_length f \<and> units_ok c (f_iou f) \<and> units_ok c (f_riou f) \<and> 0 \<le> Mintrans c
     \<and> f_length f < 2147483648 \<and> sum_fits c f"

lemma last_end_place:
  "file_ok c f \<Longrightarrow> last_end f = f_lastoffset f + f_lastlength f - 1"
  by (simp add: file_ok_def last_end_def s32_id)

text \<open>A range for the file: \<open>least\<close> is the least length.\<close>

definition fits :: "iogen_cfg \<Rightarrow> file_info \<Rightarrow> int \<Rightarrow> int \<times> int \<Rightarrow> bool" where
  "fits c f m = (\<lambda>(offset, len). m dvd offset \<and> m dvd len \<and> 0 \<le> offset \<and> offset + len \<le> f_length f
     \<and> Mintrans c \<le> len \<and> len \<le> Maxtrans c)"

lemma round_up_dvd:
  fixes x m :: int
  assumes "0 \<le> x" and "0 < m"
  shows "m dvd (if x \<noteq> 0 \<and> c_rem x m \<noteq> 0 then x + (m - c_rem x m) else x)"
    "0 \<le> (if x \<noteq> 0 \<and> c_rem x m \<noteq> 0 then x + (m - c_rem x m) else x)"
proof -
  have "x + (m - x mod m) = m * (x div m + 1)" by (simp add: algebra_simps minus_mod_eq_mult_div[symmetric])
  then have "m dvd x + (m - x mod m)" by (metis dvd_triv_left)
  moreover have "x mod m < m" using assms(2) by simp
  then have "0 \<le> x + (m - x mod m)" using assms(1) by linarith
  with calculation show "m dvd (if x \<noteq> 0 \<and> c_rem x m \<noteq> 0 then x + (m - c_rem x m) else x)"
    "0 \<le> (if x \<noteq> 0 \<and> c_rem x m \<noteq> 0 then x + (m - c_rem x m) else x)"
    using assms by (auto simp: c_rem_nonneg intro: mod_0_imp_dvd)
qed

lemma round_down_rem:
  fixes x m :: int
  assumes "0 \<le> x" and "0 < m"
  shows "(if x \<noteq> 0 \<and> c_rem x m \<noteq> 0 then x - c_rem x m else x) = round_down x m"
  using assms by (auto simp: c_rem_nonneg round_down_def minus_mod_eq_div_mult)

text \<open>
  The next place in sequential mode: where rounding up to the unit wraps, the place is behind the end of the
  file, and the wrapped difference from the length says so.
\<close>

lemma s32_minus_s32: "s32 (x - s32 y) = s32 (x - y)"
proof -
  have "(x - ((y + 2147483648) mod 4294967296 - 2147483648) + 2147483648) mod 4294967296
      = (x + 4294967296 - (y + 2147483648) mod 4294967296) mod 4294967296" by (simp add: algebra_simps)
  also have "\<dots> = (x + 4294967296 - (y + 2147483648)) mod 4294967296" by (rule mod_diff_right_eq)
  finally show ?thesis by (simp add: s32_def algebra_simps)
qed

lemma next_offset:
  fixes x m n l :: int
  assumes x: "0 \<le> x" "x \<le> n" "n < 2147483648" and m: "0 < m" "m < 2147483648" and l: "0 < l"
  defines "w \<equiv> (if x \<noteq> 0 \<and> c_rem x m \<noteq> 0 then s32 (x + s32 (m - c_rem x m)) else x)"
    and "u \<equiv> (if x \<noteq> 0 \<and> c_rem x m \<noteq> 0 then x + (m - c_rem x m) else x)"
  shows "(if l > s32 (n - w) then 0 else w) = (if l > n - u then 0 else u)"
proof -
  have rem: "0 \<le> c_rem x m" "c_rem x m < m" using x m by (simp_all add: c_rem_nonneg)
  then have "0 \<le> m - c_rem x m" "m - c_rem x m < 2147483648" using m by linarith+
  then have "s32 (m - c_rem x m) = m - c_rem x m" by (simp add: s32_id)
  then have w: "w = s32 u" using x by (simp add: w_def u_def s32_id)
  have u: "0 \<le> u" "u \<le> x + m" using x(1) rem m(1) by (auto simp: u_def)
  then have "s32 (n - w) = n - u" using x m by (simp add: w s32_minus_s32 s32_id)
  moreover have "s32 u = u" if "l \<le> n - u" using that u l x by (simp add: s32_id)
  ultimately show ?thesis by (simp add: w)
qed

section \<open>What the program starts from\<close>

text \<open>The lists of the command line; the calls are those of the table.\<close>

definition lists_ok :: "iogen_cfg \<Rightarrow> bool" where
  "lists_ok c \<longleftrightarrow> Syscall_List c \<noteq> [] \<and> Flag_List c \<noteq> [] \<and> set (Syscall_List c) \<subseteq> set Syscall_Map"

definition files_ok :: "iogen_cfg \<Rightarrow> file_info list \<Rightarrow> bool" where
  "files_ok c fl \<longleftrightarrow> fl \<noteq> [] \<and> list_all (\<lambda>f. file_ok c f \<and> length (f_path f) < MAX_FNAME_LENGTH) fl"

text \<open>A file without the place of its last request.\<close>

definition still :: "file_info \<Rightarrow> file_info" where
  "still f = f\<lparr>f_lastoffset := 0, f_lastlength := 0\<rparr>"

definition unit_of_request :: "file_info \<Rightarrow> io_req \<Rightarrow> int" where
  "unit_of_request f q = (if f_type f = S_IFREG \<and> r_uflags q \<noteq> 0 then f_riou f else f_iou f)"

definition in_file :: "iogen_cfg \<Rightarrow> file_info list \<Rightarrow> io_req \<Rightarrow> bool" where
  "in_file c fl q \<longleftrightarrow> list_ex (\<lambda>f. r_file q = f_path f \<and> 0 \<le> r_offset q \<and> r_offset q + r_nbytes q \<le> f_length f
     \<and> Mintrans c \<le> r_nbytes q \<and> r_nbytes q \<le> Maxtrans c
     \<and> unit_of_request f q dvd r_offset q \<and> unit_of_request f q dvd r_nbytes q) fl"

text \<open>A request made from an entry of each table.\<close>

definition formed :: "iogen_cfg \<Rightarrow> io_req \<Rightarrow> bool" where
  "formed c q \<longleftrightarrow> r_nstrides q = 1 \<and> r_nent q = 1 \<and> list_ex (\<lambda>sc. r_type q = m_value sc \<and>
     list_ex (\<lambda>fl. r_oflags q = access_mode sc OR m_value fl \<and> r_uflags q = (if m_flags fl AND FLG_RAW \<noteq> 0 then F_WORD_ALIGNED else 0))
       (Flag_List c)) (Syscall_List c)"

lemma in_file_still:
  assumes "map still fl = map still fl1"
  shows "in_file c fl q = in_file c fl1 q"
proof -
  have same: "in_file c fl q = list_ex (\<lambda>f. r_file q = f_path f \<and> 0 \<le> r_offset q \<and> r_offset q + r_nbytes q \<le> f_length f
     \<and> Mintrans c \<le> r_nbytes q \<and> r_nbytes q \<le> Maxtrans c
     \<and> unit_of_request f q dvd r_offset q \<and> unit_of_request f q dvd r_nbytes q) (map still fl)" for fl
    by (simp add: in_file_def list_ex_iff still_def unit_of_request_def)
  show ?thesis unfolding same[of fl] same[of fl1] assms ..
qed

lemma all_plain: "list_all (\<lambda>sc. plain_type (m_value sc) \<and> \<not> multi_stride (m_value sc) \<and> m_flags sc AND SY_ASYNC = 0) Syscall_Map"
  by code_simp

lemma plain_calls: "sc \<in> set Syscall_Map \<Longrightarrow> plain_type (m_value sc) \<and> \<not> multi_stride (m_value sc) \<and> m_flags sc AND SY_ASYNC = 0"
  using all_plain by (simp add: list_all_iff)

lemma patterns: "Byte_Patterns \<noteq> []"
  by (simp add: Byte_Patterns_def)

lemma fits_place:
  "file_ok c f \<Longrightarrow> fits c f m (offset, len) \<Longrightarrow> file_ok c (f\<lparr>f_lastoffset := offset, f_lastlength := len\<rparr>)"
  by (simp add: file_ok_def fits_def sum_fits_def)

lemma files_place:
  assumes "files_ok c fl" and "i < length fl" and "fits c (fl ! i) m (offset, len)"
  shows "files_ok c (fl[i := (fl ! i)\<lparr>f_lastoffset := offset, f_lastlength := len\<rparr>])"
    and "map still (fl[i := (fl ! i)\<lparr>f_lastoffset := offset, f_lastlength := len\<rparr>]) = map still fl"
proof -
  show "files_ok c (fl[i := (fl ! i)\<lparr>f_lastoffset := offset, f_lastlength := len\<rparr>])"
    using assms fits_place by (auto simp: files_ok_def list_all_length nth_list_update)
  show "map still (fl[i := (fl ! i)\<lparr>f_lastoffset := offset, f_lastlength := len\<rparr>]) = map still fl"
    using assms(2) by (simp add: list_eq_iff_nth_eq nth_list_update still_def)
qed

text \<open>
  No multiple of the unit is between the least length and what is left of a file behind its last request, and
  what is left is not too little to start again from the beginning.
\<close>

definition next_place :: "file_info \<Rightarrow> int \<Rightarrow> int" where
  "next_place f m = (let e = f_lastoffset f + f_lastlength f in
     if e \<noteq> 0 \<and> c_rem e m \<noteq> 0 then e + (m - c_rem e m) else e)"

definition no_length_left :: "iogen_cfg \<Rightarrow> file_info \<Rightarrow> int \<Rightarrow> bool" where
  "no_length_left c f m \<longleftrightarrow> max (Mintrans c) m \<le> f_length f - next_place f m
     \<and> round_down (min (f_length f - next_place f m) (Maxtrans c)) m < max (Mintrans c) m"

context random_ranges
begin

lemma choose_sequential_ok:
  assumes f: "file_ok c f" and m: "units_ok c m"
    and "choose_sequential rr c f m k = Inr (Some r, k')"
  shows "fits c f m r"
proof -
  obtain offset0 k1 where o: "(if overlap c \<and> last_end f > f_lastoffset f
      then (case rr (f_lastoffset f) (last_end f) 1 k of ((n, _), k1) \<Rightarrow> (n, k1))
      else (s32 (last_end f + 1), k)) = (offset0, k1)" by (metis prod.exhaust)
  note e = last_end_place[OF f]
  have "s32 (last_end f + 1) = f_lastoffset f + f_lastlength f" using f e by (simp add: file_ok_def s32_id)
  then have o0: "0 \<le> offset0" "offset0 \<le> f_length f"
    using o f e one_in_range[of "f_lastoffset f" "last_end f" k]
    by (fastforce simp: file_ok_def split: if_splits prod.splits)+
  have m0: "0 < m" "m \<le> Maxtrans c" using m by (simp_all add: units_ok_def)
  have small: "f_length f < 2147483648" "m < 2147483648" using f m0 by (simp_all add: file_ok_def)
  define offset1 where "offset1 = (if offset0 \<noteq> 0 \<and> c_rem offset0 m \<noteq> 0 then offset0 + (m - c_rem offset0 m) else offset0)"
  note o1 = round_up_dvd[OF o0(1) m0(1), folded offset1_def]
  let ?min = "max (Mintrans c) m"
  define offset where "offset = (if ?min > f_length f - offset1 then 0 else offset1)"
  have "0 < ?min" using m0(1) by simp
  note place_eq = next_offset[OF o0 small(1) m0(1) small(2) this, folded offset1_def offset_def]
  have "0 \<le> offset" "offset \<le> f_length f" using o1 m0(1) f by (auto simp: offset_def file_ok_def)
  then have left: "s32 (f_length f - offset) = f_length f - offset" using small by (simp add: s32_id)
  let ?max = "min (f_length f - offset) (Maxtrans c)"
  obtain len err k2 where r: "rr ?min ?max m k1 = ((len, err), k2)" by (metis prod.exhaust)
  have "choose_sequential rr c f m k = Inr (if err then None else Some (offset, len), k2)"
    using m0(1) unfolding choose_sequential_def Let_def o prod.case place_eq left r by simp
  then have res: "\<not> err" "r = (offset, len)" using assms(3) by (auto split: if_splits)
  have "?min \<le> Maxtrans c" using m m0 round_down_le[OF m0(1), of "Maxtrans c"] by (simp add: units_ok_def)
  then have "?min \<le> ?max" using f by (auto simp: offset_def file_ok_def)
  from found[OF r m0(1) this res(1)] show ?thesis
    using o1 by (auto simp: fits_def res(2) offset_def)
qed

lemma choose_reverse_ok:
  assumes f: "file_ok c f" and m: "units_ok c m"
    and "choose_reverse rr c f m k = Inr (Some r, k')"
  shows "fits c f m r"
proof -
  have m0: "0 < m" "m \<le> Maxtrans c" using m by (simp_all add: units_ok_def)
  let ?min = "max (Mintrans c) m"
  define again where "again \<longleftrightarrow> ?min > min (f_lastoffset f) (Maxtrans c)"
  define start where "start = (if again then f_length f else f_lastoffset f)"
  define last where "last = (if again then f_length f else last_end f)"
  note e = last_end_place[OF f]
  define top where "top = (if again then Maxtrans c else min (f_lastoffset f) (Maxtrans c))"
  have "?min \<le> Maxtrans c" using m m0 round_down_le[OF m0(1), of "Maxtrans c"] by (simp add: units_ok_def)
  then have top: "?min \<le> top" "top \<le> Maxtrans c" "top \<le> start" using f by (auto simp: top_def again_def start_def file_ok_def)
  have last: "start \<le> f_length f" "start < last \<Longrightarrow> last \<le> f_length f"
    using f e by (auto simp: start_def last_def file_ok_def)
  have small: "0 \<le> start" "f_length f < 2147483648" using f by (auto simp: start_def file_ok_def)
  obtain len err k1 where r: "rr ?min top m k = ((len, err), k1)" by (metis prod.exhaust)
  have "choose_reverse rr c f m k = (if err then Inr (None, k1)
      else (case (if overlap c \<and> last > start
                  then (case rr 1 (s32 (last - start)) 1 k1 of ((n, _), k2) \<Rightarrow> (s32 (s32 (start - len) + n), k2))
                  else (s32 (start - len), k1)) of (offset0, k2) \<Rightarrow>
              Inr (Some (if offset0 \<noteq> 0 \<and> c_rem offset0 m \<noteq> 0 then s32 (offset0 - c_rem offset0 m) else offset0, len), k2)))"
    using m0(1)
    unfolding choose_reverse_def Let_def again_def[symmetric] start_def[symmetric] last_def[symmetric] top_def[symmetric] r
    by (simp cong: prod.case_cong)
  then obtain offset0 k2 where err: "\<not> err"
    and o: "(if overlap c \<and> last > start
        then (case rr 1 (s32 (last - start)) 1 k1 of ((n, _), k2) \<Rightarrow> (s32 (s32 (start - len) + n), k2))
        else (s32 (start - len), k1)) = (offset0, k2)"
    and r': "r = (if offset0 \<noteq> 0 \<and> c_rem offset0 m \<noteq> 0 then s32 (offset0 - c_rem offset0 m) else offset0, len)"
    using assms(3) by (auto split: if_splits prod.splits)
  note len = found[OF r m0(1) top(1) err]
  have "s32 (start - len) = start - len" using len m0 top(3) last(1) small by (simp add: s32_id)
  note d = this
  have place: "0 \<le> offset0 \<and> offset0 + len \<le> f_length f"
  proof (cases "overlap c \<and> last > start")
    case True
    then have "s32 (last - start) = last - start" using last small by (simp add: s32_id)
    then obtain n e k3 where n: "rr 1 (s32 (last - start)) 1 k1 = ((n, e), k3)" "rr 1 (last - start) 1 k1 = ((n, e), k3)"
      by (metis prod.exhaust)
    have "1 \<le> n" "n \<le> last - start" using one_in_range[OF n(2)] True by simp_all
    moreover from this have "s32 (start - len + n) = start - len + n"
      using True len m0 top(3) last small by (simp add: s32_id)
    ultimately show ?thesis using o n True len top last d by auto
  next
    case False
    then show ?thesis using o len top last d by auto
  qed
  moreover have "s32 (offset0 - c_rem offset0 m) = offset0 - c_rem offset0 m"
  proof (rule s32_id)
    have "c_rem offset0 m = offset0 mod m" "0 \<le> offset0 mod m" "offset0 mod m \<le> offset0"
      using place m0(1) by (simp_all add: c_rem_nonneg zmod_le_nonneg_dividend)
    then show "-2147483648 \<le> offset0 - c_rem offset0 m" "offset0 - c_rem offset0 m < 2147483648"
      using place len m0(1) small(2) by linarith+
  qed
  with place have "r = (round_down offset0 m, len)"
    unfolding r' by (simp only: round_down_rem[OF conjunct1[OF place] m0(1)])
  ultimately show ?thesis
    using len top(2) round_down_dvd[of m offset0] round_down_le[OF m0(1), of offset0] round_down_nonneg[OF m0(1), of offset0]
    by (auto simp: fits_def)
qed

lemma choose_random_ok:
  assumes f: "file_ok c f" and m: "units_ok c m"
    and mode: "Offset_Mode c = M_RANDOM" and "choose_random rr c f m k = Inr (Some r, k')"
  shows "fits c f m r"
proof -
  have m0: "0 < m" "m \<le> Maxtrans c" using m by (simp_all add: units_ok_def)
  obtain len err0 k1 where r: "rr (Mintrans c) (Maxtrans c) m k = ((len, err0), k1)" by (metis prod.exhaust)
  have "round_down (Maxtrans c) m = (Maxtrans c div m) * m" by (simp add: round_down_def minus_mod_eq_div_mult)
  then have len: "Mintrans c \<le> len" "len \<le> Maxtrans c" "m dvd len"
    using exists_found[OF r m0(1), of "Maxtrans c div m"] m round_down_le[OF m0(1), of "Maxtrans c"]
    by (simp_all add: units_ok_def)
  define last where "last = last_end f"
  note e = last_end_place[OF f, folded last_def]
  define near where "near \<longleftrightarrow> overlap c \<and> last > f_lastoffset f"
  define lo where "lo = max 0 (if near then f_lastoffset f - len + 1 else 0)"
  define hi where "hi = (if near \<and> \<not> last + len > f_length f then last else f_length f - len)"
  have len0: "0 \<le> len" "len \<le> f_length f" using len f by (simp_all add: file_ok_def)
  have "s32 (f_lastoffset f - len) = f_lastoffset f - len" using len0 f by (simp add: file_ok_def s32_id)
  moreover have "near \<Longrightarrow> s32 (f_lastoffset f - len + 1) = f_lastoffset f - len + 1"
    using len0 f e by (simp add: near_def file_ok_def s32_id)
  ultimately have low: "(if near then s32 (s32 (f_lastoffset f - len) + 1) else 0) = (if near then f_lastoffset f - len + 1 else 0)"
    by simp
  have high: "s32 (f_length f - len) = f_length f - len" using len0 f by (simp add: file_ok_def s32_id)
  have "near \<Longrightarrow> s32 (last + len) = last + len"
    using f e mode len len0 by (simp add: near_def file_ok_def sum_fits_def s32_id)
  then have top: "(near \<and> \<not> s32 (last + len) > f_length f) = (near \<and> \<not> last + len > f_length f)" by auto
  obtain offset err k2 where o: "rr lo hi m k1 = ((offset, err), k2)" by (metis prod.exhaust)
  have choice: "choose_random rr c f m k = Inr (if err then None else Some (offset, len), k2)"
    unfolding choose_random_def Let_def last_def[symmetric] near_def[symmetric] r prod.case low high top
      lo_def[symmetric] hi_def[symmetric] o by simp
  have res: "\<not> err" "r = (offset, len)"
    using assms(4) by (auto simp: choice split: if_splits)
  have "lo \<le> hi" using f len len0 e by (auto simp: lo_def hi_def near_def file_ok_def)
  moreover have "0 \<le> lo" "hi + len \<le> f_length f" by (auto simp: lo_def hi_def)
  ultimately show ?thesis using found[OF o m0(1) _ res(1)] len by (auto simp: fits_def res(2))
qed

lemma choose_range_ok:
  "file_ok c f \<Longrightarrow> units_ok c m \<Longrightarrow> choose_range rr c f m k = Inr (Some r, k') \<Longrightarrow> fits c f m r"
  using choose_sequential_ok choose_reverse_ok choose_random_ok
  by (auto simp: choose_range_def split: offset_mode.splits)

lemma choose_range_runs:
  assumes "units_ok c m"
  shows "\<exists>r k'. choose_range rr c f m k = Inr (r, k')"
proof -
  have m: "m \<noteq> 0" using assms by (simp add: units_ok_def)
  have "\<exists>r k'. choose_sequential rr c f m k = Inr (r, k')"
    by (simp only: choose_sequential_def Let_def case_prod_beta m simp_thms if_False sum.inject prod.inject) blast
  moreover have "\<exists>r k'. choose_reverse rr c f m k = Inr (r, k')"
    by (simp only: choose_reverse_def Let_def case_prod_beta m simp_thms if_False sum.inject prod.inject
        if_distrib[of Inr, symmetric]) (metis prod.exhaust)
  moreover have "\<exists>r k'. choose_random rr c f m k = Inr (r, k')"
    by (simp only: choose_random_def Let_def case_prod_beta sum.inject prod.inject) blast
  ultimately show ?thesis by (cases "Offset_Mode c") (simp_all add: choose_range_def)
qed

lemma form_iorequest_ok:
  assumes l: "lists_ok c" and fl: "files_ok c fl"
  shows "\<exists>r fl1 k1. form_iorequest rr c fl k = Inr (r, fl1, k1) \<and> files_ok c fl1 \<and> map still fl1 = map still fl
    \<and> (\<forall>q. r = Some q \<longrightarrow> in_file c fl q \<and> formed c q)"
proof -
  obtain j k1 where sc: "pick rr (Syscall_List c) k = Inr ((Syscall_List c ! j, j), k1)" "j < length (Syscall_List c)"
    using pick_ok l by (metis lists_ok_def)
  define call where "call = Syscall_List c ! j"
  have plain: "plain_type (m_value call)" "\<not> multi_stride (m_value call)" "m_flags call AND SY_ASYNC = 0"
    using plain_calls[of call] sc(2) l nth_mem by (auto simp: lists_ok_def call_def)
  obtain b k2' where b: "pick rr Byte_Patterns k1 = Inr ((Byte_Patterns ! b, b), k2')" 
    using pick_ok patterns by metis
  obtain p k2 where p: "(if m_flags call AND SY_WRITE \<noteq> 0 then on_ok (pick rr Byte_Patterns k1) (\<lambda>((p, _), k2). Inr (p, k2))
      else Inr (0, k1)) = Inr (p, k2)"
    using b by (cases "m_flags call AND SY_WRITE \<noteq> 0") (simp_all add: on_ok_def)
  obtain i k3 where f: "pick rr fl k2 = Inr ((fl ! i, i), k3)" "i < length fl"
    using pick_ok fl by (metis files_ok_def)
  obtain g k4 where fg: "pick rr (Flag_List c) k3 = Inr ((Flag_List c ! g, g), k4)" and g: "g < length (Flag_List c)"
    using pick_ok l by (metis lists_ok_def)
  define flags where "flags = Flag_List c ! g"
  define m where "m = unit_of (fl ! i) flags"
  have fine: "file_ok c (fl ! i)" "length (f_path (fl ! i)) < MAX_FNAME_LENGTH"
    using fl f(2) by (auto simp: files_ok_def list_all_length)
  have m: "units_ok c m" using fine(1) by (simp add: m_def unit_of_def file_ok_def)
  obtain r k5 where r: "choose_range rr c (fl ! i) m k4 = Inr (r, k5)" using choose_range_runs[OF m] by metis
  note steps = sc(1)[folded call_def] p f(1) fg[folded flags_def]
  show ?thesis
  proof (cases r)
    case None
    then have "form_iorequest rr c fl k = Inr (None, fl, k5)"
      using steps r unfolding form_iorequest_def by (simp add: m_def[symmetric] on_ok_def)
    then show ?thesis using fl by blast
  next
    case (Some ol)
    obtain offset len where ol: "ol = (offset, len)" by (cases ol)
    define fl1 where "fl1 = fl[i := (fl ! i)\<lparr>f_lastoffset := offset, f_lastlength := len\<rparr>]"
    have fits: "fits c (fl ! i) m (offset, len)" using choose_range_ok[OF fine(1) m] r Some ol by simp
    define q where "q = filled_req (fl ! i) call flags None p offset len"
    have "form_iorequest rr c fl k = Inr (Some q, fl1, k5)"
      using steps r Some ol plain fine(2) unfolding form_iorequest_def
      by (simp add: m_def[symmetric] fl1_def[symmetric] q_def[symmetric] on_ok_def Let_def)
    moreover have "in_file c fl q"
      using fits f(2) by (auto simp: in_file_def list_ex_length fits_def q_def filled_req_def unit_of_request_def m_def unit_of_def)
    moreover have "formed c q"
      unfolding formed_def list_ex_length q_def filled_req_def using sc(2) g by (auto simp: call_def flags_def)
    ultimately show ?thesis using files_place[OF fl f(2) fits] by (auto simp: fl1_def)
  qed
qed

lemma iogen_loop_ok:
  assumes "lists_ok c" and "files_ok c fl"
  shows "\<exists>rs fl1 k1. iogen_loop rr c n fl k = Inr (rs, fl1, k1) \<and> length rs \<le> n \<and>
    list_all (\<lambda>q. in_file c fl q \<and> formed c q \<and> r_magic q = DOIO_MAGIC) rs"
  using assms(2)
proof (induction n arbitrary: fl k)
  case 0
  then show ?case by simp
next
  case (Suc n)
  obtain r fl1 k1 where r: "form_iorequest rr c fl k = Inr (r, fl1, k1)" "files_ok c fl1" "map still fl1 = map still fl"
    "\<forall>q. r = Some q \<longrightarrow> in_file c fl q \<and> formed c q" using form_iorequest_ok[OF assms(1) Suc.prems, of k] by blast
  obtain rs fl2 k2 where rs: "iogen_loop rr c n fl1 k1 = Inr (rs, fl2, k2)" "length rs \<le> n"
    "list_all (\<lambda>q. in_file c fl1 q \<and> formed c q \<and> r_magic q = DOIO_MAGIC) rs" using Suc.IH[OF r(2), of k1] by blast
  have "in_file c fl q = in_file c fl1 q" for q using in_file_still r(3) by metis
  moreover have "in_file c fl (q\<lparr>r_magic := DOIO_MAGIC\<rparr>) = in_file c fl q" for q
    by (simp add: in_file_def unit_of_request_def)
  moreover have "formed c (q\<lparr>r_magic := DOIO_MAGIC\<rparr>) = formed c q" for q by (simp add: formed_def)
  ultimately show ?case using r(1,4) rs by (cases r) (auto simp: on_ok_def)
qed

lemma none_found:
  assumes "rr lo hi m k = ((n, err), k')" and "0 < m" and "lo \<le> hi" and "round_down hi m < lo"
  shows "err"
proof (rule ccontr)
  assume "\<not> err"
  from found[OF assms(1-3) this] have "m dvd n" "n \<le> hi" "lo \<le> n" by simp_all
  then have "round_down n m = n" by (simp add: round_down_id)
  moreover have "round_down n m \<le> round_down hi m" using \<open>n \<le> hi\<close> assms(2)
    by (simp add: round_down_def minus_mod_eq_div_mult zdiv_mono1)
  ultimately show False using assms(4) \<open>lo \<le> n\<close> by simp
qed

lemma form_iorequest_stuck:
  assumes l: "lists_ok c" and f: "files_ok c [f]" and mode: "Offset_Mode c = M_SEQUENTIAL" "\<not> overlap c"
    and m: "list_all (\<lambda>flags. unit_of f flags = m) (Flag_List c)" and none: "no_length_left c f m"
  shows "\<exists>k1. form_iorequest rr c [f] k = Inr (None, [f], k1)"
proof -
  obtain j k1 where sc: "pick rr (Syscall_List c) k = Inr ((Syscall_List c ! j, j), k1)"
    using pick_ok l by (metis lists_ok_def)
  define call where "call = Syscall_List c ! j"
  obtain b k2' where b: "pick rr Byte_Patterns k1 = Inr ((Byte_Patterns ! b, b), k2')"
    using pick_ok patterns by metis
  obtain p k2 where p: "(if m_flags call AND SY_WRITE \<noteq> 0 then on_ok (pick rr Byte_Patterns k1) (\<lambda>((p, _), k2). Inr (p, k2))
      else Inr (0, k1)) = Inr (p, k2)"
    using b by (cases "m_flags call AND SY_WRITE \<noteq> 0") (simp_all add: on_ok_def)
  obtain i k3 where i: "pick rr [f] k2 = Inr (([f] ! i, i), k3)" "i < length [f]"
    using pick_ok[of "[f]" k2] by blast
  obtain g k4 where fg: "pick rr (Flag_List c) k3 = Inr ((Flag_List c ! g, g), k4)" "g < length (Flag_List c)"
    using pick_ok l by (metis lists_ok_def)
  define flags where "flags = Flag_List c ! g"
  have unit: "unit_of f flags = m" using m fg(2) by (simp add: list_all_length flags_def)
  have "units_ok c m" using f unit by (auto simp: files_ok_def file_ok_def unit_of_def split: if_splits)
  then have m0: "0 < m" "m \<noteq> 0" by (simp_all add: units_ok_def)
  define place where "place = next_place f m"
  have place: "(if f_lastoffset f + f_lastlength f \<noteq> 0 \<and> c_rem (f_lastoffset f + f_lastlength f) m \<noteq> 0
      then f_lastoffset f + f_lastlength f + (m - c_rem (f_lastoffset f + f_lastlength f) m)
      else f_lastoffset f + f_lastlength f) = place" by (simp add: place_def next_place_def Let_def)
  let ?hi = "min (f_length f - place) (Maxtrans c)"
  obtain len err k5 where r: "rr (max (Mintrans c) m) ?hi m k4 = ((len, err), k5)" by (metis prod.exhaust)
  have left: "max (Mintrans c) m \<le> f_length f - place" "round_down ?hi m < max (Mintrans c) m"
    using none by (simp_all add: no_length_left_def place_def)
  have "Mintrans c \<le> Maxtrans c" using \<open>units_ok c m\<close> round_down_le[OF m0(1), of "Maxtrans c"]
    by (simp add: units_ok_def)
  then have "max (Mintrans c) m \<le> ?hi" using left(1) \<open>units_ok c m\<close> by (simp add: units_ok_def)
  then have err: "err" using none_found[OF r m0(1) _ left(2)] by simp
  have fok: "file_ok c f" using f by (simp add: files_ok_def)
  have small: "0 \<le> f_lastoffset f + f_lastlength f" "f_lastoffset f + f_lastlength f \<le> f_length f"
    "f_length f < 2147483648" "m < 2147483648"
    using fok \<open>units_ok c m\<close> by (simp_all add: file_ok_def units_ok_def)
  have e1: "s32 (last_end f + 1) = f_lastoffset f + f_lastlength f"
    using small by (simp add: last_end_place[OF fok] s32_id)
  have "0 < max (Mintrans c) m" using m0(1) by simp
  note place_eq = next_offset[OF small(1-3) m0(1) small(4) this, unfolded place]
  have "0 \<le> place" unfolding place[symmetric] by (rule round_up_dvd[OF small(1) m0(1)])
  then have room: "s32 (f_length f - place) = f_length f - place" using left(1) m0(1) small(3) by (simp add: s32_id)
  have "choose_sequential rr c f m k4 = Inr (None, k5)"
    unfolding choose_sequential_def Let_def
    using m0(2) mode(2) left(1)
    by (simp only: simp_thms if_False prod.case e1 place_eq linorder_not_less if_not_P) (simp add: r err room)
  then have "choose_range rr c f m k4 = Inr (None, k5)" using mode(1) by (simp add: choose_range_def)
  then have "form_iorequest rr c [f] k = Inr (None, [f], k5)"
    using sc[folded call_def] p i fg(1)[folded flags_def] unit
    unfolding form_iorequest_def by (simp add: on_ok_def)
  then show ?thesis by blast
qed

lemma iogen_loop_stuck:
  assumes "lists_ok c" and "files_ok c [f]" and "Offset_Mode c = M_SEQUENTIAL" and "\<not> overlap c"
    and "list_all (\<lambda>flags. unit_of f flags = m) (Flag_List c)" and "no_length_left c f m"
  shows "\<exists>k1. iogen_loop rr c n [f] k = Inr ([], [f], k1)"
proof (induction n arbitrary: k)
  case 0
  then show ?case by simp
next
  case (Suc n)
  obtain k1 where "form_iorequest rr c [f] k = Inr (None, [f], k1)" using form_iorequest_stuck[OF assms] by blast
  then show ?case using Suc.IH[of k1] by auto
qed

end

section \<open>A generator of random numbers\<close>

text \<open>A generator with a state, which also takes its bounds in the wrong order.\<close>

definition spread :: "int random_range" where
  "spread lo hi m k =
     (let first = - ((- min lo hi) div m); last = max lo hi div m in
      if m < 1 \<or> last < first then ((-1, True), k)
      else (((first + k mod (last - first + 1)) * m, False), (k * 1103515245 + 12345) mod 2147483648))"

lemma multiple_le_iff: "0 < m \<Longrightarrow> q * m \<le> x \<longleftrightarrow> q \<le> x div m" for m :: int
proof
  assume "0 < m" and "q * m \<le> x"
  then show "q \<le> x div m" using zdiv_mono1[of "q * m" x m] by simp
next
  assume m: "0 < m" and "q \<le> x div m"
  then have "q * m \<le> x div m * m" by simp
  also have "\<dots> \<le> x" using m by (metis minus_mod_eq_div_mult round_down_def round_down_le)
  finally show "q * m \<le> x" .
qed

lemma spread_in_range:
  assumes "spread lo hi m k = ((n, err), k')" and m: "0 < m" and "lo \<le> hi"
  shows "if \<exists>q. lo \<le> q * m \<and> q * m \<le> hi then \<not> err \<and> lo \<le> n \<and> n \<le> hi \<and> m dvd n else err"
proof -
  define a where "a = - ((- lo) div m)"
  define b where "b = hi div m"
  have low: "lo \<le> q * m \<longleftrightarrow> a \<le> q" for q
  proof -
    have "(- q \<le> (- lo) div m) = (- q * m \<le> - lo)" using multiple_le_iff[OF m, of "- q" "- lo"] by simp
    then show ?thesis by (simp add: a_def) linarith
  qed
  have high: "q * m \<le> hi \<longleftrightarrow> q \<le> b" for q
    using m by (simp add: b_def multiple_le_iff)
  have sp: "spread lo hi m k = (if b < a then ((-1, True), k)
      else (((a + k mod (b - a + 1)) * m, False), (k * 1103515245 + 12345) mod 2147483648))"
    using m assms(3) by (simp add: spread_def a_def b_def Let_def)
  show ?thesis
  proof (cases "b < a")
    case True
    then have "\<not> (\<exists>q. lo \<le> q * m \<and> q * m \<le> hi)" using low high by auto
    then show ?thesis using True sp assms(1) by simp
  next
    case False
    define q where "q = a + k mod (b - a + 1)"
    have "a \<le> q" "q \<le> b" using False pos_mod_bound[of "b - a + 1" k] by (simp_all add: q_def)
    then have "lo \<le> q * m" "q * m \<le> hi" using low high by simp_all
    moreover have "n = q * m" "\<not> err" using False sp assms(1) by (simp_all add: q_def)
    ultimately show ?thesis by auto
  qed
qed

interpretation spread: random_ranges spread
  by unfold_locales (rule spread_in_range)

section \<open>Where the sum wraps\<close>

text \<open>
  In random mode with \<open>-o\<close> on a file of 2147483647 bytes, the end of the last request and the new length have
  a sum that wraps: the test against the length of the file passes, and the request ends behind the file.
\<close>

definition wide_cfg :: iogen_cfg where
  "wide_cfg = \<lparr>Syscall_List = Syscall_Map, Flag_List = Flag_Map, Aio_Strat_List = Aio_Strat_Map,
     Offset_Mode = M_RANDOM, Mintrans = 1024, Maxtrans = 2048, Minstrides = 1, Maxstrides = 255, overlap = True\<rparr>"

definition wide_file :: file_info where
  "wide_file = \<lparr>f_path = ''/data'', f_length = 2147483647, f_iou = 1, f_riou = 512, f_type = S_IFREG,
     f_lastoffset = 2147481600, f_lastlength = 2047\<rparr>"

lemma overlap_sum_wraps:
  "choose_random spread wide_cfg wide_file 1 2 = Inr (Some (2147482898, 1026), 1495354192)
   \<and> f_length wide_file < 2147482898 + 1026"
  by code_simp

end
