(* ===== verification/Iog_Setup.thy ===== *)
theory Iog_Setup
  imports Iog_Request
begin

text \<open>
  \<open>parse_cmdline\<close> of \<open>iogen\<close>: the options, then the files of the command line, which are made and measured
  before the first request. The kernel and the helpers of other directories are a record of functions.
\<close>

section \<open>The calls of the program\<close>

datatype stat_result = Stat ftype int | Stat_ENOENT | Stat_error

record 'k iog_kernel =
  i_stat :: "string \<Rightarrow> 'k \<Rightarrow> stat_result \<times> 'k"
  i_access :: "string \<Rightarrow> 'k \<Rightarrow> bool \<times> 'k"
  i_open :: "string \<Rightarrow> int \<Rightarrow> 'k \<Rightarrow> int \<times> 'k"
  i_ftruncate :: "int \<Rightarrow> int \<Rightarrow> 'k \<Rightarrow> bool \<times> 'k"
  i_set_realtime :: "string \<Rightarrow> int \<Rightarrow> 'k \<Rightarrow> bool \<times> 'k"
  i_get_xattr :: "string \<Rightarrow> int \<Rightarrow> 'k \<Rightarrow> bool \<times> 'k"
  i_resvsp :: "string \<Rightarrow> int \<Rightarrow> int \<Rightarrow> int \<Rightarrow> 'k \<Rightarrow> bool \<times> 'k"
  i_allocsp :: "string \<Rightarrow> int \<Rightarrow> int \<Rightarrow> int \<Rightarrow> 'k \<Rightarrow> bool \<times> 'k"
  i_dioinfo :: "string \<Rightarrow> int \<Rightarrow> 'k \<Rightarrow> (int \<times> int) option \<times> 'k"
  i_lseek :: "int \<Rightarrow> int \<Rightarrow> 'k \<Rightarrow> bool \<times> 'k"
  i_malloc :: "int \<Rightarrow> 'k \<Rightarrow> int \<times> 'k"
  i_write :: "int \<Rightarrow> byte list \<Rightarrow> 'k \<Rightarrow> int \<times> 'k"
  i_fstat :: "int \<Rightarrow> 'k \<Rightarrow> int option \<times> 'k"
  i_close :: "int \<Rightarrow> 'k \<Rightarrow> 'k"
  i_getcwd :: "'k \<Rightarrow> string"

text \<open>\<open>XFS_DIO_MIN\<close>, the content of an uninitialised \<open>char\<close>, \<open>str_to_bytes\<close> and \<open>string_to_tokens\<close>.\<close>

record iog_env =
  dio_min :: "string option"
  junk :: byte
  str_to_bytes :: "string \<Rightarrow> int"
  string_to_tokens :: "string \<Rightarrow> string list"

section \<open>Options\<close>

record iog_opts =
  p_syscalls :: "rtype strmap list"
  p_flags :: "int strmap list"
  p_mode :: "offset_mode option"
  p_min :: "int option"
  p_max :: "int option"
  p_overlap :: bool
  p_rawmult :: "int option"
  p_iterations :: int
  p_time_mode :: bool
  p_outpipe :: "string option"
  p_tag :: string
  p_quiet :: bool
  p_s_opt :: bool
  p_f_opt :: bool
  p_fileio :: bool
  p_realtime :: bool
  p_extsize :: int
  p_reserve :: bool
  p_allocate :: bool
  p_write :: nat

definition no_opts :: iog_opts where
  "no_opts = \<lparr>p_syscalls = [], p_flags = [], p_mode = None, p_min = None, p_max = None, p_overlap = False,
     p_rawmult = None, p_iterations = 0, p_time_mode = False, p_outpipe = None, p_tag = [], p_quiet = False,
     p_s_opt = False, p_f_opt = False, p_fileio = False, p_realtime = False, p_extsize = 0, p_reserve = True,
     p_allocate = False, p_write = 1\<rparr>"

text \<open>\<open>strtok(s, ",")\<close> and its successors; the second argument is the token read so far.\<close>

fun comma_toks :: "string \<Rightarrow> string \<Rightarrow> string list" where
  "comma_toks [] w = (if w = [] then [] else [w])"
| "comma_toks (c # cs) w =
     (if c = CHR '','' then (if w = [] then comma_toks cs [] else w # comma_toks cs [])
      else comma_toks cs (w @ [c]))"

text \<open>The lists have room for 128 entries.\<close>

definition append_128 :: "'a list \<Rightarrow> 'a \<Rightarrow> halt + 'a list" where
  "append_128 xs x = (if length xs < 128 then Inr (xs @ [x]) else Inl Fault)"

fun add_flags :: "string list \<Rightarrow> int strmap list \<Rightarrow> halt + int strmap list" where
  "add_flags [] fl = Inr fl"
| "add_flags (cp # cps) fl =
     (case str_lookup Flag_Map cp of
        None \<Rightarrow> Inl (Exit 2)
      | Some es \<Rightarrow> on_ok (append_128 fl (hd es)) (add_flags cps))"

text \<open>All entries with a name, of which one is known to be the first.\<close>

fun add_named :: "rtype strmap list \<Rightarrow> string \<Rightarrow> rtype strmap list \<Rightarrow> halt + rtype strmap list" where
  "add_named [] cp sl = Inr sl"
| "add_named (e # es) cp sl =
     (if m_string e = cp then on_ok (append_128 sl e) (add_named es cp) else add_named es cp sl)"

fun add_syscalls :: "string list \<Rightarrow> iog_opts \<Rightarrow> halt + iog_opts" where
  "add_syscalls [] p = Inr p"
| "add_syscalls (cp # cps) p =
     (case str_lookup Syscall_Map cp of
        None \<Rightarrow> Inl (Exit 2)
      | Some es \<Rightarrow>
          on_ok (add_named es cp (p_syscalls p)) (\<lambda>sl. add_syscalls cps (p\<lparr>p_syscalls := sl, p_fileio := True\<rparr>)))"

text \<open>\<open>sscanf(arg, "%i%c", ...)\<close>: the number, and the character behind it.\<close>

definition scan_i :: "string \<Rightarrow> (int \<times> char option) option" where
  "scan_i s =
     (if snd (strtol0 s) = s then None
      else Some (s32 (fst (strtol0 s)), case snd (strtol0 s) of [] \<Rightarrow> None | ch # _ \<Rightarrow> Some ch))"

definition iterations_opt :: "string \<Rightarrow> iog_opts \<Rightarrow> halt + iog_opts" where
  "iterations_opt arg p =
     (case scan_i arg of
        None \<Rightarrow> Inl (Exit 1)
      | Some (n, None) \<Rightarrow> if n < 0 then Inl (Exit 1) else Inr (p\<lparr>p_iterations := n, p_time_mode := False\<rparr>)
      | Some (n, Some ch) \<Rightarrow>
          if ch \<noteq> CHR ''s'' \<or> n < 0 then Inl (Exit 1) else Inr (p\<lparr>p_iterations := n, p_time_mode := True\<rparr>))"

definition creation_opt :: "iog_env \<Rightarrow> string \<Rightarrow> iog_opts \<Rightarrow> halt + iog_opts" where
  "creation_opt e arg p =
     (case string_to_tokens e arg of
        [] \<Rightarrow> Inl Fault
      | t # ts \<Rightarrow>
          if t = ''realtime'' then
            Inr (p\<lparr>p_realtime := True,
                   p_extsize := (case ts of [] \<Rightarrow> 0 | u # _ \<Rightarrow> case scan_i u of None \<Rightarrow> p_extsize p | Some (n, _) \<Rightarrow> n)\<rparr>)
          else if t = ''allocate'' \<or> t = ''allocsp'' then Inr (p\<lparr>p_reserve := False, p_allocate := True\<rparr>)
          else if t = ''reserve'' then Inr (p\<lparr>p_allocate := False, p_reserve := True\<rparr>)
          else if t = ''noreserve'' then Inr (p\<lparr>p_reserve := False\<rparr>)
          else if t = ''nowrite'' then Inr (p\<lparr>p_write := 0\<rparr>)
          else if t = ''direct'' then Inr (p\<lparr>p_write := 2\<rparr>)
          else Inl (Exit 1))"

definition iogen_opt :: "iog_env \<Rightarrow> char \<times> string \<Rightarrow> iog_opts \<Rightarrow> halt + iog_opts" where
  "iogen_opt e o_arg p =
     (case o_arg of (ch, arg) \<Rightarrow>
        if ch = CHR ''a'' \<or> ch = CHR ''L'' then Inl (Exit 2)
        else if ch = CHR ''f'' then on_ok (add_flags (comma_toks arg []) (p_flags p)) (\<lambda>fl. Inr (p\<lparr>p_flags := fl, p_f_opt := True\<rparr>))
        else if ch = CHR ''h'' then Inl (Exit 0)
        else if ch = CHR ''i'' then iterations_opt arg p
        else if ch = CHR ''m'' then
          (case str_lookup Omode_Map arg of None \<Rightarrow> Inl (Exit 1) | Some es \<Rightarrow> Inr (p\<lparr>p_mode := Some (m_value (hd es))\<rparr>))
        else if ch = CHR ''N'' then Inr (p\<lparr>p_tag := ''('' @ take 37 arg @ '')''\<rparr>)
        else if ch = CHR ''o'' then Inr (p\<lparr>p_overlap := True\<rparr>)
        else if ch = CHR ''O'' then creation_opt e arg p
        else if ch = CHR ''p'' then Inr (p\<lparr>p_outpipe := Some arg\<rparr>)
        else if ch = CHR ''r'' then
          (let r = str_to_bytes e arg in
           if r = -1 \<or> r < 11 \<or> c_rem r BSIZE \<noteq> 0 then Inl (Exit 1) else Inr (p\<lparr>p_rawmult := Some r\<rparr>))
        else if ch = CHR ''s'' then on_ok (add_syscalls (comma_toks arg []) p) (\<lambda>p. Inr (p\<lparr>p_s_opt := True\<rparr>))
        else if ch = CHR ''t'' then
          (if str_to_bytes e arg = -1 then Inl (Exit 1) else Inr (p\<lparr>p_min := Some (str_to_bytes e arg)\<rparr>))
        else if ch = CHR ''T'' then
          (if str_to_bytes e arg = -1 then Inl (Exit 1) else Inr (p\<lparr>p_max := Some (str_to_bytes e arg)\<rparr>))
        else if ch = CHR ''q'' then Inr (p\<lparr>p_quiet := True\<rparr>)
        else if ch = CHR ''?'' then Inl (Exit 1)
        else Inr p)"

fun iogen_opts :: "iog_env \<Rightarrow> (char \<times> string) list \<Rightarrow> iog_opts \<Rightarrow> halt + iog_opts" where
  "iogen_opts e [] p = Inr p"
| "iogen_opts e (x # xs) p = on_ok (iogen_opt e x p) (iogen_opts e xs)"

text \<open>The defaults of what no option has set.\<close>

definition named :: "'v strmap list \<Rightarrow> string list \<Rightarrow> 'v strmap list" where
  "named m ss = concat (map (\<lambda>s. case str_lookup m s of None \<Rightarrow> [] | Some es \<Rightarrow> [hd es]) ss)"

definition default_cfg :: "iog_opts \<Rightarrow> iogen_cfg" where
  "default_cfg p =
     \<lparr>Syscall_List = (if p_s_opt p then p_syscalls p
        else named Syscall_Map [''read'', ''write'', ''pread'', ''pwrite'', ''readv'', ''writev'', ''mmread'', ''mmwrite'']),
      Flag_List = (if \<not> p_f_opt p \<and> (p_fileio p \<or> \<not> p_s_opt p) then named Flag_Map [''buffered'', ''sync''] else p_flags p),
      Aio_Strat_List = Aio_Strat_Map,
      Offset_Mode = (case p_mode p of None \<Rightarrow> M_SEQUENTIAL | Some m \<Rightarrow> m),
      Mintrans = (case p_min p of None \<Rightarrow> 1 | Some n \<Rightarrow> n),
      Maxtrans = (case p_max p of None \<Rightarrow> 256 * BSIZE | Some n \<Rightarrow> n),
      Minstrides = 1, Maxstrides = 255, overlap = p_overlap p\<rparr>"

section \<open>The files\<close>

text \<open>
  \<open>get_file_info\<close> fills in the entry after the last one of the table, which an argument before this one may
  have used and given up. \<open>None\<close> when it returns -1.
\<close>

definition get_file_info ::
  "'k iog_kernel \<Rightarrow> iog_env \<Rightarrow> int option \<Rightarrow> file_info \<Rightarrow> 'k \<Rightarrow> file_info \<times> bool \<times> 'k" where
  "get_file_info K e rawmult rec k =
     (case i_stat K (f_path rec) k of
        (Stat ty sz, k1) \<Rightarrow>
          let rec1 = rec\<lparr>f_type := ty\<rparr> in
          if ty = S_IFREG then
            (let rec2 = rec1\<lparr>f_iou := 1, f_length := s32 sz\<rparr> in
             case rawmult of
               Some r \<Rightarrow> (rec2\<lparr>f_riou := r\<rparr>, True, k1)
             | None \<Rightarrow>
                 (case i_open K (f_path rec) (O_RDWR OR O_DIRECT) k1 of (fd, k2) \<Rightarrow>
                    if fd \<noteq> -1 then
                      (case i_dioinfo K (f_path rec) fd k2 of (d, k3) \<Rightarrow>
                         let riou = (case d of
                               None \<Rightarrow> BSIZE
                             | Some (mem, mini) \<Rightarrow> (case dio_min e of None \<Rightarrow> s32 mini | Some v \<Rightarrow> atoi v))
                         in (rec2\<lparr>f_riou := riou\<rparr>, True, i_close K fd k3))
                    else (rec2\<lparr>f_riou := BSIZE\<rparr>, True, k2)))
          else (rec1\<lparr>f_riou := BSIZE, f_length := BSIZE\<rparr>, True, k1)
      | (_, k1) \<Rightarrow> (rec, False, k1))"

text \<open>A step of \<open>create_file\<close> that returns -1 when it fails, after \<open>close\<close>.\<close>

definition or_close :: "'k iog_kernel \<Rightarrow> int \<Rightarrow> bool \<times> 'k \<Rightarrow> ('k \<Rightarrow> halt + int option \<times> 'k) \<Rightarrow> halt + int option \<times> 'k" where
  "or_close K fd r f = (case r of (ok, k) \<Rightarrow> if ok then f k else Inr (None, i_close K fd k))"

definition if_set :: "bool \<Rightarrow> ('k \<Rightarrow> bool \<times> 'k) \<Rightarrow> 'k \<Rightarrow> bool \<times> 'k" where
  "if_set b f k = (if b then f k else (True, k))"

text \<open>
  The last block of the file written with direct I/O, or its last byte. The result is the descriptor that is
  open then, \<open>None\<close> for -1.
\<close>

definition direct_end :: "'k iog_kernel \<Rightarrow> iog_env \<Rightarrow> string \<Rightarrow> int \<Rightarrow> int \<Rightarrow> 'k \<Rightarrow> halt + int option \<times> 'k" where
  "direct_end K e path nbytes fd0 k =
     (case i_open K path (O_CREAT OR O_RDWR OR O_DIRECT) (i_close K fd0 k) of (fd, k1) \<Rightarrow>
        if fd = -1 then Inr (None, k1)
        else
          (case i_dioinfo K path fd k1 of
             (None, k2) \<Rightarrow> Inr (None, k2)
           | (Some (mem0, mini0), k2) \<Rightarrow>
               let mem = (case dio_min e of None \<Rightarrow> mem0 | Some v \<Rightarrow> u32 (atoi v));
                   mini = (case dio_min e of None \<Rightarrow> mini0 | Some v \<Rightarrow> u32 (atoi v)) in
               if mini = 0 then Inl Fault
               else
                 (let nb0 = s32 (u32 (nbytes - mini));
                      nb = s32 (u32 nb0 - u32 nb0 mod mini) in
                  or_close K fd (i_lseek K fd nb k2) (\<lambda>k3.
                    case i_malloc K (u32 (mini + mem)) k3 of (buf, k4) \<Rightarrow>
                      if mem = 0 \<or> buf = 0 then Inl Fault
                      else
                        (case i_write K fd (replicate (nat mini) 0) k4 of (rval, k5) \<Rightarrow>
                           if u32 rval \<noteq> mini then Inr (None, i_close K fd k5) else Inr (Some fd, k5))))))"

definition byte_end :: "'k iog_kernel \<Rightarrow> iog_env \<Rightarrow> int \<Rightarrow> int \<Rightarrow> 'k \<Rightarrow> halt + int option \<times> 'k" where
  "byte_end K e nbytes fd k =
     or_close K fd (i_lseek K fd (nbytes - 1) k) (\<lambda>k1.
       case i_write K fd [junk e] k1 of (rval, k2) \<Rightarrow>
         if rval \<noteq> 1 then Inr (None, i_close K fd k2) else Inr (Some fd, k2))"

text \<open>The flag of real-time files, then the space of the file; what follows is the argument \<open>f\<close>.\<close>

definition realtime_file ::
  "'k iog_kernel \<Rightarrow> iog_opts \<Rightarrow> string \<Rightarrow> int \<Rightarrow> ('k \<Rightarrow> halt + int option \<times> 'k) \<Rightarrow> 'k \<Rightarrow> halt + int option \<times> 'k" where
  "realtime_file K p path fd f k =
     or_close K fd (if_set (p_realtime p) (i_set_realtime K path fd) k) (\<lambda>k1.
     or_close K fd (if_set (p_realtime p) (i_get_xattr K path fd) k1) f)"

definition reserve_space ::
  "'k iog_kernel \<Rightarrow> iog_opts \<Rightarrow> string \<Rightarrow> int \<Rightarrow> int \<Rightarrow> ('k \<Rightarrow> halt + int option \<times> 'k) \<Rightarrow> 'k \<Rightarrow> halt + int option \<times> 'k" where
  "reserve_space K p path fd nbytes f k =
     or_close K fd (if_set (p_reserve p) (i_resvsp K path fd 0 nbytes) k) (\<lambda>k1.
     or_close K fd (if_set (p_allocate p) (i_allocsp K path fd nbytes 0) k1) f)"

text \<open>The size of the file, or -1.\<close>

definition create_file ::
  "'k iog_kernel \<Rightarrow> iog_env \<Rightarrow> iog_opts \<Rightarrow> string \<Rightarrow> int \<Rightarrow> 'k \<Rightarrow> halt + int \<times> 'k" where
  "create_file K e p path nbytes k =
     (case i_stat K path k of (st, k1) \<Rightarrow>
        if (case st of Stat ty _ \<Rightarrow> ty \<noteq> S_IFREG | Stat_ENOENT \<Rightarrow> False | Stat_error \<Rightarrow> True) then Inr (-1, k1)
        else
          (let sz = (case st of Stat _ n \<Rightarrow> n | _ \<Rightarrow> 0) in
           if sz = nbytes then Inr (nbytes, k1)
           else
             (case i_open K path (O_CREAT OR O_WRONLY) k1 of (fd, k2) \<Rightarrow>
                if fd = -1 then Inr (-1, k2)
                else
                  on_ok
                    (if sz > nbytes then or_close K fd (i_ftruncate K fd nbytes k2) (\<lambda>k3. Inr (Some fd, k3))
                     else
                       realtime_file K p path fd (reserve_space K p path fd nbytes (\<lambda>k6.
                         if p_write p = 2 then direct_end K e path nbytes fd k6
                         else if p_write p \<noteq> 0 then byte_end K e nbytes fd k6
                         else Inr (Some fd, k6))) k2)
                    (\<lambda>(r, k7).
                       case r of
                         None \<Rightarrow> Inr (-1, k7)
                       | Some fd1 \<Rightarrow>
                           (case i_fstat K fd1 k7 of (n, k8) \<Rightarrow>
                              Inr (s32 (case n of None \<Rightarrow> sz | Some n \<Rightarrow> n), i_close K fd1 k8))))))"

text \<open>
  The place a file starts from; a file shorter than a transfer is ignored, and so is an empty one.
\<close>

definition start_place :: "offset_mode \<Rightarrow> file_info \<Rightarrow> file_info" where
  "start_place m f =
     f\<lparr>f_lastoffset := (case m of M_SEQUENTIAL \<Rightarrow> 0 | M_REVERSE \<Rightarrow> f_length f | M_RANDOM \<Rightarrow> c_div (f_length f) 2),
       f_lastlength := 0\<rparr>"

definition full_path :: "'k iog_kernel \<Rightarrow> string \<Rightarrow> 'k \<Rightarrow> halt + string" where
  "full_path K file k =
     (if file \<noteq> [] \<and> hd file = CHR ''/''
      then (if length file \<le> MAX_FNAME_LENGTH then Inr file else Inl Fault)
      else
        (let cwd = i_getcwd K k; path = cwd @ ''/'' @ file in
         if length cwd < MAX_FNAME_LENGTH \<and> length path \<le> MAX_FNAME_LENGTH then Inr path else Inl Fault))"

text \<open>A file without a length is only opened; with one it is made. \<open>None\<close>: it is left out.\<close>

definition named_file ::
  "'k iog_kernel \<Rightarrow> iog_env \<Rightarrow> iog_opts \<Rightarrow> string \<Rightarrow> 'k \<Rightarrow> halt + string option \<times> 'k" where
  "named_file K e p arg k =
     (if CHR '':'' \<in> set arg then
        (let len = str_to_bytes e (takeWhile (\<lambda>c. c \<noteq> CHR '':'') arg);
             file = tl (dropWhile (\<lambda>c. c \<noteq> CHR '':'') arg) in
         if len = -1 then Inl (Exit 2)
         else if MAX_FNAME_LENGTH < length file then Inr (None, k)
         else on_ok (create_file K e p file len k) (\<lambda>(nb, k1).
           Inr (if nb < len \<and> nb \<le> 0 then None else Some file, k1)))
      else
        (case i_access K arg k of (ok, k1) \<Rightarrow> if ok then Inr (Some arg, k1) else Inl (Exit 2)))"

definition no_file_info :: file_info where
  "no_file_info = \<lparr>f_path = [], f_length = 0, f_iou = 0, f_riou = 0, f_type = S_OTHER, f_lastoffset = 0, f_lastlength = 0\<rparr>"

text \<open>The table so far and the entry after it.\<close>

fun add_files ::
  "'k iog_kernel \<Rightarrow> iog_env \<Rightarrow> iog_opts \<Rightarrow> string list \<Rightarrow> file_info list \<Rightarrow> file_info \<Rightarrow> 'k \<Rightarrow> halt + file_info list \<times> 'k" where
  "add_files K e p [] fl slot k = Inr (fl, k)"
| "add_files K e p (arg # args) fl slot k =
     on_ok (named_file K e p arg k) (\<lambda>(file, k1).
       case file of
         None \<Rightarrow> add_files K e p args fl slot k1
       | Some file \<Rightarrow>
           on_ok (full_path K file k1) (\<lambda>path.
             case get_file_info K e (p_rawmult p) (slot\<lparr>f_path := path\<rparr>) k1 of (rec, ok, k2) \<Rightarrow>
               let c = default_cfg p in
               if ok \<and> \<not> f_length rec < Mintrans c \<and> \<not> f_length rec < Maxtrans c \<and> 0 < f_length rec
               then add_files K e p args (fl @ [start_place (Offset_Mode c) rec]) no_file_info k2
               else add_files K e p args fl rec k2))"

definition parse_cmdline ::
  "'k iog_kernel \<Rightarrow> iog_env \<Rightarrow> (char \<times> string) list \<Rightarrow> string list \<Rightarrow> 'k \<Rightarrow> halt + (iog_opts \<times> iogen_cfg \<times> file_info list) \<times> 'k" where
  "parse_cmdline K e os args k =
     on_ok (iogen_opts e os no_opts) (\<lambda>p.
       let c = default_cfg p in
       if p_fileio p \<or> \<not> p_s_opt p then
         (if args = [] then Inl (Exit 1)
          else on_ok (add_files K e p args [] no_file_info k) (\<lambda>(fl, k1).
            if fl = [] then Inl (Exit 2) else Inr ((p, c, fl), k1)))
       else Inr ((p, c, []), k))"

text \<open>The pipe the requests go to: descriptor 1, or a FIFO that is made if there is none.\<close>

definition init_output ::
  "(string \<Rightarrow> 'k \<Rightarrow> (bool + bool) \<times> 'k) \<Rightarrow> (string \<Rightarrow> 'k \<Rightarrow> bool \<times> 'k) \<Rightarrow> (string \<Rightarrow> 'k \<Rightarrow> int \<times> 'k) \<Rightarrow>
   string \<Rightarrow> 'k \<Rightarrow> halt + int \<times> 'k" where
  "init_output stat mkfifo open_rdwr pipe k =
     on_ok
       (case stat pipe k of
          (Inl True, k1) \<Rightarrow> (case mkfifo pipe k1 of (ok, k2) \<Rightarrow> if ok then Inr k2 else Inl (Exit 2))
        | (Inl False, k1) \<Rightarrow> Inl (Exit 2)
        | (Inr fifo, k1) \<Rightarrow> if fifo then Inr k1 else Inl (Exit 2))
       (\<lambda>k3. case open_rdwr pipe k3 of (fd, k4) \<Rightarrow> if fd = -1 then Inl (Exit 2) else Inr (fd, k4))"

end
