(* ===== verification/Iog_Claims.thy ===== *)
theory Iog_Claims
  imports Iog_Request_Ok Iog_Setup
begin

text \<open>
  What \<open>iogen\<close> keeps from its command line to its requests, and a mode in which it stops producing any.
\<close>

section \<open>The command line\<close>

definition opts_ok :: "iog_opts \<Rightarrow> bool" where
  "opts_ok p \<longleftrightarrow> set (p_syscalls p) \<subseteq> set Syscall_Map \<and> set (p_flags p) \<subseteq> set Flag_Map \<and> (\<forall>r. p_rawmult p = Some r \<longrightarrow> 11 \<le> r)"

lemma opts_ok_update [simp]:
  "opts_ok (p\<lparr>p_mode := x1\<rparr>) = opts_ok p"
  "opts_ok (p\<lparr>p_min := x2\<rparr>) = opts_ok p"
  "opts_ok (p\<lparr>p_max := x3\<rparr>) = opts_ok p"
  "opts_ok (p\<lparr>p_overlap := x4\<rparr>) = opts_ok p"
  "opts_ok (p\<lparr>p_iterations := x5\<rparr>) = opts_ok p"
  "opts_ok (p\<lparr>p_time_mode := x6\<rparr>) = opts_ok p"
  "opts_ok (p\<lparr>p_outpipe := x7\<rparr>) = opts_ok p"
  "opts_ok (p\<lparr>p_tag := x8\<rparr>) = opts_ok p"
  "opts_ok (p\<lparr>p_quiet := x9\<rparr>) = opts_ok p"
  "opts_ok (p\<lparr>p_s_opt := x10\<rparr>) = opts_ok p"
  "opts_ok (p\<lparr>p_f_opt := x11\<rparr>) = opts_ok p"
  "opts_ok (p\<lparr>p_fileio := x12\<rparr>) = opts_ok p"
  "opts_ok (p\<lparr>p_realtime := x13\<rparr>) = opts_ok p"
  "opts_ok (p\<lparr>p_extsize := x14\<rparr>) = opts_ok p"
  "opts_ok (p\<lparr>p_reserve := x15\<rparr>) = opts_ok p"
  "opts_ok (p\<lparr>p_allocate := x16\<rparr>) = opts_ok p"
  "opts_ok (p\<lparr>p_write := x17\<rparr>) = opts_ok p"
  by (simp_all add: opts_ok_def)

lemma opts_ok_rawmult: "opts_ok p \<Longrightarrow> 11 \<le> r \<Longrightarrow> opts_ok (p\<lparr>p_rawmult := Some r\<rparr>)"
  by (simp add: opts_ok_def)

lemma str_lookup_some: "str_lookup m s = Some es \<Longrightarrow> es \<noteq> [] \<and> set es \<subseteq> set m"
  by (induction m s rule: str_lookup.induct) (auto split: if_splits)

lemma append_128_set: "append_128 xs x = Inr ys \<Longrightarrow> set ys = insert x (set xs)"
  by (simp add: append_128_def split: if_splits) auto

lemma add_named_set: "add_named es cp sl = Inr sl' \<Longrightarrow> set sl' \<subseteq> set sl \<union> set es"
  by (induction es cp sl arbitrary: sl' rule: add_named.induct)
    (fastforce simp: on_ok_Inr_iff dest: append_128_set split: if_splits)+

lemma add_syscalls_ok: "add_syscalls cps p = Inr p' \<Longrightarrow> opts_ok p \<Longrightarrow> opts_ok p'"
proof (induction cps p rule: add_syscalls.induct)
  case (2 cp cps p)
  obtain es sl where es: "str_lookup Syscall_Map cp = Some es" and sl: "add_named es cp (p_syscalls p) = Inr sl"
    and p': "add_syscalls cps (p\<lparr>p_syscalls := sl, p_fileio := True\<rparr>) = Inr p'"
    using 2(2) by (auto simp: on_ok_Inr_iff split: option.splits)
  have "opts_ok (p\<lparr>p_syscalls := sl, p_fileio := True\<rparr>)"
    using add_named_set[OF sl] str_lookup_some[OF es] 2(3) by (auto simp: opts_ok_def)
  then show ?case using 2(1) es sl p' by blast
qed simp

lemma creation_opt_ok: "creation_opt e arg p = Inr p' \<Longrightarrow> opts_ok p \<Longrightarrow> opts_ok p'"
  by (auto simp: creation_opt_def split: list.splits if_splits)

lemma iterations_opt_ok: "iterations_opt arg p = Inr p' \<Longrightarrow> opts_ok p \<Longrightarrow> opts_ok p'"
  by (auto simp: iterations_opt_def split: option.splits if_splits)

lemma add_flags_set: "add_flags cps fl = Inr fl' \<Longrightarrow> set fl \<subseteq> set Flag_Map \<Longrightarrow> set fl' \<subseteq> set Flag_Map"
proof (induction cps fl rule: add_flags.induct)
  case (2 cp cps fl)
  obtain es fl1 where es: "str_lookup Flag_Map cp = Some es" and f: "append_128 fl (hd es) = Inr fl1" "add_flags cps fl1 = Inr fl'"
    using 2(2) by (auto simp: on_ok_Inr_iff split: option.splits)
  have "hd es \<in> set Flag_Map" using str_lookup_some[OF es] by auto
  then show ?case using 2(1)[OF es f(2)] append_128_set[OF f(1)] 2(3) by simp
qed simp

lemma opts_ok_flags: "opts_ok p \<Longrightarrow> add_flags cps (p_flags p) = Inr fl \<Longrightarrow> opts_ok (p\<lparr>p_flags := fl, p_f_opt := True\<rparr>)"
  using add_flags_set[of cps "p_flags p" fl] by (simp add: opts_ok_def)

lemma iogen_opt_ok: "iogen_opt e x p = Inr p' \<Longrightarrow> opts_ok p \<Longrightarrow> opts_ok p'"
  unfolding iogen_opt_def
  by (auto simp: on_ok_Inr_iff Let_def split: prod.splits if_splits option.splits
      dest: add_syscalls_ok creation_opt_ok iterations_opt_ok intro: opts_ok_rawmult opts_ok_flags)

lemma iogen_opts_ok: "iogen_opts e os p = Inr p' \<Longrightarrow> opts_ok p \<Longrightarrow> opts_ok p'"
  by (induction e os p rule: iogen_opts.induct) (auto simp: on_ok_Inr_iff dest: iogen_opt_ok)

text \<open>A file of the table; \<open>r\<close> is the multiple given with \<open>-r\<close>.\<close>

definition entry_ok :: "iogen_cfg \<Rightarrow> int option \<Rightarrow> file_info \<Rightarrow> bool" where
  "entry_ok c r f \<longleftrightarrow> f_length f < 2147483648 \<and> 0 \<le> f_lastoffset f \<and> f_lastlength f = 0 \<and> f_lastoffset f \<le> f_length f \<and> 0 < f_length f
     \<and> Mintrans c \<le> f_length f \<and> Maxtrans c \<le> f_length f
     \<and> (f_type f = S_IFREG \<longrightarrow> f_iou f = 1 \<and> (\<forall>m. r = Some m \<longrightarrow> f_riou f = m))"

lemma get_file_info_regular:
  "get_file_info K e r f k = (f', True, k') \<Longrightarrow> f_type f' = S_IFREG \<Longrightarrow> f_iou f' = 1 \<and> (\<forall>m. r = Some m \<longrightarrow> f_riou f' = m)"
  by (auto simp: get_file_info_def Let_def split: prod.splits stat_result.splits if_splits option.splits)

lemma get_file_info_int: "get_file_info K e r f k = (f', True, k') \<Longrightarrow> f_length f' < 2147483648"
  by (auto simp: get_file_info_def Let_def split: prod.splits stat_result.splits if_splits option.splits)

lemma start_place_ok:
  assumes "f_length f < 2147483648" and "0 < f_length f" and "Mintrans c \<le> f_length f" and "Maxtrans c \<le> f_length f"
    and "f_type f = S_IFREG \<longrightarrow> f_iou f = 1 \<and> (\<forall>m. r = Some m \<longrightarrow> f_riou f = m)"
  shows "entry_ok c r (start_place m f)"
  using assms by (cases m) (simp_all add: entry_ok_def start_place_def c_div_nonneg)

lemma add_files_ok:
  "add_files K e p args fl slot k = Inr (fl', k') \<Longrightarrow> list_all (entry_ok (default_cfg p) (p_rawmult p)) fl \<Longrightarrow>
   list_all (entry_ok (default_cfg p) (p_rawmult p)) fl'"
proof (induction K e p args fl slot k arbitrary: fl' k' rule: add_files.induct)
  case (2 K e p arg args fl slot k)
  obtain name k1 where nm: "named_file K e p arg k = Inr (name, k1)"
    using 2(4) by (auto simp: on_ok_Inr_iff)
  show ?case
  proof (cases name)
    case None
    then show ?thesis using 2 nm by auto
  next
    case (Some n)
    obtain path where path: "full_path K n k1 = Inr path"
      using 2(4) nm Some by (auto simp: on_ok_Inr_iff)
    obtain rec ok k2 where rec: "get_file_info K e (p_rawmult p) (slot\<lparr>f_path := path\<rparr>) k1 = (rec, ok, k2)"
      by (metis prod.exhaust)
    let ?c = "default_cfg p"
    show ?thesis
    proof (cases "ok \<and> \<not> f_length rec < Mintrans ?c \<and> \<not> f_length rec < Maxtrans ?c \<and> 0 < f_length rec")
      case True
      then have "add_files K e p args (fl @ [start_place (Offset_Mode ?c) rec]) no_file_info k2 = Inr (fl', k')"
        using 2(4) nm Some path rec by (simp add: Let_def)
      moreover have "entry_ok ?c (p_rawmult p) (start_place (Offset_Mode ?c) rec)"
        using True get_file_info_regular[of K e "p_rawmult p"] get_file_info_int[of K e "p_rawmult p"] rec
        by (intro start_place_ok) auto
      ultimately show ?thesis using 2(2)[OF Some rec[symmetric] refl refl] True 2(5) by simp
    next
      case False
      then have "add_files K e p args fl rec k2 = Inr (fl', k')"
        using 2(4) nm Some path rec by (auto simp: Let_def)
      then show ?thesis using 2(3)[OF Some rec[symmetric] refl refl] False 2(5) by simp
    qed
  qed
qed simp

text \<open>With \<open>-r\<close> the command line leaves what the loop of requests needs.\<close>

lemma parse_cmdline_ok:
  assumes "parse_cmdline K e os args k = Inr ((p, c, fl), k')"
  shows "opts_ok p" and "c = default_cfg p" and "list_all (entry_ok c (p_rawmult p)) fl"
proof -
  obtain q where q: "iogen_opts e os no_opts = Inr q" using assms by (auto simp: parse_cmdline_def on_ok_Inr_iff)
  have p: "q = p" "c = default_cfg p"
    using assms q by (auto simp: parse_cmdline_def on_ok_Inr_iff Let_def split: if_splits)
  have "opts_ok no_opts" by (simp add: opts_ok_def no_opts_def)
  then show "opts_ok p" using iogen_opts_ok q p(1) by blast
  show "c = default_cfg p" by (rule p(2))
  show "list_all (entry_ok c (p_rawmult p)) fl"
    using assms q p add_files_ok[of K e p args "[]" no_file_info k fl k']
    by (auto simp: parse_cmdline_def on_ok_Inr_iff Let_def split: if_splits)
qed

lemma default_calls: "list_all (\<lambda>s. str_lookup Syscall_Map s \<noteq> None)
    [''read'', ''write'', ''pread'', ''pwrite'', ''readv'', ''writev'', ''mmread'', ''mmwrite'']"
  by code_simp

lemma named_set: "set (named m ss) \<subseteq> set m"
  by (auto simp: named_def split: option.splits dest: str_lookup_some) (metis hd_in_set str_lookup_some subsetD)

lemma default_cfg_calls: "opts_ok p \<Longrightarrow> set (Syscall_List (default_cfg p)) \<subseteq> set Syscall_Map"
  using named_set[of Syscall_Map] by (auto simp: default_cfg_def opts_ok_def)

lemma default_cfg_flags: "opts_ok p \<Longrightarrow> set (Flag_List (default_cfg p)) \<subseteq> set Flag_Map"
  using named_set[of Flag_Map] by (auto simp: default_cfg_def opts_ok_def)

lemma start_files_ok:
  assumes "list_all (entry_ok c (Some r)) fl" and r: "11 \<le> r" "r \<le> Maxtrans c" "Mintrans c \<le> round_down (Maxtrans c) r"
    and "0 \<le> Mintrans c" and "fl \<noteq> []"
    and "list_all (\<lambda>f. f_type f = S_IFREG \<and> length (f_path f) < MAX_FNAME_LENGTH \<and> sum_fits c f) fl"
  shows "files_ok c fl"
proof -
  have "Mintrans c \<le> Maxtrans c" using r round_down_le[of r "Maxtrans c"] by linarith
  then have "units_ok c r" "units_ok c 1" using r by (simp_all add: units_ok_def)
  then show ?thesis using assms unfolding files_ok_def file_ok_def entry_ok_def list_all_iff by force
qed

section \<open>Requests\<close>

text \<open>
  C1 (invariant). From the command line to the requests: when \<open>iogen\<close> starts on regular files with
  \<open>-r\<close> and at least one call, flag and file, the multiple of \<open>-r\<close> is at most the longest transfer \<open>-T\<close>, the shortest transfer \<open>-t\<close> is not
  negative and at most \<open>-T\<close> rounded down to that multiple, and (in random mode with \<open>-o\<close>) the length of a file
  and \<open>-T\<close> have a sum of at most 2 GiB, then every request it writes, in every offset mode and with or without \<open>-o\<close>, names one
  of its files, lies within the length that file had at the start, has a length between \<open>-t\<close> and \<open>-T\<close> and
  is aligned in offset and length to the unit of its open flags; no iteration faults. Whatever the kernel
  answered at the start, for every generator of random numbers that keeps to its documented range.
\<close>

theorem command_line_to_requests:
  assumes "random_ranges rr" and start: "parse_cmdline K e os args k = Inr ((p, c, fl), k')"
    and r: "p_rawmult p = Some r" "r \<le> Maxtrans c" "Mintrans c \<le> round_down (Maxtrans c) r" "0 \<le> Mintrans c"
    and lists: "Syscall_List c \<noteq> []" "Flag_List c \<noteq> []" "fl \<noteq> []"
    and regular: "list_all (\<lambda>f. f_type f = S_IFREG \<and> length (f_path f) < MAX_FNAME_LENGTH \<and> sum_fits c f) fl"
  shows "\<exists>rs fl1 s1. iogen_loop rr c n fl s = Inr (rs, fl1, s1) \<and> length rs \<le> n \<and>
    list_all (\<lambda>q. in_file c fl q \<and> r_magic q = DOIO_MAGIC) rs"
proof -
  note ok = parse_cmdline_ok[OF start]
  have "11 \<le> r" using ok(1) r(1) by (simp add: opts_ok_def)
  then have "files_ok c fl" using start_files_ok[of c r fl] ok(3) r lists regular by simp
  moreover have "lists_ok c" using default_cfg_calls[OF ok(1)] ok(2) lists by (simp add: lists_ok_def)
  ultimately obtain rs fl1 s1 where "iogen_loop rr c n fl s = Inr (rs, fl1, s1)" "length rs \<le> n"
    "list_all (\<lambda>q. in_file c fl q \<and> formed c q \<and> r_magic q = DOIO_MAGIC) rs"
    using random_ranges.iogen_loop_ok[OF assms(1)] by blast
  then show ?thesis by (auto simp: list_all_iff)
qed

text \<open>A disk with one file; the state is its length and the position of the descriptor.\<close>

definition one_file_disk :: "bool \<Rightarrow> (int \<times> int) iog_kernel" where
  "one_file_disk reserves =
     \<lparr>i_stat = (\<lambda>_ (n, pos). (if n < 0 then Stat_ENOENT else Stat S_IFREG n, (n, pos))),
      i_access = (\<lambda>_ k. (0 \<le> fst k, k)), i_open = (\<lambda>_ _ (n, pos). (3, (max 0 n, 0))),
      i_ftruncate = (\<lambda>_ n (_, pos). (True, (n, pos))), i_set_realtime = (\<lambda>_ _ k. (False, k)),
      i_get_xattr = (\<lambda>_ _ k. (True, k)), i_resvsp = (\<lambda>_ _ _ _ k. (reserves, k)),
      i_allocsp = (\<lambda>_ _ n _ (_, pos). (True, (n, pos))), i_dioinfo = (\<lambda>_ _ k. (Some (512, 512), k)),
      i_lseek = (\<lambda>_ pos (n, _). (0 \<le> pos, (n, pos))), i_malloc = (\<lambda>_ k. (4096, k)),
      i_write = (\<lambda>_ b (n, pos). (int (length b), (max n (pos + int (length b)), pos + int (length b)))),
      i_fstat = (\<lambda>_ k. (Some (fst k), k)), i_close = (\<lambda>_ k. k), i_getcwd = (\<lambda>_. ''/tmp'')\<rparr>"

definition plain_env :: iog_env where
  "plain_env = \<lparr>dio_min = None, junk = 0, str_to_bytes = atoi, string_to_tokens = (\<lambda>s. [s])\<rparr>"

definition sample_start :: "halt + (iog_opts \<times> iogen_cfg \<times> file_info list) \<times> int \<times> int" where
  "sample_start = parse_cmdline (one_file_disk True) plain_env
     [(CHR ''r'', ''512''), (CHR ''m'', ''random''), (CHR ''o'', []), (CHR ''f'', ''buffered,direct''), (CHR ''t'', ''100''), (CHR ''T'', ''2048'')]
     [''8192:data''] (-1, 0)"

definition sample_opts :: iog_opts where
  "sample_opts = (case sample_start of Inr ((p, _, _), _) \<Rightarrow> p | Inl _ \<Rightarrow> no_opts)"

definition sample_files :: "file_info list" where
  "sample_files = (case sample_start of Inr ((_, _, fl), _) \<Rightarrow> fl | Inl _ \<Rightarrow> [])"

lemma sample_starts: "sample_start = Inr ((sample_opts, default_cfg sample_opts, sample_files), (8192, 8192))"
  by code_simp

lemma sample_limits: "p_rawmult sample_opts = Some 512" "512 \<le> Maxtrans (default_cfg sample_opts)"
  "Mintrans (default_cfg sample_opts) \<le> round_down (Maxtrans (default_cfg sample_opts)) 512"
  "0 \<le> Mintrans (default_cfg sample_opts)" "Syscall_List (default_cfg sample_opts) \<noteq> []"
  "Flag_List (default_cfg sample_opts) \<noteq> []" "sample_files \<noteq> []"
  "list_all (\<lambda>f. f_type f = S_IFREG \<and> length (f_path f) < MAX_FNAME_LENGTH \<and> sum_fits (default_cfg sample_opts) f) sample_files"
  by code_simp+

theorem command_line_to_requests_witness:
  "\<exists>rs fl1 s1. iogen_loop spread (default_cfg sample_opts) 5 sample_files 7 = Inr (rs, fl1, s1) \<and> length rs \<le> 5 \<and>
    list_all (\<lambda>q. in_file (default_cfg sample_opts) sample_files q \<and> r_magic q = DOIO_MAGIC) rs"
  by (rule command_line_to_requests[OF spread.random_ranges_axioms sample_starts[unfolded sample_start_def] sample_limits])

text \<open>
  C2 (liveness). In sequential mode without \<open>-o\<close>, on one file whose open flags all have one unit, \<open>iogen\<close>
  stops producing requests for ever as soon as the rest of the file is at least the least length but holds no
  multiple of the unit from that length on: no request is formed, the place in the file does not change, and the
  loop goes on with nothing written, however many iterations it is given.
\<close>

theorem sequential_stuck:
  assumes "random_ranges rr" and "lists_ok c" and "files_ok c [f]"
    and "Offset_Mode c = M_SEQUENTIAL" and "\<not> overlap c"
    and "list_all (\<lambda>flags. unit_of f flags = m) (Flag_List c)" and "no_length_left c f m"
  shows "\<exists>s1. iogen_loop rr c n [f] s = Inr ([], [f], s1)"
  by (rule random_ranges.iogen_loop_stuck[OF assms])

text \<open>A file of 1924 bytes after a first request of 1024 bytes, with lengths from 700 to 1024 bytes.\<close>

definition stuck_cfg :: iogen_cfg where
  "stuck_cfg = (default_cfg no_opts)\<lparr>Flag_List := [entry ''direct'' O_DIRECT FLG_RAW], Mintrans := 700, Maxtrans := 1024\<rparr>"

definition stuck_file :: file_info where
  "stuck_file = \<lparr>f_path = ''/data'', f_length = 1924, f_iou = 1, f_riou = 512, f_type = S_IFREG, f_lastoffset = 0, f_lastlength = 1024\<rparr>"

lemma stuck_start:
  "iogen_loop spread stuck_cfg 1 [stuck_file\<lparr>f_lastlength := 0\<rparr>] 7 =
     Inr ([\<lparr>r_type = MMAPW, r_magic = DOIO_MAGIC, r_file = ''/data'', r_oflags = 16386, r_offset = 0, r_nbytes = 1024,
            r_pattern = 73, r_uflags = 1, r_aio_strat = 0, r_nstrides = 1, r_nent = 1\<rparr>], [stuck_file], 2131988640)"
  by code_simp

theorem sequential_stuck_witness: "\<exists>s1. iogen_loop spread stuck_cfg 100 [stuck_file] 7 = Inr ([], [stuck_file], s1)"
proof (rule sequential_stuck[of spread stuck_cfg stuck_file 512, OF spread.random_ranges_axioms])
  show "lists_ok stuck_cfg" by code_simp
  show "files_ok stuck_cfg [stuck_file]" by code_simp
  show "Offset_Mode stuck_cfg = M_SEQUENTIAL" by code_simp
  show "\<not> overlap stuck_cfg" by code_simp
  show "list_all (\<lambda>flags. unit_of stuck_file flags = 512) (Flag_List stuck_cfg)" by code_simp
  show "no_length_left stuck_cfg stuck_file 512" by code_simp
qed

text \<open>
  C3 (error). Where the file system refuses to reserve space, a file given with a length cannot be made or
  extended: with the default \<open>-O reserve\<close>, \<open>create_file\<close> returns -1 for a file that is missing or too
  short, whatever else succeeds.
\<close>

theorem reservation_required:
  assumes refuse: "\<And>path fd start len k. fst (i_resvsp K path fd start len k) = False" and "p_reserve p"
    and st: "i_stat K path k = (Stat_ENOENT, k1) \<and> 0 < nbytes \<or> i_stat K path k = (Stat S_IFREG sz, k1) \<and> sz < nbytes"
  shows "\<exists>k'. create_file K e p path nbytes k = Inr (-1, k')"
proof -
  obtain sz' where sz': "sz' < nbytes" "(case fst (i_stat K path k) of Stat _ n \<Rightarrow> n | _ \<Rightarrow> 0) = sz'"
    and reg: "\<not> (case fst (i_stat K path k) of Stat ty _ \<Rightarrow> ty \<noteq> S_IFREG | Stat_ENOENT \<Rightarrow> False | Stat_error \<Rightarrow> True)"
    and k1: "snd (i_stat K path k) = k1"
    using st by fastforce
  have resv: "\<exists>k'. reserve_space K p path fd nbytes f k4 = Inr (None, k')" for fd k4 f
    using refuse[of path fd 0 nbytes k4] assms(2)
    by (cases "i_resvsp K path fd 0 nbytes k4") (simp add: reserve_space_def or_close_def if_set_def)
  have skip: "\<exists>k'. or_close K fd r f = Inr (None, k')" if "\<And>k4. \<exists>k'. f k4 = Inr (None, k')" for fd r f
    using that by (cases r) (simp add: or_close_def)
  obtain fd k2 where fd: "i_open K path (O_CREAT OR O_WRONLY) k1 = (fd, k2)" by (metis prod.exhaust)
  have body: "\<exists>k'. realtime_file K p path fd (reserve_space K p path fd nbytes g) k2 = Inr (None, k')" for g
    unfolding realtime_file_def by (intro skip resv)
  show ?thesis
    using reg sz' fd body[of "\<lambda>k6. if p_write p = 2 then direct_end K e path nbytes fd k6
        else if p_write p \<noteq> 0 then byte_end K e nbytes fd k6 else Inr (Some fd, k6)"] k1
    unfolding create_file_def Let_def by (cases "i_stat K path k") (auto simp: on_ok_def)
qed

theorem reservation_required_witness:
  "(\<exists>k'. create_file (one_file_disk False) plain_env no_opts ''data'' 8192 (-1, 0) = Inr (-1, k'))
   \<and> create_file (one_file_disk True) plain_env no_opts ''data'' 8192 (-1, 0) = Inr (8192, (8192, 8192))"
proof
  show "\<exists>k'. create_file (one_file_disk False) plain_env no_opts ''data'' 8192 (-1, 0) = Inr (-1, k')"
    by (rule reservation_required[where sz = 0 and ?k1.0 = "(-1, 0)"]) (simp_all add: one_file_disk_def no_opts_def)
  show "create_file (one_file_disk True) plain_env no_opts ''data'' 8192 (-1, 0) = Inr (8192, (8192, 8192))"
    by code_simp
qed

end
