(* ===== verification/Doio_State.thy ===== *)
theory Doio_State
  imports Io_Req
begin

text \<open>
  The globals of \<open>doio\<close>, the calls it makes and the descriptors and buffers it keeps: \<open>alloc_fdcache\<close>,
  \<open>alloc_fd\<close> and \<open>alloc_mem\<close>.
\<close>

section \<open>State\<close>

abbreviation (input) E_USAGE :: int where "E_USAGE \<equiv> 1"
abbreviation (input) E_SETUP :: int where "E_SETUP \<equiv> 2"
abbreviation (input) E_COMPARE :: int where "E_COMPARE \<equiv> 4"
abbreviation (input) E_INTERNAL :: int where "E_INTERNAL \<equiv> 8"
abbreviation (input) E_SIGNAL :: int where "E_SIGNAL \<equiv> 32"
abbreviation (input) SKIP_REQ :: int where "SKIP_REQ \<equiv> -2"
abbreviation (input) FD_ALLOC_INCR :: nat where "FD_ALLOC_INCR \<equiv> 32"

text \<open>An open descriptor for a file and flags. \<open>c_fd\<close> is -1 in a slot that is not in use; an address of 0 is NULL.\<close>

record fd_cache =
  c_file :: string
  c_oflags :: int
  c_fd :: int
  c_rtc :: int
  c_memalign :: int
  c_miniosz :: int
  c_maxiosz :: int
  c_memaddr :: int
  c_memlen :: int

datatype memtype = MEM_NONE | MEM_DATA | MEM_SHMEM | MEM_MMAP

text \<open>Memory with its address and what it holds; \<open>Bad_space\<close> is the address -1 of a call that failed.\<close>

datatype mem_space = No_space | Bad_space | Space int "byte list"

record memalloc =
  m_type :: memtype
  m_private :: bool
  m_shared :: bool
  m_file :: bool
  m_nblks :: int
  m_name :: "string option"
  m_space :: mem_space
  m_fd :: int
  m_size :: int

text \<open>\<open>Memptr\<close> is NULL or the space of an entry of \<open>Memalloc\<close>.\<close>

record 'k doio_state =
  Memalloc :: "memalloc list"
  mturn :: nat
  Memptr :: "nat option"
  Memsize :: int
  cache :: "fd_cache list"
  Reqno :: int
  Reqskipcnt :: int
  Pattern :: "byte list"
  kern :: 'k

text \<open>A record of the log of writes.\<close>

record wlog_rec =
  w_async :: bool
  w_oflags :: int
  w_pid :: int
  w_offset :: int
  w_nbytes :: int
  w_path :: string
  w_host :: string
  w_pattern :: "byte list"
  w_done :: bool

text \<open>An access to mapped memory that the file does not reach ends in \<open>SIGBUS\<close>, one to no mapping in \<open>SIGSEGV\<close>.\<close>

datatype 'a touched = Touched 'a | Sigbus | Sigsegv

datatype input = Got io_req | Got_part | Got_error

record 'k doio_kernel =
  d_open :: "string \<Rightarrow> int \<Rightarrow> 'k \<Rightarrow> (int \<times> bool) \<times> 'k"
  d_close :: "int \<Rightarrow> 'k \<Rightarrow> 'k"
  d_dioinfo :: "string \<Rightarrow> int \<Rightarrow> 'k \<Rightarrow> (int \<times> int \<times> int) option \<times> 'k"
  d_lseek :: "int \<Rightarrow> int \<Rightarrow> 'k \<Rightarrow> bool \<times> 'k"
  d_read :: "int \<Rightarrow> int \<Rightarrow> int \<Rightarrow> 'k \<Rightarrow> (int \<times> byte list) \<times> 'k"
  d_write :: "int \<Rightarrow> int \<Rightarrow> byte list \<Rightarrow> 'k \<Rightarrow> int \<times> 'k"
  d_readv :: "int \<Rightarrow> int \<Rightarrow> int \<Rightarrow> 'k \<Rightarrow> (int \<times> byte list) \<times> 'k"
  d_writev :: "int \<Rightarrow> int \<Rightarrow> byte list \<Rightarrow> 'k \<Rightarrow> int \<times> 'k"
  d_pread :: "int \<Rightarrow> int \<Rightarrow> int \<Rightarrow> int \<Rightarrow> 'k \<Rightarrow> (int \<times> byte list) \<times> 'k"
  d_pwrite :: "int \<Rightarrow> int \<Rightarrow> byte list \<Rightarrow> int \<Rightarrow> 'k \<Rightarrow> int \<times> 'k"
  d_fstat :: "int \<Rightarrow> 'k \<Rightarrow> int option \<times> 'k"
  d_map_file :: "bool \<Rightarrow> int \<Rightarrow> int \<Rightarrow> 'k \<Rightarrow> int option \<times> 'k"
  d_load :: "int \<Rightarrow> int \<Rightarrow> 'k \<Rightarrow> byte list touched \<times> 'k"
  d_store :: "int \<Rightarrow> byte list \<Rightarrow> 'k \<Rightarrow> unit touched \<times> 'k"
  d_lock :: "int \<Rightarrow> bool \<Rightarrow> int \<Rightarrow> int \<Rightarrow> 'k \<Rightarrow> bool \<times> 'k"
  d_xfsctl :: "string \<Rightarrow> int \<Rightarrow> bool \<Rightarrow> int \<Rightarrow> int \<Rightarrow> 'k \<Rightarrow> int \<times> 'k"
  d_fsync :: "int \<Rightarrow> 'k \<Rightarrow> int \<times> 'k"
  d_fdatasync :: "int \<Rightarrow> 'k \<Rightarrow> int \<times> 'k"
  d_malloc :: "int \<Rightarrow> 'k \<Rightarrow> (int \<times> byte list) option \<times> 'k"
  d_free :: "int \<Rightarrow> 'k \<Rightarrow> 'k"
  d_map_mem :: "int \<Rightarrow> bool \<Rightarrow> bool \<Rightarrow> int \<Rightarrow> 'k \<Rightarrow> (int \<times> byte list) option \<times> 'k"
  d_munmap :: "int \<Rightarrow> int \<Rightarrow> 'k \<Rightarrow> 'k"
  d_unlink :: "string \<Rightarrow> 'k \<Rightarrow> 'k"
  d_shmget :: "int \<Rightarrow> int \<Rightarrow> 'k \<Rightarrow> int \<times> 'k"
  d_shmat :: "int \<Rightarrow> 'k \<Rightarrow> (int \<times> byte list) option \<times> 'k"
  d_shmdt :: "int \<Rightarrow> 'k \<Rightarrow> 'k"
  d_shm_rmid :: "int \<Rightarrow> 'k \<Rightarrow> 'k"
  d_getppid :: "'k \<Rightarrow> int"
  d_wlog :: "wlog_rec \<Rightarrow> int \<Rightarrow> 'k \<Rightarrow> int \<times> 'k"
  d_random :: "'k random_range"

text \<open>
  The options, and what the process finds: \<open>XFS_DIO_MIN\<close>, the memory of a slot nobody has set, what
  \<open>sscanf\<close> leaves as the key of shared memory, \<open>sprintf\<close> with the name of a memory file as its format, and the
  functions of the pattern library.
\<close>

record doio_env =
  k_opt :: bool
  w_opt :: bool
  v_opt :: bool
  V_opt :: bool
  Validation_Flags :: int
  Release_Interval :: int
  Nmemalloc :: nat
  pid :: int
  Host :: string
  Prog :: string
  dio_env :: "int option"
  unset_slot :: fd_cache
  shm_key :: "string \<Rightarrow> int"
  mem_filename :: "string \<Rightarrow> string"
  pattern_fill :: "nat \<Rightarrow> byte list \<Rightarrow> int \<Rightarrow> byte list"
  pattern_check :: "byte list \<Rightarrow> byte list \<Rightarrow> int \<Rightarrow> bool"

definition no_mem :: memalloc where
  "no_mem = \<lparr>m_type = MEM_NONE, m_private = False, m_shared = False, m_file = False, m_nblks = 0, m_name = None,
     m_space = No_space, m_fd = 0, m_size = 0\<rparr>"

section \<open>Descriptors\<close>

definition slot_for :: "string \<Rightarrow> int \<Rightarrow> fd_cache \<Rightarrow> bool" where
  "slot_for file oflags s \<longleftrightarrow> c_fd s \<noteq> -1 \<and> c_oflags s = oflags \<and> c_file s = file"

fun first_slot :: "(fd_cache \<Rightarrow> bool) \<Rightarrow> fd_cache list \<Rightarrow> nat option" where
  "first_slot P [] = None"
| "first_slot P (s # ss) = (if P s then Some 0 else map_option Suc (first_slot P ss))"

text \<open>The slot in use with the least \<open>c_rtc\<close>, the first of several.\<close>

fun oldest_from :: "fd_cache list \<Rightarrow> nat \<Rightarrow> (nat \<times> int) option \<Rightarrow> nat option" where
  "oldest_from [] i best = map_option fst best"
| "oldest_from (s # ss) i best =
     oldest_from ss (Suc i)
       (if c_fd s = -1 then best
        else case best of None \<Rightarrow> Some (i, c_rtc s) | Some (j, r) \<Rightarrow> if c_rtc s < r then Some (i, c_rtc s) else Some (j, r))"

definition oldest_slot :: "fd_cache list \<Rightarrow> nat option" where
  "oldest_slot ss = oldest_from ss 0 None"

text \<open>The limits of direct I/O on a descriptor.\<close>

definition dio_limits ::
  "'k doio_kernel \<Rightarrow> doio_env \<Rightarrow> string \<Rightarrow> int \<Rightarrow> int \<Rightarrow> 'k \<Rightarrow> (int \<times> int \<times> int) \<times> 'k" where
  "dio_limits K e file oflags fd k =
     (if oflags AND O_DIRECT \<noteq> 0 then
        (case d_dioinfo K file fd k of (r, k1) \<Rightarrow>
           (case (case r of None \<Rightarrow> (1, 1, 1) | Some i \<Rightarrow> i) of (mem, mini, maxi) \<Rightarrow>
              ((case dio_env e of None \<Rightarrow> (s32 mem, s32 mini, s32 maxi) | Some m \<Rightarrow> (m, m, s32 maxi)), k1)))
      else ((1, 1, 1), k))"

text \<open>
  A descriptor from \<open>open\<close>. When too many are open the oldest of the cache is closed. The slot number is the
  one to use, if there is one.
\<close>

definition open_file ::
  "'k doio_kernel \<Rightarrow> string \<Rightarrow> int \<Rightarrow> 'k doio_state \<Rightarrow> halt + (int \<times> nat option) \<times> 'k doio_state" where
  "open_file K file oflags st =
     (let free = first_slot (\<lambda>s. c_fd s = -1) (cache st) in
      case d_open K file oflags (kern st) of ((fd, emfile), k1) \<Rightarrow>
        if 0 \<le> fd then Inr ((fd, free), st\<lparr>kern := k1\<rparr>)
        else if \<not> emfile then Inl (Exit E_SETUP)
        else
          (case oldest_slot (cache st) of
             None \<Rightarrow> Inl Fault
           | Some i \<Rightarrow>
               (case d_open K file oflags (d_close K (c_fd (cache st ! i)) k1) of ((fd, _), k2) \<Rightarrow>
                  if fd < 0 then Inl (Exit E_SETUP)
                  else Inr ((fd, Some i), st\<lparr>cache := (cache st)[i := (cache st ! i)\<lparr>c_fd := -1\<rparr>], kern := k2\<rparr>))))"

text \<open>The slot for a file and flags. The name of a file of 129 characters overruns its place in the slot.\<close>

definition alloc_fdcache ::
  "'k doio_kernel \<Rightarrow> doio_env \<Rightarrow> string \<Rightarrow> int \<Rightarrow> 'k doio_state \<Rightarrow> halt + nat \<times> 'k doio_state" where
  "alloc_fdcache K e file oflags st =
     (case first_slot (slot_for file oflags) (cache st) of
        Some i \<Rightarrow> Inr (i, st\<lparr>cache := (cache st)[i := (cache st ! i)\<lparr>c_rtc := Reqno st\<rparr>]\<rparr>)
      | None \<Rightarrow>
          on_ok (open_file K file oflags st) (\<lambda>((fd, free), st1).
            let grown = (case free of
                  Some i \<Rightarrow> (i, cache st1)
                | None \<Rightarrow> (length (cache st1), cache st1 @ replicate FD_ALLOC_INCR ((unset_slot e)\<lparr>c_fd := -1\<rparr>)))
            in
            if MAX_FNAME_LENGTH < length file then Inl Fault
            else
              (case dio_limits K e file oflags fd (kern st1) of ((mem, mini, maxi), k2) \<Rightarrow>
                 Inr (fst grown,
                   st1\<lparr>cache := (snd grown)[fst grown :=
                          \<lparr>c_file = file, c_oflags = oflags, c_fd = fd, c_rtc = Reqno st, c_memalign = mem,
                           c_miniosz = mini, c_maxiosz = maxi, c_memaddr = 0, c_memlen = 0\<rparr>], kern := k2\<rparr>))))"

definition alloc_fd ::
  "'k doio_kernel \<Rightarrow> doio_env \<Rightarrow> string \<Rightarrow> int \<Rightarrow> 'k doio_state \<Rightarrow> halt + int \<times> 'k doio_state" where
  "alloc_fd K e file oflags st =
     on_ok (alloc_fdcache K e file oflags st) (\<lambda>(i, st1). Inr (c_fd (cache st1 ! i), st1))"

text \<open>
  \<open>alloc_fd(NULL, 0)\<close> closes and forgets the cache. Without a cache the code goes on to \<open>open(NULL)\<close>, which
  fails with \<open>EFAULT\<close>.
\<close>

fun close_slots :: "'k doio_kernel \<Rightarrow> fd_cache list \<Rightarrow> 'k \<Rightarrow> 'k" where
  "close_slots K [] k = k"
| "close_slots K (s # ss) k =
     (let k1 = (if c_fd s \<noteq> -1 then d_close K (c_fd s) k else k);
          k2 = (if c_memaddr s \<noteq> 0 then d_munmap K (c_memaddr s) (c_memlen s) k1 else k1)
      in close_slots K ss k2)"

definition release_fds :: "'k doio_kernel \<Rightarrow> 'k doio_state \<Rightarrow> halt + 'k doio_state" where
  "release_fds K st =
     (if cache st \<noteq> [] then Inr (st\<lparr>cache := [], kern := close_slots K (cache st) (kern st)\<rparr>)
      else Inl (Exit E_SETUP))"

section \<open>Buffers\<close>

definition space_addr :: "mem_space \<Rightarrow> int" where
  "space_addr s = (case s of No_space \<Rightarrow> 0 | Bad_space \<Rightarrow> -1 | Space a _ \<Rightarrow> a)"

text \<open>\<open>alloc_mem(-1)\<close>\<close>

definition free_entry :: "'k doio_kernel \<Rightarrow> memalloc \<Rightarrow> 'k \<Rightarrow> memalloc \<times> 'k" where
  "free_entry K m k =
     (if m_space m = No_space then (m, k)
      else
        (case m_type m of
           MEM_DATA \<Rightarrow> (m\<lparr>m_space := No_space\<rparr>, d_free K (space_addr (m_space m)) k)
         | MEM_SHMEM \<Rightarrow> (m\<lparr>m_space := No_space\<rparr>, d_shm_rmid K (m_fd m) (d_shmdt K (space_addr (m_space m)) k))
         | MEM_MMAP \<Rightarrow>
             (let k1 = d_close K (m_fd m) (d_munmap K (space_addr (m_space m)) (m_size m) k) in
              (m\<lparr>m_space := No_space\<rparr>, case m_name m of Some f \<Rightarrow> if m_file m then d_unlink K f k1 else k1 | None \<Rightarrow> k1))
         | MEM_NONE \<Rightarrow> (m, k)))"

fun free_entries :: "'k doio_kernel \<Rightarrow> memalloc list \<Rightarrow> 'k \<Rightarrow> memalloc list \<times> 'k" where
  "free_entries K [] k = ([], k)"
| "free_entries K (m # ms) k =
     (case free_entry K m k of (m1, k1) \<Rightarrow> case free_entries K ms k1 of (ms1, k2) \<Rightarrow> (m1 # ms1, k2))"

definition free_mem :: "'k doio_kernel \<Rightarrow> doio_env \<Rightarrow> 'k doio_state \<Rightarrow> 'k doio_state" where
  "free_mem K e st =
     (let used = take (Nmemalloc e) (Memalloc st);
          data = list_ex (\<lambda>m. m_type m = MEM_DATA \<and> m_space m \<noteq> No_space) used in
      case free_entries K used (kern st) of (used1, k1) \<Rightarrow>
        st\<lparr>Memalloc := used1 @ drop (Nmemalloc e) (Memalloc st), kern := k1,
           Memptr := (if data then None else Memptr st), Memsize := (if data then 0 else Memsize st)\<rparr>)"

text \<open>
  One entry made large enough. The result is the return value, 0 if \<open>alloc_mem\<close> goes on to use the entry.
\<close>

definition grow_data :: "'k doio_kernel \<Rightarrow> int \<Rightarrow> memalloc \<Rightarrow> 'k \<Rightarrow> int \<times> memalloc \<times> 'k" where
  "grow_data K nbytes m k =
     (let drop = nbytes > m_size m;
          k1 = (if drop \<and> m_space m \<noteq> No_space then d_free K (space_addr (m_space m)) k else k);
          m1 = (if drop then m\<lparr>m_space := No_space, m_size := 0\<rparr> else m) in
      if m_space m1 \<noteq> No_space then (0, m1, k1)
      else
        (case d_malloc K nbytes k1 of
           (None, k2) \<Rightarrow> (-1, m1, k2)
         | (Some (a, bs), k2) \<Rightarrow> (0, m1\<lparr>m_space := Space a bs, m_size := nbytes\<rparr>, k2)))"

definition grow_mmap :: "'k doio_kernel \<Rightarrow> doio_env \<Rightarrow> int \<Rightarrow> memalloc \<Rightarrow> 'k \<Rightarrow> halt + int \<times> memalloc \<times> 'k" where
  "grow_mmap K e nbytes m k =
     (case m_name m of
        None \<Rightarrow> Inl Fault
      | Some name0 \<Rightarrow>
          (let drop = nbytes > m_size m;
               k1 = (if drop \<and> m_space m \<noteq> No_space
                     then (let k' = d_close K (m_fd m) (d_munmap K (space_addr (m_space m)) (m_size m) k)
                           in if m_file m then d_unlink K name0 k' else k')
                     else k);
               m1 = (if drop then m\<lparr>m_space := No_space, m_size := 0\<rparr> else m) in
           if m_space m1 \<noteq> No_space then Inr (0, m1, k1)
           else
             (let name = (if CHR ''%'' \<in> set name0 then mem_filename e name0 else name0) in
              if CHR ''%'' \<in> set name0 \<and> 255 \<le> length name then Inl Fault
              else
                (case d_open K name (O_CREAT OR O_RDWR) k1 of ((fd, _), k2) \<Rightarrow>
                   let m2 = m1\<lparr>m_name := Some name, m_fd := fd\<rparr> in
                   if fd = -1 then Inr (-1, m2, k2)
                   else
                     (let size = s32 (nbytes * 4) in
                      case d_map_mem K size (m_private m) (m_shared m) fd k2 of
                        (None, k3) \<Rightarrow> Inr (-1, m2\<lparr>m_size := size, m_space := Bad_space\<rparr>, k3)
                      | (Some (a, bs), k3) \<Rightarrow> Inr (0, m2\<lparr>m_size := size, m_space := Space a bs\<rparr>, k3))))))"

definition grow_shmem :: "'k doio_kernel \<Rightarrow> doio_env \<Rightarrow> int \<Rightarrow> memalloc \<Rightarrow> 'k \<Rightarrow> halt + int \<times> memalloc \<times> 'k" where
  "grow_shmem K e nbytes m k =
     (let drop = nbytes > m_size m;
          k1 = (if drop \<and> m_space m \<noteq> No_space then d_shm_rmid K (m_fd m) k else k);
          m1 = (if drop then m\<lparr>m_space := No_space, m_size := 0\<rparr> else m) in
      if m_space m1 \<noteq> No_space then Inr (0, m1, k1)
      else
        (case m_name m of
           None \<Rightarrow> Inl Fault
         | Some name \<Rightarrow>
             (let key = (if name = ''private'' then 0 else shm_key e name);
                  size = (if m_nblks m \<noteq> 0 then s32 (m_nblks m * 512) else nbytes);
                  m2 = m1\<lparr>m_size := size\<rparr> in
              if nbytes > size then Inr (SKIP_REQ, m2, k1)
              else
                (case d_shmget K key size k1 of (shmid, k2) \<Rightarrow>
                   if shmid = -1 then Inr (-1, m2, k2)
                   else
                     (case d_shmat K shmid k2 of
                        (None, k3) \<Rightarrow> Inr (-1, m2\<lparr>m_fd := shmid, m_space := Bad_space\<rparr>, k3)
                      | (Some (a, bs), k3) \<Rightarrow> Inr (0, m2\<lparr>m_fd := shmid, m_space := Space a bs\<rparr>, k3))))))"

definition grow_entry :: "'k doio_kernel \<Rightarrow> doio_env \<Rightarrow> int \<Rightarrow> memalloc \<Rightarrow> 'k \<Rightarrow> halt + int \<times> memalloc \<times> 'k" where
  "grow_entry K e nbytes m k =
     (case m_type m of
        MEM_DATA \<Rightarrow> Inr (grow_data K nbytes m k)
      | MEM_MMAP \<Rightarrow> grow_mmap K e nbytes m k
      | MEM_SHMEM \<Rightarrow> grow_shmem K e nbytes m k
      | MEM_NONE \<Rightarrow> Inr (0, m, k))"

text \<open>The types take turns; a request that is skipped leaves the turn where it is.\<close>

definition alloc_mem :: "'k doio_kernel \<Rightarrow> doio_env \<Rightarrow> int \<Rightarrow> 'k doio_state \<Rightarrow> halt + int \<times> 'k doio_state" where
  "alloc_mem K e nbytes st =
     (if nbytes = -1 then Inr (0, free_mem K e st)
      else
        (let i = (if Nmemalloc e \<le> mturn st then 0 else mturn st) in
         on_ok (grow_entry K e nbytes (Memalloc st ! i) (kern st)) (\<lambda>(r, m, k1).
           let st1 = st\<lparr>Memalloc := (Memalloc st)[i := m], mturn := i, kern := k1\<rparr> in
           Inr (if r \<noteq> 0 then (r, st1) else (0, st1\<lparr>Memptr := Some i, Memsize := m_size m, mturn := Suc i\<rparr>)))))"

end
