(* ===== verification/Doio_Io.thy ===== *)
theory Doio_Io
  imports Doio_State
begin

text \<open>
  The requests of \<open>doio\<close>: \<open>do_read\<close>, \<open>do_write\<close>, \<open>do_rw\<close>, \<open>do_xfsctl\<close> and \<open>do_sync\<close>, the check of what was
  written, and the loop that reads requests until the end of its input.
\<close>

section \<open>The buffer\<close>

definition buffer :: "'k doio_state \<Rightarrow> (int \<times> byte list) option" where
  "buffer st =
     (case Memptr st of
        None \<Rightarrow> None
      | Some i \<Rightarrow> (case m_space (Memalloc st ! i) of Space a bs \<Rightarrow> Some (a, bs) | _ \<Rightarrow> None))"

definition with_buffer :: "'k doio_state \<Rightarrow> byte list \<Rightarrow> 'k doio_state" where
  "with_buffer st bs =
     (case Memptr st of
        None \<Rightarrow> st
      | Some i \<Rightarrow>
          st\<lparr>Memalloc := (Memalloc st)[i := (Memalloc st ! i)\<lparr>m_space := Space (space_addr (m_space (Memalloc st ! i))) bs\<rparr>]\<rparr>)"

definition base_addr :: "'k doio_state \<Rightarrow> int" where
  "base_addr st = (case Memptr st of None \<Rightarrow> 0 | Some i \<Rightarrow> space_addr (m_space (Memalloc st ! i)))"

text \<open>Bytes stored at an offset from \<open>Memptr\<close>, and bytes from there.\<close>

definition put_bytes :: "int \<Rightarrow> byte list \<Rightarrow> 'k doio_state \<Rightarrow> halt + 'k doio_state" where
  "put_bytes off bs st =
     (case buffer st of
        None \<Rightarrow> if bs = [] then Inr st else Inl Fault
      | Some (_, buf) \<Rightarrow> (case mem_store buf off bs of None \<Rightarrow> Inl Fault | Some buf1 \<Rightarrow> Inr (with_buffer st buf1)))"

definition get_bytes :: "int \<Rightarrow> int \<Rightarrow> 'k doio_state \<Rightarrow> halt + byte list" where
  "get_bytes off n st =
     (case buffer st of
        None \<Rightarrow> Inl Fault
      | Some (_, buf) \<Rightarrow> (case mem_load buf off n of None \<Rightarrow> Inl Fault | Some bs \<Rightarrow> Inr bs))"

text \<open>How far an address has to move to be a multiple of \<open>c_memalign\<close>, for direct I/O.\<close>

definition align_up :: "int \<Rightarrow> fd_cache \<Rightarrow> int \<Rightarrow> halt + int" where
  "align_up oflags s addr =
     (if oflags AND O_DIRECT = 0 then Inr 0
      else if c_memalign s = 0 then Inl Fault
      else Inr (if c_rem addr (c_memalign s) \<noteq> 0 then c_memalign s - c_rem addr (c_memalign s) else 0))"

definition random_bump :: "'k doio_kernel \<Rightarrow> 'k doio_state \<Rightarrow> int \<times> 'k doio_state" where
  "random_bump K st = (case d_random K 0 7 1 (kern st) of ((n, _), k1) \<Rightarrow> (n, st\<lparr>kern := k1\<rparr>))"

text \<open>A slot and a buffer for a request of a number of bytes; the result is negative if there is none.\<close>

definition prepare ::
  "'k doio_kernel \<Rightarrow> doio_env \<Rightarrow> string \<Rightarrow> int \<Rightarrow> int \<Rightarrow> 'k doio_state \<Rightarrow> halt + (int \<times> int \<times> nat) \<times> 'k doio_state" where
  "prepare K e file oflags nbytes st =
     on_ok (alloc_fd K e file oflags st) (\<lambda>(fd, st1).
     if fd = -1 then Inr ((-1, fd, 0), st1)
     else
       on_ok (alloc_fdcache K e file oflags st1) (\<lambda>(i, st2).
       on_ok (alloc_mem K e (s32 (nbytes + 16 + c_memalign (cache st2 ! i))) st2) (\<lambda>(r, st3).
         Inr ((r, fd, i), st3))))"

text \<open>The pattern filled in at \<open>Memptr\<close> and moved to the address of the transfer.\<close>

definition fill_buffer :: "doio_env \<Rightarrow> int \<Rightarrow> int \<Rightarrow> 'k doio_state \<Rightarrow> halt + 'k doio_state" where
  "fill_buffer e off nbytes st =
     (if nbytes < 0 then Inl Fault
      else
        (let bs = pattern_fill e (nat nbytes) (Pattern st) 0 in
         on_ok (put_bytes 0 bs st) (\<lambda>st1.
           if off = 0 then Inr st1 else on_ok (get_bytes 0 nbytes st1) (\<lambda>bs1. put_bytes off bs1 st1))))"

section \<open>Checking a file\<close>

datatype check_msg = Could_not_open | Could_not_lseek | Could_not_read | Wrong_bytes int | Comparison "int option"

text \<open>The first position that differs from the pattern, from \<open>i\<close> on.\<close>

fun corrupt_at :: "byte list \<Rightarrow> byte list \<Rightarrow> nat \<Rightarrow> nat \<Rightarrow> nat option" where
  "corrupt_at [] pattern idx i = None"
| "corrupt_at (b # bs) pattern idx i =
     (if b \<noteq> pattern ! idx then Some i
      else corrupt_at bs pattern (if Suc idx = length pattern then 0 else Suc idx) (Suc i))"

text \<open>
  \<open>None\<close>: no message. Else the file offset of the first corrupt byte, if the loop finds one.
\<close>

definition doio_pat_check :: "doio_env \<Rightarrow> byte list \<Rightarrow> int \<Rightarrow> byte list \<Rightarrow> int \<Rightarrow> int option option" where
  "doio_pat_check e buf offset pattern patshift =
     (if pattern_check e buf pattern patshift then
        Some (map_option (\<lambda>i. offset + int i) (corrupt_at buf pattern (nat (c_rem patshift (int (length pattern)))) 0))
      else None)"

text \<open>The file is read into the buffer at \<open>Memptr\<close>, which is aligned for the flags of the validation.\<close>

definition check_file ::
  "'k doio_kernel \<Rightarrow> doio_env \<Rightarrow> string \<Rightarrow> int \<Rightarrow> int \<Rightarrow> 'k doio_state \<Rightarrow> halt + check_msg option \<times> 'k doio_state" where
  "check_file K e file offset len st =
     (let flags = (if V_opt e then Validation_Flags e OR O_RDONLY else O_RDONLY) in
      on_ok (alloc_fd K e file flags st) (\<lambda>(fd, st1).
      if fd = -1 then Inr (Some Could_not_open, st1)
      else
        (case d_lseek K fd offset (kern st1) of (ok, k2) \<Rightarrow>
           let st2 = st1\<lparr>kern := k2\<rparr> in
           if \<not> ok then Inr (Some Could_not_lseek, st2)
           else
             on_ok (alloc_fdcache K e file flags st2) (\<lambda>(i, st3).
             on_ok (align_up flags (cache st3 ! i) (base_addr st3)) (\<lambda>off.
               case d_read K fd (base_addr st3 + off) len (kern st3) of ((nb, bs), k4) \<Rightarrow>
                 let st4 = st3\<lparr>kern := k4\<rparr> in
                 if nb = -1 then (if c_memalign (cache st3 ! i) = 0 then Inl Fault else Inr (Some Could_not_read, st4))
                 else
                   on_ok (put_bytes off bs st4) (\<lambda>st5.
                     if nb \<noteq> len then Inr (Some (Wrong_bytes nb), st5)
                     else
                       on_ok (get_bytes off len st5) (\<lambda>buf.
                         Inr (map_option Comparison (doio_pat_check e buf offset (Pattern st5) 0), st5))))))))"

section \<open>Locks and the log\<close>

text \<open>A failed lock ends the process.\<close>

definition lock_file_region ::
  "'k doio_kernel \<Rightarrow> int \<Rightarrow> bool \<Rightarrow> int \<Rightarrow> int \<Rightarrow> 'k doio_state \<Rightarrow> halt + 'k doio_state" where
  "lock_file_region K fd unlock start nbytes st =
     (case d_lock K fd unlock start nbytes (kern st) of (ok, k1) \<Rightarrow>
        if ok then Inr (st\<lparr>kern := k1\<rparr>) else Inl (Exit E_INTERNAL))"

definition lock_if ::
  "bool \<Rightarrow> 'k doio_kernel \<Rightarrow> int \<Rightarrow> bool \<Rightarrow> int \<Rightarrow> int \<Rightarrow> 'k doio_state \<Rightarrow> halt + 'k doio_state" where
  "lock_if b K fd unlock start nbytes st = (if b then lock_file_region K fd unlock start nbytes st else Inr st)"

definition write_record :: "doio_env \<Rightarrow> bool \<Rightarrow> string \<Rightarrow> int \<Rightarrow> int \<Rightarrow> int \<Rightarrow> 'k doio_state \<Rightarrow> wlog_rec" where
  "write_record e async file oflags offset nbytes st =
     \<lparr>w_async = async, w_oflags = oflags, w_pid = pid e, w_offset = offset, w_nbytes = nbytes, w_path = file,
      w_host = Host e, w_pattern = Pattern st, w_done = False\<rparr>"

text \<open>The first record of a write; the result is its place in the log, if it has been logged.\<close>

definition log_write :: "bool \<Rightarrow> 'k doio_kernel \<Rightarrow> wlog_rec \<Rightarrow> 'k doio_state \<Rightarrow> int option \<times> 'k doio_state" where
  "log_write b K wrec st =
     (if b then
        (case d_wlog K wrec (-1) (kern st) of (woffset, k1) \<Rightarrow>
           (if woffset = -1 then None else Some woffset, st\<lparr>kern := k1\<rparr>))
      else (None, st))"

definition log_done :: "'k doio_kernel \<Rightarrow> wlog_rec \<Rightarrow> int option \<Rightarrow> 'k doio_state \<Rightarrow> 'k doio_state" where
  "log_done K wrec woffset st =
     (case woffset of None \<Rightarrow> st | Some place \<Rightarrow> st\<lparr>kern := snd (d_wlog K (wrec\<lparr>w_done := True\<rparr>) place (kern st))\<rparr>)"

text \<open>A message of the check ends the process.\<close>

definition verify_if ::
  "bool \<Rightarrow> 'k doio_kernel \<Rightarrow> doio_env \<Rightarrow> string \<Rightarrow> int \<Rightarrow> int \<Rightarrow> 'k doio_state \<Rightarrow> halt + 'k doio_state" where
  "verify_if b K e file offset len st =
     (if b then
        on_ok (check_file K e file offset len st) (\<lambda>(msg, st1). if msg = None then Inr st1 else Inl (Exit E_COMPARE))
      else Inr st)"

section \<open>Reads and writes\<close>

definition aligned_offset ::
  "'k doio_kernel \<Rightarrow> io_req \<Rightarrow> fd_cache \<Rightarrow> 'k doio_state \<Rightarrow> halt + int \<times> 'k doio_state" where
  "aligned_offset K req s st =
     (if r_uflags req AND F_WORD_ALIGNED \<noteq> 0 then on_ok (align_up (r_oflags req) s (base_addr st)) (\<lambda>off. Inr (off, st))
      else Inr (random_bump K st))"

definition do_read :: "'k doio_kernel \<Rightarrow> doio_env \<Rightarrow> io_req \<Rightarrow> 'k doio_state \<Rightarrow> halt + int \<times> 'k doio_state" where
  "do_read K e req st =
     on_ok (prepare K e (r_file req) (r_oflags req) (r_nbytes req) st) (\<lambda>((r, fd, i), st1).
     if r < 0 then Inr (r, st1)
     else
       on_ok (aligned_offset K req (cache st1 ! i) st1) (\<lambda>(off, st2).
         if r_type req \<noteq> READ then Inr (0, st2)
         else
           (case d_lseek K fd (r_offset req) (kern st2) of (ok, k3) \<Rightarrow>
              if \<not> ok then Inr (-1, st2\<lparr>kern := k3\<rparr>)
              else
                (case d_read K fd (base_addr st2 + off) (r_nbytes req) k3 of ((rval, bs), k4) \<Rightarrow>
                   if rval = -1 then Inr (-1, st2\<lparr>kern := k4\<rparr>)
                   else
                     on_ok (put_bytes off bs (st2\<lparr>kern := k4\<rparr>)) (\<lambda>st5.
                       Inr (if rval \<noteq> r_nbytes req then -1 else 0, st5))))))"

text \<open>The write itself: \<open>None\<close> when \<open>lseek\<close> fails and the function returns at once.\<close>

definition write_at ::
  "'k doio_kernel \<Rightarrow> io_req \<Rightarrow> int \<Rightarrow> fd_cache \<Rightarrow> int \<Rightarrow> 'k doio_state \<Rightarrow> halt + int option \<times> 'k doio_state" where
  "write_at K req fd s off st =
     (if r_type req \<noteq> WRITE then Inr (Some (-1), st)
      else
        (case d_lseek K fd (r_offset req) (kern st) of (ok, k1) \<Rightarrow>
           if \<not> ok then Inr (None, st\<lparr>kern := k1\<rparr>)
           else
             on_ok (get_bytes off (r_nbytes req) st) (\<lambda>bs.
               case d_write K fd (base_addr st + off) bs k1 of (rval, k2) \<Rightarrow>
                 if rval = -1 \<and> (c_miniosz s = 0 \<or> c_memalign s = 0) then Inl Fault
                 else Inr (Some (if rval \<noteq> r_nbytes req then -1 else rval), st\<lparr>kern := k2\<rparr>))))"

definition do_write :: "'k doio_kernel \<Rightarrow> doio_env \<Rightarrow> io_req \<Rightarrow> 'k doio_state \<Rightarrow> halt + int \<times> 'k doio_state" where
  "do_write K e req st =
     (let file = r_file req; oflags = r_oflags req; offset = r_offset req; nbytes = r_nbytes req in
      on_ok (prepare K e file oflags nbytes (st\<lparr>Pattern := (Pattern st)[0 := word_of_int (r_pattern req)]\<rparr>)) (\<lambda>((r, fd, i), st1).
      if r < 0 then Inr (r, st1)
      else
        on_ok (aligned_offset K req (cache st1 ! i) st1) (\<lambda>(off, st2).
        on_ok (fill_buffer e off nbytes st2) (\<lambda>st3.
        on_ok (lock_if (k_opt e) K fd False offset nbytes st3) (\<lambda>st4.
          let wrec = write_record e (r_type req = WRITEA) file oflags offset nbytes st4 in
          case log_write (w_opt e) K wrec st4 of (woffset, st5) \<Rightarrow>
            on_ok (write_at K req fd (cache st5 ! i) off st5) (\<lambda>(w, st6).
              case w of
                None \<Rightarrow> Inr (-1, st6)
              | Some rval \<Rightarrow>
                  on_ok (verify_if (v_opt e) K e file offset nbytes st6) (\<lambda>st7.
                  on_ok (lock_if (k_opt e) K fd True offset nbytes (log_done K wrec woffset st7)) (\<lambda>st8.
                    Inr (if rval = -1 then -1 else 0, st8)))))))))"

section \<open>The other transfers\<close>

text \<open>\<open>sy_pread\<close>, \<open>sy_readv\<close> and their counterparts: the value of the call.\<close>

definition sy_pread :: "'k doio_kernel \<Rightarrow> io_req \<Rightarrow> int \<Rightarrow> int \<Rightarrow> 'k doio_state \<Rightarrow> halt + int \<times> 'k doio_state" where
  "sy_pread K req fd off st =
     (case d_pread K fd (base_addr st + off) (r_nbytes req) (r_offset req) (kern st) of ((rc, bs), k1) \<Rightarrow>
        if rc = -1 then Inr (-1, st\<lparr>kern := k1\<rparr>)
        else on_ok (put_bytes off bs (st\<lparr>kern := k1\<rparr>)) (\<lambda>st2. Inr (rc, st2)))"

definition sy_pwrite :: "'k doio_kernel \<Rightarrow> io_req \<Rightarrow> int \<Rightarrow> int \<Rightarrow> 'k doio_state \<Rightarrow> halt + int \<times> 'k doio_state" where
  "sy_pwrite K req fd off st =
     on_ok (get_bytes off (r_nbytes req) st) (\<lambda>bs.
       case d_pwrite K fd (base_addr st + off) bs (r_offset req) (kern st) of (rc, k1) \<Rightarrow> Inr (rc, st\<lparr>kern := k1\<rparr>))"

definition sy_rwv :: "bool \<Rightarrow> 'k doio_kernel \<Rightarrow> io_req \<Rightarrow> int \<Rightarrow> int \<Rightarrow> 'k doio_state \<Rightarrow> halt + int \<times> 'k doio_state" where
  "sy_rwv rw K req fd off st =
     (case d_lseek K fd (r_offset req) (kern st) of (ok, k1) \<Rightarrow>
        let st1 = st\<lparr>kern := k1\<rparr> in
        if \<not> ok then Inr (-1, st1)
        else if rw then
          on_ok (get_bytes off (r_nbytes req) st1) (\<lambda>bs.
            case d_writev K fd (base_addr st1 + off) bs k1 of (rc, k2) \<Rightarrow> Inr (rc, st1\<lparr>kern := k2\<rparr>))
        else
          (case d_readv K fd (base_addr st1 + off) (r_nbytes req) k1 of ((rc, bs), k2) \<Rightarrow>
             if rc = -1 then Inr (-1, st1\<lparr>kern := k2\<rparr>)
             else on_ok (put_bytes off bs (st1\<lparr>kern := k2\<rparr>)) (\<lambda>st3. Inr (rc, st3))))"

text \<open>What the handler of \<open>SIGBUS\<close> and the default action of \<open>SIGSEGV\<close> do to the process.\<close>

definition touch :: "'a touched \<Rightarrow> halt + 'a" where
  "touch r = (case r of Touched x \<Rightarrow> Inr x | Sigbus \<Rightarrow> Inl (Exit 1) | Sigsegv \<Rightarrow> Inl Fault)"

text \<open>The mapping of the slot, made at the first use with the length the file has then.\<close>

definition map_slot :: "bool \<Rightarrow> 'k doio_kernel \<Rightarrow> int \<Rightarrow> nat \<Rightarrow> 'k doio_state \<Rightarrow> bool \<times> 'k doio_state" where
  "map_slot rw K fd i st =
     (if c_memaddr (cache st ! i) \<noteq> 0 then (True, st)
      else
        (case d_fstat K fd (kern st) of
           (None, k1) \<Rightarrow> (False, st\<lparr>kern := k1\<rparr>)
         | (Some sz, k1) \<Rightarrow>
             (case d_map_file K rw (s32 sz) fd k1 of (a, k2) \<Rightarrow>
                let s = (cache st ! i)\<lparr>c_memlen := s32 sz\<rparr> in
                (a \<noteq> None,
                 st\<lparr>cache := (cache st)[i := (case a of None \<Rightarrow> s | Some a \<Rightarrow> s\<lparr>c_memaddr := a\<rparr>)], kern := k2\<rparr>))))"

definition sy_mmrw ::
  "bool \<Rightarrow> 'k doio_kernel \<Rightarrow> doio_env \<Rightarrow> io_req \<Rightarrow> int \<Rightarrow> int \<Rightarrow> 'k doio_state \<Rightarrow> halt + int \<times> 'k doio_state" where
  "sy_mmrw rw K e req fd off st =
     on_ok (alloc_fdcache K e (r_file req) (r_oflags req) st) (\<lambda>(i, st1).
       case map_slot rw K fd i st1 of (ok, st2) \<Rightarrow>
         if \<not> ok then Inr (-1, st2)
         else
           (let memaddr = c_memaddr (cache st2 ! i) + r_offset req in
            if rw then
              on_ok (get_bytes off (r_nbytes req) st2) (\<lambda>bs.
                case d_store K memaddr bs (kern st2) of (r, k3) \<Rightarrow>
                  on_ok (touch r) (\<lambda>_. Inr (r_nbytes req, st2\<lparr>kern := k3\<rparr>)))
            else
              (case d_load K memaddr (r_nbytes req) (kern st2) of (r, k3) \<Rightarrow>
                 on_ok (touch r) (\<lambda>bs. on_ok (put_bytes off bs (st2\<lparr>kern := k3\<rparr>)) (\<lambda>st4. Inr (r_nbytes req, st4))))))"

text \<open>The table \<open>syscalls\<close>: whether a type is in it, and which of them write.\<close>

definition sy_known :: "rtype \<Rightarrow> bool" where
  "sy_known t \<longleftrightarrow> t \<in> {PREAD, PWRITE, READV, WRITEV, MMAPR, MMAPW}"

definition sy_write :: "rtype \<Rightarrow> bool" where
  "sy_write t \<longleftrightarrow> t \<in> {PWRITE, WRITEV, MMAPW}"

definition sy_syscall ::
  "'k doio_kernel \<Rightarrow> doio_env \<Rightarrow> io_req \<Rightarrow> int \<Rightarrow> int \<Rightarrow> 'k doio_state \<Rightarrow> halt + int \<times> 'k doio_state" where
  "sy_syscall K e req fd off st =
     (if r_type req = PREAD then sy_pread K req fd off st
      else if r_type req = PWRITE then sy_pwrite K req fd off st
      else if r_type req = READV then sy_rwv False K req fd off st
      else if r_type req = WRITEV then sy_rwv True K req fd off st
      else if r_type req = MMAPR then sy_mmrw False K e req fd off st
      else sy_mmrw True K e req fd off st)"

definition rw_offset :: "'k doio_kernel \<Rightarrow> io_req \<Rightarrow> fd_cache \<Rightarrow> 'k doio_state \<Rightarrow> halt + int \<times> 'k doio_state" where
  "rw_offset K req s st =
     (case (if r_uflags req AND F_WORD_ALIGNED = 0 then random_bump K st else (0, st)) of (off, st1) \<Rightarrow>
        on_ok (align_up (r_oflags req) s (base_addr st1 + off)) (\<lambda>a. Inr (off + a, st1)))"

text \<open>
  The message about a failed request asks again for the limits of direct I/O and divides by the unit it is given
  (\<open>fmt_ioreq\<close>). It follows a transfer that failed, a lock that failed and a check that failed.
\<close>

definition rw_report :: "'k doio_kernel \<Rightarrow> doio_env \<Rightarrow> io_req \<Rightarrow> int \<Rightarrow> 'k doio_state \<Rightarrow> halt + 'k doio_state" where
  "rw_report K e req fd st =
     (case dio_limits K e (r_file req) (r_oflags req) fd (kern st) of ((mem, mini, maxi), k1) \<Rightarrow>
        if mini = 0 then Inl Fault else Inr (st\<lparr>kern := k1\<rparr>))"

definition lock_rw ::
  "bool \<Rightarrow> 'k doio_kernel \<Rightarrow> doio_env \<Rightarrow> io_req \<Rightarrow> int \<Rightarrow> int \<Rightarrow> 'k doio_state \<Rightarrow> halt + 'k doio_state" where
  "lock_rw b K e req fd len st =
     (if b then
        (case d_lock K fd False (r_offset req) len (kern st) of (ok, k1) \<Rightarrow>
           if ok then Inr (st\<lparr>kern := k1\<rparr>)
           else on_ok (rw_report K e req fd (st\<lparr>kern := k1\<rparr>)) (\<lambda>_. Inl (Exit E_INTERNAL)))
      else Inr st)"

definition verify_rw ::
  "bool \<Rightarrow> 'k doio_kernel \<Rightarrow> doio_env \<Rightarrow> io_req \<Rightarrow> int \<Rightarrow> int \<Rightarrow> 'k doio_state \<Rightarrow> halt + 'k doio_state" where
  "verify_rw b K e req fd len st =
     (if b then
        on_ok (check_file K e (r_file req) (r_offset req) len st) (\<lambda>(msg, st1).
          if msg = None then Inr st1 else on_ok (rw_report K e req fd st1) (\<lambda>_. Inl (Exit E_COMPARE)))
      else Inr st)"

definition do_rw :: "'k doio_kernel \<Rightarrow> doio_env \<Rightarrow> io_req \<Rightarrow> 'k doio_state \<Rightarrow> halt + int \<times> 'k doio_state" where
  "do_rw K e req st =
     (let file = r_file req; oflags = r_oflags req; offset = r_offset req; nbytes = r_nbytes req;
          whole = s32 (nbytes * r_nstrides req * r_nent req); writes = sy_write (r_type req) in
      if 256 \<le> r_nent req \<or> \<not> sy_known (r_type req) then Inr (-1, st)
      else
        on_ok (prepare K e file oflags nbytes st) (\<lambda>((r, fd, i), st0).
        if r < 0 then Inr (r, st0)
        else
          (let st1 = st0\<lparr>Pattern := (Pattern st0)[0 := word_of_int (r_pattern req)]\<rparr> in
           on_ok (rw_offset K req (cache st1 ! i) st1) (\<lambda>(off, st2).
           on_ok (if writes then fill_buffer e off nbytes st2 else Inr st2) (\<lambda>st3.
           on_ok (lock_rw (writes \<and> k_opt e) K e req fd (s32 (whole + 1)) st3) (\<lambda>st4.
             let wrec = write_record e False file oflags offset nbytes st4 in
             case log_write (writes \<and> w_opt e) K wrec st4 of (woffset, st5) \<Rightarrow>
               on_ok (sy_syscall K e req fd off st5) (\<lambda>(rc, st').
               let rval = (if rc = -1 \<or> rc \<noteq> nbytes then -1 else 0) in
               on_ok (if rval = -1 then rw_report K e req fd st' else Inr st') (\<lambda>st6.
               on_ok (verify_rw (rval = 0 \<and> writes \<and> v_opt e) K e req fd whole st6) (\<lambda>st7.
               on_ok (lock_if (writes \<and> k_opt e) K fd True offset (s32 (whole + 1)) (log_done K wrec woffset st7)) (\<lambda>st8.
                 Inr (rval, st8)))))))))))"

definition do_xfsctl :: "'k doio_kernel \<Rightarrow> doio_env \<Rightarrow> io_req \<Rightarrow> 'k doio_state \<Rightarrow> halt + int \<times> 'k doio_state" where
  "do_xfsctl K e req st =
     on_ok (alloc_fd K e (r_file req) (r_oflags req) st) (\<lambda>(fd, st1).
     if fd = -1 then Inr (-1, st1)
     else
       on_ok (lock_if (k_opt e) K fd False (r_offset req) (s32 (r_nbytes req + 1)) st1) (\<lambda>st2.
         case d_xfsctl K (r_file req) fd (r_type req = RESVSP) (r_offset req) (r_nbytes req) (kern st2) of (rval, k3) \<Rightarrow>
           on_ok (lock_if (k_opt e) K fd True (r_offset req) (s32 (r_nbytes req + 1)) (st2\<lparr>kern := k3\<rparr>)) (\<lambda>st4.
             Inr (if rval = -1 then -1 else 0, st4))))"

definition do_sync :: "'k doio_kernel \<Rightarrow> doio_env \<Rightarrow> io_req \<Rightarrow> 'k doio_state \<Rightarrow> halt + int \<times> 'k doio_state" where
  "do_sync K e req st =
     on_ok (alloc_fd K e (r_file req) (r_oflags req) st) (\<lambda>(fd, st1).
     if fd = -1 then Inr (-1, st1)
     else
       (case (if r_type req = FSYNC2 then d_fsync K fd (kern st1)
              else if r_type req = FDATASYNC then d_fdatasync K fd (kern st1) else (-1, kern st1)) of (rval, k2) \<Rightarrow>
          Inr (if rval = -1 then -1 else 0, st1\<lparr>kern := k2\<rparr>)))"

section \<open>The loop\<close>

text \<open>\<open>None\<close>: a type of request that \<open>doio\<close> does not know, which ends it.\<close>

definition do_request :: "'k doio_kernel \<Rightarrow> doio_env \<Rightarrow> io_req \<Rightarrow> 'k doio_state \<Rightarrow> halt + int option \<times> 'k doio_state" where
  "do_request K e req st =
     (let t = r_type req; some = (\<lambda>r. on_ok r (\<lambda>(v, st1). Inr (Some v, st1))) in
      if t = READ \<or> t = READA then some (do_read K e req st)
      else if t = WRITE \<or> t = WRITEA then some (do_write K e req st)
      else if t \<in> {READV, AREAD, PREAD, LREAD, LREADA, LSREAD, LSREADA, WRITEV, AWRITE, PWRITE, MMAPR, MMAPW,
                    LWRITE, LWRITEA, LSWRITE, LSWRITEA, LEREAD, LEREADA, LEWRITE, LEWRITEA} then some (do_rw K e req st)
      else if t = RESVSP \<or> t = UNRESVSP then some (do_xfsctl K e req st)
      else if t = FSYNC2 \<or> t = FDATASYNC then some (do_sync K e req st)
      else Inr (None, st))"

text \<open>
  Before a request: an orphan ends, a bad input ends, and at a multiple of the interval memory and
  descriptors are released.
\<close>

definition before_request :: "'k doio_kernel \<Rightarrow> doio_env \<Rightarrow> input \<Rightarrow> 'k doio_state \<Rightarrow> halt + io_req \<times> 'k doio_state" where
  "before_request K e inp st =
     (if Reqno st \<noteq> 0 \<and> c_rem (Reqno st) 5 = 0 \<and> d_getppid K (kern st) = 1 then Inl (Exit E_SETUP)
      else
        (case inp of
           Got req \<Rightarrow>
             if r_magic req \<noteq> DOIO_MAGIC then Inl (Exit E_SETUP)
             else if Reqno st \<noteq> 0 \<and> Release_Interval e \<noteq> 0 \<and> c_rem (Reqno st) (Release_Interval e) = 0 then
               on_ok (release_fds K (if Memsize st \<noteq> 0 then free_mem K e st else st)) (\<lambda>st1. Inr (req, st1))
             else Inr (req, st)
         | _ \<Rightarrow> Inl (Exit E_SETUP)))"

definition doio_step :: "'k doio_kernel \<Rightarrow> doio_env \<Rightarrow> input \<Rightarrow> 'k doio_state \<Rightarrow> halt + 'k doio_state" where
  "doio_step K e inp st =
     on_ok (before_request K e inp st) (\<lambda>(req, st1).
     on_ok (do_request K e req st1) (\<lambda>(rval, st2).
       if rval = None \<or> (rval \<noteq> Some SKIP_REQ \<and> rval \<noteq> Some 0) then Inl (Exit E_SETUP)
       else
         Inr (st2\<lparr>Reqskipcnt := (if rval = Some SKIP_REQ then s32 (Reqskipcnt st2 + 1) else Reqskipcnt st2),
                  Reqno := s32 (Reqno st2 + 1)\<rparr>)))"

text \<open>
  The loop reads its input up to the end. It never returns: the result is how the process ends, the number of
  requests done before, and the state after these.
\<close>

fun doio_loop :: "'k doio_kernel \<Rightarrow> doio_env \<Rightarrow> input list \<Rightarrow> 'k doio_state \<Rightarrow> halt \<times> nat \<times> 'k doio_state" where
  "doio_loop K e [] st = (Exit 0, 0, free_mem K e st)"
| "doio_loop K e (inp # inps) st =
     (case doio_step K e inp st of
        Inl h \<Rightarrow> (h, 0, st)
      | Inr st1 \<Rightarrow> (case doio_loop K e inps st1 of (h, n, st2) \<Rightarrow> (h, Suc n, st2)))"

text \<open>The pattern of a process: its first character is replaced by that of the request.\<close>

definition chars :: "string \<Rightarrow> byte list" where
  "chars s = map of_char s"

definition init_pattern :: "(int \<Rightarrow> string) \<Rightarrow> doio_env \<Rightarrow> halt + byte list" where
  "init_pattern fmt e =
     (let p = ''-:'' @ fmt (pid e) @ '':'' @ Host e @ '':'' @ Prog e @ ''*'';
          q = (if length p mod 16 = 0 then p @ ''*'' else p)
      in if 128 \<le> length q then Inl Fault else Inr (chars q))"

definition init_state :: "memalloc list \<Rightarrow> byte list \<Rightarrow> 'k \<Rightarrow> 'k doio_state" where
  "init_state mems p k =
     \<lparr>Memalloc = mems, mturn = 0, Memptr = None, Memsize = 0, cache = [], Reqno = 1, Reqskipcnt = 0, Pattern = p, kern = k\<rparr>"

end
