(* ===== verification/Doio_Main.thy ===== *)
theory Doio_Main
  imports Doio_Io Iog_Setup
begin

text \<open>
  The options of \<open>doio\<close> and the process that waits for the others.
\<close>

section \<open>Options\<close>

text \<open>\<open>strtol(s, &cp, 10)\<close>, as an \<open>int\<close>, and what \<open>cp\<close> points at.\<close>

definition strtol10 :: "string \<Rightarrow> int \<times> string" where
  "strtol10 s =
     (let t = dropWhile isspace s;
          neg = (t \<noteq> [] \<and> hd t = CHR ''-'');
          u = (if t \<noteq> [] \<and> (hd t = CHR ''-'' \<or> hd t = CHR ''+'') then tl t else t)
      in if u = [] \<or> \<not> is_digit 10 (hd u) then (0, s)
         else (case scan_digits 10 u 0 of (v, r) \<Rightarrow>
                 (s32 (if neg then max (-9223372036854775808) (- v) else min 9223372036854775807 v), r)))"

datatype delay_type = DELAY_SELECT | DELAY_SLEEP | DELAY_ALARM

record doio_opts =
  q_abort :: bool
  q_exec :: bool
  q_lock :: bool
  q_verify :: bool
  q_log :: "string option"
  q_validate :: "int option"
  q_release :: int
  q_message :: int
  q_nprocs :: int
  q_upanic :: int
  q_delay :: "(delay_type \<times> int) option"
  q_tag :: string
  q_mems :: "memalloc list"
  q_infile :: "string option"

definition no_doio_opts :: doio_opts where
  "no_doio_opts = \<lparr>q_abort = False, q_exec = False, q_lock = False, q_verify = False, q_log = None, q_validate = None,
     q_release = 0, q_message = 0, q_nprocs = 1, q_upanic = 0, q_delay = None, q_tag = [], q_mems = [], q_infile = None\<rparr>"

definition delaymap :: "delay_type strmap list" where
  "delaymap = [entry ''select'' DELAY_SELECT 0, entry ''sleep'' DELAY_SLEEP 0, entry ''alarm'' DELAY_ALARM 0]"

definition Upanic_Args :: "int strmap list" where
  "Upanic_Args = [entry ''corruption'' 1 0, entry ''iosw'' 2 0, entry ''rval'' 4 0, entry ''all'' 7 0]"

text \<open>The time that is not a number leaves \<open>delaytime\<close> at 0.\<close>

definition parse_delay :: "(string \<Rightarrow> string list) \<Rightarrow> string \<Rightarrow> doio_opts \<Rightarrow> halt + doio_opts" where
  "parse_delay tokens arg q =
     (case tokens arg of
        op # time # _ \<Rightarrow>
          (case str_lookup delaymap op of
             None \<Rightarrow> Inl (Exit 1)
           | Some es \<Rightarrow>
               Inr (q\<lparr>q_delay := Some (m_value (hd es),
                        case scan_i time of Some (n, _) \<Rightarrow> n | None \<Rightarrow> (case q_delay q of None \<Rightarrow> 0 | Some (_, n) \<Rightarrow> n))\<rparr>))
      | _ \<Rightarrow> Inl (Exit 1))"

text \<open>
  A type of memory. The code means to make \<open>/dev/zero\<close> private if no flag says so, but the condition it writes is
  a conjunction with 0.
\<close>

definition parse_memalloc :: "(string \<Rightarrow> string list) \<Rightarrow> string \<Rightarrow> doio_opts \<Rightarrow> halt + doio_opts" where
  "parse_memalloc tokens arg q =
     (if 32 \<le> length (q_mems q) then Inr q
      else
        (let add = (\<lambda>m. Inr (q\<lparr>q_mems := q_mems q @ [m]\<rparr>)) in
         case tokens arg of
           [] \<Rightarrow> Inl Fault
         | t # ts \<Rightarrow>
             if t = ''data'' then add (no_mem\<lparr>m_type := MEM_DATA\<rparr>)
             else if t = ''mmap'' then
               (case ts of
                  [] \<Rightarrow> Inl Fault
                | fl # us \<Rightarrow>
                    add (no_mem\<lparr>m_type := MEM_MMAP, m_private := CHR ''p'' \<in> set fl, m_shared := CHR ''s'' \<in> set fl,
                          m_file := CHR ''U'' \<in> set fl,
                          m_name := Some (case us of [] \<Rightarrow> ''/dev/zero'' | n # _ \<Rightarrow> if n = ''devzero'' then ''/dev/zero'' else n)\<rparr>))
             else if t = ''shmem'' then
               add (no_mem\<lparr>m_type := MEM_SHMEM, m_name := (case ts of [] \<Rightarrow> None | n # _ \<Rightarrow> Some n),
                     m_nblks := (case ts of _ # b # _ \<Rightarrow> (case scan_i b of Some (n, _) \<Rightarrow> n | None \<Rightarrow> 0) | _ \<Rightarrow> 0)\<rparr>)
             else Inl (Exit 1)))"

fun parse_memallocs :: "(string \<Rightarrow> string list) \<Rightarrow> string list \<Rightarrow> doio_opts \<Rightarrow> halt + doio_opts" where
  "parse_memallocs tokens [] q = Inr q"
| "parse_memallocs tokens (a # as) q = on_ok (parse_memalloc tokens a q) (parse_memallocs tokens as)"

fun upanic_args :: "string list \<Rightarrow> int \<Rightarrow> halt + int" where
  "upanic_args [] u = Inr u"
| "upanic_args (t # ts) u =
     (case str_lookup Upanic_Args t of None \<Rightarrow> Inl (Exit 1) | Some es \<Rightarrow> upanic_args ts (u OR m_value (hd es)))"

text \<open>An option with a number that has to be at least \<open>least\<close>, with the status of a wrong one.\<close>

definition number_opt :: "string \<Rightarrow> int \<Rightarrow> int \<Rightarrow> (int \<Rightarrow> doio_opts) \<Rightarrow> halt + doio_opts" where
  "number_opt arg least status f =
     (case strtol10 arg of (n, r) \<Rightarrow> if r \<noteq> [] \<or> n < least then Inl (Exit status) else Inr (f n))"

definition ascii_lower :: "string \<Rightarrow> string" where
  "ascii_lower s = map (\<lambda>c. let n = of_char c :: nat in if 65 \<le> n \<and> n \<le> 90 then char_of (n + 32) else c) s"

definition validation_flags :: "string \<Rightarrow> halt + int" where
  "validation_flags arg =
     (if ascii_lower arg = ''sync'' then Inr O_SYNC
      else if ascii_lower arg = ''buffered'' then Inr 0
      else if ascii_lower arg = ''direct'' then Inr O_DIRECT
      else (case scan_i arg of Some (n, None) \<Rightarrow> Inr n | _ \<Rightarrow> Inl (Exit E_USAGE)))"

text \<open>One option; \<open>-M\<close> takes at most 32 tokens, \<open>tokens\<close> splits at the characters it is given first.\<close>

definition doio_opt :: "(string \<Rightarrow> string \<Rightarrow> string list) \<Rightarrow> char \<times> string \<Rightarrow> doio_opts \<Rightarrow> halt + doio_opts" where
  "doio_opt tokens o_arg q =
     (case o_arg of (ch, arg) \<Rightarrow>
        if ch = CHR ''a'' then Inr (q\<lparr>q_abort := True\<rparr>)
        else if ch = CHR ''C'' then (if arg = ''default'' then Inr q else Inl (Exit 1))
        else if ch = CHR ''d'' then parse_delay (tokens '':'') arg q
        else if ch = CHR ''e'' then Inr (q\<lparr>q_exec := True\<rparr>)
        else if ch = CHR ''h'' then Inl (Exit 0)
        else if ch = CHR ''k'' then Inr (q\<lparr>q_lock := True\<rparr>)
        else if ch = CHR ''m'' then number_opt arg 0 1 (\<lambda>n. q\<lparr>q_message := n\<rparr>)
        else if ch = CHR ''M'' then parse_memallocs (tokens '':'') (tokens '','' arg) q
        else if ch = CHR ''N'' then Inr (q\<lparr>q_tag := ''('' @ take 37 arg @ '')''\<rparr>)
        else if ch = CHR ''n'' then number_opt arg 1 E_USAGE (\<lambda>n. q\<lparr>q_nprocs := n\<rparr>)
        else if ch = CHR ''r'' then number_opt arg 0 E_USAGE (\<lambda>n. q\<lparr>q_release := n\<rparr>)
        else if ch = CHR ''w'' then Inr (q\<lparr>q_log := Some arg\<rparr>)
        else if ch = CHR ''v'' then Inr (q\<lparr>q_verify := True\<rparr>)
        else if ch = CHR ''V'' then on_ok (validation_flags arg) (\<lambda>n. Inr (q\<lparr>q_validate := Some n\<rparr>))
        else if ch = CHR ''U'' then on_ok (upanic_args (comma_toks arg []) (q_upanic q)) (\<lambda>u. Inr (q\<lparr>q_upanic := u\<rparr>))
        else if ch = CHR ''?'' then Inl (Exit E_USAGE)
        else Inr q)"

fun doio_opts_run :: "(string \<Rightarrow> string \<Rightarrow> string list) \<Rightarrow> (char \<times> string) list \<Rightarrow> doio_opts \<Rightarrow> halt + doio_opts" where
  "doio_opts_run tokens [] q = Inr q"
| "doio_opts_run tokens (x # xs) q = on_ok (doio_opt tokens x q) (doio_opts_run tokens xs)"

text \<open>Without \<open>-M\<close> there is one buffer of data space; one argument may be left, the input.\<close>

definition doio_cmdline ::
  "(string \<Rightarrow> string \<Rightarrow> string list) \<Rightarrow> (char \<times> string) list \<Rightarrow> string list \<Rightarrow> halt + doio_opts" where
  "doio_cmdline tokens os args =
     on_ok (doio_opts_run tokens os no_doio_opts) (\<lambda>q.
       let q1 = (if list_ex (\<lambda>x. fst x = CHR ''M'') os then q else q\<lparr>q_mems := q_mems q @ [no_mem\<lparr>m_type := MEM_DATA\<rparr>]\<rparr>) in
       case args of
         [] \<Rightarrow> Inr q1
       | [f] \<Rightarrow> Inr (q1\<lparr>q_infile := Some f\<rparr>)
       | _ \<Rightarrow> Inl (Exit E_USAGE))"

text \<open>The options as the process sees them.\<close>

definition env_of :: "doio_env \<Rightarrow> doio_opts \<Rightarrow> doio_env" where
  "env_of e q =
     e\<lparr>k_opt := q_lock q, w_opt := q_log q \<noteq> None, v_opt := q_verify q, V_opt := q_validate q \<noteq> None,
       Validation_Flags := (case q_validate q of None \<Rightarrow> 0 | Some n \<Rightarrow> n), Release_Interval := q_release q,
       Nmemalloc := length (q_mems q)\<rparr>"

text \<open>A process from its start with the input it is given: the array of memory has 32 entries.\<close>

definition doio_run ::
  "'k doio_kernel \<Rightarrow> (int \<Rightarrow> string) \<Rightarrow> doio_env \<Rightarrow> doio_opts \<Rightarrow> input list \<Rightarrow> 'k \<Rightarrow> halt \<times> nat \<times> 'k doio_state option" where
  "doio_run K fmt e q inps k =
     (case init_pattern fmt e of
        Inl h \<Rightarrow> (h, 0, None)
      | Inr p \<Rightarrow>
          (case doio_loop K (env_of e q) inps (init_state (take 32 (q_mems q @ replicate 32 no_mem)) p k) of
             (h, n, st) \<Rightarrow> (h, n, Some st)))"

section \<open>The parent\<close>

text \<open>
  What \<open>wait\<close> reports: a child that has ended, an interruption, or another error, after which the status is the
  one of the last child again.
\<close>

datatype wait_status = Exited int | Signaled int

datatype wait_result = Waited int wait_status | Wait_EINTR | Wait_error

abbreviation (input) SIGINT :: int where "SIGINT \<equiv> 2"

text \<open>The exit status with a child added, and whether all processes are interrupted (\<open>-a\<close>).\<close>

definition add_status :: "bool \<Rightarrow> wait_status \<Rightarrow> int \<Rightarrow> int \<times> bool" where
  "add_status a_opt s ex =
     (case s of
        Exited n \<Rightarrow>
          if n = 0 then (ex, False)
          else if n = E_INTERNAL then (ex OR E_INTERNAL, False)
          else if n = E_SETUP then (ex OR E_SETUP, False)
          else if n = E_COMPARE then (ex OR E_COMPARE, a_opt)
          else if n = E_USAGE then (ex OR E_USAGE, False)
          else (ex OR E_INTERNAL, False)
      | Signaled sig \<Rightarrow> (if sig \<noteq> SIGINT then ex OR E_SIGNAL else ex, False))"

text \<open>
  The loop over \<open>Nprocs\<close> children: the final status and the number of interruptions it sends. \<open>None\<close>: the list
  of reports ends before it.
\<close>

fun wait_loop :: "bool \<Rightarrow> wait_result list \<Rightarrow> nat \<Rightarrow> wait_status \<Rightarrow> int \<Rightarrow> nat \<Rightarrow> (int \<times> nat) option" where
  "wait_loop a_opt rs 0 prev ex kills = Some (ex, kills)"
| "wait_loop a_opt [] (Suc n) prev ex kills = None"
| "wait_loop a_opt (Wait_EINTR # rs) (Suc n) prev ex kills = wait_loop a_opt rs (Suc n) prev ex kills"
| "wait_loop a_opt (Wait_error # rs) (Suc n) prev ex kills =
     (case add_status a_opt prev ex of (ex1, kill) \<Rightarrow> wait_loop a_opt rs n prev ex1 (if kill then Suc kills else kills))"
| "wait_loop a_opt (Waited child s # rs) (Suc n) prev ex kills =
     (case add_status a_opt s ex of (ex1, kill) \<Rightarrow> wait_loop a_opt rs n s ex1 (if kill then Suc kills else kills))"

end
