(* ===== verification/Doio_Ok.thy ===== *)
theory Doio_Ok
  imports Doio_Main
begin

text \<open>
  \<open>doio\<close> makes no access outside of its buffer and its tables, whatever its calls answer: every function ends
  normally or with a call of \<open>exit\<close>. Requests through mapped memory are left out: what they touch depends on
  what the file has been through (\<open>Doio_Files\<close>).
\<close>

section \<open>Runs without a fault\<close>

definition sound :: "('a \<Rightarrow> bool) \<Rightarrow> halt + 'a \<Rightarrow> bool" where
  "sound Q r = (case r of Inl h \<Rightarrow> (\<exists>n. h = Exit n) | Inr x \<Rightarrow> Q x)"

lemma sound_simps [simp]: "sound Q (Inr x) = Q x" "sound Q (Inl (Exit n))" "\<not> sound Q (Inl Fault)"
  by (simp_all add: sound_def)

lemma sound_bind: "sound Q r \<Longrightarrow> (\<And>x. Q x \<Longrightarrow> sound P (f x)) \<Longrightarrow> sound P (on_ok r f)"
  by (cases r) (simp_all add: sound_def)

lemma sound_mono: "sound Q r \<Longrightarrow> (\<And>x. Q x \<Longrightarrow> P x) \<Longrightarrow> sound P r"
  by (cases r) (simp_all add: sound_def)

lemma sound_if: "(c \<Longrightarrow> sound P a) \<Longrightarrow> (\<not> c \<Longrightarrow> sound P b) \<Longrightarrow> sound P (if c then a else b)"
  by simp

lemma sound_prod: "(\<And>x y. p = (x, y) \<Longrightarrow> sound P (f x y)) \<Longrightarrow> sound P (case p of (x, y) \<Rightarrow> f x y)"
  by (cases p) simp

section \<open>The calls\<close>

text \<open>
  What the calls answer: at most as many bytes as asked for, memory of the size asked for at a positive address,
  sane limits of direct I/O, and no \<open>EMFILE\<close>.
\<close>

abbreviation (input) MAX_ALIGN :: int where "MAX_ALIGN \<equiv> 1048576"

locale doio_calls =
  fixes K :: "'k doio_kernel"
  assumes no_emfile: "d_open K f fl k = ((fd, em), k') \<Longrightarrow> \<not> em"
    and dioinfo_sane: "d_dioinfo K f fd k = (Some (mem, mini, maxi), k') \<Longrightarrow>
      0 < mem \<and> mem \<le> MAX_ALIGN \<and> 0 < mini \<and> mini < 2147483648"
    and read_at_most: "d_read K fd a n k = ((r, bs), k') \<Longrightarrow> 0 \<le> n \<Longrightarrow> r \<noteq> -1 \<Longrightarrow> int (length bs) \<le> n \<and> int (length bs) = r"
    and readv_at_most: "d_readv K fd a n k = ((r, bs), k') \<Longrightarrow> 0 \<le> n \<Longrightarrow> r \<noteq> -1 \<Longrightarrow> int (length bs) \<le> n"
    and pread_at_most: "d_pread K fd a n off k = ((r, bs), k') \<Longrightarrow> 0 \<le> n \<Longrightarrow> r \<noteq> -1 \<Longrightarrow> int (length bs) \<le> n"
    and malloc_size: "d_malloc K n k = (Some (a, bs), k') \<Longrightarrow> 0 \<le> n \<Longrightarrow> 0 < a \<and> int (length bs) = n"
    and bump_range: "d_random K 0 7 1 k = ((n, err), k') \<Longrightarrow> 0 \<le> n \<and> n \<le> 7"

section \<open>The invariant\<close>

definition space_ok :: "memalloc \<Rightarrow> bool" where
  "space_ok m \<longleftrightarrow> m_type m = MEM_DATA \<and>
     (case m_space m of No_space \<Rightarrow> True | Bad_space \<Rightarrow> False | Space a bs \<Rightarrow> 0 < a \<and> int (length bs) = m_size m)"

definition slot_ok :: "fd_cache \<Rightarrow> bool" where
  "slot_ok s \<longleftrightarrow> c_fd s = -1 \<or> 0 < c_memalign s \<and> c_memalign s \<le> MAX_ALIGN \<and> 0 < c_miniosz s
     \<and> (c_oflags s AND O_DIRECT = 0 \<longrightarrow> c_memalign s = 1)"

definition env_ok :: "doio_env \<Rightarrow> bool" where
  "env_ok e \<longleftrightarrow> 0 < Nmemalloc e \<and> (\<forall>m. dio_env e = Some m \<longrightarrow> 0 < m \<and> m \<le> MAX_ALIGN)
     \<and> (V_opt e \<longrightarrow> Validation_Flags e AND O_DIRECT = 0)
     \<and> (\<forall>n p s. length (pattern_fill e n p s) = n)"

definition state_ok :: "doio_env \<Rightarrow> 'k doio_state \<Rightarrow> bool" where
  "state_ok e st \<longleftrightarrow> Nmemalloc e \<le> length (Memalloc st) \<and> list_all space_ok (take (Nmemalloc e) (Memalloc st))
     \<and> list_all slot_ok (cache st)"

definition request_ok :: "io_req \<Rightarrow> bool" where
  "request_ok q \<longleftrightarrow> 0 \<le> r_nbytes q \<and> r_nbytes q < 2 ^ 30 \<and> length (r_file q) \<le> MAX_FNAME_LENGTH
     \<and> r_nstrides q = 1 \<and> r_nent q = 1 \<and> r_type q \<noteq> MMAPR \<and> r_type q \<noteq> MMAPW"

definition input_ok :: "input \<Rightarrow> bool" where
  "input_ok inp = (case inp of Got q \<Rightarrow> request_ok q | _ \<Rightarrow> True)"

text \<open>What a change of the descriptors leaves alone, and a buffer for a number of bytes.\<close>

definition same_mem :: "'k doio_state \<Rightarrow> 'k doio_state \<Rightarrow> bool" where
  "same_mem st st' \<longleftrightarrow> Memalloc st' = Memalloc st \<and> mturn st' = mturn st \<and> Memptr st' = Memptr st \<and> Memsize st' = Memsize st
     \<and> Pattern st' = Pattern st"

definition holds :: "doio_env \<Rightarrow> int \<Rightarrow> 'k doio_state \<Rightarrow> bool" where
  "holds e n st \<longleftrightarrow> (\<exists>a bs i. buffer st = Some (a, bs) \<and> 0 < a \<and> n \<le> int (length bs) \<and> Memptr st = Some i \<and> i < Nmemalloc e)"

lemma same_mem_refl [simp]: "same_mem st st" "same_mem st (st\<lparr>kern := k\<rparr>)" "same_mem st (st\<lparr>cache := c\<rparr>)"
  "same_mem st (st\<lparr>cache := c, kern := k\<rparr>)"
  by (simp_all add: same_mem_def)

lemma same_mem_trans: "same_mem a b \<Longrightarrow> same_mem b c \<Longrightarrow> same_mem a c"
  by (simp add: same_mem_def)

lemma buffer_cong: "Memptr st' = Memptr st \<Longrightarrow> Memalloc st' = Memalloc st \<Longrightarrow> buffer st' = buffer st"
  by (simp add: buffer_def cong: option.case_cong)

lemma buffer_update [simp]: "buffer (st\<lparr>kern := k\<rparr>) = buffer st" "buffer (st\<lparr>Pattern := p\<rparr>) = buffer st"
  "buffer (st\<lparr>cache := c\<rparr>) = buffer st"
  by (rule buffer_cong; simp)+

lemma holds_same: "same_mem st st' \<Longrightarrow> holds e n st \<Longrightarrow> holds e n st'"
  using buffer_cong[of st' st] by (simp add: holds_def same_mem_def)

lemma base_holds: "holds e n st \<Longrightarrow> 0 < base_addr st"
  by (auto simp: holds_def buffer_def base_addr_def space_addr_def split: option.splits mem_space.splits)

lemma state_ok_kern [simp]: "state_ok e (st\<lparr>kern := k\<rparr>) = state_ok e st"
  "state_ok e (st\<lparr>Pattern := p\<rparr>) = state_ok e st" "state_ok e (st\<lparr>Reqno := n, Reqskipcnt := m\<rparr>) = state_ok e st"
  "holds e n (st\<lparr>kern := k\<rparr>) = holds e n st" "holds e n (st\<lparr>Pattern := p\<rparr>) = holds e n st"
  by (simp_all add: state_ok_def holds_def)

lemma first_slot_some: "first_slot P ss = Some i \<Longrightarrow> i < length ss \<and> P (ss ! i)"
  by (induction ss arbitrary: i) (auto split: if_splits)

lemma list_all_update: "list_all P xs \<Longrightarrow> P x \<Longrightarrow> list_all P (xs[i := x])"
  using set_update_subset_insert[of xs i x] by (auto simp: list_all_iff)

section \<open>Descriptors\<close>

context doio_calls
begin

lemma dio_limits_ok:
  assumes "env_ok e" and "dio_limits K e file oflags fd k = ((mem, mini, maxi), k')"
  shows "0 < mem \<and> mem \<le> MAX_ALIGN \<and> 0 < mini \<and> (oflags AND O_DIRECT = 0 \<longrightarrow> mem = 1)"
proof -
  have "0 < m \<and> m \<le> MAX_ALIGN" if "dio_env e = Some m" for m using assms(1) that by (simp add: env_ok_def)
  then show ?thesis using assms(2) dioinfo_sane
    by (fastforce simp: dio_limits_def s32_id split: if_splits prod.splits option.splits)
qed

lemma open_file_ok:
  "sound (\<lambda>((fd, free), st'). (case free of None \<Rightarrow> True | Some i \<Rightarrow> i < length (cache st)) \<and> 0 \<le> fd
     \<and> cache st' = cache st \<and> same_mem st st') (open_file K file oflags st)"
proof -
  obtain fd em k1 where o: "d_open K file oflags (kern st) = ((fd, em), k1)" by (metis prod.exhaust)
  have "\<not> em" using no_emfile[OF o] .
  then show ?thesis using o first_slot_some[of _ "cache st"]
    by (auto simp: open_file_def Let_def split: option.splits)
qed

text \<open>A slot that is in use, for the flags asked for.\<close>

lemma alloc_fdcache_ok:
  assumes e: "env_ok e" and st: "state_ok e st"
    and name: "length file \<le> MAX_FNAME_LENGTH"
  shows "sound (\<lambda>(i, st'). state_ok e st' \<and> same_mem st st' \<and> slot_for file oflags (cache st' ! i) \<and> slot_ok (cache st' ! i))
    (alloc_fdcache K e file oflags st)"
proof (cases "first_slot (slot_for file oflags) (cache st)")
  case (Some i)
  note i = first_slot_some[OF Some]
  have "slot_ok (cache st ! i)" using st i by (simp add: state_ok_def list_all_length)
  then have "slot_ok ((cache st ! i)\<lparr>c_rtc := Reqno st\<rparr>)" by (simp add: slot_ok_def)
  then show ?thesis using st i Some by (simp add: alloc_fdcache_def state_ok_def list_all_update slot_for_def)
next
  case None
  show ?thesis
    unfolding alloc_fdcache_def None option.case
  proof (rule sound_bind[OF open_file_ok], clarify)
    fix fd free and st1 :: "'k doio_state"
    assume free: "case free of None \<Rightarrow> True | Some i \<Rightarrow> i < length (cache st)" and fd: "0 \<le> (fd :: int)"
      and st1: "cache st1 = cache st" "same_mem st st1"
    obtain mem mini maxi k2 where d: "dio_limits K e file oflags fd (kern st1) = ((mem, mini, maxi), k2)" by (metis prod.exhaust)
    define grown where "grown = (case free of Some i \<Rightarrow> (i, cache st1)
        | None \<Rightarrow> (length (cache st1), cache st1 @ replicate FD_ALLOC_INCR ((unset_slot e)\<lparr>c_fd := -1\<rparr>)))"
    define s where "s = \<lparr>c_file = file, c_oflags = oflags, c_fd = fd, c_rtc = Reqno st, c_memalign = mem,
        c_miniosz = mini, c_maxiosz = maxi, c_memaddr = 0, c_memlen = 0\<rparr>"
    have g: "fst grown < length (snd grown)" "list_all slot_ok (snd grown)"
      using free st1 st by (auto simp: grown_def state_ok_def slot_ok_def list_all_iff split: option.splits)
    have s: "slot_for file oflags s" "slot_ok s"
      using dio_limits_ok[OF e d] fd by (auto simp: s_def slot_for_def slot_ok_def)
    have "state_ok e (st1\<lparr>cache := (snd grown)[fst grown := s], kern := k2\<rparr>)"
      using st st1(2) g s by (simp add: state_ok_def same_mem_def list_all_update)
    moreover have "same_mem st (st1\<lparr>cache := (snd grown)[fst grown := s], kern := k2\<rparr>)"
      using st1(2) by (simp add: same_mem_def)
    ultimately show "sound (\<lambda>(i, st'). state_ok e st' \<and> same_mem st st' \<and> slot_for file oflags (cache st' ! i) \<and> slot_ok (cache st' ! i))
      (let grown = (case free of Some i \<Rightarrow> (i, cache st1)
         | None \<Rightarrow> (length (cache st1), cache st1 @ replicate FD_ALLOC_INCR ((unset_slot e)\<lparr>c_fd := -1\<rparr>))) in
       if MAX_FNAME_LENGTH < length file then Inl Fault
       else (case dio_limits K e file oflags fd (kern st1) of ((mem, mini, maxi), k2) \<Rightarrow>
         Inr (fst grown, st1\<lparr>cache := (snd grown)[fst grown := \<lparr>c_file = file, c_oflags = oflags, c_fd = fd, c_rtc = Reqno st,
            c_memalign = mem, c_miniosz = mini, c_maxiosz = maxi, c_memaddr = 0, c_memlen = 0\<rparr>], kern := k2\<rparr>)))"
      unfolding Let_def grown_def[symmetric] d prod.case s_def[symmetric]
      using name g s by simp
  qed
qed

lemma alloc_fd_ok:
  assumes "env_ok e" and "state_ok e st" and "length file \<le> MAX_FNAME_LENGTH"
  shows "sound (\<lambda>(fd, st'). state_ok e st' \<and> same_mem st st') (alloc_fd K e file oflags st)"
  unfolding alloc_fd_def by (rule sound_bind[OF alloc_fdcache_ok[OF assms]]) auto

lemma release_fds_ok: "state_ok e st \<Longrightarrow> sound (state_ok e) (release_fds K st)"
  by (simp add: release_fds_def state_ok_def)

end

section \<open>The buffer\<close>

lemma free_entries_ok:
  "free_entries K ms k = (ms1, k1) \<Longrightarrow> list_all space_ok ms \<Longrightarrow> list_all space_ok ms1 \<and> length ms1 = length ms"
proof (induction K ms k arbitrary: ms1 k1 rule: free_entries.induct)
  case (2 K m ms k)
  obtain m1 k2 where m: "free_entry K m k = (m1, k2)" by (metis prod.exhaust)
  obtain ms2 k3 where ms: "free_entries K ms k2 = (ms2, k3)" by (metis prod.exhaust)
  have "space_ok m1" using m 2(3) by (auto simp: free_entry_def space_ok_def split: if_splits)
  then show ?case using 2(1)[of m1 k2 ms2 k3] 2(2,3) m ms by auto
qed simp

lemma free_mem_ok: "state_ok e st \<Longrightarrow> state_ok e (free_mem K e st)"
  using free_entries_ok[of K "take (Nmemalloc e) (Memalloc st)" "kern st"]
  by (auto simp: free_mem_def state_ok_def Let_def split: prod.split)

lemma mem_store_ok: "0 \<le> off \<Longrightarrow> off + int (length bs) \<le> int (length b) \<Longrightarrow>
    \<exists>b'. mem_store b off bs = Some b' \<and> length b' = length b"
  by (simp add: mem_store_def)

text \<open>Storing in the buffer and reading from it.\<close>

lemma put_bytes_ok:
  assumes "state_ok e st" and h: "holds e n st" and "0 \<le> off" and "off + int (length bs) \<le> n"
  shows "\<exists>st'. put_bytes off bs st = Inr st' \<and> state_ok e st' \<and> holds e n st' \<and> cache st' = cache st"
proof -
  obtain a buf i where b: "buffer st = Some (a, buf)" "0 < a" "n \<le> int (length buf)" "Memptr st = Some i" "i < Nmemalloc e"
    using h by (auto simp: holds_def)
  have sp: "m_space (Memalloc st ! i) = Space a buf"
    using b(1,4) by (auto simp: buffer_def split: mem_space.splits)
  obtain buf1 where s: "mem_store buf off bs = Some buf1" "length buf1 = length buf"
    using mem_store_ok[of off bs buf] assms(3,4) b(3) by auto
  have i: "i < length (Memalloc st)" using assms(1) b(5) by (simp add: state_ok_def)
  define m where "m = (Memalloc st ! i)\<lparr>m_space := Space a buf1\<rparr>"
  have put: "put_bytes off bs st = Inr (st\<lparr>Memalloc := (Memalloc st)[i := m]\<rparr>)"
    using b s sp by (simp add: put_bytes_def with_buffer_def m_def space_addr_def)
  have "space_ok (Memalloc st ! i)" using assms(1) b(5) by (simp add: state_ok_def list_all_length)
  then have "space_ok m" using sp s(2) by (simp add: space_ok_def m_def)
  then have "state_ok e (st\<lparr>Memalloc := (Memalloc st)[i := m]\<rparr>)"
    using assms(1) by (simp add: state_ok_def take_update_swap list_all_update)
  moreover have "holds e n (st\<lparr>Memalloc := (Memalloc st)[i := m]\<rparr>)"
    using b s(2) i by (simp add: holds_def buffer_def m_def)
  ultimately show ?thesis using put by simp
qed

lemma get_bytes_ok:
  assumes "holds e n st" and "0 \<le> off" and "0 \<le> m" and "off + m \<le> n"
  shows "\<exists>bs. get_bytes off m st = Inr bs \<and> int (length bs) = m"
proof -
  obtain a buf where b: "buffer st = Some (a, buf)" "n \<le> int (length buf)" using assms(1) by (auto simp: holds_def)
  then have "mem_load buf off m = Some (take (nat m) (drop (nat off) buf))" using assms by (simp add: mem_load_def)
  then show ?thesis using b mem_load_length[of buf off m] by (simp add: get_bytes_def)
qed

lemma put_sound:
  "state_ok e st \<Longrightarrow> holds e n st \<Longrightarrow> 0 \<le> off \<Longrightarrow> off + int (length bs) \<le> n \<Longrightarrow>
   sound (\<lambda>st'. state_ok e st' \<and> holds e n st' \<and> cache st' = cache st) (put_bytes off bs st)"
  using put_bytes_ok by fastforce

lemma get_sound:
  "holds e n st \<Longrightarrow> 0 \<le> off \<Longrightarrow> 0 \<le> m \<Longrightarrow> off + m \<le> n \<Longrightarrow> sound (\<lambda>bs. int (length bs) = m) (get_bytes off m st)"
  using get_bytes_ok by fastforce

lemma fill_buffer_ok:
  fixes st :: "'k doio_state"
  assumes "env_ok e" and "state_ok e st" and "holds e n st" and "0 \<le> off" and "0 \<le> m" and "off + m \<le> n"
  shows "sound (\<lambda>st'. state_ok e st' \<and> holds e n st' \<and> cache st' = cache st) (fill_buffer e off m st)"
proof -
  have len: "length (pattern_fill e (nat m) (Pattern st) 0) = nat m" using assms(1) by (simp add: env_ok_def)
  let ?Q = "\<lambda>st' :: 'k doio_state. state_ok e st' \<and> holds e n st' \<and> cache st' = cache st"
  define bs where "bs = pattern_fill e (nat m) (Pattern st) 0"
  have move: "sound ?Q (if off = 0 then Inr st1 else on_ok (get_bytes 0 m st1) (\<lambda>bs1. put_bytes off bs1 st1))" if st1: "?Q st1" for st1
  proof (cases "off = 0")
    case False
    have "sound (\<lambda>bs. int (length bs) = m) (get_bytes 0 m st1)" using get_sound[of e n st1 0 m] st1 assms by simp
    moreover have "sound ?Q (put_bytes off bs1 st1)" if "int (length bs1) = m" for bs1
      using put_sound[of e st1 n off bs1] st1 assms that by simp
    ultimately show ?thesis using False by (auto intro: sound_bind)
  qed (use st1 in simp)
  have "sound ?Q (put_bytes 0 bs st)" using put_sound[of e st n 0 bs] assms len by (simp add: bs_def)
  then have "sound ?Q (on_ok (put_bytes 0 bs st) (\<lambda>st1.
      if off = 0 then Inr st1 else on_ok (get_bytes 0 m st1) (\<lambda>bs1. put_bytes off bs1 st1)))"
    using move by (rule sound_bind)
  then show ?thesis using assms(5) by (simp add: fill_buffer_def bs_def)
qed

context doio_calls
begin

lemma grow_data_ok:
  assumes "space_ok m" and "0 \<le> n" and "grow_data K n m k = (r, m', k')"
  shows "space_ok m' \<and> (r = 0 \<longrightarrow> (\<exists>a bs. m_space m' = Space a bs \<and> 0 < a \<and> n \<le> int (length bs))) \<and> (r = 0 \<or> r = -1)"
  using assms malloc_size
  by (fastforce simp: grow_data_def space_ok_def Let_def split: if_splits option.splits prod.splits mem_space.splits)

lemma alloc_mem_ok:
  assumes e: "env_ok e" and st: "state_ok e st" and n: "0 \<le> n"
  shows "sound (\<lambda>(r, st'). state_ok e st' \<and> cache st' = cache st \<and> r \<le> 0 \<and> (r = 0 \<longrightarrow> holds e n st')) (alloc_mem K e n st)"
proof -
  define i where "i = (if Nmemalloc e \<le> mturn st then 0 else mturn st)"
  have i: "i < Nmemalloc e" "i < length (Memalloc st)" using e st by (auto simp: i_def env_ok_def state_ok_def)
  have sp: "space_ok (Memalloc st ! i)" using st i by (simp add: state_ok_def list_all_length)
  obtain r m k1 where g: "grow_data K n (Memalloc st ! i) (kern st) = (r, m, k1)" by (metis prod.exhaust)
  note gd = grow_data_ok[OF sp n g]
  have grow: "grow_entry K e n (Memalloc st ! i) (kern st) = Inr (r, m, k1)"
    using sp g by (simp add: grow_entry_def space_ok_def)
  have "list_all space_ok (take (Nmemalloc e) ((Memalloc st)[i := m]))"
    using st gd by (simp add: state_ok_def take_update_swap list_all_update)
  then show ?thesis
    using n gd st i unfolding alloc_mem_def Let_def i_def[symmetric]
    by (auto simp: grow state_ok_def holds_def buffer_def)
qed

end

end
