(* ===== verification/Doio_Safe.thy ===== *)
theory Doio_Safe
  imports Doio_Ok
begin

text \<open>
  Every request, and so the whole run of a process, goes without a fault.
\<close>

context doio_calls
begin

section \<open>Alignment\<close>

lemma align_up_ok:
  assumes "slot_ok s" and "slot_for file oflags s" and "0 < addr"
  shows "sound (\<lambda>off. 0 \<le> off \<and> off < c_memalign s) (align_up oflags s addr)"
proof -
  have s: "0 < c_memalign s" using assms(1,2) by (auto simp: slot_ok_def slot_for_def)
  have "0 \<le> addr mod c_memalign s" "addr mod c_memalign s < c_memalign s" using s by simp_all
  then have "addr mod c_memalign s \<noteq> 0 \<Longrightarrow> 0 < addr mod c_memalign s" "addr mod c_memalign s \<le> c_memalign s" by linarith+
  then show ?thesis using s assms(3) by (auto simp: align_up_def c_rem_nonneg)
qed

lemma align_up_plain: "oflags AND O_DIRECT = 0 \<Longrightarrow> align_up oflags s addr = Inr 0"
  by (simp add: align_up_def)

lemma random_bump_ok:
  "random_bump K st = (n, st') \<Longrightarrow> 0 \<le> n \<and> n \<le> 7 \<and> st' = st\<lparr>kern := kern st'\<rparr>"
  using bump_range by (auto simp: random_bump_def split: prod.splits)

lemma aligned_offset_ok:
  assumes "slot_ok s" and "slot_for (r_file q) (r_oflags q) s" and "holds e n st" and "state_ok e st"
  shows "sound (\<lambda>(off, st'). 0 \<le> off \<and> off \<le> 7 + c_memalign s \<and> (\<exists>k. st' = st\<lparr>kern := k\<rparr>)) (aligned_offset K q s st)"
proof (cases "r_uflags q AND F_WORD_ALIGNED = 0")
  case True
  obtain n st' where r: "random_bump K st = (n, st')" by (metis prod.exhaust)
  have "0 < c_memalign s" using assms(1,2) by (auto simp: slot_ok_def slot_for_def)
  then show ?thesis using random_bump_ok[OF r] True r by (auto simp: aligned_offset_def)
next
  case False
  have "sound (\<lambda>off. 0 \<le> off \<and> off < c_memalign s) (align_up (r_oflags q) s (base_addr st))"
    using align_up_ok assms(1,2) base_holds[OF assms(3)] by blast
  then have "sound (\<lambda>(off, st'). 0 \<le> off \<and> off \<le> 7 + c_memalign s \<and> (\<exists>k. st' = st\<lparr>kern := k\<rparr>))
      (on_ok (align_up (r_oflags q) s (base_addr st)) (\<lambda>off. Inr (off, st)))"
    by (rule sound_bind) (auto intro: exI[of _ "kern st"])
  then show ?thesis using False by (simp add: aligned_offset_def)
qed

lemma rw_offset_ok:
  assumes "slot_ok s" and "slot_for (r_file q) (r_oflags q) s" and "holds e n st"
  shows "sound (\<lambda>(off, st'). 0 \<le> off \<and> off \<le> 7 + c_memalign s \<and> (\<exists>k. st' = st\<lparr>kern := k\<rparr>)) (rw_offset K q s st)"
proof -
  obtain off st1 where r: "(if r_uflags q AND F_WORD_ALIGNED = 0 then random_bump K st else (0, st)) = (off, st1)"
    by (metis prod.exhaust)
  have off: "0 \<le> off" "off \<le> 7" "\<exists>k. st1 = st\<lparr>kern := k\<rparr>"
    using r random_bump_ok by (auto split: if_splits intro: exI[of _ "kern st"])
  have "base_addr st1 = base_addr st" using off(3) by (auto simp: base_addr_def cong: option.case_cong)
  then have "0 < base_addr st1 + off" using base_holds[OF assms(3)] off(1) by simp
  then have a: "sound (\<lambda>a. 0 \<le> a \<and> a < c_memalign s) (align_up (r_oflags q) s (base_addr st1 + off))"
    using align_up_ok assms(1,2) by blast
  show ?thesis
    unfolding rw_offset_def r prod.case by (rule sound_bind[OF a]) (use off in auto)
qed

section \<open>Parts of a request\<close>

lemma prepare_ok:
  assumes e: "env_ok e" and st: "state_ok e st" and q: "request_ok q"
  shows "sound (\<lambda>((r, fd, i), st'). state_ok e st' \<and> (0 \<le> r \<longrightarrow> slot_for (r_file q) (r_oflags q) (cache st' ! i) \<and>
      slot_ok (cache st' ! i) \<and> holds e (r_nbytes q + 16 + c_memalign (cache st' ! i)) st'))
    (prepare K e (r_file q) (r_oflags q) (r_nbytes q) st)"
proof -
  have name: "length (r_file q) \<le> MAX_FNAME_LENGTH" using q by (simp add: request_ok_def)
  show ?thesis
    unfolding prepare_def
  proof (rule sound_bind[OF alloc_fd_ok[OF e st name]], clarify)
    fix fd and st1 :: "'k doio_state"
    assume st1: "state_ok e st1"
    show "sound (\<lambda>((r, fd, i), st'). state_ok e st' \<and> (0 \<le> r \<longrightarrow> slot_for (r_file q) (r_oflags q) (cache st' ! i) \<and>
        slot_ok (cache st' ! i) \<and> holds e (r_nbytes q + 16 + c_memalign (cache st' ! i)) st'))
      (if fd = -1 then Inr ((-1, fd, 0), st1)
       else on_ok (alloc_fdcache K e (r_file q) (r_oflags q) st1) (\<lambda>(i, st2).
         on_ok (alloc_mem K e (s32 (r_nbytes q + 16 + c_memalign (cache st2 ! i))) st2) (\<lambda>(r, st3). Inr ((r, fd, i), st3))))"
    proof (cases "fd = -1")
      case True
      then show ?thesis using st1 by simp
    next
      case False
      have "sound (\<lambda>((r, fd, i), st'). state_ok e st' \<and> (0 \<le> r \<longrightarrow> slot_for (r_file q) (r_oflags q) (cache st' ! i) \<and>
          slot_ok (cache st' ! i) \<and> holds e (r_nbytes q + 16 + c_memalign (cache st' ! i)) st'))
        (on_ok (alloc_fdcache K e (r_file q) (r_oflags q) st1) (\<lambda>(i, st2).
         on_ok (alloc_mem K e (s32 (r_nbytes q + 16 + c_memalign (cache st2 ! i))) st2) (\<lambda>(r, st3). Inr ((r, fd, i), st3))))"
      proof (rule sound_bind[OF alloc_fdcache_ok[OF e st1 name]], clarify)
        fix i and st2 :: "'k doio_state"
        assume st2: "state_ok e st2" and s: "slot_for (r_file q) (r_oflags q) (cache st2 ! i)" "slot_ok (cache st2 ! i)"
        let ?n = "r_nbytes q + 16 + c_memalign (cache st2 ! i)"
        have "0 < c_memalign (cache st2 ! i)" "c_memalign (cache st2 ! i) \<le> MAX_ALIGN"
          using s by (auto simp: slot_ok_def slot_for_def)
        then have n: "0 \<le> ?n" "s32 ?n = ?n" using q by (simp_all add: request_ok_def s32_id)
        show "sound (\<lambda>((r, fd, i), st'). state_ok e st' \<and> (0 \<le> r \<longrightarrow> slot_for (r_file q) (r_oflags q) (cache st' ! i) \<and>
            slot_ok (cache st' ! i) \<and> holds e (r_nbytes q + 16 + c_memalign (cache st' ! i)) st'))
          (on_ok (alloc_mem K e (s32 ?n) st2) (\<lambda>(r, st3). Inr ((r, fd, i), st3)))"
          unfolding n(2) by (rule sound_bind[OF alloc_mem_ok[OF e st2 n(1)]]) (use s in auto)
      qed
      then show ?thesis using False by simp
    qed
  qed
qed

lemma lock_if_ok: "sound (\<lambda>st'. \<exists>k. st' = st\<lparr>kern := k\<rparr>) (lock_if b K fd u start n st)"
  by (auto simp: lock_if_def lock_file_region_def split: prod.split intro: exI[of _ "kern st"])

lemma log_write_ok: "log_write b K wrec st = (place, st') \<Longrightarrow> \<exists>k. st' = st\<lparr>kern := k\<rparr>"
  by (auto simp: log_write_def split: prod.splits if_splits intro: exI[of _ "kern st"])

lemma log_done_ok: "\<exists>k. log_done K wrec place st = st\<lparr>kern := k\<rparr>"
  by (auto simp: log_done_def split: option.split intro: exI[of _ "kern st"])

lemma check_file_ok:
  assumes e: "env_ok e" and st: "state_ok e st" and h: "holds e n st" and len: "0 \<le> len" "len \<le> n"
    and name: "length file \<le> MAX_FNAME_LENGTH"
  shows "sound (\<lambda>(msg, st'). state_ok e st' \<and> holds e n st') (check_file K e file offset len st)"
proof -
  define flags where "flags = (if V_opt e then Validation_Flags e OR O_RDONLY else O_RDONLY)"
  have plain: "flags AND O_DIRECT = 0" using e by (auto simp: flags_def env_ok_def)
  show ?thesis
    unfolding check_file_def Let_def flags_def[symmetric]
  proof (rule sound_bind[OF alloc_fd_ok[OF e st name]], clarify, intro sound_if sound_prod, goal_cases)
    case (3 fd st1 ok k2)
    let ?st2 = "st1\<lparr>kern := k2\<rparr>"
    have st2: "state_ok e ?st2" "holds e n ?st2" using 3 holds_same[OF 3(2) h] by simp_all
    show ?case
    proof (rule sound_bind[OF alloc_fdcache_ok[OF e st2(1) name]], clarify, goal_cases)
      case (1 i st3)
      have h3: "holds e n st3" using holds_same[OF 1(2) st2(2)] .
      have al: "c_memalign (cache st3 ! i) \<noteq> 0" using 1 by (auto simp: slot_ok_def slot_for_def)
      show ?case
        unfolding align_up_plain[OF plain] on_ok_simps
      proof (intro sound_prod sound_if, goal_cases)
        case (3 p k4 nb bs)
        then have r: "d_read K fd (base_addr st3 + 0) len (kern st3) = ((nb, bs), k4)" by simp
        have fits: "0 + int (length bs) \<le> n" using read_at_most[OF r len(1) 3(3)] len(2) by simp
        show ?case
        proof (rule sound_bind[OF put_sound[OF _ _ order_refl fits]])
          fix st5 :: "'k doio_state"
          assume st5: "state_ok e st5 \<and> holds e n st5 \<and> cache st5 = cache (st3\<lparr>kern := k4\<rparr>)"
          show "sound (\<lambda>(msg, st'). state_ok e st' \<and> holds e n st') (if nb \<noteq> len then Inr (Some (Wrong_bytes nb), st5)
            else on_ok (get_bytes 0 len st5) (\<lambda>buf.
              Inr (map_option Comparison (doio_pat_check e buf offset (Pattern st5) 0), st5)))"
          proof (rule sound_if)
            show "sound (\<lambda>(msg, st'). state_ok e st' \<and> holds e n st') (on_ok (get_bytes 0 len st5) (\<lambda>buf.
                Inr (map_option Comparison (doio_pat_check e buf offset (Pattern st5) 0), st5)))"
              by (rule sound_bind[OF get_sound[of e n st5 0 len]]) (use st5 len in simp_all)
          qed (use st5 in simp)
        qed (use 1 h3 in simp_all)
      qed (use 1 h3 al in simp_all)
    qed
  qed (use holds_same[OF _ h] in simp_all)
qed

lemma verify_if_ok:
  assumes "env_ok e" and "state_ok e st" and "holds e n st" and "0 \<le> len" and "len \<le> n" and "length file \<le> MAX_FNAME_LENGTH"
  shows "sound (\<lambda>st'. state_ok e st' \<and> holds e n st') (verify_if b K e file offset len st)"
proof (cases b)
  case True
  have "sound (\<lambda>st'. state_ok e st' \<and> holds e n st')
      (on_ok (check_file K e file offset len st) (\<lambda>(msg, st1). if msg = None then Inr st1 else Inl (Exit E_COMPARE)))"
    by (rule sound_bind[OF check_file_ok[OF assms]]) auto
  then show ?thesis using True by (simp add: verify_if_def)
qed (use assms in \<open>simp add: verify_if_def\<close>)

section \<open>The requests\<close>

lemma do_read_ok:
  assumes e: "env_ok e" and st: "state_ok e st" and q: "request_ok q"
  shows "sound (\<lambda>(r, st'). state_ok e st') (do_read K e q st)"
  unfolding do_read_def
proof (rule sound_bind[OF prepare_ok[OF assms]], clarify, rule sound_if, goal_cases)
  case (2 r fd i st1)
  let ?s = "cache st1 ! i" and ?n = "r_nbytes q + 16 + c_memalign (cache st1 ! i)"
  have st1: "state_ok e st1" and s: "slot_for (r_file q) (r_oflags q) ?s" "slot_ok ?s" and h: "holds e ?n st1"
    using 2 by simp_all
  show ?case
  proof (rule sound_bind[OF aligned_offset_ok[OF s(2,1) h st1]], clarify, intro sound_if sound_prod, goal_cases)
    case (4 off b k ok k3 p k4 rval bs)
    have r: "d_read K fd (base_addr (st1\<lparr>kern := k\<rparr>) + off) (r_nbytes q) k3 = ((rval, bs), k4)" using 4 by simp
    have fits: "off + int (length bs) \<le> ?n" using read_at_most[OF r _ 4(8)] q 4(2) by (simp add: request_ok_def)
    show ?case by (rule sound_bind[OF put_sound[of e _ ?n]]) (use st1 h 4 fits in simp_all)
  qed (use st1 in simp_all)
qed simp

lemma write_at_ok:
  assumes s: "slot_for (r_file q) (r_oflags q) s" "slot_ok s" and st: "state_ok e st" "holds e n st"
    and off: "0 \<le> off" "0 \<le> r_nbytes q" "off + r_nbytes q \<le> n"
  shows "sound (\<lambda>(w, st'). \<exists>k. st' = st\<lparr>kern := k\<rparr>) (write_at K q fd s off st)"
proof -
  obtain ok k1 where l: "d_lseek K fd (r_offset q) (kern st) = (ok, k1)" by (metis prod.exhaust)
  have pos: "c_miniosz s \<noteq> 0" "c_memalign s \<noteq> 0" using s by (auto simp: slot_ok_def slot_for_def)
  have "sound (\<lambda>(w, st'). \<exists>k. st' = st\<lparr>kern := k\<rparr>) (on_ok (get_bytes off (r_nbytes q) st) (\<lambda>bs.
      case d_write K fd (base_addr st + off) bs k1 of (rval, k2) \<Rightarrow>
        if rval = -1 \<and> (c_miniosz s = 0 \<or> c_memalign s = 0) then Inl Fault
        else Inr (Some (if rval \<noteq> r_nbytes q then -1 else rval), st\<lparr>kern := k2\<rparr>)))"
    by (rule sound_bind[OF get_sound[OF st(2) off]]) (use pos in \<open>auto split: prod.split\<close>)
  then show ?thesis using l by (auto simp: write_at_def intro: exI[of _ "kern st"])
qed

definition kept :: "doio_env \<Rightarrow> int \<Rightarrow> fd_cache list \<Rightarrow> 'k doio_state \<Rightarrow> bool" where
  "kept e n c st \<longleftrightarrow> state_ok e st \<and> holds e n st \<and> cache st = c"

lemma kept_kern [simp]: "kept e n c (st\<lparr>kern := k\<rparr>) = kept e n c st" "kept e n c (st\<lparr>Pattern := p\<rparr>) = kept e n c st"
  by (simp_all add: kept_def)

lemma lock_if_kept: "kept e n c st \<Longrightarrow> sound (kept e n c) (lock_if b K fd u start m st)"
  by (rule sound_mono[OF lock_if_ok]) auto

lemma log_write_kept: "kept e n c st \<Longrightarrow> log_write b K wrec st = (place, st') \<Longrightarrow> kept e n c st'"
  using log_write_ok by fastforce

lemma log_done_kept: "kept e n c (log_done K wrec place st) = kept e n c st"
  using log_done_ok[of wrec place st] by auto

lemma fill_buffer_kept:
  "env_ok e \<Longrightarrow> kept e n c st \<Longrightarrow> 0 \<le> off \<Longrightarrow> 0 \<le> m \<Longrightarrow> off + m \<le> n \<Longrightarrow> sound (kept e n c) (fill_buffer e off m st)"
  by (rule sound_mono[OF fill_buffer_ok[of e st n off m]]) (auto simp: kept_def)

lemma put_kept: "kept e n c st \<Longrightarrow> 0 \<le> off \<Longrightarrow> off + int (length bs) \<le> n \<Longrightarrow> sound (kept e n c) (put_bytes off bs st)"
  by (rule sound_mono[OF put_sound[of e st n off bs]]) (auto simp: kept_def)

lemma do_write_ok:
  assumes e: "env_ok e" and st: "state_ok e st" and q: "request_ok q"
  shows "sound (\<lambda>(r, st'). state_ok e st') (do_write K e q st)"
proof -
  have st0: "state_ok e (st\<lparr>Pattern := p\<rparr>)" for p using st by simp
  have q': "0 \<le> r_nbytes q" "length (r_file q) \<le> MAX_FNAME_LENGTH" using q by (simp_all add: request_ok_def)
  show ?thesis
    unfolding do_write_def Let_def
  proof (rule sound_bind[OF prepare_ok[OF e st0 q]], clarify, rule sound_if, goal_cases)
    case (2 r fd i st1)
    define c where "c = cache st1"
    define n where "n = r_nbytes q + 16 + c_memalign (c ! i)"
    have k1: "kept e n c st1" and s: "slot_for (r_file q) (r_oflags q) (c ! i)" "slot_ok (c ! i)"
      using 2 by (simp_all add: kept_def c_def n_def)
    have st1: "state_ok e st1" "holds e n st1" using k1 by (simp_all add: kept_def)
    show ?case
      unfolding c_def[symmetric]
    proof (rule sound_bind[OF aligned_offset_ok[OF s(2,1) st1(2,1)]], clarify, goal_cases)
      case (1 off b k)
      have off: "0 \<le> off" "off + r_nbytes q \<le> n" using 1 by (simp_all add: n_def)
      have "kept e n c (st1\<lparr>kern := k\<rparr>)" using k1 by simp
      from fill_buffer_kept[OF e this off(1) q'(1) off(2)] show ?case
      proof (rule sound_bind, goal_cases)
        case (1 st3)
        show ?case
        proof (rule sound_bind[OF lock_if_kept[OF 1]], intro sound_prod, goal_cases)
          case (1 st4 place st5)
          have k5: "kept e n c st5" using log_write_kept 1 by blast
          then have st5: "state_ok e st5" "holds e n st5" "cache st5 = c" by (simp_all add: kept_def)
          show ?case
            unfolding st5(3)
          proof (rule sound_bind[OF write_at_ok[OF s st5(1,2) off(1) q'(1) off(2)]], intro sound_prod, goal_cases)
            case (1 x w st6)
            show ?case
            proof (cases w)
              case None
              then show ?thesis using 1 st5 by auto
            next
              case (Some rval)
              have st6: "state_ok e st6" "holds e n st6" using 1 st5 by auto
              have tail: "sound (\<lambda>(r, st'). state_ok e st')
                (on_ok (verify_if (v_opt e) K e (r_file q) (r_offset q) (r_nbytes q) st6) (\<lambda>st7.
                  on_ok (lock_if (k_opt e) K fd True (r_offset q) (r_nbytes q) (log_done K (write_record e (r_type q = WRITEA) (r_file q)
                    (r_oflags q) (r_offset q) (r_nbytes q) st4) place st7)) (\<lambda>st8. Inr (if rval = -1 then -1 else 0, st8))))" for st4 :: "'k doio_state"
              proof (rule sound_bind[OF verify_if_ok[OF e st6 q'(1) _ q'(2)]], goal_cases)
                case 1
                show ?case using off by linarith
              next
                case (2 st7)
                then have "kept e n (cache st7) st7" by (simp add: kept_def)
                then have "kept e n (cache st7) (log_done K wrec place st7)" for wrec
                  by (simp add: log_done_kept)
                then show ?case by (rule sound_bind[OF lock_if_kept]) (auto simp: kept_def)
              qed
              show ?thesis unfolding Some option.case by (rule tail)
            qed
          qed
        qed
      qed
    qed
  qed simp
qed

section \<open>The other requests\<close>

lemma sy_pread_ok:
  assumes "kept e n c st" and "0 \<le> off" and q: "0 \<le> r_nbytes q" "off + r_nbytes q \<le> n"
  shows "sound (\<lambda>(rc, st'). kept e n c st') (sy_pread K q fd off st)"
  unfolding sy_pread_def
proof (intro sound_prod sound_if, goal_cases)
  case (2 p k1 rc bs)
  then have r: "d_pread K fd (base_addr st + off) (r_nbytes q) (r_offset q) (kern st) = ((rc, bs), k1)" by simp
  have "off + int (length bs) \<le> n" using pread_at_most[OF r q(1) 2(3)] q(2) by linarith
  from put_kept[OF _ assms(2) this] assms(1) have "sound (kept e n c) (put_bytes off bs (st\<lparr>kern := k1\<rparr>))" by simp
  then show ?case by (rule sound_bind) simp
qed (use assms in simp)

lemma get_kept: "kept e n c st \<Longrightarrow> 0 \<le> off \<Longrightarrow> 0 \<le> m \<Longrightarrow> off + m \<le> n \<Longrightarrow> sound (\<lambda>bs. int (length bs) = m) (get_bytes off m st)"
  by (rule get_sound) (auto simp: kept_def)

lemma sy_pwrite_ok:
  assumes "kept e n c st" and "0 \<le> off" and "0 \<le> r_nbytes q" and "off + r_nbytes q \<le> n"
  shows "sound (\<lambda>(rc, st'). kept e n c st') (sy_pwrite K q fd off st)"
  unfolding sy_pwrite_def
  by (rule sound_bind[OF get_kept[OF assms]]) (use assms(1) in \<open>auto split: prod.split\<close>)

lemma sy_rwv_ok:
  assumes "kept e n c st" and "0 \<le> off" and q: "0 \<le> r_nbytes q" "off + r_nbytes q \<le> n"
  shows "sound (\<lambda>(rc, st'). kept e n c st') (sy_rwv rw K q fd off st)"
  unfolding sy_rwv_def Let_def
proof (intro sound_prod sound_if, goal_cases)
  case (2 ok k1)
  have "kept e n c (st\<lparr>kern := k1\<rparr>)" using assms(1) by simp
  from get_kept[OF this assms(2) q] show ?case
    by (rule sound_bind) (use assms(1) in \<open>auto split: prod.split\<close>)
next
  case (4 ok k1 p k2 rc bs)
  then have r: "d_readv K fd (base_addr (st\<lparr>kern := k1\<rparr>) + off) (r_nbytes q) k1 = ((rc, bs), k2)" by simp
  have "off + int (length bs) \<le> n" using readv_at_most[OF r q(1) 4(6)] q(2) by linarith
  from put_kept[OF _ assms(2) this] assms(1) have "sound (kept e n c) (put_bytes off bs (st\<lparr>kern := k1, kern := k2\<rparr>))" by simp
  then show ?case by (rule sound_bind) simp
qed (use assms in simp_all)

lemma touch_ok: "t \<noteq> Sigsegv \<Longrightarrow> sound (\<lambda>x. t = Touched x) (touch t)"
  by (cases t) (simp_all add: touch_def)

lemma sy_syscall_ok:
  assumes k: "kept e n c st" and "0 \<le> off" and q: "0 \<le> r_nbytes q" "off + r_nbytes q \<le> n"
    and "sy_known (r_type q)" and "r_type q \<noteq> MMAPR" and "r_type q \<noteq> MMAPW"
  shows "sound (\<lambda>(rc, st'). state_ok e st' \<and> holds e n st') (sy_syscall K e q fd off st)"
proof -
  have w: "sound (\<lambda>(rc, st'). kept e n c st') r \<Longrightarrow> sound (\<lambda>(rc, st'). state_ok e st' \<and> holds e n st') r" for r :: "halt + int \<times> 'k doio_state"
    by (erule sound_mono) (auto simp: kept_def)
  note calls = sy_pread_ok[OF k assms(2) q] sy_pwrite_ok[OF k assms(2) q] sy_rwv_ok[OF k assms(2) q]
  from assms(5-7) consider "r_type q = PREAD" | "r_type q = PWRITE" | "r_type q = READV" | "r_type q = WRITEV"
    by (auto simp: sy_known_def)
  then show ?thesis
    by cases (simp_all add: sy_syscall_def w[OF calls(1)] w[OF calls(2)] w[OF calls(3)])
qed

lemma rw_report_ok: "env_ok e \<Longrightarrow> sound (\<lambda>st'. \<exists>k. st' = st\<lparr>kern := k\<rparr>) (rw_report K e q fd st)"
proof -
  assume e: "env_ok e"
  obtain mem mini maxi k where d: "dio_limits K e (r_file q) (r_oflags q) fd (kern st) = ((mem, mini, maxi), k)" by (metis prod.exhaust)
  from dio_limits_ok[OF e d] show ?thesis by (auto simp: rw_report_def d)
qed

lemma lock_rw_kept:
  assumes e: "env_ok e" and "kept e n c st"
  shows "sound (kept e n c) (lock_rw b K e q fd m st)"
proof (cases b)
  case True
  obtain ok k where l: "d_lock K fd False (r_offset q) m (kern st) = (ok, k)" by (metis prod.exhaust)
  have "sound (kept e n c) (on_ok (rw_report K e q fd (st\<lparr>kern := k\<rparr>)) (\<lambda>_. Inl (Exit E_INTERNAL)))"
    by (rule sound_bind[OF rw_report_ok[OF e]]) simp
  then show ?thesis using assms(2) True l by (simp add: lock_rw_def)
qed (use assms(2) in \<open>simp add: lock_rw_def\<close>)

lemma verify_rw_ok:
  assumes e: "env_ok e" and "state_ok e st" and "holds e n st" and "0 \<le> len" and "len \<le> n" and "length (r_file q) \<le> MAX_FNAME_LENGTH"
  shows "sound (\<lambda>st'. state_ok e st' \<and> holds e n st') (verify_rw b K e q fd len st)"
proof (cases b)
  case True
  have "sound (\<lambda>st'. state_ok e st' \<and> holds e n st')
      (on_ok (check_file K e (r_file q) (r_offset q) len st) (\<lambda>(msg, st1). if msg = None then Inr st1
         else on_ok (rw_report K e q fd st1) (\<lambda>_. Inl (Exit E_COMPARE))))"
  proof (rule sound_bind[OF check_file_ok[OF assms]], clarify, rule sound_if, goal_cases)
    case (2 msg st1)
    show ?case by (rule sound_bind[OF rw_report_ok[OF e]]) simp
  qed simp
  then show ?thesis using True by (simp add: verify_rw_def)
qed (use assms in \<open>simp add: verify_rw_def\<close>)

lemma reported_ok:
  assumes "env_ok e" and "state_ok e st" and "holds e n st"
  shows "sound (\<lambda>st'. state_ok e st' \<and> holds e n st') (if b then rw_report K e q fd st else Inr st)"
proof (rule sound_if)
  show "sound (\<lambda>st'. state_ok e st' \<and> holds e n st') (rw_report K e q fd st)"
    by (rule sound_mono[OF rw_report_ok[OF assms(1)]]) (use assms(2,3) in auto)
qed (use assms(2,3) in simp)

lemma do_rw_ok:
  assumes e: "env_ok e" and st: "state_ok e st" and q: "request_ok q"
  shows "sound (\<lambda>(r, st'). state_ok e st') (do_rw K e q st)"
proof -
  have q': "0 \<le> r_nbytes q" "length (r_file q) \<le> MAX_FNAME_LENGTH" using q by (simp_all add: request_ok_def)
  have whole: "s32 (r_nbytes q * r_nstrides q * r_nent q) = r_nbytes q" using q by (simp add: request_ok_def s32_id)
  show ?thesis
    unfolding do_rw_def Let_def whole
  proof (rule sound_if, goal_cases)
  case 2
  have known: "sy_known (r_type q)" "r_type q \<noteq> MMAPR" "r_type q \<noteq> MMAPW" using 2 q by (simp_all add: request_ok_def)
  show ?case
  proof (rule sound_bind[OF prepare_ok[OF e st q]], clarify, rule sound_if, goal_cases)
    case (2 r fd i st1)
    define c where "c = cache st1"
    define n where "n = r_nbytes q + 16 + c_memalign (c ! i)"
    let ?p = "(Pattern st1)[0 := word_of_int (r_pattern q)]"
    have k1: "kept e n c (st1\<lparr>Pattern := ?p\<rparr>)" and s: "slot_for (r_file q) (r_oflags q) (c ! i)" "slot_ok (c ! i)"
      and c: "cache (st1\<lparr>Pattern := ?p\<rparr>) = c"
      using 2 by (simp_all add: kept_def c_def n_def)
    have h: "holds e n (st1\<lparr>Pattern := ?p\<rparr>)" using k1 by (simp add: kept_def)
    show ?case
      unfolding c
    proof (rule sound_bind[OF rw_offset_ok[OF s(2,1) h]], clarify, goal_cases)
      case (1 off b k)
      have off: "0 \<le> off" "off + r_nbytes q \<le> n" using 1 by (simp_all add: n_def)
      have "sound (kept e n c) (if sy_write (r_type q) then fill_buffer e off (r_nbytes q) (st1\<lparr>Pattern := ?p, kern := k\<rparr>)
          else Inr (st1\<lparr>Pattern := ?p, kern := k\<rparr>))"
        using fill_buffer_kept[OF e _ off(1) q'(1) off(2)] k1 by simp
      then show ?case
      proof (rule sound_bind, goal_cases)
        case (1 st3)
        show ?case
        proof (rule sound_bind[OF lock_rw_kept[OF e 1]], intro sound_prod, goal_cases)
          case (1 st4 place st5)
          have k5: "kept e n c st5" using log_write_kept 1 by blast
          show ?case
          proof (rule sound_bind[OF sy_syscall_ok[OF k5 off(1) q'(1) off(2) known]], intro sound_prod, goal_cases)
            case (1 x rc st')
            then have st': "state_ok e st'" "holds e n st'" by simp_all
            show ?case
            proof (rule sound_bind[OF reported_ok[OF e st']], elim conjE, rule sound_bind[OF verify_rw_ok[OF e _ _ q'(1) _ q'(2)]])
              show "r_nbytes q \<le> n" using off by linarith
            next
              fix st6 st7 :: "'k doio_state"
              assume 2: "state_ok e st7 \<and> holds e n st7"
              show "sound (\<lambda>(r, st'). state_ok e st') (on_ok (lock_if (sy_write (r_type q) \<and> k_opt e) K fd True (r_offset q) (s32 (r_nbytes q + 1))
                  (log_done K (write_record e False (r_file q) (r_oflags q) (r_offset q) (r_nbytes q) st4) place st7))
                (\<lambda>st8. Inr (if rc = -1 \<or> rc \<noteq> r_nbytes q then -1 else 0, st8)))"
              proof -
              have "kept e n (cache st7) st7" using 2 by (simp add: kept_def)
              then have "kept e n (cache st7) (log_done K wrec place st7)" for wrec
                by (simp add: log_done_kept)
              then show ?thesis by (rule sound_bind[OF lock_if_kept]) (auto simp: kept_def)
              qed
            qed
          qed
        qed
      qed
    qed
  qed simp
  qed (use st in simp)
qed

lemma do_xfsctl_ok:
  assumes "env_ok e" and "state_ok e st" and q: "request_ok q"
  shows "sound (\<lambda>(r, st'). state_ok e st') (do_xfsctl K e q st)"
  unfolding do_xfsctl_def
proof (rule sound_bind[OF alloc_fd_ok[OF assms(1,2)]], goal_cases)
  case (2 x)
  then obtain fd st1 where x: "x = (fd, st1)" "state_ok e st1" by auto
  have main: "sound (\<lambda>(r, st'). state_ok e st') (on_ok (lock_if (k_opt e) K fd False (r_offset q) (s32 (r_nbytes q + 1)) st1) (\<lambda>st2.
         case d_xfsctl K (r_file q) fd (r_type q = RESVSP) (r_offset q) (r_nbytes q) (kern st2) of (rval, k3) \<Rightarrow>
           on_ok (lock_if (k_opt e) K fd True (r_offset q) (s32 (r_nbytes q + 1)) (st2\<lparr>kern := k3\<rparr>)) (\<lambda>st4.
             Inr (if rval = -1 then -1 else 0, st4))))"
  proof (rule sound_bind[OF lock_if_ok], rule sound_prod, goal_cases)
    case (1 st2 rval k3)
    then have "state_ok e (st2\<lparr>kern := k3\<rparr>)" using x(2) by auto
    then show ?case by (intro sound_bind[OF lock_if_ok]) auto
  qed
  show ?case
    unfolding x(1) prod.case by (rule sound_if) (use x(2) in simp, rule main)
qed (use q in \<open>simp add: request_ok_def\<close>)

lemma do_sync_ok:
  assumes "env_ok e" and "state_ok e st" and q: "request_ok q"
  shows "sound (\<lambda>(r, st'). state_ok e st') (do_sync K e q st)"
  unfolding do_sync_def
  by (rule sound_bind[OF alloc_fd_ok[OF assms(1,2)]]) (use q in \<open>auto simp: request_ok_def split: prod.split\<close>)

section \<open>The loop\<close>

lemma do_request_ok:
  assumes "env_ok e" and "state_ok e st" and "request_ok q"
  shows "sound (\<lambda>(r, st'). state_ok e st') (do_request K e q st)"
proof -
  have some: "sound (\<lambda>(r, st'). state_ok e st') x \<Longrightarrow>
      sound (\<lambda>(r, st'). state_ok e st') (on_ok x (\<lambda>(v, st1). Inr (Some v, st1)))" for x :: "halt + int \<times> 'k doio_state"
    by (erule sound_bind) auto
  show ?thesis
    unfolding do_request_def Let_def
    by (intro sound_if some do_read_ok do_write_ok do_rw_ok do_xfsctl_ok do_sync_ok assms) (use assms in simp)
qed

lemma before_request_ok:
  assumes "state_ok e st" and "input_ok inp"
  shows "sound (\<lambda>(q, st'). state_ok e st' \<and> request_ok q) (before_request K e inp st)"
proof -
  have st: "state_ok e (if Memsize st \<noteq> 0 then free_mem K e st else st)" using assms(1) free_mem_ok[OF assms(1), of K] by simp
  have "sound (\<lambda>(q, st'). state_ok e st' \<and> request_ok q)
      (on_ok (release_fds K (if Memsize st \<noteq> 0 then free_mem K e st else st)) (\<lambda>st1. Inr (q, st1)))" if "request_ok q" for q
    by (rule sound_bind[OF release_fds_ok[OF st]]) (use that in simp)
  then show ?thesis using assms by (cases inp) (simp_all add: before_request_def input_ok_def)
qed

lemma doio_step_ok:
  assumes "env_ok e" and "state_ok e st" and "input_ok inp"
  shows "sound (state_ok e) (doio_step K e inp st)"
  unfolding doio_step_def
proof (rule sound_bind[OF before_request_ok[OF assms(2,3)]], clarify, goal_cases)
  case (1 q st1)
  show ?case
    by (rule sound_bind[OF do_request_ok[OF assms(1) 1]])
      (auto simp: state_ok_def)
qed

lemma doio_loop_ok:
  "env_ok e \<Longrightarrow> state_ok e st \<Longrightarrow> list_all input_ok inps \<Longrightarrow> \<exists>n. fst (doio_loop K e inps st) = Exit n"
proof (induction inps arbitrary: st)
  case (Cons inp inps)
  then show ?case
    using doio_step_ok[of e st inp] Cons.IH
    by (auto simp: sound_def split: sum.splits prod.splits) (metis fst_conv)
qed simp

lemma doio_run_ok:
  assumes "env_ok (env_of e q)" and "list_all (\<lambda>m. m_type m = MEM_DATA \<and> m_space m = No_space) (q_mems q)"
    and "length (q_mems q) \<le> 32" and "init_pattern fmt e = Inr p" and "list_all input_ok inps"
  shows "\<exists>n. fst (doio_run K fmt e q inps k) = Exit n"
proof -
  have "state_ok (env_of e q) (init_state (take 32 (q_mems q @ replicate 32 no_mem)) p k)"
    using assms(2,3) by (auto simp: state_ok_def init_state_def env_of_def space_ok_def list_all_iff dest: in_set_takeD)
  from doio_loop_ok[OF assms(1) this assms(5)] show ?thesis
    using assms(4) by (auto simp: doio_run_def split: prod.splits)
qed

end

end
