(* ===== verification/Doio_Cache.thy ===== *)
theory Doio_Cache
  imports Doio_Safe
begin

text \<open>
  The cache of descriptors is a map from a file and flags to a descriptor, and the check of a buffer against
  the pattern compares every byte.
\<close>

section \<open>The cache as a map\<close>

definition key :: "fd_cache \<Rightarrow> string \<times> int" where
  "key s = (c_file s, c_oflags s)"

definition used :: "fd_cache list \<Rightarrow> nat \<Rightarrow> bool" where
  "used c i \<longleftrightarrow> i < length c \<and> c_fd (c ! i) \<noteq> -1"

text \<open>No two slots in use are for the same file and flags.\<close>

definition one_slot_each :: "fd_cache list \<Rightarrow> bool" where
  "one_slot_each c \<longleftrightarrow> (\<forall>i j. used c i \<longrightarrow> used c j \<longrightarrow> key (c ! i) = key (c ! j) \<longrightarrow> i = j)"

definition cache_map :: "fd_cache list \<Rightarrow> (string \<times> int) \<Rightarrow> int option" where
  "cache_map c x = map_option (\<lambda>i. c_fd (c ! i)) (first_slot (slot_for (fst x) (snd x)) c)"

text \<open>The slot has gone unused for at least as long as every other.\<close>

definition least_recent :: "fd_cache list \<Rightarrow> nat \<Rightarrow> bool" where
  "least_recent c i \<longleftrightarrow> used c i \<and> (\<forall>j. used c j \<longrightarrow> c_rtc (c ! i) \<le> c_rtc (c ! j))"

lemma slot_for_key: "slot_for f fl s \<longleftrightarrow> c_fd s \<noteq> -1 \<and> key s = (f, fl)"
  by (auto simp: slot_for_def key_def)

lemma first_slot_none: "first_slot P ss = None \<longleftrightarrow> (\<forall>i < length ss. \<not> P (ss ! i))"
  by (induction ss) (auto simp: less_Suc_eq_0_disj)

lemma cache_map_some:
  assumes "one_slot_each c"
  shows "cache_map c x = Some fd \<longleftrightarrow> (\<exists>i. used c i \<and> key (c ! i) = x \<and> c_fd (c ! i) = fd)"
proof -
  obtain f fl where x: "x = (f, fl)" by (cases x)
  show ?thesis
  proof (cases "first_slot (slot_for f fl) c")
    case None
    then have "\<not> used c i \<or> key (c ! i) \<noteq> x" for i using first_slot_none[of "slot_for f fl" c] x by (auto simp: slot_for_key used_def)
    then show ?thesis using None x by (auto simp: cache_map_def)
  next
    case (Some i)
    then have i: "used c i" "key (c ! i) = x" using first_slot_some[OF Some] x by (simp_all add: used_def slot_for_key)
    then have one: "used c j \<Longrightarrow> key (c ! j) = x \<Longrightarrow> j = i" for j using assms by (simp add: one_slot_each_def)
    have "cache_map c x = Some (c_fd (c ! i))" using Some x by (simp add: cache_map_def)
    then show ?thesis using i one by (metis option.inject)
  qed
qed

lemma cache_map_none: "cache_map c x = None \<longleftrightarrow> (\<forall>i. used c i \<longrightarrow> key (c ! i) \<noteq> x)"
  by (cases x) (auto simp: cache_map_def first_slot_none slot_for_key used_def)

lemma oldest_from_some:
  "oldest_from ss n best = Some i \<Longrightarrow>
   (best = Some (i, snd (the best)) \<and> best \<noteq> None \<and> (\<forall>j < length ss. c_fd (ss ! j) \<noteq> -1 \<longrightarrow> snd (the best) \<le> c_rtc (ss ! j)))
   \<or> (n \<le> i \<and> i - n < length ss \<and> c_fd (ss ! (i - n)) \<noteq> -1
       \<and> (\<forall>j < length ss. c_fd (ss ! j) \<noteq> -1 \<longrightarrow> c_rtc (ss ! (i - n)) \<le> c_rtc (ss ! j))
       \<and> (best \<noteq> None \<longrightarrow> c_rtc (ss ! (i - n)) \<le> snd (the best)))"
proof (induction ss n best rule: oldest_from.induct)
  case (1 n best)
  then show ?case by auto
next
  case (2 s ss n best)
  define best1 where "best1 = (if c_fd s = -1 then best
      else case best of None \<Rightarrow> Some (n, c_rtc s) | Some (j, r) \<Rightarrow> if c_rtc s < r then Some (n, c_rtc s) else Some (j, r))"
  have "oldest_from ss (Suc n) best1 = Some i" using 2(2) by (simp add: best1_def)
  note IH = 2(1)[folded best1_def, OF this]
  have all: "(\<forall>j < length (s # ss). c_fd ((s # ss) ! j) \<noteq> -1 \<longrightarrow> x \<le> c_rtc ((s # ss) ! j)) \<longleftrightarrow>
      (c_fd s \<noteq> -1 \<longrightarrow> x \<le> c_rtc s) \<and> (\<forall>j < length ss. c_fd (ss ! j) \<noteq> -1 \<longrightarrow> x \<le> c_rtc (ss ! j))" for x
    by (auto simp: less_Suc_eq_0_disj)
  from IH show ?case
  proof
    assume b: "best1 = Some (i, snd (the best1)) \<and> best1 \<noteq> None
      \<and> (\<forall>j < length ss. c_fd (ss ! j) \<noteq> -1 \<longrightarrow> snd (the best1) \<le> c_rtc (ss ! j))"
    show ?thesis
    proof (cases "c_fd s = -1")
      case True
      then show ?thesis using b all by (auto simp: best1_def)
    next
      case False
      then show ?thesis using b all by (cases best) (auto simp: best1_def split: if_splits prod.splits)
    qed
  next
    assume b: "Suc n \<le> i \<and> i - Suc n < length ss \<and> c_fd (ss ! (i - Suc n)) \<noteq> -1
       \<and> (\<forall>j < length ss. c_fd (ss ! j) \<noteq> -1 \<longrightarrow> c_rtc (ss ! (i - Suc n)) \<le> c_rtc (ss ! j))
       \<and> (best1 \<noteq> None \<longrightarrow> c_rtc (ss ! (i - Suc n)) \<le> snd (the best1))"
    then have at: "(s # ss) ! (i - n) = ss ! (i - Suc n)" "n \<le> i" "i - n < length (s # ss)"
      by (auto simp: nth_Cons' Suc_diff_Suc)
    have "(c_fd s \<noteq> -1 \<longrightarrow> c_rtc (ss ! (i - Suc n)) \<le> c_rtc s) \<and> (best \<noteq> None \<longrightarrow> c_rtc (ss ! (i - Suc n)) \<le> snd (the best))"
      using b by (cases best) (auto simp: best1_def split: if_splits prod.splits)
    then show ?thesis using b at all by auto
  qed
qed

lemma oldest_slot_some: "oldest_slot c = Some i \<Longrightarrow> least_recent c i"
  using oldest_from_some[of c 0 None i] by (auto simp: oldest_slot_def least_recent_def used_def)

text \<open>A slot that is filled in, in a place that is not in use.\<close>

lemma fill_slot:
  assumes one: "one_slot_each c" and i: "i < length c" "c_fd (c ! i) = -1" and s: "c_fd s \<noteq> -1"
    and new: "cache_map c (key s) = None"
  shows "one_slot_each (c[i := s])" "cache_map (c[i := s]) = (cache_map c)(key s \<mapsto> c_fd s)"
proof -
  have used: "used (c[i := s]) j \<longleftrightarrow> j = i \<or> used c j" for j using i s by (auto simp: used_def nth_list_update)
  have at: "used c j \<Longrightarrow> (c[i := s]) ! j = c ! j" for j using i(2) by (cases "j = i") (auto simp: used_def)
  have fresh: "used c j \<Longrightarrow> key (c ! j) \<noteq> key s" for j using new by (simp add: cache_map_none)
  have self: "(c[i := s]) ! i = s" using i by simp
  show one': "one_slot_each (c[i := s])"
    using one fresh unfolding one_slot_each_def used by (metis at self)
  show "cache_map (c[i := s]) = (cache_map c)(key s \<mapsto> c_fd s)"
  proof
    fix x
    have "cache_map (c[i := s]) x = Some fd \<longleftrightarrow> ((cache_map c)(key s \<mapsto> c_fd s)) x = Some fd" for fd
      using cache_map_some[OF one', of x fd] cache_map_some[OF one, of x fd] used at self fresh
      by (cases "x = key s") (fastforce)+
    then show "cache_map (c[i := s]) x = ((cache_map c)(key s \<mapsto> c_fd s)) x" by (metis option.exhaust)
  qed
qed

lemma drop_slot:
  assumes one: "one_slot_each c" and i: "used c i"
  shows "one_slot_each (c[i := (c ! i)\<lparr>c_fd := -1\<rparr>])"
    "cache_map (c[i := (c ! i)\<lparr>c_fd := -1\<rparr>]) = (cache_map c)(key (c ! i) := None)"
proof -
  let ?c = "c[i := (c ! i)\<lparr>c_fd := -1\<rparr>]"
  have used: "used ?c j \<longleftrightarrow> j \<noteq> i \<and> used c j" for j using i by (auto simp: used_def nth_list_update)
  have at: "j \<noteq> i \<Longrightarrow> ?c ! j = c ! j" for j by simp
  show one': "one_slot_each ?c" using one unfolding one_slot_each_def used by (metis at)
  show "cache_map ?c = (cache_map c)(key (c ! i) := None)"
  proof
    fix x
    have "(\<exists>j. used ?c j \<and> key (?c ! j) = x \<and> c_fd (?c ! j) = fd) \<longleftrightarrow>
        x \<noteq> key (c ! i) \<and> (\<exists>j. used c j \<and> key (c ! j) = x \<and> c_fd (c ! j) = fd)" for fd
      using used at i one unfolding one_slot_each_def by metis
    then have "cache_map ?c x = Some fd \<longleftrightarrow> ((cache_map c)(key (c ! i) := None)) x = Some fd" for fd
      using cache_map_some[OF one', of x fd] cache_map_some[OF one, of x fd] by simp
    then show "cache_map ?c x = ((cache_map c)(key (c ! i) := None)) x" by (metis option.exhaust)
  qed
qed

lemma grow_cache:
  assumes "one_slot_each c" and "c_fd s = -1"
  shows "one_slot_each (c @ replicate n s)" "cache_map (c @ replicate n s) = cache_map c"
proof -
  have used: "used (c @ replicate n s) j \<longleftrightarrow> used c j" for j using assms(2) by (auto simp: used_def nth_append)
  have at: "used c j \<Longrightarrow> (c @ replicate n s) ! j = c ! j" for j by (simp add: used_def nth_append)
  show one': "one_slot_each (c @ replicate n s)" using assms(1) unfolding one_slot_each_def used by (metis at)
  show "cache_map (c @ replicate n s) = cache_map c"
  proof
    fix x
    have "cache_map (c @ replicate n s) x = Some fd \<longleftrightarrow> cache_map c x = Some fd" for fd
      using cache_map_some[OF one', of x fd] cache_map_some[OF assms(1), of x fd] used at by auto
    then show "cache_map (c @ replicate n s) x = cache_map c x" by (metis option.exhaust)
  qed
qed

text \<open>What a lookup of the cache does to the map, with and without a slot for the file.\<close>

lemma cached_slot:
  assumes f: "first_slot (slot_for file oflags) (cache st) = Some i" and one: "one_slot_each (cache st)"
    and c: "c = (cache st)[i := (cache st ! i)\<lparr>c_rtc := r\<rparr>]"
  shows "one_slot_each c" "used c i" "key (c ! i) = (file, oflags)" "c_rtc (c ! i) = r" "cache_map c = cache_map (cache st)"
    "cache_map (cache st) (file, oflags) = Some (c_fd (c ! i))"
proof -
  note i = first_slot_some[OF f]
  have used: "used c j \<longleftrightarrow> used (cache st) j" for j using i by (auto simp: used_def c nth_list_update)
  have at: "key (c ! j) = key (cache st ! j)" "c_fd (c ! j) = c_fd (cache st ! j)" for j
    using i by (cases "j = i"; simp add: c key_def)+
  show one': "one_slot_each c" using one by (simp add: one_slot_each_def used at)
  show "used c i" using i by (simp add: used_def at slot_for_key) (simp add: c)
  show "key (c ! i) = (file, oflags)" using i by (simp add: at slot_for_key)
  show "c_rtc (c ! i) = r" using i by (simp add: c)
  show "cache_map (cache st) (file, oflags) = Some (c_fd (c ! i))" using f by (simp add: cache_map_def at)
  have "cache_map c x = Some fd \<longleftrightarrow> cache_map (cache st) x = Some fd" for x fd
    using cache_map_some[OF one', of x fd] cache_map_some[OF one, of x fd] used at by simp
  then show "cache_map c = cache_map (cache st)" by (intro ext) (metis option.exhaust)
qed

definition remembers :: "string \<times> int \<Rightarrow> nat \<Rightarrow> fd_cache list \<Rightarrow> fd_cache list \<Rightarrow> bool" where
  "remembers x i c c' \<longleftrightarrow> cache_map c' = (cache_map c)(x \<mapsto> c_fd (c' ! i))
     \<or> (\<exists>j. least_recent c j \<and> cache_map c' = (cache_map c)(key (c ! j) := None, x \<mapsto> c_fd (c' ! i)))"

lemma alloc_fdcache_map:
  assumes r: "alloc_fdcache K e file oflags st = Inr (i, st')" and one: "one_slot_each (cache st)"
  shows "one_slot_each (cache st') \<and> used (cache st') i \<and> key (cache st' ! i) = (file, oflags) \<and> c_rtc (cache st' ! i) = Reqno st \<and>
    (if cache_map (cache st) (file, oflags) \<noteq> None then cache_map (cache st') = cache_map (cache st) \<and> kern st' = kern st
     else remembers (file, oflags) i (cache st) (cache st'))"
proof (cases "first_slot (slot_for file oflags) (cache st)")
  case (Some j)
  then have eq: "i = j" "cache st' = (cache st)[j := (cache st ! j)\<lparr>c_rtc := Reqno st\<rparr>]" "kern st' = kern st"
    using r by (auto simp: alloc_fdcache_def)
  show ?thesis using cached_slot[OF Some one eq(2)] eq by simp
next
  case None
  then have none: "cache_map (cache st) (file, oflags) = None" by (simp add: cache_map_def)
  obtain fd free st1 where o: "open_file K file oflags st = Inr ((fd, free), st1)"
    using r None by (auto simp: alloc_fdcache_def on_ok_Inr_iff)
  define grown where "grown = (case free of Some i \<Rightarrow> (i, cache st1)
      | None \<Rightarrow> (length (cache st1), cache st1 @ replicate FD_ALLOC_INCR ((unset_slot e)\<lparr>c_fd := -1\<rparr>)))"
  obtain mem mini maxi k2 where d: "dio_limits K e file oflags fd (kern st1) = ((mem, mini, maxi), k2)" by (metis prod.exhaust)
  define s where "s = \<lparr>c_file = file, c_oflags = oflags, c_fd = fd, c_rtc = Reqno st, c_memalign = mem,
      c_miniosz = mini, c_maxiosz = maxi, c_memaddr = 0, c_memlen = 0\<rparr>"
  have st': "i = fst grown" "cache st' = (snd grown)[fst grown := s]"
    using r None o d by (auto simp: alloc_fdcache_def Let_def grown_def[symmetric] s_def[symmetric] split: if_splits)
  have fd: "0 \<le> fd" and free: "free = first_slot (\<lambda>s. c_fd s = -1) (cache st) \<and> cache st1 = cache st
      \<or> (\<exists>j. free = Some j \<and> least_recent (cache st) j \<and> cache st1 = (cache st)[j := (cache st ! j)\<lparr>c_fd := -1\<rparr>])"
    using o by (cases "oldest_slot (cache st)"; auto simp: open_file_def Let_def split: prod.splits if_splits dest: oldest_slot_some)+
  have key_s: "key s = (file, oflags)" "c_fd s \<noteq> -1" "c_rtc s = Reqno st" using fd by (simp_all add: s_def key_def)
  define c where "c = snd grown"
  have c: "one_slot_each c" "fst grown < length c" "c_fd (c ! fst grown) = -1"
    "cache_map c = cache_map (cache st) \<or> (\<exists>j. least_recent (cache st) j \<and> cache_map c = (cache_map (cache st))(key (cache st ! j) := None))"
  proof -
    from free have "one_slot_each c \<and> fst grown < length c \<and> c_fd (c ! fst grown) = -1 \<and>
      (cache_map c = cache_map (cache st) \<or> (\<exists>j. least_recent (cache st) j \<and> cache_map c = (cache_map (cache st))(key (cache st ! j) := None)))"
    proof
      assume f: "free = first_slot (\<lambda>s. c_fd s = -1) (cache st) \<and> cache st1 = cache st"
      show ?thesis
      proof (cases free)
        case None
        then show ?thesis using f one grow_cache[OF one, of "(unset_slot e)\<lparr>c_fd := -1\<rparr>" FD_ALLOC_INCR]
          by (simp add: c_def grown_def nth_append)
      next
        case (Some j)
        then show ?thesis using f one first_slot_some[of "\<lambda>s. c_fd s = -1" "cache st" j] by (simp add: c_def grown_def)
      qed
    next
      assume "\<exists>j. free = Some j \<and> least_recent (cache st) j \<and> cache st1 = (cache st)[j := (cache st ! j)\<lparr>c_fd := -1\<rparr>]"
      then obtain j where j: "free = Some j" "least_recent (cache st) j" "cache st1 = (cache st)[j := (cache st ! j)\<lparr>c_fd := -1\<rparr>]" by blast
      then have "used (cache st) j" by (simp add: least_recent_def)
      then show ?thesis using j drop_slot[OF one, of j] by (auto simp: c_def grown_def used_def)
    qed
    then show "one_slot_each c" "fst grown < length c" "c_fd (c ! fst grown) = -1"
      "cache_map c = cache_map (cache st) \<or> (\<exists>j. least_recent (cache st) j \<and> cache_map c = (cache_map (cache st))(key (cache st ! j) := None))"
      by blast+
  qed
  have "cache_map c (key s) = None" using c(4) none key_s(1) by auto
  note new = fill_slot[OF c(1-3) key_s(2) this]
  have at: "cache st' ! i = s" using st' c(2) by (simp add: c_def)
  then have "used (cache st') i" using st' c(2) key_s(2) by (simp add: used_def c_def)
  moreover have "remembers (file, oflags) i (cache st) (cache st')"
    using new(2) c(4) st'(2) key_s(1) at unfolding remembers_def c_def by auto
  ultimately show ?thesis using none new(1) at key_s st'(2) by (simp add: c_def)
qed

section \<open>The check of a buffer\<close>

lemma corrupt_at_none:
  "idx < length pat \<Longrightarrow> corrupt_at bs pat idx i = None \<longleftrightarrow> (\<forall>j < length bs. bs ! j = pat ! ((idx + j) mod length pat))"
proof (induction bs arbitrary: idx i)
  case (Cons b bs)
  have step: "((if Suc idx = length pat then 0 else Suc idx) + j) mod length pat = (idx + Suc j) mod length pat" for j
  proof (cases "Suc idx = length pat")
    case True
    then have "(idx + Suc j) mod length pat = (length pat + j) mod length pat" by (metis add_Suc_shift)
    then show ?thesis using True by simp
  qed simp
  have lt: "(if Suc idx = length pat then 0 else Suc idx) < length pat" using Cons.prems by auto
  show ?case
    using Cons.prems Cons.IH[OF lt] unfolding step by (auto simp: less_Suc_eq_0_disj)
qed simp

lemma corrupt_at_some:
  "idx < length pat \<Longrightarrow> corrupt_at bs pat idx i = Some m \<Longrightarrow>
   \<exists>j < length bs. m = i + j \<and> bs ! j \<noteq> pat ! ((idx + j) mod length pat) \<and> (\<forall>l < j. bs ! l = pat ! ((idx + l) mod length pat))"
proof (induction bs arbitrary: idx i)
  case (Cons b bs)
  have step: "((if Suc idx = length pat then 0 else Suc idx) + j) mod length pat = (idx + Suc j) mod length pat" for j
  proof (cases "Suc idx = length pat")
    case True
    then have "(idx + Suc j) mod length pat = (length pat + j) mod length pat" by (metis add_Suc_shift)
    then show ?thesis using True by simp
  qed simp
  have lt: "(if Suc idx = length pat then 0 else Suc idx) < length pat" using Cons.prems by auto
  show ?case
  proof (cases "b = pat ! idx")
    case True
    then have "corrupt_at bs pat (if Suc idx = length pat then 0 else Suc idx) (Suc i) = Some m" using Cons.prems(2) by simp
    from Cons.IH[OF lt this] obtain j where j: "j < length bs" "m = Suc i + j" "bs ! j \<noteq> pat ! ((idx + Suc j) mod length pat)"
      "\<forall>l < j. bs ! l = pat ! ((idx + Suc l) mod length pat)"
      unfolding step by blast
    have "\<forall>l < Suc j. (b # bs) ! l = pat ! ((idx + l) mod length pat)"
      using j(4) True Cons.prems(1) by (auto simp: less_Suc_eq_0_disj)
    then show ?thesis using j by (intro exI[of _ "Suc j"]) auto
  next
    case False
    then show ?thesis using Cons.prems by (intro exI[of _ 0]) auto
  qed
qed simp

end
