(* ===== verification/Doio_Files.thy ===== *)
theory Doio_Files
  imports Doio_Cache
begin

text \<open>
  On files that behave, \<open>doio\<close> does what its requests say and reports nothing: the contract of such files, and
  the functions that make descriptors and buffers ready.
\<close>

section \<open>Files\<close>

definition overwrite :: "byte list \<Rightarrow> int \<Rightarrow> byte list \<Rightarrow> byte list" where
  "overwrite b off bs = take (nat off) b @ bs @ drop (nat off + length bs) b"

definition slice :: "byte list \<Rightarrow> int \<Rightarrow> int \<Rightarrow> byte list" where
  "slice b off n = take (nat n) (drop (nat off) b)"

definition within :: "byte list \<Rightarrow> int \<Rightarrow> int \<Rightarrow> bool" where
  "within b off n \<longleftrightarrow> 0 \<le> off \<and> 0 \<le> n \<and> off + n \<le> int (length b)"

lemma within_nat: "within b off n \<Longrightarrow> nat off + nat n \<le> length b \<and> 0 \<le> off \<and> 0 \<le> n"
  by (simp add: within_def nat_add_distrib[symmetric] nat_le_iff)

lemma slice_overwrite: "within b off (int (length bs)) \<Longrightarrow> slice (overwrite b off bs) off (int (length bs)) = bs"
  using within_nat[of b off "int (length bs)"] by (simp add: slice_def overwrite_def)

lemma length_overwrite: "within b off (int (length bs)) \<Longrightarrow> length (overwrite b off bs) = length b"
  using within_nat[of b off "int (length bs)"] by (simp add: overwrite_def)

lemma length_slice: "within b off n \<Longrightarrow> int (length (slice b off n)) = n"
proof -
  assume w: "within b off n"
  then have "nat n \<le> length b - nat off" "0 \<le> n" using within_nat[OF w] by linarith+
  then show ?thesis by (simp add: slice_def min_absorb2)
qed

abbreviation (input) O_TRUNC :: int where "O_TRUNC \<equiv> 0x200"
abbreviation (input) O_EXCL :: int where "O_EXCL \<equiv> 0x80"

text \<open>Flags that open a file that exists as it is, for reading or for writing.\<close>

definition plain_flags :: "int \<Rightarrow> bool" where
  "plain_flags fl \<longleftrightarrow> fl AND O_TRUNC = 0 \<and> fl AND O_EXCL = 0"

definition reads :: "int \<Rightarrow> bool" where
  "reads fl \<longleftrightarrow> fl AND 3 = O_RDONLY \<or> fl AND 3 = O_RDWR"

definition writes :: "int \<Rightarrow> bool" where
  "writes fl \<longleftrightarrow> fl AND 3 = O_WRONLY \<or> fl AND 3 = O_RDWR"

text \<open>
  A kernel whose files have a content that the calls read and write. \<open>fdfile\<close>: the file and flags of an open
  descriptor; \<open>pos\<close>: its position; \<open>mapped\<close>: file, length and whether it can be written of a mapping, by its
  address. Direct I/O wants addresses that are multiples of \<open>dmem\<close>, and positions and lengths of \<open>dmini\<close>.
\<close>

definition dio_ok :: "int \<Rightarrow> int \<Rightarrow> int \<Rightarrow> int \<Rightarrow> int \<Rightarrow> int \<Rightarrow> bool" where
  "dio_ok dmem dmini fl a off n \<longleftrightarrow> fl AND O_DIRECT = 0 \<or> dmem dvd a \<and> dmini dvd off \<and> dmini dvd n"

locale files_kernel = doio_calls K for K :: "'k doio_kernel" +
  fixes content :: "'k \<Rightarrow> string \<Rightarrow> byte list option"
    and fdfile :: "'k \<Rightarrow> int \<Rightarrow> (string \<times> int) option"
    and pos :: "'k \<Rightarrow> int \<Rightarrow> int"
    and mapped :: "'k \<Rightarrow> int \<Rightarrow> (string \<times> int \<times> bool) option"
    and dmem dmini :: int
  assumes opens: "content k f \<noteq> None \<Longrightarrow> plain_flags fl \<Longrightarrow> d_open K f fl k = ((fd, em), k') \<Longrightarrow>
      0 \<le> fd \<and> fdfile k fd = None \<and> fdfile k' = (fdfile k)(fd \<mapsto> (f, fl)) \<and> content k' = content k \<and> mapped k' = mapped k"
    and dioinfos: "d_dioinfo K f fd k = (lims, k') \<Longrightarrow> (\<exists>maxi. lims = Some (dmem, dmini, maxi)) \<and>
      fdfile k' = fdfile k \<and> content k' = content k \<and> mapped k' = mapped k"
    and lseeks: "fdfile k fd \<noteq> None \<Longrightarrow> 0 \<le> off \<Longrightarrow> d_lseek K fd off k = (ok, k') \<Longrightarrow>
      ok \<and> pos k' fd = off \<and> fdfile k' = fdfile k \<and> content k' = content k \<and> mapped k' = mapped k"
    and reads_file: "fdfile k fd = Some (f, fl) \<Longrightarrow> reads fl \<Longrightarrow> content k f = Some b \<Longrightarrow> within b (pos k fd) n \<Longrightarrow>
      dio_ok dmem dmini fl a (pos k fd) n \<Longrightarrow> d_read K fd a n k = ((r, bs), k') \<Longrightarrow>
      r = n \<and> bs = slice b (pos k fd) n \<and> fdfile k' = fdfile k \<and> content k' = content k \<and> mapped k' = mapped k"
    and readvs_file: "fdfile k fd = Some (f, fl) \<Longrightarrow> reads fl \<Longrightarrow> content k f = Some b \<Longrightarrow> within b (pos k fd) n \<Longrightarrow>
      dio_ok dmem dmini fl a (pos k fd) n \<Longrightarrow> d_readv K fd a n k = ((r, bs), k') \<Longrightarrow>
      r = n \<and> bs = slice b (pos k fd) n \<and> fdfile k' = fdfile k \<and> content k' = content k \<and> mapped k' = mapped k"
    and preads_file: "fdfile k fd = Some (f, fl) \<Longrightarrow> reads fl \<Longrightarrow> content k f = Some b \<Longrightarrow> within b off n \<Longrightarrow>
      dio_ok dmem dmini fl a off n \<Longrightarrow> d_pread K fd a n off k = ((r, bs), k') \<Longrightarrow>
      r = n \<and> bs = slice b off n \<and> fdfile k' = fdfile k \<and> content k' = content k \<and> mapped k' = mapped k"
    and writes_file: "fdfile k fd = Some (f, fl) \<Longrightarrow> writes fl \<Longrightarrow> content k f = Some b \<Longrightarrow> within b (pos k fd) (int (length bs)) \<Longrightarrow>
      dio_ok dmem dmini fl a (pos k fd) (int (length bs)) \<Longrightarrow> d_write K fd a bs k = (r, k') \<Longrightarrow>
      r = int (length bs) \<and> content k' = (content k)(f \<mapsto> overwrite b (pos k fd) bs) \<and> fdfile k' = fdfile k \<and> mapped k' = mapped k"
    and writevs_file: "fdfile k fd = Some (f, fl) \<Longrightarrow> writes fl \<Longrightarrow> content k f = Some b \<Longrightarrow> within b (pos k fd) (int (length bs)) \<Longrightarrow>
      dio_ok dmem dmini fl a (pos k fd) (int (length bs)) \<Longrightarrow> d_writev K fd a bs k = (r, k') \<Longrightarrow>
      r = int (length bs) \<and> content k' = (content k)(f \<mapsto> overwrite b (pos k fd) bs) \<and> fdfile k' = fdfile k \<and> mapped k' = mapped k"
    and pwrites_file: "fdfile k fd = Some (f, fl) \<Longrightarrow> writes fl \<Longrightarrow> content k f = Some b \<Longrightarrow> within b off (int (length bs)) \<Longrightarrow>
      dio_ok dmem dmini fl a off (int (length bs)) \<Longrightarrow> d_pwrite K fd a bs off k = (r, k') \<Longrightarrow>
      r = int (length bs) \<and> content k' = (content k)(f \<mapsto> overwrite b off bs) \<and> fdfile k' = fdfile k \<and> mapped k' = mapped k"
    and fstats: "fdfile k fd = Some (f, fl) \<Longrightarrow> content k f = Some b \<Longrightarrow> d_fstat K fd k = (sz, k') \<Longrightarrow>
      sz = Some (int (length b)) \<and> fdfile k' = fdfile k \<and> content k' = content k \<and> mapped k' = mapped k"
    and maps_file: "fdfile k fd = Some (f, fl) \<Longrightarrow> reads fl \<Longrightarrow> rw \<longrightarrow> writes fl \<Longrightarrow> content k f = Some b \<Longrightarrow> 0 < n \<Longrightarrow>
      n = int (length b) \<Longrightarrow> d_map_file K rw n fd k = (a', k') \<Longrightarrow>
      (\<exists>a. a' = Some a \<and> a \<noteq> 0 \<and> mapped k a = None \<and> mapped k' = (mapped k)(a \<mapsto> (f, n, rw))) \<and> fdfile k' = fdfile k \<and> content k' = content k"
    and loads_file: "mapped k a = Some (f, len, rw) \<Longrightarrow> content k f = Some b \<Longrightarrow> len = int (length b) \<Longrightarrow> within b off n \<Longrightarrow>
      d_load K (a + off) n k = (got, k') \<Longrightarrow>
      got = Touched (slice b off n) \<and> fdfile k' = fdfile k \<and> content k' = content k \<and> mapped k' = mapped k"
    and stores_file: "mapped k a = Some (f, len, True) \<Longrightarrow> content k f = Some b \<Longrightarrow> len = int (length b) \<Longrightarrow> within b off (int (length bs)) \<Longrightarrow>
      d_store K (a + off) bs k = (stored, k') \<Longrightarrow>
      stored = Touched () \<and> content k' = (content k)(f \<mapsto> overwrite b off bs) \<and> fdfile k' = fdfile k \<and> mapped k' = mapped k"
    and locks: "d_lock K fd u start n k = (ok, k') \<Longrightarrow> ok \<and> fdfile k' = fdfile k \<and> content k' = content k \<and> mapped k' = mapped k"
    and reserves: "fdfile k fd = Some (f, fl) \<Longrightarrow> writes fl \<Longrightarrow> content k f = Some b \<Longrightarrow> within b off n \<Longrightarrow>
      d_xfsctl K f fd True off n k = (r, k') \<Longrightarrow> r \<noteq> -1 \<and> fdfile k' = fdfile k \<and> content k' = content k \<and> mapped k' = mapped k"
    and unreserves: "fdfile k fd = Some (f, fl) \<Longrightarrow> writes fl \<Longrightarrow> content k f = Some b \<Longrightarrow> within b off n \<Longrightarrow>
      d_xfsctl K f fd False off n k = (r, k') \<Longrightarrow> r \<noteq> -1 \<and>
      content k' = (content k)(f \<mapsto> overwrite b off (replicate (nat n) 0)) \<and> fdfile k' = fdfile k \<and> mapped k' = mapped k"
    and fsyncs: "fdfile k fd \<noteq> None \<Longrightarrow> d_fsync K fd k = (r, k') \<Longrightarrow>
      r \<noteq> -1 \<and> fdfile k' = fdfile k \<and> content k' = content k \<and> mapped k' = mapped k"
    and fdatasyncs: "fdfile k fd \<noteq> None \<Longrightarrow> d_fdatasync K fd k = (r, k') \<Longrightarrow>
      r \<noteq> -1 \<and> fdfile k' = fdfile k \<and> content k' = content k \<and> mapped k' = mapped k"
    and mallocs: "0 \<le> n \<Longrightarrow> d_malloc K n k = (m', k') \<Longrightarrow>
      m' \<noteq> None \<and> fdfile k' = fdfile k \<and> content k' = content k \<and> mapped k' = mapped k"
    and frees: "fdfile (d_free K a k) = fdfile k \<and> content (d_free K a k) = content k \<and> mapped (d_free K a k) = mapped k"
    and wlogs: "d_wlog K wrec place k = (woffset, k') \<Longrightarrow>
      woffset \<noteq> -1 \<and> fdfile k' = fdfile k \<and> content k' = content k \<and> mapped k' = mapped k"
    and randoms: "d_random K lo hi m k = (nerr, k') \<Longrightarrow> fdfile k' = fdfile k \<and> content k' = content k \<and> mapped k' = mapped k"
    and parent_lives: "d_getppid K k \<noteq> 1"
    and limits: "0 < dmem" "dmem \<le> MAX_ALIGN" "0 < dmini" "dmini < 2147483648"
begin

section \<open>The invariant\<close>

text \<open>What the slots of the cache know of the kernel, and the changes that leave it true.\<close>

definition slot_served :: "'k \<Rightarrow> fd_cache \<Rightarrow> bool" where
  "slot_served k s \<longleftrightarrow> c_fd s = -1 \<or>
     fdfile k (c_fd s) = Some (c_file s, c_oflags s) \<and> content k (c_file s) \<noteq> None
     \<and> c_memalign s = (if c_oflags s AND O_DIRECT \<noteq> 0 then dmem else 1)
     \<and> (c_memaddr s \<noteq> 0 \<longrightarrow> mapped k (c_memaddr s) = Some (c_file s, int (length (the (content k (c_file s)))), c_oflags s AND 3 = O_RDWR))"

definition same_shape :: "'k \<Rightarrow> 'k \<Rightarrow> bool" where
  "same_shape k k' \<longleftrightarrow> fdfile k' = fdfile k \<and> mapped k' = mapped k
     \<and> (\<forall>f. map_option length (content k' f) = map_option length (content k f))"

definition quiet :: "'k \<Rightarrow> 'k \<Rightarrow> bool" where
  "quiet k k' \<longleftrightarrow> fdfile k' = fdfile k \<and> content k' = content k \<and> mapped k' = mapped k"

definition served :: "doio_env \<Rightarrow> 'k doio_state \<Rightarrow> bool" where
  "served e st \<longleftrightarrow> state_ok e st \<and> list_all (slot_served (kern st)) (cache st)"

lemma kernel_quiet_refl [simp]: "quiet k k"
  by (simp add: quiet_def)

lemma kernel_quiet_trans: "quiet a b \<Longrightarrow> quiet b c \<Longrightarrow> quiet a c"
  by (simp add: quiet_def)

lemma quiet_shape: "quiet k k' \<Longrightarrow> same_shape k k'"
  by (simp add: quiet_def same_shape_def)

lemma shape_length:
  assumes "same_shape k k'" and "content k f \<noteq> None"
  shows "content k' f \<noteq> None" "length (the (content k' f)) = length (the (content k f))"
proof -
  have "map_option length (content k' f) = map_option length (content k f)" using assms(1) by (simp add: same_shape_def)
  then show "content k' f \<noteq> None" "length (the (content k' f)) = length (the (content k f))"
    using assms(2) by (cases "content k f"; cases "content k' f"; simp)+
qed

lemma slot_served_shape: "same_shape k k' \<Longrightarrow> slot_served k s \<Longrightarrow> slot_served k' s"
  using shape_length[of k k' "c_file s"] by (auto simp: slot_served_def same_shape_def)

lemma served_shape: "served e st \<Longrightarrow> same_shape (kern st) k' \<Longrightarrow> served e (st\<lparr>kern := k'\<rparr>)"
  using slot_served_shape by (auto simp: served_def list_all_iff)

lemma served_quiet: "served e st \<Longrightarrow> quiet (kern st) k' \<Longrightarrow> served e (st\<lparr>kern := k'\<rparr>)"
  using served_shape quiet_shape by blast

lemma overwrite_shape:
  "content k f = Some b \<Longrightarrow> within b off (int (length bs)) \<Longrightarrow> content k' = (content k)(f \<mapsto> overwrite b off bs) \<Longrightarrow>
   fdfile k' = fdfile k \<Longrightarrow> mapped k' = mapped k \<Longrightarrow> same_shape k k'"
  by (auto simp: same_shape_def length_overwrite)

section \<open>Descriptors\<close>

lemma dio_limits_served:
  assumes "dio_env e = None" and "dio_limits K e file oflags fd k = ((mem, mini, maxi), k')"
  shows "mem = (if oflags AND O_DIRECT \<noteq> 0 then dmem else 1) \<and> quiet k k'"
proof (cases "oflags AND O_DIRECT = 0")
  case True
  then show ?thesis using assms(2) by (simp add: dio_limits_def)
next
  case False
  obtain lims k1 where d: "d_dioinfo K file fd k = (lims, k1)" by (metis prod.exhaust)
  from dioinfos[OF d] obtain m where "lims = Some (dmem, dmini, m)" "quiet k k1" by (auto simp: quiet_def)
  then show ?thesis using assms False d limits by (auto simp: dio_limits_def s32_id)
qed

text \<open>The slot for a file that exists.\<close>

definition slot_at :: "string \<Rightarrow> int \<Rightarrow> nat \<Rightarrow> 'k doio_state \<Rightarrow> bool" where
  "slot_at file oflags i st \<longleftrightarrow> i < length (cache st) \<and> slot_for file oflags (cache st ! i)"

lemma slot_atD:
  assumes "slot_at file oflags i st" and "served e st"
  shows "fdfile (kern st) (c_fd (cache st ! i)) = Some (file, oflags)" "c_fd (cache st ! i) \<noteq> -1"
    "c_memalign (cache st ! i) = (if oflags AND O_DIRECT \<noteq> 0 then dmem else 1)"
    "c_memaddr (cache st ! i) \<noteq> 0 \<Longrightarrow> mapped (kern st) (c_memaddr (cache st ! i)) =
       Some (file, int (length (the (content (kern st) file))), oflags AND 3 = O_RDWR)"
    "slot_ok (cache st ! i)"
  using assms by (auto simp: slot_at_def served_def slot_served_def slot_for_def state_ok_def list_all_length)

lemma alloc_fdcache_hit:
  assumes st: "served e st" and f: "first_slot (slot_for file oflags) (cache st) \<noteq> None"
  shows "ok_run (\<lambda>(i, st'). served e st' \<and> same_mem st st' \<and> slot_at file oflags i st' \<and> kern st' = kern st)
    (alloc_fdcache K e file oflags st)"
proof -
  obtain i where Some: "first_slot (slot_for file oflags) (cache st) = Some i" using f by auto
  note i = first_slot_some[OF Some]
  define s where "s = (cache st ! i)\<lparr>c_rtc := Reqno st\<rparr>"
  have "slot_ok (cache st ! i)" "slot_served (kern st) (cache st ! i)"
    using st i by (simp_all add: served_def state_ok_def list_all_length)
  then have "slot_ok s" "slot_served (kern st) s" "slot_for file oflags s"
    using i by (simp_all add: slot_ok_def slot_served_def slot_for_def s_def)
  then show ?thesis
    using st i Some by (simp add: alloc_fdcache_def s_def[symmetric] served_def state_ok_def list_all_update slot_at_def)
qed

lemma slot_at_first: "slot_at file oflags i st \<Longrightarrow> first_slot (slot_for file oflags) (cache st) \<noteq> None"
  by (auto simp: slot_at_def first_slot_none)

lemma alloc_fdcache_served:
  assumes e: "env_ok e" "dio_env e = None" and st: "served e st" and f: "content (kern st) file \<noteq> None"
    and fl: "plain_flags oflags" and name: "length file \<le> MAX_FNAME_LENGTH"
  shows "ok_run (\<lambda>(i, st'). served e st' \<and> same_mem st st' \<and> slot_at file oflags i st' \<and> content (kern st') = content (kern st)
      \<and> (\<forall>x. fdfile (kern st) x \<noteq> None \<longrightarrow> fdfile (kern st') x = fdfile (kern st) x))
    (alloc_fdcache K e file oflags st)"
proof (cases "first_slot (slot_for file oflags) (cache st)")
  case (Some i)
  then show ?thesis by (intro ok_run_mono[OF alloc_fdcache_hit[OF st]]) auto
next
  case None
  obtain fd em k1 where o: "d_open K file oflags (kern st) = ((fd, em), k1)" by (metis prod.exhaust)
  note op = opens[OF f fl o]
  define free where "free = first_slot (\<lambda>s. c_fd s = -1) (cache st)"
  define grown where "grown = (case free of Some i \<Rightarrow> (i, cache st)
      | None \<Rightarrow> (length (cache st), cache st @ replicate FD_ALLOC_INCR ((unset_slot e)\<lparr>c_fd := -1\<rparr>)))"
  obtain mem mini maxi k2 where d: "dio_limits K e file oflags fd k1 = ((mem, mini, maxi), k2)" by (metis prod.exhaust)
  note dl = dio_limits_served[OF e(2) d] and dk = dio_limits_ok[OF e(1) d]
  define s where "s = \<lparr>c_file = file, c_oflags = oflags, c_fd = fd, c_rtc = Reqno st, c_memalign = mem,
      c_miniosz = mini, c_maxiosz = maxi, c_memaddr = 0, c_memlen = 0\<rparr>"
  have run: "alloc_fdcache K e file oflags st = Inr (fst grown, st\<lparr>cache := (snd grown)[fst grown := s], kern := k2\<rparr>)"
    using None o op d name unfolding alloc_fdcache_def open_file_def Let_def
    by (cases free) (auto simp: grown_def s_def free_def[symmetric] split: if_splits)
  have g: "fst grown < length (snd grown)" "list_all slot_ok (snd grown)"
    using st first_slot_some[of "\<lambda>s. c_fd s = -1" "cache st"]
    by (auto simp: grown_def free_def served_def state_ok_def slot_ok_def list_all_iff split: option.splits)
  have k2: "fdfile k2 = (fdfile (kern st))(fd \<mapsto> (file, oflags))" "content k2 = content (kern st)" "mapped k2 = mapped (kern st)"
    using op dl by (simp_all add: quiet_def)
  have "slot_served k2 x" if "slot_served (kern st) x" for x
    using that op k2 by (auto simp: slot_served_def)
  then have "list_all (slot_served k2) (cache st)" using st by (auto simp: served_def list_all_iff)
  then have "list_all (slot_served k2) (snd grown)"
    by (auto simp: grown_def slot_served_def list_all_iff split: option.splits)
  moreover have "slot_served k2 s" "slot_ok s" "slot_for file oflags s"
    using k2 dl dk op f by (auto simp: s_def slot_served_def slot_ok_def slot_for_def)
  ultimately have "served e (st\<lparr>cache := (snd grown)[fst grown := s], kern := k2\<rparr>)"
    using st g by (simp add: served_def state_ok_def list_all_update)
  moreover have "slot_at file oflags (fst grown) (st\<lparr>cache := (snd grown)[fst grown := s], kern := k2\<rparr>)"
    using g \<open>slot_for file oflags s\<close> by (simp add: slot_at_def)
  ultimately show ?thesis using k2 op by (auto simp: run)
qed

lemma alloc_fd_served:
  assumes "env_ok e" "dio_env e = None" "served e st" "content (kern st) file \<noteq> None" "plain_flags oflags"
    "length file \<le> MAX_FNAME_LENGTH"
  shows "ok_run (\<lambda>(fd, st'). served e st' \<and> same_mem st st' \<and> content (kern st') = content (kern st)
      \<and> (\<forall>x. fdfile (kern st) x \<noteq> None \<longrightarrow> fdfile (kern st') x = fdfile (kern st) x)
      \<and> fdfile (kern st') fd = Some (file, oflags) \<and> fd \<noteq> -1 \<and> first_slot (slot_for file oflags) (cache st') \<noteq> None)
    (alloc_fd K e file oflags st)"
  unfolding alloc_fd_def
proof (rule ok_run_bind[OF alloc_fdcache_served[OF assms]], clarify, goal_cases)
  case (1 i st')
  then show ?case using slot_atD(1,2)[OF 1(3,1)] slot_at_first[OF 1(3)] by simp
qed

section \<open>Buffers\<close>

lemma grow_data_served:
  assumes n: "0 \<le> n" and g: "grow_data K n m k = (r, m', k')"
  shows "r = 0 \<and> quiet k k'"
proof -
  define k1 where "k1 = (if n > m_size m \<and> m_space m \<noteq> No_space then d_free K (space_addr (m_space m)) k else k)"
  have q1: "quiet k k1" using frees by (simp add: k1_def quiet_def)
  obtain x k2 where x: "d_malloc K n k1 = (x, k2)" by (metis prod.exhaust)
  have "x \<noteq> None" "quiet k1 k2" using mallocs[OF n x] by (simp_all add: quiet_def)
  then show ?thesis
    using g x q1 kernel_quiet_trans[OF q1] unfolding grow_data_def Let_def k1_def[symmetric]
    by (auto split: if_splits option.splits)
qed

lemma alloc_mem_served:
  assumes e: "env_ok e" and st: "served e st" and n: "0 \<le> n"
  shows "ok_run (\<lambda>(r, st'). r = 0 \<and> served e st' \<and> holds e n st' \<and> cache st' = cache st \<and> quiet (kern st) (kern st')
      \<and> Pattern st' = Pattern st) (alloc_mem K e n st)"
proof -
  define i where "i = (if Nmemalloc e \<le> mturn st then 0 else mturn st)"
  have st0: "state_ok e st" using st by (simp add: served_def)
  have i: "i < Nmemalloc e" "i < length (Memalloc st)" using e st0 by (auto simp: i_def env_ok_def state_ok_def)
  have sp: "space_ok (Memalloc st ! i)" using st0 i by (simp add: state_ok_def list_all_length)
  obtain r m k1 where g: "grow_data K n (Memalloc st ! i) (kern st) = (r, m, k1)" by (metis prod.exhaust)
  note gd = grow_data_ok[OF sp n g]
  have grow: "grow_entry K e n (Memalloc st ! i) (kern st) = Inr (r, m, k1)"
    using sp g by (simp add: grow_entry_def space_ok_def)
  have r: "r = 0 \<and> quiet (kern st) k1" using grow_data_served[OF n g] .
  have "list_all space_ok (take (Nmemalloc e) ((Memalloc st)[i := m]))"
    using st0 gd by (simp add: state_ok_def take_update_swap list_all_update)
  moreover have "list_all (slot_served k1) (cache st)"
    using st r slot_served_shape quiet_shape by (fastforce simp: served_def list_all_iff)
  ultimately show ?thesis
    using n gd st0 i r unfolding alloc_mem_def Let_def i_def[symmetric]
    by (auto simp: grow state_ok_def served_def holds_def buffer_def)
qed

end

text \<open>What is stored in the buffer is read from it again.\<close>

lemma mem_load_store:
  assumes "mem_store b off bs = Some b'" shows "mem_load b' off (int (length bs)) = Some bs"
proof -
  have w: "0 \<le> off" "off + int (length bs) \<le> int (length b)" and b': "b' = take (nat off) b @ bs @ drop (nat off + length bs) b"
    using assms by (auto simp: mem_store_def split: if_splits)
  have "nat off \<le> length b" using w by linarith
  moreover have "length b' = length b" using mem_store_length[OF assms] .
  ultimately show ?thesis using w b' by (simp add: mem_load_def)
qed

lemma put_get:
  assumes "state_ok e st" and "holds e n st" and "0 \<le> off" and "off + int (length bs) \<le> n"
  shows "\<exists>st'. put_bytes off bs st = Inr st' \<and> state_ok e st' \<and> holds e n st' \<and> cache st' = cache st \<and> kern st' = kern st
     \<and> Pattern st' = Pattern st \<and> base_addr st' = base_addr st \<and> get_bytes off (int (length bs)) st' = Inr bs"
proof -
  obtain st' where st': "put_bytes off bs st = Inr st'" "state_ok e st'" "holds e n st'" "cache st' = cache st"
    using put_bytes_ok[OF assms] by blast
  obtain a buf i where b: "buffer st = Some (a, buf)" "Memptr st = Some i" "i < Nmemalloc e"
    using assms(2) by (auto simp: holds_def)
  have sp: "m_space (Memalloc st ! i) = Space a buf"
    using b(1,2) by (auto simp: buffer_def split: mem_space.splits)
  have i: "i < length (Memalloc st)" using assms(1) b(3) by (simp add: state_ok_def)
  obtain buf1 where s: "mem_store buf off bs = Some buf1" "st' = with_buffer st buf1"
    using st'(1) b(1) by (auto simp: put_bytes_def split: option.splits)
  have st'_eq: "st' = st\<lparr>Memalloc := (Memalloc st)[i := (Memalloc st ! i)\<lparr>m_space := Space a buf1\<rparr>]\<rparr>"
    using s(2) b(2) sp by (simp add: with_buffer_def space_addr_def)
  have "buffer st' = Some (a, buf1)" using b(2) i by (simp add: buffer_def st'_eq)
  then have "get_bytes off (int (length bs)) st' = Inr bs" using mem_load_store[OF s(1)] by (simp add: get_bytes_def)
  moreover have "base_addr st' = base_addr st" using b(2) i sp by (simp add: base_addr_def st'_eq space_addr_def)
  ultimately show ?thesis using st' by (simp add: st'_eq)
qed

lemma get_bytes_update [simp]: "get_bytes off n (st\<lparr>kern := k\<rparr>) = get_bytes off n st"
  "get_bytes off n (st\<lparr>Pattern := p\<rparr>) = get_bytes off n st" "get_bytes off n (st\<lparr>cache := c\<rparr>) = get_bytes off n st"
  by (simp_all add: get_bytes_def)

lemma base_addr_update [simp]: "base_addr (st\<lparr>kern := k\<rparr>) = base_addr st" "base_addr (st\<lparr>Pattern := p\<rparr>) = base_addr st"
  by (simp_all add: base_addr_def cong: option.case_cong)

lemma same_mem_bytes: "same_mem st st' \<Longrightarrow> get_bytes off n st' = get_bytes off n st \<and> base_addr st' = base_addr st"
  using buffer_cong[of st' st] by (simp add: get_bytes_def same_mem_def base_addr_def cong: option.case_cong)

end
