(* ===== verification/Doio_Served.thy ===== *)
theory Doio_Served
  imports Doio_Files
begin

text \<open>
  The requests of \<open>doio\<close> on files that behave: each does what it says, the check of what it wrote passes, and
  none is reported.
\<close>

text \<open>What is asked of the options and the functions of the pattern library.\<close>

definition env_served :: "doio_env \<Rightarrow> bool" where
  "env_served e \<longleftrightarrow> env_ok e \<and> dio_env e = None \<and> Release_Interval e = 0
     \<and> (V_opt e \<longrightarrow> plain_flags (Validation_Flags e) \<and> reads (Validation_Flags e))
     \<and> (\<forall>n p. \<not> pattern_check e (pattern_fill e n p 0) p 0)"

section \<open>Made ready\<close>

context files_kernel
begin

text \<open>A descriptor for a file and flags, a buffer of a number of bytes, a pattern, and what the files hold.\<close>

definition ready :: "doio_env \<Rightarrow> int \<Rightarrow> int \<Rightarrow> string \<Rightarrow> int \<Rightarrow> byte list \<Rightarrow> (string \<Rightarrow> byte list option) \<Rightarrow> 'k doio_state \<Rightarrow> bool" where
  "ready e n fd f fl p c st \<longleftrightarrow>
     served e st \<and> holds e n st \<and> fdfile (kern st) fd = Some (f, fl) \<and> Pattern st = p \<and> content (kern st) = c"

lemma ready_quiet: "ready e n fd f fl p c st \<Longrightarrow> quiet (kern st) k' \<Longrightarrow> ready e n fd f fl p c (st\<lparr>kern := k'\<rparr>)"
  using served_quiet[of e st k'] by (auto simp: ready_def quiet_def)

lemma ready_pattern: "ready e n fd f fl p c st \<Longrightarrow> ready e n fd f fl p' c (st\<lparr>Pattern := p'\<rparr>)"
  by (simp add: ready_def served_def)

lemma ready_write:
  assumes "ready e n fd f fl p c st" and "c f = Some b" and "within b off (int (length bs))"
    and "content k' = (content (kern st))(f \<mapsto> overwrite b off bs)" and "fdfile k' = fdfile (kern st)" and "mapped k' = mapped (kern st)"
  shows "ready e n fd f fl p (c(f \<mapsto> overwrite b off bs)) (st\<lparr>kern := k'\<rparr>)"
proof -
  have "content (kern st) f = Some b" using assms(1,2) by (simp add: ready_def)
  from overwrite_shape[OF this assms(3-6)] have "served e (st\<lparr>kern := k'\<rparr>)"
    using assms(1) served_shape by (simp add: ready_def)
  then show ?thesis using assms by (simp add: ready_def)
qed

lemma ready_put:
  assumes r: "ready e n fd f fl p c st" and "0 \<le> off" and "off + int (length bs) \<le> n"
  shows "\<exists>st'. put_bytes off bs st = Inr st' \<and> ready e n fd f fl p c st' \<and> cache st' = cache st \<and> kern st' = kern st
     \<and> base_addr st' = base_addr st \<and> get_bytes off (int (length bs)) st' = Inr bs"
proof -
  have "state_ok e st" "holds e n st" using r by (simp_all add: ready_def served_def)
  from put_get[OF this assms(2,3)] show ?thesis using r by (auto simp: ready_def served_def)
qed

lemma ready_same:
  assumes "ready e n fd f fl p c st" and "served e st'" and "same_mem st st'" and "content (kern st') = content (kern st)"
    and "\<forall>x. fdfile (kern st) x \<noteq> None \<longrightarrow> fdfile (kern st') x = fdfile (kern st) x"
  shows "ready e n fd f fl p c st'"
  using assms holds_same[OF assms(3)] by (simp add: ready_def same_mem_def)

lemma prepare_served:
  assumes "env_ok e" "dio_env e = None" "served e st" "content (kern st) file \<noteq> None" "plain_flags oflags"
    "length file \<le> MAX_FNAME_LENGTH" and n: "0 \<le> nbytes" "nbytes < 2 ^ 30"
  shows "ok_run (\<lambda>((r, fd, i), st'). r = 0 \<and> slot_at file oflags i st' \<and>
      ready e (nbytes + 16 + c_memalign (cache st' ! i)) fd file oflags (Pattern st) (content (kern st)) st')
    (prepare K e file oflags nbytes st)"
  unfolding prepare_def
proof (rule ok_run_bind[OF alloc_fd_served[OF assms(1-6)]], clarify, goal_cases)
  case (1 fd st1 slot)
  then have found: "first_slot (slot_for file oflags) (cache st1) \<noteq> None" by simp
  have main: "ok_run (\<lambda>((r, fd, i), st'). r = 0 \<and> slot_at file oflags i st' \<and>
      ready e (nbytes + 16 + c_memalign (cache st' ! i)) fd file oflags (Pattern st) (content (kern st)) st')
    (on_ok (alloc_fdcache K e file oflags st1) (\<lambda>(i, st2).
       on_ok (alloc_mem K e (s32 (nbytes + 16 + c_memalign (cache st2 ! i))) st2) (\<lambda>(r, st3). Inr ((r, fd, i), st3))))"
  proof (rule ok_run_bind[OF alloc_fdcache_hit[OF 1(1) found]], clarify, goal_cases)
    case c2: (1 i st2)
    define m where "m = nbytes + 16 + c_memalign (cache st2 ! i)"
    have "slot_ok (cache st2 ! i)" using slot_atD(5)[OF c2(3,1)] .
    then have "0 < c_memalign (cache st2 ! i)" "c_memalign (cache st2 ! i) \<le> MAX_ALIGN"
      using c2(3) by (auto simp: slot_ok_def slot_at_def slot_for_def)
    then have m: "0 \<le> m" "s32 m = m" using n by (simp_all add: m_def s32_id)
    have fd: "fdfile (kern st2) fd = Some (file, oflags)" using 1(5) c2(4) by simp
    have pat: "Pattern st2 = Pattern st" using 1(2) c2(2) by (simp add: same_mem_def)
    show ?case
      unfolding m_def[symmetric] m(2)
    proof (rule ok_run_bind[OF alloc_mem_served[OF assms(1) c2(1) m(1)]], clarify, goal_cases)
      case c3: (1 r st3)
      then show ?case
        using c2(3,4) fd pat 1(3) by (auto simp: ready_def slot_at_def quiet_def m_def)
    qed
  qed
  show ?case using main 1(6) by simp
qed

text \<open>The offset in the buffer that is used: within the room for it, and aligned for direct I/O.\<close>

definition placed :: "int \<Rightarrow> fd_cache \<Rightarrow> int \<Rightarrow> 'k doio_state \<Rightarrow> 'k doio_state \<Rightarrow> bool" where
  "placed fl s off st st' \<longleftrightarrow> 0 \<le> off \<and> off \<le> 7 + c_memalign s \<and> (fl AND O_DIRECT = 0 \<or> dmem dvd base_addr st' + off)
     \<and> (\<exists>k. st' = st\<lparr>kern := k\<rparr> \<and> quiet (kern st) k)"

lemma dvd_round_up: "m dvd a + (m - a mod m)" for m :: int
proof -
  have "a + (m - a mod m) = m + (a - a mod m)" by simp
  then show ?thesis by (metis dvd_add dvd_minus_mod dvd_refl)
qed

lemma align_up_served:
  assumes "c_memalign s = (if fl AND O_DIRECT \<noteq> 0 then dmem else 1)" and "0 < addr"
  shows "ok_run (\<lambda>off. 0 \<le> off \<and> off < c_memalign s \<and> (fl AND O_DIRECT = 0 \<or> dmem dvd addr + off)) (align_up fl s addr)"
proof (cases "fl AND O_DIRECT = 0")
  case False
  have r: "0 \<le> addr mod dmem" "addr mod dmem < dmem" using limits(1) by simp_all
  have up: "align_up fl s addr = Inr (if addr mod dmem \<noteq> 0 then dmem - addr mod dmem else 0)"
    using False assms limits(1) by (simp add: align_up_def c_rem_nonneg)
  show ?thesis
  proof (cases "addr mod dmem = 0")
    case True
    then show ?thesis using up assms(1) False limits(1) by (simp add: dvd_eq_mod_eq_0)
  next
    case c: False
    then have "0 < addr mod dmem" using r(1) by linarith
    then show ?thesis using up assms(1) False r(2) c dvd_round_up[of dmem addr] by simp
  qed
qed (use assms in \<open>simp add: align_up_def\<close>)

lemma random_bump_served:
  assumes "random_bump K st = (n, st')"
  shows "0 \<le> n \<and> n \<le> 7 \<and> (\<exists>k. st' = st\<lparr>kern := k\<rparr> \<and> quiet (kern st) k)"
proof -
  obtain x err k where r: "d_random K 0 7 1 (kern st) = ((x, err), k)" by (metis prod.exhaust)
  then have "quiet (kern st) k" using randoms[OF r] by (simp add: quiet_def)
  moreover have "n = x" "st' = st\<lparr>kern := k\<rparr>" using assms r by (simp_all add: random_bump_def)
  ultimately show ?thesis using bump_range[OF r] by auto
qed

lemma aligned_offset_served:
  assumes s: "c_memalign s = (if r_oflags q AND O_DIRECT \<noteq> 0 then dmem else 1)" and h: "holds e n st"
    and "r_oflags q AND O_DIRECT = 0 \<or> r_uflags q AND F_WORD_ALIGNED \<noteq> 0"
  shows "ok_run (\<lambda>(off, st'). placed (r_oflags q) s off st st') (aligned_offset K q s st)"
proof (cases "r_uflags q AND F_WORD_ALIGNED = 0")
  case True
  obtain x st' where r: "random_bump K st = (x, st')" by (metis prod.exhaust)
  have "0 < c_memalign s" using s limits(1) by simp
  then show ?thesis using random_bump_served[OF r] True r assms(3) by (auto simp: aligned_offset_def placed_def)
next
  case False
  have "ok_run (\<lambda>(off, st'). placed (r_oflags q) s off st st')
      (on_ok (align_up (r_oflags q) s (base_addr st)) (\<lambda>off. Inr (off, st)))"
    by (rule ok_run_bind[OF align_up_served[OF s base_holds[OF h]]]) (auto simp: placed_def intro: exI[of _ "kern st"])
  then show ?thesis using False by (simp add: aligned_offset_def)
qed

lemma rw_offset_served:
  assumes s: "c_memalign s = (if r_oflags q AND O_DIRECT \<noteq> 0 then dmem else 1)" and h: "holds e n st"
  shows "ok_run (\<lambda>(off, st'). placed (r_oflags q) s off st st') (rw_offset K q s st)"
proof -
  obtain off st1 where r: "(if r_uflags q AND F_WORD_ALIGNED = 0 then random_bump K st else (0, st)) = (off, st1)"
    by (metis prod.exhaust)
  have "0 \<le> off \<and> off \<le> 7 \<and> (\<exists>k. st1 = st\<lparr>kern := k\<rparr> \<and> quiet (kern st) k)"
    using r random_bump_served by (auto split: if_splits intro: exI[of _ "kern st"])
  then obtain k where off: "0 \<le> off" "off \<le> 7" and st1: "st1 = st\<lparr>kern := k\<rparr>" "quiet (kern st) k" by blast
  have "0 < base_addr st1 + off" using base_holds[OF h] off st1 by simp
  note a = align_up_served[OF s this]
  show ?thesis
    unfolding rw_offset_def r prod.case
    by (rule ok_run_bind[OF a]) (use off st1 in \<open>auto simp: placed_def algebra_simps\<close>)
qed

lemma fill_buffer_served:
  assumes e: "env_ok e" and r: "ready e n fd f fl p c st" and n: "0 \<le> off" "0 \<le> nbytes" "off + nbytes \<le> n"
  shows "ok_run (\<lambda>st'. ready e n fd f fl p c st' \<and> cache st' = cache st \<and> kern st' = kern st \<and> base_addr st' = base_addr st
      \<and> get_bytes off nbytes st' = Inr (pattern_fill e (nat nbytes) p 0)) (fill_buffer e off nbytes st)"
proof -
  define bs where "bs = pattern_fill e (nat nbytes) p 0"
  have len: "int (length bs) = nbytes" using e n by (simp add: bs_def env_ok_def)
  have "0 + int (length bs) \<le> n" using len n by linarith
  from ready_put[OF r _ this] obtain st1 where st1: "put_bytes 0 bs st = Inr st1" "ready e n fd f fl p c st1"
    "cache st1 = cache st" "kern st1 = kern st" "base_addr st1 = base_addr st" "get_bytes 0 nbytes st1 = Inr bs"
    using len by auto
  have pat: "Pattern st = p" using r by (simp add: ready_def)
  show ?thesis
  proof (cases "off = 0")
    case True
    then show ?thesis using st1 n pat by (simp add: fill_buffer_def bs_def)
  next
    case False
    have "off + int (length bs) \<le> n" using len n by linarith
    from ready_put[OF st1(2) n(1) this] obtain st2 where "put_bytes off bs st1 = Inr st2" "ready e n fd f fl p c st2"
      "cache st2 = cache st1" "kern st2 = kern st1" "base_addr st2 = base_addr st1" "get_bytes off nbytes st2 = Inr bs"
      using len by auto
    then show ?thesis using False st1 n pat by (simp add: fill_buffer_def bs_def[symmetric])
  qed
qed

section \<open>Locks, the log and the check\<close>

lemma lock_if_served:
  "ready e n fd f fl p c st \<Longrightarrow> ok_run (\<lambda>st'. ready e n fd f fl p c st' \<and> (\<exists>k. st' = st\<lparr>kern := k\<rparr> \<and> quiet (kern st) k))
     (lock_if b K x u start m st)"
proof -
  assume r: "ready e n fd f fl p c st"
  obtain ok k where l: "d_lock K x u start m (kern st) = (ok, k)" by (metis prod.exhaust)
  then have "ok" "quiet (kern st) k" using locks[OF l] by (simp_all add: quiet_def)
  then show ?thesis
    using r l ready_quiet[OF r, of k] by (auto simp: lock_if_def lock_file_region_def intro: exI[of _ "kern st"])
qed

lemma log_write_served:
  assumes r: "ready e n fd f fl p c st" and l: "log_write b K wrec st = (place, st')"
  shows "ready e n fd f fl p c st' \<and> (\<exists>k. st' = st\<lparr>kern := k\<rparr> \<and> quiet (kern st) k)"
proof -
  obtain w k where w: "d_wlog K wrec (-1) (kern st) = (w, k)" by (metis prod.exhaust)
  then have "quiet (kern st) k" using wlogs[OF w] by (simp add: quiet_def)
  then show ?thesis using r l w ready_quiet[OF r, of k] by (auto simp: log_write_def split: if_splits intro: exI[of _ "kern st"])
qed

lemma log_done_served: "ready e n fd f fl p c st \<Longrightarrow> ready e n fd f fl p c (log_done K wrec place st)"
proof (cases place)
  case (Some i)
  assume r: "ready e n fd f fl p c st"
  obtain w k where w: "d_wlog K (wrec\<lparr>w_done := True\<rparr>) i (kern st) = (w, k)" by (metis prod.exhaust)
  then have "quiet (kern st) k" using wlogs[OF w] by (simp add: quiet_def)
  then show ?thesis using r w Some ready_quiet[OF r, of k] by (simp add: log_done_def)
qed (simp add: log_done_def)

lemma check_file_served:
  assumes e: "env_served e" and r: "ready e n fd f fl p c st" and b: "c f = Some b" and w: "within b off len" "len \<le> n"
    and name: "length f \<le> MAX_FNAME_LENGTH" and written: "slice b off len = pattern_fill e (nat len) p 0"
  shows "ok_run (\<lambda>(msg, st'). msg = None \<and> ready e n fd f fl p c st') (check_file K e f off len st)"
proof -
  define flags where "flags = (if V_opt e then Validation_Flags e OR O_RDONLY else O_RDONLY)"
  have fl: "plain_flags flags" "reads flags" "flags AND O_DIRECT = 0"
    using e by (auto simp: flags_def env_served_def env_ok_def plain_flags_def reads_def)
  have e': "env_ok e" "dio_env e = None" using e by (simp_all add: env_served_def)
  have s: "served e st" "content (kern st) f \<noteq> None" using r b by (simp_all add: ready_def)
  show ?thesis
    unfolding check_file_def flags_def[symmetric] Let_def
  proof (rule ok_run_bind[OF alloc_fd_served[OF e' s fl(1) name]], clarify, goal_cases)
    case (1 fd1 st1 slot)
    have r1: "ready e n fd f fl p c st1" using ready_same[OF r 1(1-3)] 1(4) by simp
    obtain ok k2 where l: "d_lseek K fd1 off (kern st1) = (ok, k2)" by (metis prod.exhaust)
    have "fdfile (kern st1) fd1 \<noteq> None" "0 \<le> off" using 1(5) w by (simp_all add: within_def)
    note l' = lseeks[OF this l]
    have q2: "quiet (kern st1) k2" using l' by (simp add: quiet_def)
    define st2 where "st2 = st1\<lparr>kern := k2\<rparr>"
    have r2: "ready e n fd f fl p c st2" using ready_quiet[OF r1 q2] by (simp add: st2_def)
    then have s2: "served e st2" by (simp add: ready_def)
    have found: "first_slot (slot_for f flags) (cache st2) \<noteq> None" using 1(7) by (simp add: st2_def)
    have main: "ok_run (\<lambda>(msg, st'). msg = None \<and> ready e n fd f fl p c st')
       (on_ok (alloc_fdcache K e f flags st2) (\<lambda>(i, st3).
          on_ok (align_up flags (cache st3 ! i) (base_addr st3)) (\<lambda>off'.
            case d_read K fd1 (base_addr st3 + off') len (kern st3) of ((nb, bs), k4) \<Rightarrow>
              if nb = -1 then if c_memalign (cache st3 ! i) = 0 then Inl Fault else Inr (Some Could_not_read, st3\<lparr>kern := k4\<rparr>)
              else on_ok (put_bytes off' bs (st3\<lparr>kern := k4\<rparr>)) (\<lambda>st5.
                     if nb \<noteq> len then Inr (Some (Wrong_bytes nb), st5)
                     else on_ok (get_bytes off' len st5) (\<lambda>buf. Inr (map_option Comparison (doio_pat_check e buf off (Pattern st5) 0), st5))))))"
    proof (rule ok_run_bind[OF alloc_fdcache_hit[OF s2 found]], clarify, goal_cases)
      case c3: (1 i st3)
      have r3: "ready e n fd f fl p c st3" using ready_same[OF r2 c3(1,2)] c3(4) by simp
      have k3: "kern st3 = k2" using c3(4) by (simp add: st2_def)
      have fd1: "fdfile k2 fd1 = Some (f, flags)" "content k2 f = Some b" "pos k2 fd1 = off"
        using 1(5) q2 l' r2 b by (simp_all add: quiet_def ready_def st2_def)
      obtain nb bs k4 where rd: "d_read K fd1 (base_addr st3) len k2 = ((nb, bs), k4)" by (metis prod.exhaust)
      have got: "nb = len" "bs = slice b off len" "quiet k2 k4"
        using reads_file[OF fd1(1) fl(2) fd1(2) _ _ rd] w fd1(3) fl(3) by (simp_all add: dio_ok_def quiet_def)
      have r4: "ready e n fd f fl p c (st3\<lparr>kern := k4\<rparr>)" using ready_quiet[OF r3] got(3) k3 by simp
      have len: "int (length bs) = len" "0 \<le> len" using got(2) length_slice[OF w(1)] w(1) by (simp_all add: within_def)
      have "0 + int (length bs) \<le> n" using len w by simp
      from ready_put[OF r4 _ this] obtain st5 where st5: "put_bytes 0 bs (st3\<lparr>kern := k4\<rparr>) = Inr st5" "ready e n fd f fl p c st5"
        "get_bytes 0 len st5 = Inr bs"
        using len(1) by auto
      have "doio_pat_check e bs off (Pattern st5) 0 = None"
        using got(2) written e st5(2) by (simp add: doio_pat_check_def ready_def env_served_def)
      moreover have "nb \<noteq> -1" using got(1) len(2) by simp
      ultimately show ?case
        using rd st5 got(1) by (simp add: align_up_plain[OF fl(3)] k3)
    qed
    show ?case using main l l' 1(6) by (simp add: st2_def)
  qed
qed

lemma verify_if_served:
  assumes "env_served e" and "ready e n fd f fl p c st"
    and "v \<Longrightarrow> \<exists>b. c f = Some b \<and> within b off len \<and> slice b off len = pattern_fill e (nat len) p 0" and "len \<le> n"
    and "length f \<le> MAX_FNAME_LENGTH"
  shows "ok_run (ready e n fd f fl p c) (verify_if v K e f off len st)"
proof (cases v)
  case True
  then obtain b where b: "c f = Some b" "within b off len" "slice b off len = pattern_fill e (nat len) p 0" using assms(3) by blast
  show ?thesis
    unfolding verify_if_def
    using True by (auto intro!: ok_run_bind[OF check_file_served[OF assms(1,2) b(1,2) assms(4,5) b(3)]])
qed (use assms(2) in \<open>simp add: verify_if_def\<close>)

lemma lock_rw_served:
  "ready e n fd f fl p c st \<Longrightarrow> ok_run (\<lambda>st'. ready e n fd f fl p c st' \<and> (\<exists>k. st' = st\<lparr>kern := k\<rparr> \<and> quiet (kern st) k))
     (lock_rw b K e q x m st)"
proof -
  assume r: "ready e n fd f fl p c st"
  obtain ok k where l: "d_lock K x False (r_offset q) m (kern st) = (ok, k)" by (metis prod.exhaust)
  then have "ok" "quiet (kern st) k" using locks[OF l] by (simp_all add: quiet_def)
  then show ?thesis
    using r l ready_quiet[OF r, of k] by (auto simp: lock_rw_def intro: exI[of _ "kern st"])
qed

lemma verify_rw_served:
  assumes "env_served e" and "ready e n fd (r_file q) fl p c st"
    and "v \<Longrightarrow> \<exists>b. c (r_file q) = Some b \<and> within b (r_offset q) len \<and> slice b (r_offset q) len = pattern_fill e (nat len) p 0" and "len \<le> n"
    and "length (r_file q) \<le> MAX_FNAME_LENGTH"
  shows "ok_run (ready e n fd (r_file q) fl p c) (verify_rw v K e q x len st)"
proof (cases v)
  case True
  then obtain b where b: "c (r_file q) = Some b" "within b (r_offset q) len" "slice b (r_offset q) len = pattern_fill e (nat len) p 0"
    using assms(3) by blast
  show ?thesis
    unfolding verify_rw_def
    using True by (auto intro!: ok_run_bind[OF check_file_served[OF assms(1,2) b(1,2) assms(4,5) b(3)]])
qed (use assms(2) in \<open>simp add: verify_rw_def\<close>)

end

end
