(* ===== verification/Doio_Transfers.thy ===== *)
theory Doio_Transfers
  imports Doio_Served
begin

text \<open>
  The transfers of \<open>doio\<close> on files that behave.
\<close>

section \<open>Requests that fit\<close>

text \<open>
  The flags a type of request needs. A request that reads through mapped memory has a descriptor that only
  reads: with one for both, a later write finds the memory mapped for reading.
\<close>

definition right_flags :: "rtype \<Rightarrow> int \<Rightarrow> bool" where
  "right_flags t fl \<longleftrightarrow>
     (if t \<in> {READ, PREAD, READV} then reads fl
      else if t = MMAPR then fl AND 3 = O_RDONLY
      else if t \<in> {WRITE, PWRITE, WRITEV, RESVSP, UNRESVSP} then writes fl
      else if t = MMAPW then fl AND 3 = O_RDWR
      else t = FSYNC2 \<or> t = FDATASYNC)"

definition fits_file :: "int \<Rightarrow> io_req \<Rightarrow> byte list \<Rightarrow> bool" where
  "fits_file m q b \<longleftrightarrow> within b (r_offset q) (r_nbytes q) \<and> b \<noteq> [] \<and> int (length b) < 2147483648
     \<and> (r_oflags q AND O_DIRECT = 0 \<or> m dvd r_offset q \<and> m dvd r_nbytes q)"

definition fits_files :: "int \<Rightarrow> (string \<Rightarrow> byte list option) \<Rightarrow> io_req \<Rightarrow> bool" where
  "fits_files m c q \<longleftrightarrow> right_flags (r_type q) (r_oflags q) \<and> plain_flags (r_oflags q) \<and> length (r_file q) \<le> MAX_FNAME_LENGTH
     \<and> r_nbytes q < 2 ^ 30 \<and> r_nstrides q = 1 \<and> r_nent q = 1
     \<and> (r_type q \<in> {READ, WRITE} \<longrightarrow> r_oflags q AND O_DIRECT = 0 \<or> r_uflags q AND F_WORD_ALIGNED \<noteq> 0)
     \<and> (case c (r_file q) of None \<Rightarrow> False | Some b \<Rightarrow> fits_file m q b)"

text \<open>The bytes of a request that writes, and what the files hold after a request.\<close>

definition request_bytes :: "doio_env \<Rightarrow> byte list \<Rightarrow> io_req \<Rightarrow> byte list" where
  "request_bytes e p q = pattern_fill e (nat (r_nbytes q)) (p[0 := word_of_int (r_pattern q)]) 0"

definition after_request :: "doio_env \<Rightarrow> byte list \<Rightarrow> io_req \<Rightarrow> (string \<Rightarrow> byte list option) \<Rightarrow> string \<Rightarrow> byte list option" where
  "after_request e p q c =
     (case c (r_file q) of
        None \<Rightarrow> c
      | Some b \<Rightarrow>
          if r_type q \<in> {WRITE, PWRITE, WRITEV, MMAPW} then c(r_file q \<mapsto> overwrite b (r_offset q) (request_bytes e p q))
          else if r_type q = UNRESVSP then c(r_file q \<mapsto> overwrite b (r_offset q) (replicate (nat (r_nbytes q)) 0))
          else c)"

fun after_requests :: "doio_env \<Rightarrow> byte list \<Rightarrow> io_req list \<Rightarrow> (string \<Rightarrow> byte list option) \<Rightarrow> string \<Rightarrow> byte list option" where
  "after_requests e p [] c = c"
| "after_requests e p (q # qs) c = after_requests e p qs (after_request e p q c)"

lemma fits_filesD:
  assumes "fits_files m c q"
  obtains b where "c (r_file q) = Some b" "fits_file m q b" "within b (r_offset q) (r_nbytes q)" "0 \<le> r_nbytes q" "0 \<le> r_offset q"
  using assms by (auto simp: fits_files_def fits_file_def within_def split: option.splits)

section \<open>Transfers\<close>

context files_kernel
begin

text \<open>A request with its descriptor, its place in the buffer and the file it fits.\<close>

definition at_request :: "doio_env \<Rightarrow> io_req \<Rightarrow> int \<Rightarrow> int \<Rightarrow> int \<Rightarrow> byte list \<Rightarrow> (string \<Rightarrow> byte list option) \<Rightarrow> byte list \<Rightarrow> 'k doio_state \<Rightarrow> bool" where
  "at_request e q n fd off p c b st \<longleftrightarrow> ready e n fd (r_file q) (r_oflags q) p c st \<and> c (r_file q) = Some b \<and> fits_file dmini q b
     \<and> 0 \<le> off \<and> off + r_nbytes q \<le> n \<and> (r_oflags q AND O_DIRECT = 0 \<or> dmem dvd base_addr st + off)"

lemma at_requestD:
  assumes "at_request e q n fd off p c b st"
  shows "ready e n fd (r_file q) (r_oflags q) p c st" "content (kern st) (r_file q) = Some b"
    "fdfile (kern st) fd = Some (r_file q, r_oflags q)" "within b (r_offset q) (r_nbytes q)"
    "dio_ok dmem dmini (r_oflags q) (base_addr st + off) (r_offset q) (r_nbytes q)" "0 \<le> r_nbytes q" "0 \<le> r_offset q"
  using assms by (auto simp: at_request_def ready_def fits_file_def within_def dio_ok_def)

lemma at_request_quiet: "at_request e q n fd off p c b st \<Longrightarrow> quiet (kern st) k \<Longrightarrow> at_request e q n fd off p c b (st\<lparr>kern := k\<rparr>)"
  using ready_quiet by (simp add: at_request_def)

lemma at_request_seek:
  assumes "at_request e q n fd off p c b st" and l: "d_lseek K fd (r_offset q) (kern st) = (ok, k)"
  shows "ok \<and> at_request e q n fd off p c b (st\<lparr>kern := k\<rparr>) \<and> pos k fd = r_offset q \<and> quiet (kern st) k"
proof -
  note at = at_requestD[OF assms(1)]
  have "ok \<and> pos k fd = r_offset q \<and> quiet (kern st) k" using lseeks[OF _ at(7) l] at(3) by (simp add: quiet_def)
  then show ?thesis using at_request_quiet[OF assms(1)] by blast
qed

text \<open>What was read goes to the buffer.\<close>

lemma at_request_put:
  assumes at: "at_request e q n fd off p c b st" and "bs = slice b (r_offset q) (r_nbytes q)"
  shows "\<exists>st'. put_bytes off bs st = Inr st' \<and> ready e n fd (r_file q) (r_oflags q) p c st'"
proof -
  have "off + int (length bs) \<le> n" "0 \<le> off"
    using length_slice[OF at_requestD(4)[OF at]] assms by (simp_all add: at_request_def)
  then show ?thesis using ready_put[OF at_requestD(1)[OF at]] by blast
qed

definition did_read :: "doio_env \<Rightarrow> io_req \<Rightarrow> int \<Rightarrow> int \<Rightarrow> byte list \<Rightarrow> (string \<Rightarrow> byte list option) \<Rightarrow> int \<times> 'k doio_state \<Rightarrow> bool" where
  "did_read e q n fd p c = (\<lambda>(rc, st'). rc = r_nbytes q \<and> ready e n fd (r_file q) (r_oflags q) p c st')"

lemma sy_pread_served:
  assumes at: "at_request e q n fd off p c b st" and "reads (r_oflags q)"
  shows "ok_run (did_read e q n fd p c) (sy_pread K q fd off st)"
proof -
  note a = at_requestD[OF at]
  obtain rc bs k where r: "d_pread K fd (base_addr st + off) (r_nbytes q) (r_offset q) (kern st) = ((rc, bs), k)" by (metis prod.exhaust)
  have d: "rc = r_nbytes q" "bs = slice b (r_offset q) (r_nbytes q)" "quiet (kern st) k"
    using preads_file[OF a(3) assms(2) a(2,4,5) r] by (simp_all add: quiet_def)
  from at_request_put[OF at_request_quiet[OF at d(3)] d(2)] show ?thesis
    using r d(1) a(6) by (auto simp: sy_pread_def did_read_def)
qed

lemma sy_readv_served:
  assumes at: "at_request e q n fd off p c b st" and "reads (r_oflags q)"
  shows "ok_run (did_read e q n fd p c) (sy_rwv False K q fd off st)"
proof -
  obtain ok k1 where l: "d_lseek K fd (r_offset q) (kern st) = (ok, k1)" by (metis prod.exhaust)
  note s = at_request_seek[OF at l]
  then have at1: "at_request e q n fd off p c b (st\<lparr>kern := k1\<rparr>)" by blast
  note a = at_requestD[OF at1]
  obtain rc bs k where r: "d_readv K fd (base_addr st + off) (r_nbytes q) k1 = ((rc, bs), k)" by (metis prod.exhaust)
  have d: "rc = r_nbytes q" "bs = slice b (r_offset q) (r_nbytes q)" "quiet k1 k"
    using readvs_file[OF _ assms(2) _ _ _ r] a s by (simp_all add: quiet_def)
  from at_request_put[OF at_request_quiet[OF at1, of k] d(2)] show ?thesis
    using r l s d a(6) by (auto simp: sy_rwv_def did_read_def)
qed

text \<open>A read of \<open>do_read\<close>.\<close>

lemma read_served:
  assumes at: "at_request e q n fd off p c b st" and "reads (r_oflags q)" and l: "d_lseek K fd (r_offset q) (kern st) = (ok, k1)"
    and r: "d_read K fd (base_addr st + off) (r_nbytes q) k1 = ((rc, bs), k)"
  shows "ok \<and> rc = r_nbytes q \<and> rc \<noteq> -1 \<and>
    (\<exists>st'. put_bytes off bs (st\<lparr>kern := k\<rparr>) = Inr st' \<and> ready e n fd (r_file q) (r_oflags q) p c st')"
proof -
  note s = at_request_seek[OF at l]
  then have at1: "at_request e q n fd off p c b (st\<lparr>kern := k1\<rparr>)" by blast
  note a = at_requestD[OF at1]
  have d: "rc = r_nbytes q" "bs = slice b (r_offset q) (r_nbytes q)" "quiet k1 k"
    using reads_file[OF _ assms(2) _ _ _ r] a s by (simp_all add: quiet_def)
  from at_request_put[OF at_request_quiet[OF at1, of k] d(2)] show ?thesis
    using s d a(6) by auto
qed

text \<open>A write: the bytes of the buffer are those of the file afterwards.\<close>

definition did_write :: "doio_env \<Rightarrow> io_req \<Rightarrow> int \<Rightarrow> int \<Rightarrow> byte list \<Rightarrow> (string \<Rightarrow> byte list option) \<Rightarrow> byte list \<Rightarrow> byte list \<Rightarrow> int \<times> 'k doio_state \<Rightarrow> bool" where
  "did_write e q n fd p c b bs =
     (\<lambda>(rc, st'). rc = r_nbytes q \<and> ready e n fd (r_file q) (r_oflags q) p (c(r_file q \<mapsto> overwrite b (r_offset q) bs)) st')"

definition from_buffer :: "io_req \<Rightarrow> int \<Rightarrow> byte list \<Rightarrow> 'k doio_state \<Rightarrow> bool" where
  "from_buffer q off bs st \<longleftrightarrow> get_bytes off (r_nbytes q) st = Inr bs \<and> int (length bs) = r_nbytes q"

lemma from_buffer_kern [simp]: "from_buffer q off bs (st\<lparr>kern := k\<rparr>) = from_buffer q off bs st"
  by (simp add: from_buffer_def)

lemma at_request_write:
  assumes at: "at_request e q n fd off p c b st" and fb: "from_buffer q off bs st"
    and k: "content k = (content (kern st))(r_file q \<mapsto> overwrite b (r_offset q) bs)" "fdfile k = fdfile (kern st)" "mapped k = mapped (kern st)"
  shows "did_write e q n fd p c b bs (r_nbytes q, st\<lparr>kern := k\<rparr>)"
  using ready_write[OF at_requestD(1)[OF at], of b "r_offset q" bs k] at_requestD(4)[OF at] at fb k
  by (simp add: did_write_def from_buffer_def at_request_def)

lemma sy_pwrite_served:
  assumes at: "at_request e q n fd off p c b st" and "writes (r_oflags q)" and fb: "from_buffer q off bs st"
  shows "ok_run (did_write e q n fd p c b bs) (sy_pwrite K q fd off st)"
proof -
  note a = at_requestD[OF at]
  obtain rc k where r: "d_pwrite K fd (base_addr st + off) bs (r_offset q) (kern st) = (rc, k)" by (metis prod.exhaust)
  have len: "int (length bs) = r_nbytes q" using fb by (simp add: from_buffer_def)
  note d = pwrites_file[OF a(3) assms(2) a(2) _ _ r, unfolded len, OF a(4,5)]
  then show ?thesis using at_request_write[OF at fb, of k] r fb by (simp add: sy_pwrite_def from_buffer_def)
qed

lemma sy_writev_served:
  assumes at: "at_request e q n fd off p c b st" and "writes (r_oflags q)" and fb: "from_buffer q off bs st"
  shows "ok_run (did_write e q n fd p c b bs) (sy_rwv True K q fd off st)"
proof -
  obtain ok k1 where l: "d_lseek K fd (r_offset q) (kern st) = (ok, k1)" by (metis prod.exhaust)
  note s = at_request_seek[OF at l]
  then have at1: "at_request e q n fd off p c b (st\<lparr>kern := k1\<rparr>)" by blast
  note a = at_requestD[OF at1]
  obtain rc k where r: "d_writev K fd (base_addr st + off) bs k1 = (rc, k)" by (metis prod.exhaust)
  have len: "int (length bs) = r_nbytes q" using fb by (simp add: from_buffer_def)
  have d: "rc = r_nbytes q" "content k = (content k1)(r_file q \<mapsto> overwrite b (r_offset q) bs)" "fdfile k = fdfile k1" "mapped k = mapped k1"
    using writevs_file[OF _ assms(2) _ _ _ r] a s by (simp_all add: len)
  then show ?thesis using at_request_write[OF at1, of bs k] r l s fb by (simp add: sy_rwv_def from_buffer_def)
qed

lemma write_at_served:
  assumes at: "at_request e q n fd off p c b st" and w: "writes (r_oflags q)" "r_type q = WRITE" and fb: "from_buffer q off bs st"
  shows "ok_run (\<lambda>(w, st'). w = Some (r_nbytes q) \<and> did_write e q n fd p c b bs (r_nbytes q, st')) (write_at K q fd s off st)"
proof -
  obtain ok k1 where l: "d_lseek K fd (r_offset q) (kern st) = (ok, k1)" by (metis prod.exhaust)
  note s = at_request_seek[OF at l]
  then have at1: "at_request e q n fd off p c b (st\<lparr>kern := k1\<rparr>)" by blast
  note a = at_requestD[OF at1]
  obtain rc k where r: "d_write K fd (base_addr st + off) bs k1 = (rc, k)" by (metis prod.exhaust)
  have len: "int (length bs) = r_nbytes q" using fb by (simp add: from_buffer_def)
  have d: "rc = r_nbytes q" "content k = (content k1)(r_file q \<mapsto> overwrite b (r_offset q) bs)" "fdfile k = fdfile k1" "mapped k = mapped k1"
    using writes_file[OF _ w(1) _ _ _ r] a s by (simp_all add: len)
  then show ?thesis using at_request_write[OF at1, of bs k] r l s fb w(2) a(6) by (simp add: write_at_def from_buffer_def)
qed

section \<open>Mapped memory\<close>

lemma map_slot_served:
  assumes sv: "served e st" and i: "slot_at f fl i st" and fd: "fdfile (kern st) fd = Some (f, fl)"
    and b: "content (kern st) f = Some b" "b \<noteq> []" "int (length b) < 2147483648" and rw: "if rw then fl AND 3 = O_RDWR else fl AND 3 = O_RDONLY"
    and m: "map_slot rw K fd i st = (ok, st')"
  shows "ok \<and> served e st' \<and> same_mem st st' \<and> content (kern st') = content (kern st) \<and> fdfile (kern st') = fdfile (kern st)
    \<and> mapped (kern st') (c_memaddr (cache st' ! i)) = Some (f, int (length b), rw)"
proof (cases "c_memaddr (cache st ! i) = 0")
  case False
  then have "ok" "st' = st" using m by (simp_all add: map_slot_def)
  moreover have "(fl AND 3 = O_RDWR) = rw" using rw by (auto split: if_splits)
  ultimately show ?thesis using slot_atD(4)[OF i sv False] sv b(1) by simp
next
  case True
  obtain sz k1 where f1: "d_fstat K fd (kern st) = (sz, k1)" by (metis prod.exhaust)
  note sz = fstats[OF fd b(1) f1]
  obtain a' k2 where f2: "d_map_file K rw (int (length b)) fd k1 = (a', k2)" by (metis prod.exhaust)
  have "reads fl" "rw \<longrightarrow> writes fl" using rw by (auto simp: reads_def writes_def split: if_splits)
  moreover have "0 < int (length b)" using b(2) by simp
  ultimately obtain a where a: "a' = Some a" "a \<noteq> 0" "mapped k1 a = None" "mapped k2 = (mapped k1)(a \<mapsto> (f, int (length b), rw))"
    "fdfile k2 = fdfile k1" "content k2 = content k1"
    using maps_file[OF _ _ _ _ _ refl f2] sz fd b(1) by auto
  define s where "s = (cache st ! i)\<lparr>c_memlen := int (length b), c_memaddr := a\<rparr>"
  have st': "ok" "st' = st\<lparr>cache := (cache st)[i := s], kern := k2\<rparr>"
    using m True f1 f2 sz a(1) b(3) by (auto simp: map_slot_def s32_id s_def)
  have ii: "i < length (cache st)" using i by (simp add: slot_at_def)
  have sl: "slot_ok (cache st ! i)" "slot_served (kern st) (cache st ! i)" "c_file (cache st ! i) = f" "c_oflags (cache st ! i) = fl"
    using sv i by (auto simp: served_def state_ok_def list_all_length slot_at_def slot_for_def)
  have keep: "slot_served k2 x" if "slot_served (kern st) x" for x
    using that a sz by (auto simp: slot_served_def)
  have "slot_served k2 s"
    using sl a sz b(1) rw by (auto simp: slot_served_def s_def split: if_splits)
  moreover have "list_all (slot_served k2) (cache st)" using sv keep by (auto simp: served_def list_all_iff)
  moreover have "slot_ok s" using sl(1) by (simp add: slot_ok_def s_def)
  ultimately have "served e st'"
    using sv st'(2) by (simp add: served_def state_ok_def list_all_update)
  then show ?thesis using st' a sz ii by (simp add: s_def)
qed

text \<open>The descriptor of the request is there, so its slot is too; the mapping is made if there is none yet.\<close>

lemma mapped_request:
  assumes e: "env_served e" and at: "at_request e q n fd off p c b st" and fl: "plain_flags (r_oflags q)"
    and name: "length (r_file q) \<le> MAX_FNAME_LENGTH"
    and rw: "if rw then r_oflags q AND 3 = O_RDWR else r_oflags q AND 3 = O_RDONLY"
  shows "ok_run (\<lambda>(i, st1). \<forall>ok st2. map_slot rw K fd i st1 = (ok, st2) \<longrightarrow> ok \<and> same_mem st st2
      \<and> ready e n fd (r_file q) (r_oflags q) p c st2 \<and> mapped (kern st2) (c_memaddr (cache st2 ! i)) = Some (r_file q, int (length b), rw))
    (alloc_fdcache K e (r_file q) (r_oflags q) st)"
proof -
  note a = at_requestD[OF at]
  have e': "env_ok e" "dio_env e = None" using e by (simp_all add: env_served_def)
  have s: "served e st" "content (kern st) (r_file q) \<noteq> None" using a(1,2) by (simp_all add: ready_def)
  have b: "b \<noteq> []" "int (length b) < 2147483648" using at by (simp_all add: at_request_def fits_file_def)
  show ?thesis
  proof (rule ok_run_mono[OF alloc_fdcache_served[OF e' s fl name]], clarify, goal_cases)
    case (1 i st1 ok st2)
    have r1: "ready e n fd (r_file q) (r_oflags q) p c st1" using ready_same[OF a(1) 1(1,2,4,5)] .
    then have s1: "fdfile (kern st1) fd = Some (r_file q, r_oflags q)" "content (kern st1) (r_file q) = Some b"
      using a(2) 1(4) by (simp_all add: ready_def)
    have m: "ok \<and> served e st2 \<and> same_mem st1 st2 \<and> content (kern st2) = content (kern st1) \<and> fdfile (kern st2) = fdfile (kern st1)
        \<and> mapped (kern st2) (c_memaddr (cache st2 ! i)) = Some (r_file q, int (length b), rw)"
      by (rule map_slot_served[OF 1(1,3) s1 b rw 1(6)])
    then show ?case using ready_same[OF r1, of st2] same_mem_trans[OF 1(2), of st2] by simp
  qed
qed

lemma sy_mmread_served:
  assumes e: "env_served e" and at: "at_request e q n fd off p c b st" and fl: "plain_flags (r_oflags q)"
    and name: "length (r_file q) \<le> MAX_FNAME_LENGTH" and rd: "r_oflags q AND 3 = O_RDONLY"
  shows "ok_run (did_read e q n fd p c) (sy_mmrw False K e q fd off st)"
proof -
  have rw: "if False then r_oflags q AND 3 = O_RDWR else r_oflags q AND 3 = O_RDONLY" using rd by simp
  note a = at_requestD[OF at]
  show ?thesis
    unfolding sy_mmrw_def
  proof (rule ok_run_bind[OF mapped_request[OF e at fl name rw]], clarify, goal_cases)
    case (1 i st1)
    obtain ok st2 where m: "map_slot False K fd i st1 = (ok, st2)" by (metis prod.exhaust)
    have s2: "ok" "ready e n fd (r_file q) (r_oflags q) p c st2"
      "mapped (kern st2) (c_memaddr (cache st2 ! i)) = Some (r_file q, int (length b), False)" using 1 m by blast+
    obtain got k3 where l: "d_load K (c_memaddr (cache st2 ! i) + r_offset q) (r_nbytes q) (kern st2) = (got, k3)" by (metis prod.exhaust)
    have cb: "content (kern st2) (r_file q) = Some b" using s2(2) at by (simp add: ready_def at_request_def)
    have got: "got = Touched (slice b (r_offset q) (r_nbytes q))" "quiet (kern st2) k3"
      using loads_file[OF s2(3) cb refl a(4) l] by (simp_all add: quiet_def)
    have "off + int (length (slice b (r_offset q) (r_nbytes q))) \<le> n" "0 \<le> off"
      using length_slice[OF a(4)] at by (simp_all add: at_request_def)
    from ready_put[OF ready_quiet[OF s2(2) got(2)] this(2,1)] show ?case
      using m s2(1) l got(1) by (auto simp: touch_def did_read_def)
  qed
qed

lemma sy_mmwrite_served:
  assumes e: "env_served e" and at: "at_request e q n fd off p c b st" and fl: "plain_flags (r_oflags q)"
    and name: "length (r_file q) \<le> MAX_FNAME_LENGTH" and wr: "r_oflags q AND 3 = O_RDWR" and fb: "from_buffer q off bs st"
  shows "ok_run (did_write e q n fd p c b bs) (sy_mmrw True K e q fd off st)"
proof -
  have rw: "if True then r_oflags q AND 3 = O_RDWR else r_oflags q AND 3 = O_RDONLY" using wr by simp
  note a = at_requestD[OF at]
  show ?thesis
    unfolding sy_mmrw_def
  proof (rule ok_run_bind[OF mapped_request[OF e at fl name rw]], clarify, goal_cases)
    case (1 i st1)
    obtain ok st2 where m: "map_slot True K fd i st1 = (ok, st2)" by (metis prod.exhaust)
    have s2: "ok" "ready e n fd (r_file q) (r_oflags q) p c st2" "same_mem st st2"
      "mapped (kern st2) (c_memaddr (cache st2 ! i)) = Some (r_file q, int (length b), True)" using 1 m by blast+
    have cb: "c (r_file q) = Some b" "content (kern st2) (r_file q) = Some b" using s2(2) at by (simp_all add: ready_def at_request_def)
    have len: "int (length bs) = r_nbytes q" and g: "get_bytes off (r_nbytes q) st2 = Inr bs"
      using fb same_mem_bytes[OF s2(3)] by (simp_all add: from_buffer_def)
    obtain stored k3 where w: "d_store K (c_memaddr (cache st2 ! i) + r_offset q) bs (kern st2) = (stored, k3)" by (metis prod.exhaust)
    have win: "within b (r_offset q) (int (length bs))" using a(4) len by simp
    note st3 = stores_file[OF s2(4) cb(2) refl win w]
    have "ready e n fd (r_file q) (r_oflags q) p (c(r_file q \<mapsto> overwrite b (r_offset q) bs)) (st2\<lparr>kern := k3\<rparr>)"
      using st3 by (intro ready_write[OF s2(2) cb(1) win]) auto
    then show ?case using m s2(1) g w st3 by (simp add: touch_def did_write_def)
  qed
qed

section \<open>Every transfer of \<open>do_rw\<close>\<close>

lemma sy_syscall_served:
  assumes e: "env_served e" and at: "at_request e q n fd off p c b st" and q: "fits_files dmini c q" "sy_known (r_type q)"
    and fb: "sy_write (r_type q) \<longrightarrow> from_buffer q off bs st"
  shows "ok_run (if sy_write (r_type q) then did_write e q n fd p c b bs else did_read e q n fd p c) (sy_syscall K e q fd off st)"
proof -
  have fl: "plain_flags (r_oflags q)" "length (r_file q) \<le> MAX_FNAME_LENGTH" "right_flags (r_type q) (r_oflags q)"
    using q(1) by (simp_all add: fits_files_def)
  from q(2) consider "r_type q = PREAD" | "r_type q = PWRITE" | "r_type q = READV" | "r_type q = WRITEV" | "r_type q = MMAPR" | "r_type q = MMAPW"
    by (auto simp: sy_known_def)
  then show ?thesis
    using fl(3) fb sy_pread_served[OF at] sy_readv_served[OF at] sy_pwrite_served[OF at] sy_writev_served[OF at]
      sy_mmread_served[OF e at fl(1,2)] sy_mmwrite_served[OF e at fl(1,2)]
    by cases (simp_all add: sy_syscall_def sy_write_def right_flags_def)
qed

end

end
