(* ===== verification/Doio_Run.thy ===== *)
theory Doio_Run
  imports Doio_Transfers
begin

text \<open>
  The requests of \<open>doio\<close> one after the other, on files that behave.
\<close>

context files_kernel
begin

text \<open>The checks and the release of a lock that follow a transfer.\<close>

lemma finish_served:
  assumes e: "env_served e" and r: "ready e n fd f fl p c st" and "off + len \<le> n" "0 \<le> off"
    and "v \<Longrightarrow> \<exists>b. c f = Some b \<and> within b start len \<and> slice b start len = pattern_fill e (nat len) p 0"
    and "length f \<le> MAX_FNAME_LENGTH"
  shows "ok_run (\<lambda>(x, st'). x = rval \<and> ready e n fd f fl p c st')
    (on_ok (verify_if v K e f start len st) (\<lambda>st7.
     on_ok (lock_if u K fd True start m (log_done K wrec place st7)) (\<lambda>st8. Inr (rval, st8))))"
proof (rule ok_run_bind[OF verify_if_served[OF e r assms(5) _ assms(6)]], goal_cases)
  case 2
  then show ?case using assms(3,4) by linarith
next
  case (3 st7)
  from lock_if_served[OF log_done_served[OF 3]] show ?case by (rule ok_run_bind) simp
qed

text \<open>A request has a place in the buffer once the slot, the descriptor and the memory are there.\<close>

lemma placed_request:
  assumes r: "ready e (r_nbytes q + 16 + c_memalign s) fd (r_file q) (r_oflags q) p c st" and pl: "placed (r_oflags q) s off st st'"
    and q: "c (r_file q) = Some b" "fits_file dmini q b"
  shows "at_request e q (r_nbytes q + 16 + c_memalign s) fd off p c b st'"
proof -
  obtain k where k: "st' = st\<lparr>kern := k\<rparr>" "quiet (kern st) k" using pl by (auto simp: placed_def)
  have "ready e (r_nbytes q + 16 + c_memalign s) fd (r_file q) (r_oflags q) p c st'" using ready_quiet[OF r k(2)] k(1) by simp
  then show ?thesis using pl q by (auto simp: at_request_def placed_def)
qed

definition did_request :: "doio_env \<Rightarrow> io_req \<Rightarrow> 'k doio_state \<Rightarrow> int \<times> 'k doio_state \<Rightarrow> bool" where
  "did_request e q st = (\<lambda>(r, st'). r = 0 \<and> served e st' \<and> (\<forall>x. (Pattern st')[0 := x] = (Pattern st)[0 := x])
     \<and> content (kern st') = after_request e (Pattern st) q (content (kern st)))"

lemma do_read_served:
  assumes e: "env_served e" and sv: "served e st" and q: "fits_files dmini (content (kern st)) q" "r_type q = READ"
  shows "ok_run (did_request e q st) (do_read K e q st)"
proof -
  define c where "c = content (kern st)"
  obtain b where b: "c (r_file q) = Some b" "fits_file dmini q b" "0 \<le> r_nbytes q" using fits_filesD[OF q(1)] c_def by blast
  have e': "env_ok e" "dio_env e = None" using e by (simp_all add: env_served_def)
  have qq: "plain_flags (r_oflags q)" "length (r_file q) \<le> MAX_FNAME_LENGTH" "r_nbytes q < 2 ^ 30" "reads (r_oflags q)"
    "r_oflags q AND O_DIRECT = 0 \<or> r_uflags q AND F_WORD_ALIGNED \<noteq> 0"
    using q by (auto simp: fits_files_def right_flags_def)
  have there: "content (kern st) (r_file q) \<noteq> None" using b(1) c_def by simp
  have same: "after_request e (Pattern st) q c = c" using b(1) q(2) by (simp add: after_request_def)
  show ?thesis
    unfolding do_read_def
  proof (rule ok_run_bind[OF prepare_served[OF e' sv there qq(1,2) b(3) qq(3)]], clarify, goal_cases)
    case (1 r fd i st1)
    define s where "s = cache st1 ! i"
    have r1: "ready e (r_nbytes q + 16 + c_memalign s) fd (r_file q) (r_oflags q) (Pattern st) c st1" using 1(2) by (simp add: s_def c_def)
    have sv1: "served e st1" and h1: "holds e (r_nbytes q + 16 + c_memalign s) st1" using r1 by (simp_all add: ready_def)
    have al: "c_memalign s = (if r_oflags q AND O_DIRECT \<noteq> 0 then dmem else 1)" using slot_atD(3)[OF 1(1) sv1] by (simp add: s_def)
    have main: "ok_run (did_request e q st) (on_ok (aligned_offset K q s st1) (\<lambda>(off, st2).
        if r_type q \<noteq> READ then Inr (0, st2)
        else (case d_lseek K fd (r_offset q) (kern st2) of (ok, k3) \<Rightarrow>
              if \<not> ok then Inr (-1, st2\<lparr>kern := k3\<rparr>)
              else (case d_read K fd (base_addr st2 + off) (r_nbytes q) k3 of ((rval, bs), k4) \<Rightarrow>
                   if rval = -1 then Inr (-1, st2\<lparr>kern := k4\<rparr>)
                   else on_ok (put_bytes off bs (st2\<lparr>kern := k4\<rparr>)) (\<lambda>st5. Inr (if rval \<noteq> r_nbytes q then -1 else 0, st5))))))"
    proof (rule ok_run_bind[OF aligned_offset_served[OF al h1 qq(5)]], clarify, goal_cases)
      case c2: (1 off st2)
      note at = placed_request[OF r1 c2 b(1,2)]
      obtain ok k3 where l: "d_lseek K fd (r_offset q) (kern st2) = (ok, k3)" by (metis prod.exhaust)
      obtain rc bs k4 where rd: "d_read K fd (base_addr st2 + off) (r_nbytes q) k3 = ((rc, bs), k4)" by (metis prod.exhaust)
      from read_served[OF at qq(4) l rd] show ?case
        using l rd q(2) same by (auto simp: did_request_def ready_def c_def[symmetric])
    qed
    show ?case using main by (simp add: s_def)
  qed
qed

lemma do_write_served:
  assumes e: "env_served e" and sv: "served e st" and q: "fits_files dmini (content (kern st)) q" "r_type q = WRITE"
  shows "ok_run (did_request e q st) (do_write K e q st)"
proof -
  define c where "c = content (kern st)"
  define p where "p = (Pattern st)[0 := word_of_int (r_pattern q)]"
  obtain b where b: "c (r_file q) = Some b" "fits_file dmini q b" "0 \<le> r_nbytes q" using fits_filesD[OF q(1)] c_def by blast
  have e': "env_ok e" "dio_env e = None" using e by (simp_all add: env_served_def)
  have qq: "plain_flags (r_oflags q)" "length (r_file q) \<le> MAX_FNAME_LENGTH" "r_nbytes q < 2 ^ 30" "writes (r_oflags q)"
    "r_oflags q AND O_DIRECT = 0 \<or> r_uflags q AND F_WORD_ALIGNED \<noteq> 0"
    using q by (auto simp: fits_files_def right_flags_def)
  define bs where "bs = pattern_fill e (nat (r_nbytes q)) p 0"
  have len: "int (length bs) = r_nbytes q" using e' b(3) by (simp add: bs_def env_ok_def)
  have win: "within b (r_offset q) (int (length bs))" using b(2) len by (simp add: fits_file_def)
  define c' where "c' = c(r_file q \<mapsto> overwrite b (r_offset q) bs)"
  have after: "after_request e (Pattern st) q c = c'"
    using b(1) q(2) by (simp add: after_request_def request_bytes_def c'_def bs_def p_def)
  have check: "\<exists>b'. c' (r_file q) = Some b' \<and> within b' (r_offset q) (r_nbytes q)
      \<and> slice b' (r_offset q) (r_nbytes q) = pattern_fill e (nat (r_nbytes q)) p 0"
    using slice_overwrite[OF win] length_overwrite[OF win] win len by (simp add: c'_def within_def bs_def)
  define st0 where "st0 = st\<lparr>Pattern := p\<rparr>"
  have sv0: "served e st0" and there: "content (kern st0) (r_file q) \<noteq> None" using sv b(1) by (simp_all add: served_def c_def st0_def)
  show ?thesis
    unfolding do_write_def Let_def p_def[symmetric] st0_def[symmetric]
  proof (rule ok_run_bind[OF prepare_served[OF e' sv0 there qq(1,2) b(3) qq(3)]], clarify, goal_cases)
    case (1 r fd i st1)
    define s where "s = cache st1 ! i"
    define n where "n = r_nbytes q + 16 + c_memalign s"
    have r1: "ready e n fd (r_file q) (r_oflags q) p c st1" using 1(2) by (simp add: s_def c_def n_def st0_def)
    have sv1: "served e st1" and h1: "holds e n st1" using r1 by (simp_all add: ready_def)
    have al: "c_memalign s = (if r_oflags q AND O_DIRECT \<noteq> 0 then dmem else 1)" using slot_atD(3)[OF 1(1) sv1] by (simp add: s_def)
    have main: "ok_run (did_request e q st) (on_ok (aligned_offset K q s st1) (\<lambda>(off, st2).
        on_ok (fill_buffer e off (r_nbytes q) st2) (\<lambda>st3.
        on_ok (lock_if (k_opt e) K fd False (r_offset q) (r_nbytes q) st3) (\<lambda>st4.
          case log_write (w_opt e) K (write_record e (r_type q = WRITEA) (r_file q) (r_oflags q) (r_offset q) (r_nbytes q) st4) st4 of (place, st5) \<Rightarrow>
            on_ok (write_at K q fd (cache st5 ! i) off st5) (\<lambda>(w, st6).
              case w of
                None \<Rightarrow> Inr (-1, st6)
              | Some rval \<Rightarrow>
                  on_ok (verify_if (v_opt e) K e (r_file q) (r_offset q) (r_nbytes q) st6) (\<lambda>st7.
                  on_ok (lock_if (k_opt e) K fd True (r_offset q) (r_nbytes q)
                    (log_done K (write_record e (r_type q = WRITEA) (r_file q) (r_oflags q) (r_offset q) (r_nbytes q) st4) place st7)) (\<lambda>st8.
                    Inr (if rval = -1 then -1 else 0, st8))))))))"
    proof (rule ok_run_bind[OF aligned_offset_served[OF al h1 qq(5)]], clarify, goal_cases)
      case c2: (1 off st2)
      have at2: "at_request e q n fd off p c b st2" using placed_request[OF r1[unfolded n_def] c2 b(1,2)] by (simp add: n_def)
      have off: "0 \<le> off" "off + r_nbytes q \<le> n" using at2 by (simp_all add: at_request_def)
      show ?case
      proof (rule ok_run_bind[OF fill_buffer_served[OF e'(1) at_requestD(1)[OF at2] off(1) b(3) off(2)]], clarify, goal_cases)
        case c3: (1 st3)
        have at3: "at_request e q n fd off p c b st3" using at2 c3(1,4) by (simp add: at_request_def)
        have fb3: "from_buffer q off bs st3" using c3(5) len by (simp add: from_buffer_def bs_def)
        show ?case
        proof (rule ok_run_bind[OF lock_if_served[OF c3(1)]], clarify, goal_cases)
          case c4: (1 st4 k4)
          define wrec where "wrec = write_record e (r_type q = WRITEA) (r_file q) (r_oflags q) (r_offset q) (r_nbytes q) (st3\<lparr>kern := k4\<rparr>)"
          obtain place st5 where lg: "log_write (w_opt e) K wrec (st3\<lparr>kern := k4\<rparr>) = (place, st5)" by (metis prod.exhaust)
          obtain k5 where st5: "st5 = st3\<lparr>kern := k5\<rparr>" "quiet k4 k5" using log_write_served[OF c4(1) lg] by auto
          have q5: "quiet (kern st3) k5" using kernel_quiet_trans[OF c4(2) st5(2)] .
          have at5: "at_request e q n fd off p c b st5" using at_request_quiet[OF at3 q5] st5(1) by simp
          have fb5: "from_buffer q off bs st5" using fb3 st5(1) by simp
          show ?case
            unfolding wrec_def[symmetric] lg prod.case
          proof (rule ok_run_bind[OF write_at_served[OF at5 qq(4) q(2) fb5]], clarify, goal_cases)
            case c6: (1 w st6)
            then have r6: "ready e n fd (r_file q) (r_oflags q) p c' st6" by (simp add: did_write_def c'_def)
            have rv: "(if r_nbytes q = -1 then -1 else 0) = (0::int)" using b(3) by simp
            show ?case
              unfolding option.case rv
              by (rule ok_run_mono[OF finish_served[OF e r6 off(2,1) check qq(2)]])
                (use after in \<open>auto simp: did_request_def ready_def c_def[symmetric] p_def\<close>)
          qed
        qed
      qed
    qed
    show ?case using main by (simp add: s_def)
  qed
qed

text \<open>A transfer of \<open>do_rw\<close>, from the buffer that is ready to the release of the lock.\<close>

lemma transfer_served:
  assumes e: "env_served e" and at: "at_request e q n fd off p c b st" and q: "fits_files dmini c q" "sy_known (r_type q)"
    and fb: "sy_write (r_type q) \<longrightarrow> from_buffer q off bs st" and bs: "bs = pattern_fill e (nat (r_nbytes q)) p 0"
    and c': "c' = (if sy_write (r_type q) then c(r_file q \<mapsto> overwrite b (r_offset q) bs) else c)"
  shows "ok_run (\<lambda>(x, st'). x = 0 \<and> ready e n fd (r_file q) (r_oflags q) p c' st')
    (on_ok (sy_syscall K e q fd off st) (\<lambda>(rc, st').
       let rval = (if rc = -1 \<or> rc \<noteq> r_nbytes q then -1 else 0 :: int) in
       on_ok (if rval = -1 then rw_report K e q fd st' else Inr st') (\<lambda>st6.
       on_ok (verify_rw (rval = 0 \<and> sy_write (r_type q) \<and> v_opt e) K e q fd (r_nbytes q) st6) (\<lambda>st7.
       on_ok (lock_if u K fd True (r_offset q) m (log_done K wrec place st7)) (\<lambda>st8. Inr (rval, st8))))))"
proof (rule ok_run_bind[OF sy_syscall_served[OF e at q fb]], clarify, goal_cases)
  case (1 rc st6)
  note a = at_requestD[OF at]
  have len: "int (length bs) = r_nbytes q" using e a(6) by (simp add: bs env_served_def env_ok_def)
  have r: "rc = r_nbytes q" "ready e n fd (r_file q) (r_oflags q) p c' st6"
    using 1 by (auto simp: c' did_write_def did_read_def split: if_splits)
  have win: "within b (r_offset q) (int (length bs))" using a(4) len by simp
  have check: "\<exists>b'. c' (r_file q) = Some b' \<and> within b' (r_offset q) (r_nbytes q)
      \<and> slice b' (r_offset q) (r_nbytes q) = pattern_fill e (nat (r_nbytes q)) p 0" if "(0::int) = 0 \<and> sy_write (r_type q) \<and> v_opt e"
    using that slice_overwrite[OF win] length_overwrite[OF win] win len by (simp add: c' within_def bs)
  have rv: "(if rc = -1 \<or> rc \<noteq> r_nbytes q then -1 else 0) = (0::int)" using r(1) a(6) by simp
  have off: "off + r_nbytes q \<le> n" "0 \<le> off" using at by (simp_all add: at_request_def)
  have name: "length (r_file q) \<le> MAX_FNAME_LENGTH" using q(1) by (simp add: fits_files_def)
  show ?case
    unfolding rv Let_def
  proof (simp, rule ok_run_bind[OF verify_rw_served[OF e r(2) _ _ name]], goal_cases)
    case 1
    then show ?case using check by simp
  next
    case 2
    then show ?case using off by linarith
  next
    case (3 st7)
    from lock_if_served[OF log_done_served[OF 3]] show ?case by (rule ok_run_bind) simp
  qed
qed

lemma do_rw_served:
  assumes e: "env_served e" and sv: "served e st" and q: "fits_files dmini (content (kern st)) q" "sy_known (r_type q)"
  shows "ok_run (did_request e q st) (do_rw K e q st)"
proof -
  define c where "c = content (kern st)"
  define p where "p = (Pattern st)[0 := word_of_int (r_pattern q)]"
  obtain b where b: "c (r_file q) = Some b" "fits_file dmini q b" "0 \<le> r_nbytes q" using fits_filesD[OF q(1)] c_def by blast
  have e': "env_ok e" "dio_env e = None" using e by (simp_all add: env_served_def)
  have qq: "plain_flags (r_oflags q)" "length (r_file q) \<le> MAX_FNAME_LENGTH" "r_nbytes q < 2 ^ 30" "r_nent q = 1"
    using q by (auto simp: fits_files_def)
  have whole: "s32 (r_nbytes q * r_nstrides q * r_nent q) = r_nbytes q"
    using q(1) b(3) by (simp add: fits_files_def s32_id)
  have there: "content (kern st) (r_file q) \<noteq> None" using b(1) c_def by simp
  define bs where "bs = pattern_fill e (nat (r_nbytes q)) p 0"
  have len: "int (length bs) = r_nbytes q" using e' b(3) by (simp add: bs_def env_ok_def)
  define c' where "c' = (if sy_write (r_type q) then c(r_file q \<mapsto> overwrite b (r_offset q) bs) else c)"
  have after: "after_request e (Pattern st) q c = c'"
    using b(1) q(2) by (auto simp: after_request_def request_bytes_def c'_def bs_def p_def sy_write_def sy_known_def)
  have in_table: "\<not> (256 \<le> r_nent q \<or> \<not> sy_known (r_type q))" using qq(4) q(2) by simp
  show ?thesis
    unfolding do_rw_def Let_def whole
  proof (subst if_not_P[OF in_table], rule ok_run_bind[OF prepare_served[OF e' sv there qq(1,2) b(3) qq(3)]], clarify, goal_cases)
    case (1 r fd i st0)
    define st1 where "st1 = st0\<lparr>Pattern := p\<rparr>"
    define s where "s = cache st1 ! i"
    define n where "n = r_nbytes q + 16 + c_memalign s"
    have p0: "(Pattern st0)[0 := word_of_int (r_pattern q)] = p" using 1(2) by (simp add: ready_def p_def)
    have r1: "ready e n fd (r_file q) (r_oflags q) p c st1"
      using ready_pattern[OF 1(2), of p] by (simp add: s_def c_def n_def st1_def)
    have h1: "holds e n st1" using r1 by (simp add: ready_def)
    have "served e st0" using 1(2) by (simp add: ready_def)
    then have al: "c_memalign s = (if r_oflags q AND O_DIRECT \<noteq> 0 then dmem else 1)" using slot_atD(3)[OF 1(1)] by (simp add: s_def st1_def)
    have main: "ok_run (did_request e q st) (on_ok (rw_offset K q s st1) (\<lambda>(off, st2).
        on_ok (if sy_write (r_type q) then fill_buffer e off (r_nbytes q) st2 else Inr st2) (\<lambda>st3.
        on_ok (lock_rw (sy_write (r_type q) \<and> k_opt e) K e q fd (s32 (r_nbytes q + 1)) st3) (\<lambda>st4.
          case log_write (sy_write (r_type q) \<and> w_opt e) K (write_record e False (r_file q) (r_oflags q) (r_offset q) (r_nbytes q) st4) st4 of (place, st5) \<Rightarrow>
            on_ok (sy_syscall K e q fd off st5) (\<lambda>(rc, st').
            on_ok (if (if rc = -1 \<or> rc \<noteq> r_nbytes q then -1 else 0::int) = -1 then rw_report K e q fd st' else Inr st') (\<lambda>st6.
            on_ok (verify_rw ((if rc = -1 \<or> rc \<noteq> r_nbytes q then -1 else 0::int) = 0 \<and> sy_write (r_type q) \<and> v_opt e) K e q fd (r_nbytes q) st6) (\<lambda>st7.
            on_ok (lock_if (sy_write (r_type q) \<and> k_opt e) K fd True (r_offset q) (s32 (r_nbytes q + 1))
                (log_done K (write_record e False (r_file q) (r_oflags q) (r_offset q) (r_nbytes q) st4) place st7)) (\<lambda>st8.
              Inr (if rc = -1 \<or> rc \<noteq> r_nbytes q then -1 else 0, st8)))))))))"
    proof (rule ok_run_bind[OF rw_offset_served[OF al h1]], clarify, goal_cases)
      case c2: (1 off st2)
      have at2: "at_request e q n fd off p c b st2" using placed_request[OF r1[unfolded n_def] c2 b(1,2)] by (simp add: n_def)
      have off: "0 \<le> off" "off + r_nbytes q \<le> n" using at2 by (simp_all add: at_request_def)
      have fill: "ok_run (\<lambda>st'. at_request e q n fd off p c b st' \<and> (sy_write (r_type q) \<longrightarrow> from_buffer q off bs st'))
          (if sy_write (r_type q) then fill_buffer e off (r_nbytes q) st2 else Inr st2)"
        using at2 len ok_run_mono[OF fill_buffer_served[OF e'(1) at_requestD(1)[OF at2] off(1) b(3) off(2)],
            of "\<lambda>st'. at_request e q n fd off p c b st' \<and> (sy_write (r_type q) \<longrightarrow> from_buffer q off bs st')"]
        by (auto simp: at_request_def from_buffer_def bs_def)
      show ?case
      proof (rule ok_run_bind[OF fill], goal_cases)
        case c3: (1 st3)
        then have at3: "at_request e q n fd off p c b st3" and fb3: "sy_write (r_type q) \<longrightarrow> from_buffer q off bs st3" by simp_all
        show ?case
        proof (rule ok_run_bind[OF lock_rw_served[OF at_requestD(1)[OF at3]]], clarify, goal_cases)
          case c4: (1 st4 k4)
          define wrec where "wrec = write_record e False (r_file q) (r_oflags q) (r_offset q) (r_nbytes q) (st3\<lparr>kern := k4\<rparr>)"
          obtain place st5 where lg: "log_write (sy_write (r_type q) \<and> w_opt e) K wrec (st3\<lparr>kern := k4\<rparr>) = (place, st5)" by (metis prod.exhaust)
          obtain k5 where st5: "st5 = st3\<lparr>kern := k5\<rparr>" "quiet k4 k5" using log_write_served[OF c4(1) lg] by auto
          have q5: "quiet (kern st3) k5" using kernel_quiet_trans[OF c4(2) st5(2)] .
          have at5: "at_request e q n fd off p c b st5" using at_request_quiet[OF at3 q5] st5(1) by simp
          have fb5: "sy_write (r_type q) \<longrightarrow> from_buffer q off bs st5" using fb3 st5(1) by simp
          show ?case
            unfolding wrec_def[symmetric] lg prod.case
            by (rule ok_run_mono[OF transfer_served[OF e at5 _ q(2) fb5 bs_def c'_def, unfolded Let_def]])
              (use after q(1) in \<open>auto simp: did_request_def ready_def c_def[symmetric] p_def\<close>)
        qed
      qed
    qed
    show ?case using main 1(2) by (simp add: s_def p0 st1_def)
  qed
qed

lemma zeroed_within: "within b off n \<Longrightarrow> within b off (int (length (replicate (nat n) (0::byte))))"
  by (simp add: within_def)

lemma do_xfsctl_served:
  assumes e: "env_served e" and sv: "served e st" and q: "fits_files dmini (content (kern st)) q" "r_type q = RESVSP \<or> r_type q = UNRESVSP"
  shows "ok_run (did_request e q st) (do_xfsctl K e q st)"
proof -
  define c where "c = content (kern st)"
  obtain b where b: "c (r_file q) = Some b" "within b (r_offset q) (r_nbytes q)" using fits_filesD[OF q(1)] c_def by blast
  have e': "env_ok e" "dio_env e = None" using e by (simp_all add: env_served_def)
  have qq: "plain_flags (r_oflags q)" "length (r_file q) \<le> MAX_FNAME_LENGTH" "writes (r_oflags q)"
    using q by (auto simp: fits_files_def right_flags_def)
  have there: "content (kern st) (r_file q) \<noteq> None" using b(1) c_def by simp
  show ?thesis
    unfolding do_xfsctl_def
  proof (rule ok_run_bind[OF alloc_fd_served[OF e' sv there qq(1,2)]], clarify, goal_cases)
    case (1 fd st1 slot)
    have r1: "served e st1 \<and> content (kern st1) = c \<and> fdfile (kern st1) fd = Some (r_file q, r_oflags q) \<and> Pattern st1 = Pattern st"
      using 1 by (simp add: c_def same_mem_def)
    have lock: "ok_run (\<lambda>st'. \<exists>k. st' = st0\<lparr>kern := k\<rparr> \<and> quiet (kern st0) k) (lock_if u K fd un start m st0)" for u un start m st0
    proof -
      obtain ok k where l: "d_lock K fd un start m (kern st0) = (ok, k)" by (metis prod.exhaust)
      then show ?thesis using locks[OF l]
        by (auto simp: lock_if_def lock_file_region_def quiet_def intro: exI[of _ "kern st0"])
    qed
    have main: "ok_run (did_request e q st) (on_ok (lock_if (k_opt e) K fd False (r_offset q) (s32 (r_nbytes q + 1)) st1) (\<lambda>st2.
         case d_xfsctl K (r_file q) fd (r_type q = RESVSP) (r_offset q) (r_nbytes q) (kern st2) of (rval, k3) \<Rightarrow>
           on_ok (lock_if (k_opt e) K fd True (r_offset q) (s32 (r_nbytes q + 1)) (st2\<lparr>kern := k3\<rparr>)) (\<lambda>st4.
             Inr (if rval = -1 then -1 else 0, st4))))"
    proof (rule ok_run_bind[OF lock], clarify, goal_cases)
      case c2: (1 st2 k)
      have k: "fdfile k fd = Some (r_file q, r_oflags q)" "content k (r_file q) = Some b" "content k = c"
        using r1 c2 b(1) by (simp_all add: quiet_def)
      have sv2: "served e (st1\<lparr>kern := k\<rparr>)" using r1 served_quiet[OF _ c2] by blast
      obtain rval k3 where x: "d_xfsctl K (r_file q) fd (r_type q = RESVSP) (r_offset q) (r_nbytes q) k = (rval, k3)" by (metis prod.exhaust)
      have x3: "rval \<noteq> -1 \<and> same_shape k k3 \<and> content k3 = after_request e (Pattern st) q c"
      proof (cases "r_type q = RESVSP")
        case True
        then show ?thesis using reserves[OF k(1) qq(3) k(2) b(2), of rval k3] x k(3) b(1)
          by (simp add: quiet_shape quiet_def after_request_def)
      next
        case False
        then have u: "d_xfsctl K (r_file q) fd False (r_offset q) (r_nbytes q) k = (rval, k3)" "r_type q = UNRESVSP" using x q(2) by simp_all
        note un = unreserves[OF k(1) qq(3) k(2) b(2) u(1)]
        have "same_shape k k3" using overwrite_shape[OF k(2) zeroed_within[OF b(2)]] un by simp
        then show ?thesis using un u(2) b(1) k(3) by (simp add: after_request_def)
      qed
      have sv3: "served e (st1\<lparr>kern := k3\<rparr>)" using served_shape[OF sv2, of k3] x3 by simp
      have "ok_run (did_request e q st) (on_ok (lock_if (k_opt e) K fd True (r_offset q) (s32 (r_nbytes q + 1)) (st1\<lparr>kern := k3\<rparr>)) (\<lambda>st4.
             Inr (if rval = -1 then -1 else 0, st4)))"
      proof (rule ok_run_bind[OF lock], clarify, goal_cases)
        case c4: (1 st4 k4)
        have "served e (st1\<lparr>kern := k4\<rparr>)" using served_quiet[OF sv3, of k4] c4 by simp
        then show ?case using x3 r1 c4 by (simp add: did_request_def quiet_def c_def[symmetric])
      qed
      then show ?case using x by simp
    qed
    show ?case using main 1(6) by simp
  qed
qed

lemma do_sync_served:
  assumes e: "env_served e" and sv: "served e st" and q: "fits_files dmini (content (kern st)) q" "r_type q = FSYNC2 \<or> r_type q = FDATASYNC"
  shows "ok_run (did_request e q st) (do_sync K e q st)"
proof -
  define c where "c = content (kern st)"
  obtain b where b: "c (r_file q) = Some b" using fits_filesD[OF q(1)] c_def by blast
  have e': "env_ok e" "dio_env e = None" using e by (simp_all add: env_served_def)
  have qq: "plain_flags (r_oflags q)" "length (r_file q) \<le> MAX_FNAME_LENGTH" using q by (auto simp: fits_files_def)
  have there: "content (kern st) (r_file q) \<noteq> None" using b(1) c_def by simp
  have same: "after_request e (Pattern st) q c = c" using b(1) q(2) by (auto simp: after_request_def)
  show ?thesis
    unfolding do_sync_def
  proof (rule ok_run_bind[OF alloc_fd_served[OF e' sv there qq]], clarify, goal_cases)
    case (1 fd st1 slot)
    obtain rval k2 where r: "(if r_type q = FSYNC2 then d_fsync K fd (kern st1)
        else if r_type q = FDATASYNC then d_fdatasync K fd (kern st1) else (-1, kern st1)) = (rval, k2)" by (metis prod.exhaust)
    have "rval \<noteq> -1 \<and> quiet (kern st1) k2"
    proof (cases "r_type q = FSYNC2")
      case True
      then show ?thesis using r fsyncs[of "kern st1" fd rval k2] 1(5) by (simp add: quiet_def)
    next
      case False
      then show ?thesis using r q(2) fdatasyncs[of "kern st1" fd rval k2] 1(5) by (simp add: quiet_def)
    qed
    then show ?case
      using r 1 served_quiet[OF 1(1), of k2] same by (simp add: did_request_def quiet_def same_mem_def c_def[symmetric])
  qed
qed

section \<open>The loop\<close>

lemma do_request_served:
  assumes e: "env_served e" and sv: "served e st" and q: "fits_files dmini (content (kern st)) q"
  shows "ok_run (\<lambda>(v, st'). v = Some 0 \<and> did_request e q st (0, st')) (do_request K e q st)"
proof -
  have some: "ok_run (did_request e q st) r \<Longrightarrow>
      ok_run (\<lambda>(v, st'). v = Some 0 \<and> did_request e q st (0, st')) (on_ok r (\<lambda>(v, st1). Inr (Some v, st1)))" for r
    by (erule ok_run_bind) (auto simp: did_request_def)
  have "right_flags (r_type q) (r_oflags q)" using q by (simp add: fits_files_def)
  then consider "r_type q = READ" | "r_type q = WRITE" | "sy_known (r_type q)" | "r_type q = RESVSP \<or> r_type q = UNRESVSP"
    | "r_type q = FSYNC2 \<or> r_type q = FDATASYNC"
    by (auto simp: right_flags_def sy_known_def split: if_splits)
  then show ?thesis
  proof cases
    case 1
    then show ?thesis using some[OF do_read_served[OF e sv q 1]] by (simp add: do_request_def)
  next
    case 2
    then show ?thesis using some[OF do_write_served[OF e sv q 2]] by (simp add: do_request_def)
  next
    case 3
    then show ?thesis using some[OF do_rw_served[OF e sv q 3]] by (auto simp: do_request_def sy_known_def)
  next
    case 4
    then show ?thesis using some[OF do_xfsctl_served[OF e sv q 4]] by (auto simp: do_request_def)
  next
    case 5
    then show ?thesis using some[OF do_sync_served[OF e sv q 5]] by (auto simp: do_request_def)
  qed
qed

lemma doio_step_served:
  assumes e: "env_served e" and sv: "served e st" and q: "fits_files dmini (content (kern st)) q" "r_magic q = DOIO_MAGIC"
  shows "ok_run (\<lambda>st'. did_request e q st (0, st')) (doio_step K e (Got q) st)"
proof -
  have "before_request K e (Got q) st = Inr (q, st)"
    using e q(2) parent_lives by (simp add: before_request_def env_served_def)
  then show ?thesis
    unfolding doio_step_def
    by (simp, intro ok_run_bind[OF do_request_served[OF e sv q(1)]]) (auto simp: did_request_def served_def state_ok_def)
qed

text \<open>A request that fits still fits after another one has been done.\<close>

lemma after_request_length:
  assumes e: "env_ok e" and q: "fits_files m c q"
  shows "map_option length (after_request e p q c f) = map_option length (c f)"
proof -
  obtain b where b: "c (r_file q) = Some b" "within b (r_offset q) (r_nbytes q)" "0 \<le> r_nbytes q" using fits_filesD[OF q] by blast
  have "within b (r_offset q) (int (length (request_bytes e p q)))" using e b(2,3) by (simp add: request_bytes_def env_ok_def)
  then show ?thesis
    using b length_overwrite[of b "r_offset q" "request_bytes e p q"] length_overwrite[OF zeroed_within[OF b(2)]]
    by (auto simp: after_request_def)
qed

lemma fits_files_cong:
  assumes "map_option length (c' (r_file q)) = map_option length (c (r_file q))"
  shows "fits_files m c' q = fits_files m c q"
proof (cases "c (r_file q)")
  case None
  then have "c' (r_file q) = None" using assms by simp
  then show ?thesis using None by (simp add: fits_files_def)
next
  case (Some b)
  then obtain b' where b': "c' (r_file q) = Some b'" "length b' = length b" using assms by auto
  have "b' = [] \<longleftrightarrow> b = []" using b'(2) by (metis length_0_conv)
  then have "fits_file m q b' = fits_file m q b" using b'(2) by (simp add: fits_file_def within_def)
  then show ?thesis using Some b'(1) by (simp add: fits_files_def)
qed

lemma after_request_pattern: "\<forall>x. p'[0 := x] = p[0 := x] \<Longrightarrow> after_request e p' q c = after_request e p q c"
proof -
  assume "\<forall>x. p'[0 := x] = p[0 := x]"
  then have "request_bytes e p' q = request_bytes e p q" unfolding request_bytes_def by metis
  then show ?thesis unfolding after_request_def by (simp only:)
qed

lemma after_requests_pattern: "\<forall>x. p'[0 := x] = p[0 := x] \<Longrightarrow> after_requests e p' qs c = after_requests e p qs c"
proof (induction qs arbitrary: c)
  case (Cons q qs)
  then show ?case using after_request_pattern[OF Cons.prems] by simp
qed simp

lemma free_entries_served:
  "free_entries K ms k = (ms1, k1) \<Longrightarrow> list_all space_ok ms \<Longrightarrow> content k1 = content k"
proof (induction ms arbitrary: k ms1)
  case (Cons m ms)
  obtain m1 k2 where m: "free_entry K m k = (m1, k2)" by (metis prod.exhaust)
  obtain ms2 k3 where ms: "free_entries K ms k2 = (ms2, k3)" by (metis prod.exhaust)
  have "k1 = k3" using Cons.prems(1) m ms by simp
  moreover have "content k2 = content k" using m Cons.prems(2) frees by (auto simp: free_entry_def space_ok_def split: if_splits)
  ultimately show ?case using Cons.IH ms Cons.prems(2) by simp
qed simp

lemma free_mem_served:
  assumes "state_ok e st" shows "content (kern (free_mem K e st)) = content (kern st)"
  using assms free_entries_served[of "take (Nmemalloc e) (Memalloc st)" "kern st"]
  by (auto simp: free_mem_def Let_def state_ok_def split: prod.split)

lemma doio_loop_served:
  assumes e: "env_served e"
  shows "served e st \<Longrightarrow> list_all (\<lambda>q. fits_files dmini (content (kern st)) q \<and> r_magic q = DOIO_MAGIC) qs \<Longrightarrow>
    \<exists>st'. doio_loop K e (map Got qs) st = (Exit 0, length qs, st')
      \<and> content (kern st') = after_requests e (Pattern st) qs (content (kern st))"
proof (induction qs arbitrary: st)
  case Nil
  then show ?case using free_mem_served[of e st] by (simp add: served_def)
next
  case (Cons q qs)
  have q: "fits_files dmini (content (kern st)) q" "r_magic q = DOIO_MAGIC" using Cons.prems(2) by simp_all
  obtain st1 where st1: "doio_step K e (Got q) st = Inr st1" "did_request e q st (0, st1)"
    using ok_runD[OF doio_step_served[OF e Cons.prems(1) q]] by blast
  have c1: "served e st1" "\<forall>x. (Pattern st1)[0 := x] = (Pattern st)[0 := x]"
    "content (kern st1) = after_request e (Pattern st) q (content (kern st))"
    using st1(2) by (simp_all add: did_request_def)
  have "env_ok e" using e by (simp add: env_served_def)
  then have "fits_files dmini (content (kern st1)) q' = fits_files dmini (content (kern st)) q'" for q'
    using fits_files_cong[of "content (kern st1)" q' "content (kern st)"] after_request_length[OF _ q(1), of e "Pattern st" "r_file q'"] c1(3) by simp
  then have "list_all (\<lambda>q. fits_files dmini (content (kern st1)) q \<and> r_magic q = DOIO_MAGIC) qs" using Cons.prems(2) by simp
  from Cons.IH[OF c1(1) this] show ?case
    using st1(1) after_requests_pattern[OF c1(2)] c1(3) by auto
qed

lemma doio_run_served:
  assumes e: "env_served (env_of e q)" and "list_all (\<lambda>m. m_type m = MEM_DATA \<and> m_space m = No_space) (q_mems q)"
    and "length (q_mems q) \<le> 32" and p: "init_pattern fmt e = Inr p"
    and "list_all (\<lambda>q. fits_files dmini (content k) q \<and> r_magic q = DOIO_MAGIC) qs"
  shows "\<exists>st. doio_run K fmt e q (map Got qs) k = (Exit 0, length qs, Some st)
      \<and> content (kern st) = after_requests (env_of e q) p qs (content k)"
proof -
  have "state_ok (env_of e q) (init_state (take 32 (q_mems q @ replicate 32 no_mem)) p k)"
    using assms(2,3) by (auto simp: state_ok_def init_state_def env_of_def space_ok_def list_all_iff dest: in_set_takeD)
  then have "served (env_of e q) (init_state (take 32 (q_mems q @ replicate 32 no_mem)) p k)"
    by (simp add: served_def init_state_def)
  from doio_loop_served[OF e this] show ?thesis using assms(5) p by (fastforce simp: doio_run_def init_state_def)
qed

end

end
