(* ===== verification/Doio_Disk.thy ===== *)
theory Doio_Disk
  imports Doio_Files Iog_Request_Ok
begin

text \<open>
  A kernel with files, descriptors, mappings and a log, on which \<open>doio\<close> can be run: it has the laws of
  \<open>doio_calls\<close> and of \<open>files_kernel\<close>.
\<close>

section \<open>The disk\<close>

text \<open>Descriptors count from 3; mappings lie one after the other.\<close>

record disk =
  dk_files :: "string \<Rightarrow> byte list option"
  dk_fds :: "(string \<times> int \<times> int) option list"
  dk_maps :: "(string \<times> int \<times> bool) list"
  dk_log :: "wlog_rec list"
  dk_seed :: int

definition empty_disk :: disk where
  "empty_disk = \<lparr>dk_files = (\<lambda>_. None), dk_fds = [], dk_maps = [], dk_log = [], dk_seed = 1\<rparr>"

definition dk_fd :: "disk \<Rightarrow> int \<Rightarrow> (string \<times> int \<times> int) option" where
  "dk_fd d fd = (if 3 \<le> fd \<and> nat (fd - 3) < length (dk_fds d) then dk_fds d ! nat (fd - 3) else None)"

definition dk_fdfile :: "disk \<Rightarrow> int \<Rightarrow> (string \<times> int) option" where
  "dk_fdfile d fd = map_option (\<lambda>(f, fl, p). (f, fl)) (dk_fd d fd)"

definition dk_pos :: "disk \<Rightarrow> int \<Rightarrow> int" where
  "dk_pos d fd = (case dk_fd d fd of None \<Rightarrow> 0 | Some (_, _, p) \<Rightarrow> p)"

definition dk_open :: "string \<Rightarrow> int \<Rightarrow> disk \<Rightarrow> (int \<times> bool) \<times> disk" where
  "dk_open f fl d =
     (if dk_files d f = None \<and> fl AND O_CREAT = 0 \<or> dk_files d f \<noteq> None \<and> fl AND O_EXCL \<noteq> 0 then ((-1, False), d)
      else
        ((3 + int (length (dk_fds d)), False),
         d\<lparr>dk_files := (if dk_files d f = None \<or> fl AND O_TRUNC \<noteq> 0 then (dk_files d)(f \<mapsto> []) else dk_files d),
           dk_fds := dk_fds d @ [Some (f, fl, 0)]\<rparr>))"

definition dk_seek :: "int \<Rightarrow> int \<Rightarrow> disk \<Rightarrow> bool \<times> disk" where
  "dk_seek fd off d =
     (case dk_fd d fd of
        None \<Rightarrow> (False, d)
      | Some (f, fl, _) \<Rightarrow>
          if off < 0 then (False, d) else (True, d\<lparr>dk_fds := (dk_fds d)[nat (fd - 3) := Some (f, fl, off)]\<rparr>))"

text \<open>The bytes of a file at an offset, and bytes written there; a gap reads as zero.\<close>

definition dk_get :: "int \<Rightarrow> int \<Rightarrow> int \<Rightarrow> int \<Rightarrow> disk \<Rightarrow> int \<times> byte list" where
  "dk_get fd a off n d =
     (case dk_fd d fd of
        None \<Rightarrow> (-1, [])
      | Some (f, fl, _) \<Rightarrow>
          (case dk_files d f of
             None \<Rightarrow> (-1, [])
           | Some b \<Rightarrow>
               if reads fl \<and> dio_ok 512 512 fl a off n \<and> 0 \<le> off \<and> 0 \<le> n
               then (int (length (slice b off n)), slice b off n) else (-1, [])))"

definition dk_put :: "int \<Rightarrow> int \<Rightarrow> int \<Rightarrow> byte list \<Rightarrow> disk \<Rightarrow> int \<times> disk" where
  "dk_put fd a off bs d =
     (case dk_fd d fd of
        None \<Rightarrow> (-1, d)
      | Some (f, fl, _) \<Rightarrow>
          (case dk_files d f of
             None \<Rightarrow> (-1, d)
           | Some b \<Rightarrow>
               if writes fl \<and> dio_ok 512 512 fl a off (int (length bs)) \<and> 0 \<le> off
               then (int (length bs),
                     d\<lparr>dk_files := (dk_files d)(f \<mapsto> overwrite (b @ replicate (nat off - length b) 0) off bs)\<rparr>)
               else (-1, d)))"

definition dk_move :: "int \<Rightarrow> int \<Rightarrow> disk \<Rightarrow> disk" where
  "dk_move fd r d = (if r = -1 then d else snd (dk_seek fd (dk_pos d fd + r) d))"

definition dk_read :: "int \<Rightarrow> int \<Rightarrow> int \<Rightarrow> disk \<Rightarrow> (int \<times> byte list) \<times> disk" where
  "dk_read fd a n d = (let r = dk_get fd a (dk_pos d fd) n d in (r, dk_move fd (fst r) d))"

definition dk_write :: "int \<Rightarrow> int \<Rightarrow> byte list \<Rightarrow> disk \<Rightarrow> int \<times> disk" where
  "dk_write fd a bs d = (case dk_put fd a (dk_pos d fd) bs d of (r, d1) \<Rightarrow> (r, dk_move fd r d1))"

definition dk_fstat :: "int \<Rightarrow> disk \<Rightarrow> int option" where
  "dk_fstat fd d = (case dk_fd d fd of None \<Rightarrow> None | Some (f, _, _) \<Rightarrow> map_option (\<lambda>b. int (length b)) (dk_files d f))"

text \<open>The mapping an address lies in, with the distance from its start.\<close>

fun find_map :: "(string \<times> int \<times> bool) list \<Rightarrow> int \<Rightarrow> int \<Rightarrow> (string \<times> int \<times> int \<times> bool) option" where
  "find_map [] base a = None"
| "find_map ((f, n, rw) # ms) base a =
     (if base \<le> a \<and> a < base + n then Some (f, a - base, n, rw) else find_map ms (base + max 0 n) a)"

fun end_of_maps :: "(string \<times> int \<times> bool) list \<Rightarrow> int \<Rightarrow> int" where
  "end_of_maps [] base = base"
| "end_of_maps ((f, n, rw) # ms) base = end_of_maps ms (base + max 0 n)"

definition dk_mapped :: "disk \<Rightarrow> int \<Rightarrow> (string \<times> int \<times> bool) option" where
  "dk_mapped d a = (case find_map (dk_maps d) 4096 a of Some (f, off, n, rw) \<Rightarrow> if off = 0 then Some (f, n, rw) else None | None \<Rightarrow> None)"

definition dk_map :: "bool \<Rightarrow> int \<Rightarrow> int \<Rightarrow> disk \<Rightarrow> int option \<times> disk" where
  "dk_map rw n fd d =
     (case dk_fdfile d fd of
        None \<Rightarrow> (None, d)
      | Some (f, fl) \<Rightarrow>
          if n \<le> 0 \<or> \<not> reads fl \<or> rw \<and> \<not> writes fl then (None, d)
          else (Some (end_of_maps (dk_maps d) 4096), d\<lparr>dk_maps := dk_maps d @ [(f, n, rw)]\<rparr>))"

definition dk_load :: "int \<Rightarrow> int \<Rightarrow> disk \<Rightarrow> byte list touched" where
  "dk_load a n d =
     (if n \<le> 0 then Touched []
      else
        (case find_map (dk_maps d) 4096 a of
           None \<Rightarrow> Sigsegv
         | Some (f, off, len, _) \<Rightarrow>
             if len < off + n then Sigsegv
             else (case dk_files d f of None \<Rightarrow> Sigbus | Some b \<Rightarrow> if off + n \<le> int (length b) then Touched (slice b off n) else Sigbus)))"

definition dk_store :: "int \<Rightarrow> byte list \<Rightarrow> disk \<Rightarrow> unit touched \<times> disk" where
  "dk_store a bs d =
     (if bs = [] then (Touched (), d)
      else
        (case find_map (dk_maps d) 4096 a of
           None \<Rightarrow> (Sigsegv, d)
         | Some (f, off, len, rw) \<Rightarrow>
             if \<not> rw \<or> len < off + int (length bs) then (Sigsegv, d)
             else
               (case dk_files d f of
                  None \<Rightarrow> (Sigbus, d)
                | Some b \<Rightarrow>
                    if off + int (length bs) \<le> int (length b)
                    then (Touched (), d\<lparr>dk_files := (dk_files d)(f \<mapsto> overwrite b off bs)\<rparr>) else (Sigbus, d))))"

text \<open>Space is reserved, or taken away from a file: the bytes there read as zero.\<close>

definition dk_space :: "string \<Rightarrow> bool \<Rightarrow> int \<Rightarrow> int \<Rightarrow> disk \<Rightarrow> int \<times> disk" where
  "dk_space f reserve off n d =
     (case dk_files d f of
        None \<Rightarrow> (-1, d)
      | Some b \<Rightarrow>
          if off < 0 \<or> n < 0 then (-1, d)
          else if reserve then (0, d)
          else
            (let m = min n (max 0 (int (length b) - off)) in
             (0, d\<lparr>dk_files := (dk_files d)(f \<mapsto> overwrite b off (replicate (nat m) 0))\<rparr>)))"

definition dk_logs :: "wlog_rec \<Rightarrow> int \<Rightarrow> disk \<Rightarrow> int \<times> disk" where
  "dk_logs w place d =
     (if place = -1 then (int (length (dk_log d)), d\<lparr>dk_log := dk_log d @ [w]\<rparr>)
      else (place, d\<lparr>dk_log := (dk_log d)[nat place := w]\<rparr>))"

definition disk_kernel :: "disk doio_kernel" where
  "disk_kernel =
     \<lparr>d_open = dk_open, d_close = (\<lambda>fd d. d\<lparr>dk_fds := (dk_fds d)[nat (fd - 3) := None]\<rparr>),
      d_dioinfo = (\<lambda>_ _ d. (Some (512, 512, 2147483136), d)), d_lseek = dk_seek, d_read = dk_read, d_write = dk_write,
      d_readv = dk_read, d_writev = dk_write, d_pread = (\<lambda>fd a n off d. (dk_get fd a off n d, d)),
      d_pwrite = (\<lambda>fd a bs off d. dk_put fd a off bs d), d_fstat = (\<lambda>fd d. (dk_fstat fd d, d)), d_map_file = dk_map,
      d_load = (\<lambda>a n d. (dk_load a n d, d)), d_store = dk_store, d_lock = (\<lambda>_ _ _ _ d. (True, d)),
      d_xfsctl = (\<lambda>f _ r off n d. dk_space f r off n d), d_fsync = (\<lambda>fd d. (if dk_fd d fd = None then -1 else 0, d)),
      d_fdatasync = (\<lambda>fd d. (if dk_fd d fd = None then -1 else 0, d)),
      d_malloc = (\<lambda>n d. (Some (65544, replicate (nat n) 0), d)), d_free = (\<lambda>_ d. d), d_map_mem = (\<lambda>_ _ _ _ d. (None, d)),
      d_munmap = (\<lambda>_ _ d. d), d_unlink = (\<lambda>f d. d\<lparr>dk_files := (dk_files d)(f := None)\<rparr>), d_shmget = (\<lambda>_ _ d. (-1, d)),
      d_shmat = (\<lambda>_ d. (None, d)), d_shmdt = (\<lambda>_ d. d), d_shm_rmid = (\<lambda>_ d. d), d_getppid = (\<lambda>_. 2), d_wlog = dk_logs,
      d_random = (\<lambda>lo hi m d. case spread lo hi m (dk_seed d) of (r, s) \<Rightarrow> (r, d\<lparr>dk_seed := s\<rparr>))\<rparr>"

lemmas disk_calls = disk_kernel_def dk_open_def dk_seek_def dk_read_def dk_write_def dk_map_def dk_logs_def

section \<open>Its laws\<close>

lemma slice_length: "0 \<le> n \<Longrightarrow> int (length (slice b off n)) \<le> n"
  by (simp add: slice_def)

lemma dk_get_most: "dk_get fd a off n d = (r, bs) \<Longrightarrow> r \<noteq> -1 \<Longrightarrow> int (length bs) \<le> n \<and> int (length bs) = r"
  using slice_length by (auto simp: dk_get_def split: option.splits prod.splits if_splits)

lemma spread_bump: "spread 0 7 1 k = ((n, err), k') \<Longrightarrow> 0 \<le> n \<and> n \<le> 7"
  using spread_in_range[of 0 7 1 k n err k'] by (fastforce split: if_splits)

interpretation disk_calls: doio_calls disk_kernel
proof (unfold_locales, goal_cases)
  case (1 f fl k fd em k')
  then show ?case by (auto simp: disk_calls split: if_splits)
next
  case (2 f fd k mem mini maxi k')
  then show ?case by (simp add: disk_kernel_def)
next
  case (3 fd a n k r bs k')
  then show ?case using dk_get_most[of fd a "dk_pos k fd" n k r bs] by (simp add: disk_calls Let_def)
next
  case (4 fd a n k r bs k')
  then show ?case using dk_get_most[of fd a "dk_pos k fd" n k r bs] by (simp add: disk_calls Let_def)
next
  case (5 fd a n off k r bs k')
  then show ?case using dk_get_most[of fd a off n k r bs] by (auto simp: disk_kernel_def)
next
  case (6 n k a bs k')
  then show ?case by (auto simp: disk_kernel_def)
next
  case (7 k n err k')
  then show ?case using spread_bump by (auto simp: disk_kernel_def split: prod.splits)
qed

text \<open>What a descriptor and an address stand for after each call.\<close>

lemma dk_fd_some: "dk_fd d fd = Some x \<Longrightarrow> 3 \<le> fd \<and> nat (fd - 3) < length (dk_fds d) \<and> dk_fds d ! nat (fd - 3) = Some x"
  by (simp add: dk_fd_def split: if_splits)

lemma dk_fd_cong [simp]: "dk_fd (d\<lparr>dk_files := x\<rparr>) = dk_fd d" "dk_fd (d\<lparr>dk_maps := y\<rparr>) = dk_fd d"
  "dk_fd (d\<lparr>dk_log := z\<rparr>) = dk_fd d" "dk_fd (d\<lparr>dk_seed := u\<rparr>) = dk_fd d"
  by (simp_all add: dk_fd_def fun_eq_iff)

lemma dk_fdfile_cong [simp]: "dk_fdfile (d\<lparr>dk_files := x\<rparr>) = dk_fdfile d" "dk_fdfile (d\<lparr>dk_maps := y\<rparr>) = dk_fdfile d"
  "dk_fdfile (d\<lparr>dk_log := z\<rparr>) = dk_fdfile d" "dk_fdfile (d\<lparr>dk_seed := u\<rparr>) = dk_fdfile d"
  by (simp_all add: dk_fdfile_def fun_eq_iff)

lemma dk_mapped_cong [simp]: "dk_mapped (d\<lparr>dk_files := x\<rparr>) = dk_mapped d" "dk_mapped (d\<lparr>dk_fds := y\<rparr>) = dk_mapped d"
  "dk_mapped (d\<lparr>dk_log := z\<rparr>) = dk_mapped d" "dk_mapped (d\<lparr>dk_seed := u\<rparr>) = dk_mapped d"
  by (simp_all add: dk_mapped_def fun_eq_iff)

lemma dk_fdfile_some: "dk_fdfile d fd = Some (f, fl) \<longleftrightarrow> (\<exists>p. dk_fd d fd = Some (f, fl, p) \<and> dk_pos d fd = p)"
  by (auto simp: dk_fdfile_def dk_pos_def)

lemma dk_open_new:
  assumes "dk_files d f \<noteq> None" and "plain_flags fl" and "dk_open f fl d = ((fd, em), d')"
  shows "0 \<le> fd \<and> dk_fdfile d fd = None \<and> dk_fdfile d' = (dk_fdfile d)(fd \<mapsto> (f, fl)) \<and> dk_files d' = dk_files d
    \<and> dk_mapped d' = dk_mapped d"
proof -
  have d': "fd = 3 + int (length (dk_fds d))" "d' = d\<lparr>dk_fds := dk_fds d @ [Some (f, fl, 0)]\<rparr>"
    using assms by (auto simp: dk_open_def plain_flags_def split: if_splits)
  have "dk_fd d' x = (if x = fd then Some (f, fl, 0) else dk_fd d x)" for x
    by (auto simp: dk_fd_def d' nth_append)
  then have "dk_fdfile d' = (dk_fdfile d)(fd \<mapsto> (f, fl))" by (simp add: dk_fdfile_def fun_eq_iff)
  then show ?thesis by (simp add: d' dk_fdfile_def dk_fd_def)
qed

lemma dk_seek_at:
  assumes "dk_fdfile d fd \<noteq> None" and "dk_seek fd off d = (ok, d')"
  shows "(0 \<le> off \<longrightarrow> ok \<and> dk_pos d' fd = off) \<and> dk_fdfile d' = dk_fdfile d \<and> dk_files d' = dk_files d \<and> dk_mapped d' = dk_mapped d"
proof -
  obtain f fl p where fd: "dk_fd d fd = Some (f, fl, p)" using assms(1) by (auto simp: dk_fdfile_def)
  note at = dk_fd_some[OF fd]
  have "dk_fd (d\<lparr>dk_fds := (dk_fds d)[nat (fd - 3) := Some (f, fl, off)]\<rparr>) x = (if x = fd then Some (f, fl, off) else dk_fd d x)" for x
    using at by (auto simp: dk_fd_def nth_list_update)
  then show ?thesis using assms(2) fd by (auto simp: dk_seek_def dk_pos_def dk_fdfile_def fun_eq_iff split: if_splits)
qed

lemma dk_move_quiet:
  assumes "dk_fdfile d fd \<noteq> None"
  shows "dk_fdfile (dk_move fd r d) = dk_fdfile d \<and> dk_files (dk_move fd r d) = dk_files d \<and> dk_mapped (dk_move fd r d) = dk_mapped d"
  using dk_seek_at[OF assms, of "dk_pos d fd + r"] by (cases "dk_seek fd (dk_pos d fd + r) d") (simp add: dk_move_def)

lemma dk_get_file:
  assumes "dk_fdfile d fd = Some (f, fl)" and "reads fl" and "dk_files d f = Some b" and "within b off n" and "dio_ok 512 512 fl a off n"
  shows "dk_get fd a off n d = (n, slice b off n)"
  using assms length_slice[OF assms(4)] by (auto simp: dk_get_def dk_fdfile_some within_def)

lemma dk_put_file:
  assumes "dk_fdfile d fd = Some (f, fl)" and "writes fl" and "dk_files d f = Some b" and "within b off (int (length bs))"
    and "dio_ok 512 512 fl a off (int (length bs))"
  shows "dk_put fd a off bs d = (int (length bs), d\<lparr>dk_files := (dk_files d)(f \<mapsto> overwrite b off bs)\<rparr>)"
proof -
  have "nat off - length b = 0" using within_nat[OF assms(4)] by simp
  then show ?thesis using assms by (auto simp: dk_put_def dk_fdfile_some within_def)
qed

lemma dk_read_file:
  assumes "dk_fdfile d fd = Some (f, fl)" and "reads fl" and "dk_files d f = Some b" and "within b (dk_pos d fd) n"
    and "dio_ok 512 512 fl a (dk_pos d fd) n" and "dk_read fd a n d = ((r, bs), d')"
  shows "r = n \<and> bs = slice b (dk_pos d fd) n \<and> dk_fdfile d' = dk_fdfile d \<and> dk_files d' = dk_files d \<and> dk_mapped d' = dk_mapped d"
  using dk_get_file[OF assms(1-5)] dk_move_quiet[of d fd] assms(1,6) by (auto simp: dk_read_def)

lemma dk_write_file:
  assumes "dk_fdfile d fd = Some (f, fl)" and "writes fl" and "dk_files d f = Some b" and "within b (dk_pos d fd) (int (length bs))"
    and "dio_ok 512 512 fl a (dk_pos d fd) (int (length bs))" and "dk_write fd a bs d = (r, d')"
  shows "r = int (length bs) \<and> dk_files d' = (dk_files d)(f \<mapsto> overwrite b (dk_pos d fd) bs) \<and> dk_fdfile d' = dk_fdfile d
    \<and> dk_mapped d' = dk_mapped d"
  using dk_put_file[OF assms(1-5)] dk_move_quiet[of "d\<lparr>dk_files := (dk_files d)(f \<mapsto> overwrite b (dk_pos d fd) bs)\<rparr>" fd] assms(1,6)
  by (auto simp: dk_write_def)

lemma end_of_maps_ge: "base \<le> end_of_maps ms base"
  by (induction ms base rule: end_of_maps.induct) auto

lemma find_map_end: "end_of_maps ms base \<le> a \<Longrightarrow> find_map ms base a = None"
proof (induction ms base a rule: find_map.induct)
  case (2 f n rw ms base a)
  then show ?case using end_of_maps_ge[of "base + max 0 n" ms] by auto
qed simp

lemma find_map_append:
  "find_map (ms @ [(f, n, rw)]) base a =
     (if end_of_maps ms base \<le> a \<and> a < end_of_maps ms base + n then Some (f, a - end_of_maps ms base, n, rw) else find_map ms base a)"
proof (induction ms base a rule: find_map.induct)
  case (2 g m rw' ms base a)
  then show ?case using end_of_maps_ge[of "base + max 0 m" ms] by auto
qed simp

lemma find_map_ge: "find_map ms base a = Some y \<Longrightarrow> base \<le> a"
proof (induction ms base a rule: find_map.induct)
  case (2 g m rw ms base a)
  show ?case
  proof (cases "base \<le> a \<and> a < base + m")
    case False
    then have "find_map ms (base + max 0 m) a = Some y" using 2(2) by (simp split: if_splits)
    from 2(1)[OF False this] show ?thesis by linarith
  qed simp
qed simp

lemma find_map_from: "find_map ms base a = Some (f, 0, n, rw) \<Longrightarrow> 0 \<le> off \<Longrightarrow> off < n \<Longrightarrow> find_map ms base (a + off) = Some (f, off, n, rw)"
proof (induction ms base a rule: find_map.induct)
  case (2 g m rw' ms base a)
  show ?case
  proof (cases "base \<le> a \<and> a < base + m")
    case True
    then show ?thesis using 2 by auto
  next
    case False
    then have "find_map ms (base + max 0 m) a = Some (f, 0, n, rw)" using 2(2) by (simp split: if_splits)
    from find_map_ge[OF this] 2(1)[OF False this 2(3,4)] 2(3) show ?thesis by auto
  qed
qed simp

lemma dk_mapped_some: "dk_mapped d a = Some (f, n, rw) \<longleftrightarrow> find_map (dk_maps d) 4096 a = Some (f, 0, n, rw)"
  by (auto simp: dk_mapped_def split: option.splits if_splits)

lemma dk_map_new:
  assumes "dk_fdfile d fd = Some (f, fl)" and "reads fl" and "rw \<longrightarrow> writes fl" and "0 < n" and "dk_map rw n fd d = (a', d')"
  shows "(\<exists>a. a' = Some a \<and> a \<noteq> 0 \<and> dk_mapped d a = None \<and> dk_mapped d' = (dk_mapped d)(a \<mapsto> (f, n, rw)))
    \<and> dk_fdfile d' = dk_fdfile d \<and> dk_files d' = dk_files d"
proof -
  define e where "e = end_of_maps (dk_maps d) 4096"
  have d': "a' = Some e" "d' = d\<lparr>dk_maps := dk_maps d @ [(f, n, rw)]\<rparr>"
    using assms by (auto simp: dk_map_def e_def)
  have gone: "e \<le> x \<Longrightarrow> find_map (dk_maps d) 4096 x = None" for x using find_map_end by (simp add: e_def)
  have "dk_mapped d' x = (if x = e then Some (f, n, rw) else dk_mapped d x)" for x
    using gone[of x] assms(4) by (auto simp: d' dk_mapped_def find_map_append e_def[symmetric])
  then have "dk_mapped d' = (dk_mapped d)(e \<mapsto> (f, n, rw))" by (simp add: fun_eq_iff)
  moreover have "e \<noteq> 0" using end_of_maps_ge[of 4096 "dk_maps d"] by (simp add: e_def)
  moreover have "dk_mapped d e = None" using gone[of e] by (simp add: dk_mapped_def)
  ultimately show ?thesis by (simp add: d')
qed

lemma dk_load_file:
  assumes "dk_mapped d a = Some (f, len, rw)" and "dk_files d f = Some b" and "len = int (length b)" and "within b off n"
  shows "dk_load (a + off) n d = Touched (slice b off n)"
proof (cases "n = 0")
  case False
  then have "0 \<le> off" "off < len" "off + n \<le> len" using assms(3,4) by (simp_all add: within_def)
  then show ?thesis
    using assms False find_map_from[of "dk_maps d" 4096 a f len rw off] by (simp add: dk_load_def dk_mapped_some within_def)
qed (simp add: dk_load_def slice_def)

lemma dk_store_file:
  assumes "dk_mapped d a = Some (f, len, True)" and "dk_files d f = Some b" and "len = int (length b)"
    and "within b off (int (length bs))"
  shows "\<exists>d'. dk_store (a + off) bs d = (Touched (), d') \<and> dk_files d' = (dk_files d)(f \<mapsto> overwrite b off bs)
    \<and> dk_fdfile d' = dk_fdfile d \<and> dk_mapped d' = dk_mapped d"
proof (cases "bs = []")
  case True
  then show ?thesis using assms(2) by (simp add: dk_store_def overwrite_def fun_upd_idem)
next
  case False
  then have "0 < int (length bs)" by simp
  moreover have "0 \<le> off" "off + int (length bs) \<le> len" using assms(3,4) by (simp_all add: within_def)
  ultimately have "0 \<le> off" "off < len" "off + int (length bs) \<le> len" by linarith+
  then show ?thesis
    using assms False find_map_from[of "dk_maps d" 4096 a f len True off] by (simp add: dk_store_def dk_mapped_some)
qed

lemma dk_space_file:
  assumes "dk_files d f = Some b" and "within b off n"
  shows "dk_space f True off n d = (0, d)"
    "dk_space f False off n d = (0, d\<lparr>dk_files := (dk_files d)(f \<mapsto> overwrite b off (replicate (nat n) 0))\<rparr>)"
proof -
  have "min n (max 0 (int (length b) - off)) = n" using assms(2) by (simp add: within_def)
  then show "dk_space f True off n d = (0, d)"
    "dk_space f False off n d = (0, d\<lparr>dk_files := (dk_files d)(f \<mapsto> overwrite b off (replicate (nat n) 0))\<rparr>)"
    using assms by (simp_all add: dk_space_def within_def)
qed

interpretation disk: files_kernel disk_kernel dk_files dk_fdfile dk_pos dk_mapped 512 512
proof (unfold_locales, goal_cases)
  case (1 k f fl fd em k')
  then show ?case using dk_open_new[of k f fl fd em k'] by (simp add: disk_kernel_def)
next
  case (2 f fd k lims k')
  then show ?case by (auto simp add: disk_kernel_def)
next
  case (3 k fd off ok k')
  then show ?case using dk_seek_at[of k fd off ok k'] by (simp add: disk_kernel_def)
next
  case (4 k fd f fl b n a r bs k')
  then show ?case using dk_read_file[OF 4(1-5)] by (simp add: disk_kernel_def)
next
  case (5 k fd f fl b n a r bs k')
  then show ?case using dk_read_file[OF 5(1-5)] by (simp add: disk_kernel_def)
next
  case (6 k fd f fl b off n a r bs k')
  then show ?case using dk_get_file[OF 6(1-5)] by (auto simp: disk_kernel_def)
next
  case (7 k fd f fl b bs a r k')
  then show ?case using dk_write_file[OF 7(1-5)] by (simp add: disk_kernel_def)
next
  case (8 k fd f fl b bs a r k')
  then show ?case using dk_write_file[OF 8(1-5)] by (simp add: disk_kernel_def)
next
  case (9 k fd f fl b off bs a r k')
  then show ?case using dk_put_file[OF 9(1-5)] by (auto simp: disk_kernel_def)
next
  case (10 k fd f fl b sz k')
  then show ?case by (auto simp: disk_kernel_def dk_fstat_def dk_fdfile_some)
next
  case (11 k fd f fl rw b n a' k')
  then show ?case using dk_map_new[of k fd f fl rw n a' k'] by (simp add: disk_kernel_def)
next
  case (12 k a f len rw b off n got k')
  then show ?case using dk_load_file[OF 12(1-4)] by (auto simp: disk_kernel_def)
next
  case (13 k a f len b off bs stored k')
  then show ?case using dk_store_file[OF 13(1-4)] by (auto simp: disk_kernel_def)
next
  case (14 fd u start n k ok k')
  then show ?case by (simp add: disk_kernel_def)
next
  case (15 k fd f fl b off n r k')
  then show ?case using dk_space_file(1)[OF 15(3,4)] by (auto simp: disk_kernel_def)
next
  case (16 k fd f fl b off n r k')
  then show ?case using dk_space_file(2)[OF 16(3,4)] by (auto simp: disk_kernel_def)
next
  case (17 k fd r k')
  then show ?case by (auto simp: disk_kernel_def dk_fdfile_def)
next
  case (18 k fd r k')
  then show ?case by (auto simp: disk_kernel_def dk_fdfile_def)
next
  case (19 n k m' k')
  then show ?case by (auto simp: disk_kernel_def)
next
  case (20 a k)
  then show ?case by (simp add: disk_kernel_def)
next
  case (21 wrec place k woffset k')
  then show ?case by (auto simp: disk_kernel_def dk_logs_def split: if_splits)
next
  case (22 lo hi m k nerr k')
  then show ?case by (auto simp: disk_kernel_def split: prod.splits)
next
  case (23 k)
  then show ?case by (simp add: disk_kernel_def)
qed simp_all

end
