(* ===== verification/Doio_Claims.thy ===== *)
theory Doio_Claims
  imports Doio_Run Doio_Disk Iog_Claims
begin

text \<open>
  What \<open>doio\<close> does with its requests, with those that \<open>iogen\<close> makes and with calls that fail.
\<close>

section \<open>From \<open>iogen\<close> to \<open>doio\<close>\<close>





text \<open>A library of patterns, and a process with a check of each write, locks and a log.\<close>

definition cyclic :: "nat \<Rightarrow> byte list \<Rightarrow> int \<Rightarrow> byte list" where
  "cyclic n pat s = map (\<lambda>i. if pat = [] then 0 else pat ! ((nat s + i) mod length pat)) [0..<n]"

definition sample_env :: doio_env where
  "sample_env =
     \<lparr>k_opt = False, w_opt = False, v_opt = False, V_opt = False, Validation_Flags = 0, Release_Interval = 0, Nmemalloc = 1,
      pid = 5, Host = ''here'', Prog = ''doio'', dio_env = None,
      unset_slot = \<lparr>c_file = [], c_oflags = 0, c_fd = 0, c_rtc = 0, c_memalign = 0, c_miniosz = 0, c_maxiosz = 0, c_memaddr = 0, c_memlen = 0\<rparr>,
      shm_key = (\<lambda>_. 0), mem_filename = id, pattern_fill = cyclic, pattern_check = (\<lambda>b pat s. b \<noteq> cyclic (length b) pat s)\<rparr>"



lemma cyclic_length [simp]: "length (cyclic n pat s) = n"
  by (simp add: cyclic_def)








section \<open>Without faults\<close>


text \<open>A write that is refused, on a disk with a file of 64 bytes, and an input that breaks off.\<close>

definition small_disk :: disk where
  "small_disk = empty_disk\<lparr>dk_files := [''/d'' \<mapsto> replicate 64 0]\<rparr>"

definition small_req :: "rtype \<Rightarrow> int \<Rightarrow> io_req" where
  "small_req t fl = \<lparr>r_type = t, r_magic = DOIO_MAGIC, r_file = ''/d'', r_oflags = fl, r_offset = 8, r_nbytes = 16,
     r_pattern = 65, r_uflags = F_WORD_ALIGNED, r_aio_strat = 0, r_nstrides = 1, r_nent = 1\<rparr>"



section \<open>The check\<close>

text \<open>
  \<open>doio_pat_check\<close> reports a buffer exactly when it differs from the repeated pattern, and the
  file offset of its report is that of the first byte that differs: the search over the rest of the pattern, then
  the pattern from its start again, then what is left, compares each byte with the one at its place modulo the
  length of the pattern.
\<close>

theorem pat_check_finds_first:
  assumes "pat \<noteq> []" and "0 \<le> shift"
    and law: "pattern_check e buf pat shift \<longleftrightarrow> (\<exists>i < length buf. buf ! i \<noteq> pat ! ((nat shift + i) mod length pat))"
  shows "case doio_pat_check e buf off pat shift of
      None \<Rightarrow> \<forall>i < length buf. buf ! i = pat ! ((nat shift + i) mod length pat)
    | Some r \<Rightarrow> (\<exists>j < length buf. r = Some (off + int j) \<and> buf ! j \<noteq> pat ! ((nat shift + j) mod length pat)
        \<and> (\<forall>i < j. buf ! i = pat ! ((nat shift + i) mod length pat)))"
proof (cases "pattern_check e buf pat shift")
  case False
  then have "\<forall>i < length buf. buf ! i = pat ! ((nat shift + i) mod length pat)" using law by simp
  moreover have "doio_pat_check e buf off pat shift = None" using False by (simp add: doio_pat_check_def)
  ultimately show ?thesis by simp
next
  case True
  define idx where "idx = nat (c_rem shift (int (length pat)))"
  have idx: "idx = nat shift mod length pat" "idx < length pat"
    using assms(1,2) by (simp_all add: idx_def c_rem_nonneg nat_mod_distrib)
  have at: "(idx + i) mod length pat = (nat shift + i) mod length pat" for i
    using idx(1) by (simp add: mod_simps)
  have "corrupt_at buf pat idx 0 \<noteq> None" using corrupt_at_none[OF idx(2), of buf 0] True law at by simp
  then obtain m where m: "corrupt_at buf pat idx 0 = Some m" by blast
  from corrupt_at_some[OF idx(2) m] show ?thesis
    using True m at by (auto simp: doio_pat_check_def idx_def[symmetric])
qed

theorem pat_check_finds_first_witness:
  "doio_pat_check sample_env [1, 2, 3, 1, 2, 4] 100 [1, 2, 3] 0 = Some (Some 105) \<and>
   (case doio_pat_check sample_env [1, 2, 3, 1, 2, 4] 100 [1, 2, 3] 0 of
      None \<Rightarrow> \<forall>i < length [1, 2, 3, 1, 2, 4::byte]. [1, 2, 3, 1, 2, 4::byte] ! i = [1, 2, 3] ! ((nat 0 + i) mod length [1, 2, 3::byte])
    | Some r \<Rightarrow> (\<exists>j < length [1, 2, 3, 1, 2, 4::byte]. r = Some (100 + int j)
        \<and> [1, 2, 3, 1, 2, 4::byte] ! j \<noteq> [1, 2, 3] ! ((nat 0 + j) mod length [1, 2, 3::byte])
        \<and> (\<forall>i < j. [1, 2, 3, 1, 2, 4::byte] ! i = [1, 2, 3] ! ((nat 0 + i) mod length [1, 2, 3::byte]))))"
proof (rule conjI)
  show "doio_pat_check sample_env [1, 2, 3, 1, 2, 4] 100 [1, 2, 3] 0 = Some (Some 105)" by code_simp
  have differs: "pattern_check sample_env [1, 2, 3, 1, 2, 4] [1, 2, 3] 0" by code_simp
  have "\<exists>i < length [1, 2, 3, 1, 2, 4::byte]. [1, 2, 3, 1, 2, 4::byte] ! i \<noteq> [1, 2, 3] ! ((nat 0 + i) mod length [1, 2, 3::byte])"
    by (rule exI[of _ 5]) simp
  with differs show "case doio_pat_check sample_env [1, 2, 3, 1, 2, 4] 100 [1, 2, 3] 0 of
      None \<Rightarrow> \<forall>i < length [1, 2, 3, 1, 2, 4::byte]. [1, 2, 3, 1, 2, 4::byte] ! i = [1, 2, 3] ! ((nat 0 + i) mod length [1, 2, 3::byte])
    | Some r \<Rightarrow> (\<exists>j < length [1, 2, 3, 1, 2, 4::byte]. r = Some (100 + int j)
        \<and> [1, 2, 3, 1, 2, 4::byte] ! j \<noteq> [1, 2, 3] ! ((nat 0 + j) mod length [1, 2, 3::byte])
        \<and> (\<forall>i < j. [1, 2, 3, 1, 2, 4::byte] ! i = [1, 2, 3] ! ((nat 0 + i) mod length [1, 2, 3::byte])))"
    by (intro pat_check_finds_first) simp_all
qed

section \<open>The cache\<close>

text \<open>
  The table of descriptors is a map from a file and open flags to a descriptor, with one slot
  for each. A lookup of what is there changes nothing of the map and makes no call; of what is not there it adds the new
  descriptor, and drops at most the entry that has gone unused the longest, when \<open>open\<close> ran out of descriptors.
\<close>

theorem cache_refines_map:
  assumes "alloc_fdcache K e file oflags st = Inr (i, st')" and "one_slot_each (cache st)"
  shows "one_slot_each (cache st') \<and> used (cache st') i \<and> key (cache st' ! i) = (file, oflags) \<and> c_rtc (cache st' ! i) = Reqno st \<and>
    (if cache_map (cache st) (file, oflags) \<noteq> None then cache_map (cache st') = cache_map (cache st) \<and> kern st' = kern st
     else remembers (file, oflags) i (cache st) (cache st'))"
  by (rule alloc_fdcache_map[OF assms])

text \<open>A kernel that has room for two descriptors, and a third file.\<close>

definition narrow_kernel :: "disk doio_kernel" where
  "narrow_kernel = disk_kernel\<lparr>d_open := (\<lambda>f fl d. if 2 \<le> length (filter (\<lambda>x. x \<noteq> None) (dk_fds d)) then ((-1, True), d) else dk_open f fl d)\<rparr>"

definition open_slot :: "string \<Rightarrow> int \<Rightarrow> int \<Rightarrow> fd_cache" where
  "open_slot f fd r = \<lparr>c_file = f, c_oflags = O_CREAT, c_fd = fd, c_rtc = r, c_memalign = 1, c_miniosz = 1, c_maxiosz = 1,
     c_memaddr = 0, c_memlen = 0\<rparr>"

definition full_state :: "disk doio_state" where
  "full_state = (init_state [] [] (empty_disk\<lparr>dk_fds := [Some (''/a'', O_CREAT, 0), Some (''/b'', O_CREAT, 0)]\<rparr>))
     \<lparr>cache := [open_slot ''/a'' 3 1, open_slot ''/b'' 4 2], Reqno := 3\<rparr>"

lemma full_one_each: "one_slot_each (cache full_state)"
  by (auto simp: one_slot_each_def used_def full_state_def open_slot_def key_def less_Suc_eq numeral_2_eq_2)

lemma result_of:
  "(case r of Inl _ \<Rightarrow> False | Inr (i, s) \<Rightarrow> P i s) \<Longrightarrow> \<exists>i s. r = Inr (i, s) \<and> P i s"
  by (simp split: sum.splits prod.splits)

lemma full_evicts:
  "case alloc_fdcache narrow_kernel sample_env ''/c'' O_CREAT full_state of Inl _ \<Rightarrow> False
   | Inr (i, st') \<Rightarrow> i = 0 \<and> map (\<lambda>f. cache_map (cache st') (f, O_CREAT)) [''/a'', ''/b'', ''/c''] = [None, Some 4, Some 5]"
  by code_simp

theorem cache_refines_map_witness:
  "\<exists>st'. alloc_fdcache narrow_kernel sample_env ''/c'' O_CREAT full_state = Inr (0, st') \<and>
     map (\<lambda>f. cache_map (cache st') (f, O_CREAT)) [''/a'', ''/b'', ''/c''] = [None, Some 4, Some 5] \<and>
     one_slot_each (cache st') \<and> c_rtc (cache st' ! 0) = Reqno full_state"
proof -
  obtain st' where st': "alloc_fdcache narrow_kernel sample_env ''/c'' O_CREAT full_state = Inr (0, st')"
    "map (\<lambda>f. cache_map (cache st') (f, O_CREAT)) [''/a'', ''/b'', ''/c''] = [None, Some 4, Some 5]"
    using result_of[OF full_evicts] by (elim exE conjE) (rule that, simp only:)
  note now = cache_refines_map[OF st'(1) full_one_each]
  show ?thesis
    by (rule exI[of _ st'], intro conjI) (rule st' now[THEN conjunct1] now[THEN conjunct2, THEN conjunct2, THEN conjunct2, THEN conjunct1])+
qed

section \<open>Calls that fail\<close>

text \<open>
  With \<open>-r 1\<close> no process of \<open>doio\<close> executes anything: before its first request it releases the cache of
  descriptors, which is still empty, and \<open>alloc_fd\<close> then goes on to open a file without a name. The process
  ends with the status of a set-up error, whatever the request and the system.
\<close>

theorem release_ends_run:
  assumes "Release_Interval e = 1" and "r_magic q = DOIO_MAGIC"
  shows "doio_loop K e (Got q # inps) (init_state mems p k) = (Exit E_SETUP, 0, init_state mems p k)"
proof -
  have "c_rem 1 1 = 0" "c_rem 1 5 = 1" by (simp_all add: c_rem_nonneg)
  then show ?thesis
    using assms by (simp add: doio_step_def before_request_def init_state_def release_fds_def)
qed

theorem release_ends_run_witness:
  "doio_loop disk_kernel (sample_env\<lparr>Release_Interval := 1\<rparr>) [Got (small_req READ O_RDONLY)] (init_state [] [] small_disk)
     = (Exit 2, 0, init_state [] [] small_disk)"
  by (rule release_ends_run) (simp_all add: small_req_def)

lemma write_at_reaches:
  assumes w: "write_at K q fd s off st = Inr (w, st')" and seek: "fst (d_lseek K fd (r_offset q) (kern st))" and t: "r_type q = WRITE"
  shows "w \<noteq> None"
proof -
  obtain k1 where k1: "d_lseek K fd (r_offset q) (kern st) = (True, k1)" using seek by (metis prod.collapse)
  obtain bs where bs: "get_bytes off (r_nbytes q) st = Inr bs"
    using w by (cases "get_bytes off (r_nbytes q) st") (simp_all add: write_at_def t k1)
  obtain n k2 where "d_write K fd (base_addr st + off) bs k1 = (n, k2)" by (metis prod.exhaust)
  then show ?thesis using w by (simp add: write_at_def t k1 bs split: if_splits) blast+
qed

text \<open>
  The log of writes does not tell whether a write was done: after every WRITE request that had its
  descriptor and buffer, and whose seek and log records went through, the last thing \<open>do_write\<close> does to the system is to
  mark its record in the log as done, also when the write was short or refused and \<open>do_write\<close> returns an error.
\<close>

theorem failed_write_logged_done:
  assumes "do_write K e q st = Inr (r, st')" and "r_type q = WRITE" and "w_opt e" and "\<not> k_opt e" and "\<not> v_opt e"
    and "prepare K e (r_file q) (r_oflags q) (r_nbytes q) (st\<lparr>Pattern := (Pattern st)[0 := word_of_int (r_pattern q)]\<rparr>) = Inr ((0, fd, i), st1)"
    and seeks: "\<And>fd off k. fst (d_lseek K fd off k)" and logs: "\<And>w place k. fst (d_wlog K w place k) \<noteq> -1"
  shows "\<exists>wrec place k. kern st' = snd (d_wlog K wrec place k) \<and> place \<noteq> -1 \<and> w_done wrec
    \<and> w_path wrec = r_file q \<and> w_offset wrec = r_offset q \<and> w_nbytes wrec = r_nbytes q"
proof -
  obtain off st2 where a: "aligned_offset K q (cache st1 ! i) st1 = Inr (off, st2)"
    using assms(1,6) by (auto simp: do_write_def Let_def on_ok_Inr_iff)
  obtain st3 where b: "fill_buffer e off (r_nbytes q) st2 = Inr st3"
    using assms(1,6) a by (auto simp: do_write_def Let_def on_ok_Inr_iff)
  define wrec where "wrec = write_record e False (r_file q) (r_oflags q) (r_offset q) (r_nbytes q) st3"
  obtain place k4 where l: "d_wlog K wrec (-1) (kern st3) = (place, k4)" by (metis prod.exhaust)
  have p: "place \<noteq> -1" using logs[of wrec "-1" "kern st3"] l by simp
  define st5 where "st5 = st3\<lparr>kern := k4\<rparr>"
  have eq: "on_ok (write_at K q fd (cache st5 ! i) off st5) (\<lambda>(w, st6). case w of None \<Rightarrow> Inr (-1, st6)
      | Some rval \<Rightarrow> Inr (if rval = -1 then -1 else 0, log_done K wrec (Some place) st6)) = Inr (r, st')"
    using assms(1-6) a b l p by (simp add: do_write_def Let_def lock_if_def verify_if_def log_write_def wrec_def st5_def cong: option.case_cong)
  then obtain w st6 where w: "write_at K q fd (cache st5 ! i) off st5 = Inr (w, st6)"
    by (cases "write_at K q fd (cache st5 ! i) off st5") auto
  have "w \<noteq> None"
    by (rule write_at_reaches[OF w seeks assms(2)])
  then obtain rval where "w = Some rval" by blast
  then have "kern st' = snd (d_wlog K (wrec\<lparr>w_done := True\<rparr>) place (kern st6))" using eq w by (auto simp: log_done_def)
  moreover have "w_done (wrec\<lparr>w_done := True\<rparr>)" "w_path (wrec\<lparr>w_done := True\<rparr>) = r_file q" "w_offset (wrec\<lparr>w_done := True\<rparr>) = r_offset q"
    "w_nbytes (wrec\<lparr>w_done := True\<rparr>) = r_nbytes q"
    by (simp_all add: wrec_def write_record_def)
  ultimately show ?thesis using p by blast
qed

text \<open>A disk that refuses every write: the log says that it was done.\<close>

definition refusing_kernel :: "disk doio_kernel" where
  "refusing_kernel = disk_kernel\<lparr>d_lseek := (\<lambda>fd off d. (True, snd (dk_seek fd off d))), d_write := (\<lambda>_ _ _ d. (-1, d)),
     d_wlog := (\<lambda>w place d. (0, snd (dk_logs w place d)))\<rparr>"

definition logging_env :: doio_env where
  "logging_env = sample_env\<lparr>w_opt := True\<rparr>"

definition refused_start :: "disk doio_state" where
  "refused_start = init_state [no_mem\<lparr>m_type := MEM_DATA\<rparr>] (chars ''-:5:here:doio*'') small_disk"

lemma refused_prepared:
  "case prepare refusing_kernel logging_env ''/d'' O_RDWR 16 (refused_start\<lparr>Pattern := (Pattern refused_start)[0 := 65]\<rparr>) of
     Inl _ \<Rightarrow> False | Inr ((r, _), _) \<Rightarrow> r = 0"
  by code_simp

lemma refused_write:
  "case do_write refusing_kernel logging_env (small_req WRITE O_RDWR) refused_start of
     Inl _ \<Rightarrow> False | Inr (r, st') \<Rightarrow> r = -1 \<and> map w_done (dk_log (kern st')) = [True] \<and> dk_files (kern st') ''/d'' = Some (replicate 64 0)"
  by code_simp

theorem failed_write_logged_done_witness:
  "\<exists>st' wrec place k. do_write refusing_kernel logging_env (small_req WRITE O_RDWR) refused_start = Inr (-1, st') \<and>
     kern st' = snd (d_wlog refusing_kernel wrec place k) \<and> place \<noteq> -1 \<and> w_done wrec \<and>
     w_path wrec = ''/d'' \<and> w_offset wrec = 8 \<and> w_nbytes wrec = 16"
proof -
  let ?q = "small_req WRITE O_RDWR"
  obtain st' where st': "do_write refusing_kernel logging_env ?q refused_start = Inr (-1, st')"
    using refused_write by (cases "do_write refusing_kernel logging_env ?q refused_start") auto
  obtain fd i st1 where pr: "prepare refusing_kernel logging_env ''/d'' O_RDWR 16 (refused_start\<lparr>Pattern := (Pattern refused_start)[0 := 65]\<rparr>)
      = Inr ((0, fd, i), st1)"
    using refused_prepared
    by (cases "prepare refusing_kernel logging_env ''/d'' O_RDWR 16 (refused_start\<lparr>Pattern := (Pattern refused_start)[0 := 65]\<rparr>)") auto
  have "\<exists>wrec place k. kern st' = snd (d_wlog refusing_kernel wrec place k) \<and> place \<noteq> -1 \<and> w_done wrec
    \<and> w_path wrec = r_file ?q \<and> w_offset wrec = r_offset ?q \<and> w_nbytes wrec = r_nbytes ?q"
    by (rule failed_write_logged_done[OF st', of fd i st1])
      (use pr in \<open>simp_all add: small_req_def logging_env_def sample_env_def refusing_kernel_def\<close>)
  then show ?thesis using st' by (simp add: small_req_def)
qed

end
