(* ===== verification/Spec2Isabelle.thy ===== *)
theory Spec2Isabelle
  imports Fsx_Start Fsx_Replay Aio_Claims Aio_Limits Aio_Barrier Fss_Claims Fss_Io_Claims Iog_Claims Doio_Claims
begin

text \<open>
  A verification development for the C programs of the I/O integration test of LonganChkout
  (\<open>testcases/stress_test/io_integration_test/io_integration_test.sh.data/ltp\<close>): the file system
  exerciser \<open>fsx.c\<close>, the asynchronous I/O benchmark \<open>aio-stress.c\<close>, the file system stress test
  \<open>fsstress.c\<close>, the generator of I/O requests \<open>iogen.c\<close> and the program that executes them, \<open>doio.c\<close>. They are test programs, so their correctness has two sides: what they do to the
  files is what they mean to do, and their own books agree with it, so that an error they report is
  one of the system under test. The rest of the repository is shell and Python that runs them.

  \<^bold>\<open>How the programs are modelled.\<close> A function of the source is a definition with the name it has
  there. The state of a program is a record; functions take it and return it updated. An exit, a
  failed assertion, a fault (a read or write outside of what is in use, a division by zero) and a
  loop that does not end are values of the type \<open>halt\<close> (\<open>C_Prelude\<close>): \<open>Inl\<close> of them is the result
  of a function that does not return. Integers are \<open>int\<close> with the conversions of the C types written
  out (\<open>u32\<close>, \<open>s32\<close>, \<open>u64\<close>, \<open>c_div\<close>). A loop that may not end is a \<open>partial_function (option)\<close>,
  and its caller turns \<open>None\<close> into \<open>Hang\<close>; the other loops are structural or have a measure. The
  only fuel is the number of steps asked for (\<open>op_loop\<close> of \<open>fsstress\<close>, the runs of \<open>fsx\<close>), which
  the source counts too.

  The kernel and the libraries are not in the repository: they are parameters, records of functions
  on a state of any type. What the programs rely on is a \<open>locale\<close>: \<open>posix_file\<close> and \<open>posix_probes\<close>
  for one file, \<open>aio_context\<close> for asynchronous requests, \<open>namespace\<close> for the directory tree and \<open>file_io\<close>, which
  extends it, for descriptors, \<open>doio_calls\<close> and \<open>files_kernel\<close>, which extends it, for the calls of \<open>doio\<close>. Each
  is interpreted on a concrete kernel (\<open>Ram_File\<close>, \<open>Aio_Claims\<close>, \<open>Mem_Tree\<close>, \<open>Doio_Disk\<close>), in which the witnesses
  run the programs.

  \<^bold>\<open>Shared.\<close> \<open>C_Prelude\<close> has the C integers, results and \<open>on_ok\<close>; \<open>C_Text\<close> the numbers
  and words of \<open>stdio\<close> and \<open>stdlib\<close> (\<open>%x\<close>, \<open>%d\<close>, \<open>strtol\<close>, \<open>strtoul\<close>, \<open>atoi\<close>, \<open>strtok\<close>, \<open>fgets\<close>), with the lemmas
  that printed numbers are read back; \<open>Flat_File\<close> the file as a list of bytes, the specification of
  both sides of \<open>fsx\<close>; \<open>Kernel_File\<close> the calls on an open file and the contract \<open>posix_file\<close>.

  \<^bold>\<open>fsx\<close> keeps a copy of the file (\<open>good_buf\<close>, \<open>file_size\<close>), makes random or recorded operations on
  both, and compares.
  \<^item> \<open>Fsx_State\<close>: the enumerations, the log entry, the configuration, the globals.
  \<^item> \<open>Fsx_Options\<close>: \<open>getnum\<close> and the options of \<open>main\<close> (C14).
  \<^item> \<open>Fsx_Log\<close>, \<open>Fsx_Replay\<close>: the log ring (\<open>log4\<close>, \<open>log5\<close>), \<open>logdump\<close>, the ops file and
    \<open>read_op\<close>. The ring is an interpretation of the locale \<open>ring_log\<close>; the file written is read back
    (C13), with an exception (\<open>replayed_skip_not_replayable\<close>).
  \<^item> \<open>Fsx_Shadow\<close>: what each operation does to the copy; \<open>Fsx_Ops\<close>: the checks and reads;
    \<open>Fsx_Mutators\<close>: the operations that change the file.
  \<^item> \<open>Fsx_Test\<close>: \<open>test\<close>, the choice of an operation and its dispatch; \<open>Fsx_Main\<close>: probes, start, run.
  \<^item> \<open>Fsx_Sync\<close> has the invariant: as long as the kernel keeps \<open>posix_file\<close>, the copy is the content of
    the file. \<open>Fsx_Checks_Ok\<close>, \<open>Fsx_Writes_Ok\<close>, \<open>Fsx_Falloc_Ok\<close>, \<open>Fsx_Test_Ok\<close> and \<open>Fsx_No_Alarm\<close> show
    that every operation keeps it and reports nothing.
  \<^item> \<open>Fsx_Claims\<close>, \<open>Fsx_Start\<close>: no false alarm for a test and a whole run (C1, C2); wrong reads,
    sizes and page ends are reported (C6, C8, C9); writes refine \<open>pwrite\<close> (C7); the copy loop ends
    when the kernel makes progress and not otherwise (C10, C11); the search for a destination may not
    end (C12).

  \<^bold>\<open>aio-stress\<close> runs threads through stages (write, read, random write, random read); a thread keeps
  lists of operations, a stack of free units and the requests in flight.
  \<^item> \<open>Aio_Ring\<close>: the circular lists (\<open>oper_list_add\<close>, \<open>oper_list_del\<close>) on a heap, with the locale
    \<open>oper_lists\<close> that says they are lists (C20).
  \<^item> \<open>Aio_State\<close>: the structures and the latency statistics (C26).
  \<^item> \<open>Aio_Io\<close>: completing, preparing and submitting requests; \<open>Aio_Io_Ok\<close> the contract \<open>aio_context\<close>
    and the accounts of units and operations that every function keeps.
  \<^item> \<open>Aio_Worker\<close>: the scheduler and \<open>worker\<close>; \<open>Aio_Worker_Ok\<close>, \<open>Aio_Stages\<close>, \<open>Aio_Worker_Ends\<close> its invariant and
    the end of each loop. What the other threads do between two steps of a thread is a parameter (the
    fields \<open>a_lock\<close>, \<open>a_wait\<close>, \<open>a_counts\<close> of the kernel): \<open>unstopped\<close> and \<open>all_meet\<close> say that none ends a
    stage early and that every meeting takes place.
  \<^item> \<open>Aio_Barrier\<close>: the meetings of the threads before and after a stage, as a step relation; stages
    are in step (C16), but a thread that leaves strands the others (C17).
  \<^item> \<open>Aio_Setup\<close>: options and set-up of \<open>main\<close>.
  \<^item> \<open>Aio_Claims\<close>, \<open>Aio_Limits\<close>: a thread completes (C15), submissions and rounds (C18, C19), and the
    limits of single functions (C21, C22, C23, C24, C25, C27, C28).

  \<^bold>\<open>fsstress\<close> makes random operations on a directory tree and keeps tables of the files it has made.
  \<^item> \<open>Fss_Table\<close>: the tables, the cache of directories, names and choices (\<open>get_fname\<close>,
    \<open>generate_fname\<close>); \<open>Fss_Forest\<close>, \<open>Fss_Table_Ok\<close>, \<open>Fss_Lookup_Ok\<close> show that the tables are a
    forest, that the cache never misleads (C30) and that names are short and different (\<open>names_distinct_and_short\<close>).
  \<^item> \<open>Fss_Paths\<close>: the functions \<open>*_path\<close>, which go down a path that is too long; \<open>Fss_Tree\<close> has the
    contract \<open>namespace\<close> of the calls on names and shows that these functions act as the call on the
    whole path (C29).
  \<^item> \<open>Fss_Ops\<close>, \<open>Fss_Attrs\<close>: the operations on names and on attributes. \<open>Fss_Mirror\<close> relates a forest to a
    directory tree; \<open>Fss_Ops_Ok\<close>, \<open>Fss_Dir_Ok\<close>, \<open>Fss_Link_Ok\<close>, \<open>Fss_Rename_Ok\<close> and \<open>Fss_Attrs_Ok\<close> show
    that every operation keeps the tables the mirror of the tree.
  \<^item> \<open>Fss_Ranges\<close>, \<open>Fss_Io\<close>, \<open>Fss_Space\<close>, \<open>Fss_Clone\<close>: the operations on contents, on a record \<open>io_calls\<close> of
    the calls on descriptors. \<open>Fss_Io_Ok\<close> and \<open>Fss_Clone_Ok\<close> show, from the contract \<open>file_io\<close>, that none of
    them touches the tables or the tree and which of them may not end. \<open>Fss_Ranges_Ok\<close> and \<open>Fss_Io_Claims\<close>
    say which requests they make (C37, C35): no others, because a kernel that
    does something else with others makes no difference; and the copying ends (C36).
  \<^item> \<open>Fss_Process\<close>: the table of operations and its frequencies, \<open>doproc\<close>; \<open>Fss_Process_Ok\<close>, \<open>Mem_Tree\<close>
    and \<open>Fss_Claims\<close>: a whole process keeps the mirror (C3), the next one may not (C31), how
    operations are chosen (C32, C33) and the command of \<open>-x\<close> is executed (C34).

  \<^bold>\<open>iogen\<close> writes random requests for files, made or measured at the start, into a pipe.
  \<^item> \<open>Io_Req\<close>: the request of \<open>doio.h\<close>; \<open>Iog_Request\<close>: the choice of call, file, flags, offset and length
    (\<open>form_iorequest\<close>) and the loop of \<open>main\<close>. The random numbers are a parameter with the contract
    \<open>random_ranges\<close>; \<open>Iog_Request_Ok\<close> shows in it that requests lie in their files and are aligned.
  \<^item> \<open>Iog_Setup\<close>: \<open>parse_cmdline\<close> with its options and files, \<open>create_file\<close>, \<open>get_file_info\<close>, \<open>init_output\<close>.
  \<^item> \<open>Iog_Claims\<close>: from the command line to the requests (C38); a mode in which no request is
    produced any more (C39); files that cannot be made (C40).

  \<^bold>\<open>doio\<close> reads the requests of \<open>iogen\<close> and executes them on its files, with a cache of descriptors, buffers of
  several kinds, a check of each write, locks and a log.
  \<^item> \<open>Doio_State\<close>: the globals, \<open>alloc_fdcache\<close> and \<open>alloc_mem\<close>; \<open>Doio_Io\<close>: \<open>do_read\<close>, \<open>do_write\<close>, \<open>do_rw\<close>,
    \<open>do_xfsctl\<close>, \<open>do_sync\<close>, \<open>check_file\<close> and the loop of \<open>doio\<close>; \<open>Doio_Main\<close>: \<open>parse_cmdline\<close> and the parent that waits.
  \<^item> \<open>Doio_Ok\<close>, \<open>Doio_Safe\<close>: from the contract \<open>doio_calls\<close>, which lets every call fail, no function faults
    (C5). \<open>Doio_Cache\<close>: the cache is a map from file and flags to descriptors (\<open>cache_refines_map\<close>).
  \<^item> \<open>Doio_Files\<close>, \<open>Doio_Served\<close>, \<open>Doio_Transfers\<close>, \<open>Doio_Run\<close>: from the contract \<open>files_kernel\<close>, in which calls do what
    they say, every request is executed. \<open>Doio_Disk\<close> is a kernel that keeps both contracts.
  \<^item> \<open>Doio_Claims\<close>: the two programs together (C4), and the errors of \<open>doio\<close>
    (\<open>release_ends_run\<close>, \<open>failed_write_logged_done\<close>).

  \<^bold>\<open>Not modelled.\<close> Messages, times and their rounding in \<open>double\<close>; the creation of threads and
  processes, signals, and the opening of log files; memory that runs out. Of \<open>fsx\<close> the opening of
  files in \<open>main\<close>, of \<open>aio-stress\<close> shared memory and the opening of files.
  Of \<open>fsstress\<close> the set-up and the signals in \<open>main\<close>, and \<open>show_ops\<close>.
  Of \<open>iogen\<close> the texts of \<open>startup_info\<close> and \<open>help\<close>; of \<open>doio\<close> delays, \<open>-e\<close>, the opening of the input and of the
  log, and functions of asynchronous requests that nothing calls.
  \<open>growfiles.c\<close> is not modelled so far; \<open>hackbench.c\<close> and the small helper
  programs consist of system calls.
\<close>

end
